(* ===== verification/Kernel_Prelude.thy ===== *)
theory Kernel_Prelude
  imports Main "HOL-Library.Word" "HOL-Library.Monad_Syntax"
begin

text \<open>
  Shared ground of the development: machine integers and C strings, the error numbers of
  \<^verbatim>\<open>include/errno.h\<close>, little-endian byte codecs, the first-free scan every fixed table of
  the kernel uses, the pool interfaces (locales) those tables implement, and the
  collections of rewrite rules the component theories share.

  Conventions used everywhere:
  \<^item> a \<^verbatim>\<open>uint8_t\<close> .. \<^verbatim>\<open>uint64_t\<close> is a word of that width, so arithmetic wraps as in C;
  \<^item> a NUL-terminated C string is the list of its bytes before the NUL;
  \<^item> a pointer into a static table is the index of the element (\<open>None\<close> is \<open>NULL\<close>);
  \<^item> an operation whose C loop may run forever, or that stores or loads through \<open>NULL\<close>,
    returns an \<open>option\<close>: \<open>None\<close> says that control does not come back to the caller.
\<close>

unbundle bit_operations_syntax

type_synonym u8 = "8 word"
type_synonym u16 = "16 word"
type_synonym u32 = "32 word"
type_synonym u64 = "64 word"
type_synonym cstr = "u8 list"

named_theorems word_defs \<open>constants of the machine, unfolded to numerals\<close>
named_theorems pool_simps \<open>what a pool operation does to the table\<close>

section \<open>Error numbers\<close>

abbreviation EPERM :: int where "EPERM \<equiv> 1"
abbreviation ENOENT :: int where "ENOENT \<equiv> 2"
abbreviation EIO :: int where "EIO \<equiv> 5"
abbreviation E2BIG :: int where "E2BIG \<equiv> 7"
abbreviation ENOEXEC :: int where "ENOEXEC \<equiv> 8"
abbreviation EBADF :: int where "EBADF \<equiv> 9"
abbreviation ECHILD :: int where "ECHILD \<equiv> 10"
abbreviation ENOMEM :: int where "ENOMEM \<equiv> 12"
abbreviation EFAULT :: int where "EFAULT \<equiv> 14"
abbreviation EEXIST :: int where "EEXIST \<equiv> 17"
abbreviation ENOTDIR :: int where "ENOTDIR \<equiv> 20"
abbreviation EISDIR :: int where "EISDIR \<equiv> 21"
abbreviation EINVAL :: int where "EINVAL \<equiv> 22"
abbreviation EMFILE :: int where "EMFILE \<equiv> 24"
abbreviation ENOTTY :: int where "ENOTTY \<equiv> 25"
abbreviation ENOSPC :: int where "ENOSPC \<equiv> 28"
abbreviation ERANGE :: int where "ERANGE \<equiv> 34"
abbreviation ENAMETOOLONG :: int where "ENAMETOOLONG \<equiv> 36"
abbreviation ENOSYS :: int where "ENOSYS \<equiv> 38"
abbreviation ENOTEMPTY :: int where "ENOTEMPTY \<equiv> 39"
abbreviation ELOOP :: int where "ELOOP \<equiv> 40"

text \<open>The C cast \<^verbatim>\<open>(int)x\<close> of a 64-bit value keeps the low 32 bits as two's complement.\<close>

definition c_int :: "u64 \<Rightarrow> int" where
  "c_int x = sint (ucast x :: u32)"

lemma c_int_small:
  assumes "unat x < 2 ^ 31"
  shows "c_int x = int (unat x)"
proof -
  have lt: "uint x < 2 ^ 31"
    using assms by (metis int_eq_iff of_nat_less_iff of_nat_numeral of_nat_power uint_nat)
  have "c_int x = signed_take_bit 31 (uint x)"
    by (simp add: c_int_def signed_ucast_eq)
  also have "\<dots> = uint x"
    by (rule signed_take_bit_int_eq_self) (use lt uint_ge_0 [of x] in linarith)+
  finally show ?thesis
    by simp
qed

section \<open>Byte codecs\<close>

text \<open>Little-endian bytes of a word and back: the layout of every on-disk and in-memory field.\<close>

fun le_word :: "u8 list \<Rightarrow> ('a::len) word" where
  "le_word [] = 0"
| "le_word (b # bs) = ucast b OR push_bit 8 (le_word bs)"

fun le_bytes :: "nat \<Rightarrow> ('a::len) word \<Rightarrow> u8 list" where
  "le_bytes 0 v = []"
| "le_bytes (Suc n) v = ucast v # le_bytes n (drop_bit 8 v)"

lemma length_le_bytes [simp]: "length (le_bytes n v) = n"
  by (induction n arbitrary: v) auto

lemma le_word_le_bytes: "le_word (le_bytes n v) = take_bit (8 * n) (v :: ('a::len) word)"
proof (induction n arbitrary: v)
  case 0
  then show ?case by simp
next
  case (Suc n)
  show ?case
  proof (rule bit_word_eqI)
    fix k assume k: "k < LENGTH('a)"
    show "bit (le_word (le_bytes (Suc n) v) :: 'a word) k = bit (take_bit (8 * Suc n) v) k"
      using k
      by (cases "k < 8")
        (auto simp: Suc.IH bit_or_iff bit_push_bit_iff bit_take_bit_iff bit_unsigned_iff
          bit_drop_bit_eq possible_bit_word)
  qed
qed

lemma le_round_trip:
  "LENGTH('a) \<le> 8 * n \<Longrightarrow> le_word (le_bytes n v) = (v :: ('a::len) word)"
  by (rule bit_word_eqI) (simp add: le_word_le_bytes bit_take_bit_iff)

section \<open>First-free scans and fixed tables\<close>

text \<open>
  Every fixed table of the kernel is searched the same way: from slot 0 upwards, the first
  slot whose use flag is clear.
\<close>

fun first_free :: "bool list \<Rightarrow> nat option" where
  "first_free [] = None"
| "first_free (u # us) = (if u then map_option Suc (first_free us) else Some 0)"

lemma first_free_Some:
  "first_free us = Some i \<Longrightarrow> i < length us \<and> \<not> us ! i \<and> (\<forall>j<i. us ! j)"
proof (induction us arbitrary: i)
  case Nil
  then show ?case by simp
next
  case (Cons u us)
  show ?case
  proof (cases u)
    case True
    with Cons.prems obtain k where k: "first_free us = Some k" "i = Suc k" by auto
    from Cons.IH [OF k(1)] k(2) True show ?thesis by (auto simp: less_Suc_eq_0_disj nth_Cons')
  next
    case False
    with Cons.prems show ?thesis by simp
  qed
qed

lemma first_free_None: "first_free us = None \<longleftrightarrow> (\<forall>i<length us. us ! i)"
  by (induction us) (auto simp: less_Suc_eq_0_disj)

lemma first_free_exists: "i < length us \<Longrightarrow> \<not> us ! i \<Longrightarrow> \<exists>j. first_free us = Some j"
  using first_free_None by (cases "first_free us") auto

text \<open>
  The contract of such a table. \<open>occ s i\<close> says that slot \<open>i\<close> is taken, \<open>inv\<close> is what the
  provider needs of its state (the table has its static size). The clients are every
  operation that allocates: what they rely on is that a returned slot is in range, was
  free, is the lowest free one, and that no other slot changes.
\<close>

locale slot_pool =
  fixes inv :: "'s \<Rightarrow> bool"
    and occ :: "'s \<Rightarrow> nat \<Rightarrow> bool"
    and cap :: nat
    and alloc :: "'s \<Rightarrow> nat option \<times> 's"
  assumes alloc_slot: "inv s \<Longrightarrow> alloc s = (Some i, s') \<Longrightarrow>
      i < cap \<and> \<not> occ s i \<and> (\<forall>j<i. occ s j) \<and> occ s' = (occ s)(i := True) \<and> inv s'"
    and alloc_full: "inv s \<Longrightarrow> alloc s = (None, s') \<Longrightarrow> s' = s \<and> (\<forall>i<cap. occ s i)"
begin

definition free_slots :: "'s \<Rightarrow> nat set" where
  "free_slots s = {i. i < cap \<and> \<not> occ s i}"

lemma finite_free_slots [simp]: "finite (free_slots s)"
  by (simp add: free_slots_def)

lemma alloc_succeeds_iff:
  assumes "inv s" shows "fst (alloc s) \<noteq> None \<longleftrightarrow> free_slots s \<noteq> {}"
proof (cases "alloc s")
  case (Pair r s')
  show ?thesis
  proof (cases r)
    case None
    then show ?thesis using alloc_full [OF assms] Pair by (auto simp: free_slots_def)
  next
    case (Some i)
    then show ?thesis using alloc_slot [OF assms] Pair by (auto simp: free_slots_def)
  qed
qed

lemma alloc_takes_one:
  assumes "inv s" and "alloc s = (Some i, s')"
  shows "free_slots s' = free_slots s - {i} \<and> i \<in> free_slots s"
  using alloc_slot [OF assms] by (auto simp: free_slots_def)

lemma alloc_card:
  assumes "inv s" and "alloc s = (Some i, s')"
  shows "card (free_slots s) = Suc (card (free_slots s'))"
  using alloc_takes_one [OF assms] by (metis card_Suc_Diff1 finite_free_slots)

text \<open>Allocating \<open>n\<close> times in a row, as a sequence of calls does.\<close>

fun alloc_n :: "nat \<Rightarrow> 's \<Rightarrow> nat option list \<times> 's" where
  "alloc_n 0 s = ([], s)"
| "alloc_n (Suc n) s = (case alloc s of (r, s1) \<Rightarrow> (case alloc_n n s1 of (rs, s2) \<Rightarrow> (r # rs, s2)))"

lemma alloc_inv: "inv s \<Longrightarrow> alloc s = (r, s') \<Longrightarrow> inv s'"
  using alloc_slot alloc_full by (cases r) blast+

lemma alloc_n_distinct:
  assumes "inv s" and "alloc_n n s = (rs, s')"
  shows "inv s' \<and> distinct (List.map_filter id rs) \<and>
         set (List.map_filter id rs) \<subseteq> free_slots s \<and>
         free_slots s' = free_slots s - set (List.map_filter id rs)"
  using assms
proof (induction n arbitrary: s rs)
  case 0
  then show ?case by (simp add: map_filter_simps)
next
  case (Suc n)
  obtain r s1 where a: "alloc s = (r, s1)" by fastforce
  obtain rs1 where rs: "rs = r # rs1" and b: "alloc_n n s1 = (rs1, s')"
    using Suc.prems(2) a by (auto split: prod.splits)
  have i1: "inv s1" by (rule alloc_inv [OF Suc.prems(1) a])
  note IH = Suc.IH [OF i1 b]
  show ?case
  proof (cases r)
    case None
    then have "s1 = s" using alloc_full [OF Suc.prems(1)] a by blast
    then show ?thesis using IH rs None by (simp add: map_filter_simps)
  next
    case (Some i)
    have "free_slots s1 = free_slots s - {i} \<and> i \<in> free_slots s"
      using alloc_takes_one [OF Suc.prems(1)] a Some by blast
    then show ?thesis using IH rs Some by (auto simp: map_filter_simps)
  qed
qed

lemma alloc_n_exhausts:
  assumes "inv s" and "card (free_slots s) \<le> n" and "alloc_n n s = (rs, s')"
  shows "free_slots s' = {} \<and> fst (alloc s') = None"
  using assms
proof (induction n arbitrary: s rs)
  case 0
  then have "free_slots s = {}" by simp
  then show ?case using 0 alloc_succeeds_iff [OF 0(1)] by (cases "fst (alloc s)") auto
next
  case (Suc n)
  obtain r s1 where a: "alloc s = (r, s1)" by fastforce
  obtain rs1 where b: "alloc_n n s1 = (rs1, s')"
    using Suc.prems(3) a by (auto split: prod.splits)
  have i1: "inv s1" by (rule alloc_inv [OF Suc.prems(1) a])
  have "card (free_slots s1) \<le> n"
  proof (cases r)
    case None
    then have "s1 = s" and "free_slots s = {}"
      using alloc_full [OF Suc.prems(1)] a by (auto simp: free_slots_def)
    then show ?thesis by simp
  next
    case (Some i)
    then show ?thesis using alloc_card [OF Suc.prems(1)] a Suc.prems(2) by auto
  qed
  then show ?case using Suc.IH [OF i1 _ b] by blast
qed

end

text \<open>A pool whose slots are also given back.\<close>

locale slot_pool_release = slot_pool inv occ cap alloc
  for inv :: "'s \<Rightarrow> bool" and occ cap alloc +
  fixes release :: "nat \<Rightarrow> 's \<Rightarrow> 's"
  assumes release_slot: "inv s \<Longrightarrow> i < cap \<Longrightarrow>
      occ (release i s) = (occ s)(i := False) \<and> inv (release i s)"
begin

lemma release_then_alloc:
  assumes "inv s" and "i < cap"
  shows "\<exists>j s'. alloc (release i s) = (Some j, s') \<and> j \<le> i"
proof -
  have r: "inv (release i s)" and o: "\<not> occ (release i s) i"
    using release_slot [OF assms] by auto
  have "free_slots (release i s) \<noteq> {}"
    using assms(2) o by (auto simp: free_slots_def)
  then obtain j s' where j: "alloc (release i s) = (Some j, s')"
    using alloc_succeeds_iff [OF r] by (cases "alloc (release i s)") auto
  moreover have "j \<le> i"
    using alloc_slot [OF r j] o by (meson not_le)
  ultimately show ?thesis by blast
qed

lemma alloc_release_restores:
  assumes "inv s" and "alloc s = (Some i, s')"
  shows "occ (release i s') = occ s"
  using alloc_slot [OF assms] release_slot by (auto simp: fun_eq_iff)

end

end
