(* ===== verification/Kstring.thy ===== *)
theory Kstring
  imports Kernel_Prelude
begin

text \<open>
  \<^verbatim>\<open>kernel/string.c\<close> and the case-insensitive name comparison that \<^verbatim>\<open>vfs.c\<close>,
  \<^verbatim>\<open>ramfs.c\<close> and \<^verbatim>\<open>fat32.c\<close> each carry a copy of.  Raw memory is a function from
  64-bit addresses to bytes; \<^verbatim>\<open>memset\<close> and \<^verbatim>\<open>memcpy\<close> are the byte loops of the source
  over it, with closed forms (\<open>memset_apply\<close>, \<open>store_bytes_apply\<close>) the memory components
  rewrite with.
\<close>

type_synonym mem = "u64 \<Rightarrow> u8"

fun memset :: "mem \<Rightarrow> u64 \<Rightarrow> u8 \<Rightarrow> nat \<Rightarrow> mem" where
  "memset m p c 0 = m"
| "memset m p c (Suc n) = memset (m(p := c)) (p + 1) c n"

fun memcpy :: "mem \<Rightarrow> u64 \<Rightarrow> u64 \<Rightarrow> nat \<Rightarrow> mem" where
  "memcpy m d s 0 = m"
| "memcpy m d s (Suc n) = memcpy (m(d := m s)) (d + 1) (s + 1) n"

text \<open>\<^verbatim>\<open>memcmp\<close> over the first \<open>n\<close> bytes of two buffers.\<close>

fun memcmp :: "u8 list \<Rightarrow> u8 list \<Rightarrow> nat \<Rightarrow> int" where
  "memcmp (a # as) (b # bs) (Suc n) =
     (if a \<noteq> b then uint a - uint b else memcmp as bs n)"
| "memcmp _ _ _ = 0"

fun strcmp :: "cstr \<Rightarrow> cstr \<Rightarrow> int" where
  "strcmp (a # as) (b # bs) = (if a = b then strcmp as bs else uint a - uint b)"
| "strcmp (a # as) [] = uint a"
| "strcmp [] (b # bs) = - uint b"
| "strcmp [] [] = 0"

text \<open>
  \<^verbatim>\<open>strlen\<close> walks a buffer up to its first NUL; \<open>cstr_of\<close> is the string found there.
\<close>

fun strlen :: "u8 list \<Rightarrow> nat" where
  "strlen [] = 0"
| "strlen (c # cs) = (if c = 0 then 0 else Suc (strlen cs))"

definition cstr_of :: "u8 list \<Rightarrow> cstr" where
  "cstr_of buf = take (strlen buf) buf"

definition nul_free :: "cstr \<Rightarrow> bool" where
  "nul_free s \<longleftrightarrow> 0 \<notin> set s"

definition lower :: "u8 \<Rightarrow> u8" where
  "lower c = (if 65 \<le> c \<and> c \<le> 90 then c - 65 + 97 else c)"

fun name_eq_nocase :: "cstr \<Rightarrow> cstr \<Rightarrow> bool" where
  "name_eq_nocase (a # as) (b # bs) =
     (if lower a \<noteq> lower b then False else name_eq_nocase as bs)"
| "name_eq_nocase [] [] = True"
| "name_eq_nocase _ _ = False"

text \<open>The three copies in the source are the same function.\<close>

abbreviation vfs_name_eq_nocase :: "cstr \<Rightarrow> cstr \<Rightarrow> bool" where
  "vfs_name_eq_nocase \<equiv> name_eq_nocase"

abbreviation fat32_name_eq_nocase :: "cstr \<Rightarrow> cstr \<Rightarrow> bool" where
  "fat32_name_eq_nocase \<equiv> name_eq_nocase"

section \<open>Strings\<close>

lemma nul_free_simps [simp]:
  "nul_free []"
  "nul_free (c # s) \<longleftrightarrow> c \<noteq> 0 \<and> nul_free s"
  "nul_free (s @ t) \<longleftrightarrow> nul_free s \<and> nul_free t"
  by (auto simp: nul_free_def)

lemma nul_free_take [intro]: "nul_free s \<Longrightarrow> nul_free (take n s)"
  by (auto simp: nul_free_def dest: in_set_takeD)

lemma uint8_pos: "(c :: u8) \<noteq> 0 \<Longrightarrow> 0 < uint c"
  by (metis order_le_less uint_0_iff uint_ge_0)

lemma strcmp_eq_0:
  "nul_free s \<Longrightarrow> nul_free t \<Longrightarrow> strcmp s t = 0 \<longleftrightarrow> s = t"
  by (induction s t rule: strcmp.induct) (auto dest: uint8_pos simp: word_uint_eq_iff)

lemma memcmp_eq_0:
  "n \<le> length as \<Longrightarrow> n \<le> length bs \<Longrightarrow> memcmp as bs n = 0 \<longleftrightarrow> take n as = take n bs"
proof (induction as bs n rule: memcmp.induct)
  case (1 a as b bs n)
  then show ?case by (auto simp: word_uint_eq_iff)
qed auto

lemma strlen_nul_free: "nul_free s \<Longrightarrow> strlen (s @ [0]) = length s"
  by (induction s) auto

lemma strlen_append_nul: "nul_free s \<Longrightarrow> strlen (s @ 0 # t) = length s"
  by (induction s) auto

lemma cstr_of_append_nul [simp]: "nul_free s \<Longrightarrow> cstr_of (s @ 0 # t) = s"
  by (simp add: cstr_of_def strlen_append_nul)

lemma cstr_of_takeWhile: "cstr_of buf = takeWhile (\<lambda>c. c \<noteq> 0) buf"
  unfolding cstr_of_def by (induction buf) auto

lemma nul_free_cstr_of [simp]: "nul_free (cstr_of buf)"
  by (auto simp: nul_free_def cstr_of_takeWhile dest: set_takeWhileD)

lemma strlen_le_length: "strlen buf \<le> length buf"
  by (induction buf) auto

lemma length_cstr_of: "length (cstr_of buf) = strlen buf"
  by (simp add: cstr_of_def strlen_le_length)

text \<open>The comparison is equality of the case-folded names, hence an equivalence.\<close>

lemma name_eq_nocase_iff: "name_eq_nocase a b \<longleftrightarrow> map lower a = map lower b"
  by (induction a b rule: name_eq_nocase.induct) auto

lemma name_eq_refl [simp]: "name_eq_nocase a a"
  by (simp add: name_eq_nocase_iff)

lemma name_eq_sym: "name_eq_nocase a b \<Longrightarrow> name_eq_nocase b a"
  by (simp add: name_eq_nocase_iff)

lemma name_eq_trans: "name_eq_nocase a b \<Longrightarrow> name_eq_nocase b c \<Longrightarrow> name_eq_nocase a c"
  by (simp add: name_eq_nocase_iff)

section \<open>Memory\<close>

text \<open>\<open>load_bytes\<close> and \<open>store_bytes\<close> move a byte list between memory and a local buffer.\<close>

fun load_bytes :: "mem \<Rightarrow> u64 \<Rightarrow> nat \<Rightarrow> u8 list" where
  "load_bytes m a 0 = []"
| "load_bytes m a (Suc n) = m a # load_bytes m (a + 1) n"

fun store_bytes :: "mem \<Rightarrow> u64 \<Rightarrow> u8 list \<Rightarrow> mem" where
  "store_bytes m a [] = m"
| "store_bytes m a (b # bs) = store_bytes (m(a := b)) (a + 1) bs"

lemma length_load_bytes [simp]: "length (load_bytes m a n) = n"
  by (induction n arbitrary: a) auto

lemma load_bytes_nth: "i < n \<Longrightarrow> load_bytes m a n ! i = m (a + of_nat i)"
proof (induction n arbitrary: a i)
  case (Suc n)
  then show ?case by (cases i) (auto simp: add.assoc)
qed simp

lemma memset_store_bytes: "memset m p c n = store_bytes m p (replicate n c)"
  by (induction n arbitrary: m p) auto

text \<open>
  The offset of an address in a range is the wrapped difference, so a range may cross the
  top of the address space.
\<close>

lemma unat_diff_Suc:
  fixes x a :: u64
  assumes "x \<noteq> a" shows "unat (x - a) = Suc (unat (x - (a + 1)))"
proof -
  have eq: "x - a = 1 + (x - (a + 1))" by simp
  have "1 + (x - (a + 1)) \<noteq> 0" using assms by simp
  then show ?thesis unfolding eq by (rule unatSuc)
qed

lemma store_bytes_apply:
  "length bs \<le> 2 ^ 64 \<Longrightarrow>
     store_bytes m a bs x = (if unat (x - a) < length bs then bs ! unat (x - a) else m x)"
proof (induction bs arbitrary: m a)
  case Nil
  then show ?case by simp
next
  case (Cons b bs)
  then have le: "length bs \<le> 2 ^ 64" and lt: "length bs < 2 ^ 64" by auto
  show ?case
  proof (cases "x = a")
    case True
    then have "unat (x - (a + 1)) = 2 ^ 64 - 1"
      by (simp add: unat_eq_nat_uint unsigned_minus_1_eq_mask mask_eq_exp_minus_1)
    then show ?thesis unfolding store_bytes.simps Cons.IH [OF le] using True lt by simp
  next
    case False
    then show ?thesis
      by (simp add: Cons.IH [OF le] unat_diff_Suc [OF False])
  qed
qed

lemma load_store_same:
  assumes "length bs \<le> 2 ^ 64"
  shows "load_bytes (store_bytes m a bs) a (length bs) = bs"
proof (rule nth_equalityI)
  fix i assume "i < length (load_bytes (store_bytes m a bs) a (length bs))"
  then have i: "i < length bs" by simp
  then have "unat (of_nat i :: u64) = i"
    using assms by (simp add: unat_of_nat)
  then show "load_bytes (store_bytes m a bs) a (length bs) ! i = bs ! i"
    using i by (simp add: load_bytes_nth store_bytes_apply [OF assms])
qed simp

lemma load_bytes_cong:
  "(\<And>i. i < n \<Longrightarrow> m (a + of_nat i) = m' (a + of_nat i)) \<Longrightarrow> load_bytes m a n = load_bytes m' a n"
  by (rule nth_equalityI) (auto simp: load_bytes_nth)

end
