(* ===== verification/Mm.thy ===== *)
theory Mm
  imports Kstring
begin

text \<open>
  \<^verbatim>\<open>kernel/mm.c\<close>: the physical page allocator.  The free list is threaded through the
  free pages themselves (\<^verbatim>\<open>struct run { struct run *next; }\<close> at the start of each), so the
  state is physical memory plus the head pointer.  \<open>free_list\<close> reads the list back out of
  memory; the allocator is shown to be a stack of distinct, aligned pages
  (interpretation \<open>mm\<close> of \<open>page_allocator\<close>), and \<^verbatim>\<open>kinit\<close> to fill it with exactly the
  whole pages of the managed range.
\<close>

abbreviation PAGE_SIZE :: u64 where "PAGE_SIZE \<equiv> 0x1000"
abbreviation KERNEL_VIRT_BASE :: u64 where "KERNEL_VIRT_BASE \<equiv> 0xffffffff80000000"
abbreviation KERNEL_PHYS_BASE :: u64 where "KERNEL_PHYS_BASE \<equiv> 0x80200000"
abbreviation KERNEL_VIRT_OFFSET :: u64 where
  "KERNEL_VIRT_OFFSET \<equiv> KERNEL_VIRT_BASE - KERNEL_PHYS_BASE"

record mm_state =
  ram :: mem
  g_freelist :: u64

definition load64 :: "mem \<Rightarrow> u64 \<Rightarrow> u64" where
  "load64 m a = le_word (load_bytes m a 8)"

definition store64 :: "mem \<Rightarrow> u64 \<Rightarrow> u64 \<Rightarrow> mem" where
  "store64 m a v = store_bytes m a (le_bytes 8 v)"

definition align_up :: "u64 \<Rightarrow> u64 \<Rightarrow> u64" where
  "align_up val algn = (val + algn - 1) AND NOT (algn - 1)"

definition kfree :: "mm_state \<Rightarrow> u64 \<Rightarrow> mm_state" where
  "kfree s pa =
     (if pa AND (PAGE_SIZE - 1) \<noteq> 0 then s
      else s\<lparr>ram := store64 (ram s) pa (g_freelist s), g_freelist := pa\<rparr>)"

text \<open>The returned pointer is the page's address, 0 for \<^verbatim>\<open>NULL\<close>.\<close>

definition kalloc :: "mm_state \<Rightarrow> u64 \<times> mm_state" where
  "kalloc s =
     (let r = g_freelist s in
      if r = 0 then (0, s)
      else (r, s\<lparr>g_freelist := load64 (ram s) r, ram := memset (ram s) r 0 4096\<rparr>))"

text \<open>
  The loop of \<^verbatim>\<open>kinit\<close>; the test \<^verbatim>\<open>p + PAGE_SIZE <= end\<close> is on wrapped 64-bit values.
\<close>

partial_function (option) kinit_loop :: "u64 \<Rightarrow> u64 \<Rightarrow> mm_state \<Rightarrow> mm_state option" where
  "kinit_loop p lim s =
     (if p + PAGE_SIZE \<le> lim then kinit_loop (p + PAGE_SIZE) lim (kfree s p) else Some s)"

definition kinit :: "u64 \<Rightarrow> u64 \<Rightarrow> u64 \<Rightarrow> mm_state \<Rightarrow> mm_state option" where
  "kinit kernel_end mem_base mem_size s =
     kinit_loop (align_up (kernel_end - KERNEL_VIRT_OFFSET) PAGE_SIZE) (mem_base + mem_size) s"

section \<open>Pages\<close>

definition page_aligned :: "u64 \<Rightarrow> bool" where
  "page_aligned a \<longleftrightarrow> a AND (PAGE_SIZE - 1) = 0"

definition page_of :: "u64 \<Rightarrow> u64" where
  "page_of a = a AND NOT (PAGE_SIZE - 1)"

lemma and_4095: "(x :: u64) AND 4095 = take_bit 12 x"
  by (simp add: take_bit_eq_mask mask_eq_exp_minus_1)

lemma unat_and_4095: "unat ((x :: u64) AND 4095) = unat x mod 4096"
  unfolding and_4095 unsigned_take_bit_eq by (simp add: take_bit_eq_mod)

lemma page_aligned_unat: "page_aligned a \<longleftrightarrow> unat a mod 4096 = 0"
proof -
  have "page_aligned a \<longleftrightarrow> unat (a AND 4095) = 0"
    by (simp only: unat_eq_zero) (simp add: page_aligned_def)
  then show ?thesis by (simp only: unat_and_4095)
qed

lemma page_of_plus: "page_of x + (x AND 4095) = x"
proof -
  have "(PAGE_SIZE - 1) = mask 12" by (simp add: mask_eq_exp_minus_1)
  then have "page_of x = push_bit 12 (drop_bit 12 x)"
    unfolding page_of_def
    by (intro bit_word_eqI) (auto simp only: bit_and_iff bit_not_iff_eq bit_mask_iff bit_push_bit_iff
      bit_drop_bit_eq possible_bit_word, auto)
  then show ?thesis by (simp only: and_4095 bits_ident)
qed

lemma unat_page_of: "unat (page_of x) = unat x - unat x mod 4096"
proof -
  have "page_of x = x - (x AND 4095)"
    using page_of_plus [of x] by (metis add_diff_cancel_right')
  moreover have "x AND 4095 \<le> x" by (simp add: word_and_le2)
  ultimately show ?thesis by (simp add: unat_sub unat_and_4095)
qed

lemma page_of_aligned [simp]: "page_aligned (page_of x)"
  by (simp add: page_aligned_unat unat_page_of minus_mod_eq_mult_div)

lemma page_of_id: "page_aligned p \<Longrightarrow> page_of p = p"
  by (simp add: page_aligned_unat word_unat_eq_iff unat_page_of)

text \<open>The addresses of an aligned page are those at a wrapped offset below 4096.\<close>

lemma in_page_iff:
  assumes "page_aligned p"
  shows "unat (x - p) < 4096 \<longleftrightarrow> page_of x = p"
proof
  assume lt: "unat (x - p) < 4096"
  have p: "unat p mod 4096 = 0" using assms by (simp add: page_aligned_unat)
  have "unat p + unat (x - p) < 2 ^ 64"
  proof -
    have "unat p \<le> 2 ^ 64 - 4096"
    proof (rule ccontr)
      assume "\<not> unat p \<le> 2 ^ 64 - 4096"
      moreover have "unat p < 2 ^ 64" using unsigned_less [of p] by simp
      ultimately have "unat p div 4096 < 2 ^ 52" and "2 ^ 52 - 1 < unat p div 4096 \<or> unat p mod 4096 \<noteq> 0"
        by auto
      then show False using p by linarith
    qed
    then show ?thesis using lt by simp
  qed
  then have "unat x = unat p + unat (x - p)"
    using unat_plus_if' [of p "x - p"] by simp
  moreover have "(unat p + unat (x - p)) mod 4096 = unat (x - p)"
    using p lt by (metis add.left_neutral mod_add_left_eq mod_less)
  ultimately show "page_of x = p"
    by (simp add: word_unat_eq_iff unat_page_of)
next
  assume "page_of x = p"
  then have "x - p = x AND 4095" using page_of_plus [of x] by (metis add_diff_cancel_left')
  then show "unat (x - p) < 4096" by (simp add: unat_and_4095)
qed

section \<open>The free list as a stack of pages\<close>

text \<open>\<open>free_list m p xs\<close>: following the next pointers from \<open>p\<close> visits exactly \<open>xs\<close>.\<close>

fun free_list :: "mem \<Rightarrow> u64 \<Rightarrow> u64 list \<Rightarrow> bool" where
  "free_list m p [] \<longleftrightarrow> p = 0"
| "free_list m p (x # xs) \<longleftrightarrow> p = x \<and> x \<noteq> 0 \<and> free_list m (load64 m x) xs"

definition mm_inv :: "mm_state \<Rightarrow> u64 list \<Rightarrow> bool" where
  "mm_inv s xs \<longleftrightarrow> free_list (ram s) (g_freelist s) xs \<and> distinct xs \<and> (\<forall>x\<in>set xs. page_aligned x)"

definition page_bytes :: "mm_state \<Rightarrow> u64 \<Rightarrow> u8 list" where
  "page_bytes s p = load_bytes (ram s) p 4096"

lemma in_page_offset:
  assumes "page_aligned p" and "i < 4096"
  shows "page_of (p + of_nat i) = p" and "unat (p + of_nat i - p) = i"
proof -
  have u: "unat (of_nat i :: u64) = i" using assms(2) by (simp add: unat_of_nat)
  then show "unat (p + of_nat i - p) = i" by simp
  then show "page_of (p + of_nat i) = p"
    using in_page_iff [OF assms(1), of "p + of_nat i"] assms(2) by simp
qed

lemma load64_cong:
  assumes "page_aligned p" and "\<And>x. page_of x = p \<Longrightarrow> m x = m' x"
  shows "load64 m p = load64 m' p"
proof -
  have "load_bytes m p 8 = load_bytes m' p 8"
    by (rule load_bytes_cong) (simp add: assms(2) in_page_offset [OF assms(1)])
  then show ?thesis by (simp add: load64_def)
qed

lemma load64_store64 [simp]: "load64 (store64 m a v) a = v"
  using load_store_same [of "le_bytes 8 v" m a] le_round_trip [of 8 v]
  by (simp add: load64_def store64_def)

lemma store64_other: "page_aligned p \<Longrightarrow> page_of x \<noteq> p \<Longrightarrow> store64 m p v x = m x"
  using in_page_iff [of p x] by (simp add: store64_def store_bytes_apply)

lemma memset_page:
  assumes "page_aligned p"
  shows "memset m p c 4096 x = (if page_of x = p then c else m x)"
  using in_page_iff [OF assms, of x] by (simp add: memset_store_bytes store_bytes_apply)

lemma free_list_cong:
  "free_list m p xs \<Longrightarrow> \<forall>x\<in>set xs. page_aligned x \<Longrightarrow>
   (\<And>y. page_of y \<in> set xs \<Longrightarrow> m y = m' y) \<Longrightarrow> free_list m' p xs"
proof (induction m p xs rule: free_list.induct)
  case (2 m p x xs)
  then have "load64 m x = load64 m' x" by (intro load64_cong) auto
  with 2 show ?case by auto
qed simp

lemma free_list_determined: "free_list m p xs \<Longrightarrow> free_list m p ys \<Longrightarrow> xs = ys"
proof (induction xs arbitrary: p ys)
  case Nil
  then show ?case by (cases ys) auto
next
  case (Cons x xs)
  then show ?case by (cases ys) auto
qed

lemma kfree_unaligned: "\<not> page_aligned pa \<Longrightarrow> kfree s pa = s"
  by (simp add: kfree_def page_aligned_def)

lemma kfree_ram_other: "page_of x \<noteq> pa \<Longrightarrow> ram (kfree s pa) x = ram s x"
  by (auto simp: kfree_def page_aligned_def store64_other)

lemma kfree_push:
  assumes "mm_inv s xs" and "page_aligned pa" and "pa \<noteq> 0" and "pa \<notin> set xs"
  shows "mm_inv (kfree s pa) (pa # xs)"
proof -
  have eq: "kfree s pa = s\<lparr>ram := store64 (ram s) pa (g_freelist s), g_freelist := pa\<rparr>"
    using assms(2) by (simp add: kfree_def page_aligned_def)
  have "free_list (store64 (ram s) pa (g_freelist s)) (g_freelist s) xs"
  proof (rule free_list_cong)
    show "free_list (ram s) (g_freelist s) xs" "\<forall>x\<in>set xs. page_aligned x"
      using assms(1) by (simp_all add: mm_inv_def)
    show "ram s y = store64 (ram s) pa (g_freelist s) y" if "page_of y \<in> set xs" for y
      using that assms(4) by (intro store64_other [OF assms(2), symmetric]) blast
  qed
  then show ?thesis using assms by (simp add: eq mm_inv_def)
qed

lemma kalloc_empty: "mm_inv s [] \<Longrightarrow> kalloc s = (0, s)"
  by (simp add: mm_inv_def kalloc_def)

lemma kalloc_pop:
  assumes "mm_inv s (x # xs)"
  shows "fst (kalloc s) = x" and "mm_inv (snd (kalloc s)) xs"
    and "ram (snd (kalloc s)) y = (if page_of y = x then 0 else ram s y)"
proof -
  have x: "page_aligned x" "x \<noteq> 0" "g_freelist s = x" "x \<notin> set xs"
    using assms by (auto simp: mm_inv_def)
  show "fst (kalloc s) = x" using x by (simp add: kalloc_def)
  have r: "ram (snd (kalloc s)) y = (if page_of y = x then 0 else ram s y)" for y
    using x by (simp add: kalloc_def memset_page)
  then show "ram (snd (kalloc s)) y = (if page_of y = x then 0 else ram s y)" .
  have "free_list (ram (snd (kalloc s))) (load64 (ram s) x) xs"
  proof (rule free_list_cong)
    show "free_list (ram s) (load64 (ram s) x) xs" "\<forall>x\<in>set xs. page_aligned x"
      using assms by (simp_all add: mm_inv_def)
    show "ram s y = ram (snd (kalloc s)) y" if "page_of y \<in> set xs" for y
      using that x(4) r [of y] by (cases "page_of y = x") auto
  qed
  moreover have "g_freelist (snd (kalloc s)) = load64 (ram s) x"
    using x by (simp add: kalloc_def)
  ultimately show "mm_inv (snd (kalloc s)) xs"
    using assms by (simp add: mm_inv_def)
qed

section \<open>The allocator interface\<close>

text \<open>
  What the rest of the kernel relies on: \<open>inv s xs\<close> says that the free pages are \<open>xs\<close>, in
  the order they will be handed out.
\<close>

datatype mm_op = Op_alloc | Op_free u64

text \<open>
  A client's calls, with the pages it holds: a free is legal for a page it holds.
\<close>

fun client_step :: "('s \<Rightarrow> u64 \<times> 's) \<Rightarrow> ('s \<Rightarrow> u64 \<Rightarrow> 's) \<Rightarrow> mm_op \<Rightarrow> 's \<times> u64 list \<Rightarrow> 's \<times> u64 list" where
  "client_step alloc free Op_alloc (s, held) =
     (case alloc s of (p, s') \<Rightarrow> (s', if p = 0 then held else p # held))"
| "client_step alloc free (Op_free p) (s, held) =
     (if p \<in> set held then (free s p, remove1 p held) else (s, held))"

locale page_allocator =
  fixes inv :: "'s \<Rightarrow> u64 list \<Rightarrow> bool"
    and ok_page :: "u64 \<Rightarrow> bool"
    and alloc :: "'s \<Rightarrow> u64 \<times> 's"
    and free :: "'s \<Rightarrow> u64 \<Rightarrow> 's"
  assumes inv_pages: "inv s xs \<Longrightarrow> distinct xs \<and> (\<forall>x\<in>set xs. ok_page x \<and> x \<noteq> 0)"
    and alloc_nil: "inv s [] \<Longrightarrow> alloc s = (0, s)"
    and alloc_cons: "inv s (x # xs) \<Longrightarrow> fst (alloc s) = x \<and> inv (snd (alloc s)) xs"
    and free_cons: "inv s xs \<Longrightarrow> ok_page p \<Longrightarrow> p \<noteq> 0 \<Longrightarrow> p \<notin> set xs \<Longrightarrow> inv (free s p) (p # xs)"
begin

definition accounts :: "u64 set \<Rightarrow> 's \<times> u64 list \<Rightarrow> bool" where
  "accounts pool c \<longleftrightarrow> (\<exists>xs. inv (fst c) xs \<and> distinct (xs @ snd c) \<and> set (xs @ snd c) = pool)"

lemma client_step_accounts:
  assumes "accounts pool c" and "\<forall>p\<in>pool. ok_page p \<and> p \<noteq> 0"
  shows "accounts pool (client_step alloc free op c)"
proof -
  obtain s held where c: "c = (s, held)" by fastforce
  obtain xs where xs: "inv s xs" "distinct (xs @ held)" "set (xs @ held) = pool"
    using assms(1) c by (auto simp: accounts_def)
  show ?thesis
  proof (cases op)
    case Op_alloc
    show ?thesis
    proof (cases xs)
      case Nil
      then show ?thesis using xs alloc_nil Op_alloc c by (auto simp: accounts_def)
    next
      case (Cons y ys)
      obtain s' where a: "alloc s = (y, s')" and i: "inv s' ys"
        using alloc_cons xs(1) Cons by (cases "alloc s") fastforce
      have "y \<noteq> 0" using inv_pages [OF xs(1)] Cons by auto
      then show ?thesis
        using xs Cons Op_alloc c a i by (auto simp: accounts_def intro!: exI [of _ ys])
    qed
  next
    case (Op_free p)
    show ?thesis
    proof (cases "p \<in> set held")
      case True
      then have "inv (free s p) (p # xs)"
        using xs assms(2) by (intro free_cons) auto
      moreover have "distinct ((p # xs) @ remove1 p held)"
        using xs(2) True by (auto simp: distinct_remove1 dest: notin_set_remove1)
      moreover have "set ((p # xs) @ remove1 p held) = pool"
        using xs(2,3) True by auto
      ultimately show ?thesis
        using True Op_free c by (auto simp: accounts_def intro!: exI [of _ "p # xs"])
    next
      case False
      then show ?thesis using xs Op_free c by (auto simp: accounts_def)
    qed
  qed
qed

lemma client_run_accounts:
  "accounts pool c \<Longrightarrow> \<forall>p\<in>pool. ok_page p \<and> p \<noteq> 0 \<Longrightarrow> accounts pool (fold (client_step alloc free) ops c)"
  by (induction ops arbitrary: c) (auto simp: client_step_accounts)

lemma alloc_free_restores:
  assumes "inv s (x # xs)" shows "inv (free (snd (alloc s)) (fst (alloc s))) (x # xs)"
  using alloc_cons [OF assms] inv_pages [OF assms] free_cons by auto

end

interpretation mm: page_allocator mm_inv page_aligned kalloc kfree
proof (unfold_locales, goal_cases)
  case (1 s xs)
  have "free_list m p xs \<Longrightarrow> x \<in> set xs \<Longrightarrow> x \<noteq> 0" for m p x
    by (induction m p xs rule: free_list.induct) auto
  then show ?case using 1 by (auto simp: mm_inv_def)
qed (auto simp: kalloc_empty kalloc_pop kfree_push)

section \<open>kinit\<close>

definition pages_from :: "u64 \<Rightarrow> nat \<Rightarrow> u64 list" where
  "pages_from p n = map (\<lambda>i. p + of_nat i * PAGE_SIZE) [0..<n]"

lemma pages_from_Suc: "pages_from p (Suc n) = p # pages_from (p + PAGE_SIZE) n"
  unfolding pages_from_def map_upt_Suc by (simp add: algebra_simps)

lemma page_aligned_add: "page_aligned p \<Longrightarrow> page_aligned (p + PAGE_SIZE)"
  unfolding page_aligned_unat unat_plus_if' by (auto simp: mod_add_self2 unat_arith_simps)

lemma kinit_loop_fills:
  assumes "page_aligned p" and "p \<noteq> 0" and "unat lim < 2 ^ 64 - 4096" and "unat p < 2 ^ 64 - 4096"
    and "mm_inv s xs" and "\<forall>x\<in>set xs. unat x < unat p"
    and "n = (unat lim - unat p) div 4096"
  shows "\<exists>s'. kinit_loop p lim s = Some s' \<and> mm_inv s' (rev (pages_from p n) @ xs)"
  using assms
proof (induction n arbitrary: p s xs)
  case 0
  have "\<not> p + PAGE_SIZE \<le> lim"
  proof
    assume "p + PAGE_SIZE \<le> lim"
    then have "unat (p + PAGE_SIZE) \<le> unat lim" by (simp add: word_le_nat_alt)
    then show False using 0 by (auto simp: unat_plus_if' split: if_splits)
  qed
  then show ?case using 0 by (simp add: kinit_loop.simps pages_from_def)
next
  case (Suc n)
  have le: "unat p + 4096 \<le> unat lim" using Suc.prems(7) by linarith
  have up: "unat (p + PAGE_SIZE) = unat p + 4096"
    using le Suc.prems(3) by (simp add: unat_plus_if')
  have test: "p + PAGE_SIZE \<le> lim" using le up by (simp add: word_le_nat_alt)
  have inv: "mm_inv (kfree s p) (p # xs)"
    using Suc.prems by (intro kfree_push) auto
  have "\<exists>s'. kinit_loop (p + PAGE_SIZE) lim (kfree s p) = Some s' \<and>
          mm_inv s' (rev (pages_from (p + PAGE_SIZE) n) @ p # xs)"
  proof (rule Suc.IH)
    show "p + PAGE_SIZE \<noteq> 0" using up by (metis add_is_0 unat_0 zero_neq_numeral)
    show "n = (unat lim - unat (p + PAGE_SIZE)) div 4096"
      unfolding up using Suc.prems(7) le by linarith
  qed (use Suc.prems inv up in \<open>auto simp: page_aligned_add\<close>)
  then show ?case
    using test by (simp add: kinit_loop.simps [of p] pages_from_Suc)
qed

lemma align_up_page:
  assumes "unat v + 4095 < 2 ^ 64"
  shows "page_aligned (align_up v PAGE_SIZE)"
    and "unat v \<le> unat (align_up v PAGE_SIZE)"
    and "unat (align_up v PAGE_SIZE) < unat v + 4096"
proof -
  have eq: "align_up v PAGE_SIZE = page_of (v + 4095)"
    by (simp add: align_up_def page_of_def add.commute)
  have u: "unat (v + 4095) = unat v + 4095" using assms by (simp add: unat_plus_if')
  show "page_aligned (align_up v PAGE_SIZE)" by (simp add: eq)
  have "unat (align_up v PAGE_SIZE) = unat v + 4095 - (unat v + 4095) mod 4096"
    by (simp add: eq unat_page_of u)
  moreover have "(unat v + 4095) mod 4096 \<le> 4095" by simp
  ultimately show "unat v \<le> unat (align_up v PAGE_SIZE)"
    and "unat (align_up v PAGE_SIZE) < unat v + 4096" by linarith+
qed

section \<open>Properties\<close>

text \<open>
  C4. Whatever sequence of allocations and legal frees a client makes, starting from a
  well-formed free list: the pages it holds and the free pages stay distinct, no page is lost
  or invented, and the free list stays well formed. In particular \<^verbatim>\<open>kalloc\<close> never hands out a
  page that is still held.
\<close>

theorem kalloc_kfree_accounting:
  assumes "mm_inv s xs"
    and "fold (client_step kalloc kfree) ops (s, []) = (s', held)"
  shows "\<exists>ys. mm_inv s' ys \<and> distinct (ys @ held) \<and> set (ys @ held) = set xs"
proof -
  have ok: "\<forall>p\<in>set xs. page_aligned p \<and> p \<noteq> 0" and d: "distinct xs"
    using mm.inv_pages [OF assms(1)] by auto
  then have "mm.accounts (set xs) (s, [])"
    using assms(1) by (auto simp: mm.accounts_def)
  from mm.client_run_accounts [OF this ok, of ops] show ?thesis
    using assms(2) by (simp add: mm.accounts_def)
qed

text \<open>
  \<^verbatim>\<open>kalloc\<close> on a non-empty free list pops its first page, zeroes exactly that page and
  leaves the rest of the list well formed; on an empty one it returns \<^verbatim>\<open>NULL\<close> and changes
  nothing.
\<close>

theorem kalloc_zeroed_page:
  assumes "mm_inv s xs"
  shows "case xs of
           [] \<Rightarrow> kalloc s = (0, s)
         | p # ps \<Rightarrow> (\<exists>s'. kalloc s = (p, s') \<and> mm_inv s' ps \<and> page_bytes s' p = replicate 4096 0 \<and>
                     (\<forall>x. page_of x \<noteq> p \<longrightarrow> ram s' x = ram s x))"
proof (cases xs)
  case Nil
  then show ?thesis using assms kalloc_empty by simp
next
  case (Cons p ps)
  note pop = kalloc_pop [OF assms [unfolded Cons]]
  have al: "page_aligned p" using assms Cons by (simp add: mm_inv_def)
  have "page_bytes (snd (kalloc s)) p = replicate 4096 0"
    by (rule nth_equalityI)
      (simp_all add: page_bytes_def load_bytes_nth pop(3) in_page_offset [OF al])
  then show ?thesis
    using Cons pop by (auto intro!: exI [of _ "snd (kalloc s)"] simp: prod_eq_iff)
qed

text \<open>
  \<^verbatim>\<open>kinit\<close> over a managed range that does not reach the top of the address space returns,
  with a free list of exactly the whole pages between the end of the kernel image and the end
  of memory.
\<close>

theorem kinit_builds_free_list:
  assumes "g_freelist s = 0" and "kend = kernel_end - KERNEL_VIRT_OFFSET" and "0 < unat kend"
    and "unat kend + 8192 < 2 ^ 64" and "unat (mem_base + mem_size) < 2 ^ 64 - 4096"
    and "n = (unat (mem_base + mem_size) - unat (align_up kend PAGE_SIZE)) div 4096"
  shows "\<exists>s'. kinit kernel_end mem_base mem_size s = Some s' \<and>
           mm_inv s' (rev (pages_from (align_up kend PAGE_SIZE) n)) \<and>
           unat kend \<le> unat (align_up kend PAGE_SIZE)"
proof -
  have bound: "unat kend + 4095 < 2 ^ 64" using assms(4) by simp
  note al = align_up_page [OF bound]
  have "\<exists>s'. kinit_loop (align_up kend PAGE_SIZE) (mem_base + mem_size) s = Some s' \<and>
          mm_inv s' (rev (pages_from (align_up kend PAGE_SIZE) n) @ [])"
  proof (rule kinit_loop_fills)
    show "align_up kend PAGE_SIZE \<noteq> 0"
    proof
      assume "align_up kend PAGE_SIZE = 0"
      with al(2) assms(3) show False by simp
    qed
    show "unat (align_up kend PAGE_SIZE) < 2 ^ 64 - 4096" using al(3) assms(4) by simp
    show "mm_inv s []" using assms(1) by (simp add: mm_inv_def)
  qed (use al(1) assms(5,6) in simp_all)
  then show ?thesis using assms(2) al(2) by (simp add: kinit_def)
qed

text \<open>
  A machine with one free page, at 4096, and the run that takes it, gives it back and takes it
  again.
\<close>

definition empty_mm :: mm_state where
  "empty_mm = \<lparr>ram = (\<lambda>_. 0), g_freelist = 0\<rparr>"

lemma one_page: "mm_inv (kfree empty_mm 0x1000) [0x1000]"
  by (rule kfree_push) (simp_all add: mm_inv_def empty_mm_def page_aligned_def)

theorem kalloc_kfree_accounting_witness:
  "\<exists>s' held ys. fold (client_step kalloc kfree) [Op_alloc, Op_free 0x1000, Op_alloc]
        (kfree empty_mm 0x1000, []) = (s', held) \<and>
     mm_inv s' ys \<and> set (ys @ held) = {0x1000}"
proof -
  obtain s' held where "fold (client_step kalloc kfree) [Op_alloc, Op_free 0x1000, Op_alloc]
        (kfree empty_mm 0x1000, []) = (s', held)" by fastforce
  from kalloc_kfree_accounting [OF one_page this] this show ?thesis by auto
qed

theorem kalloc_zeroed_page_witness:
  "\<exists>s'. kalloc (kfree empty_mm 0x1000) = (0x1000, s') \<and> page_bytes s' 0x1000 = replicate 4096 0"
  using kalloc_zeroed_page [OF one_page] by auto

theorem kinit_builds_free_list_witness:
  "\<exists>s'. kinit (0x80000000 + KERNEL_VIRT_OFFSET) 0x80000000 0x3000 empty_mm = Some s' \<and>
     mm_inv s' (rev (pages_from (align_up 0x80000000 PAGE_SIZE) 3))"
  using kinit_builds_free_list [where s = empty_mm and kernel_end = "0x80000000 + KERNEL_VIRT_OFFSET"
      and mem_base = "0x80000000" and mem_size = "0x3000" and kend = "0x80000000" and n = 3]
  by (simp add: empty_mm_def align_up_def)

end
