(* ===== verification/Vm.thy ===== *)
theory Vm
  imports Mm
begin

text \<open>
  \<^verbatim>\<open>kernel/vm.c\<close>: Sv39 user address spaces in physical memory.  A page table is the physical
  address of its root; entries are 64-bit words read and written through \<^verbatim>\<open>load64\<close> and
  \<^verbatim>\<open>store64\<close>, and missing levels come from \<^verbatim>\<open>kalloc\<close>.  The kernel runs with physical
  memory mapped at its own addresses, so a \<^verbatim>\<open>PTE2PA\<close> result is dereferenced directly.

  Theory \<open>Vm_Spec\<close> says when the part of a table that serves user addresses is well formed
  (\<open>uvm_inv\<close>: tables and mapped frames are distinct pages, none of them free) and reads it as
  a map from user pages to leaf entries (\<open>uvm_view\<close>), against which the operations here are
  specified.
\<close>

abbreviation PTE_V :: u64 where "PTE_V \<equiv> 1"
abbreviation PTE_R :: u64 where "PTE_R \<equiv> 2"
abbreviation PTE_W :: u64 where "PTE_W \<equiv> 4"
abbreviation PTE_X :: u64 where "PTE_X \<equiv> 8"
abbreviation PTE_U :: u64 where "PTE_U \<equiv> 16"
abbreviation PTE_G :: u64 where "PTE_G \<equiv> 32"
abbreviation PTE_A :: u64 where "PTE_A \<equiv> 64"
abbreviation PTE_D :: u64 where "PTE_D \<equiv> 128"

abbreviation USER_BASE :: u64 where "USER_BASE \<equiv> 0x400000"
abbreviation USER_LIMIT :: u64 where "USER_LIMIT \<equiv> 0x1400000"
abbreviation USER_STACK_TOP :: u64 where "USER_STACK_TOP \<equiv> USER_LIMIT"
abbreviation USER_STACK_SIZE :: u64 where "USER_STACK_SIZE \<equiv> 0x80000"
abbreviation USER_STACK_BASE :: u64 where "USER_STACK_BASE \<equiv> USER_STACK_TOP - USER_STACK_SIZE"
abbreviation UART0_BASE :: u64 where "UART0_BASE \<equiv> 0x10000000"
abbreviation CLINT_BASE :: u64 where "CLINT_BASE \<equiv> 0x02000000"
abbreviation PLIC_BASE :: u64 where "PLIC_BASE \<equiv> 0x0c000000"

definition PTE2PA :: "u64 \<Rightarrow> u64" where
  "PTE2PA pte = push_bit 12 (drop_bit 10 pte)"

definition PA2PTE :: "u64 \<Rightarrow> u64" where
  "PA2PTE pa = push_bit 10 (drop_bit 12 pa)"

definition pte_make :: "u64 \<Rightarrow> u64 \<Rightarrow> u64" where
  "pte_make pa flags = push_bit 10 (drop_bit 12 pa) OR flags"

definition VPN2 :: "u64 \<Rightarrow> u64" where "VPN2 va = drop_bit 30 va AND 0x1FF"
definition VPN1 :: "u64 \<Rightarrow> u64" where "VPN1 va = drop_bit 21 va AND 0x1FF"
definition VPN0 :: "u64 \<Rightarrow> u64" where "VPN0 va = drop_bit 12 va AND 0x1FF"

definition PGROUNDUP :: "u64 \<Rightarrow> u64" where
  "PGROUNDUP a = (a + PAGE_SIZE - 1) AND NOT (PAGE_SIZE - 1)"

definition satp_ppn :: "u64 \<Rightarrow> u64" where
  "satp_ppn satp = satp AND (push_bit 44 1 - 1)"

definition va_sign_extend :: "u64 \<Rightarrow> u64" where
  "va_sign_extend va = (if va AND push_bit 38 1 \<noteq> 0 then va OR push_bit 39 (NOT 0) else va)"

definition kernel_pagetable :: "u64 \<Rightarrow> u64" where
  "kernel_pagetable satp = push_bit 12 (satp_ppn satp)"

text \<open>\<^verbatim>\<open>&pt[idx]\<close>\<close>

definition pte_addr :: "u64 \<Rightarrow> u64 \<Rightarrow> u64" where
  "pte_addr pt idx = pt + 8 * idx"

text \<open>One turn of the loop of \<^verbatim>\<open>walk\<close>: the next level's table, or \<^verbatim>\<open>NULL\<close>.\<close>

definition walk_level :: "u64 \<Rightarrow> u64 \<Rightarrow> bool \<Rightarrow> mm_state \<Rightarrow> u64 option \<times> mm_state" where
  "walk_level pt idx alloc s =
     (let a = pte_addr pt idx; pte = load64 (ram s) a in
      if pte AND PTE_V \<noteq> 0 then (Some (PTE2PA pte), s)
      else if \<not> alloc then (None, s)
      else (case kalloc s of (page, s1) \<Rightarrow>
        if page = 0 then (None, s1)
        else (Some page,
              s1\<lparr>ram := store64 (memset (ram s1) page 0 4096) a (PA2PTE page OR PTE_V)\<rparr>)))"

definition walk :: "u64 \<Rightarrow> u64 \<Rightarrow> bool \<Rightarrow> mm_state \<Rightarrow> u64 option \<times> mm_state" where
  "walk pt va alloc s =
     (case walk_level pt (VPN2 va) alloc s of
        (None, s1) \<Rightarrow> (None, s1)
      | (Some pt1, s1) \<Rightarrow>
          (case walk_level pt1 (VPN1 va) alloc s1 of
             (None, s2) \<Rightarrow> (None, s2)
           | (Some pt0, s2) \<Rightarrow> (Some (pte_addr pt0 (VPN0 va)), s2)))"

text \<open>
  \<^verbatim>\<open>uvm_create\<close> copies the root of the running table, so it takes the \<^verbatim>\<open>satp\<close> register.
\<close>

definition uvm_create :: "u64 \<Rightarrow> mm_state \<Rightarrow> u64 \<times> mm_state" where
  "uvm_create satp s =
     (case kalloc s of (pt, s1) \<Rightarrow>
        if pt = 0 then (0, s1)
        else
          (let s2 = s1\<lparr>ram := memset (ram s1) pt 0 4096\<rparr>;
               s3 = s2\<lparr>ram := memcpy (ram s2) pt (kernel_pagetable satp) 4096\<rparr> in
           case kalloc s3 of (low_l1, s4) \<Rightarrow>
             if low_l1 = 0 then (0, kfree s4 pt)
             else
               (let mmio_flags = PTE_V OR PTE_R OR PTE_W OR PTE_G OR PTE_A OR PTE_D;
                    m0 = memset (ram s4) low_l1 0 4096;
                    m1 = store64 m0 (pte_addr low_l1 (VPN1 UART0_BASE)) (pte_make UART0_BASE mmio_flags);
                    m2 = store64 m1 (pte_addr low_l1 (VPN1 CLINT_BASE)) (pte_make CLINT_BASE mmio_flags);
                    m3 = store64 m2 (pte_addr low_l1 (VPN1 PLIC_BASE)) (pte_make PLIC_BASE mmio_flags);
                    m4 = store64 m3 (pte_addr pt (VPN2 0)) (PA2PTE low_l1 OR PTE_V)
                in (pt, s4\<lparr>ram := m4\<rparr>))))"

text \<open>
  \<^verbatim>\<open>freewalk\<close> visits the 512 entries in order.  \<open>level\<close> is 2 at the root and 0 at the last
  level, where every entry is a leaf.
\<close>

fun freewalk :: "nat \<Rightarrow> u64 \<Rightarrow> u64 \<Rightarrow> mm_state \<Rightarrow> mm_state" where
  "freewalk level pt va_base s =
     fold (\<lambda>i s.
       let a = pte_addr pt (of_nat i); pte = load64 (ram s) a in
       if pte AND PTE_V = 0 then s
       else
         let va = va_base + push_bit (12 + 9 * level) (of_nat i); sva = va_sign_extend va in
         if level = 0 \<or> pte AND (PTE_R OR PTE_W OR PTE_X) \<noteq> 0 then
           (let s1 = (if pte AND PTE_U \<noteq> 0 \<and> sva < KERNEL_VIRT_BASE then kfree s (PTE2PA pte) else s)
            in s1\<lparr>ram := store64 (ram s1) a 0\<rparr>)
         else if KERNEL_VIRT_BASE \<le> sva then s
         else
           (let child = PTE2PA pte;
                s1 = kfree (freewalk (level - 1) child va s) child
            in s1\<lparr>ram := store64 (ram s1) a 0\<rparr>))
       [0..<512] s"

declare freewalk.simps [simp del]

definition uvm_free :: "u64 \<Rightarrow> mm_state \<Rightarrow> mm_state" where
  "uvm_free pt s = (if pt = 0 then s else kfree (freewalk 2 pt 0 s) pt)"

text \<open>
  The mapping loop runs until \<^verbatim>\<open>a == last\<close>; \<open>n\<close> counts the pages left after this one, so
  \<open>n = 0\<close> is that test (\<open>a\<close> reaches \<open>last\<close> after exactly \<open>n\<close> steps).
\<close>

fun uvm_map_loop :: "nat \<Rightarrow> u64 \<Rightarrow> u64 \<Rightarrow> u64 \<Rightarrow> u64 \<Rightarrow> mm_state \<Rightarrow> int \<times> mm_state" where
  "uvm_map_loop n pt a pa perm s =
     (case walk pt a True s of
        (None, s1) \<Rightarrow> (- ENOMEM, s1)
      | (Some p, s1) \<Rightarrow>
          if load64 (ram s1) p AND PTE_V \<noteq> 0 then (- EEXIST, s1)
          else
            (let s2 = s1\<lparr>ram := store64 (ram s1) p (PA2PTE pa OR perm OR PTE_V)\<rparr> in
             case n of
               0 \<Rightarrow> (0, s2)
             | Suc n' \<Rightarrow> uvm_map_loop n' pt (a + PAGE_SIZE) (pa + PAGE_SIZE) perm s2))"

definition uvm_map :: "u64 \<Rightarrow> u64 \<Rightarrow> u64 \<Rightarrow> u64 \<Rightarrow> u64 \<Rightarrow> mm_state \<Rightarrow> int \<times> mm_state" where
  "uvm_map pt va pa sz perm s =
     (let a = va AND NOT (PAGE_SIZE - 1);
          lst = (va + sz - 1) AND NOT (PAGE_SIZE - 1)
      in uvm_map_loop (unat (drop_bit 12 (lst - a))) pt a pa perm s)"

fun uvm_unmap_loop :: "nat \<Rightarrow> u64 \<Rightarrow> u64 \<Rightarrow> mm_state \<Rightarrow> mm_state" where
  "uvm_unmap_loop 0 pt a s = s"
| "uvm_unmap_loop (Suc n) pt a s =
     (case walk pt a False s of
        (None, s1) \<Rightarrow> uvm_unmap_loop n pt (a + PAGE_SIZE) s1
      | (Some p, s1) \<Rightarrow>
          let pte = load64 (ram s1) p in
          if pte AND PTE_V = 0 then uvm_unmap_loop n pt (a + PAGE_SIZE) s1
          else
            (let s2 = (if pte AND PTE_U \<noteq> 0 then kfree s1 (PTE2PA pte) else s1)
             in uvm_unmap_loop n pt (a + PAGE_SIZE) (s2\<lparr>ram := store64 (ram s2) p 0\<rparr>)))"

definition uvm_unmap :: "u64 \<Rightarrow> u64 \<Rightarrow> u64 \<Rightarrow> mm_state \<Rightarrow> int \<times> mm_state" where
  "uvm_unmap pt va npages s = (0, uvm_unmap_loop (unat npages) pt (va AND NOT (PAGE_SIZE - 1)) s)"

partial_function (option) uvm_alloc_loop ::
    "u64 \<Rightarrow> u64 \<Rightarrow> u64 \<Rightarrow> u64 \<Rightarrow> mm_state \<Rightarrow> (int \<times> mm_state) option" where
  "uvm_alloc_loop pt a lst perm s =
     (if \<not> a < lst then Some (0, s)
      else
        (case kalloc s of (mem, s1) \<Rightarrow>
           if mem = 0 then Some (- ENOMEM, s1)
           else
             (case uvm_map pt a mem PAGE_SIZE perm s1 of (r, s2) \<Rightarrow>
                if r \<noteq> 0 then Some (- ENOMEM, kfree s2 mem)
                else uvm_alloc_loop pt (a + PAGE_SIZE) lst perm s2)))"

definition uvm_alloc ::
    "u64 \<Rightarrow> u64 \<Rightarrow> u64 \<Rightarrow> u64 \<Rightarrow> mm_state \<Rightarrow> (int \<times> mm_state) option" where
  "uvm_alloc pt oldsz newsz perm s =
     (if newsz < oldsz then Some (0, s)
      else uvm_alloc_loop pt (PGROUNDUP oldsz) (PGROUNDUP newsz) perm s)"

definition uvm_dealloc :: "u64 \<Rightarrow> u64 \<Rightarrow> u64 \<Rightarrow> mm_state \<Rightarrow> int \<times> mm_state" where
  "uvm_dealloc pt oldsz newsz s =
     (if oldsz \<le> newsz then (0, s)
      else
        (let a = PGROUNDUP newsz; e = PGROUNDUP oldsz in
         if a < e then (0, snd (uvm_unmap pt a ((e - a) div PAGE_SIZE) s)) else (0, s)))"

text \<open>The body shared by \<^verbatim>\<open>uvm_copy\<close> and \<^verbatim>\<open>uvm_copy_range\<close>: copy one page when it is mapped.\<close>

definition uvm_copy_page :: "u64 \<Rightarrow> u64 \<Rightarrow> u64 \<Rightarrow> mm_state \<Rightarrow> int \<times> mm_state" where
  "uvm_copy_page src dst va s =
     (case walk src va False s of
        (None, s1) \<Rightarrow> (0, s1)
      | (Some p, s1) \<Rightarrow>
          let pte = load64 (ram s1) p in
          if pte AND PTE_V = 0 then (0, s1)
          else
            (let pa = PTE2PA pte; flags = pte AND (PTE_R OR PTE_W OR PTE_X OR PTE_U) in
             case kalloc s1 of (mem, s2) \<Rightarrow>
               if mem = 0 then (- ENOMEM, s2)
               else
                 (case uvm_map dst va mem PAGE_SIZE flags (s2\<lparr>ram := memcpy (ram s2) mem pa 4096\<rparr>) of
                    (r, s3) \<Rightarrow> if r \<noteq> 0 then (- ENOMEM, kfree s3 mem) else (0, s3))))"

partial_function (option) uvm_copy_loop ::
    "u64 \<Rightarrow> u64 \<Rightarrow> u64 \<Rightarrow> u64 \<Rightarrow> mm_state \<Rightarrow> (int \<times> mm_state) option" where
  "uvm_copy_loop src dst va lim s =
     (if \<not> va < lim then Some (0, s)
      else
        (case uvm_copy_page src dst va s of (r, s1) \<Rightarrow>
           if r \<noteq> 0 then Some (r, s1) else uvm_copy_loop src dst (va + PAGE_SIZE) lim s1))"

definition uvm_copy :: "u64 \<Rightarrow> u64 \<Rightarrow> u64 \<Rightarrow> mm_state \<Rightarrow> (int \<times> mm_state) option" where
  "uvm_copy src dst sz s = uvm_copy_loop src dst 0 sz s"

definition uvm_copy_range ::
    "u64 \<Rightarrow> u64 \<Rightarrow> u64 \<Rightarrow> u64 \<Rightarrow> mm_state \<Rightarrow> (int \<times> mm_state) option" where
  "uvm_copy_range src dst start lim s =
     (if lim < start then Some (- EINVAL, s)
      else uvm_copy_loop src dst (start AND NOT (PAGE_SIZE - 1)) lim s)"

text \<open>A lookup that never allocates does not change memory, so \<^verbatim>\<open>walkaddr\<close> is a pure function.\<close>

definition walkaddr :: "mm_state \<Rightarrow> u64 \<Rightarrow> u64 \<Rightarrow> u64" where
  "walkaddr s pt va =
     (case fst (walk pt va False s) of
        None \<Rightarrow> 0
      | Some p \<Rightarrow>
          let pte = load64 (ram s) p in
          if pte AND PTE_V = 0 then 0
          else if pte AND PTE_U = 0 then 0
          else PTE2PA pte + (va AND (PAGE_SIZE - 1)))"

text \<open>The bytes one turn of \<^verbatim>\<open>copyin\<close> and \<^verbatim>\<open>copyout\<close> moves: to the end of the page at most.\<close>

definition chunk_len :: "u64 \<Rightarrow> nat \<Rightarrow> nat" where
  "chunk_len va len = min (unat (PAGE_SIZE - (va AND (PAGE_SIZE - 1)))) len"

lemma chunk_len_pos: "0 < len \<Longrightarrow> 0 < chunk_len va len"
proof -
  have "unat (va AND 4095) < 4096" using unat_and_4095 [of va] by simp
  then have "va AND 4095 \<noteq> 4096" by auto
  then have "4096 - (va AND 4095) \<noteq> 0" by (metis eq_iff_diff_eq_0)
  then show "0 < len \<Longrightarrow> ?thesis" by (simp add: chunk_len_def unat_gt_0)
qed

lemma chunk_len_le: "chunk_len va len \<le> len"
  by (simp add: chunk_len_def)

function copyin :: "mm_state \<Rightarrow> u64 \<Rightarrow> u64 \<Rightarrow> nat \<Rightarrow> int \<times> u8 list" where
  "copyin s pt srcva len =
     (if len = 0 then (0, [])
      else
        (let pa = walkaddr s pt srcva in
         if pa = 0 then (- EFAULT, [])
         else
           (let n = chunk_len srcva len in
            case copyin s pt (srcva + of_nat n) (len - n) of
              (r, bs) \<Rightarrow> (r, load_bytes (ram s) pa n @ bs))))"
  by pat_completeness auto
termination
  by (relation "measure (\<lambda>(s, pt, srcva, len). len)") (auto simp: chunk_len_pos)

function copyout :: "u64 \<Rightarrow> u64 \<Rightarrow> u8 list \<Rightarrow> mm_state \<Rightarrow> int \<times> mm_state" where
  "copyout pt dstva src s =
     (if src = [] then (0, s)
      else
        (let pa = walkaddr s pt dstva in
         if pa = 0 then (- EFAULT, s)
         else
           (let n = chunk_len dstva (length src) in
            copyout pt (dstva + of_nat n) (drop n src)
              (s\<lparr>ram := store_bytes (ram s) pa (take n src)\<rparr>))))"
  by pat_completeness auto
termination
  by (relation "measure (\<lambda>(pt, dstva, src, s). length src)") (auto simp: chunk_len_pos)

declare copyin.simps [simp del] copyout.simps [simp del]

text \<open>\<^verbatim>\<open>copyinstr\<close> stops after the NUL, which is the last byte it returns then.\<close>

fun copyinstr :: "mm_state \<Rightarrow> u64 \<Rightarrow> u64 \<Rightarrow> nat \<Rightarrow> int \<times> u8 list" where
  "copyinstr s pt srcva 0 = (- ENAMETOOLONG, [])"
| "copyinstr s pt srcva (Suc k) =
     (let pa = walkaddr s pt srcva in
      if pa = 0 then (- EFAULT, [])
      else
        (let c = ram s pa in
         if c = 0 then (0, [c])
         else (case copyinstr s pt (srcva + 1) k of (r, bs) \<Rightarrow> (r, c # bs))))"

end
