(* ===== verification/Vm_Spec.thy ===== *)
theory Vm_Spec
  imports Vm
begin

text \<open>
  What \<^verbatim>\<open>kernel/vm.c\<close> promises about user address spaces.  Every page a table uses has one
  owner: the root, its first low-level table, a last-level table or a mapped frame.
  \<open>page_at\<close> reads the owners out of memory, \<open>uvm_inv\<close> says that they are distinct pages
  outside the free list, and the operations are described by how they update the view
  \<open>uvm_view\<close> of the mapped leaves.
\<close>

section \<open>Entries of a table page\<close>

lemma idx_offset:
  assumes "(i :: u64) < 512" shows "unat (8 * i) = 8 * unat i" and "8 * i = of_nat (8 * unat i)"
proof -
  have "unat i < 512" using assms by (simp add: word_less_nat_alt)
  then show "unat (8 * i) = 8 * unat i" by (simp add: unat_word_ariths)
  show "8 * i = of_nat (8 * unat i)" by simp
qed

lemma entry_byte:
  assumes "page_aligned q" and "j < 512" and "k < 8"
  shows "page_of (pte_addr q j + of_nat k) = q"
    and "unat (pte_addr q j + of_nat k - q) = 8 * unat j + k"
proof -
  have eq: "pte_addr q j + of_nat k = q + of_nat (8 * unat j + k)"
    using idx_offset(2) [OF assms(2)] by (simp add: pte_addr_def add.assoc)
  have "unat j < 512" using assms(2) by (simp add: word_less_nat_alt)
  then have lt: "8 * unat j + k < 4096" using assms(3) by simp
  show "page_of (pte_addr q j + of_nat k) = q"
    and "unat (pte_addr q j + of_nat k - q) = 8 * unat j + k"
    unfolding eq by (rule in_page_offset [OF assms(1) lt])+
qed

lemma store64_entry_other:
  assumes "page_aligned p" and "page_aligned q" and "i < 512" and "j < 512" and "k < 8"
    and "p \<noteq> q \<or> i \<noteq> j"
  shows "store64 m (pte_addr p i) v (pte_addr q j + of_nat k) = m (pte_addr q j + of_nat k)"
proof -
  let ?x = "pte_addr q j + of_nat k"
  have "\<not> unat (?x - pte_addr p i) < 8"
  proof
    assume lt: "unat (?x - pte_addr p i) < 8"
    define d where "d = unat (?x - pte_addr p i)"
    have x: "?x = pte_addr p i + of_nat d" by (simp add: d_def)
    have d: "d < 8" unfolding d_def by (rule lt)
    have "p = page_of ?x"
      using entry_byte(1) [OF assms(1,3) d] unfolding x [symmetric] by simp
    also have "\<dots> = q" by (rule entry_byte(1) [OF assms(2,4,5)])
    finally have "p = q" .
    have "8 * unat i + d = unat (?x - p)"
      using entry_byte(2) [OF assms(1,3) d] unfolding x [symmetric] by simp
    also have "\<dots> = 8 * unat j + k"
      using entry_byte(2) [OF assms(2,4,5)] unfolding \<open>p = q\<close> by simp
    finally have "unat i = unat j" using d assms(5) by linarith
    then show False using assms(6) \<open>p = q\<close> by (simp add: word_unat_eq_iff)
  qed
  then show ?thesis by (simp add: store64_def store_bytes_apply)
qed

lemma load64_entry_cong:
  assumes "page_aligned q" and "j < 512" and "\<And>x. page_of x = q \<Longrightarrow> m x = m' x"
  shows "load64 m (pte_addr q j) = load64 m' (pte_addr q j)"
proof -
  have "load_bytes m (pte_addr q j) 8 = load_bytes m' (pte_addr q j) 8"
    by (rule load_bytes_cong) (use assms entry_byte(1) in auto)
  then show ?thesis by (simp add: load64_def)
qed

lemma load64_store64_entry:
  assumes "page_aligned p" and "page_aligned q" and "i < 512" and "j < 512"
  shows "load64 (store64 m (pte_addr p i) v) (pte_addr q j) =
           (if p = q \<and> i = j then v else load64 m (pte_addr q j))"
proof (cases "p = q \<and> i = j")
  case False
  have "load_bytes (store64 m (pte_addr p i) v) (pte_addr q j) 8 = load_bytes m (pte_addr q j) 8"
    by (rule load_bytes_cong) (use store64_entry_other [OF assms] False in auto)
  then show ?thesis using False by (auto simp: load64_def)
qed simp

lemma store64_entry_page:
  assumes "page_aligned p" and "i < 512" and "page_of x \<noteq> p"
  shows "store64 m (pte_addr p i) v x = m x"
proof -
  have "\<not> unat (x - pte_addr p i) < 8"
  proof
    assume lt: "unat (x - pte_addr p i) < 8"
    have "x = pte_addr p i + of_nat (unat (x - pte_addr p i))" by simp
    then have "page_of x = p" using entry_byte(1) [OF assms(1,2) lt] by metis
    then show False using assms(3) by simp
  qed
  then show ?thesis by (simp add: store64_def store_bytes_apply)
qed

lemma load64_zero_page:
  assumes "page_aligned p" and "i < 512" and "\<And>x. page_of x = p \<Longrightarrow> m x = 0"
  shows "load64 m (pte_addr p i) = 0"
proof -
  have "load64 m (pte_addr p i) = load64 (\<lambda>_. 0) (pte_addr p i)"
    by (rule load64_entry_cong [OF assms(1,2)]) (simp add: assms(3))
  also have "\<dots> = 0"
    by (simp add: load64_def numeral_eq_Suc)
  finally show ?thesis .
qed

section \<open>Entries and addresses\<close>

lemma PTE2PA_aligned [simp]: "page_aligned (PTE2PA e)"
proof -
  have "PTE2PA e AND mask 12 = 0"
    by (rule bit_word_eqI)
      (auto simp: PTE2PA_def bit_and_iff bit_mask_iff bit_push_bit_iff)
  then show ?thesis by (simp add: page_aligned_def mask_eq_exp_minus_1)
qed

lemma page_aligned_bits: "page_aligned p \<longleftrightarrow> (\<forall>n<12. \<not> bit p n)"
proof -
  have "page_aligned p \<longleftrightarrow> take_bit 12 p = 0"
    using and_4095 [of p] by (simp add: page_aligned_def)
  also have "\<dots> \<longleftrightarrow> (\<forall>n<12. \<not> bit p n)"
    by (auto simp: bit_eq_iff bit_take_bit_iff possible_bit_word dest: bit_imp_le_length)
  finally show ?thesis .
qed

lemma PTE2PA_leaf:
  assumes "page_aligned pa" and "flags < 1024"
  shows "PTE2PA (PA2PTE pa OR flags) = pa"
proof (rule bit_word_eqI)
  fix n assume n: "n < LENGTH(64)"
  have f: "\<not> bit flags k" if "10 \<le> k" for k
  proof -
    have "flags = take_bit 10 flags"
      using assms(2) by (intro word_unat_eq_iff [THEN iffD2])
        (simp add: word_less_nat_alt unsigned_take_bit_eq take_bit_nat_eq_self)
    then show ?thesis using that by (metis bit_take_bit_iff not_le)
  qed
  show "bit (PTE2PA (PA2PTE pa OR flags)) n = bit pa n"
    using n f assms(1) unfolding page_aligned_bits
    by (cases "n < 12")
      (auto simp: PTE2PA_def PA2PTE_def bit_push_bit_iff bit_drop_bit_eq bit_or_iff possible_bit_word)
qed

lemma leaf_low_bits:
  assumes "k < 10"
  shows "bit (PA2PTE pa OR flags) k = bit flags k"
  using assms by (auto simp: PA2PTE_def bit_push_bit_iff bit_or_iff)


section \<open>User addresses\<close>

definition user_va :: "u64 \<Rightarrow> bool" where
  "user_va va \<longleftrightarrow> USER_BASE \<le> va \<and> va < USER_LIMIT"

definition user_idx :: "u64 \<Rightarrow> bool" where
  "user_idx i \<longleftrightarrow> 2 \<le> i \<and> i < 10"

lemma and_511: "unat ((x :: u64) AND 511) = unat x mod 512"
proof -
  have "x AND 511 = take_bit 9 x" by (simp add: take_bit_eq_mask mask_eq_exp_minus_1)
  then show ?thesis by (simp only: unsigned_take_bit_eq) (simp add: take_bit_eq_mod)
qed

lemma unat_drop_bit: "unat (drop_bit n (x :: u64)) = unat x div 2 ^ n"
  using unsigned_less [of x, where 'a = nat]
  by (simp only: unsigned_drop_bit_eq) (simp add: drop_bit_eq_div take_bit_nat_eq_self)

lemma unat_VPN:
  "unat (VPN2 va) = unat va div 2 ^ 30 mod 512"
  "unat (VPN1 va) = unat va div 2 ^ 21 mod 512"
  "unat (VPN0 va) = unat va div 2 ^ 12 mod 512"
  by (simp_all add: VPN2_def VPN1_def VPN0_def and_511 unat_drop_bit)

lemma VPN_lt [simp]: "VPN2 va < 512" "VPN1 va < 512" "VPN0 va < 512"
  by (simp_all add: word_less_nat_alt unat_VPN)

lemma user_va_VPN:
  assumes "user_va va" shows "VPN2 va = 0" and "user_idx (VPN1 va)"
proof -
  have lo: "0x400000 \<le> unat va" and hi: "unat va < 0x1400000"
    using assms by (simp_all add: user_va_def word_le_nat_alt word_less_nat_alt)
  have "unat va div 2 ^ 30 = 0" using hi by simp
  then show "VPN2 va = 0" by (simp add: word_unat_eq_iff unat_VPN)
  have "2 \<le> unat va div 2 ^ 21" and "unat va div 2 ^ 21 < 10" using lo hi by simp_all
  then show "user_idx (VPN1 va)"
    by (simp add: user_idx_def word_le_nat_alt word_less_nat_alt unat_VPN)
qed

lemma user_idx_lt: "user_idx i \<Longrightarrow> i < 512"
  by (simp add: user_idx_def word_less_nat_alt)

lemma user_page_unat:
  assumes "user_va va"
  shows "unat (page_of va) = 4096 * (512 * unat (VPN1 va) + unat (VPN0 va))"
proof -
  have hi: "unat va < 0x1400000"
    using assms by (simp add: user_va_def word_less_nat_alt)
  define n where "n = unat va"
  have "n div 2 ^ 21 mod 512 = n div 2 ^ 21" using hi by (simp add: n_def)
  moreover have "n div 2 ^ 21 = (n div 4096) div 512" by (simp add: div_mult2_eq [symmetric])
  moreover have "512 * ((n div 4096) div 512) + (n div 4096) mod 512 = n div 4096" by simp
  ultimately have "512 * unat (VPN1 va) + unat (VPN0 va) = n div 4096"
    by (simp add: unat_VPN n_def)
  then show ?thesis
    by (simp add: unat_page_of n_def minus_mod_eq_mult_div)
qed

lemma user_page_inj:
  assumes "user_va a" and "user_va b"
  shows "VPN1 a = VPN1 b \<and> VPN0 a = VPN0 b \<longleftrightarrow> page_of a = page_of b"
proof
  assume "VPN1 a = VPN1 b \<and> VPN0 a = VPN0 b"
  then show "page_of a = page_of b"
    using user_page_unat [OF assms(1)] user_page_unat [OF assms(2)] by (simp add: word_unat_eq_iff)
next
  assume "page_of a = page_of b"
  then have "512 * unat (VPN1 a) + unat (VPN0 a) = 512 * unat (VPN1 b) + unat (VPN0 b)"
    using user_page_unat [OF assms(1)] user_page_unat [OF assms(2)] by simp
  moreover have "(512 * m + n) div 512 = m \<and> (512 * m + n) mod 512 = n" if "n < 512" for m n :: nat
    using that by simp
  moreover have "unat (VPN0 a) < 512" "unat (VPN0 b) < 512" by (simp_all add: unat_VPN)
  ultimately have "unat (VPN1 a) = unat (VPN1 b) \<and> unat (VPN0 a) = unat (VPN0 b)"
    by metis
  then show "VPN1 a = VPN1 b \<and> VPN0 a = VPN0 b" by (simp add: word_unat_eq_iff)
qed

section \<open>The owners of pages\<close>

text \<open>A valid entry of a table page.\<close>

definition tbl :: "mem \<Rightarrow> u64 \<Rightarrow> u64 \<Rightarrow> u64 option" where
  "tbl m p k = (let e = load64 m (pte_addr p k) in if e AND PTE_V \<noteq> 0 then Some e else None)"

text \<open>The leaf entry for a user page: the last-level table is found in entry \<open>i\<close> of \<open>l1\<close>.\<close>

definition leaf :: "mem \<Rightarrow> u64 \<Rightarrow> u64 \<Rightarrow> u64 \<Rightarrow> u64 option" where
  "leaf m l1 i j = (case tbl m l1 i of None \<Rightarrow> None | Some e \<Rightarrow> tbl m (PTE2PA e) j)"

definition uvm_view :: "mm_state \<Rightarrow> u64 \<Rightarrow> u64 \<Rightarrow> u64 option" where
  "uvm_view s l1 va = leaf (ram s) l1 (VPN1 va) (VPN0 va)"

datatype owner = Root | L1 | L0 u64 | Frame u64 u64

text \<open>Only leaves with the user bit own their frame: \<^verbatim>\<open>uvm_unmap\<close> frees no other.\<close>

definition frame_of :: "u64 option \<Rightarrow> u64 option" where
  "frame_of e = (case e of None \<Rightarrow> None | Some e \<Rightarrow> if e AND PTE_U \<noteq> 0 then Some (PTE2PA e) else None)"

fun page_at :: "mem \<Rightarrow> u64 \<Rightarrow> u64 \<Rightarrow> owner \<Rightarrow> u64 option" where
  "page_at m root l1 Root = Some root"
| "page_at m root l1 L1 = Some l1"
| "page_at m root l1 (L0 i) = (if user_idx i then map_option PTE2PA (tbl m l1 i) else None)"
| "page_at m root l1 (Frame i j) =
     (if user_idx i \<and> j < 512 then frame_of (leaf m l1 i j) else None)"

definition own_ok :: "u64 list \<Rightarrow> (owner \<Rightarrow> u64 option) \<Rightarrow> bool" where
  "own_ok xs A \<longleftrightarrow>
     (\<forall>x p. A x = Some p \<longrightarrow> page_aligned p \<and> p \<noteq> 0 \<and> p \<notin> set xs) \<and>
     (\<forall>x y p. A x = Some p \<longrightarrow> A y = Some p \<longrightarrow> x = y)"

definition uvm_inv :: "mm_state \<Rightarrow> u64 list \<Rightarrow> u64 \<Rightarrow> u64 \<Rightarrow> bool" where
  "uvm_inv s xs root l1 \<longleftrightarrow>
     mm_inv s xs \<and> map_option PTE2PA (tbl (ram s) root 0) = Some l1 \<and>
     own_ok xs (page_at (ram s) root l1)"

text \<open>A page no table uses and that is not free.\<close>

definition fresh :: "mm_state \<Rightarrow> u64 list \<Rightarrow> u64 \<Rightarrow> u64 \<Rightarrow> u64 \<Rightarrow> bool" where
  "fresh s xs root l1 p \<longleftrightarrow>
     page_aligned p \<and> p \<noteq> 0 \<and> p \<notin> set xs \<and> (\<forall>x. page_at (ram s) root l1 x \<noteq> Some p)"

lemma own_okD:
  assumes "own_ok xs A" and "A x = Some p"
  shows "page_aligned p" and "p \<noteq> 0" and "p \<notin> set xs" and "A y = Some p \<Longrightarrow> x = y"
  using assms unfolding own_ok_def by blast+

lemma own_ok_upd:
  assumes "own_ok xs A" and "\<forall>x. A x \<noteq> Some p" and "page_aligned p" and "p \<noteq> 0" and "p \<notin> set xs"
  shows "own_ok xs (A(x := Some p))"
  using assms unfolding own_ok_def by (auto split: if_splits)

lemma own_ok_None: "own_ok xs A \<Longrightarrow> own_ok xs (A(x := None))"
  unfolding own_ok_def by (auto split: if_splits)

lemma own_ok_subset: "own_ok xs A \<Longrightarrow> set ys \<subseteq> set xs \<Longrightarrow> own_ok ys A"
  unfolding own_ok_def by blast

lemma own_ok_Cons: "own_ok xs A \<Longrightarrow> \<forall>x. A x \<noteq> Some p \<Longrightarrow> own_ok (p # xs) A"
  unfolding own_ok_def by auto

lemma tbl_cong:
  "page_aligned p \<Longrightarrow> k < 512 \<Longrightarrow> (\<And>x. page_of x = p \<Longrightarrow> m x = m' x) \<Longrightarrow> tbl m p k = tbl m' p k"
  unfolding tbl_def using load64_entry_cong by metis

lemma tbl_store:
  assumes "page_aligned p" and "page_aligned q" and "i < 512" and "j < 512"
  shows "tbl (store64 m (pte_addr p i) v) q j =
           (if p = q \<and> i = j then (if v AND PTE_V \<noteq> 0 then Some v else None) else tbl m q j)"
  unfolding tbl_def load64_store64_entry [OF assms] by (auto simp: Let_def)

lemma tbl_zero:
  "page_aligned p \<Longrightarrow> i < 512 \<Longrightarrow> (\<And>x. page_of x = p \<Longrightarrow> m x = 0) \<Longrightarrow> tbl m p i = None"
  by (simp add: tbl_def load64_zero_page)

lemma leaf_bits:
  assumes "page_aligned pa" and "flags < 1024"
  shows "PTE2PA (PA2PTE pa OR flags OR PTE_V) = pa"
    and "(PA2PTE pa OR flags OR PTE_V) AND PTE_V \<noteq> 0"
    and "(PA2PTE pa OR flags OR PTE_V) AND PTE_U = flags AND PTE_U"
proof -
  have t: "take_bit 10 x = x" if "x < 1024" for x :: u64
    using that by (intro word_unat_eq_iff [THEN iffD2])
      (simp add: word_less_nat_alt unsigned_take_bit_eq take_bit_nat_eq_self)
  have "take_bit 10 (flags OR PTE_V) = flags OR PTE_V"
    using t [OF assms(2)] t [of PTE_V] by (simp only: take_bit_or) (simp add: word_less_nat_alt)
  then have "unat (flags OR PTE_V) = take_bit 10 (unat (flags OR PTE_V))"
    by (metis unsigned_take_bit_eq)
  then have "flags OR PTE_V < 1024"
    using take_bit_nat_less_exp [of 10 "unat (flags OR PTE_V)"] by (simp add: word_less_nat_alt)
  then show "PTE2PA (PA2PTE pa OR flags OR PTE_V) = pa"
    using PTE2PA_leaf [OF assms(1), of "flags OR PTE_V"] by (simp only: or.assoc)
  have "bit ((PA2PTE pa OR flags OR PTE_V) AND PTE_V) 0" by (simp add: bit_and_iff bit_or_iff)
  then show "(PA2PTE pa OR flags OR PTE_V) AND PTE_V \<noteq> 0" by (metis bit_0_eq bot_apply bot_bool_def)
  have u: "bit PTE_U n \<longleftrightarrow> n = 4" for n
  proof -
    have "PTE_U = push_bit 4 1" by simp
    then show ?thesis by (simp only: bit_push_bit_iff bit_1_iff) auto
  qed
  show "(PA2PTE pa OR flags OR PTE_V) AND PTE_U = flags AND PTE_U"
  proof (rule bit_word_eqI)
    fix n assume "n < LENGTH(64)"
    show "bit ((PA2PTE pa OR flags OR PTE_V) AND PTE_U) n = bit (flags AND PTE_U) n"
      by (cases "n = 4")
        (simp_all only: bit_and_iff bit_or_iff u PA2PTE_def bit_push_bit_iff bit_1_iff, simp_all)
  qed
qed

end
