(* ===== verification/Vm_User.thy ===== *)
theory Vm_User
  imports Vm_Spec
begin

text \<open>
  The operations of \<^verbatim>\<open>kernel/vm.c\<close> on user pages, proved against \<open>uvm_view\<close> and \<open>uvm_inv\<close>
  of \<open>Vm_Spec\<close>: what taking a page, linking a last-level table and writing a leaf do to the
  owners, then \<^verbatim>\<open>walk\<close>, \<^verbatim>\<open>uvm_map\<close>, \<^verbatim>\<open>uvm_alloc\<close>, \<^verbatim>\<open>uvm_unmap\<close>, \<^verbatim>\<open>walkaddr\<close>,
  \<^verbatim>\<open>copyin\<close> and \<^verbatim>\<open>copyout\<close>.
\<close>

definition ent :: "u64 \<Rightarrow> u64 option" where
  "ent e = (if e AND PTE_V \<noteq> 0 then Some e else None)"

section \<open>What a store does to the owners\<close>

text \<open>\<open>table_page m root l1 p\<close>: the walk of a user address reads page \<open>p\<close> below the root.\<close>

definition table_page :: "mem \<Rightarrow> u64 \<Rightarrow> u64 \<Rightarrow> u64 \<Rightarrow> bool" where
  "table_page m root l1 p \<longleftrightarrow> p = l1 \<or> (\<exists>i. page_at m root l1 (L0 i) = Some p)"

lemma uvm_invD:
  assumes "uvm_inv s xs root l1"
  shows "mm_inv s xs" and "map_option PTE2PA (tbl (ram s) root 0) = Some l1"
    and "own_ok xs (page_at (ram s) root l1)"
    and "page_aligned root" "root \<notin> set xs" "page_aligned l1" "l1 \<notin> set xs" "root \<noteq> l1"
proof -
  show own: "own_ok xs (page_at (ram s) root l1)"
    and "mm_inv s xs" and "map_option PTE2PA (tbl (ram s) root 0) = Some l1"
    using assms by (simp_all add: uvm_inv_def)
  show "page_aligned root" "root \<notin> set xs" "page_aligned l1" "l1 \<notin> set xs"
    using own_okD [OF own, of Root root] own_okD [OF own, of L1 l1] by simp_all
  show "root \<noteq> l1" using own_okD(4) [OF own, of Root root L1] by auto
qed

lemma leaf_cong:
  assumes "page_aligned l1" and "user_idx i" and "j < 512"
    and "\<And>i p. page_at m root l1 (L0 i) = Some p \<Longrightarrow> page_aligned p"
    and "\<And>x. table_page m root l1 (page_of x) \<Longrightarrow> m x = m' x"
  shows "leaf m' l1 i j = leaf m l1 i j" and "tbl m' l1 i = tbl m l1 i"
proof -
  have l1: "tbl m l1 i = tbl m' l1 i"
    by (rule tbl_cong) (use assms user_idx_lt in \<open>auto simp: table_page_def\<close>)
  then show "tbl m' l1 i = tbl m l1 i" by simp
  show "leaf m' l1 i j = leaf m l1 i j"
  proof (cases "tbl m l1 i")
    case (Some e)
    then have p: "page_at m root l1 (L0 i) = Some (PTE2PA e)" using assms(2) by simp
    have "table_page m root l1 (PTE2PA e)" using p unfolding table_page_def by blast
    then have "tbl m (PTE2PA e) j = tbl m' (PTE2PA e) j"
      by (intro tbl_cong) (simp_all add: assms(3,5))
    then show ?thesis using Some l1 by (simp add: leaf_def)
  qed (use l1 in \<open>simp add: leaf_def\<close>)
qed

lemma page_at_cong:
  assumes "page_aligned l1" and "\<And>i p. page_at m root l1 (L0 i) = Some p \<Longrightarrow> page_aligned p"
    and "\<And>x. table_page m root l1 (page_of x) \<Longrightarrow> m x = m' x"
  shows "page_at m' root l1 = page_at m root l1"
proof
  fix x show "page_at m' root l1 x = page_at m root l1 x"
  proof (cases x)
    case (L0 i)
    have "tbl m' l1 i = tbl m l1 i" if "user_idx i"
      by (rule leaf_cong(2) [OF assms(1) that, of 0 _ root]) (use assms(2,3) in auto)
    then show ?thesis by (simp add: L0)
  next
    case (Frame i j)
    have "leaf m' l1 i j = leaf m l1 i j" if "user_idx i" "j < 512"
      by (rule leaf_cong(1) [OF assms(1) that, of _ root]) (use assms(2,3) in auto)
    then show ?thesis by (simp add: Frame)
  qed simp_all
qed

text \<open>Stores outside the tables: a free page, a fresh page, a frame.\<close>

lemma uvm_inv_mem:
  assumes "uvm_inv s xs root l1" and "mm_inv s' ys" and "set ys \<subseteq> set xs"
    and "\<forall>x. page_of x = root \<or> table_page (ram s) root l1 (page_of x) \<longrightarrow> ram s' x = ram s x"
  shows "uvm_inv s' ys root l1" and "page_at (ram s') root l1 = page_at (ram s) root l1"
    and "user_idx i \<Longrightarrow> j < 512 \<Longrightarrow> leaf (ram s') l1 i j = leaf (ram s) l1 i j"
proof -
  note inv = uvm_invD [OF assms(1)]
  have al: "page_aligned p" if "page_at (ram s) root l1 (L0 i) = Some p" for i p
    using own_okD(1) [OF inv(3) that] .
  show eq: "page_at (ram s') root l1 = page_at (ram s) root l1"
    by (rule page_at_cong) (use inv al assms(4) in auto)
  show "user_idx i \<Longrightarrow> j < 512 \<Longrightarrow> leaf (ram s') l1 i j = leaf (ram s) l1 i j"
    by (rule leaf_cong(1) [where root = root]) (use inv(6) al assms(4) in auto)
  have "tbl (ram s') root 0 = tbl (ram s) root 0"
    by (rule tbl_cong) (use inv assms(4) in auto)
  then show "uvm_inv s' ys root l1"
    using inv assms(2) own_ok_subset [OF inv(3) assms(3)] by (simp add: uvm_inv_def eq)
qed

lemma table_page_owned:
  "table_page m root l1 p \<or> p = root \<Longrightarrow> \<exists>x. page_at m root l1 x = Some p"
  unfolding table_page_def using page_at.simps(1,2) by blast

lemma uvm_kalloc:
  assumes "uvm_inv s (x # xs) root l1" and "kalloc s = (p, s')"
  shows "p = x" and "uvm_inv s' xs root l1" and "fresh s' xs root l1 x"
    and "page_at (ram s') root l1 = page_at (ram s) root l1"
    and "user_idx i \<Longrightarrow> j < 512 \<Longrightarrow> leaf (ram s') l1 i j = leaf (ram s) l1 i j"
    and "ram s' y = (if page_of y = x then 0 else ram s y)"
proof -
  note inv = uvm_invD [OF assms(1)]
  note pop = kalloc_pop [OF inv(1)]
  show "p = x" using pop(1) assms(2) by simp
  show r: "ram s' y = (if page_of y = x then 0 else ram s y)" for y
    using pop(3) [of y] assms(2) by simp
  have un: "page_at (ram s) root l1 q \<noteq> Some x" for q
    using own_okD(3) [OF inv(3), of q x] by auto
  have keep: "\<forall>y. page_of y = root \<or> table_page (ram s) root l1 (page_of y) \<longrightarrow> ram s' y = ram s y"
    using table_page_owned [of "ram s" root l1] un r by auto
  have mm: "mm_inv s' xs" using pop(2) assms(2) by simp
  note frame = uvm_inv_mem [OF assms(1) mm _ keep]
  show "uvm_inv s' xs root l1" and eq: "page_at (ram s') root l1 = page_at (ram s) root l1"
    and "user_idx i \<Longrightarrow> j < 512 \<Longrightarrow> leaf (ram s') l1 i j = leaf (ram s) l1 i j"
    by (rule frame; auto)+
  have "page_aligned x \<and> x \<noteq> 0 \<and> x \<notin> set xs"
    using mm.inv_pages [OF inv(1)] by simp
  then show "fresh s' xs root l1 x" using un by (simp add: fresh_def eq)
qed

lemma mm_inv_store:
  assumes "mm_inv s xs" and "page_aligned p" and "i < 512" and "p \<notin> set xs"
  shows "mm_inv (s\<lparr>ram := store64 (ram s) (pte_addr p i) v\<rparr>) xs"
proof -
  have "free_list (store64 (ram s) (pte_addr p i) v) (g_freelist s) xs"
  proof (rule free_list_cong)
    show "free_list (ram s) (g_freelist s) xs" "\<forall>x\<in>set xs. page_aligned x"
      using assms(1) by (simp_all add: mm_inv_def)
    show "ram s y = store64 (ram s) (pte_addr p i) v y" if "page_of y \<in> set xs" for y
      using that assms(4) by (intro store64_entry_page [OF assms(2,3), symmetric]) blast
  qed
  then show ?thesis using assms(1) by (simp add: mm_inv_def)
qed

text \<open>Writing entry \<open>i\<close> of the first low table links a zeroed fresh page as a last-level table.\<close>

lemma uvm_link_table:
  assumes "uvm_inv s xs root l1" and "user_idx i" and "page_at (ram s) root l1 (L0 i) = None"
    and "fresh s xs root l1 p" and "\<And>y. page_of y = p \<Longrightarrow> ram s y = 0"
    and "s' = s\<lparr>ram := store64 (ram s) (pte_addr l1 i) (PA2PTE p OR PTE_V)\<rparr>"
  shows "uvm_inv s' xs root l1"
    and "page_at (ram s') root l1 = (page_at (ram s) root l1)(L0 i := Some p)"
    and "user_idx i' \<Longrightarrow> j' < 512 \<Longrightarrow> leaf (ram s') l1 i' j' = leaf (ram s) l1 i' j'"
proof -
  note inv = uvm_invD [OF assms(1)]
  have p: "page_aligned p" "p \<noteq> 0" "p \<notin> set xs" "\<And>x. page_at (ram s) root l1 x \<noteq> Some p"
    using assms(4) by (auto simp: fresh_def)
  let ?e = "PA2PTE p OR PTE_V"
  have e: "PTE2PA ?e = p" "?e AND PTE_V \<noteq> 0"
    using leaf_bits(1,2) [OF p(1), of 0] by (simp_all add: word_less_nat_alt)
  have i: "i < 512" by (rule user_idx_lt [OF assms(2)])
  have pl: "p \<noteq> l1" "p \<noteq> root" using p(4) [of L1] p(4) [of Root] by auto
  have none: "tbl (ram s) l1 i = None" using assms(2,3) by simp
  have r: "ram s' = store64 (ram s) (pte_addr l1 i) ?e" by (simp add: assms(6))
  have t1: "tbl (ram s') l1 k = (if k = i then Some ?e else tbl (ram s) l1 k)" if "k < 512" for k
    using tbl_store [OF inv(6,6) i that] e(2) by (auto simp: r)
  have tq: "tbl (ram s') q k = tbl (ram s) q k" if "page_aligned q" "q \<noteq> l1" "k < 512" for q k
    using tbl_store [OF inv(6) that(1) i that(3)] that(2) by (auto simp: r)
  have "ram s' y = ram s y" if "page_of y = p" for y
    using store64_entry_page [OF inv(6) i] that pl by (simp add: r)
  then have tp: "tbl (ram s') p k = None" if "k < 512" for k
    using assms(5) that by (intro tbl_zero [OF p(1)]) auto
  show lf: "leaf (ram s') l1 i' j' = leaf (ram s) l1 i' j'" if "user_idx i'" "j' < 512" for i' j'
  proof (cases "i' = i")
    case True
    then show ?thesis using t1 [OF i] none tp [OF that(2)] e(1) by (simp add: leaf_def)
  next
    case False
    have i': "i' < 512" by (rule user_idx_lt [OF that(1)])
    show ?thesis
    proof (cases "tbl (ram s) l1 i'")
      case (Some e')
      then have q: "page_at (ram s) root l1 (L0 i') = Some (PTE2PA e')" using that by simp
      have "PTE2PA e' \<noteq> l1"
      proof
        assume "PTE2PA e' = l1"
        then show False using own_okD(4) [OF inv(3) q, of L1] by simp
      qed
      then have "tbl (ram s') (PTE2PA e') j' = tbl (ram s) (PTE2PA e') j'"
        using tq that(2) by simp
      then show ?thesis using t1 [OF i'] Some False by (simp add: leaf_def)
    qed (use t1 [OF i'] False in \<open>simp add: leaf_def\<close>)
  qed
  show eq: "page_at (ram s') root l1 = (page_at (ram s) root l1)(L0 i := Some p)"
  proof
    fix x show "page_at (ram s') root l1 x = ((page_at (ram s) root l1)(L0 i := Some p)) x"
      by (cases x) (auto simp: t1 user_idx_lt e(1) lf assms(2))
  qed
  have "own_ok xs (page_at (ram s') root l1)"
    unfolding eq by (rule own_ok_upd) (use inv p in auto)
  moreover have "mm_inv s' xs" unfolding assms(6) by (rule mm_inv_store) (use inv i in auto)
  moreover have "tbl (ram s') root 0 = tbl (ram s) root 0" by (rule tq) (use inv in auto)
  ultimately show "uvm_inv s' xs root l1" using inv(2) by (simp add: uvm_inv_def)
qed

text \<open>Writing entry \<open>j\<close> of a last-level table changes one leaf.\<close>

lemma uvm_write_leaf:
  assumes "uvm_inv s xs root l1" and "user_idx i" and "j < 512"
    and "page_at (ram s) root l1 (L0 i) = Some q"
    and "s' = s\<lparr>ram := store64 (ram s) (pte_addr q j) v\<rparr>"
  shows "mm_inv s' xs" and "map_option PTE2PA (tbl (ram s') root 0) = Some l1"
    and "page_at (ram s') root l1 = (page_at (ram s) root l1)(Frame i j := frame_of (ent v))"
    and "user_idx i' \<Longrightarrow> j' < 512 \<Longrightarrow>
      leaf (ram s') l1 i' j' = (if i' = i \<and> j' = j then ent v else leaf (ram s) l1 i' j')"
proof -
  note inv = uvm_invD [OF assms(1)]
  note q = own_okD [OF inv(3) assms(4)]
  have ql: "q \<noteq> l1" "q \<noteq> root" using q(4) [of L1] q(4) [of Root] by auto
  have r: "ram s' = store64 (ram s) (pte_addr q j) v" by (simp add: assms(5))
  obtain e where e: "tbl (ram s) l1 i = Some e" "PTE2PA e = q"
    using assms(2,4) by auto
  have tk: "tbl (ram s') p k = (if p = q \<and> k = j then ent v else tbl (ram s) p k)"
    if "page_aligned p" "k < 512" for p k
    using tbl_store [OF q(1) that(1) assms(3) that(2)] by (auto simp: r ent_def)
  show lf: "leaf (ram s') l1 i' j' = (if i' = i \<and> j' = j then ent v else leaf (ram s) l1 i' j')"
    if "user_idx i'" "j' < 512" for i' j'
  proof (cases "tbl (ram s) l1 i'")
    case None
    then show ?thesis
      using tk [OF inv(6) user_idx_lt [OF that(1)]] ql e(1) by (auto simp: leaf_def)
  next
    case (Some e')
    then have "page_at (ram s) root l1 (L0 i') = Some (PTE2PA e')" using that by simp
    moreover have "i' = i" if "page_at (ram s) root l1 (L0 i') = Some q"
      using q(4) [OF that] by simp
    ultimately have "PTE2PA e' = q \<longleftrightarrow> i' = i" using e Some by auto
    then show ?thesis
      using tk [OF inv(6) user_idx_lt [OF that(1)]] ql Some tk [OF PTE2PA_aligned that(2)]
      by (simp add: leaf_def)
  qed
  show "page_at (ram s') root l1 = (page_at (ram s) root l1)(Frame i j := frame_of (ent v))"
  proof
    fix x show "page_at (ram s') root l1 x = ((page_at (ram s) root l1)(Frame i j := frame_of (ent v))) x"
      by (cases x) (auto simp: tk inv user_idx_lt ql ql(1) [symmetric] lf assms(2,3))
  qed
  show "mm_inv s' xs" unfolding assms(5) by (rule mm_inv_store) (use inv q assms(3) in auto)
  show "map_option PTE2PA (tbl (ram s') root 0) = Some l1" using tk [OF inv(4)] ql inv(2) by simp
qed


section \<open>walk\<close>

lemma walk_level_found:
  "tbl (ram s) p i = Some e \<Longrightarrow> walk_level p i al s = (Some (PTE2PA e), s)"
  by (auto simp: walk_level_def tbl_def Let_def split: if_splits)

lemma walk_level_missing:
  "tbl (ram s) p i = None \<Longrightarrow> walk_level p i al s =
     (if \<not> al then (None, s)
      else (case kalloc s of (page, s1) \<Rightarrow>
        if page = 0 then (None, s1)
        else (Some page,
              s1\<lparr>ram := store64 (memset (ram s1) page 0 4096) (pte_addr p i) (PA2PTE page OR PTE_V)\<rparr>)))"
  by (auto simp: walk_level_def tbl_def Let_def split: if_splits)

lemma walk_found:
  assumes "uvm_inv s xs root l1" and "user_va va"
    and "page_at (ram s) root l1 (L0 (VPN1 va)) = Some q"
  shows "walk root va al s = (Some (pte_addr q (VPN0 va)), s)"
proof -
  obtain e where e: "tbl (ram s) root 0 = Some e" "PTE2PA e = l1"
    using uvm_invD(2) [OF assms(1)] by auto
  obtain e' where e': "tbl (ram s) l1 (VPN1 va) = Some e'" "PTE2PA e' = q"
    using assms(3) user_va_VPN(2) [OF assms(2)] by auto
  show ?thesis
    using user_va_VPN(1) [OF assms(2)] walk_level_found [OF e(1)] walk_level_found [OF e'(1)] e e'
    by (simp add: walk_def)
qed

lemma walk_missing:
  assumes "uvm_inv s xs root l1" and "user_va va"
    and "page_at (ram s) root l1 (L0 (VPN1 va)) = None"
  shows "walk root va False s = (None, s)"
    and "xs = [] \<Longrightarrow> walk root va True s = (None, s)"
    and "xs = x # ys \<Longrightarrow> \<exists>s'. walk root va True s = (Some (pte_addr x (VPN0 va)), s') \<and>
      uvm_inv s' ys root l1 \<and>
      page_at (ram s') root l1 = (page_at (ram s) root l1)(L0 (VPN1 va) := Some x) \<and>
      (\<forall>i j. user_idx i \<longrightarrow> j < 512 \<longrightarrow> leaf (ram s') l1 i j = leaf (ram s) l1 i j) \<and>
      (\<forall>y. page_of y \<noteq> l1 \<longrightarrow> page_of y \<noteq> x \<longrightarrow> ram s' y = ram s y)"
proof -
  note inv = uvm_invD [OF assms(1)]
  obtain e where e: "tbl (ram s) root 0 = Some e" "PTE2PA e = l1"
    using inv(2) by auto
  have idx: "user_idx (VPN1 va)" by (rule user_va_VPN(2) [OF assms(2)])
  have none: "tbl (ram s) l1 (VPN1 va) = None" using assms(3) idx by simp
  note lvl = walk_level_found [OF e(1), unfolded e(2)] walk_level_missing [OF none]
  note w = walk_def [of root va] user_va_VPN(1) [OF assms(2)]
  show "walk root va False s = (None, s)" using lvl by (simp add: w)
  show "walk root va True s = (None, s)" if "xs = []"
    using lvl kalloc_empty inv(1) that by (simp add: w)
  assume xs: "xs = x # ys"
  obtain p s1 where k: "kalloc s = (p, s1)" by fastforce
  note k1 = uvm_kalloc [OF assms(1) [unfolded xs] k]
  have x: "x \<noteq> 0" "page_aligned x" using k1(3) by (simp_all add: fresh_def)
  have same: "memset (ram s1) x 0 4096 = ram s1"
    using k1(6) x(2) by (auto simp: fun_eq_iff memset_page)
  define s' where "s' = s1\<lparr>ram := store64 (ram s1) (pte_addr l1 (VPN1 va)) (PA2PTE x OR PTE_V)\<rparr>"
  have res: "walk root va True s = (Some (pte_addr x (VPN0 va)), s')"
    using lvl k x k1(1) by (simp add: w same s'_def)
  have n1: "page_at (ram s1) root l1 (L0 (VPN1 va)) = None" using assms(3) k1(4) by simp
  have z: "ram s1 y = 0" if "page_of y = x" for y using k1(6) [of y] that by simp
  note link = uvm_link_table [OF k1(2) idx n1 k1(3) z s'_def]
  have o: "ram s' y = ram s y" if "page_of y \<noteq> l1" "page_of y \<noteq> x" for y
    using store64_entry_page [OF inv(6) user_idx_lt [OF idx] that(1)] k1(6) [of y] that(2)
    by (simp add: s'_def)
  show "\<exists>s'. walk root va True s = (Some (pte_addr x (VPN0 va)), s') \<and>
      uvm_inv s' ys root l1 \<and>
      page_at (ram s') root l1 = (page_at (ram s) root l1)(L0 (VPN1 va) := Some x) \<and>
      (\<forall>i j. user_idx i \<longrightarrow> j < 512 \<longrightarrow> leaf (ram s') l1 i j = leaf (ram s) l1 i j) \<and>
      (\<forall>y. page_of y \<noteq> l1 \<longrightarrow> page_of y \<noteq> x \<longrightarrow> ram s' y = ram s y)"
    using res link k1(4,5) o by (intro exI [of _ s']) auto
qed

text \<open>
  One statement for a walk that allocates: it yields the entry's address, unless memory is
  exhausted; user leaves and all memory but the first low table and the pages it took are kept.
\<close>

lemma walk_alloc:
  assumes "uvm_inv s xs root l1" and "user_va va" and "walk root va True s = (r, s1)"
  obtains (full) "r = None" "xs = []" "s1 = s" "uvm_view s l1 va = None"
  | (entry) q ys where "r = Some (pte_addr q (VPN0 va))" "uvm_inv s1 ys root l1"
      "page_at (ram s1) root l1 (L0 (VPN1 va)) = Some q" "ys = xs \<or> (\<exists>x. xs = x # ys)"
      "\<And>i j. user_idx i \<Longrightarrow> j < 512 \<Longrightarrow> leaf (ram s1) l1 i j = leaf (ram s) l1 i j"
      "\<And>p. fresh s xs root l1 p \<Longrightarrow> fresh s1 ys root l1 p"
      "\<And>y. page_of y \<noteq> l1 \<Longrightarrow> page_of y \<notin> set xs \<Longrightarrow> ram s1 y = ram s y"
      "q \<notin> set ys"
proof (cases "page_at (ram s) root l1 (L0 (VPN1 va))")
  case (Some q)
  have "q \<notin> set xs" using own_okD(3) [OF uvm_invD(3) [OF assms(1)] Some] .
  then show ?thesis
    using entry [of q xs] walk_found [OF assms(1,2) Some, of True] assms Some by auto
next
  case None
  note m = walk_missing [OF assms(1,2) None]
  show ?thesis
  proof (cases xs)
    case Nil
    have "uvm_view s l1 va = None"
      using None user_va_VPN(2) [OF assms(2)] by (simp add: uvm_view_def leaf_def)
    then show ?thesis using full m(2) [OF Nil] assms(3) Nil by auto
  next
    case (Cons x ys)
    obtain s' where w: "walk root va True s = (Some (pte_addr x (VPN0 va)), s')"
      "uvm_inv s' ys root l1"
      "page_at (ram s') root l1 = (page_at (ram s) root l1)(L0 (VPN1 va) := Some x)"
      "\<forall>i j. user_idx i \<longrightarrow> j < 512 \<longrightarrow> leaf (ram s') l1 i j = leaf (ram s) l1 i j"
      "\<forall>y. page_of y \<noteq> l1 \<longrightarrow> page_of y \<noteq> x \<longrightarrow> ram s' y = ram s y"
      using m(3) [OF Cons] by blast
    have s1: "s1 = s'" "r = Some (pte_addr x (VPN0 va))" using w(1) assms(3) by auto
    have x: "x \<notin> set ys" using mm.inv_pages [OF uvm_invD(1) [OF assms(1)]] Cons by simp
    have at: "page_at (ram s1) root l1 (L0 (VPN1 va)) = Some x"
      unfolding s1(1) w(3) by (rule fun_upd_same)
    have "fresh s1 ys root l1 p" if "fresh s xs root l1 p" for p
      using that unfolding fresh_def s1(1) w(3) Cons by auto
    then show ?thesis
      using entry [of x ys, OF s1(2) w(2) [folded s1(1)] at] w(4,5) s1(1) x Cons by auto
  qed
qed

end
