(* ===== verification/Vm_Ops.thy ===== *)
theory Vm_Ops
  imports Vm_User
begin

text \<open>
  Mapping, growing, unmapping and copying: \<^verbatim>\<open>uvm_map\<close>, \<^verbatim>\<open>uvm_alloc\<close>, \<^verbatim>\<open>uvm_unmap\<close>,
  \<^verbatim>\<open>walkaddr\<close>, \<^verbatim>\<open>copyin\<close> and \<^verbatim>\<open>copyout\<close> of \<^verbatim>\<open>kernel/vm.c\<close> against the user view.
\<close>

text \<open>A page that holds data: a mapped user frame, or a page its holder has yet to map.\<close>

definition data_page :: "mm_state \<Rightarrow> u64 list \<Rightarrow> u64 \<Rightarrow> u64 \<Rightarrow> u64 \<Rightarrow> bool" where
  "data_page s xs root l1 p \<longleftrightarrow>
     fresh s xs root l1 p \<or> (\<exists>i j. page_at (ram s) root l1 (Frame i j) = Some p)"

lemma data_page_not_table:
  assumes "uvm_inv s xs root l1" and "data_page s xs root l1 p"
  shows "p \<noteq> root" "\<not> table_page (ram s) root l1 p" "p \<notin> set xs" "page_aligned p"
proof -
  note own = uvm_invD(3) [OF assms(1)]
  have "(\<forall>x. page_at (ram s) root l1 x \<noteq> Some p) \<or> (\<exists>i j. page_at (ram s) root l1 (Frame i j) = Some p)"
    using assms(2) unfolding data_page_def fresh_def by blast
  moreover have "x = Frame i j"
    if "page_at (ram s) root l1 (Frame i j) = Some p" "page_at (ram s) root l1 x = Some p" for x i j
    using own_okD(4) [OF own that(1,2)] by simp
  ultimately have *: "page_at (ram s) root l1 x \<noteq> Some p" if "\<forall>i j. x \<noteq> Frame i j" for x
    using that by blast
  show "p \<noteq> root" using * [of Root] by auto
  show "\<not> table_page (ram s) root l1 p"
    using * [of L1] * [of "L0 _"] by (auto simp: table_page_def simp del: page_at.simps(3))
  show "p \<notin> set xs" "page_aligned p"
    using assms(2) own_okD(1,3) [OF own] by (auto simp: data_page_def fresh_def simp del: page_at.simps)
qed

lemma aligned_less_step:
  "(m :: nat) < n \<Longrightarrow> m mod 4096 = 0 \<Longrightarrow> n mod 4096 = 0 \<Longrightarrow> m + 4096 \<le> n"
  by (auto simp: mod_eq_0_iff_dvd dvd_def)

lemma page_last_byte: "page_aligned p \<Longrightarrow> page_of (p + 4095) = p"
  using in_page_offset(1) [of p 4095] by simp

lemma view_table:
  assumes "uvm_view s l1 va = Some e" and "user_va va"
  shows "\<exists>q. page_at (ram s) root l1 (L0 (VPN1 va)) = Some q \<and> load64 (ram s) (pte_addr q (VPN0 va)) = e \<and>
    e AND PTE_V \<noteq> 0"
  using assms user_va_VPN(2) [OF assms(2)]
  by (auto simp: uvm_view_def leaf_def tbl_def Let_def split: option.splits if_splits)

lemma view_entry:
  assumes "page_at (ram s) root l1 (L0 (VPN1 va)) = Some q"
  shows "uvm_view s l1 va = ent (load64 (ram s) (pte_addr q (VPN0 va)))"
  using assms by (auto simp: uvm_view_def leaf_def tbl_def ent_def Let_def split: if_splits)

lemma view_frame:
  assumes "uvm_view s l1 va = Some e" and "user_va va" and "e AND PTE_U \<noteq> 0"
  shows "page_at (ram s) root l1 (Frame (VPN1 va) (VPN0 va)) = Some (PTE2PA e)"
  using assms user_va_VPN(2) [OF assms(2)] by (simp add: uvm_view_def frame_of_def)

text \<open>What writing the leaf of a user address does to the view and the invariant.\<close>

lemma uvm_set_leaf:
  assumes "uvm_inv s xs root l1" and "user_va va"
    and "page_at (ram s) root l1 (L0 (VPN1 va)) = Some q"
    and "s' = s\<lparr>ram := store64 (ram s) (pte_addr q (VPN0 va)) v\<rparr>"
    and "\<forall>p. frame_of (ent v) = Some p \<longrightarrow> fresh s xs root l1 p"
  shows "uvm_inv s' xs root l1"
    and "user_va a \<Longrightarrow> uvm_view s' l1 a = (if page_of a = page_of va then ent v else uvm_view s l1 a)"
    and "page_at (ram s') root l1 = (page_at (ram s) root l1)(Frame (VPN1 va) (VPN0 va) := frame_of (ent v))"
proof -
  note inv = uvm_invD [OF assms(1)]
  note w = uvm_write_leaf [OF assms(1) user_va_VPN(2) [OF assms(2)] VPN_lt(3) assms(3,4)]
  show eq: "page_at (ram s') root l1 = (page_at (ram s) root l1)(Frame (VPN1 va) (VPN0 va) := frame_of (ent v))"
    by (rule w(3))
  show "uvm_view s' l1 a = (if page_of a = page_of va then ent v else uvm_view s l1 a)" if "user_va a"
    using w(4) [OF user_va_VPN(2) [OF that] VPN_lt(3), of a] user_page_inj [OF that assms(2)]
    by (simp add: uvm_view_def)
  have "own_ok xs (page_at (ram s') root l1)"
  proof (cases "frame_of (ent v)")
    case None
    show ?thesis unfolding eq None by (rule own_ok_None [OF inv(3)])
  next
    case (Some p)
    show ?thesis
      unfolding eq Some using assms(5) Some by (intro own_ok_upd [OF inv(3)]) (auto simp: fresh_def)
  qed
  then show "uvm_inv s' xs root l1" using w(1,2) by (simp add: uvm_inv_def)
qed

lemma fresh_after_set_leaf:
  assumes "page_at (ram s') root l1 = (page_at (ram s) root l1)(x := f)" and "fresh s xs root l1 p" and "f \<noteq> Some p"
  shows "fresh s' xs root l1 p"
  using assms by (auto simp: fresh_def simp del: page_at.simps)

section \<open>uvm_map\<close>

lemma uvm_map_page:
  assumes "uvm_inv s xs root l1" and "user_va va" and "page_aligned va" and "page_aligned pa"
    and "fresh s xs root l1 pa" and "perm < 1024"
    and "uvm_map root va pa PAGE_SIZE perm s = (r, s')"
  obtains (nomem) "r = - ENOMEM" "xs = []" "s' = s" "uvm_view s l1 va = None"
  | (exists_already) "r = - EEXIST" "s' = s" "uvm_view s l1 va \<noteq> None"
  | (ok) ys where "r = 0" "uvm_view s l1 va = None" "uvm_inv s' ys root l1" "ys = xs \<or> (\<exists>x. xs = x # ys)"
      "\<And>a. user_va a \<Longrightarrow> uvm_view s' l1 a =
         (if page_of a = va then Some (PA2PTE pa OR perm OR PTE_V) else uvm_view s l1 a)"
      "\<And>p. fresh s xs root l1 p \<Longrightarrow> p \<noteq> pa \<Longrightarrow> fresh s' ys root l1 p"
      "\<And>y. data_page s xs root l1 (page_of y) \<Longrightarrow> ram s' y = ram s y"
      "\<And>p. data_page s xs root l1 p \<Longrightarrow> data_page s' ys root l1 p"
proof -
  let ?e = "PA2PTE pa OR perm OR PTE_V"
  obtain w s1 where w: "walk root va True s = (w, s1)" by fastforce
  have pg: "va AND NOT (PAGE_SIZE - 1) = va" using page_of_id [OF assms(3)] by (simp add: page_of_def)
  have "(va + PAGE_SIZE - 1) AND NOT (PAGE_SIZE - 1) = va"
    using page_last_byte [OF assms(3)] by (simp add: page_of_def add.commute)
  then have m: "uvm_map root va pa PAGE_SIZE perm s = uvm_map_loop 0 root va pa perm s"
    unfolding uvm_map_def Let_def pg by simp
  from assms(1,2) w show thesis
  proof (cases rule: walk_alloc)
    case full
    then show thesis using nomem assms(7) w by (simp add: m)
  next
    case (entry q ys)
    have ve: "uvm_view s1 l1 va = ent (load64 (ram s1) (pte_addr q (VPN0 va)))"
      by (rule view_entry [OF entry(3)])
    have vs: "uvm_view s1 l1 a = uvm_view s l1 a" if "user_va a" for a
      using entry(5) [OF user_va_VPN(2) [OF that] VPN_lt(3)] by (simp add: uvm_view_def)
    show thesis
    proof (cases "load64 (ram s1) (pte_addr q (VPN0 va)) AND PTE_V = 0")
      case False
      then have v: "uvm_view s l1 va \<noteq> None" using ve vs [OF assms(2)] by (simp add: ent_def)
      then obtain q' where "page_at (ram s) root l1 (L0 (VPN1 va)) = Some q'"
        using view_table [OF _ assms(2)] by blast
      then have "s1 = s" using walk_found [OF assms(1,2)] w by simp
      then show thesis using exists_already v False assms(7) w entry(1) by (simp add: m)
    next
      case True
      then have v: "uvm_view s l1 va = None" using ve vs [OF assms(2)] by (simp add: ent_def)
      have s': "r = 0" "s' = s1\<lparr>ram := store64 (ram s1) (pte_addr q (VPN0 va)) ?e\<rparr>"
        using assms(7) w entry(1) True by (simp_all add: m)
      note e = leaf_bits [OF assms(4,6)]
      have fr: "\<forall>p. frame_of (ent ?e) = Some p \<longrightarrow> fresh s1 ys root l1 p"
        using e entry(6) [OF assms(5)] by (auto simp: frame_of_def ent_def split: if_splits)
      note sl = uvm_set_leaf [OF entry(2) assms(2) entry(3) s'(2) fr]
      have vw: "uvm_view s' l1 a = (if page_of a = va then Some ?e else uvm_view s l1 a)" if "user_va a" for a
        using sl(2) [OF that] vs [OF that] page_of_id [OF assms(3)] e(2) by (simp add: ent_def)
      have fp: "fresh s' ys root l1 p" if "fresh s xs root l1 p" "p \<noteq> pa" for p
        by (rule fresh_after_set_leaf [OF sl(3) entry(6) [OF that(1)]])
          (use e that(2) in \<open>auto simp: frame_of_def ent_def\<close>)
      have dp: "ram s' y = ram s y" if d: "data_page s xs root l1 (page_of y)" for y
      proof -
        note nt = data_page_not_table [OF assms(1) d]
        have r1: "ram s1 y = ram s y"
          by (rule entry(7)) (use nt in \<open>auto simp: table_page_def\<close>)
        have "page_of y \<noteq> q"
        proof (cases "page_at (ram s) root l1 (L0 (VPN1 va))")
          case None
          then have "q = hd xs \<and> xs \<noteq> []"
          proof -
            note wm = walk_missing [OF assms(1,2) None]
            show ?thesis
            proof (cases xs)
              case Nil
              then show ?thesis using wm(2) w entry(1) by simp
            next
              case (Cons x zs)
              from wm(3) [OF Cons] obtain t where
                "walk root va True s = (Some (pte_addr x (VPN0 va)), t)"
                "page_at (ram t) root l1 = (page_at (ram s) root l1)(L0 (VPN1 va) := Some x)"
                by blast
              then have "s1 = t" "page_at (ram t) root l1 (L0 (VPN1 va)) = Some x"
                using w by (auto simp del: page_at.simps)
              then show ?thesis using entry(3) Cons by (simp del: page_at.simps)
            qed
          qed
          then show ?thesis using nt(3) by auto
        next
          case (Some q')
          then have "s1 = s" using walk_found [OF assms(1,2) Some] w by simp
          then show ?thesis using nt(2) entry(3) unfolding table_page_def by blast
        qed
        then show ?thesis
          using store64_entry_page [of q "VPN0 va" y] own_okD(1) [OF uvm_invD(3) [OF entry(2)] entry(3)] r1
          by (simp add: s'(2))
      qed
      have dk: "data_page s' ys root l1 p" if d: "data_page s xs root l1 p" for p
      proof (cases "fresh s xs root l1 p")
        case True
        note f1 = entry(6) [OF True]
        show ?thesis
        proof (cases "frame_of (ent ?e) = Some p")
          case True
          then have "page_at (ram s') root l1 (Frame (VPN1 va) (VPN0 va)) = Some p"
            unfolding sl(3) by simp
          then show ?thesis unfolding data_page_def by blast
        next
          case False
          show ?thesis unfolding data_page_def
            using fresh_after_set_leaf [OF sl(3) f1 False] by blast
        qed
      next
        case False
        then obtain i j where ij: "page_at (ram s) root l1 (Frame i j) = Some p"
          using d unfolding data_page_def by blast
        then have idx: "user_idx i" "j < 512" by (auto split: if_splits)
        have "page_at (ram s1) root l1 (Frame i j) = Some p"
          using ij idx entry(5) [OF idx] by simp
        moreover have "Frame i j \<noteq> Frame (VPN1 va) (VPN0 va)"
          using ij v by (auto simp: uvm_view_def frame_of_def split: if_splits)
        ultimately have "page_at (ram s') root l1 (Frame i j) = Some p"
          unfolding sl(3) by (auto simp del: page_at.simps)
        then show ?thesis unfolding data_page_def by blast
      qed
      show thesis by (rule ok [OF s'(1) v sl(1) entry(4) vw fp dp dk])
    qed
  qed
qed


section \<open>uvm_alloc\<close>

lemma uvm_kfree:
  assumes "uvm_inv s xs root l1" and "fresh s xs root l1 p"
  shows "uvm_inv (kfree s p) (p # xs) root l1"
    and "user_va v \<Longrightarrow> uvm_view (kfree s p) l1 v = uvm_view s l1 v"
    and "page_at (ram (kfree s p)) root l1 = page_at (ram s) root l1"
proof -
  note inv = uvm_invD [OF assms(1)]
  have p: "page_aligned p" "p \<noteq> 0" "p \<notin> set xs" and un: "\<forall>x. page_at (ram s) root l1 x \<noteq> Some p"
    using assms(2) by (simp_all add: fresh_def del: page_at.simps)
  have keep: "ram (kfree s p) y = ram s y"
    if "page_of y = root \<or> table_page (ram s) root l1 (page_of y)" for y
    using table_page_owned [of "ram s" root l1 "page_of y"] that un
    by (intro kfree_ram_other) (auto simp del: page_at.simps)
  have mm: "mm_inv (kfree s p) (p # xs)" by (rule kfree_push [OF inv(1) p])
  have al: "page_aligned q" if "page_at (ram s) root l1 (L0 i) = Some q" for i q
    using own_okD(1) [OF inv(3) that] .
  show eq: "page_at (ram (kfree s p)) root l1 = page_at (ram s) root l1"
    by (rule page_at_cong) (use inv(6) al keep in \<open>auto simp del: page_at.simps\<close>)
  show "uvm_view (kfree s p) l1 v = uvm_view s l1 v" if "user_va v"
    unfolding uvm_view_def
    by (rule leaf_cong(1) [where root = root])
      (use inv(6) al keep user_va_VPN(2) [OF that] in \<open>auto simp del: page_at.simps\<close>)
  have "tbl (ram (kfree s p)) root 0 = tbl (ram s) root 0"
    by (rule tbl_cong) (use inv keep in auto)
  then show "uvm_inv (kfree s p) (p # xs) root l1"
    using inv mm own_ok_Cons [OF inv(3) un] by (simp add: uvm_inv_def eq)
qed

lemma data_page_kalloc:
  assumes "uvm_inv s (x # xs) root l1" and "kalloc s = (p, s')" and "data_page s (x # xs) root l1 q"
  shows "data_page s' xs root l1 q" and "q \<noteq> x"
proof -
  note k = uvm_kalloc [OF assms(1,2)]
  show "q \<noteq> x" using data_page_not_table(3) [OF assms(1,3)] by auto
  show "data_page s' xs root l1 q"
    using assms(3) unfolding data_page_def fresh_def k(4) by (auto simp del: page_at.simps)
qed

text \<open>
  The result of growing a range: the tables stay well formed, nothing outside the range
  changes, and on success every page of it is mapped to a distinct zeroed page of the pool.
\<close>

definition grown :: "mm_state \<Rightarrow> u64 list \<Rightarrow> mm_state \<Rightarrow> u64 list \<Rightarrow> u64 \<Rightarrow> u64 \<Rightarrow> u64 \<Rightarrow> u64 \<Rightarrow> u64 \<Rightarrow> int \<Rightarrow> bool" where
  "grown s xs s' xs' root l1 a lst perm r \<longleftrightarrow>
     uvm_inv s' xs' root l1 \<and> set xs' \<subseteq> set xs \<and> (r = 0 \<or> r = - ENOMEM) \<and>
     (\<forall>v. user_va v \<longrightarrow> \<not> (a \<le> page_of v \<and> page_of v < lst) \<longrightarrow> uvm_view s' l1 v = uvm_view s l1 v) \<and>
     (r = 0 \<longrightarrow> (\<forall>v. user_va v \<longrightarrow> a \<le> page_of v \<longrightarrow> page_of v < lst \<longrightarrow>
        uvm_view s l1 v = None \<and>
        (\<exists>p\<in>set xs. uvm_view s' l1 v = Some (PA2PTE p OR perm OR PTE_V) \<and>
           (\<forall>y. page_of y = p \<longrightarrow> ram s' y = 0)))) \<and>
     (\<forall>y. data_page s xs root l1 (page_of y) \<longrightarrow> ram s' y = ram s y)"

lemma uvm_alloc_loop_grows:
  assumes "uvm_inv s xs root l1" and "page_aligned a" and "page_aligned lst"
    and "USER_BASE \<le> a" and "lst \<le> USER_LIMIT" and "perm < 1024" and "perm AND PTE_U \<noteq> 0"
    and "n = (unat lst - unat a) div 4096"
  shows "\<exists>r s' xs'. uvm_alloc_loop root a lst perm s = Some (r, s') \<and>
    grown s xs s' xs' root l1 a lst perm r \<and>
    (2 * n \<le> length xs \<longrightarrow>
       (\<forall>v. user_va v \<longrightarrow> a \<le> page_of v \<longrightarrow> page_of v < lst \<longrightarrow> uvm_view s l1 v = None) \<longrightarrow> r = 0)"
  using assms
proof (induction n arbitrary: s xs a)
  case 0
  have al: "unat a mod 4096 = 0" "unat lst mod 4096 = 0"
    using 0 by (simp_all add: page_aligned_unat)
  have "\<not> a < lst"
  proof
    assume "a < lst"
    then have lt: "unat a < unat lst" by (simp add: word_less_nat_alt)
    have "unat lst - unat a < 4096" using 0(8) by (simp add: div_eq_0_iff)
    moreover have "(unat lst - unat a) mod 4096 = 0" using al lt by (simp add: mod_eq_0_iff_dvd)
    ultimately show False using lt by simp
  qed
  then show ?case using 0 by (auto simp: uvm_alloc_loop.simps [of _ a] grown_def not_less)
next
  case (Suc n)
  note perm = Suc.prems(6,7)
  have le: "unat a + 4096 \<le> unat lst" using Suc.prems(8) by linarith
  have hi: "unat lst \<le> 0x1400000" using Suc.prems(5) by (simp add: word_le_nat_alt)
  have up: "unat (a + PAGE_SIZE) = unat a + 4096" using le hi by (simp add: unat_plus_if')
  have lt: "a < lst" using le by (simp add: word_less_nat_alt)
  have ua: "user_va a" using Suc.prems(4,5) lt by (simp add: user_va_def)
  note step = uvm_alloc_loop.simps [of root a lst perm s]
  have vk: "uvm_view t l1 v = uvm_view t l1 a" if "user_va v" "page_of v = a" for t v
    using user_page_inj [OF that(1) ua] that(2) page_of_id [OF Suc.prems(2)] by (simp add: uvm_view_def)
  show ?case
  proof (cases xs)
    case Nil
    then have "kalloc s = (0, s)" using kalloc_empty uvm_invD(1) [OF Suc.prems(1)] by simp
    then show ?thesis using lt step Nil Suc.prems(1) by (auto simp: grown_def)
  next
    case (Cons x ys)
    obtain p s1 where kp: "kalloc s = (p, s1)" by fastforce
    note inv = Suc.prems(1) [unfolded Cons]
    note k = uvm_kalloc [OF inv kp]
    note kd = data_page_kalloc [OF inv kp, folded Cons]
    have x: "x \<noteq> 0" "page_aligned x" using k(3) by (simp_all add: fresh_def)
    have v1: "uvm_view s1 l1 v = uvm_view s l1 v" if "user_va v" for v
      using k(5) [OF user_va_VPN(2) [OF that] VPN_lt(3)] by (simp add: uvm_view_def)
    have r1: "ram s1 y = ram s y" if "data_page s xs root l1 (page_of y)" for y
      using k(6) [of y] kd(2) [OF that] by simp
    obtain r2 s2 where m: "uvm_map root a x PAGE_SIZE perm s1 = (r2, s2)" by fastforce
    have fail: ?thesis if "r2 \<noteq> 0" "s2 = s1"
      and why: "length xs < 2 * Suc n \<or> uvm_view s l1 a \<noteq> None"
    proof -
      note kf = uvm_kfree [OF k(2,3)]
      have "uvm_alloc_loop root a lst perm s = Some (- ENOMEM, kfree s1 x)"
        using step lt kp k(1) x m that(1,2) by simp
      moreover have "\<not> (2 * Suc n \<le> length xs \<and> (\<forall>v. user_va v \<longrightarrow> a \<le> page_of v \<longrightarrow>
          page_of v < lst \<longrightarrow> uvm_view s l1 v = None))"
        using why ua lt page_of_id [OF Suc.prems(2)] by auto
      moreover have "ram (kfree s1 x) y = ram s y" if "data_page s xs root l1 (page_of y)" for y
        using kfree_ram_other [of y x s1] kd(2) [OF that] r1 [OF that] by simp
      moreover have "uvm_view (kfree s1 x) l1 v = uvm_view s l1 v" if "user_va v" for v
        using kf(2) [OF that] v1 [OF that] by simp
      ultimately show ?thesis using kf(1) Cons by (auto simp: grown_def)
    qed
    from k(2) ua Suc.prems(2) x(2) k(3) perm(1) m show ?thesis
    proof (cases rule: uvm_map_page)
      case nomem
      then show ?thesis using fail Cons by simp
    next
      case exists_already
      then show ?thesis using fail v1 [OF ua] by simp
    next
      case (ok zs)
      have "\<exists>r s' xs'. uvm_alloc_loop root (a + PAGE_SIZE) lst perm s2 = Some (r, s') \<and>
          grown s2 zs s' xs' root l1 (a + PAGE_SIZE) lst perm r \<and>
          (2 * n \<le> length zs \<longrightarrow> (\<forall>v. user_va v \<longrightarrow> a + PAGE_SIZE \<le> page_of v \<longrightarrow>
             page_of v < lst \<longrightarrow> uvm_view s2 l1 v = None) \<longrightarrow> r = 0)"
      proof (rule Suc.IH [OF ok(3)])
        show "page_aligned (a + PAGE_SIZE)" by (rule page_aligned_add [OF Suc.prems(2)])
        show "USER_BASE \<le> a + PAGE_SIZE"
          using up Suc.prems(4) by (simp add: word_le_nat_alt)
        show "n = (unat lst - unat (a + PAGE_SIZE)) div 4096" using up Suc.prems(8) le by linarith
      qed (use Suc.prems perm in simp_all)
      then obtain r s' xs' where rec: "uvm_alloc_loop root (a + PAGE_SIZE) lst perm s2 = Some (r, s')"
        and g: "grown s2 zs s' xs' root l1 (a + PAGE_SIZE) lst perm r"
        and live: "2 * n \<le> length zs \<longrightarrow> (\<forall>v. user_va v \<longrightarrow> a + PAGE_SIZE \<le> page_of v \<longrightarrow>
             page_of v < lst \<longrightarrow> uvm_view s2 l1 v = None) \<longrightarrow> r = 0"
        by blast
      have res: "uvm_alloc_loop root a lst perm s = Some (r, s')"
        using step lt kp k(1) x m ok(1) rec by simp
      have zs: "set zs \<subseteq> set xs" using ok(4) Cons by auto
      have v2: "uvm_view s2 l1 v = (if page_of v = a then Some (PA2PTE x OR perm OR PTE_V) else uvm_view s l1 v)"
        if "user_va v" for v
        using ok(5) [OF that] v1 [OF that] by simp
      have pge: "a + PAGE_SIZE \<le> page_of v" if "a \<le> page_of v" "page_of v \<noteq> a" for v
      proof -
        have "unat a < unat (page_of v)" using that by (simp add: word_le_nat_alt word_unat_eq_iff)
        moreover have "unat a mod 4096 = 0" "unat (page_of v) mod 4096 = 0"
          using Suc.prems(2) page_of_aligned [of v] unfolding page_aligned_unat by simp_all
        ultimately have "unat a + 4096 \<le> unat (page_of v)" by (rule aligned_less_step)
        then show ?thesis using up by (simp add: word_le_nat_alt)
      qed
      have out: "\<not> (a + PAGE_SIZE \<le> a)" using up by (simp add: word_le_nat_alt)
      have xd: "data_page s1 ys root l1 x" using k(3) by (simp add: data_page_def)
      have gv: "uvm_view s' l1 v = uvm_view s2 l1 v"
        if "user_va v" "\<not> (a + PAGE_SIZE \<le> page_of v \<and> page_of v < lst)" for v
        using g that by (simp add: grown_def)
      have view: "uvm_view s' l1 v = uvm_view s l1 v" if "user_va v" "\<not> (a \<le> page_of v \<and> page_of v < lst)" for v
      proof -
        have "\<not> (a + PAGE_SIZE \<le> page_of v \<and> page_of v < lst)" "page_of v \<noteq> a"
          using that(2) lt up by (auto simp: word_le_nat_alt)
        then show ?thesis using gv [OF that(1)] v2 [OF that(1)] by simp
      qed
      have zero: "ram s' y = 0" if "page_of y = x" for y
      proof -
        have "ram s' y = ram s2 y"
          using g ok(8) [OF xd] that by (simp add: grown_def)
        also have "\<dots> = ram s1 y" using ok(7) [of y] xd that by simp
        also have "\<dots> = 0" using k(6) [of y] that by simp
        finally show ?thesis .
      qed
      have mapped: "uvm_view s l1 v = None \<and> (\<exists>p\<in>set xs. uvm_view s' l1 v = Some (PA2PTE p OR perm OR PTE_V) \<and>
          (\<forall>y. page_of y = p \<longrightarrow> ram s' y = 0))"
        if r0: "r = 0" and v: "user_va v" "a \<le> page_of v" "page_of v < lst" for v
      proof (cases "page_of v = a")
        case True
        have "uvm_view s l1 v = None" using ok(2) v1 [OF ua] vk [OF v(1) True] by simp
        moreover have "uvm_view s' l1 v = Some (PA2PTE x OR perm OR PTE_V)"
          using gv [OF v(1)] v2 [OF v(1)] True out by simp
        ultimately show ?thesis using zero Cons by auto
      next
        case False
        then have "uvm_view s2 l1 v = None \<and> (\<exists>p\<in>set zs. uvm_view s' l1 v = Some (PA2PTE p OR perm OR PTE_V) \<and>
            (\<forall>y. page_of y = p \<longrightarrow> ram s' y = 0))"
          using g r0 v pge [OF v(2)] by (simp add: grown_def)
        then show ?thesis using v2 [OF v(1)] False zs by auto
      qed
      have data: "ram s' y = ram s y" if "data_page s xs root l1 (page_of y)" for y
      proof -
        note d1 = kd(1) [OF that]
        show ?thesis using g ok(7,8) [OF d1] r1 [OF that] by (simp add: grown_def)
      qed
      have alive: "r = 0" if len: "2 * Suc n \<le> length xs"
        and free: "\<forall>v. user_va v \<longrightarrow> a \<le> page_of v \<longrightarrow> page_of v < lst \<longrightarrow> uvm_view s l1 v = None"
      proof -
        have "2 * n \<le> length zs" using ok(4) Cons len by auto
        moreover have "uvm_view s2 l1 v = None"
          if h: "user_va v" "a + PAGE_SIZE \<le> page_of v" "page_of v < lst" for v
        proof -
          have "page_of v \<noteq> a" using h(2) out by auto
          moreover have "a \<le> page_of v" using h(2) up by (simp add: word_le_nat_alt)
          ultimately show ?thesis using v2 [OF h(1)] free h by simp
        qed
        ultimately show ?thesis using live by blast
      qed
      have "grown s xs s' xs' root l1 a lst perm r"
        unfolding grown_def using view mapped data zs g by (auto simp: grown_def)
      then show ?thesis using res alive by blast
    qed
  qed
qed

end
