(* ===== verification/Vm_Copy.thy ===== *)
theory Vm_Copy
  imports Vm_Ops
begin

text \<open>
  \<^verbatim>\<open>walkaddr\<close>, \<^verbatim>\<open>copyin\<close> and \<^verbatim>\<open>copyout\<close> of \<^verbatim>\<open>kernel/vm.c\<close>: user memory \<open>umem\<close> is
  physical memory read through the view, and the two copies move byte strings in and out of
  it page by page.
\<close>

declare page_at.simps [simp del]

text \<open>The physical address of a user byte, when its page is mapped with the user bit.\<close>

definition upa :: "mm_state \<Rightarrow> u64 \<Rightarrow> u64 \<Rightarrow> u64 option" where
  "upa s l1 va = (case uvm_view s l1 va of
     None \<Rightarrow> None | Some e \<Rightarrow> if e AND PTE_U = 0 then None else Some (PTE2PA e + (va AND 4095)))"

definition umem :: "mm_state \<Rightarrow> u64 \<Rightarrow> u64 \<Rightarrow> u8 option" where
  "umem s l1 va = map_option (ram s) (upa s l1 va)"

lemma page_of_plus_offset:
  assumes "page_aligned p" shows "page_of (p + (va AND 4095)) = p" and "(p + (va AND 4095)) - p = va AND 4095"
proof -
  have lt: "unat (va AND 4095) < 4096" using unat_and_4095 [of va] by simp
  have eq: "p + (va AND 4095) = p + of_nat (unat (va AND 4095))" by simp
  show "page_of (p + (va AND 4095)) = p" unfolding eq by (rule in_page_offset(1) [OF assms lt])
  show "(p + (va AND 4095)) - p = va AND 4095" by simp
qed

lemma walkaddr_user:
  assumes "uvm_inv s xs root l1" and "user_va va"
  shows "walkaddr s root va = (case upa s l1 va of None \<Rightarrow> 0 | Some pa \<Rightarrow> pa)"
    and "upa s l1 va \<noteq> Some 0"
proof -
  note own = uvm_invD(3) [OF assms(1)]
  show "walkaddr s root va = (case upa s l1 va of None \<Rightarrow> 0 | Some pa \<Rightarrow> pa)"
  proof (cases "page_at (ram s) root l1 (L0 (VPN1 va))")
    case None
    then have "uvm_view s l1 va = None"
      using user_va_VPN(2) [OF assms(2)] by (simp add: uvm_view_def leaf_def page_at.simps)
    then show ?thesis using walk_missing(1) [OF assms None] by (simp add: walkaddr_def upa_def)
  next
    case (Some q)
    show ?thesis
      using walk_found [OF assms Some, of False] view_entry [of s root l1 va q, OF Some]
      by (auto simp: walkaddr_def upa_def ent_def Let_def)
  qed
  show "upa s l1 va \<noteq> Some 0"
  proof
    assume z: "upa s l1 va = Some 0"
    then obtain e where e: "uvm_view s l1 va = Some e" "e AND PTE_U \<noteq> 0" "PTE2PA e + (va AND 4095) = 0"
      by (auto simp: upa_def split: option.splits if_splits)
    have "PTE2PA e \<noteq> 0" using own_okD(2) [OF own view_frame [OF e(1) assms(2) e(2)]] .
    moreover have "page_of 0 = (0 :: u64)" by (simp add: page_of_def)
    ultimately show False using page_of_plus_offset(1) [OF PTE2PA_aligned, of e va] e(3) by simp
  qed
qed

lemma user_va_div: "user_va x \<longleftrightarrow> 1024 \<le> unat x div 4096 \<and> unat x div 4096 < 5120"
proof -
  have "user_va x \<longleftrightarrow> 0x400000 \<le> unat x \<and> unat x < 0x1400000"
    by (simp add: user_va_def word_le_nat_alt word_less_nat_alt)
  also have "0x400000 \<le> unat x \<longleftrightarrow> 1024 \<le> unat x div 4096"
    using less_eq_div_iff_mult_less_eq [of 4096 1024 "unat x"] by simp
  also have "unat x < 0x1400000 \<longleftrightarrow> unat x div 4096 < 5120"
    using div_less_iff_less_mult [of 4096 "unat x" 5120] by simp
  finally show ?thesis .
qed

text \<open>Addresses within the current page, at an offset below what is left of it.\<close>

lemma in_chunk:
  assumes "user_va va" and "n < unat (PAGE_SIZE - (va AND 4095))"
  shows "page_of (va + of_nat n) = page_of va"
    and "(va + of_nat n) AND 4095 = (va AND 4095) + of_nat n"
    and "user_va (va + of_nat n)"
proof -
  let ?o = "unat (va AND 4095)"
  have o: "?o < 4096" using unat_and_4095 [of va] by simp
  have "(va AND 4095) \<le> PAGE_SIZE" using o by (simp add: word_le_nat_alt)
  then have "unat (PAGE_SIZE - (va AND 4095)) = 4096 - ?o" by (simp add: unat_sub)
  then have lt: "?o + n < 4096" using assms(2) by linarith
  have eq: "va + of_nat n = page_of va + of_nat (?o + n)"
  proof -
    have "va = page_of va + of_nat ?o" using page_of_plus [of va] by simp
    then show ?thesis by (simp add: add.assoc)
  qed
  show pg: "page_of (va + of_nat n) = page_of va"
    unfolding eq by (rule in_page_offset(1) [OF page_of_aligned lt])
  show "(va + of_nat n) AND 4095 = (va AND 4095) + of_nat n"
  proof -
    have "page_of va + ((va + of_nat n) AND 4095) = va + of_nat n"
      using page_of_plus [of "va + of_nat n"] unfolding pg .
    also have "\<dots> = page_of va + ((va AND 4095) + of_nat n)" unfolding eq by simp
    finally show ?thesis by (rule add_left_imp_eq)
  qed
  have pu: "user_va x" if "page_of x = page_of va" for x
  proof -
    have "4096 * (unat x div 4096) = 4096 * (unat va div 4096)"
      using that unat_page_of [of x] unat_page_of [of va] by (simp add: minus_mod_eq_mult_div)
    then have "unat x div 4096 = unat va div 4096" by simp
    then show ?thesis using assms(1) by (simp add: user_va_div)
  qed
  show "user_va (va + of_nat n)" by (rule pu [OF pg])
qed

lemma view_page: "user_va a \<Longrightarrow> user_va b \<Longrightarrow> page_of a = page_of b \<Longrightarrow> uvm_view s l1 a = uvm_view s l1 b"
  using user_page_inj [of a b] by (simp add: uvm_view_def)

lemma upa_chunk:
  assumes "user_va va" and "n < unat (PAGE_SIZE - (va AND 4095))" and "upa s l1 va = Some pa"
  shows "upa s l1 (va + of_nat n) = Some (pa + of_nat n)"
  using view_page [OF in_chunk(3) [OF assms(1,2)] assms(1) in_chunk(1) [OF assms(1,2)], of s l1]
    in_chunk(2) [OF assms(1,2)] assms(3)
  by (auto simp: upa_def split: option.splits if_splits)

text \<open>Two user addresses have the same physical byte only if they are equal.\<close>

lemma upa_inj:
  assumes "uvm_inv s xs root l1" and "user_va a" and "user_va b"
    and "upa s l1 a = Some p" and "upa s l1 b = Some p"
  shows "a = b"
proof -
  note own = uvm_invD(3) [OF assms(1)]
  obtain e where e: "uvm_view s l1 a = Some e" "e AND PTE_U \<noteq> 0" "p = PTE2PA e + (a AND 4095)"
    using assms(4) by (auto simp: upa_def split: option.splits if_splits)
  obtain f where f: "uvm_view s l1 b = Some f" "f AND PTE_U \<noteq> 0" "p = PTE2PA f + (b AND 4095)"
    using assms(5) by (auto simp: upa_def split: option.splits if_splits)
  have pe: "PTE2PA e = page_of p" and pf: "PTE2PA f = page_of p"
    unfolding e(3) using page_of_plus_offset(1) [OF PTE2PA_aligned, of e a]
      page_of_plus_offset(1) [OF PTE2PA_aligned, of f b] e(3) f(3) by simp_all
  have "Frame (VPN1 a) (VPN0 a) = Frame (VPN1 b) (VPN0 b)"
    by (rule own_okD(4) [OF own view_frame [OF e(1) assms(2) e(2)]])
      (use view_frame [OF f(1) assms(3) f(2), of root] pe pf in simp)
  then have "page_of a = page_of b" using user_page_inj [OF assms(2,3)] by simp
  moreover have "a AND 4095 = b AND 4095"
    by (rule add_left_imp_eq [of "page_of p"]) (use e(3) f(3) pe pf in metis)
  ultimately show "a = b" using page_of_plus [of a] page_of_plus [of b] by metis
qed

lemma upa_data_page:
  assumes "user_va va" and "upa s l1 va = Some p"
  shows "data_page s xs root l1 (page_of p)"
proof -
  obtain e where e: "uvm_view s l1 va = Some e" "e AND PTE_U \<noteq> 0" "p = PTE2PA e + (va AND 4095)"
    using assms(2) by (auto simp: upa_def split: option.splits if_splits)
  have "page_of p = PTE2PA e" using page_of_plus_offset(1) [OF PTE2PA_aligned, of e va] e(3) by simp
  then show ?thesis using view_frame [OF e(1) assms(1) e(2), of root] unfolding data_page_def by metis
qed

section \<open>Writing user memory\<close>

text \<open>A store into one chunk of a mapped page.\<close>

lemma store_chunk:
  assumes "uvm_inv s xs root l1" and "user_va va" and "upa s l1 va = Some pa"
    and "length bs \<le> unat (PAGE_SIZE - (va AND 4095))"
    and "s' = s\<lparr>ram := store_bytes (ram s) pa bs\<rparr>"
  shows "uvm_inv s' xs root l1"
    and "user_va v \<Longrightarrow> uvm_view s' l1 v = uvm_view s l1 v"
    and "user_va v \<Longrightarrow> umem s' l1 v =
      (if unat (v - va) < length bs then Some (bs ! unat (v - va)) else umem s l1 v)"
proof -
  note inv = uvm_invD [OF assms(1)]
  have len: "length bs \<le> 2 ^ 64" using assms(4) unsigned_less [of "PAGE_SIZE - (va AND 4095)", where 'a = nat]
    by (simp)
  have r: "ram s' x = (if unat (x - pa) < length bs then bs ! unat (x - pa) else ram s x)" for x
    using store_bytes_apply [OF len] by (simp add: assms(5))
  have inside: "page_of x = page_of pa" if "unat (x - pa) < length bs" for x
  proof -
    have n: "unat (x - pa) < unat (PAGE_SIZE - (va AND 4095))" using that assms(4) by simp
    have u: "upa s l1 (va + of_nat (unat (x - pa))) = Some (pa + of_nat (unat (x - pa)))"
      by (rule upa_chunk [OF assms(2) n assms(3)])
    then have u': "upa s l1 (va + of_nat (unat (x - pa))) = Some x" by simp
    obtain e where e: "uvm_view s l1 va = Some e" "pa = PTE2PA e + (va AND 4095)"
      using assms(3) by (auto simp: upa_def split: option.splits if_splits)
    have "uvm_view s l1 (va + of_nat (unat (x - pa))) = Some e"
      using view_page [OF in_chunk(3) [OF assms(2) n] assms(2) in_chunk(1) [OF assms(2) n]] e by simp
    then have "x = PTE2PA e + ((va + of_nat (unat (x - pa))) AND 4095)"
      using u' by (auto simp: upa_def split: if_splits)
    then have "page_of x = PTE2PA e" by (metis page_of_plus_offset(1) PTE2PA_aligned)
    moreover have "page_of pa = PTE2PA e" using page_of_plus_offset(1) [OF PTE2PA_aligned, of e va] e(2) by simp
    ultimately show ?thesis by simp
  qed
  have d: "data_page s xs root l1 (page_of pa)" by (rule upa_data_page [OF assms(2,3)])
  note nt = data_page_not_table [OF assms(1) d]
  have keep: "ram s' x = ram s x" if "page_of x \<noteq> page_of pa" for x
    using r [of x] inside [of x] that by auto
  have tables: "\<forall>x. page_of x = root \<or> table_page (ram s) root l1 (page_of x) \<longrightarrow> ram s' x = ram s x"
    using keep nt(1,2) by metis
  have "free_list (ram s') (g_freelist s') xs"
  proof (rule free_list_cong)
    show "free_list (ram s) (g_freelist s') xs" "\<forall>x\<in>set xs. page_aligned x"
      using inv(1) by (simp_all add: mm_inv_def assms(5))
    show "ram s y = ram s' y" if "page_of y \<in> set xs" for y
      using keep [of y] that nt(3) by metis
  qed
  then have mm: "mm_inv s' xs" using inv(1) by (simp add: mm_inv_def)
  note um = uvm_inv_mem [OF assms(1) mm order_refl tables]
  show "uvm_inv s' xs root l1" by (rule um(1))
  show vw: "uvm_view s' l1 v = uvm_view s l1 v" if "user_va v" for v
    using um(3) [OF user_va_VPN(2) [OF that] VPN_lt(3)] by (simp add: uvm_view_def)
  show "umem s' l1 v = (if unat (v - va) < length bs then Some (bs ! unat (v - va)) else umem s l1 v)"
    if v: "user_va v"
  proof (cases "unat (v - va) < length bs")
    case True
    then have n: "unat (v - va) < unat (PAGE_SIZE - (va AND 4095))" using assms(4) by simp
    have "upa s l1 v = Some (pa + (v - va))"
      using upa_chunk [OF assms(2) n assms(3)] by simp
    then have "upa s' l1 v = Some (pa + (v - va))" using vw [OF v] by (simp add: upa_def)
    then show ?thesis using True r [of "pa + (v - va)"] by (simp add: umem_def)
  next
    case False
    have "ram s' p = ram s p" if p: "upa s l1 v = Some p" for p
    proof -
      have "\<not> unat (p - pa) < length bs"
      proof
        assume lt: "unat (p - pa) < length bs"
        then have n: "unat (p - pa) < unat (PAGE_SIZE - (va AND 4095))" using assms(4) by simp
        have "upa s l1 (va + of_nat (unat (p - pa))) = Some p"
          using upa_chunk [OF assms(2) n assms(3)] by simp
        then have "v = va + of_nat (unat (p - pa))"
          using upa_inj [OF assms(1) v in_chunk(3) [OF assms(2) n] p] by simp
        then show False using False lt by simp
      qed
      then show ?thesis using r [of p] by simp
    qed
    moreover have "upa s' l1 v = upa s l1 v" using vw [OF v] by (simp add: upa_def)
    ultimately show ?thesis using False by (cases "upa s l1 v") (auto simp: umem_def)
  qed
qed


section \<open>copyout and copyin\<close>

definition user_range :: "u64 \<Rightarrow> nat \<Rightarrow> bool" where
  "user_range a n \<longleftrightarrow> n = 0 \<or> (USER_BASE \<le> a \<and> unat a + n \<le> 0x1400000)"

lemma user_range_at:
  assumes "user_range a n" and "i < n"
  shows "user_va (a + of_nat i)" and "unat (a + of_nat i) = unat a + i"
proof -
  have r: "0x400000 \<le> unat a" "unat a + n \<le> 0x1400000"
    using assms by (auto simp: user_range_def word_le_nat_alt)
  have "unat (of_nat i :: u64) = i" using assms(2) r(2) by (simp add: unat_of_nat)
  then show u: "unat (a + of_nat i) = unat a + i" using assms(2) r by (simp add: unat_plus_if')
  show "user_va (a + of_nat i)"
    using u r assms(2) by (simp add: user_va_def word_le_nat_alt word_less_nat_alt)
qed

lemma user_range_start: "user_range a n \<Longrightarrow> 0 < n \<Longrightarrow> user_va a"
  using user_range_at(1) [of a n 0] by simp

lemma user_range_drop:
  assumes "user_range a n" and "k \<le> n" shows "user_range (a + of_nat k) (n - k)"
proof (cases "k = n")
  case False
  then have k: "k < n" using assms(2) by simp
  note u = user_range_at [OF assms(1) k]
  show ?thesis using u assms(1) k by (auto simp: user_range_def user_va_def)
qed (simp add: user_range_def)

lemma user_range_offset:
  assumes "user_range a n" and "user_va v"
  shows "unat (v - a) < n \<longleftrightarrow> (\<exists>i<n. v = a + of_nat i)"
proof
  assume "unat (v - a) < n"
  then show "\<exists>i<n. v = a + of_nat i" by (intro exI [of _ "unat (v - a)"]) simp
next
  assume "\<exists>i<n. v = a + of_nat i"
  then obtain i where i: "i < n" "v = a + of_nat i" by blast
  have "n < 2 ^ 64" using assms(1) i(1) by (auto simp: user_range_def)
  then show "unat (v - a) < n" using i by (simp add: unat_of_nat)
qed

lemma chunk_len_page: "chunk_len va len \<le> unat (PAGE_SIZE - (va AND 4095))"
  by (simp add: chunk_len_def)

lemma range_split:
  fixes a :: u64
  assumes "n \<le> len"
  shows "(\<forall>i<len. P (a + of_nat i)) \<longleftrightarrow>
    (\<forall>i<n. P (a + of_nat i)) \<and> (\<forall>i<len - n. P (a + of_nat n + of_nat i))"
proof (intro iffI conjI allI impI)
  fix i assume h: "\<forall>i<len. P (a + of_nat i)"
  { assume "i < n" then show "P (a + of_nat i)" using h assms by simp }
  assume i: "i < len - n"
  have "P (a + of_nat (n + i))" using h i less_diff_conv2 [OF assms] by (metis add.commute less_diff_conv)
  then show "P (a + of_nat n + of_nat i)" by (simp add: add.assoc)
next
  fix i assume h: "(\<forall>i<n. P (a + of_nat i)) \<and> (\<forall>i<len - n. P (a + of_nat n + of_nat i))" and i: "i < len"
  show "P (a + of_nat i)"
  proof (cases "i < n")
    case False
    then have "i - n < len - n" using i by simp
    then have "P (a + of_nat n + of_nat (i - n))" using h by blast
    moreover have "of_nat n + of_nat (i - n) = (of_nat i :: u64)"
      using False by (metis le_add_diff_inverse not_less of_nat_add)
    ultimately show ?thesis by (simp add: add.assoc)
  qed (use h in simp)
qed

lemma offset_split:
  fixes v a :: u64
  assumes "n \<le> len" and "len \<le> 0x1400000"
  shows "unat (v - a) < n \<Longrightarrow> \<not> unat (v - (a + of_nat n)) < len - n"
    and "\<not> unat (v - a) < n \<Longrightarrow> unat (v - (a + of_nat n)) = unat (v - a) - n"
proof -
  have n: "unat (of_nat n :: u64) = n" using assms by (simp add: unat_of_nat)
  have eq: "v - (a + of_nat n) = (v - a) - of_nat n" by simp
  show "\<not> unat (v - a) < n \<Longrightarrow> unat (v - (a + of_nat n)) = unat (v - a) - n"
    unfolding eq using n by (subst unat_sub) (simp_all add: word_le_nat_alt)
  assume "unat (v - a) < n"
  then show "\<not> unat (v - (a + of_nat n)) < len - n"
    unfolding eq unat_sub_if' n using assms by simp
qed

lemma copyin_upa:
  assumes "uvm_inv s xs root l1" and "user_range a len"
  shows "copyin s root a len = (if \<forall>i<len. umem s l1 (a + of_nat i) \<noteq> None
           then (0, map (\<lambda>i. the (umem s l1 (a + of_nat i))) [0..<len])
           else (- EFAULT, snd (copyin s root a len)))"
  using assms(2)
proof (induction len arbitrary: a rule: less_induct)
  case (less len)
  show ?case
  proof (cases "len = 0")
    case True
    then show ?thesis by (simp add: copyin.simps)
  next
    case False
    then have ua: "user_va a" using user_range_start [OF less.prems] by simp
    note w = walkaddr_user [OF assms(1) ua]
    show ?thesis
    proof (cases "upa s l1 a")
      case None
      then have "umem s l1 (a + of_nat 0) = None" by (simp add: umem_def)
      then have "\<not> (\<forall>i<len. umem s l1 (a + of_nat i) \<noteq> None)" using False by blast
      moreover have "fst (copyin s root a len) = - EFAULT"
        using False w(1) None by (simp add: copyin.simps [of s root a len])
      ultimately show ?thesis by (simp add: prod_eq_iff)
    next
      case (Some pa)
      let ?n = "chunk_len a len"
      have pa: "pa \<noteq> 0" using w(2) Some by auto
      have n: "0 < ?n" "?n \<le> len" using chunk_len_pos [of len a] chunk_len_le False by auto
      have at: "umem s l1 (a + of_nat i) = Some (ram s (pa + of_nat i))" if "i < ?n" for i
        using upa_chunk [OF ua _ Some, of i] that chunk_len_page [of a len] by (simp add: umem_def)
      obtain r bs where rb: "copyin s root (a + of_nat ?n) (len - ?n) = (r, bs)" by fastforce
      have unf: "copyin s root a len = (r, load_bytes (ram s) pa ?n @ bs)"
        using False w(1) Some pa rb by (simp add: copyin.simps [of s root a len] Let_def)
      have "len - ?n < len" using n False by simp
      note IH = less.IH [OF this user_range_drop [OF less.prems n(2)], unfolded rb snd_conv]
      have split: "(\<forall>i<len. umem s l1 (a + of_nat i) \<noteq> None) \<longleftrightarrow>
          (\<forall>i<len - ?n. umem s l1 (a + of_nat ?n + of_nat i) \<noteq> None)"
        unfolding range_split [OF n(2), where P = "\<lambda>x. umem s l1 x \<noteq> None"] using at by simp
      have bytes: "load_bytes (ram s) pa ?n @ map (\<lambda>i. the (umem s l1 (a + of_nat ?n + of_nat i))) [0..<len - ?n]
          = map (\<lambda>i. the (umem s l1 (a + of_nat i))) [0..<len]"
      proof (rule nth_equalityI)
        fix i assume "i < length (load_bytes (ram s) pa ?n @ map (\<lambda>i. the (umem s l1 (a + of_nat ?n + of_nat i))) [0..<len - ?n])"
        then have i: "i < len" using n(2) by simp
        show "(load_bytes (ram s) pa ?n @ map (\<lambda>i. the (umem s l1 (a + of_nat ?n + of_nat i))) [0..<len - ?n]) ! i
            = map (\<lambda>i. the (umem s l1 (a + of_nat i))) [0..<len] ! i"
        proof (cases "i < ?n")
          case True
          then show ?thesis using at [OF True] i by (simp add: nth_append load_bytes_nth)
        next
          case False
          have "of_nat ?n + of_nat (i - ?n) = (of_nat i :: u64)"
            using False by (metis le_add_diff_inverse not_less of_nat_add)
          then show ?thesis using False i by (simp add: nth_append add.assoc)
        qed
      qed (use n(2) in simp)
      show ?thesis
        unfolding unf split snd_conv using IH unfolding bytes [symmetric] by (simp split: if_splits)
    qed
  qed
qed

lemma copyout_upa:
  assumes "uvm_inv s xs root l1" and "user_range a (length src)"
  shows "\<exists>r s'. copyout root a src s = (r, s') \<and> uvm_inv s' xs root l1 \<and>
    (\<forall>v. user_va v \<longrightarrow> uvm_view s' l1 v = uvm_view s l1 v) \<and>
    r = (if \<forall>i<length src. umem s l1 (a + of_nat i) \<noteq> None then 0 else - EFAULT) \<and>
    (r = 0 \<longrightarrow> (\<forall>v. user_va v \<longrightarrow> unat (v - a) < length src \<longrightarrow> umem s' l1 v = Some (src ! unat (v - a)))) \<and>
    (\<forall>v. user_va v \<longrightarrow> \<not> unat (v - a) < length src \<longrightarrow> umem s' l1 v = umem s l1 v)"
  using assms
proof (induction "length src" arbitrary: a src s rule: less_induct)
  case less
  show ?case
  proof (cases "src = []")
    case True
    then show ?thesis using less.prems by (simp add: copyout.simps)
  next
    case False
    then have len: "0 < length src" by simp
    have ua: "user_va a" by (rule user_range_start [OF less.prems(2) len])
    note w = walkaddr_user [OF less.prems(1) ua]
    show ?thesis
    proof (cases "upa s l1 a")
      case None
      then have "umem s l1 (a + of_nat 0) = None" by (simp add: umem_def)
      then have "\<not> (\<forall>i<length src. umem s l1 (a + of_nat i) \<noteq> None)" using len by blast
      moreover have "copyout root a src s = (- EFAULT, s)"
        using False w(1) None by (simp add: copyout.simps [of root a src s])
      ultimately show ?thesis using less.prems(1) by auto
    next
      case (Some pa)
      let ?n = "chunk_len a (length src)"
      let ?a = "a + of_nat ?n"
      let ?s1 = "s\<lparr>ram := store_bytes (ram s) pa (take ?n src)\<rparr>"
      have pa: "pa \<noteq> 0" using w(2) Some by auto
      have n: "0 < ?n" "?n \<le> length src" using chunk_len_pos [OF len, of a] chunk_len_le by auto
      have lt: "length (take ?n src) = ?n" using n(2) by simp
      have le: "length (take ?n src) \<le> unat (PAGE_SIZE - (a AND 4095))"
        using chunk_len_page [of a "length src"] lt by simp
      note st = store_chunk [OF less.prems(1) ua Some le refl]
      have unf: "copyout root a src s = copyout root ?a (drop ?n src) ?s1"
        using False w(1) Some pa by (simp add: copyout.simps [of root a src s] Let_def)
      have dr: "length (drop ?n src) = length src - ?n" by simp
      have rng: "user_range ?a (length (drop ?n src))"
        unfolding dr by (rule user_range_drop [OF less.prems(2) n(2)])
      have "length (drop ?n src) < length src" using n by simp
      from less.hyps [OF this st(1) rng] obtain r s' where
        e: "copyout root ?a (drop ?n src) ?s1 = (r, s')" and i: "uvm_inv s' xs root l1"
        and v: "\<forall>v. user_va v \<longrightarrow> uvm_view s' l1 v = uvm_view ?s1 l1 v"
        and r: "r = (if \<forall>i<length (drop ?n src). umem ?s1 l1 (?a + of_nat i) \<noteq> None then 0 else - EFAULT)"
        and d: "r = 0 \<longrightarrow> (\<forall>v. user_va v \<longrightarrow> unat (v - ?a) < length (drop ?n src) \<longrightarrow>
                  umem s' l1 v = Some (drop ?n src ! unat (v - ?a)))"
        and o: "\<forall>v. user_va v \<longrightarrow> \<not> unat (v - ?a) < length (drop ?n src) \<longrightarrow> umem s' l1 v = umem ?s1 l1 v"
        by blast
      have some: "umem ?s1 l1 v = None \<longleftrightarrow> umem s l1 v = None" if "user_va v" for v
        using st(2) [OF that] by (simp add: umem_def upa_def split: option.splits)
      have at: "umem s l1 (a + of_nat i) \<noteq> None" if "i < ?n" for i
        using upa_chunk [OF ua _ Some, of i] that chunk_len_page [of a "length src"] by (simp add: umem_def)
      have small: "length src \<le> 0x1400000" using less.prems(2) len by (simp add: user_range_def)
      note off = offset_split [OF n(2) small]
      have r': "r = (if \<forall>i<length src. umem s l1 (a + of_nat i) \<noteq> None then 0 else - EFAULT)"
      proof -
        have "(\<forall>i<length (drop ?n src). umem ?s1 l1 (?a + of_nat i) \<noteq> None) \<longleftrightarrow>
            (\<forall>i<length (drop ?n src). umem s l1 (?a + of_nat i) \<noteq> None)"
          using some user_range_at(1) [OF rng] by blast
        then show ?thesis
          unfolding r range_split [OF n(2), where P = "\<lambda>x. umem s l1 x \<noteq> None"] dr using at by simp
      qed
      have inside: "umem s' l1 v = Some (src ! unat (v - a))"
        if "r = 0" "user_va v" "unat (v - a) < length src" for v
      proof (cases "unat (v - a) < ?n")
        case True
        have "umem s' l1 v = umem ?s1 l1 v" using o off(1) [OF True] that(2) by simp
        then show ?thesis using st(3) [OF that(2)] True that(3) by simp
      next
        case False
        note q = off(2) [OF False]
        have "unat (v - ?a) < length (drop ?n src)" unfolding q dr using that(3) False by simp
        then have "umem s' l1 v = Some (drop ?n src ! unat (v - ?a))" using d that by simp
        then show ?thesis unfolding q using False n(2) by simp
      qed
      have outside: "umem s' l1 v = umem s l1 v" if "user_va v" "\<not> unat (v - a) < length src" for v
      proof -
        have f: "\<not> unat (v - a) < ?n" using that(2) n(2) by simp
        have "\<not> unat (v - ?a) < length (drop ?n src)" unfolding off(2) [OF f] dr using that(2) by simp
        then have "umem s' l1 v = umem ?s1 l1 v" using o that(1) by simp
        then show ?thesis using st(3) [OF that(1)] f lt by simp
      qed
      have "\<forall>v. user_va v \<longrightarrow> uvm_view s' l1 v = uvm_view s l1 v" using v st(2) by simp
      then show ?thesis
        using unf e i r' inside outside by (intro exI [of _ r] exI [of _ s']) simp
    qed
  qed
qed

end
