(* ===== verification/Vm_Props.thy ===== *)
theory Vm_Props
  imports Vm_Copy
begin

text \<open>
  Properties of \<^verbatim>\<open>kernel/vm.c\<close>: a created table serves no user page, growing maps exactly
  the range, unmapping gives the frames back, and copies move the bytes they say.
\<close>

section \<open>uvm_unmap\<close>

lemma stores_commute:
  assumes "page_aligned p" and "page_aligned q" and "j < 512" and "p \<noteq> q"
  shows "store64 (store64 m p v) (pte_addr q j) w = store64 (store64 m (pte_addr q j) w) p v"
proof
  fix x
  have "\<not> (unat (x - pte_addr q j) < 8 \<and> unat (x - p) < 8)"
  proof
    assume h: "unat (x - pte_addr q j) < 8 \<and> unat (x - p) < 8"
    have "x = pte_addr q j + of_nat (unat (x - pte_addr q j))" by simp
    then have "page_of x = q" using entry_byte(1) [OF assms(2,3), of "unat (x - pte_addr q j)"] h by simp
    moreover have "page_of x = p" using in_page_iff [OF assms(1), of x] h by simp
    ultimately show False using assms(4) by simp
  qed
  then show "store64 (store64 m p v) (pte_addr q j) w x = store64 (store64 m (pte_addr q j) w) p v x"
    by (auto simp: store64_def store_bytes_apply)
qed

text \<open>One page: its leaf is cleared and, when it has the user bit, its frame becomes free.\<close>

definition unmapped :: "mm_state \<Rightarrow> u64 list \<Rightarrow> mm_state \<Rightarrow> u64 list \<Rightarrow> u64 \<Rightarrow> u64 \<Rightarrow> u64 set \<Rightarrow> bool" where
  "unmapped s xs s' xs' root l1 A \<longleftrightarrow>
     uvm_inv s' xs' root l1 \<and>
     (\<forall>v. user_va v \<longrightarrow> uvm_view s' l1 v = (if page_of v \<in> A then None else uvm_view s l1 v)) \<and>
     set xs' = set xs \<union> {p. \<exists>v. user_va v \<and> page_of v \<in> A \<and> frame_of (uvm_view s l1 v) = Some p} \<and>
     (\<forall>v. user_va v \<longrightarrow> page_of v \<notin> A \<longrightarrow> umem s' l1 v = umem s l1 v)"

lemma unmapped_none:
  assumes "uvm_inv s xs root l1" and "user_va va" and "page_aligned va" and "uvm_view s l1 va = None"
  shows "unmapped s xs s xs root l1 {va}"
proof -
  have "uvm_view s l1 v = None" if "user_va v" "page_of v = va" for v
    using view_page [OF that(1) assms(2), of s l1] that(2) page_of_id [OF assms(3)] assms(4) by simp
  then show ?thesis using assms(1) by (auto simp: unmapped_def frame_of_def)
qed

lemma unmap_page:
  assumes "uvm_inv s xs root l1" and "user_va va" and "page_aligned va"
  shows "\<exists>s' xs'. (case walk root va False s of
        (None, s1) \<Rightarrow> s1
      | (Some p, s1) \<Rightarrow>
          let pte = load64 (ram s1) p in
          if pte AND PTE_V = 0 then s1
          else
            (let s2 = (if pte AND PTE_U \<noteq> 0 then kfree s1 (PTE2PA pte) else s1)
             in s2\<lparr>ram := store64 (ram s2) p 0\<rparr>)) = s' \<and> unmapped s xs s' xs' root l1 {va}"
proof (cases "page_at (ram s) root l1 (L0 (VPN1 va))")
  case None
  have "uvm_view s l1 va = None"
    using None user_va_VPN(2) [OF assms(2)] by (simp add: uvm_view_def leaf_def page_at.simps)
  then show ?thesis
    using walk_missing(1) [OF assms(1,2) None] unmapped_none [OF assms] by auto
next
  case (Some q)
  note inv = uvm_invD [OF assms(1)]
  define e where "e = load64 (ram s) (pte_addr q (VPN0 va))"
  have w: "walk root va False s = (Some (pte_addr q (VPN0 va)), s)" by (rule walk_found [OF assms(1,2) Some])
  have ve: "uvm_view s l1 va = ent e" using view_entry [OF Some] by (simp add: e_def)
  have vp: "uvm_view s l1 v = ent e" if "user_va v" "page_of v = va" for v
    using view_page [OF that(1) assms(2), of s l1] that(2) page_of_id [OF assms(3)] ve by simp
  show ?thesis
  proof (cases "e AND PTE_V = 0")
    case True
    then show ?thesis using w unmapped_none [OF assms] ve by (auto simp: e_def [symmetric] ent_def)
  next
    case False
    define s1 where "s1 = s\<lparr>ram := store64 (ram s) (pte_addr q (VPN0 va)) 0\<rparr>"
    have none: "ent 0 = None" by (simp add: ent_def)
    note sl = uvm_set_leaf [OF assms(1,2) Some s1_def, unfolded none]
    have inv1: "uvm_inv s1 xs root l1" by (rule sl(1)) (simp add: frame_of_def)
    have vw: "uvm_view s1 l1 v = (if page_of v = va then None else uvm_view s l1 v)" if "user_va v" for v
      using sl(2) [OF _ that] page_of_id [OF assms(3)] by (simp add: frame_of_def)
    have at1: "page_at (ram s1) root l1 = (page_at (ram s) root l1)(Frame (VPN1 va) (VPN0 va) := None)"
      using sl(3) by (simp add: frame_of_def)
    have q: "page_aligned q" by (rule own_okD(1) [OF inv(3) Some])
    have mem1: "umem s1 l1 v = umem s l1 v" if v: "user_va v" "page_of v \<noteq> va" for v
    proof -
      have u: "upa s1 l1 v = upa s l1 v" using vw [OF v(1)] v(2) by (simp add: upa_def)
      have "ram s1 p = ram s p" if "upa s l1 v = Some p" for p
      proof -
        have "page_of p \<noteq> q"
          using data_page_not_table(2) [OF assms(1) upa_data_page [OF v(1) that, where root = root]] Some
          unfolding table_page_def by auto
        then show ?thesis using store64_entry_page [OF q VPN_lt(3)] by (simp add: s1_def)
      qed
      then show ?thesis using u by (cases "upa s l1 v") (auto simp: umem_def)
    qed
    show ?thesis
    proof (cases "e AND PTE_U = 0")
      case True
      have "unmapped s xs s1 xs root l1 {va}"
        using inv1 vw mem1 vp True False by (auto simp: unmapped_def frame_of_def ent_def)
      then show ?thesis using w True False by (auto simp: e_def [symmetric] s1_def)
    next
      case U: False
      have ve': "uvm_view s l1 va = Some e" using ve False by (simp add: ent_def)
      let ?f = "PTE2PA e"
      note fr = view_frame [OF ve' assms(2) U, of root]
      note f = own_okD [OF inv(3) fr]
      have fq: "?f \<noteq> q" using f(4) [of "L0 (VPN1 va)"] Some by auto
      have un: "page_at (ram s1) root l1 x \<noteq> Some ?f" for x
        using f(4) [of x] unfolding at1 by auto
      have fresh1: "fresh s1 xs root l1 ?f" using f un by (simp add: fresh_def)
      define s' where "s' = kfree s1 ?f"
      note kf = uvm_kfree [OF inv1 fresh1, folded s'_def]
      have "(kfree s ?f)\<lparr>ram := store64 (ram (kfree s ?f)) (pte_addr q (VPN0 va)) 0\<rparr> = s'"
        using stores_commute [OF f(1) q VPN_lt(3) fq] by (simp add: s'_def s1_def kfree_def)
      then have res: "(let s2 = (if e AND PTE_U \<noteq> 0 then kfree s ?f else s)
             in s2\<lparr>ram := store64 (ram s2) (pte_addr q (VPN0 va)) 0\<rparr>) = s'"
        using U by (simp add: Let_def)
      have mem2: "umem s' l1 v = umem s1 l1 v" if v: "user_va v" for v
      proof -
        have u: "upa s' l1 v = upa s1 l1 v" using kf(2) [OF v] by (simp add: upa_def)
        have "ram s' p = ram s1 p" if p: "upa s1 l1 v = Some p" for p
        proof -
          have "page_of p \<noteq> ?f"
          proof
            assume "page_of p = ?f"
            then have "data_page s1 xs root l1 ?f" using upa_data_page [OF v p] by simp
            obtain e' where e': "uvm_view s1 l1 v = Some e'" "e' AND PTE_U \<noteq> 0" "p = PTE2PA e' + (v AND 4095)"
              using p by (auto simp: upa_def split: option.splits if_splits)
            have "page_of p = PTE2PA e'" using page_of_plus_offset(1) [OF PTE2PA_aligned, of e' v] e'(3) by simp
            then show False using view_frame [OF e'(1) v e'(2), of root] un \<open>page_of p = ?f\<close> by auto
          qed
          then show ?thesis unfolding s'_def by (rule kfree_ram_other)
        qed
        then show ?thesis using u by (cases "upa s1 l1 v") (auto simp: umem_def)
      qed
      have "unmapped s xs s' (?f # xs) root l1 {va}"
        using kf(1,2) vw mem1 mem2 vp U False assms(2) page_of_id [OF assms(3)]
        by (auto simp: unmapped_def frame_of_def ent_def)
      then show ?thesis using w False res by (auto simp: e_def [symmetric])
    qed
  qed
qed

lemma unmapped_trans:
  assumes "unmapped s xs s1 ys root l1 A" and "unmapped s1 ys s2 zs root l1 B" and "A \<inter> B = {}"
  shows "unmapped s xs s2 zs root l1 (A \<union> B)"
proof -
  let ?F = "\<lambda>s A. {p. \<exists>v. user_va v \<and> page_of v \<in> A \<and> frame_of (uvm_view s l1 v) = Some p}"
  have "uvm_view s1 l1 v = uvm_view s l1 v" if "user_va v" "page_of v \<in> B" for v
    using assms(1,3) that by (auto simp: unmapped_def disjoint_iff)
  then have "?F s1 B = ?F s B" by (intro Collect_cong) metis
  moreover have "set ys = set xs \<union> ?F s A"
    using assms(1) unfolding unmapped_def by (elim conjE) assumption
  moreover have "set zs = set ys \<union> ?F s1 B"
    using assms(2) unfolding unmapped_def by (elim conjE) assumption
  moreover have "?F s (A \<union> B) = ?F s A \<union> ?F s B" by auto
  ultimately have pages: "set zs = set xs \<union> ?F s (A \<union> B)" by (simp only: Un_assoc)
  have "uvm_view s2 l1 v = (if page_of v \<in> A \<union> B then None else uvm_view s l1 v)" if "user_va v" for v
    using assms(1,2) that by (simp add: unmapped_def)
  moreover have "umem s2 l1 v = umem s l1 v" if "user_va v" "page_of v \<notin> A \<union> B" for v
    using assms(1,2) that by (simp add: unmapped_def)
  moreover have "uvm_inv s2 zs root l1" using assms(2) by (simp add: unmapped_def)
  ultimately show ?thesis using pages unfolding unmapped_def by blast
qed

definition unmap_step :: "u64 \<Rightarrow> u64 \<Rightarrow> mm_state \<Rightarrow> mm_state" where
  "unmap_step pt a s = (case walk pt a False s of
        (None, s1) \<Rightarrow> s1
      | (Some p, s1) \<Rightarrow>
          let pte = load64 (ram s1) p in
          if pte AND PTE_V = 0 then s1
          else
            (let s2 = (if pte AND PTE_U \<noteq> 0 then kfree s1 (PTE2PA pte) else s1)
             in s2\<lparr>ram := store64 (ram s2) p 0\<rparr>))"

lemma uvm_unmap_loop_step:
  "uvm_unmap_loop (Suc n) pt a s = uvm_unmap_loop n pt (a + PAGE_SIZE) (unmap_step pt a s)"
  by (auto simp: unmap_step_def Let_def split: prod.splits option.splits)

lemma pages_fromI: "i < n \<Longrightarrow> p + of_nat i * PAGE_SIZE \<in> set (pages_from p n)"
  by (simp add: pages_from_def)

lemma pages_from_bound:
  assumes "unat a + n * 4096 \<le> 0x1400000" and "p \<in> set (pages_from a n)"
  shows "unat a \<le> unat p" and "unat p + 4096 \<le> unat a + n * 4096"
proof -
  obtain i where i: "i < n" "p = a + of_nat (i * 4096)"
    using assms(2) by (auto simp: pages_from_def)
  define k where "k = i * 4096"
  have le: "k + 4096 \<le> n * 4096" using i(1) by (simp add: k_def)
  then have "unat (of_nat k :: u64) = k" using assms(1) by (simp add: unat_of_nat)
  then have "unat p = unat a + k"
    using le assms(1) unfolding i(2) k_def [symmetric] by (simp add: unat_plus_if')
  then show "unat a \<le> unat p" and "unat p + 4096 \<le> unat a + n * 4096" using le by simp_all
qed

lemma uvm_unmap_loop_unmaps:
  assumes "uvm_inv s xs root l1" and "page_aligned a" and "USER_BASE \<le> a"
    and "unat a + n * 4096 \<le> 0x1400000"
  shows "\<exists>xs'. unmapped s xs (uvm_unmap_loop n root a s) xs' root l1 (set (pages_from a n))"
  using assms
proof (induction n arbitrary: s xs a)
  case 0
  then show ?case by (auto simp: unmapped_def pages_from_def)
next
  case (Suc n)
  have ua: "user_va a" using Suc.prems(3,4) by (simp add: user_va_def word_less_nat_alt)
  obtain ys where st: "unmapped s xs (unmap_step root a s) ys root l1 {a}"
    using unmap_page [OF Suc.prems(1) ua Suc.prems(2)] by (auto simp: unmap_step_def)
  have up: "unat (a + PAGE_SIZE) = unat a + 4096" using Suc.prems(4) by (simp add: unat_plus_if')
  have "\<exists>zs. unmapped (unmap_step root a s) ys
      (uvm_unmap_loop n root (a + PAGE_SIZE) (unmap_step root a s)) zs root l1 (set (pages_from (a + PAGE_SIZE) n))"
  proof (rule Suc.IH)
    show "uvm_inv (unmap_step root a s) ys root l1" using st by (simp add: unmapped_def)
    show "USER_BASE \<le> a + PAGE_SIZE" using up Suc.prems(3) by (simp add: word_le_nat_alt)
    show "unat (a + PAGE_SIZE) + n * 4096 \<le> 0x1400000" using up Suc.prems(4) by simp
  qed (use Suc.prems(2) page_aligned_add in simp)
  then obtain zs where rec: "unmapped (unmap_step root a s) ys
      (uvm_unmap_loop n root (a + PAGE_SIZE) (unmap_step root a s)) zs root l1 (set (pages_from (a + PAGE_SIZE) n))"
    by blast
  have "unat (a + PAGE_SIZE) + n * 4096 \<le> 0x1400000" using up Suc.prems(4) by simp
  then have "{a} \<inter> set (pages_from (a + PAGE_SIZE) n) = {}"
    using pages_from_bound(1) [of "a + PAGE_SIZE" n a] up by auto
  from unmapped_trans [OF st rec this] show ?case
    unfolding uvm_unmap_loop_step pages_from_Suc by auto
qed

section \<open>uvm_create\<close>

lemma memcpy_other: "n \<le> unat (x - d) \<Longrightarrow> memcpy m d s n x = m x"
proof (induction n arbitrary: m d s)
  case (Suc n)
  have "x \<noteq> d" using Suc.prems by auto
  then show ?case using Suc.IH [of "d + 1"] Suc.prems unat_diff_Suc [of x d] by simp
qed simp

lemma memcpy_page_other: "page_aligned d \<Longrightarrow> page_of x \<noteq> d \<Longrightarrow> memcpy m d s 4096 x = m x"
  using in_page_iff [of d x] by (intro memcpy_other) simp

lemma mm_inv_ram:
  assumes "mm_inv s xs" and "\<forall>y. page_of y \<in> set xs \<longrightarrow> m y = ram s y"
  shows "mm_inv (s\<lparr>ram := m\<rparr>) xs"
proof -
  have "free_list m (g_freelist s) xs"
  proof (rule free_list_cong)
    show "free_list (ram s) (g_freelist s) xs" "\<forall>x\<in>set xs. page_aligned x"
      using assms(1) by (simp_all add: mm_inv_def)
    show "ram s y = m y" if "page_of y \<in> set xs" for y using assms(2) that by simp
  qed
  then show ?thesis using assms(1) by (simp add: mm_inv_def)
qed

lemma mmio_indices: "VPN1 UART0_BASE = 128" "VPN1 CLINT_BASE = 16" "VPN1 PLIC_BASE = 96" "VPN2 0 = 0"
  by (simp_all add: VPN1_def VPN2_def)

lemma uvm_create_space:
  assumes "mm_inv s (p # q # xs)"
  shows "\<exists>s'. uvm_create satp s = (p, s') \<and> uvm_inv s' xs p q \<and>
    (\<forall>v. user_va v \<longrightarrow> uvm_view s' q v = None) \<and>
    (\<forall>y. page_of y \<noteq> p \<longrightarrow> page_of y \<noteq> q \<longrightarrow> ram s' y = ram s y)"
proof -
  have pq: "page_aligned p" "page_aligned q" "p \<noteq> 0" "q \<noteq> 0" "p \<noteq> q" "p \<notin> set xs" "q \<notin> set xs"
    using mm.inv_pages [OF assms] by auto
  obtain s1 where k1: "kalloc s = (p, s1)" and i1: "mm_inv s1 (q # xs)"
    and f1: "\<And>y. page_of y \<noteq> p \<Longrightarrow> ram s1 y = ram s y"
    using kalloc_pop [OF assms] by (cases "kalloc s") auto
  define s3 where "s3 = s1\<lparr>ram := memcpy (memset (ram s1) p 0 4096) p (kernel_pagetable satp) 4096\<rparr>"
  have i3: "mm_inv s3 (q # xs)"
    unfolding s3_def
  proof (rule mm_inv_ram [OF i1], intro allI impI)
    fix y assume "page_of y \<in> set (q # xs)"
    then have "page_of y \<noteq> p" using pq by auto
    then show "memcpy (memset (ram s1) p 0 4096) p (kernel_pagetable satp) 4096 y = ram s1 y"
      using memcpy_page_other [OF pq(1)] memset_page [OF pq(1)] by simp
  qed
  obtain s4 where k4: "kalloc s3 = (q, s4)" and i4: "mm_inv s4 xs"
    and z4: "\<And>y. page_of y = q \<Longrightarrow> ram s4 y = 0"
    and f4: "\<And>y. page_of y \<noteq> q \<Longrightarrow> ram s4 y = ram s3 y"
    using kalloc_pop [OF i3] by (cases "kalloc s3") auto
  have m0: "memset (ram s4) q 0 4096 = ram s4"
    using z4 memset_page [OF pq(2)] by (auto simp: fun_eq_iff)
  define fl where "fl = PTE_V OR PTE_R OR PTE_W OR PTE_G OR PTE_A OR PTE_D"
  define m1 where "m1 = store64 (ram s4) (pte_addr q 128) (pte_make UART0_BASE fl)"
  define m2 where "m2 = store64 m1 (pte_addr q 16) (pte_make CLINT_BASE fl)"
  define m3 where "m3 = store64 m2 (pte_addr q 96) (pte_make PLIC_BASE fl)"
  define m4 where "m4 = store64 m3 (pte_addr p 0) (PA2PTE q OR PTE_V)"
  have c: "uvm_create satp s = (p, s4\<lparr>ram := m4\<rparr>)"
    using k1 k4 pq(3,4) unfolding uvm_create_def Let_def s3_def m4_def m3_def m2_def m1_def fl_def
    by (simp add: mmio_indices m0)
  have lts: "(128 :: u64) < 512" "(16 :: u64) < 512" "(96 :: u64) < 512" "(0 :: u64) < 512"
    by (simp_all add: word_less_nat_alt)
  have st: "store64 m (pte_addr t j) v y = m y" if "page_of y \<in> set xs" "t = p \<or> t = q" "j < 512" for m t j v y
    using that pq by (intro store64_entry_page) auto
  have "mm_inv (s4\<lparr>ram := m4\<rparr>) xs"
    by (rule mm_inv_ram [OF i4]) (simp add: m4_def m3_def m2_def m1_def st lts)
  moreover have t0: "tbl m4 p 0 = Some (PA2PTE q OR PTE_V)"
    using tbl_store [OF pq(1,1) lts(4) lts(4)] leaf_bits(2) [OF pq(2), of 0]
    by (simp add: m4_def word_less_nat_alt)
  moreover have "PTE2PA (PA2PTE q OR PTE_V) = q"
    using leaf_bits(1) [OF pq(2), of 0] by (simp add: word_less_nat_alt)
  moreover have none: "tbl m4 q i = None" if "user_idx i" for i
  proof -
    note i = user_idx_lt [OF that]
    have ne: "i \<noteq> 128" "i \<noteq> 16" "i \<noteq> 96" using that by (auto simp: user_idx_def word_less_nat_alt)
    have "tbl m4 q i = tbl (ram s4) q i"
      unfolding m4_def m3_def m2_def m1_def
      using tbl_store [OF pq(1,2) lts(4) i] tbl_store [OF pq(2,2) lts(1) i]
        tbl_store [OF pq(2,2) lts(2) i] tbl_store [OF pq(2,2) lts(3) i] ne pq(5) by simp
    also have "\<dots> = None" by (rule tbl_zero [OF pq(2) i z4])
    finally show ?thesis .
  qed
  moreover have at: "page_at m4 p q x = (if x = Root then Some p else if x = L1 then Some q else None)" for x
    by (cases x) (auto simp: page_at.simps none leaf_def frame_of_def)
  moreover have "own_ok xs (page_at m4 p q)"
    unfolding own_ok_def at using pq by (auto split: if_splits)
  ultimately have "uvm_inv (s4\<lparr>ram := m4\<rparr>) xs p q" by (simp add: uvm_inv_def)
  moreover have "uvm_view (s4\<lparr>ram := m4\<rparr>) q v = None" if "user_va v" for v
    using none [OF user_va_VPN(2) [OF that]] by (simp add: uvm_view_def leaf_def)
  moreover have "m4 y = ram s y" if "page_of y \<noteq> p" "page_of y \<noteq> q" for y
  proof -
    have "m4 y = ram s4 y"
      using that pq lts by (simp add: m4_def m3_def m2_def m1_def store64_entry_page)
    also have "\<dots> = ram s1 y"
      using that f4 memcpy_page_other [OF pq(1)] memset_page [OF pq(1)] by (simp add: s3_def)
    finally show ?thesis using f1 that by simp
  qed
  ultimately show ?thesis using c by auto
qed

section \<open>Properties\<close>

text \<open>
  A created address space shares no page with the free list, keeps the tables the
  kernel's root gave it and serves no user address.
\<close>

theorem uvm_create_empty_space:
  assumes "mm_inv s (p # q # xs)"
  shows "\<exists>s'. uvm_create satp s = (p, s') \<and> uvm_inv s' xs p q \<and>
    (\<forall>v. user_va v \<longrightarrow> walkaddr s' p v = 0)"
proof -
  obtain s' where s': "uvm_create satp s = (p, s')" "uvm_inv s' xs p q" "\<forall>v. user_va v \<longrightarrow> uvm_view s' q v = None"
    using uvm_create_space [OF assms] by blast
  have "walkaddr s' p v = 0" if "user_va v" for v
    using walkaddr_user(1) [OF s'(2) that] s'(3) that by (simp add: upa_def)
  then show ?thesis using s' by blast
qed

lemma uvm_alloc_spec:
  assumes "uvm_inv s xs root l1" and "USER_BASE \<le> PGROUNDUP oldsz" and "oldsz \<le> newsz"
    and "PGROUNDUP newsz \<le> USER_LIMIT" and "perm < 1024" and "perm AND PTE_U \<noteq> 0"
  shows "\<exists>r s' xs'. uvm_alloc root oldsz newsz perm s = Some (r, s') \<and>
    uvm_inv s' xs' root l1 \<and> set xs' \<subseteq> set xs \<and> (r = 0 \<or> r = - ENOMEM) \<and>
    (\<forall>v. user_va v \<longrightarrow> \<not> (PGROUNDUP oldsz \<le> page_of v \<and> page_of v < PGROUNDUP newsz) \<longrightarrow>
       umem s' l1 v = umem s l1 v) \<and>
    (r = 0 \<longrightarrow> (\<forall>v. user_va v \<longrightarrow> PGROUNDUP oldsz \<le> page_of v \<longrightarrow> page_of v < PGROUNDUP newsz \<longrightarrow>
       umem s l1 v = None \<and> umem s' l1 v = Some 0)) \<and>
    (2 * ((unat (PGROUNDUP newsz) - unat (PGROUNDUP oldsz)) div 4096) \<le> length xs \<longrightarrow>
       (\<forall>v. user_va v \<longrightarrow> PGROUNDUP oldsz \<le> page_of v \<longrightarrow> page_of v < PGROUNDUP newsz \<longrightarrow>
          uvm_view s l1 v = None) \<longrightarrow> r = 0)"
proof -
  have al: "page_aligned (PGROUNDUP x)" for x
  proof -
    have "PGROUNDUP x = page_of (x + PAGE_SIZE - 1)" by (simp add: PGROUNDUP_def page_of_def)
    then show ?thesis by simp
  qed
  obtain r s' xs' where a: "uvm_alloc_loop root (PGROUNDUP oldsz) (PGROUNDUP newsz) perm s = Some (r, s')"
    and g: "grown s xs s' xs' root l1 (PGROUNDUP oldsz) (PGROUNDUP newsz) perm r"
    and live: "2 * ((unat (PGROUNDUP newsz) - unat (PGROUNDUP oldsz)) div 4096) \<le> length xs \<longrightarrow>
       (\<forall>v. user_va v \<longrightarrow> PGROUNDUP oldsz \<le> page_of v \<longrightarrow> page_of v < PGROUNDUP newsz \<longrightarrow>
          uvm_view s l1 v = None) \<longrightarrow> r = 0"
    using uvm_alloc_loop_grows [OF assms(1) al al assms(2,4,5,6) refl] by blast
  have keep: "umem s' l1 v = umem s l1 v"
    if v: "user_va v" "\<not> (PGROUNDUP oldsz \<le> page_of v \<and> page_of v < PGROUNDUP newsz)" for v
  proof -
    have "upa s' l1 v = upa s l1 v" using g v by (simp add: grown_def upa_def)
    moreover have "ram s' p = ram s p" if "upa s l1 v = Some p" for p
      using g upa_data_page [OF v(1) that, of xs root] by (simp add: grown_def)
    ultimately show ?thesis by (cases "upa s l1 v") (auto simp: umem_def)
  qed
  have new: "umem s l1 v = None \<and> umem s' l1 v = Some 0"
    if h: "r = 0" "user_va v" "PGROUNDUP oldsz \<le> page_of v" "page_of v < PGROUNDUP newsz" for v
  proof -
    obtain p where p: "uvm_view s l1 v = None" "p \<in> set xs"
      "uvm_view s' l1 v = Some (PA2PTE p OR perm OR PTE_V)" "\<forall>y. page_of y = p \<longrightarrow> ram s' y = 0"
      using g h by (auto simp: grown_def)
    have "page_aligned p" using mm.inv_pages [OF uvm_invD(1) [OF assms(1)]] p(2) by simp
    note e = leaf_bits [OF this assms(5)] and o = page_of_plus_offset(1) [OF this, of v]
    show ?thesis using p e o assms(6) by (simp add: umem_def upa_def)
  qed
  have "uvm_alloc root oldsz newsz perm s = Some (r, s')"
    using a assms(3) by (simp add: uvm_alloc_def leD)
  moreover have "uvm_inv s' xs' root l1" "set xs' \<subseteq> set xs" "r = 0 \<or> r = - ENOMEM"
    using g by (simp_all add: grown_def)
  ultimately show ?thesis using keep new live by blast
qed


text \<open>
  C5. Growing a space from a page-aligned size to another returns, keeps the tables well
  formed and everything mapped before; on success every page of the range was unmapped and now
  maps a zeroed page taken from the free list, and on failure the result is \<^verbatim>\<open>-ENOMEM\<close>.
\<close>

theorem uvm_alloc_grows:
  assumes "uvm_inv s xs root l1" and "USER_BASE \<le> PGROUNDUP oldsz" and "oldsz \<le> newsz"
    and "PGROUNDUP newsz \<le> USER_LIMIT" and "perm < 1024" and "perm AND PTE_U \<noteq> 0"
  shows "\<exists>r s' xs'. uvm_alloc root oldsz newsz perm s = Some (r, s') \<and>
    uvm_inv s' xs' root l1 \<and> set xs' \<subseteq> set xs \<and> (r = 0 \<or> r = - ENOMEM) \<and>
    (\<forall>v. user_va v \<longrightarrow> \<not> (PGROUNDUP oldsz \<le> page_of v \<and> page_of v < PGROUNDUP newsz) \<longrightarrow>
       umem s' l1 v = umem s l1 v) \<and>
    (r = 0 \<longrightarrow> (\<forall>v. user_va v \<longrightarrow> PGROUNDUP oldsz \<le> page_of v \<longrightarrow> page_of v < PGROUNDUP newsz \<longrightarrow>
       umem s l1 v = None \<and> umem s' l1 v = Some 0)) \<and>
    (2 * ((unat (PGROUNDUP newsz) - unat (PGROUNDUP oldsz)) div 4096) \<le> length xs \<longrightarrow>
       (\<forall>v. user_va v \<longrightarrow> PGROUNDUP oldsz \<le> page_of v \<longrightarrow> page_of v < PGROUNDUP newsz \<longrightarrow>
          uvm_view s l1 v = None) \<longrightarrow> r = 0)"
  by (rule uvm_alloc_spec [OF assms])

text \<open>
  C6. Unmapping a page-aligned run of user pages clears exactly their leaves and puts
  exactly their user frames back on the free list; user memory elsewhere is unchanged and the
  tables stay well formed.
\<close>

theorem uvm_unmap_frees:
  assumes "uvm_inv s xs root l1" and "page_aligned va" and "USER_BASE \<le> va"
    and "unat va + unat npages * 4096 \<le> 0x1400000" and "A = set (pages_from va (unat npages))"
  shows "\<exists>s' xs'. uvm_unmap root va npages s = (0, s') \<and> uvm_inv s' xs' root l1 \<and>
    set xs' = set xs \<union> {p. \<exists>v. user_va v \<and> page_of v \<in> A \<and> frame_of (uvm_view s l1 v) = Some p} \<and>
    (\<forall>v. user_va v \<longrightarrow> umem s' l1 v = (if page_of v \<in> A then None else umem s l1 v))"
proof -
  have va: "va AND NOT (PAGE_SIZE - 1) = va" using page_of_id [OF assms(2)] by (simp add: page_of_def)
  obtain xs' where u: "unmapped s xs (uvm_unmap_loop (unat npages) root va s) xs' root l1 A"
    using uvm_unmap_loop_unmaps [OF assms(1-4)] assms(5) by blast
  let ?s = "uvm_unmap_loop (unat npages) root va s"
  have "umem ?s l1 v = (if page_of v \<in> A then None else umem s l1 v)" if "user_va v" for v
    using u that by (auto simp: unmapped_def umem_def upa_def)
  moreover have "uvm_unmap root va npages s = (0, ?s)" unfolding uvm_unmap_def va ..
  moreover have "set xs' = set xs \<union> {p. \<exists>v. user_va v \<and> page_of v \<in> A \<and> frame_of (uvm_view s l1 v) = Some p}"
    using u unfolding unmapped_def by (elim conjE) assumption
  moreover have "uvm_inv ?s xs' root l1" using u unfolding unmapped_def by blast
  ultimately show ?thesis by blast
qed

text \<open>
  C7. \<^verbatim>\<open>copyout\<close> of a buffer that fits in user space succeeds exactly when every target
  byte is mapped for the user and is \<^verbatim>\<open>-EFAULT\<close> otherwise; on success \<^verbatim>\<open>copyin\<close> of the
  same range gives the buffer back. It changes no mapping and no user byte outside the range.
\<close>

theorem copyout_copyin:
  assumes "uvm_inv s xs root l1" and "user_range a (length src)"
  shows "\<exists>r s'. copyout root a src s = (r, s') \<and> uvm_inv s' xs root l1 \<and>
    r = (if \<forall>i<length src. umem s l1 (a + of_nat i) \<noteq> None then 0 else - EFAULT) \<and>
    (r = 0 \<longrightarrow> copyin s' root a (length src) = (0, src)) \<and>
    (\<forall>v. user_va v \<longrightarrow> uvm_view s' l1 v = uvm_view s l1 v) \<and>
    (\<forall>v. user_va v \<longrightarrow> \<not> unat (v - a) < length src \<longrightarrow> umem s' l1 v = umem s l1 v)"
proof -
  obtain r s' where c: "copyout root a src s = (r, s')" "uvm_inv s' xs root l1"
    "\<forall>v. user_va v \<longrightarrow> uvm_view s' l1 v = uvm_view s l1 v"
    "r = (if \<forall>i<length src. umem s l1 (a + of_nat i) \<noteq> None then 0 else - EFAULT)"
    "r = 0 \<longrightarrow> (\<forall>v. user_va v \<longrightarrow> unat (v - a) < length src \<longrightarrow> umem s' l1 v = Some (src ! unat (v - a)))"
    "\<forall>v. user_va v \<longrightarrow> \<not> unat (v - a) < length src \<longrightarrow> umem s' l1 v = umem s l1 v"
    using copyout_upa [OF assms] by blast
  have "copyin s' root a (length src) = (0, src)" if r: "r = 0"
  proof -
    have at: "umem s' l1 (a + of_nat i) = Some (src ! i)" if i: "i < length src" for i
    proof -
      note u = user_range_at [OF assms(2) i]
      have "length src < 2 ^ 64" using assms(2) i by (auto simp: user_range_def)
      then have "unat (a + of_nat i - a) = i" using i by (simp add: unat_of_nat)
      then show ?thesis using c(5) r u(1) i by auto
    qed
    have "map (\<lambda>i. the (umem s' l1 (a + of_nat i))) [0..<length src] = src"
      by (rule nth_equalityI) (simp_all add: at)
    then show ?thesis using copyin_upa [OF c(2) assms(2)] at by simp
  qed
  then show ?thesis using c by blast
qed

section \<open>A small machine\<close>

text \<open>Four free pages; a space made from two of them, then grown by one page.\<close>

definition pool4 :: mm_state where
  "pool4 = kfree (kfree (kfree (kfree empty_mm 0x4000) 0x3000) 0x2000) 0x1000"

lemma pool4_inv: "mm_inv pool4 [0x1000, 0x2000, 0x3000, 0x4000]"
  unfolding pool4_def
  by (intro kfree_push) (simp_all add: mm_inv_def empty_mm_def page_aligned_def)

definition space4 :: mm_state where
  "space4 = snd (uvm_create 0 pool4)"

lemma space4_inv: "uvm_inv space4 [0x3000, 0x4000] 0x1000 0x2000"
  and space4_view: "user_va v \<Longrightarrow> uvm_view space4 0x2000 v = None"
  using uvm_create_space [OF pool4_inv, of 0] by (auto simp: space4_def)

abbreviation PTE_URW :: u64 where "PTE_URW \<equiv> 22"

definition grown4 :: "mm_state option" where
  "grown4 = map_option snd (uvm_alloc 0x1000 USER_BASE (USER_BASE + 1) PTE_URW space4)"

lemma grown4_inv:
  "\<exists>s xs. grown4 = Some s \<and> uvm_inv s xs 0x1000 0x2000 \<and>
     (\<forall>v. user_va v \<longrightarrow> page_of v = USER_BASE \<longrightarrow> umem s 0x2000 v = Some 0)"
proof -
  have up: "PGROUNDUP USER_BASE = USER_BASE" "PGROUNDUP (USER_BASE + 1) = USER_BASE + PAGE_SIZE"
    by (simp_all add: PGROUNDUP_def)
  have "2 * ((unat (USER_BASE + PAGE_SIZE) - unat USER_BASE) div 4096) \<le> length [0x3000 :: u64, 0x4000]"
    by simp
  then obtain r s xs where s: "uvm_alloc 0x1000 USER_BASE (USER_BASE + 1) PTE_URW space4 = Some (r, s)"
    "uvm_inv s xs 0x1000 0x2000" "r = 0"
    "r = 0 \<longrightarrow> (\<forall>v. user_va v \<longrightarrow> USER_BASE \<le> page_of v \<longrightarrow> page_of v < USER_BASE + PAGE_SIZE \<longrightarrow>
       umem space4 0x2000 v = None \<and> umem s 0x2000 v = Some 0)"
    using uvm_alloc_spec [OF space4_inv, of USER_BASE "USER_BASE + 1" PTE_URW, unfolded up] space4_view
    by (auto simp: word_less_nat_alt word_le_nat_alt)
  then show ?thesis by (auto simp: grown4_def)
qed

theorem uvm_create_empty_space_witness:
  "\<exists>s'. uvm_create 0 pool4 = (0x1000, s') \<and> walkaddr s' 0x1000 USER_BASE = 0"
  using uvm_create_empty_space [OF pool4_inv, of 0] by (auto simp: user_va_def)

theorem uvm_alloc_grows_witness:
  "\<exists>s'. uvm_alloc 0x1000 USER_BASE (USER_BASE + 1) PTE_URW space4 = Some (0, s') \<and>
     umem s' 0x2000 (USER_BASE + 5) = Some 0"
proof -
  have up: "PGROUNDUP USER_BASE = USER_BASE" "PGROUNDUP (USER_BASE + 1) = USER_BASE + PAGE_SIZE"
    by (simp_all add: PGROUNDUP_def)
  have p: "page_of (USER_BASE + 5) = USER_BASE" "user_va (USER_BASE + 5)"
    by (simp_all add: page_of_def user_va_def)
  show ?thesis
    using uvm_alloc_grows [OF space4_inv, of USER_BASE "USER_BASE + 1" PTE_URW, unfolded up] space4_view p
    by (auto simp: word_less_nat_alt word_le_nat_alt)
qed

theorem uvm_unmap_frees_witness:
  "\<exists>s s'. grown4 = Some s \<and> uvm_unmap 0x1000 USER_BASE 1 s = (0, s') \<and> umem s' 0x2000 USER_BASE = None"
proof -
  obtain s xs where s: "grown4 = Some s" "uvm_inv s xs 0x1000 0x2000" using grown4_inv by blast
  have p: "page_of USER_BASE = USER_BASE" "user_va USER_BASE" by (simp_all add: page_of_def user_va_def)
  have "USER_BASE \<in> set (pages_from USER_BASE (unat (1 :: u64)))" by (simp add: pages_from_def)
  then show ?thesis
    using uvm_unmap_frees [OF s(2), of USER_BASE 1, OF _ _ _ refl] s(1) p
    by (auto simp: page_aligned_def)
qed

theorem copyout_copyin_witness:
  "\<exists>s s'. grown4 = Some s \<and> copyout 0x1000 USER_BASE [1, 2, 3] s = (0, s') \<and>
     copyin s' 0x1000 USER_BASE (length [1, 2, 3 :: u8]) = (0, [1, 2, 3])"
proof -
  obtain s xs where s: "grown4 = Some s" "uvm_inv s xs 0x1000 0x2000"
    "\<forall>v. user_va v \<longrightarrow> page_of v = USER_BASE \<longrightarrow> umem s 0x2000 v = Some 0" using grown4_inv by blast
  have r: "user_range USER_BASE (length [1, 2, 3 :: u8])" by (simp add: user_range_def)
  have "umem s 0x2000 (USER_BASE + of_nat i) \<noteq> None" if "i < length [1, 2, 3 :: u8]" for i
  proof -
    have "i = 0 \<or> i = 1 \<or> i = 2" using that by auto
    then show ?thesis using s(3) by (auto simp: user_va_def page_of_def)
  qed
  then show ?thesis using copyout_copyin [OF s(2) r] s(1) by auto
qed

end
