(* ===== verification/Vnode.thy ===== *)
theory Vnode
  imports Kstring
begin

text \<open>
  The vnode layer of \<^verbatim>\<open>include/vfs.h\<close> and the vnode pool of \<^verbatim>\<open>kernel/vfs.c\<close>
  (\<^verbatim>\<open>g_vnode_pool\<close>, \<^verbatim>\<open>g_vnode_used\<close>).  A \<^verbatim>\<open>struct vnode *\<close> is an index into the pool;
  the \<^verbatim>\<open>ops\<close> pointer says which file system serves the vnode and \<^verbatim>\<open>data\<close> is the index
  of that file system's own node.  The pool is an instance of \<open>slot_pool_release\<close>: the
  theorem on exhaustion says what a caller sees once all 256 vnodes are taken.
\<close>

datatype vnode_type = VNODE_NONE | VNODE_FILE | VNODE_DIR

fun vnode_type_num :: "vnode_type \<Rightarrow> u8" where
  "vnode_type_num VNODE_NONE = 0"
| "vnode_type_num VNODE_FILE = 1"
| "vnode_type_num VNODE_DIR = 2"

datatype fs_ops = RAMFS_OPS | FAT32_OPS

record vnode =
  vn_type :: vnode_type
  vn_ops :: "fs_ops option"
  vn_data :: nat
  vn_parent :: "nat option"
  vn_name :: cstr
  vn_refcnt :: u32

definition zero_vnode :: vnode where
  "zero_vnode = \<lparr>vn_type = VNODE_NONE, vn_ops = None, vn_data = 0, vn_parent = None,
     vn_name = [], vn_refcnt = 0\<rparr>"

record vfs_dirent =
  d_name :: cstr
  d_type :: u8
  d_ino :: u64

text \<open>The members of \<^verbatim>\<open>struct vfs_stat\<close> some operation sets; the others stay zero.\<close>

record vfs_stat =
  st_dev :: u64
  st_ino :: u64
  st_mode :: u32
  st_nlink :: u32
  st_size :: u64

definition zero_stat :: vfs_stat where
  "zero_stat = \<lparr>st_dev = 0, st_ino = 0, st_mode = 0, st_nlink = 0, st_size = 0\<rparr>"

record vn_state =
  g_vnode_pool :: "nat \<Rightarrow> vnode"
  g_vnode_used :: "nat \<Rightarrow> bool"

abbreviation VNODE_POOL_SIZE :: nat where "VNODE_POOL_SIZE \<equiv> 256"

text \<open>The first clear flag of a static table of \<open>n\<close> elements.\<close>

definition first_unused :: "(nat \<Rightarrow> bool) \<Rightarrow> nat \<Rightarrow> nat option" where
  "first_unused used n = first_free (map used [0..<n])"

definition vfs_alloc_vnode :: "'a vn_state_scheme \<Rightarrow> nat option \<times> 'a vn_state_scheme" where
  "vfs_alloc_vnode s =
     (case first_unused (g_vnode_used s) VNODE_POOL_SIZE of
        None \<Rightarrow> (None, s)
      | Some i \<Rightarrow> (Some i, s\<lparr>g_vnode_used := (g_vnode_used s)(i := True),
                       g_vnode_pool := (g_vnode_pool s)(i := zero_vnode\<lparr>vn_refcnt := 1\<rparr>)\<rparr>))"

text \<open>A pointer outside the pool is left alone.\<close>

definition vfs_free_vnode :: "nat option \<Rightarrow> 'a vn_state_scheme \<Rightarrow> 'a vn_state_scheme" where
  "vfs_free_vnode vn s =
     (case vn of
        None \<Rightarrow> s
      | Some i \<Rightarrow> if i < VNODE_POOL_SIZE then s\<lparr>g_vnode_used := (g_vnode_used s)(i := False)\<rparr> else s)"

text \<open>Assignments to members of one vnode.\<close>

definition upd_vnode :: "nat \<Rightarrow> (vnode \<Rightarrow> vnode) \<Rightarrow> 'a vn_state_scheme \<Rightarrow> 'a vn_state_scheme" where
  "upd_vnode i f s = s\<lparr>g_vnode_pool := (g_vnode_pool s)(i := f (g_vnode_pool s i))\<rparr>"

section \<open>Static tables\<close>

lemma first_unused_Some:
  "first_unused used n = Some i \<Longrightarrow> i < n \<and> \<not> used i \<and> (\<forall>j<i. used j)"
  unfolding first_unused_def using first_free_Some [of "map used [0..<n]" i] by auto

lemma first_unused_None: "first_unused used n = None \<longleftrightarrow> (\<forall>i<n. used i)"
  unfolding first_unused_def first_free_None by simp

lemma first_unused_exists: "i < n \<Longrightarrow> \<not> used i \<Longrightarrow> \<exists>j. first_unused used n = Some j \<and> j \<le> i"
proof -
  assume i: "i < n" "\<not> used i"
  then obtain j where "first_unused used n = Some j"
    using first_unused_None [of used n] by (cases "first_unused used n") auto
  then show ?thesis using first_unused_Some [of used n j] i by (meson not_le)
qed

lemma upd_vnode_simps [simp]:
  "g_vnode_used (upd_vnode i f s) = g_vnode_used s"
  "g_vnode_pool (upd_vnode i f s) = (g_vnode_pool s)(i := f (g_vnode_pool s i))"
  "vn_state.more (upd_vnode i f s) = vn_state.more s"
  by (simp_all add: upd_vnode_def)

interpretation vp: slot_pool_release "\<lambda>_ :: 'a vn_state_scheme. True" g_vnode_used VNODE_POOL_SIZE
    vfs_alloc_vnode "\<lambda>i. vfs_free_vnode (Some i)"
proof (unfold_locales, goal_cases)
  case (1 s i s')
  then show ?case
    using first_unused_Some [of "g_vnode_used s" VNODE_POOL_SIZE i]
    by (auto simp: vfs_alloc_vnode_def split: option.splits)
next
  case (2 s s')
  then show ?case
    by (auto simp: vfs_alloc_vnode_def first_unused_None split: option.splits)
next
  case (3 s i)
  then show ?case by (simp add: vfs_free_vnode_def)
qed

lemma alloc_vnode_cases:
  obtains (full) "vfs_alloc_vnode s = (None, s)" "\<forall>i<VNODE_POOL_SIZE. g_vnode_used s i"
  | (slot) i where "i < VNODE_POOL_SIZE" "\<not> g_vnode_used s i"
      "vfs_alloc_vnode s = (Some i, s\<lparr>g_vnode_used := (g_vnode_used s)(i := True),
         g_vnode_pool := (g_vnode_pool s)(i := zero_vnode\<lparr>vn_refcnt := 1\<rparr>)\<rparr>)"
proof (cases "first_unused (g_vnode_used s) VNODE_POOL_SIZE")
  case None
  then show ?thesis using full first_unused_None [THEN iffD1, OF None] by (simp add: vfs_alloc_vnode_def)
next
  case (Some i)
  then show ?thesis
    using slot [of i] first_unused_Some [OF Some] by (simp add: vfs_alloc_vnode_def)
qed

end
