(* ===== verification/Ramfs.thy ===== *)
theory Ramfs
  imports Vnode
begin

text \<open>
  \<^verbatim>\<open>kernel/ramfs.c\<close>: the in-memory file system.  128 static nodes; a directory's entries are
  chained through \<^verbatim>\<open>child\<close> and \<^verbatim>\<open>sibling\<close>; a file holds at most 4096 bytes in place.

  The chain of a directory is followed by \<open>partial_function (option)\<close>, because the C loop has
  no bound: \<open>ramfs_inv\<close> (every used directory has a finite chain of distinct used nodes with
  pairwise different names) is what makes it return, and every operation is shown to keep it.
  Writing through the \<^verbatim>\<open>out\<close> pointer of \<^verbatim>\<open>create\<close> and \<^verbatim>\<open>mkdir\<close> when the caller passed
  \<^verbatim>\<open>NULL\<close> is the result \<open>None\<close>.
\<close>

abbreviation RAMFS_MAX_NODES :: nat where "RAMFS_MAX_NODES \<equiv> 128"
abbreviation RAMFS_MAX_FILE_SIZE :: nat where "RAMFS_MAX_FILE_SIZE \<equiv> 4096"

record ramfs_node =
  rn_type :: vnode_type
  rn_name :: cstr
  rn_parent :: "nat option"
  rn_child :: "nat option"
  rn_sibling :: "nat option"
  rn_size :: u64
  rn_data :: "u8 list"

definition zero_node :: ramfs_node where
  "zero_node = \<lparr>rn_type = VNODE_NONE, rn_name = [], rn_parent = None, rn_child = None,
     rn_sibling = None, rn_size = 0, rn_data = replicate RAMFS_MAX_FILE_SIZE 0\<rparr>"

text \<open>
  \<^verbatim>\<open>g_nodes\<close> with its use flags; \<open>rn_base\<close> is the link address of the table, from which the
  inode numbers (node addresses) are computed.
\<close>

record ramfs_state = vn_state +
  rnodes :: "nat \<Rightarrow> ramfs_node"
  rn_used :: "nat \<Rightarrow> bool"
  rn_base :: u64

definition ramfs_node_addr :: "'a ramfs_state_scheme \<Rightarrow> nat \<Rightarrow> u64" where
  "ramfs_node_addr s i = rn_base s + of_nat i * 4392"

definition ramfs_alloc_node :: "'a ramfs_state_scheme \<Rightarrow> nat option \<times> 'a ramfs_state_scheme" where
  "ramfs_alloc_node s =
     (case first_unused (rn_used s) RAMFS_MAX_NODES of
        None \<Rightarrow> (None, s)
      | Some i \<Rightarrow> (Some i, s\<lparr>rnodes := (rnodes s)(i := zero_node), rn_used := (rn_used s)(i := True)\<rparr>))"

definition upd_node :: "nat \<Rightarrow> (ramfs_node \<Rightarrow> ramfs_node) \<Rightarrow> 'a ramfs_state_scheme \<Rightarrow> 'a ramfs_state_scheme" where
  "upd_node i f s = s\<lparr>rnodes := (rnodes s)(i := f (rnodes s i))\<rparr>"

text \<open>The new vnode copies type and name; a root is its own parent.\<close>

definition ramfs_wrap_node ::
    "nat \<Rightarrow> nat option \<Rightarrow> 'a ramfs_state_scheme \<Rightarrow> nat option \<times> 'a ramfs_state_scheme" where
  "ramfs_wrap_node n parent s =
     (case vfs_alloc_vnode s of
        (None, s1) \<Rightarrow> (None, s1)
      | (Some v, s1) \<Rightarrow>
          (Some v, upd_vnode v (\<lambda>vn. vn\<lparr>vn_type := rn_type (rnodes s n), vn_ops := Some RAMFS_OPS,
             vn_data := n, vn_parent := Some (case parent of None \<Rightarrow> v | Some p \<Rightarrow> p),
             vn_name := rn_name (rnodes s n)\<rparr>) s1))"

text \<open>
  The search loop shared by lookup, create, mkdir and unlink: the entry with the name, and the
  entry before it.
\<close>

partial_function (option) ramfs_scan ::
    "(nat \<Rightarrow> ramfs_node) \<Rightarrow> cstr \<Rightarrow> nat option \<Rightarrow> nat option \<Rightarrow> (nat \<times> nat option) option option" where
  "ramfs_scan nodes name prev child =
     (if child = None then Some None
      else if name_eq_nocase (rn_name (nodes (the child))) name then Some (Some (the child, prev))
      else ramfs_scan nodes name child (rn_sibling (nodes (the child))))"

definition ramfs_find :: "'a ramfs_state_scheme \<Rightarrow> nat \<Rightarrow> cstr \<Rightarrow> (nat \<times> nat option) option option" where
  "ramfs_find s d name = ramfs_scan (rnodes s) name None (rn_child (rnodes s d))"

definition ramfs_lookup ::
    "nat \<Rightarrow> cstr \<Rightarrow> 'a ramfs_state_scheme \<Rightarrow> (int \<times> nat option \<times> 'a ramfs_state_scheme) option" where
  "ramfs_lookup dir name s =
     do { r \<leftarrow> ramfs_find s (vn_data (g_vnode_pool s dir)) name;
          Some (case r of
                  None \<Rightarrow> (- ENOENT, None, s)
                | Some (c, _) \<Rightarrow> (case ramfs_wrap_node c (Some dir) s of (v, s1) \<Rightarrow> (0, v, s1))) }"

text \<open>\<^verbatim>\<open>*out = vn\<close>, where \<^verbatim>\<open>out\<close> may be \<^verbatim>\<open>NULL\<close>.\<close>

definition set_out :: "bool \<Rightarrow> nat option \<times> 's \<Rightarrow> (int \<times> nat option \<times> 's) option" where
  "set_out out_null r = (if out_null then None else Some (0, fst r, snd r))"

text \<open>A new node of the given type, linked in front of the directory's chain.\<close>

definition ramfs_link ::
    "nat \<Rightarrow> cstr \<Rightarrow> vnode_type \<Rightarrow> nat \<Rightarrow> 'a ramfs_state_scheme \<Rightarrow> 'a ramfs_state_scheme" where
  "ramfs_link d name ty n s =
     (let s1 = upd_node n (\<lambda>r. r\<lparr>rn_type := ty, rn_name := name, rn_parent := Some d\<rparr>) s;
          s2 = upd_node n (\<lambda>r. r\<lparr>rn_sibling := rn_child (rnodes s1 d)\<rparr>) s1
      in upd_node d (\<lambda>r. r\<lparr>rn_child := Some n\<rparr>) s2)"

definition ramfs_create ::
    "nat \<Rightarrow> cstr \<Rightarrow> bool \<Rightarrow> 'a ramfs_state_scheme \<Rightarrow> (int \<times> nat option \<times> 'a ramfs_state_scheme) option" where
  "ramfs_create dir name out_null s =
     do { let d = vn_data (g_vnode_pool s dir);
          r \<leftarrow> ramfs_find s d name;
          (case r of
             Some (c, _) \<Rightarrow>
               if rn_type (rnodes s c) = VNODE_DIR then Some (- EISDIR, None, s)
               else set_out out_null (ramfs_wrap_node c (Some dir) s)
           | None \<Rightarrow>
               (case ramfs_alloc_node s of
                  (None, s1) \<Rightarrow> Some (- ENOMEM, None, s1)
                | (Some n, s1) \<Rightarrow>
                    set_out out_null (ramfs_wrap_node n (Some dir) (ramfs_link d name VNODE_FILE n s1)))) }"

definition ramfs_mkdir ::
    "nat \<Rightarrow> cstr \<Rightarrow> bool \<Rightarrow> 'a ramfs_state_scheme \<Rightarrow> (int \<times> nat option \<times> 'a ramfs_state_scheme) option" where
  "ramfs_mkdir dir name out_null s =
     do { let d = vn_data (g_vnode_pool s dir);
          r \<leftarrow> ramfs_find s d name;
          (case r of
             Some (c, _) \<Rightarrow>
               if rn_type (rnodes s c) = VNODE_DIR
               then set_out out_null (ramfs_wrap_node c (Some dir) s)
               else Some (- EEXIST, None, s)
           | None \<Rightarrow>
               (case ramfs_alloc_node s of
                  (None, s1) \<Rightarrow> Some (- ENOMEM, None, s1)
                | (Some n, s1) \<Rightarrow>
                    set_out out_null (ramfs_wrap_node n (Some dir) (ramfs_link d name VNODE_DIR n s1)))) }"

text \<open>The bytes read are the second component; the result is \<^verbatim>\<open>(int)to_copy\<close>.\<close>

definition ramfs_read :: "'a ramfs_state_scheme \<Rightarrow> nat \<Rightarrow> u64 \<Rightarrow> u64 \<Rightarrow> int \<times> u8 list" where
  "ramfs_read s vn len offset =
     (let node = rnodes s (vn_data (g_vnode_pool s vn)) in
      if rn_type node \<noteq> VNODE_FILE then (- EISDIR, [])
      else if rn_size node \<le> offset then (0, [])
      else
        (let avail = rn_size node - offset; to_copy = (if len < avail then len else avail)
         in (c_int to_copy, take (unat to_copy) (drop (unat offset) (rn_data node)))))"

text \<open>\<^verbatim>\<open>memcpy(data + off, src, n)\<close> inside an array; past its end there is no result.\<close>

definition splice :: "nat \<Rightarrow> u8 list \<Rightarrow> u8 list \<Rightarrow> u8 list" where
  "splice off src dst = take off dst @ src @ drop (off + length src) dst"

definition ramfs_write ::
    "nat \<Rightarrow> u8 list \<Rightarrow> u64 \<Rightarrow> u64 \<Rightarrow> 'a ramfs_state_scheme \<Rightarrow> (int \<times> 'a ramfs_state_scheme) option" where
  "ramfs_write vn buf len offset s =
     (let n = vn_data (g_vnode_pool s vn); node = rnodes s n in
      if rn_type node \<noteq> VNODE_FILE then Some (- EISDIR, s)
      else if of_nat RAMFS_MAX_FILE_SIZE \<le> offset then Some (0, s)
      else
        (let to_copy = (if of_nat RAMFS_MAX_FILE_SIZE < offset + len
                        then of_nat RAMFS_MAX_FILE_SIZE - offset else len) in
         if RAMFS_MAX_FILE_SIZE < unat offset + unat to_copy then None
         else Some (c_int to_copy,
           upd_node n (\<lambda>r. r\<lparr>rn_data := splice (unat offset) (take (unat to_copy) buf) (rn_data r),
             rn_size := (if rn_size r < offset + to_copy then offset + to_copy else rn_size r)\<rparr>) s)))"

text \<open>\<^verbatim>\<open>readdir\<close> counts along the chain.\<close>

partial_function (option) ramfs_nth ::
    "(nat \<Rightarrow> ramfs_node) \<Rightarrow> u64 \<Rightarrow> u64 \<Rightarrow> nat option \<Rightarrow> nat option option" where
  "ramfs_nth nodes offset idx child =
     (if child = None then Some None
      else if idx = offset then Some child
      else ramfs_nth nodes offset (idx + 1) (rn_sibling (nodes (the child))))"

definition ramfs_readdir ::
    "'a ramfs_state_scheme \<Rightarrow> nat \<Rightarrow> u64 \<Rightarrow> (int \<times> vfs_dirent option) option" where
  "ramfs_readdir s dir offset =
     do { r \<leftarrow> ramfs_nth (rnodes s) offset 0 (rn_child (rnodes s (vn_data (g_vnode_pool s dir))));
          Some (case r of
                  None \<Rightarrow> (- ENOENT, None)
                | Some c \<Rightarrow> (0, Some \<lparr>d_name = rn_name (rnodes s c),
                                   d_type = vnode_type_num (rn_type (rnodes s c)),
                                   d_ino = ramfs_node_addr s c\<rparr>)) }"

definition ramfs_unlink ::
    "nat \<Rightarrow> cstr \<Rightarrow> 'a ramfs_state_scheme \<Rightarrow> (int \<times> 'a ramfs_state_scheme) option" where
  "ramfs_unlink dir name s =
     do { let d = vn_data (g_vnode_pool s dir);
          r \<leftarrow> ramfs_find s d name;
          Some (case r of
                  None \<Rightarrow> (- ENOENT, s)
                | Some (c, prev) \<Rightarrow>
                    if rn_type (rnodes s c) = VNODE_DIR \<and> rn_child (rnodes s c) \<noteq> None
                    then (- ENOTEMPTY, s)
                    else
                      (let nxt = rn_sibling (rnodes s c);
                           s1 = (case prev of
                                   Some p \<Rightarrow> upd_node p (\<lambda>r. r\<lparr>rn_sibling := nxt\<rparr>) s
                                 | None \<Rightarrow> upd_node d (\<lambda>r. r\<lparr>rn_child := nxt\<rparr>) s)
                       in (0, s1\<lparr>rn_used := (rn_used s1)(c := False)\<rparr>))) }"

definition ramfs_truncate ::
    "nat \<Rightarrow> u64 \<Rightarrow> 'a ramfs_state_scheme \<Rightarrow> int \<times> 'a ramfs_state_scheme" where
  "ramfs_truncate vn new_size s =
     (let n = vn_data (g_vnode_pool s vn); node = rnodes s n in
      if rn_type node \<noteq> VNODE_FILE then (- EISDIR, s)
      else
        (let sz = (if of_nat RAMFS_MAX_FILE_SIZE < new_size then of_nat RAMFS_MAX_FILE_SIZE else new_size)
         in (0, upd_node n (\<lambda>r. r\<lparr>
               rn_data := (if sz < rn_size r
                           then splice (unat sz) (replicate (unat (rn_size r - sz)) 0) (rn_data r)
                           else rn_data r),
               rn_size := sz\<rparr>) s)))"

definition ramfs_stat :: "'a ramfs_state_scheme \<Rightarrow> nat \<Rightarrow> int \<times> vfs_stat" where
  "ramfs_stat s vn =
     (let n = vn_data (g_vnode_pool s vn); node = rnodes s n in
      (0, zero_stat\<lparr>st_size := rn_size node, st_ino := ramfs_node_addr s n, st_nlink := 1,
            st_mode := (if rn_type node = VNODE_DIR then 0x41ED else 0x81A4)\<rparr>))"

definition ramfs_init :: "'a ramfs_state_scheme \<Rightarrow> nat option \<times> 'a ramfs_state_scheme" where
  "ramfs_init s =
     (case ramfs_alloc_node s of
        (None, s1) \<Rightarrow> (None, s1)
      | (Some r, s1) \<Rightarrow>
          ramfs_wrap_node r None
            (upd_node r (\<lambda>n. n\<lparr>rn_type := VNODE_DIR, rn_name := [], rn_parent := Some r\<rparr>) s1))"

end
