(* ===== verification/Ramfs_Spec.thy ===== *)
theory Ramfs_Spec
  imports Ramfs
begin

text \<open>
  What \<^verbatim>\<open>kernel/ramfs.c\<close> promises.  A directory is the list of nodes on its sibling chain
  (\<open>dir_chain\<close>), a file is the list of its first \<open>rn_size\<close> bytes (\<open>contents\<close>); the operations
  refine the obvious ones on those, and every sequence of operations keeps \<open>ramfs_inv\<close>, which is
  what makes the chain loops return.
\<close>

section \<open>Files\<close>

definition contents :: "ramfs_node \<Rightarrow> u8 list" where
  "contents r = take (unat (rn_size r)) (rn_data r)"

definition file_ok :: "ramfs_node \<Rightarrow> bool" where
  "file_ok r \<longleftrightarrow> length (rn_data r) = 4096 \<and> unat (rn_size r) \<le> 4096 \<and>
     (\<forall>i. unat (rn_size r) \<le> i \<longrightarrow> i < 4096 \<longrightarrow> rn_data r ! i = 0)"

text \<open>The abstract file: bytes past the end read as nothing, a write past the end pads with zeros.\<close>

definition bytes_read :: "nat \<Rightarrow> nat \<Rightarrow> u8 list \<Rightarrow> u8 list" where
  "bytes_read off n c = take n (drop off c)"

definition pad_to :: "nat \<Rightarrow> u8 list \<Rightarrow> u8 list" where
  "pad_to n c = c @ replicate (n - length c) 0"

definition bytes_write :: "nat \<Rightarrow> u8 list \<Rightarrow> u8 list \<Rightarrow> u8 list" where
  "bytes_write off bs c = splice off bs (pad_to off c)"

definition bytes_truncate :: "nat \<Rightarrow> u8 list \<Rightarrow> u8 list" where
  "bytes_truncate n c = take n (pad_to n c)"

lemma length_splice: "off + length src \<le> length dst \<Longrightarrow> length (splice off src dst) = length dst"
  by (simp add: splice_def)

lemma nth_splice:
  "off + length src \<le> length dst \<Longrightarrow> i < length dst \<Longrightarrow>
     splice off src dst ! i = (if i < off then dst ! i
       else if i < off + length src then src ! (i - off) else dst ! i)"
  by (auto simp: splice_def nth_append)

lemma nth_pad_to: "i < length c \<or> i < n \<Longrightarrow> pad_to n c ! i = (if i < length c then c ! i else 0)"
  by (auto simp: pad_to_def nth_append)

lemma length_pad_to: "length (pad_to n c) = max n (length c)"
  by (simp add: pad_to_def)

lemma length_contents: "file_ok r \<Longrightarrow> length (contents r) = unat (rn_size r)"
  by (simp add: contents_def file_ok_def)

lemma bytes_write_apply:
  assumes "off + length bs \<le> n" and "length c \<le> n"
  shows "length (bytes_write off bs c) = max (length c) (off + length bs)"
    and "i < max (length c) (off + length bs) \<Longrightarrow> bytes_write off bs c ! i =
      (if i < off then if i < length c then c ! i else 0
       else if i < off + length bs then bs ! (i - off) else c ! i)"
  by (auto simp: bytes_write_def splice_def nth_append nth_pad_to length_pad_to)

lemma contents_write:
  fixes off :: u64
  assumes "file_ok r" and "unat off + length bs \<le> 4096" and "unat off < 4096"
    and k: "unat k = unat off + length bs"
    and "r' = r\<lparr>rn_data := splice (unat off) bs (rn_data r),
                rn_size := (if rn_size r < k then k else rn_size r)\<rparr>"
  shows "file_ok r'" and "contents r' = bytes_write (unat off) bs (contents r)"
proof -
  have d: "length (rn_data r) = 4096" "unat (rn_size r) \<le> 4096"
    and z: "\<And>i. unat (rn_size r) \<le> i \<Longrightarrow> i < 4096 \<Longrightarrow> rn_data r ! i = 0"
    using assms(1) by (auto simp: file_ok_def)
  have sz: "unat (rn_size r') = max (unat (rn_size r)) (unat off + length bs)"
    using k by (auto simp: assms(5) word_less_nat_alt)
  have ld: "length (rn_data r') = 4096" using d assms(2) by (simp add: assms(5) length_splice)
  have nd: "rn_data r' ! i = (if i < unat off then rn_data r ! i
       else if i < unat off + length bs then bs ! (i - unat off) else rn_data r ! i)" if "i < 4096" for i
    using that d assms(2) by (simp add: assms(5) nth_splice)
  show ok: "file_ok r'" using ld sz d assms(2) nd z by (auto simp: file_ok_def)
  show "contents r' = bytes_write (unat off) bs (contents r)"
  proof (rule nth_equalityI)
    have lc: "length (contents r) = unat (rn_size r)" by (rule length_contents [OF assms(1)])
    have le: "length (contents r) \<le> 4096" using lc d by simp
    note fw = bytes_write_apply [OF assms(2) le]
    show "length (contents r') = length (bytes_write (unat off) bs (contents r))"
      using fw(1) length_contents [OF ok] sz lc by simp
    fix i assume "i < length (contents r')"
    then have i: "i < max (unat (rn_size r)) (unat off + length bs)" using length_contents [OF ok] sz by simp
    then have i4: "i < 4096" using d assms(2) by auto
    show "contents r' ! i = bytes_write (unat off) bs (contents r) ! i"
      using fw(2) [of i] i nd [OF i4] z [OF _ i4] sz lc by (auto simp: contents_def)
  qed
qed

lemma contents_truncate:
  assumes "file_ok r" and "unat sz \<le> 4096"
    and "r' = r\<lparr>rn_data := (if sz < rn_size r
                  then splice (unat sz) (replicate (unat (rn_size r - sz)) 0) (rn_data r) else rn_data r),
                rn_size := sz\<rparr>"
  shows "file_ok r'" and "contents r' = bytes_truncate (unat sz) (contents r)"
proof -
  have d: "length (rn_data r) = 4096" "unat (rn_size r) \<le> 4096"
    and z: "\<And>i. unat (rn_size r) \<le> i \<Longrightarrow> i < 4096 \<Longrightarrow> rn_data r ! i = 0"
    using assms(1) by (auto simp: file_ok_def)
  have s: "unat (rn_size r - sz) = unat (rn_size r) - unat sz" if "sz < rn_size r"
    using that by (simp add: unat_sub)
  have ld: "length (rn_data r') = 4096"
  proof (cases "sz < rn_size r")
    case True
    then have "unat sz + unat (rn_size r - sz) \<le> 4096" using s d by (simp add: word_less_nat_alt)
    then show ?thesis using True d by (simp add: assms(3) length_splice)
  qed (use d in \<open>simp add: assms(3)\<close>)
  have nd: "rn_data r' ! i = (if i < unat sz then rn_data r ! i else 0)" if i: "i < 4096" for i
  proof (cases "sz < rn_size r")
    case True
    then have le: "unat sz + unat (rn_size r - sz) \<le> 4096" "unat sz < unat (rn_size r)"
      using s d by (simp_all add: word_less_nat_alt)
    then show ?thesis
      using i d True z [OF _ i] s [OF True] by (auto simp: assms(3) nth_splice)
  next
    case False
    then have "unat (rn_size r) \<le> unat sz" by (simp add: word_less_nat_alt)
    then show ?thesis using False z [OF _ i] by (simp add: assms(3))
  qed
  show ok: "file_ok r'" using ld nd assms(2) by (simp add: file_ok_def assms(3))
  show "contents r' = bytes_truncate (unat sz) (contents r)"
  proof (rule nth_equalityI)
    have lc: "length (contents r) = unat (rn_size r)" by (rule length_contents [OF assms(1)])
    show "length (contents r') = length (bytes_truncate (unat sz) (contents r))"
      using length_contents [OF ok] by (simp add: bytes_truncate_def length_pad_to assms(3))
    fix i assume "i < length (contents r')"
    then have i: "i < unat sz" using length_contents [OF ok] by (simp add: assms(3))
    then have i4: "i < 4096" using assms(2) by simp
    show "contents r' ! i = bytes_truncate (unat sz) (contents r) ! i"
      using i nd [OF i4] z [OF _ i4] lc
      by (auto simp: bytes_truncate_def nth_pad_to contents_def assms(3))
  qed
qed


section \<open>Directories\<close>

fun sib_chain :: "(nat \<Rightarrow> ramfs_node) \<Rightarrow> nat option \<Rightarrow> nat list \<Rightarrow> bool" where
  "sib_chain nodes c [] \<longleftrightarrow> c = None"
| "sib_chain nodes c (x # xs) \<longleftrightarrow> c = Some x \<and> sib_chain nodes (rn_sibling (nodes x)) xs"

lemma sib_chain_cong:
  "(\<And>x. x \<in> set xs \<Longrightarrow> rn_sibling (nodes x) = rn_sibling (nodes' x)) \<Longrightarrow>
     sib_chain nodes c xs = sib_chain nodes' c xs"
  by (induction xs arbitrary: c) auto

lemma sib_chain_unique: "sib_chain nodes c xs \<Longrightarrow> sib_chain nodes c ys \<Longrightarrow> xs = ys"
proof (induction xs arbitrary: c ys)
  case Nil
  then show ?case by (cases ys) auto
next
  case (Cons x xs)
  then show ?case by (cases ys) auto
qed

definition key :: "ramfs_node \<Rightarrow> u8 list" where
  "key r = map lower (rn_name r)"

definition dir_chain :: "'a ramfs_state_scheme \<Rightarrow> nat \<Rightarrow> nat list \<Rightarrow> bool" where
  "dir_chain s d cs \<longleftrightarrow> sib_chain (rnodes s) (rn_child (rnodes s d)) cs"

definition is_dir :: "'a ramfs_state_scheme \<Rightarrow> nat \<Rightarrow> bool" where
  "is_dir s d \<longleftrightarrow> d < RAMFS_MAX_NODES \<and> rn_used s d \<and> rn_type (rnodes s d) = VNODE_DIR"

definition dir_ok :: "'a ramfs_state_scheme \<Rightarrow> nat \<Rightarrow> nat list \<Rightarrow> bool" where
  "dir_ok s d cs \<longleftrightarrow> dir_chain s d cs \<and> distinct (map (\<lambda>c. key (rnodes s c)) cs) \<and>
     (\<forall>c\<in>set cs. c < RAMFS_MAX_NODES \<and> rn_used s c \<and> rn_parent (rnodes s c) = Some d \<and>
        rn_type (rnodes s c) \<noteq> VNODE_NONE)"

text \<open>Data blocks are well formed in every node, so that a fresh node needs no condition.\<close>

definition ramfs_inv :: "'a ramfs_state_scheme \<Rightarrow> bool" where
  "ramfs_inv s \<longleftrightarrow> (\<forall>d. is_dir s d \<longrightarrow> (\<exists>cs. dir_ok s d cs)) \<and> (\<forall>n. rn_used s n \<longrightarrow> file_ok (rnodes s n))"

text \<open>
  The tree of directories: \<open>child_of s d c\<close> says that directory \<open>d\<close> has the entry \<open>c\<close>.  The root is
  its own parent and an entry of no directory, and every node in use is reached from it; as a node
  is an entry of its parent only, no directory is below itself.
\<close>

definition child_of :: "'a ramfs_state_scheme \<Rightarrow> nat \<Rightarrow> nat \<Rightarrow> bool" where
  "child_of s d c \<longleftrightarrow> is_dir s d \<and> (\<exists>cs. dir_ok s d cs \<and> c \<in> set cs)"

definition ramfs_tree :: "'a ramfs_state_scheme \<Rightarrow> nat \<Rightarrow> bool" where
  "ramfs_tree s root \<longleftrightarrow> is_dir s root \<and> rn_parent (rnodes s root) = Some root \<and>
     (\<forall>d. \<not> child_of s d root) \<and> (\<forall>n. rn_used s n \<longrightarrow> (child_of s)\<^sup>*\<^sup>* root n)"

lemma dir_ok_unique: "dir_ok s d cs \<Longrightarrow> dir_ok s d cs' \<Longrightarrow> cs' = cs"
  by (auto simp: dir_ok_def dir_chain_def dest: sib_chain_unique)

lemma child_of_parent: "child_of s d c \<Longrightarrow> rn_parent (rnodes s c) = Some d \<and> rn_used s c"
  by (auto simp: child_of_def dir_ok_def)

lemma ramfs_tree_acyclic:
  assumes "ramfs_tree s root" shows "\<not> (child_of s)\<^sup>+\<^sup>+ n n"
proof
  assume c: "(child_of s)\<^sup>+\<^sup>+ n n"
  have "(child_of s)\<^sup>*\<^sup>* root m \<Longrightarrow> \<not> (child_of s)\<^sup>+\<^sup>+ m m" for m
  proof (induction rule: rtranclp_induct)
    case base
    show ?case using assms by (auto simp: ramfs_tree_def elim: tranclp.cases)
  next
    case (step m m')
    show ?case
    proof
      assume "(child_of s)\<^sup>+\<^sup>+ m' m'"
      then obtain d where d: "(child_of s)\<^sup>*\<^sup>* m' d" "child_of s d m'" by (metis rtranclp.rtrancl_refl tranclp.cases tranclp_into_rtranclp)
      then have "d = m" using child_of_parent [of s d m'] child_of_parent [OF step(2)] by simp
      then show False using d step(2,3) by (meson rtranclp_into_tranclp2)
    qed
  qed
  moreover have "rn_used s n" using c child_of_parent by (metis tranclp.cases)
  ultimately show False using assms c by (auto simp: ramfs_tree_def)
qed

lemma child_of_cong:
  "rnodes s' = rnodes s \<Longrightarrow> rn_used s' = rn_used s \<Longrightarrow> child_of s' = child_of s"
  by (intro ext) (simp add: child_of_def dir_ok_def dir_chain_def is_dir_def)

lemma ramfs_tree_cong:
  "rnodes s' = rnodes s \<Longrightarrow> rn_used s' = rn_used s \<Longrightarrow> ramfs_tree s' root = ramfs_tree s root"
  using child_of_cong [of s' s] by (simp add: ramfs_tree_def is_dir_def)

text \<open>
  Three ways the tree stays one: the chains are the same, a new entry \<open>n\<close> comes in front of the
  chain of \<open>d\<close>, or the leaf \<open>c\<close> leaves it.  Another entry of the root than before would be its own
  parent, so only the root's own chain is looked at.
\<close>

lemma no_root_child:
  assumes "rn_parent (rnodes s root) = Some root" and "dir_ok s root cs" and "root \<notin> set cs"
  shows "\<not> child_of s d root"
proof
  assume c: "child_of s d root"
  then have "d = root" using child_of_parent assms(1) by fastforce
  then show False using c assms(2,3) dir_ok_unique by (auto simp: child_of_def)
qed

lemma child_of_iff: "is_dir s d \<Longrightarrow> dir_ok s d cs \<Longrightarrow> child_of s d c \<longleftrightarrow> c \<in> set cs"
  using dir_ok_unique by (auto simp: child_of_def)

lemma ramfs_tree_link:
  assumes t: "ramfs_tree s root" and d: "is_dir s d" "dir_ok s d cs" and n: "\<not> rn_used s n"
    and inv: "\<And>e. is_dir s e \<Longrightarrow> \<exists>es. dir_ok s e es"
    and u: "rn_used s' = (rn_used s)(n := True)"
    and l: "dir_ok s' d (n # cs)" and keep: "\<And>e es. dir_ok s e es \<Longrightarrow> e \<noteq> d \<Longrightarrow> e \<noteq> n \<Longrightarrow> dir_ok s' e es"
    and same: "\<And>e. e \<noteq> n \<Longrightarrow> rn_type (rnodes s' e) = rn_type (rnodes s e) \<and> rn_parent (rnodes s' e) = rn_parent (rnodes s e)"
  shows "ramfs_tree s' root"
proof -
  have dir: "is_dir s' e \<and> e \<noteq> n" if "is_dir s e" for e using that n u same [of e] by (auto simp: is_dir_def)
  have r: "is_dir s root" "rn_parent (rnodes s root) = Some root" using t by (simp_all add: ramfs_tree_def)
  obtain rs where rs: "dir_ok s root rs" using inv [OF r(1)] by blast
  have "root \<notin> set rs" using t unfolding ramfs_tree_def child_of_iff [OF r(1) rs, symmetric] by blast
  then have no: "\<not> child_of s' e root" for e
  proof (cases "root = d")
    case True
    then have "rs = cs" using rs d(2) dir_ok_unique by blast
    then show ?thesis
      using no_root_child [of s' root "n # cs" e] l True r dir [OF r(1)] same [of root] \<open>root \<notin> set rs\<close> by simp
  next
    case False
    then show ?thesis
      using no_root_child [of s' root rs e] keep [OF rs False] r dir [OF r(1)] same [of root] \<open>root \<notin> set rs\<close> by simp
  qed
  have mono: "child_of s' a b" if "child_of s a b" for a b
  proof -
    obtain as where as: "is_dir s a" "dir_ok s a as" "b \<in> set as" using \<open>child_of s a b\<close> by (auto simp: child_of_def)
    show ?thesis
    proof (cases "a = d")
      case True
      then have "as = cs" using as(2) d(2) dir_ok_unique by blast
      then show ?thesis using l as dir [of a] True by (auto simp: child_of_def)
    next
      case False
      then show ?thesis using keep [OF as(2)] as(1,3) dir [of a] by (auto simp: child_of_def)
    qed
  qed
  have path: "(child_of s')\<^sup>*\<^sup>* root m" if "rn_used s m" for m
    using t that rtranclp_mono [of "child_of s" "child_of s'"] mono unfolding ramfs_tree_def by blast
  have dn: "child_of s' d n" using l dir [OF d(1)] by (auto simp: child_of_def)
  have "rn_used s d" using d(1) by (simp add: is_dir_def)
  then have "(child_of s')\<^sup>*\<^sup>* root n" using path dn by (meson rtranclp.rtrancl_into_rtrancl)
  then show ?thesis
    using no path u dir [OF r(1)] r(2) same [of root] by (auto simp: ramfs_tree_def)
qed

lemma ramfs_tree_unlink:
  assumes t: "ramfs_tree s root" and d: "is_dir s d" "dir_ok s d cs" and c: "c \<in> set cs"
    and leaf: "rn_type (rnodes s c) \<noteq> VNODE_DIR \<or> rn_child (rnodes s c) = None"
    and inv: "\<And>e. is_dir s e \<Longrightarrow> \<exists>es. dir_ok s e es"
    and u: "rn_used s' = (rn_used s)(c := False)"
    and l: "dir_ok s' d cs'" "set cs' = set cs - {c}"
    and keep: "\<And>e es. dir_ok s e es \<Longrightarrow> e \<noteq> d \<Longrightarrow> e \<noteq> c \<Longrightarrow> dir_ok s' e es"
    and same: "\<And>e. rn_type (rnodes s' e) = rn_type (rnodes s e) \<and> rn_parent (rnodes s' e) = rn_parent (rnodes s e)"
  shows "ramfs_tree s' root"
proof -
  have r: "is_dir s root" "rn_parent (rnodes s root) = Some root" using t by (simp_all add: ramfs_tree_def)
  have dc: "child_of s d c" using c d by (auto simp: child_of_def)
  then have rc: "root \<noteq> c" using t by (auto simp: ramfs_tree_def)
  have dir: "is_dir s' e" if "is_dir s e" "e \<noteq> c" for e using that u same [of e] by (simp add: is_dir_def)
  have none: "\<not> child_of s c e" for e
  proof
    assume "child_of s c e"
    then obtain es where "is_dir s c" "dir_ok s c es" "e \<in> set es" by (auto simp: child_of_def)
    then show False using leaf by (cases es) (auto simp: is_dir_def dir_ok_def dir_chain_def)
  qed
  obtain rs where rs: "dir_ok s root rs" using inv [OF r(1)] by blast
  have nr: "root \<notin> set rs" using t unfolding ramfs_tree_def child_of_iff [OF r(1) rs, symmetric] by blast
  have no: "\<not> child_of s' e root" for e
  proof (cases "root = d")
    case True
    then have "rs = cs" using rs d(2) dir_ok_unique by blast
    then show ?thesis using no_root_child [of s' root cs' e] l True r same [of root] nr by simp
  next
    case False
    then show ?thesis using no_root_child [of s' root rs e] keep [OF rs False rc] r same [of root] nr by simp
  qed
  have mono: "child_of s' a b" if "child_of s a b" "b \<noteq> c" for a b
  proof -
    obtain as where as: "is_dir s a" "dir_ok s a as" "b \<in> set as" using \<open>child_of s a b\<close> by (auto simp: child_of_def)
    have ac: "a \<noteq> c" using that(1) none by blast
    show ?thesis
    proof (cases "a = d")
      case True
      then have "as = cs" using as(2) d(2) dir_ok_unique by blast
      then show ?thesis using l as dir [of a] True ac that(2) by (auto simp: child_of_def)
    next
      case False
      then show ?thesis using keep [OF as(2) False ac] as(1,3) dir [of a] ac by (auto simp: child_of_def)
    qed
  qed
  have "(child_of s)\<^sup>*\<^sup>* root m \<Longrightarrow> m \<noteq> c \<longrightarrow> (child_of s')\<^sup>*\<^sup>* root m" for m
  proof (induction rule: rtranclp_induct)
    case (step a b)
    then have "a \<noteq> c" using none by blast
    then show ?case using step mono by (meson rtranclp.rtrancl_into_rtrancl)
  qed simp
  then show ?thesis
    using t no u dir [OF r(1) rc] r(2) same [of root] by (auto simp: ramfs_tree_def)
qed

lemma ramfs_tree_same:
  assumes t: "ramfs_tree s root" and u: "rn_used s' = rn_used s"
    and same: "\<And>e. rn_type (rnodes s' e) = rn_type (rnodes s e) \<and> rn_parent (rnodes s' e) = rn_parent (rnodes s e)"
    and keep: "\<And>e es. dir_ok s e es = dir_ok s' e es"
  shows "ramfs_tree s' root"
proof -
  have "child_of s' = child_of s" using same by (simp add: child_of_def is_dir_def u keep fun_eq_iff)
  then show ?thesis using t same by (simp add: ramfs_tree_def is_dir_def u)
qed

text \<open>What the scan of a well-formed chain returns.\<close>

fun list_find :: "(nat \<Rightarrow> ramfs_node) \<Rightarrow> cstr \<Rightarrow> nat option \<Rightarrow> nat list \<Rightarrow> (nat \<times> nat option) option" where
  "list_find nodes name prev [] = None"
| "list_find nodes name prev (c # cs) =
     (if name_eq_nocase (rn_name (nodes c)) name then Some (c, prev) else list_find nodes name (Some c) cs)"

lemma ramfs_scan_chain:
  "sib_chain nodes c cs \<Longrightarrow> ramfs_scan nodes name prev c = Some (list_find nodes name prev cs)"
  by (induction cs arbitrary: c prev) (auto simp: ramfs_scan.simps)

lemma ramfs_nth_chain:
  "sib_chain nodes c cs \<Longrightarrow> unat idx + length cs < 2 ^ 64 \<Longrightarrow> idx \<le> offset \<Longrightarrow>
     ramfs_nth nodes offset idx c =
       Some (if unat offset - unat idx < length cs then Some (cs ! (unat offset - unat idx)) else None)"
proof (induction cs arbitrary: c idx)
  case Nil
  then show ?case by (simp add: ramfs_nth.simps)
next
  case (Cons x xs)
  show ?case
  proof (cases "idx = offset")
    case True
    then show ?thesis using Cons.prems by (simp add: ramfs_nth.simps)
  next
    case False
    have up: "unat (idx + 1) = unat idx + 1" using Cons.prems(2) by (simp add: unat_plus_if')
    have lt: "unat idx < unat offset"
      using False Cons.prems(3) by (simp add: word_le_nat_alt word_unat_eq_iff)
    then have "idx + 1 \<le> offset" using up by (simp add: word_le_nat_alt)
    moreover have "unat offset - unat idx = Suc (unat offset - unat (idx + 1))" using lt up by simp
    moreover have "ramfs_nth nodes offset idx c = ramfs_nth nodes offset (idx + 1) (rn_sibling (nodes x))"
      using Cons.prems(1) False by (subst ramfs_nth.simps) simp
    ultimately show ?thesis
      using Cons.IH [of "rn_sibling (nodes x)" "idx + 1"] Cons.prems up by simp
  qed
qed

lemma list_find_None: "list_find nodes name prev cs = None \<longleftrightarrow> (\<forall>c\<in>set cs. key (nodes c) \<noteq> map lower name)"
  by (induction cs arbitrary: prev) (auto simp: name_eq_nocase_iff key_def)

lemma list_find_Some:
  "list_find nodes name prev cs = Some (c, q) \<Longrightarrow>
     \<exists>xs ys. cs = xs @ c # ys \<and> key (nodes c) = map lower name \<and>
       q = (if xs = [] then prev else Some (last xs)) \<and> (\<forall>x\<in>set xs. key (nodes x) \<noteq> map lower name)"
proof (induction cs arbitrary: prev)
  case (Cons x cs)
  show ?case
  proof (cases "name_eq_nocase (rn_name (nodes x)) name")
    case True
    then show ?thesis using Cons.prems by (intro exI [of _ "[]"] exI [of _ cs]) (auto simp: name_eq_nocase_iff key_def)
  next
    case False
    then have "list_find nodes name (Some x) cs = Some (c, q)" using Cons.prems by simp
    from Cons.IH [OF this] obtain xs ys where "cs = xs @ c # ys" "key (nodes c) = map lower name"
      "q = (if xs = [] then Some x else Some (last xs))" "\<forall>x\<in>set xs. key (nodes x) \<noteq> map lower name"
      by blast
    then show ?thesis using False
      by (intro exI [of _ "x # xs"] exI [of _ ys]) (auto simp: name_eq_nocase_iff key_def)
  qed
qed simp

lemma list_find_key:
  assumes "c \<in> set cs" and "key (nodes c) = map lower name" and "distinct (map (\<lambda>c. key (nodes c)) cs)"
  shows "\<exists>q. list_find nodes name prev cs = Some (c, q)"
proof (cases "list_find nodes name prev cs")
  case None
  then show ?thesis using assms(1,2) list_find_None [of nodes name prev cs] by blast
next
  case (Some r)
  obtain c' q where r: "r = (c', q)" by fastforce
  obtain xs ys where x: "cs = xs @ c' # ys" "key (nodes c') = map lower name"
    using list_find_Some [of nodes name prev cs c' q] Some r by blast
  have "c' \<in> set cs" using x(1) by simp
  then have "c' = c" using assms x(2) by (metis (mono_tags, lifting) distinct_map inj_on_def)
  then show ?thesis using Some r by simp
qed

lemma ramfs_find_ok:
  "dir_ok s d cs \<Longrightarrow> ramfs_find s d name = Some (list_find (rnodes s) name None cs)"
  by (simp add: ramfs_find_def dir_ok_def dir_chain_def ramfs_scan_chain)


section \<open>What the operations do to directories\<close>

lemma rn_parts [simp]:
  "rnodes (upd_vnode i f s) = rnodes s" "rn_used (upd_vnode i f s) = rn_used s"
  "rn_base (upd_vnode i f s) = rn_base s"
  "rnodes (upd_node n g s) = (rnodes s)(n := g (rnodes s n))" "rn_used (upd_node n g s) = rn_used s"
  "g_vnode_pool (upd_node n g s) = g_vnode_pool s" "g_vnode_used (upd_node n g s) = g_vnode_used s"
  by (simp_all add: upd_vnode_def upd_node_def)

lemma wrap_parts:
  assumes "ramfs_wrap_node n p s = (v, s')"
  shows "rnodes s' = rnodes s" and "rn_used s' = rn_used s"
    and "v = Some i \<Longrightarrow> i < VNODE_POOL_SIZE \<and> \<not> g_vnode_used s i \<and> vn_data (g_vnode_pool s' i) = n \<and>
      vn_type (g_vnode_pool s' i) = rn_type (rnodes s n) \<and> vn_ops (g_vnode_pool s' i) = Some RAMFS_OPS"
    and "v = None \<Longrightarrow> s' = s \<and> (\<forall>i<VNODE_POOL_SIZE. g_vnode_used s i)"
  using assms by (cases s rule: alloc_vnode_cases; auto simp: ramfs_wrap_node_def upd_node_def)+

lemma ramfs_inv_cong:
  "rnodes s' = rnodes s \<Longrightarrow> rn_used s' = rn_used s \<Longrightarrow> ramfs_inv s' = ramfs_inv s"
  by (simp add: ramfs_inv_def dir_ok_def dir_chain_def is_dir_def)

lemma dir_ok_cong:
  "rnodes s' = rnodes s \<Longrightarrow> rn_used s' = rn_used s \<Longrightarrow> dir_ok s' d cs = dir_ok s d cs"
  by (simp add: dir_ok_def dir_chain_def)

lemma dir_ok_frame:
  assumes "dir_ok s d cs" and "rn_child (rnodes s' d) = rn_child (rnodes s d)"
    and "\<And>c. c \<in> set cs \<Longrightarrow> rn_used s' c \<and> rn_sibling (rnodes s' c) = rn_sibling (rnodes s c) \<and>
      rn_name (rnodes s' c) = rn_name (rnodes s c) \<and> rn_parent (rnodes s' c) = rn_parent (rnodes s c) \<and>
      rn_type (rnodes s' c) = rn_type (rnodes s c)"
  shows "dir_ok s' d cs"
proof -
  have keys: "map (\<lambda>c. key (rnodes s' c)) cs = map (\<lambda>c. key (rnodes s c)) cs"
    using assms(3) by (simp add: key_def)
  have "dir_chain s' d cs"
    using assms sib_chain_cong [of cs "rnodes s'" "rnodes s" "rn_child (rnodes s' d)"]
    by (simp add: dir_ok_def dir_chain_def)
  then show ?thesis unfolding dir_ok_def keys using assms(1,3) by (auto simp: dir_ok_def)
qed

text \<open>Changing only the data of files.\<close>

lemma ramfs_inv_data:
  assumes "ramfs_inv s" and "file_ok r'" and "rn_child r' = rn_child (rnodes s n)"
    and "rn_sibling r' = rn_sibling (rnodes s n)" and "rn_name r' = rn_name (rnodes s n)"
    and "rn_parent r' = rn_parent (rnodes s n)" and "rn_type r' = rn_type (rnodes s n)"
    and "rnodes s' = (rnodes s)(n := r')" and "rn_used s' = rn_used s"
  shows "ramfs_inv s'"
  unfolding ramfs_inv_def
proof (intro conjI allI impI)
  fix d assume "is_dir s' d"
  then have "is_dir s d" using assms by (auto simp: is_dir_def split: if_splits)
  then obtain cs where cs: "dir_ok s d cs" using assms(1) by (auto simp: ramfs_inv_def)
  have "dir_ok s' d cs"
    by (rule dir_ok_frame [OF cs]) (use assms cs in \<open>auto simp: dir_ok_def\<close>)
  then show "\<exists>cs. dir_ok s' d cs" by blast
next
  fix m assume "rn_used s' m"
  then show "file_ok (rnodes s' m)" using assms by (auto simp: ramfs_inv_def)
qed

text \<open>A node not in use may hold anything: only its data changes, and no chain goes through it.\<close>

lemma ramfs_data_unused:
  assumes "\<not> rn_used s n" and "rn_child r' = rn_child (rnodes s n)"
    and "rn_sibling r' = rn_sibling (rnodes s n)" and "rn_name r' = rn_name (rnodes s n)"
    and "rn_parent r' = rn_parent (rnodes s n)" and "rn_type r' = rn_type (rnodes s n)"
    and "rnodes s' = (rnodes s)(n := r')" and "rn_used s' = rn_used s" and "ramfs_inv s"
  shows "ramfs_inv s'"
  unfolding ramfs_inv_def
proof (intro conjI allI impI)
  fix d assume "is_dir s' d"
  then have "is_dir s d" using assms by (auto simp: is_dir_def split: if_splits)
  then obtain cs where cs: "dir_ok s d cs" using assms(9) by (auto simp: ramfs_inv_def)
  have "dir_ok s' d cs"
    by (rule dir_ok_frame [OF cs]) (use assms cs in \<open>auto simp: dir_ok_def\<close>)
  then show "\<exists>cs. dir_ok s' d cs" by blast
next
  fix m assume "rn_used s' m"
  then show "file_ok (rnodes s' m)" using assms by (auto simp: ramfs_inv_def)
qed

lemma ramfs_tree_data:
  assumes "ramfs_tree s root" and "rn_child r' = rn_child (rnodes s n)"
    and "rn_sibling r' = rn_sibling (rnodes s n)" and "rn_name r' = rn_name (rnodes s n)"
    and "rn_parent r' = rn_parent (rnodes s n)" and "rn_type r' = rn_type (rnodes s n)"
    and "rnodes s' = (rnodes s)(n := r')" and "rn_used s' = rn_used s"
  shows "ramfs_tree s' root"
proof (rule ramfs_tree_same [OF assms(1,8)])
  fix e es
  show "rn_type (rnodes s' e) = rn_type (rnodes s e) \<and> rn_parent (rnodes s' e) = rn_parent (rnodes s e)"
    using assms by simp
  show "dir_ok s e es = dir_ok s' e es"
  proof
    assume a: "dir_ok s e es"
    show "dir_ok s' e es" by (rule dir_ok_frame [OF a]) (use assms a in \<open>auto simp: dir_ok_def\<close>)
  next
    assume a: "dir_ok s' e es"
    show "dir_ok s e es" by (rule dir_ok_frame [OF a]) (use assms a in \<open>auto simp: dir_ok_def split: if_splits\<close>)
  qed
qed

lemma ramfs_alloc_node_cases:
  obtains (full) "ramfs_alloc_node s = (None, s)" "\<forall>i<RAMFS_MAX_NODES. rn_used s i"
  | (slot) n s1 where "ramfs_alloc_node s = (Some n, s1)" "n < RAMFS_MAX_NODES" "\<not> rn_used s n"
      "rnodes s1 = (rnodes s)(n := zero_node)" "rn_used s1 = (rn_used s)(n := True)"
      "g_vnode_pool s1 = g_vnode_pool s" "g_vnode_used s1 = g_vnode_used s"
proof (cases "first_unused (rn_used s) RAMFS_MAX_NODES")
  case None
  then show ?thesis
    using full first_unused_None [THEN iffD1, OF None] by (simp add: ramfs_alloc_node_def)
next
  case (Some n)
  then show ?thesis
    using slot [of n] first_unused_Some [OF Some] by (simp add: ramfs_alloc_node_def)
qed

interpretation rn: slot_pool "\<lambda>_ :: 'a ramfs_state_scheme. True" rn_used RAMFS_MAX_NODES ramfs_alloc_node
proof (unfold_locales, goal_cases)
  case (1 s i s')
  then show ?case
    using first_unused_Some [of "rn_used s" RAMFS_MAX_NODES i]
    by (auto simp: ramfs_alloc_node_def split: option.splits)
next
  case (2 s s')
  then show ?case
    by (cases s rule: ramfs_alloc_node_cases) auto
qed

text \<open>Linking a fresh node under a name the directory does not have.\<close>

lemma ramfs_link_ok:
  assumes inv: "ramfs_inv s" and d: "is_dir s d" and cs: "dir_ok s d cs"
    and new: "\<forall>c\<in>set cs. key (rnodes s c) \<noteq> map lower name" and ty: "ty \<noteq> VNODE_NONE"
    and n: "n < RAMFS_MAX_NODES" "\<not> rn_used s n"
    and s1: "rnodes s1 = (rnodes s)(n := zero_node)" "rn_used s1 = (rn_used s)(n := True)"
    and s': "s' = ramfs_link d name ty n s1"
  shows "ramfs_inv s'" and "dir_ok s' d (n # cs)" and "rn_name (rnodes s' n) = name"
    and "rn_type (rnodes s' n) = ty" and "rn_used s' n"
    and "\<And>c. c \<noteq> n \<Longrightarrow> c \<noteq> d \<Longrightarrow> rnodes s' c = rnodes s c"
    and "\<And>c. c \<noteq> n \<Longrightarrow> rn_name (rnodes s' c) = rn_name (rnodes s c)"
    and "rn_size (rnodes s' n) = 0"
    and "ramfs_tree s root \<Longrightarrow> ramfs_tree s' root"
proof -
  have dn: "d \<noteq> n" using d n by (auto simp: is_dir_def)
  have un: "n \<notin> set xs" if "dir_ok s e xs" for e xs using that n by (auto simp: dir_ok_def)
  have u: "rn_used s' = (rn_used s)(n := True)" by (simp add: s' s1 ramfs_link_def Let_def)
  have rn: "rnodes s' n = zero_node\<lparr>rn_type := ty, rn_name := name, rn_parent := Some d,
      rn_sibling := rn_child (rnodes s d)\<rparr>"
    and rd: "rnodes s' d = (rnodes s d)\<lparr>rn_child := Some n\<rparr>"
    and ro: "\<And>c. c \<noteq> n \<Longrightarrow> c \<noteq> d \<Longrightarrow> rnodes s' c = rnodes s c"
    using dn by (simp_all add: s' s1 ramfs_link_def Let_def)
  show "rn_name (rnodes s' n) = name" "rn_type (rnodes s' n) = ty" "rn_used s' n" "rn_size (rnodes s' n) = 0"
    by (simp_all add: rn u zero_node_def)
  show "\<And>c. c \<noteq> n \<Longrightarrow> c \<noteq> d \<Longrightarrow> rnodes s' c = rnodes s c" by (rule ro)
  have same: "rn_sibling (rnodes s' c) = rn_sibling (rnodes s c)" "rn_name (rnodes s' c) = rn_name (rnodes s c)"
    "rn_parent (rnodes s' c) = rn_parent (rnodes s c)" "rn_type (rnodes s' c) = rn_type (rnodes s c)"
    if "c \<noteq> n" for c using that rd ro [of c] by (cases "c = d"; simp)+
  show "\<And>c. c \<noteq> n \<Longrightarrow> rn_name (rnodes s' c) = rn_name (rnodes s c)" by (rule same(2))
  have chain: "sib_chain (rnodes s') (rn_child (rnodes s d)) cs"
    using cs sib_chain_cong [of cs "rnodes s'" "rnodes s" "rn_child (rnodes s d)"] un [OF cs] same(1)
    by (metis dir_chain_def dir_ok_def)
  have keys: "key (rnodes s' c) = key (rnodes s c)" if "c \<in> set cs" for c
  proof -
    have "c \<noteq> n" using un [OF cs] that by blast
    then show ?thesis using same(2) [of c] by (simp add: key_def)
  qed
  then have ks: "map (\<lambda>c. key (rnodes s' c)) cs = map (\<lambda>c. key (rnodes s c)) cs" by simp
  have mem: "c < RAMFS_MAX_NODES \<and> rn_used s' c \<and> rn_parent (rnodes s' c) = Some d \<and>
      rn_type (rnodes s' c) \<noteq> VNODE_NONE" if "c \<in> set cs" for c
    using cs un [OF cs] that same [of c] u by (auto simp: dir_ok_def)
  have "key (rnodes s' n) = map lower name" by (simp add: rn key_def)
  then have "distinct (map (\<lambda>c. key (rnodes s' c)) (n # cs))"
    unfolding list.map distinct.simps ks using cs new by (auto simp: dir_ok_def)
  moreover have "dir_chain s' d (n # cs)" using chain by (simp add: dir_chain_def rd rn)
  ultimately show link: "dir_ok s' d (n # cs)"
    using mem n(1) u rn ty by (simp add: dir_ok_def)
  have keep: "dir_ok s' e xs" if xs: "dir_ok s e xs" and "e \<noteq> d" "e \<noteq> n" for e xs
  proof (rule dir_ok_frame [OF xs])
    fix c assume "c \<in> set xs"
    then have "c \<noteq> n" "rn_used s c" using un [OF xs] xs by (auto simp: dir_ok_def)
    then show "rn_used s' c \<and> rn_sibling (rnodes s' c) = rn_sibling (rnodes s c) \<and>
        rn_name (rnodes s' c) = rn_name (rnodes s c) \<and> rn_parent (rnodes s' c) = rn_parent (rnodes s c) \<and>
        rn_type (rnodes s' c) = rn_type (rnodes s c)"
      using same [of c] u by simp
  qed (use ro [of e] that(2,3) in simp)
  show "ramfs_tree s' root" if "ramfs_tree s root"
    by (rule ramfs_tree_link [OF that d cs n(2) _ u link keep]) (use inv same in \<open>auto simp: ramfs_inv_def\<close>)
  show "ramfs_inv s'"
    unfolding ramfs_inv_def
  proof (intro conjI allI impI)
    fix e assume e: "is_dir s' e"
    consider "e = d" | "e = n" | "e \<noteq> d" "e \<noteq> n" by blast
    then show "\<exists>cs. dir_ok s' e cs"
    proof cases
      case 2
      then have "dir_ok s' e []" by (simp add: dir_ok_def dir_chain_def rn zero_node_def)
      then show ?thesis by blast
    next
      case 3
      then have "is_dir s e" using e u ro [of e] by (simp add: is_dir_def)
      then obtain xs where xs: "dir_ok s e xs" using inv by (auto simp: ramfs_inv_def)
      have "dir_ok s' e xs" by (rule keep [OF xs 3])
      then show ?thesis by blast
    qed (use link in blast)
  next
    fix m assume m: "rn_used s' m"
    have zf: "file_ok zero_node" by (simp add: file_ok_def zero_node_def)
    consider "m = n" | "m = d" | "m \<noteq> n" "m \<noteq> d" by blast
    then show "file_ok (rnodes s' m)"
    proof cases
      case 1
      then show ?thesis using zf by (simp add: rn file_ok_def)
    next
      case 2
      then show ?thesis using inv d by (auto simp: rd ramfs_inv_def file_ok_def is_dir_def)
    next
      case 3
      then show ?thesis using inv m u ro [of m] by (auto simp: ramfs_inv_def)
    qed
  qed
qed


text \<open>Taking a node out of its directory's chain.\<close>

lemma sib_chain_remove_head:
  "sib_chain nodes c (x # xs) \<Longrightarrow> sib_chain nodes (rn_sibling (nodes x)) xs"
  by simp

lemma sib_chain_remove:
  assumes "sib_chain nodes c (xs @ p # x # ys)" and "p \<notin> set xs" and "p \<noteq> x" and "p \<notin> set ys"
    and "x \<notin> set ys"
  shows "sib_chain (nodes(p := (nodes p)\<lparr>rn_sibling := rn_sibling (nodes x)\<rparr>)) c (xs @ p # ys)"
  using assms
proof (induction xs arbitrary: c)
  case Nil
  let ?n = "nodes(p := (nodes p)\<lparr>rn_sibling := rn_sibling (nodes x)\<rparr>)"
  have "sib_chain nodes (rn_sibling (nodes x)) ys" using Nil.prems(1) by simp
  moreover have "sib_chain nodes a ys = sib_chain ?n a ys" for a
    by (rule sib_chain_cong) (use Nil.prems(4) in auto)
  ultimately have "sib_chain ?n (rn_sibling (nodes x)) ys" by blast
  then show ?case using Nil.prems(1) by (simp add: fun_upd_def)
qed auto

definition unlink_chain :: "nat \<Rightarrow> nat \<Rightarrow> nat option \<Rightarrow> 'a ramfs_state_scheme \<Rightarrow> 'a ramfs_state_scheme" where
  "unlink_chain d c prev s =
     (let nxt = rn_sibling (rnodes s c);
          s1 = (case prev of
                  Some p \<Rightarrow> upd_node p (\<lambda>r. r\<lparr>rn_sibling := nxt\<rparr>) s
                | None \<Rightarrow> upd_node d (\<lambda>r. r\<lparr>rn_child := nxt\<rparr>) s)
      in s1\<lparr>rn_used := (rn_used s1)(c := False)\<rparr>)"

lemma ramfs_unlink_ok:
  assumes inv: "ramfs_inv s" and d: "is_dir s d" and cs: "dir_ok s d (xs @ c # ys)"
    and prev: "prev = (if xs = [] then None else Some (last xs))"
    and leaf: "rn_type (rnodes s c) \<noteq> VNODE_DIR \<or> rn_child (rnodes s c) = None"
    and cd: "c \<noteq> d" and s': "s' = unlink_chain d c prev s"
  shows "ramfs_inv s'" and "dir_ok s' d (xs @ ys)" and "\<not> rn_used s' c" and "is_dir s' d"
    and "\<And>e. rn_name (rnodes s' e) = rn_name (rnodes s e)"
    and "ramfs_tree s root \<Longrightarrow> ramfs_tree s' root"
proof -
  have dist: "distinct (xs @ c # ys)"
    using cs unfolding dir_ok_def distinct_map by simp
  have u: "rn_used s' = (rn_used s)(c := False)"
    by (auto simp: s' unlink_chain_def Let_def split: option.splits)
  show "\<not> rn_used s' c" by (simp add: u)
  have same: "rn_name (rnodes s' e) = rn_name (rnodes s e)" "rn_parent (rnodes s' e) = rn_parent (rnodes s e)"
    "rn_type (rnodes s' e) = rn_type (rnodes s e)" "rn_size (rnodes s' e) = rn_size (rnodes s e)"
    "rn_data (rnodes s' e) = rn_data (rnodes s e)" for e
    by (auto simp: s' unlink_chain_def Let_def split: option.splits)
  show "\<And>e. rn_name (rnodes s' e) = rn_name (rnodes s e)" by (rule same(1))
  have sib: "rn_sibling (rnodes s' e) = rn_sibling (rnodes s e)" if "prev \<noteq> Some e" for e
    using that by (auto simp: s' unlink_chain_def Let_def split: option.splits)
  have chd: "rn_child (rnodes s' e) = rn_child (rnodes s e)" if "e \<noteq> d" for e
    using that by (auto simp: s' unlink_chain_def Let_def split: option.splits)
  show dir': "is_dir s' d" using d cd u same(3) by (simp add: is_dir_def)
  have ch: "sib_chain (rnodes s) (rn_child (rnodes s d)) (xs @ c # ys)"
    using cs by (simp add: dir_ok_def dir_chain_def)
  have "dir_chain s' d (xs @ ys)"
  proof (cases xs rule: rev_cases)
    case Nil
    have n: "rnodes s' = (rnodes s)(d := (rnodes s d)\<lparr>rn_child := rn_sibling (rnodes s c)\<rparr>)"
      using Nil prev by (simp add: s' unlink_chain_def Let_def)
    have "sib_chain (rnodes s) (rn_sibling (rnodes s c)) ys" using ch Nil by simp
    then have "sib_chain (rnodes s') (rn_sibling (rnodes s c)) ys"
      using sib_chain_cong [of ys "rnodes s" "rnodes s'"] by (auto simp: n)
    then show ?thesis using Nil by (simp add: dir_chain_def n)
  next
    case (snoc zs p)
    have n: "rnodes s' = (rnodes s)(p := (rnodes s p)\<lparr>rn_sibling := rn_sibling (rnodes s c)\<rparr>)"
      using snoc prev by (simp add: s' unlink_chain_def Let_def)
    have "sib_chain (rnodes s') (rn_child (rnodes s d)) (zs @ p # ys)"
      unfolding n by (rule sib_chain_remove) (use ch snoc dist in auto)
    then show ?thesis using snoc by (cases "d = p") (simp_all add: dir_chain_def n)
  qed
  moreover have keys: "(\<lambda>c. key (rnodes s' c)) = (\<lambda>c. key (rnodes s c))"
    by (simp add: key_def same)
  ultimately show link: "dir_ok s' d (xs @ ys)"
    using cs dist u same(2,3) unfolding dir_ok_def keys by auto
  have keep: "dir_ok s' e es" if e: "dir_ok s e es" "e \<noteq> d" "e \<noteq> c" for e es
  proof (rule dir_ok_frame [OF e(1)])
    fix x assume x: "x \<in> set es"
    have px: "rn_parent (rnodes s x) = Some e" "rn_used s x" using e(1) x by (auto simp: dir_ok_def)
    have "rn_parent (rnodes s c) = Some d" using cs by (auto simp: dir_ok_def)
    then have xc: "x \<noteq> c" using px e(2) by auto
    have "prev \<noteq> Some x"
    proof
      assume "prev = Some x"
      then have "x \<in> set xs" using prev by (auto split: if_splits)
      then have "rn_parent (rnodes s x) = Some d" using cs by (auto simp: dir_ok_def)
      then show False using px e(2) by simp
    qed
    then show "rn_used s' x \<and> rn_sibling (rnodes s' x) = rn_sibling (rnodes s x) \<and>
        rn_name (rnodes s' x) = rn_name (rnodes s x) \<and> rn_parent (rnodes s' x) = rn_parent (rnodes s x) \<and>
        rn_type (rnodes s' x) = rn_type (rnodes s x)"
      using sib same px xc u by simp
  qed (use chd e in simp)
  show "ramfs_tree s' root" if "ramfs_tree s root"
    by (rule ramfs_tree_unlink [OF that d cs _ leaf _ u link _ keep])
      (use inv same dist in \<open>auto simp: ramfs_inv_def\<close>)
  show "ramfs_inv s'"
    unfolding ramfs_inv_def
  proof (intro conjI allI impI)
    fix e assume e: "is_dir s' e"
    then have ec: "e \<noteq> c" "is_dir s e" using u same by (auto simp: is_dir_def split: if_splits)
    show "\<exists>cs. dir_ok s' e cs"
    proof (cases "e = d")
      case False
      obtain es where "dir_ok s e es" using ec inv by (auto simp: ramfs_inv_def)
      then show ?thesis using keep False ec by blast
    qed (use link in blast)
  next
    fix m assume "rn_used s' m"
    then have "file_ok (rnodes s m)" using inv u by (auto simp: ramfs_inv_def split: if_splits)
    then show "file_ok (rnodes s' m)" by (simp add: file_ok_def same)
  qed
qed


section \<open>Every operation returns and keeps the invariant\<close>

text \<open>
  The calls a client makes.  A vnode outlives the node it stands for: a descriptor of an unlinked
  file can be read, written and truncated, and a lookup may go through the vnode of a removed
  directory.  Entries are made and removed in directories in use; a call of \<^verbatim>\<open>create\<close> or \<^verbatim>\<open>mkdir\<close> through
  the vnode of a removed directory is not one of the steps, because it leaves the tree
  (\<open>mkdir_in_removed\<close>).
\<close>

inductive ramfs_step :: "'a ramfs_state_scheme \<Rightarrow> 'a ramfs_state_scheme \<Rightarrow> bool" where
  step_lookup: "ramfs_lookup v name s = Some (r, x, s') \<Longrightarrow> ramfs_step s s'"
| step_create: "is_dir s (vn_data (g_vnode_pool s v)) \<Longrightarrow> ramfs_create v name b s = Some (r, x, s') \<Longrightarrow> ramfs_step s s'"
| step_mkdir: "is_dir s (vn_data (g_vnode_pool s v)) \<Longrightarrow> ramfs_mkdir v name b s = Some (r, x, s') \<Longrightarrow> ramfs_step s s'"
| step_unlink: "is_dir s (vn_data (g_vnode_pool s v)) \<Longrightarrow> ramfs_unlink v name s = Some (r, s') \<Longrightarrow> ramfs_step s s'"
| step_write: "unat len = length buf \<Longrightarrow> ramfs_write v buf len off s = Some (r, s') \<Longrightarrow> ramfs_step s s'"
| step_truncate: "ramfs_truncate v sz s = (r, s') \<Longrightarrow> ramfs_step s s'"

lemma ramfs_invD:
  assumes "ramfs_inv s" and "is_dir s d" obtains cs where "dir_ok s d cs"
  using assms by (auto simp: ramfs_inv_def)

lemma ramfs_lookup_spec:
  assumes "ramfs_inv s" and "is_dir s d" and "dir_ok s d cs" and "d = vn_data (g_vnode_pool s v)"
  shows "ramfs_lookup v name s = Some (case list_find (rnodes s) name None cs of
      None \<Rightarrow> (- ENOENT, None, s)
    | Some (c, _) \<Rightarrow> (case ramfs_wrap_node c (Some v) s of (x, s1) \<Rightarrow> (0, x, s1)))"
  using ramfs_find_ok [OF assms(3), of name] by (simp add: ramfs_lookup_def assms(4) [symmetric])

lemma ramfs_lookup_inv:
  assumes "ramfs_inv s" and "ramfs_lookup v name s = Some (r, x, s')"
  shows "ramfs_inv s'"
proof -
  have "rnodes s' = rnodes s \<and> rn_used s' = rn_used s"
    using assms(2) wrap_parts(1,2)
    by (auto simp: ramfs_lookup_def bind_eq_Some_conv split: option.splits prod.splits)
  then show ?thesis using assms(1) ramfs_inv_cong by blast
qed

lemma set_out_parts:
  "set_out b (ramfs_wrap_node n p s) = Some (r, x, s') \<Longrightarrow> r = 0 \<and> rnodes s' = rnodes s \<and> rn_used s' = rn_used s"
  using wrap_parts(1,2) [of n p s] by (cases "ramfs_wrap_node n p s") (auto simp: set_out_def split: if_splits)

text \<open>Create and mkdir share their second half.\<close>

lemma ramfs_new_entry:
  fixes s s' :: "'a ramfs_state_scheme"
  assumes "ramfs_inv s" and "is_dir s d" and "dir_ok s d cs" and "list_find (rnodes s) name None cs = None"
    and "ty \<noteq> VNODE_NONE"
    and "(case ramfs_alloc_node s of
            (None, s1) \<Rightarrow> Some (- ENOMEM, None, s1)
          | (Some n, s1) \<Rightarrow> set_out b (ramfs_wrap_node n (Some v) (ramfs_link d name ty n s1))) = Some (r, x, s')"
  obtains (full) "r = - ENOMEM" "s' = s" "\<forall>i<RAMFS_MAX_NODES. rn_used s i"
  | (linked) n and s2 :: "'a ramfs_state_scheme" where "r = 0" "\<not> rn_used s n" "ramfs_inv s2" "dir_ok s2 d (n # cs)" "rn_name (rnodes s2 n) = name"
      "rn_type (rnodes s2 n) = ty" "rn_used s2 n" "\<And>c. c \<noteq> n \<Longrightarrow> rn_name (rnodes s2 c) = rn_name (rnodes s c)"
      "rnodes s' = rnodes s2" "rn_used s' = rn_used s2" "rn_size (rnodes s2 n) = 0"
      "\<And>root. ramfs_tree s root \<Longrightarrow> ramfs_tree s2 root"
proof (cases s rule: ramfs_alloc_node_cases)
  case full
  then show ?thesis using that(1) assms(6) by simp
next
  case (slot n s1)
  define s2 where "s2 = ramfs_link d name ty n s1"
  have new: "\<forall>c\<in>set cs. key (rnodes s c) \<noteq> map lower name"
    using assms(4) unfolding list_find_None .
  note link = ramfs_link_ok [OF assms(1-3) new assms(5) slot(2,3,4,5) s2_def]
  have "set_out b (ramfs_wrap_node n (Some v) s2) = Some (r, x, s')"
    using assms(6) slot(1) by (simp add: s2_def)
  from set_out_parts [OF this] show ?thesis
    by (intro that(2) [of n s2]) (use link slot(3) in auto)
qed

lemma ramfs_create_cases:
  assumes "ramfs_inv s" and "is_dir s d" and "dir_ok s d cs" and "d = vn_data (g_vnode_pool s v)"
    and "ramfs_create v name b s = Some (r, x, s')"
  obtains (isdir) c q where "list_find (rnodes s) name None cs = Some (c, q)" "rn_type (rnodes s c) = VNODE_DIR"
      "r = - EISDIR" "s' = s"
  | (old) c q where "list_find (rnodes s) name None cs = Some (c, q)" "rn_type (rnodes s c) \<noteq> VNODE_DIR" "r = 0"
      "rnodes s' = rnodes s" "rn_used s' = rn_used s"
  | (new) "list_find (rnodes s) name None cs = None"
      "(case ramfs_alloc_node s of
            (None, s1) \<Rightarrow> Some (- ENOMEM, None, s1)
          | (Some n, s1) \<Rightarrow> set_out b (ramfs_wrap_node n (Some v) (ramfs_link d name VNODE_FILE n s1))) = Some (r, x, s')"
proof (cases "list_find (rnodes s) name None cs")
  case None
  then show ?thesis
    using new [OF None] None assms(5) ramfs_find_ok [OF assms(3), of name]
    by (simp add: ramfs_create_def assms(4) [symmetric] Let_def)
next
  case (Some cq)
  then obtain c q where cq: "list_find (rnodes s) name None cs = Some (c, q)" by (cases cq) auto
  then show ?thesis
    using isdir [OF cq] old [OF cq] assms(5) ramfs_find_ok [OF assms(3), of name]
    by (auto simp: ramfs_create_def assms(4) [symmetric] Let_def split: if_splits dest: set_out_parts)
qed

lemma ramfs_mkdir_cases:
  assumes "ramfs_inv s" and "is_dir s d" and "dir_ok s d cs" and "d = vn_data (g_vnode_pool s v)"
    and "ramfs_mkdir v name b s = Some (r, x, s')"
  obtains (isfile) c q where "list_find (rnodes s) name None cs = Some (c, q)" "rn_type (rnodes s c) \<noteq> VNODE_DIR"
      "r = - EEXIST" "s' = s"
  | (old) c q where "list_find (rnodes s) name None cs = Some (c, q)" "rn_type (rnodes s c) = VNODE_DIR" "r = 0"
      "rnodes s' = rnodes s" "rn_used s' = rn_used s"
  | (new) "list_find (rnodes s) name None cs = None"
      "(case ramfs_alloc_node s of
            (None, s1) \<Rightarrow> Some (- ENOMEM, None, s1)
          | (Some n, s1) \<Rightarrow> set_out b (ramfs_wrap_node n (Some v) (ramfs_link d name VNODE_DIR n s1))) = Some (r, x, s')"
proof (cases "list_find (rnodes s) name None cs")
  case None
  then show ?thesis
    using new [OF None] None assms(5) ramfs_find_ok [OF assms(3), of name]
    by (simp add: ramfs_mkdir_def assms(4) [symmetric] Let_def)
next
  case (Some cq)
  then obtain c q where cq: "list_find (rnodes s) name None cs = Some (c, q)" by (cases cq) auto
  then show ?thesis
    using isfile [OF cq] old [OF cq] assms(5) ramfs_find_ok [OF assms(3), of name]
    by (auto simp: ramfs_mkdir_def assms(4) [symmetric] Let_def split: if_splits dest: set_out_parts)
qed

lemma ramfs_unlink_cases:
  fixes s :: "'a ramfs_state_scheme"
  assumes "ramfs_inv s" and "is_dir s d" and "dir_ok s d cs" and "d = vn_data (g_vnode_pool s v)"
  obtains (missing) "list_find (rnodes s) name None cs = None" "ramfs_unlink v name s = Some (- ENOENT, s)"
  | (notempty) c q where "list_find (rnodes s) name None cs = Some (c, q)" "rn_type (rnodes s c) = VNODE_DIR"
      "rn_child (rnodes s c) \<noteq> None" "ramfs_unlink v name s = Some (- ENOTEMPTY, s)"
  | (removed) c xs ys and s' :: "'a ramfs_state_scheme" where "cs = xs @ c # ys" "key (rnodes s c) = map lower name"
      "ramfs_unlink v name s = Some (0, s')" "ramfs_inv s'" "dir_ok s' d (xs @ ys)" "\<not> rn_used s' c" "is_dir s' d"
      "\<And>e. rn_name (rnodes s' e) = rn_name (rnodes s e)" "\<And>root. ramfs_tree s root \<Longrightarrow> ramfs_tree s' root"
proof (cases "list_find (rnodes s) name None cs")
  case None
  then show ?thesis
    using missing [OF None] None ramfs_find_ok [OF assms(3), of name]
    by (simp add: ramfs_unlink_def assms(4) [symmetric] Let_def)
next
  case (Some cq)
  then obtain c q where cq: "list_find (rnodes s) name None cs = Some (c, q)" by (cases cq) auto
  note f = ramfs_find_ok [OF assms(3), of name]
  obtain xs ys where x: "cs = xs @ c # ys" "key (rnodes s c) = map lower name"
    "q = (if xs = [] then None else Some (last xs))"
    using list_find_Some [OF cq] by blast
  show ?thesis
  proof (cases "rn_type (rnodes s c) = VNODE_DIR \<and> rn_child (rnodes s c) \<noteq> None")
    case True
    then show ?thesis
      using notempty [OF cq] f cq by (simp add: ramfs_unlink_def assms(4) [symmetric] Let_def)
  next
    case False
    define s' where "s' = unlink_chain d c q s"
    have "rn_child (rnodes s d) \<noteq> None"
      using assms(3) x(1) by (cases xs) (auto simp: dir_ok_def dir_chain_def)
    then have cd: "c \<noteq> d" using False assms(2) by (auto simp: is_dir_def)
    note ok = ramfs_unlink_ok [OF assms(1,2) assms(3) [unfolded x(1)] x(3) _ cd s'_def]
    have "ramfs_unlink v name s = Some (0, s')"
      using f cq False by (auto simp: ramfs_unlink_def assms(4) [symmetric] Let_def s'_def unlink_chain_def)
    then show ?thesis by (rule removed [OF x(1,2)]) (use ok False in auto)
  qed
qed

end
