(* ===== verification/Ramfs_Props.thy ===== *)
theory Ramfs_Props
  imports Ramfs_Spec
begin

text \<open>
  Properties of \<^verbatim>\<open>kernel/ramfs.c\<close>: the invariant of every run, directories as finite maps
  up to case, files as byte lists, and what running out of vnodes looks like to a caller.
\<close>

section \<open>Writing a node\<close>

definition write_len :: "u64 \<Rightarrow> u64 \<Rightarrow> u64" where
  "write_len off len = (if of_nat RAMFS_MAX_FILE_SIZE < off + len then of_nat RAMFS_MAX_FILE_SIZE - off else len)"

lemma write_len_le:
  assumes "unat off < 4096" and "unat off + unat (write_len off len) \<le> 4096"
  shows "unat (write_len off len) \<le> unat len"
    and "unat (off + write_len off len) = unat off + unat (write_len off len)"
proof -
  show "unat (off + write_len off len) = unat off + unat (write_len off len)"
    using assms by (simp add: unat_plus_if')
  show "unat (write_len off len) \<le> unat len"
  proof (cases "of_nat RAMFS_MAX_FILE_SIZE < off + len")
    case True
    then have "4096 < unat (off + len)" by (simp add: word_less_nat_alt)
    then have "4096 < unat off + unat len" by (auto simp: unat_plus_if' split: if_splits)
    moreover have "unat (4096 - off) = 4096 - unat off"
      using assms(1) by (subst unat_sub) (simp_all add: word_le_nat_alt)
    ultimately show ?thesis using True by (simp add: write_len_def)
  qed (simp add: write_len_def)
qed

lemma write_len_min:
  assumes "unat off < 4096" and "unat off + unat len < 2 ^ 64"
  shows "unat (write_len off len) = min (unat len) (4096 - unat off)"
proof -
  have "unat (off + len) = unat off + unat len" using assms(2) by (simp add: unat_plus_if')
  moreover have "unat (4096 - off) = 4096 - unat off"
    using assms(1) by (subst unat_sub) (simp_all add: word_le_nat_alt)
  ultimately show ?thesis by (auto simp: write_len_def word_less_nat_alt)
qed

lemma ramfs_write_unfold:
  assumes "n = vn_data (g_vnode_pool s v)" and "rn_type (rnodes s n) = VNODE_FILE" and "unat off < 4096"
  shows "ramfs_write v buf len off s =
    (if 4096 < unat off + unat (write_len off len) then None
     else Some (c_int (write_len off len), upd_node n (\<lambda>r.
       r\<lparr>rn_data := splice (unat off) (take (unat (write_len off len)) buf) (rn_data r),
         rn_size := (if rn_size r < off + write_len off len then off + write_len off len else rn_size r)\<rparr>) s))"
  using assms unfolding ramfs_write_def Let_def write_len_def by (simp add: word_le_nat_alt)

text \<open>Both shapes a write that returns can have.\<close>

lemma ramfs_write_cases:
  fixes s :: "'a ramfs_state_scheme"
  assumes "ramfs_write v buf len off s = Some (r, s')" and "n = vn_data (g_vnode_pool s v)"
    and "file_ok (rnodes s n)" and "unat len = length buf"
  obtains (dir) "rn_type (rnodes s n) \<noteq> VNODE_FILE" "r = - EISDIR" "s' = s"
  | (past) "rn_type (rnodes s n) = VNODE_FILE" "4096 \<le> unat off" "r = 0" "s' = s"
  | (written) k r' where "rn_type (rnodes s n) = VNODE_FILE" "unat off < 4096" "k = unat (write_len off len)"
      "unat off + k \<le> 4096" "r = int k" "s' = upd_node n (\<lambda>_. r') s" "file_ok r'"
      "contents r' = bytes_write (unat off) (take k buf) (contents (rnodes s n))"
      "rn_child r' = rn_child (rnodes s n)" "rn_sibling r' = rn_sibling (rnodes s n)"
      "rn_name r' = rn_name (rnodes s n)" "rn_parent r' = rn_parent (rnodes s n)"
      "rn_type r' = rn_type (rnodes s n)"
proof -
  consider "rn_type (rnodes s n) \<noteq> VNODE_FILE" | "rn_type (rnodes s n) = VNODE_FILE" "4096 \<le> unat off"
    | "rn_type (rnodes s n) = VNODE_FILE" "unat off < 4096" by linarith
  then show thesis
  proof cases
    case 1
    then show thesis using dir assms(1,2) by (simp add: ramfs_write_def Let_def)
  next
    case 2
    then show thesis using past assms(1,2) by (simp add: ramfs_write_def Let_def word_le_nat_alt)
  next
    case 3
    let ?w = "write_len off len" and ?k = "unat (write_len off len)"
    define r' where "r' = (rnodes s n)\<lparr>rn_data := splice (unat off) (take ?k buf) (rn_data (rnodes s n)),
      rn_size := (if rn_size (rnodes s n) < off + ?w then off + ?w else rn_size (rnodes s n))\<rparr>"
    have le: "unat off + ?k \<le> 4096" and r: "r = c_int ?w" and s': "s' = upd_node n (\<lambda>_. r') s"
      using assms(1) unfolding ramfs_write_unfold [OF assms(2) 3]
      by (simp_all add: r'_def upd_node_def split: if_splits)
    note wl = write_len_le [OF 3(2) le]
    have bs: "length (take ?k buf) = ?k" using wl(1) assms(4) by simp
    have "unat off + length (take ?k buf) \<le> 4096" "unat (off + ?w) = unat off + length (take ?k buf)"
      using le wl(2) bs by simp_all
    note cw = contents_write [OF assms(3) this(1) 3(2) this(2) r'_def]
    have "r = int ?k" using r le by (simp add: c_int_small)
    then show thesis
      using written [OF 3 refl le _ s' cw] by (simp add: r'_def)
  qed
qed

lemma ramfs_truncate_cases:
  fixes s :: "'a ramfs_state_scheme"
  assumes "ramfs_truncate v sz s = (r, s')" and "n = vn_data (g_vnode_pool s v)" and "file_ok (rnodes s n)"
  obtains (dir) "rn_type (rnodes s n) \<noteq> VNODE_FILE" "r = - EISDIR" "s' = s"
  | (cut) r' where "rn_type (rnodes s n) = VNODE_FILE" "r = 0" "s' = upd_node n (\<lambda>_. r') s" "file_ok r'"
      "contents r' = bytes_truncate (min (unat sz) 4096) (contents (rnodes s n))"
      "rn_child r' = rn_child (rnodes s n)" "rn_sibling r' = rn_sibling (rnodes s n)"
      "rn_name r' = rn_name (rnodes s n)" "rn_parent r' = rn_parent (rnodes s n)"
      "rn_type r' = rn_type (rnodes s n)"
proof (cases "rn_type (rnodes s n) = VNODE_FILE")
  case False
  then show ?thesis using dir assms(1,2) by (simp add: ramfs_truncate_def Let_def)
next
  case True
  define z where "z = (if of_nat RAMFS_MAX_FILE_SIZE < sz then of_nat RAMFS_MAX_FILE_SIZE else sz)"
  have z: "unat z = min (unat sz) 4096" by (auto simp: z_def word_less_nat_alt)
  define r' where "r' = (rnodes s n)\<lparr>rn_data := (if z < rn_size (rnodes s n)
      then splice (unat z) (replicate (unat (rn_size (rnodes s n) - z)) 0) (rn_data (rnodes s n))
      else rn_data (rnodes s n)), rn_size := z\<rparr>"
  have "unat z \<le> 4096" using z by simp
  note ct = contents_truncate [OF assms(3) this r'_def]
  have "ramfs_truncate v sz s = (0, upd_node n (\<lambda>r. r\<lparr>
      rn_data := (if z < rn_size r then splice (unat z) (replicate (unat (rn_size r - z)) 0) (rn_data r)
                  else rn_data r), rn_size := z\<rparr>) s)"
    using True unfolding ramfs_truncate_def Let_def z_def assms(2) by simp
  then have "r = 0" "s' = upd_node n (\<lambda>_. r') s"
    using assms(1) by (simp_all add: r'_def upd_node_def)
  then show ?thesis using True ct z by (intro cut [of r']) (simp_all add: r'_def)
qed

text \<open>Without any condition on the node, what a write or a truncate changes is data and size.\<close>

definition same_links :: "ramfs_node \<Rightarrow> ramfs_node \<Rightarrow> bool" where
  "same_links r r' \<longleftrightarrow> rn_child r' = rn_child r \<and> rn_sibling r' = rn_sibling r \<and> rn_name r' = rn_name r \<and>
     rn_parent r' = rn_parent r \<and> rn_type r' = rn_type r"

lemma ramfs_data_shape:
  assumes "ramfs_write v buf len off s = Some (r, s') \<or> ramfs_truncate v sz s = (r, s')"
  shows "s' = s \<or> (\<exists>r'. s' = upd_node (vn_data (g_vnode_pool s v)) (\<lambda>_. r') s \<and>
    same_links (rnodes s (vn_data (g_vnode_pool s v))) r')"
proof -
  let ?n = "vn_data (g_vnode_pool s v)"
  have u: "upd_node ?n f s = upd_node ?n (\<lambda>_. f (rnodes s ?n)) s" for f by (simp add: upd_node_def)
  have "s' = s \<or> (\<exists>d z. s' = upd_node ?n (\<lambda>r. r\<lparr>rn_data := d r, rn_size := z r\<rparr>) s)"
    using assms unfolding ramfs_write_def ramfs_truncate_def Let_def by (auto split: if_splits)
  then show ?thesis
  proof
    assume "\<exists>d z. s' = upd_node ?n (\<lambda>r. r\<lparr>rn_data := d r, rn_size := z r\<rparr>) s"
    then obtain d z where "s' = upd_node ?n (\<lambda>r. r\<lparr>rn_data := d r, rn_size := z r\<rparr>) s" by blast
    then have "s' = upd_node ?n (\<lambda>_. (rnodes s ?n)\<lparr>rn_data := d (rnodes s ?n), rn_size := z (rnodes s ?n)\<rparr>) s"
      using u by simp
    moreover have "same_links (rnodes s ?n) ((rnodes s ?n)\<lparr>rn_data := d (rnodes s ?n), rn_size := z (rnodes s ?n)\<rparr>)"
      by (simp add: same_links_def)
    ultimately show ?thesis by blast
  qed simp
qed

section \<open>The invariant\<close>

lemma ramfs_step_inv:
  assumes "ramfs_step s s'" and "ramfs_inv s" shows "ramfs_inv s'"
  using assms
proof (cases rule: ramfs_step.cases)
  case (step_lookup v name r x)
  then show ?thesis using assms(2) ramfs_lookup_inv by blast
next
  case (step_create v name b r x)
  obtain cs where cs: "dir_ok s (vn_data (g_vnode_pool s v)) cs" by (rule ramfs_invD [OF assms(2) step_create(1)])
  from assms(2) step_create(1) cs refl step_create(2) show ?thesis
  proof (cases rule: ramfs_create_cases)
    case new
    show ?thesis
      by (rule ramfs_new_entry [OF assms(2) step_create(1) cs new(1) _ new(2)])
        (use assms(2) ramfs_inv_cong in auto)
  qed (use assms(2) ramfs_inv_cong in auto)
next
  case (step_mkdir v name b r x)
  obtain cs where cs: "dir_ok s (vn_data (g_vnode_pool s v)) cs" by (rule ramfs_invD [OF assms(2) step_mkdir(1)])
  from assms(2) step_mkdir(1) cs refl step_mkdir(2) show ?thesis
  proof (cases rule: ramfs_mkdir_cases)
    case new
    show ?thesis
      by (rule ramfs_new_entry [OF assms(2) step_mkdir(1) cs new(1) _ new(2)])
        (use assms(2) ramfs_inv_cong in auto)
  qed (use assms(2) ramfs_inv_cong in auto)
next
  case (step_unlink v name r)
  obtain cs where cs: "dir_ok s (vn_data (g_vnode_pool s v)) cs" by (rule ramfs_invD [OF assms(2) step_unlink(1)])
  show ?thesis
    by (cases rule: ramfs_unlink_cases [OF assms(2) step_unlink(1) cs refl, where name = name])
      (use step_unlink(2) assms(2) in auto)
next
  case (step_write len buf v off r)
  show ?thesis
  proof (cases "rn_used s (vn_data (g_vnode_pool s v))")
    case True
    then have f: "file_ok (rnodes s (vn_data (g_vnode_pool s v)))"
      using assms(2) by (simp add: ramfs_inv_def)
    from step_write(2) refl f step_write(1) show ?thesis
    proof (cases rule: ramfs_write_cases)
      case (written k r')
      show ?thesis by (rule ramfs_inv_data [OF assms(2) written(7,9-13)]) (simp_all add: written(6))
    qed (use assms(2) in simp_all)
  next
    case False
    show ?thesis
      using ramfs_data_shape [OF disjI1 [OF step_write(2)]] assms(2)
      by (auto simp: same_links_def intro: ramfs_data_unused [OF False])
  qed
next
  case (step_truncate v sz r)
  show ?thesis
  proof (cases "rn_used s (vn_data (g_vnode_pool s v))")
    case True
    then have f: "file_ok (rnodes s (vn_data (g_vnode_pool s v)))"
      using assms(2) by (simp add: ramfs_inv_def)
    from step_truncate refl f show ?thesis
    proof (cases rule: ramfs_truncate_cases)
      case (cut r')
      show ?thesis by (rule ramfs_inv_data [OF assms(2) cut(4,6-10)]) (simp_all add: cut(3))
    qed (use assms(2) in simp)
  next
    case False
    show ?thesis
      using ramfs_data_shape [OF disjI2 [OF step_truncate]] assms(2)
      by (auto simp: same_links_def intro: ramfs_data_unused [OF False])
  qed
qed

lemma ramfs_lookup_nodes:
  "ramfs_lookup v name s = Some (r, x, s') \<Longrightarrow> rnodes s' = rnodes s \<and> rn_used s' = rn_used s"
  using wrap_parts(1,2)
  by (auto simp: ramfs_lookup_def bind_eq_Some_conv split: option.splits prod.splits)

lemma ramfs_step_tree:
  assumes "ramfs_step s s'" and inv: "ramfs_inv s" and t: "ramfs_tree s root"
  shows "ramfs_tree s' root"
  using assms(1)
proof (cases rule: ramfs_step.cases)
  case (step_lookup v name r x)
  then show ?thesis using ramfs_lookup_nodes ramfs_tree_cong t by blast
next
  case (step_create v name b r x)
  obtain cs where cs: "dir_ok s (vn_data (g_vnode_pool s v)) cs" by (rule ramfs_invD [OF inv step_create(1)])
  from inv step_create(1) cs refl step_create(2) show ?thesis
  proof (cases rule: ramfs_create_cases)
    case new
    show ?thesis
      by (rule ramfs_new_entry [OF inv step_create(1) cs new(1) _ new(2)])
        (simp, use t in simp, use t ramfs_tree_cong in blast)
  qed (use t ramfs_tree_cong in auto)
next
  case (step_mkdir v name b r x)
  obtain cs where cs: "dir_ok s (vn_data (g_vnode_pool s v)) cs" by (rule ramfs_invD [OF inv step_mkdir(1)])
  from inv step_mkdir(1) cs refl step_mkdir(2) show ?thesis
  proof (cases rule: ramfs_mkdir_cases)
    case new
    show ?thesis
      by (rule ramfs_new_entry [OF inv step_mkdir(1) cs new(1) _ new(2)])
        (simp, use t in simp, use t ramfs_tree_cong in blast)
  qed (use t ramfs_tree_cong in auto)
next
  case (step_unlink v name r)
  obtain cs where cs: "dir_ok s (vn_data (g_vnode_pool s v)) cs" by (rule ramfs_invD [OF inv step_unlink(1)])
  show ?thesis
    by (cases rule: ramfs_unlink_cases [OF inv step_unlink(1) cs refl, where name = name])
      (use step_unlink(2) t in auto)
next
  case (step_write len buf v off r)
  then show ?thesis
    using ramfs_data_shape [OF disjI1 [OF step_write(2)]] t by (auto simp: same_links_def intro: ramfs_tree_data)
next
  case (step_truncate v sz r)
  then show ?thesis
    using ramfs_data_shape [OF disjI2 [OF step_truncate]] t by (auto simp: same_links_def intro: ramfs_tree_data)
qed

lemma ramfs_init_inv:
  assumes "ramfs_init s = (Some v, s')" and "\<forall>n. \<not> rn_used s n"
  shows "ramfs_inv s'" and "is_dir s' (vn_data (g_vnode_pool s' v))"
    and "dir_ok s' (vn_data (g_vnode_pool s' v)) []"
    and "ramfs_tree s' (vn_data (g_vnode_pool s' v))"
proof -
  from assms(1) obtain n s1 where a: "ramfs_alloc_node s = (Some n, s1)"
    by (auto simp: ramfs_init_def split: prod.splits option.splits)
  define s2 where "s2 = upd_node n (\<lambda>r. r\<lparr>rn_type := VNODE_DIR, rn_name := [], rn_parent := Some n\<rparr>) s1"
  have w: "ramfs_wrap_node n None s2 = (Some v, s')"
    using assms(1) a by (simp add: ramfs_init_def s2_def)
  note p = wrap_parts [OF w]
  have n: "n < RAMFS_MAX_NODES" and s1: "rnodes s1 = (rnodes s)(n := zero_node)" "rn_used s1 = (rn_used s)(n := True)"
    using a by (cases s rule: ramfs_alloc_node_cases; auto)+
  have r: "rnodes s' n = zero_node\<lparr>rn_type := VNODE_DIR, rn_name := [], rn_parent := Some n\<rparr>"
    and u: "rn_used s' m \<longleftrightarrow> m = n" for m
    using s1 assms(2) by (simp_all add: p s2_def)
  have d: "dir_ok s' n []" by (simp add: dir_ok_def dir_chain_def r zero_node_def)
  show "ramfs_inv s'"
    using d u r by (auto simp: ramfs_inv_def is_dir_def file_ok_def zero_node_def)
  have v: "vn_data (g_vnode_pool s' v) = n" using p(3) by simp
  show "is_dir s' (vn_data (g_vnode_pool s' v))" "dir_ok s' (vn_data (g_vnode_pool s' v)) []"
    using d n u r by (simp_all add: v is_dir_def)
  have "\<not> child_of s' e n" for e by (rule no_root_child [OF _ d]) (simp_all add: r)
  then show "ramfs_tree s' (vn_data (g_vnode_pool s' v))"
    using n u r by (auto simp: v ramfs_tree_def is_dir_def)
qed

text \<open>
  C8. From an initialised file system, after every sequence of lookups, reads, writes and truncates
  through any vnode, and of creates, mkdirs and unlinks in directories in use: every directory is
  a finite chain of distinct used nodes with names different up to case, every used file is within
  its 4096 bytes with zeros past its end, and the directories are a tree.  Every node in use is
  reached from the root, the root is an entry of no directory, and no directory is below itself.
\<close>

theorem ramfs_reachable_inv:
  assumes "ramfs_init s = (Some v, s0)" and "\<forall>n. \<not> rn_used s n" and "ramfs_step\<^sup>*\<^sup>* s0 s'"
    and "root = vn_data (g_vnode_pool s0 v)"
  shows "ramfs_inv s' \<and> (\<forall>d. is_dir s' d \<longrightarrow> (\<exists>cs. dir_ok s' d cs)) \<and>
    is_dir s' root \<and> (\<forall>d. \<not> child_of s' d root) \<and>
    (\<forall>n. rn_used s' n \<longrightarrow> (child_of s')\<^sup>*\<^sup>* root n) \<and> (\<forall>n. \<not> (child_of s')\<^sup>+\<^sup>+ n n)"
proof -
  have "ramfs_inv s' \<and> ramfs_tree s' root" using assms(3)
  proof (induction rule: rtranclp_induct)
    case base
    show ?case using ramfs_init_inv [OF assms(1,2)] by (simp add: assms(4))
  next
    case (step t u)
    then show ?case using ramfs_step_inv ramfs_step_tree by blast
  qed
  then show ?thesis using ramfs_tree_acyclic unfolding ramfs_tree_def ramfs_inv_def by blast
qed

section \<open>Directories\<close>

text \<open>The node a name denotes in a directory; \<open>None\<close> inside says there is none.\<close>

definition entry_of :: "'a ramfs_state_scheme \<Rightarrow> nat \<Rightarrow> cstr \<Rightarrow> nat option" where
  "entry_of s d name = (case ramfs_find s d name of Some (Some (c, _)) \<Rightarrow> Some c | _ \<Rightarrow> None)"

lemma entry_of_ok: "dir_ok s d cs \<Longrightarrow> entry_of s d name = map_option fst (list_find (rnodes s) name None cs)"
  by (auto simp: entry_of_def ramfs_find_ok split: option.splits)

lemma entry_of_find:
  assumes "dir_ok s d cs" and "entry_of s d name = Some c"
  shows "\<exists>q. list_find (rnodes s) name None cs = Some (c, q)"
  using assms(2) unfolding entry_of_ok [OF assms(1)] by (cases "list_find (rnodes s) name None cs") auto

lemma entry_of_iff:
  assumes "dir_ok s d cs"
  shows "entry_of s d name = Some c \<longleftrightarrow> c \<in> set cs \<and> key (rnodes s c) = map lower name"
proof
  assume "entry_of s d name = Some c"
  then obtain q where "list_find (rnodes s) name None cs = Some (c, q)"
    using entry_of_find [OF assms] by blast
  then show "c \<in> set cs \<and> key (rnodes s c) = map lower name" using list_find_Some by fastforce
next
  assume c: "c \<in> set cs \<and> key (rnodes s c) = map lower name"
  then show "entry_of s d name = Some c"
    using list_find_key [of c cs "rnodes s" name None] assms entry_of_ok [OF assms, of name]
    by (auto simp: dir_ok_def)
qed

lemma entry_of_eqI:
  assumes "dir_ok s d cs" and "dir_ok s' d cs'"
    and "\<And>c. c \<in> set cs \<and> key (rnodes s c) = map lower name \<longleftrightarrow> c \<in> set cs' \<and> key (rnodes s' c) = map lower name"
  shows "entry_of s' d name = entry_of s d name"
proof (cases "entry_of s d name")
  case None
  then have "entry_of s' d name \<noteq> Some c" for c
    using entry_of_iff [OF assms(1), of name c] entry_of_iff [OF assms(2), of name c] assms(3) [of c] by simp
  then show ?thesis using None by (cases "entry_of s' d name") auto
next
  case (Some c)
  then have "entry_of s' d name = Some c"
    using entry_of_iff [OF assms(1), of name c] entry_of_iff [OF assms(2), of name c] assms(3) [of c] by simp
  then show ?thesis using Some by simp
qed

lemma dir_ok_cong2:
  "rnodes s' = rnodes s \<Longrightarrow> rn_used s' = rn_used s \<Longrightarrow> entry_of s' d name = entry_of s d name"
  by (simp add: entry_of_def ramfs_find_def)

text \<open>
  C9. \<^verbatim>\<open>ramfs_create\<close> in a directory in use returns 0, \<^verbatim>\<open>-EISDIR\<close> (the name is a
  directory) or \<^verbatim>\<open>-ENOMEM\<close> (all 128 nodes are used). After 0 the name denotes a used node
  that is not a directory: the one it denoted before, or a new empty file; every other name
  denotes what it denoted, whatever its case.
\<close>

theorem ramfs_create_spec:
  assumes "ramfs_inv s" and "is_dir s d" and "d = vn_data (g_vnode_pool s v)"
  shows "\<exists>r x s'. ramfs_create v name False s = Some (r, x, s') \<and>
    (r = 0 \<and> (\<exists>c. entry_of s' d name = Some c \<and> rn_used s' c \<and> rn_type (rnodes s' c) \<noteq> VNODE_DIR \<and>
         (entry_of s d name = Some c \<or>
          entry_of s d name = None \<and> \<not> rn_used s c \<and> contents (rnodes s' c) = [])) \<or>
     r = - EISDIR \<and> s' = s \<and> (\<exists>c. entry_of s d name = Some c \<and> rn_type (rnodes s c) = VNODE_DIR) \<or>
     r = - ENOMEM \<and> s' = s \<and> entry_of s d name = None \<and> (\<forall>i<RAMFS_MAX_NODES. rn_used s i)) \<and>
    (\<forall>other. map lower other \<noteq> map lower name \<longrightarrow> entry_of s' d other = entry_of s d other)"
proof -
  obtain cs where cs: "dir_ok s d cs" by (rule ramfs_invD [OF assms(1,2)])
  have "ramfs_create v name False s \<noteq> None"
    using ramfs_find_ok [OF cs, of name]
    by (auto simp: ramfs_create_def assms(3) [symmetric] Let_def set_out_def split: option.splits prod.splits)
  then obtain r x s' where c: "ramfs_create v name False s = Some (r, x, s')" by auto
  from assms(1,2) cs assms(3) c show ?thesis
  proof (cases rule: ramfs_create_cases)
    case (isdir c q)
    then show ?thesis using c entry_of_ok [OF cs, of name] by auto
  next
    case (old c q)
    have "c \<in> set cs" using list_find_Some [OF old(1)] by auto
    then have "rn_used s c" using cs by (simp add: dir_ok_def)
    moreover have "entry_of s' d n = entry_of s d n" for n by (rule dir_ok_cong2 [OF old(4,5)])
    moreover have "entry_of s d name = Some c" using entry_of_ok [OF cs, of name] old(1) by simp
    ultimately show ?thesis using c old by auto
  next
    case new
    have e: "entry_of s d name = None" using entry_of_ok [OF cs, of name] new(1) by simp
    have ft: "VNODE_FILE \<noteq> VNODE_NONE" by simp
    from assms(1,2) cs new(1) ft new(2) show ?thesis
    proof (cases rule: ramfs_new_entry)
      case full
      then show ?thesis using c e by blast
    next
      case (linked n s2)
      have s': "entry_of s' d m = entry_of s2 d m" for m by (rule dir_ok_cong2 [OF linked(9,10)])
      have n: "n \<notin> set cs" using cs linked(2) by (auto simp: dir_ok_def)
      have kn: "key (rnodes s2 n) = map lower name" using linked(5) by (simp add: key_def)
      have ks: "key (rnodes s2 m) = key (rnodes s m)" if "m \<in> set cs" for m
      proof -
        have "m \<noteq> n" using that n by blast
        then show ?thesis using linked(8) [of m] by (simp add: key_def)
      qed
      have "entry_of s2 d name = Some n" using entry_of_iff [OF linked(4)] kn by simp
      moreover have "entry_of s2 d other = entry_of s d other" if "map lower other \<noteq> map lower name" for other
        by (rule entry_of_eqI [OF cs linked(4)]) (use n kn ks that in auto)
      moreover have "contents (rnodes s' n) = []" using linked(9,11) by (simp add: contents_def)
      ultimately show ?thesis using c e linked(1,2,6,7,9,10) s' by (intro exI [of _ r] exI [of _ x] exI [of _ s']) auto
    qed
  qed
qed


text \<open>
  C10. \<^verbatim>\<open>ramfs_unlink\<close> in a directory in use returns; it refuses a directory that has
  entries with \<^verbatim>\<open>-ENOTEMPTY\<close> and a missing name with \<^verbatim>\<open>-ENOENT\<close>, changing nothing, and
  otherwise removes exactly that name, frees its node and keeps the invariant.
\<close>

theorem ramfs_unlink_spec:
  assumes "ramfs_inv s" and "is_dir s d" and "d = vn_data (g_vnode_pool s v)"
  shows "\<exists>r s'. ramfs_unlink v name s = Some (r, s') \<and> ramfs_inv s' \<and>
    (case entry_of s d name of
       None \<Rightarrow> r = - ENOENT \<and> s' = s
     | Some c \<Rightarrow>
         if rn_type (rnodes s c) = VNODE_DIR \<and> rn_child (rnodes s c) \<noteq> None
         then r = - ENOTEMPTY \<and> s' = s
         else r = 0 \<and> \<not> rn_used s' c \<and> entry_of s' d name = None) \<and>
    (\<forall>other. map lower other \<noteq> map lower name \<longrightarrow> entry_of s' d other = entry_of s d other)"
proof -
  obtain cs where cs: "dir_ok s d cs" by (rule ramfs_invD [OF assms(1,2)])
  from assms(1,2) cs assms(3) show ?thesis
  proof (cases rule: ramfs_unlink_cases [where name = name])
    case missing
    then show ?thesis using assms(1) entry_of_ok [OF cs, of name] by simp
  next
    case (notempty c q)
    then show ?thesis using assms(1) entry_of_ok [OF cs, of name] by simp
  next
    case (removed c xs ys s')
    have keys: "key (rnodes s' e) = key (rnodes s e)" for e using removed(8) by (simp add: key_def)
    have d: "distinct (map (\<lambda>c. key (rnodes s c)) (xs @ c # ys))" using cs removed(1) by (simp add: dir_ok_def)
    have e: "entry_of s d name = Some c" using entry_of_iff [OF cs] removed(1,2) by simp
    have "entry_of s' d name \<noteq> Some m" for m
    proof
      assume "entry_of s' d name = Some m"
      then have m: "m \<in> set (xs @ ys)" "key (rnodes s m) = key (rnodes s c)"
        using entry_of_iff [OF removed(5), of name m] removed(2) keys by auto
      then have "key (rnodes s c) \<in> (\<lambda>c. key (rnodes s c)) ` set (xs @ ys)" by (metis image_eqI)
      then show False using d by auto
    qed
    then have n: "entry_of s' d name = None" by auto
    have o: "entry_of s' d other = entry_of s d other" if "map lower other \<noteq> map lower name" for other
      by (rule entry_of_eqI [OF cs removed(5)]) (use that removed(1,2) keys in auto)
    have "\<not> (rn_type (rnodes s c) = VNODE_DIR \<and> rn_child (rnodes s c) \<noteq> None)"
    proof
      assume h: "rn_type (rnodes s c) = VNODE_DIR \<and> rn_child (rnodes s c) \<noteq> None"
      obtain q where "list_find (rnodes s) name None cs = Some (c, q)"
        using entry_of_find [OF cs e] by blast
      then have "ramfs_unlink v name s = Some (- ENOTEMPTY, s)"
        using h ramfs_find_ok [OF cs, of name] by (simp add: ramfs_unlink_def assms(3) [symmetric] Let_def)
      then show False using removed(3) by simp
    qed
    then show ?thesis using removed(3,4,6) e n o by (intro exI [of _ 0] exI [of _ s']) auto
  qed
qed

section \<open>Files\<close>

lemma ramfs_file_ops:
  fixes s :: "'a ramfs_state_scheme"
  assumes "ramfs_inv s" and "n = vn_data (g_vnode_pool s v)" and "rn_used s n"
    and "rn_type (rnodes s n) = VNODE_FILE" and "unat len = length buf" and "unat off + unat len < 2 ^ 64"
  shows "ramfs_read s v len off =
      (int (length (bytes_read (unat off) (unat len) (contents (rnodes s n)))),
       bytes_read (unat off) (unat len) (contents (rnodes s n)))"
    and "\<exists>s'. ramfs_write v buf len off s = Some (int (min (unat len) (4096 - unat off)), s') \<and>
      contents (rnodes s' n) = (if unat off < 4096
        then bytes_write (unat off) (take (4096 - unat off) buf) (contents (rnodes s n))
        else contents (rnodes s n)) \<and>
      (\<forall>m. m \<noteq> n \<longrightarrow> rnodes s' m = rnodes s m)"
    and "\<exists>s'. ramfs_truncate v sz s = (0, s') \<and>
      contents (rnodes s' n) = bytes_truncate (min (unat sz) 4096) (contents (rnodes s n)) \<and>
      (\<forall>m. m \<noteq> n \<longrightarrow> rnodes s' m = rnodes s m)"
proof -
  let ?r = "rnodes s n"
  have f: "file_ok ?r" using assms(1,3) by (simp add: ramfs_inv_def)
  have sz4: "unat (rn_size ?r) \<le> 4096" "length (rn_data ?r) = 4096" using f by (simp_all add: file_ok_def)
  show "ramfs_read s v len off =
      (int (length (bytes_read (unat off) (unat len) (contents ?r))), bytes_read (unat off) (unat len) (contents ?r))"
  proof (cases "rn_size ?r \<le> off")
    case True
    then have "unat (rn_size ?r) \<le> unat off" by (simp add: word_le_nat_alt)
    then have "bytes_read (unat off) (unat len) (contents ?r) = []"
      using length_contents [OF f] by (simp add: bytes_read_def)
    then show ?thesis using True assms(2,4) by (simp add: ramfs_read_def Let_def)
  next
    case False
    define k where "k = (if len < rn_size ?r - off then len else rn_size ?r - off)"
    have "unat off < unat (rn_size ?r)" using False by (simp add: word_le_nat_alt)
    then have u: "unat (rn_size ?r - off) = unat (rn_size ?r) - unat off" by (simp add: unat_sub word_le_nat_alt)
    have k: "unat k = min (unat len) (unat (rn_size ?r) - unat off)"
      using u by (auto simp: k_def word_less_nat_alt)
    have "c_int k = int (unat k)" by (rule c_int_small) (use k sz4 in auto)
    moreover have "take (unat k) (drop (unat off) (rn_data ?r)) = bytes_read (unat off) (unat len) (contents ?r)"
      using k by (simp add: bytes_read_def contents_def drop_take)
    moreover have "length (bytes_read (unat off) (unat len) (contents ?r)) = unat k"
      using k length_contents [OF f] by (simp add: bytes_read_def)
    moreover have "ramfs_read s v len off = (c_int k, take (unat k) (drop (unat off) (rn_data ?r)))"
      using False assms(4) unfolding ramfs_read_def Let_def k_def assms(2) by simp
    ultimately show ?thesis by simp
  qed
  show "\<exists>s'. ramfs_write v buf len off s = Some (int (min (unat len) (4096 - unat off)), s') \<and>
      contents (rnodes s' n) = (if unat off < 4096
        then bytes_write (unat off) (take (4096 - unat off) buf) (contents ?r) else contents ?r) \<and>
      (\<forall>m. m \<noteq> n \<longrightarrow> rnodes s' m = rnodes s m)"
  proof (cases "unat off < 4096")
    case True
    note m = write_len_min [OF True assms(6)]
    have "ramfs_write v buf len off s \<noteq> None"
      using True m by (simp add: ramfs_write_unfold [OF assms(2,4) True])
    then obtain r s' where w: "ramfs_write v buf len off s = Some (r, s')" by auto
    from w assms(2) f assms(5) show ?thesis
    proof (cases rule: ramfs_write_cases)
      case (written k r')
      have "take k buf = take (4096 - unat off) buf" using written(3) m assms(5) by (simp add: min_def)
      then show ?thesis using w written m True by simp
    qed (use assms(4) True in simp_all)
  next
    case False
    then show ?thesis using assms(2,4) by (simp add: ramfs_write_def Let_def word_le_nat_alt)
  qed
  obtain r s' where t: "ramfs_truncate v sz s = (r, s')" by fastforce
  from t assms(2) f show "\<exists>s'. ramfs_truncate v sz s = (0, s') \<and>
      contents (rnodes s' n) = bytes_truncate (min (unat sz) 4096) (contents ?r) \<and>
      (\<forall>m. m \<noteq> n \<longrightarrow> rnodes s' m = rnodes s m)"
  proof (cases rule: ramfs_truncate_cases)
    case (cut r')
    then show ?thesis using t by simp
  qed (use assms(4) in simp)
qed

text \<open>
  C11. A used file node is a byte list of at most 4096 bytes: \<^verbatim>\<open>ramfs_read\<close> returns the
  bytes of the range that exist, \<^verbatim>\<open>ramfs_write\<close> overwrites at the offset, padding a gap
  with zeros and stopping at 4096, and \<^verbatim>\<open>ramfs_truncate\<close> cuts or zero-extends; each
  returns the number of bytes it moved.
\<close>

theorem ramfs_file_refines:
  fixes s :: "'a ramfs_state_scheme"
  assumes "ramfs_inv s" and "n = vn_data (g_vnode_pool s v)" and "rn_used s n"
    and "rn_type (rnodes s n) = VNODE_FILE" and "unat len = length buf" and "unat off + unat len < 2 ^ 64"
  shows "(ramfs_read s v len off =
      (int (length (bytes_read (unat off) (unat len) (contents (rnodes s n)))),
       bytes_read (unat off) (unat len) (contents (rnodes s n)))) \<and>
    (\<exists>s'. ramfs_write v buf len off s = Some (int (min (unat len) (4096 - unat off)), s') \<and>
      contents (rnodes s' n) = (if unat off < 4096
        then bytes_write (unat off) (take (4096 - unat off) buf) (contents (rnodes s n))
        else contents (rnodes s n)) \<and>
      (\<forall>m. m \<noteq> n \<longrightarrow> rnodes s' m = rnodes s m)) \<and>
    (\<exists>s'. ramfs_truncate v sz s = (0, s') \<and>
      contents (rnodes s' n) = bytes_truncate (min (unat sz) 4096) (contents (rnodes s n)) \<and>
      (\<forall>m. m \<noteq> n \<longrightarrow> rnodes s' m = rnodes s m))"
  using ramfs_file_ops [OF assms] by blast

section \<open>Running out of vnodes\<close>

lemma wrap_used:
  "ramfs_wrap_node n p s = (x, s') \<Longrightarrow>
   g_vnode_used s' = (case x of None \<Rightarrow> g_vnode_used s | Some i \<Rightarrow> (g_vnode_used s)(i := True))"
  by (cases s rule: alloc_vnode_cases) (auto simp: ramfs_wrap_node_def upd_vnode_def)

lemma set_out_used:
  "set_out b (ramfs_wrap_node n p s) = Some (r, x, s') \<Longrightarrow> g_vnode_used s i \<Longrightarrow> g_vnode_used s' i"
  using wrap_used [of n p s] by (cases "ramfs_wrap_node n p s") (auto simp: set_out_def split: if_splits option.splits)

lemma link_vnodes: "g_vnode_used (ramfs_link d name ty n s) = g_vnode_used s"
  by (simp add: ramfs_link_def Let_def)

lemma alloc_node_vnodes: "ramfs_alloc_node s = (x, s') \<Longrightarrow> g_vnode_used s' = g_vnode_used s"
  by (auto simp: ramfs_alloc_node_def split: option.splits)

lemma ramfs_lookup_used:
  assumes "ramfs_lookup v name s = Some (r, x, s')"
  shows "g_vnode_used s' = (case x of None \<Rightarrow> g_vnode_used s | Some i \<Rightarrow> (g_vnode_used s)(i := True)) \<and>
    (\<forall>i. x = Some i \<longrightarrow> \<not> g_vnode_used s i)"
proof -
  obtain f where "ramfs_find s (vn_data (g_vnode_pool s v)) name = Some f"
    and r: "(case f of None \<Rightarrow> (- ENOENT, None, s)
      | Some (c, _) \<Rightarrow> (case ramfs_wrap_node c (Some v) s of (y, s1) \<Rightarrow> (0, y, s1))) = (r, x, s')"
    using assms by (auto simp: ramfs_lookup_def bind_eq_Some_conv)
  show ?thesis
  proof (cases f)
    case None
    then show ?thesis using r by auto
  next
    case (Some cq)
    then have "ramfs_wrap_node (fst cq) (Some v) s = (x, s')" using r by (auto split: prod.splits)
    then show ?thesis using wrap_used wrap_parts(3) by blast
  qed
qed

lemma ramfs_step_vnodes:
  assumes "ramfs_step s s'" and "g_vnode_used s i"
  shows "g_vnode_used s' i"
  using assms
proof (cases rule: ramfs_step.cases)
  case (step_lookup v name r x)
  then show ?thesis using assms(2) ramfs_lookup_used [of v name s r x s'] by (auto split: option.splits)
next
  case (step_create v name b r x)
  then show ?thesis using assms(2)
    by (auto simp: ramfs_create_def Let_def bind_eq_Some_conv link_vnodes split: option.splits prod.splits if_splits
        dest!: alloc_node_vnodes intro: set_out_used)
next
  case (step_mkdir v name b r x)
  then show ?thesis using assms(2)
    by (auto simp: ramfs_mkdir_def Let_def bind_eq_Some_conv link_vnodes split: option.splits prod.splits if_splits
        dest!: alloc_node_vnodes intro: set_out_used)
next
  case (step_unlink v name r)
  then obtain f where "ramfs_find s (vn_data (g_vnode_pool s v)) name = Some f"
    by (auto simp: ramfs_unlink_def Let_def bind_eq_Some_conv)
  then have "g_vnode_used s' = g_vnode_used s" using step_unlink(2)
    by (cases f; cases "snd (the f)") (auto simp: ramfs_unlink_def Let_def split: if_splits)
  then show ?thesis using assms(2) by simp
next
  case (step_write len buf v off r)
  then show ?thesis using assms(2) ramfs_data_shape [OF disjI1 [OF step_write(2)]] by auto
next
  case (step_truncate v sz r)
  then show ?thesis using assms(2) ramfs_data_shape [OF disjI2 [OF step_truncate]] by auto
qed

lemma ramfs_steps_vnodes: "ramfs_step\<^sup>*\<^sup>* s s' \<Longrightarrow> g_vnode_used s i \<Longrightarrow> g_vnode_used s' i"
  by (induction rule: rtranclp_induct) (auto intro: ramfs_step_vnodes)

lemma ramfs_lookup_full:
  assumes "ramfs_inv s" and "is_dir s (vn_data (g_vnode_pool s v))"
    and "entry_of s (vn_data (g_vnode_pool s v)) name = Some c" and "\<forall>i<VNODE_POOL_SIZE. g_vnode_used s i"
  shows "ramfs_lookup v name s = Some (0, None, s)"
proof -
  obtain cs where cs: "dir_ok s (vn_data (g_vnode_pool s v)) cs" by (rule ramfs_invD [OF assms(1,2)])
  obtain q where "list_find (rnodes s) name None cs = Some (c, q)"
    using entry_of_find [OF cs assms(3)] by blast
  moreover have "vfs_alloc_vnode s = (None, s)"
    by (cases s rule: alloc_vnode_cases) (use assms(4) in auto)
  then have "ramfs_wrap_node c (Some v) s = (None, s)" by (simp add: ramfs_wrap_node_def)
  ultimately show ?thesis
    using ramfs_lookup_spec [OF assms(1,2) cs refl, of name] by simp
qed

lemma ramfs_lookup_takes:
  "ramfs_lookup v name s = Some (r, Some x, s') \<Longrightarrow>
     \<not> g_vnode_used s x \<and> g_vnode_used s' x"
  using ramfs_lookup_used [of v name s r "Some x" s'] by simp

text \<open>
  C12. No operation of the file system gives a vnode back (\<^verbatim>\<open>vfs_free_vnode\<close> has no caller), and
  every lookup that finds the name takes one that was free.  So once the 256 vnodes are taken,
  whatever operations follow, looking up a name that exists in a directory in use returns 0, the
  code of success, with \<^verbatim>\<open>NULL\<close> as the vnode.
\<close>

theorem ramfs_lookup_exhausted:
  assumes "ramfs_inv s" and "ramfs_step\<^sup>*\<^sup>* s s'"
  shows "(\<forall>i. g_vnode_used s i \<longrightarrow> g_vnode_used s' i) \<and>
    (\<forall>v name r x s''. ramfs_lookup v name s' = Some (r, Some x, s'') \<longrightarrow> \<not> g_vnode_used s' x \<and> g_vnode_used s'' x) \<and>
    ((\<forall>i<VNODE_POOL_SIZE. g_vnode_used s i) \<longrightarrow>
     (\<forall>v name c. is_dir s' (vn_data (g_vnode_pool s' v)) \<longrightarrow>
        entry_of s' (vn_data (g_vnode_pool s' v)) name = Some c \<longrightarrow>
        ramfs_lookup v name s' = Some (0, None, s')))"
proof -
  have inv: "ramfs_inv s'" using assms(2,1) by (induction rule: rtranclp_induct) (auto intro: ramfs_step_inv)
  have all: "\<forall>i<VNODE_POOL_SIZE. g_vnode_used s' i" if "\<forall>i<VNODE_POOL_SIZE. g_vnode_used s i"
    using that ramfs_steps_vnodes [OF assms(2)] by blast
  show ?thesis using ramfs_steps_vnodes [OF assms(2)] ramfs_lookup_takes ramfs_lookup_full [OF inv _ _ all] by blast
qed

section \<open>A small file system\<close>

declare One_nat_def [simp del]

definition ramfs0 :: ramfs_state where
  "ramfs0 = \<lparr>g_vnode_pool = (\<lambda>_. zero_vnode), g_vnode_used = (\<lambda>_. False),
     rnodes = (\<lambda>_. zero_node), rn_used = (\<lambda>_. False), rn_base = 0\<rparr>"

definition root_fs :: ramfs_state where
  "root_fs = snd (ramfs_init ramfs0)"

text \<open>The root with one file, \<open>a\<close>, in node 1.\<close>

definition file_fs :: ramfs_state where
  "file_fs = (case ramfs_create 0 [97] False root_fs of Some (_, _, s) \<Rightarrow> s | None \<Rightarrow> root_fs)"

lemma first_unused_0: "0 < n \<Longrightarrow> \<not> u 0 \<Longrightarrow> first_unused u n = Some 0"
  by (simp add: first_unused_def upt_rec)

lemma first_unused_1: "1 < n \<Longrightarrow> u 0 \<Longrightarrow> \<not> u (Suc 0) \<Longrightarrow> first_unused u n = Some 1"
  using upt_conv_Cons [of 0 n] upt_conv_Cons [of "Suc 0" n]
  by (simp add: first_unused_def One_nat_def)

lemma root_fs_init: "ramfs_init ramfs0 = (Some 0, root_fs)"
  by (simp add: root_fs_def ramfs_init_def ramfs_alloc_node_def ramfs_wrap_node_def vfs_alloc_vnode_def
      first_unused_0 ramfs0_def upd_node_def)

lemma root_fs_ok: "ramfs_inv root_fs" "is_dir root_fs 0" "vn_data (g_vnode_pool root_fs 0) = 0"
  "dir_ok root_fs 0 []"
proof -
  show d: "vn_data (g_vnode_pool root_fs 0) = 0"
    by (simp add: root_fs_def ramfs_init_def ramfs_alloc_node_def ramfs_wrap_node_def vfs_alloc_vnode_def
        first_unused_0 ramfs0_def upd_node_def)
  note i = ramfs_init_inv [OF root_fs_init]
  show "ramfs_inv root_fs" "is_dir root_fs 0" "dir_ok root_fs 0 []"
    using i d by (simp_all add: ramfs0_def)
qed

lemma root_fs_child: "rn_child (rnodes root_fs 0) = None"
  using root_fs_ok(4) by (simp add: dir_ok_def dir_chain_def)

lemma root_fs_used: "rn_used root_fs = (\<lambda>i. i = 0)" "g_vnode_used root_fs = (\<lambda>i. i = 0)"
  by (auto simp: root_fs_def ramfs_init_def ramfs_alloc_node_def ramfs_wrap_node_def vfs_alloc_vnode_def
      first_unused_0 ramfs0_def upd_node_def upd_vnode_def fun_eq_iff)

lemma file_fs_create:
  "ramfs_create 0 [97] False root_fs = Some (0, Some 1, file_fs)"
  "rn_used file_fs 1" "rn_type (rnodes file_fs 1) = VNODE_FILE" "vn_data (g_vnode_pool file_fs 1) = 1"
  "contents (rnodes file_fs 1) = []" "vn_data (g_vnode_pool file_fs 0) = 0" "rn_name (rnodes file_fs 1) = [97]"
  using ramfs_find_ok [OF root_fs_ok(4), of "[97]"] root_fs_ok(3)
  by (simp_all add: file_fs_def ramfs_create_def Let_def ramfs_alloc_node_def ramfs_wrap_node_def
      vfs_alloc_vnode_def root_fs_used first_unused_1 set_out_def ramfs_link_def zero_node_def contents_def
      upd_node_def upd_vnode_def)

lemma file_fs_ok: "ramfs_inv file_fs" "is_dir file_fs 0" "entry_of file_fs 0 [97] = Some 1"
  "entry_of file_fs 0 [65] = Some 1"
proof -
  have "ramfs_step root_fs file_fs"
    by (rule step_create [where v = 0, OF _ file_fs_create(1)]) (simp add: root_fs_ok)
  then show i: "ramfs_inv file_fs" using ramfs_step_inv root_fs_ok(1) by blast
  have "rn_used file_fs 0 \<and> rn_type (rnodes file_fs 0) = VNODE_DIR \<and> rn_child (rnodes file_fs 0) = Some 1"
    using ramfs_find_ok [OF root_fs_ok(4), of "[97]"] root_fs_ok(2,3)
    by (simp add: file_fs_def ramfs_create_def Let_def ramfs_alloc_node_def ramfs_wrap_node_def
      vfs_alloc_vnode_def root_fs_used first_unused_1 set_out_def ramfs_link_def zero_node_def
      upd_node_def upd_vnode_def is_dir_def)
  then show "is_dir file_fs 0" "entry_of file_fs 0 [97] = Some 1" "entry_of file_fs 0 [65] = Some 1"
    using file_fs_create(7)
    by (simp_all add: is_dir_def entry_of_def ramfs_find_def ramfs_scan.simps [of _ _ _ "Some 1"] lower_def)
qed

theorem ramfs_reachable_inv_witness:
  "ramfs_inv file_fs \<and> rn_used file_fs 1 \<and> (child_of file_fs)\<^sup>*\<^sup>* 0 1 \<and> \<not> child_of file_fs 1 0"
proof -
  have "ramfs_step root_fs file_fs"
    by (rule step_create [where v = 0, OF _ file_fs_create(1)]) (simp add: root_fs_ok)
  then have "ramfs_step\<^sup>*\<^sup>* root_fs file_fs" by simp
  from ramfs_reachable_inv [OF root_fs_init _ this refl] show ?thesis
    by (simp add: ramfs0_def file_fs_create root_fs_ok)
qed

text \<open>
  Why the steps make entries in directories in use only.  A shell that stands in a directory some
  other program removed still has its vnode; the node it makes there is the first free one, the
  removed directory itself, which becomes its own entry, out of the root's reach.
\<close>

lemma mkdir_in_removed:
  "\<exists>s1 s2 s3 x. ramfs_mkdir 0 [97] False root_fs = Some (0, Some 1, s1) \<and>
     ramfs_unlink 0 [97] s1 = Some (0, s2) \<and> ramfs_mkdir 1 [98] False s2 = Some (0, x, s3) \<and>
     rn_used s3 1 \<and> child_of s3 1 1"
proof -
  define s1 where "s1 = snd (snd (the (ramfs_mkdir 0 [97] False root_fs)))"
  have m: "ramfs_mkdir 0 [97] False root_fs = Some (0, Some 1, s1)"
    and n0: "rn_child (rnodes s1 0) = Some 1" "rn_type (rnodes s1 0) = VNODE_DIR" "\<And>i. rn_used s1 i \<longleftrightarrow> i = 0 \<or> i = 1"
    and n1: "rnodes s1 1 = zero_node\<lparr>rn_type := VNODE_DIR, rn_name := [97], rn_parent := Some 0\<rparr>"
    and v: "vn_data (g_vnode_pool s1 0) = 0" "vn_data (g_vnode_pool s1 1) = 1"
    using ramfs_find_ok [OF root_fs_ok(4), of "[97]"] root_fs_ok(2,3) root_fs_child
    by (simp_all add: s1_def ramfs_mkdir_def Let_def ramfs_alloc_node_def ramfs_wrap_node_def is_dir_def
        vfs_alloc_vnode_def root_fs_used first_unused_1 set_out_def ramfs_link_def zero_node_def
        upd_node_def upd_vnode_def)
  define s2 where "s2 = snd (the (ramfs_unlink 0 [97] s1))"
  have "ramfs_find s1 0 [97] = Some (Some (1, None))"
    by (simp add: ramfs_find_def n0 n1 ramfs_scan.simps [of _ _ _ "Some 1"])
  then have u: "ramfs_unlink 0 [97] s1 = Some (0, s2)" "rn_used s2 = (\<lambda>i. i = 0)" "rnodes s2 1 = rnodes s1 1"
      "g_vnode_pool s2 = g_vnode_pool s1"
    by (auto simp: s2_def ramfs_unlink_def Let_def v n0 n1 zero_node_def fun_eq_iff)
  obtain x s3 where c: "ramfs_mkdir 1 [98] False s2 = Some (0, x, s3)"
    and n3: "rn_used s3 1" "rnodes s3 1 = zero_node\<lparr>rn_type := VNODE_DIR, rn_name := [98], rn_parent := Some 1, rn_child := Some 1\<rparr>"
  proof -
    let ?s = "ramfs_link 1 [98] VNODE_DIR 1 (s2\<lparr>rnodes := (rnodes s2)(1 := zero_node), rn_used := (rn_used s2)(1 := True)\<rparr>)"
    have f: "ramfs_find s2 1 [98] = Some None"
      by (simp add: ramfs_find_def u n1 zero_node_def ramfs_scan.simps [of _ _ _ None])
    obtain y s4 where w: "ramfs_wrap_node 1 (Some 1) ?s = (y, s4)" by fastforce
    have "ramfs_mkdir 1 [98] False s2 = Some (0, y, s4)"
      using w by (simp add: ramfs_mkdir_def Let_def u(2,4) v f ramfs_alloc_node_def first_unused_1 set_out_def)
    moreover have "rnodes s4 = rnodes ?s" "rn_used s4 = rn_used ?s" using wrap_parts(1,2) [OF w] by simp_all
    ultimately show thesis
      using that [of y s4] by (simp add: ramfs_link_def Let_def zero_node_def)
  qed
  have "dir_ok s3 1 [1]" using n3 by (simp add: dir_ok_def dir_chain_def zero_node_def)
  then have "child_of s3 1 1" using n3 by (auto simp: child_of_def is_dir_def)
  then show ?thesis using m u(1) c n3(1) by blast
qed

theorem ramfs_create_spec_witness:
  "\<exists>x s'. ramfs_create 0 [65] False file_fs = Some (0, x, s') \<and> entry_of s' 0 [65] = Some 1"
  using ramfs_create_spec [OF file_fs_ok(1,2), of 0 "[65]"] file_fs_create(3,6) file_fs_ok(4) by auto

theorem ramfs_unlink_spec_witness:
  "\<exists>s'. ramfs_unlink 0 [97] file_fs = Some (0, s') \<and> entry_of s' 0 [97] = None \<and> \<not> rn_used s' 1"
  using ramfs_unlink_spec [OF file_fs_ok(1,2), of 0 "[97]"] file_fs_create(3,6) file_fs_ok(3) by auto

theorem ramfs_file_refines_witness:
  "ramfs_read file_fs 1 3 0 = (0, []) \<and>
   (\<exists>s'. ramfs_write 1 [1, 2, 3] 3 2 file_fs = Some (3, s') \<and> contents (rnodes s' 1) = [0, 0, 1, 2, 3])"
proof -
  have len: "unat (3 :: u64) = length [1, 2, 3 :: u8]" by simp
  have w: "bytes_write 2 [1, 2, 3] [] = [0, 0, 1, 2, 3]" "bytes_read 0 3 [] = []"
    by (simp_all add: bytes_write_def bytes_read_def pad_to_def splice_def numeral_2_eq_2)
  have n: "(1 :: nat) = vn_data (g_vnode_pool file_fs 1)" using file_fs_create(4) by simp
  have "unat (0 :: u64) + unat (3 :: u64) < 2 ^ 64" "unat (2 :: u64) + unat (3 :: u64) < 2 ^ 64" by simp_all
  from ramfs_file_refines [OF file_fs_ok(1) n file_fs_create(2,3) len this(1)]
    ramfs_file_refines [OF file_fs_ok(1) n file_fs_create(2,3) len this(2)]
  show ?thesis using w by (simp add: file_fs_create(5)) blast
qed

text \<open>With every vnode taken a file is still made, and is found without a vnode from then on.\<close>

theorem ramfs_lookup_exhausted_witness:
  "\<exists>s s' :: ramfs_state. (\<forall>i<VNODE_POOL_SIZE. g_vnode_used s i) \<and> ramfs_create 0 [97] False s = Some (0, None, s') \<and>
     entry_of s' 0 [97] = Some 1 \<and> ramfs_lookup 0 [97] s' = Some (0, None, s')"
proof -
  define s where "s = root_fs\<lparr>g_vnode_used := (\<lambda>_. True)\<rparr>"
  have i: "ramfs_inv s" and d: "is_dir s 0" and v: "vn_data (g_vnode_pool s 0) = 0" and c: "dir_ok s 0 []"
    and u: "rn_used s = (\<lambda>i. i = 0)" and a: "\<forall>i<VNODE_POOL_SIZE. g_vnode_used s i"
    using root_fs_ok ramfs_inv_cong [of s root_fs] dir_ok_cong [of s root_fs] root_fs_used
    by (simp_all add: s_def is_dir_def)
  define s' where "s' = snd (snd (the (ramfs_create 0 [97] False s)))"
  have n: "vfs_alloc_vnode t = (None, t)" if "g_vnode_used t = (\<lambda>_. True)" for t :: ramfs_state
    by (cases t rule: alloc_vnode_cases) (use that in auto)
  have cr: "ramfs_create 0 [97] False s = Some (0, None, s')"
    and s': "vn_data (g_vnode_pool s' 0) = 0" "rn_child (rnodes s' 0) = Some 1" "rn_name (rnodes s' 1) = [97]"
      "is_dir s' 0"
    using ramfs_find_ok [OF c, of "[97]"] v d
    by (simp_all add: s'_def ramfs_create_def Let_def ramfs_alloc_node_def ramfs_wrap_node_def n s_def [THEN arg_cong, of g_vnode_used]
        u first_unused_1 set_out_def ramfs_link_def zero_node_def upd_node_def is_dir_def)
  have "ramfs_step s s'" by (rule step_create [where v = 0, OF _ cr]) (simp add: v d)
  then have st: "ramfs_step\<^sup>*\<^sup>* s s'" by simp
  have e: "entry_of s' 0 [97] = Some 1"
    by (simp add: entry_of_def ramfs_find_def s' ramfs_scan.simps [of _ _ _ "Some 1"])
  have "ramfs_lookup 0 [97] s' = Some (0, None, s')"
    using ramfs_lookup_exhausted [OF i st] a e s' by simp
  then show ?thesis using a cr e by blast
qed

end
