(* ===== verification/Blk.thy ===== *)
theory Blk
  imports Kstring
begin

text \<open>
  \<^verbatim>\<open>kernel/blk.c\<close>: reads and writes of consecutive 512-byte sectors through the virtio
  driver.  What the driver does for one sector is the device model \<open>blk_dev\<close>: the bytes it
  holds and the sectors on which a request fails.  A locale states what the file system relies
  on: a sector reads back as last written, and a write touches no other sector.
\<close>

record blk_dev =
  sectors :: "u64 \<Rightarrow> u8 list"
  read_fails :: "u64 \<Rightarrow> bool"
  write_fails :: "u64 \<Rightarrow> bool"

definition disk_read :: "blk_dev \<Rightarrow> u64 \<Rightarrow> u8 list option" where
  "disk_read d lba = (if read_fails d lba then None else Some (sectors d lba))"

definition disk_write :: "u64 \<Rightarrow> u8 list \<Rightarrow> blk_dev \<Rightarrow> blk_dev option" where
  "disk_write lba bs d =
     (if write_fails d lba then None else Some (d\<lparr>sectors := (sectors d)(lba := bs)\<rparr>))"

text \<open>The bytes read so far come back with the status.\<close>

fun blk_read_loop :: "blk_dev \<Rightarrow> u64 \<Rightarrow> nat \<Rightarrow> int \<times> u8 list" where
  "blk_read_loop d lba 0 = (0, [])"
| "blk_read_loop d lba (Suc n) =
     (case disk_read d lba of
        None \<Rightarrow> (- 1, [])
      | Some bs \<Rightarrow> (case blk_read_loop d (lba + 1) n of (r, rest) \<Rightarrow> (r, bs @ rest)))"

definition blk_read :: "blk_dev \<Rightarrow> u64 \<Rightarrow> u32 \<Rightarrow> int \<times> u8 list" where
  "blk_read d lba count = blk_read_loop d lba (unat count)"

fun blk_write_loop :: "u64 \<Rightarrow> u8 list \<Rightarrow> nat \<Rightarrow> blk_dev \<Rightarrow> int \<times> blk_dev" where
  "blk_write_loop lba src 0 d = (0, d)"
| "blk_write_loop lba src (Suc n) d =
     (case disk_write lba (take 512 src) d of
        None \<Rightarrow> (- 1, d)
      | Some d1 \<Rightarrow> blk_write_loop (lba + 1) (drop 512 src) n d1)"

definition blk_write :: "u64 \<Rightarrow> u8 list \<Rightarrow> u32 \<Rightarrow> blk_dev \<Rightarrow> int \<times> blk_dev" where
  "blk_write lba src count d = blk_write_loop lba src (unat count) d"

section \<open>The sector interface\<close>

text \<open>\<open>ok d\<close>: no request fails and every sector has 512 bytes.\<close>

definition dev_ok :: "blk_dev \<Rightarrow> bool" where
  "dev_ok d \<longleftrightarrow> (\<forall>l. \<not> read_fails d l \<and> \<not> write_fails d l \<and> length (sectors d l) = 512)"

locale sector_store =
  fixes ok :: "'d \<Rightarrow> bool"
    and rd :: "'d \<Rightarrow> u64 \<Rightarrow> int \<times> u8 list"
    and wr :: "u64 \<Rightarrow> u8 list \<Rightarrow> 'd \<Rightarrow> int \<times> 'd"
  assumes rd_ok: "ok d \<Longrightarrow> \<exists>bs. rd d l = (0, bs) \<and> length bs = 512"
    and wr_ok: "ok d \<Longrightarrow> length bs = 512 \<Longrightarrow> \<exists>d'. wr l bs d = (0, d') \<and> ok d'"
    and rd_wr: "ok d \<Longrightarrow> length bs = 512 \<Longrightarrow> rd (snd (wr l bs d)) k = (if k = l then (0, bs) else rd d k)"
begin

text \<open>What a sector holds.\<close>

definition sec :: "'d \<Rightarrow> u64 \<Rightarrow> u8 list" where
  "sec d l = snd (rd d l)"

lemma rd_sec: "ok d \<Longrightarrow> rd d l = (0, sec d l) \<and> length (sec d l) = 512"
  using rd_ok [of d l] by (auto simp: sec_def)

lemma wr_sec:
  assumes "ok d" and "length bs = 512"
  shows "\<exists>d'. wr l bs d = (0, d') \<and> ok d' \<and> (\<forall>k. sec d' k = (if k = l then bs else sec d k))"
  using wr_ok [OF assms, of l] rd_wr [OF assms, of l] by (auto simp: sec_def)

end

lemma blk_read_1: "blk_read d l 1 = (if read_fails d l then (- 1, []) else (0, sectors d l))"
  by (simp add: blk_read_def disk_read_def)

lemma blk_write_1:
  "length bs \<le> 512 \<Longrightarrow> blk_write l bs 1 d =
     (if write_fails d l then (- 1, d) else (0, d\<lparr>sectors := (sectors d)(l := bs)\<rparr>))"
  by (simp add: blk_write_def disk_write_def)

interpretation blk: sector_store dev_ok "\<lambda>d l. blk_read d l 1" "\<lambda>l bs. blk_write l bs 1"
  by (unfold_locales) (auto simp: blk_read_1 blk_write_1 dev_ok_def)

lemma blk_sec [simp]: "dev_ok d \<Longrightarrow> blk.sec d l = sectors d l"
  unfolding blk.sec_def by (simp add: blk_read_1 dev_ok_def)

end
