(* ===== verification/Fat32_Vol.thy ===== *)
theory Fat32_Vol
  imports Blk
begin

text \<open>
  \<^verbatim>\<open>kernel/fat32.c\<close>, the volume: the mounted geometry \<^verbatim>\<open>struct fat32_fs\<close>, FAT entries,
  cluster allocation and cluster chains.  The volume is the geometry with the device; every
  function returns the C status code and the volume.  A loop over clusters is
  \<open>partial_function (option)\<close> where only the contents of the FAT end it.
\<close>

abbreviation FAT32_EOC :: u32 where "FAT32_EOC \<equiv> 0x0FFFFFF8"
abbreviation FAT32_MIN_CLUSTER :: u32 where "FAT32_MIN_CLUSTER \<equiv> 2"

record fat32_fs =
  part_lba :: u32
  fat_lba :: u32
  data_lba :: u32
  reserved_sectors :: u32
  total_sectors :: u32
  sectors_per_fat :: u32
  num_fats :: u32
  cluster_count :: u32
  sectors_per_cluster :: u32
  bytes_per_sector :: u32
  root_cluster :: u32
  alloc_hint :: u32

definition zero_fs :: fat32_fs where
  "zero_fs = \<lparr>part_lba = 0, fat_lba = 0, data_lba = 0, reserved_sectors = 0, total_sectors = 0,
     sectors_per_fat = 0, num_fats = 0, cluster_count = 0, sectors_per_cluster = 0,
     bytes_per_sector = 0, root_cluster = 0, alloc_hint = 0\<rparr>"

record fat_vol =
  v_fs :: fat32_fs
  v_dev :: blk_dev

definition le16 :: "u8 list \<Rightarrow> u16" where
  "le16 b = ucast (b ! 0) OR push_bit 8 (ucast (b ! 1))"

definition le32 :: "u8 list \<Rightarrow> u32" where
  "le32 b = ucast (b ! 0) OR push_bit 8 (ucast (b ! 1)) OR push_bit 16 (ucast (b ! 2)) OR
     push_bit 24 (ucast (b ! 3))"

definition fat32_cluster_to_lba :: "fat32_fs \<Rightarrow> u32 \<Rightarrow> u32" where
  "fat32_cluster_to_lba fs cluster = data_lba fs + (cluster - 2) * sectors_per_cluster fs"

text \<open>A sector of the volume: \<^verbatim>\<open>blk_read(lba, sector, 1)\<close> with a 32-bit sector number.\<close>

definition read_sector :: "fat_vol \<Rightarrow> u32 \<Rightarrow> int \<times> u8 list" where
  "read_sector v lba = blk_read (v_dev v) (ucast lba) 1"

definition write_sector :: "u32 \<Rightarrow> u8 list \<Rightarrow> fat_vol \<Rightarrow> int \<times> fat_vol" where
  "write_sector lba bs v = (case blk_write (ucast lba) bs 1 (v_dev v) of (r, d) \<Rightarrow> (r, v\<lparr>v_dev := d\<rparr>))"

definition fat32_read_fat_entry :: "fat_vol \<Rightarrow> u32 \<Rightarrow> int \<times> u32" where
  "fat32_read_fat_entry v cluster =
     (let fs = v_fs v;
          fat_offset = cluster * 4;
          sector_idx = fat_offset div bytes_per_sector fs;
          sector_off = fat_offset mod bytes_per_sector fs;
          lba = fat_lba fs + sector_idx in
      if bytes_per_sector fs \<noteq> 512 then (- EIO, 0)
      else
        (case read_sector v lba of
           (r, sector) \<Rightarrow>
             if r \<noteq> 0 then (- EIO, 0)
             else if 512 < sector_off + 4 then (- EIO, 0)
             else (0, le32 (drop (unat sector_off) sector) AND 0x0FFFFFFF)))"

text \<open>The four bytes stored; the top four bits of the entry are cleared.\<close>

definition fat_entry_bytes :: "u32 \<Rightarrow> u8 list" where
  "fat_entry_bytes value =
     [ucast (value AND 0xFF), ucast (drop_bit 8 value AND 0xFF), ucast (drop_bit 16 value AND 0xFF),
      ucast (drop_bit 24 value AND 0x0F)]"

definition set_bytes :: "nat \<Rightarrow> u8 list \<Rightarrow> u8 list \<Rightarrow> u8 list" where
  "set_bytes off bs sector = take off sector @ bs @ drop (off + length bs) sector"

fun write_fat_loop :: "u32 \<Rightarrow> u32 \<Rightarrow> u32 \<Rightarrow> nat \<Rightarrow> u32 \<Rightarrow> fat_vol \<Rightarrow> int \<times> fat_vol" where
  "write_fat_loop sector_idx sector_off value 0 fat v = (0, v)"
| "write_fat_loop sector_idx sector_off value (Suc n) fat v =
     (let lba = fat_lba (v_fs v) + fat * sectors_per_fat (v_fs v) + sector_idx in
      case read_sector v lba of
        (r, sector) \<Rightarrow>
          if r \<noteq> 0 then (- EIO, v)
          else
            (case write_sector lba (set_bytes (unat sector_off) (fat_entry_bytes value) sector) v of
               (r, v1) \<Rightarrow>
                 if r \<noteq> 0 then (- EIO, v1)
                 else write_fat_loop sector_idx sector_off value n (fat + 1) v1))"

definition fat32_write_fat_entry :: "u32 \<Rightarrow> u32 \<Rightarrow> fat_vol \<Rightarrow> int \<times> fat_vol" where
  "fat32_write_fat_entry cluster value v =
     (let fs = v_fs v;
          fat_offset = cluster * 4;
          sector_idx = fat_offset div bytes_per_sector fs;
          sector_off = fat_offset mod bytes_per_sector fs in
      if bytes_per_sector fs \<noteq> 512 then (- EIO, v)
      else write_fat_loop sector_idx sector_off value (unat (num_fats fs)) 0 v)"

fun zero_sectors :: "u32 \<Rightarrow> nat \<Rightarrow> fat_vol \<Rightarrow> int \<times> fat_vol" where
  "zero_sectors lba 0 v = (0, v)"
| "zero_sectors lba (Suc n) v =
     (case write_sector lba (replicate 512 0) v of
        (r, v1) \<Rightarrow> if r \<noteq> 0 then (- EIO, v1) else zero_sectors (lba + 1) n v1)"

definition fat32_zero_cluster :: "u32 \<Rightarrow> fat_vol \<Rightarrow> int \<times> fat_vol" where
  "fat32_zero_cluster cluster v =
     zero_sectors (fat32_cluster_to_lba (v_fs v) cluster) (unat (sectors_per_cluster (v_fs v))) v"

text \<open>
  One pass of the search, from \<open>c\<close> up to \<^verbatim>\<open>max_cluster\<close>. A first component
  \<open>None\<close> says that the pass ended without a result.
\<close>

partial_function (option) alloc_pass :: "u32 \<Rightarrow> u32 \<Rightarrow> fat_vol \<Rightarrow> (int option \<times> u32 \<times> fat_vol) option" where
  "alloc_pass c max_cluster v =
     (if \<not> c \<le> max_cluster then Some (None, 0, v)
      else
        (case fat32_read_fat_entry v c of
           (r, nxt) \<Rightarrow>
             if r \<noteq> 0 then Some (Some (- EIO), 0, v)
             else if nxt = 0 then
               (case fat32_write_fat_entry c FAT32_EOC v of
                  (r1, v1) \<Rightarrow>
                    if r1 \<noteq> 0 then Some (Some (- EIO), 0, v1)
                    else
                      (case fat32_zero_cluster c v1 of
                         (r2, v2) \<Rightarrow>
                           if r2 \<noteq> 0 then Some (Some (- EIO), 0, v2)
                           else Some (Some 0, c, v2\<lparr>v_fs := (v_fs v2)\<lparr>alloc_hint := c + 1\<rparr>\<rparr>)))
             else alloc_pass (c + 1) max_cluster v))"

definition fat32_alloc_cluster :: "fat_vol \<Rightarrow> (int \<times> u32 \<times> fat_vol) option" where
  "fat32_alloc_cluster v =
     (let hint = alloc_hint (v_fs v);
          max_cluster = cluster_count (v_fs v) + 1;
          start = (if hint < FAT32_MIN_CLUSTER then FAT32_MIN_CLUSTER else hint) in
      do { p1 \<leftarrow> alloc_pass start max_cluster v;
           (case p1 of
              (Some r, c, v1) \<Rightarrow> Some (r, c, v1)
            | (None, _, v1) \<Rightarrow>
                do { p2 \<leftarrow> alloc_pass FAT32_MIN_CLUSTER max_cluster v1;
                     Some (case p2 of
                             (Some r, c, v2) \<Rightarrow> (r, c, v2)
                           | (None, _, v2) \<Rightarrow> (- ENOSPC, 0, v2)) }) })"

partial_function (option) free_chain_loop :: "u32 \<Rightarrow> u32 \<Rightarrow> fat_vol \<Rightarrow> (int \<times> fat_vol) option" where
  "free_chain_loop cluster max_cluster v =
     (if \<not> (FAT32_MIN_CLUSTER \<le> cluster \<and> cluster \<le> max_cluster \<and> cluster < FAT32_EOC) then Some (0, v)
      else
        (case fat32_read_fat_entry v cluster of
           (r, nxt) \<Rightarrow>
             if r \<noteq> 0 then Some (- EIO, v)
             else
               (case fat32_write_fat_entry cluster 0 v of
                  (r1, v1) \<Rightarrow>
                    if r1 \<noteq> 0 then Some (- EIO, v1) else free_chain_loop nxt max_cluster v1)))"

definition fat32_free_chain :: "u32 \<Rightarrow> fat_vol \<Rightarrow> (int \<times> fat_vol) option" where
  "fat32_free_chain cluster v = free_chain_loop cluster (cluster_count (v_fs v) + 1) v"

text \<open>\<open>n\<close> is \<^verbatim>\<open>index - i\<close>, the steps left.\<close>

fun get_cluster_loop :: "fat_vol \<Rightarrow> u32 \<Rightarrow> nat \<Rightarrow> int \<times> u32" where
  "get_cluster_loop v cluster 0 =
     (if cluster < FAT32_MIN_CLUSTER \<or> FAT32_EOC \<le> cluster then (- ENOENT, 0) else (0, cluster))"
| "get_cluster_loop v cluster (Suc n) =
     (if cluster < FAT32_MIN_CLUSTER \<or> FAT32_EOC \<le> cluster then (- ENOENT, 0)
      else
        (case fat32_read_fat_entry v cluster of
           (r, nxt) \<Rightarrow> if r \<noteq> 0 then (- EIO, 0) else get_cluster_loop v nxt n))"

definition fat32_get_cluster_at :: "fat_vol \<Rightarrow> u32 \<Rightarrow> u32 \<Rightarrow> int \<times> u32" where
  "fat32_get_cluster_at v start index = get_cluster_loop v start (unat index)"

text \<open>
  The walk of \<^verbatim>\<open>fat32_ensure_chain\<close>: \<open>n\<close> clusters are still needed, counting the one at
  hand; \<open>Inl\<close> is a status to return, \<open>Inr\<close> the last cluster and how many are missing.
\<close>

fun ensure_walk :: "fat_vol \<Rightarrow> u32 \<Rightarrow> u32 \<Rightarrow> nat \<Rightarrow> int + u32 \<times> nat" where
  "ensure_walk v cluster lst 0 = Inl 0"
| "ensure_walk v cluster lst (Suc n) =
     (if \<not> cluster < FAT32_EOC then Inr (lst, Suc n)
      else if n = 0 then Inl 0
      else
        (case fat32_read_fat_entry v cluster of
           (r, nxt) \<Rightarrow>
             if r \<noteq> 0 then Inl (- EIO)
             else if FAT32_EOC \<le> nxt then Inr (cluster, n)
             else ensure_walk v nxt cluster n))"

fun ensure_extend :: "u32 \<Rightarrow> nat \<Rightarrow> fat_vol \<Rightarrow> (int \<times> fat_vol) option" where
  "ensure_extend lst 0 v = Some (0, v)"
| "ensure_extend lst (Suc n) v =
     do { (r, new_cluster, v1) \<leftarrow> fat32_alloc_cluster v;
          if r \<noteq> 0 then Some (- ENOSPC, v1)
          else
            (case fat32_write_fat_entry lst new_cluster v1 of
               (r1, v2) \<Rightarrow> if r1 \<noteq> 0 then Some (- EIO, v2) else ensure_extend new_cluster n v2) }"

text \<open>The start cluster is returned, since \<^verbatim>\<open>*start\<close> may be set.\<close>

definition fat32_ensure_chain :: "u32 \<Rightarrow> u32 \<Rightarrow> fat_vol \<Rightarrow> (int \<times> u32 \<times> fat_vol) option" where
  "fat32_ensure_chain start needed v =
     (if needed = 0 then Some (0, start, v)
      else
        do { (r, cluster, v1) \<leftarrow> (if start = 0 then fat32_alloc_cluster v else Some (0, start, v));
             if r \<noteq> 0 then Some (- ENOSPC, start, v1)
             else
               (case ensure_walk v1 cluster 0 (unat needed) of
                  Inl r \<Rightarrow> Some (r, cluster, v1)
                | Inr (lst, n) \<Rightarrow> do { (r, v2) \<leftarrow> ensure_extend lst n v1; Some (r, cluster, v2) }) })"

end
