(* ===== verification/Fat32_Dir.thy ===== *)
theory Fat32_Dir
  imports Fat32_Vol Vnode
begin

text \<open>
  \<^verbatim>\<open>kernel/fat32.c\<close>, directories: validation and shortening of names, the 32-byte entries,
  long-name fragments, the walk over a directory with its callback, and placing entries.
  An entry is its 32 bytes on disk, read through accessors at the offsets of
  \<^verbatim>\<open>struct fat_dirent_raw\<close> and \<^verbatim>\<open>struct fat_lfn_raw\<close>.
\<close>

abbreviation FAT_ATTR_VOLUME :: u8 where "FAT_ATTR_VOLUME \<equiv> 0x08"
abbreviation FAT_ATTR_DIR :: u8 where "FAT_ATTR_DIR \<equiv> 0x10"
abbreviation FAT_ATTR_ARCHIVE :: u8 where "FAT_ATTR_ARCHIVE \<equiv> 0x20"
abbreviation FAT_ATTR_LFN :: u8 where "FAT_ATTR_LFN \<equiv> 0x0F"
abbreviation FAT32_MAX_NAME :: nat where "FAT32_MAX_NAME \<equiv> 255"

section \<open>Entries\<close>

definition raw_name :: "u8 list \<Rightarrow> u8 list" where "raw_name raw = take 11 raw"
definition raw_attr :: "u8 list \<Rightarrow> u8" where "raw_attr raw = raw ! 11"
definition raw_clus_hi :: "u8 list \<Rightarrow> u16" where "raw_clus_hi raw = le16 (drop 20 raw)"
definition raw_clus_lo :: "u8 list \<Rightarrow> u16" where "raw_clus_lo raw = le16 (drop 26 raw)"
definition raw_size :: "u8 list \<Rightarrow> u32" where "raw_size raw = le32 (drop 28 raw)"

definition raw_cluster :: "u8 list \<Rightarrow> u32" where
  "raw_cluster raw = push_bit 16 (ucast (raw_clus_hi raw)) OR ucast (raw_clus_lo raw)"

definition lfn_ord :: "u8 list \<Rightarrow> u8" where "lfn_ord raw = raw ! 0"
definition lfn_checksum_of :: "u8 list \<Rightarrow> u8" where "lfn_checksum_of raw = raw ! 13"

text \<open>\<^verbatim>\<open>name1\<close>, \<^verbatim>\<open>name2\<close> and \<^verbatim>\<open>name3\<close> in order: 13 UTF-16 units.\<close>

definition lfn_char_offsets :: "nat list" where
  "lfn_char_offsets = [1, 3, 5, 7, 9, 14, 16, 18, 20, 22, 24, 28, 30]"

definition lfn_chars :: "u8 list \<Rightarrow> u16 list" where
  "lfn_chars raw = map (\<lambda>o'. le16 (drop o' raw)) lfn_char_offsets"

definition le16_bytes :: "u16 \<Rightarrow> u8 list" where
  "le16_bytes v = [ucast v, ucast (drop_bit 8 v)]"

definition le32_bytes :: "u32 \<Rightarrow> u8 list" where
  "le32_bytes v = [ucast v, ucast (drop_bit 8 v), ucast (drop_bit 16 v), ucast (drop_bit 24 v)]"

text \<open>
  A short entry: zero but for name, attributes, cluster and size.
\<close>

definition make_dirent :: "u8 list \<Rightarrow> u8 \<Rightarrow> u32 \<Rightarrow> u32 \<Rightarrow> u8 list" where
  "make_dirent name attr cluster sz =
     name @ [attr] @ replicate 8 0 @ le16_bytes (ucast (drop_bit 16 cluster)) @ replicate 4 0 @
     le16_bytes (ucast cluster) @ le32_bytes sz"

definition fat32_lfn_checksum :: "u8 list \<Rightarrow> u8" where
  "fat32_lfn_checksum shortname =
     fold (\<lambda>c sum. (if sum AND 1 \<noteq> 0 then 0x80 else 0) + drop_bit 1 sum + c) (take 11 shortname) 0"

section \<open>Names\<close>

definition fat32_is_invalid_char :: "u8 \<Rightarrow> bool" where
  "fat32_is_invalid_char c \<longleftrightarrow> c < 0x20 \<or> c = 0x7f \<or> 0x80 \<le> c \<or>
     c \<in> {0x22, 0x2A, 0x2F, 0x5C, 0x3A, 0x3C, 0x3E, 0x3F, 0x7C}"

fun validate_chars :: "nat \<Rightarrow> cstr \<Rightarrow> int" where
  "validate_chars len [] = 0"
| "validate_chars len (c # cs) =
     (if FAT32_MAX_NAME \<le> len then - ENAMETOOLONG
      else if fat32_is_invalid_char c then - EINVAL
      else validate_chars (Suc len) cs)"

abbreviation dot_name :: cstr where "dot_name \<equiv> [0x2E]"
abbreviation dotdot_name :: cstr where "dotdot_name \<equiv> [0x2E, 0x2E]"

definition fat32_validate_name :: "cstr \<Rightarrow> int" where
  "fat32_validate_name name =
     (if name = [] then - EINVAL
      else if strcmp name dot_name = 0 \<or> strcmp name dotdot_name = 0 then - EINVAL
      else validate_chars 0 name)"

definition fat32_is_short_char :: "u8 \<Rightarrow> bool" where
  "fat32_is_short_char c \<longleftrightarrow> (0x41 \<le> c \<and> c \<le> 0x5A) \<or> (0x30 \<le> c \<and> c \<le> 0x39) \<or>
     c \<in> {0x24, 0x25, 0x27, 0x2D, 0x5F, 0x40, 0x7E, 0x21, 0x23, 0x26, 0x28, 0x29, 0x5E}"

text \<open>The position of the last dot.\<close>

fun last_dot_from :: "nat \<Rightarrow> cstr \<Rightarrow> nat option \<Rightarrow> nat option" where
  "last_dot_from i [] d = d"
| "last_dot_from i (c # cs) d = last_dot_from (Suc i) cs (if c = 0x2E then Some i else d)"

definition fat32_last_dot :: "cstr \<Rightarrow> nat option" where
  "fat32_last_dot name = last_dot_from 0 name None"

text \<open>
  The loop that fills \<^verbatim>\<open>base\<close> and \<^verbatim>\<open>ext\<close>: upper case, \<^verbatim>\<open>_\<close> for a character short names
  lack, at most \<open>limit\<close> of them.  The flags are \<^verbatim>\<open>local_needs_lfn\<close> and \<^verbatim>\<open>simple\<close>.
\<close>

fun short_chars :: "nat \<Rightarrow> cstr \<Rightarrow> u8 list \<Rightarrow> bool \<Rightarrow> bool \<Rightarrow> u8 list \<times> bool \<times> bool" where
  "short_chars limit [] acc needs simple = (acc, needs, simple)"
| "short_chars limit (c # cs) acc needs simple =
     (let up = 0x61 \<le> c \<and> c \<le> 0x7A;
          c1 = (if up then c - 0x61 + 0x41 else c);
          bad = \<not> fat32_is_short_char c1;
          c2 = (if bad then 0x5F else c1);
          needs1 = (needs \<or> up \<or> bad) in
      if length acc < limit then short_chars limit cs (acc @ [c2]) needs1 simple
      else short_chars limit cs acc True False)"

definition pad_spaces :: "nat \<Rightarrow> u8 list \<Rightarrow> u8 list" where
  "pad_spaces n s = s @ replicate (n - length s) 0x20"

text \<open>\<^verbatim>\<open>out\<close> after the two copies over eleven spaces.\<close>

definition short_field :: "u8 list \<Rightarrow> u8 list \<Rightarrow> u8 list" where
  "short_field base ext = pad_spaces 8 base @ pad_spaces 3 ext"

definition short_parts :: "cstr \<Rightarrow> u8 list \<times> u8 list \<times> bool \<times> bool" where
  "short_parts name =
     (let dot = fat32_last_dot name;
          base_src = (case dot of None \<Rightarrow> name | Some d \<Rightarrow> take d name);
          ext_src = (case dot of None \<Rightarrow> [] | Some d \<Rightarrow> drop (Suc d) name);
          (base0, needs0) = (if base_src = [] then ([0x5F], True) else ([], False));
          (base, needs1, simple1) = short_chars 8 base_src base0 needs0 True;
          (ext, needs2, simple2) = short_chars 3 ext_src [] needs1 simple1 in
      if 8 < length base_src \<or> 3 < length ext_src then (base, ext, True, False)
      else (base, ext, needs2, simple2))"

text \<open>The name tried in round \<open>n\<close>: \<open>BASE~n\<close>, the base cut to make room.\<close>

definition tilde_name :: "u8 list \<Rightarrow> u8 list \<Rightarrow> nat \<Rightarrow> u8 list" where
  "tilde_name base ext n =
     (let keep = (if n < 10 then 6 else 5);
          suffix = (if n < 10 then [0x7E, of_nat (0x30 + n)]
                    else [0x7E, of_nat (0x30 + n div 10), of_nat (0x30 + n mod 10)])
      in short_field (take keep base @ suffix) ext)"

section \<open>Long-name fragments\<close>

definition fat32_lfn_char :: "cstr \<Rightarrow> nat \<Rightarrow> u64 \<Rightarrow> u16" where
  "fat32_lfn_char name name_len idx =
     (if unat idx < name_len then ucast (name ! unat idx)
      else if unat idx = name_len then 0 else 0xFFFF)"

text \<open>\<^verbatim>\<open>((size_t)(ord & 0x1F) - 1) * 13\<close>, wrapped when \<^verbatim>\<open>ord\<close> is 0.\<close>

definition lfn_base :: "u8 \<Rightarrow> u64" where
  "lfn_base ord = (ucast (ord AND 0x1F) - 1) * 13"

definition fat32_fill_lfn_entry :: "cstr \<Rightarrow> nat \<Rightarrow> u8 \<Rightarrow> u8 \<Rightarrow> u8 list" where
  "fat32_fill_lfn_entry name name_len ord checksum =
     (let ch = (\<lambda>i. le16_bytes (fat32_lfn_char name name_len (lfn_base ord + of_nat i)))
      in [ord] @ concat (map ch [0..<5]) @ [FAT_ATTR_LFN, 0, checksum] @ concat (map ch [5..<11]) @
         [0, 0] @ concat (map ch [11..<13]))"

abbreviation lfn_clear :: "u8 list" where
  "lfn_clear \<equiv> replicate 256 0"

fun lfn_put :: "u8 list \<Rightarrow> nat \<Rightarrow> u16 list \<Rightarrow> u8 list" where
  "lfn_put lfn pos [] = lfn"
| "lfn_put lfn pos (c # cs) =
     (if FAT32_MAX_NAME \<le> pos then lfn
      else lfn_put (lfn[pos := (if c = 0 \<or> c = 0xFFFF then 0 else ucast (c AND 0xFF))]) (Suc pos) cs)"

definition fat32_lfn_write :: "u8 list \<Rightarrow> u8 list \<Rightarrow> u8 list" where
  "fat32_lfn_write lfn raw = lfn_put lfn (unat (lfn_base (lfn_ord raw))) (lfn_chars raw)"

section \<open>The walk over a directory\<close>

record lfn_state =
  l_buf :: "u8 list"
  l_checksum :: u8
  l_valid :: bool
  l_count :: u32

definition lfn_init :: lfn_state where
  "lfn_init = \<lparr>l_buf = lfn_clear, l_checksum = 0, l_valid = False, l_count = 0\<rparr>"

text \<open>The 8.3 name as text: the base up to its first space, a dot and the extension.\<close>

definition short_to_name :: "u8 list \<Rightarrow> cstr" where
  "short_to_name raw =
     (let base = takeWhile (\<lambda>c. c \<noteq> 0x20) (take 8 raw);
          ext = takeWhile (\<lambda>c. c \<noteq> 0x20) (take 3 (drop 8 raw))
      in cstr_of (base @ (if raw ! 8 \<noteq> 0x20 then [0x2E] @ ext else [])))"

definition entry_name :: "lfn_state \<Rightarrow> u8 list \<Rightarrow> cstr" where
  "entry_name l raw =
     (if l_valid l \<and> l_buf l ! 0 \<noteq> 0 \<and> l_checksum l = fat32_lfn_checksum (raw_name raw)
      then take FAT32_MAX_NAME (cstr_of (l_buf l)) else short_to_name raw)"

type_synonym 'c dir_cb = "u8 list \<Rightarrow> cstr \<Rightarrow> u32 \<Rightarrow> u32 \<Rightarrow> u64 \<Rightarrow> u32 \<Rightarrow> 'c \<Rightarrow> int \<times> 'c"

text \<open>
  One entry: \<open>Some r\<close> ends the walk with \<open>r\<close>.
\<close>

definition iter_entry ::
    "'c dir_cb \<Rightarrow> u8 list \<Rightarrow> u32 \<Rightarrow> u32 \<Rightarrow> u64 \<Rightarrow> lfn_state \<Rightarrow> 'c \<Rightarrow> int option \<times> lfn_state \<times> 'c" where
  "iter_entry cb raw lba off index l ctx =
     (if raw ! 0 = 0x00 then (Some 0, l, ctx)
      else if raw ! 0 = 0xE5 then (None, l\<lparr>l_valid := False, l_count := 0\<rparr>, ctx)
      else if raw_attr raw = FAT_ATTR_LFN then
        (let l1 = (if lfn_ord raw AND 0x40 \<noteq> 0
                   then \<lparr>l_buf = lfn_clear, l_checksum = lfn_checksum_of raw, l_valid = True, l_count = 0\<rparr>
                   else l) in
         if l_valid l1 \<and> lfn_checksum_of raw = l_checksum l1
         then (None, l1\<lparr>l_buf := fat32_lfn_write (l_buf l1) raw, l_count := l_count l1 + 1\<rparr>, ctx)
         else (None, l1\<lparr>l_valid := False, l_count := 0\<rparr>, ctx))
      else if raw_attr raw AND FAT_ATTR_VOLUME \<noteq> 0 then (None, l\<lparr>l_valid := False, l_count := 0\<rparr>, ctx)
      else
        (case cb raw (entry_name l raw) lba off index (l_count l) ctx of
           (r, ctx1) \<Rightarrow> if r \<noteq> 0 then (Some r, l\<lparr>l_valid := False\<rparr>, ctx1)
                        else (None, l\<lparr>l_valid := False, l_count := 0\<rparr>, ctx1)))"

text \<open>The entries of one sector, \<open>n\<close> of them left.\<close>

fun iter_sector ::
    "'c dir_cb \<Rightarrow> u8 list \<Rightarrow> u32 \<Rightarrow> nat \<Rightarrow> u64 \<Rightarrow> lfn_state \<Rightarrow> 'c \<Rightarrow> int option \<times> u64 \<times> lfn_state \<times> 'c" where
  "iter_sector cb sector lba 0 index l ctx = (None, index, l, ctx)"
| "iter_sector cb sector lba (Suc n) index l ctx =
     (let off = 32 * (15 - n) in
      case iter_entry cb (take 32 (drop off sector)) lba (of_nat off) index l ctx of
        (Some r, l1, ctx1) \<Rightarrow> (Some r, index, l1, ctx1)
      | (None, l1, ctx1) \<Rightarrow> iter_sector cb sector lba n (index + 1) l1 ctx1)"

text \<open>Sectors \<open>k\<close>, \<open>k + 1\<close>, .. of a cluster; \<^verbatim>\<open>lba + s\<close> is a 64-bit sum.\<close>

fun iter_cluster ::
    "'c dir_cb \<Rightarrow> fat_vol \<Rightarrow> u32 \<Rightarrow> u64 \<Rightarrow> nat \<Rightarrow> u64 \<Rightarrow> lfn_state \<Rightarrow> 'c \<Rightarrow> int option \<times> u64 \<times> lfn_state \<times> 'c" where
  "iter_cluster cb v lba k 0 index l ctx = (None, index, l, ctx)"
| "iter_cluster cb v lba k (Suc n) index l ctx =
     (case blk_read (v_dev v) (ucast lba + k) 1 of
        (r, sector) \<Rightarrow>
          if r \<noteq> 0 then (Some (- EIO), index, l, ctx)
          else
            (case iter_sector cb sector (lba + ucast k) 16 index l ctx of
               (Some r, i1, l1, ctx1) \<Rightarrow> (Some r, i1, l1, ctx1)
             | (None, i1, l1, ctx1) \<Rightarrow> iter_cluster cb v lba (k + 1) n i1 l1 ctx1))"

partial_function (option) iter_chain ::
    "'c dir_cb \<Rightarrow> fat_vol \<Rightarrow> u32 \<Rightarrow> u64 \<Rightarrow> lfn_state \<Rightarrow> 'c \<Rightarrow> (int \<times> 'c) option" where
  "iter_chain cb v cluster index l ctx =
     (if \<not> cluster < FAT32_EOC then Some (0, ctx)
      else
        (case iter_cluster cb v (fat32_cluster_to_lba (v_fs v) cluster) 0
                (unat (sectors_per_cluster (v_fs v))) index l ctx of
           (res, i1, l1, ctx1) \<Rightarrow>
             if res \<noteq> None then Some (the res, ctx1)
             else
               (case fat32_read_fat_entry v cluster of
                  (r, nxt) \<Rightarrow>
                    if r \<noteq> 0 then Some (- EIO, ctx1) else iter_chain cb v nxt i1 l1 ctx1)))"

definition fat32_iter_dir :: "fat_vol \<Rightarrow> u32 \<Rightarrow> 'c dir_cb \<Rightarrow> 'c \<Rightarrow> (int \<times> 'c) option" where
  "fat32_iter_dir v start_cluster cb ctx = iter_chain cb v start_cluster 0 lfn_init ctx"

section \<open>Callbacks\<close>

definition fat32_short_exists_cb :: "u8 list \<Rightarrow> bool dir_cb" where
  "fat32_short_exists_cb shortname raw nm lba off index lc found =
     (if memcmp (raw_name raw) shortname 11 = 0 then (1, True) else (0, found))"

definition fat32_short_exists :: "fat_vol \<Rightarrow> u32 \<Rightarrow> u8 list \<Rightarrow> bool option" where
  "fat32_short_exists v dir_cluster shortname =
     do { (r, found) \<leftarrow> fat32_iter_dir v dir_cluster (fat32_short_exists_cb shortname) False;
          Some (r \<noteq> 0 \<or> found) }"

text \<open>The context of \<^verbatim>\<open>fat32_readdir_cb\<close>: how many entries are still to be skipped is \<^verbatim>\<open>want - idx\<close>.\<close>

definition fat32_readdir_cb :: "u64 \<Rightarrow> (u64 \<times> vfs_dirent option) dir_cb" where
  "fat32_readdir_cb want raw nm lba off index lc c =
     (if strcmp nm dot_name = 0 \<or> strcmp nm dotdot_name = 0 then (0, c)
      else if fst c = want then
        (1, (fst c, Some \<lparr>d_name = nm,
               d_type = vnode_type_num (if raw_attr raw AND FAT_ATTR_DIR \<noteq> 0 then VNODE_DIR else VNODE_FILE),
               d_ino = push_bit 16 (ucast (raw_clus_hi raw)) OR ucast (raw_clus_lo raw)\<rparr>))
      else (0, (fst c + 1, snd c)))"

record found_entry =
  f_raw :: "u8 list"
  f_lba :: u32
  f_off :: u32
  f_index :: u64
  f_lfn :: u32

definition fat32_find_cb :: "cstr \<Rightarrow> found_entry option dir_cb" where
  "fat32_find_cb name raw nm lba off index lc c =
     (if \<not> name_eq_nocase nm name then (0, c)
      else (1, Some \<lparr>f_raw = raw, f_lba = lba, f_off = off, f_index = index, f_lfn = lc\<rparr>))"

definition fat32_find_entry :: "fat_vol \<Rightarrow> u32 \<Rightarrow> cstr \<Rightarrow> (int \<times> found_entry option) option" where
  "fat32_find_entry v dir_cluster name =
     do { (r, c) \<leftarrow> fat32_iter_dir v dir_cluster (fat32_find_cb name) None;
          Some (if 0 < r then (0, c) else if r < 0 then (r, c) else (- ENOENT, c)) }"

text \<open>
  The outer loop of \<^verbatim>\<open>fat32_dir_is_empty\<close> runs again only when \<^verbatim>\<open>idx\<close> moved, which a
  walk that returns 0 with \<^verbatim>\<open>want = 0\<close> never does.
\<close>

partial_function (option) dir_is_empty_loop :: "fat_vol \<Rightarrow> u32 \<Rightarrow> int option" where
  "dir_is_empty_loop v dir_cluster =
     Option.bind (fat32_iter_dir v dir_cluster (fat32_readdir_cb 0) (0, None))
       (\<lambda>p. if 0 < fst p then Some 0
             else if fst p < 0 then Some (fst p)
             else if fst (snd p) = 0 then Some 1
             else dir_is_empty_loop v dir_cluster)"

definition fat32_dir_is_empty :: "fat_vol \<Rightarrow> u32 \<Rightarrow> int option" where
  "fat32_dir_is_empty v dir_cluster = dir_is_empty_loop v dir_cluster"

section \<open>Short names\<close>

fun short_name_rounds :: "fat_vol \<Rightarrow> u32 \<Rightarrow> u8 list \<Rightarrow> u8 list \<Rightarrow> nat list \<Rightarrow> (int \<times> u8 list) option" where
  "short_name_rounds v dir_cluster base ext [] = Some (- ENOSPC, tilde_name base ext 99)"
| "short_name_rounds v dir_cluster base ext (n # ns) =
     do { ex \<leftarrow> fat32_short_exists v dir_cluster (tilde_name base ext n);
          if \<not> ex then Some (0, tilde_name base ext n)
          else short_name_rounds v dir_cluster base ext ns }"

text \<open>Status, the eleven bytes of \<^verbatim>\<open>out\<close> and \<^verbatim>\<open>needs_lfn\<close>.\<close>

definition fat32_make_short_name :: "fat_vol \<Rightarrow> u32 \<Rightarrow> cstr \<Rightarrow> (int \<times> u8 list \<times> bool) option" where
  "fat32_make_short_name v dir_cluster name =
     (case short_parts name of
        (base, ext, needs, simple) \<Rightarrow>
          do { ex \<leftarrow> (if simple then fat32_short_exists v dir_cluster (short_field base ext) else Some True);
               if \<not> ex then Some (0, short_field base ext, needs)
               else do { (r, out) \<leftarrow> short_name_rounds v dir_cluster base ext [1..<100];
                         Some (r, out, True) } })"

section \<open>Placing entries\<close>

definition entries_per_cluster :: "fat32_fs \<Rightarrow> u32" where
  "entries_per_cluster fs = (sectors_per_cluster fs * bytes_per_sector fs) div 32"

definition fat32_dir_entry_location :: "fat_vol \<Rightarrow> u32 \<Rightarrow> u64 \<Rightarrow> int \<times> u32 \<times> u32" where
  "fat32_dir_entry_location v dir_cluster entry_index =
     (let epc = ucast (entries_per_cluster (v_fs v)) :: u64;
          cluster_index = ucast (entry_index div epc) :: u32;
          entry_in_cluster = ucast (entry_index mod epc) :: u32 in
      case fat32_get_cluster_at v dir_cluster cluster_index of
        (r, cluster) \<Rightarrow>
          if r \<noteq> 0 then (- ENOENT, 0, 0)
          else
            (let byte_off = entry_in_cluster * 32
             in (0, fat32_cluster_to_lba (v_fs v) cluster + byte_off div 512, byte_off mod 512)))"

definition fat32_write_dir_entry :: "u32 \<Rightarrow> u64 \<Rightarrow> u8 list \<Rightarrow> fat_vol \<Rightarrow> int \<times> fat_vol" where
  "fat32_write_dir_entry dir_cluster entry_index entry v =
     (case fat32_dir_entry_location v dir_cluster entry_index of
        (r, lba, off) \<Rightarrow>
          if r \<noteq> 0 then (- ENOENT, v)
          else
            (case read_sector v lba of
               (r, sector) \<Rightarrow>
                 if r \<noteq> 0 then (- EIO, v)
                 else
                   (case write_sector lba (set_bytes (unat off) entry sector) v of
                      (r, v1) \<Rightarrow> if r \<noteq> 0 then (- EIO, v1) else (0, v1))))"

text \<open>
  The scan for a run of free entries.  The state is \<^verbatim>\<open>entry_index\<close>, \<^verbatim>\<open>run_start\<close> and
  \<^verbatim>\<open>run_len\<close>; the first component is the index found.
\<close>

fun free_in_sector :: "u8 list \<Rightarrow> u32 \<Rightarrow> nat \<Rightarrow> u64 \<times> u64 \<times> u32 \<Rightarrow> u64 option \<times> (u64 \<times> u64 \<times> u32)" where
  "free_in_sector sector needed 0 st = (None, st)"
| "free_in_sector sector needed (Suc n) (index, run_start, run_len) =
     (let c = sector ! (32 * (15 - n)) in
      if c = 0x00 \<or> c = 0xE5 then
        (let start1 = (if run_len = 0 then index else run_start); len1 = run_len + 1 in
         if needed \<le> len1 then (Some start1, (index, start1, len1))
         else free_in_sector sector needed n (index + 1, start1, len1))
      else free_in_sector sector needed n (index + 1, run_start, 0))"

text \<open>\<open>Inl r\<close> is a status and an index to return.\<close>

fun free_in_cluster ::
    "fat_vol \<Rightarrow> u32 \<Rightarrow> u32 \<Rightarrow> nat \<Rightarrow> u64 \<times> u64 \<times> u32 \<Rightarrow> (int \<times> u64) + (u64 \<times> u64 \<times> u32)" where
  "free_in_cluster v needed lba 0 st = Inr st"
| "free_in_cluster v needed lba (Suc n) st =
     (case read_sector v lba of
        (r, sector) \<Rightarrow>
          if r \<noteq> 0 then Inl (- EIO, 0)
          else
            (case free_in_sector sector needed 16 st of
               (Some i, _) \<Rightarrow> Inl (0, i)
             | (None, st1) \<Rightarrow> free_in_cluster v needed (lba + 1) n st1))"

text \<open>The chain scanned without success ends with its last cluster.\<close>

partial_function (option) free_in_chain ::
    "fat_vol \<Rightarrow> u32 \<Rightarrow> u32 \<Rightarrow> u32 \<Rightarrow> u64 \<times> u64 \<times> u32 \<Rightarrow> ((int \<times> u64) + u32 \<times> u64 \<times> u64 \<times> u32) option" where
  "free_in_chain v needed lst cluster st =
     (if \<not> cluster < FAT32_EOC then Some (Inr (lst, st))
      else if isl (free_in_cluster v needed (fat32_cluster_to_lba (v_fs v) cluster)
                     (unat (sectors_per_cluster (v_fs v))) st)
      then Some (Inl (projl (free_in_cluster v needed (fat32_cluster_to_lba (v_fs v) cluster)
                     (unat (sectors_per_cluster (v_fs v))) st)))
      else
        (case fat32_read_fat_entry v cluster of
           (r, nxt) \<Rightarrow>
             if r \<noteq> 0 then Some (Inl (- EIO, 0))
             else if FAT32_EOC \<le> nxt then
               Some (Inr (cluster, projr (free_in_cluster v needed (fat32_cluster_to_lba (v_fs v) cluster)
                     (unat (sectors_per_cluster (v_fs v))) st)))
             else free_in_chain v needed cluster nxt
               (projr (free_in_cluster v needed (fat32_cluster_to_lba (v_fs v) cluster)
                     (unat (sectors_per_cluster (v_fs v))) st))))"

text \<open>The loop that appends clusters until the run is long enough.\<close>

partial_function (option) grow_dir :: "u32 \<Rightarrow> u32 \<Rightarrow> u32 \<Rightarrow> fat_vol \<Rightarrow> (int \<times> fat_vol) option" where
  "grow_dir needed lst run_len v =
     (if \<not> run_len < needed then Some (0, v)
      else
        Option.bind (fat32_alloc_cluster v)
          (\<lambda>p. if fst p \<noteq> 0 then Some (- ENOSPC, snd (snd p))
                else
                  (case fat32_write_fat_entry lst (fst (snd p)) (snd (snd p)) of
                     (r1, v2) \<Rightarrow>
                       if r1 \<noteq> 0 then Some (- EIO, v2)
                       else grow_dir needed (fst (snd p)) (run_len + entries_per_cluster (v_fs v)) v2)))"

definition fat32_dir_find_free :: "u32 \<Rightarrow> u32 \<Rightarrow> fat_vol \<Rightarrow> (int \<times> u64 \<times> fat_vol) option" where
  "fat32_dir_find_free dir_cluster needed v =
     do { r \<leftarrow> free_in_chain v needed dir_cluster dir_cluster (0, 0, 0);
          (case r of
             Inl (c, i) \<Rightarrow> Some (c, i, v)
           | Inr (lst, index, run_start, run_len) \<Rightarrow>
               do { let start = (if run_len = 0 then index else run_start);
                    (c, v1) \<leftarrow> grow_dir needed lst run_len v;
                    Some (c, start, v1) }) }"

definition fat32_write_dot_entries :: "u32 \<Rightarrow> u32 \<Rightarrow> fat_vol \<Rightarrow> int \<times> fat_vol" where
  "fat32_write_dot_entries cluster parent_cluster v =
     (let dot = make_dirent (pad_spaces 11 dot_name) FAT_ATTR_DIR cluster 0;
          dotdot = make_dirent (pad_spaces 11 dotdot_name) FAT_ATTR_DIR parent_cluster 0 in
      case fat32_write_dir_entry cluster 0 dot v of
        (r, v1) \<Rightarrow>
          if r \<noteq> 0 then (- EIO, v1)
          else
            (case fat32_write_dir_entry cluster 1 dotdot v1 of
               (r, v2) \<Rightarrow> if r \<noteq> 0 then (- EIO, v2) else (0, v2)))"

end
