(* ===== verification/Fat32.thy ===== *)
theory Fat32
  imports Fat32_Dir Ramfs
begin

text \<open>
  \<^verbatim>\<open>kernel/fat32.c\<close>, the file system: its nodes (\<^verbatim>\<open>g_nodes\<close>), the vnode operations and
  mounting.  The kernel state is extended by the mounted volume \<^verbatim>\<open>g_fs\<close> with its device, and
  by the 256 FAT nodes; \<^verbatim>\<open>node->fs\<close> is always \<^verbatim>\<open>&g_fs\<close>.
\<close>

record fat32_node =
  n_cluster :: u32
  n_size :: u32
  n_attr :: u8
  n_dir_cluster :: u32
  n_dirent_lba :: u32
  n_dirent_off :: u32
  n_dirent_index :: u64
  n_dirent_count :: u32

definition zero_fnode :: fat32_node where
  "zero_fnode = \<lparr>n_cluster = 0, n_size = 0, n_attr = 0, n_dir_cluster = 0, n_dirent_lba = 0,
     n_dirent_off = 0, n_dirent_index = 0, n_dirent_count = 0\<rparr>"

record fat_state = ramfs_state +
  vol :: fat_vol
  fnodes :: "nat \<Rightarrow> fat32_node"
  fn_used :: "nat \<Rightarrow> bool"

abbreviation FAT32_MAX_NODES :: nat where "FAT32_MAX_NODES \<equiv> 256"

definition fat32_alloc_node :: "'a fat_state_scheme \<Rightarrow> nat option \<times> 'a fat_state_scheme" where
  "fat32_alloc_node s =
     (case first_unused (fn_used s) FAT32_MAX_NODES of
        None \<Rightarrow> (None, s)
      | Some i \<Rightarrow> (Some i, s\<lparr>fn_used := (fn_used s)(i := True), fnodes := (fnodes s)(i := zero_fnode)\<rparr>))"

definition upd_fnode :: "nat \<Rightarrow> (fat32_node \<Rightarrow> fat32_node) \<Rightarrow> 'a fat_state_scheme \<Rightarrow> 'a fat_state_scheme" where
  "upd_fnode i f s = s\<lparr>fnodes := (fnodes s)(i := f (fnodes s i))\<rparr>"

definition fat32_wrap_node ::
    "nat \<Rightarrow> nat option \<Rightarrow> 'a fat_state_scheme \<Rightarrow> nat option \<times> 'a fat_state_scheme" where
  "fat32_wrap_node n parent s =
     (case vfs_alloc_vnode s of
        (None, s1) \<Rightarrow> (None, s1)
      | (Some v, s1) \<Rightarrow>
          (Some v, upd_vnode v (\<lambda>vn. vn\<lparr>
             vn_type := (if n_attr (fnodes s n) AND FAT_ATTR_DIR \<noteq> 0 then VNODE_DIR else VNODE_FILE),
             vn_ops := Some FAT32_OPS, vn_data := n,
             vn_parent := Some (case parent of None \<Rightarrow> v | Some p \<Rightarrow> p), vn_name := []\<rparr>) s1))"

definition fat_node_of :: "'a fat_state_scheme \<Rightarrow> nat \<Rightarrow> nat" where
  "fat_node_of s vn = vn_data (g_vnode_pool s vn)"

text \<open>A node filled from an entry and a vnode over it with a name: lookup and the reopening in create.\<close>

definition open_entry ::
    "nat \<Rightarrow> cstr \<Rightarrow> u8 list \<Rightarrow> u32 \<Rightarrow> u32 \<Rightarrow> u32 \<Rightarrow> u64 \<Rightarrow> u32 \<Rightarrow> 'a fat_state_scheme
       \<Rightarrow> int \<times> nat option \<times> 'a fat_state_scheme" where
  "open_entry dir nm raw dir_clus lba off index lc s =
     (case fat32_alloc_node s of
        (None, s1) \<Rightarrow> (- ENOMEM, None, s1)
      | (Some n, s1) \<Rightarrow>
          (let s2 = upd_fnode n (\<lambda>_. \<lparr>n_cluster = raw_cluster raw, n_size = raw_size raw,
                 n_attr = raw_attr raw, n_dir_cluster = dir_clus, n_dirent_lba = lba,
                 n_dirent_off = off, n_dirent_index = index, n_dirent_count = lc + 1\<rparr>) s1 in
           case fat32_wrap_node n (Some dir) s2 of
             (None, s3) \<Rightarrow> (- ENOMEM, None, s3)
           | (Some v, s3) \<Rightarrow> (0, Some v, upd_vnode v (\<lambda>vn. vn\<lparr>vn_name := nm\<rparr>) s3)))"

text \<open>The context of \<^verbatim>\<open>fat32_lookup_cb\<close> is \<^verbatim>\<open>*out\<close> and the kernel state it allocates in.\<close>

definition fat32_lookup_cb ::
    "cstr \<Rightarrow> nat \<Rightarrow> (nat option \<times> 'a fat_state_scheme) dir_cb" where
  "fat32_lookup_cb name dir raw nm lba off index lc c =
     (if \<not> name_eq_nocase nm name then (0, c)
      else
        (case open_entry dir nm raw (n_cluster (fnodes (snd c) (fat_node_of (snd c) dir))) lba off index lc (snd c) of
           (r, v, s1) \<Rightarrow> if r = 0 then (1, (v, s1)) else (r, (fst c, s1))))"

definition fat32_lookup_op ::
    "nat \<Rightarrow> cstr \<Rightarrow> 'a fat_state_scheme \<Rightarrow> (int \<times> nat option \<times> 'a fat_state_scheme) option" where
  "fat32_lookup_op dir name s =
     do { (r, v, s1) \<leftarrow> fat32_iter_dir (vol s) (n_cluster (fnodes s (fat_node_of s dir)))
                         (fat32_lookup_cb name dir) (None, s);
          Some (if 0 < r then (0, v, s1) else if r < 0 then (r, v, s1) else (- ENOENT, v, s1)) }"

definition fat32_readdir_op :: "'a fat_state_scheme \<Rightarrow> nat \<Rightarrow> u64 \<Rightarrow> (int \<times> vfs_dirent option) option" where
  "fat32_readdir_op s dir offset =
     do { (r, c) \<leftarrow> fat32_iter_dir (vol s) (n_cluster (fnodes s (fat_node_of s dir)))
                      (fat32_readdir_cb offset) (0, None);
          Some (if 0 < r then (0, snd c) else if r < 0 then (r, snd c) else (- ENOENT, snd c)) }"

section \<open>Entries of open nodes\<close>

definition fat32_update_dirent :: "nat \<Rightarrow> 'a fat_state_scheme \<Rightarrow> int \<times> 'a fat_state_scheme" where
  "fat32_update_dirent n s =
     (let node = fnodes s n in
      if n_dirent_lba node = 0 then (0, s)
      else
        (case read_sector (vol s) (n_dirent_lba node) of
           (r, sector) \<Rightarrow>
             if r \<noteq> 0 then (- EIO, s)
             else
               (let o' = unat (n_dirent_off node);
                    s1 = set_bytes (o' + 28) (le32_bytes (n_size node)) sector;
                    s2 = set_bytes (o' + 26) (le16_bytes (ucast (n_cluster node AND 0xFFFF))) s1;
                    s3 = set_bytes (o' + 20) (le16_bytes (ucast (drop_bit 16 (n_cluster node) AND 0xFFFF))) s2 in
                case write_sector (n_dirent_lba node) s3 (vol s) of
                  (r, v1) \<Rightarrow> if r \<noteq> 0 then (- EIO, s\<lparr>vol := v1\<rparr>) else (0, s\<lparr>vol := v1\<rparr>))))"

definition fat32_refresh_node :: "nat \<Rightarrow> 'a fat_state_scheme \<Rightarrow> int \<times> 'a fat_state_scheme" where
  "fat32_refresh_node n s =
     (let node = fnodes s n in
      if n_dirent_lba node = 0 then (0, s)
      else
        (case read_sector (vol s) (n_dirent_lba node) of
           (r, sector) \<Rightarrow>
             if r \<noteq> 0 then (- EIO, s)
             else
               (let raw = take 32 (drop (unat (n_dirent_off node)) sector)
                in (0, upd_fnode n (\<lambda>x. x\<lparr>n_attr := raw_attr raw, n_size := raw_size raw,
                         n_cluster := raw_cluster raw\<rparr>) s))))"

section \<open>Creating entries\<close>

fun write_lfn_entries ::
    "u32 \<Rightarrow> u64 \<Rightarrow> cstr \<Rightarrow> u8 \<Rightarrow> u32 \<Rightarrow> u32 \<Rightarrow> nat \<Rightarrow> fat_vol \<Rightarrow> int \<times> fat_vol" where
  "write_lfn_entries dir_cluster entry_index name checksum lfn_count i 0 v = (0, v)"
| "write_lfn_entries dir_cluster entry_index name checksum lfn_count i (Suc n) v =
     (let ord0 = ucast (lfn_count - i) :: u8;
          ord = (if i = 0 then ord0 OR 0x40 else ord0);
          lfn = fat32_fill_lfn_entry name (strlen (name @ [0])) ord checksum in
      case fat32_write_dir_entry dir_cluster (entry_index + ucast i) lfn v of
        (r, v1) \<Rightarrow>
          if r \<noteq> 0 then (r, v1)
          else write_lfn_entries dir_cluster entry_index name checksum lfn_count (i + 1) n v1)"

definition set_vol :: "fat_vol \<Rightarrow> 'a fat_state_scheme \<Rightarrow> 'a fat_state_scheme" where
  "set_vol v s = s\<lparr>vol := v\<rparr>"

text \<open>
  The last part of \<^verbatim>\<open>fat32_create_entry\<close>: long-name entries, the short entry, a node and, if
  the caller wants one, a vnode.
\<close>

definition create_write ::
    "nat \<Rightarrow> cstr \<Rightarrow> u8 \<Rightarrow> bool \<Rightarrow> u8 list \<Rightarrow> u32 \<Rightarrow> u64 \<Rightarrow> u32 \<Rightarrow> 'a fat_state_scheme
       \<Rightarrow> int \<times> nat option \<times> 'a fat_state_scheme" where
  "create_write dir name attr out_null shortname lfn_count entry_index cluster s =
     (let dcl = n_cluster (fnodes s (fat_node_of s dir));
          checksum = fat32_lfn_checksum shortname in
      case write_lfn_entries dcl entry_index name checksum lfn_count 0 (unat lfn_count) (vol s) of
        (r, v1) \<Rightarrow>
          if r \<noteq> 0 then (r, None, set_vol v1 s)
          else
            (let attr1 = attr OR (if attr AND FAT_ATTR_DIR \<noteq> 0 then 0 else FAT_ATTR_ARCHIVE);
                 raw = make_dirent shortname attr1 cluster 0;
                 idx = entry_index + ucast lfn_count in
             case fat32_write_dir_entry dcl idx raw v1 of
               (r, v2) \<Rightarrow>
                 if r \<noteq> 0 then (r, None, set_vol v2 s)
                 else
                   (case fat32_alloc_node (set_vol v2 s) of
                      (None, s1) \<Rightarrow> (- ENOMEM, None, s1)
                    | (Some n, s1) \<Rightarrow>
                        (case fat32_dir_entry_location v2 dcl idx of
                           (r, lba, off) \<Rightarrow>
                             (let s2 = upd_fnode n (\<lambda>_. \<lparr>n_cluster = cluster, n_size = 0, n_attr = attr1,
                                    n_dir_cluster = dcl, n_dirent_lba = lba, n_dirent_off = off,
                                    n_dirent_index = idx, n_dirent_count = lfn_count + 1\<rparr>) s1 in
                              if r \<noteq> 0 then (- EIO, None, s2)
                              else if out_null then (0, None, s2)
                              else
                                (case fat32_wrap_node n (Some dir) s2 of
                                   (None, s3) \<Rightarrow> (- ENOMEM, None, s3)
                                 | (Some v, s3) \<Rightarrow> (0, Some v, upd_vnode v (\<lambda>vn. vn\<lparr>vn_name := name\<rparr>) s3)))))))"

text \<open>The cluster of a new directory with its dot entries.\<close>

definition create_cluster :: "u8 \<Rightarrow> u32 \<Rightarrow> fat_vol \<Rightarrow> (int \<times> u32 \<times> fat_vol) option" where
  "create_cluster attr dcl v =
     (if attr AND FAT_ATTR_DIR = 0 then Some (0, 0, v)
      else
        do { (r, cluster, v1) \<leftarrow> fat32_alloc_cluster v;
             Some (if r \<noteq> 0 then (- ENOSPC, 0, v1)
                   else
                     (case fat32_write_dot_entries cluster dcl v1 of
                        (r, v2) \<Rightarrow> if r \<noteq> 0 then (- EIO, 0, v2) else (0, cluster, v2))) })"

definition fat32_create_entry ::
    "nat \<Rightarrow> cstr \<Rightarrow> u8 \<Rightarrow> bool \<Rightarrow> 'a fat_state_scheme \<Rightarrow> (int \<times> nat option \<times> 'a fat_state_scheme) option" where
  "fat32_create_entry dir name attr out_null s =
     (let dcl = n_cluster (fnodes s (fat_node_of s dir)); ret = fat32_validate_name name in
      if ret \<noteq> 0 then Some (ret, None, s)
      else
        do { (ret, c) \<leftarrow> fat32_find_entry (vol s) dcl name;
             (if ret = 0 then
                (let e = the c in
                 if raw_attr (f_raw e) AND FAT_ATTR_DIR \<noteq> 0 then
                   (if attr AND FAT_ATTR_DIR = 0 then Some (- EISDIR, None, s)
                    else if out_null then Some (0, None, s)
                    else Some (open_entry dir name (f_raw e) dcl (f_lba e) (f_off e) (f_index e) (f_lfn e) s))
                 else Some (- EEXIST, None, s))
              else if ret \<noteq> - ENOENT then Some (ret, None, s)
              else
                do { (ret, shortname, needs_lfn) \<leftarrow> fat32_make_short_name (vol s) dcl name;
                     if ret \<noteq> 0 then Some (ret, None, s)
                     else
                       do { let lfn_count = (if needs_lfn then of_nat ((length name + 12) div 13) else (0 :: u32));
                            (ret, entry_index, v1) \<leftarrow> fat32_dir_find_free dcl (lfn_count + 1) (vol s);
                            if ret \<noteq> 0 then Some (ret, None, set_vol v1 s)
                            else
                              do { (ret, cluster, v2) \<leftarrow> create_cluster attr dcl v1;
                                   Some (if ret \<noteq> 0 then (ret, None, set_vol v2 s)
                                         else create_write dir name attr out_null shortname lfn_count
                                                entry_index cluster (set_vol v2 s)) } } }) })"

definition fat32_create_op ::
    "nat \<Rightarrow> cstr \<Rightarrow> bool \<Rightarrow> 'a fat_state_scheme \<Rightarrow> (int \<times> nat option \<times> 'a fat_state_scheme) option" where
  "fat32_create_op dir name out_null s = fat32_create_entry dir name 0 out_null s"

definition fat32_mkdir_op ::
    "nat \<Rightarrow> cstr \<Rightarrow> bool \<Rightarrow> 'a fat_state_scheme \<Rightarrow> (int \<times> nat option \<times> 'a fat_state_scheme) option" where
  "fat32_mkdir_op dir name out_null s = fat32_create_entry dir name FAT_ATTR_DIR out_null s"

section \<open>Removing entries\<close>

fun delete_entries :: "u32 \<Rightarrow> u64 \<Rightarrow> nat \<Rightarrow> fat_vol \<Rightarrow> int \<times> fat_vol" where
  "delete_entries dir_cluster idx 0 v = (0, v)"
| "delete_entries dir_cluster idx (Suc n) v =
     (case fat32_write_dir_entry dir_cluster idx (0xE5 # replicate 31 0) v of
        (r, v1) \<Rightarrow> if r \<noteq> 0 then (r, v1) else delete_entries dir_cluster (idx + 1) n v1)"

definition fat32_unlink_op :: "nat \<Rightarrow> cstr \<Rightarrow> 'a fat_state_scheme \<Rightarrow> (int \<times> 'a fat_state_scheme) option" where
  "fat32_unlink_op dir name s =
     (let dcl = n_cluster (fnodes s (fat_node_of s dir)) in
      if strcmp name dot_name = 0 \<or> strcmp name dotdot_name = 0 then Some (- EINVAL, s)
      else
        do { (ret, c) \<leftarrow> fat32_find_entry (vol s) dcl name;
             if ret \<noteq> 0 then Some (ret, s)
             else
               do { let e = the c;
                    let target = raw_cluster (f_raw e);
                    empty \<leftarrow> (if raw_attr (f_raw e) AND FAT_ATTR_DIR \<noteq> 0
                              then fat32_dir_is_empty (vol s) target else Some 1);
                    if empty \<le> 0 then Some (if empty < 0 then empty else - ENOTEMPTY, s)
                    else
                      do { (r, v1) \<leftarrow> (if target \<noteq> 0 then fat32_free_chain target (vol s) else Some (0, vol s));
                           if r \<noteq> 0 then Some (- EIO, set_vol v1 s)
                           else
                             (case delete_entries dcl (f_index e - ucast (f_lfn e)) (unat (f_lfn e + 1)) v1 of
                                (r, v2) \<Rightarrow> Some (r, set_vol v2 s)) } } })"

section \<open>File data\<close>

definition cluster_size :: "fat32_fs \<Rightarrow> u32" where
  "cluster_size fs = bytes_per_sector fs * sectors_per_cluster fs"

text \<open>The skip loops of read and write; the result is the cluster, or a status to return.\<close>

fun skip_clusters :: "fat_vol \<Rightarrow> int \<Rightarrow> u32 \<Rightarrow> nat \<Rightarrow> int + u32" where
  "skip_clusters v eoc_ret cluster 0 = Inr cluster"
| "skip_clusters v eoc_ret cluster (Suc n) =
     (case fat32_read_fat_entry v cluster of
        (r, nxt) \<Rightarrow>
          if r \<noteq> 0 then Inl (- EIO)
          else if FAT32_EOC \<le> nxt then Inl eoc_ret
          else skip_clusters v eoc_ret nxt n)"

text \<open>The inner loop of the read: \<open>left\<close> is \<^verbatim>\<open>to_copy - copied\<close>.\<close>

partial_function (option) read_sectors :: "fat_vol \<Rightarrow> u32 \<Rightarrow> u32 \<Rightarrow> u32 \<Rightarrow> u8 list \<Rightarrow> (int \<times> u8 list) option" where
  "read_sectors v lba sector_off left acc =
     (if left = 0 then Some (0, acc)
      else
        (case read_sector v lba of
           (r, sector) \<Rightarrow>
             if r \<noteq> 0 then Some (- EIO, acc)
             else
               (let chunk = (if left < 512 - sector_off then left else 512 - sector_off)
                in read_sectors v (lba + 1) 0 (left - chunk)
                     (acc @ take (unat chunk) (drop (unat sector_off) sector)))))"

partial_function (option) read_clusters ::
    "fat_vol \<Rightarrow> u32 \<Rightarrow> u32 \<Rightarrow> u64 \<Rightarrow> u8 list \<Rightarrow> (int \<times> u64 \<times> u8 list) option" where
  "read_clusters v cluster off_in_cluster remaining acc =
     (if \<not> (0 < remaining \<and> cluster < FAT32_EOC) then Some (0, remaining, acc)
      else
        (let cb = sectors_per_cluster (v_fs v) * bytes_per_sector (v_fs v);
             tc0 = cb - off_in_cluster;
             to_copy = (if remaining < ucast tc0 then ucast remaining else tc0) in
         Option.bind (read_sectors v (fat32_cluster_to_lba (v_fs v) cluster + off_in_cluster div 512)
                        (off_in_cluster mod 512) to_copy acc)
           (\<lambda>p. if fst p \<noteq> 0 then Some (- EIO, remaining, snd p)
                 else if remaining - ucast to_copy = 0 then Some (0, 0, snd p)
                 else
                   (case fat32_read_fat_entry v cluster of
                      (r, nxt) \<Rightarrow>
                        if r \<noteq> 0 then Some (- EIO, remaining, snd p)
                        else read_clusters v nxt 0 (remaining - ucast to_copy) (snd p)))))"

definition fat32_read_op ::
    "nat \<Rightarrow> u64 \<Rightarrow> u64 \<Rightarrow> 'a fat_state_scheme \<Rightarrow> (int \<times> u8 list \<times> 'a fat_state_scheme) option" where
  "fat32_read_op vn len offset s0 =
     (let n = fat_node_of s0 vn in
      case fat32_refresh_node n s0 of
        (r, s) \<Rightarrow>
          if r \<noteq> 0 then Some (- EIO, [], s)
          else
            (let node = fnodes s n; sz = ucast (n_size node) :: u64 in
             if vn_type (g_vnode_pool s vn) \<noteq> VNODE_FILE then Some (- EISDIR, [], s)
             else if sz \<le> offset then Some (0, [], s)
             else
               (let total = (if sz < offset + len then sz - offset else len) in
                if n_cluster node = 0 then Some (0, [], s)
                else
                  (let cs = ucast (cluster_size (v_fs (vol s))) :: u64 in
                   case skip_clusters (vol s) 0 (n_cluster node) (unat (offset div cs)) of
                     Inl r \<Rightarrow> Some (r, [], s)
                   | Inr cluster \<Rightarrow>
                       do { (r, remaining, bs) \<leftarrow> read_clusters (vol s) cluster (ucast (offset mod cs)) total [];
                            Some (if r \<noteq> 0 then (r, bs, s) else (c_int (total - remaining), bs, s)) }))))"

text \<open>The inner loop of the write: whole sectors are not read first.\<close>

partial_function (option) write_sectors :: "u32 \<Rightarrow> u32 \<Rightarrow> u32 \<Rightarrow> u8 list \<Rightarrow> fat_vol \<Rightarrow> (int \<times> fat_vol) option" where
  "write_sectors lba sector_off left src v =
     (if left = 0 then Some (0, v)
      else
        (let chunk = (if left < 512 - sector_off then left else 512 - sector_off);
             whole = (sector_off = 0 \<and> chunk = 512) in
         case (if whole then (0, []) else read_sector v lba) of
           (r, old) \<Rightarrow>
             if r \<noteq> 0 then Some (- EIO, v)
             else
               (case write_sector lba (if whole then take 512 src
                        else set_bytes (unat sector_off) (take (unat chunk) src) old) v of
                  (r, v1) \<Rightarrow>
                    if r \<noteq> 0 then Some (- EIO, v1)
                    else write_sectors (lba + 1) 0 (left - chunk) (drop (unat chunk) src) v1)))"

partial_function (option) write_clusters ::
    "u32 \<Rightarrow> u32 \<Rightarrow> u64 \<Rightarrow> u8 list \<Rightarrow> fat_vol \<Rightarrow> (int \<times> fat_vol) option" where
  "write_clusters cluster off_in_cluster remaining src v =
     (if \<not> (0 < remaining \<and> cluster < FAT32_EOC) then Some (0, v)
      else
        (let cb = sectors_per_cluster (v_fs v) * bytes_per_sector (v_fs v);
             tc0 = cb - off_in_cluster;
             to_copy = (if remaining < ucast tc0 then ucast remaining else tc0) in
         Option.bind (write_sectors (fat32_cluster_to_lba (v_fs v) cluster + off_in_cluster div 512)
                        (off_in_cluster mod 512) to_copy src v)
           (\<lambda>p. if fst p \<noteq> 0 then Some (- EIO, snd p)
                 else if remaining - ucast to_copy = 0 then Some (0, snd p)
                 else
                   (case fat32_read_fat_entry (snd p) cluster of
                      (r, nxt) \<Rightarrow>
                        if r \<noteq> 0 then Some (- EIO, snd p)
                        else write_clusters nxt 0 (remaining - ucast to_copy) (drop (unat to_copy) src) (snd p)))))"

definition fat32_write_op ::
    "nat \<Rightarrow> u8 list \<Rightarrow> u64 \<Rightarrow> u64 \<Rightarrow> 'a fat_state_scheme \<Rightarrow> (int \<times> 'a fat_state_scheme) option" where
  "fat32_write_op vn buf len offset s =
     (let n = fat_node_of s vn; fs = v_fs (vol s) in
      if vn_type (g_vnode_pool s vn) \<noteq> VNODE_FILE then Some (- EISDIR, s)
      else if len = 0 then Some (0, s)
      else
        (let end' = offset + len; cs = ucast (cluster_size fs) :: u64;
             needed = ucast ((end' + cs - 1) div cs) :: u32 in
         do { (r, start, v1) \<leftarrow> fat32_ensure_chain (n_cluster (fnodes s n)) needed (vol s);
              let s1 = set_vol v1 (upd_fnode n (\<lambda>x. x\<lparr>n_cluster := start\<rparr>) s);
              if r \<noteq> 0 then Some (- ENOSPC, s1)
              else
                (case skip_clusters v1 (- EIO) start (unat (offset div cs)) of
                   Inl r \<Rightarrow> Some (r, s1)
                 | Inr cluster \<Rightarrow>
                     do { (r, v2) \<leftarrow> write_clusters cluster (ucast (offset mod cs)) len buf v1;
                          let s2 = set_vol v2 s1;
                          Some (if r \<noteq> 0 then (r, s2)
                                else if ucast (n_size (fnodes s2 n)) < end' then
                                  (case fat32_update_dirent n (upd_fnode n (\<lambda>x. x\<lparr>n_size := ucast end'\<rparr>) s2) of
                                     (r, s3) \<Rightarrow> if r \<noteq> 0 then (- EIO, s3) else (c_int len, s3))
                                else (c_int len, s2)) }) }))"

definition fat32_truncate_op ::
    "nat \<Rightarrow> u64 \<Rightarrow> 'a fat_state_scheme \<Rightarrow> (int \<times> 'a fat_state_scheme) option" where
  "fat32_truncate_op vn sz s =
     (let n = fat_node_of s vn; node = fnodes s n; fs = v_fs (vol s) in
      if vn_type (g_vnode_pool s vn) \<noteq> VNODE_FILE then Some (- EISDIR, s)
      else if sz = ucast (n_size node) then Some (0, s)
      else if sz = 0 then
        do { (r, v1) \<leftarrow> (if n_cluster node \<noteq> 0 then fat32_free_chain (n_cluster node) (vol s) else Some (0, vol s));
             Some (if r \<noteq> 0 then (- EIO, set_vol v1 s)
                   else fat32_update_dirent n (upd_fnode n (\<lambda>x. x\<lparr>n_cluster := 0, n_size := 0\<rparr>) (set_vol v1 s))) }
      else
        (let cs = ucast (cluster_size fs) :: u64; needed = ucast ((sz + cs - 1) div cs) :: u32 in
         do { (r, start, v1) \<leftarrow> fat32_ensure_chain (n_cluster node) needed (vol s);
              let s1 = set_vol v1 (upd_fnode n (\<lambda>x. x\<lparr>n_cluster := start\<rparr>) s);
              if r \<noteq> 0 then Some (- ENOSPC, s1)
              else
                (case fat32_get_cluster_at v1 start (needed - 1) of
                   (r, lst) \<Rightarrow>
                     if r \<noteq> 0 then Some (- EIO, s1)
                     else
                       (case fat32_read_fat_entry v1 lst of
                          (r, nxt) \<Rightarrow>
                            if r \<noteq> 0 then Some (- EIO, s1)
                            else
                              do { (r, v2) \<leftarrow>
                                     (if nxt < FAT32_EOC then
                                        (case fat32_write_fat_entry lst FAT32_EOC v1 of
                                           (r, v2) \<Rightarrow> if r \<noteq> 0 then Some (- EIO, v2) else fat32_free_chain nxt v2)
                                      else Some (0, v1));
                                   Some (if r \<noteq> 0 then (- EIO, set_vol v2 s1)
                                         else fat32_update_dirent n
                                                (upd_fnode n (\<lambda>x. x\<lparr>n_size := ucast sz\<rparr>) (set_vol v2 s1))) })) }))"

definition fat32_stat_op :: "'a fat_state_scheme \<Rightarrow> nat \<Rightarrow> int \<times> vfs_stat" where
  "fat32_stat_op s vn =
     (let node = fnodes s (fat_node_of s vn) in
      (0, zero_stat\<lparr>st_size := ucast (n_size node), st_ino := ucast (n_cluster node), st_nlink := 1,
            st_mode := (if vn_type (g_vnode_pool s vn) = VNODE_DIR then 0x41ED else 0x81A4)\<rparr>))"

section \<open>Mounting\<close>

text \<open>The partition entry \<open>i\<close> of the boot record: type, first sector, number of sectors.\<close>

definition mbr_part :: "u8 list \<Rightarrow> nat \<Rightarrow> u8 \<times> u32 \<times> u32" where
  "mbr_part sector i =
     (let p = drop (446 + 16 * i) sector in (p ! 4, le32 (drop 8 p), le32 (drop 12 p)))"

fun find_part :: "u8 list \<Rightarrow> nat list \<Rightarrow> u32 \<times> u32" where
  "find_part sector [] = (0, 0)"
| "find_part sector (i # is) =
     (case mbr_part sector i of
        (ty, start, cnt) \<Rightarrow> if ty = 0x0B \<or> ty = 0x0C then (start, cnt) else find_part sector is)"

text \<open>The geometry read from the boot sector of the partition.\<close>

definition parse_bpb :: "u32 \<Rightarrow> u8 list \<Rightarrow> fat32_fs" where
  "parse_bpb lba b =
     (let rsv = ucast (le16 (drop 14 b)) :: u32;
          nf = ucast (b ! 16) :: u32;
          tot0 = ucast (le16 (drop 19 b)) :: u32;
          spf0 = ucast (le16 (drop 22 b)) :: u32;
          tot = (if tot0 = 0 then le32 (drop 32 b) else tot0);
          spf = (if spf0 = 0 then le32 (drop 36 b) else spf0)
      in \<lparr>part_lba = lba, fat_lba = lba + rsv, data_lba = lba + rsv + nf * spf, reserved_sectors = rsv,
          total_sectors = tot, sectors_per_fat = spf, num_fats = nf, cluster_count = 0,
          sectors_per_cluster = ucast (b ! 13), bytes_per_sector = ucast (le16 (drop 11 b)),
          root_cluster = le32 (drop 44 b), alloc_hint = FAT32_MIN_CLUSTER\<rparr>)"

definition fat32_mount :: "fat_vol \<Rightarrow> int \<times> fat_vol" where
  "fat32_mount v0 =
     (let v = v0\<lparr>v_fs := zero_fs\<rparr> in
      case blk_read (v_dev v) 0 1 of
        (r, mbr) \<Rightarrow>
          if r \<noteq> 0 then (- 1, v)
          else if le16 (drop 510 mbr) \<noteq> 0xAA55 then (- 1, v)
          else
            (case find_part mbr [0, 1, 2, 3] of
               (lba, cnt) \<Rightarrow>
                 if lba = 0 \<or> cnt = 0 then (- 1, v)
                 else
                   (case blk_read (v_dev v) (ucast lba) 1 of
                      (r, b) \<Rightarrow>
                        if r \<noteq> 0 then (- 1, v)
                        else
                          (let fs = parse_bpb lba b;
                               data_sectors = total_sectors fs - reserved_sectors fs
                                                - num_fats fs * sectors_per_fat fs in
                           if sectors_per_cluster fs = 0 then (- 1, v\<lparr>v_fs := fs\<rparr>)
                           else
                             (let fs1 = fs\<lparr>cluster_count := data_sectors div sectors_per_cluster fs\<rparr> in
                              if bytes_per_sector fs1 \<noteq> 512 then (- 1, v\<lparr>v_fs := fs1\<rparr>)
                              else (0, v\<lparr>v_fs := fs1\<rparr>))))))"

definition fat32_init :: "'a fat_state_scheme \<Rightarrow> nat option \<times> 'a fat_state_scheme" where
  "fat32_init s =
     (case fat32_mount (vol s) of
        (r, v) \<Rightarrow>
          if r \<noteq> 0 then (None, set_vol v s)
          else
            (case fat32_alloc_node (set_vol v s) of
               (None, s1) \<Rightarrow> (None, s1)
             | (Some n, s1) \<Rightarrow>
                 (let s2 = upd_fnode n (\<lambda>_. zero_fnode\<lparr>n_cluster := root_cluster (v_fs v),
                        n_attr := FAT_ATTR_DIR, n_dir_cluster := root_cluster (v_fs v)\<rparr>) s1 in
                  case vfs_alloc_vnode s2 of
                    (None, s3) \<Rightarrow> (None, s3)
                  | (Some i, s3) \<Rightarrow>
                      (Some i, upd_vnode i (\<lambda>vn. vn\<lparr>vn_type := VNODE_DIR, vn_ops := Some FAT32_OPS,
                         vn_data := n, vn_parent := Some i, vn_name := []\<rparr>) s3))))"

section \<open>Listing the root\<close>

record fat32_dirent =
  e_name :: cstr
  e_attr :: u8
  e_cluster :: u32
  e_size :: u32

definition fat32_read_root_cb :: "nat \<Rightarrow> fat32_dirent list dir_cb" where
  "fat32_read_root_cb mx raw nm lba off index lc ents =
     (if mx \<le> length ents then (1, ents)
      else (0, ents @ [\<lparr>e_name = nm, e_attr = raw_attr raw, e_cluster = raw_cluster raw,
                        e_size = raw_size raw\<rparr>]))"

definition fat32_read_root :: "fat_vol \<Rightarrow> nat \<Rightarrow> (int \<times> fat32_dirent list) option" where
  "fat32_read_root v mx =
     do { (r, ents) \<leftarrow> fat32_iter_dir v (root_cluster (v_fs v)) (fat32_read_root_cb mx) [];
          Some (if r < 0 then (- 1, ents) else (0, ents)) }"

end
