(* ===== verification/Vfs.thy ===== *)
theory Vfs
  imports Fat32
begin

text \<open>
  \<^verbatim>\<open>kernel/vfs.c\<close>: mounts, path walks and the dispatch to the file systems.  A walk returns
  \<open>None\<close> where the C code dereferences a vnode that is \<^verbatim>\<open>NULL\<close>, which a lookup that reports
  success without a vnode makes happen, or where a file system does not return.
\<close>

abbreviation MAX_MOUNTS :: nat where "MAX_MOUNTS \<equiv> 8"
abbreviation slash :: u8 where "slash \<equiv> 0x2F"

record mount =
  mountpoint :: "nat option"
  mroot :: "nat option"

record vfs_state = fat_state +
  g_mounts :: "nat \<Rightarrow> mount"
  g_root :: "nat option"
  g_cwd :: "nat option"

definition vfs_root :: "'a vfs_state_scheme \<Rightarrow> nat option" where "vfs_root s = g_root s"
definition vfs_cwd :: "'a vfs_state_scheme \<Rightarrow> nat option" where "vfs_cwd s = g_cwd s"

definition vfs_set_root :: "nat option \<Rightarrow> 'a vfs_state_scheme \<Rightarrow> int \<times> 'a vfs_state_scheme" where
  "vfs_set_root r s =
     (let s1 = s\<lparr>g_root := r\<rparr> in (0, if g_cwd s1 = None then s1\<lparr>g_cwd := r\<rparr> else s1))"

definition vfs_set_cwd :: "nat option \<Rightarrow> 'a vfs_state_scheme \<Rightarrow> int \<times> 'a vfs_state_scheme" where
  "vfs_set_cwd c s = (0, s\<lparr>g_cwd := c\<rparr>)"

definition vfs_is_root_vnode :: "'a vfs_state_scheme \<Rightarrow> nat option \<Rightarrow> bool" where
  "vfs_is_root_vnode s vn =
     (case vn of
        None \<Rightarrow> False
      | Some v \<Rightarrow> vn = vfs_root s \<or>
                   (vn_parent (g_vnode_pool s v) = Some v \<and> vn_name (g_vnode_pool s v) = []))"

definition vfs_mount :: "nat option \<Rightarrow> nat option \<Rightarrow> 'a vfs_state_scheme \<Rightarrow> int \<times> 'a vfs_state_scheme" where
  "vfs_mount mp root s =
     (if mp = None \<or> root = None then (- EINVAL, s)
      else
        (case first_unused (\<lambda>i. mountpoint (g_mounts s i) \<noteq> None) MAX_MOUNTS of
           None \<Rightarrow> (- ENOSPC, s)
         | Some i \<Rightarrow>
             (let m = the mp; r = the root;
                  s1 = s\<lparr>g_mounts := (g_mounts s)(i := \<lparr>mountpoint = mp, mroot = root\<rparr>)\<rparr>;
                  s2 = (if vn_name (g_vnode_pool s1 r) = [] \<and> vn_name (g_vnode_pool s1 m) \<noteq> []
                        then upd_vnode r (\<lambda>vn. vn\<lparr>vn_name := vn_name (g_vnode_pool s1 m)\<rparr>) s1 else s1)
              in (0, if vn_parent (g_vnode_pool s2 m) \<noteq> None
                     then upd_vnode r (\<lambda>vn. vn\<lparr>vn_parent := vn_parent (g_vnode_pool s2 m)\<rparr>) s2 else s2))))"

text \<open>
  A vnode is taken for a mountpoint when it is the one mounted on, or when it is a directory
  under a root whose name is the mountpoint's up to case: lookups make fresh vnodes.
\<close>

definition mount_hit :: "'a vfs_state_scheme \<Rightarrow> nat \<Rightarrow> nat \<Rightarrow> bool" where
  "mount_hit s v i \<longleftrightarrow>
     (case mountpoint (g_mounts s i) of
        None \<Rightarrow> False
      | Some m \<Rightarrow> m = v \<or>
          (vn_type (g_vnode_pool s v) = VNODE_DIR \<and> vfs_is_root_vnode s (vn_parent (g_vnode_pool s v)) \<and>
           vfs_name_eq_nocase (vn_name (g_vnode_pool s v)) (vn_name (g_vnode_pool s m))))"

definition vfs_follow_mount :: "'a vfs_state_scheme \<Rightarrow> nat option \<Rightarrow> nat option" where
  "vfs_follow_mount s vn =
     (case vn of
        None \<Rightarrow> None
      | Some v \<Rightarrow> (case List.find (mount_hit s v) [0..<MAX_MOUNTS] of
                     None \<Rightarrow> Some v | Some i \<Rightarrow> mroot (g_mounts s i)))"

text \<open>
  \<^verbatim>\<open>path_next\<close>: the next component, cut to \<^verbatim>\<open>name_len - 1\<close> bytes, and where it ends.
\<close>

definition path_next :: "cstr \<Rightarrow> nat \<Rightarrow> (cstr \<times> cstr) option" where
  "path_next p name_len =
     (let p1 = dropWhile (\<lambda>c. c = slash) p in
      if p1 = [] then None
      else Some (take (name_len - 1) (takeWhile (\<lambda>c. c \<noteq> slash) p1), dropWhile (\<lambda>c. c \<noteq> slash) p1))"

abbreviation NAME_BUF :: nat where "NAME_BUF \<equiv> 256"

text \<open>The calls through \<^verbatim>\<open>vn->ops\<close>.\<close>

definition ops_lookup :: "nat \<Rightarrow> cstr \<Rightarrow> 'a vfs_state_scheme \<Rightarrow> (int \<times> nat option \<times> 'a vfs_state_scheme) option" where
  "ops_lookup dir name s =
     (case vn_ops (g_vnode_pool s dir) of
        None \<Rightarrow> None
      | Some RAMFS_OPS \<Rightarrow> ramfs_lookup dir name s
      | Some FAT32_OPS \<Rightarrow> fat32_lookup_op dir name s)"

definition ops_create ::
    "nat \<Rightarrow> cstr \<Rightarrow> bool \<Rightarrow> 'a vfs_state_scheme \<Rightarrow> (int \<times> nat option \<times> 'a vfs_state_scheme) option" where
  "ops_create dir name out_null s =
     (case vn_ops (g_vnode_pool s dir) of
        None \<Rightarrow> None
      | Some RAMFS_OPS \<Rightarrow> ramfs_create dir name out_null s
      | Some FAT32_OPS \<Rightarrow> fat32_create_op dir name out_null s)"

definition ops_mkdir ::
    "nat \<Rightarrow> cstr \<Rightarrow> bool \<Rightarrow> 'a vfs_state_scheme \<Rightarrow> (int \<times> nat option \<times> 'a vfs_state_scheme) option" where
  "ops_mkdir dir name out_null s =
     (case vn_ops (g_vnode_pool s dir) of
        None \<Rightarrow> None
      | Some RAMFS_OPS \<Rightarrow> ramfs_mkdir dir name out_null s
      | Some FAT32_OPS \<Rightarrow> fat32_mkdir_op dir name out_null s)"

section \<open>Path walks\<close>

definition walk_start :: "nat option \<Rightarrow> cstr \<Rightarrow> 'a vfs_state_scheme \<Rightarrow> nat option" where
  "walk_start cwd path s =
     (if path \<noteq> [] \<and> hd path = slash then vfs_root s
      else if cwd \<noteq> None then cwd else vfs_cwd s)"

text \<open>\<^verbatim>\<open>..\<close>: the parent, when there is one.\<close>

definition parent_or_self :: "'a vfs_state_scheme \<Rightarrow> nat \<Rightarrow> nat option" where
  "parent_or_self s v = (if vn_parent (g_vnode_pool s v) \<noteq> None then vn_parent (g_vnode_pool s v) else Some v)"

definition not_dir :: "'a vfs_state_scheme \<Rightarrow> nat \<Rightarrow> bool" where
  "not_dir s v \<longleftrightarrow> vn_type (g_vnode_pool s v) \<noteq> VNODE_DIR \<or> vn_ops (g_vnode_pool s v) = None"

partial_function (option) lookup_loop ::
    "cstr \<Rightarrow> nat option \<Rightarrow> 'a vfs_state_scheme \<Rightarrow> (int \<times> nat option \<times> 'a vfs_state_scheme) option" where
  "lookup_loop p cur s =
     (if path_next p NAME_BUF = None then Some (0, cur, s)
      else
        (case the (path_next p NAME_BUF) of
           (name, q) \<Rightarrow>
             if strcmp name dot_name = 0 then lookup_loop q cur s
             else if cur = None then None
             else if strcmp name dotdot_name = 0 then lookup_loop q (parent_or_self s (the cur)) s
             else if not_dir s (the cur) then Some (- ENOTDIR, None, s)
             else
               Option.bind (ops_lookup (the cur) name s)
                 (\<lambda>r. if fst r \<noteq> 0 then Some (fst r, None, snd (snd r))
                       else lookup_loop q (vfs_follow_mount (snd (snd r)) (fst (snd r))) (snd (snd r)))))"

definition vfs_lookup_at ::
    "nat option \<Rightarrow> cstr \<Rightarrow> 'a vfs_state_scheme \<Rightarrow> (int \<times> nat option \<times> 'a vfs_state_scheme) option" where
  "vfs_lookup_at cwd path s =
     (case walk_start cwd path s of
        None \<Rightarrow> Some (- ENOENT, None, s)
      | Some c \<Rightarrow> lookup_loop path (vfs_follow_mount s (Some c)) s)"

text \<open>
  The walk to the parent of the last component.  With \<open>create_parents\<close> a missing component is
  made as a directory.
\<close>

partial_function (option) resolve_loop ::
    "bool \<Rightarrow> cstr \<Rightarrow> nat option \<Rightarrow> 'a vfs_state_scheme \<Rightarrow> (int \<times> nat option \<times> cstr \<times> 'a vfs_state_scheme) option" where
  "resolve_loop create_parents p cur s =
     (if path_next p NAME_BUF = None then Some (- EINVAL, None, [], s)
      else
        (case the (path_next p NAME_BUF) of
           (name, nxt) \<Rightarrow>
             (let q = dropWhile (\<lambda>c. c = slash) nxt in
              if q = [] then Some (0, cur, name, s)
              else if strcmp name dot_name = 0 then resolve_loop create_parents q cur s
              else if cur = None then None
              else if strcmp name dotdot_name = 0 then
                resolve_loop create_parents q (parent_or_self s (the cur)) s
              else if not_dir s (the cur) then Some (- ENOTDIR, None, name, s)
              else
                Option.bind (ops_lookup (the cur) name s)
                  (\<lambda>r. if fst r = 0 then
                          resolve_loop create_parents q (vfs_follow_mount (snd (snd r)) (fst (snd r))) (snd (snd r))
                        else if fst r = - ENOENT \<and> create_parents then
                          Option.bind (ops_mkdir (the cur) name False (snd (snd r)))
                            (\<lambda>m. if fst m \<noteq> 0 then Some (fst m, None, name, snd (snd m))
                                  else resolve_loop create_parents q
                                         (vfs_follow_mount (snd (snd m)) (fst (snd m))) (snd (snd m)))
                        else Some (fst r, None, name, snd (snd r))))))"

definition vfs_resolve_parent_at ::
    "nat option \<Rightarrow> cstr \<Rightarrow> bool \<Rightarrow> 'a vfs_state_scheme \<Rightarrow> (int \<times> nat option \<times> cstr \<times> 'a vfs_state_scheme) option" where
  "vfs_resolve_parent_at cwd path create_parents s =
     (case walk_start cwd path s of
        None \<Rightarrow> Some (- ENOENT, None, [], s)
      | Some c \<Rightarrow> resolve_loop create_parents path (vfs_follow_mount s (Some c)) s)"

section \<open>Operations on paths\<close>

definition vfs_create_at ::
    "nat option \<Rightarrow> cstr \<Rightarrow> bool \<Rightarrow> 'a vfs_state_scheme \<Rightarrow> (int \<times> nat option \<times> 'a vfs_state_scheme) option" where
  "vfs_create_at cwd path out_null s =
     do { (ret, vn, s1) \<leftarrow> vfs_lookup_at cwd path s;
          if ret = 0 then
            (case vn of
               None \<Rightarrow> None
             | Some v \<Rightarrow> if vn_type (g_vnode_pool s1 v) = VNODE_DIR then Some (- EISDIR, None, s1)
                          else Some (0, vn, s1))
          else if ret \<noteq> - ENOENT then Some (ret, None, s1)
          else
            do { (ret, parent, name, s2) \<leftarrow> vfs_resolve_parent_at cwd path True s1;
                 if ret \<noteq> 0 then Some (ret, None, s2)
                 else if name = [] then Some (- EINVAL, None, s2)
                 else
                   (case parent of
                      None \<Rightarrow> None
                    | Some p \<Rightarrow> if vn_ops (g_vnode_pool s2 p) = None then Some (- ENOSYS, None, s2)
                                 else ops_create p name out_null s2) } }"

definition vfs_mkdir_at ::
    "nat option \<Rightarrow> cstr \<Rightarrow> bool \<Rightarrow> 'a vfs_state_scheme \<Rightarrow> (int \<times> nat option \<times> 'a vfs_state_scheme) option" where
  "vfs_mkdir_at cwd path out_null s =
     do { (ret, vn, s1) \<leftarrow> vfs_lookup_at cwd path s;
          if ret = 0 then
            (case vn of
               None \<Rightarrow> None
             | Some v \<Rightarrow> if vn_type (g_vnode_pool s1 v) = VNODE_DIR then Some (0, vn, s1)
                          else Some (- EEXIST, None, s1))
          else if ret \<noteq> - ENOENT then Some (ret, None, s1)
          else
            do { (ret, parent, name, s2) \<leftarrow> vfs_resolve_parent_at cwd path True s1;
                 if ret \<noteq> 0 then Some (ret, None, s2)
                 else if name = [] then Some (- EINVAL, None, s2)
                 else
                   (case parent of
                      None \<Rightarrow> None
                    | Some p \<Rightarrow> if vn_ops (g_vnode_pool s2 p) = None then Some (- ENOSYS, None, s2)
                                 else ops_mkdir p name out_null s2) } }"

definition vfs_unlink_at :: "nat option \<Rightarrow> cstr \<Rightarrow> 'a vfs_state_scheme \<Rightarrow> (int \<times> 'a vfs_state_scheme) option" where
  "vfs_unlink_at cwd path s =
     do { (ret, parent, name, s1) \<leftarrow> vfs_resolve_parent_at cwd path False s;
          if ret \<noteq> 0 then Some (ret, s1)
          else if name = [] then Some (- EINVAL, s1)
          else
            (case parent of
               None \<Rightarrow> None
             | Some p \<Rightarrow>
                 (case vn_ops (g_vnode_pool s1 p) of
                    None \<Rightarrow> Some (- ENOSYS, s1)
                  | Some RAMFS_OPS \<Rightarrow> ramfs_unlink p name s1
                  | Some FAT32_OPS \<Rightarrow> fat32_unlink_op p name s1)) }"

section \<open>Operations on vnodes\<close>

definition dot_entry :: "cstr \<Rightarrow> vfs_dirent" where
  "dot_entry nm = \<lparr>d_name = nm, d_type = vnode_type_num VNODE_DIR, d_ino = 0\<rparr>"

definition vfs_readdir :: "'a vfs_state_scheme \<Rightarrow> nat option \<Rightarrow> u64 \<Rightarrow> (int \<times> vfs_dirent option) option" where
  "vfs_readdir s dir offset =
     (case dir of
        None \<Rightarrow> Some (- EINVAL, None)
      | Some d \<Rightarrow>
          if not_dir s d then Some (- ENOTDIR, None)
          else if offset = 0 then Some (0, Some (dot_entry dot_name))
          else if offset = 1 then Some (0, Some (dot_entry dotdot_name))
          else
            (case vn_ops (g_vnode_pool s d) of
               Some FAT32_OPS \<Rightarrow> fat32_readdir_op s d (offset - 2)
             | _ \<Rightarrow> ramfs_readdir s d (offset - 2)))"

definition vfs_read ::
    "nat option \<Rightarrow> u64 \<Rightarrow> u64 \<Rightarrow> 'a vfs_state_scheme \<Rightarrow> (int \<times> u8 list \<times> 'a vfs_state_scheme) option" where
  "vfs_read vn len offset s =
     (case vn of
        None \<Rightarrow> Some (- EINVAL, [], s)
      | Some v \<Rightarrow>
          (case vn_ops (g_vnode_pool s v) of
             None \<Rightarrow> Some (- ENOSYS, [], s)
           | Some RAMFS_OPS \<Rightarrow> (case ramfs_read s v len offset of (r, bs) \<Rightarrow> Some (r, bs, s))
           | Some FAT32_OPS \<Rightarrow> fat32_read_op v len offset s))"

definition vfs_write ::
    "nat option \<Rightarrow> u8 list \<Rightarrow> u64 \<Rightarrow> u64 \<Rightarrow> 'a vfs_state_scheme \<Rightarrow> (int \<times> 'a vfs_state_scheme) option" where
  "vfs_write vn buf len offset s =
     (case vn of
        None \<Rightarrow> Some (- EINVAL, s)
      | Some v \<Rightarrow>
          (case vn_ops (g_vnode_pool s v) of
             None \<Rightarrow> Some (- ENOSYS, s)
           | Some RAMFS_OPS \<Rightarrow> ramfs_write v buf len offset s
           | Some FAT32_OPS \<Rightarrow> fat32_write_op v buf len offset s))"

definition vfs_truncate :: "nat option \<Rightarrow> u64 \<Rightarrow> 'a vfs_state_scheme \<Rightarrow> (int \<times> 'a vfs_state_scheme) option" where
  "vfs_truncate vn sz s =
     (case vn of
        None \<Rightarrow> Some (- EINVAL, s)
      | Some v \<Rightarrow>
          (case vn_ops (g_vnode_pool s v) of
             None \<Rightarrow> Some (- ENOSYS, s)
           | Some RAMFS_OPS \<Rightarrow> Some (ramfs_truncate v sz s)
           | Some FAT32_OPS \<Rightarrow> fat32_truncate_op v sz s))"

definition vfs_stat_vn :: "'a vfs_state_scheme \<Rightarrow> nat option \<Rightarrow> int \<times> vfs_stat option" where
  "vfs_stat_vn s vn =
     (case vn of
        None \<Rightarrow> (- EINVAL, None)
      | Some v \<Rightarrow>
          (case vn_ops (g_vnode_pool s v) of
             None \<Rightarrow> (- ENOSYS, None)
           | Some RAMFS_OPS \<Rightarrow> (case ramfs_stat s v of (r, st) \<Rightarrow> (r, Some st))
           | Some FAT32_OPS \<Rightarrow> (case fat32_stat_op s v of (r, st) \<Rightarrow> (r, Some st))))"

text \<open>The names from a vnode up to the root, at most \<open>n\<close> of them.\<close>

fun cwd_names :: "'a vfs_state_scheme \<Rightarrow> nat option \<Rightarrow> nat \<Rightarrow> cstr list" where
  "cwd_names s cur 0 = []"
| "cwd_names s cur (Suc n) =
     (if cur = None \<or> cur = vfs_root s then []
      else vn_name (g_vnode_pool s (the cur)) # cwd_names s (vn_parent (g_vnode_pool s (the cur))) n)"

text \<open>The copy into the buffer, from the name nearest the root; \<open>buf\<close> holds what is written.\<close>

fun cwd_copy :: "nat \<Rightarrow> u8 list \<Rightarrow> cstr list \<Rightarrow> int \<times> u8 list" where
  "cwd_copy len buf [] = (0, buf)"
| "cwd_copy len buf (nm # rest) =
     (if len \<le> length buf + length nm + 1 then (- ERANGE, buf)
      else cwd_copy len (buf @ nm @ (if rest = [] then [] else [slash])) rest)"

definition vfs_getcwd_at :: "'a vfs_state_scheme \<Rightarrow> nat option \<Rightarrow> nat \<Rightarrow> int \<times> cstr" where
  "vfs_getcwd_at s cwd len =
     (let cur = (if cwd \<noteq> None then cwd else vfs_cwd s) in
      if len = 0 then (- EINVAL, [])
      else if cur = None \<or> vfs_root s = None then (- ENOENT, [])
      else if cur = vfs_root s then (if len < 2 then (- ERANGE, []) else (0, [slash]))
      else
        (let names = cwd_names s cur 16 in
         if names = [] then (if len < 2 then (- ERANGE, []) else (0, [slash]))
         else cwd_copy len [slash] (rev names)))"

section \<open>Calls relative to the current directory\<close>

definition vfs_lookup :: "cstr \<Rightarrow> 'a vfs_state_scheme \<Rightarrow> (int \<times> nat option \<times> 'a vfs_state_scheme) option" where
  "vfs_lookup path s = vfs_lookup_at None path s"

definition vfs_create :: "cstr \<Rightarrow> bool \<Rightarrow> 'a vfs_state_scheme \<Rightarrow> (int \<times> nat option \<times> 'a vfs_state_scheme) option" where
  "vfs_create path out_null s = vfs_create_at None path out_null s"

definition vfs_mkdir :: "cstr \<Rightarrow> bool \<Rightarrow> 'a vfs_state_scheme \<Rightarrow> (int \<times> nat option \<times> 'a vfs_state_scheme) option" where
  "vfs_mkdir path out_null s = vfs_mkdir_at None path out_null s"

definition vfs_unlink :: "cstr \<Rightarrow> 'a vfs_state_scheme \<Rightarrow> (int \<times> 'a vfs_state_scheme) option" where
  "vfs_unlink path s = vfs_unlink_at None path s"

definition vfs_getcwd :: "'a vfs_state_scheme \<Rightarrow> nat \<Rightarrow> int \<times> cstr" where
  "vfs_getcwd s len = vfs_getcwd_at s None len"

end
