(* ===== verification/Vfs_Props.thy ===== *)
theory Vfs_Props
  imports Vfs
begin

text \<open>
  The loops of \<^verbatim>\<open>kernel/vfs.c\<close> unrolled: the walk of \<^verbatim>\<open>vfs_lookup_at\<close> is a fold over what
  \<^verbatim>\<open>path_next\<close> cuts off, so it composes, and what \<^verbatim>\<open>vfs_getcwd_at\<close> copies is its names joined.
  What the paths mean is in \<open>Vfs_Walk\<close>.
\<close>

section \<open>The components of a path\<close>

lemma path_next_None: "path_next p n = None \<longleftrightarrow> (\<forall>c\<in>set p. c = slash)"
  by (simp add: path_next_def Let_def)

lemma path_next_shorter:
  assumes "path_next p n = Some (nm, q)"
  shows "length q < length p"
proof -
  define p1 where "p1 = dropWhile (\<lambda>c. c = slash) p"
  have p1: "p1 \<noteq> []" "q = dropWhile (\<lambda>c. c \<noteq> slash) p1"
    using assms by (auto simp: path_next_def Let_def p1_def split: if_splits)
  then have "hd p1 \<noteq> slash" using hd_dropWhile [of "\<lambda>c. c = slash" p] by (simp add: p1_def)
  then have "length q \<le> length (tl p1)" using p1 length_dropWhile_le by (cases p1) auto
  moreover have "length p1 \<le> length p" by (simp add: p1_def length_dropWhile_le)
  ultimately show ?thesis using p1(1) by (cases p1) auto
qed

function path_components :: "cstr \<Rightarrow> cstr list" where
  "path_components p =
     (case path_next p NAME_BUF of None \<Rightarrow> [] | Some (nm, q) \<Rightarrow> nm # path_components q)"
  by pat_completeness auto
termination by (relation "measure length") (auto intro: path_next_shorter)

declare path_components.simps [simp del]

lemma path_next_slash: "path_next (slash # p) n = path_next p n"
  by (simp add: path_next_def)

lemma split_word:
  assumes "slash \<notin> set w" and "r = [] \<or> hd r = slash"
  shows "takeWhile (\<lambda>c. c \<noteq> slash) (w @ r) = w" and "dropWhile (\<lambda>c. c \<noteq> slash) (w @ r) = r"
proof -
  have "takeWhile (\<lambda>c. c \<noteq> slash) (w @ r) = w \<and> dropWhile (\<lambda>c. c \<noteq> slash) (w @ r) = r"
    using assms(1)
  proof (induction w)
    case Nil
    then show ?case using assms(2) by (cases r) auto
  qed auto
  then show "takeWhile (\<lambda>c. c \<noteq> slash) (w @ r) = w" "dropWhile (\<lambda>c. c \<noteq> slash) (w @ r) = r" by simp_all
qed

text \<open>One component and what follows it.\<close>

lemma path_next_component:
  assumes "w \<noteq> []" and "slash \<notin> set w" and "r = [] \<or> hd r = slash"
  shows "path_next (w @ r) n = Some (take (n - 1) w, r)"
proof -
  have d: "dropWhile (\<lambda>c. c = slash) (w @ r) = w @ r" using assms(1,2) by (cases w) auto
  show ?thesis using assms(1) by (simp add: path_next_def Let_def d split_word [OF assms(2,3)])
qed

lemma components_slash [simp]: "path_components (slash # p) = path_components p"
  by (simp add: path_components.simps [of "slash # p"] path_components.simps [of p] path_next_slash)

lemma components_Nil [simp]: "path_components [] = []"
  by (simp add: path_components.simps path_next_def)

lemma components_word:
  "w \<noteq> [] \<Longrightarrow> slash \<notin> set w \<Longrightarrow> r = [] \<or> hd r = slash \<Longrightarrow>
   path_components (w @ r) = take (NAME_BUF - 1) w # path_components r"
  by (simp add: path_components.simps [of "w @ r"] path_next_component)

lemma components_append: "path_components (p @ slash # q) = path_components p @ path_components q"
proof (induction "length p" arbitrary: p rule: less_induct)
  case less
  show ?case
  proof (cases p)
    case Nil
    then show ?thesis by simp
  next
    case (Cons c cs)
    show ?thesis
    proof (cases "c = slash")
      case True
      then show ?thesis using less [of cs] Cons by simp
    next
      case False
      define w where "w = takeWhile (\<lambda>c. c \<noteq> slash) p"
      define r where "r = dropWhile (\<lambda>c. c \<noteq> slash) p"
      have p: "p = w @ r" by (simp add: w_def r_def)
      have w: "w \<noteq> []" "slash \<notin> set w" using False Cons by (auto simp: w_def dest: set_takeWhileD)
      have r: "r = [] \<or> hd r = slash" using hd_dropWhile [of "\<lambda>c. c \<noteq> slash" p] by (auto simp: r_def)
      have "path_components (p @ slash # q) = take (NAME_BUF - 1) w # path_components (r @ slash # q)"
        using components_word [OF w, of "r @ slash # q"] r by (cases r) (auto simp: p)
      also have "path_components (r @ slash # q) = path_components r @ path_components q"
        using less [of r] w(1) by (simp add: p)
      finally show ?thesis using components_word [OF w r] by (simp add: p)
    qed
  qed
qed

section \<open>The walk is a fold\<close>

text \<open>One component from vnode \<open>cur\<close>: a status, the vnode reached, and the state.\<close>

definition step_component ::
    "cstr \<Rightarrow> nat option \<Rightarrow> 'a vfs_state_scheme \<Rightarrow> (int \<times> nat option \<times> 'a vfs_state_scheme) option" where
  "step_component name cur s =
     (if strcmp name dot_name = 0 then Some (0, cur, s)
      else if cur = None then None
      else if strcmp name dotdot_name = 0 then Some (0, parent_or_self s (the cur), s)
      else if not_dir s (the cur) then Some (- ENOTDIR, None, s)
      else
        Option.bind (ops_lookup (the cur) name s)
          (\<lambda>(ret, v, s1). Some (if ret \<noteq> 0 then (ret, None, s1) else (0, vfs_follow_mount s1 v, s1))))"

fun walk_components ::
    "cstr list \<Rightarrow> nat option \<Rightarrow> 'a vfs_state_scheme \<Rightarrow> (int \<times> nat option \<times> 'a vfs_state_scheme) option" where
  "walk_components [] cur s = Some (0, cur, s)"
| "walk_components (nm # nms) cur s =
     Option.bind (step_component nm cur s)
       (\<lambda>(ret, v, s1). if ret \<noteq> 0 then Some (ret, None, s1) else walk_components nms v s1)"

lemma lookup_loop_walk:
  fixes s :: "'a vfs_state_scheme"
  shows "lookup_loop p cur s = walk_components (path_components p) cur s"
proof (induction "length p" arbitrary: p cur s rule: less_induct)
  case less
  show ?case
  proof (cases "path_next p NAME_BUF")
    case None
    then show ?thesis by (simp add: lookup_loop.simps [of p] path_components.simps [of p])
  next
    case (Some x)
    obtain nm q where x: "x = (nm, q)" by fastforce
    have IH: "lookup_loop q cur s = walk_components (path_components q) cur s" for cur and s :: "'a vfs_state_scheme"
      using less [OF path_next_shorter] Some x by simp
    show ?thesis
      using Some x
      by (subst lookup_loop.simps)
        (auto simp: path_components.simps [of p] IH step_component_def split: option.splits bind_splits)
  qed
qed

lemma walk_components_append:
  "walk_components (xs @ ys) cur s =
     Option.bind (walk_components xs cur s)
       (\<lambda>(ret, v, s1). if ret \<noteq> 0 then Some (ret, None, s1) else walk_components ys v s1)"
  by (induction xs arbitrary: cur s) (auto split: bind_splits)

text \<open>
  Walks compose: looking up \<^verbatim>\<open>p/q\<close> is looking up \<^verbatim>\<open>p\<close> and, when that succeeds, walking the
  components of \<^verbatim>\<open>q\<close> from the vnode reached in the state reached.
\<close>
lemma lookup_composes:
  assumes "p \<noteq> []"
  shows "vfs_lookup_at cwd (p @ slash # q) s =
    Option.bind (vfs_lookup_at cwd p s)
      (\<lambda>(ret, v, s1). if ret \<noteq> 0 then Some (ret, None, s1) else walk_components (path_components q) v s1)"
proof -
  have "walk_start cwd (p @ slash # q) s = walk_start cwd p s" using assms by (simp add: walk_start_def)
  then show ?thesis
    by (simp add: vfs_lookup_at_def lookup_loop_walk components_append walk_components_append split: option.split)
qed

section \<open>The current directory\<close>

fun join_names :: "cstr list \<Rightarrow> cstr" where
  "join_names [] = []"
| "join_names [nm] = nm"
| "join_names (nm # nms) = nm @ slash # join_names nms"

lemma cwd_copy_join:
  "cwd_copy len buf nms = (0, out) \<Longrightarrow> out = buf @ join_names nms \<and> (nms \<noteq> [] \<longrightarrow> length out + 1 < len)"
proof (induction len buf nms rule: cwd_copy.induct)
  case (1 len buf)
  then show ?case by simp
next
  case (2 len buf nm rest)
  then show ?case by (cases rest) (auto split: if_splits)
qed

definition plain_name :: "cstr \<Rightarrow> bool" where
  "plain_name nm \<longleftrightarrow> nm \<noteq> [] \<and> slash \<notin> set nm \<and> length nm < NAME_BUF"

lemma join_components: "\<forall>nm\<in>set nms. plain_name nm \<Longrightarrow> path_components (join_names nms) = nms"
proof (induction nms rule: join_names.induct)
  case 1
  then show ?case by simp
next
  case (2 nm)
  then show ?case using components_word [of nm "[]"] by (simp add: plain_name_def)
next
  case (3 nm n nms)
  then show ?case using components_word [of nm "slash # join_names (n # nms)"] by (simp add: plain_name_def)
qed

end
