(* ===== verification/Vfs_Walk.thy ===== *)
theory Vfs_Walk
  imports Vfs_Props Ramfs_Props
begin

text \<open>
  What paths mean.  A place in the file system is the list of nodes from it up to the root
  (\<open>tree_walk\<close> moves between places, on the tree of \<^verbatim>\<open>kernel/ramfs.c\<close> alone); \<open>vpath\<close> says that a
  vnode, with the vnodes its \<^verbatim>\<open>parent\<close> pointers lead to, stands for a place.  \<^verbatim>\<open>vfs_lookup_at\<close>
  refines \<open>tree_walk\<close>, and \<^verbatim>\<open>vfs_getcwd_at\<close> writes a path that leads back to where it was asked.
\<close>

section \<open>The parts of a path\<close>

text \<open>The fields between slashes; the components are those that are not empty, cut to 255 bytes.\<close>

fun split_at :: "u8 \<Rightarrow> cstr \<Rightarrow> cstr list" where
  "split_at c [] = [[]]"
| "split_at c (x # xs) =
     (if x = c then [] # split_at c xs else (x # hd (split_at c xs)) # tl (split_at c xs))"

definition components :: "cstr \<Rightarrow> cstr list" where
  "components p = List.map (take 255) (filter (\<lambda>w. w \<noteq> []) (split_at slash p))"

lemma split_at_end: "c \<notin> set w \<Longrightarrow> split_at c w = [w]"
  by (induction w) auto

lemma split_at_field: "c \<notin> set w \<Longrightarrow> split_at c (w @ c # q) = w # split_at c q"
  by (induction w) auto

lemma path_components_eq: "path_components p = components p"
proof (induction "length p" arbitrary: p rule: less_induct)
  case less
  have word: "path_components w = components w" if "slash \<notin> set w" for w
    using components_word [of w "[]"] that by (cases "w = []") (simp_all add: components_def split_at_end)
  show ?case
  proof (cases "slash \<in> set p")
    case False
    then show ?thesis by (rule word)
  next
    case True
    then obtain w q where p: "p = w @ slash # q" "slash \<notin> set w" by (metis split_list_first)
    have "path_components q = components q" using less p(1) by simp
    then show ?thesis using word [OF p(2)] p
      by (simp add: components_append) (simp add: components_def split_at_field split_at_end)
  qed
qed

lemma set_split_at: "w \<in> set (split_at c p) \<Longrightarrow> set w \<subseteq> set p"
proof (induction p arbitrary: w)
  case (Cons x xs)
  have "split_at c xs \<noteq> []" by (cases xs) auto
  then obtain f fs where "split_at c xs = f # fs" by (cases "split_at c xs") auto
  then show ?case using Cons by (auto split: if_splits) blast+
qed simp

lemma components_nul_free: "nul_free p \<Longrightarrow> nm \<in> set (components p) \<Longrightarrow> nul_free nm"
  using set_split_at set_take_subset by (fastforce simp: components_def nul_free_def)

section \<open>Places\<close>

text \<open>
  From a place along a list of names: \<^verbatim>\<open>.\<close> stays, \<^verbatim>\<open>..\<close> goes up and stays in the root, another
  name goes to that entry of the directory.
\<close>

fun tree_walk :: "'a ramfs_state_scheme \<Rightarrow> cstr list \<Rightarrow> nat list \<Rightarrow> int + nat list" where
  "tree_walk s [] st = Inr st"
| "tree_walk s (nm # nms) st =
     (if nm = dot_name then tree_walk s nms st
      else if nm = dotdot_name then tree_walk s nms (if tl st = [] then st else tl st)
      else if rn_type (rnodes s (hd st)) \<noteq> VNODE_DIR then Inl (- ENOTDIR)
      else
        (case entry_of s (hd st) nm of
           None \<Rightarrow> Inl (- ENOENT)
         | Some c \<Rightarrow> tree_walk s nms (c # st)))"

lemma tree_walk_append:
  "tree_walk s (xs @ ys) st = (case tree_walk s xs st of Inl e \<Rightarrow> Inl e | Inr t \<Rightarrow> tree_walk s ys t)"
  by (induction xs arbitrary: st) (auto split: option.split)

lemma tree_walk_cong:
  assumes "rnodes s' = rnodes s" and "rn_used s' = rn_used s"
  shows "tree_walk s' nms st = tree_walk s nms st"
proof -
  have "entry_of s' d nm = entry_of s d nm" for d nm by (rule dir_ok_cong2 [OF assms])
  then show ?thesis by (induction nms arbitrary: st) (simp_all add: assms(1) split: option.split)
qed

text \<open>A vnode of a node, and a vnode whose parents are the way up to the root.\<close>

definition vnode_of :: "'a vfs_state_scheme \<Rightarrow> nat \<Rightarrow> nat \<Rightarrow> bool" where
  "vnode_of s v n \<longleftrightarrow> g_vnode_used s v \<and> vn_ops (g_vnode_pool s v) = Some RAMFS_OPS \<and>
     vn_data (g_vnode_pool s v) = n \<and> vn_type (g_vnode_pool s v) = rn_type (rnodes s n) \<and>
     vn_name (g_vnode_pool s v) = rn_name (rnodes s n)"

fun vpath :: "'a vfs_state_scheme \<Rightarrow> nat \<Rightarrow> nat list \<Rightarrow> bool" where
  "vpath s v [] \<longleftrightarrow> False"
| "vpath s v [n] \<longleftrightarrow> vfs_root s = Some v \<and> vnode_of s v n \<and> is_dir s n \<and> vn_parent (g_vnode_pool s v) = Some v"
| "vpath s v (n # m # st) \<longleftrightarrow> vfs_root s \<noteq> Some v \<and> vnode_of s v n \<and> child_of s m n \<and>
     (case vn_parent (g_vnode_pool s v) of None \<Rightarrow> False | Some p \<Rightarrow> vpath s p (m # st))"

definition no_mounts :: "'a vfs_state_scheme \<Rightarrow> bool" where
  "no_mounts s \<longleftrightarrow> (\<forall>i<MAX_MOUNTS. mountpoint (g_mounts s i) = None)"

definition free_vnodes :: "'a vfs_state_scheme \<Rightarrow> nat" where
  "free_vnodes s = card {i. i < VNODE_POOL_SIZE \<and> \<not> g_vnode_used s i}"

text \<open>What a walk changes: it takes vnodes.\<close>

definition takes_vnodes :: "'a vfs_state_scheme \<Rightarrow> 'a vfs_state_scheme \<Rightarrow> bool" where
  "takes_vnodes s s' \<longleftrightarrow> rnodes s' = rnodes s \<and> rn_used s' = rn_used s \<and> g_root s' = g_root s \<and>
     g_cwd s' = g_cwd s \<and> g_mounts s' = g_mounts s \<and>
     (\<forall>i. g_vnode_used s i \<longrightarrow> g_vnode_used s' i \<and> g_vnode_pool s' i = g_vnode_pool s i)"

lemma takes_refl: "takes_vnodes s s"
  by (simp add: takes_vnodes_def)

lemma takes_trans: "takes_vnodes s t \<Longrightarrow> takes_vnodes t u \<Longrightarrow> takes_vnodes s u"
  by (simp add: takes_vnodes_def)

lemma vpath_hd: "vpath s v st \<Longrightarrow> st \<noteq> [] \<and> vnode_of s v (hd st) \<and> rn_used s (hd st) \<and> hd st < RAMFS_MAX_NODES"
  by (cases "(s, v, st)" rule: vpath.cases) (auto simp: is_dir_def child_of_def dir_ok_def)

lemma vpath_root: "vpath s v st \<Longrightarrow> \<exists>r. vfs_root s = Some r \<and> vpath s r [last st] \<and> (vfs_root s = Some v \<longleftrightarrow> tl st = [])"
proof (induction s v st rule: vpath.induct)
  case (3 s v n m st)
  then show ?case by (cases "vn_parent (g_vnode_pool s v)") auto
qed simp_all

lemma vnode_of_takes: "takes_vnodes s s' \<Longrightarrow> vnode_of s v n \<Longrightarrow> vnode_of s' v n \<and> g_vnode_pool s' v = g_vnode_pool s v"
  by (simp add: takes_vnodes_def vnode_of_def)

lemma vpath_takes: "takes_vnodes s s' \<Longrightarrow> vpath s v st \<Longrightarrow> vpath s' v st"
proof (induction s v st rule: vpath.induct)
  case (2 s v n)
  then show ?case using vnode_of_takes [of s s' v n] by (simp add: takes_vnodes_def vfs_root_def is_dir_def)
next
  case (3 s v n m st)
  have c: "child_of s' = child_of s" and r: "vfs_root s' = vfs_root s"
    using 3(2) child_of_cong by (auto simp: takes_vnodes_def vfs_root_def)
  obtain q where q: "vn_parent (g_vnode_pool s v) = Some q" using 3(3) by (auto split: option.splits)
  have v: "vnode_of s' v n" "g_vnode_pool s' v = g_vnode_pool s v"
    using vnode_of_takes [OF 3(2), of v n] 3(3) by simp_all
  show ?case using 3 v q by (simp add: c r)
qed simp

lemma wrap_takes:
  fixes s :: "'a vfs_state_scheme"
  assumes "ramfs_wrap_node c (Some v) s = (x, s')" and "0 < free_vnodes s"
  obtains w where "x = Some w" and "takes_vnodes s s'" and "\<not> g_vnode_used s w" and "vnode_of s' w c"
    and "vn_parent (g_vnode_pool s' w) = Some v" and "Suc (free_vnodes s') = free_vnodes s"
proof (cases s rule: alloc_vnode_cases)
  case full
  then have "{i. i < VNODE_POOL_SIZE \<and> \<not> g_vnode_used s i} = {}" by auto
  then show ?thesis using assms(2) unfolding free_vnodes_def by (metis card.empty less_numeral_extra(3))
next
  case (slot i)
  have s': "x = Some i" "g_vnode_used s' = (g_vnode_used s)(i := True)"
    and t: "takes_vnodes s s'" "vnode_of s' i c" "vn_parent (g_vnode_pool s' i) = Some v"
    using assms(1) slot(2)
    by (auto simp: ramfs_wrap_node_def slot(3) takes_vnodes_def vnode_of_def upd_vnode_def)
  have "{j. j < VNODE_POOL_SIZE \<and> \<not> g_vnode_used s j} = insert i {j. j < VNODE_POOL_SIZE \<and> \<not> g_vnode_used s' j}"
    using slot(1,2) by (auto simp: s'(2))
  then have "Suc (free_vnodes s') = free_vnodes s" by (simp add: free_vnodes_def s'(2))
  then show ?thesis by (rule that [OF s'(1) t(1) slot(2) t(2,3)])
qed

section \<open>A walk follows the tree\<close>

lemma follow_nothing: "no_mounts s \<Longrightarrow> vfs_follow_mount s x = x"
  by (auto simp: no_mounts_def vfs_follow_mount_def mount_hit_def find_Some_iff split: option.split)

lemma entry_child:
  assumes "ramfs_inv s" and "is_dir s d" and "entry_of s d nm = Some c"
  shows "child_of s d c"
proof -
  obtain cs where cs: "dir_ok s d cs" by (rule ramfs_invD [OF assms(1,2)])
  then show ?thesis using assms(2,3) entry_of_iff [OF cs] by (auto simp: child_of_def)
qed

lemma lookup_entry:
  assumes inv: "ramfs_inv s" and d: "is_dir s (vn_data (g_vnode_pool s v))"
  shows "ramfs_lookup v nm s = Some (case entry_of s (vn_data (g_vnode_pool s v)) nm of
      None \<Rightarrow> (- ENOENT, None, s)
    | Some c \<Rightarrow> (case ramfs_wrap_node c (Some v) s of (x, s1) \<Rightarrow> (0, x, s1)))"
proof -
  obtain cs where cs: "dir_ok s (vn_data (g_vnode_pool s v)) cs" by (rule ramfs_invD [OF inv d])
  show ?thesis
    using ramfs_lookup_spec [OF inv d cs refl] entry_of_ok [OF cs, of nm]
    by (auto split: option.split)
qed

text \<open>One component, from a vnode that stands for a place.\<close>

lemma step_place:
  fixes s :: "'a vfs_state_scheme"
  assumes inv: "ramfs_inv s" and nm: "no_mounts s" and v: "vpath s v st" and nul: "nul_free name"
    and free: "0 < free_vnodes s"
  shows "\<exists>ret x s'. step_component name (Some v) s = Some (ret, x, s') \<and> takes_vnodes s s' \<and>
    free_vnodes s \<le> Suc (free_vnodes s') \<and>
    (case tree_walk s [name] st of
       Inl e \<Rightarrow> ret = e \<and> e \<noteq> 0
     | Inr st' \<Rightarrow> ret = 0 \<and> (\<exists>w. x = Some w \<and> vpath s' w st'))"
proof -
  have dots: "strcmp name dot_name = 0 \<longleftrightarrow> name = dot_name" "strcmp name dotdot_name = 0 \<longleftrightarrow> name = dotdot_name"
    using strcmp_eq_0 [OF nul, of dot_name] strcmp_eq_0 [OF nul, of dotdot_name] by (simp_all add: nul_free_def)
  note h = vpath_hd [OF v]
  have ops: "vn_ops (g_vnode_pool s v) = Some RAMFS_OPS" and data: "vn_data (g_vnode_pool s v) = hd st"
    and ty: "vn_type (g_vnode_pool s v) = rn_type (rnodes s (hd st))"
    using h by (simp_all add: vnode_of_def)
  consider "name = dot_name" | "name = dotdot_name" | "name \<noteq> dot_name" "name \<noteq> dotdot_name" by blast
  then show ?thesis
  proof cases
    case 1
    then show ?thesis using v takes_refl [of s] by (simp add: step_component_def dots)
  next
    case 2
    have "\<exists>w. parent_or_self s v = Some w \<and> vpath s w (if tl st = [] then st else tl st)"
      using v by (cases "(s, v, st)" rule: vpath.cases) (auto simp: parent_or_self_def split: option.splits)
    then show ?thesis using 2 takes_refl [of s] by (auto simp: step_component_def dots)
  next
    case 3
    show ?thesis
    proof (cases "rn_type (rnodes s (hd st)) = VNODE_DIR")
      case False
      then show ?thesis using 3 takes_refl [of s] by (simp add: step_component_def dots not_dir_def ty)
    next
      case True
      then have d: "is_dir s (hd st)" using h by (simp add: is_dir_def)
      have l: "ops_lookup v name s = Some (case entry_of s (hd st) name of
          None \<Rightarrow> (- ENOENT, None, s)
        | Some c \<Rightarrow> (case ramfs_wrap_node c (Some v) s of (x, s1) \<Rightarrow> (0, x, s1)))"
        using lookup_entry [OF inv, of v name] d by (simp add: ops_lookup_def ops data)
      show ?thesis
      proof (cases "entry_of s (hd st) name")
        case None
        then show ?thesis using 3 True takes_refl [of s] by (simp add: step_component_def dots not_dir_def ty ops l)
      next
        case (Some c)
        obtain x s' where w: "ramfs_wrap_node c (Some v) s = (x, s')" by fastforce
        from w free obtain w where x: "x = Some w" and t: "takes_vnodes s s'" "\<not> g_vnode_used s w" "vnode_of s' w c"
            "vn_parent (g_vnode_pool s' w) = Some v" "Suc (free_vnodes s') = free_vnodes s"
          by (rule wrap_takes)
        have nm': "no_mounts s'" using nm t(1) by (simp add: no_mounts_def takes_vnodes_def)
        have ch: "child_of s' (hd st) c"
          using entry_child [OF inv d Some] child_of_cong [of s' s] t(1) by (simp add: takes_vnodes_def)
        obtain r where r: "vfs_root s = Some r" "vpath s r [last st]" using vpath_root [OF v] by blast
        then have "w \<noteq> r" using t(2) by (auto simp: vnode_of_def)
        then have nr: "vfs_root s' \<noteq> Some w" using r(1) t(1) by (simp add: takes_vnodes_def vfs_root_def)
        obtain st' where st: "st = hd st # st'" using h by (cases st) auto
        have "vpath s' v (hd st # st')" using vpath_takes [OF t(1) v] st by simp
        then have "vpath s' w (c # hd st # st')" using t(3,4) ch nr by simp
        then have "vpath s' w (c # st)" using st by simp
        then show ?thesis
          using 3 True Some w x t(1,5) by (simp add: step_component_def dots not_dir_def ty ops l follow_nothing [OF nm'])
      qed
    qed
  qed
qed

lemma walk_place:
  fixes s :: "'a vfs_state_scheme"
  assumes "ramfs_inv s" and "no_mounts s" and "vpath s v st" and "\<forall>nm\<in>set nms. nul_free nm"
    and "length nms \<le> free_vnodes s"
  shows "\<exists>ret x s'. walk_components nms (Some v) s = Some (ret, x, s') \<and> takes_vnodes s s' \<and>
    (case tree_walk s nms st of
       Inl e \<Rightarrow> ret = e \<and> x = None
     | Inr st' \<Rightarrow> ret = 0 \<and> (\<exists>w. x = Some w \<and> vpath s' w st'))"
  using assms
proof (induction nms arbitrary: v st s)
  case Nil
  then show ?case using takes_refl by auto
next
  case (Cons nm nms)
  obtain ret x s1 where s1: "step_component nm (Some v) s = Some (ret, x, s1)" "takes_vnodes s s1"
      "free_vnodes s \<le> Suc (free_vnodes s1)"
    and c: "case tree_walk s [nm] st of Inl e \<Rightarrow> ret = e \<and> e \<noteq> 0
       | Inr st' \<Rightarrow> ret = 0 \<and> (\<exists>w. x = Some w \<and> vpath s1 w st')"
    using step_place [OF Cons.prems(1-3), of nm] Cons.prems(4,5) by auto
  have a: "tree_walk s (nm # nms) st = (case tree_walk s [nm] st of Inl e \<Rightarrow> Inl e | Inr t \<Rightarrow> tree_walk s nms t)"
    using tree_walk_append [of s "[nm]" nms st] by simp
  show ?case
  proof (cases "tree_walk s [nm] st")
    case (Inl e)
    then show ?thesis using c s1 a by simp
  next
    case (Inr t)
    then obtain w where w: "ret = 0" "x = Some w" "vpath s1 w t" using c by auto
    have r: "rnodes s1 = rnodes s" "rn_used s1 = rn_used s" and g: "g_mounts s1 = g_mounts s"
      using s1(2) by (simp_all add: takes_vnodes_def)
    have "ramfs_inv s1" "no_mounts s1"
      using Cons.prems(1,2) ramfs_inv_cong [OF r] g by (simp_all add: no_mounts_def)
    from Cons.IH [OF this w(3)] Cons.prems(4,5) s1(3)
    obtain ret2 x2 s2 where "walk_components nms (Some w) s1 = Some (ret2, x2, s2)" "takes_vnodes s1 s2"
      "case tree_walk s1 nms t of Inl e \<Rightarrow> ret2 = e \<and> x2 = None
       | Inr st' \<Rightarrow> ret2 = 0 \<and> (\<exists>w. x2 = Some w \<and> vpath s2 w st')"
      by auto
    then show ?thesis
      using s1(1) w(1,2) a Inr takes_trans [OF s1(2)] tree_walk_cong [OF r, of nms t] by simp
  qed
qed

text \<open>
  C18. A path lookup in a file system without mounts finds what the tree of nodes says.  The path
  is cut at its slashes into the fields that are not empty, the first 255 bytes of each; from the
  root, when the path starts with a slash, or else from the directory it is relative to, \<^verbatim>\<open>.\<close> stays,
  \<^verbatim>\<open>..\<close> goes up one level and stays in the root, and a name goes to that entry.  The lookup fails
  with \<^verbatim>\<open>-ENOTDIR\<close> at the first name after something that is no directory and with \<^verbatim>\<open>-ENOENT\<close> at
  the first name that is no entry; otherwise it returns a vnode that stands for the place reached.
  The nodes, the mounts and every vnode in use are as before; there must be a free vnode for each
  component.
\<close>
theorem lookup_follows_tree:
  fixes s :: "'a vfs_state_scheme"
  assumes "ramfs_inv s" and "no_mounts s" and "(if cwd \<noteq> None then cwd else vfs_cwd s) = Some v"
    and "vpath s v st" and "nul_free path" and "length (components path) \<le> free_vnodes s"
  shows "\<exists>ret x s'. vfs_lookup_at cwd path s = Some (ret, x, s') \<and> takes_vnodes s s' \<and>
    (case tree_walk s (components path) (if path \<noteq> [] \<and> hd path = slash then [last st] else st) of
       Inl e \<Rightarrow> ret = e \<and> x = None
     | Inr st' \<Rightarrow> ret = 0 \<and> (\<exists>w. x = Some w \<and> vpath s' w st'))"
proof -
  obtain r where r: "vfs_root s = Some r" "vpath s r [last st]" using vpath_root [OF assms(4)] by blast
  define u where "u = (if path \<noteq> [] \<and> hd path = slash then r else v)"
  have u: "walk_start cwd path s = Some u" "vpath s u (if path \<noteq> [] \<and> hd path = slash then [last st] else st)"
    using r assms(3,4) by (auto simp: walk_start_def u_def)
  have "vfs_lookup_at cwd path s = walk_components (components path) (Some u) s"
    by (simp add: vfs_lookup_at_def u(1) follow_nothing [OF assms(2)] lookup_loop_walk path_components_eq)
  then show ?thesis
    using walk_place [OF assms(1,2) u(2), of "components path"] components_nul_free [OF assms(5)] assms(6) by simp
qed

section \<open>The path of the current directory\<close>

text \<open>The path of a place, and the names on it.\<close>

definition place_names :: "'a ramfs_state_scheme \<Rightarrow> nat list \<Rightarrow> cstr list" where
  "place_names s st = rev (List.map (\<lambda>n. rn_name (rnodes s n)) (butlast st))"

definition abs_path :: "'a ramfs_state_scheme \<Rightarrow> nat list \<Rightarrow> cstr" where
  "abs_path s st = slash # join_names (place_names s st)"

text \<open>Names a directory should hold: a walk takes them for themselves.\<close>

definition walkable :: "cstr \<Rightarrow> bool" where
  "walkable nm \<longleftrightarrow> plain_name nm \<and> nul_free nm \<and> nm \<noteq> dot_name \<and> nm \<noteq> dotdot_name"

lemma cwd_names_place:
  "vpath s v st \<Longrightarrow> cwd_names s (Some v) k = take k (List.map (\<lambda>n. rn_name (rnodes s n)) (butlast st))"
proof (induction s v st arbitrary: k rule: vpath.induct)
  case (2 s v n)
  then show ?case by (cases k) simp_all
next
  case (3 s v n m st)
  then obtain q where q: "vn_parent (g_vnode_pool s v) = Some q" by (auto split: option.splits)
  have "vn_name (g_vnode_pool s v) = rn_name (rnodes s n)" using 3(2) by (simp add: vnode_of_def)
  then show ?case using 3 q by (cases k) auto
qed simp

lemma cwd_copy_fits:
  "nms \<noteq> [] \<Longrightarrow> length buf + length (join_names nms) + 1 < len \<Longrightarrow> cwd_copy len buf nms = (0, buf @ join_names nms)"
proof (induction len buf nms rule: cwd_copy.induct)
  case (2 len buf nm rest)
  then show ?case by (cases rest) auto
qed simp

lemma cwd_copy_result: "fst (cwd_copy len buf nms) = 0 \<or> fst (cwd_copy len buf nms) = - ERANGE"
  by (induction len buf nms rule: cwd_copy.induct) simp_all

lemma cwd_copy_full:
  assumes "nms \<noteq> []" and "len \<le> length buf + length (join_names nms) + 1"
  shows "fst (cwd_copy len buf nms) = - ERANGE"
proof -
  obtain r out where c: "cwd_copy len buf nms = (r, out)" by fastforce
  have "r \<noteq> 0" using cwd_copy_join [of len buf nms out] c assms by auto
  then show ?thesis using cwd_copy_result [of len buf nms] c by simp
qed

lemma child_entry:
  assumes "child_of s d c" shows "entry_of s d (rn_name (rnodes s c)) = Some c"
  using assms entry_of_iff by (fastforce simp: child_of_def key_def)

lemma tree_walk_down:
  "vpath s v st \<Longrightarrow> \<forall>nm\<in>set (place_names s st). walkable nm \<Longrightarrow> tree_walk s (place_names s st) [last st] = Inr st"
proof (induction s v st rule: vpath.induct)
  case (2 s v n)
  then show ?case by (simp add: place_names_def)
next
  case (3 s v n m st)
  obtain q where q: "vn_parent (g_vnode_pool s v) = Some q" "vpath s q (m # st)"
    using 3(2) by (auto split: option.splits)
  let ?nm = "rn_name (rnodes s n)"
  have names: "place_names s (n # m # st) = place_names s (m # st) @ [?nm]" by (simp add: place_names_def)
  have IH: "tree_walk s (place_names s (m # st)) [last (m # st)] = Inr (m # st)"
    using 3(1) [OF q] 3(3) names by simp
  have w: "?nm \<noteq> dot_name" "?nm \<noteq> dotdot_name" using 3(3) names by (simp_all add: walkable_def)
  have ch: "child_of s m n" using 3(2) by simp
  then have "rn_type (rnodes s m) = VNODE_DIR" by (simp add: child_of_def is_dir_def)
  then have "tree_walk s [?nm] (m # st) = Inr (n # m # st)" using w child_entry [OF ch] by simp
  then show ?case using IH names by (simp add: tree_walk_append)
qed simp

lemma place_components:
  assumes "\<forall>nm\<in>set (place_names s st). walkable nm"
  shows "components (abs_path s st) = place_names s st" and "nul_free (abs_path s st)"
proof -
  have "path_components (abs_path s st) = place_names s st"
    using join_components [of "place_names s st"] assms by (simp add: abs_path_def walkable_def)
  then show "components (abs_path s st) = place_names s st" by (simp add: path_components_eq)
  have "nul_free (join_names nms)" if "\<forall>nm\<in>set nms. nul_free nm" for nms
    using that by (induction nms rule: join_names.induct) (auto simp: nul_free_def)
  then show "nul_free (abs_path s st)" using assms by (auto simp: abs_path_def walkable_def nul_free_def)
qed

lemma place_names_Nil: "vpath s v st \<Longrightarrow> place_names s st = [] \<longleftrightarrow> tl st = []"
  by (cases "(s, v, st)" rule: vpath.cases) (auto simp: place_names_def)


text \<open>
  Below that depth the 16 names nearest the directory are all \<^verbatim>\<open>getcwd\<close> writes, as if they started
  at the root.
\<close>
lemma getcwd_deep:
  assumes "vpath s v st" and "17 < length st" and "vfs_getcwd_at s (Some v) len = (0, path)"
  shows "path = slash # join_names (rev (take 16 (List.map (\<lambda>n. rn_name (rnodes s n)) (butlast st))))"
proof -
  let ?names = "take 16 (List.map (\<lambda>n. rn_name (rnodes s n)) (butlast st))"
  have "tl st \<noteq> []" "?names \<noteq> []" using assms(2) by (cases st; auto)+
  then have "cwd_copy len [slash] (rev ?names) = (0, path)"
    using assms(3) vpath_root [OF assms(1)] cwd_names_place [OF assms(1), of 16]
    by (auto simp: vfs_getcwd_at_def Let_def split: if_splits)
  then show ?thesis using cwd_copy_join by fastforce
qed

section \<open>A small tree\<close>

declare One_nat_def [simp del]

text \<open>The root, node 0, with the directory \<^verbatim>\<open>bin\<close>, node 1, and in it the directory \<^verbatim>\<open>x\<close>, node 2; a vnode of each.\<close>

definition small_nodes :: "nat \<Rightarrow> ramfs_node" where
  "small_nodes i =
     (if i = 0 then zero_node\<lparr>rn_type := VNODE_DIR, rn_parent := Some 0, rn_child := Some 1\<rparr>
      else if i = 1 then zero_node\<lparr>rn_type := VNODE_DIR, rn_name := [0x62, 0x69, 0x6E], rn_parent := Some 0, rn_child := Some 2\<rparr>
      else if i = 2 then zero_node\<lparr>rn_type := VNODE_DIR, rn_name := [0x78], rn_parent := Some 1\<rparr>
      else zero_node)"

definition small_tree :: vfs_state where
  "small_tree =
     \<lparr>g_vnode_pool = (\<lambda>i. zero_vnode\<lparr>vn_type := VNODE_DIR, vn_ops := Some RAMFS_OPS, vn_data := i,
         vn_parent := (if i = 2 then Some 1 else Some 0), vn_name := rn_name (small_nodes i)\<rparr>),
      g_vnode_used = (\<lambda>i. i < 3), rnodes = small_nodes, rn_used = (\<lambda>i. i < 3), rn_base = 0,
      vol = \<lparr>v_fs = zero_fs, v_dev = \<lparr>sectors = (\<lambda>_. []), read_fails = (\<lambda>_. False), write_fails = (\<lambda>_. False)\<rparr>\<rparr>,
      fnodes = (\<lambda>_. zero_fnode), fn_used = (\<lambda>_. False),
      g_mounts = (\<lambda>_. \<lparr>mountpoint = None, mroot = None\<rparr>), g_root = Some 0, g_cwd = Some 2\<rparr>"

lemma small_tree_simps [simp]:
  "rnodes small_tree = small_nodes" "rn_used small_tree i = (i < 3)" "g_vnode_used small_tree i = (i < 3)"
  "vfs_root small_tree = Some 0" "vfs_cwd small_tree = Some 2" "no_mounts small_tree"
  by (simp_all add: small_tree_def vfs_root_def vfs_cwd_def no_mounts_def)

lemma small_nodes_simps [simp]:
  "rn_type (small_nodes 0) = VNODE_DIR" "rn_type (small_nodes 1) = VNODE_DIR" "rn_type (small_nodes 2) = VNODE_DIR"
  "rn_name (small_nodes 1) = [0x62, 0x69, 0x6E]" "rn_name (small_nodes 2) = [0x78]" "rn_name (small_nodes 0) = []"
  "rn_child (small_nodes 0) = Some 1" "rn_child (small_nodes 1) = Some 2" "rn_child (small_nodes 2) = None"
  "rn_parent (small_nodes 1) = Some 0" "rn_parent (small_nodes 2) = Some 1" "rn_sibling (small_nodes i) = None"
  by (simp_all add: small_nodes_def zero_node_def)

lemma small_tree_dirs: "dir_ok small_tree 0 [1]" "dir_ok small_tree 1 [2]" "dir_ok small_tree 2 []"
  by (simp_all add: dir_ok_def dir_chain_def)

lemma small_tree_is_dir: "is_dir small_tree d \<longleftrightarrow> d < 3"
proof
  assume "d < 3"
  then have "d = 0 \<or> d = 1 \<or> d = 2" by linarith
  then show "is_dir small_tree d" by (auto simp: is_dir_def)
qed (simp add: is_dir_def)

lemma small_tree_inv: "ramfs_inv small_tree"
proof -
  have "\<exists>cs. dir_ok small_tree d cs" if "d < 3" for d
    using small_tree_dirs that less_Suc_eq [of d 2] less_Suc_eq [of d 1] by (auto simp: numeral_3_eq_3 numeral_2_eq_2 One_nat_def)
  moreover have "file_ok (small_nodes i)" for i by (simp add: small_nodes_def file_ok_def zero_node_def)
  ultimately show ?thesis by (simp add: ramfs_inv_def small_tree_is_dir)
qed

lemma small_tree_place: "vpath small_tree 2 [2, 1, 0]"
proof -
  have "child_of small_tree 1 2" "child_of small_tree 0 1"
    using small_tree_dirs(1,2) by (auto simp: child_of_def small_tree_is_dir)
  moreover have "vnode_of small_tree i i" if "i < 3" for i
  proof -
    have "i = 0 \<or> i = 1 \<or> i = 2" using that by linarith
    then show ?thesis by (auto simp: vnode_of_def small_tree_def)
  qed
  moreover have "vn_parent (g_vnode_pool small_tree i) = (if i = 2 then Some 1 else Some 0)" for i
    by (simp add: small_tree_def)
  ultimately show ?thesis by (simp add: small_tree_is_dir)
qed

lemma small_tree_free: "10 \<le> free_vnodes small_tree"
proof -
  have "{i. i < VNODE_POOL_SIZE \<and> \<not> g_vnode_used small_tree i} = {3..<256}" by auto
  then show ?thesis by (simp add: free_vnodes_def)
qed

lemma small_tree_entry:
  "entry_of small_tree 0 nm = (if map lower nm = [0x62, 0x69, 0x6E] then Some 1 else None)"
  "entry_of small_tree 1 nm = (if map lower nm = [0x78] then Some 2 else None)"
  using small_tree_dirs(1,2)
  by (simp_all add: entry_of_ok name_eq_nocase_iff lower_def)

text \<open>From \<^verbatim>\<open>/bin/x\<close>, the path \<^verbatim>\<open>../..//BIN/./x\<close> leads back to it, and \<^verbatim>\<open>/bin/y\<close> leads nowhere.\<close>

theorem lookup_follows_tree_witness:
  "(\<exists>w s'. vfs_lookup_at None [0x2E, 0x2E, 0x2F, 0x2E, 0x2E, 0x2F, 0x2F, 0x42, 0x49, 0x4E, 0x2F, 0x2E, 0x2F, 0x78] small_tree =
      Some (0, Some w, s') \<and> vpath s' w [2, 1, 0] \<and> vn_data (g_vnode_pool s' w) = 2) \<and>
   (\<exists>s'. vfs_lookup_at None [0x2F, 0x62, 0x69, 0x6E, 0x2F, 0x79] small_tree = Some (- ENOENT, None, s'))"
proof -
  let ?p = "[0x2E, 0x2E, 0x2F, 0x2E, 0x2E, 0x2F, 0x2F, 0x42, 0x49, 0x4E, 0x2F, 0x2E, 0x2F, 0x78] :: cstr"
  let ?q = "[0x2F, 0x62, 0x69, 0x6E, 0x2F, 0x79] :: cstr"
  have c: "components ?p = [dotdot_name, dotdot_name, [0x42, 0x49, 0x4E], dot_name, [0x78]]"
    "components ?q = [[0x62, 0x69, 0x6E], [0x79]]"
    by (simp_all add: components_def)
  have t: "tree_walk small_tree (components ?p) [2, 1, 0] = Inr [2, 1, 0]"
    "tree_walk small_tree (components ?q) [0] = Inl (- ENOENT)"
    by (simp_all add: c small_tree_entry lower_def)
  have l: "length (components ?p) \<le> free_vnodes small_tree" "length (components ?q) \<le> free_vnodes small_tree"
    using small_tree_free by (simp_all add: c)
  have n: "nul_free ?p" "nul_free ?q" by (simp_all add: nul_free_def)
  have cwd: "(if None \<noteq> (None :: nat option) then None else vfs_cwd small_tree) = Some 2" by simp
  note f = lookup_follows_tree [OF small_tree_inv small_tree_simps(6) cwd small_tree_place]
  from f [OF n(1) l(1)] f [OF n(2) l(2)] t vpath_hd show ?thesis by (fastforce simp: vnode_of_def)
qed


end
