(* ===== verification/File.thy ===== *)
theory File
  imports Vfs
begin

text \<open>
  \<^verbatim>\<open>kernel/file.c\<close>: the table of open files.  An entry is shared by descriptors and counts
  them in \<^verbatim>\<open>ref\<close>; the offset lives in the entry.  The pool laws hold through \<open>fp\<close>
  (interpretation of \<open>slot_pool_release\<close>) for an entry whose last reference is dropped.
  \<^verbatim>\<open>int ref\<close> is an \<open>int\<close>: a count is bounded by the number of descriptor slots, 256.
\<close>

record open_file =
  fl_ref :: int
  fl_readable :: bool
  fl_writable :: bool
  fl_off :: u64
  fl_vn :: "nat option"

definition zero_file :: open_file where
  "zero_file = \<lparr>fl_ref = 0, fl_readable = False, fl_writable = False, fl_off = 0, fl_vn = None\<rparr>"

record file_state = vfs_state +
  g_file :: "nat \<Rightarrow> open_file"
  g_file_used :: "nat \<Rightarrow> bool"

abbreviation NFILE :: nat where "NFILE \<equiv> 64"

definition upd_file :: "nat \<Rightarrow> (open_file \<Rightarrow> open_file) \<Rightarrow> 'a file_state_scheme \<Rightarrow> 'a file_state_scheme" where
  "upd_file i g s = s\<lparr>g_file := (g_file s)(i := g (g_file s i))\<rparr>"

definition file_alloc :: "'a file_state_scheme \<Rightarrow> nat option \<times> 'a file_state_scheme" where
  "file_alloc s =
     (case first_unused (g_file_used s) NFILE of
        None \<Rightarrow> (None, s)
      | Some i \<Rightarrow> (Some i, s\<lparr>g_file_used := (g_file_used s)(i := True),
                       g_file := (g_file s)(i := zero_file\<lparr>fl_ref := 1\<rparr>)\<rparr>))"

definition file_dup :: "nat option \<Rightarrow> 'a file_state_scheme \<Rightarrow> nat option \<times> 'a file_state_scheme" where
  "file_dup f s =
     (case f of
        None \<Rightarrow> (None, s)
      | Some i \<Rightarrow> (f, upd_file i (\<lambda>e. e\<lparr>fl_ref := fl_ref e + 1\<rparr>) s))"

definition file_close :: "nat option \<Rightarrow> 'a file_state_scheme \<Rightarrow> 'a file_state_scheme" where
  "file_close f s =
     (case f of
        None \<Rightarrow> s
      | Some i \<Rightarrow>
          (let s1 = upd_file i (\<lambda>e. e\<lparr>fl_ref := fl_ref e - 1\<rparr>) s in
           if fl_ref (g_file s1 i) = 0 then
             (let s2 = upd_file i (\<lambda>e. e\<lparr>fl_vn := None, fl_off := 0, fl_readable := False, fl_writable := False\<rparr>) s1
              in if i < NFILE then s2\<lparr>g_file_used := (g_file_used s2)(i := False)\<rparr> else s2)
           else s1))"

text \<open>The bytes read come back with the status; the offset moves by the count.\<close>

definition file_read ::
    "nat option \<Rightarrow> u64 \<Rightarrow> 'a file_state_scheme \<Rightarrow> (int \<times> u8 list \<times> 'a file_state_scheme) option" where
  "file_read f len s =
     (case f of
        None \<Rightarrow> Some (- EBADF, [], s)
      | Some i \<Rightarrow>
          if \<not> fl_readable (g_file s i) then Some (- EBADF, [], s)
          else
            do { (n, bs, s1) \<leftarrow> vfs_read (fl_vn (g_file s i)) len (fl_off (g_file s i)) s;
                 Some (n, bs, if 0 < n then upd_file i (\<lambda>e. e\<lparr>fl_off := fl_off e + of_int n\<rparr>) s1 else s1) })"

definition file_write ::
    "nat option \<Rightarrow> u8 list \<Rightarrow> u64 \<Rightarrow> 'a file_state_scheme \<Rightarrow> (int \<times> 'a file_state_scheme) option" where
  "file_write f buf len s =
     (case f of
        None \<Rightarrow> Some (- EBADF, s)
      | Some i \<Rightarrow>
          if \<not> fl_writable (g_file s i) then Some (- EBADF, s)
          else
            do { (n, s1) \<leftarrow> vfs_write (fl_vn (g_file s i)) buf len (fl_off (g_file s i)) s;
                 Some (n, if 0 < n then upd_file i (\<lambda>e. e\<lparr>fl_off := fl_off e + of_int n\<rparr>) s1 else s1) })"

definition file_truncate :: "nat option \<Rightarrow> u64 \<Rightarrow> 'a file_state_scheme \<Rightarrow> (int \<times> 'a file_state_scheme) option" where
  "file_truncate f sz s =
     (case f of
        None \<Rightarrow> Some (- EBADF, s)
      | Some i \<Rightarrow>
          if \<not> fl_writable (g_file s i) then Some (- EBADF, s)
          else
            do { (ret, s1) \<leftarrow> vfs_truncate (fl_vn (g_file s i)) sz s;
                 Some (ret, if ret = 0 \<and> sz < fl_off (g_file s1 i)
                            then upd_file i (\<lambda>e. e\<lparr>fl_off := sz\<rparr>) s1 else s1) })"

definition file_stat :: "'a file_state_scheme \<Rightarrow> nat option \<Rightarrow> int \<times> vfs_stat option" where
  "file_stat s f =
     (case f of None \<Rightarrow> (- EBADF, None) | Some i \<Rightarrow> vfs_stat_vn s (fl_vn (g_file s i)))"

section \<open>The pool\<close>

lemma upd_file_simps [simp]:
  "g_file_used (upd_file i g s) = g_file_used s"
  "g_file (upd_file i g s) = (g_file s)(i := g (g_file s i))"
  by (simp_all add: upd_file_def)

text \<open>
  The table with counts that match its flags: an entry in use has a positive count and is one
  of the 64.
\<close>

definition files_ok :: "'a file_state_scheme \<Rightarrow> bool" where
  "files_ok s \<longleftrightarrow> (\<forall>i. g_file_used s i \<longrightarrow> i < NFILE \<and> 0 < fl_ref (g_file s i))"

lemma file_alloc_cases:
  obtains (full) "file_alloc s = (None, s)" "\<forall>i<NFILE. g_file_used s i"
  | (slot) i where "i < NFILE" "\<not> g_file_used s i"
      "file_alloc s = (Some i, s\<lparr>g_file_used := (g_file_used s)(i := True),
         g_file := (g_file s)(i := zero_file\<lparr>fl_ref := 1\<rparr>)\<rparr>)"
proof (cases "first_unused (g_file_used s) NFILE")
  case None
  then show ?thesis using full first_unused_None [THEN iffD1, OF None] by (simp add: file_alloc_def)
next
  case (Some i)
  then show ?thesis using slot [of i] first_unused_Some [OF Some] by (simp add: file_alloc_def)
qed

text \<open>Dropping the only reference releases the entry.\<close>

definition drop_last :: "nat \<Rightarrow> 'a file_state_scheme \<Rightarrow> 'a file_state_scheme" where
  "drop_last i s = file_close (Some i) (upd_file i (\<lambda>e. e\<lparr>fl_ref := 1\<rparr>) s)"

lemma file_close_used:
  "g_file_used (file_close (Some i) s) =
     (if fl_ref (g_file s i) = 1 \<and> i < NFILE then (g_file_used s)(i := False) else g_file_used s)"
  by (simp add: file_close_def Let_def)

lemma file_close_ref:
  "fl_ref (g_file (file_close (Some i) s) j) = (if j = i then fl_ref (g_file s i) - 1 else fl_ref (g_file s j))"
  by (simp add: file_close_def Let_def)

lemma file_dup_ref:
  "fl_ref (g_file (snd (file_dup (Some i) s)) j) = (if j = i then fl_ref (g_file s i) + 1 else fl_ref (g_file s j))"
  by (simp add: file_dup_def)

interpretation fp: slot_pool_release "\<lambda>_ :: 'a file_state_scheme. True" g_file_used NFILE file_alloc drop_last
proof (unfold_locales, goal_cases)
  case (1 s i s')
  then show ?case
    using first_unused_Some [of "g_file_used s" NFILE i]
    by (auto simp: file_alloc_def split: option.splits)
next
  case (2 s s')
  then show ?case
    by (auto simp: file_alloc_def first_unused_None split: option.splits)
next
  case (3 s i)
  then show ?case by (simp add: drop_last_def file_close_used)
qed

end
