(* ===== verification/Elf.thy ===== *)
theory Elf
  imports File Vm
begin

text \<open>
  \<^verbatim>\<open>kernel/elf.c\<close>: loading an executable into a fresh address space.  Headers are their
  bytes, read through accessors at the offsets of \<^verbatim>\<open>struct elf64_ehdr\<close> and
  \<^verbatim>\<open>struct elf64_phdr\<close>.  The kernel state is extended by physical memory.  \<open>None\<close> says that
  the file system did not return.
\<close>

record mem_state = file_state +
  phys :: mm_state

abbreviation PT_LOAD :: u32 where "PT_LOAD \<equiv> 1"
abbreviation PF_X :: u32 where "PF_X \<equiv> 1"
abbreviation PF_W :: u32 where "PF_W \<equiv> 2"
abbreviation PF_R :: u32 where "PF_R \<equiv> 4"

definition le64 :: "u8 list \<Rightarrow> u64" where
  "le64 bs = le_word (take 8 bs)"

definition e_entry :: "u8 list \<Rightarrow> u64" where "e_entry h = le64 (drop 24 h)"
definition e_phoff :: "u8 list \<Rightarrow> u64" where "e_phoff h = le64 (drop 32 h)"
definition e_phentsize :: "u8 list \<Rightarrow> u16" where "e_phentsize h = le16 (drop 54 h)"
definition e_phnum :: "u8 list \<Rightarrow> u16" where "e_phnum h = le16 (drop 56 h)"

record elf64_phdr =
  p_type :: u32
  p_flags :: u32
  p_offset :: u64
  p_vaddr :: u64
  p_filesz :: u64
  p_memsz :: u64

definition phdr_of :: "u8 list \<Rightarrow> elf64_phdr" where
  "phdr_of b = \<lparr>p_type = le32 b, p_flags = le32 (drop 4 b), p_offset = le64 (drop 8 b),
     p_vaddr = le64 (drop 16 b), p_filesz = le64 (drop 32 b), p_memsz = le64 (drop 40 b)\<rparr>"

definition read_at ::
    "nat option \<Rightarrow> u64 \<Rightarrow> u64 \<Rightarrow> 'a mem_state_scheme \<Rightarrow> (int \<times> u8 list \<times> 'a mem_state_scheme) option" where
  "read_at vn len off s =
     do { (n, bs, s1) \<leftarrow> vfs_read vn len off s;
          Some (if n = sint (ucast len :: 32 word) then (0, bs, s1) else (- EIO, bs, s1)) }"

definition seg_perm :: "elf64_phdr \<Rightarrow> u64" where
  "seg_perm ph =
     PTE_U OR (if p_flags ph AND PF_R \<noteq> 0 then PTE_R else 0)
           OR (if p_flags ph AND PF_W \<noteq> 0 then PTE_W else 0)
           OR (if p_flags ph AND PF_X \<noteq> 0 then PTE_X else 0)"

definition seg_refused :: "elf64_phdr \<Rightarrow> bool" where
  "seg_refused ph \<longleftrightarrow> p_vaddr ph < USER_BASE \<or> USER_LIMIT < p_vaddr ph + p_memsz ph"

definition seg_start :: "elf64_phdr \<Rightarrow> u64" where
  "seg_start ph = p_vaddr ph AND NOT (PAGE_SIZE - 1)"

definition seg_end :: "elf64_phdr \<Rightarrow> u64" where
  "seg_end ph = (p_vaddr ph + p_memsz ph + PAGE_SIZE - 1) AND NOT (PAGE_SIZE - 1)"

text \<open>Pages for one segment: every page is new, so a page two segments share is refused.\<close>

partial_function (option) map_pages :: "u64 \<Rightarrow> u64 \<Rightarrow> u64 \<Rightarrow> u64 \<Rightarrow> mm_state \<Rightarrow> (int \<times> mm_state) option" where
  "map_pages pt va va_end perm m =
     (if \<not> va < va_end then Some (0, m)
      else
        (case kalloc m of (mem, m1) \<Rightarrow>
           if mem = 0 then Some (- ENOMEM, m1)
           else
             (case uvm_map pt va mem PAGE_SIZE perm m1 of (r, m2) \<Rightarrow>
                if r \<noteq> 0 then Some (- ENOMEM, kfree m2 mem)
                else map_pages pt (va + PAGE_SIZE) va_end perm m2)))"

text \<open>The file bytes, 512 at a time.\<close>

partial_function (option) copy_segment ::
    "u64 \<Rightarrow> nat option \<Rightarrow> u64 \<Rightarrow> u64 \<Rightarrow> u64 \<Rightarrow> 'a mem_state_scheme \<Rightarrow> (int \<times> 'a mem_state_scheme) option" where
  "copy_segment pt vn file_off file_end va s =
     (if \<not> file_off < file_end then Some (0, s)
      else
        Option.bind (read_at vn (min (file_end - file_off) 512) file_off s)
          (\<lambda>r. if fst r \<noteq> 0 then Some (- EIO, snd (snd r))
                else
                  (case copyout pt va (fst (snd r)) (phys (snd (snd r))) of
                     (c, m) \<Rightarrow>
                       if c \<noteq> 0 then Some (- EFAULT, snd (snd r)\<lparr>phys := m\<rparr>)
                       else copy_segment pt vn (file_off + min (file_end - file_off) 512) file_end
                              (va + min (file_end - file_off) 512) (snd (snd r)\<lparr>phys := m\<rparr>))))"

definition load_segment ::
    "u64 \<Rightarrow> nat option \<Rightarrow> elf64_phdr \<Rightarrow> 'a mem_state_scheme \<Rightarrow> (int \<times> 'a mem_state_scheme) option" where
  "load_segment pt vn ph s =
     (if seg_refused ph then Some (- EFAULT, s)
      else
        do { (r, m) \<leftarrow> map_pages pt (seg_start ph) (seg_end ph) (seg_perm ph) (phys s);
             if r \<noteq> 0 then Some (r, s\<lparr>phys := m\<rparr>)
             else copy_segment pt vn (p_offset ph) (p_offset ph + p_filesz ph) (p_vaddr ph) (s\<lparr>phys := m\<rparr>) })"

text \<open>Program headers \<open>i\<close> and on, \<open>n\<close> of them left; the middle result is \<^verbatim>\<open>maxva\<close>.\<close>

fun load_segments ::
    "u64 \<Rightarrow> nat option \<Rightarrow> u64 \<Rightarrow> u16 \<Rightarrow> u16 \<Rightarrow> nat \<Rightarrow> u64 \<Rightarrow> 'a mem_state_scheme
       \<Rightarrow> (int \<times> u64 \<times> 'a mem_state_scheme) option" where
  "load_segments pt vn phoff phentsize i 0 maxva s = Some (0, maxva, s)"
| "load_segments pt vn phoff phentsize i (Suc n) maxva s =
     do { (r, b, s1) \<leftarrow> read_at vn 56 (phoff + ucast i * ucast phentsize) s;
          if r \<noteq> 0 then Some (- EIO, maxva, s1)
          else
            (let ph = phdr_of b in
             if p_type ph \<noteq> PT_LOAD then load_segments pt vn phoff phentsize (i + 1) n maxva s1
             else
               do { (r, s2) \<leftarrow> load_segment pt vn ph s1;
                    if r \<noteq> 0 then Some (r, maxva, s2)
                    else load_segments pt vn phoff phentsize (i + 1) n
                           (if maxva < p_vaddr ph + p_memsz ph then p_vaddr ph + p_memsz ph else maxva) s2 }) }"

record elf_info =
  i_entry :: u64
  i_sz :: u64

definition elf_magic_ok :: "u8 list \<Rightarrow> bool" where
  "elf_magic_ok h \<longleftrightarrow> h ! 0 = 0x7F \<and> h ! 1 = 0x45 \<and> h ! 2 = 0x4C \<and> h ! 3 = 0x46"

definition elf_load ::
    "u64 \<Rightarrow> nat option \<Rightarrow> 'a mem_state_scheme \<Rightarrow> (int \<times> elf_info option \<times> 'a mem_state_scheme) option" where
  "elf_load pt vn s =
     (if vn = None then Some (- EINVAL, None, s)
      else
        do { (r, h, s1) \<leftarrow> read_at vn 64 0 s;
             if r \<noteq> 0 then Some (- EIO, None, s1)
             else if \<not> elf_magic_ok h then Some (- ENOEXEC, None, s1)
             else if h ! 4 \<noteq> 2 \<or> h ! 5 \<noteq> 1 then Some (- ENOEXEC, None, s1)
             else
               do { (r, maxva, s2) \<leftarrow> load_segments pt vn (e_phoff h) (e_phentsize h) 0
                                        (unat (e_phnum h)) 0 s1;
                    Some (if r \<noteq> 0 then (r, None, s2)
                          else (0, Some \<lparr>i_entry = e_entry h, i_sz = maxva\<rparr>, s2)) } })"

end
