(* ===== verification/Proc.thy ===== *)
theory Proc
  imports Elf
begin

text \<open>
  \<^verbatim>\<open>kernel/proc.c\<close>: the process table, fork, exec, wait, exit and the scheduler.  The kernel
  state is extended by the table, the running process, the registers \<^verbatim>\<open>satp\<close> and
  \<^verbatim>\<open>sstatus\<close>, the scan index of the scheduler and the address of the kernel stacks.  A trap
  frame is 264 bytes of memory at \<^verbatim>\<open>tf\<close>.

  \<^verbatim>\<open>swtch\<close> (assembly) saves one context and resumes another.  Each function here runs up to
  its switch: \<open>proc_yield\<close> ends in the scheduler, whose next turn is \<open>scheduler_turn\<close>.
\<close>

abbreviation NPROC :: nat where "NPROC \<equiv> 16"
abbreviation NOFILE :: nat where "NOFILE \<equiv> 16"
abbreviation KSTACK_SIZE :: u64 where "KSTACK_SIZE \<equiv> 0x2000"
abbreviation MAX_ARG :: nat where "MAX_ARG \<equiv> 16"
abbreviation ARG_MAX_LEN :: nat where "ARG_MAX_LEN \<equiv> 128"
abbreviation SHEBANG_MAX :: nat where "SHEBANG_MAX \<equiv> 128"
abbreviation SHEBANG_MAX_DEPTH :: nat where "SHEBANG_MAX_DEPTH \<equiv> 1"
abbreviation SATP_MODE_SV39 :: u64 where "SATP_MODE_SV39 \<equiv> 8"
abbreviation SSTATUS_SIE :: u64 where "SSTATUS_SIE \<equiv> 2"
abbreviation SSTATUS_SPIE :: u64 where "SSTATUS_SPIE \<equiv> 0x20"
abbreviation SSTATUS_SPP :: u64 where "SSTATUS_SPP \<equiv> 0x100"

datatype pstate = PROC_UNUSED | PROC_USED | PROC_RUNNABLE | PROC_RUNNING | PROC_SLEEPING | PROC_ZOMBIE

text \<open>Where a process resumes when it is switched to.\<close>

datatype code_addr = NULL_ADDR | Proc_start | After_swtch

record proc =
  pr_pid :: int
  pr_state :: pstate
  pr_tf :: u64
  pr_ra :: code_addr
  pr_sp :: u64
  pr_pagetable :: u64
  pr_sz :: u64
  pr_kstack :: u64
  pr_cwd :: "nat option"
  pr_ofile :: "nat \<Rightarrow> nat option"
  pr_parent :: "nat option"
  pr_exit_status :: int

definition zero_proc :: proc where
  "zero_proc = \<lparr>pr_pid = 0, pr_state = PROC_UNUSED, pr_tf = 0, pr_ra = NULL_ADDR, pr_sp = 0,
     pr_pagetable = 0, pr_sz = 0, pr_kstack = 0, pr_cwd = None, pr_ofile = (\<lambda>_. None),
     pr_parent = None, pr_exit_status = 0\<rparr>"

record proc_state = mem_state +
  g_procs :: "nat \<Rightarrow> proc"
  g_current :: "nat option"
  g_next_pid :: int
  g_kstacks :: u64
  csr_satp :: u64
  csr_sstatus :: u64
  sched_i :: nat

definition upd_proc :: "nat \<Rightarrow> (proc \<Rightarrow> proc) \<Rightarrow> 'a proc_state_scheme \<Rightarrow> 'a proc_state_scheme" where
  "upd_proc i f s = s\<lparr>g_procs := (g_procs s)(i := f (g_procs s i))\<rparr>"

definition set_phys :: "mm_state \<Rightarrow> 'a mem_state_scheme \<Rightarrow> 'a mem_state_scheme" where
  "set_phys m s = s\<lparr>phys := m\<rparr>"

definition proc_init :: "'a proc_state_scheme \<Rightarrow> 'a proc_state_scheme" where
  "proc_init s = s\<lparr>g_procs := (\<lambda>i. if i < NPROC then (g_procs s i)\<lparr>pr_state := PROC_UNUSED\<rparr> else g_procs s i)\<rparr>"

definition proc_current :: "'a proc_state_scheme \<Rightarrow> nat option" where
  "proc_current s = g_current s"

definition proc_find_unused :: "'a proc_state_scheme \<Rightarrow> nat option" where
  "proc_find_unused s = first_unused (\<lambda>i. pr_state (g_procs s i) \<noteq> PROC_UNUSED) NPROC"

text \<open>
  \<^verbatim>\<open>g_next_pid++\<close> on an \<^verbatim>\<open>int\<close>, which has no check for the largest value: the machine's addition
  goes on with the smallest one.
\<close>

definition int_inc :: "int \<Rightarrow> int" where
  "int_inc x = (if x = 2 ^ 31 - 1 then - (2 ^ 31) else x + 1)"

text \<open>The pid is used up also when memory is short.\<close>

definition proc_alloc :: "'a proc_state_scheme \<Rightarrow> nat option \<times> 'a proc_state_scheme" where
  "proc_alloc s =
     (case proc_find_unused s of
        None \<Rightarrow> (None, s)
      | Some i \<Rightarrow>
          (let s1 = upd_proc i (\<lambda>_. zero_proc\<lparr>pr_state := PROC_USED, pr_pid := g_next_pid s\<rparr>) s
                      \<lparr>g_next_pid := int_inc (g_next_pid s)\<rparr> in
           case kalloc (phys s1) of
             (tf, m1) \<Rightarrow>
               (let s2 = set_phys m1 s1 in
                if tf = 0 then (None, upd_proc i (\<lambda>p. p\<lparr>pr_state := PROC_UNUSED\<rparr>) s2)
                else
                  (let ks = g_kstacks s2 + of_nat i * KSTACK_SIZE;
                       s3 = upd_proc i (\<lambda>p. p\<lparr>pr_kstack := ks, pr_tf := tf\<rparr>) s2 in
                   case uvm_create (csr_satp s3) (phys s3) of
                     (pt, m2) \<Rightarrow>
                       (let s4 = upd_proc i (\<lambda>p. p\<lparr>pr_pagetable := pt\<rparr>) (set_phys m2 s3) in
                        if pt = 0 then
                          (None, upd_proc i (\<lambda>p. p\<lparr>pr_state := PROC_UNUSED\<rparr>)
                                   (set_phys (kfree (phys s4) tf) s4))
                        else
                          (Some i, upd_proc i (\<lambda>p. p\<lparr>pr_ra := Proc_start, pr_sp := ks + KSTACK_SIZE,
                                     pr_cwd := vfs_root s4\<rparr>) s4))))))"

section \<open>Scheduling\<close>

text \<open>
  \<^verbatim>\<open>proc_yield\<close> up to \<^verbatim>\<open>swtch(&p->ctx, &g_sched_ctx)\<close>, and the scheduler from there:
  it clears \<^verbatim>\<open>g_current\<close> and goes on to the next index.
\<close>

definition sched_return :: "'a proc_state_scheme \<Rightarrow> 'a proc_state_scheme" where
  "sched_return s = s\<lparr>g_current := None, sched_i := (sched_i s + 1) mod NPROC\<rparr>"

definition proc_yield :: "'a proc_state_scheme \<Rightarrow> 'a proc_state_scheme" where
  "proc_yield s =
     (case proc_current s of
        None \<Rightarrow> s
      | Some p \<Rightarrow>
          sched_return (upd_proc p (\<lambda>x. x\<lparr>pr_ra := After_swtch,
            pr_state := (if pr_state x = PROC_RUNNING then PROC_RUNNABLE else pr_state x)\<rparr>) s))"

definition satp_of :: "u64 \<Rightarrow> u64" where
  "satp_of pt = push_bit 60 SATP_MODE_SV39 OR drop_bit 12 pt"

text \<open>One turn of the inner loop of \<^verbatim>\<open>scheduler\<close>.\<close>

definition scheduler_turn :: "'a proc_state_scheme \<Rightarrow> 'a proc_state_scheme" where
  "scheduler_turn s =
     (let i = sched_i s in
      if pr_state (g_procs s i) \<noteq> PROC_RUNNABLE then s\<lparr>sched_i := (i + 1) mod NPROC\<rparr>
      else (upd_proc i (\<lambda>p. p\<lparr>pr_state := PROC_RUNNING\<rparr>) s)
             \<lparr>g_current := Some i, csr_satp := satp_of (pr_pagetable (g_procs s i))\<rparr>)"

section \<open>Fork\<close>

abbreviation tf_size :: nat where "tf_size \<equiv> 264"

definition tf_field :: "nat \<Rightarrow> u64" where "tf_field i = of_nat (8 * i)"

abbreviation TF_a0 :: nat where "TF_a0 \<equiv> 22"
abbreviation TF_a1 :: nat where "TF_a1 \<equiv> 23"
abbreviation TF_a2 :: nat where "TF_a2 \<equiv> 24"
abbreviation TF_a3 :: nat where "TF_a3 \<equiv> 25"
abbreviation TF_a7 :: nat where "TF_a7 \<equiv> 29"
abbreviation TF_sepc :: nat where "TF_sepc \<equiv> 30"
abbreviation TF_sstatus :: nat where "TF_sstatus \<equiv> 31"
abbreviation TF_usp :: nat where "TF_usp \<equiv> 32"

definition tf_get :: "mem \<Rightarrow> u64 \<Rightarrow> nat \<Rightarrow> u64" where
  "tf_get m tf i = load64 m (tf + tf_field i)"

definition tf_set :: "mem \<Rightarrow> u64 \<Rightarrow> nat \<Rightarrow> u64 \<Rightarrow> mem" where
  "tf_set m tf i v = store64 m (tf + tf_field i) v"

text \<open>The descriptors \<open>fds\<close> shared with the child.\<close>

fun dup_files :: "nat \<Rightarrow> nat \<Rightarrow> nat list \<Rightarrow> 'a proc_state_scheme \<Rightarrow> 'a proc_state_scheme" where
  "dup_files p np [] s = s"
| "dup_files p np (i # is) s =
     (if pr_ofile (g_procs s p) i = None then dup_files p np is s
      else
        (case file_dup (pr_ofile (g_procs s p) i) s of
           (f, s1) \<Rightarrow> dup_files p np is (upd_proc np (\<lambda>x. x\<lparr>pr_ofile := (pr_ofile x)(i := f)\<rparr>) s1)))"

text \<open>The user memory of the child: below \<^verbatim>\<open>sz\<close> and the stack.\<close>

definition fork_copy :: "u64 \<Rightarrow> u64 \<Rightarrow> u64 \<Rightarrow> mm_state \<Rightarrow> (int \<times> mm_state) option" where
  "fork_copy pt npt sz m =
     do { (r, m1) \<leftarrow> uvm_copy pt npt sz m;
          if r \<noteq> 0 then Some (r, m1) else uvm_copy_range pt npt USER_STACK_BASE USER_STACK_TOP m1 }"

definition proc_fork :: "u64 \<Rightarrow> 'a proc_state_scheme \<Rightarrow> (int \<times> 'a proc_state_scheme) option" where
  "proc_fork tf s =
     (case proc_current s of
        None \<Rightarrow> Some (- EINVAL, s)
      | Some p \<Rightarrow>
          (case proc_alloc s of
             (None, s1) \<Rightarrow> Some (- ENOMEM, s1)
           | (Some np, s1) \<Rightarrow>
               do { (r, m) \<leftarrow> fork_copy (pr_pagetable (g_procs s1 p)) (pr_pagetable (g_procs s1 np))
                                (pr_sz (g_procs s1 p)) (phys s1);
                    if r \<noteq> 0 then
                      (let m1 = kfree (uvm_free (pr_pagetable (g_procs s1 np)) m) (pr_tf (g_procs s1 np))
                       in Some (- ENOMEM, upd_proc np (\<lambda>x. x\<lparr>pr_state := PROC_UNUSED\<rparr>) (set_phys m1 s1)))
                    else
                      (let ntf = pr_tf (g_procs s1 np);
                           src = (if tf \<noteq> 0 then tf else pr_tf (g_procs s1 p));
                           m1 = m\<lparr>ram := tf_set (memcpy (ram m) ntf src tf_size) ntf TF_a0 0\<rparr>;
                           s2 = upd_proc np (\<lambda>x. x\<lparr>pr_sz := pr_sz (g_procs s1 p), pr_parent := Some p\<rparr>)
                                  (set_phys m1 s1);
                           s3 = dup_files p np [0..<NOFILE] s2;
                           s4 = upd_proc np (\<lambda>x. x\<lparr>pr_cwd := pr_cwd (g_procs s3 p),
                                  pr_state := PROC_RUNNABLE\<rparr>) s3
                       in Some (pr_pid (g_procs s4 np), s4)) }))"

section \<open>Wait and exit\<close>

text \<open>
  The scan of \<^verbatim>\<open>proc_wait\<close> over the slots \<open>is\<close>: a zombie child that matches is reaped
  (\<open>Inl\<close>: its pid and exit status); \<open>Inr found\<close> says whether there was any child.
\<close>

fun wait_scan :: "nat \<Rightarrow> int \<Rightarrow> bool \<Rightarrow> nat list \<Rightarrow> 'a proc_state_scheme
    \<Rightarrow> (int \<times> int \<times> 'a proc_state_scheme) + bool" where
  "wait_scan p pid found [] s = Inr found"
| "wait_scan p pid found (i # is) s =
     (let c = g_procs s i in
      if pr_parent c \<noteq> Some p then wait_scan p pid found is s
      else if pr_state c = PROC_UNUSED then wait_scan p pid found is s
      else if pid \<noteq> - 1 \<and> pr_pid c \<noteq> pid then wait_scan p pid True is s
      else if pr_state c = PROC_ZOMBIE then
        Inl (pr_pid c, pr_exit_status c,
             upd_proc i (\<lambda>x. x\<lparr>pr_parent := None, pr_state := PROC_UNUSED\<rparr>)
               (set_phys (kfree (uvm_free (pr_pagetable c) (phys s)) (pr_tf c)) s))
      else wait_scan p pid True is s)"

text \<open>
  One round of the endless loop: it returns (the exit status is what \<^verbatim>\<open>*status\<close> gets), or
  switches to the scheduler and scans again when the process runs next.
\<close>

datatype 's wait_result = Wait_return int "int option" 's | Wait_yield 's

definition proc_wait :: "int \<Rightarrow> 'a proc_state_scheme \<Rightarrow> 'a proc_state_scheme wait_result" where
  "proc_wait pid s =
     (case proc_current s of
        None \<Rightarrow> Wait_return (- EINVAL) None s
      | Some p \<Rightarrow>
          (case wait_scan p pid False [0..<NPROC] s of
             Inl (cpid, status, s1) \<Rightarrow> Wait_return cpid (Some status) s1
           | Inr found \<Rightarrow> if \<not> found then Wait_return (- ECHILD) None s else Wait_yield (proc_yield s)))"

fun close_files :: "nat \<Rightarrow> nat list \<Rightarrow> 'a proc_state_scheme \<Rightarrow> 'a proc_state_scheme" where
  "close_files p [] s = s"
| "close_files p (i # is) s =
     (if pr_ofile (g_procs s p) i = None then close_files p is s
      else close_files p is
             (upd_proc p (\<lambda>x. x\<lparr>pr_ofile := (pr_ofile x)(i := None)\<rparr>)
                (file_close (pr_ofile (g_procs s p) i) s)))"

definition proc_exit :: "int \<Rightarrow> 'a proc_state_scheme \<Rightarrow> 'a proc_state_scheme" where
  "proc_exit status s =
     (case proc_current s of
        None \<Rightarrow> s
      | Some p \<Rightarrow>
          proc_yield (upd_proc p (\<lambda>x. x\<lparr>pr_exit_status := status, pr_state := PROC_ZOMBIE\<rparr>)
            (close_files p [0..<NOFILE] s)))"

section \<open>Exec\<close>

text \<open>
  \<^verbatim>\<open>parse_shebang\<close>: 1 with the interpreter and its argument, 0 when the file does not start
  with \<^verbatim>\<open>#!\<close>, or an error.
\<close>

definition is_blank :: "u8 \<Rightarrow> bool" where "is_blank c \<longleftrightarrow> c = 0x20 \<or> c = 0x09"
definition is_word_end :: "u8 \<Rightarrow> bool" where "is_word_end c \<longleftrightarrow> is_blank c \<or> c = 0x0A \<or> c = 0x0D"

definition shebang_words :: "u8 list \<Rightarrow> nat \<Rightarrow> nat \<Rightarrow> int \<times> cstr \<times> cstr" where
  "shebang_words buf interp_len arg_len =
     (let p = dropWhile is_blank (cstr_of (drop 2 buf));
          interp = takeWhile (\<lambda>c. \<not> is_word_end c) p in
      if interp = [] then (- ENOEXEC, [], [])
      else if interp_len \<le> length interp then (- E2BIG, [], [])
      else
        (let q = dropWhile is_blank (drop (length interp) p) in
         if q \<noteq> [] \<and> hd q \<noteq> 0x0A \<and> hd q \<noteq> 0x0D then
           (let arg = takeWhile (\<lambda>c. \<not> is_word_end c) q in
            if arg_len \<le> length arg then (- E2BIG, interp, []) else (1, interp, arg))
         else (1, interp, [])))"

definition parse_shebang ::
    "nat option \<Rightarrow> nat \<Rightarrow> nat \<Rightarrow> 'a proc_state_scheme \<Rightarrow> (int \<times> cstr \<times> cstr \<times> 'a proc_state_scheme) option" where
  "parse_shebang vn interp_len arg_len s =
     (if vn = None \<or> interp_len = 0 \<or> arg_len = 0 then Some (- EINVAL, [], [], s)
      else
        do { (n, bs, s1) \<leftarrow> vfs_read vn (of_nat (SHEBANG_MAX - 1)) 0 s;
             Some (if n < 0 then (n, [], [], s1)
                   else if n < 2 then (0, [], [], s1)
                   else
                     (let buf = take (nat n) bs in
                      if buf ! 0 \<noteq> 0x23 \<or> buf ! 1 \<noteq> 0x21 then (0, [], [], s1)
                      else
                        (case shebang_words buf interp_len arg_len of
                           (r, interp, arg) \<Rightarrow> (r, interp, arg, s1)))) })"

definition stack_base :: u64 where
  "stack_base = USER_STACK_TOP - USER_STACK_SIZE"

text \<open>
  Pages for the user stack; the page that could not be mapped is not given back.
\<close>

partial_function (option) map_stack :: "u64 \<Rightarrow> u64 \<Rightarrow> mm_state \<Rightarrow> (int \<times> mm_state) option" where
  "map_stack pt va m =
     (if \<not> va < USER_STACK_TOP then Some (0, m)
      else
        (case kalloc m of (mem, m1) \<Rightarrow>
           if mem = 0 then Some (- ENOMEM, uvm_free pt m1)
           else
             (case uvm_map pt va mem PAGE_SIZE (PTE_R OR PTE_W OR PTE_U) m1 of (r, m2) \<Rightarrow>
                if r \<noteq> 0 then Some (- ENOMEM, uvm_free pt m2) else map_stack pt (va + PAGE_SIZE) m2)))"

text \<open>The argument strings, from the top of the stack downwards; \<open>uargv\<close> are their addresses.\<close>

fun push_args :: "u64 \<Rightarrow> cstr list \<Rightarrow> u64 \<Rightarrow> u64 list \<Rightarrow> mm_state \<Rightarrow> int \<times> u64 \<times> u64 list \<times> mm_state" where
  "push_args pt [] sp uargv m = (0, sp, uargv, m)"
| "push_args pt (a # as) sp uargv m =
     (let len = length a + 1 in
      if ARG_MAX_LEN < len then (- E2BIG, sp, uargv, uvm_free pt m)
      else
        (let sp1 = (sp - of_nat len) AND NOT 0xF in
         if sp1 < stack_base then (- E2BIG, sp1, uargv, uvm_free pt m)
         else
           (case copyout pt sp1 (a @ [0]) m of
              (r, m1) \<Rightarrow>
                if r \<noteq> 0 then (- EFAULT, sp1, uargv, uvm_free pt m1)
                else push_args pt as sp1 (uargv @ [sp1]) m1)))"

definition push_argv :: "u64 \<Rightarrow> u64 list \<Rightarrow> u64 \<Rightarrow> mm_state \<Rightarrow> int \<times> u64 \<times> mm_state" where
  "push_argv pt uargv sp m =
     (let argc = length uargv;
          sp1 = (sp - of_nat (argc + 1) * 8) AND NOT 0xF in
      if sp1 < stack_base then (- E2BIG, sp1, uvm_free pt m)
      else
        (case copyout pt sp1 (concat (map (le_bytes 8) (uargv @ [0]))) m of
           (r, m1) \<Rightarrow> if r \<noteq> 0 then (- EFAULT, sp1, uvm_free pt m1) else (0, sp1, m1)))"

text \<open>The new image takes the place of the old one.\<close>

definition exec_commit :: "nat \<Rightarrow> u64 \<Rightarrow> elf_info \<Rightarrow> nat \<Rightarrow> u64 \<Rightarrow> 'a proc_state_scheme \<Rightarrow> 'a proc_state_scheme" where
  "exec_commit p newpt info argc sp s =
     (let oldpt = pr_pagetable (g_procs s p);
          tf = pr_tf (g_procs s p);
          s1 = upd_proc p (\<lambda>x. x\<lparr>pr_pagetable := newpt, pr_sz := PGROUNDUP (i_sz info)\<rparr>) s;
          m0 = memset (ram (phys s1)) tf 0 tf_size;
          m1 = tf_set m0 tf TF_sepc (i_entry info);
          m2 = tf_set m1 tf TF_sstatus ((csr_sstatus s1 AND NOT (SSTATUS_SPP OR SSTATUS_SIE)) OR SSTATUS_SPIE);
          m3 = tf_set m2 tf TF_usp sp;
          m4 = tf_set m3 tf TF_a0 (of_nat argc);
          m5 = tf_set m4 tf TF_a1 sp;
          m6 = tf_set m5 tf TF_a2 0;
          s2 = set_phys ((phys s1)\<lparr>ram := m6\<rparr>) s1;
          s3 = (if proc_current s2 = Some p then s2\<lparr>csr_satp := satp_of newpt\<rparr> else s2)
      in set_phys (uvm_free oldpt (phys s3)) s3)"

definition exec_image ::
    "nat \<Rightarrow> nat option \<Rightarrow> cstr list option \<Rightarrow> 'a proc_state_scheme \<Rightarrow> (int \<times> 'a proc_state_scheme) option" where
  "exec_image p vn argv s =
     (case uvm_create (csr_satp s) (phys s) of
        (newpt, m) \<Rightarrow>
          if newpt = 0 then Some (- ENOMEM, set_phys m s)
          else
            do { (ret, info, s1) \<leftarrow> elf_load newpt vn (set_phys m s);
                 if ret \<noteq> 0 then Some (ret, set_phys (uvm_free newpt (phys s1)) s1)
                 else
                   do { (ret, m1) \<leftarrow> map_stack newpt stack_base (phys s1);
                        if ret \<noteq> 0 then Some (ret, set_phys m1 s1)
                        else
                          (case push_args newpt (take MAX_ARG (case argv of None \<Rightarrow> [] | Some as \<Rightarrow> as))
                                  USER_STACK_TOP [] m1 of
                             (ret, sp, uargv, m2) \<Rightarrow>
                               if ret \<noteq> 0 then Some (ret, set_phys m2 s1)
                               else
                                 (case push_argv newpt uargv sp m2 of
                                    (ret, sp1, m3) \<Rightarrow>
                                      Some (if ret \<noteq> 0 then (ret, set_phys m3 s1)
                                            else (0, exec_commit p newpt (the info) (length uargv) sp1
                                                       (set_phys m3 s1))))) } })"

text \<open>The argument vector handed to the interpreter of a script.\<close>

definition shebang_argv :: "cstr \<Rightarrow> cstr \<Rightarrow> cstr \<Rightarrow> cstr list option \<Rightarrow> cstr list" where
  "shebang_argv interp arg path argv =
     take MAX_ARG ([interp] @ (if arg \<noteq> [] then [arg] else []) @ [path] @
                   (case argv of None \<Rightarrow> [] | Some as \<Rightarrow> tl as))"

text \<open>
  \<open>left\<close> is \<^verbatim>\<open>SHEBANG_MAX_DEPTH - depth\<close>.  A script run with an argument vector that is empty
  makes the code read \<^verbatim>\<open>argv[1]\<close>, past the terminating \<^verbatim>\<open>NULL\<close>: \<open>None\<close>.
\<close>

fun proc_exec_common_depth ::
    "nat \<Rightarrow> nat option \<Rightarrow> cstr \<Rightarrow> cstr list option \<Rightarrow> 'a proc_state_scheme \<Rightarrow> (int \<times> 'a proc_state_scheme) option" where
  "proc_exec_common_depth left p path argv s =
     (case p of
        None \<Rightarrow> Some (- EINVAL, s)
      | Some pi \<Rightarrow>
          do { (ret, vn, s1) \<leftarrow> vfs_lookup_at (pr_cwd (g_procs s pi)) path s;
               if ret \<noteq> 0 then Some (ret, s1)
               else
                 do { (ret, interp, arg, s2) \<leftarrow> parse_shebang vn 64 64 s1;
                      if ret < 0 then Some (ret, s2)
                      else if 0 < ret then
                        (case left of
                           0 \<Rightarrow> Some (- ELOOP, s2)
                         | Suc l \<Rightarrow>
                             if argv = Some [] then None
                             else proc_exec_common_depth l p interp (Some (shebang_argv interp arg path argv)) s2)
                      else exec_image pi vn argv s2 } })"

definition proc_exec_common ::
    "nat option \<Rightarrow> cstr \<Rightarrow> cstr list option \<Rightarrow> 'a proc_state_scheme \<Rightarrow> (int \<times> 'a proc_state_scheme) option" where
  "proc_exec_common p path argv s = proc_exec_common_depth SHEBANG_MAX_DEPTH p path argv s"

definition proc_exec ::
    "cstr \<Rightarrow> cstr list option \<Rightarrow> 'a proc_state_scheme \<Rightarrow> (int \<times> 'a proc_state_scheme) option" where
  "proc_exec path argv s = proc_exec_common (proc_current s) path argv s"

definition proc_exec_on ::
    "nat option \<Rightarrow> cstr \<Rightarrow> cstr list option \<Rightarrow> 'a proc_state_scheme \<Rightarrow> (int \<times> 'a proc_state_scheme) option" where
  "proc_exec_on p path argv s = proc_exec_common p path argv s"

declare proc_exec_common_depth.simps [simp del]

end
