(* ===== verification/User_Space.thy ===== *)
theory User_Space
  imports Vm_Props
begin

text \<open>
  The interface the rest of the kernel has to the memory of a user program: a buffer is put
  there and taken from there.  The laws are those of \<^verbatim>\<open>copyout\<close> and \<^verbatim>\<open>copyin\<close> over a well
  formed address space; the lemmas of the locale are what the stack of a new program and the
  answers of the system calls rest on.
\<close>

locale user_space =
  fixes ok :: "'m \<Rightarrow> bool"
    and byte :: "'m \<Rightarrow> u64 \<Rightarrow> u8 option"
    and put :: "u64 \<Rightarrow> u8 list \<Rightarrow> 'm \<Rightarrow> int \<times> 'm"
    and fetch :: "'m \<Rightarrow> u64 \<Rightarrow> nat \<Rightarrow> int \<times> u8 list"
  assumes put_mapped: "ok m \<Longrightarrow> user_range a (length bs) \<Longrightarrow> \<forall>i<length bs. byte m (a + of_nat i) \<noteq> None \<Longrightarrow>
      \<exists>m'. put a bs m = (0, m') \<and> ok m' \<and>
        (\<forall>v. user_va v \<longrightarrow> byte m' v = (if unat (v - a) < length bs then Some (bs ! unat (v - a)) else byte m v))"
    and fetch_mapped: "ok m \<Longrightarrow> user_range a n \<Longrightarrow> \<forall>i<n. byte m (a + of_nat i) \<noteq> None \<Longrightarrow>
      fetch m a n = (0, map (\<lambda>i. the (byte m (a + of_nat i))) [0..<n])"
begin

text \<open>The bytes \<open>bs\<close> stand at \<open>a\<close>; every byte of a region is mapped.\<close>

definition holds :: "'m \<Rightarrow> u64 \<Rightarrow> u8 list \<Rightarrow> bool" where
  "holds m a bs \<longleftrightarrow> user_range a (length bs) \<and> (\<forall>i<length bs. byte m (a + of_nat i) = Some (bs ! i))"

definition mapped :: "'m \<Rightarrow> nat \<Rightarrow> nat \<Rightarrow> bool" where
  "mapped m b t \<longleftrightarrow> 0x400000 \<le> b \<and> t \<le> 0x1400000 \<and> (\<forall>v. b \<le> unat v \<longrightarrow> unat v < t \<longrightarrow> byte m v \<noteq> None)"

lemma mapped_range:
  assumes "mapped m b t" and "b \<le> unat a" and "unat a + n \<le> t"
  shows "user_range a n"
  using assms by (simp add: mapped_def user_range_def word_le_nat_alt)

lemma offset_below:
  assumes "user_range a n" and "user_va v"
  shows "unat (v - a) < n \<longleftrightarrow> unat a \<le> unat v \<and> unat v < unat a + n"
proof
  assume "unat (v - a) < n"
  then obtain i where i: "i < n" "v = a + of_nat i" using user_range_offset [OF assms] by blast
  then show "unat a \<le> unat v \<and> unat v < unat a + n" using user_range_at(2) [OF assms(1) i(1)] by simp
next
  assume h: "unat a \<le> unat v \<and> unat v < unat a + n"
  then have "unat (v - a) = unat v - unat a" by (simp add: unat_sub word_le_nat_alt)
  then show "unat (v - a) < n" using h by linarith
qed

lemma range_index: "user_range a n \<Longrightarrow> i < n \<Longrightarrow> unat (of_nat i :: u64) = i"
  by (auto simp: user_range_def unat_of_nat)

lemma put_at:
  assumes ok: "ok m" and mp: "mapped m b t" and a: "b \<le> unat a" "unat a + length bs \<le> t"
  shows "\<exists>m'. put a bs m = (0, m') \<and> ok m' \<and> mapped m' b t \<and> holds m' a bs \<and>
    (\<forall>c cs. unat a + length bs \<le> unat c \<longrightarrow> holds m c cs \<longrightarrow> holds m' c cs)"
proof -
  have r: "user_range a (length bs)" by (rule mapped_range [OF mp a])
  have "\<forall>i<length bs. byte m (a + of_nat i) \<noteq> None"
    using mp a user_range_at(2) [OF r] by (auto simp: mapped_def)
  then obtain m' where m': "put a bs m = (0, m')" "ok m'"
    and b': "\<And>v. user_va v \<Longrightarrow> byte m' v = (if unat (v - a) < length bs then Some (bs ! unat (v - a)) else byte m v)"
    using put_mapped [OF ok r] by blast
  have u: "user_va v" if "b \<le> unat v" "unat v < t" for v
    using that mp by (simp add: mapped_def user_va_def word_le_nat_alt word_less_nat_alt)
  have "mapped m' b t" using mp b' u unfolding mapped_def by (metis option.distinct(1))
  moreover have "holds m' a bs"
    using r b' user_range_at(1) [OF r] range_index [OF r] by (simp add: holds_def)
  moreover have "holds m' c cs" if c: "unat a + length bs \<le> unat c" "holds m c cs" for c cs
  proof -
    have rc: "user_range c (length cs)" using c(2) by (simp add: holds_def)
    have "byte m' (c + of_nat i) = byte m (c + of_nat i)" if "i < length cs" for i
      using b' [OF user_range_at(1) [OF rc that]] user_range_at [OF rc that] c(1)
        offset_below [OF r user_range_at(1) [OF rc that]] by simp
    then show ?thesis using c(2) by (simp add: holds_def)
  qed
  ultimately show ?thesis using m' by blast
qed

lemma holds_fetch: "ok m \<Longrightarrow> holds m a bs \<Longrightarrow> fetch m a (length bs) = (0, bs)"
  using fetch_mapped [of m a "length bs"] by (auto simp: holds_def intro!: nth_equalityI)

end

section \<open>The address spaces of vm.c\<close>

interpretation us: user_space "\<lambda>m. uvm_inv m xs root l1" "\<lambda>m. umem m l1" "copyout root" "\<lambda>m. copyin m root"
  for xs root l1
proof
  fix m :: mm_state and a :: u64 and bs :: "u8 list"
  assume i: "uvm_inv m xs root l1" "user_range a (length bs)" and mp: "\<forall>i<length bs. umem m l1 (a + of_nat i) \<noteq> None"
  obtain r m' where c: "copyout root a bs m = (r, m')" "uvm_inv m' xs root l1"
    "r = (if \<forall>i<length bs. umem m l1 (a + of_nat i) \<noteq> None then 0 else - EFAULT)"
    "r = 0 \<longrightarrow> (\<forall>v. user_va v \<longrightarrow> unat (v - a) < length bs \<longrightarrow> umem m' l1 v = Some (bs ! unat (v - a)))"
    "\<forall>v. user_va v \<longrightarrow> \<not> unat (v - a) < length bs \<longrightarrow> umem m' l1 v = umem m l1 v"
    using copyout_upa [OF i] by blast
  have "r = 0" using c(3) mp by simp
  then show "\<exists>m'. copyout root a bs m = (0, m') \<and> uvm_inv m' xs root l1 \<and>
      (\<forall>v. user_va v \<longrightarrow> umem m' l1 v = (if unat (v - a) < length bs then Some (bs ! unat (v - a)) else umem m l1 v))"
    using c by auto
next
  fix m :: mm_state and a n
  assume "uvm_inv m xs root l1" "user_range a n" "\<forall>i<n. umem m l1 (a + of_nat i) \<noteq> None"
  then show "copyin m root a n = (0, map (\<lambda>i. the (umem m l1 (a + of_nat i))) [0..<n])"
    using copyin_upa [of m xs root l1 a n] by simp
qed

end
