(* ===== verification/Exec_Props.thy ===== *)
theory Exec_Props
  imports Proc User_Space
begin

text \<open>
  What \<^verbatim>\<open>exec\<close> promises a new program: its argument vector, read through the new page table,
  is the vector of the caller; the first line of a script is split as written.
\<close>

section \<open>The argument vector on the stack\<close>

abbreviation stack_lo :: nat where "stack_lo \<equiv> 0x1380000"
abbreviation stack_hi :: nat where "stack_hi \<equiv> 0x1400000"

lemma stack_base_unat: "unat stack_base = stack_lo"
  by (simp add: stack_base_def)

lemma and_15: "(x :: u64) AND 15 = take_bit 4 x"
  by (simp add: take_bit_eq_mask mask_eq_exp_minus_1)

lemma unat_and_not_15: "unat ((x :: u64) AND NOT 15) = unat x - unat x mod 16"
proof -
  have "(15 :: u64) = mask 4" by (simp add: mask_eq_exp_minus_1)
  then have "x AND NOT 15 = push_bit 4 (drop_bit 4 x)"
    by (intro bit_word_eqI) (auto simp only: bit_and_iff bit_not_iff_eq bit_mask_iff bit_push_bit_iff
      bit_drop_bit_eq possible_bit_word, auto)
  then have "x AND NOT 15 = x - (x AND 15)" by (simp add: and_15 bits_ident eq_diff_eq)
  moreover have "x AND 15 \<le> x" by (simp add: word_and_le2)
  moreover have "unat (x AND 15) = unat x mod 16"
    unfolding and_15 unsigned_take_bit_eq by (simp add: take_bit_eq_mod)
  ultimately show ?thesis by (simp add: unat_sub)
qed

text \<open>Making room for \<open>n\<close> bytes and rounding down to 16.\<close>

lemma make_room:
  fixes sp :: u64
  assumes "n \<le> unat sp"
  defines "sp1 \<equiv> (sp - of_nat n) AND NOT 0xF"
  shows "unat sp1 + n \<le> unat sp" and "unat sp < unat sp1 + n + 16" and "unat sp1 mod 16 = 0"
proof -
  have "unat sp < 2 ^ LENGTH(64)" by (rule unsigned_less)
  then have "unat (of_nat n :: u64) = n"
    using assms(1) unfolding unat_of_nat by (intro mod_less) simp
  then have u: "unat (sp - of_nat n) = unat sp - n"
    using assms(1) by (simp add: unat_sub word_le_nat_alt)
  have e: "unat sp1 = (unat sp - n) - (unat sp - n) mod 16"
    unfolding sp1_def unat_and_not_15 u ..
  have m: "(unat sp - n) mod 16 \<le> unat sp - n" "(unat sp - n) mod 16 < 16" by simp_all
  show "unat sp1 + n \<le> unat sp" using e m assms(1) by linarith
  show "unat sp < unat sp1 + n + 16" using e m by linarith
  show "unat sp1 mod 16 = 0" unfolding e by (simp add: minus_mod_eq_mult_div)
qed

abbreviation smapped :: "u64 \<Rightarrow> mm_state \<Rightarrow> bool" where
  "smapped l1 m \<equiv> user_space.mapped (\<lambda>m. umem m l1) m stack_lo stack_hi"

abbreviation sholds :: "u64 \<Rightarrow> mm_state \<Rightarrow> u64 \<Rightarrow> u8 list \<Rightarrow> bool" where
  "sholds l1 m a bs \<equiv> user_space.holds (\<lambda>m. umem m l1) m a bs"

lemma push_args_ok:
  "uvm_inv m xs pt l1 \<Longrightarrow> smapped l1 m \<Longrightarrow> \<forall>a\<in>set as. length a \<le> 127 \<Longrightarrow>
   stack_lo + 144 * length as \<le> unat sp \<Longrightarrow> unat sp \<le> stack_hi \<Longrightarrow>
   \<exists>sp' new m'. push_args pt as sp uargv m = (0, sp', uargv @ new, m') \<and> uvm_inv m' xs pt l1 \<and> smapped l1 m' \<and>
     length new = length as \<and> unat sp \<le> unat sp' + 144 * length as \<and> unat sp' \<le> unat sp \<and>
     (\<forall>i<length as. sholds l1 m' (new ! i) (as ! i @ [0]) \<and> unat sp' \<le> unat (new ! i)) \<and>
     (\<forall>c cs. unat sp \<le> unat c \<longrightarrow> sholds l1 m c cs \<longrightarrow> sholds l1 m' c cs)"
proof (induction "as" arbitrary: sp uargv m)
  case Nil
  then show ?case by simp
next
  case (Cons a "as")
  define n where "n = length a + 1"
  define sp1 where "sp1 = (sp - of_nat n) AND NOT 0xF"
  have n: "n \<le> 128" "n \<le> unat sp" using Cons.prems(3,4) by (simp_all add: n_def)
  note r = make_room [OF n(2), folded sp1_def]
  have lo: "stack_lo + 144 * length as \<le> unat sp1" using r(2) n(1) Cons.prems(4) by simp
  have put: "unat sp1 + length (a @ [0]) \<le> stack_hi" "stack_lo \<le> unat sp1"
    using r(1) Cons.prems(5) lo by (simp_all add: n_def)
  obtain m1 where c: "copyout pt sp1 (a @ [0]) m = (0, m1)" and i1: "uvm_inv m1 xs pt l1" "smapped l1 m1"
    and h1: "sholds l1 m1 sp1 (a @ [0])"
    and k1: "\<And>c cs. unat sp1 + length (a @ [0]) \<le> unat c \<Longrightarrow> sholds l1 m c cs \<Longrightarrow> sholds l1 m1 c cs"
    using us.put_at [OF Cons.prems(1,2) put(2,1)] by blast
  have hi1: "unat sp1 \<le> stack_hi" using put(1) by simp
  have small: "\<forall>a\<in>set as. length a \<le> 127" using Cons.prems(3) by simp
  obtain sp' new m' where rec: "push_args pt as sp1 (uargv @ [sp1]) m1 = (0, sp', (uargv @ [sp1]) @ new, m')"
    and i': "uvm_inv m' xs pt l1" "smapped l1 m'" "length new = length as"
      "unat sp1 \<le> unat sp' + 144 * length as" "unat sp' \<le> unat sp1"
    and h': "\<forall>i<length as. sholds l1 m' (new ! i) (as ! i @ [0]) \<and> unat sp' \<le> unat (new ! i)"
    and k': "\<And>c cs. unat sp1 \<le> unat c \<Longrightarrow> sholds l1 m1 c cs \<Longrightarrow> sholds l1 m' c cs"
    using Cons.IH [OF i1 small lo hi1, of "uargv @ [sp1]"] by blast
  have ns: "\<not> sp1 < stack_base" using lo by (simp add: word_less_nat_alt stack_base_unat)
  have "push_args pt (a # as) sp uargv m = (0, sp', uargv @ (sp1 # new), m')"
    unfolding push_args.simps Let_def n_def [symmetric] sp1_def [symmetric] using c rec ns n(1) by simp
  moreover have "sholds l1 m' ((sp1 # new) ! i) ((a # as) ! i @ [0]) \<and> unat sp' \<le> unat ((sp1 # new) ! i)"
    if "i < length (a # as)" for i
    using that h' k' [OF _ h1] i'(5) by (cases i) auto
  moreover have "sholds l1 m' c cs" if "unat sp \<le> unat c" "sholds l1 m c cs" for c cs
    using that k' k1 r(1) by (simp add: n_def)
  moreover have "unat sp \<le> unat sp' + 144 * length (a # as)" "unat sp' \<le> unat sp"
    using i'(4,5) r(1,2) n(1) by simp_all
  ultimately show ?case using i' by (intro exI [of _ sp'] exI [of _ "sp1 # new"] exI [of _ m']) simp
qed

text \<open>The vector of addresses below the strings.\<close>

lemma push_argv_ok:
  assumes "uvm_inv m xs pt l1" and "smapped l1 m" and "length uargv \<le> 16"
    and "stack_lo + 152 \<le> unat sp" and "unat sp \<le> stack_hi"
  shows "\<exists>sp' m'. push_argv pt uargv sp m = (0, sp', m') \<and> uvm_inv m' xs pt l1 \<and>
    stack_lo \<le> unat sp' \<and> unat sp' mod 16 = 0 \<and>
    sholds l1 m' sp' (concat (map (le_bytes 8) (uargv @ [0]))) \<and>
    (\<forall>c cs. unat sp \<le> unat c \<longrightarrow> sholds l1 m c cs \<longrightarrow> sholds l1 m' c cs)"
proof -
  define n where "n = 8 * (length uargv + 1)"
  define bs where "bs = concat (map (le_bytes 8) (uargv @ [0 :: u64]))"
  define sp1 where "sp1 = (sp - of_nat n) AND NOT 0xF"
  have n: "n \<le> 136" "n \<le> unat sp" using assms(3,4) by (simp_all add: n_def)
  note r = make_room [OF n(2), folded sp1_def]
  have "length bs = n"
    by (simp add: bs_def n_def length_concat comp_def sum_list_triv)
  then have put: "unat sp1 + length bs \<le> stack_hi" "stack_lo \<le> unat sp1"
    using r n(1) assms(4,5) by simp_all
  obtain m' where c: "copyout pt sp1 bs m = (0, m')" and i: "uvm_inv m' xs pt l1" and h: "sholds l1 m' sp1 bs"
    and k: "\<And>c cs. unat sp1 + length bs \<le> unat c \<Longrightarrow> sholds l1 m c cs \<Longrightarrow> sholds l1 m' c cs"
    using us.put_at [OF assms(1,2) put(2,1)] by blast
  have sp: "(sp - of_nat (length uargv + 1) * 8) AND NOT 0xF = sp1"
    by (simp add: sp1_def n_def algebra_simps)
  have ns: "\<not> sp1 < stack_base" using put(2) by (simp add: word_less_nat_alt stack_base_unat)
  have "push_argv pt uargv sp m = (0, sp1, m')"
    unfolding push_argv_def Let_def sp bs_def [symmetric] using ns c by simp
  then show ?thesis
    using i h k r \<open>length bs = n\<close> put(2) unfolding bs_def [symmetric] by (intro exI [of _ sp1] exI [of _ m']) auto
qed

text \<open>
  C16. A vector of at most 16 arguments of at most 127 bytes always fits on the stack of a new
  program: \<^verbatim>\<open>exec\<close> pushes it without an error, and the program finds at its 16-byte aligned
  stack pointer one address per argument and a final 0, each address holding its argument with
  the terminating NUL.
\<close>
theorem exec_arguments:
  assumes "uvm_inv m xs pt l1" and "\<forall>v. stack_base \<le> v \<longrightarrow> v < USER_STACK_TOP \<longrightarrow> umem m l1 v \<noteq> None"
    and "length as \<le> MAX_ARG" and "\<forall>a\<in>set as. length a < ARG_MAX_LEN"
  shows "\<exists>sp uargv m1 sp1 m2. push_args pt as USER_STACK_TOP [] m = (0, sp, uargv, m1) \<and>
    push_argv pt uargv sp m1 = (0, sp1, m2) \<and> uvm_inv m2 xs pt l1 \<and>
    unat sp1 mod 16 = 0 \<and> stack_base \<le> sp1 \<and> length uargv = length as \<and>
    copyin m2 pt sp1 (8 * (length as + 1)) = (0, concat (map (le_bytes 8) (uargv @ [0]))) \<and>
    (\<forall>i<length as. copyin m2 pt (uargv ! i) (length (as ! i) + 1) = (0, as ! i @ [0]))"
proof -
  have mp: "smapped l1 m" using assms(2)
    by (simp add: us.mapped_def word_le_nat_alt word_less_nat_alt stack_base_unat)
  have small: "\<forall>a\<in>set as. length a \<le> 127" using assms(4) by auto
  have room: "stack_lo + 144 * length as \<le> unat USER_STACK_TOP" "unat USER_STACK_TOP \<le> stack_hi"
    using assms(3) by simp_all
  obtain sp uargv m1 where p: "push_args pt as USER_STACK_TOP [] m = (0, sp, [] @ uargv, m1)"
    and i1: "uvm_inv m1 xs pt l1" "smapped l1 m1" and len: "length uargv = length as"
    and spr: "unat USER_STACK_TOP \<le> unat sp + 144 * length as" "unat sp \<le> unat USER_STACK_TOP"
    and h1: "\<forall>i<length as. sholds l1 m1 (uargv ! i) (as ! i @ [0]) \<and> unat sp \<le> unat (uargv ! i)"
    using push_args_ok [OF assms(1) mp small room, of "[]"] by blast
  have av: "length uargv \<le> 16" "stack_lo + 152 \<le> unat sp" "unat sp \<le> stack_hi"
    using spr len assms(3) by simp_all
  obtain sp1 m2 where q: "push_argv pt uargv sp m1 = (0, sp1, m2)" and i2: "uvm_inv m2 xs pt l1"
    and al: "stack_lo \<le> unat sp1" "unat sp1 mod 16 = 0"
    and h2: "sholds l1 m2 sp1 (concat (map (le_bytes 8) (uargv @ [0])))"
    and k2: "\<And>c cs. unat sp \<le> unat c \<Longrightarrow> sholds l1 m1 c cs \<Longrightarrow> sholds l1 m2 c cs"
    using push_argv_ok [OF i1 av] by (elim exE conjE) (rule that, assumption+, simp)
  have L: "length (concat (map (le_bytes 8) (uargv @ [0 :: u64]))) = 8 * (length as + 1)"
    by (simp add: length_concat comp_def sum_list_triv len)
  have "copyin m2 pt sp1 (8 * (length as + 1)) = (0, concat (map (le_bytes 8) (uargv @ [0])))"
    using us.holds_fetch [OF i2 h2] unfolding L .
  moreover have "copyin m2 pt (uargv ! i) (length (as ! i) + 1) = (0, as ! i @ [0])" if "i < length as" for i
    using us.holds_fetch [OF i2 k2, of "uargv ! i" "as ! i @ [0]"] h1 that by simp
  ultimately show ?thesis
    using p q i2 al len by (auto simp: word_le_nat_alt stack_base_unat)
qed

text \<open>A machine of 300 free pages with the stack of a new program mapped.\<close>

lemma any_pool: "\<forall>x\<in>set xs. page_aligned x \<and> x \<noteq> 0 \<Longrightarrow> distinct xs \<Longrightarrow> \<exists>m. mm_inv m xs"
proof (induction xs)
  case Nil
  show ?case by (rule exI [of _ empty_mm]) (simp add: mm_inv_def empty_mm_def)
next
  case (Cons x xs)
  then obtain m where "mm_inv m xs" by auto
  then show ?case using Cons.prems kfree_push [of m xs x] by auto
qed

definition many_pages :: "u64 list" where
  "many_pages = map (\<lambda>i. of_nat (4096 * (i + 1))) [0..<300]"

lemma many_pages_pool: "\<exists>m. mm_inv m many_pages"
proof (rule any_pool)
  have u: "unat (of_nat (4096 * (i + 1)) :: u64) = 4096 * (i + 1)" if "i < 300" for i
    using that unfolding unat_of_nat by (intro mod_less) simp
  show "\<forall>x\<in>set many_pages. page_aligned x \<and> x \<noteq> 0"
  proof
    fix x assume "x \<in> set many_pages"
    then obtain i where i: "i < 300" "x = of_nat (4096 * (i + 1))"
      unfolding many_pages_def set_map set_upt by auto
    then have "unat x = 4096 * (i + 1)" using u by simp
    then show "page_aligned x \<and> x \<noteq> 0" by (auto simp: page_aligned_unat)
  qed
  have "inj_on (\<lambda>i. of_nat (4096 * (i + 1)) :: u64) (set [0..<300])"
  proof (rule inj_onI)
    fix i j :: nat assume "i \<in> set [0..<300]" "j \<in> set [0..<300]"
      and e: "(of_nat (4096 * (i + 1)) :: u64) = of_nat (4096 * (j + 1))"
    then have "i < 300" "j < 300" unfolding set_upt by auto
    then show "i = j" using u arg_cong [OF e, of unat] by simp
  qed
  then show "distinct many_pages" unfolding many_pages_def distinct_map by simp
qed

lemma stack_machine:
  "\<exists>m xs pt l1. uvm_inv m xs pt l1 \<and> (\<forall>v. stack_base \<le> v \<longrightarrow> v < USER_STACK_TOP \<longrightarrow> umem m l1 v \<noteq> None)"
proof -
  obtain m0 p q xs where m0: "mm_inv m0 (p # q # xs)" and len: "length xs = 298"
  proof -
    have l: "length many_pages = 300" unfolding many_pages_def by simp
    obtain m0 where m0: "mm_inv m0 many_pages" using many_pages_pool by blast
    show ?thesis
    proof (cases many_pages)
      case p: (Cons p ys)
      have "Suc (length ys) = 300" using l unfolding p by (simp only: length_Cons)
      then have ys: "length ys = 299" by linarith
      show ?thesis
      proof (cases ys)
        case (Cons q xs)
        then show ?thesis using that [of m0 p q xs] m0 p ys by simp
      qed (use ys in simp)
    qed (use l in simp)
  qed
  obtain m1 where i1: "uvm_inv m1 xs p q" and none: "\<forall>v. user_va v \<longrightarrow> uvm_view m1 q v = None"
    using uvm_create_space [OF m0, of 0] by blast
  have up: "PGROUNDUP stack_base = stack_base" "PGROUNDUP USER_STACK_TOP = USER_STACK_TOP"
    by (simp_all add: PGROUNDUP_def stack_base_def)
  have "2 * ((unat USER_STACK_TOP - unat stack_base) div 4096) \<le> length xs" by (simp add: len stack_base_unat)
  then obtain r m2 xs2 where a: "uvm_inv m2 xs2 p q" "r = 0"
    "r = 0 \<longrightarrow> (\<forall>v. user_va v \<longrightarrow> stack_base \<le> page_of v \<longrightarrow> page_of v < USER_STACK_TOP \<longrightarrow>
       umem m1 q v = None \<and> umem m2 q v = Some 0)"
    using uvm_alloc_spec [OF i1, of stack_base USER_STACK_TOP PTE_URW, unfolded up] none
    by (auto simp: word_less_nat_alt word_le_nat_alt stack_base_def)
  have "umem m2 q v \<noteq> None" if v: "stack_base \<le> v" "v < USER_STACK_TOP" for v
  proof -
    have "unat v - unat v mod 4096 \<ge> 0x1380000"
    proof -
      have "0x1380000 div 4096 * 4096 \<le> unat v div 4096 * 4096"
        using v(1) by (intro mult_le_mono1 div_le_mono) (simp add: word_le_nat_alt stack_base_unat)
      then show ?thesis by (simp add: minus_mod_eq_div_mult)
    qed
    then have "stack_base \<le> page_of v" "page_of v < USER_STACK_TOP" "user_va v"
      using v by (simp_all add: word_le_nat_alt word_less_nat_alt unat_page_of stack_base_unat user_va_def)
    then show ?thesis using a by simp
  qed
  then show ?thesis using a(1) by blast
qed

theorem exec_arguments_witness:
  "\<exists>m pt sp uargv m1 sp1 m2. push_args pt [[0x73, 0x68], []] USER_STACK_TOP [] m = (0, sp, uargv, m1) \<and>
    push_argv pt uargv sp m1 = (0, sp1, m2) \<and> copyin m2 pt (uargv ! 0) 3 = (0, [0x73, 0x68, 0])"
proof -
  obtain m xs pt l1 where m: "uvm_inv m xs pt l1"
    "\<forall>v. stack_base \<le> v \<longrightarrow> v < USER_STACK_TOP \<longrightarrow> umem m l1 v \<noteq> None" using stack_machine by blast
  let ?as = "[[0x73, 0x68], []] :: cstr list"
  obtain sp uargv m1 sp1 m2 where r: "push_args pt ?as USER_STACK_TOP [] m = (0, sp, uargv, m1)"
    "push_argv pt uargv sp m1 = (0, sp1, m2)"
    "\<forall>i<length ?as. copyin m2 pt (uargv ! i) (length (?as ! i) + 1) = (0, ?as ! i @ [0])"
    using exec_arguments [OF m, of ?as] by auto
  have "copyin m2 pt (uargv ! 0) 3 = (0, [0x73, 0x68, 0])" using r(3) [rule_format, of 0] by (simp add: numeral_3_eq_3)
  then show ?thesis using r(1,2) by blast
qed

section \<open>The first line of a script\<close>

lemma dropWhile_blanks: "\<forall>c\<in>set b. is_blank c \<Longrightarrow> w = [] \<or> \<not> is_blank (hd w) \<Longrightarrow> dropWhile is_blank (b @ w) = w"
  by (induction b) (cases w, auto)

lemma takeWhile_word:
  "\<forall>c\<in>set w. \<not> is_word_end c \<Longrightarrow> r = [] \<or> is_word_end (hd r) \<Longrightarrow> takeWhile (\<lambda>c. \<not> is_word_end c) (w @ r) = w"
  by (induction w) (cases r, auto)

definition word :: "cstr \<Rightarrow> bool" where
  "word w \<longleftrightarrow> (\<forall>c\<in>set w. c \<noteq> 0 \<and> \<not> is_word_end c)"

definition line_end :: "u8 list \<Rightarrow> bool" where
  "line_end r \<longleftrightarrow> r = [] \<or> hd r \<in> {0, 0x0A, 0x0D}"

lemma cstr_of_append: "\<forall>c\<in>set w. c \<noteq> 0 \<Longrightarrow> cstr_of (w @ r) = w @ cstr_of r"
  by (simp add: cstr_of_takeWhile)

lemma line_end_cstr: "line_end r \<Longrightarrow> cstr_of r = [] \<or> hd (cstr_of r) = 0x0A \<or> hd (cstr_of r) = 0x0D"
  by (cases r) (auto simp: line_end_def cstr_of_takeWhile)

text \<open>
  The first line of a script written as \<^verbatim>\<open>#!\<close>, blanks, a path, and after more blanks an
  argument or none, is split into exactly that path and that argument, when both fit their
  buffers; what follows the line, or further words on it, does not matter.
\<close>
theorem shebang_line_words:
  assumes "\<forall>c\<in>set b1. is_blank c" and "\<forall>c\<in>set b2. is_blank c" and "word interp" and "word arg"
    and "interp \<noteq> []" and "length interp < interp_len" and "length arg < arg_len"
    and "arg = [] \<or> b2 \<noteq> []" and "line_end rest \<or> arg \<noteq> [] \<and> is_blank (hd rest)"
  shows "shebang_words ([0x23, 0x21] @ b1 @ interp @ b2 @ arg @ rest) interp_len arg_len = (1, interp, arg)"
proof -
  have nz: "\<forall>c\<in>set b1. c \<noteq> 0" "\<forall>c\<in>set b2. c \<noteq> 0" "\<forall>c\<in>set interp. c \<noteq> 0" "\<forall>c\<in>set arg. c \<noteq> 0"
    using assms(1-4) by (auto simp: is_blank_def word_def)
  have hd_word: "\<not> is_blank (hd (w @ r))" if "word w" "w \<noteq> []" for w r
    using that by (cases w) (auto simp: word_def is_word_end_def)
  define t where "t = b2 @ arg @ cstr_of rest"
  have line: "cstr_of (drop 2 ([0x23, 0x21] @ b1 @ interp @ b2 @ arg @ rest)) = b1 @ interp @ t"
    by (simp add: cstr_of_append nz t_def)
  have p: "dropWhile is_blank (b1 @ interp @ t) = interp @ t"
    using dropWhile_blanks [OF assms(1), of "interp @ t"] hd_word [OF assms(3,5), of t] by simp
  have rest: "cstr_of rest = [] \<or> is_word_end (hd (cstr_of rest))"
  proof (cases "line_end rest")
    case True
    then show ?thesis using line_end_cstr [OF True] by (auto simp: is_word_end_def)
  next
    case False
    then have "is_blank (hd rest)" "rest \<noteq> []" using assms(9) by (auto simp: line_end_def)
    then show ?thesis by (cases rest) (auto simp: cstr_of_takeWhile is_word_end_def is_blank_def)
  qed
  have "t = [] \<or> is_word_end (hd t)"
  proof (cases b2)
    case Nil
    then show ?thesis using rest assms(8) by (simp add: t_def)
  next
    case (Cons c cs)
    then show ?thesis using assms(2) by (simp add: t_def is_word_end_def)
  qed
  then have i: "takeWhile (\<lambda>c. \<not> is_word_end c) (interp @ t) = interp"
    using takeWhile_word [of interp t] assms(3) by (auto simp: word_def)
  show ?thesis
  proof (cases "arg = []")
    case True
    then have "line_end rest" using assms(9) by simp
    then have r: "cstr_of rest = [] \<or> hd (cstr_of rest) = 0x0A \<or> hd (cstr_of rest) = 0x0D"
      by (rule line_end_cstr)
    then have "dropWhile is_blank t = cstr_of rest"
      using dropWhile_blanks [OF assms(2), of "cstr_of rest"] True by (auto simp: t_def is_blank_def)
    then show ?thesis
      unfolding shebang_words_def line p Let_def i using r True assms(5,6) by auto
  next
    case False
    have d: "dropWhile is_blank t = arg @ cstr_of rest"
      using dropWhile_blanks [OF assms(2), of "arg @ cstr_of rest"] hd_word [OF assms(4) False] by (simp add: t_def)
    have a: "takeWhile (\<lambda>c. \<not> is_word_end c) (arg @ cstr_of rest) = arg"
      using takeWhile_word [of arg "cstr_of rest"] assms(4) rest by (auto simp: word_def)
    have "hd arg \<noteq> 0x0A" "hd arg \<noteq> 0x0D"
      using assms(4) False by (auto simp: word_def is_word_end_def neq_Nil_conv)
    then show ?thesis
      unfolding shebang_words_def line p Let_def i using d a False assms(5-7) by auto
  qed
qed

theorem shebang_line_words_witness:
  "shebang_words ([0x23, 0x21] @ [0x20] @ [0x2F, 0x62] @ [0x20, 0x09] @ [0x2D, 0x78] @ [0x0A, 0x65]) 64 64 =
     (1, [0x2F, 0x62], [0x2D, 0x78])"
  by (rule shebang_line_words) (simp_all add: is_blank_def word_def is_word_end_def line_end_def)

end
