(* ===== verification/Device.thy ===== *)
theory Device
  imports Kernel_Prelude
begin

text \<open>
  The console and the clock as the kernel sees them: \<^verbatim>\<open>kernel/uart.c\<close> (the bytes sent, and
  the bytes the line will deliver) and \<^verbatim>\<open>kernel/timer.c\<close>.  The wait for the transmitter to
  be ready is not modelled: a byte is sent when it is written.
\<close>

record uart_state =
  con_out :: "u8 list"
  con_in :: "u8 list"

fun uart_putc :: "u8 \<Rightarrow> uart_state \<Rightarrow> uart_state" where
  "uart_putc c u =
     (let u1 = (if c = 0x0A then u\<lparr>con_out := con_out u @ [0x0D]\<rparr> else u)
      in u1\<lparr>con_out := con_out u1 @ [c]\<rparr>)"

fun uart_puts :: "cstr \<Rightarrow> uart_state \<Rightarrow> uart_state" where
  "uart_puts [] u = u"
| "uart_puts (c # cs) u = uart_puts cs (uart_putc c u)"

declare uart_putc.simps [simp del]

definition uart_rx_ready :: "uart_state \<Rightarrow> bool" where
  "uart_rx_ready u \<longleftrightarrow> con_in u \<noteq> []"

definition uart_getc :: "uart_state \<Rightarrow> int \<times> uart_state" where
  "uart_getc u = (if \<not> uart_rx_ready u then (- 1, u)
                  else (uint (hd (con_in u)), u\<lparr>con_in := tl (con_in u)\<rparr>))"

text \<open>The wait \<^verbatim>\<open>while ((c = uart_getc()) < 0)\<close>: the next byte of the line, if one comes.\<close>

definition uart_wait :: "uart_state \<Rightarrow> (u8 \<times> uart_state) option" where
  "uart_wait u = (case uart_getc u of (c, u1) \<Rightarrow> if c < 0 then None else Some (of_int c, u1))"

section \<open>Timer\<close>

record timer_state =
  g_timer_interval :: u64
  g_tick_hz :: u32
  g_ticks :: u64
  g_next_deadline :: u64
  g_timebase_hz :: u64
  sbi_timer :: u64

text \<open>\<open>bi\<close> is the pair \<^verbatim>\<open>timebase_hz\<close>, \<^verbatim>\<open>tick_hz\<close> of the boot information, \<open>now\<close> the clock.\<close>

definition timer_init :: "(u64 \<times> u32) option \<Rightarrow> u64 \<Rightarrow> timer_state \<Rightarrow> timer_state" where
  "timer_init bi now t =
     (let timebase = (case bi of None \<Rightarrow> 10000000 | Some (tb, _) \<Rightarrow> if tb \<noteq> 0 then tb else 10000000);
          tick_hz = (case bi of None \<Rightarrow> 100 | Some (_, hz) \<Rightarrow> if hz \<noteq> 0 then hz else 100);
          interval0 = timebase div ucast tick_hz;
          interval = (if interval0 = 0 then 1 else interval0)
      in t\<lparr>g_tick_hz := tick_hz, g_timebase_hz := timebase, g_timer_interval := interval,
           g_ticks := 0, g_next_deadline := now + interval, sbi_timer := now + interval\<rparr>)"

definition timer_handle :: "timer_state \<Rightarrow> timer_state" where
  "timer_handle t =
     (let d = g_next_deadline t + g_timer_interval t
      in t\<lparr>g_ticks := g_ticks t + 1, g_next_deadline := d, sbi_timer := d\<rparr>)"

definition timer_ticks :: "timer_state \<Rightarrow> u64" where "timer_ticks t = g_ticks t"
definition timer_timebase_hz :: "timer_state \<Rightarrow> u64" where "timer_timebase_hz t = g_timebase_hz t"
definition timer_hz :: "timer_state \<Rightarrow> u32" where "timer_hz t = g_tick_hz t"

text \<open>\<^verbatim>\<open>timer_init\<close> never leaves an interval of 0, so every tick moves the deadline.\<close>

lemma timer_init_interval: "g_timer_interval (timer_init bi now t) \<noteq> 0"
  by (simp add: timer_init_def Let_def)

lemma timer_ticks_deadline:
  "g_ticks ((timer_handle ^^ n) t) = g_ticks t + of_nat n \<and>
   g_next_deadline ((timer_handle ^^ n) t) = g_next_deadline t + of_nat n * g_timer_interval t \<and>
   g_timer_interval ((timer_handle ^^ n) t) = g_timer_interval t"
  by (induction n) (auto simp: timer_handle_def Let_def algebra_simps)

end
