(* ===== verification/Syscall.thy ===== *)
theory Syscall
  imports Proc Device
begin

text \<open>
  \<^verbatim>\<open>kernel/syscall.c\<close>: the system calls.  The state gains the terminal mode, the console,
  the timer, what the clock and the line show while \<^verbatim>\<open>poll\<close> waits (\<open>poll_env\<close>, one sample
  per round), the bytes an uninitialised buffer holds (\<open>stack_junk\<close>), and what the kernel stack
  of a process keeps while it waits in \<^verbatim>\<open>wait4\<close> (\<open>pending_wait\<close>, \<open>trap_tf\<close>).

  A system call returns a value (\<open>Sys_return\<close>), gives the processor to the scheduler
  (\<open>Sys_switch\<close>) or ends the machine (\<open>Sys_halt\<close>).  \<open>None\<close> says that it never gets there:
  it waits for input that does not come, a file system loops, or the code loads through
  \<^verbatim>\<open>NULL\<close>.
\<close>

record sys_state = proc_state +
  g_tty_lflag :: u32
  uart :: uart_state
  timer :: timer_state
  poll_env :: "(bool \<times> u64) list"
  csr_time :: u64
  stack_junk :: "u8 list"
  pending_wait :: "nat \<Rightarrow> (u64 \<times> u64) option"
  trap_tf :: "nat \<Rightarrow> u64"

abbreviation AT_FDCWD :: u64 where "AT_FDCWD \<equiv> - 100"
abbreviation O_WRONLY :: u64 where "O_WRONLY \<equiv> 1"
abbreviation O_RDWR :: u64 where "O_RDWR \<equiv> 2"
abbreviation O_CREAT :: u64 where "O_CREAT \<equiv> 0x40"
abbreviation O_TRUNC :: u64 where "O_TRUNC \<equiv> 0x200"
abbreviation O_APPEND :: u64 where "O_APPEND \<equiv> 0x400"
abbreviation O_DIRECTORY :: u64 where "O_DIRECTORY \<equiv> 0x10000"
abbreviation ICANON :: u32 where "ICANON \<equiv> 2"
abbreviation ECHO :: u32 where "ECHO \<equiv> 8"
abbreviation POLLIN :: u16 where "POLLIN \<equiv> 1"

datatype 's sys_result = Sys_return int 's | Sys_switch 's | Sys_halt

text \<open>The page table, the directory and a descriptor of process \<open>p\<close>.\<close>

definition cur_pt :: "'a proc_state_scheme \<Rightarrow> nat \<Rightarrow> u64" where
  "cur_pt s p = pr_pagetable (g_procs s p)"

definition fd_file :: "'a proc_state_scheme \<Rightarrow> nat \<Rightarrow> u64 \<Rightarrow> nat option" where
  "fd_file s p fd = (if unat fd < NOFILE then pr_ofile (g_procs s p) (unat fd) else None)"

definition set_fd :: "nat \<Rightarrow> nat \<Rightarrow> nat option \<Rightarrow> 'a proc_state_scheme \<Rightarrow> 'a proc_state_scheme" where
  "set_fd p fd f s = upd_proc p (\<lambda>x. x\<lparr>pr_ofile := (pr_ofile x)(fd := f)\<rparr>) s"

definition fdalloc :: "nat \<Rightarrow> nat option \<Rightarrow> 'a proc_state_scheme \<Rightarrow> int \<times> 'a proc_state_scheme" where
  "fdalloc p f s =
     (case List.find (\<lambda>i. pr_ofile (g_procs s p) i = None) [3..<NOFILE] of
        None \<Rightarrow> (- EMFILE, s)
      | Some i \<Rightarrow> (int i, set_fd p i f s))"

text \<open>\<^verbatim>\<open>copyinstr\<close> into a buffer of 256 bytes.\<close>

definition user_path :: "'a proc_state_scheme \<Rightarrow> nat \<Rightarrow> u64 \<Rightarrow> int \<times> cstr" where
  "user_path s p ptr = (case copyinstr (phys s) (cur_pt s p) ptr 256 of (r, bs) \<Rightarrow> (r, cstr_of bs))"

text \<open>\<^verbatim>\<open>copyout\<close> to process \<open>p\<close>.\<close>

definition to_user :: "nat \<Rightarrow> u64 \<Rightarrow> u8 list \<Rightarrow> 'a proc_state_scheme \<Rightarrow> int \<times> 'a proc_state_scheme" where
  "to_user p va bs s = (case copyout (cur_pt s p) va bs (phys s) of (r, m) \<Rightarrow> (r, set_phys m s))"

section \<open>Reading and writing\<close>

partial_function (option) write_file_loop ::
    "nat \<Rightarrow> nat option \<Rightarrow> u64 \<Rightarrow> u64 \<Rightarrow> u64 \<Rightarrow> int \<Rightarrow> 'a proc_state_scheme \<Rightarrow> (int \<times> 'a proc_state_scheme) option" where
  "write_file_loop p f buf left off tot s =
     (if left = 0 then Some (tot, s)
      else if fst (copyin (phys s) (cur_pt s p) (buf + off) (unat (min left 256))) \<noteq> 0 then Some (- EFAULT, s)
      else
        Option.bind (file_write f (snd (copyin (phys s) (cur_pt s p) (buf + off) (unat (min left 256)))) (min left 256) s)
          (\<lambda>r. if fst r < 0 then Some r
                else if fst r < int (unat (min left 256)) then Some (tot + fst r, snd r)
                else write_file_loop p f buf (left - min left 256) (off + min left 256) (tot + fst r) (snd r)))"

partial_function (option) write_tty_loop ::
    "nat \<Rightarrow> u64 \<Rightarrow> u64 \<Rightarrow> u64 \<Rightarrow> 'a sys_state_scheme \<Rightarrow> (int \<times> 'a sys_state_scheme) option" where
  "write_tty_loop p buf left off s =
     (if left = 0 then Some (0, s)
      else if fst (copyin (phys s) (cur_pt s p) (buf + off) (unat (min left 128))) \<noteq> 0 then Some (- EFAULT, s)
      else write_tty_loop p buf (left - min left 128) (off + min left 128)
             (s\<lparr>uart := fold uart_putc (snd (copyin (phys s) (cur_pt s p) (buf + off) (unat (min left 128)))) (uart s)\<rparr>))"

definition sys_write :: "u64 \<Rightarrow> u64 \<Rightarrow> u64 \<Rightarrow> 'a sys_state_scheme \<Rightarrow> (int \<times> 'a sys_state_scheme) option" where
  "sys_write fd buf len s =
     (case proc_current s of
        None \<Rightarrow> Some (- EINVAL, s)
      | Some p \<Rightarrow>
          if fd_file s p fd \<noteq> None then write_file_loop p (fd_file s p fd) buf len 0 0 s
          else if fd = 1 \<or> fd = 2 then
            do { (r, s1) \<leftarrow> write_tty_loop p buf len 0 s;
                 Some (if r \<noteq> 0 then (r, s1) else (c_int len, s1)) }
          else Some (- EBADF, s))"

partial_function (option) read_file_loop ::
    "nat \<Rightarrow> nat option \<Rightarrow> u64 \<Rightarrow> u64 \<Rightarrow> u64 \<Rightarrow> int \<Rightarrow> 'a proc_state_scheme \<Rightarrow> (int \<times> 'a proc_state_scheme) option" where
  "read_file_loop p f buf left off tot s =
     (if left = 0 then Some (tot, s)
      else
        Option.bind (file_read f (min left 256) s)
          (\<lambda>r. if fst r < 0 then Some (fst r, snd (snd r))
                else if fst r = 0 then Some (tot, snd (snd r))
                else
                  (case to_user p (buf + off) (take (nat (fst r)) (fst (snd r))) (snd (snd r)) of
                     (c, s2) \<Rightarrow>
                       if c \<noteq> 0 then Some (- EFAULT, s2)
                       else read_file_loop p f buf (left - of_int (fst r)) (off + of_int (fst r)) (tot + fst r) s2)))"

text \<open>
  A line from the terminal in canonical mode: \<open>buf\<close> holds what \<^verbatim>\<open>tmp\<close> does, \<open>lim\<close> is how
  much fits.  With echo on, an erased character is erased on the screen too.
\<close>

fun canon_read :: "bool \<Rightarrow> nat \<Rightarrow> u8 list \<Rightarrow> u8 list \<Rightarrow> uart_state \<Rightarrow> (u8 list \<times> uart_state) option" where
  "canon_read echo lim buf [] u = (if length buf < lim then None else Some (buf, u\<lparr>con_in := []\<rparr>))"
| "canon_read echo lim buf (c0 # cs) u =
     (if \<not> length buf < lim then Some (buf, u\<lparr>con_in := c0 # cs\<rparr>)
      else
        (let c = (if c0 = 0x0D then 0x0A else c0); erase = (c = 0x7F \<or> c = 0x08) in
         if erase \<and> echo then
           canon_read echo lim (butlast buf) cs
             (if buf \<noteq> [] then uart_putc 0x08 (uart_putc 0x20 (uart_putc 0x08 u)) else u)
         else
           (let u1 = (if echo then uart_putc c u else u) in
            if erase then canon_read echo lim (butlast buf) cs u1
            else if c = 0x0A then Some (buf @ [c], u1\<lparr>con_in := cs\<rparr>)
            else canon_read echo lim (buf @ [c]) cs u1)))"

definition raw_read :: "bool \<Rightarrow> u64 \<Rightarrow> uart_state \<Rightarrow> (u8 list \<times> uart_state) option" where
  "raw_read echo len u =
     (if len = 0 then Some ([], u)
      else
        (case uart_wait u of
           None \<Rightarrow> None
         | Some (c0, u1) \<Rightarrow>
             (let c = (if c0 = 0x0D then 0x0A else c0) in Some ([c], if echo then uart_putc c u1 else u1))))"

definition sys_read :: "u64 \<Rightarrow> u64 \<Rightarrow> u64 \<Rightarrow> 'a sys_state_scheme \<Rightarrow> (int \<times> 'a sys_state_scheme) option" where
  "sys_read fd buf len s =
     (case proc_current s of
        None \<Rightarrow> Some (- EINVAL, s)
      | Some p \<Rightarrow>
          if fd_file s p fd \<noteq> None then read_file_loop p (fd_file s p fd) buf len 0 0 s
          else if fd = 0 then
            (let echo = g_tty_lflag s AND ECHO \<noteq> 0 in
             do { (tmp, u) \<leftarrow> (if g_tty_lflag s AND ICANON \<noteq> 0
                               then canon_read echo (min (unat len) 128) [] (con_in (uart s)) (uart s)
                               else raw_read echo len (uart s));
                  Some (case to_user p buf tmp (s\<lparr>uart := u\<rparr>) of
                          (r, s1) \<Rightarrow> if r \<noteq> 0 then (- EFAULT, s1) else (int (length tmp), s1)) })
          else Some (- EBADF, s))"

section \<open>Descriptors\<close>

definition sys_close :: "u64 \<Rightarrow> 'a proc_state_scheme \<Rightarrow> int \<times> 'a proc_state_scheme" where
  "sys_close fd s =
     (case proc_current s of
        None \<Rightarrow> (- EBADF, s)
      | Some p \<Rightarrow>
          if fd_file s p fd = None then (- EBADF, s)
          else (0, set_fd p (unat fd) None (file_close (fd_file s p fd) s)))"

definition sys_dup :: "u64 \<Rightarrow> 'a proc_state_scheme \<Rightarrow> int \<times> 'a proc_state_scheme" where
  "sys_dup fd s =
     (case proc_current s of
        None \<Rightarrow> (- EBADF, s)
      | Some p \<Rightarrow>
          if fd_file s p fd = None then (- EBADF, s)
          else
            (case file_dup (fd_file s p fd) s of
               (f, s1) \<Rightarrow>
                 if f = None then (- EBADF, s1)
                 else
                   (case fdalloc p f s1 of
                      (newfd, s2) \<Rightarrow> if newfd < 0 then (newfd, file_close f s2) else (newfd, s2))))"

definition sys_dup3 :: "u64 \<Rightarrow> u64 \<Rightarrow> 'a proc_state_scheme \<Rightarrow> int \<times> 'a proc_state_scheme" where
  "sys_dup3 oldfd newfd s =
     (case proc_current s of
        None \<Rightarrow> (- EBADF, s)
      | Some p \<Rightarrow>
          if \<not> (unat oldfd < NOFILE \<and> unat newfd < NOFILE) then (- EBADF, s)
          else if fd_file s p oldfd = None then (- EBADF, s)
          else if oldfd = newfd then (c_int newfd, s)
          else
            (let s1 = (if fd_file s p newfd \<noteq> None
                       then set_fd p (unat newfd) None (file_close (fd_file s p newfd) s) else s) in
             case file_dup (fd_file s1 p oldfd) s1 of
               (f, s2) \<Rightarrow> if f = None then (- EBADF, s2) else (c_int newfd, set_fd p (unat newfd) f s2)))"

text \<open>The sum \<^verbatim>\<open>base + offset\<close> is a wrapped 64-bit sum, read as signed.\<close>

definition sys_lseek :: "u64 \<Rightarrow> u64 \<Rightarrow> u64 \<Rightarrow> 'a proc_state_scheme \<Rightarrow> int \<times> 'a proc_state_scheme" where
  "sys_lseek fd offset whence s =
     (case proc_current s of
        None \<Rightarrow> (- EBADF, s)
      | Some p \<Rightarrow>
          (case fd_file s p fd of
             None \<Rightarrow> (- EBADF, s)
           | Some f \<Rightarrow>
               (let go = (\<lambda>base. let nxt = base + offset in
                            if sint nxt < 0 then (- EINVAL, s)
                            else (sint nxt, upd_file f (\<lambda>e. e\<lparr>fl_off := nxt\<rparr>) s)) in
                if whence = 0 then go 0
                else if whence = 1 then go (fl_off (g_file s f))
                else if whence = 2 then
                  (case vfs_stat_vn s (fl_vn (g_file s f)) of
                     (ret, st) \<Rightarrow> if ret \<noteq> 0 then (ret, s) else go (st_size (the st)))
                else (- EINVAL, s))))"

definition sys_ftruncate :: "u64 \<Rightarrow> u64 \<Rightarrow> 'a proc_state_scheme \<Rightarrow> (int \<times> 'a proc_state_scheme) option" where
  "sys_ftruncate fd len s =
     (case proc_current s of
        None \<Rightarrow> Some (- EBADF, s)
      | Some p \<Rightarrow>
          if fd_file s p fd = None then Some (- EBADF, s)
          else if sint len < 0 then Some (- EINVAL, s)
          else file_truncate (fd_file s p fd) len s)"

section \<open>Terminal control\<close>

text \<open>\<^verbatim>\<open>struct termios\<close> is 56 bytes with \<^verbatim>\<open>c_lflag\<close> at 12; \<^verbatim>\<open>struct winsize\<close> is 8.\<close>

definition termios_bytes :: "u32 \<Rightarrow> u8 list" where
  "termios_bytes lflag = replicate 12 0 @ le_bytes 4 lflag @ replicate 40 0"

definition sys_ioctl :: "u64 \<Rightarrow> u64 \<Rightarrow> u64 \<Rightarrow> 'a sys_state_scheme \<Rightarrow> int \<times> 'a sys_state_scheme" where
  "sys_ioctl fd req arg s =
     (case proc_current s of
        None \<Rightarrow> (- EINVAL, s)
      | Some p \<Rightarrow>
          if 2 < fd then (- ENOTTY, s)
          else if req = 0x5401 then
            (case to_user p arg (termios_bytes (g_tty_lflag s)) s of
               (r, s1) \<Rightarrow> if r \<noteq> 0 then (- EFAULT, s1) else (0, s1))
          else if req = 0x5402 \<or> req = 0x5403 \<or> req = 0x5404 then
            (case copyin (phys s) (cur_pt s p) arg 56 of
               (r, bs) \<Rightarrow> if r \<noteq> 0 then (- EFAULT, s)
                          else (0, s\<lparr>g_tty_lflag := le_word (take 4 (drop 12 bs))\<rparr>))
          else if req = 0x5413 then
            (case to_user p arg [24, 0, 80, 0, 0, 0, 0, 0] s of
               (r, s1) \<Rightarrow> if r \<noteq> 0 then (- EFAULT, s1) else (0, s1))
          else (- ENOTTY, s))"

section \<open>Paths\<close>

definition stat_bytes :: "vfs_stat \<Rightarrow> u8 list" where
  "stat_bytes st =
     le_bytes 8 (st_dev st) @ le_bytes 8 (st_ino st) @ le_bytes 4 (st_mode st) @ le_bytes 4 (st_nlink st) @
     replicate 24 0 @ le_bytes 8 (st_size st) @ replicate 88 0"

text \<open>The fields of a new entry, and the descriptor of an opened vnode.\<close>

definition file_setup :: "nat \<Rightarrow> nat \<Rightarrow> u64 \<Rightarrow> 'a file_state_scheme \<Rightarrow> 'a file_state_scheme" where
  "file_setup f vn flags s =
     upd_file f (\<lambda>e. e\<lparr>fl_vn := Some vn, fl_readable := (flags AND O_WRONLY = 0),
       fl_writable := (flags AND O_WRONLY \<noteq> 0 \<or> flags AND O_RDWR \<noteq> 0), fl_off := 0\<rparr>) s"

definition open_vnode :: "nat \<Rightarrow> nat \<Rightarrow> u64 \<Rightarrow> 'a proc_state_scheme \<Rightarrow> int \<times> 'a proc_state_scheme" where
  "open_vnode p vn flags s =
     (case file_alloc s of
        (None, s1) \<Rightarrow> (- EMFILE, s1)
      | (Some f, s1) \<Rightarrow>
          (let s2 = file_setup f vn flags s1 in
           case (if flags AND O_APPEND \<noteq> 0 then vfs_stat_vn s2 (Some vn) else (0, Some zero_stat)) of
             (ret, st) \<Rightarrow>
               if ret \<noteq> 0 then (ret, file_close (Some f) s2)
               else
                 (let s3 = (if flags AND O_APPEND \<noteq> 0
                            then upd_file f (\<lambda>e. e\<lparr>fl_off := st_size (the st)\<rparr>) s2 else s2) in
                  case fdalloc p (Some f) s3 of
                    (fd, s4) \<Rightarrow> if fd < 0 then (fd, file_close (Some f) s4) else (fd, s4))))"

definition sys_openat :: "u64 \<Rightarrow> u64 \<Rightarrow> u64 \<Rightarrow> 'a proc_state_scheme \<Rightarrow> (int \<times> 'a proc_state_scheme) option" where
  "sys_openat dirfd path_ptr flags s =
     (case proc_current s of
        None \<Rightarrow> Some (- EINVAL, s)
      | Some p \<Rightarrow>
          if dirfd \<noteq> AT_FDCWD then Some (- ENOSYS, s)
          else
            (case user_path s p path_ptr of
               (r, path) \<Rightarrow>
                 if r \<noteq> 0 then Some (- EFAULT, s)
                 else if flags AND O_TRUNC \<noteq> 0 \<and> flags AND (O_WRONLY OR O_RDWR) = 0 then Some (- EINVAL, s)
                 else
                   do { (ret, vn, s1) \<leftarrow> (if flags AND O_CREAT \<noteq> 0
                                           then vfs_create_at (pr_cwd (g_procs s p)) path False s
                                           else vfs_lookup_at (pr_cwd (g_procs s p)) path s);
                        if ret \<noteq> 0 then Some (ret, s1)
                        else
                          (case vn of
                             None \<Rightarrow> None
                           | Some v \<Rightarrow>
                               (let ty = vn_type (g_vnode_pool s1 v) in
                                if ty = VNODE_DIR \<and> flags AND (O_WRONLY OR O_RDWR OR O_TRUNC) \<noteq> 0
                                then Some (- EISDIR, s1)
                                else if ty \<noteq> VNODE_DIR \<and> flags AND O_DIRECTORY \<noteq> 0 then Some (- ENOTDIR, s1)
                                else
                                  do { (ret, s2) \<leftarrow> (if flags AND O_TRUNC \<noteq> 0 \<and> ty = VNODE_FILE
                                                      then vfs_truncate (Some v) 0 s1 else Some (0, s1));
                                       Some (if ret \<noteq> 0 then (ret, s2) else open_vnode p v flags s2) })) }))"

text \<open>
  One \<^verbatim>\<open>linux_dirent64\<close>: a header of 24 bytes counted, the name from byte 19 on, rounded up
  to 8; bytes nothing writes hold what the buffer held.
\<close>

definition dirent_reclen :: "cstr \<Rightarrow> nat" where
  "dirent_reclen nm = (let r = 24 + length nm + 1 in if r mod 8 \<noteq> 0 then (r + 7) div 8 * 8 else r)"

definition dirent_bytes :: "u8 list \<Rightarrow> vfs_dirent \<Rightarrow> u64 \<Rightarrow> u8 list" where
  "dirent_bytes junk de off =
     take (dirent_reclen (d_name de))
       (le_bytes 8 (d_ino de) @ le_bytes 8 (off + 1) @ le_bytes 2 (of_nat (dirent_reclen (d_name de)) :: u16) @
        [if d_type de = vnode_type_num VNODE_DIR then 4 else 8] @ d_name de @ [0] @
        drop (20 + length (d_name de)) junk)"

text \<open>The loop returns the status, \<^verbatim>\<open>written\<close> and \<^verbatim>\<open>off\<close>.\<close>

partial_function (option) getdents_loop ::
    "nat \<Rightarrow> nat option \<Rightarrow> u64 \<Rightarrow> u64 \<Rightarrow> u64 \<Rightarrow> u64 \<Rightarrow> 'a sys_state_scheme \<Rightarrow> (int \<times> u64 \<times> u64 \<times> 'a sys_state_scheme) option" where
  "getdents_loop p vn dirp count written off s =
     (if \<not> written + 25 < count then Some (0, written, off, s)
      else
        Option.bind (vfs_readdir s vn off)
          (\<lambda>r. if fst r \<noteq> 0 then Some (0, written, off, s)
                else
                  (let de = the (snd r); reclen = dirent_reclen (d_name de) in
                   if count < written + of_nat reclen then Some (0, written, off, s)
                   else if 256 < reclen then Some (- EINVAL, written, off, s)
                   else
                     (case to_user p (dirp + written) (dirent_bytes (stack_junk s) de off) s of
                        (c, s1) \<Rightarrow>
                          if c \<noteq> 0 then Some (- EFAULT, written, off, s1)
                          else getdents_loop p vn dirp count (written + of_nat reclen) (off + 1) s1))))"

definition sys_getdents64 :: "u64 \<Rightarrow> u64 \<Rightarrow> u64 \<Rightarrow> 'a sys_state_scheme \<Rightarrow> (int \<times> 'a sys_state_scheme) option" where
  "sys_getdents64 fd dirp count s =
     (case proc_current s of
        None \<Rightarrow> Some (- EBADF, s)
      | Some p \<Rightarrow>
          (case fd_file s p fd of
             None \<Rightarrow> Some (- EBADF, s)
           | Some f \<Rightarrow>
               (case fl_vn (g_file s f) of
                  None \<Rightarrow> Some (- ENOTDIR, s)
                | Some v \<Rightarrow>
                    if vn_type (g_vnode_pool s v) \<noteq> VNODE_DIR then Some (- ENOTDIR, s)
                    else
                      do { (r, written, off, s1) \<leftarrow> getdents_loop p (Some v) dirp count 0 (fl_off (g_file s f)) s;
                           Some (if r \<noteq> 0 then (r, s1)
                                 else (c_int written, upd_file f (\<lambda>e. e\<lparr>fl_off := off\<rparr>) s1)) })))"

definition sys_mkdirat :: "u64 \<Rightarrow> u64 \<Rightarrow> 'a proc_state_scheme \<Rightarrow> (int \<times> 'a proc_state_scheme) option" where
  "sys_mkdirat dirfd path_ptr s =
     (case proc_current s of
        None \<Rightarrow> Some (- EINVAL, s)
      | Some p \<Rightarrow>
          if dirfd \<noteq> AT_FDCWD then Some (- ENOSYS, s)
          else
            (case user_path s p path_ptr of
               (r, path) \<Rightarrow>
                 if r \<noteq> 0 then Some (- EFAULT, s)
                 else do { (ret, vn, s1) \<leftarrow> vfs_mkdir_at (pr_cwd (g_procs s p)) path True s; Some (ret, s1) }))"

definition sys_unlinkat :: "u64 \<Rightarrow> u64 \<Rightarrow> 'a proc_state_scheme \<Rightarrow> (int \<times> 'a proc_state_scheme) option" where
  "sys_unlinkat dirfd path_ptr s =
     (case proc_current s of
        None \<Rightarrow> Some (- EINVAL, s)
      | Some p \<Rightarrow>
          if dirfd \<noteq> AT_FDCWD then Some (- ENOSYS, s)
          else
            (case user_path s p path_ptr of
               (r, path) \<Rightarrow>
                 if r \<noteq> 0 then Some (- EFAULT, s) else vfs_unlink_at (pr_cwd (g_procs s p)) path s))"

definition sys_fstat :: "u64 \<Rightarrow> u64 \<Rightarrow> 'a proc_state_scheme \<Rightarrow> int \<times> 'a proc_state_scheme" where
  "sys_fstat fd stat_ptr s =
     (case proc_current s of
        None \<Rightarrow> (- EBADF, s)
      | Some p \<Rightarrow>
          if fd_file s p fd = None then (- EBADF, s)
          else
            (case file_stat s (fd_file s p fd) of
               (ret, st) \<Rightarrow>
                 if ret \<noteq> 0 then (ret, s)
                 else (case to_user p stat_ptr (stat_bytes (the st)) s of
                         (r, s1) \<Rightarrow> if r \<noteq> 0 then (- EFAULT, s1) else (0, s1))))"

definition sys_fstatat :: "u64 \<Rightarrow> u64 \<Rightarrow> u64 \<Rightarrow> 'a proc_state_scheme \<Rightarrow> (int \<times> 'a proc_state_scheme) option" where
  "sys_fstatat dirfd path_ptr stat_ptr s =
     (case proc_current s of
        None \<Rightarrow> Some (- EINVAL, s)
      | Some p \<Rightarrow>
          if dirfd \<noteq> AT_FDCWD then Some (- ENOSYS, s)
          else
            (case user_path s p path_ptr of
               (r, path) \<Rightarrow>
                 if r \<noteq> 0 then Some (- EFAULT, s)
                 else
                   do { (ret, vn, s1) \<leftarrow> vfs_lookup_at (pr_cwd (g_procs s p)) path s;
                        Some (if ret \<noteq> 0 then (ret, s1)
                              else
                                (case vfs_stat_vn s1 vn of
                                   (ret, st) \<Rightarrow>
                                     if ret \<noteq> 0 then (ret, s1)
                                     else (case to_user p stat_ptr (stat_bytes (the st)) s1 of
                                             (r, s2) \<Rightarrow> if r \<noteq> 0 then (- EFAULT, s2) else (0, s2)))) }))"

definition sys_chdir :: "u64 \<Rightarrow> 'a proc_state_scheme \<Rightarrow> (int \<times> 'a proc_state_scheme) option" where
  "sys_chdir path_ptr s =
     (case proc_current s of
        None \<Rightarrow> Some (- EINVAL, s)
      | Some p \<Rightarrow>
          (case user_path s p path_ptr of
             (r, path) \<Rightarrow>
               if r \<noteq> 0 then Some (- EFAULT, s)
               else
                 do { (ret, vn, s1) \<leftarrow> vfs_lookup_at (pr_cwd (g_procs s p)) path s;
                      if ret \<noteq> 0 then Some (ret, s1)
                      else
                        (case vn of
                           None \<Rightarrow> None
                         | Some v \<Rightarrow>
                             if vn_type (g_vnode_pool s1 v) \<noteq> VNODE_DIR then Some (- ENOTDIR, s1)
                             else Some (0, upd_proc p (\<lambda>x. x\<lparr>pr_cwd := Some v\<rparr>) s1)) }))"

definition sys_getcwd :: "u64 \<Rightarrow> u64 \<Rightarrow> 'a proc_state_scheme \<Rightarrow> int \<times> 'a proc_state_scheme" where
  "sys_getcwd buf_ptr sz s =
     (case proc_current s of
        None \<Rightarrow> (- EINVAL, s)
      | Some p \<Rightarrow>
          (let n = min (unat sz) 256 in
           case vfs_getcwd_at s (pr_cwd (g_procs s p)) n of
             (ret, tmp) \<Rightarrow>
               if ret \<noteq> 0 then (ret, s)
               else if n < length tmp + 1 then (- ERANGE, s)
               else (case to_user p buf_ptr (tmp @ [0]) s of
                       (r, s1) \<Rightarrow> if r \<noteq> 0 then (- EFAULT, s1) else (c_int buf_ptr, s1))))"

section \<open>Poll\<close>

record pollfd =
  pf_fd :: int
  pf_events :: u16
  pf_revents :: u16

definition pollfd_of :: "u8 list \<Rightarrow> pollfd" where
  "pollfd_of b = \<lparr>pf_fd = sint (le32 b), pf_events = le16 (drop 4 b), pf_revents = le16 (drop 6 b)\<rparr>"

definition pollfd_bytes :: "pollfd \<Rightarrow> u8 list" where
  "pollfd_bytes f = le_bytes 4 (of_int (pf_fd f) :: u32) @ le_bytes 2 (pf_events f) @ le_bytes 2 (pf_revents f)"

text \<open>The status is \<^verbatim>\<open>-EBADF\<close> or the number of entries ready; \<open>rx\<close>: the line has a byte.\<close>

fun poll_check :: "'a proc_state_scheme \<Rightarrow> nat \<Rightarrow> bool \<Rightarrow> int \<Rightarrow> pollfd list \<Rightarrow> int \<times> pollfd list" where
  "poll_check s p rx ready [] = (ready, [])"
| "poll_check s p rx ready (f # fs) =
     (let inp = pf_events f AND POLLIN \<noteq> 0; fd = pf_fd f;
          bad = inp \<and> fd \<noteq> 0 \<and> (fd < 0 \<or> (fd < int NOFILE \<and> pr_ofile (g_procs s p) (nat fd) = None));
          hit = inp \<and> ((fd = 0 \<and> rx) \<or> (0 < fd \<and> fd < int NOFILE \<and> pr_ofile (g_procs s p) (nat fd) \<noteq> None)) in
      if bad then (- EBADF, f\<lparr>pf_revents := 0\<rparr> # fs)
      else
        (case poll_check s p rx (if hit then ready + 1 else ready) fs of
           (r, fs1) \<Rightarrow> (r, f\<lparr>pf_revents := (if hit then POLLIN else 0)\<rparr> # fs1)))"

text \<open>The rounds of the wait; each takes a sample of the line and the clock.\<close>

fun poll_wait :: "'a proc_state_scheme \<Rightarrow> nat \<Rightarrow> bool \<Rightarrow> u64 \<Rightarrow> pollfd list \<Rightarrow> (bool \<times> u64) list
    \<Rightarrow> (int \<times> pollfd list) option" where
  "poll_wait s p timed deadline fds [] = None"
| "poll_wait s p timed deadline fds ((rx, now) # env) =
     (case poll_check s p rx 0 fds of
        (r, fds1) \<Rightarrow>
          if r < 0 then Some (r, fds1)
          else if 0 < r then Some (r, fds1)
          else if timed \<and> deadline \<le> now then Some (r, fds1)
          else poll_wait s p timed deadline fds1 env)"

fun pollfds_of :: "nat \<Rightarrow> u8 list \<Rightarrow> pollfd list" where
  "pollfds_of 0 bs = []"
| "pollfds_of (Suc n) bs = pollfd_of (take 8 bs) # pollfds_of n (drop 8 bs)"

definition sys_poll :: "u64 \<Rightarrow> u64 \<Rightarrow> u64 \<Rightarrow> 'a sys_state_scheme \<Rightarrow> (int \<times> 'a sys_state_scheme) option" where
  "sys_poll fds_ptr nfds timeout_ms s =
     (case proc_current s of
        None \<Rightarrow> Some (- EINVAL, s)
      | Some p \<Rightarrow>
          if 16 < nfds then Some (- EINVAL, s)
          else
            (let n = unat nfds;
                 (r, bs) = (if 0 < n then copyin (phys s) (cur_pt s p) fds_ptr (8 * n) else (0, [])) in
             if r \<noteq> 0 then Some (- EFAULT, s)
             else
               (let fds = pollfds_of n bs;
                    timebase = (if timer_timebase_hz (timer s) = 0 then 10000000 else timer_timebase_hz (timer s));
                    timed = 0 < sint timeout_ms;
                    deadline = (if timed then csr_time s + (timeout_ms * timebase) div 1000 else 0) in
                do { (ready, fds1) \<leftarrow> (if timeout_ms = 0 then Some (poll_check s p (uart_rx_ready (uart s)) 0 fds)
                                        else poll_wait s p timed deadline fds (poll_env s));
                     Some (if ready < 0 then (ready, s)
                           else if 0 < n then
                             (case to_user p fds_ptr (concat (map pollfd_bytes fds1)) s of
                                (r, s1) \<Rightarrow> if r \<noteq> 0 then (- EFAULT, s1) else (ready, s1))
                           else (ready, s)) })))"

section \<open>Processes\<close>

definition sys_getpid :: "'a proc_state_scheme \<Rightarrow> int" where
  "sys_getpid s = (case proc_current s of None \<Rightarrow> - EINVAL | Some p \<Rightarrow> pr_pid (g_procs s p))"

definition sys_getppid :: "'a proc_state_scheme \<Rightarrow> int" where
  "sys_getppid s =
     (case proc_current s of
        None \<Rightarrow> - EINVAL
      | Some p \<Rightarrow> (case pr_parent (g_procs s p) of None \<Rightarrow> 0 | Some q \<Rightarrow> pr_pid (g_procs s q)))"

definition sys_getuid :: int where "sys_getuid = 0"
definition sys_geteuid :: int where "sys_geteuid = 0"
definition sys_getgid :: int where "sys_getgid = 0"
definition sys_getegid :: int where "sys_getegid = 0"

definition sys_clone :: "u64 \<Rightarrow> 'a proc_state_scheme \<Rightarrow> (int \<times> 'a proc_state_scheme) option" where
  "sys_clone tf s = proc_fork tf s"

text \<open>The user's argument vector: at most 16 strings of at most 127 bytes.\<close>

fun read_argv :: "'a proc_state_scheme \<Rightarrow> nat \<Rightarrow> u64 \<Rightarrow> nat \<Rightarrow> cstr list option" where
  "read_argv s p argv_ptr 0 = Some []"
| "read_argv s p argv_ptr (Suc n) =
     (case copyin (phys s) (cur_pt s p) argv_ptr 8 of
        (r, bs) \<Rightarrow>
          if r \<noteq> 0 then None
          else if (le_word bs :: u64) = 0 then Some []
          else
            (case copyinstr (phys s) (cur_pt s p) (le_word bs) ARG_MAX_LEN of
               (r, a) \<Rightarrow> if r \<noteq> 0 then None else map_option ((#) (cstr_of a)) (read_argv s p (argv_ptr + 8) n)))"

definition sys_execve :: "u64 \<Rightarrow> u64 \<Rightarrow> u64 \<Rightarrow> 'a proc_state_scheme \<Rightarrow> (int \<times> 'a proc_state_scheme) option" where
  "sys_execve tf path_ptr argv_ptr s =
     (case proc_current s of
        None \<Rightarrow> Some (- EINVAL, s)
      | Some p \<Rightarrow>
          (case user_path s p path_ptr of
             (r, path) \<Rightarrow>
               if r \<noteq> 0 then Some (- EFAULT, s)
               else
                 (case (if argv_ptr \<noteq> 0 then read_argv s p argv_ptr MAX_ARG else Some []) of
                    None \<Rightarrow> Some (- EFAULT, s)
                  | Some argv \<Rightarrow>
                      do { (ret, s1) \<leftarrow> proc_exec path (Some argv) s;
                           Some (if ret = 0 \<and> tf \<noteq> 0 then
                                   (let m = phys s1;
                                        m1 = m\<lparr>ram := memcpy (ram m) tf (pr_tf (g_procs s1 p)) tf_size\<rparr>
                                    in (c_int (tf_get (ram m1) tf TF_a0), set_phys m1 s1))
                                 else (ret, s1)) })))"

text \<open>
  The part of \<^verbatim>\<open>sys_wait4\<close> after \<^verbatim>\<open>proc_wait\<close>, and the call itself: a process that has to
  wait keeps its arguments on its kernel stack (\<open>pending_wait\<close>) and scans again when it runs.
\<close>

definition wait4_finish :: "u64 \<Rightarrow> int \<Rightarrow> int option \<Rightarrow> 'a proc_state_scheme \<Rightarrow> int \<times> 'a proc_state_scheme" where
  "wait4_finish status_ptr ret status s =
     (if ret < 0 then (ret, s)
      else if status_ptr \<noteq> 0 then
        (case proc_current s of
           None \<Rightarrow> (- EINVAL, s)
         | Some p \<Rightarrow>
             (case to_user p status_ptr (le_bytes 4 (of_int (case status of None \<Rightarrow> 0 | Some x \<Rightarrow> x) :: u32)) s of
                (r, s1) \<Rightarrow> if r \<noteq> 0 then (- EFAULT, s1) else (ret, s1)))
      else (ret, s))"

definition sys_wait4 :: "u64 \<Rightarrow> u64 \<Rightarrow> 'a sys_state_scheme \<Rightarrow> 'a sys_state_scheme sys_result" where
  "sys_wait4 pid status_ptr s =
     (case proc_wait (c_int pid) s of
        Wait_return ret status s1 \<Rightarrow> (case wait4_finish status_ptr ret status s1 of (r, s2) \<Rightarrow> Sys_return r s2)
      | Wait_yield s1 \<Rightarrow>
          Sys_switch (case proc_current s of
                        None \<Rightarrow> s1
                      | Some p \<Rightarrow> s1\<lparr>pending_wait := (pending_wait s1)(p \<mapsto> (pid, status_ptr))\<rparr>))"

definition sys_exit :: "u64 \<Rightarrow> 'a proc_state_scheme \<Rightarrow> 'a proc_state_scheme sys_result" where
  "sys_exit status s =
     (case proc_current s of
        None \<Rightarrow> Sys_return 0 s
      | Some p \<Rightarrow> Sys_switch (proc_exit (c_int status) s))"

definition sys_reboot :: "'s sys_result" where
  "sys_reboot = Sys_halt"

definition sys_brk :: "u64 \<Rightarrow> 'a proc_state_scheme \<Rightarrow> (int \<times> 'a proc_state_scheme) option" where
  "sys_brk addr s =
     (case proc_current s of
        None \<Rightarrow> Some (- EINVAL, s)
      | Some p \<Rightarrow>
          (let sz = pr_sz (g_procs s p) in
           if addr = 0 then Some (sint sz, s)
           else if addr < USER_BASE \<or> USER_STACK_BASE < addr then Some (sint sz, s)
           else if sz < addr then
             do { (r, m) \<leftarrow> uvm_alloc (cur_pt s p) sz addr (PTE_R OR PTE_W OR PTE_U) (phys s);
                  Some (if r \<noteq> 0 then (sint sz, set_phys m s)
                        else (sint addr, upd_proc p (\<lambda>x. x\<lparr>pr_sz := addr\<rparr>) (set_phys m s))) }
           else if addr < sz then
             (case uvm_dealloc (cur_pt s p) sz addr (phys s) of
                (_, m) \<Rightarrow> Some (sint addr, upd_proc p (\<lambda>x. x\<lparr>pr_sz := addr\<rparr>) (set_phys m s)))
           else Some (sint sz, s)))"

section \<open>Dispatch\<close>

abbreviation ret_pure :: "int \<times> 's \<Rightarrow> 's sys_result option" where
  "ret_pure x \<equiv> Some (Sys_return (fst x) (snd x))"

abbreviation ret_opt :: "(int \<times> 's) option \<Rightarrow> 's sys_result option" where
  "ret_opt x \<equiv> map_option (\<lambda>y. Sys_return (fst y) (snd y)) x"

definition syscall_dispatch :: "u64 \<Rightarrow> 'a sys_state_scheme \<Rightarrow> 'a sys_state_scheme sys_result option" where
  "syscall_dispatch tf s =
     (let a7 = tf_get (ram (phys s)) tf TF_a7; a0 = tf_get (ram (phys s)) tf TF_a0;
          a1 = tf_get (ram (phys s)) tf TF_a1; a2 = tf_get (ram (phys s)) tf TF_a2 in
      if a7 = 64 then ret_opt (sys_write a0 a1 a2 s)
      else if a7 = 63 then ret_opt (sys_read a0 a1 a2 s)
      else if a7 = 56 then ret_opt (sys_openat a0 a1 a2 s)
      else if a7 = 57 then ret_pure (sys_close a0 s)
      else if a7 = 23 then ret_pure (sys_dup a0 s)
      else if a7 = 24 then ret_pure (sys_dup3 a0 a1 s)
      else if a7 = 61 then ret_opt (sys_getdents64 a0 a1 a2 s)
      else if a7 = 34 then ret_opt (sys_mkdirat a0 a1 s)
      else if a7 = 35 then ret_opt (sys_unlinkat a0 a1 s)
      else if a7 = 80 then ret_pure (sys_fstat a0 a1 s)
      else if a7 = 46 then ret_opt (sys_ftruncate a0 a1 s)
      else if a7 = 79 then ret_opt (sys_fstatat a0 a1 a2 s)
      else if a7 = 172 then Some (Sys_return (sys_getpid s) s)
      else if a7 = 173 then Some (Sys_return (sys_getppid s) s)
      else if a7 = 174 then Some (Sys_return sys_getuid s)
      else if a7 = 175 then Some (Sys_return sys_geteuid s)
      else if a7 = 176 then Some (Sys_return sys_getgid s)
      else if a7 = 177 then Some (Sys_return sys_getegid s)
      else if a7 = 49 then ret_opt (sys_chdir a0 s)
      else if a7 = 17 then ret_pure (sys_getcwd a0 a1 s)
      else if a7 = 29 then ret_pure (sys_ioctl a0 a1 a2 s)
      else if a7 = 62 then ret_pure (sys_lseek a0 a1 a2 s)
      else if a7 = 7 then ret_opt (sys_poll a0 a1 a2 s)
      else if a7 = 220 then ret_opt (sys_clone tf s)
      else if a7 = 221 then ret_opt (sys_execve tf a0 a1 s)
      else if a7 = 260 then Some (sys_wait4 a0 a1 s)
      else if a7 = 93 then Some (sys_exit a0 s)
      else if a7 = 142 then Some sys_reboot
      else if a7 = 214 then ret_opt (sys_brk a0 s)
      else Some (Sys_return (- ENOSYS) s))"

end
