(* ===== verification/Trap.thy ===== *)
theory Trap
  imports Syscall
begin

text \<open>
  \<^verbatim>\<open>kernel/trap.c\<close>: the trap handler, and the steps of the machine.  A trap enters with the
  cause and the address of the saved frame; it ends in the trapped program
  (\<open>Trap_return\<close>), in the scheduler (\<open>Trap_switch\<close>) or nowhere (\<open>Trap_halt\<close>).
\<close>

datatype 's trap_result = Trap_return 's | Trap_switch 's | Trap_halt

definition trap_is_interrupt :: "u64 \<Rightarrow> bool" where
  "trap_is_interrupt scause \<longleftrightarrow> drop_bit 63 scause \<noteq> 0"

definition trap_code :: "u64 \<Rightarrow> u64" where
  "trap_code scause = scause AND 0xFFF"

definition set_tf :: "u64 \<Rightarrow> nat \<Rightarrow> u64 \<Rightarrow> 'a mem_state_scheme \<Rightarrow> 'a mem_state_scheme" where
  "set_tf tf i v s = set_phys ((phys s)\<lparr>ram := tf_set (ram (phys s)) tf i v\<rparr>) s"

definition is_running :: "'a proc_state_scheme \<Rightarrow> bool" where
  "is_running s \<longleftrightarrow> (case proc_current s of None \<Rightarrow> False
                       | Some p \<Rightarrow> pr_state (g_procs s p) = PROC_RUNNING)"

text \<open>A system call: the program counter moves past \<^verbatim>\<open>ecall\<close>, the result goes to \<^verbatim>\<open>a0\<close>.\<close>

definition trap_syscall :: "u64 \<Rightarrow> 'a sys_state_scheme \<Rightarrow> 'a sys_state_scheme trap_result option" where
  "trap_syscall tf s =
     (let s1 = set_tf tf TF_sepc (tf_get (ram (phys s)) tf TF_sepc + 4) s in
      map_option (\<lambda>r. case r of
          Sys_return v s2 \<Rightarrow> Trap_return (set_tf tf TF_a0 (of_int v) s2)
        | Sys_switch s2 \<Rightarrow> Trap_switch s2
        | Sys_halt \<Rightarrow> Trap_halt) (syscall_dispatch tf s1))"

definition kernel_trap_handler ::
    "u64 \<Rightarrow> u64 \<Rightarrow> 'a sys_state_scheme \<Rightarrow> 'a sys_state_scheme trap_result option" where
  "kernel_trap_handler tf scause s =
     (if trap_is_interrupt scause \<and> trap_code scause = 5 then
        (let s1 = s\<lparr>timer := timer_handle (timer s)\<rparr>
         in Some (if is_running s1 then Trap_switch (proc_yield s1) else Trap_return s1))
      else if scause = 8 then trap_syscall tf s
      else if is_running s then Some (Trap_switch (proc_exit (- 1) s))
      else Some Trap_halt)"

section \<open>The machine\<close>

text \<open>
  A process that waits in \<^verbatim>\<open>wait4\<close> goes on with its scan when the scheduler picks it.
\<close>

definition wait_resume :: "nat \<Rightarrow> u64 \<Rightarrow> u64 \<Rightarrow> 'a sys_state_scheme \<Rightarrow> 'a sys_state_scheme" where
  "wait_resume p pid status_ptr s =
     (case proc_wait (c_int pid) s of
        Wait_return ret status s1 \<Rightarrow>
          (case wait4_finish status_ptr ret status s1 of
             (r, s2) \<Rightarrow> (set_tf (trap_tf s2 p) TF_a0 (of_int r) s2)\<lparr>pending_wait := (pending_wait s2)(p := None)\<rparr>)
      | Wait_yield s1 \<Rightarrow> s1)"

text \<open>
  The steps: the scheduler looks at its next slot; the running program traps; a waiting one
  resumes; the running program changes memory; the outside changes what devices show.
\<close>

inductive kernel_step :: "'a sys_state_scheme \<Rightarrow> 'a sys_state_scheme \<Rightarrow> bool" where
  turn: "g_current s = None \<Longrightarrow> kernel_step s (scheduler_turn s)"
| trap_return: "g_current s = Some p \<Longrightarrow> pending_wait s p = None \<Longrightarrow>
    kernel_trap_handler tf scause s = Some (Trap_return s') \<Longrightarrow> kernel_step s s'"
| trap_switch: "g_current s = Some p \<Longrightarrow> pending_wait s p = None \<Longrightarrow>
    kernel_trap_handler tf scause s = Some (Trap_switch s') \<Longrightarrow>
    kernel_step s (s'\<lparr>trap_tf := (trap_tf s')(p := tf)\<rparr>)"
| resume: "g_current s = Some p \<Longrightarrow> pending_wait s p = Some (pid, sp) \<Longrightarrow>
    kernel_step s (wait_resume p pid sp s)"
| program: "g_current s = Some p \<Longrightarrow> kernel_step s (s\<lparr>phys := m\<rparr>)"
| outside: "kernel_step s (s\<lparr>uart := u, poll_env := e, csr_time := t, csr_sstatus := x, stack_junk := j\<rparr>)"

end
