(* ===== verification/Frame.thy ===== *)
theory Frame
  imports Vfs
begin

text \<open>
  What a file-system call leaves alone: everything of the kernel state beyond the file
  systems' own tables (open files, processes, memory), which is the extension part of the
  state record.  One rule per call, collected in \<open>frame\<close>.
\<close>

named_theorems frame \<open>the extension of the state a call keeps\<close>

lemma more_up_ramfs:
  "ramfs_state.more s' = ramfs_state.more s \<Longrightarrow> vfs_state.more s' = vfs_state.more (s :: 'a vfs_state_scheme)"
  by (cases s, cases s') simp

lemma more_up_fat:
  "fat_state.more s' = fat_state.more s \<Longrightarrow> vfs_state.more s' = vfs_state.more (s :: 'a vfs_state_scheme)"
  by (cases s, cases s') simp

lemma more_up_ramfs_fat:
  "ramfs_state.more s' = ramfs_state.more s \<Longrightarrow> fat_state.more s' = fat_state.more (s :: 'a fat_state_scheme)"
  by (cases s, cases s') simp

section \<open>RAM file system\<close>

lemma upd_vnode_more [simp]: "ramfs_state.more (upd_vnode i f s) = ramfs_state.more s"
  by (simp add: upd_vnode_def)

lemma upd_node_more [simp]: "ramfs_state.more (upd_node i f s) = ramfs_state.more s"
  by (simp add: upd_node_def)

lemma vfs_alloc_vnode_more [frame]:
  "vfs_alloc_vnode s = (r, s') \<Longrightarrow> ramfs_state.more s' = ramfs_state.more s"
  by (auto simp: vfs_alloc_vnode_def split: option.splits)

lemma ramfs_wrap_node_more [frame]:
  "ramfs_wrap_node n p s = (r, s') \<Longrightarrow> ramfs_state.more s' = ramfs_state.more s"
  by (auto simp: ramfs_wrap_node_def dest: vfs_alloc_vnode_more split: option.splits prod.splits)

lemma ramfs_alloc_node_more [frame]:
  "ramfs_alloc_node s = (r, s') \<Longrightarrow> ramfs_state.more s' = ramfs_state.more s"
  by (auto simp: ramfs_alloc_node_def split: option.splits)

lemma ramfs_link_more [simp]: "ramfs_state.more (ramfs_link d name ty n s) = ramfs_state.more s"
  by (simp add: ramfs_link_def Let_def)

lemma ramfs_lookup_more [frame]:
  "ramfs_lookup d name s = Some (r, v, s') \<Longrightarrow> ramfs_state.more s' = ramfs_state.more s"
  by (auto simp: ramfs_lookup_def dest: ramfs_wrap_node_more split: option.splits prod.splits bind_splits)

lemma set_out_more:
  "set_out b p = Some (r, v, s') \<Longrightarrow> p = (v, s')"
  by (cases p) (auto simp: set_out_def split: if_splits)

lemma ramfs_create_more [frame]:
  "ramfs_create d name b s = Some (r, v, s') \<Longrightarrow> ramfs_state.more s' = ramfs_state.more s"
  by (auto simp: ramfs_create_def Let_def dest!: set_out_more ramfs_wrap_node_more ramfs_alloc_node_more
      split: option.splits prod.splits bind_splits if_splits)

lemma ramfs_mkdir_more [frame]:
  "ramfs_mkdir d name b s = Some (r, v, s') \<Longrightarrow> ramfs_state.more s' = ramfs_state.more s"
  by (auto simp: ramfs_mkdir_def Let_def dest!: set_out_more ramfs_wrap_node_more ramfs_alloc_node_more
      split: option.splits prod.splits bind_splits if_splits)

lemma ramfs_write_more [frame]:
  "ramfs_write v buf len off s = Some (r, s') \<Longrightarrow> ramfs_state.more s' = ramfs_state.more s"
  by (auto simp: ramfs_write_def Let_def split: if_splits)

lemma ramfs_truncate_more [frame]:
  "ramfs_truncate v sz s = (r, s') \<Longrightarrow> ramfs_state.more s' = ramfs_state.more s"
  by (auto simp: ramfs_truncate_def Let_def split: if_splits)

lemma ramfs_unlink_more [frame]:
  "ramfs_unlink v name s = Some (r, s') \<Longrightarrow> ramfs_state.more s' = ramfs_state.more s"
  by (auto simp: ramfs_unlink_def Let_def split: option.splits bind_splits if_splits)

section \<open>FAT32\<close>

lemma upd_vnode_fat [simp]: "fat_state.more (upd_vnode i f s) = fat_state.more s"
  by (simp add: upd_vnode_def)

lemma upd_fnode_more [simp]: "fat_state.more (upd_fnode i f s) = fat_state.more s"
  by (simp add: upd_fnode_def)

lemma set_vol_more [simp]: "fat_state.more (set_vol v s) = fat_state.more s"
  by (simp add: set_vol_def)

lemma vfs_alloc_vnode_fat [frame]:
  "vfs_alloc_vnode s = (r, s') \<Longrightarrow> fat_state.more s' = fat_state.more s"
  by (auto simp: vfs_alloc_vnode_def split: option.splits)

lemma fat32_wrap_node_more [frame]:
  "fat32_wrap_node n p s = (r, s') \<Longrightarrow> fat_state.more s' = fat_state.more s"
  by (auto simp: fat32_wrap_node_def dest: vfs_alloc_vnode_fat split: option.splits prod.splits)

lemma fat32_alloc_node_more [frame]:
  "fat32_alloc_node s = (r, s') \<Longrightarrow> fat_state.more s' = fat_state.more s"
  by (auto simp: fat32_alloc_node_def split: option.splits)

lemma open_entry_more [frame]:
  "open_entry d nm raw dc lba off ix lc s = (r, v, s') \<Longrightarrow> fat_state.more s' = fat_state.more s"
  by (auto simp: open_entry_def Let_def dest!: fat32_wrap_node_more fat32_alloc_node_more
      split: option.splits prod.splits)

text \<open>What every call of the callback keeps, the walk keeps.\<close>

lemma iter_entry_keeps:
  assumes cb: "\<And>raw nm lba off ix lc c. Q c \<Longrightarrow> Q (snd (cb raw nm lba off ix lc c))" and "Q ctx"
  shows "Q (snd (snd (iter_entry cb raw lba off ix l ctx)))"
  using assms(2) cb [OF assms(2), of raw "entry_name l raw" lba off ix "l_count l"]
  by (auto simp: iter_entry_def Let_def split: prod.split)

lemma iter_sector_keeps:
  assumes cb: "\<And>raw nm lba off ix lc c. Q c \<Longrightarrow> Q (snd (cb raw nm lba off ix lc c))"
  shows "Q ctx \<Longrightarrow> Q (snd (snd (snd (iter_sector cb sector lba n ix l ctx))))"
proof (induction n arbitrary: ix l ctx)
  case 0
  then show ?case by simp
next
  case (Suc n)
  define e where "e = iter_entry cb (take 32 (drop (32 * (15 - n)) sector)) lba (of_nat (32 * (15 - n))) ix l ctx"
  have "Q (snd (snd e))" unfolding e_def by (rule iter_entry_keeps [of Q cb]) (use cb Suc.prems in auto)
  moreover have "iter_sector cb sector lba (Suc n) ix l ctx =
      (case e of (Some r, l1, ctx1) \<Rightarrow> (Some r, ix, l1, ctx1)
       | (None, l1, ctx1) \<Rightarrow> iter_sector cb sector lba n (ix + 1) l1 ctx1)"
    by (simp add: e_def Let_def)
  ultimately show ?case using Suc.IH by (auto split: prod.split option.split)
qed

lemma iter_cluster_keeps:
  assumes cb: "\<And>raw nm lba off ix lc c. Q c \<Longrightarrow> Q (snd (cb raw nm lba off ix lc c))"
  shows "Q ctx \<Longrightarrow> Q (snd (snd (snd (iter_cluster cb v lba k n ix l ctx))))"
proof (induction n arbitrary: k ix l ctx)
  case 0
  then show ?case by simp
next
  case (Suc n)
  obtain r sector where rd: "blk_read (v_dev v) (ucast lba + k) 1 = (r, sector)" by fastforce
  have "Q (snd (snd (snd (iter_sector cb sector (lba + ucast k) 16 ix l ctx))))"
    by (rule iter_sector_keeps [of Q cb]) (use cb Suc.prems in auto)
  then show ?case using Suc rd by (auto split: prod.split option.split)
qed

lemma iter_chain_keeps:
  assumes cb: "\<And>raw nm lba off ix lc c. Q c \<Longrightarrow> Q (snd (cb raw nm lba off ix lc c))"
    and it: "iter_chain cb v cluster ix l ctx = Some y" and "Q ctx"
  shows "Q (snd y)"
proof -
  have "cb = cb \<longrightarrow> Q ctx \<longrightarrow> Q (snd y)" using it
  proof (rule iter_chain.raw_induct [where P = "\<lambda>cb' v cluster ix l ctx y. cb' = cb \<longrightarrow> Q ctx \<longrightarrow> Q (snd y)", rotated])
    fix it cb' v cluster ix l ctx y
    assume IH: "\<And>cb' v cluster ix l ctx y. it cb' v cluster ix l ctx = Some y \<Longrightarrow>
        cb' = cb \<longrightarrow> Q ctx \<longrightarrow> Q (snd y)"
      and eq: "(if \<not> cluster < FAT32_EOC then Some (0, ctx)
        else case iter_cluster cb' v (fat32_cluster_to_lba (v_fs v) cluster) 0
               (unat (sectors_per_cluster (v_fs v))) ix l ctx of
             (res, i1, l1, ctx1) \<Rightarrow>
               if res \<noteq> None then Some (the res, ctx1)
               else case fat32_read_fat_entry v cluster of
                      (r, nxt) \<Rightarrow> if r \<noteq> 0 then Some (- EIO, ctx1) else it cb' v nxt i1 l1 ctx1) = Some y"
    show "cb' = cb \<longrightarrow> Q ctx \<longrightarrow> Q (snd y)"
    proof (intro impI)
      assume cb': "cb' = cb" and q: "Q ctx"
      obtain res i1 l1 ctx1 where c: "iter_cluster cb v (fat32_cluster_to_lba (v_fs v) cluster) 0
          (unat (sectors_per_cluster (v_fs v))) ix l ctx = (res, i1, l1, ctx1)" by (metis prod_cases4)
      have "Q ctx1" using iter_cluster_keeps [of Q cb, OF cb q] c by (metis snd_conv)
      then show "Q (snd y)" using eq c q cb' IH by (auto split: if_splits prod.splits)
    qed
  qed
  then show ?thesis using assms(3) by simp
qed

lemma fat32_iter_dir_keeps:
  assumes "\<And>raw nm lba off ix lc c. Q c \<Longrightarrow> Q (snd (cb raw nm lba off ix lc c))"
    and "fat32_iter_dir v start cb ctx = Some y" and "Q ctx"
  shows "Q (snd y)"
  by (rule iter_chain_keeps [of Q cb, OF assms(1) assms(2) [unfolded fat32_iter_dir_def] assms(3)])

lemma fat32_lookup_op_more [frame]:
  assumes "fat32_lookup_op d name s = Some (r, v, s')"
  shows "fat_state.more s' = fat_state.more s"
proof -
  let ?Q = "\<lambda>c. fat_state.more (snd c) = fat_state.more s"
  from assms obtain r0 v0 where it: "fat32_iter_dir (vol s) (n_cluster (fnodes s (fat_node_of s d)))
      (fat32_lookup_cb name d) (None, s) = Some (r0, v0, s')"
    by (auto simp: fat32_lookup_op_def split: bind_splits if_splits)
  have "?Q (snd (r0, v0, s'))"
  proof (rule fat32_iter_dir_keeps [OF _ it])
    fix raw nm lba off ix lc and c :: "nat option \<times> 'a fat_state_scheme"
    assume "?Q c"
    then show "?Q (snd (fat32_lookup_cb name d raw nm lba off ix lc c))"
      by (auto simp: fat32_lookup_cb_def dest: open_entry_more split: prod.split)
  qed simp
  then show ?thesis by simp
qed

lemma fat32_update_dirent_more [frame]:
  "fat32_update_dirent n s = (r, s') \<Longrightarrow> fat_state.more s' = fat_state.more s"
  by (auto simp: fat32_update_dirent_def Let_def split: prod.splits if_splits)

lemma fat32_refresh_node_more [frame]:
  "fat32_refresh_node n s = (r, s') \<Longrightarrow> fat_state.more s' = fat_state.more s"
  by (auto simp: fat32_refresh_node_def Let_def split: prod.splits if_splits)

lemma create_write_more [frame]:
  "create_write d name attr b sn lc ix cl s = (r, v, s') \<Longrightarrow> fat_state.more s' = fat_state.more s"
  by (auto simp: create_write_def Let_def dest!: fat32_wrap_node_more fat32_alloc_node_more
      split: option.splits prod.splits if_splits)

lemma fat32_create_entry_more [frame]:
  "fat32_create_entry d name attr b s = Some (r, v, s') \<Longrightarrow> fat_state.more s' = fat_state.more s"
  by (auto simp: fat32_create_entry_def Let_def dest!: open_entry_more create_write_more
      split: option.splits prod.splits bind_splits if_splits)

lemma fat32_create_op_more [frame]:
  "fat32_create_op d name b s = Some (r, v, s') \<Longrightarrow> fat_state.more s' = fat_state.more s"
  unfolding fat32_create_op_def by (rule fat32_create_entry_more)

lemma fat32_mkdir_op_more [frame]:
  "fat32_mkdir_op d name b s = Some (r, v, s') \<Longrightarrow> fat_state.more s' = fat_state.more s"
  unfolding fat32_mkdir_op_def by (rule fat32_create_entry_more)

lemma fat32_unlink_op_more [frame]:
  "fat32_unlink_op d name s = Some (r, s') \<Longrightarrow> fat_state.more s' = fat_state.more s"
  by (auto simp: fat32_unlink_op_def Let_def split: option.splits prod.splits bind_splits if_splits)

lemma fat32_read_op_more [frame]:
  "fat32_read_op v len off s = Some (r, bs, s') \<Longrightarrow> fat_state.more s' = fat_state.more s"
  by (auto simp: fat32_read_op_def Let_def dest!: fat32_refresh_node_more
      split: option.splits prod.splits bind_splits if_splits sum.splits)

lemma fat32_write_op_more [frame]:
  "fat32_write_op v buf len off s = Some (r, s') \<Longrightarrow> fat_state.more s' = fat_state.more s"
  by (auto simp: fat32_write_op_def Let_def dest!: fat32_update_dirent_more
      split: option.splits prod.splits bind_splits if_splits sum.splits)

lemma fat32_truncate_op_more [frame]:
  "fat32_truncate_op v sz s = Some (r, s') \<Longrightarrow> fat_state.more s' = fat_state.more s"
  by (auto simp: fat32_truncate_op_def Let_def dest!: fat32_update_dirent_more
      split: option.splits prod.splits bind_splits if_splits)

section \<open>Virtual file system\<close>

lemma ops_lookup_more [frame]:
  "ops_lookup d name s = Some (r, v, s') \<Longrightarrow> vfs_state.more s' = vfs_state.more s"
  by (auto simp: ops_lookup_def dest!: ramfs_lookup_more fat32_lookup_op_more
      intro: more_up_ramfs more_up_fat split: option.splits fs_ops.splits)

lemma ops_create_more [frame]:
  "ops_create d name b s = Some (r, v, s') \<Longrightarrow> vfs_state.more s' = vfs_state.more s"
  by (auto simp: ops_create_def dest!: ramfs_create_more fat32_create_op_more
      intro: more_up_ramfs more_up_fat split: option.splits fs_ops.splits)

lemma ops_mkdir_more [frame]:
  "ops_mkdir d name b s = Some (r, v, s') \<Longrightarrow> vfs_state.more s' = vfs_state.more s"
  by (auto simp: ops_mkdir_def dest!: ramfs_mkdir_more fat32_mkdir_op_more
      intro: more_up_ramfs more_up_fat split: option.splits fs_ops.splits)

lemma lookup_loop_more [frame]:
  assumes "lookup_loop p cur s = Some (r, v, s')"
  shows "vfs_state.more s' = vfs_state.more s"
proof -
  have "vfs_state.more (snd (snd (r, v, s'))) = vfs_state.more s" using assms
  proof (rule lookup_loop.raw_induct [where P = "\<lambda>p cur s y. vfs_state.more (snd (snd y)) = vfs_state.more s", rotated], goal_cases)
    case (1 it p cur s y)
    then show ?case
      by (auto dest!: ops_lookup_more split: if_splits prod.splits bind_splits)
  qed
  then show ?thesis by simp
qed

lemma vfs_lookup_at_more [frame]:
  "vfs_lookup_at cwd path s = Some (r, v, s') \<Longrightarrow> vfs_state.more s' = vfs_state.more s"
  by (auto simp: vfs_lookup_at_def dest: lookup_loop_more split: option.splits)

lemma resolve_loop_more [frame]:
  assumes "resolve_loop cp p cur s = Some (r, v, nm, s')"
  shows "vfs_state.more s' = vfs_state.more s"
proof -
  have "vfs_state.more (snd (snd (snd (r, v, nm, s')))) = vfs_state.more s" using assms
  proof (rule resolve_loop.raw_induct [where P = "\<lambda>cp p cur s y. vfs_state.more (snd (snd (snd y))) = vfs_state.more s", rotated], goal_cases)
    case (1 it cp p cur s y)
    then show ?case
      by (auto simp: Let_def dest!: ops_lookup_more ops_mkdir_more split: if_splits prod.splits bind_splits)
  qed
  then show ?thesis by simp
qed

lemma vfs_resolve_parent_at_more [frame]:
  "vfs_resolve_parent_at cwd path cp s = Some (r, v, nm, s') \<Longrightarrow> vfs_state.more s' = vfs_state.more s"
  by (auto simp: vfs_resolve_parent_at_def dest: resolve_loop_more split: option.splits)

lemma vfs_create_at_more [frame]:
  "vfs_create_at cwd path b s = Some (r, v, s') \<Longrightarrow> vfs_state.more s' = vfs_state.more s"
  by (auto simp: vfs_create_at_def dest!: vfs_lookup_at_more vfs_resolve_parent_at_more ops_create_more
      split: option.splits prod.splits bind_splits if_splits)

lemma vfs_mkdir_at_more [frame]:
  "vfs_mkdir_at cwd path b s = Some (r, v, s') \<Longrightarrow> vfs_state.more s' = vfs_state.more s"
  by (auto simp: vfs_mkdir_at_def dest!: vfs_lookup_at_more vfs_resolve_parent_at_more ops_mkdir_more
      split: option.splits prod.splits bind_splits if_splits)

lemma vfs_unlink_at_more [frame]:
  "vfs_unlink_at cwd path s = Some (r, s') \<Longrightarrow> vfs_state.more s' = vfs_state.more s"
  by (auto simp: vfs_unlink_at_def dest!: vfs_resolve_parent_at_more ramfs_unlink_more fat32_unlink_op_more
      dest: more_up_ramfs more_up_fat split: option.splits prod.splits bind_splits if_splits fs_ops.splits)

lemma vfs_read_more [frame]:
  "vfs_read v len off s = Some (r, bs, s') \<Longrightarrow> vfs_state.more s' = vfs_state.more s"
  by (auto simp: vfs_read_def dest!: fat32_read_op_more
      intro: more_up_fat split: option.splits prod.splits fs_ops.splits)

lemma vfs_write_more [frame]:
  "vfs_write v buf len off s = Some (r, s') \<Longrightarrow> vfs_state.more s' = vfs_state.more s"
  by (auto simp: vfs_write_def dest!: ramfs_write_more fat32_write_op_more
      intro: more_up_ramfs more_up_fat split: option.splits fs_ops.splits)

lemma vfs_truncate_more [frame]:
  "vfs_truncate v sz s = Some (r, s') \<Longrightarrow> vfs_state.more s' = vfs_state.more s"
  by (auto simp: vfs_truncate_def dest!: ramfs_truncate_more fat32_truncate_op_more
      intro: more_up_ramfs more_up_fat split: option.splits fs_ops.splits)

end
