(* ===== verification/Kernel_Inv.thy ===== *)
theory Kernel_Inv
  imports Trap Frame
begin

text \<open>
  The invariant of the process and file tables and what keeps it.  \<open>files_ref e s\<close> says that
  every open file counts exactly the descriptors that point to it, and \<open>e\<close> more that a call in
  progress holds.  \<open>pcore\<close> is the part of the state the invariant reads: a call that keeps it
  keeps the invariant.
\<close>

section \<open>Counting descriptors\<close>

definition fd_refs :: "(nat \<Rightarrow> proc) \<Rightarrow> nat \<Rightarrow> int" where
  "fd_refs ps i = (\<Sum>q\<in>{..<NPROC} \<times> {..<NOFILE}. of_bool (pr_ofile (ps (fst q)) (snd q) = Some i))"

lemma fd_refs_nonneg [simp]: "0 \<le> fd_refs ps i"
  by (simp add: fd_refs_def sum_nonneg)

lemma fd_refs_cong: "(\<And>p fd. p < NPROC \<Longrightarrow> fd < NOFILE \<Longrightarrow> pr_ofile (ps' p) fd = pr_ofile (ps p) fd) \<Longrightarrow> fd_refs ps' = fd_refs ps"
  by (intro ext, unfold fd_refs_def, rule sum.cong) auto

lemma fd_refs_upd:
  assumes "p < NPROC" and "fd < NOFILE" and "pr_ofile x = (pr_ofile (ps p))(fd := new)"
  shows "fd_refs (ps(p := x)) i = fd_refs ps i - of_bool (pr_ofile (ps p) fd = Some i) + of_bool (new = Some i)"
proof -
  let ?Q = "{..<NPROC} \<times> {..<NOFILE}"
  let ?f = "\<lambda>ps q. of_bool (pr_ofile (ps (fst q)) (snd q) = Some i) :: int"
  have q: "(p, fd) \<in> ?Q" "finite ?Q" using assms by auto
  have "(\<Sum>q\<in>?Q - {(p, fd)}. ?f (ps(p := x)) q) = (\<Sum>q\<in>?Q - {(p, fd)}. ?f ps q)"
    using assms(3) by (intro sum.cong) auto
  then show ?thesis
    using sum.remove [OF q(2,1), of "?f (ps(p := x))"] sum.remove [OF q(2,1), of "?f ps"] assms(3)
    by (simp add: fd_refs_def)
qed

lemma fd_refs_pos:
  assumes "p < NPROC" and "fd < NOFILE" and "pr_ofile (ps p) fd = Some i"
  shows "0 < fd_refs ps i"
proof -
  have "fd_refs (ps(p := (ps p)\<lparr>pr_ofile := (pr_ofile (ps p))(fd := None)\<rparr>)) i = fd_refs ps i - 1"
    using fd_refs_upd [OF assms(1,2), of "(ps p)\<lparr>pr_ofile := (pr_ofile (ps p))(fd := None)\<rparr>" ps None i] assms(3)
    by simp
  then show ?thesis using fd_refs_nonneg by (metis diff_ge_0_iff_ge int_one_le_iff_zero_less)
qed

section \<open>The file table against the descriptors\<close>

definition files_ref :: "(nat \<Rightarrow> int) \<Rightarrow> 'a proc_state_scheme \<Rightarrow> bool" where
  "files_ref e s \<longleftrightarrow> (\<forall>i. 0 \<le> e i \<and>
     (if g_file_used s i
      then i < NFILE \<and> fl_ref (g_file s i) = fd_refs (g_procs s) i + e i \<and> 0 < fd_refs (g_procs s) i + e i
      else fd_refs (g_procs s) i = 0 \<and> e i = 0))"

abbreviation no_extra :: "nat \<Rightarrow> int" where "no_extra \<equiv> (\<lambda>_. 0)"

lemma files_ref_used:
  assumes "files_ref e s" and "p < NPROC" and "fd < NOFILE" and "pr_ofile (g_procs s p) fd = Some i"
  shows "g_file_used s i"
  using assms(1) [unfolded files_ref_def, rule_format, of i] fd_refs_pos [of p fd "g_procs s" i] assms(2-4)
  by (auto split: if_splits)

lemma upd_proc_simps [simp]:
  "g_procs (upd_proc p f s) = (g_procs s)(p := f (g_procs s p))"
  "g_file (upd_proc p f s) = g_file s"
  "g_file_used (upd_proc p f s) = g_file_used s"
  "g_current (upd_proc p f s) = g_current s"
  "g_next_pid (upd_proc p f s) = g_next_pid s"
  "sched_i (upd_proc p f s) = sched_i s"
  "phys (upd_proc p f s) = phys s"
  "csr_satp (upd_proc p f s) = csr_satp s"
  "proc_state.more (upd_proc p f s) = proc_state.more s"
  by (simp_all add: upd_proc_def)

lemma upd_file_proc [simp]:
  "g_procs (upd_file i g s) = g_procs s"
  "g_current (upd_file i g s) = g_current s"
  "g_next_pid (upd_file i g s) = g_next_pid s"
  "sched_i (upd_file i g s) = sched_i s"
  "phys (upd_file i g s) = phys s"
  "proc_state.more (upd_file i g s) = proc_state.more s"
  by (simp_all add: upd_file_def)

lemma set_phys_simps [simp]:
  "g_procs (set_phys m s) = g_procs s"
  "g_file (set_phys m s) = g_file s"
  "g_file_used (set_phys m s) = g_file_used s"
  "g_current (set_phys m s) = g_current s"
  "g_next_pid (set_phys m s) = g_next_pid s"
  "sched_i (set_phys m s) = sched_i s"
  "phys (set_phys m s) = m"
  "csr_satp (set_phys m s) = csr_satp s"
  "proc_state.more (set_phys m s) = proc_state.more s"
  by (simp_all add: set_phys_def)

lemma file_close_proc [simp]:
  "g_procs (file_close f s) = g_procs s"
  "g_current (file_close f s) = g_current s"
  "g_next_pid (file_close f s) = g_next_pid s"
  "sched_i (file_close f s) = sched_i s"
  "phys (file_close f s) = phys s"
  "proc_state.more (file_close f s) = proc_state.more s"
  by (simp_all add: file_close_def Let_def split: option.split)

lemma set_fd_simps [simp]:
  "g_procs (set_fd p fd f s) = (g_procs s)(p := (g_procs s p)\<lparr>pr_ofile := (pr_ofile (g_procs s p))(fd := f)\<rparr>)"
  "g_file (set_fd p fd f s) = g_file s"
  "g_file_used (set_fd p fd f s) = g_file_used s"
  "g_current (set_fd p fd f s) = g_current s"
  "g_next_pid (set_fd p fd f s) = g_next_pid s"
  "sched_i (set_fd p fd f s) = sched_i s"
  "phys (set_fd p fd f s) = phys s"
  "proc_state.more (set_fd p fd f s) = proc_state.more s"
  by (simp_all add: set_fd_def)

text \<open>Closing and clearing the descriptor do not interfere.\<close>

lemma file_close_set_fd:
  "set_fd p fd None (file_close f s) = file_close f (set_fd p fd None s)"
  by (simp add: set_fd_def upd_proc_def file_close_def upd_file_def Let_def split: option.split)

lemma files_refD:
  assumes "files_ref e s"
  shows "0 \<le> e i"
    and "g_file_used s i \<Longrightarrow> i < NFILE"
    and "g_file_used s i \<Longrightarrow> fl_ref (g_file s i) = fd_refs (g_procs s) i + e i"
    and "g_file_used s i \<Longrightarrow> 0 < fd_refs (g_procs s) i + e i"
    and "\<not> g_file_used s i \<Longrightarrow> fd_refs (g_procs s) i = 0"
    and "\<not> g_file_used s i \<Longrightarrow> e i = 0"
  using assms by (simp_all add: files_ref_def)

lemma files_refI:
  assumes "\<And>i. 0 \<le> e i" and "\<And>i. g_file_used s i \<Longrightarrow> i < NFILE"
    and "\<And>i. g_file_used s i \<Longrightarrow> fl_ref (g_file s i) = fd_refs (g_procs s) i + e i"
    and "\<And>i. g_file_used s i \<Longrightarrow> 0 < fd_refs (g_procs s) i + e i"
    and "\<And>i. \<not> g_file_used s i \<Longrightarrow> fd_refs (g_procs s) i = 0 \<and> e i = 0"
  shows "files_ref e s"
  using assms by (simp add: files_ref_def)

lemma files_ref_dup:
  assumes r: "files_ref e s" and u: "g_file_used s i"
  shows "files_ref (e(i := e i + 1)) (snd (file_dup (Some i) s))"
proof (rule files_refI)
  fix j
  note j = files_refD [OF r, of j]
  show "0 \<le> (e(i := e i + 1)) j" using j(1) by auto
  assume "g_file_used (snd (file_dup (Some i) s)) j"
  then have uj: "g_file_used s j" by (simp add: file_dup_def)
  show "j < NFILE" using j(2) uj by simp
  show "fl_ref (g_file (snd (file_dup (Some i) s)) j) = fd_refs (g_procs (snd (file_dup (Some i) s))) j + (e(i := e i + 1)) j"
    using j(3) uj by (auto simp: file_dup_def)
  show "0 < fd_refs (g_procs (snd (file_dup (Some i) s))) j + (e(i := e i + 1)) j"
    using j(4) uj by (auto simp: file_dup_def)
next
  fix j
  assume "\<not> g_file_used (snd (file_dup (Some i) s)) j"
  then show "fd_refs (g_procs (snd (file_dup (Some i) s))) j = 0 \<and> (e(i := e i + 1)) j = 0"
    using files_refD(5,6) [OF r, of j] u by (auto simp: file_dup_def)
qed

lemma files_ref_close:
  assumes r: "files_ref e s" and pos: "0 < e i"
  shows "files_ref (e(i := e i - 1)) (file_close (Some i) s)"
proof -
  have u: "g_file_used s i" using files_refD(6) [OF r, of i] pos by auto
  show ?thesis
  proof (rule files_refI)
    fix j
    note j = files_refD [OF r, of j]
    show "0 \<le> (e(i := e i - 1)) j" using j(1) pos by auto
    assume uj': "g_file_used (file_close (Some i) s) j"
    then have uj: "g_file_used s j" by (auto simp: file_close_used split: if_splits)
    show "j < NFILE" using j(2) uj by simp
    show "fl_ref (g_file (file_close (Some i) s) j) = fd_refs (g_procs (file_close (Some i) s)) j + (e(i := e i - 1)) j"
      using j(3) uj by (auto simp: file_close_ref)
    have "j = i \<Longrightarrow> fl_ref (g_file s i) \<noteq> 1" using uj' files_refD(2) [OF r u] by (auto simp: file_close_used split: if_splits)
    then show "0 < fd_refs (g_procs (file_close (Some i) s)) j + (e(i := e i - 1)) j"
      using j(3,4) uj by auto
  next
    fix j
    assume nu: "\<not> g_file_used (file_close (Some i) s) j"
    show "fd_refs (g_procs (file_close (Some i) s)) j = 0 \<and> (e(i := e i - 1)) j = 0"
    proof (cases "g_file_used s j")
      case True
      then have "j = i \<and> fl_ref (g_file s i) = 1" using nu by (auto simp: file_close_used split: if_splits)
      moreover have "fd_refs (g_procs s) i = 0 \<and> e i = 1"
        using files_refD(3) [OF r u] pos fd_refs_nonneg [of "g_procs s" i] calculation by linarith
      ultimately show ?thesis by simp
    next
      case False
      then show ?thesis using files_refD(5,6) [OF r, of j] u by auto
    qed
  qed
qed

lemma files_ref_set_None:
  assumes r: "files_ref e s" and "p < NPROC" and "fd < NOFILE" and "pr_ofile (g_procs s p) fd = Some i"
  shows "files_ref (e(i := e i + 1)) (set_fd p fd None s)"
proof -
  have u: "g_file_used s i" by (rule files_ref_used [OF assms])
  have n: "fd_refs (g_procs (set_fd p fd None s)) j + (e(i := e i + 1)) j = fd_refs (g_procs s) j + e j" for j
    using fd_refs_upd [OF assms(2,3), of _ "g_procs s" None j] assms(4) by auto
  show ?thesis
    using files_refD [OF r] u n [symmetric] fd_refs_upd [OF assms(2,3), of _ "g_procs s" None] assms(4)
    by (intro files_refI) (auto simp: le_less add_pos_nonneg)
qed

lemma files_ref_set_Some:
  assumes r: "files_ref e s" and "p < NPROC" and "fd < NOFILE" and "pr_ofile (g_procs s p) fd = None" and "0 < e i"
  shows "files_ref (e(i := e i - 1)) (set_fd p fd (Some i) s)"
proof -
  have u: "g_file_used s i" using files_refD(6) [OF r, of i] assms(5) by auto
  have n: "fd_refs (g_procs (set_fd p fd (Some i) s)) j + (e(i := e i - 1)) j = fd_refs (g_procs s) j + e j" for j
    using fd_refs_upd [OF assms(2,3), of _ "g_procs s" "Some i" j] assms(4) by auto
  show ?thesis
    using files_refD [OF r] u n [symmetric] fd_refs_upd [OF assms(2,3), of _ "g_procs s" "Some i"] assms(4,5)
    by (intro files_refI) auto
qed

lemma files_ref_alloc:
  assumes "files_ref e s" and "file_alloc s = (Some i, s')"
  shows "files_ref (e(i := 1)) s' \<and> e i = 0 \<and> g_procs s' = g_procs s"
  using assms(2)
proof (cases s rule: file_alloc_cases)
  case full
  then show ?thesis using assms(2) by simp
next
  case (slot k)
  then have k: "k = i" and s': "s' = s\<lparr>g_file_used := (g_file_used s)(i := True),
         g_file := (g_file s)(i := zero_file\<lparr>fl_ref := 1\<rparr>)\<rparr>" using assms(2) by auto
  have z: "fd_refs (g_procs s) i = 0 \<and> e i = 0" using files_refD(5,6) [OF assms(1), of i] slot(2) k by auto
  have "files_ref (e(i := 1)) s'"
    using files_refD [OF assms(1)] z slot(1) k by (intro files_refI) (auto simp: s' split: if_splits)
  then show ?thesis using z by (simp add: s')
qed

lemma files_ref_same_fd:
  assumes "files_ref e s" and "g_file_used s' = g_file_used s"
    and "\<And>i. fl_ref (g_file s' i) = fl_ref (g_file s i)"
    and "\<And>p fd. p < NPROC \<Longrightarrow> fd < NOFILE \<Longrightarrow> pr_ofile (g_procs s' p) fd = pr_ofile (g_procs s p) fd"
  shows "files_ref e s'"
proof -
  have "fd_refs (g_procs s') = fd_refs (g_procs s)" by (rule fd_refs_cong) (use assms(4) in auto)
  then show ?thesis using files_refD [OF assms(1)] assms(2,3) by (intro files_refI) auto
qed

lemma files_ref_same:
  assumes "files_ref e s" and "g_file_used s' = g_file_used s"
    and "\<And>i. fl_ref (g_file s' i) = fl_ref (g_file s i)"
    and "\<And>p. p < NPROC \<Longrightarrow> pr_ofile (g_procs s' p) = pr_ofile (g_procs s p)"
  shows "files_ref e s'"
  by (rule files_ref_same_fd [OF assms(1,2,3)]) (use assms(4) in auto)

section \<open>The process table\<close>

definition sched_ok :: "'a proc_state_scheme \<Rightarrow> bool" where
  "sched_ok s \<longleftrightarrow> sched_i s < NPROC \<and>
     (\<forall>p. g_current s = Some p \<longrightarrow> p < NPROC \<and> p = sched_i s) \<and>
     (\<forall>p<NPROC. pr_state (g_procs s p) = PROC_RUNNING \<longleftrightarrow> g_current s = Some p) \<and>
     (\<forall>p<NPROC. pr_state (g_procs s p) \<noteq> PROC_USED \<and> pr_state (g_procs s p) \<noteq> PROC_SLEEPING)"

definition live :: "proc \<Rightarrow> bool" where
  "live x \<longleftrightarrow> pr_state x \<noteq> PROC_UNUSED \<and> pr_state x \<noteq> PROC_ZOMBIE"

text \<open>A process that ended, or a free slot, has no open files.\<close>

definition quiet :: "'a proc_state_scheme \<Rightarrow> bool" where
  "quiet s \<longleftrightarrow> (\<forall>p<NPROC. \<not> live (g_procs s p) \<longrightarrow> (\<forall>fd<NOFILE. pr_ofile (g_procs s p) fd = None))"

definition pids_ok :: "'a proc_state_scheme \<Rightarrow> bool" where
  "pids_ok s \<longleftrightarrow>
     (\<forall>p<NPROC. pr_state (g_procs s p) \<noteq> PROC_UNUSED \<longrightarrow>
        0 < pr_pid (g_procs s p) \<and> pr_pid (g_procs s p) < g_next_pid s \<and>
        (\<forall>q<NPROC. q \<noteq> p \<longrightarrow> pr_state (g_procs s q) \<noteq> PROC_UNUSED \<longrightarrow>
           pr_pid (g_procs s q) \<noteq> pr_pid (g_procs s p))) \<and> 0 < g_next_pid s"

text \<open>
  Pids are numbered by an \<^verbatim>\<open>int\<close> that is never checked.  With \<open>wp\<close> the invariant speaks of them, and a step
  keeps it unless the counter overflows in that step; without \<open>wp\<close> every step does.
\<close>

definition proc_inv :: "bool \<Rightarrow> 'a proc_state_scheme \<Rightarrow> bool" where
  "proc_inv wp s \<longleftrightarrow> sched_ok s \<and> quiet s \<and> (wp \<longrightarrow> pids_ok s) \<and> files_ref no_extra s"

text \<open>Only a live process waits in \<^verbatim>\<open>wait4\<close>.\<close>

definition kernel_inv_if :: "bool \<Rightarrow> 'a sys_state_scheme \<Rightarrow> bool" where
  "kernel_inv_if wp s \<longleftrightarrow> proc_inv wp s \<and> (\<forall>p<NPROC. pending_wait s p \<noteq> None \<longrightarrow> live (g_procs s p))"

abbreviation kernel_inv :: "'a sys_state_scheme \<Rightarrow> bool" where
  "kernel_inv \<equiv> kernel_inv_if True"

lemma kernel_inv_weaken: "kernel_inv_if wp s \<Longrightarrow> kernel_inv_if False s"
  by (simp add: kernel_inv_if_def proc_inv_def)

section \<open>The part of the state the invariant reads\<close>

definition pcore :: "'a proc_state_scheme \<Rightarrow>
    (nat \<Rightarrow> bool) \<times> (nat \<Rightarrow> int) \<times> (nat \<Rightarrow> int \<times> pstate \<times> (nat \<Rightarrow> nat option)) \<times> nat option \<times> int \<times> nat" where
  "pcore s = (g_file_used s, \<lambda>i. fl_ref (g_file s i),
     \<lambda>p. (pr_pid (g_procs s p), pr_state (g_procs s p), pr_ofile (g_procs s p)),
     g_current s, g_next_pid s, sched_i s)"

lemma pcoreD:
  assumes "pcore s' = pcore s"
  shows "g_file_used s' = g_file_used s" and "fl_ref (g_file s' i) = fl_ref (g_file s i)"
    and "pr_pid (g_procs s' p) = pr_pid (g_procs s p)"
    and "pr_state (g_procs s' p) = pr_state (g_procs s p)"
    and "pr_ofile (g_procs s' p) = pr_ofile (g_procs s p)"
    and "g_current s' = g_current s" and "g_next_pid s' = g_next_pid s" and "sched_i s' = sched_i s"
  using assms by (auto simp: pcore_def fun_eq_iff)

lemma files_ref_pcore: "pcore s' = pcore s \<Longrightarrow> files_ref e s \<Longrightarrow> files_ref e s'"
  by (rule files_ref_same [of e s s']) (auto dest: pcoreD(1,2,5))

lemma proc_inv_pcore: "pcore s' = pcore s \<Longrightarrow> proc_inv wp s \<Longrightarrow> proc_inv wp s'"
proof -
  assume c: "pcore s' = pcore s" and i: "proc_inv wp s"
  have "sched_ok s'" using i by (simp add: proc_inv_def sched_ok_def pcoreD(4,6,8) [OF c])
  moreover have "quiet s'" using i by (simp add: proc_inv_def quiet_def live_def pcoreD(4,5) [OF c])
  moreover have "wp \<longrightarrow> pids_ok s'" using i by (simp add: proc_inv_def pids_ok_def pcoreD(3,4,7) [OF c])
  moreover have "files_ref no_extra s'" using i files_ref_pcore [OF c] by (simp add: proc_inv_def)
  ultimately show "proc_inv wp s'" by (simp add: proc_inv_def)
qed

lemma kernel_inv_pcore:
  "pcore s' = pcore s \<Longrightarrow> pending_wait s' = pending_wait s \<Longrightarrow> kernel_inv_if wp s \<Longrightarrow> kernel_inv_if wp s'"
  using proc_inv_pcore [of s' s] pcoreD(4) [of s' s] by (simp add: kernel_inv_if_def live_def)

lemma pcore_phys [simp]: "pcore (s\<lparr>phys := m\<rparr>) = pcore s" "pcore (set_phys m s) = pcore s"
  by (simp_all add: pcore_def)

lemma pcore_upd_file [simp]:
  "(\<And>f. fl_ref (g f) = fl_ref f) \<Longrightarrow> pcore (upd_file i g s) = pcore s"
  by (auto simp: pcore_def fun_eq_iff)

lemma pcore_upd_proc [simp]:
  "(\<And>x. pr_pid (f x) = pr_pid x \<and> pr_state (f x) = pr_state x \<and> pr_ofile (f x) = pr_ofile x) \<Longrightarrow>
     pcore (upd_proc p f s) = pcore s"
  by (auto simp: pcore_def fun_eq_iff)

lemma pcore_vfs:
  assumes "vfs_state.more s' = vfs_state.more (s :: 'a proc_state_scheme)"
  shows "pcore s' = pcore s \<and> proc_state.more s' = proc_state.more s \<and> g_procs s' = g_procs s \<and>
    g_current s' = g_current s \<and> phys s' = phys s"
  using assms by (cases s, cases s') (simp add: pcore_def)

end
