(* ===== verification/Kernel_Calls.thy ===== *)
theory Kernel_Calls
  imports Kernel_Inv
begin

text \<open>
  The calls that neither create, end nor switch processes and neither open nor close files:
  each keeps the part of the state the invariant reads.  \<open>keeps\<close> is for calls over the process
  state, \<open>kkeeps\<close> for those that also use the console or the timer.
\<close>

named_theorems keeping \<open>calls that keep the core of the state\<close>

definition keeps :: "'a proc_state_scheme \<Rightarrow> 'a proc_state_scheme \<Rightarrow> bool" where
  "keeps s s' \<longleftrightarrow> pcore s' = pcore s \<and> proc_state.more s' = proc_state.more s"

definition kkeeps :: "'a sys_state_scheme \<Rightarrow> 'a sys_state_scheme \<Rightarrow> bool" where
  "kkeeps s s' \<longleftrightarrow> pcore s' = pcore s \<and> pending_wait s' = pending_wait s"

lemma keeps_refl [simp]: "keeps s s" by (simp add: keeps_def)
lemma kkeeps_refl [simp]: "kkeeps s s" by (simp add: kkeeps_def)

lemma keeps_trans: "keeps s s1 \<Longrightarrow> keeps s1 s2 \<Longrightarrow> keeps s s2" by (simp add: keeps_def)
lemma kkeeps_trans: "kkeeps s s1 \<Longrightarrow> kkeeps s1 s2 \<Longrightarrow> kkeeps s s2" by (simp add: kkeeps_def)

lemma keeps_kkeeps: "keeps s s' \<Longrightarrow> kkeeps s (s' :: 'a sys_state_scheme)"
  by (cases s, cases s') (simp add: keeps_def kkeeps_def)

lemma kernel_inv_kkeeps: "kkeeps s s' \<Longrightarrow> kernel_inv_if wp s \<Longrightarrow> kernel_inv_if wp s'"
  unfolding kkeeps_def by (rule kernel_inv_pcore) auto

lemma keeps_vfs: "vfs_state.more s' = vfs_state.more (s :: 'a proc_state_scheme) \<Longrightarrow> keeps s s'"
  using pcore_vfs [of s' s] by (simp add: keeps_def)

lemma keeps_phys [simp]: "keeps s (s'\<lparr>phys := m\<rparr>) \<longleftrightarrow> keeps s s'" "keeps s (set_phys m s') \<longleftrightarrow> keeps s s'"
  by (simp_all add: keeps_def)

lemma keeps_upd_file [simp]:
  "(\<And>f. fl_ref (g f) = fl_ref f) \<Longrightarrow> keeps s (upd_file i g s') \<longleftrightarrow> keeps s s'"
  by (simp add: keeps_def)

lemma keeps_upd_proc [simp]:
  "(\<And>x. pr_pid (f x) = pr_pid x \<and> pr_state (f x) = pr_state x \<and> pr_ofile (f x) = pr_ofile x) \<Longrightarrow>
     keeps s (upd_proc p f s') \<longleftrightarrow> keeps s s'"
  by (simp add: keeps_def)

lemma keeps_satp [simp]: "keeps s (s'\<lparr>csr_satp := x\<rparr>) \<longleftrightarrow> keeps s s'"
  by (simp add: keeps_def pcore_def)

section \<open>Files\<close>

lemma file_read_keeps [keeping]: "file_read f len s = Some (r, bs, s') \<Longrightarrow> keeps s s'"
  by (auto simp: file_read_def dest!: vfs_read_more keeps_vfs split: option.splits if_splits bind_splits)

lemma file_write_keeps [keeping]: "file_write f buf len s = Some (r, s') \<Longrightarrow> keeps s s'"
  by (auto simp: file_write_def dest!: vfs_write_more keeps_vfs split: option.splits if_splits bind_splits)

lemma file_truncate_keeps [keeping]: "file_truncate f sz s = Some (r, s') \<Longrightarrow> keeps s s'"
  by (auto simp: file_truncate_def dest!: vfs_truncate_more keeps_vfs split: option.splits if_splits bind_splits)

lemma to_user_keeps [keeping]: "to_user p va bs s = (r, s') \<Longrightarrow> keeps s s'"
  by (auto simp: to_user_def split: prod.splits)

lemma write_file_loop_keeps [keeping]:
  assumes "write_file_loop p f buf left off tot s = Some (r, s')"
  shows "keeps s s'"
proof -
  have "keeps s (snd (r, s'))" using assms
  proof (rule write_file_loop.raw_induct [where P = "\<lambda>p f buf left off tot s y. keeps s (snd y)", rotated], goal_cases)
    case (1 it p f buf left off tot s y)
    show ?case
      using 1(2) by (auto dest!: file_write_keeps 1(1) split: if_splits bind_splits) (simp_all add: keeps_def)
  qed
  then show ?thesis by simp
qed

lemma read_file_loop_keeps [keeping]:
  assumes "read_file_loop p f buf left off tot s = Some (r, s')"
  shows "keeps s s'"
proof -
  have "keeps s (snd (r, s'))" using assms
  proof (rule read_file_loop.raw_induct [where P = "\<lambda>p f buf left off tot s y. keeps s (snd y)", rotated], goal_cases)
    case (1 it p f buf left off tot s y)
    show ?case
      using 1(2) by (auto dest!: file_read_keeps to_user_keeps 1(1) split: if_splits bind_splits prod.splits)
        (simp_all add: keeps_def)
  qed
  then show ?thesis by simp
qed

lemma sys_lseek_keeps [keeping]: "sys_lseek fd off wh s = (r, s') \<Longrightarrow> keeps s s'"
  by (auto simp: sys_lseek_def Let_def split: option.splits if_splits prod.splits)

lemma sys_ftruncate_keeps [keeping]: "sys_ftruncate fd len s = Some (r, s') \<Longrightarrow> keeps s s'"
  by (auto simp: sys_ftruncate_def dest!: file_truncate_keeps split: option.splits if_splits)

lemma sys_mkdirat_keeps [keeping]: "sys_mkdirat d p s = Some (r, s') \<Longrightarrow> keeps s s'"
  by (auto simp: sys_mkdirat_def dest!: vfs_mkdir_at_more keeps_vfs
      split: option.splits if_splits prod.splits bind_splits)

lemma sys_unlinkat_keeps [keeping]: "sys_unlinkat d p s = Some (r, s') \<Longrightarrow> keeps s s'"
  by (auto simp: sys_unlinkat_def dest!: vfs_unlink_at_more keeps_vfs split: option.splits if_splits prod.splits)

lemma sys_fstat_keeps [keeping]: "sys_fstat fd p s = (r, s') \<Longrightarrow> keeps s s'"
  by (auto simp: sys_fstat_def dest!: to_user_keeps split: option.splits if_splits prod.splits)

lemma sys_fstatat_keeps [keeping]: "sys_fstatat d p sp s = Some (r, s') \<Longrightarrow> keeps s s'"
  by (auto simp: sys_fstatat_def dest!: to_user_keeps vfs_lookup_at_more keeps_vfs intro: keeps_trans
      split: option.splits if_splits prod.splits bind_splits)

lemma sys_chdir_keeps [keeping]: "sys_chdir p s = Some (r, s') \<Longrightarrow> keeps s s'"
  by (auto simp: sys_chdir_def dest!: vfs_lookup_at_more keeps_vfs
      split: option.splits if_splits prod.splits bind_splits)

lemma sys_getcwd_keeps [keeping]: "sys_getcwd p n s = (r, s') \<Longrightarrow> keeps s s'"
  by (auto simp: sys_getcwd_def Let_def dest!: to_user_keeps split: option.splits if_splits prod.splits)

lemma sys_brk_keeps [keeping]: "sys_brk a s = Some (r, s') \<Longrightarrow> keeps s s'"
  by (auto simp: sys_brk_def Let_def split: option.splits if_splits prod.splits bind_splits)

lemma wait4_finish_keeps [keeping]: "wait4_finish sp ret st s = (r, s') \<Longrightarrow> keeps s s'"
  by (auto simp: wait4_finish_def dest!: to_user_keeps split: option.splits if_splits prod.splits)

section \<open>Exec\<close>

text \<open>The loader works on the state without processes.\<close>

lemma read_at_more [frame]:
  "read_at vn len off s = Some (r, bs, s') \<Longrightarrow> vfs_state.more s' = vfs_state.more s"
  by (auto simp: read_at_def dest!: vfs_read_more split: bind_splits if_splits)

definition mkeeps :: "'a mem_state_scheme \<Rightarrow> 'a mem_state_scheme \<Rightarrow> bool" where
  "mkeeps s s' \<longleftrightarrow> g_file s' = g_file s \<and> g_file_used s' = g_file_used s \<and> mem_state.more s' = mem_state.more s"

lemma mkeeps_refl [simp]: "mkeeps s s" by (simp add: mkeeps_def)
lemma mkeeps_trans: "mkeeps s s1 \<Longrightarrow> mkeeps s1 s2 \<Longrightarrow> mkeeps s s2" by (simp add: mkeeps_def)
lemma mkeeps_phys [simp]: "mkeeps s (s'\<lparr>phys := m\<rparr>) \<longleftrightarrow> mkeeps s s'" by (simp add: mkeeps_def)
lemma mkeeps_phys_left [simp]: "mkeeps (s\<lparr>phys := m\<rparr>) s' \<longleftrightarrow> mkeeps s s'" by (simp add: mkeeps_def)

lemma mkeeps_vfs: "vfs_state.more s' = vfs_state.more (s :: 'a mem_state_scheme) \<Longrightarrow> mkeeps s s'"
  by (cases s, cases s') (simp add: mkeeps_def)

lemma mkeeps_keeps: "mkeeps s s' \<Longrightarrow> keeps s (s' :: 'a proc_state_scheme)"
  by (cases s, cases s') (simp add: mkeeps_def keeps_def pcore_def)

lemma copy_segment_mkeeps:
  assumes "copy_segment pt vn off lim va s = Some (r, s')"
  shows "mkeeps s s'"
proof -
  have "mkeeps s (snd (r, s'))" using assms
  proof (rule copy_segment.raw_induct [where P = "\<lambda>pt vn off lim va s y. mkeeps s (snd y)", rotated], goal_cases)
    case (1 it pt vn off lim va s y)
    show ?case
      using 1(2) by (auto dest!: read_at_more mkeeps_vfs 1(1) split: if_splits bind_splits prod.splits)
        (simp_all add: mkeeps_def)
  qed
  then show ?thesis by simp
qed

lemma load_segment_mkeeps: "load_segment pt vn ph s = Some (r, s') \<Longrightarrow> mkeeps s s'"
  by (auto simp: load_segment_def dest!: copy_segment_mkeeps split: if_splits bind_splits)

lemma load_segments_mkeeps:
  "load_segments pt vn po pe i n mx s = Some (r, mx', s') \<Longrightarrow> mkeeps s s'"
proof (induction n arbitrary: i mx s)
  case 0
  then show ?case by simp
next
  case (Suc n)
  from Suc.prems show ?case
    by (auto simp: Let_def dest!: read_at_more mkeeps_vfs load_segment_mkeeps Suc.IH
        split: bind_splits if_splits) (simp_all add: mkeeps_def)
qed

lemma elf_load_mkeeps: "elf_load pt vn s = Some (r, i, s') \<Longrightarrow> mkeeps s s'"
  by (auto simp: elf_load_def dest!: read_at_more mkeeps_vfs load_segments_mkeeps
      split: bind_splits if_splits) (simp_all add: mkeeps_def)

lemma exec_commit_keeps [keeping]: "keeps s (exec_commit p pt i n sp s)"
  by (simp add: exec_commit_def Let_def)

lemma exec_image_keeps [keeping]:
  assumes "exec_image p vn argv s = Some (r, s')"
  shows "keeps s s'"
proof -
  have k: "keeps s s1" if "elf_load pt vn (set_phys m s) = Some (r1, i, s1)" for pt m r1 i s1
    using mkeeps_keeps [OF elf_load_mkeeps [OF that]] by (simp add: keeps_def)
  show ?thesis
    using assms
    by (auto simp: exec_image_def Let_def dest!: k split: prod.splits if_splits bind_splits option.splits)
      (auto intro: keeps_trans [OF _ exec_commit_keeps])
qed

lemma parse_shebang_keeps [keeping]: "parse_shebang vn a b s = Some (r, i, g, s') \<Longrightarrow> keeps s s'"
  by (auto simp: parse_shebang_def Let_def dest!: vfs_read_more keeps_vfs split: bind_splits if_splits prod.splits)

lemma proc_exec_common_depth_keeps [keeping]:
  "proc_exec_common_depth left p path argv s = Some (r, s') \<Longrightarrow> keeps s s'"
proof (induction left arbitrary: p path argv s)
  case 0
  then show ?case
    by (subst (asm) proc_exec_common_depth.simps)
      (auto dest!: vfs_lookup_at_more keeps_vfs parse_shebang_keeps exec_image_keeps
        split: option.splits bind_splits if_splits, simp_all add: keeps_def)
next
  case (Suc l)
  from Suc.prems show ?case
    by (subst (asm) proc_exec_common_depth.simps)
      (auto dest!: vfs_lookup_at_more keeps_vfs parse_shebang_keeps exec_image_keeps Suc.IH
        split: option.splits bind_splits if_splits, simp_all add: keeps_def)
qed

lemma proc_exec_keeps [keeping]: "proc_exec path argv s = Some (r, s') \<Longrightarrow> keeps s s'"
  unfolding proc_exec_def proc_exec_common_def by (rule proc_exec_common_depth_keeps)

lemma proc_exec_on_keeps [keeping]: "proc_exec_on p path argv s = Some (r, s') \<Longrightarrow> keeps s s'"
  unfolding proc_exec_on_def proc_exec_common_def by (rule proc_exec_common_depth_keeps)

lemma sys_execve_keeps [keeping]: "sys_execve tf p a s = Some (r, s') \<Longrightarrow> keeps s s'"
  by (auto simp: sys_execve_def Let_def dest!: proc_exec_keeps split: option.splits bind_splits if_splits prod.splits)

section \<open>Calls over the console and the timer\<close>

lemma kkeeps_uart [simp]: "kkeeps s (s'\<lparr>uart := u\<rparr>) \<longleftrightarrow> kkeeps s s'"
  by (simp add: kkeeps_def pcore_def)

lemma kkeeps_uart_left [simp]: "kkeeps (s\<lparr>uart := u\<rparr>) s' \<longleftrightarrow> kkeeps s s'"
  by (simp add: kkeeps_def pcore_def)

lemma to_user_kkeeps: "to_user p va bs s = (r, s') \<Longrightarrow> kkeeps s s'"
  by (rule keeps_kkeeps [OF to_user_keeps])

lemma write_tty_loop_kkeeps [keeping]:
  assumes "write_tty_loop p buf left off s = Some (r, s')"
  shows "kkeeps s s'"
proof -
  have "kkeeps s (snd (r, s'))" using assms
  proof (rule write_tty_loop.raw_induct [where P = "\<lambda>p buf left off s y. kkeeps s (snd y)", rotated], goal_cases)
    case (1 it p buf left off s y)
    show ?case using 1(2) by (auto dest!: 1(1) split: if_splits)
  qed
  then show ?thesis by simp
qed

lemma sys_write_kkeeps [keeping]: "sys_write fd buf len s = Some (r, s') \<Longrightarrow> kkeeps s s'"
  by (auto simp: sys_write_def dest!: write_tty_loop_kkeeps write_file_loop_keeps keeps_kkeeps
      split: option.splits if_splits bind_splits)

lemma sys_read_kkeeps [keeping]: "sys_read fd buf len s = Some (r, s') \<Longrightarrow> kkeeps s s'"
  by (auto simp: sys_read_def Let_def dest!: read_file_loop_keeps to_user_kkeeps keeps_kkeeps
      split: option.splits if_splits bind_splits prod.splits)

lemma getdents_loop_kkeeps [keeping]:
  assumes "getdents_loop p vn dirp count w off s = Some (r, w', off', s')"
  shows "kkeeps s s'"
proof -
  have "kkeeps s (snd (snd (snd (r, w', off', s'))))" using assms
  proof (rule getdents_loop.raw_induct [where P = "\<lambda>p vn dirp count w off s y. kkeeps s (snd (snd (snd y)))", rotated], goal_cases)
    case (1 it p vn dirp count w off s y)
    show ?case
      using 1(2) by (auto simp: Let_def dest!: to_user_kkeeps 1(1) split: if_splits prod.splits bind_splits)
        (simp_all add: kkeeps_def)
  qed
  then show ?thesis by simp
qed

lemma kkeeps_upd_file [simp]:
  "(\<And>f. fl_ref (g f) = fl_ref f) \<Longrightarrow> kkeeps s (upd_file i g s') \<longleftrightarrow> kkeeps s s'"
  by (simp add: kkeeps_def upd_file_def) (auto simp: pcore_def fun_eq_iff)

lemma sys_getdents64_kkeeps [keeping]: "sys_getdents64 fd d c s = Some (r, s') \<Longrightarrow> kkeeps s s'"
  by (auto simp: sys_getdents64_def dest!: getdents_loop_kkeeps split: option.splits if_splits bind_splits)

lemma kkeeps_lflag [simp]: "kkeeps s (s'\<lparr>g_tty_lflag := x\<rparr>) \<longleftrightarrow> kkeeps s s'"
  by (simp add: kkeeps_def pcore_def)

lemma sys_ioctl_kkeeps [keeping]: "sys_ioctl fd req arg s = (r, s') \<Longrightarrow> kkeeps s s'"
  by (auto simp: sys_ioctl_def dest!: to_user_kkeeps split: option.splits if_splits prod.splits)

lemma sys_poll_kkeeps [keeping]: "sys_poll f n t s = Some (r, s') \<Longrightarrow> kkeeps s s'"
  by (auto simp: sys_poll_def Let_def dest!: to_user_kkeeps split: option.splits if_splits prod.splits bind_splits)

end
