(* ===== verification/Kernel_Props.thy ===== *)
theory Kernel_Props
  imports Kernel_Calls
begin

text \<open>
  The process and file tables over every step of the machine: descriptors, fork, exit, wait
  and the scheduler keep the invariant, so every reachable state has it; what the scheduler
  and \<^verbatim>\<open>wait\<close> promise.
\<close>

section \<open>Calls that change descriptors\<close>

text \<open>A call that moves only descriptors of one live process and counts of files.\<close>

lemma proc_inv_descriptors:
  assumes inv: "proc_inv wp s" and live: "live (g_procs s p)"
    and st: "\<And>q. pr_state (g_procs s' q) = pr_state (g_procs s q)"
    and pid: "\<And>q. pr_pid (g_procs s' q) = pr_pid (g_procs s q)"
    and fd: "\<And>q. q \<noteq> p \<Longrightarrow> pr_ofile (g_procs s' q) = pr_ofile (g_procs s q)"
    and g: "g_current s' = g_current s" "g_next_pid s' = g_next_pid s" "sched_i s' = sched_i s"
    and files: "files_ref no_extra s'"
  shows "proc_inv wp s'"
proof -
  have "sched_ok s'" using inv by (simp add: proc_inv_def sched_ok_def st g)
  moreover have "wp \<longrightarrow> pids_ok s'" using inv by (simp add: proc_inv_def pids_ok_def st pid g)
  moreover have "quiet s'" unfolding quiet_def
  proof (intro allI impI)
    fix q fd' assume q: "q < NPROC" "\<not> live (g_procs s' q)" and fd': "fd' < NOFILE"
    have "q \<noteq> p" using q(2) live by (auto simp: live_def st)
    moreover have "\<not> live (g_procs s q)" using q(2) by (simp add: live_def st)
    moreover have "quiet s" using inv by (simp add: proc_inv_def)
    ultimately show "pr_ofile (g_procs s' q) fd' = None"
      using q(1) fd' fd [of q] unfolding quiet_def by metis
  qed
  ultimately show ?thesis using files by (simp add: proc_inv_def)
qed

lemma current_live:
  assumes "proc_inv wp s" and "g_current s = Some p"
  shows "p < NPROC" and "pr_state (g_procs s p) = PROC_RUNNING" and "live (g_procs s p)"
  using assms by (auto simp: proc_inv_def sched_ok_def live_def)

lemma fd_fileD: "fd_file s p fd = Some i \<Longrightarrow> unat fd < NOFILE \<and> pr_ofile (g_procs s p) (unat fd) = Some i"
  by (simp add: fd_file_def split: if_splits)

lemma close_fd_files:
  assumes "files_ref e s" and "p < NPROC" and "fd < NOFILE" and "pr_ofile (g_procs s p) fd = Some i"
  shows "files_ref e (set_fd p fd None (file_close (Some i) s))"
proof -
  have "files_ref (e(i := e i + 1)) (set_fd p fd None s)" by (rule files_ref_set_None [OF assms])
  then have "files_ref ((e(i := e i + 1))(i := (e(i := e i + 1)) i - 1)) (file_close (Some i) (set_fd p fd None s))"
    by (rule files_ref_close) (use files_refD(1) [OF assms(1), of i] in simp)
  then show ?thesis by (simp add: file_close_set_fd)
qed

lemma sys_close_inv:
  assumes inv: "proc_inv wp s" and c: "sys_close fd s = (r, s')"
  shows "proc_inv wp s' \<and> proc_state.more s' = proc_state.more s"
proof (cases "g_current s")
  case None
  then show ?thesis using inv c by (simp add: sys_close_def proc_current_def)
next
  case (Some p)
  show ?thesis
  proof (cases "fd_file s p fd")
    case None
    then show ?thesis using inv c Some by (simp add: sys_close_def proc_current_def)
  next
    case (Some i)
    have s': "s' = set_fd p (unat fd) None (file_close (Some i) s)"
      using c \<open>g_current s = Some p\<close> Some by (simp add: sys_close_def proc_current_def)
    note cur = current_live [OF inv \<open>g_current s = Some p\<close>]
    have f: "files_ref no_extra s'" unfolding s'
      using close_fd_files [of no_extra s p "unat fd" i] inv cur fd_fileD [OF Some] by (simp add: proc_inv_def)
    show ?thesis using proc_inv_descriptors [OF inv cur(3) _ _ _ _ _ _ f] by (auto simp: s')
  qed
qed

text \<open>Sharing an open file through one more free descriptor.\<close>

lemma dup_fd_files:
  assumes "files_ref e s" and "p < NPROC" and "fd < NOFILE" and "pr_ofile (g_procs s p) fd = None"
    and "g_file_used s i"
  shows "files_ref e (set_fd p fd (Some i) (snd (file_dup (Some i) s)))"
proof -
  have d: "files_ref (e(i := e i + 1)) (snd (file_dup (Some i) s))" by (rule files_ref_dup [OF assms(1,5)])
  have "files_ref ((e(i := e i + 1))(i := (e(i := e i + 1)) i - 1)) (set_fd p fd (Some i) (snd (file_dup (Some i) s)))"
    by (rule files_ref_set_Some [OF d assms(2,3)])
      (use assms(4) files_refD(1) [OF assms(1), of i] in \<open>simp_all add: file_dup_def\<close>)
  then show ?thesis by simp
qed

lemma find_upt:
  shows "List.find P [a..<b] = None \<Longrightarrow> a \<le> i \<Longrightarrow> i < b \<Longrightarrow> \<not> P i"
    and "List.find P [a..<b] = Some i \<Longrightarrow> a \<le> i \<and> i < b \<and> P i"
proof -
  show "List.find P [a..<b] = None \<Longrightarrow> a \<le> i \<Longrightarrow> i < b \<Longrightarrow> \<not> P i"
    unfolding find_None_iff by auto
  assume "List.find P [a..<b] = Some i"
  then obtain k where k: "k < length [a..<b]" "P ([a..<b] ! k)" "i = [a..<b] ! k"
    unfolding find_Some_iff by blast
  then show "a \<le> i \<and> i < b \<and> P i" by simp
qed

lemma fdalloc_cases:
  assumes "fdalloc p f s = (r, s')"
  obtains (full) "r = - EMFILE" "s' = s" "\<forall>fd. 3 \<le> fd \<longrightarrow> fd < NOFILE \<longrightarrow> pr_ofile (g_procs s p) fd \<noteq> None"
  | (slot) fd where "3 \<le> fd" "fd < NOFILE" "pr_ofile (g_procs s p) fd = None" "r = int fd" "s' = set_fd p fd f s"
proof (cases "List.find (\<lambda>i. pr_ofile (g_procs s p) i = None) [3..<NOFILE]")
  case None
  from full show ?thesis
    using find_upt(1) [OF None] assms unfolding fdalloc_def None by simp
next
  case (Some i)
  from slot [of i] show ?thesis
    using find_upt(2) [OF Some] assms unfolding fdalloc_def Some by simp
qed

lemma dup_close_files:
  assumes "files_ref e s" and "g_file_used s i"
  shows "files_ref e (file_close (Some i) (snd (file_dup (Some i) s)))"
proof -
  have d: "files_ref (e(i := e i + 1)) (snd (file_dup (Some i) s))" by (rule files_ref_dup [OF assms])
  have "files_ref ((e(i := e i + 1))(i := (e(i := e i + 1)) i - 1)) (file_close (Some i) (snd (file_dup (Some i) s)))"
    by (rule files_ref_close [OF d]) (use files_refD(1) [OF assms(1), of i] in simp)
  then show ?thesis by simp
qed

lemma file_dup_simps:
  "file_dup (Some i) s = (Some i, upd_file i (\<lambda>e. e\<lparr>fl_ref := fl_ref e + 1\<rparr>) s)"
  by (simp add: file_dup_def)

lemma sys_dup_inv:
  assumes inv: "proc_inv wp s" and c: "sys_dup fd s = (r, s')"
  shows "proc_inv wp s' \<and> proc_state.more s' = proc_state.more s"
proof (cases "g_current s")
  case None
  then show ?thesis using inv c by (simp add: sys_dup_def proc_current_def)
next
  case cur: (Some p)
  note live = current_live [OF inv cur]
  have fr: "files_ref no_extra s" using inv by (simp add: proc_inv_def)
  show ?thesis
  proof (cases "fd_file s p fd")
    case None
    then show ?thesis using inv c cur by (simp add: sys_dup_def proc_current_def)
  next
    case i: (Some i)
    note f = fd_fileD [OF i]
    have u: "g_file_used s i" using files_ref_used [OF fr live(1)] f by blast
    define s1 where "s1 = snd (file_dup (Some i) s)"
    obtain nf s2 where a: "fdalloc p (Some i) s1 = (nf, s2)" by fastforce
    have s': "s' = (if nf < 0 then file_close (Some i) s2 else s2)"
      using c cur i a by (auto simp: sys_dup_def proc_current_def file_dup_simps s1_def split: if_splits)
    have p1: "g_procs s1 = g_procs s" "g_current s1 = g_current s" "g_next_pid s1 = g_next_pid s"
      "sched_i s1 = sched_i s" "proc_state.more s1 = proc_state.more s" by (simp_all add: s1_def file_dup_simps)
    from a show ?thesis
    proof (cases rule: fdalloc_cases)
      case full
      then have s'': "s' = file_close (Some i) s1" using s' by simp
      have "files_ref no_extra s'" unfolding s'' s1_def by (rule dup_close_files [OF fr u])
      then show ?thesis using proc_inv_descriptors [OF inv live(3), of s'] p1 by (simp add: s'')
    next
      case (slot fd')
      then have s'': "s' = set_fd p fd' (Some i) s1" using s' by simp
      have "files_ref no_extra s'" unfolding s'' s1_def
        by (rule dup_fd_files [OF fr live(1) slot(2) _ u]) (use slot(3) p1 in simp)
      then show ?thesis using proc_inv_descriptors [OF inv live(3), of s'] p1 by (simp add: s'')
    qed
  qed
qed

lemma sys_dup3_inv:
  assumes inv: "proc_inv wp s" and c: "sys_dup3 oldfd newfd s = (r, s')"
  shows "proc_inv wp s' \<and> proc_state.more s' = proc_state.more s"
proof (cases "g_current s")
  case None
  then show ?thesis using inv c by (simp add: sys_dup3_def proc_current_def)
next
  case cur: (Some p)
  note live = current_live [OF inv cur]
  have fr: "files_ref no_extra s" using inv by (simp add: proc_inv_def)
  show ?thesis
  proof (cases "unat oldfd < NOFILE \<and> unat newfd < NOFILE \<and> fd_file s p oldfd \<noteq> None \<and> oldfd \<noteq> newfd")
    case False
    then show ?thesis using inv c cur by (auto simp: sys_dup3_def proc_current_def split: if_splits)
  next
    case True
    then obtain i where i: "fd_file s p oldfd = Some i" by auto
    have ne: "unat newfd \<noteq> unat oldfd" using True by (simp add: word_unat_eq_iff)
    define s1 where "s1 = (if fd_file s p newfd \<noteq> None
        then set_fd p (unat newfd) None (file_close (fd_file s p newfd) s) else s)"
    have f1: "files_ref no_extra s1"
    proof (cases "fd_file s p newfd")
      case None
      then show ?thesis using fr by (simp add: s1_def)
    next
      case (Some j)
      have "files_ref no_extra (set_fd p (unat newfd) None (file_close (Some j) s))"
        by (rule close_fd_files [OF fr live(1)]) (use fd_fileD [OF Some] in auto)
      then show ?thesis by (simp add: s1_def Some)
    qed
    have p1: "g_current s1 = g_current s" "g_next_pid s1 = g_next_pid s"
      "sched_i s1 = sched_i s" "proc_state.more s1 = proc_state.more s"
      and st1: "pr_state (g_procs s1 q) = pr_state (g_procs s q)" "pr_pid (g_procs s1 q) = pr_pid (g_procs s q)"
      and of1: "q \<noteq> p \<Longrightarrow> pr_ofile (g_procs s1 q) = pr_ofile (g_procs s q)" for q
      by (auto simp: s1_def)
    have old1: "pr_ofile (g_procs s1 p) (unat oldfd) = Some i" and new1: "pr_ofile (g_procs s1 p) (unat newfd) = None"
      using fd_fileD [OF i] ne True by (auto simp: s1_def fd_file_def)
    have u: "g_file_used s1 i" by (rule files_ref_used [OF f1 live(1) _ old1]) (use True in simp)
    have i1: "fd_file s1 p oldfd = Some i" using old1 True by (simp add: fd_file_def)
    have s': "s' = set_fd p (unat newfd) (Some i) (snd (file_dup (Some i) s1))"
      using c cur True i i1 unfolding sys_dup3_def proc_current_def s1_def [symmetric] Let_def
      by (auto simp: file_dup_simps s1_def)
    have "files_ref no_extra s'" unfolding s'
      by (rule dup_fd_files [OF f1 live(1) _ new1 u]) (use True in simp)
    then show ?thesis
      using proc_inv_descriptors [OF inv live(3), of s'] p1 st1 of1 by (auto simp: s' file_dup_simps)
  qed
qed

section \<open>Opening\<close>

lemma file_alloc_simps:
  assumes "file_alloc s = (r, s')"
  shows "g_procs s' = g_procs s" and "g_current s' = g_current s" and "g_next_pid s' = g_next_pid s"
    and "sched_i s' = sched_i s" and "proc_state.more s' = proc_state.more (s :: 'a proc_state_scheme)"
  using assms by (auto simp: file_alloc_def split: option.splits)

lemma open_vnode_inv:
  assumes inv: "proc_inv wp s" and cur: "g_current s = Some p" and c: "open_vnode p vn flags s = (r, s')"
  shows "proc_inv wp s' \<and> proc_state.more s' = proc_state.more s"
proof (cases "file_alloc s")
  case (Pair x s1)
  note live = current_live [OF inv cur] and al = file_alloc_simps [OF Pair]
  have fr: "files_ref no_extra s" using inv by (simp add: proc_inv_def)
  show ?thesis
  proof (cases x)
    case None
    then have "s' = s1" using c Pair by (simp add: open_vnode_def)
    moreover have "s1 = s"
      using None Pair by (cases s rule: file_alloc_cases) auto
    ultimately show ?thesis using inv by simp
  next
    case (Some f)
    define e where "e = no_extra(f := 1)"
    have f1: "files_ref e s1" using files_ref_alloc [OF fr] Pair Some by (simp add: e_def)
    define s2 where "s2 = file_setup f vn flags s1"
    have p2: "g_procs s2 = g_procs s" "g_current s2 = g_current s" "g_next_pid s2 = g_next_pid s"
      "sched_i s2 = sched_i s" "proc_state.more s2 = proc_state.more s" by (simp_all add: s2_def file_setup_def al)
    have f2: "files_ref e s2" unfolding s2_def file_setup_def by (rule files_ref_pcore [OF _ f1]) simp
    have cl: "files_ref no_extra (file_close (Some f) t) " if "files_ref e t" for t :: "'a proc_state_scheme"
    proof -
      have "files_ref (e(f := e f - 1)) (file_close (Some f) t)" by (rule files_ref_close [OF that]) (simp add: e_def)
      moreover have "e(f := e f - 1) = no_extra" by (auto simp: e_def)
      ultimately show ?thesis by simp
    qed
    have keep: "proc_inv wp t \<and> proc_state.more t = proc_state.more s"
      if "files_ref no_extra t" "proc_state.more t = proc_state.more s" "g_current t = g_current s"
        "g_next_pid t = g_next_pid s" "sched_i t = sched_i s"
        "\<And>q. pr_state (g_procs t q) = pr_state (g_procs s q)" "\<And>q. pr_pid (g_procs t q) = pr_pid (g_procs s q)"
        "\<And>q. q \<noteq> p \<Longrightarrow> pr_ofile (g_procs t q) = pr_ofile (g_procs s q)" for t :: "'a proc_state_scheme"
      using proc_inv_descriptors [OF inv live(3), of t] that by simp
    obtain ret st where rs: "(if flags AND O_APPEND \<noteq> 0 then vfs_stat_vn s2 (Some vn) else (0, Some zero_stat)) = (ret, st)"
      by fastforce
    show ?thesis
    proof (cases "ret = 0")
      case False
      then have "s' = file_close (Some f) s2"
        using c unfolding open_vnode_def Pair Some Let_def option.case prod.case s2_def [symmetric] rs by simp
      then show ?thesis using keep [of s'] cl [OF f2] by (simp add: p2)
    next
      case True
      define s3 where "s3 = (if flags AND O_APPEND \<noteq> 0 then upd_file f (\<lambda>e. e\<lparr>fl_off := st_size (the st)\<rparr>) s2 else s2)"
      have f3: "files_ref e s3" unfolding s3_def by (rule files_ref_pcore [OF _ f2]) simp
      have p3: "g_procs s3 = g_procs s" "g_current s3 = g_current s" "g_next_pid s3 = g_next_pid s"
        "sched_i s3 = sched_i s" "proc_state.more s3 = proc_state.more s" by (simp_all add: s3_def p2)
      obtain fd s4 where a: "fdalloc p (Some f) s3 = (fd, s4)" by fastforce
      have s': "s' = (if fd < 0 then file_close (Some f) s4 else s4)"
        using c True
        unfolding open_vnode_def Pair Some Let_def option.case prod.case s2_def [symmetric] rs s3_def [symmetric] a
        by (simp split: if_splits)
      from a show ?thesis
      proof (cases rule: fdalloc_cases)
        case full
        then have "s' = file_close (Some f) s3" using s' by simp
        then show ?thesis using keep [of s'] cl [OF f3] by (simp add: p3)
      next
        case (slot k)
        then have s'': "s' = set_fd p k (Some f) s3" using s' by simp
        have "files_ref (e(f := e f - 1)) s'" unfolding s''
          by (rule files_ref_set_Some [OF f3 live(1) slot(2,3)]) (simp add: e_def)
        moreover have "e(f := e f - 1) = no_extra" by (auto simp: e_def)
        ultimately show ?thesis using keep [of s'] by (simp add: s'' p3)
      qed
    qed
  qed
qed

lemma sys_openat_inv:
  assumes inv: "proc_inv wp s" and c: "sys_openat d ptr flags s = Some (r, s')"
  shows "proc_inv wp s' \<and> proc_state.more s' = proc_state.more s"
proof (cases "\<exists>p v s2. g_current s = Some p \<and> keeps s s2 \<and> open_vnode p v flags s2 = (r, s')")
  case True
  then obtain p v s2 where o: "g_current s = Some p" "keeps s s2" "open_vnode p v flags s2 = (r, s')" by blast
  have "proc_inv wp s2" using proc_inv_pcore inv o(2) by (auto simp: keeps_def)
  moreover have "g_current s2 = Some p" using o(1,2) pcoreD(6) [of s2 s] by (simp add: keeps_def)
  ultimately show ?thesis using open_vnode_inv [OF _ _ o(3)] o(2) by (simp add: keeps_def)
next
  case False
  have "keeps s s'"
    using c False
    by (auto simp: sys_openat_def proc_current_def Let_def
        dest!: vfs_create_at_more vfs_lookup_at_more vfs_truncate_more keeps_vfs
        split: option.splits if_splits prod.splits bind_splits)
      (auto simp: keeps_def)
  then show ?thesis using proc_inv_pcore [of s' s] inv by (simp add: keeps_def)
qed

section \<open>Giving up the processor\<close>

lemma proc_inv_switch:
  assumes inv: "proc_inv wp s" and cur: "g_current s = Some p"
    and g: "g_current s' = None" "sched_i s' < NPROC" "g_next_pid s' = g_next_pid s"
    and st: "\<And>q. q \<noteq> p \<Longrightarrow> pr_state (g_procs s' q) = pr_state (g_procs s q)"
    and stp: "pr_state (g_procs s' p) = PROC_RUNNABLE \<or>
      pr_state (g_procs s' p) = PROC_ZOMBIE \<and> (\<forall>fd<NOFILE. pr_ofile (g_procs s' p) fd = None)"
    and pid: "\<And>q. pr_pid (g_procs s' q) = pr_pid (g_procs s q)"
    and fd: "\<And>q. q \<noteq> p \<Longrightarrow> pr_ofile (g_procs s' q) = pr_ofile (g_procs s q)"
    and files: "files_ref no_extra s'"
  shows "proc_inv wp s'"
proof -
  have so: "sched_ok s" and qu: "quiet s" and pi: "wp \<longrightarrow> pids_ok s" using inv by (auto simp: proc_inv_def)
  have run: "pr_state (g_procs s q) = PROC_RUNNING \<longleftrightarrow> g_current s = Some q"
    and rest: "pr_state (g_procs s q) \<noteq> PROC_USED" "pr_state (g_procs s q) \<noteq> PROC_SLEEPING" if "q < NPROC" for q
    using so that unfolding sched_ok_def by blast+
  have "sched_ok s'" unfolding sched_ok_def
  proof (intro conjI allI impI)
    fix q assume q: "q < NPROC"
    show "pr_state (g_procs s' q) = PROC_RUNNING \<longleftrightarrow> g_current s' = Some q"
      by (cases "q = p") (use stp st [of q] run [OF q] cur g in auto)
    show "pr_state (g_procs s' q) \<noteq> PROC_USED" "pr_state (g_procs s' q) \<noteq> PROC_SLEEPING"
      by (cases "q = p"; use stp st [of q] rest [OF q] in auto)+
  qed (use g in auto)
  moreover have "quiet s'" unfolding quiet_def
  proof (intro allI impI)
    fix q fd' assume q: "q < NPROC" "\<not> live (g_procs s' q)" and fd': "fd' < NOFILE"
    show "pr_ofile (g_procs s' q) fd' = None"
    proof (cases "q = p")
      case True
      then show ?thesis using q(2) stp fd' by (auto simp: live_def)
    next
      case False
      then have "\<not> live (g_procs s q)" using q(2) st [OF False] by (simp add: live_def)
      then show ?thesis using qu q(1) fd' fd [OF False] unfolding quiet_def by metis
    qed
  qed
  moreover have "wp \<longrightarrow> pids_ok s'"
  proof -
    have "pr_state (g_procs s p) \<noteq> PROC_UNUSED" using current_live(2) [OF inv cur] by simp
    then have "pr_state (g_procs s q) \<noteq> PROC_UNUSED" if "pr_state (g_procs s' q) \<noteq> PROC_UNUSED" for q
      using that st [of q] by (cases "q = p") auto
    then show ?thesis using pi by (simp add: pids_ok_def pid g(3))
  qed
  ultimately show ?thesis using files by (simp add: proc_inv_def)
qed

lemma proc_yield_simps:
  assumes "g_current s = Some p"
  shows "g_procs (proc_yield s) = (g_procs s)(p := (g_procs s p)\<lparr>pr_ra := After_swtch,
            pr_state := (if pr_state (g_procs s p) = PROC_RUNNING then PROC_RUNNABLE else pr_state (g_procs s p))\<rparr>)"
    and "g_current (proc_yield s) = None" and "sched_i (proc_yield s) = (sched_i s + 1) mod NPROC"
    and "g_next_pid (proc_yield s) = g_next_pid s" and "g_file (proc_yield s) = g_file s"
    and "g_file_used (proc_yield s) = g_file_used s"
    and "proc_state.more (proc_yield s) = proc_state.more s"
  using assms by (simp_all add: proc_yield_def proc_current_def sched_return_def)

lemma proc_yield_inv:
  assumes inv: "proc_inv wp s" and cur: "g_current s = Some p"
  shows "proc_inv wp (proc_yield s)"
proof -
  note y = proc_yield_simps [OF cur]
  have "files_ref no_extra (proc_yield s)"
    by (rule files_ref_same [of no_extra s]) (use inv in \<open>auto simp: proc_inv_def y\<close>)
  then show ?thesis
    using current_live(2) [OF inv cur]
    by (intro proc_inv_switch [OF inv cur]) (auto simp: y)
qed

text \<open>Ending closes every descriptor of the process.\<close>

lemma close_files_all:
  "files_ref no_extra s \<Longrightarrow> p < NPROC \<Longrightarrow> set is \<subseteq> {..<NOFILE} \<Longrightarrow>
   files_ref no_extra (close_files p is s) \<and>
   (\<forall>fd\<in>set is. pr_ofile (g_procs (close_files p is s) p) fd = None) \<and>
   (\<forall>fd. pr_ofile (g_procs s p) fd = None \<longrightarrow> pr_ofile (g_procs (close_files p is s) p) fd = None) \<and>
   (\<forall>q. pr_state (g_procs (close_files p is s) q) = pr_state (g_procs s q) \<and>
        pr_pid (g_procs (close_files p is s) q) = pr_pid (g_procs s q) \<and>
        (q \<noteq> p \<longrightarrow> pr_ofile (g_procs (close_files p is s) q) = pr_ofile (g_procs s q))) \<and>
   g_current (close_files p is s) = g_current s \<and> sched_i (close_files p is s) = sched_i s \<and>
   g_next_pid (close_files p is s) = g_next_pid s \<and>
   proc_state.more (close_files p is s) = proc_state.more s"
proof (induction "is" arbitrary: s)
  case Nil
  then show ?case by simp
next
  case (Cons i "is")
  show ?case
  proof (cases "pr_ofile (g_procs s p) i")
    case None
    then show ?thesis using Cons by simp
  next
    case (Some f)
    define s1 where "s1 = set_fd p i None (file_close (Some f) s)"
    have "files_ref no_extra s1" unfolding s1_def
      by (rule close_fd_files [OF Cons.prems(1,2) _ Some]) (use Cons.prems(3) in auto)
    then have IH: "files_ref no_extra (close_files p is s1) \<and>
      (\<forall>fd\<in>set is. pr_ofile (g_procs (close_files p is s1) p) fd = None) \<and>
      (\<forall>fd. pr_ofile (g_procs s1 p) fd = None \<longrightarrow> pr_ofile (g_procs (close_files p is s1) p) fd = None) \<and>
      (\<forall>q. pr_state (g_procs (close_files p is s1) q) = pr_state (g_procs s1 q) \<and>
        pr_pid (g_procs (close_files p is s1) q) = pr_pid (g_procs s1 q) \<and>
        (q \<noteq> p \<longrightarrow> pr_ofile (g_procs (close_files p is s1) q) = pr_ofile (g_procs s1 q))) \<and>
      g_current (close_files p is s1) = g_current s1 \<and> sched_i (close_files p is s1) = sched_i s1 \<and>
      g_next_pid (close_files p is s1) = g_next_pid s1 \<and>
      proc_state.more (close_files p is s1) = proc_state.more s1"
      using Cons.IH [of s1] Cons.prems(2,3) by simp
    have eq: "close_files p (i # is) s = close_files p is s1"
      by (simp add: Some s1_def set_fd_def)
    show ?thesis unfolding eq using IH by (auto simp: s1_def)
  qed
qed

lemma proc_exit_inv:
  assumes inv: "proc_inv wp s" and cur: "g_current s = Some p"
  shows "proc_inv wp (proc_exit st s) \<and> proc_state.more (proc_exit st s) = proc_state.more s \<and>
    g_current (proc_exit st s) = None \<and> sched_i (proc_exit st s) = (sched_i s + 1) mod NPROC \<and>
    pr_state (g_procs (proc_exit st s) p) = PROC_ZOMBIE \<and> pr_exit_status (g_procs (proc_exit st s) p) = st \<and>
    (\<forall>q. q \<noteq> p \<longrightarrow> pr_state (g_procs (proc_exit st s) q) = pr_state (g_procs s q))"
proof -
  note live = current_live [OF inv cur]
  define s1 where "s1 = close_files p [0..<NOFILE] s"
  have cl: "files_ref no_extra s1 \<and> (\<forall>fd\<in>set [0..<NOFILE]. pr_ofile (g_procs s1 p) fd = None) \<and>
     (\<forall>q. pr_state (g_procs s1 q) = pr_state (g_procs s q) \<and> pr_pid (g_procs s1 q) = pr_pid (g_procs s q) \<and>
        (q \<noteq> p \<longrightarrow> pr_ofile (g_procs s1 q) = pr_ofile (g_procs s q))) \<and>
     g_current s1 = g_current s \<and> sched_i s1 = sched_i s \<and> g_next_pid s1 = g_next_pid s \<and>
     proc_state.more s1 = proc_state.more s"
  proof -
    have a: "files_ref no_extra s" using inv by (simp add: proc_inv_def)
    have b: "set [0..<NOFILE] \<subseteq> {..<NOFILE}" by (simp only: set_upt) auto
    show ?thesis unfolding s1_def using close_files_all [OF a live(1) b] by blast
  qed
  define s2 where "s2 = upd_proc p (\<lambda>x. x\<lparr>pr_exit_status := st, pr_state := PROC_ZOMBIE\<rparr>) s1"
  have e: "proc_exit st s = proc_yield s2"
    by (simp add: proc_exit_def proc_current_def cur s2_def s1_def)
  have c2: "g_current s2 = Some p" using cl cur by (simp add: s2_def)
  note y = proc_yield_simps [OF c2]
  have none: "\<forall>fd<NOFILE. pr_ofile (g_procs s1 p) fd = None"
    using cl by (metis atLeastLessThan_iff le0 set_upt)
  have "files_ref no_extra (proc_yield s2)"
    by (rule files_ref_same [of no_extra s1]) (use cl in \<open>auto simp: y [unfolded s2_def] s2_def\<close>)
  then have "proc_inv wp (proc_yield s2)"
    using cl none by (intro proc_inv_switch [OF inv cur]) (auto simp: y [unfolded s2_def] s2_def)
  then show ?thesis using cl by (simp add: e y [unfolded s2_def] s2_def)
qed

section \<open>Waiting\<close>

text \<open>The scan finds the first zombie child that matches, or says whether there is any child.\<close>

definition wait_match :: "nat \<Rightarrow> int \<Rightarrow> proc \<Rightarrow> bool" where
  "wait_match p pid c \<longleftrightarrow> pr_parent c = Some p \<and> pr_state c = PROC_ZOMBIE \<and> (pid = - 1 \<or> pr_pid c = pid)"

definition is_child :: "nat \<Rightarrow> proc \<Rightarrow> bool" where
  "is_child p c \<longleftrightarrow> pr_parent c = Some p \<and> pr_state c \<noteq> PROC_UNUSED"

definition reap :: "nat \<Rightarrow> 'a proc_state_scheme \<Rightarrow> 'a proc_state_scheme" where
  "reap i s = upd_proc i (\<lambda>x. x\<lparr>pr_parent := None, pr_state := PROC_UNUSED\<rparr>)
     (set_phys (kfree (uvm_free (pr_pagetable (g_procs s i)) (phys s)) (pr_tf (g_procs s i))) s)"

lemma wait_scan_find:
  "wait_scan p pid found is s =
     (case List.find (\<lambda>i. wait_match p pid (g_procs s i)) is of
        Some i \<Rightarrow> Inl (pr_pid (g_procs s i), pr_exit_status (g_procs s i), reap i s)
      | None \<Rightarrow> Inr (found \<or> (\<exists>i\<in>set is. is_child p (g_procs s i))))"
  by (induction "is" arbitrary: found)
    (auto simp: Let_def wait_match_def is_child_def reap_def split: option.splits)

lemma reap_inv:
  assumes inv: "proc_inv wp s" and z: "pr_state (g_procs s i) = PROC_ZOMBIE"
  shows "proc_inv wp (reap i s) \<and> proc_state.more (reap i s) = proc_state.more s"
proof -
  have so: "sched_ok s" and qu: "quiet s" and pi: "wp \<longrightarrow> pids_ok s" and fr: "files_ref no_extra s"
    using inv by (auto simp: proc_inv_def)
  have "sched_ok (reap i s)" using so z unfolding sched_ok_def reap_def by auto
  moreover have "quiet (reap i s)"
    using qu z unfolding quiet_def reap_def by (auto simp: live_def)
  moreover have "wp \<longrightarrow> pids_ok (reap i s)" using pi unfolding pids_ok_def reap_def by auto
  moreover have "files_ref no_extra (reap i s)"
    by (rule files_ref_same [OF fr]) (auto simp: reap_def)
  ultimately show ?thesis by (simp add: proc_inv_def reap_def)
qed

lemma proc_wait_cases:
  assumes cur: "g_current s = Some p"
  obtains (reaped) i where "i < NPROC" "wait_match p pid (g_procs s i)"
      "\<forall>j<i. \<not> wait_match p pid (g_procs s j)"
      "proc_wait pid s = Wait_return (pr_pid (g_procs s i)) (Some (pr_exit_status (g_procs s i))) (reap i s)"
  | (childless) "\<forall>i<NPROC. \<not> is_child p (g_procs s i)" "proc_wait pid s = Wait_return (- ECHILD) None s"
  | (waits) i where "i < NPROC" "is_child p (g_procs s i)" "\<forall>j<NPROC. \<not> wait_match p pid (g_procs s j)"
      "proc_wait pid s = Wait_yield (proc_yield s)"
proof (cases "List.find (\<lambda>i. wait_match p pid (g_procs s i)) [0..<NPROC]")
  case None
  have nm: "\<forall>j<NPROC. \<not> wait_match p pid (g_procs s j)" using find_upt(1) [OF None] by simp
  have w: "proc_wait pid s = (if \<exists>i\<in>set [0..<NPROC]. is_child p (g_procs s i)
      then Wait_yield (proc_yield s) else Wait_return (- ECHILD) None s)"
    using cur None unfolding proc_wait_def proc_current_def wait_scan_find by simp
  show ?thesis
  proof (cases "\<exists>i\<in>set [0..<NPROC]. is_child p (g_procs s i)")
    case True
    then obtain i where "i < NPROC" "is_child p (g_procs s i)" by (auto simp only: set_upt atLeastLessThan_iff)
    then show ?thesis using waits nm w True by simp
  next
    case False
    then have "\<forall>i<NPROC. \<not> is_child p (g_procs s i)" by (auto simp only: set_upt atLeastLessThan_iff)
    then show ?thesis using childless w False by simp
  qed
next
  case (Some i)
  have i: "i < NPROC" "wait_match p pid (g_procs s i)" using find_upt(2) [OF Some] by auto
  have "\<forall>j<i. \<not> wait_match p pid (g_procs s j)"
  proof (intro allI impI)
    fix j assume j: "j < i"
    from Some obtain k where k: "k < length [0..<NPROC]" "i = [0..<NPROC] ! k"
      "\<forall>j<k. \<not> wait_match p pid (g_procs s ([0..<NPROC] ! j))"
      unfolding find_Some_iff by blast
    have "k = i" using k(1,2) by (simp only: length_upt nth_upt)
    then show "\<not> wait_match p pid (g_procs s j)" using k(3) j i(1) nth_upt [of 0 j NPROC] by auto
  qed
  moreover have "proc_wait pid s =
      Wait_return (pr_pid (g_procs s i)) (Some (pr_exit_status (g_procs s i))) (reap i s)"
    using cur Some unfolding proc_wait_def proc_current_def wait_scan_find by simp
  ultimately show ?thesis using reaped i by blast
qed

section \<open>Fork\<close>

text \<open>\<^verbatim>\<open>proc_alloc\<close> takes the first free slot and a new pid, and changes nothing else of the tables.\<close>

lemma proc_alloc_effect:
  assumes "proc_alloc s = (r, s')"
  obtains (full) "r = None" "s' = s" "\<forall>i<NPROC. pr_state (g_procs s i) \<noteq> PROC_UNUSED"
  | (slot) i where "i < NPROC" "pr_state (g_procs s i) = PROC_UNUSED"
      "r = None \<and> pr_state (g_procs s' i) = PROC_UNUSED \<or> r = Some i \<and> pr_state (g_procs s' i) = PROC_USED"
      "pr_ofile (g_procs s' i) = (\<lambda>_. None)" "pr_pid (g_procs s' i) = g_next_pid s"
      "\<And>q. q \<noteq> i \<Longrightarrow> g_procs s' q = g_procs s q" "g_next_pid s' = int_inc (g_next_pid s)"
      "g_file s' = g_file s" "g_file_used s' = g_file_used s" "g_current s' = g_current s"
      "sched_i s' = sched_i s" "proc_state.more s' = proc_state.more s"
proof (cases "proc_find_unused s")
  case None
  then show ?thesis
    using full assms first_unused_None [of "\<lambda>i. pr_state (g_procs s i) \<noteq> PROC_UNUSED" NPROC]
    by (simp add: proc_alloc_def proc_find_unused_def)
next
  case (Some i)
  have i: "i < NPROC \<and> pr_state (g_procs s i) = PROC_UNUSED"
    using first_unused_Some [OF Some [unfolded proc_find_unused_def]] by simp
  have b: "(r = None \<and> pr_state (g_procs s' i) = PROC_UNUSED \<or> r = Some i \<and> pr_state (g_procs s' i) = PROC_USED) \<and>
      pr_ofile (g_procs s' i) = (\<lambda>_. None) \<and> pr_pid (g_procs s' i) = g_next_pid s \<and>
      (\<forall>q. q \<noteq> i \<longrightarrow> g_procs s' q = g_procs s q) \<and> g_next_pid s' = int_inc (g_next_pid s) \<and>
      g_file s' = g_file s \<and> g_file_used s' = g_file_used s \<and> g_current s' = g_current s \<and>
      sched_i s' = sched_i s \<and> proc_state.more s' = proc_state.more s"
    using assms Some
    by (auto simp: proc_alloc_def Let_def zero_proc_def split: prod.splits if_splits)
  show ?thesis by (rule slot [of i]) (use i b in auto)
qed

lemma proc_inv_new_slot:
  assumes inv: "proc_inv wp s" and i: "i < NPROC" "pr_state (g_procs s i) = PROC_UNUSED"
    and st: "\<And>q. q \<noteq> i \<Longrightarrow> pr_state (g_procs s' q) = pr_state (g_procs s q)"
    and pid: "\<And>q. q \<noteq> i \<Longrightarrow> pr_pid (g_procs s' q) = pr_pid (g_procs s q)"
    and fd: "\<And>q. q \<noteq> i \<Longrightarrow> pr_ofile (g_procs s' q) = pr_ofile (g_procs s q)"
    and sti: "pr_state (g_procs s' i) = PROC_UNUSED \<and> (\<forall>fd<NOFILE. pr_ofile (g_procs s' i) fd = None) \<or>
      pr_state (g_procs s' i) = PROC_RUNNABLE \<and> pr_pid (g_procs s' i) = g_next_pid s"
    and g: "g_current s' = g_current s" "sched_i s' = sched_i s" "g_next_pid s' = int_inc (g_next_pid s)"
    and grows: "wp \<longrightarrow> g_next_pid s \<le> g_next_pid s'" and files: "files_ref no_extra s'"
  shows "proc_inv wp s'"
proof -
  have so: "sched_ok s" and qu: "quiet s" and pi: "wp \<longrightarrow> pids_ok s" using inv by (auto simp: proc_inv_def)
  have ci: "g_current s \<noteq> Some i" using so i unfolding sched_ok_def by fastforce
  have "sched_ok s'" unfolding sched_ok_def
  proof (intro conjI allI impI)
    show "sched_i s' < NPROC" using so g by (simp add: sched_ok_def)
    fix q
    show "g_current s' = Some q \<Longrightarrow> q < NPROC" "g_current s' = Some q \<Longrightarrow> q = sched_i s'"
      using so g by (auto simp: sched_ok_def)
    assume q: "q < NPROC"
    show "pr_state (g_procs s' q) = PROC_RUNNING \<longleftrightarrow> g_current s' = Some q"
      by (cases "q = i") (use q sti st [of q] so ci g in \<open>auto simp: sched_ok_def\<close>)
    show "pr_state (g_procs s' q) \<noteq> PROC_USED" "pr_state (g_procs s' q) \<noteq> PROC_SLEEPING"
      by (cases "q = i"; use q sti st [of q] so in \<open>auto simp: sched_ok_def\<close>)+
  qed
  moreover have "quiet s'" unfolding quiet_def
  proof (intro allI impI)
    fix q fd' assume q: "q < NPROC" "\<not> live (g_procs s' q)" and fd': "fd' < NOFILE"
    show "pr_ofile (g_procs s' q) fd' = None"
    proof (cases "q = i")
      case True
      then show ?thesis using q(2) sti fd' by (auto simp: live_def)
    next
      case False
      then have "\<not> live (g_procs s q)" using q(2) st [OF False] by (simp add: live_def)
      then show ?thesis using qu q(1) fd' fd [OF False] unfolding quiet_def by metis
    qed
  qed
  moreover have "pids_ok s'" if wp: wp
  proof -
    have pi: "pids_ok s" and g3: "g_next_pid s' = g_next_pid s + 1"
      using pi wp g(3) grows by (auto simp: int_inc_def split: if_splits)
    have p: "0 < pr_pid (g_procs s q) \<and> pr_pid (g_procs s q) < g_next_pid s"
      if "q < NPROC" "pr_state (g_procs s q) \<noteq> PROC_UNUSED" for q using pi that unfolding pids_ok_def by blast
    have pd: "pr_pid (g_procs s q) \<noteq> pr_pid (g_procs s q')"
      if "q < NPROC" "q' < NPROC" "q \<noteq> q'" "pr_state (g_procs s q) \<noteq> PROC_UNUSED" "pr_state (g_procs s q') \<noteq> PROC_UNUSED" for q q'
      using pi that unfolding pids_ok_def by metis
    have n: "0 < g_next_pid s" using pi by (simp add: pids_ok_def)
    show ?thesis unfolding pids_ok_def
    proof (intro conjI allI impI)
      show "0 < g_next_pid s'" using n g3 by simp
      fix q assume q: "q < NPROC" "pr_state (g_procs s' q) \<noteq> PROC_UNUSED"
      show "0 < pr_pid (g_procs s' q)" "pr_pid (g_procs s' q) < g_next_pid s'"
        by (cases "q = i"; use q sti st [of q] pid [of q] p [of q] n g3 in auto)+
      fix q' assume q': "q' < NPROC" "q' \<noteq> q" "pr_state (g_procs s' q') \<noteq> PROC_UNUSED"
      show "pr_pid (g_procs s' q') \<noteq> pr_pid (g_procs s' q)"
      proof (cases "q = i \<or> q' = i")
        case True
        then show ?thesis
          using q q' sti st [of q] st [of q'] pid [of q] pid [of q'] p [of q] p [of q'] by auto
      next
        case False
        then show ?thesis using q q' st pid pd [of q' q] by auto
      qed
    qed
  qed
  ultimately show ?thesis using files by (simp add: proc_inv_def)
qed

text \<open>The child gets exactly the parent's descriptors, each counted once more.\<close>

lemma dup_files_effect:
  "files_ref no_extra s \<Longrightarrow> p < NPROC \<Longrightarrow> np < NPROC \<Longrightarrow> p \<noteq> np \<Longrightarrow> set is \<subseteq> {..<NOFILE} \<Longrightarrow> distinct is \<Longrightarrow>
   (\<forall>fd\<in>set is. pr_ofile (g_procs s np) fd = None) \<Longrightarrow>
   files_ref no_extra (dup_files p np is s) \<and>
   (\<forall>fd\<in>set is. pr_ofile (g_procs (dup_files p np is s) np) fd = pr_ofile (g_procs s p) fd) \<and>
   (\<forall>fd. fd \<notin> set is \<longrightarrow> pr_ofile (g_procs (dup_files p np is s) np) fd = pr_ofile (g_procs s np) fd) \<and>
   (\<forall>q. q \<noteq> np \<longrightarrow> g_procs (dup_files p np is s) q = g_procs s q) \<and>
   (g_procs (dup_files p np is s) np)\<lparr>pr_ofile := pr_ofile (g_procs s np)\<rparr> = g_procs s np \<and>
   g_current (dup_files p np is s) = g_current s \<and> sched_i (dup_files p np is s) = sched_i s \<and>
   g_next_pid (dup_files p np is s) = g_next_pid s \<and> phys (dup_files p np is s) = phys s \<and>
   proc_state.more (dup_files p np is s) = proc_state.more s"
proof (induction "is" arbitrary: s)
  case Nil
  then show ?case by simp
next
  case (Cons i "is")
  show ?case
  proof (cases "pr_ofile (g_procs s p) i")
    case None
    then show ?thesis using Cons by auto
  next
    case (Some f)
    define s1 where "s1 = set_fd np i (Some f) (snd (file_dup (Some f) s))"
    have i: "i < NOFILE" using Cons.prems(5) by auto
    have u: "g_file_used s f" by (rule files_ref_used [OF Cons.prems(1,2) i Some])
    have fr1: "files_ref no_extra s1" unfolding s1_def
      by (rule dup_fd_files [OF Cons.prems(1,3) i _ u]) (use Cons.prems(7) in simp)
    have sub: "set is \<subseteq> {..<NOFILE}" and dis: "distinct is" using Cons.prems(5,6) by auto
    have none: "\<forall>fd\<in>set is. pr_ofile (g_procs s1 np) fd = None"
      using Cons.prems(6,7) by (auto simp: s1_def file_dup_simps)
    have IH: "files_ref no_extra (dup_files p np is s1) \<and>
      (\<forall>fd\<in>set is. pr_ofile (g_procs (dup_files p np is s1) np) fd = pr_ofile (g_procs s1 p) fd) \<and>
      (\<forall>fd. fd \<notin> set is \<longrightarrow> pr_ofile (g_procs (dup_files p np is s1) np) fd = pr_ofile (g_procs s1 np) fd) \<and>
      (\<forall>q. q \<noteq> np \<longrightarrow> g_procs (dup_files p np is s1) q = g_procs s1 q) \<and>
      (g_procs (dup_files p np is s1) np)\<lparr>pr_ofile := pr_ofile (g_procs s1 np)\<rparr> = g_procs s1 np \<and>
      g_current (dup_files p np is s1) = g_current s1 \<and> sched_i (dup_files p np is s1) = sched_i s1 \<and>
      g_next_pid (dup_files p np is s1) = g_next_pid s1 \<and> phys (dup_files p np is s1) = phys s1 \<and>
      proc_state.more (dup_files p np is s1) = proc_state.more s1"
      by (rule Cons.IH [OF fr1 Cons.prems(2-4) sub dis none])
    have eq: "dup_files p np (i # is) s = dup_files p np is s1"
      by (simp add: Some s1_def set_fd_def file_dup_simps)
    have "(g_procs (dup_files p np is s1) np)\<lparr>pr_ofile := pr_ofile (g_procs s np)\<rparr> =
      ((g_procs (dup_files p np is s1) np)\<lparr>pr_ofile := pr_ofile (g_procs s1 np)\<rparr>)\<lparr>pr_ofile := pr_ofile (g_procs s np)\<rparr>"
      by simp
    also have "\<dots> = g_procs s np" using IH by (simp add: s1_def file_dup_simps)
    finally show ?thesis unfolding eq
      using IH Cons.prems(4,6) Some by (auto simp: s1_def file_dup_simps)
  qed
qed

lemma dup_files_facts:
  assumes "files_ref no_extra s" and "p < NPROC" and "np < NPROC" and "p \<noteq> np"
    and none: "pr_ofile (g_procs s np) = (\<lambda>_. None)"
  defines "s' \<equiv> dup_files p np [0..<NOFILE] s"
  shows "files_ref no_extra s'"
    and "fd < NOFILE \<Longrightarrow> pr_ofile (g_procs s' np) fd = pr_ofile (g_procs s p) fd"
    and "q \<noteq> np \<Longrightarrow> g_procs s' q = g_procs s q"
    and "pr_pid (g_procs s' np) = pr_pid (g_procs s np)" and "pr_sz (g_procs s' np) = pr_sz (g_procs s np)"
    and "pr_parent (g_procs s' np) = pr_parent (g_procs s np)"
    and "g_current s' = g_current s" and "sched_i s' = sched_i s" and "g_next_pid s' = g_next_pid s"
    and "proc_state.more s' = proc_state.more s"
proof -
  have sub: "set [0..<NOFILE] \<subseteq> {..<NOFILE}" by (simp only: set_upt) auto
  have n: "\<forall>fd\<in>set [0..<NOFILE]. pr_ofile (g_procs s np) fd = None" by (simp only: none) simp
  note d = dup_files_effect [OF assms(1-4) sub distinct_upt n, folded s'_def]
  show "files_ref no_extra s'" using d by (elim conjE)
  have fds: "\<forall>fd\<in>set [0..<NOFILE]. pr_ofile (g_procs s' np) fd = pr_ofile (g_procs s p) fd"
    using d by (elim conjE)
  show "fd < NOFILE \<Longrightarrow> pr_ofile (g_procs s' np) fd = pr_ofile (g_procs s p) fd"
    using bspec [OF fds, of fd] by (simp only: set_upt atLeastLessThan_iff le0 simp_thms)
  have oth: "\<forall>q. q \<noteq> np \<longrightarrow> g_procs s' q = g_procs s q" using d by (elim conjE)
  then show "q \<noteq> np \<Longrightarrow> g_procs s' q = g_procs s q" by simp
  have rec: "(g_procs s' np)\<lparr>pr_ofile := pr_ofile (g_procs s np)\<rparr> = g_procs s np" using d by (elim conjE)
  show "pr_pid (g_procs s' np) = pr_pid (g_procs s np)" using arg_cong [OF rec, of pr_pid] by simp
  show "pr_sz (g_procs s' np) = pr_sz (g_procs s np)" using arg_cong [OF rec, of pr_sz] by simp
  show "pr_parent (g_procs s' np) = pr_parent (g_procs s np)" using arg_cong [OF rec, of pr_parent] by simp
  show "g_current s' = g_current s" using d by (elim conjE)
  show "sched_i s' = sched_i s" using d by (elim conjE)
  show "g_next_pid s' = g_next_pid s" using d by (elim conjE)
  show "proc_state.more s' = proc_state.more s" using d by (elim conjE)
qed

text \<open>What \<^verbatim>\<open>proc_fork\<close> does to the tables: refuses, or adds one runnable child.\<close>

lemma proc_fork_effect:
  assumes inv: "proc_inv wp s" and cur: "g_current s = Some p" and f: "proc_fork tf s = Some (r, s')"
    and grows: "wp \<longrightarrow> g_next_pid s \<le> g_next_pid s'"
  shows "proc_inv wp s' \<and> proc_state.more s' = proc_state.more s \<and>
    g_current s' = g_current s \<and> sched_i s' = sched_i s \<and>
    (r = - ENOMEM \<or>
     (\<exists>i. i < NPROC \<and> i \<noteq> p \<and> pr_state (g_procs s i) = PROC_UNUSED \<and> r = g_next_pid s \<and>
        pr_state (g_procs s' i) = PROC_RUNNABLE \<and> pr_pid (g_procs s' i) = r \<and>
        pr_parent (g_procs s' i) = Some p \<and> pr_cwd (g_procs s' i) = pr_cwd (g_procs s p) \<and>
        pr_sz (g_procs s' i) = pr_sz (g_procs s p) \<and>
        (\<forall>fd<NOFILE. pr_ofile (g_procs s' i) fd = pr_ofile (g_procs s p) fd) \<and>
        (\<forall>q. q \<noteq> i \<longrightarrow> g_procs s' q = g_procs s q))) \<and>
    (\<forall>q. pr_state (g_procs s q) \<noteq> PROC_UNUSED \<longrightarrow> g_procs s' q = g_procs s q)"
proof (cases "proc_alloc s")
  case (Pair x s1)
  have fr: "files_ref no_extra s" using inv by (simp add: proc_inv_def)
  note live = current_live [OF inv cur]
  from Pair show ?thesis
  proof (cases rule: proc_alloc_effect)
    case full
    then have "r = - ENOMEM \<and> s' = s" using f cur Pair by (simp add: proc_fork_def proc_current_def)
    then show ?thesis using inv by simp
  next
    case (slot i)
    have ne: "i \<noteq> p" using slot(2) live(2) by auto
    have old: "g_procs s1 p = g_procs s p" using slot(6) [of p] ne by simp
    have none: "\<forall>fd<NOFILE. pr_ofile (g_procs s i) fd = None"
      using inv slot(1,2) by (auto simp: proc_inv_def quiet_def live_def)
    have keep: "g_procs s1 q = g_procs s q" if "pr_state (g_procs s q) \<noteq> PROC_UNUSED" for q
      using slot(2) slot(6) [of q] that by (cases "q = i") auto
    have fr1: "files_ref no_extra s1"
    proof (rule files_ref_same_fd [OF fr])
      fix q fd assume "q < NPROC" "fd < NOFILE"
      then show "pr_ofile (g_procs s1 q) fd = pr_ofile (g_procs s q) fd"
        by (cases "q = i") (use none slot(4,6) in auto)
    qed (simp_all add: slot(8,9))
    show ?thesis
    proof (cases "x = None")
      case True
      then have s': "r = - ENOMEM" "s' = s1" using f cur Pair by (auto simp: proc_fork_def proc_current_def)
      have "proc_inv wp s1"
        by (rule proc_inv_new_slot [OF inv slot(1,2) _ _ _ _ slot(10,11,7) _ fr1])
          (use slot(3,4,6) True grows s' in auto)
      then show ?thesis using s' slot(2,10-12) keep by auto
    next
      case False
      then have x: "x = Some i" using slot(3) by auto
      obtain r0 m where fc: "fork_copy (pr_pagetable (g_procs s1 p)) (pr_pagetable (g_procs s1 i))
          (pr_sz (g_procs s1 p)) (phys s1) = Some (r0, m)"
        using f cur Pair x by (auto simp: proc_fork_def proc_current_def split: bind_splits)
      show ?thesis
      proof (cases "r0 = 0")
        case False
        define m1 where "m1 = kfree (uvm_free (pr_pagetable (g_procs s1 i)) m) (pr_tf (g_procs s1 i))"
        have s': "r = - ENOMEM" "s' = upd_proc i (\<lambda>x. x\<lparr>pr_state := PROC_UNUSED\<rparr>) (set_phys m1 s1)"
          using f cur Pair x fc False by (auto simp: proc_fork_def proc_current_def Let_def m1_def)
        have f': "files_ref no_extra s'" by (rule files_ref_same [OF fr1]) (auto simp: s')
        have "proc_inv wp s'"
          by (rule proc_inv_new_slot [OF inv slot(1,2) _ _ _ _ _ _ _ _ f'])
            (use slot grows in \<open>auto simp: s'\<close>)
        then show ?thesis using s' slot(2,10-12) keep by auto
      next
        case True
        define ntf where "ntf = pr_tf (g_procs s1 i)"
        define m1 where "m1 = m\<lparr>ram := tf_set (memcpy (ram m) ntf (if tf \<noteq> 0 then tf else pr_tf (g_procs s1 p)) tf_size) ntf TF_a0 0\<rparr>"
        define s2 where "s2 = upd_proc i (\<lambda>x. x\<lparr>pr_sz := pr_sz (g_procs s1 p), pr_parent := Some p\<rparr>) (set_phys m1 s1)"
        define s3 where "s3 = dup_files p i [0..<NOFILE] s2"
        have s': "s' = upd_proc i (\<lambda>x. x\<lparr>pr_cwd := pr_cwd (g_procs s3 p), pr_state := PROC_RUNNABLE\<rparr>) s3"
          "r = pr_pid (g_procs s' i)"
          using f cur Pair x fc True
          unfolding proc_fork_def proc_current_def s3_def s2_def m1_def ntf_def by (auto simp: Let_def)
        have f2: "files_ref no_extra s2" by (rule files_ref_same [OF fr1]) (auto simp: s2_def)
        have n2: "pr_ofile (g_procs s2 i) = (\<lambda>_. None)" by (simp add: s2_def slot(4))
        note d = dup_files_facts [OF f2 live(1) slot(1) ne [symmetric] n2, folded s3_def]
        note f3 = d(1)
        have oth: "g_procs s3 q = g_procs s1 q" if "q \<noteq> i" for q
          using d(3) [OF that] that by (simp add: s2_def)
        have i3: "pr_pid (g_procs s3 i) = g_next_pid s" "pr_sz (g_procs s3 i) = pr_sz (g_procs s p)"
          "pr_parent (g_procs s3 i) = Some p"
          using d(4-6) by (simp_all add: s2_def slot(5) old)
        have g3: "g_current s3 = g_current s" "sched_i s3 = sched_i s" "g_next_pid s3 = int_inc (g_next_pid s)"
          "proc_state.more s3 = proc_state.more s"
          by (simp_all only: d(7-10) s2_def upd_proc_simps set_phys_simps slot(7,10-12))
        have fds: "pr_ofile (g_procs s3 i) fd = pr_ofile (g_procs s p) fd" if "fd < NOFILE" for fd
          using d(2) [OF that] ne old by (simp add: s2_def)
        have f': "files_ref no_extra s'" by (rule files_ref_same [OF f3]) (simp_all add: s')
        have pi: "g_procs s' i = (g_procs s3 i)\<lparr>pr_cwd := pr_cwd (g_procs s3 p), pr_state := PROC_RUNNABLE\<rparr>"
          and po: "g_procs s' q = g_procs s1 q" if "q \<noteq> i" for q
          using oth [OF that] that by (simp_all add: s'(1))
        have gs: "g_current s' = g_current s" "sched_i s' = sched_i s" "g_next_pid s' = int_inc (g_next_pid s)"
          "proc_state.more s' = proc_state.more s" by (simp_all add: s'(1) g3)
        have "proc_inv wp s'"
        proof (rule proc_inv_new_slot [OF inv slot(1,2) _ _ _ _ gs(1-3) grows f'])
          show "pr_state (g_procs s' i) = PROC_UNUSED \<and> (\<forall>fd<NOFILE. pr_ofile (g_procs s' i) fd = None) \<or>
              pr_state (g_procs s' i) = PROC_RUNNABLE \<and> pr_pid (g_procs s' i) = g_next_pid s"
            using i3(1) by (simp add: s'(1))
        qed (simp_all add: po slot(6))
        moreover have "pr_state (g_procs s' i) = PROC_RUNNABLE \<and> pr_pid (g_procs s' i) = r \<and> r = g_next_pid s \<and>
            pr_parent (g_procs s' i) = Some p \<and> pr_cwd (g_procs s' i) = pr_cwd (g_procs s p) \<and>
            pr_sz (g_procs s' i) = pr_sz (g_procs s p)"
          using i3 s'(2) oth [OF ne [symmetric]] old by (simp add: s'(1))
        moreover have "\<forall>fd<NOFILE. pr_ofile (g_procs s' i) fd = pr_ofile (g_procs s p) fd"
          using fds by (simp add: s'(1))
        moreover have "\<forall>q. q \<noteq> i \<longrightarrow> g_procs s' q = g_procs s q" using po slot(6) by simp
        moreover have "\<forall>q. pr_state (g_procs s q) \<noteq> PROC_UNUSED \<longrightarrow> g_procs s' q = g_procs s q"
          using calculation(4) slot(2) by metis
        ultimately show ?thesis using slot(1,2) ne gs(1,2,4) by blast
      qed
    qed
  qed
qed

lemma proc_fork_next_pid:
  assumes inv: "proc_inv wp s" and cur: "g_current s = Some p" and f: "proc_fork tf s = Some (r, s')"
  shows "g_next_pid s' = g_next_pid s \<or> g_next_pid s' = int_inc (g_next_pid s)"
proof -
  have d: "g_next_pid (dup_files a b is u) = g_next_pid u" for a b "is" and u :: "'a proc_state_scheme"
    by (induction a b "is" u rule: dup_files.induct) (auto simp: file_dup_def split: prod.splits option.splits)
  show ?thesis
  proof (cases "proc_alloc s")
    case (Pair x s1)
    have "g_next_pid s1 = g_next_pid s \<or> g_next_pid s1 = int_inc (g_next_pid s)"
      using Pair by (auto simp: proc_alloc_def Let_def split: option.splits if_splits prod.splits)
    then show ?thesis using f Pair
      by (auto simp: proc_fork_def proc_current_def Let_def d split: option.splits if_splits prod.splits bind_splits)
  qed
qed

end
