(* ===== verification/Kernel_Run.thy ===== *)
theory Kernel_Run
  imports Kernel_Props
begin

text \<open>
  Every step of the machine keeps the kernel invariant: one rule per step of
  \<open>kernel_step\<close>, over the lemmas of the calls; then the start of the kernel and what every
  reachable state satisfies.
\<close>

lemma scheduler_turn_inv:
  assumes inv: "proc_inv wp s" and idle: "g_current s = None"
  shows "proc_inv wp (scheduler_turn s) \<and> proc_state.more (scheduler_turn s) = proc_state.more s \<and>
    (\<forall>q. live (g_procs (scheduler_turn s) q) = live (g_procs s q))"
proof -
  let ?i = "sched_i s"
  have so: "sched_ok s" and qu: "quiet s" and pi: "wp \<longrightarrow> pids_ok s" and fr: "files_ref no_extra s"
    using inv by (auto simp: proc_inv_def)
  have i: "?i < NPROC" using so by (simp add: sched_ok_def)
  show ?thesis
  proof (cases "pr_state (g_procs s ?i) = PROC_RUNNABLE")
    case False
    then have t: "scheduler_turn s = s\<lparr>sched_i := (?i + 1) mod NPROC\<rparr>" by (simp add: scheduler_turn_def Let_def)
    have "sched_ok (scheduler_turn s)" using so idle by (simp add: t sched_ok_def)
    moreover have "quiet (scheduler_turn s)" using qu by (simp add: t quiet_def)
    moreover have "wp \<longrightarrow> pids_ok (scheduler_turn s)" using pi by (simp add: t pids_ok_def)
    moreover have "files_ref no_extra (scheduler_turn s)" by (rule files_ref_same [OF fr]) (simp_all add: t)
    ultimately show ?thesis by (simp add: proc_inv_def t)
  next
    case True
    then have t: "scheduler_turn s = (upd_proc ?i (\<lambda>p. p\<lparr>pr_state := PROC_RUNNING\<rparr>) s)
             \<lparr>g_current := Some ?i, csr_satp := satp_of (pr_pagetable (g_procs s ?i))\<rparr>"
      by (simp add: scheduler_turn_def Let_def)
    have "sched_ok (scheduler_turn s)" using so idle i True by (auto simp: t sched_ok_def)
    moreover have "quiet (scheduler_turn s)" using qu True by (auto simp: t quiet_def live_def)
    moreover have "wp \<longrightarrow> pids_ok (scheduler_turn s)" using pi True by (auto simp: t pids_ok_def)
    moreover have "files_ref no_extra (scheduler_turn s)" by (rule files_ref_same [OF fr]) (auto simp: t)
    ultimately show ?thesis using True by (auto simp: proc_inv_def t live_def)
  qed
qed

text \<open>From the process part to the whole: the saved waits stay those of live processes.\<close>

lemma kernel_invI:
  assumes "proc_inv wp s'" and "kernel_inv_if wp s" and "pending_wait s' = pending_wait s"
    and "\<And>q. q < NPROC \<Longrightarrow> pending_wait s q \<noteq> None \<Longrightarrow> live (g_procs s q) \<Longrightarrow> live (g_procs s' q)"
  shows "kernel_inv_if wp s'"
  using assms by (simp add: kernel_inv_if_def)

lemma pending_more:
  "proc_state.more s' = proc_state.more (s :: 'a sys_state_scheme) \<Longrightarrow>
   pending_wait s' = pending_wait s \<and> trap_tf s' = trap_tf s"
  by (cases s, cases s') simp

lemma keeps_inv: "keeps s s' \<Longrightarrow> kernel_inv_if wp s \<Longrightarrow> kernel_inv_if wp (s' :: 'a sys_state_scheme)"
  by (rule kernel_inv_kkeeps [OF keeps_kkeeps])

text \<open>A call that ends in a good process part and leaves the states of the processes alone.\<close>

lemma proc_call_inv:
  assumes "kernel_inv_if wp s" and "proc_inv wp s' \<and> proc_state.more s' = proc_state.more (s :: 'a sys_state_scheme)"
    and "\<And>q. live (g_procs s q) \<Longrightarrow> live (g_procs s' q)"
  shows "kernel_inv_if wp s'"
  by (rule kernel_invI [of _ s' s]) (use assms pending_more in auto)

lemma sys_close_states: "sys_close fd s = (r, s') \<Longrightarrow> pr_state (g_procs s' q) = pr_state (g_procs s q)"
  by (auto simp: sys_close_def split: option.splits if_splits)

lemma fdalloc_states: "fdalloc p f s = (r, s') \<Longrightarrow> pr_state (g_procs s' q) = pr_state (g_procs s q)"
  by (auto simp: fdalloc_def split: option.splits)

lemma sys_dup_states: "sys_dup fd s = (r, s') \<Longrightarrow> pr_state (g_procs s' q) = pr_state (g_procs s q)"
  by (auto simp: sys_dup_def file_dup_def dest: fdalloc_states split: option.splits if_splits prod.splits)

lemma sys_dup3_states: "sys_dup3 a b s = (r, s') \<Longrightarrow> pr_state (g_procs s' q) = pr_state (g_procs s q)"
  by (auto simp: sys_dup3_def file_dup_def Let_def split: option.splits if_splits prod.splits)

lemma open_vnode_states: "open_vnode p v fl s = (r, s') \<Longrightarrow> pr_state (g_procs s' q) = pr_state (g_procs s q)"
  by (auto simp: open_vnode_def file_setup_def Let_def file_alloc_simps(1)
      dest!: fdalloc_states [where q = q] split: option.splits if_splits prod.splits)

lemma sys_openat_states:
  assumes "sys_openat d p fl s = Some (r, s')"
  shows "pr_state (g_procs s' q) = pr_state (g_procs s q)"
  using assms
  by (auto simp: sys_openat_def Let_def
      dest!: vfs_create_at_more vfs_lookup_at_more vfs_truncate_more keeps_vfs open_vnode_states [where q = q]
      split: option.splits if_splits prod.splits bind_splits)
    (auto simp: keeps_def dest: pcoreD(4) [where p = q])

lemma reap_states: "q \<noteq> i \<Longrightarrow> g_procs (reap i s) q = g_procs s q"
  by (simp add: reap_def)

lemma reap_live:
  "live (g_procs s q) \<Longrightarrow> pr_state (g_procs s i) = PROC_ZOMBIE \<Longrightarrow> live (g_procs (reap i s) q)"
  using reap_states [of q i s] by (cases "q = i") (auto simp: live_def)

lemma proc_yield_live:
  "live (g_procs (proc_yield s) q) = live (g_procs s q)"
  by (auto simp: proc_yield_def proc_current_def sched_return_def live_def split: option.split)

lemma wait_return_inv:
  assumes inv: "kernel_inv_if wp s" and cur: "g_current s = Some p"
    and w: "proc_wait pid s = Wait_return ret st s1"
  shows "kernel_inv_if wp s1 \<and> g_current s1 = Some p"
proof -
  have pi: "proc_inv wp s" using inv by (simp add: kernel_inv_if_def)
  from cur show ?thesis
  proof (cases rule: proc_wait_cases [of s p pid])
    case (reaped i)
    have z: "pr_state (g_procs s i) = PROC_ZOMBIE" using reaped(2) by (simp add: wait_match_def)
    have s1: "s1 = reap i s" using reaped(4) w by simp
    have "kernel_inv_if wp s1"
      by (rule proc_call_inv [OF inv, of s1])
        (use reap_inv [OF pi z] z s1 reap_live [of s _ i] in auto)
    then show ?thesis using cur s1 by (simp add: reap_def)
  next
    case childless
    then show ?thesis using inv cur w by simp
  next
    case (waits i)
    then show ?thesis using w by simp
  qed
qed

lemma wait_yield_inv:
  assumes inv: "kernel_inv_if wp s" and cur: "g_current s = Some p"
    and w: "proc_wait pid s = Wait_yield s1"
  shows "kernel_inv_if wp s1 \<and> live (g_procs s1 p)"
proof -
  have pi: "proc_inv wp s" using inv by (simp add: kernel_inv_if_def)
  have s1: "s1 = proc_yield s" using cur w by (cases rule: proc_wait_cases [of s p pid]) auto
  have "kernel_inv_if wp s1" unfolding s1
    by (rule proc_call_inv [OF inv]) (use proc_yield_inv [OF pi cur] proc_yield_live [of s] proc_yield_simps(7) [OF cur] in auto)
  then show ?thesis using current_live(3) [OF pi cur] proc_yield_live [of s p] by (simp add: s1)
qed

section \<open>System calls\<close>

text \<open>Each call that returns: the invariant after it.\<close>

lemma sys_close_kinv: "sys_close fd s = (r, s') \<Longrightarrow> kernel_inv_if wp s \<Longrightarrow> kernel_inv_if wp s'"
  by (rule proc_call_inv [of _ s s'])
    (auto simp: kernel_inv_if_def live_def sys_close_inv sys_close_states dest: sys_close_inv)

lemma sys_dup_kinv: "sys_dup fd s = (r, s') \<Longrightarrow> kernel_inv_if wp s \<Longrightarrow> kernel_inv_if wp s'"
  by (rule proc_call_inv [of _ s s'])
    (auto simp: kernel_inv_if_def live_def sys_dup_states dest: sys_dup_inv)

lemma sys_dup3_kinv: "sys_dup3 a b s = (r, s') \<Longrightarrow> kernel_inv_if wp s \<Longrightarrow> kernel_inv_if wp s'"
  by (rule proc_call_inv [of _ s s'])
    (auto simp: kernel_inv_if_def live_def sys_dup3_states dest: sys_dup3_inv)

lemma sys_openat_kinv: "sys_openat d p fl s = Some (r, s') \<Longrightarrow> kernel_inv_if wp s \<Longrightarrow> kernel_inv_if wp s'"
  by (rule proc_call_inv [of _ s s'])
    (auto simp: kernel_inv_if_def live_def sys_openat_states dest: sys_openat_inv)

lemma proc_fork_kinv:
  assumes f: "proc_fork tf s = Some (r, s')" and inv: "kernel_inv_if wp s"
    and grows: "wp \<longrightarrow> g_next_pid s \<le> g_next_pid s'"
  shows "kernel_inv_if wp s'"
proof (cases "g_current s")
  case None
  then show ?thesis using f inv by (simp add: proc_fork_def proc_current_def)
next
  case (Some p)
  have pi: "proc_inv wp s" using inv by (simp add: kernel_inv_if_def)
  note e = proc_fork_effect [OF pi Some f grows]
  have st: "g_procs s' q = g_procs s q" if "live (g_procs s q)" for q
    using e that by (simp add: live_def)
  show ?thesis
    by (rule proc_call_inv [OF inv, of s']) (use e st in auto)
qed

lemma sys_call_kinv:
  assumes inv: "kernel_inv_if wp s" and d: "syscall_dispatch tf s = Some (Sys_return v s')" and cur: "g_current s = Some p"
    and grows: "wp \<longrightarrow> g_next_pid s \<le> g_next_pid s'"
  shows "kernel_inv_if wp s'"
proof -
  note keep = keeps_inv [OF _ inv] and kkeep = kernel_inv_kkeeps [OF _ inv]
  have w: "kernel_inv_if wp s'" if "sys_wait4 a b s = Sys_return v s'" for a b
  proof -
    from that obtain ret st s1 where w1: "proc_wait (c_int a) s = Wait_return ret st s1"
      and w2: "wait4_finish b ret st s1 = (v, s')"
      by (auto simp: sys_wait4_def split: wait_result.splits prod.splits)
    show ?thesis using keeps_inv [OF wait4_finish_keeps [OF w2]] wait_return_inv [OF inv cur w1] by blast
  qed
  have x: "kernel_inv_if wp s'" if "sys_exit a s = Sys_return v s'" for a
    using that cur by (simp add: sys_exit_def proc_current_def)
  show ?thesis
    using d inv unfolding syscall_dispatch_def Let_def
    by (auto simp: sys_clone_def sys_reboot_def split: if_splits
        dest: kkeep [OF sys_write_kkeeps] kkeep [OF sys_read_kkeeps] sys_openat_kinv proc_fork_kinv [OF _ inv grows]
          kkeep [OF sys_getdents64_kkeeps] keep [OF sys_mkdirat_keeps] keep [OF sys_unlinkat_keeps]
          keep [OF sys_ftruncate_keeps] keep [OF sys_fstatat_keeps] keep [OF sys_chdir_keeps]
          kkeep [OF sys_poll_kkeeps] keep [OF sys_execve_keeps] keep [OF sys_brk_keeps]
        intro: w x sys_close_kinv [OF prod.collapse [symmetric] inv] sys_dup_kinv [OF prod.collapse [symmetric] inv]
          sys_dup3_kinv [OF prod.collapse [symmetric] inv] keep [OF sys_fstat_keeps [OF prod.collapse [symmetric]]]
          keep [OF sys_getcwd_keeps [OF prod.collapse [symmetric]]] kkeep [OF sys_ioctl_kkeeps [OF prod.collapse [symmetric]]]
          keep [OF sys_lseek_keeps [OF prod.collapse [symmetric]]])
qed

text \<open>A call that switches is \<^verbatim>\<open>exit\<close> or a \<^verbatim>\<open>wait4\<close> that has to wait.\<close>

lemma kernel_inv_trap_tf [simp]: "kernel_inv_if wp (s\<lparr>trap_tf := x\<rparr>) = kernel_inv_if wp s"
proof -
  have "kkeeps s (s\<lparr>trap_tf := x\<rparr>)" "kkeeps (s\<lparr>trap_tf := x\<rparr>) s" by (simp_all add: kkeeps_def pcore_def)
  then show ?thesis using kernel_inv_kkeeps by blast
qed

lemma kernel_inv_pend:
  assumes "kernel_inv_if wp s" and "live (g_procs s p)"
  shows "kernel_inv_if wp (s\<lparr>pending_wait := (pending_wait s)(p \<mapsto> w)\<rparr>)"
proof -
  have c: "pcore (s\<lparr>pending_wait := (pending_wait s)(p \<mapsto> w)\<rparr>) = pcore s" by (simp add: pcore_def)
  show ?thesis using assms proc_inv_pcore [OF c] by (auto simp: kernel_inv_if_def)
qed

lemma kernel_inv_unpend: "kernel_inv_if wp s \<Longrightarrow> kernel_inv_if wp (s\<lparr>pending_wait := (pending_wait s)(p := None)\<rparr>)"
proof -
  assume i: "kernel_inv_if wp s"
  have c: "pcore (s\<lparr>pending_wait := (pending_wait s)(p := None)\<rparr>) = pcore s" by (simp add: pcore_def)
  show ?thesis using i proc_inv_pcore [OF c] by (auto simp: kernel_inv_if_def)
qed

lemma proc_exit_kinv:
  assumes inv: "kernel_inv_if wp s" and cur: "g_current s = Some p" and "pending_wait s p = None"
  shows "kernel_inv_if wp (proc_exit st s)"
proof -
  have pi: "proc_inv wp s" using inv by (simp add: kernel_inv_if_def)
  note e = proc_exit_inv [OF pi cur, of st]
  have "pending_wait (proc_exit st s) = pending_wait s" using e pending_more by blast
  moreover have "live (g_procs (proc_exit st s) q)" if "pending_wait s q \<noteq> None" "live (g_procs s q)" for q
    using e that assms(3) by (cases "q = p") (auto simp: live_def)
  ultimately show ?thesis using e inv by (intro kernel_invI [of _ "proc_exit st s" s]) auto
qed

lemma sys_switch_kinv:
  assumes inv: "kernel_inv_if wp s" and d: "syscall_dispatch tf s = Some (Sys_switch s')"
    and cur: "g_current s = Some p" and pw: "pending_wait s p = None"
  shows "kernel_inv_if wp s'"
proof -
  have w: "kernel_inv_if wp s'" if sw: "sys_wait4 a b s = Sys_switch s'" for a b
  proof -
    from sw obtain s1 where w1: "proc_wait (c_int a) s = Wait_yield s1"
      and s': "s' = s1\<lparr>pending_wait := (pending_wait s1)(p \<mapsto> (a, b))\<rparr>"
      using cur by (auto simp: sys_wait4_def proc_current_def split: wait_result.splits prod.splits)
    show ?thesis unfolding s' using wait_yield_inv [OF inv cur w1] kernel_inv_pend by blast
  qed
  have x: "kernel_inv_if wp s'" if "sys_exit a s = Sys_switch s'" for a
    using that cur proc_exit_kinv [OF inv cur pw] by (auto simp: sys_exit_def proc_current_def)
  show ?thesis
    using d unfolding syscall_dispatch_def Let_def
    by (auto simp: sys_reboot_def split: if_splits intro: w x)
qed

section \<open>Traps\<close>

lemma set_tf_keeps [simp]: "keeps s (set_tf tf i v s') \<longleftrightarrow> keeps s s'"
  by (simp add: set_tf_def)

lemma set_tf_kinv [simp]: "kernel_inv_if wp (set_tf tf i v s) = kernel_inv_if wp s"
proof -
  have "keeps s (set_tf tf i v s)" by simp
  moreover have "keeps (set_tf tf i v s) s" by (simp add: keeps_def set_tf_def)
  ultimately show ?thesis using keeps_inv by blast
qed

lemma set_tf_more [simp]: "g_current (set_tf tf i v s) = g_current s" "g_next_pid (set_tf tf i v s) = g_next_pid s"
  "pending_wait (set_tf tf i v s) = pending_wait (s :: 'a sys_state_scheme)"
  by (simp_all add: set_tf_def set_phys_def)

lemma timer_kinv [simp]: "kernel_inv_if wp (s\<lparr>timer := t\<rparr>) = kernel_inv_if wp s"
proof -
  have "kkeeps s (s\<lparr>timer := t\<rparr>)" "kkeeps (s\<lparr>timer := t\<rparr>) s" by (simp_all add: kkeeps_def pcore_def)
  then show ?thesis using kernel_inv_kkeeps by blast
qed

lemma yield_kinv:
  assumes inv: "kernel_inv_if wp s" and cur: "g_current s = Some p"
  shows "kernel_inv_if wp (proc_yield s)"
proof -
  have pi: "proc_inv wp s" using inv by (simp add: kernel_inv_if_def)
  show ?thesis
    by (rule proc_call_inv [OF inv])
      (use proc_yield_inv [OF pi cur] proc_yield_simps(7) [OF cur] proc_yield_live [of s] in auto)
qed

lemma trap_kinv:
  assumes inv: "kernel_inv_if wp s" and cur: "g_current s = Some p" and pw: "pending_wait s p = None"
    and h: "kernel_trap_handler tf scause s = Some r"
    and grows: "wp \<longrightarrow> g_next_pid s \<le> g_next_pid s'"
  shows "(r = Trap_return s' \<longrightarrow> kernel_inv_if wp s') \<and> (r = Trap_switch s' \<longrightarrow> kernel_inv_if wp s')"
proof -
  let ?s1 = "set_tf tf TF_sepc (tf_get (ram (phys s)) tf TF_sepc + 4) s"
  have i1: "kernel_inv_if wp ?s1" "g_current ?s1 = Some p" "pending_wait ?s1 p = None" using inv cur pw by simp_all
  have t: "(r = Trap_return s' \<longrightarrow> kernel_inv_if wp s') \<and> (r = Trap_switch s' \<longrightarrow> kernel_inv_if wp s')"
    if ts: "trap_syscall tf s = Some r"
  proof -
    from ts obtain q where q: "syscall_dispatch tf ?s1 = Some q"
      and r: "r = (case q of Sys_return v s2 \<Rightarrow> Trap_return (set_tf tf TF_a0 (of_int v) s2)
        | Sys_switch s2 \<Rightarrow> Trap_switch s2 | Sys_halt \<Rightarrow> Trap_halt)"
      by (auto simp: trap_syscall_def Let_def)
    show ?thesis
    proof (cases q)
      case (Sys_return v s2)
      then show ?thesis using r sys_call_kinv [OF i1(1) _ i1(2), of tf v s2] q grows by auto
    next
      case (Sys_switch s2)
      then show ?thesis using r sys_switch_kinv [OF i1(1) _ i1(2,3), of tf s2] q by auto
    next
      case Sys_halt
      then show ?thesis using r by simp
    qed
  qed
  have e: "kernel_inv_if wp (proc_exit (- 1) s)" by (rule proc_exit_kinv [OF inv cur pw])
  have y: "kernel_inv_if wp (proc_yield (s\<lparr>timer := timer_handle (timer s)\<rparr>))"
    by (rule yield_kinv [of _ _ p]) (use inv cur in simp_all)
  show ?thesis
    using h inv t e y by (auto simp: kernel_trap_handler_def Let_def split: if_splits)
qed

lemma wait_resume_kinv:
  assumes inv: "kernel_inv_if wp s" and cur: "g_current s = Some p"
  shows "kernel_inv_if wp (wait_resume p pid sp s)"
proof (cases "proc_wait (c_int pid) s")
  case (Wait_return ret st s1)
  obtain r s2 where f: "wait4_finish sp ret st s1 = (r, s2)" by fastforce
  have "kernel_inv_if wp s2"
    using keeps_inv [OF wait4_finish_keeps [OF f]] wait_return_inv [OF inv cur Wait_return] by blast
  moreover have "wait_resume p pid sp s = (set_tf (trap_tf s2 p) TF_a0 (of_int r) s2)
      \<lparr>pending_wait := (pending_wait (set_tf (trap_tf s2 p) TF_a0 (of_int r) s2))(p := None)\<rparr>"
    unfolding wait_resume_def Wait_return wait_result.case f prod.case set_tf_more ..
  ultimately show ?thesis using kernel_inv_unpend [of _ "set_tf (trap_tf s2 p) TF_a0 (of_int r) s2" p] by simp
next
  case (Wait_yield s1)
  then show ?thesis using wait_yield_inv [OF inv cur Wait_yield] by (simp add: wait_resume_def)
qed

section \<open>Reachable states\<close>

lemma kernel_step_inv:
  "kernel_step s s' \<Longrightarrow> kernel_inv_if wp s \<Longrightarrow> wp \<longrightarrow> g_next_pid s \<le> g_next_pid s' \<Longrightarrow> kernel_inv_if wp s'"
proof (induction rule: kernel_step.induct)
  case (turn s)
  have pi: "proc_inv wp s" using turn(2) by (simp add: kernel_inv_if_def)
  show ?case
    by (rule proc_call_inv [OF turn(2)]) (use scheduler_turn_inv [OF pi turn(1)] in auto)
next
  case (trap_return s p tf scause s')
  show ?case using trap_kinv [OF trap_return(4,1-3,5)] by blast
next
  case (trap_switch s p tf scause s')
  have "kernel_inv_if wp s'" using trap_kinv [OF trap_switch(4,1-3), of s'] trap_switch(5) by simp
  then show ?case by (simp only: kernel_inv_trap_tf)
next
  case (resume s p pid sp)
  show ?case by (rule wait_resume_kinv [OF resume(3,1)])
next
  case (program s p m)
  have "keeps s (s\<lparr>phys := m\<rparr>)" by simp
  then show ?case using keeps_inv program(2) by blast
next
  case outside
  show ?case by (rule kernel_inv_kkeeps [OF _ outside(1)]) (simp add: kkeeps_def pcore_def)
qed

text \<open>
  Whatever the counter of pids does, every run keeps the rest of the invariant; a run in which the
  counter does not overflow keeps the pids too.
\<close>

lemma kernel_steps_core: "kernel_step\<^sup>*\<^sup>* s s' \<Longrightarrow> kernel_inv_if wp s \<Longrightarrow> kernel_inv_if False s'"
  by (induction rule: rtranclp_induct) (auto intro: kernel_step_inv kernel_inv_weaken)

definition pid_step :: "'a sys_state_scheme \<Rightarrow> 'a sys_state_scheme \<Rightarrow> bool" where
  "pid_step s s' \<longleftrightarrow> kernel_step s s' \<and> g_next_pid s \<le> g_next_pid s'"

lemma pid_steps_inv: "pid_step\<^sup>*\<^sup>* s s' \<Longrightarrow> kernel_inv s \<Longrightarrow> kernel_inv s'"
  by (induction rule: rtranclp_induct) (auto simp: pid_step_def intro: kernel_step_inv)

end
