(* ===== verification/Boot.thy ===== *)
theory Boot
  imports Kernel_Run
begin

text \<open>
  \<^verbatim>\<open>kernel/boot.c\<close> and \<^verbatim>\<open>kernel/main.c\<close>: the first page table and the start of the kernel up
  to the scheduler.  Probing for the disk is an argument (\<open>blk_ok\<close>), as are the clock and the
  end of the kernel image; log output is not modelled.
\<close>

section \<open>The boot page table\<close>

abbreviation DRAM_BASE :: u64 where "DRAM_BASE \<equiv> 0x80000000"
abbreviation PAGE_OFFSET :: u64 where "PAGE_OFFSET \<equiv> 0xffffffc000000000"
abbreviation SZ_2M :: u64 where "SZ_2M \<equiv> 0x200000"
abbreviation BOOT_KMAP_SIZE :: u64 where "BOOT_KMAP_SIZE \<equiv> 0x4000000"

definition boot_flags :: u64 where
  "boot_flags = PTE_V OR PTE_R OR PTE_W OR PTE_X OR PTE_G OR PTE_A OR PTE_D"

text \<open>The loop over the kernel image in steps of 2 MB: \<open>n\<close> steps are left.\<close>

fun boot_map_kernel :: "u64 \<Rightarrow> nat \<Rightarrow> (u64 \<Rightarrow> u64) \<Rightarrow> u64 \<Rightarrow> u64" where
  "boot_map_kernel i 0 l1 = l1"
| "boot_map_kernel i (Suc n) l1 =
     boot_map_kernel (i + SZ_2M) n
       (l1(VPN1 (KERNEL_VIRT_BASE + i) := pte_make (KERNEL_PHYS_BASE + i) boot_flags))"

text \<open>Both tables; \<open>l1_pa\<close> is the address of the second.\<close>

definition boot_pagetable_init :: "u64 \<Rightarrow> (u64 \<Rightarrow> u64) \<times> (u64 \<Rightarrow> u64)" where
  "boot_pagetable_init l1_pa =
     (((\<lambda>_. 0)(VPN2 0 := pte_make 0 boot_flags,
               VPN2 DRAM_BASE := pte_make DRAM_BASE boot_flags,
               VPN2 PAGE_OFFSET := pte_make DRAM_BASE boot_flags,
               VPN2 KERNEL_VIRT_BASE := pte_make l1_pa PTE_V)),
      boot_map_kernel 0 (unat (BOOT_KMAP_SIZE div SZ_2M)) (\<lambda>_. 0))"

section \<open>Starting the kernel\<close>

record bootinfo =
  bi_magic :: u64
  bi_mem_base :: u64
  bi_mem_size :: u64
  bi_tick_hz :: u32
  bi_timebase_hz :: u64

abbreviation BOOTINFO_MAGIC :: u64 where "BOOTINFO_MAGIC \<equiv> 0x424f4f54494e464f"

definition str_ram :: cstr where "str_ram = [0x2F, 0x72, 0x61, 0x6D]"
definition str_bin_sh :: cstr where "str_bin_sh = [0x2F, 0x62, 0x69, 0x6E, 0x2F, 0x73, 0x68]"
definition str_sh :: cstr where "str_sh = [0x73, 0x68]"

text \<open>The root file system, with the RAM file system on \<^verbatim>\<open>/ram\<close> when that exists.\<close>

definition mount_filesystems :: "'a vfs_state_scheme \<Rightarrow> (nat option \<times> 'a vfs_state_scheme) option" where
  "mount_filesystems s =
     (case fat32_init s of
        (None, s1) \<Rightarrow> Some (None, s1)
      | (Some root, s1) \<Rightarrow>
          (let s2 = snd (vfs_set_cwd (Some root) (snd (vfs_set_root (Some root) s1))) in
           case ramfs_init s2 of
             (None, s3) \<Rightarrow> Some (Some root, s3)
           | (Some ram_root, s3) \<Rightarrow>
               do { (r, mp, s4) \<leftarrow> vfs_lookup str_ram s3;
                    Some (Some root, if r = 0 then snd (vfs_mount mp (Some ram_root) s4) else s4) }))"

text \<open>The loop that lists the root directory.\<close>

partial_function (option) list_root :: "'a vfs_state_scheme \<Rightarrow> nat option \<Rightarrow> u64 \<Rightarrow> cstr list \<Rightarrow> cstr list option" where
  "list_root s root idx acc =
     Option.bind (vfs_readdir s root idx)
       (\<lambda>r. if fst r \<noteq> 0 then Some acc else list_root s root (idx + 1) (acc @ [d_name (the (snd r))]))"

text \<open>The first process.  \<open>None\<close> in the pair: the kernel stays idle.\<close>

definition start_init :: "'a proc_state_scheme \<Rightarrow> 'a proc_state_scheme option option" where
  "start_init s =
     (case proc_alloc (proc_init s) of
        (None, s1) \<Rightarrow> Some None
      | (Some i, s1) \<Rightarrow>
          do { (ret, s2) \<leftarrow> proc_exec_on (Some i) str_bin_sh (Some [str_sh]) s1;
               Some (if ret = 0 then Some (upd_proc i (\<lambda>p. p\<lparr>pr_state := PROC_RUNNABLE\<rparr>) s2) else None) })"

definition kernel_main ::
    "bootinfo option \<Rightarrow> bool \<Rightarrow> u64 \<Rightarrow> u64 \<Rightarrow> 'a sys_state_scheme \<Rightarrow> 'a sys_state_scheme option option" where
  "kernel_main bi blk_ok now kernel_end s =
     do { m \<leftarrow> (case bi of
                  Some b \<Rightarrow> if bi_magic b = BOOTINFO_MAGIC
                            then kinit kernel_end (bi_mem_base b) (bi_mem_size b) (phys s) else Some (phys s)
                | None \<Rightarrow> Some (phys s));
          let s1 = (set_phys m s)\<lparr>timer := timer_init (map_option (\<lambda>b. (bi_timebase_hz b, bi_tick_hz b)) bi) now (timer s)\<rparr>;
          (root, s2) \<leftarrow> (if blk_ok then mount_filesystems s1 else Some (None, s1));
          (if root = None then Some None
           else do { _ \<leftarrow> list_root s2 root 0 []; start_init s2 }) }"

section \<open>The boot page table maps the kernel\<close>

lemma boot_map_kernel_other:
  "(\<And>k. k < n \<Longrightarrow> VPN1 (KERNEL_VIRT_BASE + (i + of_nat k * SZ_2M)) \<noteq> x) \<Longrightarrow> boot_map_kernel i n l1 x = l1 x"
proof (induction n arbitrary: i l1)
  case 0
  then show ?case by simp
next
  case (Suc n)
  have "VPN1 (KERNEL_VIRT_BASE + i) \<noteq> x" using Suc.prems [of 0] by simp
  moreover have "VPN1 (KERNEL_VIRT_BASE + ((i + SZ_2M) + of_nat k * SZ_2M)) \<noteq> x" if "k < n" for k
    using Suc.prems [of "Suc k"] that by (simp add: algebra_simps)
  ultimately show ?case using Suc.IH [of "i + SZ_2M"] by simp
qed

section \<open>The start keeps to the file systems\<close>

lemma ramfs_init_more [frame]: "ramfs_init s = (r, s') \<Longrightarrow> ramfs_state.more s' = ramfs_state.more s"
  by (auto simp: ramfs_init_def dest!: ramfs_wrap_node_more ramfs_alloc_node_more split: prod.splits option.splits)

lemma fat32_init_more [frame]: "fat32_init s = (r, s') \<Longrightarrow> fat_state.more s' = fat_state.more s"
  by (auto simp: fat32_init_def Let_def dest!: fat32_alloc_node_more vfs_alloc_vnode_fat
      split: prod.splits option.splits if_splits)

lemma vfs_set_more [simp]:
  "vfs_state.more (snd (vfs_set_root r s)) = vfs_state.more s"
  "vfs_state.more (snd (vfs_set_cwd r s)) = vfs_state.more s"
  by (simp_all add: vfs_set_root_def vfs_set_cwd_def Let_def)

lemma upd_vnode_vfs [simp]: "vfs_state.more (upd_vnode i f s) = vfs_state.more s"
  by (simp add: upd_vnode_def)

lemma vfs_mount_more [simp]: "vfs_state.more (snd (vfs_mount m r s)) = vfs_state.more s"
  by (simp add: vfs_mount_def Let_def split: option.split)

lemma mount_filesystems_more [frame]:
  "mount_filesystems s = Some (r, s') \<Longrightarrow> vfs_state.more s' = vfs_state.more s"
  by (auto simp: mount_filesystems_def Let_def vfs_lookup_def
      dest!: fat32_init_more [THEN more_up_fat] ramfs_init_more [THEN more_up_ramfs] vfs_lookup_at_more
      split: prod.splits option.splits bind_splits)

text \<open>
  What the C runtime gives: no process, no open file, and no process waits.
\<close>

definition fresh_statics :: "'a sys_state_scheme \<Rightarrow> bool" where
  "fresh_statics s \<longleftrightarrow> (\<forall>i. g_procs s i = zero_proc) \<and> (\<forall>i. \<not> g_file_used s i) \<and> g_current s = None \<and>
     g_next_pid s = 1 \<and> sched_i s = 0 \<and> (\<forall>p. pending_wait s p = None)"

lemma fd_refs_none: "(\<And>p. p < NPROC \<Longrightarrow> pr_ofile (ps p) = (\<lambda>_. None)) \<Longrightarrow> fd_refs ps i = 0"
  unfolding fd_refs_def by (rule sum.neutral) auto

lemma start_init_inv:
  assumes f: "fresh_statics s" and st: "start_init s = Some (Some s')"
  shows "kernel_inv s'"
proof -
  let ?s0 = "proc_init s"
  have p0: "\<And>i. pr_state (g_procs ?s0 i) = PROC_UNUSED" "\<And>i. pr_ofile (g_procs ?s0 i) = (\<lambda>_. None)"
    using f by (simp_all add: proc_init_def fresh_statics_def zero_proc_def)
  have g0: "g_current ?s0 = None" "g_next_pid ?s0 = 1" "sched_i ?s0 = 0" "\<And>i. \<not> g_file_used ?s0 i"
    "pending_wait ?s0 = (\<lambda>_. None)"
    using f by (simp_all add: proc_init_def fresh_statics_def fun_eq_iff)
  have fr: "files_ref no_extra ?s0"
    by (rule files_refI) (use g0 p0 fd_refs_none [of "g_procs ?s0"] in simp_all)
  have inv0: "proc_inv True ?s0"
    using fr by (simp add: proc_inv_def sched_ok_def quiet_def pids_ok_def p0 g0)
  obtain i s1 where a: "proc_alloc ?s0 = (Some i, s1)" using st by (auto simp: start_init_def split: prod.splits option.splits)
  obtain s2 where x: "proc_exec_on (Some i) str_bin_sh (Some [str_sh]) s1 = Some (0, s2)"
    and s': "s' = upd_proc i (\<lambda>p. p\<lparr>pr_state := PROC_RUNNABLE\<rparr>) s2"
    using st a by (auto simp: start_init_def split: bind_splits if_splits)
  have k: "keeps s1 s2" by (rule proc_exec_on_keeps [OF x])
  note c = pcoreD [of s2 s1, OF conjunct1 [OF k [unfolded keeps_def]]]
  from a show ?thesis
  proof (cases rule: proc_alloc_effect)
    case full
    then show ?thesis by simp
  next
    case (slot j)
    have ji: "j = i" using slot(3) by simp
    have fr': "files_ref no_extra s'"
    proof (rule files_ref_same [OF fr])
      fix q show "pr_ofile (g_procs s' q) = pr_ofile (g_procs ?s0 q)"
        using slot(4) slot(6) [of q] p0 by (cases "q = i") (simp_all add: s' c ji)
    qed (use slot(8,9) c in \<open>simp_all add: s'\<close>)
    have "proc_inv True s'"
    proof (rule proc_inv_new_slot [OF inv0 slot(1,2) _ _ _ _ _ _ _ _ fr'])
      show "pr_state (g_procs s' j) = PROC_UNUSED \<and> (\<forall>fd<NOFILE. pr_ofile (g_procs s' j) fd = None) \<or>
        pr_state (g_procs s' j) = PROC_RUNNABLE \<and> pr_pid (g_procs s' j) = g_next_pid ?s0"
        using slot(5) c by (simp add: s' ji)
    qed (use slot(6,7,10,11) c g0(2) in \<open>simp_all add: s' ji int_inc_def\<close>)
    moreover have "pending_wait s' = (\<lambda>_. None)"
    proof -
      have "proc_state.more s' = proc_state.more ?s0" using k slot(12) by (simp add: s' keeps_def)
      then show ?thesis using pending_more [of s' ?s0] g0(5) by simp
    qed
    ultimately show ?thesis by (simp add: kernel_inv_if_def)
  qed
qed

lemma fresh_vfs:
  "vfs_state.more s' = vfs_state.more s \<Longrightarrow> fresh_statics s \<Longrightarrow> fresh_statics s'"
  by (cases s, cases s') (simp add: fresh_statics_def)

lemma kernel_main_inv:
  assumes "fresh_statics s" and "kernel_main bi blk_ok now kend s = Some (Some s')"
  shows "kernel_inv s'"
proof -
  obtain m root s2 where m: "(if blk_ok then mount_filesystems
        ((set_phys m s)\<lparr>timer := timer_init (map_option (\<lambda>b. (bi_timebase_hz b, bi_tick_hz b)) bi) now (timer s)\<rparr>)
      else Some (None, (set_phys m s)\<lparr>timer := timer_init (map_option (\<lambda>b. (bi_timebase_hz b, bi_tick_hz b)) bi) now (timer s)\<rparr>))
      = Some (root, s2)" and st: "start_init s2 = Some (Some s')"
    using assms(2) by (auto simp: kernel_main_def Let_def split: bind_splits if_splits)
  let ?s1 = "(set_phys m s)\<lparr>timer := timer_init (map_option (\<lambda>b. (bi_timebase_hz b, bi_tick_hz b)) bi) now (timer s)\<rparr>"
  have "fresh_statics ?s1" using assms(1) by (simp add: fresh_statics_def set_phys_def)
  moreover have "vfs_state.more s2 = vfs_state.more ?s1"
    using m mount_filesystems_more by (auto split: if_splits)
  ultimately have "fresh_statics s2" using fresh_vfs by blast
  then show ?thesis using start_init_inv st by blast
qed

end
