(* ===== verification/Boot_Props.thy ===== *)
theory Boot_Props
  imports Boot Vm_Spec
begin

text \<open>
  The address map the kernel starts on: what the hardware's Sv39 walk makes of the two tables
  \<^verbatim>\<open>boot_pagetable_init\<close> writes.
\<close>

section \<open>The walk of the hardware\<close>

abbreviation PTE_RWX :: u64 where "PTE_RWX \<equiv> 14"

text \<open>
  The Sv39 walk over the boot tables: a leaf in the first is a page of 1 GB, a leaf in the
  second, which stands at \<open>l1_pa\<close>, one of 2 MB.
\<close>

definition sv39_boot :: "(u64 \<Rightarrow> u64) \<times> (u64 \<Rightarrow> u64) \<Rightarrow> u64 \<Rightarrow> u64 \<Rightarrow> u64 option" where
  "sv39_boot t l1_pa va =
     (let e = fst t (VPN2 va) in
      if e AND PTE_V = 0 then None
      else if e AND PTE_RWX \<noteq> 0 then Some (PTE2PA e + (va AND 0x3FFFFFFF))
      else if PTE2PA e \<noteq> l1_pa then None
      else
        (let f = snd t (VPN1 va) in
         if f AND PTE_V = 0 \<or> f AND PTE_RWX = 0 then None else Some (PTE2PA f + (va AND 0x1FFFFF))))"

lemma and_mask_unat:
  "unat ((va :: u64) AND 0x3FFFFFFF) = unat va mod 2 ^ 30" "unat (va AND 0x1FFFFF) = unat va mod 2 ^ 21"
proof -
  have e: "va AND 0x3FFFFFFF = take_bit 30 va" "va AND 0x1FFFFF = take_bit 21 va"
    by (simp_all add: take_bit_eq_mask mask_eq_exp_minus_1)
  show "unat (va AND 0x3FFFFFFF) = unat va mod 2 ^ 30" "unat (va AND 0x1FFFFF) = unat va mod 2 ^ 21"
    unfolding e unsigned_take_bit_eq by (simp_all add: take_bit_eq_mod)
qed

text \<open>An address of a window of 1 GB that starts at a multiple of 1 GB.\<close>

lemma in_window:
  assumes "unat base mod 2 ^ 30 = 0" and "unat (va - base) < 2 ^ 30" and "unat base + 2 ^ 30 \<le> 2 ^ 64"
  shows "VPN2 va = VPN2 base" and "va AND 0x3FFFFFFF = va - base"
proof -
  have "unat va = unat (base + (va - base))" by simp
  also have "\<dots> = unat base + unat (va - base)"
    using assms(2,3) by (intro unat_add_lem [THEN iffD1]) simp
  finally have u: "unat va = unat base + unat (va - base)" .
  obtain k where k: "unat base = 2 ^ 30 * k" using assms(1) by (metis dvd_def mod_eq_0_iff_dvd)
  have "unat va div 2 ^ 30 = unat base div 2 ^ 30" "unat va mod 2 ^ 30 = unat (va - base)"
    using u k assms(2) by simp_all
  then show "VPN2 va = VPN2 base" "va AND 0x3FFFFFFF = va - base"
    by (simp_all add: word_unat_eq_iff unat_VPN and_mask_unat)
qed

section \<open>The kernel window\<close>

lemma kernel_slot: "k < 512 \<Longrightarrow> VPN1 (KERNEL_VIRT_BASE + of_nat k * SZ_2M) = of_nat k"
proof -
  assume k: "k < 512"
  have u: "unat (of_nat k * SZ_2M :: u64) = k * 2 ^ 21"
  proof -
    have "of_nat k * SZ_2M = (of_nat (k * 2 ^ 21) :: u64)" by simp
    moreover have "unat (of_nat (k * 2 ^ 21) :: u64) = k * 2 ^ 21"
      using k unfolding unat_of_nat by (intro mod_less) simp
    ultimately show ?thesis by simp
  qed
  have "unat (KERNEL_VIRT_BASE + of_nat k * SZ_2M) = unat KERNEL_VIRT_BASE + k * 2 ^ 21"
    using k u by (subst unat_add_lem [THEN iffD1]) simp_all
  then have "unat (VPN1 (KERNEL_VIRT_BASE + of_nat k * SZ_2M)) = (512 * 17179869182 + k) mod 512"
    by (simp add: unat_VPN)
  also have "\<dots> = k" using k by (subst mod_mult_self4) simp
  finally have "unat (VPN1 (KERNEL_VIRT_BASE + of_nat k * SZ_2M)) = k" .
  moreover have "unat (of_nat k :: u64) = k" using k by (simp add: unat_of_nat)
  ultimately show ?thesis by (simp add: word_unat_eq_iff)
qed

lemma boot_map_kernel_at:
  "j + n \<le> 512 \<Longrightarrow> k < n \<Longrightarrow>
   boot_map_kernel (of_nat j * SZ_2M) n l1 (of_nat (j + k)) = pte_make (KERNEL_PHYS_BASE + of_nat (j + k) * SZ_2M) boot_flags"
proof (induction n arbitrary: j k l1)
  case 0
  then show ?case by simp
next
  case (Suc n)
  have nxt: "of_nat j * SZ_2M + SZ_2M = (of_nat (Suc j) * SZ_2M :: u64)" by (simp add: algebra_simps)
  have slot: "VPN1 (KERNEL_VIRT_BASE + of_nat j * SZ_2M) = of_nat j" using kernel_slot [of j] Suc.prems by simp
  show ?case
  proof (cases k)
    case 0
    have "VPN1 (KERNEL_VIRT_BASE + (of_nat (Suc j) * SZ_2M + of_nat i * SZ_2M)) \<noteq> of_nat j" if "i < n" for i
    proof -
      have "of_nat (Suc j) * SZ_2M + of_nat i * SZ_2M = (of_nat (Suc j + i) * SZ_2M :: u64)" by (simp add: algebra_simps)
      then have "VPN1 (KERNEL_VIRT_BASE + (of_nat (Suc j) * SZ_2M + of_nat i * SZ_2M)) = of_nat (Suc j + i)"
        using kernel_slot [of "Suc j + i"] Suc.prems(1) that by simp
      moreover have "(of_nat (Suc j + i) :: u64) \<noteq> of_nat j"
      proof -
        have "unat (of_nat (Suc j + i) :: u64) = Suc j + i" "unat (of_nat j :: u64) = j"
          using Suc.prems(1) that by (simp_all only: unat_of_nat mod_less) (simp_all add: mod_less del: of_nat_Suc of_nat_add)
        then show ?thesis by (metis add_Suc less_add_Suc1 less_irrefl)
      qed
      ultimately show ?thesis by simp
    qed
    then show ?thesis
      using boot_map_kernel_other [of n "of_nat (Suc j) * SZ_2M" "of_nat j"] 0 slot
      unfolding boot_map_kernel.simps nxt by simp
  next
    case (Suc k')
    then show ?thesis
      using Suc.IH [of "Suc j" k'] Suc.prems unfolding boot_map_kernel.simps nxt by simp
  qed
qed

lemma boot_flags_value: "boot_flags = 0xEF"
  by (simp add: boot_flags_def)

lemma boot_l0:
  "fst (boot_pagetable_init l1_pa) 0 = 0xEF"
  "fst (boot_pagetable_init l1_pa) 2 = 0x200000EF"
  "fst (boot_pagetable_init l1_pa) 256 = 0x200000EF"
  "fst (boot_pagetable_init l1_pa) 510 = pte_make l1_pa PTE_V"
  by (simp_all add: boot_pagetable_init_def VPN2_def pte_make_def boot_flags_value)

lemma VPN2_bases: "VPN2 0 = 0" "VPN2 DRAM_BASE = 2" "VPN2 PAGE_OFFSET = 256" "VPN2 KERNEL_VIRT_BASE = 510"
  by (simp_all add: VPN2_def)

lemma boot_gigapage:
  assumes "unat base mod 2 ^ 30 = 0" and "unat (va - base) < 2 ^ 30" and "unat base + 2 ^ 30 \<le> 2 ^ 64"
    and "fst t (VPN2 base) AND PTE_V \<noteq> 0" and "fst t (VPN2 base) AND PTE_RWX \<noteq> 0"
  shows "sv39_boot t l1_pa va = Some (PTE2PA (fst t (VPN2 base)) + (va - base))"
  unfolding sv39_boot_def Let_def in_window [OF assms(1-3)] using assms(4,5) by simp

lemma pte_make_leaf: "pte_make pa flags = PA2PTE pa OR flags"
  by (simp add: pte_make_def PA2PTE_def)

lemma low_mask_bits: "(y :: u64) < 1024 \<Longrightarrow> 10 \<le> n \<Longrightarrow> \<not> bit y n"
proof -
  assume "y < 1024"
  then have "y = take_bit 10 y"
    by (intro word_unat_eq_iff [THEN iffD2])
      (simp add: word_less_nat_alt unsigned_take_bit_eq take_bit_nat_eq_self)
  then show "10 \<le> n \<Longrightarrow> ?thesis" by (metis bit_take_bit_iff not_le)
qed

lemma pte_flags: "y < 1024 \<Longrightarrow> (PA2PTE pa OR flags) AND y = flags AND y"
proof (rule bit_word_eqI)
  fix n assume y: "y < 1024"
  show "bit ((PA2PTE pa OR flags) AND y) n = bit (flags AND y) n"
    using low_mask_bits [OF y, of n] leaf_low_bits [of n pa flags]
    by (cases "n < 10") (auto simp: bit_and_iff)
qed

lemma kernel_page:
  assumes "page_aligned l1_pa" and "unat (va - KERNEL_VIRT_BASE) < 0x4000000"
  shows "sv39_boot (boot_pagetable_init l1_pa) l1_pa va = Some (va - KERNEL_VIRT_BASE + KERNEL_PHYS_BASE)"
proof -
  define off where "off = unat (va - KERNEL_VIRT_BASE)"
  define k where "k = off div 2 ^ 21"
  have k: "k < 32" using assms(2) by (simp add: k_def off_def less_mult_imp_div_less)
  have "unat va = unat (KERNEL_VIRT_BASE + (va - KERNEL_VIRT_BASE))" by simp
  also have "\<dots> = unat KERNEL_VIRT_BASE + off"
    unfolding off_def using assms(2) by (intro unat_add_lem [THEN iffD1]) simp
  finally have u: "unat va = 0xffffffff80000000 + off" by simp
  have v2: "VPN2 va = 510"
    using in_window(1) [of KERNEL_VIRT_BASE va] assms(2) by (simp add: VPN2_bases)
  have small: "unat (of_nat k :: u64) = k" using k by (simp add: unat_of_nat)
  have "unat va div 2 ^ 21 = 512 * 17179869182 + k" by (simp add: u k_def)
  then have "unat (VPN1 va) = (512 * 17179869182 + k) mod 512" by (simp only: unat_VPN)
  also have "\<dots> = k" using k by (subst mod_mult_self4) simp
  finally have v1: "VPN1 va = of_nat k" using small by (simp add: word_unat_eq_iff)
  define pa where "pa = KERNEL_PHYS_BASE + of_nat k * SZ_2M"
  have sz: "of_nat k * SZ_2M = (of_nat (k * 2 ^ 21) :: u64)" by simp
  have uk: "unat (of_nat (k * 2 ^ 21) :: u64) = k * 2 ^ 21"
    using k unfolding unat_of_nat by (intro mod_less) simp
  have upa: "unat pa = 0x80200000 + k * 2 ^ 21"
    unfolding pa_def sz using k uk by (subst unat_add_lem [THEN iffD1]) simp_all
  have al: "page_aligned pa" unfolding page_aligned_unat upa
  proof -
    have "0x80200000 + k * 2 ^ 21 = 4096 * (0x80200 + 512 * k)" by simp
    then show "(0x80200000 + k * 2 ^ 21) mod 4096 = 0" by (simp only: mod_mult_self1_is_0)
  qed
  have f: "snd (boot_pagetable_init l1_pa) (of_nat k) = PA2PTE pa OR 0xEF"
    using boot_map_kernel_at [of 0 32 k] k
    by (simp add: boot_pagetable_init_def pa_def pte_make_leaf boot_flags_value)
  have lt: "(1 :: u64) < 1024" "(0xEF :: u64) < 1024" "(14 :: u64) < 1024" by simp_all
  have e: "PTE2PA (pte_make l1_pa PTE_V) = l1_pa" "pte_make l1_pa PTE_V AND PTE_V \<noteq> 0"
    "pte_make l1_pa PTE_V AND PTE_RWX = 0"
    unfolding pte_make_leaf PTE2PA_leaf [OF assms(1) lt(1)] pte_flags [OF lt(1)] pte_flags [OF lt(3)] by simp_all
  have g: "PTE2PA (PA2PTE pa OR 0xEF) = pa" "(PA2PTE pa OR 0xEF) AND PTE_V \<noteq> 0" "(PA2PTE pa OR 0xEF) AND PTE_RWX \<noteq> 0"
    unfolding PTE2PA_leaf [OF al lt(2)] pte_flags [OF lt(1)] pte_flags [OF lt(3)] by simp_all
  have "unat va mod 2 ^ 21 = (2 ^ 21 * 8796093021184 + off) mod 2 ^ 21" by (simp add: u)
  also have "\<dots> = off mod 2 ^ 21" by (rule mod_mult_self4)
  finally have "unat (va AND 0x1FFFFF) = off mod 2 ^ 21" by (simp only: and_mask_unat)
  then have "va AND 0x1FFFFF = of_nat (off mod 2 ^ 21)" by (metis of_nat_unat ucast_id)
  then have "pa + (va AND 0x1FFFFF) = KERNEL_PHYS_BASE + of_nat (k * 2 ^ 21 + off mod 2 ^ 21)"
    unfolding pa_def sz by (simp only: of_nat_add add.assoc)
  also have "k * 2 ^ 21 + off mod 2 ^ 21 = off" unfolding k_def by (rule div_mult_mod_eq)
  also have "(of_nat off :: u64) = va - KERNEL_VIRT_BASE" by (simp add: off_def)
  finally have "pa + (va AND 0x1FFFFF) = va - KERNEL_VIRT_BASE + KERNEL_PHYS_BASE" by simp
  then show ?thesis
    unfolding sv39_boot_def Let_def v2 v1 f boot_l0 using e g by simp
qed

text \<open>
  C17. On the boot page table the first gigabyte (the devices) and the first gigabyte of memory
  are mapped to themselves, the direct window at \<^verbatim>\<open>PAGE_OFFSET\<close> to memory, and the 64 MB of the
  kernel image window to the physical address the image is loaded at.
\<close>
theorem boot_address_map:
  assumes "page_aligned l1_pa"
  shows "(va < 0x40000000 \<longrightarrow> sv39_boot (boot_pagetable_init l1_pa) l1_pa va = Some va) \<and>
    (va - DRAM_BASE < 0x40000000 \<longrightarrow> sv39_boot (boot_pagetable_init l1_pa) l1_pa va = Some va) \<and>
    (va - PAGE_OFFSET < 0x40000000 \<longrightarrow>
       sv39_boot (boot_pagetable_init l1_pa) l1_pa va = Some (va - PAGE_OFFSET + DRAM_BASE)) \<and>
    (va - KERNEL_VIRT_BASE < BOOT_KMAP_SIZE \<longrightarrow>
       sv39_boot (boot_pagetable_init l1_pa) l1_pa va = Some (va - KERNEL_VIRT_BASE + KERNEL_PHYS_BASE))"
proof (intro conjI impI)
  let ?t = "boot_pagetable_init l1_pa"
  show "sv39_boot ?t l1_pa va = Some va" if "va < 0x40000000"
    using boot_gigapage [of 0 va ?t l1_pa] that by (simp add: VPN2_bases boot_l0 word_less_nat_alt PTE2PA_def)
  show "sv39_boot ?t l1_pa va = Some va" if "va - DRAM_BASE < 0x40000000"
    using boot_gigapage [of DRAM_BASE va ?t l1_pa] that by (simp add: VPN2_bases boot_l0 word_less_nat_alt PTE2PA_def)
  show "sv39_boot ?t l1_pa va = Some (va - PAGE_OFFSET + DRAM_BASE)" if "va - PAGE_OFFSET < 0x40000000"
    using boot_gigapage [of PAGE_OFFSET va ?t l1_pa] that by (simp add: VPN2_bases boot_l0 word_less_nat_alt PTE2PA_def)
  show "sv39_boot ?t l1_pa va = Some (va - KERNEL_VIRT_BASE + KERNEL_PHYS_BASE)" if "va - KERNEL_VIRT_BASE < BOOT_KMAP_SIZE"
    using kernel_page [OF assms, of va] that by (simp add: word_less_nat_alt)
qed

theorem boot_address_map_witness:
  "sv39_boot (boot_pagetable_init 0x80201000) 0x80201000 0xffffffff80000123 = Some 0x80200123"
  using boot_address_map [of "0x80201000" "0xffffffff80000123"] by (simp add: page_aligned_def)

end
