(* ===== verification/Fat_Entries.thy ===== *)
theory Fat_Entries
  imports Fat32_Vol
begin

text \<open>
  The allocation table of a volume as a map from clusters to 28-bit values: what
  \<^verbatim>\<open>fat32_read_fat_entry\<close> and \<^verbatim>\<open>fat32_write_fat_entry\<close> do to it, over every copy of the table
  and every other sector of the disk.
\<close>

section \<open>A sound volume\<close>

abbreviation cc :: "fat_vol \<Rightarrow> nat" where "cc v \<equiv> unat (cluster_count (v_fs v))"
abbreviation fat0 :: "fat_vol \<Rightarrow> nat" where "fat0 v \<equiv> unat (fat_lba (v_fs v))"
abbreviation nfats :: "fat_vol \<Rightarrow> nat" where "nfats v \<equiv> unat (num_fats (v_fs v))"
abbreviation spf :: "fat_vol \<Rightarrow> nat" where "spf v \<equiv> unat (sectors_per_fat (v_fs v))"
abbreviation data0 :: "fat_vol \<Rightarrow> nat" where "data0 v \<equiv> unat (data_lba (v_fs v))"
abbreviation spc :: "fat_vol \<Rightarrow> nat" where "spc v \<equiv> unat (sectors_per_cluster (v_fs v))"

text \<open>
  The geometry a mount accepts, when the disk is as long as the boot record says: the tables
  cover the clusters, the regions follow one another, and no sector number overflows.
\<close>

definition fat_geom :: "fat_vol \<Rightarrow> bool" where
  "fat_geom v \<longleftrightarrow> dev_ok (v_dev v) \<and> bytes_per_sector (v_fs v) = 512 \<and> 0 < nfats v \<and> 0 < spc v \<and> spc v < 256 \<and>
     cc v + 2 \<le> 128 * spf v \<and> cc v + 2 \<le> 0x0FFFFFF8 \<and>
     fat0 v + nfats v * spf v \<le> data0 v \<and> data0 v + cc v * spc v < 2 ^ 32"

definition valid_cluster :: "fat_vol \<Rightarrow> u32 \<Rightarrow> bool" where
  "valid_cluster v c \<longleftrightarrow> 2 \<le> unat c \<and> unat c < cc v + 2"

text \<open>Sector \<open>n\<close> of the disk.\<close>

definition vsec :: "fat_vol \<Rightarrow> nat \<Rightarrow> u8 list" where
  "vsec v n = sectors (v_dev v) (of_nat n)"

lemma vsec_ucast: "sectors (v_dev v) (ucast (lba :: u32)) = vsec v (unat lba)"
  by (simp add: vsec_def)

lemma length_vsec: "dev_ok (v_dev v) \<Longrightarrow> length (vsec v n) = 512"
  by (simp add: dev_ok_def vsec_def)

lemma read_sector_ok: "dev_ok (v_dev v) \<Longrightarrow> read_sector v lba = (0, vsec v (unat lba))"
  by (simp add: read_sector_def blk_read_1 dev_ok_def vsec_ucast)

lemma write_sector_ok:
  assumes "dev_ok (v_dev v)" and "length bs = 512"
  shows "\<exists>v'. write_sector lba bs v = (0, v') \<and> v_fs v' = v_fs v \<and> dev_ok (v_dev v') \<and>
    (\<forall>n<2 ^ 32. vsec v' n = (if n = unat lba then bs else vsec v n))"
proof -
  have e: "write_sector lba bs v = (0, v\<lparr>v_dev := (v_dev v)\<lparr>sectors := (sectors (v_dev v))(ucast lba := bs)\<rparr>\<rparr>)"
    using assms by (simp add: write_sector_def blk_write_1 dev_ok_def)
  have i: "(of_nat n :: u64) = ucast lba \<longleftrightarrow> n = unat lba" if "n < 2 ^ 32" for n
  proof -
    have "unat (ucast lba :: u64) = unat lba"
      unfolding unsigned_ucast_eq by (rule take_bit_nat_eq_self) (rule less_trans [OF unsigned_less], simp)
    moreover have "unat (of_nat n :: u64) = n" using that unfolding unat_of_nat by (intro mod_less) simp
    ultimately show ?thesis by (metis word_unat_eq_iff)
  qed
  show ?thesis unfolding e using assms i by (auto simp: dev_ok_def vsec_def)
qed

section \<open>Bytes of an entry\<close>

lemma length_fat_entry_bytes [simp]: "length (fat_entry_bytes x) = 4"
  by (simp add: fat_entry_bytes_def)

lemma nth_set_bytes:
  "off + length bs \<le> length s \<Longrightarrow> i < length s \<Longrightarrow>
   set_bytes off bs s ! i = (if off \<le> i \<and> i < off + length bs then bs ! (i - off) else s ! i)"
  by (auto simp: set_bytes_def nth_append)

lemma length_set_bytes [simp]: "off + length bs \<le> length s \<Longrightarrow> length (set_bytes off bs s) = length s"
  by (simp add: set_bytes_def)

text \<open>Little-endian words are read byte by byte.\<close>

lemma bit_u8: "8 \<le> n \<Longrightarrow> \<not> bit (b :: u8) n"
  using bit_imp_le_length [of b n] by auto

lemma bit_le32:
  assumes "n < 32"
  shows "bit (le32 bs) n \<longleftrightarrow> bit (bs ! (n div 8)) (n mod 8)"
proof -
  have e: "bit (le32 bs) n \<longleftrightarrow> bit (bs ! 0) n \<or> 8 \<le> n \<and> bit (bs ! 1) (n - 8) \<or>
    16 \<le> n \<and> bit (bs ! 2) (n - 16) \<or> 24 \<le> n \<and> bit (bs ! 3) (n - 24)"
    using assms by (auto simp: le32_def bit_or_iff bit_push_bit_iff bit_unsigned_iff)
  consider "n < 8" | "8 \<le> n" "n < 16" | "16 \<le> n" "n < 24" | "24 \<le> n" "n < 32" using assms by linarith
  then show ?thesis
  proof cases
    case 1
    then show ?thesis unfolding e by simp
  next
    case 2
    then have "n div 8 = 1" "n mod 8 = n - 8" by (simp_all add: mod_if)
    then show ?thesis unfolding e using 2 by (simp add: bit_u8)
  next
    case 3
    then have "n div 8 = 2" "n mod 8 = n - 16" by (simp_all add: mod_if)
    then show ?thesis unfolding e using 3 by (simp add: bit_u8)
  next
    case 4
    then have "n div 8 = 3" "n mod 8 = n - 24" by (simp_all add: mod_if)
    then show ?thesis unfolding e using 4 by (simp add: bit_u8)
  qed
qed

lemma fat_masks:
  "(0x0FFFFFFF :: u32) = mask 28" "(0xFF :: u32) = mask 8" "(0x0F :: u32) = mask 4"
  by (simp_all add: mask_eq_exp_minus_1)

lemma le32_entry_bytes: "le32 (fat_entry_bytes x) = x AND 0x0FFFFFFF"
proof (rule bit_word_eqI)
  fix n assume "n < LENGTH(32)"
  then have n: "n < 32" by simp
  have d: "8 * (n div 8) + n mod 8 = n" by simp
  have m: "n mod 8 < 8" by simp
  have "n div 8 < 4" using n by simp
  then consider "n div 8 = 0" | "n div 8 = 1" | "n div 8 = 2" | "n div 8 = 3" by linarith
  then show "bit (le32 (fat_entry_bytes x)) n \<longleftrightarrow> bit (x AND 0x0FFFFFFF) n"
    unfolding bit_le32 [OF n] fat_entry_bytes_def fat_masks using d m
    by cases (auto simp: bit_unsigned_iff bit_and_iff bit_mask_iff bit_drop_bit_eq add.commute)
qed

section \<open>Where an entry lies\<close>

lemma spf_pos: "fat_geom v \<Longrightarrow> 0 < spf v"
  by (auto simp: fat_geom_def)

lemma table_below: "fat_geom v \<Longrightarrow> k < nfats v \<Longrightarrow> i < spf v \<Longrightarrow> fat0 v + k * spf v + i < data0 v"
proof -
  assume g: "fat_geom v" and "k < nfats v" and i: "i < spf v"
  then have "Suc k * spf v \<le> nfats v * spf v" by (intro mult_le_mono1) simp
  then have "k * spf v + spf v \<le> nfats v * spf v" by simp
  then show ?thesis using g i by (simp add: fat_geom_def)
qed

lemma valid_bound: "fat_geom v \<Longrightarrow> valid_cluster v c \<Longrightarrow> unat c < 0x0FFFFFF8"
  by (simp add: fat_geom_def valid_cluster_def)

lemma entry_offset:
  assumes "fat_geom v" and "valid_cluster v c"
  shows "unat (c * 4) = 4 * unat c" and "unat (c * 4 div 512) = unat c div 128"
    and "unat (c * 4 mod 512) = 4 * (unat c mod 128)"
proof -
  have "unat c * unat (4 :: u32) < 2 ^ 32" using valid_bound [OF assms] by simp
  then show m: "unat (c * 4) = 4 * unat c" using unat_mult_lem [of c "4 :: u32"] by simp
  show "unat (c * 4 div 512) = unat c div 128" by (simp add: unat_div m)
  show "unat (c * 4 mod 512) = 4 * (unat c mod 128)" using mult_mod_right [of 4 "unat c" 128] by (simp add: unat_mod m)
qed

text \<open>The sector of copy \<open>k\<close> that holds entry \<open>c\<close>.\<close>

definition entry_sector :: "fat_vol \<Rightarrow> nat \<Rightarrow> nat \<Rightarrow> nat" where
  "entry_sector v k c = fat0 v + k * spf v + c div 128"

lemma entry_sector_below:
  assumes "fat_geom v" and "k < nfats v" and "c < cc v + 2"
  shows "entry_sector v k c < data0 v"
proof -
  have "c div 128 < spf v" using assms(1,3) by (intro less_mult_imp_div_less) (simp add: fat_geom_def)
  then show ?thesis unfolding entry_sector_def by (rule table_below [OF assms(1,2)])
qed

text \<open>Entry \<open>c\<close> of copy \<open>k\<close>.\<close>

definition fat_entry :: "fat_vol \<Rightarrow> nat \<Rightarrow> nat \<Rightarrow> u32" where
  "fat_entry v k c = le32 (drop (4 * (c mod 128)) (vsec v (entry_sector v k c))) AND 0x0FFFFFFF"

lemma data_small: "fat_geom v \<Longrightarrow> data0 v < 2 ^ 32"
  by (simp add: fat_geom_def)

lemma lba_of_entry:
  assumes "fat_geom v" and "valid_cluster v c" and "unat fat < nfats v"
  shows "unat (fat_lba (v_fs v) + fat * sectors_per_fat (v_fs v) + c * 4 div 512) = entry_sector v (unat fat) (unat c)"
proof -
  have e: "entry_sector v (unat fat) (unat c) < 2 ^ 32"
    using entry_sector_below [OF assms(1,3), of "unat c"] assms(2) data_small [OF assms(1)]
    by (simp add: valid_cluster_def)
  have "fat_lba (v_fs v) + fat * sectors_per_fat (v_fs v) + c * 4 div 512 =
    of_nat (entry_sector v (unat fat) (unat c))"
    unfolding entry_sector_def entry_offset(2) [OF assms(1,2), symmetric] by simp
  then show ?thesis using e by (simp add: unat_of_nat)
qed

lemma read_fat_entry_ok:
  assumes "fat_geom v" and "valid_cluster v c"
  shows "fat32_read_fat_entry v c = (0, fat_entry v 0 (unat c))"
proof -
  have d: "dev_ok (v_dev v)" and b: "bytes_per_sector (v_fs v) = 512" and z: "unat (0 :: u32) < nfats v"
    using assms(1) by (simp_all add: fat_geom_def)
  have l: "unat (fat_lba (v_fs v) + c * 4 div 512) = entry_sector v 0 (unat c)"
    using lba_of_entry [OF assms z] by simp
  have o': "unat (c * 4 mod 512) = 4 * (unat c mod 128)" by (rule entry_offset(3) [OF assms])
  have "unat (c * 4 mod 512 + 4) = 4 * (unat c mod 128) + 4"
    using o' by (simp add: unat_plus_if')
  then have "\<not> 512 < c * 4 mod 512 + (4 :: u32)" by (simp add: word_less_nat_alt)
  then show ?thesis
    unfolding fat32_read_fat_entry_def Let_def b read_sector_ok [OF d] l
    by (simp add: o' fat_entry_def)
qed

section \<open>Writing an entry\<close>

text \<open>Two volumes with the same geometry: their abstractions look at the same sectors.\<close>

lemma fat_geom_fs: "v_fs v' = v_fs v \<Longrightarrow> dev_ok (v_dev v') \<Longrightarrow> fat_geom v \<Longrightarrow> fat_geom v'"
  by (simp add: fat_geom_def)

lemma entry_sector_inj:
  assumes "fat_geom v" and "c < cc v + 2" and "d < cc v + 2" and "entry_sector v k c = entry_sector v j d"
  shows "k = j \<and> c div 128 = d div 128"
proof -
  have lt: "e div 128 < spf v" if "e < cc v + 2" for e
    using that assms(1) by (intro less_mult_imp_div_less) (simp add: fat_geom_def)
  have "k * spf v + c div 128 = j * spf v + d div 128" using assms(4) by (simp add: entry_sector_def)
  then have "(k * spf v + c div 128) div spf v = (j * spf v + d div 128) div spf v"
    and "(k * spf v + c div 128) mod spf v = (j * spf v + d div 128) mod spf v" by simp_all
  then show ?thesis using lt [OF assms(2)] lt [OF assms(3)] by simp
qed

text \<open>What a write of entry \<open>c\<close> does to a sector that holds it.\<close>

definition put_entry :: "nat \<Rightarrow> u32 \<Rightarrow> u8 list \<Rightarrow> u8 list" where
  "put_entry c x s = set_bytes (4 * (c mod 128)) (fat_entry_bytes x) s"

lemma entry_room: "4 * (c mod 128) + 4 \<le> (512 :: nat)"
  using mod_less_divisor [of 128 c] by linarith

lemma length_put_entry [simp]: "length s = 512 \<Longrightarrow> length (put_entry c x s) = 512"
  using entry_room [of c] by (simp add: put_entry_def)

lemma le32_cong: "\<forall>i<4. bs ! i = cs ! i \<Longrightarrow> le32 bs = le32 cs"
  by (simp add: le32_def)

lemma nth_put_entry:
  assumes "length s = 512" and "i < 512"
  shows "put_entry c x s ! i =
    (if 4 * (c mod 128) \<le> i \<and> i < 4 * (c mod 128) + 4 then fat_entry_bytes x ! (i - 4 * (c mod 128)) else s ! i)"
  using assms entry_room [of c] by (simp add: put_entry_def nth_set_bytes)

lemma le32_put_entry:
  assumes "length s = 512"
  shows "le32 (drop (4 * (d mod 128)) (put_entry c x s)) =
    (if d mod 128 = c mod 128 then x AND 0x0FFFFFFF else le32 (drop (4 * (d mod 128)) s))"
proof -
  have i: "4 * (d mod 128) + i < 512" if "i < 4" for i using entry_room [of d] that by linarith
  have n: "drop (4 * (d mod 128)) (put_entry c x s) ! i =
    (if d mod 128 = c mod 128 then fat_entry_bytes x ! i else drop (4 * (d mod 128)) s ! i)" if "i < 4" for i
    using nth_put_entry [OF assms i [OF that], of c x] i [OF that] assms that by auto
  show ?thesis
  proof (cases "d mod 128 = c mod 128")
    case True
    have "le32 (drop (4 * (d mod 128)) (put_entry c x s)) = le32 (fat_entry_bytes x)"
      by (rule le32_cong) (use n True in simp)
    then show ?thesis using True by (simp add: le32_entry_bytes)
  next
    case False
    have "le32 (drop (4 * (d mod 128)) (put_entry c x s)) = le32 (drop (4 * (d mod 128)) s)"
      by (rule le32_cong) (use n False in simp)
    then show ?thesis using False by simp
  qed
qed

lemma write_fat_loop_ok:
  assumes "fat_geom v" and "valid_cluster v c" and "unat fat + n = nfats v"
  shows "\<exists>v'. write_fat_loop (c * 4 div 512) (c * 4 mod 512) x n fat v = (0, v') \<and> v_fs v' = v_fs v \<and> dev_ok (v_dev v') \<and>
    (\<forall>m<2 ^ 32. vsec v' m =
       (if \<exists>k. unat fat \<le> k \<and> k < nfats v \<and> m = entry_sector v k (unat c) then put_entry (unat c) x (vsec v m) else vsec v m))"
  using assms
proof (induction n arbitrary: fat v)
  case 0
  then show ?case by (auto simp: fat_geom_def)
next
  case (Suc n)
  have d: "dev_ok (v_dev v)" using Suc.prems(1) by (simp add: fat_geom_def)
  have k: "unat fat < nfats v" using Suc.prems(3) by simp
  let ?lba = "fat_lba (v_fs v) + fat * sectors_per_fat (v_fs v) + c * 4 div 512"
  have l: "unat ?lba = entry_sector v (unat fat) (unat c)" by (rule lba_of_entry [OF Suc.prems(1,2) k])
  have o': "unat (c * 4 mod 512) = 4 * (unat c mod 128)" by (rule entry_offset(3) [OF Suc.prems(1,2)])
  obtain v1 where w: "write_sector ?lba (put_entry (unat c) x (vsec v (unat ?lba))) v = (0, v1)"
    and f: "v_fs v1 = v_fs v" and d1: "dev_ok (v_dev v1)"
    and s: "\<forall>m<2 ^ 32. vsec v1 m = (if m = unat ?lba then put_entry (unat c) x (vsec v (unat ?lba)) else vsec v m)"
    using write_sector_ok [OF d, of "put_entry (unat c) x (vsec v (unat ?lba))" ?lba] d by (auto simp: length_vsec)
  have u: "unat (fat + 1) = Suc (unat fat)"
  proof -
    have "nfats v < 2 ^ 32" by (rule less_le_trans [OF unsigned_less]) simp
    then show ?thesis using k by (simp add: unat_plus_if')
  qed
  have e: "write_fat_loop (c * 4 div 512) (c * 4 mod 512) x (Suc n) fat v =
    write_fat_loop (c * 4 div 512) (c * 4 mod 512) x n (fat + 1) v1"
    using w by (simp add: Let_def read_sector_ok [OF d] o' put_entry_def [symmetric])
  have g1: "fat_geom v1" and c1: "valid_cluster v1 c"
    using fat_geom_fs [OF f d1 Suc.prems(1)] Suc.prems(2) f by (simp_all add: valid_cluster_def)
  obtain v' where r: "write_fat_loop (c * 4 div 512) (c * 4 mod 512) x n (fat + 1) v1 = (0, v')"
    and f': "v_fs v' = v_fs v1" "dev_ok (v_dev v')"
    and s': "\<forall>m<2 ^ 32. vsec v' m =
       (if \<exists>k. unat (fat + 1) \<le> k \<and> k < nfats v1 \<and> m = entry_sector v1 k (unat c) then put_entry (unat c) x (vsec v1 m) else vsec v1 m)"
    using Suc.IH [OF g1 c1, of "fat + 1"] Suc.prems(3) u f by auto
  have es: "entry_sector v1 = entry_sector v" using f by (intro ext) (simp add: entry_sector_def)
  have cb: "unat c < cc v + 2" using Suc.prems(2) by (simp add: valid_cluster_def)
  have inj: "entry_sector v j (unat c) \<noteq> entry_sector v (unat fat) (unat c)" if "Suc (unat fat) \<le> j" for j
    using entry_sector_inj [OF Suc.prems(1) cb cb, of j "unat fat"] that by auto
  have "vsec v' m = (if \<exists>k. unat fat \<le> k \<and> k < nfats v \<and> m = entry_sector v k (unat c)
      then put_entry (unat c) x (vsec v m) else vsec v m)" if m: "m < 2 ^ 32" for m
  proof (cases "m = entry_sector v (unat fat) (unat c)")
    case True
    then have "\<not> (\<exists>k. unat (fat + 1) \<le> k \<and> k < nfats v1 \<and> m = entry_sector v1 k (unat c))"
      unfolding u es using inj by metis
    then have "vsec v' m = vsec v1 m" by (simp only: s' [rule_format, OF m] if_False)
    also have "\<dots> = put_entry (unat c) x (vsec v m)" using s m True unfolding l by simp
    finally show ?thesis using True k by auto
  next
    case False
    have "(\<exists>k. unat fat \<le> k \<and> k < nfats v \<and> m = entry_sector v k (unat c)) \<longleftrightarrow>
      (\<exists>k. Suc (unat fat) \<le> k \<and> k < nfats v \<and> m = entry_sector v k (unat c))"
      using False by (metis Suc_leI le_neq_implies_less Suc_leD)
    moreover have "vsec v1 m = vsec v m" using s m False by (simp add: l)
    ultimately show ?thesis by (simp only: s' [rule_format, OF m] u es f)
  qed
  then show ?case unfolding e r using f f' by auto
qed

text \<open>
  A write changes the entry in every copy of the table, keeps every other entry, and every
  sector outside the tables.
\<close>

lemma write_fat_entry_ok:
  assumes "fat_geom v" and "valid_cluster v c"
  shows "\<exists>v'. fat32_write_fat_entry c x v = (0, v') \<and> v_fs v' = v_fs v \<and> fat_geom v' \<and>
    (\<forall>k<nfats v. \<forall>d<cc v + 2. fat_entry v' k d = (if d = unat c then x AND 0x0FFFFFFF else fat_entry v k d)) \<and>
    (\<forall>m<2 ^ 32. (\<forall>k<nfats v. m \<noteq> entry_sector v k (unat c)) \<longrightarrow> vsec v' m = vsec v m)"
proof -
  have d: "dev_ok (v_dev v)" and b: "bytes_per_sector (v_fs v) = 512"
    using assms(1) by (simp_all add: fat_geom_def)
  obtain v' where r: "write_fat_loop (c * 4 div 512) (c * 4 mod 512) x (nfats v) 0 v = (0, v')"
    and f: "v_fs v' = v_fs v" "dev_ok (v_dev v')"
    and s: "\<forall>m<2 ^ 32. vsec v' m =
       (if \<exists>k. unat (0 :: u32) \<le> k \<and> k < nfats v \<and> m = entry_sector v k (unat c) then put_entry (unat c) x (vsec v m) else vsec v m)"
    using write_fat_loop_ok [OF assms, of 0 "nfats v"] by auto
  have es: "entry_sector v' = entry_sector v" using f by (intro ext) (simp add: entry_sector_def)
  have cb: "unat c < cc v + 2" using assms(2) by (simp add: valid_cluster_def)
  have "fat_entry v' k e = (if e = unat c then x AND 0x0FFFFFFF else fat_entry v k e)"
    if k: "k < nfats v" and e: "e < cc v + 2" for k e
  proof -
    have m: "entry_sector v k e < 2 ^ 32"
      using entry_sector_below [OF assms(1) k e] data_small [OF assms(1)] by simp
    have w: "(\<exists>j. unat (0 :: u32) \<le> j \<and> j < nfats v \<and> entry_sector v k e = entry_sector v j (unat c)) \<longleftrightarrow> e div 128 = unat c div 128"
    proof
      assume "e div 128 = unat c div 128"
      then have "entry_sector v k e = entry_sector v k (unat c)" by (simp only: entry_sector_def)
      then show "\<exists>j. unat (0 :: u32) \<le> j \<and> j < nfats v \<and> entry_sector v k e = entry_sector v j (unat c)"
        using k by auto
    qed (use entry_sector_inj [OF assms(1) e cb] in blast)
    have eq: "e = unat c \<longleftrightarrow> e div 128 = unat c div 128 \<and> e mod 128 = unat c mod 128"
    proof
      assume h: "e div 128 = unat c div 128 \<and> e mod 128 = unat c mod 128"
      have "e div 128 * 128 + e mod 128 = unat c div 128 * 128 + unat c mod 128" by (simp only: h)
      then show "e = unat c" by (simp only: div_mult_mod_eq)
    qed simp
    have v: "vsec v' (entry_sector v k e) =
      (if e div 128 = unat c div 128 then put_entry (unat c) x (vsec v (entry_sector v k e)) else vsec v (entry_sector v k e))"
      using s [rule_format, OF m] unfolding w .
    show ?thesis
    proof (cases "e div 128 = unat c div 128")
      case True
      then show ?thesis unfolding fat_entry_def es v eq
        by (simp only: le32_put_entry [OF length_vsec [OF d]] if_P simp_thms and.idem and.assoc split: if_split) blast
    next
      case False
      then show ?thesis unfolding fat_entry_def es v eq by (simp only: if_False simp_thms)
    qed
  qed
  moreover have "fat32_write_fat_entry c x v = (0, v')" unfolding fat32_write_fat_entry_def Let_def b using r by simp
  ultimately show ?thesis using f s fat_geom_fs [OF f assms(1)] by (intro exI [of _ v']) auto
qed

end
