(* ===== verification/Fat_Chains.thy ===== *)
theory Fat_Chains
  imports Fat_Entries
begin

text \<open>
  Cluster chains.  \<open>fat_upd\<close> is the change of one entry in every copy of the table; allocation,
  freeing, indexing and extending are stated on the list of clusters a chain runs through.
\<close>

section \<open>Updates of the table\<close>

definition fat_upd :: "fat_vol \<Rightarrow> nat \<Rightarrow> u32 \<Rightarrow> fat_vol \<Rightarrow> bool" where
  "fat_upd v c x v' \<longleftrightarrow>
     (\<forall>k<nfats v. \<forall>d<cc v + 2. fat_entry v' k d = (if d = c then x else fat_entry v k d))"

text \<open>The sectors past the tables: the clusters and what lies behind them.\<close>

definition same_data :: "fat_vol \<Rightarrow> nat set \<Rightarrow> fat_vol \<Rightarrow> bool" where
  "same_data v ms v' \<longleftrightarrow> (\<forall>m<2 ^ 32. data0 v \<le> m \<longrightarrow> m \<notin> ms \<longrightarrow> vsec v' m = vsec v m)"

text \<open>The geometry without the place where the search for a free cluster begins.\<close>

definition same_geom :: "fat_vol \<Rightarrow> fat_vol \<Rightarrow> bool" where
  "same_geom v v' \<longleftrightarrow> (v_fs v')\<lparr>alloc_hint := 0\<rparr> = (v_fs v)\<lparr>alloc_hint := 0\<rparr>"

lemma same_geom_refl [simp]: "same_geom v v"
  by (simp add: same_geom_def)

lemma same_geom_eq: "v_fs v' = v_fs v \<Longrightarrow> same_geom v v'"
  by (simp add: same_geom_def)

lemma same_geomD:
  assumes "same_geom v v'"
  shows "cc v' = cc v" "nfats v' = nfats v" "spf v' = spf v" "fat0 v' = fat0 v" "data0 v' = data0 v" "spc v' = spc v"
    and "valid_cluster v' c = valid_cluster v c" "entry_sector v' k d = entry_sector v k d"
proof -
  have h: "f (v_fs v') = f (v_fs v)" if "\<And>fs. f (fs\<lparr>alloc_hint := 0\<rparr>) = f fs" for f :: "fat32_fs \<Rightarrow> u32"
    using assms that unfolding same_geom_def by metis
  show "cc v' = cc v" "nfats v' = nfats v" "spf v' = spf v" "fat0 v' = fat0 v" "data0 v' = data0 v" "spc v' = spc v"
    and "valid_cluster v' c = valid_cluster v c" "entry_sector v' k d = entry_sector v k d"
    using h [of cluster_count] h [of num_fats] h [of sectors_per_fat] h [of fat_lba] h [of data_lba] h [of sectors_per_cluster]
    by (simp_all add: valid_cluster_def entry_sector_def)
qed

lemma same_geom_trans: "same_geom u v \<Longrightarrow> same_geom v w \<Longrightarrow> same_geom u w"
  by (simp add: same_geom_def)

lemma same_data_trans:
  "same_geom u v \<Longrightarrow> same_data u ms v \<Longrightarrow> same_data v ns w \<Longrightarrow> same_data u (ms \<union> ns) w"
  by (simp add: same_data_def same_geomD(5))

lemma write_fat_upd:
  assumes "fat_geom v" and "valid_cluster v c"
  shows "\<exists>v'. fat32_write_fat_entry c x v = (0, v') \<and> v_fs v' = v_fs v \<and> fat_geom v' \<and>
    fat_upd v (unat c) (x AND 0x0FFFFFFF) v' \<and> same_data v {} v'"
proof -
  have "m \<noteq> entry_sector v k (unat c)" if "data0 v \<le> m" "k < nfats v" for m k
    using entry_sector_below [OF assms(1) that(2), of "unat c"] that(1) assms(2) by (auto simp: valid_cluster_def)
  then show ?thesis using write_fat_entry_ok [OF assms, of x] by (auto simp: fat_upd_def same_data_def)
qed

section \<open>Zeroing a cluster\<close>

definition cluster_lba :: "fat_vol \<Rightarrow> nat \<Rightarrow> nat" where
  "cluster_lba v c = data0 v + (c - 2) * spc v"

definition cluster_sectors :: "fat_vol \<Rightarrow> nat \<Rightarrow> nat set" where
  "cluster_sectors v c = {cluster_lba v c ..< cluster_lba v c + spc v}"

lemma cluster_lba_bound:
  assumes "fat_geom v" and "2 \<le> c" and "c < cc v + 2"
  shows "cluster_lba v c + spc v < 2 ^ 32"
proof -
  have "Suc (c - 2) * spc v \<le> cc v * spc v" using assms by (intro mult_le_mono1) simp
  then show ?thesis using assms(1) by (simp add: cluster_lba_def fat_geom_def)
qed

lemma cluster_to_lba_ok:
  assumes "fat_geom v" and "valid_cluster v c"
  shows "unat (fat32_cluster_to_lba (v_fs v) c) = cluster_lba v (unat c)"
proof -
  have c2: "2 \<le> unat c" using assms(2) by (simp add: valid_cluster_def)
  have "(of_nat (cluster_lba v (unat c)) :: u32) = data_lba (v_fs v) + (of_nat (unat c - 2)) * sectors_per_cluster (v_fs v)"
    by (simp add: cluster_lba_def)
  also have "(of_nat (unat c - 2) :: u32) = c - 2" using c2 by (simp add: of_nat_diff)
  finally have "fat32_cluster_to_lba (v_fs v) c = of_nat (cluster_lba v (unat c))"
    by (simp add: fat32_cluster_to_lba_def)
  moreover have "cluster_lba v (unat c) < 2 ^ 32"
    using cluster_lba_bound [OF assms(1) c2] assms(2) by (simp add: valid_cluster_def)
  ultimately show ?thesis by (simp add: unat_of_nat)
qed

lemma zero_sectors_ok:
  assumes "dev_ok (v_dev v)" and "unat lba + n < 2 ^ 32"
  shows "\<exists>v'. zero_sectors lba n v = (0, v') \<and> v_fs v' = v_fs v \<and> dev_ok (v_dev v') \<and>
    (\<forall>m<2 ^ 32. vsec v' m = (if unat lba \<le> m \<and> m < unat lba + n then replicate 512 0 else vsec v m))"
  using assms
proof (induction n arbitrary: lba v)
  case 0
  then show ?case by (intro exI [of _ v]) auto
next
  case (Suc n)
  obtain v1 where w: "write_sector lba (replicate 512 0) v = (0, v1)" and f: "v_fs v1 = v_fs v" and d: "dev_ok (v_dev v1)"
    and s: "\<forall>m<2 ^ 32. vsec v1 m = (if m = unat lba then replicate 512 0 else vsec v m)"
    using write_sector_ok [OF Suc.prems(1), of "replicate 512 0" lba] by auto
  have u: "unat (lba + 1) = unat lba + 1" using Suc.prems(2) by (simp add: unat_plus_if')
  obtain v' where z: "zero_sectors (lba + 1) n v1 = (0, v')" and f': "v_fs v' = v_fs v1" "dev_ok (v_dev v')"
    and s': "\<forall>m<2 ^ 32. vsec v' m = (if unat (lba + 1) \<le> m \<and> m < unat (lba + 1) + n then replicate 512 0 else vsec v1 m)"
    using Suc.IH [OF d, of "lba + 1"] Suc.prems(2) u by auto
  have "vsec v' m = (if unat lba \<le> m \<and> m < unat lba + Suc n then replicate 512 0 else vsec v m)" if m: "m < 2 ^ 32" for m
    unfolding s' [rule_format, OF m] s [rule_format, OF m] u by auto
  then show ?case using w z f f' by auto
qed

lemma zero_cluster_ok:
  assumes "fat_geom v" and "valid_cluster v c"
  shows "\<exists>v'. fat32_zero_cluster c v = (0, v') \<and> v_fs v' = v_fs v \<and> fat_geom v' \<and>
    (\<forall>m<2 ^ 32. vsec v' m = (if m \<in> cluster_sectors v (unat c) then replicate 512 0 else vsec v m))"
proof -
  have "dev_ok (v_dev v)" using assms(1) by (simp add: fat_geom_def)
  moreover have "cluster_lba v (unat c) + spc v < 2 ^ 32"
    using cluster_lba_bound [OF assms(1)] assms(2) by (simp add: valid_cluster_def)
  ultimately show ?thesis
    using zero_sectors_ok [of v "fat32_cluster_to_lba (v_fs v) c" "spc v"] fat_geom_fs [OF _ _ assms(1)]
    unfolding fat32_zero_cluster_def cluster_to_lba_ok [OF assms] cluster_sectors_def by auto
qed

text \<open>Entries only depend on sectors of the tables.\<close>

lemma fat_entry_cong:
  assumes "fat_geom v" and "same_geom v v'" and "\<forall>m<data0 v. vsec v' m = vsec v m" and "k < nfats v" and "d < cc v + 2"
  shows "fat_entry v' k d = fat_entry v k d"
  using entry_sector_below [OF assms(1,4,5)] assms(3)
  by (simp add: fat_entry_def same_geomD(8) [OF assms(2)])

section \<open>Allocating a cluster\<close>

text \<open>
  Cluster \<open>c\<close> has been taken: its entry marks an end of chain in every copy, its sectors are
  zero, nothing else of the tables or the data differs.
\<close>

definition cluster_taken :: "fat_vol \<Rightarrow> u32 \<Rightarrow> fat_vol \<Rightarrow> bool" where
  "cluster_taken v c v' \<longleftrightarrow> valid_cluster v c \<and> fat_entry v 0 (unat c) = 0 \<and>
     same_geom v v' \<and> fat_upd v (unat c) FAT32_EOC v' \<and> same_data v (cluster_sectors v (unat c)) v' \<and>
     (\<forall>m\<in>cluster_sectors v (unat c). vsec v' m = replicate 512 0)"

lemma fat_geom_same:
  "same_geom v v' \<Longrightarrow> dev_ok (v_dev v') \<Longrightarrow> bytes_per_sector (v_fs v') = 512 \<Longrightarrow> fat_geom v \<Longrightarrow> fat_geom v'"
  by (simp add: fat_geom_def same_geomD)

lemma take_cluster_ok:
  assumes "fat_geom v" and "valid_cluster v c" and "fat_entry v 0 (unat c) = 0"
  shows "\<exists>v1 v2. fat32_write_fat_entry c FAT32_EOC v = (0, v1) \<and> fat32_zero_cluster c v1 = (0, v2) \<and>
    v_fs v2 = v_fs v \<and> fat_geom v2 \<and> cluster_taken v c (v2\<lparr>v_fs := (v_fs v2)\<lparr>alloc_hint := h\<rparr>\<rparr>)"
proof -
  obtain v1 where w: "fat32_write_fat_entry c FAT32_EOC v = (0, v1)" and f1: "v_fs v1 = v_fs v" and g1: "fat_geom v1"
    and u1: "fat_upd v (unat c) FAT32_EOC v1" and d1: "same_data v {} v1"
    using write_fat_upd [OF assms(1,2), of FAT32_EOC] by auto
  have c1: "valid_cluster v1 c" and cs: "cluster_sectors v1 = cluster_sectors v"
    using assms(2) f1 by (auto simp: valid_cluster_def cluster_sectors_def cluster_lba_def)
  obtain v2 where z: "fat32_zero_cluster c v1 = (0, v2)" and f2: "v_fs v2 = v_fs v1" and g2: "fat_geom v2"
    and s2: "\<forall>m<2 ^ 32. vsec v2 m = (if m \<in> cluster_sectors v (unat c) then replicate 512 0 else vsec v1 m)"
    using zero_cluster_ok [OF g1 c1] by (auto simp: cs)
  let ?v' = "v2\<lparr>v_fs := (v_fs v2)\<lparr>alloc_hint := h\<rparr>\<rparr>"
  have sg: "same_geom v ?v'" "same_geom v1 ?v'" by (simp_all add: same_geom_def f1 f2)
  have vs: "vsec ?v' = vsec v2" by (intro ext) (simp add: vsec_def)
  have hi: "data0 v \<le> m" "m < 2 ^ 32" if "m \<in> cluster_sectors v (unat c)" for m
    using that cluster_lba_bound [OF assms(1), of "unat c"] assms(2)
    by (auto simp: cluster_sectors_def cluster_lba_def valid_cluster_def)
  have lo: "vsec ?v' m = vsec v1 m" if "m < data0 v1" for m
    using that s2 hi [of m] data_small [OF assms(1)] f1 unfolding vs by force
  have "fat_upd v (unat c) FAT32_EOC ?v'"
    unfolding fat_upd_def using u1 fat_entry_cong [OF g1 sg(2)] lo f1 by (simp add: fat_upd_def)
  moreover have "same_data v (cluster_sectors v (unat c)) ?v'"
    using d1 s2 unfolding same_data_def vs by auto
  moreover have "vsec ?v' m = replicate 512 0" if "m \<in> cluster_sectors v (unat c)" for m
    unfolding vs using s2 hi [OF that] that by simp
  ultimately have "cluster_taken v c ?v'" using assms(2,3) sg(1) by (simp add: cluster_taken_def)
  then show ?thesis using w z f1 f2 g2 by auto
qed

text \<open>One pass from \<open>c\<close> on takes the first free cluster, or finds none.\<close>

lemma alloc_pass_ok:
  assumes "fat_geom v" and "2 \<le> unat c"
  shows "(\<exists>d v'. alloc_pass c (cluster_count (v_fs v) + 1) v = Some (Some 0, d, v') \<and> fat_geom v' \<and>
      cluster_taken v d v' \<and> alloc_hint (v_fs v') = d + 1 \<and> c \<le> d \<and>
      (\<forall>e. unat c \<le> e \<longrightarrow> e < unat d \<longrightarrow> fat_entry v 0 e \<noteq> 0)) \<or>
    (alloc_pass c (cluster_count (v_fs v) + 1) v = Some (None, 0, v) \<and>
      (\<forall>e. unat c \<le> e \<longrightarrow> e < cc v + 2 \<longrightarrow> fat_entry v 0 e \<noteq> 0))"
  using assms(2)
proof (induction "cc v + 2 - unat c" arbitrary: c rule: less_induct)
  case less
  have small: "cc v + 2 \<le> 0x0FFFFFF8" using assms(1) by (simp add: fat_geom_def)
  then have mx: "unat (cluster_count (v_fs v) + 1) = cc v + 1" by (simp add: unat_plus_if')
  show ?case
  proof (cases "c \<le> cluster_count (v_fs v) + 1")
    case False
    then have "cc v + 2 \<le> unat c" by (simp add: word_le_nat_alt mx)
    then show ?thesis using False by (subst (1 2) alloc_pass.simps) auto
  next
    case True
    then have v: "valid_cluster v c" using less.prems by (simp add: valid_cluster_def word_le_nat_alt mx)
    note rd = read_fat_entry_ok [OF assms(1) v]
    show ?thesis
    proof (cases "fat_entry v 0 (unat c) = 0")
      case z: True
      obtain v1 v2 where t: "fat32_write_fat_entry c FAT32_EOC v = (0, v1)" "fat32_zero_cluster c v1 = (0, v2)"
        and g2: "fat_geom v2" and tk: "cluster_taken v c (v2\<lparr>v_fs := (v_fs v2)\<lparr>alloc_hint := c + 1\<rparr>\<rparr>)"
        using take_cluster_ok [OF assms(1) v z] by blast
      have "alloc_pass c (cluster_count (v_fs v) + 1) v = Some (Some 0, c, v2\<lparr>v_fs := (v_fs v2)\<lparr>alloc_hint := c + 1\<rparr>\<rparr>)"
        using True z t by (subst alloc_pass.simps) (simp add: rd)
      moreover have "fat_geom (v2\<lparr>v_fs := (v_fs v2)\<lparr>alloc_hint := c + 1\<rparr>\<rparr>)"
        using g2 by (simp add: fat_geom_def)
      ultimately show ?thesis using tk by auto
    next
      case nz: False
      have u: "unat (c + 1) = unat c + 1" using v small by (simp add: valid_cluster_def unat_plus_if')
      have e: "alloc_pass c (cluster_count (v_fs v) + 1) v = alloc_pass (c + 1) (cluster_count (v_fs v) + 1) v"
        using True nz by (subst alloc_pass.simps) (simp add: rd)
      have le: "(\<forall>e. unat c \<le> e \<longrightarrow> P e) \<longleftrightarrow> P (unat c) \<and> (\<forall>e. unat (c + 1) \<le> e \<longrightarrow> P e)" for P
        unfolding u by (metis Suc_eq_plus1 Suc_leD Suc_leI le_neq_implies_less order_refl)
      have "cc v + 2 - unat (c + 1) < cc v + 2 - unat c" "2 \<le> unat (c + 1)"
        using v u unfolding valid_cluster_def by linarith+
      from less.hyps [OF this] show ?thesis unfolding e le using nz u by (auto simp: word_le_nat_alt)
    qed
  qed
qed

lemma alloc_cluster_ok:
  assumes "fat_geom v"
  shows "(\<exists>c v'. fat32_alloc_cluster v = Some (0, c, v') \<and> fat_geom v' \<and> cluster_taken v c v' \<and>
      alloc_hint (v_fs v') = c + 1) \<or>
    (fat32_alloc_cluster v = Some (- ENOSPC, 0, v) \<and> (\<forall>e. 2 \<le> e \<and> e < cc v + 2 \<longrightarrow> fat_entry v 0 e \<noteq> 0))"
proof -
  let ?start = "if alloc_hint (v_fs v) < FAT32_MIN_CLUSTER then FAT32_MIN_CLUSTER else alloc_hint (v_fs v)"
  have s: "2 \<le> unat ?start" by (auto simp: word_less_nat_alt)
  have t: "2 \<le> unat FAT32_MIN_CLUSTER" by simp
  from alloc_pass_ok [OF assms s] show ?thesis
  proof (elim disjE exE conjE)
    fix d v'
    assume "alloc_pass ?start (cluster_count (v_fs v) + 1) v = Some (Some 0, d, v')" "fat_geom v'" "cluster_taken v d v'"
      "alloc_hint (v_fs v') = d + 1"
    then show ?thesis unfolding fat32_alloc_cluster_def Let_def by simp
  next
    assume n: "alloc_pass ?start (cluster_count (v_fs v) + 1) v = Some (None, 0, v)"
    from alloc_pass_ok [OF assms t] show ?thesis
      unfolding fat32_alloc_cluster_def Let_def n by (elim disjE exE conjE) simp_all
  qed
qed

text \<open>
  C23. On a sound volume the search for a free cluster always ends. It takes a cluster whose
  entry was 0: that entry becomes an end of chain in every copy of the table, the sectors of the
  cluster become zero, no other entry and no other data sector changes, and the next search
  starts behind it. It fails, with \<^verbatim>\<open>-ENOSPC\<close> and no change at all, only when no cluster is
  free.
\<close>
theorem alloc_cluster_takes_free:
  assumes "fat_geom v"
  shows "(\<exists>c v'. fat32_alloc_cluster v = Some (0, c, v') \<and> fat_geom v' \<and> cluster_taken v c v' \<and>
      alloc_hint (v_fs v') = c + 1) \<or>
    (fat32_alloc_cluster v = Some (- ENOSPC, 0, v) \<and> (\<forall>e. 2 \<le> e \<and> e < cc v + 2 \<longrightarrow> fat_entry v 0 e \<noteq> 0))"
  using assms by (rule alloc_cluster_ok)

section \<open>Freeing a chain\<close>

lemma max_cluster: "fat_geom v \<Longrightarrow> unat (cluster_count (v_fs v) + 1) = cc v + 1"
  by (simp add: fat_geom_def unat_plus_if')

lemma free_guard:
  assumes "fat_geom v"
  shows "(FAT32_MIN_CLUSTER \<le> c \<and> c \<le> cluster_count (v_fs v) + 1 \<and> c < FAT32_EOC) \<longleftrightarrow> valid_cluster v c"
  using assms by (auto simp: valid_cluster_def word_le_nat_alt word_less_nat_alt max_cluster fat_geom_def)

lemma free_chain_step:
  assumes "fat_geom v" and "valid_cluster v c"
  shows "\<exists>v1. free_chain_loop c (cluster_count (v_fs v) + 1) v =
      free_chain_loop (fat_entry v 0 (unat c)) (cluster_count (v_fs v1) + 1) v1 \<and>
    v_fs v1 = v_fs v \<and> fat_geom v1 \<and> fat_upd v (unat c) 0 v1 \<and> same_data v {} v1"
proof -
  obtain v1 where w: "fat32_write_fat_entry c 0 v = (0, v1)" "v_fs v1 = v_fs v" "fat_geom v1"
    "fat_upd v (unat c) 0 v1" "same_data v {} v1"
    using write_fat_upd [OF assms, of 0] by auto
  have "free_chain_loop c (cluster_count (v_fs v) + 1) v =
      free_chain_loop (fat_entry v 0 (unat c)) (cluster_count (v_fs v) + 1) v1"
    using free_guard [OF assms(1), of c] assms(2) w(1)
    by (subst free_chain_loop.simps) (simp add: read_fat_entry_ok [OF assms])
  then show ?thesis using w by (intro exI [of _ v1]) simp
qed

lemma free_chain_stop:
  assumes "fat_geom v" and "\<not> valid_cluster v c"
  shows "free_chain_loop c (cluster_count (v_fs v) + 1) v = Some (0, v)"
  using free_guard [OF assms(1), of c] assms(2) by (subst free_chain_loop.simps) auto

text \<open>The entries in use: each step of the loop clears one, or meets a free one and ends.\<close>

definition used_entries :: "fat_vol \<Rightarrow> nat set" where
  "used_entries v = {d. 2 \<le> d \<and> d < cc v + 2 \<and> fat_entry v 0 d \<noteq> 0}"

lemma finite_used: "finite (used_entries v)"
  by (rule finite_subset [of _ "{..< cc v + 2}"]) (auto simp: used_entries_def)

lemma used_after_clear:
  assumes "fat_geom v" and "v_fs v1 = v_fs v" and "fat_upd v (unat c) 0 v1"
  shows "used_entries v1 = used_entries v - {unat c}"
proof -
  have "0 < nfats v" using assms(1) by (simp add: fat_geom_def)
  then have "fat_entry v1 0 d = (if d = unat c then 0 else fat_entry v 0 d)" if "d < cc v + 2" for d
    using assms(3) that unfolding fat_upd_def by blast
  then show ?thesis using assms(2) by (auto simp: used_entries_def split: if_splits)
qed

text \<open>
  C25. Freeing a chain always ends, whatever the table says: the loop clears each entry before
  it goes on, so even a chain that runs into itself stops at the entry cleared first. Every
  entry keeps its value or becomes 0, alike in every copy of the table, and no data sector
  changes.
\<close>
theorem free_chain_returns:
  assumes "fat_geom v"
  shows "\<exists>v'. fat32_free_chain c v = Some (0, v') \<and> fat_geom v' \<and> v_fs v' = v_fs v \<and> same_data v {} v' \<and>
    (\<exists>F. \<forall>k<nfats v. \<forall>d<cc v + 2. fat_entry v' k d = (if d \<in> F then 0 else fat_entry v k d))"
  using assms
proof (induction "card (used_entries v)" arbitrary: c v rule: less_induct)
  case less
  show ?case
  proof (cases "valid_cluster v c")
    case False
    then show ?thesis unfolding fat32_free_chain_def free_chain_stop [OF less.prems False]
      using less.prems by (auto simp: same_data_def intro: exI [of _ "{}"])
  next
    case True
    obtain v1 where e: "free_chain_loop c (cluster_count (v_fs v) + 1) v =
        free_chain_loop (fat_entry v 0 (unat c)) (cluster_count (v_fs v1) + 1) v1"
      and f: "v_fs v1 = v_fs v" and g: "fat_geom v1" and u: "fat_upd v (unat c) 0 v1" and d: "same_data v {} v1"
      using free_chain_step [OF less.prems True] by blast
    show ?thesis
    proof (cases "fat_entry v 0 (unat c) = 0")
      case z: True
      have "free_chain_loop 0 (cluster_count (v_fs v1) + 1) v1 = Some (0, v1)"
        by (rule free_chain_stop [OF g]) (simp add: valid_cluster_def)
      then show ?thesis unfolding fat32_free_chain_def e z
        using f g d u by (auto simp: fat_upd_def intro!: exI [of _ "{unat c}"])
    next
      case False
      then have "unat c \<in> used_entries v" using True by (simp add: used_entries_def valid_cluster_def)
      then have "card (used_entries v1) < card (used_entries v)"
        unfolding used_after_clear [OF less.prems f u] using finite_used by (intro card_Diff1_less)
      from less.hyps [OF this g, of "fat_entry v 0 (unat c)"] obtain v' F where
        r: "free_chain_loop (fat_entry v 0 (unat c)) (cluster_count (v_fs v1) + 1) v1 = Some (0, v')"
        and g': "fat_geom v'" and f': "v_fs v' = v_fs v1" and d': "same_data v1 {} v'"
        and u': "\<forall>k<nfats v1. \<forall>d<cc v1 + 2. fat_entry v' k d = (if d \<in> F then 0 else fat_entry v1 k d)"
        unfolding fat32_free_chain_def by blast
      have "\<forall>k<nfats v. \<forall>d<cc v + 2. fat_entry v' k d = (if d \<in> insert (unat c) F then 0 else fat_entry v k d)"
        using u' u f by (simp add: fat_upd_def)
      moreover have "same_data v {} v'" using same_data_trans [OF same_geom_eq [OF f] d d'] by simp
      ultimately show ?thesis unfolding fat32_free_chain_def e r using f f' g' by auto
    qed
  qed
qed

section \<open>Chains as lists of clusters\<close>

text \<open>The clusters a chain runs through, up to its end-of-chain mark.\<close>

fun is_chain :: "fat_vol \<Rightarrow> u32 \<Rightarrow> u32 list \<Rightarrow> bool" where
  "is_chain v c [] = (FAT32_EOC \<le> c)"
| "is_chain v c (x # xs) = (x = c \<and> valid_cluster v c \<and> is_chain v (fat_entry v 0 (unat c)) xs)"

lemma valid_not_eoc: "fat_geom v \<Longrightarrow> valid_cluster v c \<Longrightarrow> c < FAT32_EOC"
  using valid_bound [of v c] by (simp add: word_less_nat_alt)

lemma valid_not_small: "valid_cluster v c \<Longrightarrow> \<not> c < FAT32_MIN_CLUSTER"
  by (simp add: word_less_nat_alt valid_cluster_def)

lemma chain_unique: "fat_geom v \<Longrightarrow> is_chain v c xs \<Longrightarrow> is_chain v c ys \<Longrightarrow> xs = ys"
proof (induction xs arbitrary: c ys)
  case Nil
  then show ?case using valid_not_eoc [of v c] by (cases ys) auto
next
  case (Cons x xs)
  then show ?case using valid_not_eoc [of v c] by (cases ys) auto
qed

lemma chain_suffix: "is_chain v c (xs @ y # ys) \<Longrightarrow> is_chain v y (y # ys)"
  by (induction xs arbitrary: c) auto

lemma chain_distinct:
  assumes "fat_geom v" and "is_chain v c cs"
  shows "distinct cs"
proof (rule ccontr)
  assume "\<not> distinct cs"
  then obtain xs y ys zs where cs: "cs = xs @ [y] @ ys @ [y] @ zs" using not_distinct_decomp by blast
  have "is_chain v y (y # ys @ y # zs)" using chain_suffix [of v c xs y "ys @ y # zs"] assms(2) cs by simp
  moreover have "is_chain v y (y # zs)" using chain_suffix [of v c "xs @ y # ys" y zs] assms(2) cs by simp
  ultimately have "y # ys @ y # zs = y # zs" by (rule chain_unique [OF assms(1)])
  then show False using length_append [of ys "y # zs"] by (metis length_Cons list.inject not_add_less2 lessI)
qed

lemma chain_used:
  assumes "fat_geom v" and "is_chain v c cs" and "x \<in> set cs"
  shows "valid_cluster v x \<and> fat_entry v 0 (unat x) \<noteq> 0"
  using assms(2,3)
proof (induction cs arbitrary: c)
  case Nil
  then show ?case by simp
next
  case (Cons y ys)
  then show ?case by (cases ys) (auto simp: valid_cluster_def)
qed

lemma chain_cong:
  assumes "same_geom v v'" and "is_chain v c cs"
    and "\<forall>x\<in>set cs. fat_entry v' 0 (unat x) = fat_entry v 0 (unat x)"
  shows "is_chain v' c cs"
  using assms(2,3) by (induction cs arbitrary: c) (auto simp: same_geomD(7) [OF assms(1)])

lemma chain_keep:
  assumes "fat_geom v" and "same_geom v v'" and "is_chain v b bs" and "unat ` set bs \<inter> D = {}"
    and "\<forall>d<cc v + 2. d \<notin> D \<longrightarrow> fat_entry v' 0 d = fat_entry v 0 d"
  shows "is_chain v' b bs"
proof (rule chain_cong [OF assms(2,3)], rule ballI)
  fix y assume y: "y \<in> set bs"
  have "unat y < cc v + 2" using chain_used [OF assms(1,3) y] by (simp add: valid_cluster_def)
  moreover have "unat y \<notin> D" using y assms(4) by auto
  ultimately show "fat_entry v' 0 (unat y) = fat_entry v 0 (unat y)" using assms(5) by blast
qed

lemma nfats_pos: "fat_geom v \<Longrightarrow> 0 < nfats v"
  by (simp add: fat_geom_def)

lemma fat_upd_others:
  "fat_geom v \<Longrightarrow> fat_upd v c x v' \<Longrightarrow> d < cc v + 2 \<Longrightarrow> fat_entry v' 0 d = (if d = c then x else fat_entry v 0 d)"
  by (auto simp: fat_upd_def nfats_pos)

lemma free_chain_clears:
  assumes "fat_geom v" and "is_chain v c cs"
  shows "\<exists>v'. fat32_free_chain c v = Some (0, v') \<and> fat_geom v' \<and> v_fs v' = v_fs v \<and> same_data v {} v' \<and>
    (\<forall>k<nfats v. \<forall>d<cc v + 2. fat_entry v' k d = (if d \<in> unat ` set cs then 0 else fat_entry v k d))"
  using assms
proof (induction cs arbitrary: c v)
  case Nil
  then have "\<not> valid_cluster v c" using valid_not_eoc [of v c] by auto
  then show ?case unfolding fat32_free_chain_def free_chain_stop [OF Nil.prems(1) \<open>\<not> valid_cluster v c\<close>]
    using Nil.prems(1) by (simp add: same_data_def)
next
  case (Cons x xs)
  then have c: "x = c" "valid_cluster v c" "is_chain v (fat_entry v 0 (unat c)) xs" by simp_all
  obtain v1 where e: "free_chain_loop c (cluster_count (v_fs v) + 1) v =
      free_chain_loop (fat_entry v 0 (unat c)) (cluster_count (v_fs v1) + 1) v1"
    and f: "v_fs v1 = v_fs v" and g: "fat_geom v1" and u: "fat_upd v (unat c) 0 v1" and d: "same_data v {} v1"
    using free_chain_step [OF Cons.prems(1) c(2)] by blast
  have nc: "unat ` set xs \<inter> {unat c} = {}"
    using chain_distinct [OF Cons.prems] c(1) by (auto simp: word_unat_eq_iff [symmetric])
  have "is_chain v1 (fat_entry v 0 (unat c)) xs"
    by (rule chain_keep [OF Cons.prems(1) same_geom_eq [OF f] c(3) nc])
      (simp add: fat_upd_others [OF Cons.prems(1) u])
  from Cons.IH [OF g this] obtain v' where
    r: "free_chain_loop (fat_entry v 0 (unat c)) (cluster_count (v_fs v1) + 1) v1 = Some (0, v')"
    and v': "fat_geom v'" "v_fs v' = v_fs v1" "same_data v1 {} v'"
      "\<forall>k<nfats v1. \<forall>d<cc v1 + 2. fat_entry v' k d = (if d \<in> unat ` set xs then 0 else fat_entry v1 k d)"
    unfolding fat32_free_chain_def by blast
  have "same_data v {} v'" using same_data_trans [OF same_geom_eq [OF f] d v'(3)] by simp
  then show ?case unfolding fat32_free_chain_def e r using v' u f c(1) by (auto simp: fat_upd_def)
qed

text \<open>
  C24. Freeing the chain of a file clears exactly the entries the chain runs through, in every
  copy of the table: each other entry and all data stay, so every chain that shares no cluster
  with it stays a chain.
\<close>
theorem free_chain_frees:
  assumes "fat_geom v" and "is_chain v c cs"
  shows "\<exists>v'. fat32_free_chain c v = Some (0, v') \<and> fat_geom v' \<and> v_fs v' = v_fs v \<and> same_data v {} v' \<and>
    (\<forall>k<nfats v. \<forall>d<cc v + 2. fat_entry v' k d = (if d \<in> unat ` set cs then 0 else fat_entry v k d)) \<and>
    (\<forall>b bs. is_chain v b bs \<and> set bs \<inter> set cs = {} \<longrightarrow> is_chain v' b bs)"
proof -
  obtain v' where v': "fat32_free_chain c v = Some (0, v')" "fat_geom v'" "v_fs v' = v_fs v" "same_data v {} v'"
    "\<forall>k<nfats v. \<forall>d<cc v + 2. fat_entry v' k d = (if d \<in> unat ` set cs then 0 else fat_entry v k d)"
    using free_chain_clears [OF assms] by blast
  have "is_chain v' b bs" if b: "is_chain v b bs" "set bs \<inter> set cs = {}" for b bs
  proof (rule chain_keep [OF assms(1) same_geom_eq [OF v'(3)] b(1)])
    show "unat ` set bs \<inter> unat ` set cs = {}" using b(2) by (auto simp: word_unat_eq_iff [symmetric])
  qed (use v'(5) nfats_pos [OF assms(1)] in auto)
  then show ?thesis using v' by blast
qed

section \<open>The cluster at an index\<close>

lemma get_cluster_chain:
  assumes "fat_geom v"
  shows "is_chain v c cs \<Longrightarrow> get_cluster_loop v c n = (if n < length cs then (0, cs ! n) else (- ENOENT, 0))"
proof (induction n arbitrary: c cs)
  case 0
  then show ?case using valid_not_small [of v c] valid_not_eoc [OF assms, of c]
    by (cases cs) (auto simp: not_le)
next
  case (Suc n)
  show ?case
  proof (cases cs)
    case Nil
    then show ?thesis using Suc.prems by simp
  next
    case (Cons x xs)
    then have c: "valid_cluster v c" "is_chain v (fat_entry v 0 (unat c)) xs" using Suc.prems by simp_all
    have "\<not> (c < FAT32_MIN_CLUSTER \<or> FAT32_EOC \<le> c)"
      using valid_not_small [OF c(1)] valid_not_eoc [OF assms c(1)] by (simp add: not_le)
    then have "get_cluster_loop v c (Suc n) = get_cluster_loop v (fat_entry v 0 (unat c)) n"
      by (simp add: read_fat_entry_ok [OF assms c(1)])
    then show ?thesis using Suc.IH [OF c(2)] Cons by simp
  qed
qed

text \<open>
  Reading a chain by index is indexing its list of clusters; an index past its end is
  \<^verbatim>\<open>-ENOENT\<close>.
\<close>
theorem get_cluster_at_nth:
  assumes "fat_geom v" and "is_chain v start cs"
  shows "fat32_get_cluster_at v start index =
    (if unat index < length cs then (0, cs ! unat index) else (- ENOENT, 0))"
  by (simp add: fat32_get_cluster_at_def get_cluster_chain [OF assms])

section \<open>Extending a chain\<close>

text \<open>The clusters \<open>cs\<close> of a file, whose first cluster is 0 while it has none.\<close>

definition file_chain :: "fat_vol \<Rightarrow> u32 \<Rightarrow> u32 list \<Rightarrow> bool" where
  "file_chain v start cs \<longleftrightarrow> (if cs = [] then start = 0 else is_chain v start cs)"

text \<open>
  From \<open>v\<close> to \<open>v'\<close> the clusters \<open>new\<close>, free in \<open>v\<close>, have been taken and zeroed; besides theirs
  only the entries in \<open>D\<close> may differ.
\<close>

definition grown :: "fat_vol \<Rightarrow> nat set \<Rightarrow> u32 list \<Rightarrow> fat_vol \<Rightarrow> bool" where
  "grown v D new v' \<longleftrightarrow> fat_geom v' \<and> same_geom v v' \<and>
     (\<forall>c\<in>set new. valid_cluster v c \<and> fat_entry v 0 (unat c) = 0 \<and>
        (\<forall>m\<in>cluster_sectors v (unat c). vsec v' m = replicate 512 0)) \<and>
     (\<forall>k<nfats v. \<forall>d<cc v + 2. d \<notin> D \<union> unat ` set new \<longrightarrow> fat_entry v' k d = fat_entry v k d) \<and>
     same_data v (\<Union>c\<in>set new. cluster_sectors v (unat c)) v'"

lemma and_28: "unat x < 2 ^ 28 \<Longrightarrow> x AND 0x0FFFFFFF = (x :: u32)"
  by (simp add: word_unat_eq_iff fat_masks(1) take_bit_eq_mask [symmetric] unsigned_take_bit_eq take_bit_nat_eq_self)

lemma chain_extend:
  assumes "fat_geom v" and "same_geom v v'" and "valid_cluster v c" and "fat_entry v 0 (unat c) = 0"
    and "is_chain v b cs" and "cs \<noteq> []" and "fat_entry v' 0 (unat (last cs)) = c" and "FAT32_EOC \<le> fat_entry v' 0 (unat c)"
    and "\<forall>d<cc v + 2. d \<noteq> unat (last cs) \<and> d \<noteq> unat c \<longrightarrow> fat_entry v' 0 d = fat_entry v 0 d"
  shows "is_chain v' b (cs @ [c])"
  using assms(5-9)
proof (induction cs arbitrary: b)
  case Nil
  then show ?case by simp
next
  case (Cons x xs)
  note vc = same_geomD(7) [OF assms(2)]
  have x: "x = b" "valid_cluster v b" "is_chain v (fat_entry v 0 (unat b)) xs" using Cons.prems(1) by simp_all
  show ?case
  proof (cases "xs = []")
    case True
    then show ?thesis using Cons.prems x assms(3) by (simp add: vc)
  next
    case False
    have nl: "x \<noteq> last xs" using chain_distinct [OF assms(1) Cons.prems(1)] False by auto
    have nc: "x \<noteq> c" using chain_used [OF assms(1) Cons.prems(1), of x] assms(4) by auto
    have "fat_entry v' 0 (unat b) = fat_entry v 0 (unat b)"
      using Cons.prems(5) x nl nc False by (simp add: valid_cluster_def word_unat_eq_iff)
    then show ?thesis using Cons.IH [OF x(3) False] Cons.prems x(1,2) False by (simp add: vc)
  qed
qed

lemma grown_refl: "fat_geom v \<Longrightarrow> grown v D [] v"
  by (simp add: grown_def same_data_def)

lemma taken_grown:
  assumes "fat_geom v'" and "cluster_taken v c v'"
  shows "grown v D [c] v'"
  using assms by (auto simp: grown_def cluster_taken_def fat_upd_def)

lemma ensure_walk_chain:
  assumes "fat_geom v"
  shows "is_chain v c cs \<Longrightarrow> cs \<noteq> [] \<Longrightarrow> ensure_walk v c lst (Suc n) =
    (if Suc n \<le> length cs then Inl 0 else Inr (last cs, Suc n - length cs))"
proof (induction n arbitrary: c cs lst)
  case 0
  then obtain x xs where "cs = x # xs" by (cases cs) auto
  then show ?case using 0 valid_not_eoc [OF assms, of c] by simp
next
  case (Suc n)
  then obtain xs where cs: "cs = c # xs" and c: "valid_cluster v c" "is_chain v (fat_entry v 0 (unat c)) xs"
    by (cases cs) auto
  note r = read_fat_entry_ok [OF assms c(1)] valid_not_eoc [OF assms c(1)]
  show ?case
  proof (cases xs)
    case Nil
    then show ?thesis using c(2) r cs by simp
  next
    case (Cons y ys)
    then have "\<not> FAT32_EOC \<le> fat_entry v 0 (unat c)" using c(2) valid_not_eoc [OF assms] by (simp add: not_le)
    then show ?thesis using r cs Cons Suc.IH [OF c(2), of c] by simp
  qed
qed

lemma cluster_disjoint:
  assumes "2 \<le> c" and "2 \<le> d" and "c \<noteq> d"
  shows "cluster_sectors v c \<inter> cluster_sectors v d = {}"
proof -
  have "cluster_sectors v c \<inter> cluster_sectors v d = {}" if "c < d" "2 \<le> c" for c d
  proof -
    have "Suc (c - 2) * spc v \<le> (d - 2) * spc v" using that by (intro mult_le_mono1) linarith
    then show ?thesis by (auto simp: cluster_sectors_def cluster_lba_def)
  qed
  then show ?thesis using assms by (metis Int_commute linorder_neqE_nat)
qed

lemma cluster_sectors_data:
  assumes "fat_geom v" and "valid_cluster v c" and "m \<in> cluster_sectors v (unat c)"
  shows "data0 v \<le> m" and "m < 2 ^ 32"
  using assms cluster_lba_bound [OF assms(1), of "unat c"]
  by (auto simp: cluster_sectors_def cluster_lba_def valid_cluster_def)

lemma same_cluster_sectors: "same_geom v v' \<Longrightarrow> cluster_sectors v' c = cluster_sectors v c"
  by (simp add: cluster_sectors_def cluster_lba_def same_geomD)

lemma grown_cons:
  assumes "fat_geom v" and "grown v D [c] v2" and "grown v2 {unat c} new v3"
    and "\<forall>d<cc v + 2. fat_entry v2 0 d = 0 \<longrightarrow> fat_entry v 0 d = 0 \<and> d \<noteq> unat c"
  shows "grown v D (c # new) v3"
proof -
  have t: "valid_cluster v c" "fat_entry v 0 (unat c) = 0" "same_data v (cluster_sectors v (unat c)) v2"
    "\<forall>m\<in>cluster_sectors v (unat c). vsec v2 m = replicate 512 0" and g: "same_geom v v2"
    and e2: "\<And>k d. k < nfats v \<Longrightarrow> d < cc v + 2 \<Longrightarrow> d \<notin> D \<Longrightarrow> d \<noteq> unat c \<Longrightarrow> fat_entry v2 k d = fat_entry v k d"
    using assms(2) by (simp_all add: grown_def)
  have n: "fat_geom v3" "same_geom v2 v3" "same_data v2 (\<Union>c\<in>set new. cluster_sectors v (unat c)) v3"
    and new: "\<And>d. d \<in> set new \<Longrightarrow> valid_cluster v d \<and> fat_entry v2 0 (unat d) = 0 \<and>
      (\<forall>m\<in>cluster_sectors v (unat d). vsec v3 m = replicate 512 0)"
    and oth: "\<And>k d. k < nfats v \<Longrightarrow> d < cc v + 2 \<Longrightarrow> d \<noteq> unat c \<Longrightarrow> d \<notin> unat ` set new \<Longrightarrow> fat_entry v3 k d = fat_entry v2 k d"
    using assms(3) by (simp_all add: grown_def same_geomD [OF g] same_cluster_sectors [OF g])
  have free: "fat_entry v 0 (unat d) = 0 \<and> unat d \<noteq> unat c" if "d \<in> set new" for d
    using new [OF that] assms(4) by (simp add: valid_cluster_def)
  have "vsec v3 m = replicate 512 0" if m: "m \<in> cluster_sectors v (unat c)" for m
  proof -
    have b: "data0 v \<le> m" "m < 2 ^ 32" by (rule cluster_sectors_data [OF assms(1) t(1) m])+
    have "m \<notin> cluster_sectors v (unat d)" if "d \<in> set new" for d
      using cluster_disjoint [of "unat c" "unat d" v] t(1) new [OF that] free [OF that] m
      by (auto simp: valid_cluster_def)
    then have "vsec v3 m = vsec v2 m" using n(3) b by (simp add: same_data_def same_geomD [OF g])
    then show ?thesis using t(4) m by simp
  qed
  moreover have "same_data v (cluster_sectors v (unat c) \<union> (\<Union>c\<in>set new. cluster_sectors v (unat c))) v3"
    by (rule same_data_trans [OF g t(3) n(3)])
  ultimately show ?thesis unfolding grown_def
    using n(1) same_geom_trans [OF g n(2)] new free t(1,2) oth e2 by auto
qed

lemma linked_grown:
  assumes "cluster_taken v c v1" and "fat_geom v" and "v_fs v2 = v_fs v1" and "fat_geom v2"
    and "fat_upd v1 (unat lst) c v2" and "same_data v1 {} v2"
  shows "grown v {unat lst} [c] v2"
proof -
  have t: "valid_cluster v c" "fat_entry v 0 (unat c) = 0" "same_geom v v1" "fat_upd v (unat c) FAT32_EOC v1"
    "same_data v (cluster_sectors v (unat c)) v1" "\<forall>m\<in>cluster_sectors v (unat c). vsec v1 m = replicate 512 0"
    using assms(1) by (auto simp: cluster_taken_def)
  have "same_data v (cluster_sectors v (unat c)) v2" using same_data_trans [OF t(3,5) assms(6)] by simp
  moreover have "vsec v2 m = vsec v1 m" if "m \<in> cluster_sectors v (unat c)" for m
    using cluster_sectors_data [OF assms(2) t(1) that] assms(6) by (simp add: same_data_def same_geomD [OF t(3)])
  moreover have "same_geom v v2" using same_geom_trans [OF t(3) same_geom_eq [OF assms(3)]] .
  moreover have "fat_entry v2 k d = fat_entry v k d"
    if "k < nfats v" "d < cc v + 2" "d \<noteq> unat lst" "d \<noteq> unat c" for k d
    using that t(4) assms(5) by (simp add: fat_upd_def same_geomD [OF t(3)])
  ultimately show ?thesis using t(1,2,6) assms(4) by (simp add: grown_def)
qed

lemma ensure_extend_ok:
  assumes "fat_geom v" and "is_chain v b cs" and "cs \<noteq> []"
  shows "\<exists>r v' new. ensure_extend (last cs) n v = Some (r, v') \<and> grown v {unat (last cs)} new v' \<and>
    is_chain v' b (cs @ new) \<and>
    (r = 0 \<and> length new = n \<or>
     r = - ENOSPC \<and> length new < n \<and> (\<forall>e. 2 \<le> e \<and> e < cc v + 2 \<longrightarrow> fat_entry v' 0 e \<noteq> 0))"
  using assms
proof (induction n arbitrary: cs v)
  case 0
  then show ?case using grown_refl [OF 0(1)] by (intro exI [of _ 0] exI [of _ v] exI [of _ "[]"]) simp
next
  case (Suc n)
  have l: "valid_cluster v (last cs)" "fat_entry v 0 (unat (last cs)) \<noteq> 0"
    using chain_used [OF Suc.prems(1,2), of "last cs"] Suc.prems(3) by auto
  from alloc_cluster_ok [OF Suc.prems(1)] show ?case
  proof (elim disjE exE conjE)
    assume a: "fat32_alloc_cluster v = Some (- ENOSPC, 0, v)"
      and full: "\<forall>e. 2 \<le> e \<and> e < cc v + 2 \<longrightarrow> fat_entry v 0 e \<noteq> 0"
    have "ensure_extend (last cs) (Suc n) v = Some (- ENOSPC, v)" by (simp add: a)
    then show ?case using Suc.prems grown_refl [OF Suc.prems(1)] full
      by (intro exI [of _ "- ENOSPC"] exI [of _ v] exI [of _ "[]"]) simp
  next
    fix c v1
    assume a: "fat32_alloc_cluster v = Some (0, c, v1)" and g1: "fat_geom v1" and t: "cluster_taken v c v1"
    have t': "valid_cluster v c" "fat_entry v 0 (unat c) = 0" "same_geom v v1" "fat_upd v (unat c) FAT32_EOC v1"
      using t by (auto simp: cluster_taken_def)
    have c28: "c AND 0x0FFFFFFF = c" using valid_bound [OF Suc.prems(1) t'(1)] by (intro and_28) simp
    obtain v2 where w: "fat32_write_fat_entry (last cs) c v1 = (0, v2)" and f: "v_fs v2 = v_fs v1" and g2: "fat_geom v2"
      and u: "fat_upd v1 (unat (last cs)) c v2" and d: "same_data v1 {} v2"
      using write_fat_upd [OF g1, of "last cs" c] l(1) unfolding same_geomD(7) [OF t'(3)] c28 by blast
    have g: "same_geom v v2" using same_geom_trans [OF t'(3) same_geom_eq [OF f]] .
    have e2: "fat_entry v2 0 d = (if d = unat (last cs) then c else if d = unat c then FAT32_EOC else fat_entry v 0 d)"
      if "d < cc v + 2" for d
      using that t'(4) u nfats_pos [OF Suc.prems(1)] by (simp add: fat_upd_def same_geomD [OF t'(3)])
    have b: "unat c < cc v + 2" "unat (last cs) < cc v + 2" using t'(1) l(1) by (simp_all add: valid_cluster_def)
    have "unat (last cs) \<noteq> unat c" using l(2) t'(2) by auto
    then have ch: "is_chain v2 b (cs @ [c])"
      using e2 b by (intro chain_extend [OF Suc.prems(1) g t'(1,2) Suc.prems(2,3)]) auto
    from Suc.IH [OF g2 ch] obtain r v' new where
      r: "ensure_extend c n v2 = Some (r, v')" "grown v2 {unat c} new v'" "is_chain v' b ((cs @ [c]) @ new)"
        "r = 0 \<and> length new = n \<or> r = - ENOSPC \<and> length new < n \<and> (\<forall>e. 2 \<le> e \<and> e < cc v2 + 2 \<longrightarrow> fat_entry v' 0 e \<noteq> 0)"
      by auto
    have "c \<noteq> 0" using t'(1) by (auto simp: valid_cluster_def)
    then have "\<forall>d<cc v + 2. fat_entry v2 0 d = 0 \<longrightarrow> fat_entry v 0 d = 0 \<and> d \<noteq> unat c"
      using e2 by (auto split: if_splits)
    then have "grown v {unat (last cs)} (c # new) v'"
      by (rule grown_cons [OF Suc.prems(1) linked_grown [OF t Suc.prems(1) f g2 u d] r(2)])
    moreover have "ensure_extend (last cs) (Suc n) v = Some (r, v')" using a w r(1) by simp
    ultimately show ?case using r(3,4)
      by (intro exI [of _ r] exI [of _ v'] exI [of _ "c # new"]) (auto simp: same_geomD [OF g])
  qed
qed

lemma grown_keeps:
  assumes "fat_geom v" and "grown v D new v'" and "is_chain v b bs" and "unat ` set bs \<inter> D = {}"
  shows "is_chain v' b bs"
proof (rule chain_keep [OF assms(1) _ assms(3)])
  show "same_geom v v'" using assms(2) by (simp add: grown_def)
  have "unat x \<noteq> unat c" if "x \<in> set bs" "c \<in> set new" for x c
    using chain_used [OF assms(1,3) that(1)] assms(2) that(2) by (auto simp: grown_def word_unat_eq_iff [symmetric])
  then show "unat ` set bs \<inter> (D \<union> unat ` set new) = {}" using assms(4) by blast
  show "\<forall>d<cc v + 2. d \<notin> D \<union> unat ` set new \<longrightarrow> fat_entry v' 0 d = fat_entry v 0 d"
    using assms(2) nfats_pos [OF assms(1)] by (simp add: grown_def)
qed

lemma grown_mono: "grown v D new v' \<Longrightarrow> D \<subseteq> E \<Longrightarrow> grown v E new v'"
  unfolding grown_def by blast

text \<open>The walk and the extension of a chain that has a cluster.\<close>

lemma ensure_nonempty:
  assumes "fat_geom v" and "is_chain v b cs" and "cs \<noteq> []" and "unat needed = Suc m"
  shows "\<exists>r v' new. (case ensure_walk v b 0 (unat needed) of
        Inl r \<Rightarrow> Some (r, b, v)
      | Inr (lst, n) \<Rightarrow> do { (r, v2) \<leftarrow> ensure_extend lst n v; Some (r, b, v2) }) = Some (r, b, v') \<and>
    is_chain v' b (cs @ new) \<and> grown v {unat (last cs)} new v' \<and>
    (r = 0 \<and> length (cs @ new) = max (length cs) (unat needed) \<or>
     r = - ENOSPC \<and> length (cs @ new) < unat needed \<and> (\<forall>e. 2 \<le> e \<and> e < cc v + 2 \<longrightarrow> fat_entry v' 0 e \<noteq> 0))"
proof (cases "unat needed \<le> length cs")
  case True
  then show ?thesis using ensure_walk_chain [OF assms(1-3), of 0 m] assms(2) grown_refl [OF assms(1)]
    by (intro exI [of _ 0] exI [of _ v] exI [of _ "[]"]) (simp add: assms(4))
next
  case False
  obtain r v' new where e: "ensure_extend (last cs) (unat needed - length cs) v = Some (r, v')"
    "grown v {unat (last cs)} new v'" "is_chain v' b (cs @ new)"
    "r = 0 \<and> length new = unat needed - length cs \<or> r = - ENOSPC \<and> length new < unat needed - length cs \<and>
      (\<forall>e. 2 \<le> e \<and> e < cc v + 2 \<longrightarrow> fat_entry v' 0 e \<noteq> 0)"
    using ensure_extend_ok [OF assms(1-3), of "unat needed - length cs"] by blast
  then show ?thesis using ensure_walk_chain [OF assms(1-3), of 0 m] False assms(4)
    by (intro exI [of _ r] exI [of _ v'] exI [of _ new]) auto
qed

lemma ensure_empty:
  assumes "fat_geom v" and "unat needed = Suc m"
  shows "\<exists>r start' v' new. fat32_ensure_chain 0 needed v = Some (r, start', v') \<and>
    file_chain v' start' new \<and> grown v {} new v' \<and>
    (r = 0 \<and> length new = unat needed \<or>
     r = - ENOSPC \<and> length new < unat needed \<and> (\<forall>e. 2 \<le> e \<and> e < cc v + 2 \<longrightarrow> fat_entry v' 0 e \<noteq> 0))"
proof -
  have n0: "needed \<noteq> 0" using assms(2) by auto
  from alloc_cluster_ok [OF assms(1)] show ?thesis
  proof (elim disjE exE conjE)
    assume "fat32_alloc_cluster v = Some (- ENOSPC, 0, v)"
      and "\<forall>e. 2 \<le> e \<and> e < cc v + 2 \<longrightarrow> fat_entry v 0 e \<noteq> 0"
    then show ?thesis using grown_refl [OF assms(1)] n0 assms(2)
      by (intro exI [of _ "- ENOSPC"] exI [of _ 0] exI [of _ v] exI [of _ "[]"])
        (simp add: fat32_ensure_chain_def file_chain_def)
  next
    fix c v1
    assume a: "fat32_alloc_cluster v = Some (0, c, v1)" and g1: "fat_geom v1" and t: "cluster_taken v c v1"
    have c: "valid_cluster v c" "same_geom v v1" "fat_upd v (unat c) FAT32_EOC v1" using t by (simp_all add: cluster_taken_def)
    have cb: "unat c < cc v + 2" using c(1) by (simp add: valid_cluster_def)
    have ch: "is_chain v1 c [c]"
      using c(1) fat_upd_others [OF assms(1) c(3) cb] by (simp add: same_geomD(7) [OF c(2)])
    obtain r v' new where e: "(case ensure_walk v1 c 0 (unat needed) of
        Inl r \<Rightarrow> Some (r, c, v1)
      | Inr (lst, n) \<Rightarrow> do { (r, v2) \<leftarrow> ensure_extend lst n v1; Some (r, c, v2) }) = Some (r, c, v')"
      and x: "is_chain v' c ([c] @ new)" "grown v1 {unat c} new v'"
      and o': "r = 0 \<and> length ([c] @ new) = max (length [c]) (unat needed) \<or>
        r = - ENOSPC \<and> length ([c] @ new) < unat needed \<and> (\<forall>e. 2 \<le> e \<and> e < cc v1 + 2 \<longrightarrow> fat_entry v' 0 e \<noteq> 0)"
      using ensure_nonempty [OF g1 ch _ assms(2)] by auto
    have "fat32_ensure_chain 0 needed v = Some (r, c, v')" using e n0 a by (simp add: fat32_ensure_chain_def)
    moreover have "grown v {} (c # new) v'"
      by (rule grown_cons [OF assms(1) taken_grown [OF g1 t] x(2)]) (simp add: fat_upd_others [OF assms(1) c(3)])
    ultimately show ?thesis using x(1) o' assms(2)
      by (intro exI [of _ r] exI [of _ c] exI [of _ v'] exI [of _ "c # new"])
        (simp add: file_chain_def same_geomD [OF c(2)])
  qed
qed

lemma ensure_chain_ok:
  assumes "fat_geom v" and "file_chain v start cs"
  shows "\<exists>r start' v' new. fat32_ensure_chain start needed v = Some (r, start', v') \<and>
    file_chain v' start' (cs @ new) \<and> grown v (unat ` set cs) new v' \<and>
    (r = 0 \<and> length (cs @ new) = max (length cs) (unat needed) \<or>
     r = - ENOSPC \<and> length (cs @ new) < unat needed \<and> (\<forall>e. 2 \<le> e \<and> e < cc v + 2 \<longrightarrow> fat_entry v' 0 e \<noteq> 0))"
proof (cases "unat needed")
  case 0
  then have "needed = 0" by (simp add: word_unat_eq_iff)
  then show ?thesis using assms grown_refl [OF assms(1)]
    by (intro exI [of _ 0] exI [of _ start] exI [of _ v] exI [of _ "[]"]) (simp add: fat32_ensure_chain_def)
next
  case (Suc m)
  then have n0: "needed \<noteq> 0" by auto
  show ?thesis
  proof (cases "cs = []")
    case False
    then have ch: "is_chain v start cs" and s0: "start \<noteq> 0"
      using assms(2) by (cases cs; auto simp: file_chain_def valid_cluster_def)+
    obtain r v' new where e: "(case ensure_walk v start 0 (unat needed) of
        Inl r \<Rightarrow> Some (r, start, v)
      | Inr (lst, n) \<Rightarrow> do { (r, v2) \<leftarrow> ensure_extend lst n v; Some (r, start, v2) }) = Some (r, start, v')"
      and x: "is_chain v' start (cs @ new)" "grown v {unat (last cs)} new v'"
      and o': "r = 0 \<and> length (cs @ new) = max (length cs) (unat needed) \<or>
        r = - ENOSPC \<and> length (cs @ new) < unat needed \<and> (\<forall>e. 2 \<le> e \<and> e < cc v + 2 \<longrightarrow> fat_entry v' 0 e \<noteq> 0)"
      using ensure_nonempty [OF assms(1) ch False Suc] by blast
    have "fat32_ensure_chain start needed v = Some (r, start, v')"
      using e n0 s0 by (simp add: fat32_ensure_chain_def)
    moreover have "grown v (unat ` set cs) new v'" by (rule grown_mono [OF x(2)]) (use False in auto)
    ultimately show ?thesis using x(1) o' False unfolding file_chain_def
      by (intro exI [of _ r] exI [of _ start] exI [of _ v'] exI [of _ new]) simp
  next
    case nil: True
    then have "start = 0" using assms(2) by (simp add: file_chain_def)
    then show ?thesis using ensure_empty [OF assms(1) Suc] nil Suc by auto
  qed
qed

text \<open>
  C22. Giving a file at least \<open>needed\<close> clusters always ends. The clusters it had stay, in
  order; new ones, all free before and zeroed, come behind them, just as many as are missing, or
  as many as were free when the volume runs full (\<^verbatim>\<open>-ENOSPC\<close>). Chains that share no cluster
  with the file stay chains.
\<close>
theorem ensure_chain_extends:
  assumes "fat_geom v" and "file_chain v start cs"
  shows "\<exists>r start' v' new. fat32_ensure_chain start needed v = Some (r, start', v') \<and>
    file_chain v' start' (cs @ new) \<and> grown v (unat ` set cs) new v' \<and>
    (r = 0 \<and> length (cs @ new) = max (length cs) (unat needed) \<or>
     r = - ENOSPC \<and> length (cs @ new) < unat needed \<and> (\<forall>e. 2 \<le> e \<and> e < cc v + 2 \<longrightarrow> fat_entry v' 0 e \<noteq> 0)) \<and>
    (\<forall>b bs. is_chain v b bs \<and> set bs \<inter> set cs = {} \<longrightarrow> is_chain v' b bs)"
proof -
  obtain r start' v' new where e: "fat32_ensure_chain start needed v = Some (r, start', v')"
    "file_chain v' start' (cs @ new)" "grown v (unat ` set cs) new v'"
    "r = 0 \<and> length (cs @ new) = max (length cs) (unat needed) \<or>
     r = - ENOSPC \<and> length (cs @ new) < unat needed \<and> (\<forall>e. 2 \<le> e \<and> e < cc v + 2 \<longrightarrow> fat_entry v' 0 e \<noteq> 0)"
    using ensure_chain_ok [OF assms, of needed] by blast
  have "is_chain v' b bs" if "is_chain v b bs" "set bs \<inter> set cs = {}" for b bs
    by (rule grown_keeps [OF assms(1) e(3) that(1)]) (use that(2) in \<open>auto simp: word_unat_eq_iff [symmetric]\<close>)
  then show ?thesis using e by blast
qed
text \<open>
  An entry of the table reads back as last written, in its low 28 bits, and no other
  entry changes; the write goes to every copy of the table and to no data sector.
\<close>
theorem fat_entry_write_read:
  assumes "fat_geom v" and "valid_cluster v c"
  shows "\<exists>v'. fat32_write_fat_entry c x v = (0, v') \<and> fat_geom v' \<and> v_fs v' = v_fs v \<and> same_data v {} v' \<and>
    (\<forall>d. valid_cluster v d \<longrightarrow>
       fat32_read_fat_entry v' d = (if d = c then (0, x AND 0x0FFFFFFF) else fat32_read_fat_entry v d)) \<and>
    (\<forall>k<nfats v. \<forall>d<cc v + 2. fat_entry v' k d = (if d = unat c then x AND 0x0FFFFFFF else fat_entry v k d))"
proof -
  obtain v' where w: "fat32_write_fat_entry c x v = (0, v')" "v_fs v' = v_fs v" "fat_geom v'"
    "fat_upd v (unat c) (x AND 0x0FFFFFFF) v'" "same_data v {} v'"
    using write_fat_upd [OF assms, of x] by blast
  have "fat32_read_fat_entry v' d = (if d = c then (0, x AND 0x0FFFFFFF) else fat32_read_fat_entry v d)"
    if d: "valid_cluster v d" for d
  proof -
    have "valid_cluster v' d" "unat d < cc v + 2" using d w(2) by (simp_all add: valid_cluster_def)
    then show ?thesis
      using read_fat_entry_ok [OF w(3), of d] read_fat_entry_ok [OF assms(1) d]
        fat_upd_others [OF assms(1) w(4), of "unat d"] by (simp add: word_unat_eq_iff)
  qed
  then show ?thesis using w by (auto simp: fat_upd_def)
qed

section \<open>A small volume\<close>

text \<open>
  Four clusters of one sector, two copies of the table: a file in clusters 2 and 3, clusters 4
  and 5 free.
\<close>

definition demo_table :: "u8 list" where
  "demo_table = [0xF8, 0xFF, 0xFF, 0x0F, 0xFF, 0xFF, 0xFF, 0x0F, 3, 0, 0, 0, 0xFF, 0xFF, 0xFF, 0x0F] @ replicate 496 0"

definition demo_vol :: fat_vol where
  "demo_vol = \<lparr>v_fs = zero_fs\<lparr>fat_lba := 1, data_lba := 3, sectors_per_fat := 1, num_fats := 2,
       cluster_count := 4, sectors_per_cluster := 1, bytes_per_sector := 512, root_cluster := 2, alloc_hint := 2\<rparr>,
     v_dev = \<lparr>sectors = (\<lambda>l. if l = 1 \<or> l = 2 then demo_table else replicate 512 0),
       read_fails = (\<lambda>l. False), write_fails = (\<lambda>l. False)\<rparr>\<rparr>"

lemma demo_geom: "fat_geom demo_vol"
  by (simp add: fat_geom_def demo_vol_def zero_fs_def dev_ok_def demo_table_def)

lemma demo_valid: "valid_cluster demo_vol c \<longleftrightarrow> 2 \<le> unat c \<and> unat c < 6"
  by (simp add: valid_cluster_def demo_vol_def zero_fs_def)

lemma demo_entry: "c < 128 \<Longrightarrow> fat_entry demo_vol 0 c = le32 (drop (4 * c) demo_table) AND 0x0FFFFFFF"
  by (simp add: fat_entry_def vsec_def entry_sector_def demo_vol_def zero_fs_def)

lemma demo_entries:
  "fat_entry demo_vol 0 2 = 3" "fat_entry demo_vol 0 3 = 0x0FFFFFFF" "fat_entry demo_vol 0 4 = 0"
  by (simp_all add: demo_entry demo_table_def le32_def)

lemma demo_chain: "is_chain demo_vol 2 [2, 3]"
  by (simp add: demo_valid demo_entries)

theorem fat_entry_write_read_witness:
  "\<exists>v'. fat32_write_fat_entry 4 0xFFFFFFFF demo_vol = (0, v') \<and> fat32_read_fat_entry v' 4 = (0, 0x0FFFFFFF)"
proof -
  have "valid_cluster demo_vol 4" by (simp add: demo_valid)
  from fat_entry_write_read [OF demo_geom this, of "0xFFFFFFFF"] this show ?thesis by auto
qed

theorem alloc_cluster_takes_free_witness:
  "\<exists>c v'. fat32_alloc_cluster demo_vol = Some (0, c, v') \<and> cluster_taken demo_vol c v'"
proof -
  have "(4 :: nat) < cc demo_vol + 2" by (simp add: demo_vol_def zero_fs_def)
  then show ?thesis using alloc_cluster_takes_free [OF demo_geom] demo_entries(3) by fastforce
qed

theorem free_chain_returns_witness: "\<exists>v'. fat32_free_chain 3 demo_vol = Some (0, v') \<and> fat_geom v'"
  using free_chain_returns [OF demo_geom, of 3] by blast

theorem free_chain_frees_witness: "\<exists>v'. fat32_free_chain 2 demo_vol = Some (0, v') \<and> fat_entry v' 0 3 = 0"
proof -
  have "(3 :: nat) < cc demo_vol + 2" "0 < nfats demo_vol" by (simp_all add: demo_vol_def zero_fs_def)
  then show ?thesis using free_chain_frees [OF demo_geom demo_chain] by fastforce
qed

theorem get_cluster_at_nth_witness:
  "fat32_get_cluster_at demo_vol 2 1 = (0, 3) \<and> fat32_get_cluster_at demo_vol 2 2 = (- ENOENT, 0)"
  using get_cluster_at_nth [OF demo_geom demo_chain, of 1] get_cluster_at_nth [OF demo_geom demo_chain, of 2] by simp

theorem ensure_chain_extends_witness:
  "\<exists>r start' v' new. fat32_ensure_chain 2 3 demo_vol = Some (r, start', v') \<and> file_chain v' start' ([2, 3] @ new)"
proof -
  have "file_chain demo_vol 2 [2, 3]" using demo_chain by (simp add: file_chain_def del: is_chain.simps)
  from ensure_chain_extends [OF demo_geom this, of 3] show ?thesis by blast
qed

end
