(* ===== verification/Fat_Data.thy ===== *)
theory Fat_Data
  imports Fat_Chains Fat32 Ramfs_Spec
begin

text \<open>
  The data of a FAT file: the bytes of its clusters one after the other.  The loops that read
  and write sectors and clusters are stated on this byte string, and from them the read and
  write operations of a vnode.
\<close>

section \<open>Bytes of a run of sectors, of a chain, of a file\<close>

definition byte_at :: "fat_vol \<Rightarrow> nat \<Rightarrow> nat \<Rightarrow> u8" where
  "byte_at v lba i = vsec v (lba + i div 512) ! (i mod 512)"

abbreviation cbytes :: "fat_vol \<Rightarrow> nat" where "cbytes v \<equiv> spc v * 512"

definition chain_byte :: "fat_vol \<Rightarrow> u32 list \<Rightarrow> nat \<Rightarrow> u8" where
  "chain_byte v cs i = byte_at v (cluster_lba v (unat (cs ! (i div cbytes v)))) (i mod cbytes v)"

definition fat_file :: "fat_vol \<Rightarrow> u32 list \<Rightarrow> nat \<Rightarrow> u8 list" where
  "fat_file v cs sz = map (chain_byte v cs) [0..<sz]"

lemma map_upt_shift: "map (\<lambda>i. f (n + i)) [0..<k] = map f [n..<n + k]"
  by (simp add: list_eq_iff_nth_eq)

lemma map_upt_split: "map f [0..<k] @ map (\<lambda>i. f (k + i)) [0..<m] = map f [0..<k + m]"
  unfolding map_upt_shift by (simp add: upt_add_eq_append [symmetric] flip: map_append)

lemma byte_at_next: "byte_at v (Suc lba) i = byte_at v lba (512 + i)"
proof -
  have "(512 + i) div 512 = i div 512 + 1" by (rule div_add_self1) simp
  moreover have "(512 + i) mod 512 = i mod 512" by (rule mod_add_self1)
  ultimately show ?thesis unfolding byte_at_def by simp
qed

lemma chain_byte_Cons:
  assumes "0 < spc v"
  shows "chain_byte v (c # cs) i =
    (if i < cbytes v then byte_at v (cluster_lba v (unat c)) i else chain_byte v cs (i - cbytes v))"
proof (cases "i < cbytes v")
  case False
  have "i div cbytes v = Suc ((i - cbytes v) div cbytes v)" "i mod cbytes v = (i - cbytes v) mod cbytes v"
    using False assms by (simp_all add: le_div_geq le_mod_geq)
  then show ?thesis using False by (simp add: chain_byte_def)
qed (simp add: chain_byte_def)

section \<open>Reading\<close>

lemma take_sector:
  assumes "so + k \<le> 512" and "dev_ok (v_dev v)"
  shows "take k (drop so (vsec v lba)) = map (\<lambda>i. byte_at v lba (so + i)) [0..<k]"
  using assms length_vsec [OF assms(2), of lba] by (simp add: list_eq_iff_nth_eq byte_at_def)

lemma read_sectors_ok:
  assumes "dev_ok (v_dev v)" and "unat so < 512" and "unat lba * 512 + unat so + unat left \<le> (2 ^ 32 - 1) * 512"
  shows "read_sectors v lba so left acc =
    Some (0, acc @ map (\<lambda>i. byte_at v (unat lba) (unat so + i)) [0..<unat left])"
  using assms(2,3)
proof (induction "unat left" arbitrary: lba so left acc rule: less_induct)
  case less
  show ?case
  proof (cases "left = 0")
    case True
    then show ?thesis by (subst read_sectors.simps) simp
  next
    case False
    then have pos: "0 < unat left" by (simp add: unat_gt_0)
    let ?chunk = "if left < 512 - so then left else 512 - so"
    have s: "unat (512 - so) = 512 - unat so" using less.prems(1) by (simp add: unat_sub_if')
    have ch: "unat ?chunk = min (unat left) (512 - unat so)" using s by (simp add: word_less_nat_alt min_def)
    have le: "?chunk \<le> left" by (simp add: word_le_nat_alt ch)
    have rest: "unat (left - ?chunk) = unat left - unat ?chunk" by (rule unat_sub [OF le])
    have lba1: "unat (lba + 1) = Suc (unat lba)" using less.prems pos by (simp add: unat_plus_if')
    have "unat (left - ?chunk) < unat left" using rest ch pos less.prems(1) by linarith
    moreover have "unat (lba + 1) * 512 + unat (0 :: u32) + unat (left - ?chunk) \<le> (2 ^ 32 - 1) * 512 \<or> left - ?chunk = 0"
    proof (cases "unat left \<le> 512 - unat so")
      case True
      then show ?thesis using rest ch by (simp add: word_unat_eq_iff)
    next
      case False
      then show ?thesis using rest ch lba1 less.prems by simp
    qed
    ultimately have IH: "read_sectors v (lba + 1) 0 (left - ?chunk) bs =
      Some (0, bs @ map (\<lambda>i. byte_at v (unat (lba + 1)) i) [0..<unat (left - ?chunk)])" for bs
      using less.hyps [of "left - ?chunk" 0 "lba + 1" bs] by (cases "left - ?chunk = 0") (auto simp: read_sectors.simps)
    have t: "take (unat ?chunk) (drop (unat so) (vsec v (unat lba))) =
      map (\<lambda>i. byte_at v (unat lba) (unat so + i)) [0..<unat ?chunk]"
      using ch less.prems(1) by (intro take_sector [OF _ assms(1)]) simp
    have "map (\<lambda>i. byte_at v (unat lba) (unat so + i)) [0..<unat ?chunk] @
        map (byte_at v (unat (lba + 1))) [0..<unat (left - ?chunk)] =
      map (\<lambda>i. byte_at v (unat lba) (unat so + i)) [0..<unat left]"
    proof (cases "unat left \<le> 512 - unat so")
      case True
      then show ?thesis using rest ch by simp
    next
      case False
      then have e: "unat left = (512 - unat so) + unat (left - ?chunk)" "unat ?chunk = 512 - unat so" using rest ch by simp_all
      have "byte_at v (unat (lba + 1)) = (\<lambda>i. byte_at v (unat lba) (unat so + (512 - unat so + i)))"
        using less.prems(1) unfolding lba1 by (simp add: byte_at_next fun_eq_iff add.assoc [symmetric])
      then show ?thesis unfolding e(2)
        using map_upt_split [of "\<lambda>i. byte_at v (unat lba) (unat so + i)" "512 - unat so"] by (simp only: e(1))
    qed
    then show ?thesis using False t IH
      by (subst read_sectors.simps) (simp add: read_sector_ok [OF assms(1)] Let_def)
  qed
qed

lemma cluster_bytes_word:
  assumes "fat_geom v"
  shows "unat (sectors_per_cluster (v_fs v) * bytes_per_sector (v_fs v)) = cbytes v"
proof -
  have "bytes_per_sector (v_fs v) = 512" "spc v < 256" using assms by (simp_all add: fat_geom_def)
  moreover have "spc v * unat (512 :: u32) < 2 ^ 32" using \<open>spc v < 256\<close> by simp
  ultimately show ?thesis using unat_mult_lem [of "sectors_per_cluster (v_fs v)" "512 :: u32"] by simp
qed

text \<open>What one turn of the cluster loops moves: the rest of the cluster or all that is left.\<close>

lemma unat_ucast_64_32: "unat (x :: u64) < 2 ^ 32 \<Longrightarrow> unat (ucast x :: u32) = unat x"
  by (simp add: unsigned_ucast_eq take_bit_nat_eq_self)

lemma unat_ucast_32_64: "unat (ucast (x :: u32) :: u64) = unat x"
proof -
  have "unat x < 2 ^ 64" by (rule less_trans [OF unsigned_less]) simp
  then show ?thesis by (simp add: unsigned_ucast_eq take_bit_nat_eq_self)
qed

lemma copy_len:
  fixes remaining :: u64
  assumes "fat_geom v" and "unat off < cbytes v"
    and "tc0 = sectors_per_cluster (v_fs v) * bytes_per_sector (v_fs v) - off"
    and "to_copy = (if remaining < ucast tc0 then ucast remaining else tc0)"
  shows "unat to_copy = min (unat remaining) (cbytes v - unat off)"
    and "unat (remaining - ucast to_copy) = unat remaining - unat to_copy"
    and "cluster_lba v c + (unat off + unat to_copy) div 512 \<le> cluster_lba v c + spc v"
proof -
  have t: "unat tc0 = cbytes v - unat off"
    unfolding assms(3) using assms(2) cluster_bytes_word [OF assms(1)]
    by (simp add: unat_sub_if')
  have l: "remaining < ucast tc0 \<longleftrightarrow> unat remaining < cbytes v - unat off"
    by (simp add: word_less_nat_alt unat_ucast_32_64 t)
  have "spc v < 256" using assms(1) by (simp add: fat_geom_def)
  then have "unat (ucast remaining :: u32) = unat remaining" if "unat remaining < cbytes v - unat off"
    using that by (intro unat_ucast_64_32) simp
  then show u: "unat to_copy = min (unat remaining) (cbytes v - unat off)"
    unfolding assms(4) l using t by auto
  then have "ucast to_copy \<le> remaining" by (simp add: word_le_nat_alt unat_ucast_32_64)
  then show "unat (remaining - ucast to_copy) = unat remaining - unat to_copy"
    by (simp add: unat_sub unat_ucast_32_64)
  have "unat off + unat to_copy \<le> cbytes v" using u assms(2) by simp
  then have "(unat off + unat to_copy) div 512 \<le> cbytes v div 512" by (rule div_le_mono)
  then show "cluster_lba v c + (unat off + unat to_copy) div 512 \<le> cluster_lba v c + spc v" by simp
qed

lemma byte_at_off: "byte_at v (lba + off div 512) (off mod 512 + i) = byte_at v lba (off + i)"
proof -
  have "off + i = (off mod 512 + i) + off div 512 * 512" by (simp add: algebra_simps)
  then have "(off + i) div 512 = off div 512 + (off mod 512 + i) div 512" "(off + i) mod 512 = (off mod 512 + i) mod 512"
    by (simp_all only: div_mult_self3 [of 512] mod_mult_self1)
  then show ?thesis by (simp add: byte_at_def add.assoc)
qed

text \<open>The first sector of a turn, as a number and in range.\<close>

lemma turn_sector:
  assumes "fat_geom v" and "valid_cluster v c" and "unat off < cbytes v" and "n \<le> cbytes v - unat off"
  shows "unat (fat32_cluster_to_lba (v_fs v) c + off div 512) = cluster_lba v (unat c) + unat off div 512"
    and "unat (off mod 512) = unat off mod 512"
    and "(cluster_lba v (unat c) + unat off div 512) * 512 + unat off mod 512 + n \<le> (2 ^ 32 - 1) * 512"
proof -
  have b: "cluster_lba v (unat c) + spc v < 2 ^ 32"
    using cluster_lba_bound [OF assms(1), of "unat c"] assms(2) by (simp add: valid_cluster_def)
  have "unat off div 512 < spc v" using assms(3) by (intro less_mult_imp_div_less)
  then show "unat (fat32_cluster_to_lba (v_fs v) c + off div 512) = cluster_lba v (unat c) + unat off div 512"
    using b by (simp add: unat_plus_if' unat_div cluster_to_lba_ok [OF assms(1,2)])
  show "unat (off mod 512) = unat off mod 512" by (simp add: unat_mod)
  have "(cluster_lba v (unat c) + unat off div 512) * 512 + unat off mod 512 + n = cluster_lba v (unat c) * 512 + (unat off + n)"
    by (simp add: algebra_simps)
  also have "\<dots> \<le> (cluster_lba v (unat c) + spc v) * 512" using assms(3,4) by simp
  also have "\<dots> \<le> (2 ^ 32 - 1) * 512" using b by (intro mult_le_mono1) simp
  finally show "(cluster_lba v (unat c) + unat off div 512) * 512 + unat off mod 512 + n \<le> (2 ^ 32 - 1) * 512" .
qed

lemma read_clusters_ok:
  assumes "fat_geom v"
  shows "is_chain v c cs \<Longrightarrow> unat off < cbytes v \<Longrightarrow> unat off + unat remaining \<le> length cs * cbytes v \<Longrightarrow>
    read_clusters v c off remaining acc =
      Some (0, 0, acc @ map (\<lambda>i. chain_byte v cs (unat off + i)) [0..<unat remaining])"
proof (induction cs arbitrary: c off remaining acc)
  case Nil
  then have "remaining = 0" by (simp add: word_unat_eq_iff)
  then show ?case by (subst read_clusters.simps) simp
next
  case (Cons x xs)
  have c: "x = c" "valid_cluster v c" "is_chain v (fat_entry v 0 (unat c)) xs" using Cons.prems(1) by simp_all
  show ?case
  proof (cases "remaining = 0")
    case True
    then show ?thesis by (subst read_clusters.simps) simp
  next
    case False
    define tc0 where "tc0 = sectors_per_cluster (v_fs v) * bytes_per_sector (v_fs v) - off"
    define to_copy where "to_copy = (if remaining < ucast tc0 then ucast remaining else tc0)"
    note cl = copy_len [OF assms Cons.prems(2) tc0_def to_copy_def]
    have d: "dev_ok (v_dev v)" and sp: "0 < spc v" using assms by (simp_all add: fat_geom_def)
    have room: "unat to_copy \<le> cbytes v - unat off" using cl(1) by simp
    note ts = turn_sector [OF assms c(2) Cons.prems(2) room]
    have r: "read_sectors v (fat32_cluster_to_lba (v_fs v) c + off div 512) (off mod 512) to_copy acc =
      Some (0, acc @ map (\<lambda>i. chain_byte v (x # xs) (unat off + i)) [0..<unat to_copy])"
      using read_sectors_ok [OF d, of "off mod 512" "fat32_cluster_to_lba (v_fs v) c + off div 512" to_copy acc] ts room c(1)
      by (auto simp: byte_at_off chain_byte_Cons [OF sp])
    have run: "read_clusters v c off remaining acc =
      (if remaining - ucast to_copy = 0 then Some (0, 0, acc @ map (\<lambda>i. chain_byte v (x # xs) (unat off + i)) [0..<unat to_copy])
       else read_clusters v (fat_entry v 0 (unat c)) 0 (remaining - ucast to_copy)
              (acc @ map (\<lambda>i. chain_byte v (x # xs) (unat off + i)) [0..<unat to_copy]))"
      unfolding read_clusters.simps [of v c off remaining acc] Let_def tc0_def [symmetric] to_copy_def [symmetric]
      using False valid_not_eoc [OF assms c(2)] r read_fat_entry_ok [OF assms c(2)] by (simp add: word_gt_0)
    show ?thesis
    proof (cases "remaining - ucast to_copy = 0")
      case True
      then have "unat remaining = unat to_copy" using cl(1,2) by simp
      then show ?thesis using run True by simp
    next
      case more: False
      then have "unat (remaining - ucast to_copy) \<noteq> 0" by (simp add: unat_eq_0)
      then have tc: "unat to_copy = cbytes v - unat off" using cl by linarith
      have rest: "unat remaining = unat to_copy + unat (remaining - ucast to_copy)" using cl by linarith
      have "unat (remaining - ucast to_copy) \<le> length xs * cbytes v"
        using Cons.prems(2,3) rest tc by simp
      then have IH: "read_clusters v (fat_entry v 0 (unat c)) 0 (remaining - ucast to_copy) bs =
          Some (0, 0, bs @ map (chain_byte v xs) [0..<unat (remaining - ucast to_copy)])" for bs
        using Cons.IH [OF c(3), of 0 "remaining - ucast to_copy" bs] sp by simp
      have "chain_byte v xs = (\<lambda>i. chain_byte v (x # xs) (unat off + (unat to_copy + i)))"
        using Cons.prems(2) by (simp add: fun_eq_iff chain_byte_Cons [OF sp] tc)
      then show ?thesis unfolding run IH
        using more map_upt_split [of "\<lambda>i. chain_byte v (x # xs) (unat off + i)" "unat to_copy" "unat (remaining - ucast to_copy)"]
        by (simp only: if_False rest append_assoc)
    qed
  qed
qed

lemma skip_clusters_ok:
  assumes "fat_geom v"
  shows "is_chain v c cs \<Longrightarrow> n < length cs \<Longrightarrow> skip_clusters v r c n = Inr (cs ! n) \<and> is_chain v (cs ! n) (drop n cs)"
proof (induction n arbitrary: c cs)
  case 0
  then show ?case by (cases cs) auto
next
  case (Suc n)
  then obtain x xs where cs: "cs = x # xs" by (cases cs) auto
  then have c: "valid_cluster v c" "is_chain v (fat_entry v 0 (unat c)) xs" "n < length xs" using Suc.prems by simp_all
  then obtain y ys where "xs = y # ys" by (cases xs) auto
  then have "\<not> FAT32_EOC \<le> fat_entry v 0 (unat c)" using c(2) valid_not_eoc [OF assms] by (simp add: not_le)
  then show ?case using cs Suc.IH [OF c(2,3)] by (simp add: read_fat_entry_ok [OF assms c(1)])
qed

section \<open>Writing\<close>

lemma vsec_bytes:
  assumes "dev_ok (v_dev v)" and "dev_ok (v_dev v')" and "\<forall>j<512. byte_at v' lba (k * 512 + j) = byte_at v lba (k * 512 + j)"
  shows "vsec v' (lba + k) = vsec v (lba + k)"
proof (rule nth_equalityI)
  fix j assume "j < length (vsec v' (lba + k))"
  then have "j < 512" by (simp add: length_vsec [OF assms(2)])
  then show "vsec v' (lba + k) ! j = vsec v (lba + k) ! j" using assms(3) by (simp add: byte_at_def)
qed (simp add: length_vsec assms)

lemma new_sector_nth:
  assumes "length old = 512" and "so + k \<le> 512" and "k \<le> length src" and "j < 512"
  shows "(if so = 0 \<and> k = 512 then take 512 src else set_bytes so (take k src) old) ! j =
    (if so \<le> j \<and> j < so + k then src ! (j - so) else old ! j)"
  using assms by (auto simp: nth_set_bytes)

lemma write_sectors_ok:
  assumes "dev_ok (v_dev v)" and "unat so < 512" and "unat lba * 512 + unat so + unat left \<le> (2 ^ 32 - 1) * 512"
    and "unat left \<le> length src"
  shows "\<exists>v'. write_sectors lba so left src v = Some (0, v') \<and> v_fs v' = v_fs v \<and> dev_ok (v_dev v') \<and>
    (\<forall>m<unat lba. vsec v' m = vsec v m) \<and>
    (\<forall>i. unat lba + i div 512 < 2 ^ 32 \<longrightarrow> byte_at v' (unat lba) i =
       (if unat so \<le> i \<and> i < unat so + unat left then src ! (i - unat so) else byte_at v (unat lba) i))"
  using assms
proof (induction "unat left" arbitrary: lba so left src v rule: less_induct)
  case less
  show ?case
  proof (cases "left = 0")
    case True
    then show ?thesis using less.prems by (subst write_sectors.simps) auto
  next
    case False
    then have pos: "0 < unat left" by (simp add: unat_gt_0)
    define chunk where "chunk = (if left < 512 - so then left else 512 - so)"
    have ch: "unat chunk = min (unat left) (512 - unat so)"
      using less.prems(2) by (simp add: chunk_def word_less_nat_alt min_def unat_sub_if')
    have rest: "unat (left - chunk) = unat left - unat chunk" by (rule unat_sub) (simp add: word_le_nat_alt ch)
    have lba1: "unat (lba + 1) = Suc (unat lba)" using less.prems(3) pos by (simp add: unat_plus_if')
    have lb: "unat lba + 1 < 2 ^ 32" using less.prems(3) pos by simp
    define new where "new = (if so = 0 \<and> chunk = 512 then take 512 src
      else set_bytes (unat so) (take (unat chunk) src) (vsec v (unat lba)))"
    have w: "(so = 0 \<and> chunk = 512) = (unat so = 0 \<and> unat chunk = 512)" by (simp add: word_unat_eq_iff)
    have nth: "new ! j = (if unat so \<le> j \<and> j < unat so + unat chunk then src ! (j - unat so) else vsec v (unat lba) ! j)"
      if "j < 512" for j
      unfolding new_def w
      by (rule new_sector_nth [OF length_vsec [OF less.prems(1)] _ _ that]) (use less.prems(2,4) ch in simp_all)
    have len: "length new = 512" unfolding new_def w using less.prems ch by (auto simp: length_vsec)
    obtain v1 where ws: "write_sector lba new v = (0, v1)" and f1: "v_fs v1 = v_fs v" and d1: "dev_ok (v_dev v1)"
      and s1: "\<forall>n<2 ^ 32. vsec v1 n = (if n = unat lba then new else vsec v n)"
      using write_sector_ok [OF less.prems(1) len] by blast
    have run: "write_sectors lba so left src v = write_sectors (lba + 1) 0 (left - chunk) (drop (unat chunk) src) v1"
      unfolding write_sectors.simps [of lba so left src v] Let_def chunk_def [symmetric]
      using False ws by (cases "so = 0 \<and> chunk = 512") (auto simp: new_def read_sector_ok [OF less.prems(1)])
    have b1: "byte_at v1 (unat lba) i = (if i < 512 then new ! i else byte_at v (unat lba) i)"
      if "unat lba + i div 512 < 2 ^ 32" for i
      using that s1 by (auto simp: byte_at_def)
    have bn: "byte_at v1 (unat lba) i =
        (if unat so \<le> i \<and> i < unat so + unat chunk then src ! (i - unat so) else byte_at v (unat lba) i)"
      if "unat lba + i div 512 < 2 ^ 32" for i
      using b1 [OF that] nth [of i] ch less.prems(2) by (auto simp: byte_at_def)
    show ?thesis
    proof (cases "left - chunk = 0")
      case True
      then have "write_sectors lba so left src v = Some (0, v1)" unfolding run by (simp add: write_sectors.simps)
      moreover have "unat (left - chunk) = 0" by (simp only: True unsigned_0)
      then have "unat chunk = unat left" using rest ch by linarith
      moreover have "\<forall>m<unat lba. vsec v1 m = vsec v m" using s1 lb by simp
      ultimately show ?thesis using f1 d1 bn by (intro exI [of _ v1]) simp
    next
      case more: False
      then have "unat (left - chunk) \<noteq> 0" by (simp add: unat_eq_0)
      then have c: "unat chunk = 512 - unat so" "unat left = unat chunk + unat (left - chunk)" using rest ch by linarith+
      obtain v' where r: "write_sectors (lba + 1) 0 (left - chunk) (drop (unat chunk) src) v1 = Some (0, v')"
        and f': "v_fs v' = v_fs v1" "dev_ok (v_dev v')" and lo: "\<forall>m<unat (lba + 1). vsec v' m = vsec v1 m"
        and b': "\<forall>i. unat (lba + 1) + i div 512 < 2 ^ 32 \<longrightarrow> byte_at v' (unat (lba + 1)) i =
          (if unat (0 :: u32) \<le> i \<and> i < unat (0 :: u32) + unat (left - chunk)
           then drop (unat chunk) src ! (i - unat (0 :: u32)) else byte_at v1 (unat (lba + 1)) i)"
        using less.hyps [of "left - chunk" v1 0 "lba + 1" "drop (unat chunk) src"] d1 less.prems c lba1 pos by fastforce
      have "byte_at v' (unat lba) i =
          (if unat so \<le> i \<and> i < unat so + unat left then src ! (i - unat so) else byte_at v (unat lba) i)"
        if i: "unat lba + i div 512 < 2 ^ 32" for i
      proof (cases "i < 512")
        case True
        then have "byte_at v' (unat lba) i = byte_at v1 (unat lba) i" using lo lba1 by (simp add: byte_at_def)
        then show ?thesis using bn [OF i] True c less.prems(2) by auto
      next
        case False
        define j where "j = i - 512"
        have ij: "i = 512 + j" using False by (simp add: j_def)
        have "unat (lba + 1) + j div 512 < 2 ^ 32" using i unfolding ij lba1 by (simp add: div_add_self1)
        then have "byte_at v' (unat lba) i = (if j < unat (left - chunk) then drop (unat chunk) src ! j else byte_at v1 (unat lba) i)"
          using b' unfolding lba1 byte_at_next ij by simp
        then show ?thesis using bn [OF i] c less.prems(2,4) ij by (auto simp: add.commute)
      qed
      moreover have "\<forall>m<unat lba. vsec v' m = vsec v m" using lo s1 lb unfolding lba1 by simp
      ultimately show ?thesis unfolding run r using f' f1 by (intro exI [of _ v']) simp
    qed
  qed
qed

lemma write_turn:
  assumes "fat_geom v" and "valid_cluster v c" and "unat off < cbytes v" and "unat n \<le> cbytes v - unat off"
    and "unat n \<le> length src"
  shows "\<exists>v1. write_sectors (fat32_cluster_to_lba (v_fs v) c + off div 512) (off mod 512) n src v = Some (0, v1) \<and>
    v_fs v1 = v_fs v \<and> fat_geom v1 \<and>
    (\<forall>i<cbytes v. byte_at v1 (cluster_lba v (unat c)) i =
       (if unat off \<le> i \<and> i < unat off + unat n then src ! (i - unat off) else byte_at v (cluster_lba v (unat c)) i)) \<and>
    (\<forall>m<2 ^ 32. m \<notin> cluster_sectors v (unat c) \<longrightarrow> vsec v1 m = vsec v m)"
proof -
  define L where "L = cluster_lba v (unat c)"
  define q where "q = unat off div 512"
  define r where "r = unat off mod 512"
  have d: "dev_ok (v_dev v)" using assms(1) by (simp add: fat_geom_def)
  have qr: "unat off = q * 512 + r" "r < 512" "q < spc v"
    using assms(3) by (simp_all add: q_def r_def less_mult_imp_div_less)
  have top: "L + spc v < 2 ^ 32"
    using cluster_lba_bound [OF assms(1), of "unat c"] assms(2) by (simp add: valid_cluster_def L_def)
  note ts = turn_sector [OF assms(1-4), folded L_def q_def r_def]
  obtain v1 where w: "write_sectors (fat32_cluster_to_lba (v_fs v) c + off div 512) (off mod 512) n src v = Some (0, v1)"
    and f: "v_fs v1 = v_fs v" "dev_ok (v_dev v1)" and lo: "\<forall>m<L + q. vsec v1 m = vsec v m"
    and b: "\<forall>i. L + q + i div 512 < 2 ^ 32 \<longrightarrow> byte_at v1 (L + q) i =
       (if r \<le> i \<and> i < r + unat n then src ! (i - r) else byte_at v (L + q) i)"
    using write_sectors_ok [OF d, of "off mod 512" "fat32_cluster_to_lba (v_fs v) c + off div 512" n src] ts qr(2) assms(5)
    by auto
  have g: "fat_geom v1" by (rule fat_geom_fs [OF f assms(1)])
  have shift: "byte_at u L (q * 512 + j) = byte_at u (L + q) j" for u j
    using byte_at_off [of u L "q * 512" j] by simp
  have "byte_at v1 L i = (if unat off \<le> i \<and> i < unat off + unat n then src ! (i - unat off) else byte_at v L i)"
    if i: "i < cbytes v" for i
  proof (cases "i < q * 512")
    case True
    then have "i div 512 < q" by (rule less_mult_imp_div_less)
    then show ?thesis using lo True qr(1) by (simp add: byte_at_def)
  next
    case False
    define j where "j = i - q * 512"
    have ij: "i = q * 512 + j" using False by (simp add: j_def)
    have "i div 512 < spc v" using i by (rule less_mult_imp_div_less)
    then have "L + q + j div 512 < 2 ^ 32" using top unfolding ij by simp
    then show ?thesis using b unfolding ij shift qr(1) by (auto simp: add.assoc)
  qed
  moreover have "vsec v1 m = vsec v m" if m: "m < 2 ^ 32" "m \<notin> cluster_sectors v (unat c)" for m
  proof (cases "m < L + q")
    case False
    then have "L + spc v \<le> m" using m(2) unfolding cluster_sectors_def L_def [symmetric] by auto
    define k where "k = m - (L + q)"
    have k: "m = L + q + k" using False by (simp add: k_def)
    have n: "r + unat n \<le> k * 512"
    proof -
      have "q * 512 + (r + unat n) \<le> spc v * 512" using assms(3,4) qr(1) by simp
      also have "\<dots> \<le> (q + k) * 512" using \<open>L + spc v \<le> m\<close> k by (intro mult_le_mono1) simp
      finally show ?thesis by (simp add: add_mult_distrib)
    qed
    have "byte_at v1 (L + q) (k * 512 + j) = byte_at v (L + q) (k * 512 + j)" if "j < 512" for j
    proof -
      have "(k * 512 + j) div 512 = k" using that by simp
      then have "L + q + (k * 512 + j) div 512 < 2 ^ 32" using m(1) k by simp
      then show ?thesis using b n by auto
    qed
    then show ?thesis unfolding k using vsec_bytes [OF d f(2)] by blast
  qed (use lo in simp)
  ultimately show ?thesis using w f(1) g unfolding L_def by (intro exI [of _ v1]) simp
qed

text \<open>A chain and its bytes depend on the tables and on its own clusters.\<close>

lemma fat_entry_below:
  assumes "fat_geom v" and "v_fs v' = v_fs v" and "\<forall>m<2 ^ 32. m \<notin> M \<longrightarrow> vsec v' m = vsec v m"
    and "\<forall>m\<in>M. data0 v \<le> m" and "k < nfats v" and "d < cc v + 2"
  shows "fat_entry v' k d = fat_entry v k d"
proof -
  have "m < data0 v \<Longrightarrow> vsec v' m = vsec v m" for m
    using assms(3,4) data_small [OF assms(1)] by (meson leD less_trans)
  then show ?thesis using fat_entry_cong [OF assms(1) same_geom_eq [OF assms(2)] _ assms(5,6)] by blast
qed

lemma chain_same:
  assumes "fat_geom v" and "v_fs v' = v_fs v" and "\<forall>m<2 ^ 32. m \<notin> M \<longrightarrow> vsec v' m = vsec v m"
    and "\<forall>m\<in>M. data0 v \<le> m" and "is_chain v b bs"
  shows "is_chain v' b bs"
  by (rule chain_keep [OF assms(1) same_geom_eq [OF assms(2)] assms(5), of "{}"])
    (use fat_entry_below [OF assms(1-4) nfats_pos [OF assms(1)]] in auto)

lemma cluster_byte_same:
  assumes "fat_geom v" and "valid_cluster v c" and "\<forall>m\<in>cluster_sectors v (unat c). vsec v' m = vsec v m" and "i < cbytes v"
  shows "byte_at v' (cluster_lba v (unat c)) i = byte_at v (cluster_lba v (unat c)) i"
proof -
  have "i div 512 < spc v" using assms(4) by (rule less_mult_imp_div_less)
  then show ?thesis using assms(3) by (simp add: byte_at_def cluster_sectors_def)
qed

lemma chain_byte_local:
  assumes "fat_geom v" and "v_fs v' = v_fs v" and "is_chain v c cs" and "i < length cs * cbytes v"
    and "\<forall>m\<in>cluster_sectors v (unat (cs ! (i div cbytes v))). vsec v' m = vsec v m"
  shows "chain_byte v' cs i = chain_byte v cs i"
proof -
  have sp: "0 < cbytes v" using assms(1) by (simp add: fat_geom_def)
  have "i div cbytes v < length cs" using assms(4) by (intro less_mult_imp_div_less)
  then have "valid_cluster v (cs ! (i div cbytes v))" using chain_used [OF assms(1,3) nth_mem] by blast
  then show ?thesis
    using cluster_byte_same [OF assms(1) _ assms(5), of "i mod cbytes v"] sp assms(2)
    by (simp add: chain_byte_def cluster_lba_def)
qed

lemma chain_byte_same:
  assumes "fat_geom v" and "v_fs v' = v_fs v" and "is_chain v c cs" and "i < length cs * cbytes v"
    and "\<forall>x\<in>set cs. \<forall>m\<in>cluster_sectors v (unat x). vsec v' m = vsec v m"
  shows "chain_byte v' cs i = chain_byte v cs i"
proof (rule chain_byte_local [OF assms(1-4)])
  have "i div cbytes v < length cs" using assms(4) by (intro less_mult_imp_div_less)
  then show "\<forall>m\<in>cluster_sectors v (unat (cs ! (i div cbytes v))). vsec v' m = vsec v m" using assms(5) nth_mem by blast
qed

definition chain_sectors :: "fat_vol \<Rightarrow> u32 list \<Rightarrow> nat set" where
  "chain_sectors v cs = (\<Union>c\<in>set cs. cluster_sectors v (unat c))"

lemma chain_sectors_data: "fat_geom v \<Longrightarrow> is_chain v c cs \<Longrightarrow> m \<in> chain_sectors v cs \<Longrightarrow> data0 v \<le> m \<and> m < 2 ^ 32"
  using cluster_sectors_data chain_used unfolding chain_sectors_def by blast

lemma valid_disjoint:
  "valid_cluster v c \<Longrightarrow> valid_cluster v d \<Longrightarrow> c \<noteq> d \<Longrightarrow>
    cluster_sectors v (unat c) \<inter> cluster_sectors v (unat d) = {}"
  by (rule cluster_disjoint) (simp_all add: valid_cluster_def word_unat_eq_iff)

lemma chain_sectors_disjoint:
  assumes "fat_geom v" and "is_chain v b bs" and "is_chain v c cs" and "set bs \<inter> set cs = {}"
  shows "chain_sectors v bs \<inter> chain_sectors v cs = {}"
proof -
  have "cluster_sectors v (unat x) \<inter> cluster_sectors v (unat y) = {}" if "x \<in> set bs" "y \<in> set cs" for x y
    using valid_disjoint chain_used [OF assms(1,2) that(1)] chain_used [OF assms(1,3) that(2)] that assms(4) by blast
  then show ?thesis unfolding chain_sectors_def by blast
qed

text \<open>One turn of the write loop on a chain: the first cluster is written, the others are as before.\<close>

lemma write_step:
  assumes "fat_geom v" and "is_chain v c (x # xs)" and "unat off < cbytes v" and "unat remaining \<le> length src"
    and "remaining \<noteq> 0" and "tc0 = sectors_per_cluster (v_fs v) * bytes_per_sector (v_fs v) - off"
    and "n = (if remaining < ucast tc0 then ucast remaining else tc0)"
  shows "\<exists>v1. write_clusters c off remaining src v =
      (if remaining - ucast n = 0 then Some (0, v1)
       else write_clusters (fat_entry v 0 (unat c)) 0 (remaining - ucast n) (drop (unat n) src) v1) \<and>
    v_fs v1 = v_fs v \<and> fat_geom v1 \<and> is_chain v1 (fat_entry v 0 (unat c)) xs \<and>
    (\<forall>i<cbytes v. byte_at v1 (cluster_lba v (unat c)) i =
       (if unat off \<le> i \<and> i < unat off + unat n then src ! (i - unat off) else byte_at v (cluster_lba v (unat c)) i)) \<and>
    (\<forall>i<length xs * cbytes v. chain_byte v1 xs i = chain_byte v xs i) \<and>
    (\<forall>m<2 ^ 32. m \<notin> cluster_sectors v (unat c) \<longrightarrow> vsec v1 m = vsec v m) \<and>
    chain_sectors v xs \<inter> cluster_sectors v (unat c) = {}"
proof -
  have c: "x = c" "valid_cluster v c" "is_chain v (fat_entry v 0 (unat c)) xs" using assms(2) by simp_all
  have n: "unat n \<le> cbytes v - unat off" "unat n \<le> length src"
    using copy_len(1) [OF assms(1,3,6,7)] assms(4) by simp_all
  obtain v1 where w: "write_sectors (fat32_cluster_to_lba (v_fs v) c + off div 512) (off mod 512) n src v = Some (0, v1)"
    and f: "v_fs v1 = v_fs v" and g: "fat_geom v1"
    and b1: "\<forall>i<cbytes v. byte_at v1 (cluster_lba v (unat c)) i =
      (if unat off \<le> i \<and> i < unat off + unat n then src ! (i - unat off) else byte_at v (cluster_lba v (unat c)) i)"
    and o1: "\<forall>m<2 ^ 32. m \<notin> cluster_sectors v (unat c) \<longrightarrow> vsec v1 m = vsec v m"
    using write_turn [OF assms(1) c(2) assms(3) n] by blast
  have cd: "\<forall>m\<in>cluster_sectors v (unat c). data0 v \<le> m" using cluster_sectors_data [OF assms(1) c(2)] by blast
  have nx: "fat_entry v1 0 (unat c) = fat_entry v 0 (unat c)"
    using fat_entry_below [OF assms(1) f o1 cd nfats_pos [OF assms(1)]] c(2) by (simp add: valid_cluster_def)
  have run: "write_clusters c off remaining src v =
    (if remaining - ucast n = 0 then Some (0, v1)
     else write_clusters (fat_entry v 0 (unat c)) 0 (remaining - ucast n) (drop (unat n) src) v1)"
    unfolding write_clusters.simps [of c off remaining src v] Let_def assms(6) [symmetric] assms(7) [symmetric]
    using assms(5) valid_not_eoc [OF assms(1) c(2)] w read_fat_entry_ok [OF g, of c] c(2) nx f
    by (simp add: word_gt_0 valid_cluster_def)
  have ch1: "is_chain v1 (fat_entry v 0 (unat c)) xs" by (rule chain_same [OF assms(1) f o1 cd c(3)])
  have "c \<notin> set xs" using chain_distinct [OF assms(1,2)] c(1) by simp
  then have "cluster_sectors v (unat y) \<inter> cluster_sectors v (unat c) = {}" if "y \<in> set xs" for y
    using valid_disjoint chain_used [OF assms(1) c(3) that] c(2) that by blast
  then have disj: "chain_sectors v xs \<inter> cluster_sectors v (unat c) = {}" unfolding chain_sectors_def by blast
  have xs1: "chain_byte v1 xs i = chain_byte v xs i" if "i < length xs * cbytes v" for i
  proof (rule chain_byte_same [OF assms(1) f c(3) that], intro ballI)
    fix y m assume "y \<in> set xs" "m \<in> cluster_sectors v (unat y)"
    then have "m \<in> chain_sectors v xs" by (auto simp: chain_sectors_def)
    then show "vsec v1 m = vsec v m" using o1 disj chain_sectors_data [OF assms(1) c(3)] by blast
  qed
  show ?thesis using run f g ch1 b1 xs1 o1 disj by blast
qed

lemma write_clusters_ok:
  assumes "fat_geom v" and "is_chain v c cs" and "unat off < cbytes v"
    and "unat off + unat remaining \<le> length cs * cbytes v" and "unat remaining \<le> length src"
  shows "\<exists>v'. write_clusters c off remaining src v = Some (0, v') \<and> v_fs v' = v_fs v \<and> fat_geom v' \<and>
    (\<forall>i<length cs * cbytes v. chain_byte v' cs i =
       (if unat off \<le> i \<and> i < unat off + unat remaining then src ! (i - unat off) else chain_byte v cs i)) \<and>
    (\<forall>m<2 ^ 32. m \<notin> chain_sectors v cs \<longrightarrow> vsec v' m = vsec v m)"
  using assms
proof (induction cs arbitrary: c off remaining src v)
  case Nil
  then have "remaining = 0" by (simp add: word_unat_eq_iff)
  then show ?case using Nil.prems(1) by (subst write_clusters.simps) auto
next
  case (Cons x xs)
  have c: "x = c" "valid_cluster v c" "is_chain v (fat_entry v 0 (unat c)) xs" using Cons.prems(2) by simp_all
  have sp: "0 < spc v" using Cons.prems(1) by (simp add: fat_geom_def)
  show ?case
  proof (cases "remaining = 0")
    case True
    then show ?thesis using Cons.prems(1) by (subst write_clusters.simps) auto
  next
    case False
    define tc0 where "tc0 = sectors_per_cluster (v_fs v) * bytes_per_sector (v_fs v) - off"
    define n where "n = (if remaining < ucast tc0 then ucast remaining else tc0)"
    note cl = copy_len [OF Cons.prems(1,3) tc0_def n_def]
    have n: "unat n \<le> cbytes v - unat off" "unat n \<le> length src" using cl(1) Cons.prems(5) by simp_all
    obtain v1 where run: "write_clusters c off remaining src v =
        (if remaining - ucast n = 0 then Some (0, v1)
         else write_clusters (fat_entry v 0 (unat c)) 0 (remaining - ucast n) (drop (unat n) src) v1)"
      and f: "v_fs v1 = v_fs v" and g: "fat_geom v1" and ch1: "is_chain v1 (fat_entry v 0 (unat c)) xs"
      and b1: "\<forall>i<cbytes v. byte_at v1 (cluster_lba v (unat c)) i =
        (if unat off \<le> i \<and> i < unat off + unat n then src ! (i - unat off) else byte_at v (cluster_lba v (unat c)) i)"
      and xs1: "\<forall>i<length xs * cbytes v. chain_byte v1 xs i = chain_byte v xs i"
      and o1: "\<forall>m<2 ^ 32. m \<notin> cluster_sectors v (unat c) \<longrightarrow> vsec v1 m = vsec v m"
      and disj: "chain_sectors v xs \<inter> cluster_sectors v (unat c) = {}"
      using write_step [OF Cons.prems(1-3,5) False tc0_def n_def] by blast
    have cs: "chain_sectors v (x # xs) = cluster_sectors v (unat c) \<union> chain_sectors v xs"
      by (simp add: chain_sectors_def c(1))
    have cb: "chain_byte u (x # xs) i = (if i < cbytes v then byte_at u (cluster_lba v (unat c)) i else chain_byte u xs (i - cbytes v))"
      if "v_fs u = v_fs v" for u i
      using chain_byte_Cons [of u x xs i] that sp c(1) by (simp add: cluster_lba_def)
    show ?thesis
    proof (cases "remaining - ucast n = 0")
      case True
      have "unat (remaining - ucast n) = 0" by (simp only: True unsigned_0)
      then have "unat remaining = unat n" using cl(1,2) by linarith
      moreover have "chain_byte v1 (x # xs) i =
          (if unat off \<le> i \<and> i < unat off + unat n then src ! (i - unat off) else chain_byte v (x # xs) i)"
        if "i < length (x # xs) * cbytes v" for i
        using that b1 xs1 n(1) Cons.prems(3) unfolding cb [OF f] cb [OF refl] by auto
      ultimately show ?thesis unfolding run cs using True f g o1 by (intro exI [of _ v1]) auto
    next
      case more: False
      then have "unat (remaining - ucast n) \<noteq> 0" by (simp add: unat_eq_0)
      then have tc: "unat off + unat n = cbytes v" "unat remaining = unat n + unat (remaining - ucast n)"
        using cl Cons.prems(3) by linarith+
      have s1: "cbytes v1 = cbytes v" "chain_sectors v1 xs = chain_sectors v xs" "cluster_lba v1 = cluster_lba v"
        by (simp_all add: f chain_sectors_def cluster_sectors_def cluster_lba_def fun_eq_iff)
      have "unat (remaining - ucast n) \<le> length xs * cbytes v" "unat (remaining - ucast n) \<le> length (drop (unat n) src)"
        using Cons.prems(4,5) tc by simp_all
      then obtain v' where r: "write_clusters (fat_entry v 0 (unat c)) 0 (remaining - ucast n) (drop (unat n) src) v1 = Some (0, v')"
        and f': "v_fs v' = v_fs v1" "fat_geom v'"
        and b': "\<forall>i<length xs * cbytes v. chain_byte v' xs i =
          (if i < unat (remaining - ucast n) then drop (unat n) src ! i else chain_byte v1 xs i)"
        and o': "\<forall>m<2 ^ 32. m \<notin> chain_sectors v xs \<longrightarrow> vsec v' m = vsec v1 m"
        using Cons.IH [OF g ch1, of 0 "remaining - ucast n" "drop (unat n) src"] sp unfolding s1 by auto
      have fv: "v_fs v' = v_fs v" using f f' by simp
      have keep: "byte_at v' (cluster_lba v (unat c)) i = byte_at v1 (cluster_lba v (unat c)) i" if "i < cbytes v" for i
      proof -
        have "\<forall>m\<in>cluster_sectors v1 (unat c). vsec v' m = vsec v1 m"
          unfolding same_cluster_sectors [OF same_geom_eq [OF f]]
          using o' disj cluster_sectors_data [OF Cons.prems(1) c(2)] by blast
        moreover have "valid_cluster v1 c" using c(2) f by (simp add: valid_cluster_def)
        ultimately show ?thesis using cluster_byte_same [OF g _ _, of c v' i] that unfolding s1 by blast
      qed
      have "chain_byte v' (x # xs) i =
          (if unat off \<le> i \<and> i < unat off + unat remaining then src ! (i - unat off) else chain_byte v (x # xs) i)"
        if "i < length (x # xs) * cbytes v" for i
      proof (cases "i < cbytes v")
        case True
        then show ?thesis using keep [OF True] b1 tc unfolding cb [OF fv] cb [OF refl] by auto
      next
        case False
        then have i: "i - cbytes v < length xs * cbytes v" using that by simp
        have "drop (unat n) src ! (i - cbytes v) = src ! (unat n + (i - cbytes v))" by (rule nth_drop [OF n(2)])
        also have "unat n + (i - cbytes v) = i - unat off" using False tc(1) by linarith
        finally have e: "drop (unat n) src ! (i - cbytes v) = src ! (i - unat off)" .
        have "i - cbytes v < unat (remaining - ucast n) \<longleftrightarrow> unat off \<le> i \<and> i < unat off + unat remaining"
          using False tc by linarith
        then show ?thesis using False b' [rule_format, OF i] xs1 [rule_format, OF i] unfolding cb [OF fv] cb [OF refl] e by simp
      qed
      moreover have "\<forall>m<2 ^ 32. m \<notin> chain_sectors v (x # xs) \<longrightarrow> vsec v' m = vsec v m"
        using o' o1 unfolding cs by auto
      ultimately show ?thesis unfolding run r using more fv f' by (intro exI [of _ v']) auto
    qed
  qed
qed

section \<open>Reading and writing a file\<close>

lemma cluster_size_word:
  assumes "fat_geom v"
  shows "unat (ucast (cluster_size (v_fs v)) :: u64) = cbytes v"
  using cluster_bytes_word [OF assms] by (simp add: cluster_size_def unat_ucast_32_64 mult.commute)

lemma chain_byte_drop:
  assumes "0 < spc v" and "k \<le> length cs"
  shows "chain_byte v (drop k cs) i = chain_byte v cs (k * cbytes v + i)"
proof -
  have "(k * cbytes v + i) div cbytes v = k + i div cbytes v" "(k * cbytes v + i) mod cbytes v = i mod cbytes v"
    using assms by simp_all
  then show ?thesis using assms(2) by (simp add: chain_byte_def)
qed

lemma chain_byte_seek:
  assumes "0 < spc v" and "off div cbytes v < length cs"
  shows "chain_byte v (drop (off div cbytes v) cs) (off mod cbytes v + i) = chain_byte v cs (off + i)"
  using chain_byte_drop [OF assms(1), of "off div cbytes v" cs] assms(2)
  by (simp only: add.assoc [symmetric] div_mult_mod_eq less_imp_le)

lemma length_fat_file [simp]: "length (fat_file v cs sz) = sz"
  by (simp add: fat_file_def)

text \<open>Finding the cluster of an offset, and reading on from it.\<close>

lemma seek_ok:
  assumes "fat_geom v" and "is_chain v c cs" and "unat off < length cs * cbytes v"
  shows "skip_clusters v r c (unat ((off :: u64) div ucast (cluster_size (v_fs v)))) = Inr (cs ! (unat off div cbytes v))"
    and "is_chain v (cs ! (unat off div cbytes v)) (drop (unat off div cbytes v) cs)"
    and "unat (ucast (off mod ucast (cluster_size (v_fs v))) :: u32) = unat off mod cbytes v"
    and "unat off mod cbytes v < cbytes v" and "unat off div cbytes v < length cs"
proof -
  have sp: "0 < cbytes v" and s: "cbytes v < 2 ^ 32" using assms(1) by (simp_all add: fat_geom_def)
  have i: "unat off div cbytes v < length cs" using assms(3) by (intro less_mult_imp_div_less)
  then show "unat off div cbytes v < length cs" .
  show "skip_clusters v r c (unat (off div ucast (cluster_size (v_fs v)))) = Inr (cs ! (unat off div cbytes v))"
    and "is_chain v (cs ! (unat off div cbytes v)) (drop (unat off div cbytes v) cs)"
    using skip_clusters_ok [OF assms(1,2) i] by (simp_all add: unat_div cluster_size_word [OF assms(1)])
  show "unat off mod cbytes v < cbytes v" using sp by simp
  then have "unat (off mod ucast (cluster_size (v_fs v))) < 2 ^ 32"
    using s by (simp add: unat_mod cluster_size_word [OF assms(1)])
  then show "unat (ucast (off mod ucast (cluster_size (v_fs v))) :: u32) = unat off mod cbytes v"
    by (simp add: unat_ucast_64_32 unat_mod cluster_size_word [OF assms(1)])
qed

lemma rest_length:
  assumes "0 < (cb :: nat)" and "off + n \<le> len * cb" and "off div cb < len"
  shows "off mod cb + n \<le> (len - off div cb) * cb"
proof -
  have "off = off div cb * cb + off mod cb" by simp
  then have "off mod cb + n \<le> len * cb - off div cb * cb" using assms(2) by linarith
  then show ?thesis by (simp only: diff_mult_distrib)
qed

lemma bytes_read_file:
  "off \<le> sz \<Longrightarrow> bytes_read off n (fat_file v cs sz) = map (\<lambda>i. chain_byte v cs (off + i)) [0..<min n (sz - off)]"
  unfolding bytes_read_def fat_file_def by (auto simp: list_eq_iff_nth_eq min.commute)

text \<open>
  C20. A read of a FAT file is a read of its byte string: when the entry of the file gives a
  size that its chain of clusters covers, \<^verbatim>\<open>fat32_read_op\<close> returns, for any offset and
  length, the bytes of the range that exist and their number.
\<close>
theorem fat_file_read:
  fixes s :: "'a fat_state_scheme"
  assumes "fat32_refresh_node n s0 = (0, s)" and "n = fat_node_of s0 vn" and "vn_type (g_vnode_pool s vn) = VNODE_FILE"
    and "fat_geom (vol s)" and "file_chain (vol s) (n_cluster (fnodes s n)) cs"
    and "unat (n_size (fnodes s n)) \<le> length cs * cbytes (vol s)" and "unat off + unat len < 2 ^ 64"
    and "bytes = bytes_read (unat off) (unat len) (fat_file (vol s) cs (unat (n_size (fnodes s n))))"
  shows "fat32_read_op vn len off s0 = Some (c_int (of_nat (length bytes)), bytes, s)"
proof -
  let ?sz = "n_size (fnodes s n)"
  let ?v = "vol s"
  define total where "total = (if ucast ?sz < off + len then ucast ?sz - off else len)"
  show ?thesis
  proof (cases "(ucast ?sz :: u64) \<le> off")
    case True
    then have "unat ?sz \<le> unat off" by (simp add: word_le_nat_alt unat_ucast_32_64)
    then have "bytes = []" using assms(8) by (simp add: bytes_read_def)
    then show ?thesis unfolding fat32_read_op_def Let_def assms(2) [symmetric] assms(1) using True assms(3)
      by (simp add: c_int_def)
  next
    case False
    then have off: "unat off < unat ?sz" by (simp add: not_le word_less_nat_alt unat_ucast_32_64)
    then have "cs \<noteq> []" using assms(6) by auto
    then have ch: "is_chain ?v (n_cluster (fnodes s n)) cs" and nz: "n_cluster (fnodes s n) \<noteq> 0"
      using assms(5) by (cases cs; auto simp: file_chain_def valid_cluster_def)+
    have tot: "unat total = min (unat len) (unat ?sz - unat off)"
      using off assms(7) by (auto simp: total_def word_less_nat_alt unat_ucast_32_64 unat_sub_if' unat_plus_if')
    have sp: "0 < spc ?v" using assms(4) by (simp add: fat_geom_def)
    have o': "unat off < length cs * cbytes ?v" using off assms(6) by simp
    note sk = seek_ok [OF assms(4) ch o']
    have "unat off mod cbytes ?v + unat total \<le> (length cs - unat off div cbytes ?v) * cbytes ?v"
      by (rule rest_length) (use sp sk(5) tot off assms(6) in auto)
    then have "read_clusters ?v (cs ! (unat off div cbytes ?v)) (ucast (off mod ucast (cluster_size (v_fs ?v)))) total [] =
      Some (0, 0, map (\<lambda>i. chain_byte ?v (drop (unat off div cbytes ?v) cs) (unat off mod cbytes ?v + i)) [0..<unat total])"
      using read_clusters_ok [OF assms(4) sk(2), of "ucast (off mod ucast (cluster_size (v_fs ?v)))" total "[]"] sk(3,4) by simp
    also have "map (\<lambda>i. chain_byte ?v (drop (unat off div cbytes ?v) cs) (unat off mod cbytes ?v + i)) [0..<unat total] = bytes"
      unfolding assms(8) bytes_read_file [OF less_imp_le [OF off]] tot
      by (simp only: chain_byte_seek [OF sp sk(5)])
    finally have r: "read_clusters ?v (cs ! (unat off div cbytes ?v)) (ucast (off mod ucast (cluster_size (v_fs ?v)))) total [] =
      Some (0, 0, bytes)" .
    have "length bytes = unat total" unfolding assms(8) bytes_read_file [OF less_imp_le [OF off]] tot by simp
    then show ?thesis
      unfolding fat32_read_op_def Let_def assms(2) [symmetric] assms(1) total_def [symmetric]
      using False assms(3) nz sk(1) r by (simp add: total_def [symmetric])
  qed
qed

lemma needed_clusters:
  assumes "fat_geom v" and "0 < unat (len :: u64)" and "unat (off :: u64) + unat len \<le> n * cbytes v"
    and "unat off + unat len < 2 ^ 32"
  shows "\<exists>m. unat (ucast ((off + len + ucast (cluster_size (v_fs v)) - 1) div ucast (cluster_size (v_fs v))) :: u32) = Suc m \<and>
    Suc m \<le> n"
proof -
  let ?cb = "cbytes v"
  have sp: "0 < ?cb" "?cb < 2 ^ 32" using assms(1) by (simp_all add: fat_geom_def)
  let ?e = "unat off + unat len"
  have "unat (off + len + ucast (cluster_size (v_fs v)) - 1) = ?e + ?cb - 1"
    using assms(2,4) sp by (simp add: unat_sub_if' unat_plus_if' cluster_size_word [OF assms(1)])
  then have d: "unat ((off + len + ucast (cluster_size (v_fs v)) - 1) div ucast (cluster_size (v_fs v))) = (?e + ?cb - 1) div ?cb"
    by (simp add: unat_div cluster_size_word [OF assms(1)])
  have "?cb div ?cb \<le> (?e + ?cb - 1) div ?cb" using assms(2) by (intro div_le_mono) simp
  then have lo: "1 \<le> (?e + ?cb - 1) div ?cb" using sp(1) by simp
  have "(?e + ?cb - 1) div ?cb < n + 1"
    using assms(3) sp(1) by (intro less_mult_imp_div_less) simp
  then have hi: "(?e + ?cb - 1) div ?cb \<le> n" by simp
  have "(?e + ?cb - 1) div ?cb \<le> ?e + ?cb - 1" by (rule div_le_dividend)
  moreover have "(?e + ?cb - 1) div ?cb \<le> (?e * ?cb) div ?cb"
  proof (rule div_le_mono)
    have "?e + ?cb \<le> ?e * ?cb + 1" using assms(2) sp(1) by (cases ?e; cases ?cb) auto
    then show "?e + ?cb - 1 \<le> ?e * ?cb" by linarith
  qed
  ultimately have "(?e + ?cb - 1) div ?cb < 2 ^ 32" using assms(4) sp(1) by simp
  then have "unat (ucast ((off + len + ucast (cluster_size (v_fs v)) - 1) div ucast (cluster_size (v_fs v))) :: u32) = (?e + ?cb - 1) div ?cb"
    by (simp add: unat_ucast_64_32 d)
  then show ?thesis using lo hi by (intro exI [of _ "(?e + ?cb - 1) div ?cb - 1"]) simp
qed

text \<open>What a change inside the chain \<open>cs\<close> leaves alone: every other chain and its bytes.\<close>

definition others_same :: "fat_vol \<Rightarrow> u32 list \<Rightarrow> fat_vol \<Rightarrow> bool" where
  "others_same v cs v' \<longleftrightarrow> (\<forall>b bs. is_chain v b bs \<and> set bs \<inter> set cs = {} \<longrightarrow>
     is_chain v' b bs \<and> (\<forall>i<length bs * cbytes v. chain_byte v' bs i = chain_byte v bs i))"

lemma others_sameI:
  assumes "fat_geom v" and "is_chain v c cs" and "v_fs v' = v_fs v"
    and "\<forall>m<2 ^ 32. m \<notin> chain_sectors v cs \<longrightarrow> vsec v' m = vsec v m"
  shows "others_same v cs v'"
  unfolding others_same_def
proof (intro allI impI, elim conjE, intro conjI allI impI)
  fix b bs assume b: "is_chain v b bs" "set bs \<inter> set cs = {}"
  show "is_chain v' b bs"
    by (rule chain_same [OF assms(1,3,4) _ b(1)]) (use chain_sectors_data [OF assms(1,2)] in blast)
  fix i assume "i < length bs * cbytes v"
  then show "chain_byte v' bs i = chain_byte v bs i"
  proof (rule chain_byte_same [OF assms(1,3) b(1)], intro ballI)
    fix x m assume "x \<in> set bs" "m \<in> cluster_sectors v (unat x)"
    then have "m \<in> chain_sectors v bs" by (auto simp: chain_sectors_def)
    then show "vsec v' m = vsec v m"
      using assms(4) chain_sectors_disjoint [OF assms(1) b(1) assms(2) b(2)] chain_sectors_data [OF assms(1) b(1)] by blast
  qed
qed

lemma bytes_write_file:
  assumes "off + length buf \<le> sz" and "\<forall>i < sz. chain_byte v' cs i =
    (if off \<le> i \<and> i < off + length buf then buf ! (i - off) else chain_byte v cs i)"
  shows "fat_file v' cs sz = bytes_write off buf (fat_file v cs sz)"
  using assms by (auto simp: list_eq_iff_nth_eq bytes_write_def pad_to_def length_splice nth_splice fat_file_def)

text \<open>Writing from any offset of a chain: the whole byte string of the chain afterwards.\<close>

lemma write_chain_ok:
  assumes "fat_geom v" and "is_chain v c cs" and "0 < unat (len :: u64)" and "length buf = unat len"
    and "unat (off :: u64) + unat len \<le> length cs * cbytes v"
  shows "\<exists>v'. write_clusters (cs ! (unat off div cbytes v)) (ucast (off mod ucast (cluster_size (v_fs v)))) len buf v = Some (0, v') \<and>
    v_fs v' = v_fs v \<and> fat_geom v' \<and> is_chain v' c cs \<and> others_same v cs v' \<and>
    (\<forall>i<length cs * cbytes v. chain_byte v' cs i =
       (if unat off \<le> i \<and> i < unat off + unat len then buf ! (i - unat off) else chain_byte v cs i))"
proof -
  define cb where "cb = cbytes v"
  define k where "k = unat off div cb"
  have sp: "0 < spc v" "0 < cb" using assms(1) by (simp_all add: fat_geom_def cb_def)
  have "unat off < length cs * cbytes v" using assms(3,5) by linarith
  note sk = seek_ok [OF assms(1,2) this, folded cb_def, folded k_def]
  have off: "unat off = k * cb + unat off mod cb" by (simp add: k_def)
  have fit: "unat off mod cb + unat len \<le> length (drop k cs) * cb"
    using rest_length [OF sp(2) assms(5) [folded cb_def]] sk(5) by (simp add: k_def)
  obtain v' where w: "write_clusters (cs ! k) (ucast (off mod ucast (cluster_size (v_fs v)))) len buf v = Some (0, v')"
    and f: "v_fs v' = v_fs v" and g: "fat_geom v'"
    and b: "\<forall>i<length (drop k cs) * cb. chain_byte v' (drop k cs) i =
       (if unat off mod cb \<le> i \<and> i < unat off mod cb + unat len then buf ! (i - unat off mod cb) else chain_byte v (drop k cs) i)"
    and o': "\<forall>m<2 ^ 32. m \<notin> chain_sectors v (drop k cs) \<longrightarrow> vsec v' m = vsec v m"
    using write_clusters_ok [OF assms(1) sk(2), of "ucast (off mod ucast (cluster_size (v_fs v)))" len buf] sk(3,4) fit assms(4)
    unfolding cb_def [symmetric] by auto
  have sub: "chain_sectors v (drop k cs) \<subseteq> chain_sectors v cs"
    using set_drop_subset [of k cs] by (auto simp: chain_sectors_def)
  then have os: "\<forall>m<2 ^ 32. m \<notin> chain_sectors v cs \<longrightarrow> vsec v' m = vsec v m" using o' by blast
  have "chain_byte v' cs i = (if unat off \<le> i \<and> i < unat off + unat len then buf ! (i - unat off) else chain_byte v cs i)"
    if i: "i < length cs * cb" for i
  proof (cases "i < k * cb")
    case True
    then have ik: "i div cb < k" by (rule less_mult_imp_div_less)
    let ?x = "cs ! (i div cb)"
    have "?x \<notin> set (drop k cs)"
    proof -
      have "?x \<in> set (take k cs)" using ik sk(5) by (auto simp: in_set_conv_nth intro!: exI [of _ "i div cb"])
      then show ?thesis using chain_distinct [OF assms(1,2)] distinct_append [of "take k cs" "drop k cs"] by auto
    qed
    moreover have "?x \<in> set cs" using ik sk(5) by simp
    ultimately have "cluster_sectors v (unat ?x) \<inter> chain_sectors v (drop k cs) = {}"
      using valid_disjoint chain_used [OF assms(1,2)] set_drop_subset [of k cs] unfolding chain_sectors_def by blast
    moreover have "\<forall>m\<in>cluster_sectors v (unat ?x). m < 2 ^ 32"
      using cluster_sectors_data [OF assms(1)] chain_used [OF assms(1,2) \<open>?x \<in> set cs\<close>] by blast
    ultimately have "\<forall>m\<in>cluster_sectors v (unat ?x). vsec v' m = vsec v m" using o' by blast
    then have "chain_byte v' cs i = chain_byte v cs i"
      using chain_byte_local [OF assms(1) f assms(2) i [unfolded cb_def]] by (simp add: cb_def)
    then show ?thesis using True off by simp
  next
    case False
    define j where "j = i - k * cb"
    have ij: "i = k * cb + j" using False by (simp add: j_def)
    have j: "j < length (drop k cs) * cb" using i sk(5) unfolding ij by (simp add: diff_mult_distrib)
    have d: "chain_byte u cs i = chain_byte u (drop k cs) j" if "v_fs u = v_fs v" for u
      using chain_byte_drop [of u k cs j] sp(1) sk(5) that by (simp add: ij cb_def)
    have "unat off \<le> i \<and> i < unat off + unat len \<longleftrightarrow> unat off mod cb \<le> j \<and> j < unat off mod cb + unat len"
      and "i - unat off = j - unat off mod cb" using off ij by linarith+
    then show ?thesis using b [rule_format, OF j] unfolding d [OF f] d [OF refl] by simp
  qed
  moreover have "is_chain v' c cs"
    by (rule chain_same [OF assms(1) f os _ assms(2)]) (use chain_sectors_data [OF assms(1,2)] in blast)
  ultimately show ?thesis unfolding cb_def [symmetric] k_def [symmetric]
    using w f g others_sameI [OF assms(1,2) f os] by blast
qed

text \<open>
  C21. A write inside a FAT file is a write to its byte string: \<^verbatim>\<open>fat32_write_op\<close> takes all the
  bytes, the file then reads as before with the bytes at the offset replaced, it keeps its
  clusters, and every other chain keeps its clusters and its bytes.
\<close>
theorem fat_file_overwrite:
  fixes s :: "'a fat_state_scheme"
  assumes "n = fat_node_of s vn" and "vn_type (g_vnode_pool s vn) = VNODE_FILE" and "fat_geom (vol s)"
    and "file_chain (vol s) (n_cluster (fnodes s n)) cs" and "unat (n_size (fnodes s n)) \<le> length cs * cbytes (vol s)"
    and "unat len = length buf" and "unat off + unat len \<le> unat (n_size (fnodes s n))"
    and "sz = unat (n_size (fnodes s n))"
  shows "\<exists>s'. fat32_write_op vn buf len off s = Some (c_int len, s') \<and> fnodes s' = fnodes s \<and> fat_geom (vol s') \<and>
    file_chain (vol s') (n_cluster (fnodes s' n)) cs \<and>
    fat_file (vol s') cs sz = bytes_write (unat off) buf (fat_file (vol s) cs sz) \<and>
    others_same (vol s) cs (vol s')"
proof (cases "len = 0")
  case True
  then have "buf = []" using assms(6) by simp
  then have "bytes_write (unat off) buf (fat_file (vol s) cs sz) = fat_file (vol s) cs sz"
    using assms(7,8) by (intro bytes_write_file [symmetric]) auto
  moreover have "fat32_write_op vn buf len off s = Some (c_int len, s)"
    using True assms(2) by (simp add: fat32_write_op_def c_int_def Let_def)
  ultimately show ?thesis using assms(3,4) by (intro exI [of _ s]) (simp add: others_same_def)
next
  case False
  let ?v = "vol s"
  let ?c = "n_cluster (fnodes s n)"
  have pos: "0 < unat len" using False by (simp add: unat_gt_0)
  have small: "unat (n_size (fnodes s n)) < 2 ^ 32" by (rule less_le_trans [OF unsigned_less]) simp
  then have e32: "unat off + unat len < 2 ^ 32" using assms(7) by linarith
  have "cs \<noteq> []" using assms(5,7) pos by auto
  then have ch: "is_chain ?v ?c cs" and nz: "?c \<noteq> 0"
    using assms(4) by (cases cs; auto simp: file_chain_def valid_cluster_def)+
  have sp: "0 < spc ?v" using assms(3) by (simp add: fat_geom_def)
  have room: "unat off + unat len \<le> length cs * cbytes ?v" using assms(5,7) by linarith
  obtain m where need: "unat (ucast ((off + len + ucast (cluster_size (v_fs ?v)) - 1) div ucast (cluster_size (v_fs ?v))) :: u32) = Suc m"
    and le: "Suc m \<le> length cs"
    using needed_clusters [OF assms(3) pos room e32] by blast
  let ?needed = "ucast ((off + len + ucast (cluster_size (v_fs ?v)) - 1) div ucast (cluster_size (v_fs ?v))) :: u32"
  have "?needed \<noteq> 0" using need by auto
  then have en: "fat32_ensure_chain ?c ?needed ?v = Some (0, ?c, ?v)"
    using ensure_walk_chain [OF assms(3) ch \<open>cs \<noteq> []\<close>, of 0 m] le need nz by (simp add: fat32_ensure_chain_def)
  have "unat off < length cs * cbytes ?v" using room pos by linarith
  note sk = seek_ok [OF assms(3) ch this]
  obtain v2 where w: "write_clusters (cs ! (unat off div cbytes ?v)) (ucast (off mod ucast (cluster_size (v_fs ?v)))) len buf ?v = Some (0, v2)"
    and f: "v_fs v2 = v_fs ?v" and g2: "fat_geom v2" and c2: "is_chain v2 ?c cs" and o2: "others_same ?v cs v2"
    and b: "\<forall>i<length cs * cbytes ?v. chain_byte v2 cs i =
       (if unat off \<le> i \<and> i < unat off + unat len then buf ! (i - unat off) else chain_byte ?v cs i)"
    using write_chain_ok [OF assms(3) ch pos assms(6) [symmetric] room] by blast
  define s' where "s' = set_vol v2 (set_vol ?v (upd_fnode n (\<lambda>x. x\<lparr>n_cluster := ?c\<rparr>) s))"
  have same: "fnodes s' = fnodes s" by (simp add: s'_def set_vol_def upd_fnode_def fun_eq_iff)
  have vs: "vol s' = v2" by (simp add: s'_def set_vol_def)
  have "unat (off + len) \<le> unat (n_size (fnodes s n))" using e32 assms(7) by (simp add: unat_plus_if')
  then have "\<not> (ucast (n_size (fnodes s n)) :: u64) < off + len"
    by (simp add: not_less word_le_nat_alt unat_ucast_32_64)
  then have "fat32_write_op vn buf len off s = Some (c_int len, s')"
    unfolding fat32_write_op_def Let_def assms(1) [symmetric]
    using assms(2) False en sk(1) w same by (simp add: s'_def [symmetric])
  moreover have "fat_file v2 cs sz = bytes_write (unat off) buf (fat_file ?v cs sz)"
    by (rule bytes_write_file) (use assms(5-8) b in auto)
  ultimately show ?thesis using g2 c2 o2 \<open>cs \<noteq> []\<close> unfolding file_chain_def
    by (intro exI [of _ s']) (simp add: same vs)
qed

section \<open>A small file system\<close>

text \<open>Vnode 0 is the file of 600 bytes in clusters 2 and 3 of the small volume.\<close>

definition demo_fat :: fat_state where
  "demo_fat = \<lparr>g_vnode_pool = (\<lambda>_. zero_vnode\<lparr>vn_type := VNODE_FILE, vn_ops := Some FAT32_OPS\<rparr>),
     g_vnode_used = (\<lambda>i. i = 0), rnodes = (\<lambda>_. zero_node), rn_used = (\<lambda>_. False), rn_base = 0x80200000,
     vol = demo_vol, fnodes = (\<lambda>_. zero_fnode\<lparr>n_cluster := 2, n_size := 600\<rparr>), fn_used = (\<lambda>i. i = 0)\<rparr>"

lemma demo_fat_node: "fat_node_of demo_fat 0 = 0" "fat32_refresh_node 0 demo_fat = (0, demo_fat)"
  by (simp_all add: fat_node_of_def demo_fat_def zero_vnode_def fat32_refresh_node_def zero_fnode_def)

lemma demo_fat_facts:
  "vn_type (g_vnode_pool demo_fat 0) = VNODE_FILE" "vol demo_fat = demo_vol"
  "n_cluster (fnodes demo_fat 0) = 2" "n_size (fnodes demo_fat 0) = 600" "cbytes demo_vol = 512"
  by (simp_all add: demo_fat_def zero_vnode_def zero_fnode_def demo_vol_def zero_fs_def)

lemma demo_file_chain: "file_chain demo_vol 2 [2, 3]"
  using demo_chain by (simp add: file_chain_def del: is_chain.simps)

theorem fat_file_read_witness:
  "\<exists>bytes. fat32_read_op 0 200 500 demo_fat = Some (100, bytes, demo_fat) \<and> length bytes = 100"
proof -
  let ?b = "bytes_read 500 200 (fat_file demo_vol [2, 3] 600)"
  have "length ?b = 100" by (simp add: bytes_read_def)
  moreover have "fat32_read_op 0 200 500 demo_fat = Some (c_int (of_nat (length ?b)), ?b, demo_fat)"
  proof (rule fat_file_read [OF demo_fat_node(2), where cs = "[2, 3]"])
    show "?b = bytes_read (unat (500 :: u64)) (unat (200 :: u64)) (fat_file (vol demo_fat) [2, 3] (unat (n_size (fnodes demo_fat 0))))"
      unfolding demo_fat_facts by simp
  qed (simp_all add: demo_fat_node demo_fat_facts demo_geom demo_file_chain)
  moreover have "c_int (of_nat 100) = 100" by (simp add: c_int_def)
  ultimately show ?thesis by auto
qed

theorem fat_file_overwrite_witness:
  "\<exists>s'. fat32_write_op 0 [7, 8] 2 511 demo_fat = Some (2, s') \<and>
     fat_file (vol s') [2, 3] 600 = bytes_write 511 [7, 8] (fat_file demo_vol [2, 3] 600)"
proof -
  have "\<exists>s'. fat32_write_op 0 [7, 8] 2 511 demo_fat = Some (c_int 2, s') \<and> fnodes s' = fnodes demo_fat \<and>
    fat_geom (vol s') \<and> file_chain (vol s') (n_cluster (fnodes s' 0)) [2, 3] \<and>
    fat_file (vol s') [2, 3] 600 = bytes_write (unat (511 :: u64)) [7, 8] (fat_file (vol demo_fat) [2, 3] 600) \<and>
    others_same (vol demo_fat) [2, 3] (vol s')"
    by (rule fat_file_overwrite [OF demo_fat_node(1) [symmetric]])
      (simp_all add: demo_fat_facts demo_geom demo_file_chain)
  moreover have "c_int 2 = 2" by (simp add: c_int_def)
  moreover have "unat (511 :: u64) = 511" by simp
  ultimately show ?thesis unfolding demo_fat_facts by metis
qed

end
