(* ===== verification/User_String.thy ===== *)
theory User_String
  imports Kstring
begin

text \<open>
  The character classes and strings of the user library: \<^verbatim>\<open>user/lib/ctype.c\<close> and
  \<^verbatim>\<open>user/lib/string.c\<close>.  A string that is only read is its bytes before the NUL, a pointer
  into it is the number of bytes before the place pointed at, and \<open>None\<close> is \<^verbatim>\<open>NULL\<close>.  A buffer
  that is written is the list of the bytes there is room for, and writing past its end is
  \<open>None\<close>. Plain \<^verbatim>\<open>char\<close> is unsigned on this machine.  Functions whose arguments may
  overlap work on the memory itself.
\<close>

section \<open>Character classes\<close>

definition u_isspace :: "int \<Rightarrow> bool" where
  "u_isspace c \<longleftrightarrow> c = 32 \<or> c = 9 \<or> c = 10 \<or> c = 13 \<or> c = 12 \<or> c = 11"

definition u_isdigit :: "int \<Rightarrow> bool" where "u_isdigit c \<longleftrightarrow> 48 \<le> c \<and> c \<le> 57"

definition u_isalpha :: "int \<Rightarrow> bool" where
  "u_isalpha c \<longleftrightarrow> 65 \<le> c \<and> c \<le> 90 \<or> 97 \<le> c \<and> c \<le> 122"

definition u_isalnum :: "int \<Rightarrow> bool" where "u_isalnum c \<longleftrightarrow> u_isalpha c \<or> u_isdigit c"

definition u_isxdigit :: "int \<Rightarrow> bool" where
  "u_isxdigit c \<longleftrightarrow> u_isdigit c \<or> 97 \<le> c \<and> c \<le> 102 \<or> 65 \<le> c \<and> c \<le> 70"

definition u_iscntrl :: "int \<Rightarrow> bool" where "u_iscntrl c \<longleftrightarrow> 0 \<le> c \<and> c < 0x20 \<or> c = 0x7F"
definition u_islower :: "int \<Rightarrow> bool" where "u_islower c \<longleftrightarrow> 97 \<le> c \<and> c \<le> 122"
definition u_isupper :: "int \<Rightarrow> bool" where "u_isupper c \<longleftrightarrow> 65 \<le> c \<and> c \<le> 90"
definition u_isprint :: "int \<Rightarrow> bool" where "u_isprint c \<longleftrightarrow> 0x20 \<le> c \<and> c \<le> 0x7E"
definition u_isgraph :: "int \<Rightarrow> bool" where "u_isgraph c \<longleftrightarrow> u_isprint c \<and> \<not> u_isspace c"
definition u_ispunct :: "int \<Rightarrow> bool" where
  "u_ispunct c \<longleftrightarrow> u_isprint c \<and> \<not> u_isalnum c \<and> \<not> u_isspace c"
definition u_isascii :: "int \<Rightarrow> bool" where "u_isascii c \<longleftrightarrow> 0 \<le> c \<and> c \<le> 0x7F"
definition u_toascii :: "int \<Rightarrow> int" where "u_toascii c = c AND 0x7F"

definition u_tolower :: "int \<Rightarrow> int" where
  "u_tolower c = (if 65 \<le> c \<and> c \<le> 90 then c - 65 + 97 else c)"

definition u_toupper :: "int \<Rightarrow> int" where
  "u_toupper c = (if 97 \<le> c \<and> c \<le> 122 then c - 97 + 65 else c)"

section \<open>Measuring and comparing\<close>

definition u_strlen :: "cstr option \<Rightarrow> nat" where
  "u_strlen s = (case s of None \<Rightarrow> 0 | Some cs \<Rightarrow> length cs)"

fun nlen_loop :: "cstr \<Rightarrow> nat \<Rightarrow> nat" where
  "nlen_loop (c # cs) (Suc n) = Suc (nlen_loop cs n)"
| "nlen_loop _ _ = 0"

definition u_strnlen :: "cstr option \<Rightarrow> nat \<Rightarrow> nat" where
  "u_strnlen s n = (case s of None \<Rightarrow> 0 | Some cs \<Rightarrow> nlen_loop cs n)"

fun u_strcmp :: "cstr \<Rightarrow> cstr \<Rightarrow> int" where
  "u_strcmp (a # as) (b # bs) = (if a = b then u_strcmp as bs else uint a - uint b)"
| "u_strcmp (a # as) [] = uint a"
| "u_strcmp [] (b # bs) = - uint b"
| "u_strcmp [] [] = 0"

fun u_strncmp :: "cstr \<Rightarrow> cstr \<Rightarrow> nat \<Rightarrow> int" where
  "u_strncmp as bs 0 = 0"
| "u_strncmp (a # as) (b # bs) (Suc n) = (if a \<noteq> b then uint a - uint b else u_strncmp as bs n)"
| "u_strncmp (a # as) [] (Suc n) = uint a"
| "u_strncmp [] (b # bs) (Suc n) = - uint b"
| "u_strncmp [] [] (Suc n) = 0"

fun u_strcasecmp :: "cstr \<Rightarrow> cstr \<Rightarrow> int" where
  "u_strcasecmp (a # as) (b # bs) =
     (if u_tolower (uint a) \<noteq> u_tolower (uint b) then u_tolower (uint a) - u_tolower (uint b)
      else u_strcasecmp as bs)"
| "u_strcasecmp (a # as) [] = uint a"
| "u_strcasecmp [] (b # bs) = - uint b"
| "u_strcasecmp [] [] = 0"

fun u_strncasecmp :: "cstr \<Rightarrow> cstr \<Rightarrow> nat \<Rightarrow> int" where
  "u_strncasecmp as bs 0 = 0"
| "u_strncasecmp (a # as) (b # bs) (Suc n) =
     (if u_tolower (uint a) \<noteq> u_tolower (uint b) then u_tolower (uint a) - u_tolower (uint b)
      else u_strncasecmp as bs n)"
| "u_strncasecmp (a # as) [] (Suc n) = uint a"
| "u_strncasecmp [] (b # bs) (Suc n) = - uint b"
| "u_strncasecmp [] [] (Suc n) = 0"

definition u_strcoll :: "cstr \<Rightarrow> cstr \<Rightarrow> int" where "u_strcoll a b = u_strcmp a b"

fun u_memcmp :: "u8 list \<Rightarrow> u8 list \<Rightarrow> nat \<Rightarrow> int" where
  "u_memcmp (a # as) (b # bs) (Suc n) = (if a \<noteq> b then uint a - uint b else u_memcmp as bs n)"
| "u_memcmp _ _ _ = 0"

section \<open>Copying into a buffer\<close>

text \<open>The byte \<open>c\<close> stored at the head of what is left of the buffer.\<close>

fun put_byte :: "u8 \<Rightarrow> u8 list \<Rightarrow> (u8 list \<Rightarrow> u8 list option) \<Rightarrow> u8 list option" where
  "put_byte c [] k = None"
| "put_byte c (d # ds) k = map_option ((#) c) (k ds)"

lemma put_byte_cong [fundef_cong]:
  "c = c' \<Longrightarrow> d = d' \<Longrightarrow> (\<And>ds. d' = hd d' # ds \<Longrightarrow> k ds = k' ds) \<Longrightarrow> put_byte c d k = put_byte c' d' k'"
  by (cases d) auto

fun u_strcpy :: "u8 list \<Rightarrow> cstr \<Rightarrow> u8 list option" where
  "u_strcpy dst [] = put_byte 0 dst Some"
| "u_strcpy dst (c # cs) = put_byte c dst (\<lambda>d. u_strcpy d cs)"

fun zero_fill :: "u8 list \<Rightarrow> nat \<Rightarrow> u8 list option" where
  "zero_fill dst 0 = Some dst"
| "zero_fill dst (Suc n) = put_byte 0 dst (\<lambda>d. zero_fill d n)"

fun u_strncpy :: "u8 list \<Rightarrow> cstr \<Rightarrow> nat \<Rightarrow> u8 list option" where
  "u_strncpy dst cs 0 = Some dst"
| "u_strncpy dst [] (Suc n) = zero_fill dst (Suc n)"
| "u_strncpy dst (c # cs) (Suc n) = put_byte c dst (\<lambda>d. u_strncpy d cs n)"

text \<open>\<^verbatim>\<open>stpcpy\<close> and \<^verbatim>\<open>stpncpy\<close> also return where they stopped.\<close>

definition u_stpcpy :: "u8 list \<Rightarrow> cstr \<Rightarrow> (u8 list \<times> nat) option" where
  "u_stpcpy dst src = map_option (\<lambda>d. (d, length src)) (u_strcpy dst src)"

definition u_stpncpy :: "u8 list \<Rightarrow> cstr \<Rightarrow> nat \<Rightarrow> (u8 list \<times> nat) option" where
  "u_stpncpy dst src n = map_option (\<lambda>d. (d, nlen_loop src n)) (u_strncpy dst src n)"

text \<open>The string already in the buffer is walked first.\<close>

fun u_strcat :: "u8 list \<Rightarrow> cstr \<Rightarrow> u8 list option" where
  "u_strcat [] src = None"
| "u_strcat (d # ds) src = (if d \<noteq> 0 then map_option ((#) d) (u_strcat ds src) else u_strcpy (d # ds) src)"

fun u_strncat :: "u8 list \<Rightarrow> cstr \<Rightarrow> nat \<Rightarrow> u8 list option" where
  "u_strncat [] src n = None"
| "u_strncat (d # ds) src n =
     (if d \<noteq> 0 then map_option ((#) d) (u_strncat ds src n) else u_strcpy (d # ds) (take n src))"

definition u_strxfrm :: "u8 list option \<Rightarrow> cstr \<Rightarrow> nat \<Rightarrow> (nat \<times> u8 list option) option" where
  "u_strxfrm dst src n =
     (case dst of
        None \<Rightarrow> Some (length src, None)
      | Some d \<Rightarrow>
          if 0 < n then map_option (\<lambda>d'. (length src, Some d')) (u_strcpy d (take (min (length src) (n - 1)) src))
          else Some (length src, Some d))"

section \<open>Searching\<close>

text \<open>The character looked for is an \<^verbatim>\<open>int\<close> cast to \<^verbatim>\<open>char\<close>; its NUL test is on the \<^verbatim>\<open>int\<close>.\<close>

fun find_byte :: "cstr \<Rightarrow> u8 \<Rightarrow> nat \<Rightarrow> nat option" where
  "find_byte [] c i = None"
| "find_byte (x # xs) c i = (if x = c then Some i else find_byte xs c (Suc i))"

definition u_strchr :: "cstr \<Rightarrow> int \<Rightarrow> nat option" where
  "u_strchr s c =
     (case find_byte s (word_of_int c) 0 of
        Some i \<Rightarrow> Some i
      | None \<Rightarrow> if c = 0 then Some (length s) else None)"

definition u_strchrnul :: "cstr \<Rightarrow> int \<Rightarrow> nat" where
  "u_strchrnul s c = (case find_byte s (word_of_int c) 0 of Some i \<Rightarrow> i | None \<Rightarrow> length s)"

fun last_byte :: "cstr \<Rightarrow> u8 \<Rightarrow> nat \<Rightarrow> nat option \<Rightarrow> nat option" where
  "last_byte [] c i lst = lst"
| "last_byte (x # xs) c i lst = last_byte xs c (Suc i) (if x = c then Some i else lst)"

definition u_strrchr :: "cstr \<Rightarrow> int \<Rightarrow> nat option" where
  "u_strrchr s c = (let lst = last_byte s (word_of_int c) 0 None in if c = 0 then Some (length s) else lst)"

definition u_index :: "cstr \<Rightarrow> int \<Rightarrow> nat option" where "u_index s c = u_strchr s c"
definition u_rindex :: "cstr \<Rightarrow> int \<Rightarrow> nat option" where "u_rindex s c = u_strrchr s c"

fun match_at :: "cstr \<Rightarrow> cstr \<Rightarrow> bool" where
  "match_at h [] = True"
| "match_at [] (n # ns) = False"
| "match_at (h # hs) (n # ns) = (h = n \<and> match_at hs ns)"

fun strstr_loop :: "cstr \<Rightarrow> cstr \<Rightarrow> nat \<Rightarrow> nat option" where
  "strstr_loop [] needle i = None"
| "strstr_loop (h # hs) needle i =
     (if match_at (h # hs) needle then Some i else strstr_loop hs needle (Suc i))"

definition u_strstr :: "cstr \<Rightarrow> cstr \<Rightarrow> nat option" where
  "u_strstr haystack needle = (if needle = [] then Some 0 else strstr_loop haystack needle 0)"

fun in_set :: "u8 \<Rightarrow> cstr \<Rightarrow> bool" where
  "in_set c [] = False"
| "in_set c (p # ps) = (p = c \<or> in_set c ps)"

fun u_strspn :: "cstr \<Rightarrow> cstr \<Rightarrow> nat" where
  "u_strspn [] accept = 0"
| "u_strspn (c # cs) accept = (if in_set c accept then Suc (u_strspn cs accept) else 0)"

fun u_strcspn :: "cstr \<Rightarrow> cstr \<Rightarrow> nat" where
  "u_strcspn [] reject = 0"
| "u_strcspn (c # cs) reject = (if \<not> in_set c reject then Suc (u_strcspn cs reject) else 0)"

fun pbrk_loop :: "cstr \<Rightarrow> cstr \<Rightarrow> nat \<Rightarrow> nat option" where
  "pbrk_loop [] accept i = None"
| "pbrk_loop (c # cs) accept i = (if in_set c accept then Some i else pbrk_loop cs accept (Suc i))"

definition u_strpbrk :: "cstr \<Rightarrow> cstr \<Rightarrow> nat option" where "u_strpbrk s accept = pbrk_loop s accept 0"

fun memchr_loop :: "u8 list \<Rightarrow> u8 \<Rightarrow> nat \<Rightarrow> nat \<Rightarrow> nat option" where
  "memchr_loop (x # xs) c (Suc n) i = (if x = c then Some i else memchr_loop xs c n (Suc i))"
| "memchr_loop _ c _ i = None"

definition u_memchr :: "u8 list \<Rightarrow> int \<Rightarrow> nat \<Rightarrow> nat option" where
  "u_memchr s c n = memchr_loop s (word_of_int c) n 0"

fun memrchr_loop :: "u8 list \<Rightarrow> u8 \<Rightarrow> nat \<Rightarrow> nat option" where
  "memrchr_loop s c 0 = None"
| "memrchr_loop s c (Suc i) = (if s ! i = c then Some i else memrchr_loop s c i)"

definition u_memrchr :: "u8 list \<Rightarrow> int \<Rightarrow> nat \<Rightarrow> nat option" where
  "u_memrchr s c n = memrchr_loop s (word_of_int c) n"

section \<open>Tokens\<close>

text \<open>
  The string to go on with is \<open>s\<close> or, when that is \<^verbatim>\<open>NULL\<close>, \<^verbatim>\<open>*save\<close>; the result is the token
  and the new \<^verbatim>\<open>*save\<close>. The NUL stored behind the token is what makes it a string of its own.
\<close>

definition u_strtok_r :: "cstr option \<Rightarrow> cstr \<Rightarrow> cstr option \<Rightarrow> cstr option \<times> cstr option" where
  "u_strtok_r s delim save =
     (case (if s = None then save else s) of
        None \<Rightarrow> (None, save)
      | Some p \<Rightarrow>
          (let p1 = dropWhile (\<lambda>c. in_set c delim) p in
           if p1 = [] then (None, None)
           else
             (let token = takeWhile (\<lambda>c. \<not> in_set c delim) p1;
                  rest = dropWhile (\<lambda>c. \<not> in_set c delim) p1
              in (Some token, Some (if rest \<noteq> [] then tl rest else rest)))))"

section \<open>Memory\<close>

definition u_memcpy :: "mem \<Rightarrow> u64 \<Rightarrow> u64 \<Rightarrow> nat \<Rightarrow> mem" where "u_memcpy m d s n = memcpy m d s n"

text \<open>\<^verbatim>\<open>mempcpy\<close> also returns the end of the copy.\<close>

definition u_mempcpy :: "mem \<Rightarrow> u64 \<Rightarrow> u64 \<Rightarrow> nat \<Rightarrow> mem \<times> u64" where
  "u_mempcpy m d s n = (memcpy m d s n, d + of_nat n)"

definition u_memset :: "mem \<Rightarrow> u64 \<Rightarrow> int \<Rightarrow> nat \<Rightarrow> mem" where
  "u_memset m d c n = memset m d (word_of_int c) n"

fun copy_down :: "mem \<Rightarrow> u64 \<Rightarrow> u64 \<Rightarrow> nat \<Rightarrow> mem" where
  "copy_down m d s 0 = m"
| "copy_down m d s (Suc i) = copy_down (m(d + of_nat i := m (s + of_nat i))) d s i"

definition u_memmove :: "mem \<Rightarrow> u64 \<Rightarrow> u64 \<Rightarrow> nat \<Rightarrow> mem" where
  "u_memmove m d s n =
     (if d = s \<or> n = 0 then m
      else if d < s then memcpy m d s n
      else copy_down m d s n)"

end
