(* ===== verification/User_Stdlib.thy ===== *)
theory User_Stdlib
  imports User_String "HOL-Library.Multiset"
begin

text \<open>
  \<^verbatim>\<open>user/lib/stdlib.c\<close>: numbers from strings, sorting and searching, the random numbers.
  The elements of an array are the values of its \<^verbatim>\<open>size\<close>-byte pieces; a comparison is a
  function on them.  A read outside the array is \<open>None\<close>, as is a loop that does not end.
\<close>

section \<open>Numbers\<close>

text \<open>An \<^verbatim>\<open>int\<close> that overflows wraps on this machine.\<close>

fun atoi_loop :: "cstr \<Rightarrow> u32 \<Rightarrow> u32" where
  "atoi_loop [] val = val"
| "atoi_loop (c # cs) val =
     (if 0x30 \<le> c \<and> c \<le> 0x39 then atoi_loop cs (val * 10 + (ucast c - 0x30)) else val)"

definition u_atoi :: "cstr option \<Rightarrow> int" where
  "u_atoi s =
     (case s of
        None \<Rightarrow> 0
      | Some p \<Rightarrow>
          if p \<noteq> [] \<and> hd p = 0x2D then sint (- atoi_loop (tl p) 0) else sint (atoi_loop p 0))"

definition digit_val :: "int \<Rightarrow> int" where
  "digit_val c =
     (if 48 \<le> c \<and> c \<le> 57 then c - 48
      else if 97 \<le> c \<and> c \<le> 102 then c - 97 + 10
      else if 65 \<le> c \<and> c \<le> 70 then c - 65 + 10
      else - 1)"

text \<open>The digits of a number: its value modulo \<open>2 ^ 64\<close> and what follows them.\<close>

fun digits_loop :: "cstr \<Rightarrow> int \<Rightarrow> u64 \<Rightarrow> u64 \<times> cstr" where
  "digits_loop [] base val = (val, [])"
| "digits_loop (c # cs) base val =
     (let d = digit_val (uint c) in
      if 0 \<le> d \<and> d < base then digits_loop cs base (val * word_of_int base + word_of_int d)
      else (val, c # cs))"

text \<open>The prefix that gives the base: the base and what follows the prefix.\<close>

definition number_base :: "cstr \<Rightarrow> int \<Rightarrow> int \<times> cstr" where
  "number_base p base =
     (if (base = 0 \<or> base = 16) \<and> p \<noteq> [] \<and> hd p = 0x30 \<and> tl p \<noteq> [] \<and> (hd (tl p) = 0x78 \<or> hd (tl p) = 0x58)
      then (16, drop 2 p)
      else if base = 0 \<and> p \<noteq> [] \<and> hd p = 0x30 then (8, tl p)
      else if base = 0 then (10, p)
      else (base, p))"

text \<open>The value, a \<^verbatim>\<open>long\<close>, and the rest of the string \<^verbatim>\<open>*end\<close> is set to.\<close>

definition u_strtol :: "cstr \<Rightarrow> int \<Rightarrow> u64 \<times> cstr" where
  "u_strtol s base =
     (let p = dropWhile (\<lambda>c. u_isspace (uint c)) s;
          sign = p \<noteq> [] \<and> (hd p = 0x2D \<or> hd p = 0x2B);
          neg = p \<noteq> [] \<and> hd p = 0x2D;
          p1 = (if sign then tl p else p) in
      case number_base p1 base of
        (b, p2) \<Rightarrow> (case digits_loop p2 b 0 of (val, rest) \<Rightarrow> (if neg then - val else val, rest)))"

definition u_strtoul :: "cstr \<Rightarrow> int \<Rightarrow> u64 \<times> cstr" where
  "u_strtoul s base =
     (let p = dropWhile (\<lambda>c. u_isspace (uint c)) s;
          p1 = (if p \<noteq> [] \<and> hd p = 0x2B then tl p else p) in
      case number_base p1 base of (b, p2) \<Rightarrow> digits_loop p2 b 0)"

definition u_strtoll :: "cstr \<Rightarrow> int \<Rightarrow> u64 \<times> cstr" where "u_strtoll s base = u_strtol s base"
definition u_strtoull :: "cstr \<Rightarrow> int \<Rightarrow> u64 \<times> cstr" where "u_strtoull s base = u_strtoul s base"
definition u_atol :: "cstr \<Rightarrow> u64" where "u_atol s = fst (u_strtol s 10)"

definition u_abs :: "u32 \<Rightarrow> u32" where "u_abs x = (if sint x < 0 then - x else x)"
definition u_labs :: "u64 \<Rightarrow> u64" where "u_labs x = (if sint x < 0 then - x else x)"

section \<open>Sorting\<close>

text \<open>
  The part of the array at \<open>lo\<close>; indices are from there on, as the base pointer is. The pivot is
  a place of the array, not a value.
\<close>

definition swap_at :: "'a list \<Rightarrow> nat \<Rightarrow> nat \<Rightarrow> 'a list" where
  "swap_at xs a b = xs[a := xs ! b, b := xs ! a]"

partial_function (option) scan_up ::
    "('a \<Rightarrow> 'a \<Rightarrow> int) \<Rightarrow> 'a list \<Rightarrow> nat \<Rightarrow> nat \<Rightarrow> nat \<Rightarrow> nat option" where
  "scan_up cmp xs lo piv i =
     (if length xs \<le> lo + i then None
      else if cmp (xs ! (lo + i)) (xs ! (lo + piv)) < 0 then scan_up cmp xs lo piv (i + 1)
      else Some i)"

fun scan_down :: "('a \<Rightarrow> 'a \<Rightarrow> int) \<Rightarrow> 'a list \<Rightarrow> nat \<Rightarrow> nat \<Rightarrow> nat \<Rightarrow> nat" where
  "scan_down cmp xs lo piv 0 = 0"
| "scan_down cmp xs lo piv (Suc j) =
     (if 0 < cmp (xs ! (lo + Suc j)) (xs ! (lo + piv)) then scan_down cmp xs lo piv j else Suc j)"

partial_function (option) partition_loop ::
    "('a \<Rightarrow> 'a \<Rightarrow> int) \<Rightarrow> nat \<Rightarrow> nat \<Rightarrow> nat \<Rightarrow> nat \<Rightarrow> 'a list \<Rightarrow> (nat \<times> nat \<times> 'a list) option" where
  "partition_loop cmp lo piv i j xs =
     (if \<not> i \<le> j then Some (i, j, xs)
      else
        Option.bind (scan_up cmp xs lo piv i)
          (\<lambda>i1. let j1 = scan_down cmp xs lo piv j in
             if i1 \<le> j1 then
               (let xs1 = swap_at xs (lo + i1) (lo + j1) in
                if j1 = 0 then Some (i1 + 1, j1, xs1) else partition_loop cmp lo piv (i1 + 1) (j1 - 1) xs1)
             else partition_loop cmp lo piv i1 j1 xs))"

partial_function (option) qsort_impl :: "('a \<Rightarrow> 'a \<Rightarrow> int) \<Rightarrow> nat \<Rightarrow> nat \<Rightarrow> 'a list \<Rightarrow> 'a list option" where
  "qsort_impl cmp lo n xs =
     (if n < 2 then Some xs
      else
        Option.bind (partition_loop cmp lo (n div 2) 0 (n - 1) xs)
          (\<lambda>p. Option.bind (if 1 < fst (snd p) + 1 then qsort_impl cmp lo (fst (snd p) + 1) (snd (snd p)) else Some (snd (snd p)))
             (\<lambda>ys. if fst p < n then qsort_impl cmp (lo + fst p) (n - fst p) ys else Some ys)))"

definition u_qsort :: "('a \<Rightarrow> 'a \<Rightarrow> int) \<Rightarrow> 'a list \<Rightarrow> 'a list option" where
  "u_qsort cmp xs = qsort_impl cmp 0 (length xs) xs"

section \<open>Searching\<close>

text \<open>\<open>cmp\<close> compares the key with an element; the result is the index found.\<close>

function bsearch_loop :: "('a \<Rightarrow> int) \<Rightarrow> 'a list \<Rightarrow> nat \<Rightarrow> nat \<Rightarrow> nat option" where
  "bsearch_loop cmp b lo hi =
     (if \<not> lo < hi then None
      else
        (let mid = lo + (hi - lo) div 2; c = cmp (b ! mid) in
         if c = 0 then Some mid
         else if c < 0 then bsearch_loop cmp b lo mid
         else bsearch_loop cmp b (mid + 1) hi))"
  by pat_completeness auto
termination
  by (relation "measure (\<lambda>(cmp, b, lo, hi). hi - lo)") auto

declare bsearch_loop.simps [simp del]

definition u_bsearch :: "('k \<Rightarrow> 'a \<Rightarrow> int) \<Rightarrow> 'k \<Rightarrow> 'a list \<Rightarrow> nat option" where
  "u_bsearch cmp key b = bsearch_loop (cmp key) b 0 (length b)"

section \<open>Random numbers\<close>

definition u_srand :: "u32 \<Rightarrow> u64" where "u_srand seed = (if seed \<noteq> 0 then ucast seed else 1)"

definition u_rand :: "u64 \<Rightarrow> u64 \<times> int" where
  "u_rand st =
     (let st1 = st * 1103515245 + 12345 in (st1, uint (drop_bit 16 st1 AND 0x7FFF)))"

end
