(* ===== verification/Stdlib_Props.thy ===== *)
theory Stdlib_Props
  imports User_Stdlib
begin

text \<open>
  \<^verbatim>\<open>qsort\<close> always returns a permutation and stays inside the array, for any comparison that is
  reflexive and antisymmetric in sign; but it compares with the place of the pivot, not its
  value, so the result need not be sorted.  \<^verbatim>\<open>bsearch\<close> on a sorted array finds the key exactly
  when it is there.
\<close>

section \<open>Sorting\<close>

definition comparison :: "('a \<Rightarrow> 'a \<Rightarrow> int) \<Rightarrow> bool" where
  "comparison cmp \<longleftrightarrow> (\<forall>a. cmp a a = 0) \<and> (\<forall>a b. cmp a b \<le> 0 \<longrightarrow> 0 \<le> cmp b a)"

lemma length_swap_at [simp]: "length (swap_at xs a b) = length xs"
  by (simp add: swap_at_def)

lemma mset_swap_at [simp]: "a < length xs \<Longrightarrow> b < length xs \<Longrightarrow> mset (swap_at xs a b) = mset xs"
  unfolding swap_at_def by (rule mset_swap)

lemma nth_swap_at:
  "a < length xs \<Longrightarrow> b < length xs \<Longrightarrow> swap_at xs a b ! k = (if k = b then xs ! a else if k = a then xs ! b else xs ! k)"
  by (auto simp: swap_at_def nth_list_update)

text \<open>The two lists hold the same elements and agree outside \<open>[lo, hi)\<close>.\<close>

definition shuffled :: "nat \<Rightarrow> nat \<Rightarrow> 'a list \<Rightarrow> 'a list \<Rightarrow> bool" where
  "shuffled lo hi xs ys \<longleftrightarrow> mset ys = mset xs \<and> length ys = length xs \<and> (\<forall>k. k < lo \<or> hi \<le> k \<longrightarrow> ys ! k = xs ! k)"

lemma shuffled_refl [simp]: "shuffled lo hi xs xs"
  by (simp add: shuffled_def)

lemma shuffled_trans: "shuffled lo hi xs ys \<Longrightarrow> shuffled lo' hi' ys zs \<Longrightarrow> lo \<le> lo' \<Longrightarrow> hi' \<le> hi \<Longrightarrow> shuffled lo hi xs zs"
  by (auto simp: shuffled_def)

lemma shuffled_swap:
  "lo \<le> a \<Longrightarrow> a < hi \<Longrightarrow> lo \<le> b \<Longrightarrow> b < hi \<Longrightarrow> hi \<le> length xs \<Longrightarrow> shuffled lo hi xs (swap_at xs a b)"
  by (auto simp: shuffled_def nth_swap_at)

text \<open>A place at or behind \<open>i\<close> whose element is not below the pivot stops the scan up.\<close>

definition stop_up :: "('a \<Rightarrow> 'a \<Rightarrow> int) \<Rightarrow> 'a list \<Rightarrow> nat \<Rightarrow> nat \<Rightarrow> nat \<Rightarrow> nat \<Rightarrow> bool" where
  "stop_up cmp xs lo piv i k \<longleftrightarrow> i \<le> k \<and> 0 \<le> cmp (xs ! (lo + k)) (xs ! (lo + piv))"

lemma scan_up_stops:
  assumes "stop_up cmp xs lo piv i k" and "lo + k < length xs"
  shows "\<exists>i1. scan_up cmp xs lo piv i = Some i1 \<and> i \<le> i1 \<and> i1 \<le> k \<and> stop_up cmp xs lo piv i1 i1"
  using assms
proof (induction "k - i" arbitrary: i)
  case 0
  then show ?case by (subst scan_up.simps) (auto simp: stop_up_def)
next
  case (Suc d)
  show ?case
  proof (cases "cmp (xs ! (lo + i)) (xs ! (lo + piv)) < 0")
    case True
    then have "i \<noteq> k" using Suc.prems(1) by (auto simp: stop_up_def)
    then have s: "stop_up cmp xs lo piv (Suc i) k" "d = k - Suc i" using Suc.prems(1) Suc.hyps(2) by (auto simp: stop_up_def)
    show ?thesis using Suc.hyps(1) [OF s(2) s(1) Suc.prems(2)] True Suc.prems
      by (subst scan_up.simps) (auto simp: stop_up_def)
  next
    case False
    then show ?thesis using Suc.prems by (subst scan_up.simps) (auto simp: stop_up_def)
  qed
qed

lemma scan_down_stops:
  "scan_down cmp xs lo piv j \<le> j \<and>
   (scan_down cmp xs lo piv j \<noteq> 0 \<longrightarrow> cmp (xs ! (lo + scan_down cmp xs lo piv j)) (xs ! (lo + piv)) \<le> 0)"
  by (induction j) auto

lemma scan_down_ge: "cmp (xs ! (lo + k)) (xs ! (lo + piv)) \<le> 0 \<Longrightarrow> k \<le> j \<Longrightarrow> k \<le> scan_down cmp xs lo piv j"
  by (induction j) (auto simp: le_Suc_eq)

lemma scan_down_numeral:
  "scan_down cmp xs lo piv (numeral k) =
    (if 0 < cmp (xs ! (lo + numeral k)) (xs ! (lo + piv)) then scan_down cmp xs lo piv (pred_numeral k) else numeral k)"
  by (simp add: numeral_eq_Suc)

text \<open>After a swap the place the larger element went to stops the next scan up.\<close>

lemma swap_stops:
  assumes "comparison cmp" and "stop_up cmp xs lo piv i1 i1" and "cmp (xs ! (lo + j1)) (xs ! (lo + piv)) \<le> 0"
    and "i1 < j1" and "lo + j1 < length xs" and "lo + piv < length xs"
  shows "stop_up cmp (swap_at xs (lo + i1) (lo + j1)) lo piv (i1 + 1) j1"
proof -
  have c: "cmp a a = 0" "cmp a b \<le> 0 \<Longrightarrow> 0 \<le> cmp b a" for a b using assms(1) by (auto simp: comparison_def)
  show ?thesis using assms(2-6) c by (auto simp: stop_up_def nth_swap_at)
qed

lemma partition_returns:
  assumes "comparison cmp" and "lo + n \<le> length xs" and "piv < n" and "j < n" and "i \<le> j + 2"
    and "i \<le> j \<longrightarrow> (\<exists>k<n. stop_up cmp xs lo piv i k)"
  shows "\<exists>i' j' ys. partition_loop cmp lo piv i j xs = Some (i', j', ys) \<and> i \<le> i' \<and> j' \<le> j \<and> shuffled lo (lo + n) xs ys"
  using assms(2,4-6)
proof (induction "Suc j - i" arbitrary: i j xs rule: less_induct)
  case less
  show ?case
  proof (cases "i \<le> j")
    case False
    then show ?thesis by (subst partition_loop.simps) auto
  next
    case True
    then obtain k where k: "k < n" "stop_up cmp xs lo piv i k" using less.prems(4) by blast
    have "lo + k < length xs" using k(1) less.prems(1) by simp
    from scan_up_stops [OF k(2) this] obtain i1 where
      u: "scan_up cmp xs lo piv i = Some i1" "i \<le> i1" "i1 \<le> k" "stop_up cmp xs lo piv i1 i1" by blast
    define j1 where "j1 = scan_down cmp xs lo piv j"
    have d: "j1 \<le> j" "j1 \<noteq> 0 \<longrightarrow> cmp (xs ! (lo + j1)) (xs ! (lo + piv)) \<le> 0"
      using scan_down_stops [of cmp xs lo piv j] by (simp_all add: j1_def)
    show ?thesis
    proof (cases "i1 \<le> j1")
      case False
      then have "partition_loop cmp lo piv i j xs = Some (i1, j1, xs)"
        using True u(1) by (subst partition_loop.simps) (simp add: j1_def [symmetric] partition_loop.simps)
      then show ?thesis using u(2) d(1) by auto
    next
      case le: True
      define ys where "ys = swap_at xs (lo + i1) (lo + j1)"
      have sh: "shuffled lo (lo + n) xs ys"
        unfolding ys_def using le d(1) less.prems(1,2) by (intro shuffled_swap) auto
      show ?thesis
      proof (cases "j1 = 0")
        case z: True
        then have "partition_loop cmp lo piv i j xs = Some (i1 + 1, j1, ys)"
          using True u(1) le by (subst partition_loop.simps) (simp add: j1_def [symmetric] ys_def Let_def)
        then show ?thesis using u(2) d(1) sh by auto
      next
        case nz: False
        have run: "partition_loop cmp lo piv i j xs = partition_loop cmp lo piv (i1 + 1) (j1 - 1) ys"
          using True u(1) le nz by (subst partition_loop.simps) (simp add: j1_def [symmetric] ys_def Let_def)
        have "\<exists>k<n. stop_up cmp ys lo piv (i1 + 1) k" if "i1 + 1 \<le> j1 - 1"
          using swap_stops [OF assms(1) u(4), of j1] d nz that less.prems(1,2) assms(3)
          unfolding ys_def by (intro exI [of _ j1]) auto
        moreover have "Suc (j1 - 1) - (i1 + 1) < Suc j - i" using nz u(2) d(1) True le by linarith
        moreover have "lo + n \<le> length ys" "j1 - 1 < n" "i1 + 1 \<le> (j1 - 1) + 2"
          using less.prems(1,2) d(1) le by (simp_all add: ys_def)
        ultimately obtain i' j' zs where r: "partition_loop cmp lo piv (i1 + 1) (j1 - 1) ys = Some (i', j', zs)"
          "i1 + 1 \<le> i'" "j' \<le> j1 - 1" "shuffled lo (lo + n) ys zs"
          using less.hyps [of "j1 - 1" "i1 + 1" ys] by blast
        then show ?thesis unfolding run using u(2) d(1) shuffled_trans [OF sh r(4)] by auto
      qed
    qed
  qed
qed

text \<open>The first turn always swaps, so both parts are smaller.\<close>

lemma partition_splits:
  assumes "comparison cmp" and "lo + n \<le> length xs" and "2 \<le> n"
  shows "\<exists>i j ys. partition_loop cmp lo (n div 2) 0 (n - 1) xs = Some (i, j, ys) \<and> 0 < i \<and> j + 1 < n \<and>
    shuffled lo (lo + n) xs ys"
proof -
  let ?p = "n div 2"
  have p: "?p < n" "0 < ?p" "?p \<le> n - 1" using assms(3) by auto
  have c0: "cmp (xs ! (lo + ?p)) (xs ! (lo + ?p)) = 0" using assms(1) by (simp add: comparison_def)
  have "stop_up cmp xs lo ?p 0 ?p" using c0 by (simp add: stop_up_def)
  from scan_up_stops [OF this] obtain i1 where
    u: "scan_up cmp xs lo ?p 0 = Some i1" "i1 \<le> ?p" "stop_up cmp xs lo ?p i1 i1" using assms(2) p(1) by auto
  define j1 where "j1 = scan_down cmp xs lo ?p (n - 1)"
  have d: "j1 \<le> n - 1" "j1 \<noteq> 0 \<longrightarrow> cmp (xs ! (lo + j1)) (xs ! (lo + ?p)) \<le> 0" "?p \<le> j1"
    using scan_down_stops [of cmp xs lo ?p "n - 1"] scan_down_ge [of cmp xs lo ?p ?p "n - 1"] c0 p(3)
    by (simp_all add: j1_def)
  define ys where "ys = swap_at xs (lo + i1) (lo + j1)"
  have sh: "shuffled lo (lo + n) xs ys" unfolding ys_def using u(2) d p assms(2) by (intro shuffled_swap) auto
  have run: "partition_loop cmp lo ?p 0 (n - 1) xs = partition_loop cmp lo ?p (i1 + 1) (j1 - 1) ys"
    using u(1,2) d p by (subst partition_loop.simps) (simp add: j1_def [symmetric, unfolded One_nat_def] ys_def Let_def)
  have "\<exists>k<n. stop_up cmp ys lo ?p (i1 + 1) k" if "i1 + 1 \<le> j1 - 1"
    using swap_stops [OF assms(1) u(3), of j1] d p that assms(2) unfolding ys_def by (intro exI [of _ j1]) auto
  moreover have "lo + n \<le> length ys" "j1 - 1 < n" "i1 + 1 \<le> (j1 - 1) + 2"
    using p d u(2) assms(2) by (simp add: ys_def, linarith+)
  ultimately obtain i' j' zs where r: "partition_loop cmp lo ?p (i1 + 1) (j1 - 1) ys = Some (i', j', zs)"
      "i1 + 1 \<le> i'" "j' \<le> j1 - 1" "shuffled lo (lo + n) ys zs"
    using partition_returns [OF assms(1), of lo n ys ?p "j1 - 1" "i1 + 1"] p(1) by blast
  moreover have "0 < i'" "j' + 1 < n" using r(2,3) d p by linarith+
  ultimately show ?thesis unfolding run using shuffled_trans [OF sh r(4)] by auto
qed

lemma qsort_impl_returns:
  assumes "comparison cmp" and "lo + n \<le> length xs"
  shows "\<exists>ys. qsort_impl cmp lo n xs = Some ys \<and> shuffled lo (lo + n) xs ys"
  using assms(2)
proof (induction n arbitrary: lo xs rule: less_induct)
  case (less n)
  show ?case
  proof (cases "n < 2")
    case True
    then show ?thesis by (subst qsort_impl.simps) auto
  next
    case False
    then obtain i j ys where p: "partition_loop cmp lo (n div 2) 0 (n - 1) xs = Some (i, j, ys)"
      "0 < i" "j + 1 < n" "shuffled lo (lo + n) xs ys"
      using partition_splits [OF assms(1) less.prems] by auto
    have ly: "length ys = length xs" using p(4) by (simp add: shuffled_def)
    obtain zs where z: "(if 1 < j + 1 then qsort_impl cmp lo (j + 1) ys else Some ys) = Some zs" "shuffled lo (lo + n) ys zs"
    proof (cases "1 < j + 1")
      case True
      obtain zs where "qsort_impl cmp lo (j + 1) ys = Some zs" "shuffled lo (lo + (j + 1)) ys zs"
        using less.IH [OF p(3), of lo ys] p(3) less.prems ly by auto
      then show thesis using that shuffled_trans [OF shuffled_refl, of lo "lo + (j + 1)" ys zs lo "lo + n"] True p(3) by simp
    qed simp
    have lz: "length zs = length xs" using z(2) ly by (simp add: shuffled_def)
    have xz: "shuffled lo (lo + n) xs zs" by (rule shuffled_trans [OF p(4) z(2)]) simp_all
    have run: "qsort_impl cmp lo n xs = (if i < n then qsort_impl cmp (lo + i) (n - i) zs else Some zs)"
      by (subst qsort_impl.simps) (simp only: False if_False p(1) Option.bind.simps fst_conv snd_conv z(1))
    show ?thesis
    proof (cases "i < n")
      case True
      obtain ws where w: "qsort_impl cmp (lo + i) (n - i) zs = Some ws" "shuffled (lo + i) (lo + i + (n - i)) zs ws"
        using less.IH [of "n - i" "lo + i" zs] p(2) True less.prems lz by auto
      then show ?thesis unfolding run using True shuffled_trans [OF xz w(2)] by simp
    next
      case ge: False
      then show ?thesis unfolding run using xz by simp
    qed
  qed
qed

text \<open>
  C28. \<^verbatim>\<open>qsort\<close> always returns, reads only elements of the array, and leaves in it a
  permutation of what it held, for every comparison with \<open>cmp a a = 0\<close> under which one of two
  elements is not above the other.
\<close>
theorem qsort_permutes:
  assumes "comparison cmp"
  shows "\<exists>ys. u_qsort cmp xs = Some ys \<and> mset ys = mset xs"
  using qsort_impl_returns [OF assms, of 0 "length xs" xs] by (auto simp: u_qsort_def shuffled_def)

definition int_cmp :: "int \<Rightarrow> int \<Rightarrow> int" where "int_cmp a b = a - b"

lemma int_cmp_comparison: "comparison int_cmp"
  by (simp add: comparison_def int_cmp_def)

theorem qsort_permutes_witness: "\<exists>ys. u_qsort int_cmp [3, 1, 2] = Some ys \<and> mset ys = mset [3, 1, 2]"
  by (rule qsort_permutes [OF int_cmp_comparison])

text \<open>
  The result of \<^verbatim>\<open>qsort\<close> need not be sorted: the pivot is compared by its place, and a swap
  that moves it changes the value the rest is compared with.
\<close>
lemma qsort_unsorted: "u_qsort int_cmp [2, 2, 0, 1] = Some [0, 2, 1, 2]"
proof -
  note c = scan_up.simps [of int_cmp _ _ _ 0] scan_up.simps [of int_cmp _ _ _ "Suc 0"] scan_down_numeral swap_at_def int_cmp_def Let_def
  have p: "partition_loop int_cmp 0 2 0 3 [2, 2, 0, 1] = Some (2, 0, [0, 2, 2, 1])"
    by (simp add: partition_loop.simps [of int_cmp 0 2 0 3] partition_loop.simps [of int_cmp 0 2 "Suc 0" "Suc 0"]
        partition_loop.simps [of int_cmp 0 2 "Suc (Suc 0)" 0] c)
  have q: "partition_loop int_cmp 2 1 0 1 [0, 2, 2, 1] = Some (1, 0, [0, 2, 1, 2])"
    by (simp add: partition_loop.simps [of int_cmp 2 "Suc 0" 0 "Suc 0"] partition_loop.simps [of int_cmp 2 "Suc 0" "Suc 0" 0] c)
  have l: "length [2, 2, 0, 1 :: int] = 4" by simp
  have "qsort_impl int_cmp 2 2 [0, 2, 2, 1] = Some [0, 2, 1, 2]"
    by (simp add: qsort_impl.simps [of int_cmp 2 2] qsort_impl.simps [of int_cmp 3 "Suc 0"] q [unfolded One_nat_def])
  then have r: "qsort_impl int_cmp (Suc (Suc 0)) 2 [0, 2, 2, 1] = Some [0, 2, 1, 2]" by (simp only: numeral_2_eq_2)
  show ?thesis unfolding u_qsort_def l by (simp add: qsort_impl.simps [of int_cmp 0 4] p r)
qed

section \<open>Searching\<close>

text \<open>
  The array is sorted for the key: elements above it, then ones equal, then ones below, seen
  from the key.
\<close>

definition sorted_for :: "('k \<Rightarrow> 'a \<Rightarrow> int) \<Rightarrow> 'k \<Rightarrow> 'a list \<Rightarrow> bool" where
  "sorted_for cmp key b \<longleftrightarrow> (\<forall>i j. i < j \<and> j < length b \<longrightarrow>
     (cmp key (b ! i) < 0 \<longrightarrow> cmp key (b ! j) < 0) \<and> (0 < cmp key (b ! j) \<longrightarrow> 0 < cmp key (b ! i)))"

lemma bsearch_loop_ok:
  assumes "sorted_for cmp key b" and "hi \<le> length b"
    and "\<forall>i<lo. 0 < cmp key (b ! i)" and "\<forall>i. hi \<le> i \<and> i < length b \<longrightarrow> cmp key (b ! i) < 0"
  shows "case bsearch_loop (cmp key) b lo hi of
    None \<Rightarrow> \<forall>i<length b. cmp key (b ! i) \<noteq> 0
  | Some i \<Rightarrow> i < length b \<and> cmp key (b ! i) = 0"
  using assms(2-4)
proof (induction "hi - lo" arbitrary: lo hi rule: less_induct)
  case less
  show ?case
  proof (cases "lo < hi")
    case False
    then have "cmp key (b ! i) \<noteq> 0" if "i < length b" for i
    proof (cases "i < lo")
      case True
      then show ?thesis using less.prems(2) by fastforce
    next
      case ge: False
      then have "hi \<le> i" using False by simp
      then show ?thesis using less.prems(3) that by fastforce
    qed
    then show ?thesis using False by (subst bsearch_loop.simps) simp
  next
    case True
    define mid where "mid = lo + (hi - lo) div 2"
    have m: "lo \<le> mid" "mid < hi" using True by (auto simp: mid_def)
    then have ml: "mid < length b" using less.prems(1) by simp
    have run: "bsearch_loop (cmp key) b lo hi =
      (if cmp key (b ! mid) = 0 then Some mid
       else if cmp key (b ! mid) < 0 then bsearch_loop (cmp key) b lo mid else bsearch_loop (cmp key) b (mid + 1) hi)"
      using True by (subst bsearch_loop.simps) (simp add: mid_def Let_def)
    consider "cmp key (b ! mid) = 0" | "cmp key (b ! mid) < 0" | "0 < cmp key (b ! mid)" by linarith
    then show ?thesis
    proof cases
      case 1
      then show ?thesis using run ml by simp
    next
      case 2
      have "cmp key (b ! i) < 0" if "mid \<le> i" "i < length b" for i
        using assms(1) 2 that unfolding sorted_for_def by (metis le_neq_implies_less)
      then have "case bsearch_loop (cmp key) b lo mid of None \<Rightarrow> \<forall>i<length b. cmp key (b ! i) \<noteq> 0
        | Some i \<Rightarrow> i < length b \<and> cmp key (b ! i) = 0"
        by (intro less.hyps less.prems(2)) (use m ml in auto)
      then show ?thesis using run 2 by simp
    next
      case 3
      have "0 < cmp key (b ! i)" if "i < mid + 1" for i
        using assms(1) 3 that ml unfolding sorted_for_def by (metis less_Suc_eq Suc_eq_plus1)
      then have "case bsearch_loop (cmp key) b (mid + 1) hi of None \<Rightarrow> \<forall>i<length b. cmp key (b ! i) \<noteq> 0
        | Some i \<Rightarrow> i < length b \<and> cmp key (b ! i) = 0"
        by (intro less.hyps less.prems(1,3)) (use m in auto)
      then show ?thesis using run 3 by simp
    qed
  qed
qed

text \<open>
  On an array sorted for the key \<^verbatim>\<open>bsearch\<close> returns an element equal to the key, and \<^verbatim>\<open>NULL\<close>
  exactly when there is none.
\<close>
theorem bsearch_finds:
  assumes "sorted_for cmp key b"
  shows "case u_bsearch cmp key b of
    None \<Rightarrow> \<forall>i<length b. cmp key (b ! i) \<noteq> 0
  | Some i \<Rightarrow> i < length b \<and> cmp key (b ! i) = 0"
  unfolding u_bsearch_def by (rule bsearch_loop_ok [OF assms]) auto

theorem bsearch_finds_witness: "\<exists>i. u_bsearch int_cmp 3 [1, 3, 5] = Some i \<and> [1, 3, 5] ! i = (3 :: int)"
proof -
  have s: "sorted_for int_cmp 3 [1, 3, 5]" by (auto simp: sorted_for_def int_cmp_def less_Suc_eq nth_Cons')
  have "int_cmp 3 ([1, 3, 5] ! 1) = 0" by (simp add: int_cmp_def)
  then show ?thesis using bsearch_finds [OF s] by (auto simp: int_cmp_def split: option.splits)
qed

end
