(* ===== verification/User_Match.thy ===== *)
theory User_Match
  imports User_String
begin

text \<open>
  Patterns, path names and options of the user library: \<^verbatim>\<open>fnmatch.c\<close>, \<^verbatim>\<open>libgen.c\<close> and
  \<^verbatim>\<open>getopt.c\<close>.
\<close>

section \<open>Shell patterns\<close>

abbreviation star :: u8 where "star \<equiv> 0x2A"
abbreviation quest :: u8 where "quest \<equiv> 0x3F"

text \<open>
  \<open>match_here\<close>; \<open>match_from\<close> is the loop over the places a star may leave off at, with the
  pattern behind the stars.
\<close>

function (sequential) match_here :: "cstr \<Rightarrow> cstr \<Rightarrow> bool"
  and match_from :: "cstr \<Rightarrow> cstr \<Rightarrow> bool" where
  "match_here [] str = (str = [])"
| "match_here (p # ps) str =
     (if p = star then
        (let rest = dropWhile (\<lambda>c. c = star) ps in if rest = [] then True else match_from rest str)
      else if p = quest then (case str of [] \<Rightarrow> False | _ # cs \<Rightarrow> match_here ps cs)
      else (case str of [] \<Rightarrow> False | c # cs \<Rightarrow> p = c \<and> match_here ps cs))"
| "match_from pat [] = False"
| "match_from pat (c # cs) = (match_here pat (c # cs) \<or> match_from pat cs)"
  by pat_completeness auto
termination
proof (relation "measures [\<lambda>x. case x of Inl (p, s) \<Rightarrow> length p | Inr (p, s) \<Rightarrow> length p,
    \<lambda>x. case x of Inl (p, s) \<Rightarrow> 0 | Inr (p, s) \<Rightarrow> Suc (length s)]", goal_cases)
  case (2 p ps str rest)
  then show ?case using length_dropWhile_le [of "\<lambda>c. c = star" ps] by simp
qed auto

abbreviation FNM_NOMATCH :: int where "FNM_NOMATCH \<equiv> 1"

definition u_fnmatch :: "cstr option \<Rightarrow> cstr option \<Rightarrow> int" where
  "u_fnmatch pattern str =
     (case (pattern, str) of
        (Some p, Some s) \<Rightarrow> (if match_here p s then 0 else FNM_NOMATCH)
      | _ \<Rightarrow> FNM_NOMATCH)"

section \<open>Path names\<close>

text \<open>The slashes at the end are cut off in place; what is returned is the string found there.\<close>

definition cut_slashes :: "cstr \<Rightarrow> cstr" where
  "cut_slashes p = rev (dropWhile (\<lambda>c. c = 0x2F) (rev p))"

definition u_basename :: "cstr option \<Rightarrow> cstr" where
  "u_basename path =
     (if path = None \<or> path = Some [] then [0x2E]
      else
        (let p = cut_slashes (the path) in
         if p = [] then [0x2F]
         else (case u_strrchr p 0x2F of None \<Rightarrow> p | Some i \<Rightarrow> drop (i + 1) p)))"

definition u_dirname :: "cstr option \<Rightarrow> cstr" where
  "u_dirname path =
     (if path = None \<or> path = Some [] then [0x2E]
      else
        (let p = cut_slashes (the path) in
         if p = [] then [0x2F]
         else
           (case u_strrchr p 0x2F of
              None \<Rightarrow> [0x2E]
            | Some 0 \<Rightarrow> take 1 p
            | Some i \<Rightarrow> take i p)))"

section \<open>Options\<close>

record opt_state =
  optind :: int
  optpos :: nat
  optopt :: int
  optarg :: "cstr option"

definition init_opts :: opt_state where
  "init_opts = \<lparr>optind = 1, optpos = 0, optopt = 0, optarg = None\<rparr>"

definition next_arg :: "opt_state \<Rightarrow> opt_state" where
  "next_arg s = s\<lparr>optind := optind s + 1, optpos := 0\<rparr>"

text \<open>On to the next letter of the argument, or to the next argument behind the last letter.\<close>

definition next_letter :: "cstr \<Rightarrow> opt_state \<Rightarrow> opt_state" where
  "next_letter arg s =
     (let s1 = s\<lparr>optpos := optpos s + 1\<rparr> in if optpos s1 = length arg then next_arg s1 else s1)"

text \<open>
  \<open>argv\<close> holds its \<^verbatim>\<open>argc\<close> strings.  The calls go through one vector, so \<open>optpos\<close>, which only
  \<open>next_letter\<close> moves, stays inside the argument.
\<close>

definition u_getopt :: "cstr list \<Rightarrow> cstr \<Rightarrow> opt_state \<Rightarrow> int \<times> opt_state" where
  "u_getopt argv optstring s0 =
     (let s = (if optind s0 = 0 then s0\<lparr>optind := 1, optpos := 0\<rparr> else s0);
          argc = int (length argv) in
      if argc \<le> optind s then (- 1, s)
      else
        (let arg = argv ! nat (optind s) in
         if arg = [] \<or> hd arg \<noteq> 0x2D \<or> tl arg = [] then (- 1, s)
         else if u_strcmp arg [0x2D, 0x2D] = 0 then (- 1, s\<lparr>optind := optind s + 1\<rparr>)
         else
           (let s1 = (if optpos s = 0 then s\<lparr>optpos := 1\<rparr> else s); c = arg ! optpos s1 in
            case u_strchr optstring (uint c) of
              None \<Rightarrow> (63, next_letter arg (s1\<lparr>optopt := uint c\<rparr>))
            | Some i \<Rightarrow>
                if i + 1 < length optstring \<and> optstring ! (i + 1) = 0x3A then
                  (if optpos s1 + 1 < length arg then
                     (uint c, next_arg (s1\<lparr>optarg := Some (drop (optpos s1 + 1) arg)\<rparr>))
                   else if optind s1 + 1 < argc then
                     (uint c, s1\<lparr>optarg := Some (argv ! nat (optind s1 + 1)), optind := optind s1 + 2, optpos := 0\<rparr>)
                   else (63, next_arg (s1\<lparr>optopt := uint c\<rparr>)))
                else (uint c, next_letter arg (s1\<lparr>optarg := None\<rparr>)))))"

end
