(* ===== verification/Kprintf.thy ===== *)
theory Kprintf
  imports Kstring
begin

text \<open>
  Formatted output of the kernel, \<^verbatim>\<open>kernel/printf.c\<close> and \<^verbatim>\<open>kernel/log.c\<close>: the bytes given to
  \<^verbatim>\<open>uart_putc\<close>, one after the other; the count returned is their number. The variable arguments
  are the list of their values; one of the wrong kind, one that is missing, and a format whose
  last conversion is cut off (the code then reads behind its end) are \<open>None\<close>.
\<close>

datatype varg = VInt u64 | VStr "cstr option"

definition null_text :: cstr where "null_text = [0x28, 0x6E, 0x75, 0x6C, 0x6C, 0x29]"

text \<open>
  The digits of a number, most significant first, before \<open>acc\<close>; the base is 10 or 16, smaller ones
  do not occur.
\<close>

definition kdigit :: "nat \<Rightarrow> u8" where
  "kdigit d = (if d < 10 then 0x30 + of_nat d else 0x61 + of_nat (d - 10))"

fun uint_loop :: "nat \<Rightarrow> nat \<Rightarrow> cstr \<Rightarrow> cstr" where
  "uint_loop base val acc =
     (if val = 0 \<or> base < 2 then acc else uint_loop base (val div base) (kdigit (val mod base) # acc))"

declare uint_loop.simps [simp del]

definition print_uint :: "u64 \<Rightarrow> nat \<Rightarrow> cstr" where
  "print_uint val base = (if val = 0 then [0x30] else uint_loop base (unat val) [])"

definition print_int :: "u64 \<Rightarrow> cstr" where
  "print_int val = (if sint val < 0 then 0x2D # print_uint (- val) 10 else print_uint val 10)"

text \<open>An argument read as \<^verbatim>\<open>int\<close> or \<^verbatim>\<open>unsigned\<close> is its low 32 bits, sign-extended or not.\<close>

definition arg_int :: "u64 \<Rightarrow> u64" where "arg_int v = scast (ucast v :: u32)"
definition arg_uint :: "u64 \<Rightarrow> u64" where "arg_uint v = ucast (ucast v :: u32)"

text \<open>The \<^verbatim>\<open>switch\<close>: what a conversion prints, and the arguments left.\<close>

definition kv_conv :: "bool \<Rightarrow> u8 \<Rightarrow> varg list \<Rightarrow> (cstr \<times> varg list) option" where
  "kv_conv long c args =
     (if c = 0x63 then (case args of VInt v # as \<Rightarrow> Some ([ucast v], as) | _ \<Rightarrow> None)
      else if c = 0x73 then
        (case args of VStr s # as \<Rightarrow> Some (case s of None \<Rightarrow> null_text | Some t \<Rightarrow> t, as) | _ \<Rightarrow> None)
      else if c = 0x64 then
        (case args of VInt v # as \<Rightarrow> Some (print_int (if long then v else arg_int v), as) | _ \<Rightarrow> None)
      else if c = 0x75 then
        (case args of VInt v # as \<Rightarrow> Some (print_uint (if long then v else arg_uint v) 10, as) | _ \<Rightarrow> None)
      else if c = 0x78 then
        (case args of VInt v # as \<Rightarrow> Some (print_uint (if long then v else arg_uint v) 16, as) | _ \<Rightarrow> None)
      else if c = 0x70 then
        (case args of VInt v # as \<Rightarrow> Some ([0x30, 0x78] @ print_uint v 16, as) | _ \<Rightarrow> None)
      else Some ([0x25, c], args))"

function kvprintf :: "cstr \<Rightarrow> varg list \<Rightarrow> cstr option" where
  "kvprintf [] args = Some []"
| "kvprintf (c # cs) args =
     (if c \<noteq> 0x25 then map_option ((#) c) (kvprintf cs args)
      else if cs \<noteq> [] \<and> hd cs = 0x25 then map_option ((#) 0x25) (kvprintf (tl cs) args)
      else
        (let cs1 = dropWhile (\<lambda>x. x = 0x6C) cs; long = cs \<noteq> [] \<and> hd cs = 0x6C in
         case cs1 of
           [] \<Rightarrow> None
         | x # rest \<Rightarrow>
             Option.bind (kv_conv long x args)
               (\<lambda>p. map_option (\<lambda>out. fst p @ out) (kvprintf rest (snd p)))))"
  by pat_completeness auto
termination
proof (relation "measure (length \<circ> fst)")
  fix c :: u8 and cs :: cstr and args :: "varg list" and cs1 long x rest p
  assume "cs1 = dropWhile (\<lambda>x. x = 0x6C) cs" "cs1 = x # rest"
  then have "length (x # rest) \<le> length cs" using length_dropWhile_le [of "\<lambda>x. x = 0x6C" cs] by simp
  then show "((rest, snd p), (c # cs, args)) \<in> measure (length \<circ> fst)" by simp
qed auto

definition kprintf :: "cstr \<Rightarrow> varg list \<Rightarrow> cstr option" where "kprintf fmt args = kvprintf fmt args"

section \<open>Log lines\<close>

abbreviation LOG_ERROR :: u32 where "LOG_ERROR \<equiv> 0"
abbreviation LOG_WARN :: u32 where "LOG_WARN \<equiv> 1"
abbreviation LOG_INFO :: u32 where "LOG_INFO \<equiv> 2"
abbreviation LOG_DEBUG :: u32 where "LOG_DEBUG \<equiv> 3"
abbreviation LOG_TRACE :: u32 where "LOG_TRACE \<equiv> 4"

definition level_tag :: "u32 \<Rightarrow> cstr" where
  "level_tag level =
     (if level = LOG_ERROR then [0x45, 0x52, 0x52, 0x4F, 0x52]
      else if level = LOG_WARN then [0x57, 0x41, 0x52, 0x4E]
      else if level = LOG_INFO then [0x49, 0x4E, 0x46, 0x4F]
      else if level = LOG_DEBUG then [0x44, 0x45, 0x42, 0x55, 0x47]
      else if level = LOG_TRACE then [0x54, 0x52, 0x41, 0x43, 0x45]
      else [0x55, 0x4E, 0x4B])"

text \<open>\<open>g\<close> is \<^verbatim>\<open>g_log_level\<close>.\<close>

definition log_write :: "u32 \<Rightarrow> u32 \<Rightarrow> cstr \<Rightarrow> varg list \<Rightarrow> cstr option" where
  "log_write g level fmt args =
     (if g < level then Some []
      else
        Option.bind (kprintf [0x5B, 0x25, 0x73, 0x5D, 0x20] [VStr (Some (level_tag level))])
          (\<lambda>a. Option.bind (kvprintf fmt args)
             (\<lambda>b. map_option (\<lambda>c. a @ b @ c) (kprintf [0x0A] []))))"

end
