(* ===== verification/User_Printf.thy ===== *)
theory User_Printf
  imports Kprintf User_String
begin

text \<open>
  \<^verbatim>\<open>user/lib/printf.c\<close>.  \<open>vformat\<close> gives its output piece by piece to a function with a
  context, as in the source: \<open>out_buf\<close> puts it into a buffer of a given size, \<open>out_fd\<close> hands it to
  \<^verbatim>\<open>write\<close>. Counts do not reach \<open>2 ^ 31\<close>.
\<close>

record buf_ctx =
  bc_buf :: "u8 list"
  bc_size :: nat
  bc_pos :: nat

text \<open>\<open>wr fd bytes w\<close> is the system call; \<open>w\<close> is what it acts on.\<close>

definition out_fd :: "(int \<Rightarrow> u8 list \<Rightarrow> 'w \<Rightarrow> int \<times> 'w) \<Rightarrow> int \<Rightarrow> 'w \<Rightarrow> u8 list \<Rightarrow> int \<times> 'w" where
  "out_fd wr fd w bytes = (if bytes = [] then (0, w) else wr fd bytes w)"

definition out_buf :: "buf_ctx \<Rightarrow> u8 list \<Rightarrow> int \<times> buf_ctx" where
  "out_buf b bytes =
     (let avail = (if 0 < bc_size b \<and> bc_pos b < bc_size b then bc_size b - bc_pos b - 1 else 0);
          copy = (if length bytes < avail then length bytes else avail);
          buf1 = (if 0 < copy then take (bc_pos b) (bc_buf b) @ take copy bytes @ drop (bc_pos b + copy) (bc_buf b)
                  else bc_buf b)
      in (int (length bytes), b\<lparr>bc_buf := buf1, bc_pos := bc_pos b + length bytes\<rparr>))"

fun num_loop :: "nat \<Rightarrow> nat \<Rightarrow> nat \<Rightarrow> cstr \<Rightarrow> cstr" where
  "num_loop 0 base val acc = acc"
| "num_loop (Suc room) base val acc =
     (if val = 0 then acc else num_loop room base (val div base) (kdigit (val mod base) # acc))"

definition num_text :: "u64 \<Rightarrow> nat \<Rightarrow> bool \<Rightarrow> cstr" where
  "num_text val base neg =
     (if neg then [0x2D] else []) @ (if val = 0 then [0x30] else num_loop 32 base (unat val) [])"

definition print_num :: "('c \<Rightarrow> u8 list \<Rightarrow> int \<times> 'c) \<Rightarrow> 'c \<Rightarrow> u64 \<Rightarrow> nat \<Rightarrow> bool \<Rightarrow> int \<times> 'c" where
  "print_num out ctx val base neg = out ctx (num_text val base neg)"

text \<open>One conversion: the count added, the context, and the arguments left.\<close>

definition vf_conv ::
    "('c \<Rightarrow> u8 list \<Rightarrow> int \<times> 'c) \<Rightarrow> bool \<Rightarrow> u8 \<Rightarrow> varg list \<Rightarrow> 'c \<Rightarrow> (int \<times> 'c \<times> varg list) option" where
  "vf_conv out long c args ctx =
     (if c = 0x73 then
        (case args of
           VStr s # as \<Rightarrow>
             (let t = (case s of None \<Rightarrow> null_text | Some t \<Rightarrow> t)
              in Some (int (length t), snd (out ctx t), as))
         | _ \<Rightarrow> None)
      else if c = 0x63 then
        (case args of VInt v # as \<Rightarrow> Some (1, snd (out ctx [ucast v]), as) | _ \<Rightarrow> None)
      else if c = 0x64 \<or> c = 0x69 then
        (case args of
           VInt a # as \<Rightarrow>
             (let v = (if long then a else arg_int a);
                  uv = (if sint v < 0 then - v else v);
                  r = print_num out ctx uv 10 (sint v < 0)
              in Some (fst r, snd r, as))
         | _ \<Rightarrow> None)
      else if c = 0x75 then
        (case args of
           VInt a # as \<Rightarrow> (let r = print_num out ctx (if long then a else arg_uint a) 10 False in Some (fst r, snd r, as))
         | _ \<Rightarrow> None)
      else if c = 0x78 then
        (case args of
           VInt a # as \<Rightarrow> (let r = print_num out ctx (if long then a else arg_uint a) 16 False in Some (fst r, snd r, as))
         | _ \<Rightarrow> None)
      else if c = 0x70 then
        (case args of
           VInt a # as \<Rightarrow>
             (let r = print_num out (snd (out ctx [0x30, 0x78])) a 16 False in Some (2 + fst r, snd r, as))
         | _ \<Rightarrow> None)
      else if c = 0x25 then Some (1, snd (out ctx [0x25]), args)
      else Some (2, snd (out (snd (out ctx [0x25])) [c]), args))"

function vformat :: "('c \<Rightarrow> u8 list \<Rightarrow> int \<times> 'c) \<Rightarrow> cstr \<Rightarrow> varg list \<Rightarrow> int \<Rightarrow> 'c \<Rightarrow> (int \<times> 'c) option" where
  "vformat out [] args tot ctx = Some (tot, ctx)"
| "vformat out (c # cs) args tot ctx =
     (if c \<noteq> 0x25 then vformat out cs args (tot + 1) (snd (out ctx [c]))
      else
        (let long = cs \<noteq> [] \<and> hd cs = 0x6C; cs1 = (if long then tl cs else cs) in
         case cs1 of
           [] \<Rightarrow> None
         | x # rest \<Rightarrow>
             Option.bind (vf_conv out long x args ctx)
               (\<lambda>p. vformat out rest (snd (snd p)) (tot + fst p) (fst (snd p)))))"
  by pat_completeness auto
termination
proof (relation "measure (\<lambda>(out, cs, args, tot, ctx). length cs)", goal_cases)
  case (3 out c cs args tot ctx long cs1 x rest p)
  then have "length (x # rest) \<le> length cs" by (auto split: if_splits)
  then show ?case by simp
qed auto

text \<open>The size given by \<^verbatim>\<open>vsprintf\<close> is \<^verbatim>\<open>(size_t)-1\<close>.  A caller of \<^verbatim>\<open>sprintf\<close> has to know that its buffer is long enough.\<close>

definition vsnprintf :: "u8 list \<Rightarrow> nat \<Rightarrow> cstr \<Rightarrow> varg list \<Rightarrow> (int \<times> u8 list) option" where
  "vsnprintf buf sz fmt args =
     map_option
       (\<lambda>(n, b).
          (n, if 0 < sz then (bc_buf b)[if bc_pos b < sz then bc_pos b else sz - 1 := 0] else bc_buf b))
       (vformat out_buf fmt args 0 \<lparr>bc_buf = buf, bc_size = sz, bc_pos = 0\<rparr>)"

definition u_snprintf :: "u8 list \<Rightarrow> nat \<Rightarrow> cstr \<Rightarrow> varg list \<Rightarrow> (int \<times> u8 list) option" where
  "u_snprintf buf sz fmt args = vsnprintf buf sz fmt args"

definition u_vsprintf :: "u8 list \<Rightarrow> cstr \<Rightarrow> varg list \<Rightarrow> (int \<times> u8 list) option" where
  "u_vsprintf buf fmt args = vsnprintf buf (2 ^ 64 - 1) fmt args"

definition u_sprintf :: "u8 list \<Rightarrow> cstr \<Rightarrow> varg list \<Rightarrow> (int \<times> u8 list) option" where
  "u_sprintf buf fmt args = u_vsprintf buf fmt args"

definition u_dprintf ::
    "(int \<Rightarrow> u8 list \<Rightarrow> 'w \<Rightarrow> int \<times> 'w) \<Rightarrow> int \<Rightarrow> cstr \<Rightarrow> varg list \<Rightarrow> 'w \<Rightarrow> (int \<times> 'w) option" where
  "u_dprintf wr fd fmt args w = vformat (out_fd wr fd) fmt args 0 w"

definition u_printf ::
    "(int \<Rightarrow> u8 list \<Rightarrow> 'w \<Rightarrow> int \<times> 'w) \<Rightarrow> cstr \<Rightarrow> varg list \<Rightarrow> 'w \<Rightarrow> (int \<times> 'w) option" where
  "u_printf wr fmt args w = vformat (out_fd wr 1) fmt args 0 w"

text \<open>The descriptor of a stream, 1 for \<^verbatim>\<open>NULL\<close>.\<close>

definition u_fprintf ::
    "(int \<Rightarrow> u8 list \<Rightarrow> 'w \<Rightarrow> int \<times> 'w) \<Rightarrow> int option \<Rightarrow> cstr \<Rightarrow> varg list \<Rightarrow> 'w \<Rightarrow> (int \<times> 'w) option" where
  "u_fprintf wr stream fmt args w =
     vformat (out_fd wr (case stream of None \<Rightarrow> 1 | Some fd \<Rightarrow> fd)) fmt args 0 w"

definition u_puts :: "(int \<Rightarrow> u8 list \<Rightarrow> 'w \<Rightarrow> int \<times> 'w) \<Rightarrow> cstr \<Rightarrow> 'w \<Rightarrow> int \<times> 'w" where
  "u_puts wr s w = (int (length s + 1), snd (out_fd wr 1 (snd (out_fd wr 1 w s)) [0x0A]))"

definition u_putchar :: "(int \<Rightarrow> u8 list \<Rightarrow> 'w \<Rightarrow> int \<times> 'w) \<Rightarrow> int \<Rightarrow> 'w \<Rightarrow> int \<times> 'w" where
  "u_putchar wr c w = (c, snd (out_fd wr 1 w [word_of_int c]))"

end
