(* ===== verification/User_Props.thy ===== *)
theory User_Props
  imports User_Match User_Printf User_Stdlib
begin

text \<open>
  What the user library promises: shell patterns match the strings of their language,
  \<^verbatim>\<open>memmove\<close> copies between overlapping ranges, tokens are the maximal runs without delimiters,
  \<^verbatim>\<open>snprintf\<close> stays in its buffer, and numbers printed are read back.
\<close>

section \<open>Shell patterns\<close>

text \<open>The strings a pattern stands for.\<close>

inductive glob :: "cstr \<Rightarrow> cstr \<Rightarrow> bool" where
  empty: "glob [] []"
| run: "glob ps s \<Longrightarrow> glob (star # ps) (u @ s)"
| one: "glob ps s \<Longrightarrow> glob (quest # ps) (c # s)"
| same: "p \<noteq> star \<Longrightarrow> p \<noteq> quest \<Longrightarrow> glob ps s \<Longrightarrow> glob (p # ps) (p # s)"

inductive_simps glob_Nil: "glob [] s"
inductive_simps glob_Cons: "glob (p # ps) s"

lemma glob_star: "glob (star # ps) s \<longleftrightarrow> (\<exists>u v. s = u @ v \<and> glob ps v)"
  by (auto simp: glob_Cons)

lemma glob_stars: "glob (star # ps) s \<longleftrightarrow> (\<exists>u v. s = u @ v \<and> glob (dropWhile (\<lambda>c. c = star) ps) v)"
proof (induction ps arbitrary: s)
  case Nil
  then show ?case by (simp add: glob_star)
next
  case (Cons p ps)
  show ?case
  proof (cases "p = star")
    case True
    have "glob (star # star # ps) s \<longleftrightarrow> (\<exists>u v. s = u @ v \<and> glob (star # ps) v)" by (rule glob_star)
    also have "\<dots> \<longleftrightarrow> (\<exists>u v. s = u @ v \<and> glob (dropWhile (\<lambda>c. c = star) ps) v)"
      unfolding Cons.IH by (metis append.assoc append_Nil)
    finally show ?thesis using True by simp
  qed (simp add: glob_star)
qed

lemma glob_nonempty: "ps \<noteq> [] \<Longrightarrow> hd ps \<noteq> star \<Longrightarrow> glob ps s \<Longrightarrow> s \<noteq> []"
  by (cases ps) (auto simp: glob_Cons)

lemma match_glob:
  "match_here ps s \<longleftrightarrow> glob ps s"
  "match_from ps s \<longleftrightarrow> (\<exists>u v. s = u @ v \<and> v \<noteq> [] \<and> glob ps v)"
proof (induction ps s and ps s rule: match_here_match_from.induct)
  case (1 str)
  then show ?case by (simp add: glob_Nil)
next
  case (2 p ps str)
  let ?rest = "dropWhile (\<lambda>c. c = star) ps"
  show ?case
  proof (cases "p = star")
    case True
    show ?thesis
    proof (cases "?rest = []")
      case nil: True
      have "glob (star # ps) str" unfolding glob_stars nil by (auto simp: glob_Nil)
      then show ?thesis using True by (simp add: Let_def nil)
    next
      case False
      then have ne: "glob ?rest v \<Longrightarrow> v \<noteq> []" for v
        using glob_nonempty [of ?rest v] hd_dropWhile [of "\<lambda>c. c = star" ps] by auto
      have "glob (star # ps) str \<longleftrightarrow> match_from ?rest str"
        unfolding glob_stars "2.IH"(1) [OF True refl False] using ne by blast
      then show ?thesis using True False by (simp only: match_here.simps Let_def if_True if_False simp_thms)
    qed
  next
    case False
    then show ?thesis using "2.IH"(2,3) by (cases str) (auto simp: glob_Cons)
  qed
next
  case (3 pat)
  then show ?case by simp
next
  case (4 pat c cs)
  show ?case
  proof
    assume "match_from pat (c # cs)"
    then consider "glob pat (c # cs)" | "\<exists>u v. cs = u @ v \<and> v \<noteq> [] \<and> glob pat v" using "4.IH" by auto
    then show "\<exists>u v. c # cs = u @ v \<and> v \<noteq> [] \<and> glob pat v"
      by cases (metis append_Nil list.distinct(1), metis append_Cons)
  next
    assume "\<exists>u v. c # cs = u @ v \<and> v \<noteq> [] \<and> glob pat v"
    then obtain u v where "c # cs = u @ v" "v \<noteq> []" "glob pat v" by blast
    then show "match_from pat (c # cs)" using "4.IH" by (cases u) auto
  qed
qed

text \<open>
  C29. \<^verbatim>\<open>fnmatch\<close> says 0 for exactly the strings of the pattern's language: a star stands for
  any string, a question mark for any byte, every other byte for itself.
\<close>
theorem fnmatch_glob: "u_fnmatch (Some ps) (Some s) = 0 \<longleftrightarrow> glob ps s"
  by (simp add: u_fnmatch_def match_glob(1))

section \<open>Overlapping copies\<close>

lemma unat_of_nat_64: "n < 2 ^ 64 \<Longrightarrow> unat (of_nat n :: u64) = n"
  unfolding unat_of_nat by (intro mod_less) simp

lemma unat_lt_64: "unat (x :: u64) < 2 ^ 64"
  by (rule less_le_trans [OF unsigned_less]) simp

text \<open>Down from the end: no byte is read after it was written, when the target starts at most \<open>n\<close> below.\<close>

lemma copy_down_apply:
  fixes d s :: u64
  shows "n \<le> unat (s - d) \<Longrightarrow> copy_down m d s n x = (if unat (x - d) < n then m (s + (x - d)) else m x)"
proof (induction n arbitrary: m)
  case 0
  then show ?case by simp
next
  case (Suc n)
  have lt: "n < 2 ^ 64" using Suc.prems unat_lt_64 [of "s - d"] by linarith
  have e: "copy_down m d s (Suc n) x = (if unat (x - d) < n then (m(d + of_nat n := m (s + of_nat n))) (s + (x - d))
      else (m(d + of_nat n := m (s + of_nat n))) x)"
    unfolding copy_down.simps(2) by (rule Suc.IH) (use Suc.prems in simp)
  consider "unat (x - d) < n" | "unat (x - d) = n" | "n < unat (x - d)" by linarith
  then show ?case
  proof cases
    case 1
    have "s + (x - d) \<noteq> d + of_nat n"
    proof
      assume "s + (x - d) = d + of_nat n"
      then have "s - d = of_nat n - (x - d)" by (simp add: algebra_simps)
      also have "\<dots> = of_nat (n - unat (x - d))" using 1 by (simp add: of_nat_diff)
      finally have "unat (s - d) = n - unat (x - d)" using lt by (simp add: unat_of_nat_64)
      then show False using Suc.prems by simp
    qed
    then show ?thesis using e 1 by simp
  next
    case 2
    then have "x - d = of_nat n" by (metis of_nat_unat ucast_id)
    then have "x = d + of_nat n" by (simp add: algebra_simps)
    then show ?thesis using e 2 by simp
  next
    case 3
    then have "x \<noteq> d + of_nat n" using lt by (auto simp: unat_of_nat_64)
    then show ?thesis using e 3 by simp
  qed
qed

lemma memcpy_apply:
  fixes d s :: u64
  shows "n \<le> unat (d - s) \<Longrightarrow> memcpy m d s n x = (if unat (x - d) < n then m (s + (x - d)) else m x)"
proof (induction n arbitrary: m d s)
  case 0
  then show ?case by simp
next
  case (Suc n)
  have e: "memcpy m d s (Suc n) x =
      (if unat (x - (d + 1)) < n then (m(d := m s)) (s + 1 + (x - (d + 1))) else (m(d := m s)) x)"
    unfolding memcpy.simps(2) by (rule Suc.IH) (use Suc.prems in simp)
  show ?case
  proof (cases "x = d")
    case True
    have "unat (x - (d + 1)) = 2 ^ 64 - 1"
      unfolding True by (simp add: unat_eq_nat_uint unsigned_minus_1_eq_mask mask_eq_exp_minus_1)
    moreover have "n < 2 ^ 64 - 1 \<or> n = 2 ^ 64 - 1"
      using Suc.prems unat_lt_64 [of "d - s"] by linarith
    ultimately show ?thesis using e True by auto
  next
    case False
    note u = unat_diff_Suc [OF False]
    have a: "s + 1 + (x - (d + 1)) = s + (x - d)" by simp
    have "s + (x - d) \<noteq> d" if "unat (x - d) < Suc n"
    proof
      assume "s + (x - d) = d"
      then have "d - s = x - d" by (simp add: algebra_simps)
      then have "unat (d - s) = unat (x - d)" by (rule arg_cong)
      then show False using that Suc.prems by linarith
    qed
    then show ?thesis using e u False unfolding a by auto
  qed
qed

text \<open>
  \<^verbatim>\<open>memmove\<close> copies as if through a second buffer: for ranges that do not wrap round the
  address space, however they overlap, each byte of the target is the byte the source held
  before, and no other byte changes.
\<close>
theorem memmove_copies:
  fixes d s :: u64
  assumes "unat s + n \<le> 2 ^ 64" and "unat d + n \<le> 2 ^ 64"
  shows "u_memmove m d s n x = (if unat (x - d) < n then m (s + (x - d)) else m x)"
proof -
  consider "d = s \<or> n = 0" | "d < s" "n \<noteq> 0" | "s < d" "n \<noteq> 0" by (meson linorder_neqE)
  then show ?thesis
  proof cases
    case 1
    then show ?thesis by (auto simp: u_memmove_def)
  next
    case 2
    have "n \<le> unat (d - s)" using 2 assms by (simp add: unat_sub_if' word_less_nat_alt)
    then show ?thesis using 2 memcpy_apply [of n d s m x] by (auto simp: u_memmove_def)
  next
    case 3
    have "n \<le> unat (s - d)" using 3 assms by (simp add: unat_sub_if' word_less_nat_alt)
    then show ?thesis using 3 copy_down_apply [of n s d m x] by (auto simp: u_memmove_def)
  qed
qed

theorem memmove_copies_witness:
  "u_memmove (\<lambda>a. ucast a) 0x1001 0x1000 4 0x1003 = (2 :: u8)"
  using memmove_copies [of "0x1000" 4 "0x1001" "\<lambda>a. ucast a" "0x1003"] by simp

section \<open>Formatting into a buffer\<close>

text \<open>All of the output, as \<open>vformat\<close> gives it away.\<close>

definition out_text :: "cstr \<Rightarrow> u8 list \<Rightarrow> int \<times> cstr" where
  "out_text t bytes = (int (length bytes), t @ bytes)"

text \<open>Two ways to put output away that stay related give related results.\<close>

definition out_related :: "('c \<Rightarrow> 'd \<Rightarrow> bool) \<Rightarrow> ('c \<Rightarrow> u8 list \<Rightarrow> int \<times> 'c) \<Rightarrow> ('d \<Rightarrow> u8 list \<Rightarrow> int \<times> 'd) \<Rightarrow> bool" where
  "out_related R f g \<longleftrightarrow> (\<forall>c d bs. R c d \<longrightarrow> fst (f c bs) = fst (g d bs) \<and> R (snd (f c bs)) (snd (g d bs)))"

lemma out_relatedD: "out_related R f g \<Longrightarrow> R c d \<Longrightarrow> fst (f c bs) = fst (g d bs) \<and> R (snd (f c bs)) (snd (g d bs))"
  by (simp add: out_related_def)

lemma vf_conv_related:
  assumes "out_related R f g" and "R c d"
  shows "case vf_conv f long x args c of
      None \<Rightarrow> vf_conv g long x args d = None
    | Some (n, c', as) \<Rightarrow> \<exists>d'. vf_conv g long x args d = Some (n, d', as) \<and> R c' d'"
proof -
  note o = out_relatedD [OF assms(1)]
  have one: "fst (f c bs) = fst (g d bs)" "R (snd (f c bs)) (snd (g d bs))" for bs
    using o [OF assms(2)] by blast+
  have two: "fst (f (snd (f c bs)) bs') = fst (g (snd (g d bs)) bs')"
      "R (snd (f (snd (f c bs)) bs')) (snd (g (snd (g d bs)) bs'))" for bs bs'
    using o [OF one(2)] by blast+
  show ?thesis
  proof (cases args)
    case Nil
    then show ?thesis by (simp add: vf_conv_def one two)
  next
    case (Cons a as)
    then show ?thesis by (cases a) (simp_all add: vf_conv_def print_num_def Let_def one two)
  qed
qed

lemma vformat_related:
  "out_related R f g \<Longrightarrow> R c d \<Longrightarrow> case vformat f fmt args tot c of
      None \<Rightarrow> vformat g fmt args tot d = None
    | Some (n, c') \<Rightarrow> \<exists>d'. vformat g fmt args tot d = Some (n, d') \<and> R c' d'"
proof (induction f fmt args tot c arbitrary: d rule: vformat.induct)
  case (1 f args tot c)
  then show ?case by simp
next
  case (2 f x xs args tot c)
  show ?case
  proof (cases "x = 0x25")
    case False
    then have e: "vformat h (x # xs) args tot k = vformat h xs args (tot + 1) (snd (h k [x]))"
      for h :: "'e \<Rightarrow> u8 list \<Rightarrow> int \<times> 'e" and k by simp
    have "R (snd (f c [x])) (snd (g d [x]))" using out_relatedD [OF "2.prems"] by blast
    from "2.IH"(1) [OF False "2.prems"(1) this] show ?thesis unfolding e .
  next
    case True
    define long where "long = (xs \<noteq> [] \<and> hd xs = 0x6C)"
    define ys where "ys = (if long then tl xs else xs)"
    have e: "vformat h (x # xs) args tot k =
      (case ys of [] \<Rightarrow> None | y # rest \<Rightarrow> Option.bind (vf_conv h long y args k)
         (\<lambda>p. vformat h rest (snd (snd p)) (tot + fst p) (fst (snd p))))" for h :: "'e \<Rightarrow> u8 list \<Rightarrow> int \<times> 'e" and k
      using True by (subst vformat.simps(2)) (simp only: Let_def long_def ys_def not_True_eq_False if_False simp_thms)
    show ?thesis
    proof (cases ys)
      case Nil
      then show ?thesis unfolding e by simp
    next
      case (Cons y rest)
      show ?thesis
      proof (cases "vf_conv f long y args c")
        case None
        then show ?thesis unfolding e using Cons vf_conv_related [OF "2.prems", of long y args] by simp
      next
        case (Some p)
        obtain n c' as where p: "p = (n, c', as)" by (cases p)
        obtain d' where d: "vf_conv g long y args d = Some (n, d', as)" "R c' d'"
          using vf_conv_related [OF "2.prems", of long y args] Some p by auto
        have "\<not> x \<noteq> 0x25" using True by simp
        note "2.IH"(2) [OF this long_def ys_def Cons Some "2.prems"(1), of d', unfolded p fst_conv snd_conv, OF d(2)]
        then show ?thesis unfolding e Cons list.case Some d(1) Option.bind.simps p fst_conv snd_conv .
      qed
    qed
  qed
qed

text \<open>The buffer after \<open>t\<close> has been put out: what fits of it, with room left for the NUL.\<close>

definition buf_holds :: "u8 list \<Rightarrow> nat \<Rightarrow> cstr \<Rightarrow> buf_ctx \<Rightarrow> bool" where
  "buf_holds buf sz t b \<longleftrightarrow> bc_size b = sz \<and> bc_pos b = length t \<and>
     bc_buf b = take (sz - 1) t @ drop (min (sz - 1) (length t)) buf"

lemma out_buf_related:
  assumes "0 < sz" and "sz \<le> length buf"
  shows "out_related (buf_holds buf sz) out_text out_buf"
  unfolding out_related_def
proof (intro allI impI)
  fix t b bs assume h: "buf_holds buf sz t b"
  show "fst (out_text t bs) = fst (out_buf b bs) \<and> buf_holds buf sz (snd (out_text t bs)) (snd (out_buf b bs))"
  proof (cases "length t < sz - 1")
    case True
    then have b: "bc_buf b = t @ drop (length t) buf" "bc_pos b = length t" "bc_size b = sz"
      using h by (simp_all add: buf_holds_def)
    define k where "k = min (length bs) (sz - length t - 1)"
    have k: "(if length bs < sz - length t - 1 then length bs else sz - length t - 1) = k" by (simp add: k_def)
    have "take (sz - 1) (t @ bs) = t @ take k bs" using True by (auto simp: k_def min_def)
    moreover have "min (sz - 1) (length (t @ bs)) = length t + k" using True by (auto simp: k_def)
    ultimately show ?thesis using True b assms
      by (auto simp: buf_holds_def out_text_def out_buf_def Let_def k add.commute)
  next
    case False
    then show ?thesis using h by (auto simp: buf_holds_def out_text_def out_buf_def Let_def)
  qed
qed

lemma vsnprintf_text:
  assumes "0 < sz" and "sz \<le> length buf"
  shows "u_snprintf buf sz fmt args =
    map_option (\<lambda>(n, t). (n, take (sz - 1) t @ 0 # drop (min (sz - 1) (length t) + 1) buf))
      (vformat out_text fmt args 0 [])"
proof -
  let ?b = "\<lparr>bc_buf = buf, bc_size = sz, bc_pos = 0\<rparr>"
  have "buf_holds buf sz [] ?b" by (simp add: buf_holds_def)
  note r = vformat_related [OF out_buf_related [OF assms] this, of fmt args 0]
  show ?thesis
  proof (cases "vformat out_text fmt args 0 []")
    case None
    then show ?thesis using r by (simp add: u_snprintf_def vsnprintf_def)
  next
    case (Some p)
    obtain n t where p: "p = (n, t)" by (cases p)
    then obtain b where b: "vformat out_buf fmt args 0 ?b = Some (n, b)" "buf_holds buf sz t b" using r Some by auto
    define k where "k = min (sz - 1) (length t)"
    have k: "(if bc_pos b < sz then bc_pos b else sz - 1) = k" using b(2) assms(1) by (auto simp: k_def buf_holds_def)
    have "k < length buf" using assms by (simp add: k_def)
    then have "drop k buf = buf ! k # drop (k + 1) buf" by (simp add: Cons_nth_drop_Suc)
    moreover have "k = length (take (sz - 1) t)" by (simp add: k_def)
    ultimately have "(take (sz - 1) t @ drop k buf)[k := 0] = take (sz - 1) t @ 0 # drop (k + 1) buf"
      by (simp add: list_update_append)
    then show ?thesis using Some p b assms(1) k
      by (simp add: u_snprintf_def vsnprintf_def buf_holds_def k_def)
  qed
qed

text \<open>
  C30. \<^verbatim>\<open>snprintf\<close> never writes behind the size it is given: the buffer holds the formatted text
  cut to one byte less, then a NUL, and the bytes behind are as before; the count returned is that
  of \<open>vformat\<close>, whatever was cut.
\<close>
theorem snprintf_cuts:
  assumes "0 < sz" and "sz \<le> length buf"
  shows "u_snprintf buf sz fmt args =
    map_option (\<lambda>(n, t). (n, take (sz - 1) t @ 0 # drop (min (sz - 1) (length t) + 1) buf))
      (vformat out_text fmt args 0 [])"
  by (rule vsnprintf_text [OF assms])

theorem snprintf_cuts_witness:
  "u_snprintf [1, 2, 3, 4] 3 [0x61, 0x62, 0x63] [] = Some (3, [0x61, 0x62, 0, 4])"
  using snprintf_cuts [of 3 "[1, 2, 3, 4]" "[0x61, 0x62, 0x63]" "[]"] by (simp add: out_text_def)

section \<open>Numbers out and in\<close>

lemma digit_val_kdigit: "d < 10 \<Longrightarrow> digit_val (uint (kdigit d)) = int d"
proof -
  assume d: "d < 10"
  have "uint (0x30 + of_nat d :: u8) = 48 + int d"
    using d by (simp add: uint_word_ariths unsigned_of_nat take_bit_eq_mod)
  then show ?thesis using d by (simp add: kdigit_def digit_val_def)
qed

lemma digits_num_loop:
  "val < 10 ^ room \<Longrightarrow> digits_loop (num_loop room 10 val acc) 10 0 = digits_loop acc 10 (of_nat val)"
proof (induction room arbitrary: val acc)
  case 0
  then show ?case by simp
next
  case (Suc room)
  show ?case
  proof (cases "val = 0")
    case False
    have "digits_loop (num_loop room 10 (val div 10) (kdigit (val mod 10) # acc)) 10 0 =
        digits_loop (kdigit (val mod 10) # acc) 10 (of_nat (val div 10))"
      using Suc.prems by (intro Suc.IH) (simp add: less_mult_imp_div_less)
    also have "\<dots> = digits_loop acc 10 (of_nat (val div 10) * 10 + of_nat (val mod 10))"
      by (simp add: digit_val_kdigit)
    also have "(of_nat (val div 10) * 10 + of_nat (val mod 10) :: u64) = of_nat (val div 10 * 10 + val mod 10)"
      by (simp only: of_nat_add of_nat_mult of_nat_numeral)
    finally show ?thesis using False by simp
  qed simp
qed

lemma kdigit_range: "d < 10 \<Longrightarrow> 48 \<le> uint (kdigit d) \<and> uint (kdigit d) \<le> 57"
  using digit_val_kdigit [of d] by (auto simp: digit_val_def split: if_splits)

lemma num_loop_digits:
  "\<forall>c\<in>set acc. 48 \<le> uint c \<and> uint c \<le> 57 \<Longrightarrow> \<forall>c\<in>set (num_loop room 10 val acc). 48 \<le> uint c \<and> uint c \<le> 57"
proof (induction room arbitrary: val acc)
  case (Suc room)
  show ?case
  proof (cases "val = 0")
    case False
    have "\<forall>c\<in>set (kdigit (val mod 10) # acc). 48 \<le> uint c \<and> uint c \<le> 57"
      using Suc.prems kdigit_range [of "val mod 10"] by simp
    from Suc.IH [OF this] show ?thesis using False by simp
  qed (simp add: Suc.prems)
qed simp

text \<open>The digits of a number that is not written with a sign.\<close>

definition dec_text :: "u64 \<Rightarrow> cstr" where
  "dec_text val = (if val = 0 then [0x30] else num_loop 32 10 (unat val) [])"

lemma num_loop_nonempty: "acc \<noteq> [] \<Longrightarrow> num_loop room base val acc \<noteq> []"
  by (induction room arbitrary: val acc) simp_all

lemma dec_text_nonempty: "dec_text val \<noteq> []"
proof (cases "val = 0")
  case False
  have "num_loop 32 10 (unat val) [] = num_loop 31 10 (unat val div 10) [kdigit (unat val mod 10)]"
    using False num_loop.simps(2) [of 31 10 "unat val" "[]"] by (simp add: unat_eq_zero)
  then show ?thesis using False num_loop_nonempty [of "[kdigit (unat val mod 10)]"] by (simp add: dec_text_def)
qed (simp add: dec_text_def)

lemma dec_text_digits: "\<forall>c\<in>set (dec_text val). 48 \<le> uint c \<and> uint c \<le> 57"
  using num_loop_digits [of "[]" 32 "unat val"] by (simp add: dec_text_def)

lemma digits_dec_text: "digits_loop (dec_text val) 10 0 = (val, [])"
proof (cases "val = 0")
  case False
  have "unat val < 10 ^ 32" using unat_lt_64 [of val] by simp
  from digits_num_loop [OF this, of "[]"] False show ?thesis by (simp add: dec_text_def)
qed (simp add: dec_text_def digit_val_def)

lemma strtol_dec_text:
  "u_strtol (dec_text val) 10 = (val, [])"
  "u_strtol (0x2D # dec_text val) 10 = (- val, [])"
proof -
  obtain c cs where t: "dec_text val = c # cs" using dec_text_nonempty [of val] by (cases "dec_text val") auto
  then have c: "48 \<le> uint c" "uint c \<le> 57" using dec_text_digits [of val] by auto
  have n: "c \<noteq> 0x2D" "c \<noteq> 0x2B" "\<not> u_isspace (uint c)" using c by (auto simp: u_isspace_def)
  have b: "number_base (c # cs) 10 = (10, c # cs)" by (simp add: number_base_def)
  note d = digits_dec_text [of val, unfolded t]
  show "u_strtol (dec_text val) 10 = (val, [])" unfolding u_strtol_def t using n b d by (simp add: Let_def)
  show "u_strtol (0x2D # dec_text val) 10 = (- val, [])"
    unfolding u_strtol_def t using b d by (simp add: Let_def u_isspace_def)
qed

text \<open>
  C31. A \<^verbatim>\<open>long\<close> that \<^verbatim>\<open>printf("%ld")\<close> writes is what \<^verbatim>\<open>strtol\<close> reads from the text, all of it, for
  every value, the least one with no positive counterpart included.
\<close>
theorem printf_strtol:
  "\<exists>t. vformat out_text [0x25, 0x6C, 0x64] [VInt v] 0 [] = Some (int (length t), t) \<and> u_strtol t 10 = (v, [])"
proof (cases "sint v < 0")
  case True
  then show ?thesis using strtol_dec_text(2) [of "- v"]
    by (intro exI [of _ "0x2D # dec_text (- v)"])
      (simp add: vf_conv_def print_num_def num_text_def out_text_def dec_text_def Let_def)
next
  case False
  then show ?thesis using strtol_dec_text(1) [of v]
    by (intro exI [of _ "dec_text v"])
      (simp add: vf_conv_def print_num_def num_text_def out_text_def dec_text_def Let_def)
qed

end
