(* ===== verification/User_Malloc.thy ===== *)
theory User_Malloc
  imports Vm User_String
begin

text \<open>
  The heap of a user program: \<^verbatim>\<open>brk\<close> and \<^verbatim>\<open>sbrk\<close> of \<^verbatim>\<open>user/lib/syscall.c\<close>, \<^verbatim>\<open>malloc.c\<close>, and the
  functions of the library that hand out memory (\<^verbatim>\<open>calloc\<close>, \<^verbatim>\<open>strdup\<close>, \<^verbatim>\<open>strndup\<close>).  Memory is that of
  the program; a header is two words, \<^verbatim>\<open>next\<close> and \<^verbatim>\<open>size\<close>, at the address of its block.
\<close>

section \<open>The break\<close>

text \<open>
  \<open>seg_end\<close> is the size the kernel keeps for the process and \<open>grants\<close> says, call by call, whether
  it has the pages for a larger one; \<open>brk_cur\<close> is the static \<^verbatim>\<open>cur\<close> of \<^verbatim>\<open>sbrk\<close>, \<open>base_at\<close> the
  address of \<^verbatim>\<open>base\<close>.
\<close>

record heap_state =
  um :: mem
  freep :: u64
  base_at :: u64
  brk_cur :: u64
  seg_end :: u64
  grants :: "bool list"

text \<open>The system call as the program sees it (\<^verbatim>\<open>sys_brk\<close> of \<^verbatim>\<open>kernel/syscall.c\<close>): new pages are zero.\<close>

definition brk_call :: "u64 \<Rightarrow> heap_state \<Rightarrow> u64 \<times> heap_state" where
  "brk_call addr h =
     (if addr = 0 then (seg_end h, h)
      else if addr < USER_BASE \<or> USER_STACK_BASE < addr then (seg_end h, h)
      else if seg_end h < addr then
        (let h1 = h\<lparr>grants := tl (grants h)\<rparr> in
         if grants h = [] \<or> \<not> hd (grants h) then (seg_end h, h1)
         else
           (addr, h1\<lparr>seg_end := addr,
              um := (\<lambda>x. if PGROUNDUP (seg_end h) \<le> x \<and> x < PGROUNDUP addr then 0 else um h x)\<rparr>))
      else if addr < seg_end h then (addr, h\<lparr>seg_end := addr\<rparr>)
      else (seg_end h, h))"

definition u_brk :: "u64 \<Rightarrow> heap_state \<Rightarrow> int \<times> heap_state" where
  "u_brk addr h = (case brk_call addr h of (ret, h1) \<Rightarrow> (if ret = addr then 0 else - 1, h1))"

text \<open>\<open>- 1\<close> is the pointer \<^verbatim>\<open>(void *)-1\<close>.\<close>

definition u_sbrk :: "u64 \<Rightarrow> heap_state \<Rightarrow> u64 \<times> heap_state" where
  "u_sbrk inc h =
     (let h1 = (if brk_cur h = 0 then (case brk_call 0 h of (c, h1) \<Rightarrow> h1\<lparr>brk_cur := c\<rparr>) else h);
          old = brk_cur h1; new = old + inc in
      case brk_call new h1 of (ret, h2) \<Rightarrow>
        (if ret \<noteq> new then (- 1, h2) else (old, h2\<lparr>brk_cur := new\<rparr>)))"

section \<open>Headers\<close>

definition nxt :: "mem \<Rightarrow> u64 \<Rightarrow> u64" where "nxt m p = load64 m p"
definition siz :: "mem \<Rightarrow> u64 \<Rightarrow> u64" where "siz m p = load64 m (p + 8)"
definition set_nxt :: "mem \<Rightarrow> u64 \<Rightarrow> u64 \<Rightarrow> mem" where "set_nxt m p v = store64 m p v"
definition set_siz :: "mem \<Rightarrow> u64 \<Rightarrow> u64 \<Rightarrow> mem" where "set_siz m p v = store64 m (p + 8) v"

abbreviation NALLOC :: u64 where "NALLOC \<equiv> 1024"

text \<open>The first use makes \<^verbatim>\<open>base\<close> a ring of its own.\<close>

definition init_ring :: "heap_state \<Rightarrow> heap_state" where
  "init_ring h =
     (if freep h = 0 then
        h\<lparr>freep := base_at h, um := set_siz (set_nxt (um h) (base_at h) (base_at h)) (base_at h) 0\<rparr>
      else h)"

section \<open>Freeing\<close>

text \<open>The \<^verbatim>\<open>for\<close> loop: the block of the ring behind which \<open>bp\<close> belongs.\<close>

partial_function (option) free_scan :: "mem \<Rightarrow> u64 \<Rightarrow> u64 \<Rightarrow> u64 option" where
  "free_scan m bp p =
     (if p < bp \<and> bp < nxt m p then Some p
      else if nxt m p \<le> p \<and> (p < bp \<or> bp < nxt m p) then Some p
      else free_scan m bp (nxt m p))"

text \<open>A pointer to headers counts in units of 16 bytes.\<close>

definition link_right :: "u64 \<Rightarrow> u64 \<Rightarrow> mem \<Rightarrow> mem" where
  "link_right bp p m =
     (if bp + 16 * siz m bp = nxt m p then
        (let m1 = set_siz m bp (siz m bp + siz m (nxt m p)) in set_nxt m1 bp (nxt m1 (nxt m1 p)))
      else set_nxt m bp (nxt m p))"

definition link_left :: "u64 \<Rightarrow> u64 \<Rightarrow> mem \<Rightarrow> mem" where
  "link_left bp p m =
     (if p + 16 * siz m p = bp then
        (let m1 = set_siz m p (siz m p + siz m bp) in set_nxt m1 p (nxt m1 bp))
      else set_nxt m p bp)"

definition u_free :: "u64 \<Rightarrow> heap_state \<Rightarrow> heap_state option" where
  "u_free ap h =
     (if ap = 0 then Some h
      else
        (let bp = ap - 16; h1 = init_ring h in
         map_option (\<lambda>p. h1\<lparr>um := link_left bp p (link_right bp p (um h1)), freep := p\<rparr>) (free_scan (um h1) bp (freep h1))))"

section \<open>Allocating\<close>

definition morecore :: "u64 \<Rightarrow> heap_state \<Rightarrow> (u64 \<times> heap_state) option" where
  "morecore nu0 h =
     (let nu = (if nu0 < NALLOC then NALLOC else nu0) in
      case u_sbrk (nu * 16) h of (p, h1) \<Rightarrow>
        (if p = - 1 then Some (0, h1)
         else map_option (\<lambda>h2. (freep h2, h2)) (u_free (p + 16) (h1\<lparr>um := set_siz (um h1) p nu\<rparr>))))"

text \<open>The block found at \<open>p\<close>, behind \<open>prevp\<close>: all of it, or its end.\<close>

definition take_block :: "u64 \<Rightarrow> u64 \<Rightarrow> u64 \<Rightarrow> heap_state \<Rightarrow> u64 \<times> heap_state" where
  "take_block nunits prevp p h =
     (if siz (um h) p = nunits then
        (p + 16, h\<lparr>um := set_nxt (um h) prevp (nxt (um h) p), freep := prevp\<rparr>)
      else
        (let m1 = set_siz (um h) p (siz (um h) p - nunits); q = p + 16 * siz m1 p
         in (q + 16, h\<lparr>um := set_siz m1 q nunits, freep := prevp\<rparr>)))"

partial_function (option) malloc_loop :: "u64 \<Rightarrow> u64 \<Rightarrow> u64 \<Rightarrow> heap_state \<Rightarrow> (u64 \<times> heap_state) option" where
  "malloc_loop nunits prevp p h =
     (if nunits \<le> siz (um h) p then Some (take_block nunits prevp p h)
      else if p = freep h then
        Option.bind (morecore nunits h)
          (\<lambda>r. if fst r = 0 then Some (0, snd r)
               else malloc_loop nunits (fst r) (nxt (um (snd r)) (fst r)) (snd r))
      else malloc_loop nunits p (nxt (um h) p) h)"

definition units_of :: "u64 \<Rightarrow> u64" where "units_of nbytes = (nbytes + 16 - 1) div 16 + 1"

definition u_malloc :: "u64 \<Rightarrow> heap_state \<Rightarrow> (u64 \<times> heap_state) option" where
  "u_malloc nbytes h =
     (let h1 = init_ring h in malloc_loop (units_of nbytes) (freep h1) (nxt (um h1) (freep h1)) h1)"

definition u_realloc :: "u64 \<Rightarrow> u64 \<Rightarrow> heap_state \<Rightarrow> (u64 \<times> heap_state) option" where
  "u_realloc ptr sz h =
     (if ptr = 0 then u_malloc sz h
      else if sz = 0 then map_option (\<lambda>h1. (0, h1)) (u_free ptr h)
      else
        (let bp = ptr - 16; old = (siz (um h) bp - 1) * 16 in
         if sz \<le> old then Some (ptr, h)
         else
           Option.bind (u_malloc sz h)
             (\<lambda>r. if fst r = 0 then Some (0, snd r)
                  else
                    (let to_copy = (if old < sz then old else sz);
                         h2 = (snd r)\<lparr>um := memcpy (um (snd r)) (fst r) ptr (unat to_copy)\<rparr>
                     in map_option (\<lambda>h3. (fst r, h3)) (u_free ptr h2)))))"

definition u_calloc :: "u64 \<Rightarrow> u64 \<Rightarrow> heap_state \<Rightarrow> (u64 \<times> heap_state) option" where
  "u_calloc nmemb sz h =
     (let bytes = nmemb * sz in
      map_option
        (\<lambda>r. if fst r = 0 then (0, snd r)
             else (fst r, (snd r)\<lparr>um := memset (um (snd r)) (fst r) 0 (unat bytes)\<rparr>))
        (u_malloc bytes h))"

text \<open>The bytes and a NUL in memory of their own.\<close>

definition dup_bytes :: "cstr \<Rightarrow> heap_state \<Rightarrow> (u64 \<times> heap_state) option" where
  "dup_bytes s h =
     map_option
       (\<lambda>r. if fst r = 0 then (0, snd r)
            else (fst r, (snd r)\<lparr>um := store_bytes (um (snd r)) (fst r) (s @ [0])\<rparr>))
       (u_malloc (of_nat (length s + 1)) h)"

definition u_strdup :: "cstr option \<Rightarrow> heap_state \<Rightarrow> (u64 \<times> heap_state) option" where
  "u_strdup s h = (case s of None \<Rightarrow> Some (0, h) | Some t \<Rightarrow> dup_bytes t h)"

definition u_strndup :: "cstr option \<Rightarrow> nat \<Rightarrow> heap_state \<Rightarrow> (u64 \<times> heap_state) option" where
  "u_strndup s n h = (case s of None \<Rightarrow> Some (0, h) | Some t \<Rightarrow> dup_bytes (take n t) h)"

end
