(* ===== verification/Malloc_Ring.thy ===== *)
theory Malloc_Ring
  imports User_Malloc
begin

text \<open>
  The free blocks of the heap of a user program: a ring through the memory itself, in the order of
  the addresses (\<open>chain\<close>, \<open>spaced\<close>).  Headers are 16 bytes apart, so that a store into one leaves
  the others alone.  \<open>insert_block\<close> is what \<^verbatim>\<open>free\<close> does: the scan ends, from any header, at the
  last one below the block, and linking the block in joins it with the neighbours it touches.
\<close>

section \<open>Headers in memory\<close>

text \<open>Two words that do not overlap, low enough that nothing wraps.\<close>

definition word_apart :: "u64 \<Rightarrow> u64 \<Rightarrow> bool" where
  "word_apart a b \<longleftrightarrow> unat a < 2 ^ 63 \<and> unat b < 2 ^ 63 \<and> (unat a + 8 \<le> unat b \<or> unat b + 8 \<le> unat a)"

lemma store64_apply:
  "store64 m a v x = (if unat (x - a) < 8 then le_bytes 8 v ! unat (x - a) else m x)"
  by (simp add: store64_def store_bytes_apply)

lemma load64_cong_bytes: "(\<And>i. i < 8 \<Longrightarrow> m (a + of_nat i) = m' (a + of_nat i)) \<Longrightarrow> load64 m a = load64 m' a"
  unfolding load64_def by (subst load_bytes_cong [of 8 m a m']) simp_all

lemma unat_add_small: "unat a < 2 ^ 63 \<Longrightarrow> i < 2 ^ 63 \<Longrightarrow> unat (a + of_nat i :: u64) = unat a + i"
  by (simp add: unat_plus_if' unat_of_nat)

lemma load64_store64_apart:
  assumes "word_apart a b" shows "load64 (store64 m a v) b = load64 m b"
proof (rule load64_cong_bytes)
  fix i :: nat assume i: "i < 8"
  have u: "unat (b + of_nat i) = unat b + i" using assms i by (intro unat_add_small) (simp_all add: word_apart_def)
  have "\<not> unat (b + of_nat i - a) < 8"
    using assms i u unfolding word_apart_def by (auto simp: unat_sub_if' unsigned_less)
  then show "store64 m a v (b + of_nat i) = m (b + of_nat i)" by (simp add: store64_apply)
qed

lemma in_range:
  fixes x q :: u64
  assumes "unat q + n < 2 ^ 63" shows "unat (x - q) < n \<longleftrightarrow> unat x \<in> {unat q..<unat q + n}"
  using assms by (auto simp: unat_sub_if')

text \<open>Headers: the same, or 16 bytes apart.\<close>

definition hdr_at :: "u64 \<Rightarrow> bool" where "hdr_at a \<longleftrightarrow> unat a < 2 ^ 62"

definition hdr_apart :: "u64 \<Rightarrow> u64 \<Rightarrow> bool" where
  "hdr_apart a b \<longleftrightarrow> hdr_at a \<and> hdr_at b \<and> (unat a + 16 \<le> unat b \<or> unat b + 16 \<le> unat a)"

lemma unat_8: "hdr_at a \<Longrightarrow> unat (a + 8) = unat a + 8"
  using unat_add_small [of a 8] by (simp add: hdr_at_def)

lemma hdr_words:
  assumes "hdr_apart a b"
  shows "word_apart a b" "word_apart a (b + 8)" "word_apart (a + 8) b" "word_apart (a + 8) (b + 8)"
  using assms by (auto simp: hdr_apart_def word_apart_def unat_8, auto simp: hdr_at_def)

lemma hdr_self: "hdr_at a \<Longrightarrow> word_apart a (a + 8) \<and> word_apart (a + 8) a"
  by (auto simp: word_apart_def unat_8, auto simp: hdr_at_def)

lemma hdr_same [simp]:
  "nxt (set_nxt m a v) a = v" "siz (set_siz m a v) a = v"
  "hdr_at a \<Longrightarrow> nxt (set_siz m a v) a = nxt m a" "hdr_at a \<Longrightarrow> siz (set_nxt m a v) a = siz m a"
  using hdr_self [of a] by (auto simp: nxt_def siz_def set_nxt_def set_siz_def load64_store64_apart)

lemma hdr_other:
  assumes "hdr_apart a b"
  shows "nxt (set_nxt m a v) b = nxt m b" "siz (set_siz m a v) b = siz m b"
    "nxt (set_siz m a v) b = nxt m b" "siz (set_nxt m a v) b = siz m b"
  using hdr_words [OF assms] by (simp_all add: nxt_def siz_def set_nxt_def set_siz_def load64_store64_apart)

text \<open>What the stores leave alone.\<close>

lemma set_hdr_bytes:
  assumes "hdr_at a" and "\<not> unat (x - a) < 16"
  shows "set_nxt m a v x = m x" "set_siz m a v x = m x"
proof -
  show "set_nxt m a v x = m x" using assms(2) by (simp add: set_nxt_def store64_apply)
  have "unat (x - (a + 8)) < 8 \<Longrightarrow> unat (x - a) < 16"
  proof -
    assume l: "unat (x - (a + 8)) < 8"
    have "x - a = (x - (a + 8)) + 8" by simp
    moreover have "unat (x - (a + 8) + 8) = unat (x - (a + 8)) + 8" using l unat_plus_if' [of "x - (a + 8)" 8] by simp
    ultimately show "unat (x - a) < 16" using l by simp
  qed
  then show "set_siz m a v x = m x" using assms(2) by (auto simp: set_siz_def store64_apply)
qed

section \<open>The ring of free blocks\<close>

text \<open>From the header at \<open>p\<close> the \<^verbatim>\<open>next\<close> pointers lead through \<open>fs\<close> to \<open>e\<close>.\<close>

type_synonym blk = "u64 \<times> u64"

fun chain :: "mem \<Rightarrow> u64 \<Rightarrow> blk list \<Rightarrow> u64 \<Rightarrow> bool" where
  "chain m p [] e \<longleftrightarrow> nxt m p = e"
| "chain m p ((a, n) # fs) e \<longleftrightarrow> nxt m p = a \<and> siz m a = n \<and> chain m a fs e"

text \<open>The last header of a chain.\<close>

definition last_hdr :: "u64 \<Rightarrow> blk list \<Rightarrow> u64" where "last_hdr p fs = last (p # map fst fs)"

lemma last_hdr_simps [simp]: "last_hdr p [] = p" "last_hdr p (b # fs) = last_hdr (fst b) fs"
  by (auto simp: last_hdr_def)

lemma last_hdr_append [simp]: "last_hdr p (xs @ ys) = last_hdr (last_hdr p xs) ys"
  by (induction xs arbitrary: p) simp_all

lemma last_hdr_in: "last_hdr p fs \<in> insert p (fst ` set fs)"
  using last_in_set [of "p # map fst fs"] by (simp add: last_hdr_def)

lemma chain_append: "chain m p (xs @ ys) e \<longleftrightarrow>
    chain m p xs (nxt m (last_hdr p xs)) \<and> chain m (last_hdr p xs) ys e"
proof (induction xs arbitrary: p)
  case (Cons b xs)
  then show ?case by (cases b) simp
qed simp

lemma chain_end: "chain m p fs e \<Longrightarrow> nxt m (last_hdr p fs) = e"
  by (induction fs arbitrary: p) auto

lemma chain_join:
  "chain m p xs a \<Longrightarrow> siz m a = n \<Longrightarrow> chain m a ys e \<Longrightarrow> chain m p (xs @ (a, n) # ys) e"
  using chain_end [of m p xs a] by (simp add: chain_append)

lemma chain_split:
  assumes "chain m p (xs @ (a, n) # ys) e"
  shows "chain m p xs a" "siz m a = n" "chain m a ys e" "nxt m (last_hdr p xs) = a"
  using assms unfolding chain_append chain.simps by auto

lemma heap_chain_cong:
  "(\<And>a. a \<in> insert p (fst ` set fs) \<Longrightarrow> nxt m' a = nxt m a) \<Longrightarrow> (\<And>a. a \<in> fst ` set fs \<Longrightarrow> siz m' a = siz m a) \<Longrightarrow>
   chain m' p fs e \<longleftrightarrow> chain m p fs e"
proof (induction fs arbitrary: p)
  case Nil
  then show ?case by simp
next
  case (Cons b fs)
  obtain a n where b: "b = (a, n)" by (cases b)
  have "chain m' a fs e \<longleftrightarrow> chain m a fs e" using Cons.prems b by (intro Cons.IH) auto
  moreover have "nxt m' p = nxt m p" "siz m' a = siz m a" using Cons.prems b by auto
  ultimately show ?case by (simp add: b)
qed

text \<open>A chain whose last \<^verbatim>\<open>next\<close> pointer may change.\<close>

lemma chain_butlast_cong:
  "(\<And>a. a \<in> insert p (fst ` set fs) \<Longrightarrow> a \<noteq> last_hdr p fs \<Longrightarrow> nxt m' a = nxt m a) \<Longrightarrow>
   (\<And>a. a \<in> fst ` set fs \<Longrightarrow> siz m' a = siz m a) \<Longrightarrow> distinct (p # map fst fs) \<Longrightarrow>
   chain m p fs e \<Longrightarrow> chain m' p fs (nxt m' (last_hdr p fs))"
proof (induction fs arbitrary: p)
  case Nil
  then show ?case by simp
next
  case (Cons b fs)
  obtain a n where b: "b = (a, n)" by (cases b)
  have "last_hdr a fs \<in> insert a (fst ` set fs)" by (rule last_hdr_in)
  then have "p \<noteq> last_hdr a fs" using Cons.prems(3) b by auto
  moreover have "chain m' a fs (nxt m' (last_hdr a fs))"
    using Cons.prems b by (intro Cons.IH) auto
  ultimately show ?case using Cons.prems b by auto
qed

section \<open>Blocks in order\<close>

definition blk_end :: "blk \<Rightarrow> nat" where "blk_end b = unat (fst b) + 16 * unat (snd b)"
definition span :: "blk \<Rightarrow> nat set" where "span b = {unat (fst b)..<blk_end b}"
definition cover :: "blk list \<Rightarrow> nat set" where "cover fs = (\<Union>b\<in>set fs. span b)"

lemma cover_simps [simp]: "cover [] = {}" "cover (b # fs) = span b \<union> cover fs" "cover (xs @ ys) = cover xs \<union> cover ys"
  by (auto simp: cover_def)

lemma span_apart:
  "0 < unat (snd b) \<Longrightarrow> 0 < unat (snd c) \<Longrightarrow>
   span b \<inter> span c = {} \<longleftrightarrow> blk_end b \<le> unat (fst c) \<or> blk_end c \<le> unat (fst b)"
  by (auto simp: span_def blk_end_def disjoint_iff Bex_def)

text \<open>Between \<open>lo\<close> and \<open>hi\<close>, a gap before every block.\<close>

fun spaced :: "nat \<Rightarrow> blk list \<Rightarrow> nat \<Rightarrow> bool" where
  "spaced lo [] hi \<longleftrightarrow> lo \<le> hi"
| "spaced lo (b # fs) hi \<longleftrightarrow> lo < unat (fst b) \<and> 0 < unat (snd b) \<and> spaced (blk_end b) fs hi"

fun ends :: "nat \<Rightarrow> blk list \<Rightarrow> nat" where
  "ends lo [] = lo"
| "ends lo (b # fs) = ends (blk_end b) fs"

lemma spaced_append: "spaced lo (xs @ ys) hi \<longleftrightarrow> spaced lo xs (ends lo xs) \<and> spaced (ends lo xs) ys hi"
  by (induction xs arbitrary: lo) auto

lemma ends_append [simp]: "ends lo (xs @ ys) = ends (ends lo xs) ys"
  by (induction xs arbitrary: lo) auto

lemma spaced_bounds: "spaced lo fs hi \<Longrightarrow> lo \<le> ends lo fs \<and> ends lo fs \<le> hi"
proof (induction fs arbitrary: lo)
  case (Cons b fs)
  then have "blk_end b \<le> ends (blk_end b) fs \<and> ends (blk_end b) fs \<le> hi" by simp
  then show ?case using Cons.prems by (simp add: blk_end_def)
qed simp

lemma spaced_mem: "spaced lo fs hi \<Longrightarrow> b \<in> set fs \<Longrightarrow> lo < unat (fst b) \<and> 0 < unat (snd b) \<and> blk_end b \<le> ends lo fs"
proof (induction fs arbitrary: lo)
  case (Cons c fs)
  show ?case
  proof (cases "b = c")
    case True
    then show ?thesis using Cons.prems(1) spaced_bounds [of "blk_end c" fs hi] by simp
  next
    case False
    then have "b \<in> set fs" and "spaced (blk_end c) fs hi" using Cons.prems by simp_all
    then have "blk_end c < unat (fst b) \<and> 0 < unat (snd b) \<and> blk_end b \<le> ends (blk_end c) fs"
      using Cons.IH by blast
    then show ?thesis using Cons.prems(1) by (simp add: blk_end_def)
  qed
qed simp

lemma spaced_weaken: "spaced lo fs hi \<Longrightarrow> lo' \<le> lo \<Longrightarrow> hi \<le> hi' \<Longrightarrow> spaced lo' fs hi'"
  by (induction fs arbitrary: lo lo') fastforce+

text \<open>A block put before others; they become one when nothing is between.\<close>

fun join :: "blk \<Rightarrow> blk list \<Rightarrow> blk list" where
  "join b [] = [b]"
| "join b (c # cs) = (if fst b + 16 * snd b = fst c then (fst b, snd b + snd c) # cs else b # c # cs)"

definition glue :: "blk list \<Rightarrow> blk \<Rightarrow> blk list \<Rightarrow> blk list" where
  "glue xs b ys = (if xs = [] then join b ys else butlast xs @ join (last xs) (join b ys))"

text \<open>Blocks that may follow directly at \<open>c\<close>.\<close>

fun fits :: "nat \<Rightarrow> blk list \<Rightarrow> nat \<Rightarrow> bool" where
  "fits c [] hi \<longleftrightarrow> c \<le> hi"
| "fits c (b # fs) hi \<longleftrightarrow> c \<le> unat (fst b) \<and> 0 < unat (snd b) \<and> spaced (blk_end b) fs hi"

lemma spaced_fits: "spaced lo fs hi \<Longrightarrow> c \<le> lo \<Longrightarrow> fits c fs hi"
  by (cases fs) auto

lemma fits_bound: "fits c fs hi \<Longrightarrow> c \<le> hi"
  using spaced_bounds by (cases fs) (fastforce simp: blk_end_def)+

lemma unat_add_blk:
  assumes "blk_end b < 2 ^ 62"
  shows "unat (fst b + 16 * snd b) = blk_end b"
proof -
  have "unat (16 * snd b) = 16 * unat (snd b)" using assms by (simp add: blk_end_def unat_mult_lem [THEN iffD1])
  then show ?thesis using assms by (simp add: blk_end_def unat_plus_if')
qed

lemma unat_add_snd:
  assumes "blk_end c < 2 ^ 62" and "blk_end b = unat (fst c)"
  shows "unat (snd b + snd c) = unat (snd b) + unat (snd c)" "blk_end (fst b, snd b + snd c) = blk_end c"
proof -
  show u: "unat (snd b + snd c) = unat (snd b) + unat (snd c)"
    using assms by (simp add: blk_end_def unat_plus_if')
  show "blk_end (fst b, snd b + snd c) = blk_end c" using assms by (simp add: blk_end_def u)
qed

lemma join_spaced:
  assumes "lo < unat (fst b)" and "0 < unat (snd b)" and "fits (blk_end b) fs hi" and "hi < 2 ^ 62"
  shows "spaced lo (join b fs) hi" and "cover (join b fs) = span b \<union> cover fs" and
    "fits (unat (fst b)) (join b fs) hi"
proof -
  have bh: "blk_end b < 2 ^ 62" using fits_bound [OF assms(3)] assms(4) by linarith
  have "spaced lo (join b fs) hi \<and> cover (join b fs) = span b \<union> cover fs \<and> fits (unat (fst b)) (join b fs) hi"
  proof (cases fs)
    case Nil
    then show ?thesis using assms by simp
  next
    case (Cons c cs)
    have c: "blk_end b \<le> unat (fst c)" "0 < unat (snd c)" "spaced (blk_end c) cs hi" using assms(3) Cons by simp_all
    have ch: "blk_end c < 2 ^ 62" using spaced_bounds [OF c(3)] assms(4) by linarith
    show ?thesis
    proof (cases "fst b + 16 * snd b = fst c")
      case True
      then have e: "blk_end b = unat (fst c)" using unat_add_blk [OF bh] by simp
      note u = unat_add_snd [OF ch e]
      have "span (fst b, snd b + snd c) = span b \<union> span c"
        using u(2) e by (auto simp: span_def) (auto simp: blk_end_def)
      then show ?thesis using True Cons assms c u by (simp add: Un_assoc)
    next
      case False
      then have "blk_end b \<noteq> unat (fst c)" using unat_add_blk [OF bh] by (auto simp: word_unat_eq_iff)
      then show ?thesis using False Cons assms c by simp
    qed
  qed
  then show "spaced lo (join b fs) hi" and "cover (join b fs) = span b \<union> cover fs" and
    "fits (unat (fst b)) (join b fs) hi" by simp_all
qed

lemma glue_spaced:
  assumes "spaced lo xs (ends lo xs)" and "ends lo xs \<le> unat (fst b)" and "lo < unat (fst b)" and "0 < unat (snd b)"
    and "fits (blk_end b) ys hi" and "hi < 2 ^ 62"
  shows "spaced lo (glue xs b ys) hi \<and> cover (glue xs b ys) = cover xs \<union> span b \<union> cover ys"
proof (cases xs rule: rev_cases)
  case Nil
  then show ?thesis using join_spaced [OF assms(3-6)] by (simp add: glue_def)
next
  case (snoc zs l)
  have z: "spaced lo zs (ends lo zs)" "ends lo zs < unat (fst l)" "0 < unat (snd l)" "blk_end l \<le> unat (fst b)"
    using assms(1,2) snoc by (simp_all add: spaced_append)
  have "fits (unat (fst b)) (join b ys) hi" by (rule join_spaced(3) [OF assms(3-6)])
  then have f: "fits (blk_end l) (join b ys) hi" using z(4) by (cases "join b ys") auto
  show ?thesis using join_spaced [OF z(2,3) f assms(6)] join_spaced(2) [OF assms(3-6)] z snoc
    by (auto simp: glue_def spaced_append)
qed

section \<open>Where a block belongs\<close>

lemma free_scan_up:
  "chain m p (xs @ ys) e \<Longrightarrow> p < bp \<Longrightarrow> \<forall>b\<in>set xs. fst b < bp \<Longrightarrow> sorted_wrt (<) (p # map fst xs) \<Longrightarrow>
   (case ys of [] \<Rightarrow> e \<le> last_hdr p xs | y # _ \<Rightarrow> bp < fst y) \<Longrightarrow> free_scan m bp p = Some (last_hdr p xs)"
proof (induction xs arbitrary: p)
  case Nil
  then show ?case by (subst free_scan.simps) (auto split: list.splits)
next
  case (Cons x xs)
  have n: "nxt m p = fst x" using Cons.prems(1) by (cases x) simp
  have x: "fst x < bp" "p < fst x" using Cons.prems by simp_all
  have "free_scan m bp p = free_scan m bp (fst x)"
    using n x by (subst free_scan.simps) auto
  also have "\<dots> = Some (last_hdr (fst x) xs)"
    using Cons.prems by (intro Cons.IH) (cases x, auto split: list.splits)
  finally show ?case by simp
qed

lemma free_scan_wrap:
  "chain m p ys e \<Longrightarrow> bp < p \<Longrightarrow> sorted_wrt (<) (p # map fst ys) \<Longrightarrow> e < bp \<Longrightarrow> free_scan m bp p = free_scan m bp e"
proof (induction ys arbitrary: p)
  case Nil
  then show ?case by (subst free_scan.simps) auto
next
  case (Cons y ys)
  have n: "nxt m p = fst y" using Cons.prems(1) by (cases y) simp
  have x: "bp < fst y" "p < fst y" using Cons.prems by auto
  have "free_scan m bp p = free_scan m bp (fst y)"
    using n x Cons.prems(2) by (subst free_scan.simps) auto
  also have "\<dots> = free_scan m bp e" using Cons.prems x by (intro Cons.IH) (cases y, auto)
  finally show ?case .
qed

lemma spaced_sorted: "spaced lo fs hi \<Longrightarrow> unat p \<le> lo \<Longrightarrow> sorted_wrt (<) (p # map fst fs)"
proof (induction fs arbitrary: lo p)
  case (Cons b fs)
  have "sorted_wrt (<) (fst b # map fst fs)"
    using Cons.prems by (intro Cons.IH [of "blk_end b"]) (auto simp: blk_end_def)
  moreover have "p < fst b" using Cons.prems by (simp add: word_less_nat_alt)
  ultimately show ?case by auto
qed simp

lemma sorted_wrt_parts: "sorted_wrt (<) (p # map fst (xs @ (s, k) # ys)) \<Longrightarrow> sorted_wrt (<) (s # map fst ys)"
  by (simp add: sorted_wrt_append)

text \<open>From any header of the ring the scan ends at the last one below the block.\<close>

lemma free_scan_ring:
  assumes ring: "chain m base (xs @ ys) base" and sp: "spaced (unat base) (xs @ ys) hi" and b: "base < bp"
    and below: "\<forall>b\<in>set xs. fst b < bp" and above: "\<forall>b\<in>set ys. bp < fst b"
    and s: "s \<in> insert base (fst ` set (xs @ ys))"
  shows "free_scan m bp s = Some (last_hdr base xs)"
proof -
  note sorted = spaced_sorted [OF sp le_refl]
  have tail: "case ys of [] \<Rightarrow> base \<le> last_hdr q zs | y # _ \<Rightarrow> bp < fst y"
    if "sorted_wrt (<) (q # map fst zs)" "base \<le> q" for q zs
    using that above last_hdr_in [of q zs] by (auto split: list.splits)
  have from_base: "free_scan m bp base = Some (last_hdr base xs)"
    using sorted by (intro free_scan_up [OF ring b below] tail) (auto simp: sorted_wrt_append)
  consider "s = base" | "s \<in> fst ` set xs" | "s \<in> fst ` set ys" using s by auto
  then show ?thesis
  proof cases
    case 1
    then show ?thesis using from_base by simp
  next
    case 2
    then obtain k us vs where x: "xs = us @ (s, k) # vs" by (auto dest: split_list)
    have c: "chain m s (vs @ ys) base" using ring unfolding x by (simp add: chain_append)
    have sb: "s < bp" "base \<le> s" using below x sorted by auto
    have so: "sorted_wrt (<) (s # map fst vs)" using sorted x by (auto simp: sorted_wrt_append)
    have "free_scan m bp s = Some (last_hdr s vs)"
      using below x so sb by (intro free_scan_up [OF c sb(1)] tail) auto
    then show ?thesis using x by simp
  next
    case 3
    then obtain k us vs where y: "ys = us @ (s, k) # vs" by (auto dest: split_list)
    have c: "chain m s vs base" using ring unfolding y by (simp add: chain_append)
    have sb: "bp < s" using above y by auto
    have so: "sorted_wrt (<) (s # map fst vs)" using sorted y by (auto simp: sorted_wrt_append)
    show ?thesis using free_scan_wrap [OF c sb so b] from_base by simp
  qed
qed

text \<open>Where a block lies that no free block overlaps.\<close>

lemma spaced_place:
  "spaced lo fs hi \<Longrightarrow> lo \<le> unat (fst b) \<Longrightarrow> 0 < unat (snd b) \<Longrightarrow> blk_end b \<le> hi \<Longrightarrow> span b \<inter> cover fs = {} \<Longrightarrow>
   \<exists>xs ys. fs = xs @ ys \<and> ends lo xs \<le> unat (fst b) \<and> fits (blk_end b) ys hi"
proof (induction fs arbitrary: lo)
  case Nil
  then show ?case by simp
next
  case (Cons c fs)
  have "span b \<inter> span c = {}" using Cons.prems(5) by auto
  then consider "blk_end b \<le> unat (fst c)" | "blk_end c \<le> unat (fst b)"
    using span_apart [of b c] Cons.prems by auto
  then show ?case
  proof cases
    case 1
    then show ?thesis using Cons.prems by (intro exI [of _ "[]"] exI [of _ "c # fs"]) auto
  next
    case 2
    have "span b \<inter> cover fs = {}" using Cons.prems(5) by auto
    then obtain xs ys where "fs = xs @ ys" "ends (blk_end c) xs \<le> unat (fst b)" "fits (blk_end b) ys hi"
      using Cons.IH [OF _ 2 Cons.prems(3,4)] Cons.prems(1) by auto
    then show ?thesis by (intro exI [of _ "c # xs"] exI [of _ ys]) simp
  qed
qed

section \<open>Linking a block in\<close>

lemma hdr_apart_sym: "hdr_apart a b \<Longrightarrow> hdr_apart b a"
  by (auto simp: hdr_apart_def)

text \<open>Blocks one behind the other, whether they touch or not.\<close>

definition ordered :: "blk list \<Rightarrow> bool" where
  "ordered = sorted_wrt (\<lambda>b c. blk_end b \<le> unat (fst c))"

lemma spaced_ordered: "spaced lo fs hi \<Longrightarrow> ordered fs"
proof (induction fs arbitrary: lo)
  case (Cons b fs)
  have s: "spaced (blk_end b) fs hi" using Cons.prems by simp
  then show ?case using Cons.IH [OF s] spaced_mem [OF s] by (auto simp: ordered_def intro: less_imp_le)
qed (simp add: ordered_def)

lemma fits_mem: "fits c fs hi \<Longrightarrow> b \<in> set fs \<Longrightarrow> c \<le> unat (fst b) \<and> 0 < unat (snd b) \<and> blk_end b \<le> hi"
proof (cases fs)
  case (Cons a gs)
  assume f: "fits c fs hi" "b \<in> set fs"
  then have g: "spaced (blk_end a) gs hi" "c \<le> unat (fst a)" "0 < unat (snd a)" using Cons by simp_all
  show ?thesis
  proof (cases "b = a")
    case True
    then show ?thesis using g spaced_bounds [OF g(1)] by simp
  next
    case False
    then have "blk_end a < unat (fst b) \<and> 0 < unat (snd b) \<and> blk_end b \<le> ends (blk_end a) gs"
      using f Cons by (intro spaced_mem [OF g(1)]) simp
    then show ?thesis using g spaced_bounds [OF g(1)] by (simp add: blk_end_def)
  qed
qed simp

lemma fits_ordered: "fits c fs hi \<Longrightarrow> ordered fs"
proof (cases fs)
  case (Cons a gs)
  assume "fits c fs hi"
  then have g: "spaced (blk_end a) gs hi" using Cons by simp
  then show ?thesis using spaced_ordered [OF g] spaced_mem [OF g] Cons
    by (auto simp: ordered_def intro: less_imp_le)
qed (simp add: ordered_def)

lemma ordered_apart:
  assumes "ordered fs" and "hdr_at p"
    and "\<And>b. b \<in> set fs \<Longrightarrow> 0 < unat (snd b) \<and> blk_end b < 2 ^ 62 \<and> unat p + 16 \<le> unat (fst b)"
  shows "sorted_wrt hdr_apart (p # map fst fs)"
proof -
  have at: "hdr_at (fst b) \<and> unat (fst b) + 16 \<le> blk_end b" if "b \<in> set fs" for b
    using assms(3) [OF that] by (simp add: hdr_at_def blk_end_def)
  have "sorted_wrt (\<lambda>b c. hdr_apart (fst b) (fst c)) fs"
  proof (rule sorted_wrt_mono_rel [OF _ assms(1) [unfolded ordered_def]])
    fix b c assume "b \<in> set fs" "c \<in> set fs" "blk_end b \<le> unat (fst c)"
    then show "hdr_apart (fst b) (fst c)" using at [of b] at [of c] by (simp add: hdr_apart_def)
  qed
  moreover have "hdr_apart p (fst b)" if "b \<in> set fs" for b
    using assms(2) assms(3) [OF that] at [OF that] by (simp add: hdr_apart_def)
  ultimately show ?thesis by (simp add: sorted_wrt_map)
qed

lemma chain_move:
  "chain m p fs e \<Longrightarrow> nxt m' q = nxt m p \<Longrightarrow> \<forall>b\<in>set fs. nxt m' (fst b) = nxt m (fst b) \<and> siz m' (fst b) = siz m (fst b) \<Longrightarrow>
   chain m' q fs e"
proof (cases fs)
  case (Cons b gs)
  assume c: "chain m p fs e" "nxt m' q = nxt m p" "\<forall>b\<in>set fs. nxt m' (fst b) = nxt m (fst b) \<and> siz m' (fst b) = siz m (fst b)"
  have "chain m' (fst b) gs e \<longleftrightarrow> chain m (fst b) gs e" using c(3) Cons by (intro heap_chain_cong) auto
  then show ?thesis using c Cons by (cases b) auto
qed simp

lemma link_right_ok:
  assumes c: "chain m p ys base" and n: "siz m bp = n" and p: "hdr_apart bp p"
    and ys: "\<forall>b\<in>set ys. hdr_apart bp (fst b)" and e: "bp + 16 * n \<noteq> base"
  shows "\<exists>n1 zs. join (bp, n) ys = (bp, n1) # zs \<and> (zs = ys \<or> zs = tl ys) \<and> chain (link_right bp p m) bp zs base \<and>
    siz (link_right bp p m) bp = n1 \<and>
    (\<forall>a. hdr_apart bp a \<longrightarrow> nxt (link_right bp p m) a = nxt m a \<and> siz (link_right bp p m) a = siz m a)"
proof -
  have bp: "hdr_at bp" using p by (simp add: hdr_apart_def)
  note o = hdr_other
  show ?thesis
  proof (cases "ys \<noteq> [] \<and> bp + 16 * n = fst (hd ys)")
    case True
    then obtain b k cs where y: "ys = (b, k) # cs" "bp + 16 * n = b" by (cases ys) auto
    have nx: "nxt m p = b" "siz m b = k" "chain m b cs base" using c y by simp_all
    have ab: "hdr_apart bp b" using ys y by simp
    have l: "link_right bp p m = set_nxt (set_siz m bp (n + k)) bp (nxt m b)"
      using y(2) nx by (simp add: link_right_def n Let_def o [OF p] o [OF ab])
    have fr: "nxt (link_right bp p m) a = nxt m a \<and> siz (link_right bp p m) a = siz m a" if "hdr_apart bp a" for a
      unfolding l by (simp add: o [OF that])
    have "chain (link_right bp p m) bp cs base"
      using y ys fr by (intro chain_move [OF nx(3)]) (auto simp: l)
    then show ?thesis using y fr bp l by (intro exI [of _ "n + k"] exI [of _ cs]) auto
  next
    case False
    have "nxt m p = (if ys = [] then base else fst (hd ys))" using c by (cases ys) auto
    then have "bp + 16 * n \<noteq> nxt m p" using False e by auto
    then have l: "link_right bp p m = set_nxt m bp (nxt m p)" by (simp add: link_right_def n)
    have fr: "nxt (link_right bp p m) a = nxt m a \<and> siz (link_right bp p m) a = siz m a" if "hdr_apart bp a" for a
      unfolding l by (simp add: o [OF that])
    have "chain (link_right bp p m) bp ys base" using ys fr by (intro chain_move [OF c]) (auto simp: l)
    moreover have "join (bp, n) ys = (bp, n) # ys" using False by (cases ys) auto
    ultimately show ?thesis using fr bp l n by (intro exI [of _ n] exI [of _ ys]) auto
  qed
qed

lemma link_left_ok:
  assumes c: "chain m base xs q" and z: "chain m bp zs base" and n: "siz m bp = n" and b0: "siz m base = 0"
    and ap: "sorted_wrt hdr_apart (base # map fst xs @ bp # map fst zs)"
  shows "chain (link_left bp (last_hdr base xs) m) base (if xs = [] then (bp, n) # zs else butlast xs @ join (last xs) ((bp, n) # zs)) base \<and>
    siz (link_left bp (last_hdr base xs) m) base = 0 \<and>
    (\<forall>a. hdr_apart bp a \<and> hdr_apart (last_hdr base xs) a \<longrightarrow>
      nxt (link_left bp (last_hdr base xs) m) a = nxt m a \<and> siz (link_left bp (last_hdr base xs) m) a = siz m a)"
proof (cases xs rule: rev_cases)
  case Nil
  have bb: "hdr_apart base bp" "hdr_at base" using ap Nil by (auto simp: hdr_apart_def)
  then have ne: "base \<noteq> bp" by (auto simp: hdr_apart_def)
  have l: "link_left bp base m = set_nxt m base bp" using ne by (simp add: link_left_def b0)
  have fr: "nxt (link_left bp base m) a = nxt m a \<and> siz (link_left bp base m) a = siz m a" if "hdr_apart base a" for a
    unfolding l by (simp add: hdr_other [OF that])
  have "chain (link_left bp base m) bp zs base"
    using ap Nil fr bb by (intro chain_move [OF z]) auto
  then show ?thesis using Nil fr bb n b0 by (auto simp: l)
next
  case (snoc ws b)
  obtain p k where b: "b = (p, k)" by (cases b)
  have p: "last_hdr base xs = p" using snoc b by simp
  have cw: "chain m base ws p" "siz m p = k" using c snoc b chain_end by (auto simp: chain_append)
  have ws: "hdr_apart p a" if "a \<in> insert base (fst ` set ws)" for a
    using ap snoc b that by (auto simp: sorted_wrt_append intro: hdr_apart_sym)
  have pb: "hdr_apart p bp" "hdr_at p" using ap snoc b by (auto simp: sorted_wrt_append hdr_apart_def)
  have zs: "hdr_apart p a" if "a \<in> fst ` set zs" for a using ap snoc b that by (auto simp: sorted_wrt_append)
  show ?thesis
  proof (cases "p + 16 * k = bp")
    case True
    have l: "link_left bp p m = set_nxt (set_siz m p (k + n)) p (nxt m bp)"
      using True by (simp add: link_left_def cw(2) n Let_def hdr_other [OF pb(1)])
    have fr: "nxt (link_left bp p m) a = nxt m a \<and> siz (link_left bp p m) a = siz m a" if "hdr_apart p a" for a
      unfolding l by (simp add: hdr_other [OF that])
    have "chain (link_left bp p m) base ws p"
      using fr ws by (intro iffD2 [OF heap_chain_cong cw(1)]) auto
    moreover have "chain (link_left bp p m) p zs base"
      using zs fr pb by (intro chain_move [OF z]) (auto simp: l)
    moreover have "siz (link_left bp p m) base = 0" using fr [OF ws [of base]] b0 by simp
    moreover have "siz (link_left bp p m) p = k + n" using pb by (simp add: l)
    ultimately have "chain (link_left bp p m) base (ws @ (p, k + n) # zs) base \<and> siz (link_left bp p m) base = 0"
      using chain_join by blast
    then show ?thesis using True fr snoc b p by simp
  next
    case False
    have l: "link_left bp p m = set_nxt m p bp"
      using False by (simp add: link_left_def cw(2))
    have fr: "nxt (link_left bp p m) a = nxt m a \<and> siz (link_left bp p m) a = siz m a" if "hdr_apart p a" for a
      unfolding l by (simp add: hdr_other [OF that])
    have "chain (link_left bp p m) base ws p"
      using fr ws by (intro iffD2 [OF heap_chain_cong cw(1)]) auto
    moreover have "chain (link_left bp p m) bp zs base"
      using zs fr pb by (intro chain_move [OF z]) auto
    moreover have "siz (link_left bp p m) base = 0" using fr [OF ws [of base]] b0 by simp
    moreover have "siz (link_left bp p m) p = k" "nxt (link_left bp p m) p = bp" using pb cw(2) by (simp_all add: l)
    moreover have "siz (link_left bp p m) bp = n" using fr [OF pb(1)] n by simp
    ultimately have "chain (link_left bp p m) base (ws @ (p, k) # (bp, n) # zs) base \<and> siz (link_left bp p m) base = 0"
      by (intro conjI chain_join) simp_all
    then show ?thesis using False fr snoc b p by simp
  qed
qed

lemma link_bytes:
  assumes "hdr_at bp" and "hdr_at p" and "unat x \<notin> {unat bp..<unat bp + 16}" and "unat x \<notin> {unat p..<unat p + 16}"
  shows "link_left bp p (link_right bp p m) x = m x"
proof -
  have b: "\<not> unat (x - a) < 16" if "hdr_at a" "unat x \<notin> {unat a..<unat a + 16}" for a
    using that by (auto simp: hdr_at_def unat_sub_if')
  note f = set_hdr_bytes [OF assms(1) b [OF assms(1,3)]] set_hdr_bytes [OF assms(2) b [OF assms(2,4)]]
  show ?thesis by (simp add: link_left_def link_right_def Let_def f)
qed

section \<open>The heap\<close>

text \<open>The free blocks, in the ring through \<open>base\<close>.\<close>

definition ring_ok :: "mem \<Rightarrow> u64 \<Rightarrow> blk list \<Rightarrow> nat \<Rightarrow> nat \<Rightarrow> bool" where
  "ring_ok m base fs hs hi \<longleftrightarrow> chain m base fs base \<and> siz m base = 0 \<and> spaced (unat base) fs hi \<and>
     (\<forall>b\<in>set fs. hs \<le> unat (fst b)) \<and> unat base + 16 \<le> hs \<and> hs \<le> hi \<and> hi < 2 ^ 62"

text \<open>The blocks in use, with their sizes in units.\<close>

definition used_ok :: "mem \<Rightarrow> blk list \<Rightarrow> (u64 \<Rightarrow> u64 option) \<Rightarrow> nat \<Rightarrow> nat \<Rightarrow> bool" where
  "used_ok m fs w hs hi \<longleftrightarrow>
     (\<forall>a n. w a = Some n \<longrightarrow> hs \<le> unat a \<and> 0 < unat n \<and> blk_end (a, n) \<le> hi \<and> siz m a = n \<and> span (a, n) \<inter> cover fs = {}) \<and>
     (\<forall>a n b k. w a = Some n \<longrightarrow> w b = Some k \<longrightarrow> a \<noteq> b \<longrightarrow> span (a, n) \<inter> span (b, k) = {})"

lemma used_okD:
  assumes "used_ok m fs w hs hi" and "w a = Some n"
  shows "hs \<le> unat a" "0 < unat n" "blk_end (a, n) \<le> hi" "siz m a = n" "span (a, n) \<inter> cover fs = {}"
    "w b = Some k \<Longrightarrow> a \<noteq> b \<Longrightarrow> span (a, n) \<inter> span (b, k) = {}"
  using assms unfolding used_ok_def by blast+

lemma hdr_in_span: "0 < unat (snd b) \<Longrightarrow> {unat (fst b)..<unat (fst b) + 16} \<subseteq> span b"
  by (auto simp: span_def blk_end_def)

lemma glue_hdrs:
  "insert base (fst ` set (glue xs b ys)) \<subseteq> insert base (fst ` set (xs @ b # ys)) \<and>
   last_hdr base xs \<in> insert base (fst ` set (glue xs b ys))"
proof -
  have j: "fst ` set (join b ys) \<subseteq> fst ` set (b # ys) \<and> fst b \<in> fst ` set (join b ys)" for b ys by (cases ys) auto
  show ?thesis
  proof (cases xs rule: rev_cases)
    case Nil
    then show ?thesis using j [of b ys] by (auto simp: glue_def)
  next
    case (snoc ws l)
    then show ?thesis using j [of l "join b ys"] j [of b ys] by (auto simp: glue_def)
  qed
qed

text \<open>The place of a block that is given back: what is known of the blocks around it.\<close>

lemma place_block:
  assumes r: "ring_ok m base fs hs hi" and u: "used_ok m fs w hs hi" and b: "w bp = Some n"
    and s: "s \<in> insert base (fst ` set fs)"
  shows "\<exists>xs ys. fs = xs @ ys \<and> spaced (unat base) xs (ends (unat base) xs) \<and> ends (unat base) xs \<le> unat bp \<and>
    fits (blk_end (bp, n)) ys hi \<and> free_scan m bp s = Some (last_hdr base xs) \<and>
    sorted_wrt hdr_apart (base # map fst (xs @ (bp, n) # ys))"
proof -
  note bo = used_okD [OF u b]
  have ring: "chain m base fs base" "siz m base = 0" "spaced (unat base) fs hi" "unat base + 16 \<le> hs" "hs \<le> hi" "hi < 2 ^ 62"
    and lohs: "\<forall>b\<in>set fs. hs \<le> unat (fst b)" using r by (simp_all add: ring_ok_def)
  obtain xs ys where fs: "fs = xs @ ys" "ends (unat base) xs \<le> unat bp" "fits (blk_end (bp, n)) ys hi"
    using spaced_place [OF ring(3), of "(bp, n)"] bo ring(4) by auto
  have sx: "spaced (unat base) xs (ends (unat base) xs)" using ring(3) fs(1) by (simp add: spaced_append)
  have bn: "unat base < unat bp" "base < bp" using bo(1) ring(4) by (simp_all add: word_less_nat_alt)
  have xs: "0 < unat (snd b) \<and> blk_end b \<le> unat bp" if "b \<in> set xs" for b
    using spaced_mem [OF sx that] fs(2) by linarith
  have ys: "blk_end (bp, n) \<le> unat (fst b) \<and> 0 < unat (snd b) \<and> blk_end b \<le> hi" if "b \<in> set ys" for b
    using fits_mem [OF fs(3) that] .
  have scan: "free_scan m bp s = Some (last_hdr base xs)"
  proof (rule free_scan_ring [OF _ _ bn(2), of m xs ys hi])
    show "chain m base (xs @ ys) base" "spaced (unat base) (xs @ ys) hi" "s \<in> insert base (fst ` set (xs @ ys))"
      using ring fs s by auto
    show "\<forall>b\<in>set xs. fst b < bp"
    proof
      fix b assume "b \<in> set xs"
      then show "fst b < bp" using xs [of b] by (simp add: word_less_nat_alt blk_end_def)
    qed
    show "\<forall>b\<in>set ys. bp < fst b"
    proof
      fix b assume "b \<in> set ys"
      then show "bp < fst b" using ys [of b] bo(2) by (simp add: word_less_nat_alt blk_end_def)
    qed
  qed
  have at: "hdr_at base" "hdr_at bp" using ring bo(3) by (auto simp: hdr_at_def blk_end_def)
  have "ordered (xs @ (bp, n) # ys)"
    using spaced_ordered [OF sx] fits_ordered [OF fs(3)] xs ys bo(2)
    unfolding ordered_def sorted_wrt_append by (fastforce simp: blk_end_def)
  then have ap: "sorted_wrt hdr_apart (base # map fst (xs @ (bp, n) # ys))"
  proof (rule ordered_apart [OF _ at(1)])
    fix b assume "b \<in> set (xs @ (bp, n) # ys)"
    then consider "b \<in> set xs" | "b = (bp, n)" | "b \<in> set ys" by auto
    then show "0 < unat (snd b) \<and> blk_end b < 2 ^ 62 \<and> unat base + 16 \<le> unat (fst b)"
    proof cases
      case 1
      then show ?thesis using xs [OF 1] lohs fs(1) ring bo(3) by (force simp: blk_end_def)
    next
      case 2
      then show ?thesis using bo ring by simp
    next
      case 3
      then show ?thesis using ys [OF 3] lohs fs(1) ring by force
    qed
  qed
  show ?thesis using fs sx scan ap by blast
qed

lemma insert_block:
  assumes r: "ring_ok m base fs hs hi" and u: "used_ok m fs w hs hi" and b: "w bp = Some n"
    and s: "s \<in> insert base (fst ` set fs)"
  shows "\<exists>p fs' m'. free_scan m bp s = Some p \<and> m' = link_left bp p (link_right bp p m) \<and>
    p \<in> insert base (fst ` set fs') \<and> ring_ok m' base fs' hs hi \<and> cover fs' = cover fs \<union> span (bp, n) \<and>
    used_ok m' fs' (w(bp := None)) hs hi \<and>
    (\<forall>a k x. w a = Some k \<longrightarrow> a \<noteq> bp \<longrightarrow> unat x \<in> span (a, k) \<longrightarrow> m' x = m x)"
proof -
  note bo = used_okD [OF u b]
  have ring: "chain m base fs base" "siz m base = 0" "unat base + 16 \<le> hs" "hs \<le> hi" "hi < 2 ^ 62"
    and sp: "spaced (unat base) fs hi" and lohs: "\<forall>b\<in>set fs. hs \<le> unat (fst b)" using r by (simp_all add: ring_ok_def)
  obtain xs ys where fs: "fs = xs @ ys" and sx: "spaced (unat base) xs (ends (unat base) xs)"
    and pl: "ends (unat base) xs \<le> unat bp" "fits (blk_end (bp, n)) ys hi"
    and scan: "free_scan m bp s = Some (last_hdr base xs)"
    and ap: "sorted_wrt hdr_apart (base # map fst (xs @ (bp, n) # ys))"
    using place_block [OF r u b s] by blast
  define p where "p = last_hdr base xs"
  define m1 where "m1 = link_right bp p m"
  define m' where "m' = link_left bp p m1"
  have pin: "p \<in> insert base (fst ` set xs)" unfolding p_def by (rule last_hdr_in)
  have apb: "hdr_apart bp a" if "a \<in> insert base (fst ` set fs)" for a
    using ap that fs by (auto simp: sorted_wrt_append intro: hdr_apart_sym)
  have e: "bp + 16 * n \<noteq> base"
    using unat_add_blk [of "(bp, n)"] bo(1,3) ring by (auto simp: blk_end_def)
  have cx: "chain m base xs (nxt m p)" and cy: "chain m p ys base"
    using ring(1) unfolding fs chain_append p_def by simp_all
  obtain n1 zs where z: "join (bp, n) ys = (bp, n1) # zs" "zs = ys \<or> zs = tl ys" "chain m1 bp zs base" "siz m1 bp = n1"
    and f1: "\<And>a. hdr_apart bp a \<Longrightarrow> nxt m1 a = nxt m a \<and> siz m1 a = siz m a"
    using link_right_ok [OF cy bo(4) _ _ e] apb pin fs unfolding m1_def by auto
  have cx1: "chain m1 base xs (nxt m p)"
    using apb f1 fs by (intro iffD2 [OF heap_chain_cong cx]) auto
  have "sorted_wrt hdr_apart (base # map fst xs @ bp # map fst zs)"
  proof (cases "zs = ys")
    case False
    then have "ys = hd ys # zs" using z(2) by (cases ys) auto
    then have "sorted_wrt hdr_apart (base # map fst (xs @ (bp, n) # hd ys # zs))" using ap by simp
    then show ?thesis by (simp add: sorted_wrt_append)
  qed (use ap in simp)
  from link_left_ok [OF cx1 z(3,4) _ this] f1 [OF apb [of base]] ring(2)
  have c': "chain m' base (glue xs (bp, n) ys) base" "siz m' base = 0"
    and f2: "\<And>a. hdr_apart bp a \<Longrightarrow> hdr_apart p a \<Longrightarrow> nxt m' a = nxt m1 a \<and> siz m' a = siz m1 a"
    unfolding m'_def p_def [symmetric] glue_def z(1) by auto
  have sp': "spaced (unat base) (glue xs (bp, n) ys) hi" "cover (glue xs (bp, n) ys) = cover fs \<union> span (bp, n)"
    using glue_spaced [OF sx, of "(bp, n)" ys hi] pl bo(1,2) ring fs by auto
  note gh = glue_hdrs [of base xs "(bp, n)" ys]
  have ring': "ring_ok m' base (glue xs (bp, n) ys) hs hi"
    unfolding ring_ok_def
  proof (intro conjI ballI)
    fix b assume "b \<in> set (glue xs (bp, n) ys)"
    then have "fst b \<in> insert base (fst ` set (xs @ (bp, n) # ys))" using gh by blast
    moreover have "fst b \<noteq> base" using spaced_mem [OF sp'(1) \<open>b \<in> _\<close>] by auto
    ultimately obtain c where "c = (bp, n) \<or> c \<in> set fs" "fst b = fst c" unfolding fs by fastforce
    then show "hs \<le> unat (fst b)" using lohs bo(1) by (elim disjE) simp_all
  qed (use c' sp' ring in simp_all)
  have sep: "{unat q..<unat q + 16} \<inter> span (a, k) = {}" if w: "w a = Some k" "a \<noteq> bp" and q: "q = bp \<or> q = p" for a k q
  proof -
    note ak = used_okD [OF u w(1)]
    consider "q = bp" | "q = base" | c where "c \<in> set fs" "q = fst c" using q pin fs by auto
    then show ?thesis
    proof cases
      case 1
      then show ?thesis using used_okD(6) [OF u b w(1)] w(2) hdr_in_span [of "(bp, n)"] bo(2) by auto
    next
      case 2
      then show ?thesis using ak(1) ring by (auto simp: span_def)
    next
      case 3
      then show ?thesis using ak(5) hdr_in_span [of c] spaced_mem [OF sp 3(1)] by (auto simp: cover_def)
    qed
  qed
  have bytes: "m' x = m x" if "w a = Some k" "a \<noteq> bp" "unat x \<in> span (a, k)" for a k x
  proof -
    have "p \<in> insert base (fst ` set fs)" using pin fs by auto
    then have "hdr_at bp" "hdr_at p" using apb [of p] by (simp_all add: hdr_apart_def)
    moreover have "unat x \<notin> {unat bp..<unat bp + 16}" "unat x \<notin> {unat p..<unat p + 16}"
      using sep [OF that(1,2), of bp] sep [OF that(1,2), of p] that(3) by blast+
    ultimately show ?thesis unfolding m'_def m1_def by (rule link_bytes)
  qed
  have siz': "siz m' a = siz m a" if "w a = Some k" "a \<noteq> bp" for a k
  proof -
    note ak = used_okD [OF u that(1)]
    have "hdr_apart q a" if "q = bp \<or> q = p" for q
    proof -
      have "p \<in> insert base (fst ` set fs)" using pin fs by auto
      then have "hdr_at q" using that apb [of p] by (auto simp: hdr_apart_def)
      moreover have "hdr_at a" "unat a \<in> span (a, k)" "unat a + 15 \<in> span (a, k)"
        using ak ring by (simp_all add: hdr_at_def blk_end_def span_def)
      moreover have "unat a \<notin> {unat q..<unat q + 16}" "unat a + 15 \<notin> {unat q..<unat q + 16}"
        using calculation sep [OF \<open>w a = Some k\<close> \<open>a \<noteq> bp\<close> that] by blast+
      ultimately show ?thesis by (auto simp: hdr_apart_def)
    qed
    then show ?thesis using f1 f2 by simp
  qed
  have "used_ok m' (glue xs (bp, n) ys) (w(bp := None)) hs hi"
    unfolding used_ok_def
  proof (intro conjI allI impI)
    fix a k assume "(w(bp := None)) a = Some k"
    then have a: "w a = Some k" "a \<noteq> bp" by (auto split: if_splits)
    note ak = used_okD [OF u a(1)]
    show "hs \<le> unat a" "0 < unat k" "blk_end (a, k) \<le> hi" by (rule ak)+
    show "siz m' a = k" using siz' [OF a] ak(4) by simp
    show "span (a, k) \<inter> cover (glue xs (bp, n) ys) = {}"
      using ak(5) used_okD(6) [OF u a(1) b a(2)] sp'(2) by auto
  next
    fix a k b' k' assume "(w(bp := None)) a = Some k" "(w(bp := None)) b' = Some k'" "a \<noteq> b'"
    then show "span (a, k) \<inter> span (b', k') = {}" using used_okD(6) [OF u] by (auto split: if_splits)
  qed
  then show ?thesis using scan ring' sp'(2) bytes gh unfolding p_def [symmetric] m'_def m1_def by blast
qed

end
