(* ===== verification/Malloc_Heap.thy ===== *)
theory Malloc_Heap
  imports Malloc_Ring
begin

text \<open>
  The operations on a sound heap (\<open>heap_ok\<close>): the search for a block ends at the first one large
  enough or knows that there is none (\<open>malloc_search\<close>), the kernel gives more memory or nothing
  changes (\<open>sbrk_cases\<close>), a block or its end is taken (\<open>take_block_ok\<close>).  None of them touches a
  byte of a block in use.
\<close>

section \<open>Searching the ring\<close>

lemma malloc_walk:
  "chain (um h) p us e \<Longrightarrow> \<forall>b\<in>set us. snd b < nunits \<and> fst b \<noteq> freep h \<Longrightarrow>
   malloc_loop nunits p (nxt (um h) p) h = malloc_loop nunits (last_hdr p us) (nxt (um h) (last_hdr p us)) h"
proof (induction us arbitrary: p)
  case (Cons b us)
  have n: "nxt (um h) p = fst b" "siz (um h) (fst b) = snd b" "chain (um h) (fst b) us e" using Cons.prems(1) by (cases b; simp)+
  have "malloc_loop nunits p (nxt (um h) p) h = malloc_loop nunits (fst b) (nxt (um h) (fst b)) h"
    using n Cons.prems(2) by (subst malloc_loop.simps) auto
  also have "\<dots> = malloc_loop nunits (last_hdr (fst b) us) (nxt (um h) (last_hdr (fst b) us)) h"
    using Cons.prems(2) by (intro Cons.IH [OF n(3)]) simp
  finally show ?case by simp
qed simp

lemma malloc_found:
  assumes "chain (um h) p (us @ (a, n) # vs) e" and "\<forall>b\<in>set us. snd b < nunits \<and> fst b \<noteq> freep h" and "nunits \<le> n"
  shows "malloc_loop nunits p (nxt (um h) p) h = Some (take_block nunits (last_hdr p us) a h)"
proof -
  note c = chain_split [OF assms(1)]
  show ?thesis unfolding malloc_walk [OF c(1) assms(2)] using c assms(3) by (subst malloc_loop.simps) simp
qed

definition out_of_blocks :: "u64 \<Rightarrow> heap_state \<Rightarrow> (u64 \<times> heap_state) option" where
  "out_of_blocks nunits h = Option.bind (morecore nunits h)
     (\<lambda>r. if fst r = 0 then Some (0, snd r) else malloc_loop nunits (fst r) (nxt (um (snd r)) (fst r)) (snd r))"

lemma malloc_around:
  assumes "chain (um h) (freep h) us (freep h)" and "\<forall>b\<in>set us. snd b < nunits \<and> fst b \<noteq> freep h"
  shows "malloc_loop nunits (freep h) (nxt (um h) (freep h)) h =
    (if nunits \<le> siz (um h) (freep h) then Some (take_block nunits (last_hdr (freep h) us) (freep h) h)
     else out_of_blocks nunits h)"
  unfolding malloc_walk [OF assms] chain_end [OF assms(1)] out_of_blocks_def
  by (subst malloc_loop.simps) simp

text \<open>The first block that is large enough, with the one before it; or none is.\<close>

lemma malloc_search:
  assumes c: "chain (um h) base fs base" and b0: "siz (um h) base = 0" and d: "distinct (base # map fst fs)"
    and f: "freep h \<in> insert base (fst ` set fs)" and n: "0 < nunits"
  shows "(\<exists>xs a k ys. fs = xs @ (a, k) # ys \<and> nunits \<le> k \<and>
      malloc_loop nunits (freep h) (nxt (um h) (freep h)) h = Some (take_block nunits (last_hdr base xs) a h)) \<or>
    (\<forall>b\<in>set fs. snd b < nunits) \<and>
      malloc_loop nunits (freep h) (nxt (um h) (freep h)) h = out_of_blocks nunits h"
proof (cases "freep h = base")
  case True
  show ?thesis
  proof (cases "\<exists>b\<in>set fs. nunits \<le> snd b")
    case fit: True
    then obtain us b vs where l: "fs = us @ b # vs" "nunits \<le> snd b" "\<forall>c\<in>set us. \<not> nunits \<le> snd c"
      by (rule split_list_first_propE)
    have "\<forall>c\<in>set us. fst c \<noteq> base" using d l(1) by auto
    then have "malloc_loop nunits base (nxt (um h) base) h = Some (take_block nunits (last_hdr base us) (fst b) h)"
      using c l True by (intro malloc_found [of h base us "fst b" "snd b" vs base]) (simp_all add: not_le)
    then show ?thesis using l True by (intro disjI1 exI [of _ us] exI [of _ "fst b"] exI [of _ "snd b"] exI [of _ vs]) simp
  next
    case False
    moreover have "\<forall>b\<in>set fs. fst b \<noteq> base" using d by auto
    ultimately have small: "\<forall>b\<in>set fs. snd b < nunits \<and> fst b \<noteq> freep h" using True by (simp add: not_le)
    show ?thesis using malloc_around [of h fs nunits] c True small b0 n by auto
  qed
next
  case False
  then obtain k xs ys where fs: "fs = xs @ (freep h, k) # ys" using f by (auto dest: split_list)
  have cy: "chain (um h) (freep h) ys base" "siz (um h) (freep h) = k" and cx: "chain (um h) base xs (freep h)"
    by (rule chain_split [OF c [unfolded fs]])+
  have d': "freep h \<noteq> base" "\<forall>c\<in>set xs. fst c \<noteq> freep h" "\<forall>c\<in>set ys. fst c \<noteq> freep h"
    using d fs False by (simp_all add: image_iff) metis+
  have cyx: "chain (um h) (freep h) (ys @ (base, 0) # xs) (freep h)" by (intro chain_join cy cx b0)
  show ?thesis
  proof (cases "\<exists>b\<in>set ys. nunits \<le> snd b")
    case fit: True
    then obtain us b vs where l: "ys = us @ b # vs" "nunits \<le> snd b" "\<forall>c\<in>set us. \<not> nunits \<le> snd c"
      by (rule split_list_first_propE)
    have "malloc_loop nunits (freep h) (nxt (um h) (freep h)) h = Some (take_block nunits (last_hdr (freep h) us) (fst b) h)"
      using cy(1) d' l by (intro malloc_found [of h "freep h" us "fst b" "snd b" vs base]) (simp_all add: not_le)
    then show ?thesis using l fs
      by (intro disjI1 exI [of _ "xs @ (freep h, k) # us"] exI [of _ "fst b"] exI [of _ "snd b"] exI [of _ vs]) simp
  next
    case ys: False
    then have small_ys: "\<forall>b\<in>set ys. snd b < nunits \<and> fst b \<noteq> freep h" using d' by (auto simp: not_le)
    show ?thesis
    proof (cases "\<exists>b\<in>set xs. nunits \<le> snd b")
      case fit: True
      then obtain us b vs where l: "xs = us @ b # vs" "nunits \<le> snd b" "\<forall>c\<in>set us. \<not> nunits \<le> snd c"
        by (rule split_list_first_propE)
      have "\<forall>c\<in>set (ys @ (base, 0) # us). snd c < nunits \<and> fst c \<noteq> freep h"
        using small_ys l(1,3) d' n by (auto simp: not_le)
      from malloc_found [of h "freep h" "ys @ (base, 0) # us" "fst b" "snd b" vs "freep h", OF _ this l(2)]
      have "malloc_loop nunits (freep h) (nxt (um h) (freep h)) h = Some (take_block nunits (last_hdr base us) (fst b) h)"
        using cyx l(1) by simp
      then show ?thesis using l fs
        by (intro disjI1 exI [of _ us] exI [of _ "fst b"] exI [of _ "snd b"] exI [of _ "vs @ (freep h, k) # ys"]) simp
    next
      case False
      then have small_xs: "\<forall>b\<in>set xs. snd b < nunits \<and> fst b \<noteq> freep h" using d' by (auto simp: not_le)
      have "\<forall>c\<in>set (ys @ (base, 0) # xs). snd c < nunits \<and> fst c \<noteq> freep h"
        using small_ys small_xs d' n by auto
      note around = malloc_around [OF cyx this]
      show ?thesis
      proof (cases "nunits \<le> k")
        case True
        then show ?thesis using around cy(2) fs
          by (intro disjI1 exI [of _ xs] exI [of _ "freep h"] exI [of _ k] exI [of _ ys]) simp
      next
        case False
        then have "\<forall>b\<in>set fs. snd b < nunits" using fs small_xs small_ys by (auto simp: not_le)
        then show ?thesis using around cy(2) False by simp
      qed
    qed
  qed
qed

section \<open>The sound heap\<close>

text \<open>
  \<open>hs\<close> is the end of the program's segment at its start, \<open>fs\<close> are the free blocks and \<open>w\<close> the others.
  Nothing is set up before the first call.
\<close>

definition heap_ok :: "heap_state \<Rightarrow> nat \<Rightarrow> blk list \<Rightarrow> (u64 \<Rightarrow> u64 option) \<Rightarrow> bool" where
  "heap_ok h hs fs w \<longleftrightarrow>
     (brk_cur h = 0 \<or> brk_cur h = seg_end h) \<and> USER_BASE \<le> seg_end h \<and> seg_end h \<le> USER_STACK_BASE \<and>
     base_at h \<noteq> 0 \<and> unat (base_at h) + 16 \<le> hs \<and> hs \<le> unat (seg_end h) \<and>
     (if freep h = 0 then fs = [] \<and> w = Map.empty
      else freep h \<in> insert (base_at h) (fst ` set fs) \<and> ring_ok (um h) (base_at h) fs hs (unat (seg_end h)) \<and>
        used_ok (um h) fs w hs (unat (seg_end h)))"

text \<open>What an operation leaves of the blocks in use.\<close>

definition same_blocks :: "(u64 \<Rightarrow> u64 option) \<Rightarrow> heap_state \<Rightarrow> heap_state \<Rightarrow> bool" where
  "same_blocks w h h' \<longleftrightarrow> base_at h' = base_at h \<and> seg_end h \<le> seg_end h' \<and>
     (\<forall>a k x. w a = Some k \<longrightarrow> unat x \<in> span (a, k) \<longrightarrow> um h' x = um h x)"

lemma same_blocksD: "same_blocks w h h' \<Longrightarrow> w a = Some k \<Longrightarrow> unat x \<in> span (a, k) \<Longrightarrow> um h' x = um h x"
  by (simp add: same_blocks_def)

lemma same_blocks_refl: "same_blocks w h h"
  by (simp add: same_blocks_def)

lemma same_blocks_trans: "same_blocks w h h1 \<Longrightarrow> same_blocks w h1 h2 \<Longrightarrow> same_blocks w h h2"
  by (fastforce simp: same_blocks_def)

lemma seg_small: "seg_end h \<le> USER_STACK_BASE \<Longrightarrow> unat (seg_end h) < 2 ^ 62"
  by (simp add: word_le_nat_alt)

lemma init_ring_ok:
  assumes "heap_ok h hs fs w"
  shows "heap_ok (init_ring h) hs fs w \<and> freep (init_ring h) \<noteq> 0 \<and> same_blocks w h (init_ring h) \<and>
    base_at (init_ring h) = base_at h \<and> seg_end (init_ring h) = seg_end h"
proof (cases "freep h = 0")
  case True
  have a: "hdr_at (base_at h)" using assms seg_small [of h] by (simp add: heap_ok_def hdr_at_def)
  have "unat (base_at h) \<le> unat (seg_end h)" using assms by (simp add: heap_ok_def)
  then show ?thesis using assms True a seg_small [of h]
    by (simp add: heap_ok_def init_ring_def ring_ok_def used_ok_def same_blocks_def)
qed (use assms in \<open>simp add: init_ring_def same_blocks_refl\<close>)

lemma free_ok:
  assumes h: "heap_ok h hs fs w" and b: "w bp = Some n"
  shows "\<exists>h' fs'. u_free (bp + 16) h = Some h' \<and> heap_ok h' hs fs' (w(bp := None)) \<and>
    cover fs' = cover fs \<union> span (bp, n) \<and> same_blocks (w(bp := None)) h h' \<and> freep h' \<noteq> 0 \<and> seg_end h' = seg_end h"
proof -
  have f: "freep h \<noteq> 0" using h b by (auto simp: heap_ok_def)
  have r: "ring_ok (um h) (base_at h) fs hs (unat (seg_end h))" and u: "used_ok (um h) fs w hs (unat (seg_end h))"
    and s: "freep h \<in> insert (base_at h) (fst ` set fs)" using h f by (simp_all add: heap_ok_def)
  obtain p fs' m' where p: "free_scan (um h) bp (freep h) = Some p" "m' = link_left bp p (link_right bp p (um h))"
    "p \<in> insert (base_at h) (fst ` set fs')" "ring_ok m' (base_at h) fs' hs (unat (seg_end h))"
    "cover fs' = cover fs \<union> span (bp, n)" "used_ok m' fs' (w(bp := None)) hs (unat (seg_end h))"
    and fr: "\<And>a k x. w a = Some k \<Longrightarrow> a \<noteq> bp \<Longrightarrow> unat x \<in> span (a, k) \<Longrightarrow> m' x = um h x"
    using insert_block [OF r u b s] by blast
  have "unat bp < 2 ^ 62" using used_okD(3) [OF u b] h seg_small [of h] by (simp add: heap_ok_def blk_end_def)
  then have bz: "bp + 16 \<noteq> 0" using unat_add_small [of bp 16] by auto
  have p0: "p \<noteq> 0" using p(3,4) h by (auto simp: heap_ok_def ring_ok_def)
  have "u_free (bp + 16) h = Some (h\<lparr>um := m', freep := p\<rparr>)"
    using bz f p(1,2) by (simp add: u_free_def init_ring_def)
  moreover have "heap_ok (h\<lparr>um := m', freep := p\<rparr>) hs fs' (w(bp := None))"
    using h p p0 f by (simp add: heap_ok_def)
  moreover have "same_blocks (w(bp := None)) h (h\<lparr>um := m', freep := p\<rparr>)"
    using fr by (auto simp: same_blocks_def split: if_splits)
  ultimately show ?thesis using p(5) p0 by auto
qed

section \<open>More memory\<close>

lemma hdr_bytes_eq:
  assumes at: "hdr_at a" and m: "\<And>x. unat x \<in> {unat a..<unat a + 16} \<Longrightarrow> m' x = m x"
  shows "nxt m' a = nxt m a" "siz m' a = siz m a"
proof -
  have "m' (a + of_nat i) = m (a + of_nat i)" if "i < 16" for i
    using unat_add_small [of a i] at that by (intro m) (simp add: hdr_at_def)
  then show "nxt m' a = nxt m a" unfolding nxt_def by (intro load64_cong_bytes) simp
  have "m' (a + 8 + of_nat i) = m (a + 8 + of_nat i)" if "i < 8" for i
    using unat_add_small [of a "8 + i"] at that by (intro m) (simp add: hdr_at_def add.assoc)
  then show "siz m' a = siz m a" unfolding siz_def by (rule load64_cong_bytes)
qed

lemma hdr_bytes_cong:
  assumes "\<And>x. unat x < hi \<Longrightarrow> m' x = m x" and "unat a + 16 \<le> hi" and "hi < 2 ^ 62"
  shows "nxt m' a = nxt m a" "siz m' a = siz m a"
  using assms by (auto intro!: hdr_bytes_eq simp: hdr_at_def)

lemma ring_ok_grow:
  assumes r: "ring_ok m base fs hs hi" and m: "\<And>x. unat x < hi \<Longrightarrow> m' x = m x" and "hi \<le> hi'" and "hi' < 2 ^ 62"
  shows "ring_ok m' base fs hs hi'"
proof -
  have hi: "hi < 2 ^ 62" using assms by simp
  have cg: "nxt m' a = nxt m a" "siz m' a = siz m a" if "unat a + 16 \<le> hi" for a
    by (rule hdr_bytes_cong [OF m that hi], assumption)+
  have b: "unat base + 16 \<le> hi" and sp: "spaced (unat base) fs hi" using r by (simp_all add: ring_ok_def)
  have nodes: "unat (fst c) + 16 \<le> hi" if "c \<in> set fs" for c
    using spaced_mem [OF sp that] spaced_bounds [OF sp] by (simp add: blk_end_def)
  have "chain m' base fs base \<longleftrightarrow> chain m base fs base" using cg b nodes by (intro heap_chain_cong) auto
  then show ?thesis using r cg [OF b] spaced_weaken [OF sp, of "unat base" hi'] assms(3,4) by (simp add: ring_ok_def)
qed

lemma used_ok_grow:
  assumes u: "used_ok m fs w hs hi" and m: "\<And>x. unat x < hi \<Longrightarrow> m' x = m x" and "hi \<le> hi'" and "hi < 2 ^ 62"
  shows "used_ok m' fs w hs hi'"
proof -
  have "siz m' a = siz m a" if "w a = Some n" for a n
    using used_okD(2,3) [OF u that] by (intro hdr_bytes_cong(2) [OF m _ assms(4)]) (simp_all add: blk_end_def)
  moreover have "blk_end (a, n) \<le> hi'" if "w a = Some n" for a n
    using used_okD(3) [OF u that] assms(3) by simp
  ultimately show ?thesis using u unfolding used_ok_def by simp
qed

lemma PGROUNDUP_ge:
  assumes "unat a < 2 ^ 63" shows "a \<le> PGROUNDUP a"
  using align_up_page(2) [of a] assms by (simp add: PGROUNDUP_def align_up_def word_le_nat_alt algebra_simps)

text \<open>\<^verbatim>\<open>sbrk\<close> either gives the memory behind the old end, or nothing changes.\<close>

lemma sbrk_cases:
  assumes h: "heap_ok h hs fs w" and i: "0 < unat inc" "unat inc < 2 ^ 63"
  shows "\<exists>r h1. u_sbrk inc h = (r, h1) \<and> base_at h1 = base_at h \<and> freep h1 = freep h \<and> brk_cur h1 = seg_end h1 \<and>
    ((r = - 1 \<and> um h1 = um h \<and> seg_end h1 = seg_end h) \<or>
     (r = seg_end h \<and> r \<noteq> - 1 \<and> seg_end h1 = seg_end h + inc \<and> unat (seg_end h1) = unat (seg_end h) + unat inc \<and>
      seg_end h1 \<le> USER_STACK_BASE \<and> (\<forall>x. unat x < unat (seg_end h) \<longrightarrow> um h1 x = um h x)))"
proof -
  have se: "USER_BASE \<le> seg_end h" "seg_end h \<le> USER_STACK_BASE" "brk_cur h = 0 \<or> brk_cur h = seg_end h"
    using h by (simp_all add: heap_ok_def)
  note small = seg_small [OF se(2)]
  define h0 where "h0 = h\<lparr>brk_cur := seg_end h\<rparr>"
  have c: "(if brk_cur h = 0 then (case brk_call 0 h of (c, h1) \<Rightarrow> h1\<lparr>brk_cur := c\<rparr>) else h) = h0"
    using se(3) by (auto simp: brk_call_def h0_def)
  have u: "unat (seg_end h + inc) = unat (seg_end h) + unat inc" using small i by (simp add: unat_plus_if')
  then have gt: "seg_end h < seg_end h + inc" using i by (simp add: word_less_nat_alt)
  then have n0: "seg_end h + inc \<noteq> 0" "\<not> seg_end h + inc < USER_BASE" using se(1) by auto
  have m1: "seg_end h \<noteq> - 1" using small by (auto simp: unsigned_minus_1_eq_mask mask_eq_exp_minus_1)
  have pg: "x < seg_end h" if "unat x < unat (seg_end h)" for x using that by (simp add: word_less_nat_alt)
  have pr: "seg_end h \<le> PGROUNDUP (seg_end h)" using small by (intro PGROUNDUP_ge) simp
  show ?thesis
  proof (cases "USER_STACK_BASE < seg_end h + inc \<or> grants h = [] \<or> \<not> hd (grants h)")
    case True
    have "\<exists>g. brk_call (seg_end h + inc) h0 = (seg_end h, h0\<lparr>grants := g\<rparr>)"
    proof (cases "USER_STACK_BASE < seg_end h + inc")
      case True
      then show ?thesis using n0 by (intro exI [of _ "grants h"]) (simp add: brk_call_def h0_def)
    next
      case False
      then show ?thesis using True n0 gt by (intro exI [of _ "tl (grants h)"]) (simp add: brk_call_def h0_def Let_def)
    qed
    then obtain g where g: "brk_call (seg_end h + inc) h0 = (seg_end h, h0\<lparr>grants := g\<rparr>)" by blast
    have h0: "brk_cur h0 = seg_end h" by (simp add: h0_def)
    have ne: "seg_end h \<noteq> seg_end h + inc" using gt by auto
    have "u_sbrk inc h = (- 1, h0\<lparr>grants := g\<rparr>)"
      unfolding u_sbrk_def c Let_def h0 g prod.case if_P [OF ne] ..
    then show ?thesis by (simp add: h0_def)
  next
    case False
    then have g: "\<not> USER_STACK_BASE < seg_end h + inc" "grants h \<noteq> []" "hd (grants h)" by auto
    have "\<not> PGROUNDUP (seg_end h) \<le> x" if "unat x < unat (seg_end h)" for x
      using pg [OF that] pr by (meson leD le_less_trans not_le order_trans)
    then have um: "(if PGROUNDUP (seg_end h) \<le> x \<and> x < PGROUNDUP (seg_end h + inc) then 0 else um h x) = um h x"
      if "unat x < unat (seg_end h)" for x using that by simp
    have g0: "grants h0 = grants h" "seg_end h0 = seg_end h" "um h0 = um h" by (simp_all add: h0_def)
    define h2 where "h2 = h0\<lparr>grants := tl (grants h), seg_end := seg_end h + inc,
      um := (\<lambda>x. if PGROUNDUP (seg_end h) \<le> x \<and> x < PGROUNDUP (seg_end h + inc) then 0 else um h x)\<rparr>"
    have b: "brk_call (seg_end h + inc) h0 = (seg_end h + inc, h2)"
      unfolding brk_call_def h2_def Let_def g0 using g gt n0 by simp
    have h0: "brk_cur h0 = seg_end h" by (simp add: h0_def)
    have "u_sbrk inc h = (seg_end h, h2\<lparr>brk_cur := seg_end h + inc\<rparr>)"
      unfolding u_sbrk_def c Let_def h0 b prod.case by simp
    then show ?thesis using g(1) m1 u um by (simp add: h2_def h0_def not_less)
  qed
qed

text \<open>A run of bytes in the free blocks lies in one of them: between two there is a gap.\<close>

lemma spaced_gap: "spaced lo fs hi \<Longrightarrow> b \<in> set fs \<Longrightarrow> blk_end b \<notin> cover fs"
proof (induction fs arbitrary: lo)
  case (Cons c fs)
  have s: "spaced (blk_end c) fs hi" using Cons.prems by simp
  have up: "blk_end c < unat (fst d) \<and> 0 < unat (snd d)" if "d \<in> set fs" for d using spaced_mem [OF s that] by simp
  show ?case
  proof (cases "b = c")
    case True
    then show ?thesis using up by (fastforce simp: cover_def span_def)
  next
    case False
    then have b: "b \<in> set fs" using Cons.prems by simp
    then show ?thesis using Cons.IH [OF s b] up [OF b] by (auto simp: span_def) (auto simp: blk_end_def)
  qed
qed simp

lemma one_block:
  assumes "spaced lo fs hi" and "span c \<subseteq> cover fs" and "0 < unat (snd c)"
  shows "\<exists>b\<in>set fs. unat (snd c) \<le> unat (snd b)"
proof -
  have "unat (fst c) \<in> span c" using assms(3) by (simp add: span_def blk_end_def)
  then have "unat (fst c) \<in> cover fs" using assms(2) by blast
  then obtain b where b: "b \<in> set fs" "unat (fst c) \<in> span b" by (auto simp: cover_def)
  have "blk_end c \<le> blk_end b"
  proof (rule ccontr)
    assume "\<not> blk_end c \<le> blk_end b"
    then have "blk_end b \<in> span c" using b(2) by (simp add: span_def)
    then show False using spaced_gap [OF assms(1) b(1)] assms(2) by blast
  qed
  then have "unat (snd c) \<le> unat (snd b)" using b(2) by (simp add: span_def blk_end_def)
  then show ?thesis using b(1) by blast
qed

lemma morecore_ok:
  assumes h: "heap_ok h hs fs w" and f: "freep h \<noteq> 0" and n: "unat nu0 < 2 ^ 58"
  shows "\<exists>r h1 fs1. morecore nu0 h = Some (r, h1) \<and> heap_ok h1 hs fs1 w \<and> same_blocks w h h1 \<and> freep h1 \<noteq> 0 \<and>
    (r = 0 \<or> (r = freep h1 \<and> (\<exists>b\<in>set fs1. nu0 \<le> snd b)))"
proof -
  define nu where "nu = (if nu0 < NALLOC then NALLOC else nu0)"
  have nu: "nu0 \<le> nu" by (auto simp: nu_def)
  have nu: "nu0 \<le> nu" "0 < unat nu" "unat nu < 2 ^ 58" using n nu by (simp_all add: nu_def word_less_nat_alt)
  have u16: "unat (nu * 16) = 16 * unat nu" using nu(3) by (subst unat_mult_lem [THEN iffD1]) auto
  then have i: "0 < unat (nu * 16)" "unat (nu * 16) < 2 ^ 63" using nu by simp_all
  obtain r h1 where sb: "u_sbrk (nu * 16) h = (r, h1)" "base_at h1 = base_at h" "freep h1 = freep h" "brk_cur h1 = seg_end h1"
    and ca: "(r = - 1 \<and> um h1 = um h \<and> seg_end h1 = seg_end h) \<or>
     (r = seg_end h \<and> r \<noteq> - 1 \<and> seg_end h1 = seg_end h + nu * 16 \<and> unat (seg_end h1) = unat (seg_end h) + 16 * unat nu \<and>
      seg_end h1 \<le> USER_STACK_BASE \<and> (\<forall>x. unat x < unat (seg_end h) \<longrightarrow> um h1 x = um h x))"
    using sbrk_cases [OF h i] u16 by auto
  show ?thesis
  proof (cases "r = - 1")
    case True
    then have e: "um h1 = um h" "seg_end h1 = seg_end h" using ca by auto
    then have "heap_ok h1 hs fs w" using h sb f by (simp add: heap_ok_def)
    moreover have "same_blocks w h h1" using e sb by (simp add: same_blocks_def)
    ultimately show ?thesis using True sb f unfolding morecore_def nu_def [symmetric] Let_def by auto
  next
    case False
    then have g: "r = seg_end h" "unat (seg_end h1) = unat (seg_end h) + 16 * unat nu" "seg_end h1 \<le> USER_STACK_BASE"
      and um1: "\<And>x. unat x < unat (seg_end h) \<Longrightarrow> um h1 x = um h x" using ca by auto
    have hi1: "unat (seg_end h1) < 2 ^ 62" by (rule seg_small [OF g(3)])
    have hk: "freep h \<in> insert (base_at h) (fst ` set fs)" "ring_ok (um h) (base_at h) fs hs (unat (seg_end h))"
      "used_ok (um h) fs w hs (unat (seg_end h))" "hs \<le> unat (seg_end h)" using h f by (simp_all add: heap_ok_def)
    have sp: "spaced (unat (base_at h)) fs (unat (seg_end h))" using hk(2) by (simp add: ring_ok_def)
    define h2 where "h2 = h1\<lparr>um := set_siz (um h1) r nu\<rparr>"
    have rat: "hdr_at r" using hi1 g by (simp add: hdr_at_def)
    have um2: "um h2 x = um h x" if "unat x < unat (seg_end h)" for x
    proof -
      have "\<not> unat (x - r) < 16" using that g(1) rat by (simp add: hdr_at_def unat_sub_if')
      then show ?thesis using um1 [OF that] set_hdr_bytes(2) [OF rat] by (simp add: h2_def)
    qed
    have free_below: "cover fs \<subseteq> {..<unat r}"
      using spaced_mem [OF sp] spaced_bounds [OF sp] g(1) by (fastforce simp: cover_def span_def)
    have wr: "w r = None"
    proof (rule ccontr)
      assume "w r \<noteq> None"
      then obtain k where "w r = Some k" by auto
      then show False using used_okD(2,3) [OF hk(3)] g(1) by (fastforce simp: blk_end_def)
    qed
    have u2: "used_ok (um h2) fs w hs (unat (seg_end h1))"
      using used_ok_grow [OF hk(3) um2] g(2) hi1 by simp
    have r2: "ring_ok (um h2) (base_at h) fs hs (unat (seg_end h1))"
      using ring_ok_grow [OF hk(2) um2] g(2) hi1 by simp
    have new: "used_ok (um h2) fs (w(r := Some nu)) hs (unat (seg_end h1))"
      unfolding used_ok_def
    proof (intro conjI allI impI)
      fix a k assume a: "(w(r := Some nu)) a = Some k"
      show "hs \<le> unat a" "0 < unat k" "blk_end (a, k) \<le> unat (seg_end h1)" "siz (um h2) a = k"
        "span (a, k) \<inter> cover fs = {}"
        using a used_okD [OF u2, of a k] hk(4) g nu free_below
        by (auto simp: blk_end_def h2_def span_def split: if_splits)
    next
      fix a k b k' assume ab: "(w(r := Some nu)) a = Some k" "(w(r := Some nu)) b = Some k'" "a \<noteq> b"
      have below: "span (c, l) \<subseteq> {..<unat r}" if "w c = Some l" for c l
        using used_okD(3) [OF hk(3) that] g(1) by (auto simp: span_def)
      show "span (a, k) \<inter> span (b, k') = {}"
        using ab used_okD(6) [OF u2, of a k b k'] below [of a k] below [of b k']
        by (fastforce simp: span_def split: if_splits)
    qed
    have ok2: "heap_ok h2 hs fs (w(r := Some nu))"
      using h f hk new r2 sb g by (auto simp: heap_ok_def h2_def word_le_nat_alt)
    obtain h3 fs3 where h3: "u_free (r + 16) h2 = Some h3" "heap_ok h3 hs fs3 ((w(r := Some nu))(r := None))"
      "cover fs3 = cover fs \<union> span (r, nu)" "same_blocks ((w(r := Some nu))(r := None)) h2 h3" "freep h3 \<noteq> 0"
      using free_ok [OF ok2, of r nu] by auto
    have w': "(w(r := Some nu))(r := None) = w" using wr by auto
    have "spaced (unat (base_at h3)) fs3 (unat (seg_end h3))" using h3(2,5) by (simp add: heap_ok_def ring_ok_def)
    from one_block [OF this, of "(r, nu)"] h3(3) nu(2) obtain b where "b \<in> set fs3" "nu \<le> snd b"
      by (auto simp: word_le_nat_alt)
    then have big: "\<exists>b\<in>set fs3. nu0 \<le> snd b" using nu(1) by (meson order_trans)
    have "same_blocks w h h2"
      unfolding same_blocks_def
    proof (intro conjI allI impI)
      show "seg_end h \<le> seg_end h2" using g(2) by (simp add: h2_def word_le_nat_alt)
      fix a k and x :: u64 assume "w a = Some k" "unat x \<in> span (a, k)"
      then show "um h2 x = um h x" using used_okD(3) [OF hk(3)] by (intro um2) (fastforce simp: span_def)
    qed (simp add: h2_def sb)
    then have "same_blocks w h h3" using h3(4) unfolding w' by (rule same_blocks_trans)
    moreover have "morecore nu0 h = Some (freep h3, h3)"
      using False sb(1) h3(1) unfolding morecore_def nu_def [symmetric] Let_def h2_def by simp
    ultimately show ?thesis using h3(2,5) big unfolding w' by auto
  qed
qed

section \<open>Taking a block\<close>

lemma ring_apart:
  assumes r: "ring_ok m base fs hs hi"
  shows "sorted_wrt hdr_apart (base # map fst fs)" "distinct (base # map fst fs)"
proof -
  have sp: "spaced (unat base) fs hi" "hi < 2 ^ 62" "unat base + 16 \<le> hs" "hs \<le> hi" "\<forall>b\<in>set fs. hs \<le> unat (fst b)"
    using r by (simp_all add: ring_ok_def)
  show s: "sorted_wrt hdr_apart (base # map fst fs)"
  proof (rule ordered_apart [OF spaced_ordered [OF sp(1)]])
    show "hdr_at base" using sp by (simp add: hdr_at_def)
    fix b assume b: "b \<in> set fs"
    then have "blk_end b \<le> hi" using spaced_mem [OF sp(1) b] spaced_bounds [OF sp(1)] by linarith
    then show "0 < unat (snd b) \<and> blk_end b < 2 ^ 62 \<and> unat base + 16 \<le> unat (fst b)"
      using spaced_mem [OF sp(1) b] sp b by auto
  qed
  show "distinct (base # map fst fs)"
    using spaced_sorted [OF sp(1) le_refl] by (simp only: strict_sorted_iff)
qed

text \<open>The taken block, written as a block in use before the other words change.\<close>

lemma used_ok_taken:
  assumes u: "used_ok m fs w hs hi" and c: "cover fs' \<union> span (q, n) \<subseteq> cover fs" "cover fs' \<inter> span (q, n) = {}"
    and q: "hs \<le> unat q" "0 < unat n" "blk_end (q, n) \<le> hi" "siz m' q = n"
    and m: "\<And>a k. w a = Some k \<Longrightarrow> siz m' a = siz m a"
  shows "w q = None \<and> used_ok m' fs' (w(q := Some n)) hs hi"
proof -
  have apart: "span (a, k) \<inter> span (q, n) = {}" if "w a = Some k" for a k using used_okD(5) [OF u that] c(1) by blast
  have "w q = None"
  proof (rule ccontr)
    assume "w q \<noteq> None"
    then obtain k where k: "w q = Some k" by auto
    have "unat q \<in> span (q, k)" "unat q \<in> span (q, n)" using q(2) used_okD(2) [OF u k] by (simp_all add: span_def blk_end_def)
    then show False using apart [OF k] by blast
  qed
  moreover have "used_ok m' fs' (w(q := Some n)) hs hi"
    unfolding used_ok_def
  proof (intro conjI allI impI)
    fix a k assume a: "(w(q := Some n)) a = Some k"
    show "hs \<le> unat a" "0 < unat k" "blk_end (a, k) \<le> hi" "siz m' a = k"
      using a q m used_okD(1-4) [OF u] by (auto split: if_splits)
    show "span (a, k) \<inter> cover fs' = {}"
      using a c used_okD(5) [OF u, of a k] by (auto split: if_splits)
  next
    fix a k b k' assume "(w(q := Some n)) a = Some k" "(w(q := Some n)) b = Some k'" "a \<noteq> b"
    then show "span (a, k) \<inter> span (b, k') = {}"
      using used_okD(6) [OF u] apart [of a k] apart [of b k'] by (auto split: if_splits)
  qed
  ultimately show ?thesis by blast
qed

lemma hdr_outside:
  assumes "hdr_at p" and "hdr_at a" and "{unat p..<unat p + 16} \<inter> span (a, k) = {}" and "0 < unat k"
  shows "hdr_apart p a"
proof -
  have "unat a \<in> span (a, k)" "unat a + 15 \<in> span (a, k)" using assms(4) by (simp_all add: span_def blk_end_def)
  then have "unat a \<notin> {unat p..<unat p + 16}" "unat a + 15 \<notin> {unat p..<unat p + 16}" using assms(3) by blast+
  then show ?thesis using assms(1,2) by (auto simp: hdr_apart_def)
qed

text \<open>A store into the header of a free block or of the base leaves the blocks in use alone.\<close>

lemma store_free_hdr:
  assumes r: "ring_ok m base fs hs hi" and u: "used_ok m fs w hs hi" and a: "w a = Some k"
    and p: "{unat p..<unat p + 16} \<subseteq> cover fs \<or> p = base" and at: "hdr_at p"
  shows "siz (set_nxt m' p v) a = siz m' a" "siz (set_siz m' p v) a = siz m' a"
    "unat x \<in> span (a, k) \<Longrightarrow> set_nxt m' p v x = m' x" "unat x \<in> span (a, k) \<Longrightarrow> set_siz m' p v x = m' x"
proof -
  note ak = used_okD [OF u a]
  have d: "{unat p..<unat p + 16} \<inter> span (a, k) = {}"
    using p
  proof
    assume "{unat p..<unat p + 16} \<subseteq> cover fs"
    then show ?thesis using ak(5) by blast
  qed (use ak(1) r in \<open>auto simp: span_def ring_ok_def\<close>)
  have "hdr_at a" using ak(2,3) r by (simp add: hdr_at_def blk_end_def ring_ok_def)
  from hdr_outside [OF at this d ak(2)] show "siz (set_nxt m' p v) a = siz m' a" "siz (set_siz m' p v) a = siz m' a"
    by (simp_all add: hdr_other)
  assume "unat x \<in> span (a, k)"
  then have "unat x \<notin> {unat p..<unat p + 16}" using d by blast
  then have "\<not> unat (x - p) < 16" using at by (auto simp: hdr_at_def unat_sub_if')
  then show "set_nxt m' p v x = m' x" "set_siz m' p v x = m' x" using set_hdr_bytes [OF at] by simp_all
qed

text \<open>Two headers of the ring.\<close>

lemma sorted_apart: "sorted_wrt hdr_apart L \<Longrightarrow> a \<in> set L \<Longrightarrow> b \<in> set L \<Longrightarrow> a \<noteq> b \<Longrightarrow> hdr_apart a b"
  by (induction L) (auto intro: hdr_apart_sym)

lemma ring_nodes_apart:
  assumes "ring_ok m base fs hs hi" and "a \<in> insert base (fst ` set fs)" and "b \<in> insert base (fst ` set fs)" and "a \<noteq> b"
  shows "hdr_apart a b"
  using sorted_apart [OF ring_apart(1) [OF assms(1)], of a b] assms(2-4) by simp

lemma ring_node_at:
  assumes "ring_ok m base fs hs hi" and "a \<in> insert base (fst ` set fs)"
  shows "hdr_at a"
proof -
  have sp: "spaced (unat base) fs hi" "unat base + 16 \<le> hs" "hs \<le> hi" "hi < 2 ^ 62" using assms(1) by (simp_all add: ring_ok_def)
  have "hdr_at (fst c)" if "c \<in> set fs" for c
    using spaced_mem [OF sp(1) that] spaced_bounds [OF sp(1)] sp(4) by (simp add: hdr_at_def blk_end_def)
  then show ?thesis using assms(2) sp by (auto simp: hdr_at_def)
qed

lemma ring_node_cover:
  assumes "ring_ok m base fs hs hi" and "a \<in> insert base (fst ` set fs)"
  shows "{unat a..<unat a + 16} \<subseteq> cover fs \<or> a = base"
proof -
  have sp: "spaced (unat base) fs hi" using assms(1) by (simp add: ring_ok_def)
  have "{unat (fst c)..<unat (fst c) + 16} \<subseteq> cover fs" if "c \<in> set fs" for c
  proof -
    have "span c \<subseteq> cover fs" using that by (auto simp: cover_def)
    then show ?thesis using hdr_in_span [of c] spaced_mem [OF sp that] by (meson order_trans)
  qed
  then show ?thesis using assms(2) by auto
qed

lemma spaced_disjoint:
  assumes "spaced lo (xs @ b # ys) hi" shows "span b \<inter> cover (xs @ ys) = {}"
proof -
  have s: "spaced lo xs (ends lo xs)" "ends lo xs < unat (fst b)" "spaced (blk_end b) ys hi"
    using assms by (simp_all add: spaced_append)
  have "span b \<inter> span c = {}" if "c \<in> set xs" for c
    using spaced_mem [OF s(1) that] s(2) by (auto simp: span_def)
  moreover have "span b \<inter> span c = {}" if "c \<in> set ys" for c
    using spaced_mem [OF s(3) that] by (auto simp: span_def)
  ultimately show ?thesis unfolding cover_def set_append by blast
qed

text \<open>All of a block, or its end.\<close>

lemma take_whole:
  assumes r: "ring_ok m base (xs @ (a, n) # ys) hs hi" and u: "used_ok m (xs @ (a, n) # ys) w hs hi"
    and m': "m' = set_nxt m (last_hdr base xs) (nxt m a)"
  shows "w a = None \<and> ring_ok m' base (xs @ ys) hs hi \<and> used_ok m' (xs @ ys) (w(a := Some n)) hs hi \<and>
    (\<forall>b k x. w b = Some k \<longrightarrow> unat x \<in> span (b, k) \<longrightarrow> m' x = m x)"
proof -
  let ?fs = "xs @ (a, n) # ys"
  define p where "p = last_hdr base xs"
  have ring: "chain m base ?fs base" "siz m base = 0" "spaced (unat base) ?fs hi"
    "unat base + 16 \<le> hs" "hs \<le> hi" "hi < 2 ^ 62" "\<forall>b\<in>set ?fs. hs \<le> unat (fst b)"
    using r unfolding ring_ok_def by blast+
  note c = chain_split [OF ring(1)]
  have "p \<in> insert base (fst ` set xs)" unfolding p_def by (rule last_hdr_in)
  then have pin: "p \<in> insert base (fst ` set ?fs)" by auto
  note pat = ring_node_at [OF r pin]
  have nx: "nxt m' b = nxt m b" if "b \<in> insert base (fst ` set ?fs)" "b \<noteq> p" for b
    using hdr_other [OF ring_nodes_apart [OF r pin that(1)]] that(2) unfolding m' p_def by simp
  have sz: "siz m' b = siz m b" if "b \<in> insert base (fst ` set ?fs)" for b
    using hdr_other [OF ring_nodes_apart [OF r pin that]] pat unfolding m' p_def by (cases "b = p") (simp_all add: p_def)
  have pn: "nxt m' p = nxt m a" by (simp add: m' p_def)
  have d: "distinct (base # map fst ?fs)" by (rule ring_apart(2) [OF r])
  have notp: "fst b \<noteq> p" if "b \<in> set ys" for b
  proof -
    have "insert base (fst ` set xs) \<inter> fst ` set ys = {}" using d by simp
    moreover have "p \<in> insert base (fst ` set xs)" unfolding p_def by (rule last_hdr_in)
    moreover have "fst b \<in> fst ` set ys" using that by (rule imageI)
    ultimately show ?thesis by (meson disjoint_iff)
  qed
  have "chain m' base xs (nxt m' (last_hdr base xs))"
  proof (rule chain_butlast_cong [OF _ _ _ c(1)])
    fix b assume "b \<in> insert base (fst ` set xs)" "b \<noteq> last_hdr base xs"
    then show "nxt m' b = nxt m b" by (intro nx) (auto simp: p_def)
  next
    fix b assume "b \<in> fst ` set xs"
    then show "siz m' b = siz m b" by (intro sz) auto
  qed (use d in simp)
  moreover have "chain m' p ys base"
    using nx sz notp by (intro chain_move [OF c(3) pn]) auto
  ultimately have "chain m' base (xs @ ys) base" by (simp add: chain_append p_def)
  moreover have "spaced (unat base) (xs @ ys) hi"
    using ring(3) spaced_weaken [of "blk_end (a, n)" ys hi "ends (unat base) xs" hi]
    by (simp add: spaced_append blk_end_def)
  ultimately have r': "ring_ok m' base (xs @ ys) hs hi"
    using ring sz [of base] by (simp add: ring_ok_def)
  have an: "0 < unat n" "blk_end (a, n) \<le> hi" "hs \<le> unat a"
    using spaced_mem [OF ring(3), of "(a, n)"] spaced_bounds [OF ring(3)] ring(7) by auto
  note st = store_free_hdr [OF r u _ ring_node_cover [OF r pin] pat]
  have "w a = None \<and> used_ok m' (xs @ ys) (w(a := Some n)) hs hi"
  proof (rule used_ok_taken [OF u])
    show "cover (xs @ ys) \<union> span (a, n) \<subseteq> cover ?fs" by auto
    show "cover (xs @ ys) \<inter> span (a, n) = {}" using spaced_disjoint [OF ring(3)] by auto
    show "siz m' a = n" using sz [of a] c(2) by simp
    show "siz m' b = siz m b" if "w b = Some k" for b k using st(1) [OF that] by (simp add: m' p_def)
  qed (use an in simp_all)
  moreover have "m' x = m x" if "w b = Some k" "unat x \<in> span (b, k)" for b k x
    using st(3) [OF that(1) that(2)] by (simp add: m' p_def)
  ultimately show ?thesis using r' by blast
qed

lemma take_end:
  assumes r: "ring_ok m base (xs @ (a, n) # ys) hs hi" and u: "used_ok m (xs @ (a, n) # ys) w hs hi"
    and k: "0 < k" "k < n" and q: "q = a + 16 * (n - k)" and m': "m' = set_siz (set_siz m a (n - k)) q k"
  shows "w q = None \<and> ring_ok m' base (xs @ (a, n - k) # ys) hs hi \<and>
    used_ok m' (xs @ (a, n - k) # ys) (w(q := Some k)) hs hi \<and> hs \<le> unat q \<and>
    (\<forall>b l x. w b = Some l \<longrightarrow> unat x \<in> span (b, l) \<longrightarrow> m' x = m x)"
proof -
  let ?fs = "xs @ (a, n) # ys"
  have ring: "chain m base ?fs base" "siz m base = 0" "spaced (unat base) ?fs hi"
    "unat base + 16 \<le> hs" "hs \<le> hi" "hi < 2 ^ 62" "\<forall>b\<in>set ?fs. hs \<le> unat (fst b)"
    using r unfolding ring_ok_def by blast+
  note c = chain_split [OF ring(1)]
  have an: "unat base < unat a" "blk_end (a, n) \<le> hi" "hs \<le> unat a"
    using spaced_mem [OF ring(3), of "(a, n)"] spaced_bounds [OF ring(3)] ring(7) by auto
  have nk: "unat (n - k) = unat n - unat k" "0 < unat k" "unat k < unat n"
    using k by (simp_all add: unat_sub word_less_nat_alt word_le_nat_alt)
  have "blk_end (a, n - k) < 2 ^ 62" using an(2) ring(6) nk by (simp add: blk_end_def)
  from unat_add_blk [OF this] have uq: "unat q = unat a + 16 * (unat n - unat k)" by (simp add: q blk_end_def nk)
  have sq: "span (q, k) \<subseteq> span (a, n)" "span (a, n - k) \<union> span (q, k) = span (a, n)" "span (a, n - k) \<inter> span (q, k) = {}"
    "blk_end (q, k) = blk_end (a, n)"
    using nk by (auto simp: span_def blk_end_def uq)
  have ain: "a \<in> insert base (fst ` set ?fs)" by simp
  have at: "hdr_at a" "hdr_at q" using an ring(6) uq nk by (auto simp: hdr_at_def blk_end_def)
  have qa: "hdr_apart a q" using at uq nk by (auto simp: hdr_apart_def)
  have qc: "{unat q..<unat q + 16} \<subseteq> cover ?fs" using sq(1) hdr_in_span [of "(q, k)"] nk by auto
  have dj: "span (a, n) \<inter> cover (xs @ ys) = {}" by (rule spaced_disjoint [OF ring(3)])
  have qo: "hdr_apart q b" if b: "b \<in> insert base (fst ` set ?fs)" for b
  proof -
    consider "b = a" | "b = base" | c where "c \<in> set (xs @ ys)" "b = fst c" using b by auto
    then show ?thesis
    proof cases
      case 1
      then show ?thesis using hdr_apart_sym [OF qa] by simp
    next
      case 2
      then show ?thesis using at an ring ring_node_at [OF r, of base] uq by (auto simp: hdr_apart_def)
    next
      case 3
      then have "c \<in> set ?fs" by auto
      then have cs: "0 < unat (snd c)" using spaced_mem [OF ring(3)] by blast
      have "span c \<subseteq> cover (xs @ ys)" using 3(1) unfolding cover_def by blast
      then have "{unat q..<unat q + 16} \<inter> span (fst c, snd c) = {}"
        using dj sq(1) hdr_in_span [of "(q, k)"] nk(2) by auto
      then show ?thesis using hdr_outside [OF at(2) ring_node_at [OF r b], of "snd c"] cs 3(2) by simp
    qed
  qed
  have nx: "nxt m' b = nxt m b" if "b \<in> insert base (fst ` set ?fs)" for b
    using hdr_other [OF qo [OF that]] hdr_other [OF ring_nodes_apart [OF r ain that]] at(1) unfolding m'
    by (cases "b = a") simp_all
  have sz: "siz m' b = (if b = a then n - k else siz m b)" if "b \<in> insert base (fst ` set ?fs)" for b
    using hdr_other [OF qo [OF that]] hdr_other [OF ring_nodes_apart [OF r ain that]] unfolding m'
    by (cases "b = a") simp_all
  have d: "distinct (base # map fst ?fs)" by (rule ring_apart(2) [OF r])
  have same: "nxt m' b = nxt m b \<and> siz m' b = siz m b" if "b \<in> fst ` set xs \<or> b \<in> fst ` set ys" for b
  proof -
    have "a \<notin> fst ` set xs \<union> fst ` set ys" using d by simp
    then have "b \<noteq> a" using that by blast
    then show ?thesis using nx [of b] sz [of b] that by auto
  qed
  have "chain m' base xs a"
    using nx [of base] same by (intro iffD2 [OF heap_chain_cong c(1)]) auto
  moreover have "chain m' a ys base"
    using nx [of a] same by (intro iffD2 [OF heap_chain_cong c(3)]) auto
  ultimately have "chain m' base (xs @ (a, n - k) # ys) base" using sz [OF ain] by (intro chain_join) simp_all
  moreover have "spaced (unat base) (xs @ (a, n - k) # ys) hi"
    using ring(3) nk spaced_weaken [of "blk_end (a, n)" ys hi "blk_end (a, n - k)" hi]
    by (simp add: spaced_append blk_end_def)
  ultimately have r': "ring_ok m' base (xs @ (a, n - k) # ys) hs hi"
    using ring sz [of base] an(1) by (auto simp: ring_ok_def)
  note st1 = store_free_hdr [OF r u _ ring_node_cover [OF r ain] at(1)]
  note st2 = store_free_hdr [OF r u _ disjI1 [OF qc] at(2)]
  have "w q = None \<and> used_ok m' (xs @ (a, n - k) # ys) (w(q := Some k)) hs hi"
  proof (rule used_ok_taken [OF u])
    show "cover (xs @ (a, n - k) # ys) \<union> span (q, k) \<subseteq> cover ?fs" using sq by auto
    show "cover (xs @ (a, n - k) # ys) \<inter> span (q, k) = {}" using sq dj by auto
    show "siz m' q = k" by (simp add: m')
    show "siz m' b = siz m b" if "w b = Some l" for b l using st1(2) [OF that] st2(2) [OF that] by (simp add: m')
    show "blk_end (q, k) \<le> hi" "hs \<le> unat q" "0 < unat k" using sq(4) an uq nk by simp_all
  qed
  moreover have "m' x = m x" if "w b = Some l" "unat x \<in> span (b, l)" for b l x
    using st1(4) [OF that(1) that(2)] st2(4) [OF that(1) that(2)] by (simp add: m')
  ultimately show ?thesis using r' an(3) uq by auto
qed

lemma take_block_ok:
  assumes h: "heap_ok h hs (xs @ (a, n) # ys) w" and f: "freep h \<noteq> 0" and k: "0 < k" "k \<le> n"
  shows "\<exists>p h1 fs1. take_block k (last_hdr (base_at h) xs) a h = (p, h1) \<and> p \<noteq> 0 \<and> w (p - 16) = None \<and>
    heap_ok h1 hs fs1 (w(p - 16 := Some k)) \<and> same_blocks w h h1"
proof -
  define prev where "prev = last_hdr (base_at h) xs"
  have r: "ring_ok (um h) (base_at h) (xs @ (a, n) # ys) hs (unat (seg_end h))"
    and u: "used_ok (um h) (xs @ (a, n) # ys) w hs (unat (seg_end h))" using h f by (simp_all add: heap_ok_def)
  have pin: "prev \<in> insert (base_at h) (fst ` set xs)" unfolding prev_def by (rule last_hdr_in)
  have lo: "hs \<le> unat c" if "c \<in> fst ` set (xs @ (a, n) # ys)" for c using r that unfolding ring_ok_def by blast
  have b0: "base_at h \<noteq> 0" "unat (base_at h) + 16 \<le> hs" using h by (simp_all add: heap_ok_def)
  have "hs \<le> unat prev" if "prev \<in> fst ` set xs" using that by (intro lo) auto
  then have p0: "prev \<noteq> 0" using pin b0 by (cases "prev = base_at h") auto
  have sa: "siz (um h) a = n" using r chain_split(2) unfolding ring_ok_def by blast
  have up: "q + 16 \<noteq> 0" if "hdr_at q" for q using unat_add_small [of q 16] that by (auto simp: hdr_at_def)
  show ?thesis
  proof (cases "k = n")
    case True
    define m' where "m' = set_nxt (um h) prev (nxt (um h) a)"
    note t = take_whole [OF r u m'_def [unfolded prev_def]]
    have "take_block k prev a h = (a + 16, h\<lparr>um := m', freep := prev\<rparr>)"
      using True sa by (simp add: take_block_def m'_def)
    moreover have "heap_ok (h\<lparr>um := m', freep := prev\<rparr>) hs (xs @ ys) (w(a := Some k))"
      using h t f p0 pin True by (auto simp: heap_ok_def)
    moreover have "same_blocks w h (h\<lparr>um := m', freep := prev\<rparr>)" using t by (simp add: same_blocks_def)
    ultimately show ?thesis using t up [OF ring_node_at [OF r, of a]] unfolding prev_def by auto
  next
    case False
    define q where "q = a + 16 * (n - k)"
    define m' where "m' = set_siz (set_siz (um h) a (n - k)) q k"
    have k': "k < n" using k False by simp
    note t = take_end [OF r u k(1) k' q_def m'_def]
    have "take_block k prev a h = (q + 16, h\<lparr>um := m', freep := prev\<rparr>)"
      using False sa by (simp add: take_block_def m'_def q_def Let_def)
    moreover have ok: "heap_ok (h\<lparr>um := m', freep := prev\<rparr>) hs (xs @ (a, n - k) # ys) (w(q := Some k))"
      using h t f p0 pin by (auto simp: heap_ok_def)
    moreover have "same_blocks w h (h\<lparr>um := m', freep := prev\<rparr>)" using t by (simp add: same_blocks_def)
    moreover have "hdr_at q"
    proof -
      have "used_ok m' (xs @ (a, n - k) # ys) (w(q := Some k)) hs (unat (seg_end h))" using t by blast
      from used_okD(3) [OF this, of q k] show ?thesis using r by (simp add: hdr_at_def blk_end_def ring_ok_def)
    qed
    ultimately show ?thesis using t up [of q] unfolding prev_def by auto
  qed
qed

lemma units_of_unat:
  assumes "unat nbytes < 2 ^ 61"
  shows "unat (units_of nbytes) = (unat nbytes + 15) div 16 + 1"
proof -
  have "unat (nbytes + 16 - 1) = unat nbytes + 15"
    using assms unat_add_small [of nbytes 15] by (simp add: add.commute)
  then have "unat ((nbytes + 16 - 1) div 16) = (unat nbytes + 15) div 16" by (simp add: unat_div_distrib)
  moreover have "(unat nbytes + 15) div 16 < 2 ^ 61" using assms by (intro less_mult_imp_div_less) simp
  ultimately show ?thesis unfolding units_of_def by (simp add: unat_plus_if')
qed

lemma malloc_ok:
  assumes h0: "heap_ok h0 hs fs0 w" and n: "unat nbytes < 2 ^ 61"
  shows "\<exists>p h1 fs1. u_malloc nbytes h0 = Some (p, h1) \<and> same_blocks w h0 h1 \<and>
    (p = 0 \<and> heap_ok h1 hs fs1 w \<or>
     p \<noteq> 0 \<and> w (p - 16) = None \<and> heap_ok h1 hs fs1 (w(p - 16 := Some (units_of nbytes))))"
proof -
  define k where "k = units_of nbytes"
  have "unat k < 2 ^ 58" "0 < unat k" using units_of_unat [OF n] n by (simp_all add: k_def)
  then have k: "0 < k" "unat k < 2 ^ 58" by (simp_all add: word_less_nat_alt)
  define h where "h = init_ring h0"
  have h: "heap_ok h hs fs0 w" "freep h \<noteq> 0" "same_blocks w h0 h" using init_ring_ok [OF h0] by (simp_all add: h_def)
  have m: "u_malloc nbytes h0 = malloc_loop k (freep h) (nxt (um h) (freep h)) h"
    by (simp add: u_malloc_def k_def h_def Let_def)
  have search: "(\<exists>xs a j ys. fs = xs @ (a, j) # ys \<and> k \<le> j \<and>
        malloc_loop k (freep h1) (nxt (um h1) (freep h1)) h1 = Some (take_block k (last_hdr (base_at h1) xs) a h1)) \<or>
      (\<forall>b\<in>set fs. snd b < k) \<and> malloc_loop k (freep h1) (nxt (um h1) (freep h1)) h1 = out_of_blocks k h1"
    if "heap_ok h1 hs fs w" "freep h1 \<noteq> 0" for h1 fs
  proof -
    have r: "ring_ok (um h1) (base_at h1) fs hs (unat (seg_end h1))" "freep h1 \<in> insert (base_at h1) (fst ` set fs)"
      using that by (simp_all add: heap_ok_def)
    then show ?thesis using k(1) by (intro malloc_search ring_apart(2) [OF r(1)]) (simp_all add: ring_ok_def)
  qed
  have take: "\<exists>p h2 fs2. take_block k (last_hdr (base_at h1) xs) a h1 = (p, h2) \<and> same_blocks w h0 h2 \<and> p \<noteq> 0 \<and>
      w (p - 16) = None \<and> heap_ok h2 hs fs2 (w(p - 16 := Some k))"
    if "heap_ok h1 hs (xs @ (a, j) # ys) w" "freep h1 \<noteq> 0" "k \<le> j" "same_blocks w h0 h1" for h1 xs a j ys
    using take_block_ok [OF that(1,2) k(1) that(3)] same_blocks_trans [OF that(4)] by blast
  from search [OF h(1,2)] show ?thesis
  proof (elim disjE exE conjE)
    fix xs a j ys assume "fs0 = xs @ (a, j) # ys" "k \<le> j"
      "malloc_loop k (freep h) (nxt (um h) (freep h)) h = Some (take_block k (last_hdr (base_at h) xs) a h)"
    then show ?thesis using take [of h xs a j ys] h unfolding m k_def [symmetric] by auto
  next
    assume o: "malloc_loop k (freep h) (nxt (um h) (freep h)) h = out_of_blocks k h"
    obtain r h1 fs1 where c: "morecore k h = Some (r, h1)" "heap_ok h1 hs fs1 w" "same_blocks w h h1" "freep h1 \<noteq> 0"
      "r = 0 \<or> (r = freep h1 \<and> (\<exists>b\<in>set fs1. k \<le> snd b))" using morecore_ok [OF h(1,2) k(2)] by blast
    have s1: "same_blocks w h0 h1" using same_blocks_trans [OF h(3) c(3)] .
    show ?thesis
    proof (cases "r = 0")
      case True
      then show ?thesis using c(1,2) s1 unfolding m o out_of_blocks_def by auto
    next
      case False
      then have r: "r = freep h1" "\<exists>b\<in>set fs1. k \<le> snd b" using c(5) by auto
      then have "\<not> (\<forall>b\<in>set fs1. snd b < k)" by (auto simp: not_less)
      then obtain xs a j ys where t: "fs1 = xs @ (a, j) # ys" "k \<le> j"
        "malloc_loop k (freep h1) (nxt (um h1) (freep h1)) h1 = Some (take_block k (last_hdr (base_at h1) xs) a h1)"
        using search [OF c(2,4)] by blast
      have "out_of_blocks k h = Some (take_block k (last_hdr (base_at h1) xs) a h1)"
        using False c(1) t(3) by (simp add: out_of_blocks_def r(1))
      then show ?thesis using take [of h1 xs a j ys] c(2,4) t(1,2) s1 unfolding m o k_def [symmetric] by auto
    qed
  qed
qed

end
