(* ===== verification/Malloc_Props.thy ===== *)
theory Malloc_Props
  imports Malloc_Heap User_Props
begin

text \<open>
  The heap as a program sees it: every sequence of calls and of writes into the blocks given out
  keeps the heap sound.
\<close>

section \<open>What a program sees\<close>

text \<open>
  A program calls the functions and writes into what they gave it; \<open>u\<close> maps each pointer it holds to
  the number of bytes it asked for. Sizes below \<open>2 ^ 61\<close>: from \<open>2 ^ 64 - 15\<close> on \<open>units_of\<close> wraps.
\<close>

definition fresh_heap :: "heap_state \<Rightarrow> bool" where
  "fresh_heap h \<longleftrightarrow> brk_cur h = 0 \<and> freep h = 0 \<and> USER_BASE \<le> seg_end h \<and> seg_end h \<le> USER_STACK_BASE \<and>
     base_at h \<noteq> 0 \<and> unat (base_at h) + 16 \<le> unat (seg_end h)"

inductive heap_run :: "heap_state \<Rightarrow> heap_state \<Rightarrow> (u64 \<Rightarrow> nat option) \<Rightarrow> bool" for h0 where
  start: "heap_run h0 h0 Map.empty"
| malloc: "heap_run h0 h u \<Longrightarrow> unat n < 2 ^ 61 \<Longrightarrow> u_malloc n h = Some (p, h') \<Longrightarrow>
    heap_run h0 h' (if p = 0 then u else u(p \<mapsto> unat n))"
| give_back: "heap_run h0 h u \<Longrightarrow> p \<in> dom u \<Longrightarrow> u_free p h = Some h' \<Longrightarrow> heap_run h0 h' (u(p := None))"
| store: "heap_run h0 h u \<Longrightarrow> u p = Some n \<Longrightarrow> i < n \<Longrightarrow> heap_run h0 (h\<lparr>um := (um h)(p + of_nat i := c)\<rparr>) u"
| realloc: "heap_run h0 h u \<Longrightarrow> p \<in> dom u \<Longrightarrow> 0 < unat n \<Longrightarrow> unat n < 2 ^ 61 \<Longrightarrow> u_realloc p n h = Some (q, h') \<Longrightarrow>
    heap_run h0 h' (if q = 0 then u else u(p := None, q \<mapsto> unat n))"
| calloc: "heap_run h0 h u \<Longrightarrow> unat m * unat n < 2 ^ 61 \<Longrightarrow> u_calloc m n h = Some (p, h') \<Longrightarrow>
    heap_run h0 h' (if p = 0 then u else u(p \<mapsto> unat m * unat n))"

text \<open>The blocks behind the pointers have room for the bytes.\<close>

definition holds :: "(u64 \<Rightarrow> nat option) \<Rightarrow> (u64 \<Rightarrow> u64 option) \<Rightarrow> bool" where
  "holds u w \<longleftrightarrow> (\<forall>p. p \<in> dom u \<longleftrightarrow> p - 16 \<in> dom w) \<and>
     (\<forall>p n k. u p = Some n \<longrightarrow> w (p - 16) = Some k \<longrightarrow> n + 16 \<le> 16 * unat k)"

text \<open>The bytes of a pointer lie behind the header of its block.\<close>

lemma holds_bytes:
  assumes h: "heap_ok h hs fs w" and hw: "holds u w" and p: "u p = Some n"
  shows "\<exists>k. w (p - 16) = Some k \<and> unat p = unat (p - 16) + 16 \<and> unat p + n \<le> blk_end (p - 16, k) \<and>
    {unat p..<unat p + n} \<subseteq> span (p - 16, k) \<and> hs + 16 \<le> unat p \<and> unat p + n \<le> unat (seg_end h) \<and> n + 16 \<le> 16 * unat k"
proof -
  obtain k where k: "w (p - 16) = Some k" "n + 16 \<le> 16 * unat k" using hw p unfolding holds_def by blast
  have f: "freep h \<noteq> 0" using h k(1) by (auto simp: heap_ok_def)
  have us: "used_ok (um h) fs w hs (unat (seg_end h))" "unat (seg_end h) < 2 ^ 62"
    using h f seg_small [of h] by (simp_all add: heap_ok_def)
  note uk = used_okD [OF us(1) k(1)]
  have "unat (p - 16) < 2 ^ 62" using uk(3) us(2) by (simp add: blk_end_def)
  then have up: "unat p = unat (p - 16) + 16" using unat_add_small [of "p - 16" 16] by simp
  show ?thesis using k up uk by (intro exI [of _ k]) (auto simp: span_def blk_end_def)
qed

lemma holds_apart:
  assumes h: "heap_ok h hs fs w" and hw: "holds u w" and p: "u p = Some n" and q: "u q = Some m" and ne: "p \<noteq> q"
  shows "{unat p..<unat p + n} \<inter> {unat q..<unat q + m} = {}"
proof -
  obtain k where k: "w (p - 16) = Some k" "{unat p..<unat p + n} \<subseteq> span (p - 16, k)" using holds_bytes [OF h hw p] by blast
  obtain l where l: "w (q - 16) = Some l" "{unat q..<unat q + m} \<subseteq> span (q - 16, l)" using holds_bytes [OF h hw q] by blast
  have f: "freep h \<noteq> 0" using h k(1) by (auto simp: heap_ok_def)
  then have "used_ok (um h) fs w hs (unat (seg_end h))" using h by (simp add: heap_ok_def)
  from used_okD(6) [OF this k(1) l(1)] ne have "span (p - 16, k) \<inter> span (q - 16, l) = {}" by simp
  then show ?thesis using k(2) l(2) by blast
qed

text \<open>Writing behind the header of a block in use changes nothing the heap rests on.\<close>

lemma heap_ok_payload:
  assumes h: "heap_ok h hs fs w" and a: "w a = Some k"
    and m: "\<And>x. \<not> (unat a + 16 \<le> unat x \<and> unat x < blk_end (a, k)) \<Longrightarrow> m' x = um h x"
  shows "heap_ok (h\<lparr>um := m'\<rparr>) hs fs w"
proof -
  have f: "freep h \<noteq> 0" using h a by (auto simp: heap_ok_def)
  have r: "ring_ok (um h) (base_at h) fs hs (unat (seg_end h))"
    and u: "used_ok (um h) fs w hs (unat (seg_end h))" using h f by (simp_all add: heap_ok_def)
  note ua = used_okD [OF u a]
  have node: "nxt m' c = nxt (um h) c \<and> siz m' c = siz (um h) c" if c: "c \<in> insert (base_at h) (fst ` set fs)" for c
  proof -
    have "unat x \<notin> span (a, k)" if "unat x \<in> {unat c..<unat c + 16}" for x :: u64
      using ring_node_cover [OF r c]
    proof
      assume "{unat c..<unat c + 16} \<subseteq> cover fs"
      then show ?thesis using ua(5) that by blast
    qed (use ua(1) that r in \<open>auto simp: span_def ring_ok_def\<close>)
    then have "m' x = um h x" if "unat x \<in> {unat c..<unat c + 16}" for x
      using that by (intro m) (auto simp: span_def)
    from hdr_bytes_eq [OF ring_node_at [OF r c] this] show ?thesis by simp
  qed
  have "chain m' (base_at h) fs (base_at h) \<longleftrightarrow> chain (um h) (base_at h) fs (base_at h)"
    by (rule heap_chain_cong) (use node in simp_all)
  then have r': "ring_ok m' (base_at h) fs hs (unat (seg_end h))" using r node [of "base_at h"] by (simp add: ring_ok_def)
  have "siz m' b = siz (um h) b" if b: "w b = Some l" for b l
  proof -
    note ub = used_okD [OF u b]
    have "hdr_at b" using ub r by (simp add: hdr_at_def blk_end_def ring_ok_def)
    moreover have "m' x = um h x" if x: "unat x \<in> {unat b..<unat b + 16}" for x
    proof (rule m)
      have "unat x \<in> span (b, l)" using hdr_in_span [of "(b, l)"] ub(2) x by auto
      then show "\<not> (unat a + 16 \<le> unat x \<and> unat x < blk_end (a, k))"
        using used_okD(6) [OF u a b] x by (cases "a = b") (auto simp: span_def)
    qed
    ultimately show ?thesis by (rule hdr_bytes_eq(2))
  qed
  then have "used_ok m' fs w hs (unat (seg_end h))" using u unfolding used_ok_def by simp
  then show ?thesis using h f r' by (simp add: heap_ok_def)
qed

lemma holds_new:
  assumes "holds u w" and "w (p - 16) = None" and "n + 16 \<le> 16 * unat k"
  shows "holds (u(p \<mapsto> n)) (w(p - 16 := Some k))" and "p \<notin> dom u"
proof -
  have i: "(q - 16 = p - 16) = (q = p)" for q :: u64 by simp
  show "p \<notin> dom u" using assms(1,2) unfolding holds_def by auto
  show "holds (u(p \<mapsto> n)) (w(p - 16 := Some k))" using assms unfolding holds_def by (auto simp: i)
qed

lemma holds_gone: "holds u w \<Longrightarrow> holds (u(p := None)) (w(p - 16 := None))"
  unfolding holds_def by auto

lemma units_room: "unat n < 2 ^ 61 \<Longrightarrow> unat n + 16 \<le> 16 * unat (units_of n)"
proof -
  assume n: "unat n < 2 ^ 61"
  have "16 * ((unat n + 15) div 16) + (unat n + 15) mod 16 = unat n + 15" "(unat n + 15) mod 16 < 16" by simp_all
  then have "unat n \<le> 16 * ((unat n + 15) div 16)" by linarith
  then show ?thesis by (simp add: units_of_unat [OF n])
qed

lemma same_payload:
  assumes "heap_ok h hs fs w" and "holds u w" and "same_blocks w h h'" and "u q = Some n" and "unat x \<in> {unat q..<unat q + n}"
  shows "um h' x = um h x"
proof -
  obtain k where "w (q - 16) = Some k" "{unat q..<unat q + n} \<subseteq> span (q - 16, k)" using holds_bytes [OF assms(1,2,4)] by blast
  then show ?thesis using assms(3,5) unfolding same_blocks_def by blast
qed

text \<open>\<^verbatim>\<open>realloc\<close>: nothing, the same block, or a new one with the old bytes.\<close>

lemma realloc_ok:
  assumes h: "heap_ok h hs fs w" and hw: "holds u w" and p: "u p = Some n" and sz: "0 < unat sz" "unat sz < 2 ^ 61"
  shows "\<exists>q h1 fs1 w1. u_realloc p sz h = Some (q, h1) \<and> heap_ok h1 hs fs1 w1 \<and>
    (q = 0 \<and> w1 = w \<and> same_blocks w h h1 \<or>
     q = p \<and> h1 = h \<and> w1 = w \<and> unat sz + 16 \<le> 16 * unat (the (w (p - 16))) \<or>
     q \<noteq> 0 \<and> q \<notin> dom u \<and> w (q - 16) = None \<and> w1 = w(p - 16 := None, q - 16 := Some (units_of sz)) \<and>
     same_blocks (w(p - 16 := None)) h h1 \<and> (\<forall>i<n. um h1 (q + of_nat i) = um h (p + of_nat i)))"
proof -
  obtain k where k: "w (p - 16) = Some k" "unat p = unat (p - 16) + 16" "{unat p..<unat p + n} \<subseteq> span (p - 16, k)" "n + 16 \<le> 16 * unat k"
    using holds_bytes [OF h hw p] by blast
  have f: "freep h \<noteq> 0" using h k(1) by (auto simp: heap_ok_def)
  have us: "used_ok (um h) fs w hs (unat (seg_end h))" "unat (seg_end h) < 2 ^ 62"
    using h f seg_small [of h] by (simp_all add: heap_ok_def)
  note uk = used_okD [OF us(1) k(1)]
  have p0: "p \<noteq> 0" using k(2) by auto
  define old where "old = (k - 1) * 16"
  have k1: "unat (k - 1) = unat k - 1" using uk(2) by (simp add: unat_sub word_le_nat_alt)
  have "unat k < 2 ^ 58" using uk(3) us(2) by (simp add: blk_end_def)
  then have uo: "unat old = 16 * (unat k - 1)" unfolding old_def using k1 by (subst unat_mult_lem [THEN iffD1]) auto
  have no: "n \<le> unat old" using k(4) uo by simp
  have re: "u_realloc p sz h = (if sz \<le> old then Some (p, h)
      else Option.bind (u_malloc sz h) (\<lambda>r. if fst r = 0 then Some (0, snd r)
        else map_option (\<lambda>h3. (fst r, h3)) (u_free p ((snd r)\<lparr>um := memcpy (um (snd r)) (fst r) p (unat old)\<rparr>))))"
  proof -
    have e: "(siz (um h) (p - 16) - 1) * 16 = old" by (simp only: uk(4) old_def)
    have "sz \<noteq> 0" using sz(1) by auto
    moreover have "\<not> sz \<le> old \<Longrightarrow> old < sz" by simp
    ultimately show ?thesis unfolding u_realloc_def Let_def e using p0
      by (cases "sz \<le> old") (simp_all only: if_True if_False simp_thms)
  qed
  show ?thesis
  proof (cases "sz \<le> old")
    case True
    then have "unat sz + 16 \<le> 16 * unat (the (w (p - 16)))" using uo uk(2) k(1) by (simp add: word_le_nat_alt)
    then show ?thesis using True re h by auto
  next
    case False
    obtain q h1 fs1 where m: "u_malloc sz h = Some (q, h1)" "same_blocks w h h1"
      and c: "q = 0 \<and> heap_ok h1 hs fs1 w \<or> q \<noteq> 0 \<and> w (q - 16) = None \<and> heap_ok h1 hs fs1 (w(q - 16 := Some (units_of sz)))"
      using malloc_ok [OF h sz(2)] by blast
    show ?thesis
    proof (cases "q = 0")
      case True
      then show ?thesis using m c re False by auto
    next
      case q0: False
      define w2 where "w2 = w(q - 16 := Some (units_of sz))"
      have ok1: "w (q - 16) = None" "heap_ok h1 hs fs1 w2" using c q0 by (simp_all add: w2_def)
      note qn = holds_new [OF hw ok1(1) units_room [OF sz(2)]]
      have pq: "p \<noteq> q" "p - 16 \<noteq> q - 16" using qn(2) p by auto
      note bq = holds_bytes [OF ok1(2) qn(1) [folded w2_def], of q "unat sz"]
      have uq: "unat q = unat (q - 16) + 16" "unat q + unat sz \<le> blk_end (q - 16, units_of sz)" "unat q + unat sz \<le> unat (seg_end h1)"
        using bq by (simp_all add: w2_def)
      have small1: "unat (seg_end h1) < 2 ^ 62" using ok1(2) by (intro seg_small) (simp add: heap_ok_def)
      have lt: "unat old < unat sz" using False by (simp add: word_le_nat_alt)
      have "{unat p..<unat p + n} \<inter> {unat q..<unat q + unat sz} = {}"
        using pq p by (intro holds_apart [OF ok1(2) qn(1) [folded w2_def]]) auto
      have f1: "freep h1 \<noteq> 0" using ok1(2) by (auto simp: heap_ok_def w2_def)
      have u1: "used_ok (um h1) fs1 w2 hs (unat (seg_end h1))" using ok1(2) f1 by (simp add: heap_ok_def)
      have kw2: "w2 (p - 16) = Some k" "w2 (q - 16) = Some (units_of sz)" using k(1) pq by (simp_all add: w2_def)
      have ap: "span (p - 16, k) \<inter> span (q - 16, units_of sz) = {}" using used_okD(6) [OF u1 kw2] pq by simp
      have inp: "{unat p..<unat p + unat old} \<subseteq> span (p - 16, k)" using k(2) uo by (auto simp: span_def blk_end_def)
      have inq: "{unat q..<unat q + unat old} \<subseteq> span (q - 16, units_of sz)" using uq lt by (auto simp: span_def)
      have "unat old \<le> unat (q - p)"
      proof (cases "unat old = 0")
        case False
        have "{unat p..<unat p + unat old} \<inter> {unat q..<unat q + unat old} = {}" using ap inp inq by blast
        then have "unat p + unat old \<le> unat q \<or> unat q + unat old \<le> unat p" using False by auto
        moreover have "unat p < 2 ^ 62" "unat q < 2 ^ 62" "unat old < 2 ^ 62"
          using k(2) uk(3) us(2) uq small1 uo uk(2) by (simp_all add: blk_end_def)
        ultimately show ?thesis by (auto simp: unat_sub_if')
      qed simp
      note cp = memcpy_apply [OF this]
      define h2 where "h2 = h1\<lparr>um := memcpy (um h1) q p (unat old)\<rparr>"
      have qin: "unat (x - q) < unat old \<longleftrightarrow> unat x \<in> {unat q..<unat q + unat old}" for x
        using uq(3) lt small1 by (intro in_range) simp
      have ok2: "heap_ok h2 hs fs1 w2"
        unfolding h2_def
      proof (rule heap_ok_payload [OF ok1(2) kw2(2)])
        fix x :: u64 assume "\<not> (unat (q - 16) + 16 \<le> unat x \<and> unat x < blk_end (q - 16, units_of sz))"
        then have "\<not> unat (x - q) < unat old" unfolding qin using uq lt by auto
        then show "memcpy (um h1) q p (unat old) x = um h1 x" unfolding cp by simp
      qed
      obtain h3 fs3 where fr: "u_free p h2 = Some h3" "heap_ok h3 hs fs3 (w2(p - 16 := None))" "same_blocks (w2(p - 16 := None)) h2 h3"
        using free_ok [OF ok2 kw2(1)] by auto
      have w': "w2(p - 16 := None) = w(p - 16 := None, q - 16 := Some (units_of sz))" using pq by (auto simp: w2_def)
      have "same_blocks (w(p - 16 := None)) h h3"
        unfolding same_blocks_def
      proof (intro conjI allI impI)
        show "base_at h3 = base_at h" "seg_end h \<le> seg_end h3"
          using m(2) fr(3) by (auto simp: same_blocks_def h2_def)
        fix a l and x :: u64 assume a: "(w(p - 16 := None)) a = Some l" and x: "unat x \<in> span (a, l)"
        then have wa: "w a = Some l" "a \<noteq> p - 16" by (auto split: if_splits)
        then have aq: "a \<noteq> q - 16" using ok1(1) by auto
        then have wa2: "w2 a = Some l" using wa(1) by (simp add: w2_def)
        have "um h3 x = um h2 x" using x wa wa2 by (intro same_blocksD [OF fr(3), of a l]) simp_all
        also have "\<dots> = um h1 x"
        proof -
          have "span (a, l) \<inter> span (q - 16, units_of sz) = {}" using used_okD(6) [OF u1 wa2 kw2(2)] aq by simp
          then have "\<not> unat (x - q) < unat old" unfolding qin using x inq by blast
          then show ?thesis unfolding h2_def cp by (simp add: cp)
        qed
        also have "\<dots> = um h x" using m(2) x wa(1) unfolding same_blocks_def by blast
        finally show "um h3 x = um h x" .
      qed
      moreover have "um h3 (q + of_nat i) = um h (p + of_nat i)" if i: "i < n" for i
      proof -
        have bd: "unat q < 2 ^ 63" "unat p < 2 ^ 63" "i < 2 ^ 63"
          using i no uq lt small1 k(2) uk(3) us(2) by (simp_all add: blk_end_def)
        have ui: "unat (q + of_nat i) = unat q + i" "unat (p + of_nat i) = unat p + i"
          by (rule unat_add_small [OF bd(1,3)], rule unat_add_small [OF bd(2,3)])
        have qi: "unat (q + of_nat i) \<in> span (q - 16, units_of sz)" using inq i no ui by auto
        have "um h3 (q + of_nat i) = um h2 (q + of_nat i)"
          using qi unfolding w' by (intro same_blocksD [OF fr(3) [unfolded w'], of "q - 16" "units_of sz"]) simp_all
        also have "\<dots> = um h1 (p + of_nat i)"
        proof -
          have "unat (q + of_nat i - q) < unat old" unfolding qin using ui i no by simp
          then show ?thesis unfolding h2_def by (simp add: cp)
        qed
        also have "\<dots> = um h (p + of_nat i)"
        proof -
          have "unat (p + of_nat i) \<in> span (p - 16, k)" using k(3) i ui by auto
          then show ?thesis using m(2) k(1) unfolding same_blocks_def by blast
        qed
        finally show ?thesis .
      qed
      moreover have "u_realloc p sz h = Some (q, h3)" using re False m(1) q0 fr(1) by (simp add: h2_def)
      ultimately show ?thesis using q0 qn(2) ok1(1) fr(2) unfolding w' by blast
    qed
  qed
qed

text \<open>Every state of a run has its sound heap.\<close>

lemma heap_run_ok:
  assumes "fresh_heap h0" and "heap_run h0 h u"
  shows "\<exists>fs w. heap_ok h (unat (seg_end h0)) fs w \<and> holds u w"
  using assms(2)
proof (induction rule: heap_run.induct)
  case start
  then show ?case using assms(1)
    by (intro exI [of _ "[]"] exI [of _ Map.empty]) (simp add: heap_ok_def fresh_heap_def holds_def)
next
  case (malloc h u n p h')
  then obtain fs w where h: "heap_ok h (unat (seg_end h0)) fs w" "holds u w" by blast
  obtain fs1 where c: "p = 0 \<and> heap_ok h' (unat (seg_end h0)) fs1 w \<or>
     p \<noteq> 0 \<and> w (p - 16) = None \<and> heap_ok h' (unat (seg_end h0)) fs1 (w(p - 16 := Some (units_of n)))"
    using malloc_ok [OF h(1) malloc.hyps(2)] malloc.hyps(3) by auto
  show ?case
  proof (cases "p = 0")
    case False
    then have o: "w (p - 16) = None" "heap_ok h' (unat (seg_end h0)) fs1 (w(p - 16 := Some (units_of n)))" using c by auto
    from holds_new(1) [OF h(2) o(1) units_room [OF malloc.hyps(2)]] o(2) show ?thesis
      unfolding if_not_P [OF False] by blast
  qed (use c h in auto)
next
  case (give_back h u p h')
  then obtain fs w where h: "heap_ok h (unat (seg_end h0)) fs w" "holds u w" by blast
  then obtain k where "w (p - 16) = Some k" using give_back.hyps(2) holds_bytes [OF h] by fastforce
  from free_ok [OF h(1) this] give_back.hyps(3)
  have "\<exists>fs1. heap_ok h' (unat (seg_end h0)) fs1 (w(p - 16 := None))" by auto
  then show ?case using holds_gone [OF h(2), of p] by blast
next
  case (store h u p n i c)
  then obtain fs w where h: "heap_ok h (unat (seg_end h0)) fs w" "holds u w" by blast
  obtain k where k: "w (p - 16) = Some k" "unat p = unat (p - 16) + 16" "unat p + n \<le> blk_end (p - 16, k)" "unat p + n \<le> unat (seg_end h)"
    using holds_bytes [OF h store.hyps(2)] by blast
  have "unat (seg_end h) < 2 ^ 62" using h(1) by (intro seg_small) (simp add: heap_ok_def)
  then have "unat (p + of_nat i) = unat p + i" using k(4) store.hyps(3) by (intro unat_add_small) simp_all
  then have "heap_ok (h\<lparr>um := (um h)(p + of_nat i := c)\<rparr>) (unat (seg_end h0)) fs w"
    using k store.hyps(3) by (intro heap_ok_payload [OF h(1) k(1)]) auto
  then show ?case using h(2) by blast
next
  case (realloc h u p n q h')
  then obtain fs w where h: "heap_ok h (unat (seg_end h0)) fs w" "holds u w" by blast
  obtain m where m: "u p = Some m" using realloc.hyps(2) by auto
  obtain fs1 w1 where r: "heap_ok h' (unat (seg_end h0)) fs1 w1"
    "q = 0 \<and> w1 = w \<or> q = p \<and> w1 = w \<and> unat n + 16 \<le> 16 * unat (the (w (p - 16))) \<or>
     q \<noteq> 0 \<and> q \<notin> dom u \<and> w (q - 16) = None \<and> w1 = w(p - 16 := None, q - 16 := Some (units_of n))"
    using realloc_ok [OF h m realloc.hyps(3,4)] realloc.hyps(5) by (auto; blast)
  have p0: "p \<noteq> 0" using holds_bytes [OF h m] by auto
  have "holds (if q = 0 then u else u(p := None, q \<mapsto> unat n)) w1"
    using r(2)
  proof (elim disjE conjE)
    assume "q = p" "w1 = w" "unat n + 16 \<le> 16 * unat (the (w (p - 16)))"
    then show ?thesis using h(2) m p0 unfolding holds_def by (auto split: if_splits)
  next
    assume q: "q \<noteq> 0" "q \<notin> dom u" "w (q - 16) = None" "w1 = w(p - 16 := None, q - 16 := Some (units_of n))"
    then have "(w(p - 16 := None)) (q - 16) = None" by simp
    from holds_new(1) [OF holds_gone [OF h(2), of p] this units_room [OF realloc.hyps(4)]]
    show ?thesis unfolding if_not_P [OF q(1)] q(4) .
  qed (use h(2) in simp)
  then show ?case using r(1) by blast
next
  case (calloc h u m n p h')
  then obtain fs w where h: "heap_ok h (unat (seg_end h0)) fs w" "holds u w" by blast
  have mn: "unat (m * n) = unat m * unat n" using calloc.hyps(2) by (simp add: unat_mult_lem [THEN iffD1])
  then have lt: "unat (m * n) < 2 ^ 61" using calloc.hyps(2) by simp
  obtain q h1 fs1 where a: "u_malloc (m * n) h = Some (q, h1)"
    "q = 0 \<and> heap_ok h1 (unat (seg_end h0)) fs1 w \<or>
     q \<noteq> 0 \<and> w (q - 16) = None \<and> heap_ok h1 (unat (seg_end h0)) fs1 (w(q - 16 := Some (units_of (m * n))))"
    using malloc_ok [OF h(1) lt] by blast
  show ?case
  proof (cases "q = 0")
    case True
    then have "p = 0" "h' = h1" using calloc.hyps(3) a(1) by (auto simp: u_calloc_def Let_def)
    then show ?thesis using a(2) h(2) True by auto
  next
    case False
    then have e: "p = q" "h' = h1\<lparr>um := memset (um h1) q 0 (unat (m * n))\<rparr>"
      using calloc.hyps(3) a(1) by (auto simp: u_calloc_def Let_def)
    have o: "heap_ok h1 (unat (seg_end h0)) fs1 (w(q - 16 := Some (units_of (m * n))))" "w (q - 16) = None" using a(2) False by auto
    note ho = holds_new(1) [OF h(2) o(2) units_room [OF lt]]
    have b: "unat q = unat (q - 16) + 16" "unat q + unat (m * n) \<le> blk_end (q - 16, units_of (m * n))"
      "unat q + unat (m * n) \<le> unat (seg_end h1)" using holds_bytes [OF o(1) ho, of q] by auto
    have "unat (seg_end h1) < 2 ^ 62" using o(1) by (intro seg_small) (simp add: heap_ok_def)
    then have r: "unat (x - q) < unat (m * n) \<longleftrightarrow> unat x \<in> {unat q..<unat q + unat (m * n)}" for x
      using b(3) by (intro in_range) simp
    have mm: "memset (um h1) q 0 (unat (m * n)) x = um h1 x"
      if "\<not> (unat (q - 16) + 16 \<le> unat x \<and> unat x < blk_end (q - 16, units_of (m * n)))" for x
    proof -
      have "\<not> unat (x - q) < unat (m * n)" unfolding r using that b(1,2) by auto
      then show ?thesis using lt by (simp add: memset_store_bytes store_bytes_apply)
    qed
    have "heap_ok h' (unat (seg_end h0)) fs1 (w(q - 16 := Some (units_of (m * n))))"
      unfolding e(2)
    proof (rule heap_ok_payload [OF o(1)])
      show "(w(q - 16 := Some (units_of (m * n)))) (q - 16) = Some (units_of (m * n))" by simp
    qed (rule mm)
    then show ?thesis using ho unfolding e(1) if_not_P [OF False] mn by blast
  qed
qed

text \<open>
  C26. Whatever a program does with \<^verbatim>\<open>malloc\<close>, \<^verbatim>\<open>calloc\<close>, \<^verbatim>\<open>realloc\<close>, \<^verbatim>\<open>free\<close> and the bytes it was given, the blocks
  it holds lie in the memory the kernel gave it, no two of them share a byte, and the next
  \<^verbatim>\<open>malloc\<close> and \<^verbatim>\<open>free\<close> return (the loops through the ring end) with every byte of the other blocks
  as it was.
\<close>
theorem malloc_sound:
  assumes "fresh_heap h0" and "heap_run h0 h u"
  shows "(\<forall>p n. u p = Some n \<longrightarrow> p \<noteq> 0 \<and> unat (seg_end h0) < unat p \<and> unat p + n \<le> unat (seg_end h)) \<and>
    (\<forall>p n q m. u p = Some n \<longrightarrow> u q = Some m \<longrightarrow> p \<noteq> q \<longrightarrow> {unat p..<unat p + n} \<inter> {unat q..<unat q + m} = {}) \<and>
    (\<forall>n. unat n < 2 ^ 61 \<longrightarrow> (\<exists>p h'. u_malloc n h = Some (p, h') \<and> p \<notin> dom u \<and>
      (\<forall>q m x. u q = Some m \<longrightarrow> unat x \<in> {unat q..<unat q + m} \<longrightarrow> um h' x = um h x))) \<and>
    (\<forall>p\<in>dom u. \<exists>h'. u_free p h = Some h' \<and>
      (\<forall>q m x. q \<noteq> p \<longrightarrow> u q = Some m \<longrightarrow> unat x \<in> {unat q..<unat q + m} \<longrightarrow> um h' x = um h x))"
proof -
  obtain fs w where h: "heap_ok h (unat (seg_end h0)) fs w" "holds u w" using heap_run_ok [OF assms] by blast
  have bounds: "p \<noteq> 0 \<and> unat (seg_end h0) < unat p \<and> unat p + n \<le> unat (seg_end h)" if "u p = Some n" for p n
    using holds_bytes [OF h that] by auto
  have alloc: "\<exists>p h'. u_malloc n h = Some (p, h') \<and> p \<notin> dom u \<and>
      (\<forall>q m x. u q = Some m \<longrightarrow> unat x \<in> {unat q..<unat q + m} \<longrightarrow> um h' x = um h x)" if n: "unat n < 2 ^ 61" for n
  proof -
    obtain p h1 where c: "u_malloc n h = Some (p, h1)" "same_blocks w h h1" "p = 0 \<or> w (p - 16) = None"
      using malloc_ok [OF h(1) n] by blast
    have "p \<notin> dom u" using c(3) bounds h(2) unfolding holds_def by blast
    then show ?thesis using c same_payload [OF h c(2)] by blast
  qed
  have free: "\<exists>h'. u_free p h = Some h' \<and>
      (\<forall>q m x. q \<noteq> p \<longrightarrow> u q = Some m \<longrightarrow> unat x \<in> {unat q..<unat q + m} \<longrightarrow> um h' x = um h x)" if p: "p \<in> dom u" for p
  proof -
    obtain k where k: "w (p - 16) = Some k" using p holds_bytes [OF h] by fastforce
    obtain h1 where f: "u_free p h = Some h1" "same_blocks (w(p - 16 := None)) h h1" using free_ok [OF h(1) k] by auto
    have "um h1 x = um h x" if q: "q \<noteq> p" "u q = Some m" "unat x \<in> {unat q..<unat q + m}" for q m x
    proof -
      obtain l where "w (q - 16) = Some l" "{unat q..<unat q + m} \<subseteq> span (q - 16, l)" using holds_bytes [OF h q(2)] by blast
      then show ?thesis using q(1,3) by (intro same_blocksD [OF f(2), of "q - 16" l]) auto
    qed
    then show ?thesis using f(1) by blast
  qed
  show ?thesis using bounds alloc free holds_apart [OF h] by blast
qed

text \<open>
  C27. \<^verbatim>\<open>realloc\<close> of a block a program holds, to a size from 1 to \<open>2 ^ 61 - 1\<close>, returns; when it does
  not give \<^verbatim>\<open>NULL\<close>, the bytes of the old block are at the new place, up to the smaller size, and
  every other block keeps its bytes.  After \<^verbatim>\<open>NULL\<close> the old block is still there, unchanged.
  (A \<^verbatim>\<open>realloc\<close> to 0 frees the block and gives \<^verbatim>\<open>NULL\<close>: \<open>realloc_zero\<close>.)
\<close>
theorem realloc_keeps:
  assumes "fresh_heap h0" and "heap_run h0 h u" and "u p = Some n" and "0 < unat sz" and "unat sz < 2 ^ 61"
  shows "\<exists>q h'. u_realloc p sz h = Some (q, h') \<and>
    (if q = 0 then \<forall>i<n. um h' (p + of_nat i) = um h (p + of_nat i)
     else \<forall>i<min n (unat sz). um h' (q + of_nat i) = um h (p + of_nat i)) \<and>
    (\<forall>r m i. u r = Some m \<longrightarrow> r \<noteq> p \<longrightarrow> i < m \<longrightarrow> um h' (r + of_nat i) = um h (r + of_nat i))"
proof -
  obtain fs w where h: "heap_ok h (unat (seg_end h0)) fs w" "holds u w" using heap_run_ok [OF assms(1,2)] by blast
  have at: "unat (r + of_nat i) \<in> {unat r..<unat r + m}" if r: "u r = Some m" "i < m" for r m i
  proof -
    have "unat (seg_end h) < 2 ^ 62" using h(1) by (intro seg_small) (simp add: heap_ok_def)
    then have "unat (r + of_nat i) = unat r + i"
      using holds_bytes [OF h r(1)] r(2) by (intro unat_add_small) auto
    then show ?thesis using r(2) by simp
  qed
  obtain q h1 where r: "u_realloc p sz h = Some (q, h1)"
    "q = 0 \<and> same_blocks w h h1 \<or> q = p \<and> h1 = h \<or>
     q \<noteq> 0 \<and> same_blocks (w(p - 16 := None)) h h1 \<and> (\<forall>i<n. um h1 (q + of_nat i) = um h (p + of_nat i))"
    using realloc_ok [OF h assms(3-5)] by blast
  have other: "um h1 (r + of_nat i) = um h (r + of_nat i)"
    if s: "same_blocks (w(p - 16 := None)) h h1" and b: "u r = Some m" "r \<noteq> p" "i < m" for r m i
  proof -
    obtain l where "w (r - 16) = Some l" "{unat r..<unat r + m} \<subseteq> span (r - 16, l)" using holds_bytes [OF h b(1)] by blast
    then show ?thesis using b(2) at [OF b(1,3)] by (intro same_blocksD [OF s, of "r - 16" l]) auto
  qed
  from r(2) show ?thesis
  proof (elim disjE conjE)
    assume "q = 0" "same_blocks w h h1"
    then show ?thesis using r(1) same_payload [OF h, of h1] at assms(3) by auto
  next
    assume "q = p" "h1 = h"
    then show ?thesis using r(1) by auto
  next
    assume "q \<noteq> 0" "same_blocks (w(p - 16 := None)) h h1" "\<forall>i<n. um h1 (q + of_nat i) = um h (p + of_nat i)"
    then show ?thesis using r(1) other by auto
  qed
qed

lemma realloc_zero: "p \<noteq> 0 \<Longrightarrow> u_realloc p 0 h = map_option (\<lambda>h1. (0, h1)) (u_free p h)"
  by (simp add: u_realloc_def)

text \<open>A program with 4 KiB between its static data and the end of its segment.\<close>

definition demo_heap :: heap_state where
  "demo_heap = \<lparr>um = (\<lambda>_. 0), freep = 0, base_at = 0x401000, brk_cur = 0, seg_end = 0x402000, grants = [True]\<rparr>"

lemma demo_heap_fresh: "fresh_heap demo_heap"
  by (simp add: fresh_heap_def demo_heap_def)

theorem malloc_sound_witness:
  "\<exists>p h1 q h2. u_malloc 100 demo_heap = Some (p, h1) \<and> u_malloc 50 h1 = Some (q, h2) \<and> (p = q \<longrightarrow> p = 0)"
proof -
  note m = malloc_sound [OF demo_heap_fresh, THEN conjunct2, THEN conjunct2, THEN conjunct1, rule_format]
  have s: "unat (100 :: u64) < 2 ^ 61" "unat (50 :: u64) < 2 ^ 61" by simp_all
  obtain p h1 where p: "u_malloc 100 demo_heap = Some (p, h1)" using m [OF heap_run.start s(1)] by blast
  note r = heap_run.malloc [OF heap_run.start s(1) p]
  obtain q h2 where "u_malloc 50 h1 = Some (q, h2)" "q \<notin> dom (if p = 0 then Map.empty else [p \<mapsto> unat (100 :: u64)])"
    using m [OF r s(2)] by blast
  then show ?thesis using p by (cases "p = 0") auto
qed

text \<open>Its first \<^verbatim>\<open>malloc\<close> gets 16 KiB from the kernel and cuts the block from their end.\<close>

lemma word_apart_num:
  "hdr_at (a :: u64) \<Longrightarrow> hdr_at b \<Longrightarrow> unat a + 16 \<le> unat b \<or> unat b + 16 \<le> unat a \<Longrightarrow> hdr_apart a b"
  by (auto simp: hdr_apart_def)

lemma demo_malloc:
  "\<exists>h1. u_malloc 100 demo_heap = Some (0x405F90, h1)"
proof -
  let ?B = "0x401000 :: u64" and ?P = "0x402000 :: u64"
  define m0 where "m0 = set_siz (set_nxt (\<lambda>_. 0) ?B ?B) ?B 0"
  have at: "hdr_at ?B" "hdr_at ?P" "hdr_at (0x405F80 :: u64)" by (simp_all add: hdr_at_def)
  have ap: "hdr_apart ?B ?P" "hdr_apart ?P ?B" "hdr_apart (0x405F80 :: u64) ?B" "hdr_apart (0x405F80 :: u64) ?P"
      "hdr_apart ?B (0x405F80 :: u64)" "hdr_apart ?P (0x405F80 :: u64)"
    by (simp_all add: word_apart_num at)
  define h0 where "h0 = demo_heap\<lparr>freep := ?B, um := m0\<rparr>"
  have i: "init_ring demo_heap = h0" by (simp add: init_ring_def h0_def m0_def demo_heap_def)
  have b0: "nxt m0 ?B = ?B" "siz m0 ?B = 0" using at by (simp_all add: m0_def)
  define m1 where "m1 = (\<lambda>x. if PGROUNDUP ?P \<le> x \<and> x < PGROUNDUP 0x406000 then 0 else m0 x)"
  define m2 where "m2 = set_siz m1 ?P 1024"
  have b2: "nxt m2 ?B = ?B" "siz m2 ?B = 0" "siz m2 ?P = 1024"
  proof -
    have "m1 x = m0 x" if "unat x \<in> {unat ?B..<unat ?B + 16}" for x
    proof -
      have "\<not> PGROUNDUP ?P \<le> x" using that by (simp add: PGROUNDUP_def word_le_nat_alt)
      then show ?thesis by (simp add: m1_def)
    qed
    from hdr_bytes_eq [OF at(1) this] have "nxt m1 ?B = ?B" "siz m1 ?B = 0" using b0 by auto
    then show "nxt m2 ?B = ?B" "siz m2 ?B = 0" "siz m2 ?P = 1024"
      using at ap by (simp_all add: m2_def hdr_other)
  qed
  let ?h = "h0\<lparr>um := m2, brk_cur := 0x406000, seg_end := 0x406000, grants := []\<rparr>"
  have sb: "u_sbrk 16384 h0 = (?P, h0\<lparr>um := m1, brk_cur := 0x406000, seg_end := 0x406000, grants := []\<rparr>)"
    by (simp add: u_sbrk_def brk_call_def h0_def demo_heap_def Let_def m1_def cong: if_cong)
  have fs: "free_scan m2 ?P ?B = Some ?B" by (simp add: free_scan.simps b2)
  define m3 where "m3 = link_left ?P ?B (link_right ?P ?B m2)"
  have m3: "m3 = set_nxt (set_nxt m2 ?P ?B) ?B ?P"
    using at ap by (simp add: m3_def link_right_def link_left_def b2 hdr_other)
  have b3: "nxt m3 ?B = ?P" "siz m3 ?B = 0" "siz m3 ?P = 1024"
    using at ap b2 by (simp_all add: m3 hdr_other)
  have mc: "morecore 8 h0 = Some (?B, ?h\<lparr>um := m3, freep := ?B\<rparr>)"
    by (simp add: morecore_def Let_def sb u_free_def init_ring_def fs m3_def m2_def [symmetric]) (simp add: h0_def fs)
  have n: "units_of 100 = 8" by (simp add: units_of_def)
  have "u_malloc 100 demo_heap = malloc_loop 8 ?B ?B h0"
    by (simp add: u_malloc_def i Let_def n) (simp add: h0_def b0)
  also have "\<dots> = malloc_loop 8 ?B ?P (?h\<lparr>um := m3, freep := ?B\<rparr>)"
    by (subst malloc_loop.simps) (simp add: mc b3, simp add: h0_def b0)
  also have "\<dots> = Some (take_block 8 ?B ?P (?h\<lparr>um := m3, freep := ?B\<rparr>))"
    by (subst malloc_loop.simps) (simp add: b3)
  finally show ?thesis using at by (simp add: take_block_def b3 Let_def)
qed

theorem realloc_keeps_witness:
  "\<exists>h1 q h2. u_malloc 100 demo_heap = Some (0x405F90, h1) \<and> u_realloc 0x405F90 200 h1 = Some (q, h2) \<and>
     (q \<noteq> 0 \<longrightarrow> (\<forall>i<100. um h2 (q + of_nat i) = um h1 (0x405F90 + of_nat i)))"
proof -
  obtain h1 where p: "u_malloc 100 demo_heap = Some (0x405F90, h1)" using demo_malloc by blast
  have "heap_run demo_heap h1 (if (0x405F90 :: u64) = 0 then Map.empty else [0x405F90 \<mapsto> unat (100 :: u64)])"
    by (rule heap_run.malloc [OF heap_run.start _ p]) simp
  then have r: "heap_run demo_heap h1 [0x405F90 \<mapsto> 100]" by simp
  have "[0x405F90 \<mapsto> 100] (0x405F90 :: u64) = Some (100 :: nat)" "0 < unat (200 :: u64)" "unat (200 :: u64) < 2 ^ 61"
    by simp_all
  from realloc_keeps [OF demo_heap_fresh r this] show ?thesis using p by auto
qed

end
