(* ===== verification/User_Brk.thy ===== *)
theory User_Brk
  imports Syscall User_Malloc
begin

text \<open>
  The break of a program and the system call behind it: \<open>brk_call\<close>, which the heap rests on, answers
  what \<^verbatim>\<open>sys_brk\<close> of the kernel answers, and keeps the size the kernel keeps.
\<close>

lemma brk_call_sees:
  assumes "proc_current s = Some p" and "sys_brk addr s = Some (r, s')"
    and "seg_end h = pr_sz (g_procs s p)" and "grants h = (pr_sz (g_procs s' p) = addr) # gs"
  shows "r = sint (fst (brk_call addr h)) \<and> pr_sz (g_procs s' p) = seg_end (snd (brk_call addr h))"
proof -
  let ?sz = "pr_sz (g_procs s p)"
  consider "addr = 0 \<or> addr < USER_BASE \<or> USER_STACK_BASE < addr \<or> addr = ?sz"
    | "\<not> (addr = 0 \<or> addr < USER_BASE \<or> USER_STACK_BASE < addr)" "?sz < addr"
    | "\<not> (addr = 0 \<or> addr < USER_BASE \<or> USER_STACK_BASE < addr)" "addr < ?sz" by force
  then show ?thesis
  proof cases
    case 1
    then show ?thesis using assms by (auto simp: sys_brk_def brk_call_def Let_def split: if_splits)
  next
    case 2
    then obtain e m where "uvm_alloc (cur_pt s p) ?sz addr (PTE_R OR PTE_W OR PTE_U) (phys s) = Some (e, m)"
      using assms(1,2) by (auto simp: sys_brk_def Let_def bind_eq_Some_conv)
    then show ?thesis using 2 assms
      by (auto simp: sys_brk_def brk_call_def Let_def upd_proc_def set_phys_def split: if_splits)
  next
    case 3
    then show ?thesis using assms
      by (auto simp: sys_brk_def brk_call_def Let_def upd_proc_def set_phys_def split: if_splits prod.splits)
  qed
qed

end
