(* ===== verification/Fdt.thy ===== *)
theory Fdt
  imports Kstring
begin

text \<open>
  The flattened device tree the machine hands over at start: \<^verbatim>\<open>kernel/fdt.c\<close>, and
  \<^verbatim>\<open>firmware/fdt.c\<close>, which is the same scan without its tests of the bounds and with one more
  property.  The blob lies in memory at \<open>dtb\<close>; pointers are addresses and 32-bit fields wrap as in
  the source.  Theory \<open>Fdt_Props\<close> states what the scan finds in a blob made from a tree.

  \<open>None\<close> says that the scan does not come back: \<^verbatim>\<open>strlen\<close> finds no end, or the scan touches
  \<^verbatim>\<open>stack\<close> outside its 32 elements (33 nodes inside each other, or more ends than beginnings).
  The output pointers of \<^verbatim>\<open>fdt_scan\<close> are never null in the calls of the two files.
\<close>

definition lit :: "string \<Rightarrow> cstr" where
  "lit s = map (\<lambda>c. of_nat (of_char c)) s"

abbreviation (input) FDT_MAGIC :: u32 where "FDT_MAGIC \<equiv> 0xd00dfeed"
abbreviation (input) FDT_BEGIN_NODE :: u32 where "FDT_BEGIN_NODE \<equiv> 1"
abbreviation (input) FDT_END_NODE :: u32 where "FDT_END_NODE \<equiv> 2"
abbreviation (input) FDT_PROP :: u32 where "FDT_PROP \<equiv> 3"
abbreviation (input) FDT_NOP :: u32 where "FDT_NOP \<equiv> 4"
abbreviation (input) FDT_END :: u32 where "FDT_END \<equiv> 9"

section \<open>Words, strings and numbers in the blob\<close>

definition load32 :: "mem \<Rightarrow> u64 \<Rightarrow> u32" where
  "load32 m a = le_word (load_bytes m a 4)"

definition fdt32_to_cpu :: "u32 \<Rightarrow> u32" where
  "fdt32_to_cpu x =
     push_bit 24 (x AND 0xff) OR push_bit 8 (x AND 0xff00)
       OR drop_bit 8 (x AND 0xff0000) OR drop_bit 24 (x AND 0xff000000)"

definition fdt32_at :: "mem \<Rightarrow> u64 \<Rightarrow> u32" where
  "fdt32_at m a = fdt32_to_cpu (load32 m a)"

function fdt_strnlen :: "mem \<Rightarrow> u64 \<Rightarrow> u64 \<Rightarrow> u64" where
  "fdt_strnlen m p e = (if p < e \<and> m p \<noteq> 0 then 1 + fdt_strnlen m (p + 1) e else 0)"
  by pat_completeness auto

termination
proof (relation "measure (\<lambda>(m, p, e). unat (e - p))")
  fix m :: mem and p e :: u64
  assume "p < e \<and> m p \<noteq> 0"
  then have "e \<noteq> p" by auto
  then show "((m, p + 1, e), m, p, e) \<in> measure (\<lambda>(m, p, e). unat (e - p))"
    by (simp add: unat_diff_Suc)
qed simp

declare fdt_strnlen.simps [simp del]

definition align4 :: "u64 \<Rightarrow> u64" where
  "align4 p = (p + 3) AND NOT 3"

fun fdt_read_loop :: "mem \<Rightarrow> u64 \<Rightarrow> nat \<Rightarrow> u64 \<Rightarrow> u64" where
  "fdt_read_loop m a 0 v = v"
| "fdt_read_loop m a (Suc n) v =
     fdt_read_loop m (a + 4) n (push_bit 32 v OR ucast (fdt32_at m a))"

definition fdt_read_num :: "mem \<Rightarrow> u64 \<Rightarrow> u32 \<Rightarrow> u64" where
  "fdt_read_num m cells count = fdt_read_loop m cells (unat count) 0"

text \<open>\<^verbatim>\<open>strcmp(p, s) == 0\<close> for a literal \<open>s\<close>, and \<^verbatim>\<open>strlen\<close>, on strings in memory.\<close>

fun str_eq :: "mem \<Rightarrow> u64 \<Rightarrow> cstr \<Rightarrow> bool" where
  "str_eq m a [] \<longleftrightarrow> m a = 0"
| "str_eq m a (c # cs) \<longleftrightarrow> m a = c \<and> str_eq m (a + 1) cs"

partial_function (option) mem_strlen :: "mem \<Rightarrow> u64 \<Rightarrow> u64 \<Rightarrow> u64 option" where
  "mem_strlen m s n = (if m (s + n) = 0 then Some n else mem_strlen m s (n + 1))"

partial_function (option) strlist_loop :: "mem \<Rightarrow> u64 \<Rightarrow> u32 \<Rightarrow> cstr \<Rightarrow> u32 \<Rightarrow> bool option" where
  "strlist_loop m list len needle i =
     (if \<not> i < len then Some False
      else
        do { slen \<leftarrow> mem_strlen m (list + ucast i) 0;
             if slen = of_nat (length needle)
                \<and> memcmp (load_bytes m (list + ucast i) (length needle)) needle (length needle) = 0
             then Some True
             else strlist_loop m list len needle (i + (ucast slen + 1)) })"

definition fdt_strlist_contains :: "mem \<Rightarrow> u64 \<Rightarrow> u32 \<Rightarrow> cstr \<Rightarrow> bool option" where
  "fdt_strlist_contains m list len needle = strlist_loop m list len needle 0"

section \<open>The nodes the scan is inside of\<close>

record node_state =
  is_memory :: bool
  is_virtio :: bool
  reg_valid :: bool
  reg_base :: u64
  reg_size :: u64

text \<open>
  The locals of \<^verbatim>\<open>fdt_scan\<close> and what it writes through its pointers; \<open>virtio_bases\<close> holds the
  first \<^verbatim>\<open>found_virtio\<close> elements of the array.
\<close>

record fdt_state =
  addr_cells :: u32
  size_cells :: u32
  fdt_depth :: int
  fdt_stack :: "node_state list"
  mem_base :: u64
  mem_size :: u64
  virtio_bases :: "u64 list"
  timebase_hz :: u32

definition cleared_node :: node_state where
  "cleared_node = \<lparr>is_memory = False, is_virtio = False, reg_valid = False, reg_base = 0, reg_size = 0\<rparr>"

definition fdt_begin :: "fdt_state \<Rightarrow> fdt_state option" where
  "fdt_begin st =
     (let d = fdt_depth st in
      if d < 32 then
        (if d < 0 then None
         else Some (st\<lparr>fdt_stack := (fdt_stack st)[nat d := cleared_node], fdt_depth := d + 1\<rparr>))
      else Some (st\<lparr>fdt_depth := d + 1\<rparr>))"

text \<open>\<open>max_bases\<close> is the size of the array.\<close>

definition fdt_leave :: "nat \<Rightarrow> fdt_state \<Rightarrow> fdt_state option" where
  "fdt_leave max_bases st =
     (let d = fdt_depth st in
      if d > 0 then
        (if 32 < d then None
         else
           (let cur = fdt_stack st ! nat (d - 1);
                st1 = (if is_memory cur \<and> reg_valid cur \<and> mem_size st = 0
                       then st\<lparr>mem_base := reg_base cur, mem_size := reg_size cur\<rparr> else st);
                st2 = (if is_virtio cur \<and> reg_valid cur \<and> length (virtio_bases st1) < max_bases
                       then st1\<lparr>virtio_bases := virtio_bases st1 @ [reg_base cur]\<rparr> else st1) in
            Some (st2\<lparr>fdt_depth := d - 1\<rparr>)))
      else Some (st\<lparr>fdt_depth := d - 1\<rparr>))"

text \<open>A store into \<^verbatim>\<open>stack[depth - 1]\<close>.\<close>

definition set_cur :: "(node_state \<Rightarrow> node_state) \<Rightarrow> fdt_state \<Rightarrow> fdt_state option" where
  "set_cur f st =
     (let i = nat (fdt_depth st - 1) in
      if i < 32 then Some (st\<lparr>fdt_stack := (fdt_stack st)[i := f (fdt_stack st ! i)]\<rparr>) else None)"

definition root_cells :: "mem \<Rightarrow> u64 \<Rightarrow> u64 \<Rightarrow> u32 \<Rightarrow> fdt_state \<Rightarrow> fdt_state" where
  "root_cells m propname val len st =
     (if fdt_depth st = 1 then
        (if str_eq m propname (lit ''#address-cells'') \<and> 4 \<le> len
         then st\<lparr>addr_cells := fdt32_at m val\<rparr>
         else if str_eq m propname (lit ''#size-cells'') \<and> 4 \<le> len
         then st\<lparr>size_cells := fdt32_at m val\<rparr>
         else st)
      else st)"

definition set_reg :: "mem \<Rightarrow> u64 \<Rightarrow> u32 \<Rightarrow> fdt_state \<Rightarrow> fdt_state option" where
  "set_reg m val len st =
     (if (addr_cells st + size_cells st) * 4 \<le> len
      then set_cur (\<lambda>cur. cur\<lparr>reg_base := fdt_read_num m val (addr_cells st),
                               reg_size := fdt_read_num m (val + 4 * ucast (addr_cells st)) (size_cells st),
                               reg_valid := True\<rparr>) st
      else Some st)"

definition fdt_prop :: "mem \<Rightarrow> u64 \<Rightarrow> u64 \<Rightarrow> u32 \<Rightarrow> fdt_state \<Rightarrow> fdt_state option" where
  "fdt_prop m propname val len st =
     (let st1 = root_cells m propname val len st in
      if fdt_depth st1 > 0 then
        (if str_eq m propname (lit ''device_type'') then
           (if 6 \<le> len \<and> memcmp (load_bytes m val 6) (lit ''memory'') 6 = 0
            then set_cur (\<lambda>cur. cur\<lparr>is_memory := True\<rparr>) st1 else Some st1)
         else if str_eq m propname (lit ''compatible'') then
           do { c \<leftarrow> fdt_strlist_contains m val len (lit ''virtio,mmio'');
                if c then set_cur (\<lambda>cur. cur\<lparr>is_virtio := True\<rparr>) st1 else Some st1 }
         else if str_eq m propname (lit ''reg'') then set_reg m val len st1
         else Some st1)
      else Some st1)"

section \<open>The kernel's scan\<close>

text \<open>
  One turn per token.  The bounds: \<open>s_end\<close> the end of the structure block, \<open>strings\<close> and
  \<open>size_strings\<close> the strings block.
\<close>

partial_function (option) fdt_loop ::
    "mem \<Rightarrow> u64 \<Rightarrow> u64 \<Rightarrow> u32 \<Rightarrow> nat \<Rightarrow> u64 \<Rightarrow> fdt_state \<Rightarrow> (int \<times> fdt_state) option" where
  "fdt_loop m s_end strings size_strings max_bases p st =
     (if s_end < p + 4 then Some (- 1, st)
      else
        (let token = fdt32_at m p; p1 = p + 4 in
         if token = FDT_BEGIN_NODE then
           (let name_len = fdt_strnlen m p1 s_end in
            if s_end \<le> p1 + name_len then Some (- 1, st)
            else
              do { st1 \<leftarrow> fdt_begin st;
                   let p2 = align4 (p1 + name_len + 1) in
                   if s_end < p2 then Some (- 1, st1)
                   else fdt_loop m s_end strings size_strings max_bases p2 st1 })
         else if token = FDT_END_NODE then
           do { st1 \<leftarrow> fdt_leave max_bases st;
                fdt_loop m s_end strings size_strings max_bases p1 st1 }
         else if token = FDT_PROP then
           (if s_end < p1 + 8 then Some (- 1, st)
            else
              (let len = fdt32_at m p1; nameoff = fdt32_at m (p1 + 4); val = p1 + 8;
                   propname = strings + ucast nameoff in
               if size_strings \<le> nameoff then Some (- 1, st)
               else if strings + ucast size_strings \<le> propname then Some (- 1, st)
               else if s_end < val + ucast len then Some (- 1, st)
               else
                 do { st1 \<leftarrow> fdt_prop m propname val len st;
                      let p2 = align4 (val + ucast len) in
                      if s_end < p2 then Some (- 1, st1)
                      else fdt_loop m s_end strings size_strings max_bases p2 st1 }))
         else if token = FDT_NOP then fdt_loop m s_end strings size_strings max_bases p1 st
         else if token = FDT_END then Some (0, st)
         else Some (- 1, st)))"

definition fdt_init :: "u64 \<Rightarrow> u64 \<Rightarrow> node_state list \<Rightarrow> fdt_state" where
  "fdt_init base sz stack =
     \<lparr>addr_cells = 2, size_cells = 2, fdt_depth = 0, fdt_stack = stack, mem_base = base,
      mem_size = sz, virtio_bases = [], timebase_hz = 0\<rparr>"

text \<open>
  \<^verbatim>\<open>fdt_scan\<close>; \<open>stack\<close> is what the array of nodes holds before it is written, \<open>base\<close> and \<open>sz\<close> what
  \<^verbatim>\<open>*mem_base\<close> and \<^verbatim>\<open>*mem_size\<close> hold.
\<close>

definition fdt_scan ::
    "mem \<Rightarrow> u64 \<Rightarrow> u64 \<Rightarrow> u64 \<Rightarrow> nat \<Rightarrow> node_state list \<Rightarrow> (int \<times> fdt_state) option" where
  "fdt_scan m dtb base sz max_bases stack =
     (let st = fdt_init base sz stack;
          total = fdt32_at m (dtb + 4);
          off_struct = fdt32_at m (dtb + 8);
          off_strings = fdt32_at m (dtb + 12);
          size_strings = fdt32_at m (dtb + 32);
          size_struct = fdt32_at m (dtb + 36) in
      if fdt32_at m dtb \<noteq> FDT_MAGIC then Some (- 1, st)
      else if total < 40 \<or> 16 * 1024 * 1024 < total then Some (- 1, st)
      else if total \<le> off_struct \<or> total \<le> off_strings then Some (- 1, st)
      else if total < off_struct + size_struct then Some (- 1, st)
      else if total < off_strings + size_strings then Some (- 1, st)
      else
        fdt_loop m (dtb + ucast off_struct + ucast size_struct) (dtb + ucast off_strings)
          size_strings max_bases (dtb + ucast off_struct) st)"

definition fdt_get_memory :: "mem \<Rightarrow> u64 \<Rightarrow> node_state list \<Rightarrow> (int \<times> u64 \<times> u64) option" where
  "fdt_get_memory m dtb stack =
     do { (r, st) \<leftarrow> fdt_scan m dtb 0 0 0 stack;
          Some (if r \<noteq> 0 then - 1 else if mem_size st \<noteq> 0 then 0 else - 1, mem_base st, mem_size st) }"

text \<open>The result and the addresses found: \<^verbatim>\<open>*out_count\<close> stays 0 when the scan fails.\<close>

definition fdt_find_virtio_mmio :: "mem \<Rightarrow> u64 \<Rightarrow> nat \<Rightarrow> node_state list \<Rightarrow> (int \<times> u64 list) option" where
  "fdt_find_virtio_mmio m dtb max_bases stack =
     do { (r, st) \<leftarrow> fdt_scan m dtb 0 0 max_bases stack;
          Some (r, if r = 0 then virtio_bases st else []) }"

section \<open>The firmware's scan\<close>

definition fw_fdt_prop :: "mem \<Rightarrow> u64 \<Rightarrow> u64 \<Rightarrow> u32 \<Rightarrow> fdt_state \<Rightarrow> fdt_state option" where
  "fw_fdt_prop m propname val len st =
     (let st1 = root_cells m propname val len st in
      if fdt_depth st1 > 0 then
        (if str_eq m propname (lit ''device_type'') then
           (if 6 \<le> len \<and> memcmp (load_bytes m val 6) (lit ''memory'') 6 = 0
            then set_cur (\<lambda>cur. cur\<lparr>is_memory := True\<rparr>) st1 else Some st1)
         else if str_eq m propname (lit ''compatible'') then
           do { c \<leftarrow> fdt_strlist_contains m val len (lit ''virtio,mmio'');
                if c then set_cur (\<lambda>cur. cur\<lparr>is_virtio := True\<rparr>) st1 else Some st1 }
         else if str_eq m propname (lit ''timebase-frequency'') then
           (if timebase_hz st1 = 0 \<and> 4 \<le> len
            then Some (st1\<lparr>timebase_hz := fdt32_at m val\<rparr>) else Some st1)
         else if str_eq m propname (lit ''reg'') then set_reg m val len st1
         else Some st1)
      else Some st1)"

partial_function (option) fw_fdt_loop ::
    "mem \<Rightarrow> u64 \<Rightarrow> nat \<Rightarrow> u64 \<Rightarrow> fdt_state \<Rightarrow> (int \<times> fdt_state) option" where
  "fw_fdt_loop m strings max_bases p st =
     (let token = fdt32_at m p; p1 = p + 4 in
      if token = FDT_BEGIN_NODE then
        do { name_len \<leftarrow> mem_strlen m p1 0;
             st1 \<leftarrow> fdt_begin st;
             fw_fdt_loop m strings max_bases (align4 (p1 + name_len + 1)) st1 }
      else if token = FDT_END_NODE then
        do { st1 \<leftarrow> fdt_leave max_bases st; fw_fdt_loop m strings max_bases p1 st1 }
      else if token = FDT_PROP then
        (let len = fdt32_at m p1; nameoff = fdt32_at m (p1 + 4); val = p1 + 8 in
         do { st1 \<leftarrow> fw_fdt_prop m (strings + ucast nameoff) val len st;
              fw_fdt_loop m strings max_bases (align4 (val + ucast len)) st1 })
      else if token = FDT_NOP then fw_fdt_loop m strings max_bases p1 st
      else if token = FDT_END then Some (0, st)
      else Some (- 1, st))"

definition fw_fdt_scan ::
    "mem \<Rightarrow> u64 \<Rightarrow> u64 \<Rightarrow> u64 \<Rightarrow> nat \<Rightarrow> node_state list \<Rightarrow> (int \<times> fdt_state) option" where
  "fw_fdt_scan m dtb base sz max_bases stack =
     (let st = fdt_init base sz stack in
      if fdt32_at m dtb \<noteq> FDT_MAGIC then Some (- 1, st)
      else
        fw_fdt_loop m (dtb + ucast (fdt32_at m (dtb + 12))) max_bases
          (dtb + ucast (fdt32_at m (dtb + 8))) st)"

definition fw_fdt_get_memory :: "mem \<Rightarrow> u64 \<Rightarrow> node_state list \<Rightarrow> (int \<times> u64 \<times> u64) option" where
  "fw_fdt_get_memory m dtb stack =
     do { (r, st) \<leftarrow> fw_fdt_scan m dtb 0 0 0 stack;
          Some (if r \<noteq> 0 then - 1 else if mem_size st \<noteq> 0 then 0 else - 1, mem_base st, mem_size st) }"

definition fw_fdt_find_virtio_mmio :: "mem \<Rightarrow> u64 \<Rightarrow> nat \<Rightarrow> node_state list \<Rightarrow> (int \<times> u64 list) option" where
  "fw_fdt_find_virtio_mmio m dtb max_bases stack =
     do { (r, st) \<leftarrow> fw_fdt_scan m dtb 0 0 max_bases stack;
          Some (r, if r = 0 then virtio_bases st else []) }"

text \<open>The result and, when it is 0, the frequency.\<close>

definition fdt_get_timebase :: "mem \<Rightarrow> u64 \<Rightarrow> node_state list \<Rightarrow> (int \<times> u32) option" where
  "fdt_get_timebase m dtb stack =
     do { (r, st) \<leftarrow> fw_fdt_scan m dtb 0 0 0 stack;
          Some (if r \<noteq> 0 then (- 1, 0) else if timebase_hz st = 0 then (- 1, 0) else (0, timebase_hz st)) }"

definition fdt_total_size :: "mem \<Rightarrow> u64 \<Rightarrow> u32" where
  "fdt_total_size m dtb = (if fdt32_at m dtb \<noteq> FDT_MAGIC then 0 else fdt32_at m (dtb + 4))"

end
