(* ===== verification/Fdt_Props.thy ===== *)
theory Fdt_Props
  imports Fdt
begin

text \<open>
  What the two scans of \<open>Fdt\<close> find in a blob: a device tree is flattened as the format says, and
  the scan of the flattened tree is a fold over its nodes, children before parents.
\<close>

section \<open>Bytes at an address\<close>

definition bytes_at :: "mem \<Rightarrow> nat \<Rightarrow> u8 list \<Rightarrow> bool" where
  "bytes_at m a bs \<longleftrightarrow> load_bytes m (of_nat a) (length bs) = bs"

lemma load_bytes_append:
  "load_bytes m a (n + k) = load_bytes m a n @ load_bytes m (a + of_nat n) k"
  by (induction n arbitrary: a) (simp_all add: algebra_simps)

lemma bytes_at_Nil [simp]: "bytes_at m a []"
  by (simp add: bytes_at_def)

lemma bytes_at_Cons: "bytes_at m a (b # bs) \<longleftrightarrow> m (of_nat a) = b \<and> bytes_at m (a + 1) bs"
  by (simp add: bytes_at_def add.commute)

lemma bytes_at_append: "bytes_at m a (xs @ ys) \<longleftrightarrow> bytes_at m a xs \<and> bytes_at m (a + length xs) ys"
  by (induction xs arbitrary: a) (simp_all add: bytes_at_Cons)

lemma bytes_at_load: "bytes_at m a bs \<Longrightarrow> n \<le> length bs \<Longrightarrow> load_bytes m (of_nat a) n = take n bs"
  using load_bytes_append [of m "of_nat a" n "length bs - n"]
  by (metis append_eq_conv_conj bytes_at_def le_add_diff_inverse length_load_bytes)

lemma bytes_at_drop: "bytes_at m a bs \<Longrightarrow> n \<le> length bs \<Longrightarrow> bytes_at m (a + n) (drop n bs)"
  using bytes_at_append [of m a "take n bs" "drop n bs"] by simp

lemma bytes_at_take: "bytes_at m a bs \<Longrightarrow> bytes_at m a (take n bs)"
  using bytes_at_append [of m a "take n bs" "drop n bs"] by simp

lemma addr_less: "a < 2 ^ 64 \<Longrightarrow> b < 2 ^ 64 \<Longrightarrow> (of_nat a :: u64) < of_nat b \<longleftrightarrow> a < b"
  by (simp add: word_less_nat_alt unat_of_nat)

lemma addr_le: "a < 2 ^ 64 \<Longrightarrow> b < 2 ^ 64 \<Longrightarrow> (of_nat a :: u64) \<le> of_nat b \<longleftrightarrow> a \<le> b"
  by (simp add: word_le_nat_alt unat_of_nat)

lemma unat_addr: "a < 2 ^ 64 \<Longrightarrow> unat (of_nat a :: u64) = a"
  by (simp add: unat_of_nat)

lemma ucast_nat: "n < 2 ^ 32 \<Longrightarrow> (ucast (of_nat n :: u32) :: u64) = of_nat n"
  by (rule word_unat_eq_iff [THEN iffD2]) (simp add: unsigned_ucast_eq unsigned_of_nat take_bit_nat_eq_self)

lemma ucast_down_nat: "(ucast (of_nat n :: u64) :: u32) = of_nat n"
  by (rule word_unat_eq_iff [THEN iffD2]) (simp add: unsigned_ucast_eq unsigned_of_nat take_bit_take_bit)

section \<open>Big-endian numbers\<close>

definition be32 :: "u32 \<Rightarrow> u8 list" where
  "be32 v = rev (le_bytes 4 v)"

definition be_word :: "u8 list \<Rightarrow> u32" where
  "be_word bs = le_word (rev (take 4 bs))"

definition be_num :: "u8 list \<Rightarrow> u64" where
  "be_num bs = foldl (\<lambda>v b. push_bit 8 v OR ucast b) 0 bs"

lemma length_be32 [simp]: "length (be32 v) = 4"
  by (simp add: be32_def)

lemma be_word_be32 [simp]: "be_word (be32 v @ bs) = v"
  by (simp add: be_word_def be32_def le_round_trip)

lemma be_word_be32_only [simp]: "be_word (be32 v) = v"
  using be_word_be32 [of v "[]"] by simp

lemma bit_u8_be: "8 \<le> k \<Longrightarrow> \<not> bit (b :: u8) k"
  by (auto dest: bit_imp_le_length)

lemma swap_bytes32: "fdt32_to_cpu (le_word [a, b, c, d]) = le_word [d, c, b, a]"
proof (rule bit_word_eqI)
  fix n assume "n < LENGTH(32)"
  then have "n < 32" by simp
  then have "n \<in> set [0..<32]" by simp
  then show "bit (fdt32_to_cpu (le_word [a, b, c, d])) n = bit (le_word [d, c, b, a] :: u32) n"
    unfolding upt_rec_numeral
    by (simp add: upt_conv_Cons)
      (elim disjE; simp add: fdt32_to_cpu_def bit_simps bit_u8_be; simp add: numeral_eq_Suc)
qed

lemma load_bytes_4: "load_bytes m a 4 = [m a, m (a + 1), m (a + 1 + 1), m (a + 1 + 1 + 1)]"
  by (simp add: numeral_eq_Suc)

lemma fdt32_at_be: "fdt32_at m a = be_word (load_bytes m a 4)"
  unfolding fdt32_at_def load32_def be_word_def load_bytes_4 swap_bytes32 by simp

lemma fdt32_at_bytes: "bytes_at m a bs \<Longrightarrow> 4 \<le> length bs \<Longrightarrow> fdt32_at m (of_nat a) = be_word bs"
  by (simp add: fdt32_at_be bytes_at_load be_word_def)

lemma ucast_push_u8:
  "k \<le> 24 \<Longrightarrow> ucast (push_bit k (ucast (b :: u8) :: u32)) = push_bit k (ucast b :: u64)"
  by (rule bit_word_eqI) (auto simp: bit_simps dest: bit_imp_le_length)

lemma be_step4:
  "push_bit 32 v OR ucast (le_word [d, c, b, a] :: u32) =
   foldl (\<lambda>v b. push_bit 8 v OR ucast b) (v :: u64) [a, b, c, d]"
  using ucast_push_u8 [of 0 d] ucast_push_u8 [of 8 c] ucast_push_u8 [of 16 b] ucast_push_u8 [of 24 a]
  by (simp add: unsigned_or_eq push_bit_or or.assoc or.left_commute or.commute)

lemma be_num_be32: "foldl (\<lambda>v b. push_bit 8 v OR ucast b) (x :: u64) (be32 v) = push_bit 32 x OR ucast v"
proof -
  obtain a b c d where l: "le_bytes 4 v = [a, b, c, d]"
    using length_le_bytes [of 4 v] by (auto simp: length_Suc_conv numeral_eq_Suc)
  have "le_word (le_bytes 4 v) = v" by (simp add: le_round_trip)
  then show ?thesis using be_step4 [of x a b c d] unfolding be32_def l by simp
qed

lemma fdt_read_loop_bytes:
  "bytes_at m a bs \<Longrightarrow> length bs = 4 * n \<Longrightarrow>
     fdt_read_loop m (of_nat a) n v = foldl (\<lambda>v b. push_bit 8 v OR ucast b) v bs"
proof (induction n arbitrary: a bs v)
  case (Suc n)
  obtain b1 b2 b3 b4 rest where bs: "bs = b1 # b2 # b3 # b4 # rest"
    using Suc.prems(2) by (auto simp: length_Suc_conv numeral_eq_Suc)
  have rest: "bytes_at m (a + 4) rest"
    using Suc.prems(1) unfolding bs by (simp add: bytes_at_Cons eval_nat_numeral)
  have "fdt32_at m (of_nat a) = le_word [b4, b3, b2, b1]"
    using fdt32_at_bytes [OF Suc.prems(1)] unfolding bs be_word_def by simp
  then show ?case
    using Suc.IH [OF rest] Suc.prems(2) be_step4 [of v b4 b3 b2 b1] unfolding bs by simp
qed simp

lemma fdt_read_num_bytes:
  "bytes_at m a bs \<Longrightarrow> length bs = 4 * unat n \<Longrightarrow> fdt_read_num m (of_nat a) n = be_num bs"
  by (simp add: fdt_read_num_def be_num_def fdt_read_loop_bytes)

section \<open>Strings in memory\<close>

lemma str_eq_iff:
  "bytes_at m a (s @ [0]) \<Longrightarrow> nul_free s \<Longrightarrow> nul_free t \<Longrightarrow> str_eq m (of_nat a) t \<longleftrightarrow> s = t"
proof (induction t arbitrary: s a)
  case Nil
  then show ?case by (cases s) (auto simp: bytes_at_Cons)
next
  case (Cons c t)
  show ?case
  proof (cases s)
    case Nil
    then show ?thesis using Cons.prems by (auto simp: bytes_at_Cons)
  next
    case s: (Cons d s')
    have "str_eq m (of_nat (a + 1)) t \<longleftrightarrow> s' = t"
      by (rule Cons.IH) (use Cons.prems s in \<open>auto simp: bytes_at_Cons\<close>)
    then show ?thesis
      using Cons.prems(1) s by (auto simp: bytes_at_Cons add.commute)
  qed
qed

lemma mem_strlen_bytes:
  "bytes_at m (a + k) (s @ [0]) \<Longrightarrow> nul_free s \<Longrightarrow>
     mem_strlen m (of_nat a) (of_nat k) = Some (of_nat (k + length s))"
proof (induction s arbitrary: k)
  case Nil
  then show ?case by (subst mem_strlen.simps) (simp add: bytes_at_Cons)
next
  case (Cons c s)
  have "mem_strlen m (of_nat a) (of_nat (Suc k)) = Some (of_nat (Suc k + length s))"
    by (rule Cons.IH) (use Cons.prems in \<open>auto simp: bytes_at_Cons\<close>)
  then show ?case
    using Cons.prems by (subst mem_strlen.simps) (simp add: bytes_at_Cons algebra_simps)
qed

lemma fdt_strnlen_bytes:
  "bytes_at m a (s @ [0]) \<Longrightarrow> nul_free s \<Longrightarrow> a + length s < e \<Longrightarrow> e < 2 ^ 64 \<Longrightarrow>
     fdt_strnlen m (of_nat a) (of_nat e) = of_nat (length s)"
proof (induction s arbitrary: a)
  case Nil
  then show ?case by (subst fdt_strnlen.simps) (simp add: bytes_at_Cons)
next
  case (Cons c s)
  have "fdt_strnlen m (of_nat (a + 1)) (of_nat e) = of_nat (length s)"
    by (rule Cons.IH) (use Cons.prems in \<open>auto simp: bytes_at_Cons\<close>)
  then show ?case
    using Cons.prems by (subst fdt_strnlen.simps) (simp add: bytes_at_Cons addr_less add.commute)
qed

text \<open>The strings of a value, each with its NUL.\<close>

function strlist :: "u8 list \<Rightarrow> cstr list" where
  "strlist v = (if v = [] then [] else cstr_of v # strlist (drop (Suc (strlen v)) v))"
  by pat_completeness auto

termination by (relation "measure length") auto

declare strlist.simps [simp del]

definition strlist_ok :: "u8 list \<Rightarrow> bool" where
  "strlist_ok v \<longleftrightarrow> v = [] \<or> last v = 0"

lemma strlist_ok_split:
  assumes "strlist_ok v" and "v \<noteq> []"
  obtains s rest where "v = s @ 0 # rest" "nul_free s" "strlist_ok rest"
    "strlist v = s # strlist rest"
proof -
  have "0 \<in> set v" using assms by (metis last_in_set strlist_ok_def)
  then obtain s rest where v: "v = s @ 0 # rest" and n: "0 \<notin> set s"
    by (meson split_list_first)
  have nf: "nul_free s" using n by (simp add: nul_free_def)
  have "strlist_ok rest" using assms v by (auto simp: strlist_ok_def split: if_splits)
  moreover have "strlist v = s # strlist rest"
    using nf by (subst strlist.simps) (simp add: v strlen_append_nul)
  ultimately show thesis using that v nf by blast
qed

lemma strlist_one: "nul_free s \<Longrightarrow> strlist (s @ [0]) = [s]"
  by (subst strlist.simps) (simp add: strlen_nul_free strlist.simps)

lemma strlist_loop_bytes:
  assumes "bytes_at m a v" and "length v < 2 ^ 32 - 1" and "a + length v < 2 ^ 64"
    and "length needle < 2 ^ 32"
  shows "strlist_ok (drop j v) \<Longrightarrow> j \<le> length v \<Longrightarrow>
    strlist_loop m (of_nat a) (of_nat (length v)) needle (of_nat j) = Some (needle \<in> set (strlist (drop j v)))"
proof (induction "length v - j" arbitrary: j rule: less_induct)
  case less
  have j: "(of_nat j :: u32) < of_nat (length v) \<longleftrightarrow> j < length v"
    using less.prems(2) assms(2) by (simp add: word_less_nat_alt unat_of_nat)
  show ?case
  proof (cases "j < length v")
    case False
    then show ?thesis using j less.prems(2) by (subst strlist_loop.simps) (simp add: strlist.simps)
  next
    case True
    then have ne: "drop j v \<noteq> []" by simp
    from less.prems(1) ne obtain s rest where d: "drop j v = s @ 0 # rest" and n: "nul_free s"
      and r: "strlist_ok rest" and sl: "strlist (drop j v) = s # strlist rest"
      by (rule strlist_ok_split)
    have at: "bytes_at m (a + j) (s @ 0 # rest)"
      using bytes_at_drop [OF assms(1) less.prems(2)] d by simp
    have len: "j + length s + 1 + length rest = length v"
      using arg_cong [OF d, of length] less.prems(2) by simp
    have uj: "(ucast (of_nat j :: u32) :: u64) = of_nat j"
      using less.prems(2) assms(2) by (simp add: ucast_nat)
    have at0: "bytes_at m (a + j) (s @ [0])"
      using at bytes_at_append [of m "a + j" "s @ [0]" rest] by simp
    have sl0: "mem_strlen m (of_nat a + of_nat j) 0 = Some (of_nat (length s))"
      using mem_strlen_bytes [of m "a + j" 0 s] at0 n by simp
    have same: "(of_nat (length s) :: u64) = of_nat (length needle) \<and>
        memcmp (load_bytes m (of_nat a + of_nat j) (length needle)) needle (length needle) = 0 \<longleftrightarrow> s = needle"
    proof -
      have "(of_nat (length s) :: u64) = of_nat (length needle) \<longleftrightarrow> length s = length needle"
        using assms(2,4) len by (simp add: word_unat_eq_iff unat_of_nat)
      moreover have "load_bytes m (of_nat a + of_nat j) (length s) = s"
        using bytes_at_load [OF at, of "length s"] by simp
      ultimately show ?thesis
        by (cases "length s = length needle") (simp_all add: memcmp_eq_0, blast)
    qed
    have rest: "drop (j + length s + 1) v = rest"
    proof -
      have "j + length s + 1 = (length s + 1) + j" by simp
      then have "drop (j + length s + 1) v = drop (length s + 1) (drop j v)" by (simp only: drop_drop)
      then show ?thesis unfolding d by simp
    qed
    have later: "strlist_loop m (of_nat a) (of_nat (length v)) needle (of_nat (j + length s + 1)) =
        Some (needle \<in> set (strlist rest))"
      unfolding rest [symmetric]
      by (rule less.hyps) (use len r rest in auto)
    have "(of_nat j + (ucast (of_nat (length s) :: u64) + 1) :: u32) = of_nat (j + length s + 1)"
      by (simp add: ucast_down_nat)
    note later [folded this]
    then show ?thesis
      unfolding sl by (subst strlist_loop.simps) (simp add: True j uj sl0 same)
  qed
qed

section \<open>Alignment\<close>

definition pad4 :: "u8 list \<Rightarrow> u8 list" where
  "pad4 bs = bs @ replicate ((4 - length bs mod 4) mod 4) 0"

lemma pad4_length: "length (pad4 bs) = 4 * ((length bs + 3) div 4)"
proof -
  have "n + (4 - n mod 4) mod 4 = 4 * ((n + 3) div 4)" for n :: nat
  proof -
    define q r where "q = n div 4" and "r = n mod 4"
    have n: "n = 4 * q + r" and "r < 4" by (simp_all add: q_def r_def)
    then have "r = 0 \<or> r = 1 \<or> r = 2 \<or> r = 3" by arith
    then show ?thesis unfolding n by auto
  qed
  then show ?thesis by (simp add: pad4_def)
qed

lemma pad4_dvd: "4 dvd length (pad4 bs)"
  by (simp add: pad4_length)

lemma length_pad4: "length bs \<le> length (pad4 bs)" "length (pad4 bs) < length bs + 4"
  by (simp_all add: pad4_def)

lemma unat_and_not3: "unat ((w :: u64) AND NOT 3) = unat w - unat w mod 4"
proof -
  have "w AND 3 = take_bit 2 w"
    by (simp add: take_bit_eq_mask mask_eq_exp_minus_1)
  then have u: "unat (w AND 3) = unat w mod 4"
    by (simp add: unat_mod take_bit_eq_mod)
  then have "w AND 3 \<le> w" by (simp add: word_le_nat_alt)
  moreover have "w AND NOT 3 = w - (w AND 3)"
  proof -
    have "(w AND x) AND (w AND NOT x) = 0" "(w AND x) OR (w AND NOT x) = w" for x :: u64
      by (auto simp: bit_eq_iff bit_and_iff bit_or_iff bit_not_iff)
    from this [of 3] show ?thesis using word_plus_and_or [of "w AND 3" "w AND NOT 3"] by (simp add: eq_diff_eq add.commute)
  qed
  ultimately show ?thesis using u by (simp add: unat_sub)
qed

lemma align4_pad4:
  assumes "4 dvd a" and "a + length bs + 3 < 2 ^ 64"
  shows "align4 (of_nat (a + length bs)) = of_nat (a + length (pad4 bs))"
proof -
  let ?n = "a + length bs + 3"
  have e: "(of_nat (a + length bs) :: u64) + 3 = of_nat ?n" by simp
  have "unat ((of_nat ?n :: u64) AND NOT 3) = ?n - ?n mod 4"
    using assms(2) unfolding unat_and_not3 by (simp only: unat_addr)
  also have "\<dots> = a + length (pad4 bs)"
  proof -
    obtain q where q: "a = 4 * q" using assms(1) by blast
    have "?n = 4 * q + (length bs + 3)" using q by simp
    then have "?n - ?n mod 4 = 4 * (?n div 4)" by (simp add: minus_mod_eq_mult_div)
    also have "?n div 4 = q + (length bs + 3) div 4" using \<open>?n = _\<close> by simp
    finally show ?thesis unfolding pad4_length using q by simp
  qed
  finally have "unat ((of_nat ?n :: u64) AND NOT 3) = a + length (pad4 bs)" .
  then show ?thesis
    unfolding align4_def e by (metis of_nat_unat ucast_id)
qed

end
