(* ===== verification/Fdt_Tree.thy ===== *)
theory Fdt_Tree
  imports Fdt_Props
begin

text \<open>
  Device trees, their flattened form, and what the scans make of them.  The effect of the tokens of
  one node is stated once, as a locale over the laws one token obeys; the loops of the kernel and
  of the firmware are its two interpretations.
\<close>

section \<open>Trees\<close>

text \<open>A property is the offset of its name in the strings block and its value.\<close>

type_synonym dt_prop = "u32 \<times> u8 list"

datatype dt_node = Dt_node (dt_name: cstr) (dt_props: "dt_prop list") (dt_children: "dt_node list")

fun prop_bytes :: "dt_prop \<Rightarrow> u8 list" where
  "prop_bytes (off, v) = be32 FDT_PROP @ be32 (of_nat (length v)) @ be32 off @ pad4 v"

fun dt_bytes :: "dt_node \<Rightarrow> u8 list" where
  "dt_bytes (Dt_node n ps cs) =
     be32 FDT_BEGIN_NODE @ pad4 (n @ [0]) @ concat (map prop_bytes ps)
       @ concat (map dt_bytes cs) @ be32 FDT_END_NODE"

text \<open>The properties of the nodes, children before their parent; and all properties in the order of the blob.\<close>

fun dt_order :: "dt_node \<Rightarrow> dt_prop list list" where
  "dt_order (Dt_node n ps cs) = concat (map dt_order cs) @ [ps]"

fun dt_all_props :: "dt_node \<Rightarrow> dt_prop list" where
  "dt_all_props (Dt_node n ps cs) = ps @ concat (map dt_all_props cs)"

text \<open>At most \<open>room\<close> nodes inside each other, with names that are strings.\<close>

fun dt_fits :: "nat \<Rightarrow> dt_node \<Rightarrow> bool" where
  "dt_fits 0 t \<longleftrightarrow> False"
| "dt_fits (Suc room) (Dt_node n ps cs) \<longleftrightarrow> nul_free n \<and> (\<forall>c\<in>set cs. dt_fits room c)"

section \<open>What the properties of a node say\<close>

text \<open>\<open>nm\<close> gives the name at an offset of the strings block.\<close>

definition dt_values :: "(u32 \<Rightarrow> cstr) \<Rightarrow> string \<Rightarrow> dt_prop list \<Rightarrow> u8 list list" where
  "dt_values nm s ps = map snd (filter (\<lambda>p. nm (fst p) = lit s) ps)"

definition dt_is_memory :: "(u32 \<Rightarrow> cstr) \<Rightarrow> dt_prop list \<Rightarrow> bool" where
  "dt_is_memory nm ps \<longleftrightarrow> (\<exists>v\<in>set (dt_values nm ''device_type'' ps). take 6 v = lit ''memory'')"

definition dt_is_virtio :: "(u32 \<Rightarrow> cstr) \<Rightarrow> dt_prop list \<Rightarrow> bool" where
  "dt_is_virtio nm ps \<longleftrightarrow> (\<exists>v\<in>set (dt_values nm ''compatible'' ps). lit ''virtio,mmio'' \<in> set (strlist v))"

definition dt_cells :: "(u32 \<Rightarrow> cstr) \<Rightarrow> string \<Rightarrow> dt_prop list \<Rightarrow> u32" where
  "dt_cells nm s ps =
     (let vs = filter (\<lambda>v. 4 \<le> length v) (dt_values nm s ps) in if vs = [] then 2 else be_word (last vs))"

definition reg_pair :: "u32 \<Rightarrow> u32 \<Rightarrow> u8 list \<Rightarrow> u64 \<times> u64" where
  "reg_pair ac sc v = (be_num (take (4 * unat ac) v), be_num (take (4 * unat sc) (drop (4 * unat ac) v)))"

definition dt_reg :: "(u32 \<Rightarrow> cstr) \<Rightarrow> u32 \<Rightarrow> u32 \<Rightarrow> dt_prop list \<Rightarrow> (u64 \<times> u64) option" where
  "dt_reg nm ac sc ps =
     (let vs = filter (\<lambda>v. 4 * (unat ac + unat sc) \<le> length v) (dt_values nm ''reg'' ps) in
      if vs = [] then None else Some (reg_pair ac sc (last vs)))"

definition node_of :: "(u32 \<Rightarrow> cstr) \<Rightarrow> u32 \<Rightarrow> u32 \<Rightarrow> dt_prop list \<Rightarrow> node_state" where
  "node_of nm ac sc ps =
     (let r = dt_reg nm ac sc ps in
      \<lparr>is_memory = dt_is_memory nm ps, is_virtio = dt_is_virtio nm ps, reg_valid = (r \<noteq> None),
       reg_base = (case r of None \<Rightarrow> 0 | Some x \<Rightarrow> fst x), reg_size = (case r of None \<Rightarrow> 0 | Some x \<Rightarrow> snd x)\<rparr>)"

section \<open>One property at a time\<close>

definition prop_eff :: "(u32 \<Rightarrow> cstr) \<Rightarrow> u32 \<Rightarrow> u32 \<Rightarrow> dt_prop \<Rightarrow> node_state \<Rightarrow> node_state" where
  "prop_eff nm ac sc p cur =
     (let v = snd p in
      if nm (fst p) = lit ''device_type'' then
        (if take 6 v = lit ''memory'' then cur\<lparr>is_memory := True\<rparr> else cur)
      else if nm (fst p) = lit ''compatible'' then
        (if lit ''virtio,mmio'' \<in> set (strlist v) then cur\<lparr>is_virtio := True\<rparr> else cur)
      else if nm (fst p) = lit ''reg'' \<and> 4 * (unat ac + unat sc) \<le> length v then
        cur\<lparr>reg_base := fst (reg_pair ac sc v), reg_size := snd (reg_pair ac sc v), reg_valid := True\<rparr>
      else cur)"

definition cell_eff :: "(u32 \<Rightarrow> cstr) \<Rightarrow> string \<Rightarrow> dt_prop \<Rightarrow> u32 \<Rightarrow> u32" where
  "cell_eff nm s p n = (if nm (fst p) = lit s \<and> 4 \<le> length (snd p) then be_word (snd p) else n)"

lemma lit_eq_iff: "lit s = lit t \<longleftrightarrow> s = t"
proof -
  have "inj (\<lambda>c. of_nat (of_char c) :: u8)"
  proof (rule injI)
    fix c d assume eq: "(of_nat (of_char c) :: u8) = of_nat (of_char d)"
    have "unat (of_nat (of_char c) :: u8) = (of_char c :: nat)" "unat (of_nat (of_char d) :: u8) = (of_char d :: nat)"
      using nat_of_char_less_256 [of c] nat_of_char_less_256 [of d] by (simp_all add: unat_of_nat)
    with eq have "(of_char c :: nat) = of_char d" by metis
    then show "c = d" by simp
  qed
  then show ?thesis by (simp add: lit_def inj_map_eq_map)
qed

lemma lit_distinct:
  "lit ''device_type'' \<noteq> lit ''compatible''" "lit ''device_type'' \<noteq> lit ''reg''"
  "lit ''compatible'' \<noteq> lit ''reg''" "lit ''#address-cells'' \<noteq> lit ''#size-cells''"
  "lit ''timebase-frequency'' \<noteq> lit ''reg''" "lit ''timebase-frequency'' \<noteq> lit ''compatible''"
  "lit ''timebase-frequency'' \<noteq> lit ''device_type''"
  by (simp_all add: lit_eq_iff)

lemma node_of_Nil [simp]: "node_of nm ac sc [] = cleared_node"
  by (simp add: node_of_def cleared_node_def dt_reg_def dt_values_def dt_is_memory_def dt_is_virtio_def)

lemma node_of_snoc: "node_of nm ac sc (ps @ [p]) = prop_eff nm ac sc p (node_of nm ac sc ps)"
proof -
  note d = lit_distinct lit_distinct [symmetric]
  consider "nm (fst p) = lit ''device_type''" | "nm (fst p) = lit ''compatible''" | "nm (fst p) = lit ''reg''"
    | "nm (fst p) \<noteq> lit ''device_type''" "nm (fst p) \<noteq> lit ''compatible''" "nm (fst p) \<noteq> lit ''reg''"
    by blast
  then show ?thesis
    by cases (simp_all add: node_of_def prop_eff_def dt_reg_def dt_values_def dt_is_memory_def
        dt_is_virtio_def Let_def d)
qed

lemma fold_prop_eff: "fold (prop_eff nm ac sc) ps cleared_node = node_of nm ac sc ps"
  by (induction ps rule: rev_induct) (simp_all add: node_of_snoc)

lemma fold_cell_eff: "fold (cell_eff nm s) ps 2 = dt_cells nm s ps"
proof (induction ps rule: rev_induct)
  case Nil
  then show ?case by (simp add: dt_cells_def dt_values_def)
next
  case (snoc p ps)
  then show ?case by (simp add: dt_cells_def dt_values_def cell_eff_def Let_def)
qed

section \<open>The effect of a token\<close>

text \<open>What is fixed during a scan: memory, the end of the structure block, the strings block.\<close>

record fdt_env =
  en_mem :: mem
  en_end :: nat
  en_strs :: nat
  en_size :: u32
  en_max :: nat
  en_nm :: "u32 \<Rightarrow> cstr"

definition env_ok :: "fdt_env \<Rightarrow> bool" where
  "env_ok e \<longleftrightarrow> en_end e + 8 < 2 ^ 64 \<and> en_strs e + unat (en_size e) < 2 ^ 64"

definition prop_ok :: "fdt_env \<Rightarrow> dt_prop \<Rightarrow> bool" where
  "prop_ok e p \<longleftrightarrow> fst p < en_size e \<and> length (snd p) < 2 ^ 31 \<and>
     bytes_at (en_mem e) (en_strs e + unat (fst p)) (en_nm e (fst p) @ [0]) \<and> nul_free (en_nm e (fst p)) \<and>
     (en_nm e (fst p) = lit ''compatible'' \<longrightarrow> strlist_ok (snd p))"

definition root_eff :: "(u32 \<Rightarrow> cstr) \<Rightarrow> dt_prop \<Rightarrow> fdt_state \<Rightarrow> fdt_state" where
  "root_eff nm p st =
     (if fdt_depth st = 1
      then st\<lparr>addr_cells := cell_eff nm ''#address-cells'' p (addr_cells st),
              size_cells := cell_eff nm ''#size-cells'' p (size_cells st)\<rparr>
      else st)"

definition cells_ok :: "fdt_state \<Rightarrow> bool" where
  "cells_ok st \<longleftrightarrow> unat (addr_cells st) + unat (size_cells st) < 2 ^ 28"

definition upd_top :: "(node_state \<Rightarrow> node_state) \<Rightarrow> fdt_state \<Rightarrow> fdt_state" where
  "upd_top f st =
     (let i = nat (fdt_depth st - 1) in st\<lparr>fdt_stack := (fdt_stack st)[i := f (fdt_stack st ! i)]\<rparr>)"

lemma set_cur_upd: "fdt_depth st \<le> 32 \<Longrightarrow> set_cur f st = Some (upd_top f st)"
  by (simp add: set_cur_def upd_top_def Let_def)

lemma upd_top_same: "f (fdt_stack st ! nat (fdt_depth st - 1)) = fdt_stack st ! nat (fdt_depth st - 1) \<Longrightarrow> upd_top f st = st"
  by (simp add: upd_top_def Let_def)

lemma nul_free_lit:
  "nul_free (lit ''device_type'')" "nul_free (lit ''compatible'')" "nul_free (lit ''reg'')"
  "nul_free (lit ''#address-cells'')" "nul_free (lit ''#size-cells'')" "nul_free (lit ''timebase-frequency'')"
  by (simp_all add: lit_def)

lemma le_len: "n < 2 ^ 32 \<Longrightarrow> l < 2 ^ 32 \<Longrightarrow> (of_nat l :: u32) \<le> of_nat n \<longleftrightarrow> l \<le> n"
  by (simp add: word_le_nat_alt unat_of_nat)

lemma memory_test:
  assumes "bytes_at m a v" and "length v < 2 ^ 32"
  shows "6 \<le> (of_nat (length v) :: u32) \<and> memcmp (load_bytes m (of_nat a) 6) (lit ''memory'') 6 = 0
    \<longleftrightarrow> take 6 v = lit ''memory''"
proof (cases "6 \<le> length v")
  case True
  then show ?thesis
    using le_len [OF assms(2), of 6] bytes_at_load [OF assms(1) True] by (simp add: memcmp_eq_0 lit_def)
next
  case False
  then have "take 6 v \<noteq> lit ''memory''" by (auto simp: lit_def dest: arg_cong [of _ _ length])
  then show ?thesis using False le_len [OF assms(2), of 6] by simp
qed

lemma cells_test:
  assumes "cells_ok st" and "length v < 2 ^ 32"
  shows "(addr_cells st + size_cells st) * 4 \<le> of_nat (length v) \<longleftrightarrow>
    4 * (unat (addr_cells st) + unat (size_cells st)) \<le> length v"
proof -
  have e: "(addr_cells st + size_cells st) * 4 = of_nat (4 * (unat (addr_cells st) + unat (size_cells st)))" by simp
  show ?thesis
    unfolding e by (rule le_len) (use assms in \<open>simp_all add: cells_ok_def\<close>)
qed

lemma set_reg_eff:
  assumes "bytes_at m a v" and "length v < 2 ^ 32" and "cells_ok st" and "fdt_depth st \<le> 32"
  shows "set_reg m (of_nat a) (of_nat (length v)) st =
    Some (upd_top (\<lambda>cur. if 4 * (unat (addr_cells st) + unat (size_cells st)) \<le> length v
                         then cur\<lparr>reg_base := fst (reg_pair (addr_cells st) (size_cells st) v),
                                  reg_size := snd (reg_pair (addr_cells st) (size_cells st) v), reg_valid := True\<rparr>
                         else cur) st)"
proof (cases "4 * (unat (addr_cells st) + unat (size_cells st)) \<le> length v")
  case True
  let ?n = "4 * unat (addr_cells st)" and ?k = "4 * unat (size_cells st)"
  have r1: "fdt_read_num m (of_nat a) (addr_cells st) = be_num (take ?n v)"
    by (rule fdt_read_num_bytes [OF bytes_at_take [OF assms(1)]]) (use True in simp)
  have r2: "fdt_read_num m (of_nat (a + ?n)) (size_cells st) = be_num (take ?k (drop ?n v))"
    by (rule fdt_read_num_bytes [OF bytes_at_take [OF bytes_at_drop [OF assms(1)]]]) (use True in simp_all)
  have "(of_nat a :: u64) + 4 * ucast (addr_cells st) = of_nat (a + ?n)" by simp
  note r2 [folded this]
  moreover have t: "(addr_cells st + size_cells st) * 4 \<le> of_nat (length v)"
    using cells_test [OF assms(3,2)] True by blast
  ultimately show ?thesis
    unfolding set_reg_def if_P [OF t] set_cur_upd [OF assms(4)] using True r1 by (simp add: reg_pair_def)
next
  case False
  then have t: "\<not> (addr_cells st + size_cells st) * 4 \<le> of_nat (length v)"
    using cells_test [OF assms(3,2)] by blast
  show ?thesis
    unfolding set_reg_def if_not_P [OF t] using False by (simp add: upd_top_same)
qed

lemma root_cells_eff:
  assumes "bytes_at m a v" and "length v < 2 ^ 32" and "bytes_at m pn (nm off @ [0])" and "nul_free (nm off)"
  shows "root_cells m (of_nat pn) (of_nat a) (of_nat (length v)) st = root_eff nm (off, v) st"
proof -
  have l4: "4 \<le> (of_nat (length v) :: u32) \<longleftrightarrow> 4 \<le> length v" using le_len [OF assms(2), of 4] by simp
  have "4 \<le> length v \<Longrightarrow> fdt32_at m (of_nat a) = be_word v" by (rule fdt32_at_bytes [OF assms(1)])
  then show ?thesis
    using lit_distinct by (simp add: root_cells_def root_eff_def cell_eff_def l4 nul_free_lit
        str_eq_iff [OF assms(3,4)])
qed

text \<open>\<open>tb\<close> is what the firmware's scan does besides.\<close>

definition eff :: "((u32 \<Rightarrow> cstr) \<Rightarrow> dt_prop \<Rightarrow> u32 \<Rightarrow> u32) \<Rightarrow> (u32 \<Rightarrow> cstr) \<Rightarrow> dt_prop \<Rightarrow> fdt_state \<Rightarrow> fdt_state" where
  "eff tb nm p st =
     (let st1 = root_eff nm p st in
      upd_top (prop_eff nm (addr_cells st1) (size_cells st1) p) (st1\<lparr>timebase_hz := tb nm p (timebase_hz st1)\<rparr>))"

definition no_tb :: "(u32 \<Rightarrow> cstr) \<Rightarrow> dt_prop \<Rightarrow> u32 \<Rightarrow> u32" where
  "no_tb nm p t = t"

definition fw_tb :: "(u32 \<Rightarrow> cstr) \<Rightarrow> dt_prop \<Rightarrow> u32 \<Rightarrow> u32" where
  "fw_tb nm p t =
     (if nm (fst p) = lit ''timebase-frequency'' \<and> t = 0 \<and> 4 \<le> length (snd p) then be_word (snd p) else t)"

lemma root_eff_depth [simp]:
  "fdt_depth (root_eff nm p st) = fdt_depth st" "fdt_stack (root_eff nm p st) = fdt_stack st"
  "timebase_hz (root_eff nm p st) = timebase_hz st"
  by (simp_all add: root_eff_def)

lemma fdt_prop_eff:
  assumes at: "bytes_at m a v" and len: "length v < 2 ^ 31" and pn: "bytes_at m pn (nm off @ [0])" "nul_free (nm off)"
    and c: "nm off = lit ''compatible'' \<Longrightarrow> strlist_ok v" and room: "a + length v < 2 ^ 64"
    and cells: "nm off = lit ''reg'' \<Longrightarrow> cells_ok (root_eff nm (off, v) st)"
    and d: "0 < fdt_depth st" "fdt_depth st \<le> 32"
  shows "fdt_prop m (of_nat pn) (of_nat a) (of_nat (length v)) st = Some (eff no_tb nm (off, v) st)"
    and "fw_fdt_prop m (of_nat pn) (of_nat a) (of_nat (length v)) st = Some (eff fw_tb nm (off, v) st)"
proof -
  let ?st1 = "root_eff nm (off, v) st"
  have len': "length v < 2 ^ 32" using len by simp
  note root = root_cells_eff [of m a v pn nm off st, OF at len' pn]
  note eqs = str_eq_iff [OF pn] nul_free_lit
  note mem = memory_test [OF at len']
  have sl: "fdt_strlist_contains m (of_nat a) (of_nat (length v)) (lit ''virtio,mmio'') =
      Some (lit ''virtio,mmio'' \<in> set (strlist v))" if "nm off = lit ''compatible''"
    using strlist_loop_bytes [OF at _ room, of "lit ''virtio,mmio''" 0] c [OF that] len
    by (simp add: fdt_strlist_contains_def lit_def)
  have l4: "4 \<le> (of_nat (length v) :: u32) \<longleftrightarrow> 4 \<le> length v" using le_len [OF len', of 4] by simp
  have w: "4 \<le> length v \<Longrightarrow> fdt32_at m (of_nat a) = be_word v" by (rule fdt32_at_bytes [OF at])
  have sr: "nm off = lit ''reg'' \<Longrightarrow> set_reg m (of_nat a) (of_nat (length v)) ?st1 = Some (upd_top (prop_eff nm (addr_cells ?st1) (size_cells ?st1) (off, v)) ?st1)"
    using set_reg_eff [OF at len' cells] d lit_distinct by (simp add: prop_eff_def [abs_def])
  note simps = fdt_prop_def fw_fdt_prop_def root eqs mem l4 w sl set_cur_upd d eff_def Let_def prop_eff_def [abs_def] upd_top_same
    no_tb_def fw_tb_def lit_distinct lit_distinct [symmetric]
  consider "nm off = lit ''device_type''" | "nm off = lit ''compatible''" | "nm off = lit ''reg''"
    | "nm off \<noteq> lit ''device_type''" "nm off \<noteq> lit ''compatible''" "nm off \<noteq> lit ''reg''"
    by blast
  note cases = this
  from cases show "fdt_prop m (of_nat pn) (of_nat a) (of_nat (length v)) st = Some (eff no_tb nm (off, v) st)"
    by cases (simp_all add: simps sr)
  from cases show "fw_fdt_prop m (of_nat pn) (of_nat a) (of_nat (length v)) st = Some (eff fw_tb nm (off, v) st)"
    by cases (simp_all add: simps sr)
qed

end
