(* ===== verification/Fdt_Scan.thy ===== *)
theory Fdt_Scan
  imports Fdt_Tree
begin

text \<open>
  From tokens to trees: a scanner that obeys the laws of single tokens (locale \<open>token_scanner\<close>)
  passes over a flattened tree like a fold over its nodes.  The loop of the kernel and that of the
  firmware obey them.
\<close>

definition enter :: "fdt_state \<Rightarrow> fdt_state" where
  "enter st = st\<lparr>fdt_stack := (fdt_stack st)[nat (fdt_depth st) := cleared_node], fdt_depth := fdt_depth st + 1\<rparr>"

definition visit :: "nat \<Rightarrow> node_state \<Rightarrow> fdt_state \<Rightarrow> fdt_state" where
  "visit max_bases nd st =
     (let st1 = (if is_memory nd \<and> reg_valid nd \<and> mem_size st = 0
                 then st\<lparr>mem_base := reg_base nd, mem_size := reg_size nd\<rparr> else st) in
      if is_virtio nd \<and> reg_valid nd \<and> length (virtio_bases st1) < max_bases
      then st1\<lparr>virtio_bases := virtio_bases st1 @ [reg_base nd]\<rparr> else st1)"

definition leave :: "nat \<Rightarrow> fdt_state \<Rightarrow> fdt_state" where
  "leave max_bases st =
     (visit max_bases (fdt_stack st ! nat (fdt_depth st - 1)) st)\<lparr>fdt_depth := fdt_depth st - 1\<rparr>"

lemma fdt_begin_enter: "0 \<le> fdt_depth st \<Longrightarrow> fdt_depth st < 32 \<Longrightarrow> fdt_begin st = Some (enter st)"
  by (simp add: fdt_begin_def enter_def Let_def)

lemma fdt_leave_leave: "0 < fdt_depth st \<Longrightarrow> fdt_depth st \<le> 32 \<Longrightarrow> fdt_leave mx st = Some (leave mx st)"
  by (simp add: fdt_leave_def leave_def visit_def Let_def)

section \<open>What a visit leaves alone\<close>

lemma visit_fields [simp]:
  "addr_cells (visit mx nd st) = addr_cells st" "size_cells (visit mx nd st) = size_cells st"
  "fdt_depth (visit mx nd st) = fdt_depth st" "fdt_stack (visit mx nd st) = fdt_stack st"
  "timebase_hz (visit mx nd st) = timebase_hz st"
  by (simp_all add: visit_def Let_def)

lemma visit_commutes [simp]:
  "visit mx nd (st\<lparr>fdt_stack := x\<rparr>) = (visit mx nd st)\<lparr>fdt_stack := x\<rparr>"
  "visit mx nd (st\<lparr>fdt_depth := d\<rparr>) = (visit mx nd st)\<lparr>fdt_depth := d\<rparr>"
  "visit mx nd (st\<lparr>timebase_hz := t\<rparr>) = (visit mx nd st)\<lparr>timebase_hz := t\<rparr>"
  "visit mx nd (st\<lparr>addr_cells := c\<rparr>) = (visit mx nd st)\<lparr>addr_cells := c\<rparr>"
  "visit mx nd (st\<lparr>size_cells := c\<rparr>) = (visit mx nd st)\<lparr>size_cells := c\<rparr>"
  by (auto simp: visit_def Let_def)

lemma visits_fields [simp]:
  "addr_cells (fold (visit mx) ns st) = addr_cells st" "size_cells (fold (visit mx) ns st) = size_cells st"
  "fdt_depth (fold (visit mx) ns st) = fdt_depth st" "fdt_stack (fold (visit mx) ns st) = fdt_stack st"
  "timebase_hz (fold (visit mx) ns st) = timebase_hz st"
  by (induction ns arbitrary: st) simp_all

lemma visits_commute [simp]:
  "fold (visit mx) ns (st\<lparr>fdt_stack := x\<rparr>) = (fold (visit mx) ns st)\<lparr>fdt_stack := x\<rparr>"
  "fold (visit mx) ns (st\<lparr>fdt_depth := d\<rparr>) = (fold (visit mx) ns st)\<lparr>fdt_depth := d\<rparr>"
  "fold (visit mx) ns (st\<lparr>timebase_hz := t\<rparr>) = (fold (visit mx) ns st)\<lparr>timebase_hz := t\<rparr>"
  "fold (visit mx) ns (st\<lparr>addr_cells := c\<rparr>) = (fold (visit mx) ns st)\<lparr>addr_cells := c\<rparr>"
  "fold (visit mx) ns (st\<lparr>size_cells := c\<rparr>) = (fold (visit mx) ns st)\<lparr>size_cells := c\<rparr>"
  by (induction ns arbitrary: st) simp_all

text \<open>The visits of the nodes \<open>os\<close>, and the other effect of the properties \<open>ps\<close>.\<close>

definition pass ::
    "((u32 \<Rightarrow> cstr) \<Rightarrow> dt_prop \<Rightarrow> u32 \<Rightarrow> u32) \<Rightarrow> fdt_env \<Rightarrow> dt_prop list list \<Rightarrow> dt_prop list \<Rightarrow> fdt_state \<Rightarrow> fdt_state" where
  "pass tb e os ps st =
     (fold (visit (en_max e)) (map (node_of (en_nm e) (addr_cells st) (size_cells st)) os) st)
       \<lparr>timebase_hz := fold (tb (en_nm e)) ps (timebase_hz st)\<rparr>"

lemma pass_fields [simp]:
  "addr_cells (pass tb e os ps st) = addr_cells st" "size_cells (pass tb e os ps st) = size_cells st"
  "fdt_depth (pass tb e os ps st) = fdt_depth st" "fdt_stack (pass tb e os ps st) = fdt_stack st"
  "timebase_hz (pass tb e os ps st) = fold (tb (en_nm e)) ps (timebase_hz st)"
  by (simp_all add: pass_def)

lemma pass_commutes [simp]:
  "pass tb e os ps (st\<lparr>fdt_stack := x\<rparr>) = (pass tb e os ps st)\<lparr>fdt_stack := x\<rparr>"
  "pass tb e os ps (st\<lparr>fdt_depth := d\<rparr>) = (pass tb e os ps st)\<lparr>fdt_depth := d\<rparr>"
  by (simp_all add: pass_def)

lemma pass_append: "pass tb e (o1 @ o2) (p1 @ p2) st = pass tb e o2 p2 (pass tb e o1 p1 st)"
  by (simp add: pass_def)

lemma pass_Nil [simp]: "pass tb e [] [] st = st"
  by (simp add: pass_def)

section \<open>The properties of a node, one after the other\<close>

lemma eff_fields [simp]:
  "fdt_depth (eff tb nm p st) = fdt_depth st" "length (fdt_stack (eff tb nm p st)) = length (fdt_stack st)"
  by (simp_all add: eff_def upd_top_def Let_def)

lemma effs_fields [simp]:
  "fdt_depth (fold (eff tb nm) ps st) = fdt_depth st"
  "length (fdt_stack (fold (eff tb nm) ps st)) = length (fdt_stack st)"
  by (induction ps arbitrary: st) simp_all

lemma eff_inner:
  "fdt_depth st \<noteq> 1 \<Longrightarrow> eff tb nm p st =
     upd_top (prop_eff nm (addr_cells st) (size_cells st) p) (st\<lparr>timebase_hz := tb nm p (timebase_hz st)\<rparr>)"
  by (simp add: eff_def root_eff_def)

lemma effs_inner:
  assumes "fdt_depth st = int (Suc d)" and "0 < d" and "d < length (fdt_stack st)"
  shows "fold (eff tb nm) ps st =
    st\<lparr>fdt_stack := (fdt_stack st)[d := fold (prop_eff nm (addr_cells st) (size_cells st)) ps (fdt_stack st ! d)],
       timebase_hz := fold (tb nm) ps (timebase_hz st)\<rparr>"
proof (induction ps rule: rev_induct)
  case Nil
  then show ?case by simp
next
  case (snoc p ps)
  then show ?case using assms by (simp add: eff_inner upd_top_def)
qed

lemma prop_eff_no_reg: "nm (fst p) \<noteq> lit ''reg'' \<Longrightarrow> prop_eff nm ac sc p = prop_eff nm 0 0 p"
  by (rule ext) (simp add: prop_eff_def Let_def)

lemma eff_root:
  "fdt_depth st = 1 \<Longrightarrow> nm (fst p) \<noteq> lit ''reg'' \<Longrightarrow> eff tb nm p st =
     st\<lparr>addr_cells := cell_eff nm ''#address-cells'' p (addr_cells st),
        size_cells := cell_eff nm ''#size-cells'' p (size_cells st),
        fdt_stack := (fdt_stack st)[0 := prop_eff nm 0 0 p (fdt_stack st ! 0)],
        timebase_hz := tb nm p (timebase_hz st)\<rparr>"
  by (simp add: eff_def root_eff_def upd_top_def Let_def
      prop_eff_no_reg [of nm p "cell_eff nm ''#address-cells'' p (addr_cells st)" "cell_eff nm ''#size-cells'' p (size_cells st)"])

lemma effs_root:
  assumes "fdt_depth st = 1" and "0 < length (fdt_stack st)" and "\<forall>p\<in>set ps. nm (fst p) \<noteq> lit ''reg''"
  shows "fold (eff tb nm) ps st =
    st\<lparr>addr_cells := fold (cell_eff nm ''#address-cells'') ps (addr_cells st),
       size_cells := fold (cell_eff nm ''#size-cells'') ps (size_cells st),
       fdt_stack := (fdt_stack st)[0 := fold (prop_eff nm 0 0) ps (fdt_stack st ! 0)],
       timebase_hz := fold (tb nm) ps (timebase_hz st)\<rparr>"
  using assms(3)
proof (induction ps rule: rev_induct)
  case Nil
  then show ?case by simp
next
  case (snoc p ps)
  then show ?case using assms(1,2) by (simp add: eff_root)
qed

section \<open>The laws of single tokens\<close>

lemma dvd_props: "4 dvd length (concat (map prop_bytes ps))"
proof (induction ps)
  case (Cons p ps)
  then show ?case using pad4_dvd by (cases p) simp
qed simp

lemma dvd_concat: "(\<And>c. c \<in> set cs \<Longrightarrow> 4 dvd length (f c)) \<Longrightarrow> 4 dvd length (concat (map f cs))"
  by (induction cs) auto

lemma dvd_tree: "4 dvd length (dt_bytes t)"
proof (induction t rule: dt_bytes.induct)
  case (1 n ps cs)
  have "4 dvd length (concat (map dt_bytes cs))" by (rule dvd_concat) (rule 1)
  then show ?case using pad4_dvd [of "n @ [0]"] dvd_props [of ps] by simp
qed

lemma dvd_trees: "4 dvd length (concat (map dt_bytes cs))"
  by (rule dvd_concat) (rule dvd_tree)

locale token_scanner =
  fixes run :: "fdt_env \<Rightarrow> nat \<Rightarrow> fdt_state \<Rightarrow> (int \<times> fdt_state) option"
    and tb :: "(u32 \<Rightarrow> cstr) \<Rightarrow> dt_prop \<Rightarrow> u32 \<Rightarrow> u32"
  assumes run_begin: "env_ok e \<Longrightarrow> nul_free n \<Longrightarrow>
      bytes_at (en_mem e) a (be32 FDT_BEGIN_NODE @ pad4 (n @ [0])) \<Longrightarrow> 4 dvd a \<Longrightarrow>
      a + 4 + length (pad4 (n @ [0])) \<le> en_end e \<Longrightarrow> 0 \<le> fdt_depth st \<Longrightarrow> fdt_depth st < 32 \<Longrightarrow>
      run e a st = run e (a + 4 + length (pad4 (n @ [0]))) (enter st)"
    and run_prop: "env_ok e \<Longrightarrow> prop_ok e p \<Longrightarrow> bytes_at (en_mem e) a (prop_bytes p) \<Longrightarrow> 4 dvd a \<Longrightarrow>
      a + length (prop_bytes p) \<le> en_end e \<Longrightarrow> 0 < fdt_depth st \<Longrightarrow> fdt_depth st \<le> 32 \<Longrightarrow>
      (en_nm e (fst p) = lit ''reg'' \<Longrightarrow> cells_ok (root_eff (en_nm e) p st)) \<Longrightarrow>
      run e a st = run e (a + length (prop_bytes p)) (eff tb (en_nm e) p st)"
    and run_leave: "env_ok e \<Longrightarrow> bytes_at (en_mem e) a (be32 FDT_END_NODE) \<Longrightarrow> a + 4 \<le> en_end e \<Longrightarrow>
      0 < fdt_depth st \<Longrightarrow> fdt_depth st \<le> 32 \<Longrightarrow> run e a st = run e (a + 4) (leave (en_max e) st)"
    and run_stop: "env_ok e \<Longrightarrow> bytes_at (en_mem e) a (be32 FDT_END) \<Longrightarrow> a + 4 \<le> en_end e \<Longrightarrow>
      run e a st = Some (0, st)"
begin

lemma run_props:
  assumes "env_ok e"
  shows "\<lbrakk>\<forall>p\<in>set ps. prop_ok e p; bytes_at (en_mem e) a (concat (map prop_bytes ps)); 4 dvd a;
    a + length (concat (map prop_bytes ps)) \<le> en_end e; 0 < fdt_depth st; fdt_depth st \<le> 32;
    \<forall>p\<in>set ps. en_nm e (fst p) = lit ''reg'' \<longrightarrow> fdt_depth st \<noteq> 1 \<and> cells_ok st\<rbrakk> \<Longrightarrow>
    run e a st = run e (a + length (concat (map prop_bytes ps))) (fold (eff tb (en_nm e)) ps st)"
proof (induction ps arbitrary: a st)
  case Nil
  then show ?case by simp
next
  case (Cons p ps)
  let ?st1 = "eff tb (en_nm e) p st"
  have "run e a st = run e (a + length (prop_bytes p)) ?st1"
    by (rule run_prop [OF assms]) (use Cons.prems in \<open>auto simp: bytes_at_append root_eff_def\<close>)
  also have "\<dots> = run e (a + length (prop_bytes p) + length (concat (map prop_bytes ps)))
      (fold (eff tb (en_nm e)) ps ?st1)"
  proof (rule Cons.IH)
    have "4 dvd length (prop_bytes p)" using pad4_dvd by (cases p) simp
    then show "4 dvd a + length (prop_bytes p)" using Cons.prems(3) by simp
    show "\<forall>q\<in>set ps. en_nm e (fst q) = lit ''reg'' \<longrightarrow> fdt_depth ?st1 \<noteq> 1 \<and> cells_ok ?st1"
      using Cons.prems(7) by (auto simp: eff_inner upd_top_def Let_def cells_ok_def)
  qed (use Cons.prems in \<open>auto simp: bytes_at_append\<close>)
  finally show ?case by (simp add: add.assoc)
qed

text \<open>
  A tree below the root, and a list of them: the stack keeps what is below, and the state changes as
  \<open>pass\<close> says.
\<close>

definition scans :: "fdt_env \<Rightarrow> nat \<Rightarrow> nat \<Rightarrow> dt_prop list list \<Rightarrow> dt_prop list \<Rightarrow> fdt_state \<Rightarrow> bool" where
  "scans e a b os ps st \<longleftrightarrow>
     (\<exists>stk. run e a st = run e b ((pass tb e os ps st)\<lparr>fdt_stack := stk\<rparr>) \<and> length stk = 32 \<and>
        take (nat (fdt_depth st)) stk = take (nat (fdt_depth st)) (fdt_stack st))"

lemma scans_trans:
  assumes "scans e a b o1 p1 st" and "\<And>stk. length stk = 32 \<Longrightarrow> scans e b c o2 p2 ((pass tb e o1 p1 st)\<lparr>fdt_stack := stk\<rparr>)"
  shows "scans e a c (o1 @ o2) (p1 @ p2) st"
proof -
  obtain s1 where s1: "run e a st = run e b ((pass tb e o1 p1 st)\<lparr>fdt_stack := s1\<rparr>)" "length s1 = 32"
    "take (nat (fdt_depth st)) s1 = take (nat (fdt_depth st)) (fdt_stack st)"
    using assms(1) by (auto simp: scans_def)
  show ?thesis
    using assms(2) [OF s1(2)] s1 by (auto simp: scans_def pass_append)
qed

lemma run_forest:
  assumes "env_ok e"
    and tree: "\<And>c a st. c \<in> set cs \<Longrightarrow> \<forall>p\<in>set (dt_all_props c). prop_ok e p \<Longrightarrow> bytes_at (en_mem e) a (dt_bytes c) \<Longrightarrow>
      4 dvd a \<Longrightarrow> a + length (dt_bytes c) \<le> en_end e \<Longrightarrow> length (fdt_stack st) = 32 \<Longrightarrow> fdt_depth st = d \<Longrightarrow> cells_ok st \<Longrightarrow>
      scans e a (a + length (dt_bytes c)) (dt_order c) (dt_all_props c) st"
    and dv: "\<And>c. 4 dvd length (dt_bytes c)"
  shows "set ds \<subseteq> set cs \<Longrightarrow> \<forall>c\<in>set ds. \<forall>p\<in>set (dt_all_props c). prop_ok e p \<Longrightarrow>
    bytes_at (en_mem e) a (concat (map dt_bytes ds)) \<Longrightarrow> 4 dvd a \<Longrightarrow>
    a + length (concat (map dt_bytes ds)) \<le> en_end e \<Longrightarrow> length (fdt_stack st) = 32 \<Longrightarrow> fdt_depth st = d \<Longrightarrow> cells_ok st \<Longrightarrow>
    scans e a (a + length (concat (map dt_bytes ds))) (concat (map dt_order ds)) (concat (map dt_all_props ds)) st"
proof (induction ds arbitrary: a st)
  case Nil
  then show ?case by (auto simp: scans_def intro!: exI [of _ "fdt_stack st"])
next
  case (Cons c ds)
  have 1: "scans e a (a + length (dt_bytes c)) (dt_order c) (dt_all_props c) st"
    by (rule tree) (use Cons.prems in \<open>auto simp: bytes_at_append\<close>)
  have 2: "scans e (a + length (dt_bytes c)) (a + length (dt_bytes c) + length (concat (map dt_bytes ds)))
      (concat (map dt_order ds)) (concat (map dt_all_props ds)) ((pass tb e (dt_order c) (dt_all_props c) st)\<lparr>fdt_stack := stk\<rparr>)"
    if "length stk = 32" for stk
    by (rule Cons.IH) (use Cons.prems dv [of c] that in \<open>auto simp: bytes_at_append cells_ok_def\<close>)
  show ?case using scans_trans [OF 1 2] by (simp add: add.assoc)
qed

lemma run_tree:
  assumes "env_ok e"
  shows "dt_fits room t \<Longrightarrow> \<forall>p\<in>set (dt_all_props t). prop_ok e p \<Longrightarrow> bytes_at (en_mem e) a (dt_bytes t) \<Longrightarrow>
    4 dvd a \<Longrightarrow> a + length (dt_bytes t) \<le> en_end e \<Longrightarrow> length (fdt_stack st) = 32 \<Longrightarrow>
    fdt_depth st = int d \<Longrightarrow> 0 < d \<Longrightarrow> d + room \<le> 32 \<Longrightarrow> cells_ok st \<Longrightarrow>
    scans e a (a + length (dt_bytes t)) (dt_order t) (dt_all_props t) st"
proof (induction room arbitrary: t a st d)
  case 0
  then show ?case by simp
next
  case (Suc room)
  obtain n ps cs where t: "t = Dt_node n ps cs" by (cases t)
  let ?nb = "length (pad4 (n @ [0]))" and ?pb = "length (concat (map prop_bytes ps))"
    and ?cb = "length (concat (map dt_bytes cs))"
  let ?nd = "node_of (en_nm e) (addr_cells st) (size_cells st) ps"
  let ?st1 = "fold (eff tb (en_nm e)) ps (enter st)"
  note at = Suc.prems(3) [unfolded t dt_bytes.simps bytes_at_append length_append length_be32]
  note dvds = Suc.prems(4) pad4_dvd [of "n @ [0]"] dvd_props [of ps] dvd_trees [of cs]
  have st1: "?st1 = st\<lparr>fdt_stack := (fdt_stack st)[d := ?nd], fdt_depth := int (Suc d),
      timebase_hz := fold (tb (en_nm e)) ps (timebase_hz st)\<rparr>"
  proof -
    have "?st1 = (enter st)\<lparr>fdt_stack := (fdt_stack (enter st))[d := fold (prop_eff (en_nm e) (addr_cells st) (size_cells st)) ps cleared_node],
       timebase_hz := fold (tb (en_nm e)) ps (timebase_hz st)\<rparr>"
      using effs_inner [of "enter st" d tb "en_nm e" ps] Suc.prems(6-9) by (simp add: enter_def)
    then show ?thesis using Suc.prems(7) by (simp add: enter_def fold_prop_eff)
  qed
  have 1: "run e a st = run e (a + 4 + ?nb) (enter st)"
    by (rule run_begin [OF assms]) (use Suc.prems at t in \<open>auto simp: bytes_at_append\<close>)
  have 2: "run e (a + 4 + ?nb) (enter st) = run e (a + 4 + ?nb + ?pb) ?st1"
    by (rule run_props [OF assms]) (use Suc.prems at t dvds in \<open>auto simp: enter_def cells_ok_def add.assoc\<close>)
  have 3: "scans e (a + 4 + ?nb + ?pb) (a + 4 + ?nb + ?pb + ?cb) (concat (map dt_order cs)) (concat (map dt_all_props cs)) ?st1"
  proof (rule run_forest [OF assms, of cs "int (Suc d)"])
    fix c b s
    assume c: "c \<in> set cs" "\<forall>p\<in>set (dt_all_props c). prop_ok e p" "bytes_at (en_mem e) b (dt_bytes c)" "4 dvd b"
      "b + length (dt_bytes c) \<le> en_end e" "length (fdt_stack s) = 32" "fdt_depth s = int (Suc d)" "cells_ok s"
    show "scans e b (b + length (dt_bytes c)) (dt_order c) (dt_all_props c) s"
      by (rule Suc.IH [of c b s "Suc d"]) (use c Suc.prems t in auto)
  next
    show "cells_ok ?st1" unfolding st1 using Suc.prems(10) by (simp add: cells_ok_def)
    show "fdt_depth ?st1 = int (Suc d)" "length (fdt_stack ?st1) = 32" unfolding st1 using Suc.prems(6) by simp_all
  qed (use Suc.prems at t dvds dvd_tree in \<open>auto simp: add.assoc\<close>)
  let ?p = "pass tb e (concat (map dt_order cs)) (concat (map dt_all_props cs)) ?st1"
  obtain stk where s: "run e (a + 4 + ?nb + ?pb) ?st1 = run e (a + 4 + ?nb + ?pb + ?cb) (?p\<lparr>fdt_stack := stk\<rparr>)"
    "length stk = 32" "take (Suc d) stk = take (Suc d) ((fdt_stack st)[d := ?nd])"
  proof -
    have n: "nat (fdt_depth ?st1) = Suc d" "fdt_stack ?st1 = (fdt_stack st)[d := ?nd]"
      unfolding st1 by (simp_all del: of_nat_Suc)
    show thesis using 3 that unfolding scans_def n by blast
  qed
  have top: "stk ! d = ?nd" and below: "take d stk = take d (fdt_stack st)"
  proof -
    have "d < 32" using Suc.prems(9) by simp
    then show "stk ! d = ?nd"
      using arg_cong [OF s(3), of "\<lambda>l. l ! d"] s(2) Suc.prems(6) by simp
    show "take d stk = take d (fdt_stack st)"
      using arg_cong [OF s(3), of "take d"] by (simp add: min_def)
  qed
  have 4: "run e (a + 4 + ?nb + ?pb + ?cb) (?p\<lparr>fdt_stack := stk\<rparr>) =
      run e (a + length (dt_bytes t)) (leave (en_max e) (?p\<lparr>fdt_stack := stk\<rparr>))"
    using run_leave [OF assms, of "a + 4 + ?nb + ?pb + ?cb" "?p\<lparr>fdt_stack := stk\<rparr>"] at Suc.prems(5,7,9) t
    by (simp add: st1 add.assoc)
  have "leave (en_max e) (?p\<lparr>fdt_stack := stk\<rparr>) = (pass tb e (dt_order t) (dt_all_props t) st)\<lparr>fdt_stack := stk\<rparr>"
    using top Suc.prems(7) by (simp add: leave_def st1 pass_def t)
  then show ?case
    using 1 2 s(1,2) 4 below Suc.prems(7) by (auto simp: scans_def intro!: exI [of _ stk])
qed

text \<open>The whole tree: the cells of the root count for every node, so the root may have no \<^verbatim>\<open>reg\<close>.\<close>

lemma run_root:
  assumes env: "env_ok e" and fits: "dt_fits 32 t" and props: "\<forall>p\<in>set (dt_all_props t). prop_ok e p"
    and at: "bytes_at (en_mem e) a (dt_bytes t @ be32 FDT_END)" and al: "4 dvd a"
    and room: "a + length (dt_bytes t) + 4 \<le> en_end e"
    and reg: "\<forall>p\<in>set (dt_props t). en_nm e (fst p) \<noteq> lit ''reg''"
    and ac: "ac = dt_cells (en_nm e) ''#address-cells'' (dt_props t)"
    and sc: "sc = dt_cells (en_nm e) ''#size-cells'' (dt_props t)" and cells: "unat ac + unat sc < 2 ^ 28"
    and st: "fdt_depth st = 0" "length (fdt_stack st) = 32" "addr_cells st = 2" "size_cells st = 2"
  shows "\<exists>stk. run e a st = Some (0, (pass tb e (dt_order t) (dt_all_props t)
    (st\<lparr>addr_cells := ac, size_cells := sc\<rparr>))\<lparr>fdt_stack := stk\<rparr>)"
proof -
  obtain n ps cs where t: "t = Dt_node n ps cs" by (cases t)
  let ?nb = "length (pad4 (n @ [0]))" and ?pb = "length (concat (map prop_bytes ps))"
    and ?cb = "length (concat (map dt_bytes cs))"
  let ?nd = "node_of (en_nm e) ac sc ps"
  let ?st1 = "fold (eff tb (en_nm e)) ps (enter st)"
  note at' = at [unfolded t dt_bytes.simps bytes_at_append length_append length_be32]
  note dvds = al pad4_dvd [of "n @ [0]"] dvd_props [of ps] dvd_trees [of cs]
  have nf: "nul_free n" and sub: "\<And>c. c \<in> set cs \<Longrightarrow> dt_fits 31 c"
    using fits by (simp_all add: t numeral_eq_Suc)
  have nd: "fold (prop_eff (en_nm e) 0 0) ps cleared_node = ?nd"
  proof -
    have "fold (prop_eff (en_nm e) 0 0) ps x = fold (prop_eff (en_nm e) ac sc) ps x" for x
      by (rule fold_cong) (use reg t in \<open>auto simp: prop_eff_no_reg [of "en_nm e" _ ac sc]\<close>)
    from this [of cleared_node] show ?thesis by (simp only: fold_prop_eff)
  qed
  have st1: "?st1 = st\<lparr>addr_cells := ac, size_cells := sc, fdt_stack := (fdt_stack st)[0 := ?nd], fdt_depth := 1,
      timebase_hz := fold (tb (en_nm e)) ps (timebase_hz st)\<rparr>"
    using effs_root [of "enter st" ps "en_nm e" tb] reg st nd
    by (simp add: enter_def t fold_cell_eff ac sc)
  have 1: "run e a st = run e (a + 4 + ?nb) (enter st)"
    by (rule run_begin [OF env nf]) (use al at' room st t in \<open>auto simp: bytes_at_append\<close>)
  have 2: "run e (a + 4 + ?nb) (enter st) = run e (a + 4 + ?nb + ?pb) ?st1"
    by (rule run_props [OF env]) (use props room reg st at' t dvds in \<open>auto simp: enter_def add.assoc\<close>)
  have 3: "scans e (a + 4 + ?nb + ?pb) (a + 4 + ?nb + ?pb + ?cb) (concat (map dt_order cs)) (concat (map dt_all_props cs)) ?st1"
  proof (rule run_forest [OF env, of cs 1])
    fix c b s
    assume c: "c \<in> set cs" "\<forall>p\<in>set (dt_all_props c). prop_ok e p" "bytes_at (en_mem e) b (dt_bytes c)" "4 dvd b"
      "b + length (dt_bytes c) \<le> en_end e" "length (fdt_stack s) = 32" "fdt_depth s = 1" "cells_ok s"
    show "scans e b (b + length (dt_bytes c)) (dt_order c) (dt_all_props c) s"
      by (rule run_tree [OF env, of 31 c b s 1]) (use c sub in auto)
  next
    show "cells_ok ?st1" unfolding st1 using cells by (simp add: cells_ok_def)
    show "fdt_depth ?st1 = 1" "length (fdt_stack ?st1) = 32" unfolding st1 using st by simp_all
  qed (use props room at' t dvds dvd_tree in \<open>auto simp: add.assoc\<close>)
  let ?p = "pass tb e (concat (map dt_order cs)) (concat (map dt_all_props cs)) ?st1"
  obtain stk where s: "run e (a + 4 + ?nb + ?pb) ?st1 = run e (a + 4 + ?nb + ?pb + ?cb) (?p\<lparr>fdt_stack := stk\<rparr>)"
    "length stk = 32" "take 1 stk = take 1 ((fdt_stack st)[0 := ?nd])"
    using 3 by (auto simp: scans_def st1)
  have top: "stk ! 0 = ?nd"
    using arg_cong [OF s(3), of "\<lambda>l. l ! 0"] s(2) st(2) by simp
  have 4: "run e (a + 4 + ?nb + ?pb + ?cb) (?p\<lparr>fdt_stack := stk\<rparr>) =
      run e (a + length (dt_bytes t)) (leave (en_max e) (?p\<lparr>fdt_stack := stk\<rparr>))"
    using run_leave [OF env, of "a + 4 + ?nb + ?pb + ?cb" "?p\<lparr>fdt_stack := stk\<rparr>"] at' room t
    by (simp add: st1 add.assoc)
  have 5: "run e (a + length (dt_bytes t)) s = Some (0, s)" for s
    by (rule run_stop [OF env]) (use at room in \<open>auto simp: bytes_at_append\<close>)
  have "leave (en_max e) (?p\<lparr>fdt_stack := stk\<rparr>) =
      (pass tb e (dt_order t) (dt_all_props t) (st\<lparr>addr_cells := ac, size_cells := sc\<rparr>))\<lparr>fdt_stack := stk\<rparr>"
    using top st(1) by (simp add: leave_def st1 pass_def t)
  then show ?thesis using 1 2 s(1) 4 5 by auto
qed

end

section \<open>The two loops are scanners\<close>

definition kernel_run :: "fdt_env \<Rightarrow> nat \<Rightarrow> fdt_state \<Rightarrow> (int \<times> fdt_state) option" where
  "kernel_run e a st =
     fdt_loop (en_mem e) (of_nat (en_end e)) (of_nat (en_strs e)) (en_size e) (en_max e) (of_nat a) st"

definition firmware_run :: "fdt_env \<Rightarrow> nat \<Rightarrow> fdt_state \<Rightarrow> (int \<times> fdt_state) option" where
  "firmware_run e a st = fw_fdt_loop (en_mem e) (of_nat (en_strs e)) (en_max e) (of_nat a) st"

text \<open>What a token in place says, in the addresses of the loops.\<close>

lemma token_at:
  assumes "bytes_at m a (be32 v @ rest)"
  shows "fdt32_at m (of_nat a) = v" "bytes_at m (a + 4) rest" "(of_nat a :: u64) + 4 = of_nat (a + 4)"
  using fdt32_at_bytes [OF assms] assms by (simp_all add: bytes_at_append)

lemma name_at:
  assumes "bytes_at m a (pad4 (n @ [0]))" and "4 dvd a" and "a + length (n @ [0]) + 3 < 2 ^ 64"
  shows "bytes_at m a (n @ [0])" "align4 (of_nat a + of_nat (length n) + 1) = of_nat (a + length (pad4 (n @ [0])))"
proof -
  show "bytes_at m a (n @ [0])" using assms(1) unfolding pad4_def bytes_at_append by blast
  have e: "(of_nat a + of_nat (length n) + 1 :: u64) = of_nat (a + length (n @ [0]))" by simp
  show "align4 (of_nat a + of_nat (length n) + 1) = of_nat (a + length (pad4 (n @ [0])))"
    unfolding e by (rule align4_pad4 [OF assms(2,3)])
qed

lemma prop_at:
  assumes "bytes_at m a (prop_bytes (off, v))" and "4 dvd a" and "length v < 2 ^ 31" and "a + 12 + length v + 3 < 2 ^ 64"
  shows "fdt32_at m (of_nat a) = FDT_PROP" "fdt32_at m (of_nat (a + 4)) = of_nat (length v)"
    "fdt32_at m (of_nat (a + 8)) = off" "bytes_at m (a + 12) v"
    "align4 (of_nat (a + 12 + length v)) = of_nat (a + length (prop_bytes (off, v)))"
proof -
  have b: "bytes_at m a (be32 FDT_PROP @ be32 (of_nat (length v)) @ be32 off @ pad4 v)" using assms(1) by simp
  note t1 = token_at [OF b]
  note t2 = token_at [OF t1(2)]
  note t3 = token_at [OF t2(2)]
  show "fdt32_at m (of_nat a) = FDT_PROP" by (rule t1)
  show "fdt32_at m (of_nat (a + 4)) = of_nat (length v)" by (rule t2)
  show "fdt32_at m (of_nat (a + 8)) = off" using t3(1) by (simp add: add.assoc)
  show "bytes_at m (a + 12) v" using t3(2) by (simp add: pad4_def bytes_at_append add.commute)
  show "align4 (of_nat (a + 12 + length v)) = of_nat (a + length (prop_bytes (off, v)))"
    using align4_pad4 [of "a + 12" v] assms(2,4) by (simp add: add.assoc)
qed

lemma kernel_begin:
  assumes "env_ok e" "nul_free n" and b: "bytes_at (en_mem e) a (be32 FDT_BEGIN_NODE @ pad4 (n @ [0]))"
    and al: "4 dvd a" and room: "a + 4 + length (pad4 (n @ [0])) \<le> en_end e" and d: "0 \<le> fdt_depth st" "fdt_depth st < 32"
  shows "kernel_run e a st = kernel_run e (a + 4 + length (pad4 (n @ [0]))) (enter st)"
    and "firmware_run e a st = firmware_run e (a + 4 + length (pad4 (n @ [0]))) (enter st)"
proof -
  let ?b = "a + 4"
  have e64: "en_end e + 8 < 2 ^ 64" using assms(1) by (simp add: env_ok_def)
  note len = length_pad4 [of "n @ [0]"]
  note t = token_at [OF b]
  have al4: "4 dvd ?b" using al by simp
  have lim: "?b + length (n @ [0]) + 3 < 2 ^ 64" using room len e64 by simp
  note nm = name_at [OF t(2) al4 lim]
  have fits: "?b + length n < en_end e" using room len by simp
  have sn: "fdt_strnlen (en_mem e) (of_nat ?b) (of_nat (en_end e)) = of_nat (length n)"
    by (rule fdt_strnlen_bytes [OF nm(1) assms(2) fits]) (use e64 in simp)
  have sl: "mem_strlen (en_mem e) (of_nat ?b) 0 = Some (of_nat (length n))"
    using mem_strlen_bytes [of "en_mem e" ?b 0 n] nm(1) assms(2) by simp
  have c1: "\<not> (of_nat (en_end e) :: u64) < of_nat ?b"
    using addr_less [of "en_end e" ?b] room e64 by simp
  have "(of_nat ?b :: u64) + of_nat (length n) = of_nat (?b + length n)" by simp
  then have c2: "\<not> (of_nat (en_end e) :: u64) \<le> of_nat ?b + of_nat (length n)"
    using addr_le [of "en_end e" "?b + length n"] fits e64 by (simp only:)
  have c3: "\<not> (of_nat (en_end e) :: u64) < of_nat (?b + length (pad4 (n @ [0])))"
    using addr_less [of "en_end e" "?b + length (pad4 (n @ [0]))"] room e64 by simp
  show "kernel_run e a st = kernel_run e (a + 4 + length (pad4 (n @ [0]))) (enter st)"
    unfolding kernel_run_def
    by (subst fdt_loop.simps, unfold t(1,3) Let_def sn nm(2))
      (simp only: c1 c2 c3 fdt_begin_enter [OF d] if_False if_True refl simp_thms Option.bind.bind_lunit)
  show "firmware_run e a st = firmware_run e (a + 4 + length (pad4 (n @ [0]))) (enter st)"
    unfolding firmware_run_def
    by (subst fw_fdt_loop.simps, unfold t(1,3) Let_def sl Option.bind.bind_lunit nm(2))
      (simp only: fdt_begin_enter [OF d] if_True refl Option.bind.bind_lunit nm(2))
qed

lemma kernel_prop:
  assumes "env_ok e" and p: "prop_ok e p" and b: "bytes_at (en_mem e) a (prop_bytes p)"
    and al: "4 dvd a" and room: "a + length (prop_bytes p) \<le> en_end e" and d: "0 < fdt_depth st" "fdt_depth st \<le> 32"
    and cells: "en_nm e (fst p) = lit ''reg'' \<Longrightarrow> cells_ok (root_eff (en_nm e) p st)"
  shows "kernel_run e a st = kernel_run e (a + length (prop_bytes p)) (eff no_tb (en_nm e) p st)"
    and "firmware_run e a st = firmware_run e (a + length (prop_bytes p)) (eff fw_tb (en_nm e) p st)"
proof -
  obtain off v where pv: "p = (off, v)" by (cases p)
  have e64: "en_end e + 8 < 2 ^ 64" "en_strs e + unat (en_size e) < 2 ^ 64" using assms(1) by (simp_all add: env_ok_def)
  have ok: "off < en_size e" "length v < 2 ^ 31" "bytes_at (en_mem e) (en_strs e + unat off) (en_nm e off @ [0])"
    "nul_free (en_nm e off)" "en_nm e off = lit ''compatible'' \<Longrightarrow> strlist_ok v"
    using p by (simp_all add: prop_ok_def pv)
  have len: "a + 12 + length v \<le> en_end e" using room length_pad4 [of v] by (simp add: pv)
  have lim: "a + 12 + length v + 3 < 2 ^ 64" using len e64 by simp
  note at = prop_at [OF b [unfolded pv] al ok(2) lim]
  let ?pn = "of_nat (en_strs e + unat off) :: u64"
  have vl: "a + 12 + length v < 2 ^ 64" using lim by simp
  note pe = fdt_prop_eff [OF at(4) ok(2) ok(3,4,5) vl cells [unfolded pv fst_conv] d]
  have pn: "of_nat (en_strs e) + ucast off = ?pn" by simp
  have w: "(of_nat a :: u64) + 4 = of_nat (a + 4)" "(of_nat (a + 4) :: u64) + 4 = of_nat (a + 8)"
    "(of_nat (a + 4) :: u64) + 8 = of_nat (a + 12)"
    "(of_nat (a + 12) :: u64) + ucast (of_nat (length v) :: u32) = of_nat (a + 12 + length v)"
    "(of_nat (en_strs e) :: u64) + ucast (en_size e) = of_nat (en_strs e + unat (en_size e))"
    using ok(2) by (simp_all add: ucast_nat)
  have c: "\<not> (of_nat (en_end e) :: u64) < of_nat (a + 4)" "\<not> (of_nat (en_end e) :: u64) < of_nat (a + 12)"
    "\<not> (of_nat (en_end e) :: u64) < of_nat (a + 12 + length v)"
    "\<not> (of_nat (en_end e) :: u64) < of_nat (a + length (prop_bytes (off, v)))"
    using addr_less [of "en_end e" "a + 4"] addr_less [of "en_end e" "a + 12"]
      addr_less [of "en_end e" "a + 12 + length v"] addr_less [of "en_end e" "a + length (prop_bytes (off, v))"]
      len room e64 by (simp_all only: pv)
  have n: "\<not> en_size e \<le> off" "\<not> of_nat (en_strs e + unat (en_size e)) \<le> ?pn"
    using ok(1) addr_le [of "en_strs e + unat (en_size e)" "en_strs e + unat off"] e64
    by (simp_all only: not_le word_less_nat_alt)
  have tok: "(FDT_PROP :: u32) \<noteq> FDT_BEGIN_NODE" "(FDT_PROP :: u32) \<noteq> FDT_END_NODE" by simp_all
  show "kernel_run e a st = kernel_run e (a + length (prop_bytes p)) (eff no_tb (en_nm e) p st)"
    unfolding kernel_run_def pv
    by (subst fdt_loop.simps, unfold Let_def at(1) w at(2,3) pn)
      (simp only: c n tok if_False if_True refl pe(1) at(5) Option.bind.bind_lunit)
  show "firmware_run e a st = firmware_run e (a + length (prop_bytes p)) (eff fw_tb (en_nm e) p st)"
    unfolding firmware_run_def pv
    by (subst fw_fdt_loop.simps, unfold Let_def at(1) w at(2,3) pn)
      (simp only: tok if_False if_True refl pe(2) at(5) Option.bind.bind_lunit)
qed

lemma kernel_leave:
  assumes "env_ok e" and b: "bytes_at (en_mem e) a (be32 FDT_END_NODE)" and room: "a + 4 \<le> en_end e"
    and d: "0 < fdt_depth st" "fdt_depth st \<le> 32"
  shows "kernel_run e a st = kernel_run e (a + 4) (leave (en_max e) st)"
    and "firmware_run e a st = firmware_run e (a + 4) (leave (en_max e) st)"
proof -
  note t = token_at [of "en_mem e" a FDT_END_NODE "[]", unfolded append_Nil2, OF b]
  have c: "\<not> (of_nat (en_end e) :: u64) < of_nat (a + 4)"
    using addr_less [of "en_end e" "a + 4"] room assms(1) by (simp add: env_ok_def)
  have w: "(of_nat a :: u64) + 4 = of_nat (a + 4)" by simp
  have tok: "(FDT_END_NODE :: u32) \<noteq> FDT_BEGIN_NODE" by simp
  show "kernel_run e a st = kernel_run e (a + 4) (leave (en_max e) st)"
    unfolding kernel_run_def
    by (subst fdt_loop.simps, unfold Let_def t(1) w)
      (simp only: c tok if_False if_True refl fdt_leave_leave [OF d] Option.bind.bind_lunit)
  show "firmware_run e a st = firmware_run e (a + 4) (leave (en_max e) st)"
    unfolding firmware_run_def
    by (subst fw_fdt_loop.simps, unfold Let_def t(1) w)
      (simp only: tok if_False if_True refl fdt_leave_leave [OF d] Option.bind.bind_lunit)
qed

lemma kernel_stop:
  assumes "env_ok e" and b: "bytes_at (en_mem e) a (be32 FDT_END)" and room: "a + 4 \<le> en_end e"
  shows "kernel_run e a st = Some (0, st)" and "firmware_run e a st = Some (0, st)"
proof -
  note t = token_at [of "en_mem e" a FDT_END "[]", unfolded append_Nil2, OF b]
  have c: "\<not> (of_nat (en_end e) :: u64) < of_nat (a + 4)"
    using addr_less [of "en_end e" "a + 4"] room assms(1) by (simp add: env_ok_def)
  have w: "(of_nat a :: u64) + 4 = of_nat (a + 4)" by simp
  show "kernel_run e a st = Some (0, st)"
    unfolding kernel_run_def by (subst fdt_loop.simps, unfold Let_def t(1) w) (simp add: c del: of_nat_add)
  show "firmware_run e a st = Some (0, st)"
    unfolding firmware_run_def by (subst fw_fdt_loop.simps, unfold Let_def t(1)) simp
qed

interpretation kernel: token_scanner kernel_run no_tb
  by unfold_locales (rule kernel_begin kernel_prop kernel_leave kernel_stop; assumption)+

interpretation firmware: token_scanner firmware_run fw_tb
  by unfold_locales (rule kernel_begin kernel_prop kernel_leave kernel_stop; assumption)+

end
