(* ===== verification/Fdt_Thms.thy ===== *)
theory Fdt_Thms
  imports Fdt_Scan
begin

text \<open>
  What \<^verbatim>\<open>kernel/fdt.c\<close> and \<^verbatim>\<open>firmware/fdt.c\<close> answer on the blob of a device tree: the memory and
  the virtio devices it describes, and the same answers from both.
\<close>

section \<open>What a tree describes\<close>

definition dt_nodes :: "(u32 \<Rightarrow> cstr) \<Rightarrow> dt_node \<Rightarrow> node_state list" where
  "dt_nodes nm t =
     map (node_of nm (dt_cells nm ''#address-cells'' (dt_props t)) (dt_cells nm ''#size-cells'' (dt_props t)))
       (dt_order t)"

definition dt_memories :: "(u32 \<Rightarrow> cstr) \<Rightarrow> dt_node \<Rightarrow> (u64 \<times> u64) list" where
  "dt_memories nm t =
     map (\<lambda>n. (reg_base n, reg_size n)) (filter (\<lambda>n. is_memory n \<and> reg_valid n) (dt_nodes nm t))"

definition dt_virtios :: "(u32 \<Rightarrow> cstr) \<Rightarrow> dt_node \<Rightarrow> u64 list" where
  "dt_virtios nm t = map reg_base (filter (\<lambda>n. is_virtio n \<and> reg_valid n) (dt_nodes nm t))"

definition dt_timebases :: "(u32 \<Rightarrow> cstr) \<Rightarrow> dt_node \<Rightarrow> u32 list" where
  "dt_timebases nm t =
     map be_word (filter (\<lambda>v. 4 \<le> length v) (dt_values nm ''timebase-frequency'' (dt_all_props t)))"

text \<open>
  The blob of \<open>t\<close> at \<open>dtb\<close>: a header whose offsets lie inside it, the structure block, and the
  names of the properties in the strings block.  The tree is at most 32 deep, its root has no
  \<^verbatim>\<open>reg\<close>, and a \<^verbatim>\<open>compatible\<close> is a list of strings, as the format asks.
\<close>

definition dt_blob :: "mem \<Rightarrow> nat \<Rightarrow> (u32 \<Rightarrow> cstr) \<Rightarrow> dt_node \<Rightarrow> bool" where
  "dt_blob m dtb nm t \<longleftrightarrow>
     (let total = fdt32_at m (of_nat (dtb + 4)); off_struct = fdt32_at m (of_nat (dtb + 8));
          off_strings = fdt32_at m (of_nat (dtb + 12)); size_strings = fdt32_at m (of_nat (dtb + 32));
          size_struct = fdt32_at m (of_nat (dtb + 36)) in
      fdt32_at m (of_nat dtb) = FDT_MAGIC \<and> 40 \<le> total \<and> total \<le> 16 * 1024 * 1024 \<and>
      off_struct < total \<and> off_strings < total \<and> unat off_struct + unat size_struct \<le> unat total \<and>
      unat off_strings + unat size_strings \<le> unat total \<and> 4 dvd dtb \<and> 4 dvd unat off_struct \<and>
      dtb + unat total + 8 < 2 ^ 64 \<and>
      unat size_struct = length (dt_bytes t) + 4 \<and>
      bytes_at m (dtb + unat off_struct) (dt_bytes t @ be32 FDT_END) \<and>
      dt_fits 32 t \<and>
      (\<forall>p\<in>set (dt_all_props t). unat (fst p) + length (nm (fst p)) < unat size_strings \<and> length (snd p) < 2 ^ 31 \<and>
         bytes_at m (dtb + unat off_strings + unat (fst p)) (nm (fst p) @ [0]) \<and> nul_free (nm (fst p)) \<and>
         (nm (fst p) = lit ''compatible'' \<longrightarrow> strlist_ok (snd p))) \<and>
      (\<forall>p\<in>set (dt_props t). nm (fst p) \<noteq> lit ''reg'') \<and>
      unat (dt_cells nm ''#address-cells'' (dt_props t)) + unat (dt_cells nm ''#size-cells'' (dt_props t)) < 2 ^ 28)"

section \<open>The fold over the nodes\<close>

lemma visits_memory_kept: "mem_size st \<noteq> 0 \<Longrightarrow>
  mem_base (fold (visit mx) ns st) = mem_base st \<and> mem_size (fold (visit mx) ns st) = mem_size st"
  by (induction ns arbitrary: st) (simp_all add: visit_def Let_def)

lemma visits_memory:
  "mem_size st = 0 \<Longrightarrow>
   (case find (\<lambda>r. snd r \<noteq> 0) (map (\<lambda>n. (reg_base n, reg_size n)) (filter (\<lambda>n. is_memory n \<and> reg_valid n) ns)) of
      Some r \<Rightarrow> mem_base (fold (visit mx) ns st) = fst r \<and> mem_size (fold (visit mx) ns st) = snd r
    | None \<Rightarrow> mem_size (fold (visit mx) ns st) = 0)"
proof (induction ns arbitrary: st)
  case Nil
  then show ?case by simp
next
  case (Cons n ns)
  show ?case
  proof (cases "is_memory n \<and> reg_valid n \<and> reg_size n \<noteq> 0")
    case True
    then have "mem_size (visit mx n st) = reg_size n" "mem_base (visit mx n st) = reg_base n"
      using Cons.prems by (simp_all add: visit_def Let_def)
    then show ?thesis using True visits_memory_kept [of "visit mx n st" mx ns] by simp
  next
    case False
    then have "mem_size (visit mx n st) = 0" using Cons.prems by (auto simp: visit_def Let_def)
    from Cons.IH [OF this] show ?thesis using False unfolding fold_simps by auto
  qed
qed

lemma visits_virtio:
  "length (virtio_bases st) \<le> mx \<Longrightarrow>
   virtio_bases (fold (visit mx) ns st) = virtio_bases st @
     take (mx - length (virtio_bases st)) (map reg_base (filter (\<lambda>n. is_virtio n \<and> reg_valid n) ns))"
proof (induction ns arbitrary: st)
  case Nil
  then show ?case by simp
next
  case (Cons n ns)
  let ?st = "visit mx n st"
  show ?case
  proof (cases "is_virtio n \<and> reg_valid n")
    case True
    show ?thesis
    proof (cases "length (virtio_bases st) < mx")
      case True': True
      then have "virtio_bases ?st = virtio_bases st @ [reg_base n]"
        using True by (simp add: visit_def Let_def)
      moreover have "mx - length (virtio_bases st) = Suc (mx - Suc (length (virtio_bases st)))"
        using True' by simp
      ultimately show ?thesis using Cons.IH [of ?st] True True' by simp
    next
      case False
      then have "virtio_bases ?st = virtio_bases st" by (simp add: visit_def Let_def)
      then show ?thesis using Cons.IH [of ?st] False Cons.prems by simp
    qed
  next
    case False
    then have "virtio_bases ?st = virtio_bases st" by (auto simp: visit_def Let_def)
    then show ?thesis using Cons.IH [of ?st] False Cons.prems by auto
  qed
qed

lemma fold_no_tb [simp]: "fold (no_tb nm) ps t = t"
  by (induction ps) (simp_all add: no_tb_def)

lemma fold_fw_tb_kept: "t \<noteq> 0 \<Longrightarrow> fold (fw_tb nm) ps t = t"
  by (induction ps) (simp_all add: fw_tb_def)

lemma fold_fw_tb:
  "fold (fw_tb nm) ps 0 = (case find (\<lambda>x. x \<noteq> 0)
     (map be_word (filter (\<lambda>v. 4 \<le> length v) (dt_values nm ''timebase-frequency'' ps))) of None \<Rightarrow> 0 | Some x \<Rightarrow> x)"
proof (induction ps)
  case Nil
  then show ?case by (simp add: dt_values_def)
next
  case (Cons p ps)
  have "fw_tb nm p 0 =
      (if nm (fst p) = lit ''timebase-frequency'' \<and> 4 \<le> length (snd p) then be_word (snd p) else 0)"
    by (simp add: fw_tb_def)
  with Cons show ?case
    by (cases "be_word (snd p) = 0") (simp_all add: dt_values_def fold_fw_tb_kept)
qed

section \<open>The scans of a blob\<close>

definition blob_env :: "mem \<Rightarrow> nat \<Rightarrow> (u32 \<Rightarrow> cstr) \<Rightarrow> nat \<Rightarrow> fdt_env" where
  "blob_env m dtb nm mx =
     \<lparr>en_mem = m, en_end = dtb + unat (fdt32_at m (of_nat (dtb + 8))) + unat (fdt32_at m (of_nat (dtb + 36))),
      en_strs = dtb + unat (fdt32_at m (of_nat (dtb + 12))), en_size = fdt32_at m (of_nat (dtb + 32)),
      en_max = mx, en_nm = nm\<rparr>"

lemma blob_env_ok:
  assumes "dt_blob m dtb nm t"
  shows "env_ok (blob_env m dtb nm mx)" and "\<forall>p\<in>set (dt_all_props t). prop_ok (blob_env m dtb nm mx) p"
  using assms by (auto simp: dt_blob_def Let_def blob_env_def env_ok_def prop_ok_def word_less_nat_alt)

text \<open>The state both scans end with.\<close>

definition dt_end ::
    "((u32 \<Rightarrow> cstr) \<Rightarrow> dt_prop \<Rightarrow> u32 \<Rightarrow> u32) \<Rightarrow> mem \<Rightarrow> nat \<Rightarrow> (u32 \<Rightarrow> cstr) \<Rightarrow> dt_node \<Rightarrow> nat \<Rightarrow> node_state list \<Rightarrow> node_state list \<Rightarrow> fdt_state" where
  "dt_end tb m dtb nm t mx stack stk =
     (pass tb (blob_env m dtb nm mx) (dt_order t) (dt_all_props t)
       ((fdt_init 0 0 stack)\<lparr>addr_cells := dt_cells nm ''#address-cells'' (dt_props t),
                             size_cells := dt_cells nm ''#size-cells'' (dt_props t)\<rparr>))\<lparr>fdt_stack := stk\<rparr>"

lemma scan_blob:
  assumes b: "dt_blob m dtb nm t" and st: "length stack = 32"
  shows "\<exists>stk. fdt_scan m (of_nat dtb) 0 0 mx stack = Some (0, dt_end no_tb m dtb nm t mx stack stk)"
    and "\<exists>stk. fw_fdt_scan m (of_nat dtb) 0 0 mx stack = Some (0, dt_end fw_tb m dtb nm t mx stack stk)"
proof -
  let ?e = "blob_env m dtb nm mx" and ?os = "fdt32_at m (of_nat (dtb + 8))" and ?ss = "fdt32_at m (of_nat (dtb + 36))"
    and ?ot = "fdt32_at m (of_nat (dtb + 12))" and ?ts = "fdt32_at m (of_nat (dtb + 32))"
    and ?total = "fdt32_at m (of_nat (dtb + 4))"
  note b' = b [unfolded dt_blob_def Let_def]
  note env = blob_env_ok [OF b, of mx]
  have a: "(of_nat dtb :: u64) + k = of_nat (dtb + unat k)" for k :: u64 by simp
  have w: "(of_nat dtb :: u64) + ucast ?os = of_nat (dtb + unat ?os)"
    "(of_nat dtb :: u64) + ucast ?ot = of_nat (en_strs ?e)"
    "(of_nat dtb :: u64) + ucast ?os + ucast ?ss = of_nat (en_end ?e)"
    by (simp_all add: blob_env_def)
  have o: "(of_nat dtb :: u64) + 4 = of_nat (dtb + 4)" "(of_nat dtb :: u64) + 8 = of_nat (dtb + 8)"
    "(of_nat dtb :: u64) + 12 = of_nat (dtb + 12)" "(of_nat dtb :: u64) + 32 = of_nat (dtb + 32)"
    "(of_nat dtb :: u64) + 36 = of_nat (dtb + 36)" by simp_all
  have sum: "unat (x + y) = unat x + unat y" if "unat x + unat y \<le> unat ?total" for x y :: u32
  proof -
    have "unat ?total < 2 ^ LENGTH(32)" by (rule unsigned_less)
    then show ?thesis using that by (subst unat_plus_if_size) (simp add: word_size)
  qed
  have h: "40 \<le> ?total" "?total \<le> 16 * 1024 * 1024" "?os < ?total" "?ot < ?total"
    "unat ?os + unat ?ss \<le> unat ?total" "unat ?ot + unat ?ts \<le> unat ?total" using b' by blast+
  have "?os + ?ss \<le> ?total" "?ot + ?ts \<le> ?total"
    using sum [OF h(5)] sum [OF h(6)] h(5,6) by (simp_all only: word_le_nat_alt)
  then have c: "\<not> ?total < 40" "\<not> 16 * 1024 * 1024 < ?total" "\<not> ?total \<le> ?os" "\<not> ?total \<le> ?ot"
    "\<not> ?total < ?os + ?ss" "\<not> ?total < ?ot + ?ts"
    using h(1-4) by (simp_all only: not_less not_le)
  have magic: "fdt32_at m (of_nat dtb) = FDT_MAGIC" using b' by blast
  note root = env _ _ _ _ _ refl refl
  have al: "4 dvd dtb + unat ?os" using b' by simp
  have room: "dtb + unat ?os + length (dt_bytes t) + 4 \<le> en_end ?e" using b' by (simp add: blob_env_def)
  have at: "bytes_at (en_mem ?e) (dtb + unat ?os) (dt_bytes t @ be32 FDT_END)" using b' by (simp add: blob_env_def)
  have fits: "dt_fits 32 t" using b' by blast
  have nm: "en_nm ?e = nm" by (simp add: blob_env_def)
  have cells: "unat (dt_cells nm ''#address-cells'' (dt_props t)) + unat (dt_cells nm ''#size-cells'' (dt_props t)) < 2 ^ 28"
    and reg: "\<forall>p\<in>set (dt_props t). nm (fst p) \<noteq> lit ''reg''" using b' by blast+
  have i: "fdt_depth (fdt_init 0 0 stack) = 0" "length (fdt_stack (fdt_init 0 0 stack)) = 32"
    "addr_cells (fdt_init 0 0 stack) = 2" "size_cells (fdt_init 0 0 stack) = 2"
    using st by (simp_all add: fdt_init_def)
  note k = kernel.run_root [OF env(1) fits env(2) at al room, unfolded nm, OF reg refl refl cells i]
  note f = firmware.run_root [OF env(1) fits env(2) at al room, unfolded nm, OF reg refl refl cells i]
  show "\<exists>stk. fdt_scan m (of_nat dtb) 0 0 mx stack = Some (0, dt_end no_tb m dtb nm t mx stack stk)"
    using k unfolding fdt_scan_def Let_def o w dt_end_def kernel_run_def
    by (simp only: magic c if_False simp_thms) (simp add: blob_env_def)
  show "\<exists>stk. fw_fdt_scan m (of_nat dtb) 0 0 mx stack = Some (0, dt_end fw_tb m dtb nm t mx stack stk)"
    using f unfolding fw_fdt_scan_def Let_def o w dt_end_def firmware_run_def
    by (simp only: magic if_False simp_thms) (simp add: blob_env_def)
qed

lemma find_Some_P: "find P xs = Some y \<Longrightarrow> P y"
  by (auto simp: find_Some_iff)

lemma dt_end_fields:
  fixes tb m dtb nm t mx stack stk
  defines "st \<equiv> dt_end tb m dtb nm t mx stack stk"
  shows "virtio_bases st = take mx (dt_virtios nm t)"
    and "case find (\<lambda>r. snd r \<noteq> 0) (dt_memories nm t) of
           Some r \<Rightarrow> mem_base st = fst r \<and> mem_size st = snd r | None \<Rightarrow> mem_size st = 0"
    and "timebase_hz st = fold (tb nm) (dt_all_props t) 0"
proof -
  let ?ac = "dt_cells nm ''#address-cells'' (dt_props t)" and ?sc = "dt_cells nm ''#size-cells'' (dt_props t)"
  let ?i = "(fdt_init 0 0 stack)\<lparr>addr_cells := ?ac, size_cells := ?sc\<rparr>"
  have st: "st = (fold (visit mx) (dt_nodes nm t) ?i)\<lparr>timebase_hz := fold (tb nm) (dt_all_props t) 0, fdt_stack := stk\<rparr>"
    by (simp add: st_def dt_end_def pass_def dt_nodes_def blob_env_def fdt_init_def)
  have i: "virtio_bases ?i = []" "mem_size ?i = 0" by (simp_all add: fdt_init_def)
  show "virtio_bases st = take mx (dt_virtios nm t)"
    using visits_virtio [of ?i mx "dt_nodes nm t"] i(1) by (simp add: st dt_virtios_def)
  show "case find (\<lambda>r. snd r \<noteq> 0) (dt_memories nm t) of
           Some r \<Rightarrow> mem_base st = fst r \<and> mem_size st = snd r | None \<Rightarrow> mem_size st = 0"
    using visits_memory [OF i(2), of mx "dt_nodes nm t"] by (simp add: st dt_memories_def split: option.splits)
  show "timebase_hz st = fold (tb nm) (dt_all_props t) 0" by (simp add: st)
qed

lemma blob_virtio:
  assumes "dt_blob m dtb nm t" and "length stack = 32"
  shows "fdt_find_virtio_mmio m (of_nat dtb) mx stack = Some (0, take mx (dt_virtios nm t))"
    and "fw_fdt_find_virtio_mmio m (of_nat dtb) mx stack = Some (0, take mx (dt_virtios nm t))"
  using scan_blob [OF assms, of mx] dt_end_fields(1)
  by (auto simp: fdt_find_virtio_mmio_def fw_fdt_find_virtio_mmio_def)

lemma blob_memory:
  assumes "dt_blob m dtb nm t" and "length stack = 32"
  shows "\<exists>b. fdt_get_memory m (of_nat dtb) stack =
      Some (case find (\<lambda>r. snd r \<noteq> 0) (dt_memories nm t) of Some r \<Rightarrow> (0, r) | None \<Rightarrow> (- 1, b, 0))"
    and "\<exists>b. fw_fdt_get_memory m (of_nat dtb) stack =
      Some (case find (\<lambda>r. snd r \<noteq> 0) (dt_memories nm t) of Some r \<Rightarrow> (0, r) | None \<Rightarrow> (- 1, b, 0))"
proof -
  obtain stk where "fdt_scan m (of_nat dtb) 0 0 0 stack = Some (0, dt_end no_tb m dtb nm t 0 stack stk)"
    using scan_blob(1) [OF assms] by blast
  then show "\<exists>b. fdt_get_memory m (of_nat dtb) stack =
      Some (case find (\<lambda>r. snd r \<noteq> 0) (dt_memories nm t) of Some r \<Rightarrow> (0, r) | None \<Rightarrow> (- 1, b, 0))"
    using dt_end_fields(2) [where tb = no_tb and m = m and dtb = dtb and nm = nm and t = t and mx = 0 and stack = stack and stk = stk]
    by (auto simp: fdt_get_memory_def split: option.splits dest: find_Some_P)
  obtain stk' where "fw_fdt_scan m (of_nat dtb) 0 0 0 stack = Some (0, dt_end fw_tb m dtb nm t 0 stack stk')"
    using scan_blob(2) [OF assms] by blast
  then show "\<exists>b. fw_fdt_get_memory m (of_nat dtb) stack =
      Some (case find (\<lambda>r. snd r \<noteq> 0) (dt_memories nm t) of Some r \<Rightarrow> (0, r) | None \<Rightarrow> (- 1, b, 0))"
    using dt_end_fields(2) [where tb = fw_tb and m = m and dtb = dtb and nm = nm and t = t and mx = 0 and stack = stack and stk = stk']
    by (auto simp: fw_fdt_get_memory_def split: option.splits dest: find_Some_P)
qed

lemma blob_timebase:
  assumes "dt_blob m dtb nm t" and "length stack = 32"
  shows "fdt_get_timebase m (of_nat dtb) stack =
      Some (case find (\<lambda>hz. hz \<noteq> 0) (dt_timebases nm t) of Some hz \<Rightarrow> (0, hz) | None \<Rightarrow> (- 1, 0))"
proof -
  obtain stk where f: "fw_fdt_scan m (of_nat dtb) 0 0 0 stack = Some (0, dt_end fw_tb m dtb nm t 0 stack stk)"
    using scan_blob(2) [OF assms] by blast
  show ?thesis
    using f dt_end_fields(3) [where tb = fw_tb and m = m and dtb = dtb and nm = nm and t = t and mx = 0 and stack = stack and stk = stk]
    by (auto simp: fdt_get_timebase_def fold_fw_tb dt_timebases_def split: option.splits dest: find_Some_P)
qed

text \<open>
  C32. On the blob of a device tree the kernel's \<^verbatim>\<open>fdt_get_memory\<close> gives base and size of the first
  memory node, children before parents, whose size is not 0, and \<^verbatim>\<open>fdt_find_virtio_mmio\<close> the bases of
  the virtio devices in that order, as many as fit.
\<close>

theorem fdt_reads_tree:
  assumes "dt_blob m dtb nm t" and "length stack = 32"
  shows "fdt_find_virtio_mmio m (of_nat dtb) mx stack = Some (0, take mx (dt_virtios nm t)) \<and>
    (\<exists>b. fdt_get_memory m (of_nat dtb) stack =
      Some (case find (\<lambda>r. snd r \<noteq> 0) (dt_memories nm t) of Some r \<Rightarrow> (0, r) | None \<Rightarrow> (- 1, b, 0)))"
  using blob_virtio(1) [OF assms] blob_memory(1) [OF assms] by blast

text \<open>
  C33. On the blob of a device tree the firmware, which tests no bounds, gives the same answers as the
  kernel, and \<^verbatim>\<open>fdt_get_timebase\<close> gives the first frequency in the tree that is not 0.
\<close>

theorem firmware_reads_the_same:
  assumes "dt_blob m dtb nm t" and "length stack = 32"
  shows "fw_fdt_find_virtio_mmio m (of_nat dtb) mx stack = fdt_find_virtio_mmio m (of_nat dtb) mx stack \<and>
    map_option fst (fw_fdt_get_memory m (of_nat dtb) stack) = map_option fst (fdt_get_memory m (of_nat dtb) stack) \<and>
    (\<forall>base sz. fw_fdt_get_memory m (of_nat dtb) stack = Some (0, base, sz) \<longleftrightarrow>
              fdt_get_memory m (of_nat dtb) stack = Some (0, base, sz)) \<and>
    fdt_get_timebase m (of_nat dtb) stack =
      Some (case find (\<lambda>hz. hz \<noteq> 0) (dt_timebases nm t) of Some hz \<Rightarrow> (0, hz) | None \<Rightarrow> (- 1, 0))"
  using blob_virtio [OF assms, of mx] blob_memory [OF assms] blob_timebase [OF assms]
  by (cases "find (\<lambda>r. snd r \<noteq> 0) (dt_memories nm t)") auto

section \<open>A small machine\<close>

text \<open>
  128 MB of memory at \<^verbatim>\<open>0x80000000\<close>, a clock of 10 MHz and one virtio device, as a blob at 4096.
\<close>

definition demo_strings :: "u8 list" where
  "demo_strings = concat (map (\<lambda>s. lit s @ [0])
     [''#address-cells'', ''#size-cells'', ''device_type'', ''compatible'', ''reg'', ''timebase-frequency''])"

definition demo_names :: "u32 \<Rightarrow> cstr" where
  "demo_names off = cstr_of (drop (unat off) demo_strings)"

definition demo_tree :: dt_node where
  "demo_tree =
     Dt_node [] [(0, be32 2), (15, be32 1)]
       [Dt_node (lit ''cpus'') [(54, be32 10000000)] [],
        Dt_node (lit ''memory'')
          [(27, lit ''memory'' @ [0]), (50, be32 0 @ be32 0x80000000 @ be32 0x8000000)] [],
        Dt_node (lit ''soc'') []
          [Dt_node (lit ''virtio'')
             [(39, lit ''virtio,mmio'' @ [0]), (50, be32 0 @ be32 0x10001000 @ be32 0x1000)] []]]"

definition demo_header :: "u8 list" where
  "demo_header = concat (map be32 [FDT_MAGIC, 329, 40, 256, 0, 17, 16, 0, 73, 216])"

definition blob_mem :: mem where
  "blob_mem = store_bytes (\<lambda>_. 0) 4096 (demo_header @ (dt_bytes demo_tree @ be32 FDT_END) @ demo_strings)"

lemma length_lit [simp]: "length (lit s) = length s"
  by (simp add: lit_def)

lemma length_demo:
  "length demo_header = 40" "length (dt_bytes demo_tree) = 212" "length demo_strings = 73"
  by (simp_all add: demo_header_def demo_tree_def demo_strings_def pad4_def lit_def)

lemma demo_at:
  "bytes_at blob_mem 4096 demo_header" "bytes_at blob_mem 4136 (dt_bytes demo_tree @ be32 FDT_END)"
  "bytes_at blob_mem 4352 demo_strings"
proof -
  let ?b = "demo_header @ (dt_bytes demo_tree @ be32 FDT_END) @ demo_strings"
  have "load_bytes (store_bytes (\<lambda>_. 0) (of_nat 4096) ?b) (of_nat 4096) (length ?b) = ?b"
    by (rule load_store_same) (simp add: length_demo)
  then have "bytes_at blob_mem 4096 ?b" by (simp add: blob_mem_def bytes_at_def)
  then show "bytes_at blob_mem 4096 demo_header" "bytes_at blob_mem 4136 (dt_bytes demo_tree @ be32 FDT_END)"
    "bytes_at blob_mem 4352 demo_strings"
    by (simp_all only: bytes_at_append length_append length_demo length_be32) simp_all
qed

lemma demo_fields:
  "fdt32_at blob_mem 4096 = FDT_MAGIC" "fdt32_at blob_mem 4100 = 329" "fdt32_at blob_mem 4104 = 40"
  "fdt32_at blob_mem 4108 = 256" "fdt32_at blob_mem 4128 = 73" "fdt32_at blob_mem 4132 = 216"
proof -
  have f: "fdt32_at blob_mem (of_nat (4096 + k)) = be_word (drop k demo_header)" if "k + 4 \<le> 40" for k
    by (rule fdt32_at_bytes [OF bytes_at_drop [OF demo_at(1)]]) (use that in \<open>simp_all add: length_demo\<close>)
  show "fdt32_at blob_mem 4096 = FDT_MAGIC" "fdt32_at blob_mem 4100 = 329" "fdt32_at blob_mem 4104 = 40"
    "fdt32_at blob_mem 4108 = 256" "fdt32_at blob_mem 4128 = 73" "fdt32_at blob_mem 4132 = 216"
    using f [of 0] f [of 4] f [of 8] f [of 12] f [of 32] f [of 36] by (simp_all add: demo_header_def)
qed

lemma demo_name:
  assumes "drop k demo_strings = s @ 0 # rest" and "k < 73" and "nul_free s"
  shows "demo_names (of_nat k) = s" "bytes_at blob_mem (4352 + k) (s @ [0])"
proof -
  have u: "unat (of_nat k :: u32) = k" using assms(2) by (simp add: unat_of_nat)
  show "demo_names (of_nat k) = s" unfolding demo_names_def u assms(1) using assms(3) by simp
  have "bytes_at blob_mem (4352 + k) (s @ 0 # rest)"
    using bytes_at_drop [OF demo_at(3), of k] assms(1,2) by (simp add: length_demo)
  then show "bytes_at blob_mem (4352 + k) (s @ [0])"
    using bytes_at_append [of blob_mem "4352 + k" "s @ [0]" rest] by simp
qed

lemma demo_names:
  "demo_names 0 = lit ''#address-cells''" "demo_names 15 = lit ''#size-cells''" "demo_names 27 = lit ''device_type''"
  "demo_names 39 = lit ''compatible''" "demo_names 50 = lit ''reg''" "demo_names 54 = lit ''timebase-frequency''"
  "bytes_at blob_mem 4352 (lit ''#address-cells'' @ [0])" "bytes_at blob_mem 4367 (lit ''#size-cells'' @ [0])"
  "bytes_at blob_mem 4379 (lit ''device_type'' @ [0])" "bytes_at blob_mem 4391 (lit ''compatible'' @ [0])"
  "bytes_at blob_mem 4402 (lit ''reg'' @ [0])" "bytes_at blob_mem 4406 (lit ''timebase-frequency'' @ [0])"
  using demo_name [of 0 "lit ''#address-cells''"] demo_name [of 15 "lit ''#size-cells''"]
    demo_name [of 27 "lit ''device_type''"] demo_name [of 39 "lit ''compatible''"]
    demo_name [of 50 "lit ''reg''"] demo_name [of 54 "lit ''timebase-frequency''"]
  by (simp_all add: demo_strings_def lit_def)

lemma nul_free_demo: "nul_free (lit ''cpus'')" "nul_free (lit ''memory'')" "nul_free (lit ''soc'')"
  "nul_free (lit ''virtio'')" "nul_free (lit ''virtio,mmio'')"
  by (simp_all add: lit_def)

lemma demo_blob: "dt_blob blob_mem 4096 demo_names demo_tree"
proof -
  have cells: "dt_cells demo_names ''#address-cells'' (dt_props demo_tree) = 2"
    "dt_cells demo_names ''#size-cells'' (dt_props demo_tree) = 1"
    by (simp_all add: demo_tree_def dt_cells_def dt_values_def demo_names Let_def lit_eq_iff)
  have fits: "dt_fits 32 demo_tree"
    by (simp add: demo_tree_def numeral_eq_Suc nul_free_demo)
  have props: "\<forall>p\<in>set (dt_all_props demo_tree). unat (fst p) + length (demo_names (fst p)) < 73 \<and> length (snd p) < 2 ^ 31 \<and>
      bytes_at blob_mem (4352 + unat (fst p)) (demo_names (fst p) @ [0]) \<and> nul_free (demo_names (fst p)) \<and>
      (demo_names (fst p) = lit ''compatible'' \<longrightarrow> strlist_ok (snd p))"
    by (simp add: demo_tree_def demo_names nul_free_lit strlist_ok_def lit_eq_iff)
  have reg: "\<forall>p\<in>set (dt_props demo_tree). demo_names (fst p) \<noteq> lit ''reg''"
    by (simp add: demo_tree_def demo_names lit_def)
  show ?thesis
    unfolding dt_blob_def
    using fits props reg demo_at(2) by (simp add: demo_fields cells length_demo Let_def)
qed

lemma demo_describes:
  "dt_virtios demo_names demo_tree = [0x10001000]"
  "dt_memories demo_names demo_tree = [(0x80000000, 0x8000000)]"
  "dt_timebases demo_names demo_tree = [10000000]"
proof -
  have cells: "dt_cells demo_names ''#address-cells'' (dt_props demo_tree) = 2"
    "dt_cells demo_names ''#size-cells'' (dt_props demo_tree) = 1"
    by (simp_all add: demo_tree_def dt_cells_def dt_values_def demo_names Let_def lit_eq_iff)
  have nodes: "dt_nodes demo_names demo_tree =
    [cleared_node, cleared_node\<lparr>is_memory := True, reg_valid := True, reg_base := 0x80000000, reg_size := 0x8000000\<rparr>,
     cleared_node\<lparr>is_virtio := True, reg_valid := True, reg_base := 0x10001000, reg_size := 0x1000\<rparr>,
     cleared_node, cleared_node]"
    unfolding dt_nodes_def cells
    by (simp add: demo_tree_def node_of_def dt_reg_def dt_values_def dt_is_memory_def dt_is_virtio_def demo_names
        Let_def lit_eq_iff cleared_node_def reg_pair_def strlist_one nul_free_demo be_num_def be_num_be32)
  show "dt_virtios demo_names demo_tree = [0x10001000]" "dt_memories demo_names demo_tree = [(0x80000000, 0x8000000)]"
    by (simp_all add: dt_virtios_def dt_memories_def nodes cleared_node_def)
  show "dt_timebases demo_names demo_tree = [10000000]"
    by (simp add: dt_timebases_def dt_values_def demo_tree_def demo_names lit_def)
qed

lemma fdt_reads_tree_witness:
  "fdt_find_virtio_mmio blob_mem 4096 8 (replicate 32 cleared_node) = Some (0, [0x10001000]) \<and>
   fdt_get_memory blob_mem 4096 (replicate 32 cleared_node) = Some (0, 0x80000000, 0x8000000)"
  using fdt_reads_tree [OF demo_blob, of "replicate 32 cleared_node" 8] by (simp add: demo_describes)

lemma firmware_reads_the_same_witness:
  "fdt_get_timebase blob_mem 4096 (replicate 32 cleared_node) = Some (0, 10000000)"
  using firmware_reads_the_same [OF demo_blob, of "replicate 32 cleared_node" 8] by (simp add: demo_describes)

end
