(* ===== verification/Firmware.thy ===== *)
theory Firmware
  imports Fdt Blk Boot
begin

text \<open>
  The firmware, \<^verbatim>\<open>firmware/disk.c\<close>, \<^verbatim>\<open>firmware/main.c\<close> and \<^verbatim>\<open>firmware/mtrap.c\<close>: it reads the memory
  of the machine from the device tree, looks for the disk with the boot image, loads the kernel and
  the initial RAM disk, leaves \<^verbatim>\<open>struct bootinfo\<close> to the kernel and stays behind its
  \<^verbatim>\<open>ecall\<close>s.  \<open>None\<close> says that it does not come back: \<^verbatim>\<open>panic\<close> and the end of a trap it cannot
  handle are endless loops.  Its messages are not modelled.

  The machine is a parameter: the registers the probe reads, and the disk behind a base address when
  \<^verbatim>\<open>virtio_blk_init\<close> succeeds there.
\<close>

record machine =
  mmio_read32 :: "u64 \<Rightarrow> u32"
  disk_at :: "u64 \<Rightarrow> blk_dev option"

abbreviation VIRTIO0_BASE :: u64 where "VIRTIO0_BASE \<equiv> 0x10001000"
abbreviation (input) VIRTIO_MAGIC :: u32 where "VIRTIO_MAGIC \<equiv> 0x74726976"

section \<open>Bytes of the disk\<close>

text \<open>The size of a turn: at least one byte, and no more than is left.\<close>

lemma mod512_u32: "unat (ucast (x mod 512 :: u64) :: u32) = unat x mod 512"
proof -
  have "unat (x mod 512) = unat x mod 512" by (simp add: unat_mod)
  moreover have "unat x mod 512 < 512" by simp
  ultimately show ?thesis by (simp add: unsigned_ucast_eq take_bit_nat_eq_self)
qed

lemma chunk_unat:
  fixes offset len :: u64
  defines "chunk0 \<equiv> 512 - (ucast (offset mod 512) :: u32)"
  defines "chunk \<equiv> (if ucast chunk0 > len then ucast len else chunk0)"
  shows "unat chunk = min (512 - unat offset mod 512) (unat len)"
    and "unat (ucast chunk :: u64) = min (512 - unat offset mod 512) (unat len)"
proof -
  have c0: "unat chunk0 = 512 - unat offset mod 512"
  proof -
    have "(ucast (offset mod 512) :: u32) \<le> 512" by (simp add: word_le_nat_alt mod512_u32)
    then show ?thesis unfolding chunk0_def by (simp add: unat_sub mod512_u32)
  qed
  then have u0: "unat (ucast chunk0 :: u64) = 512 - unat offset mod 512"
    by (simp add: unsigned_ucast_eq take_bit_nat_eq_self)
  have small: "unat len < 2 ^ 32 \<Longrightarrow> unat (ucast len :: u32) = unat len"
    by (simp add: unsigned_ucast_eq take_bit_nat_eq_self)
  show c: "unat chunk = min (512 - unat offset mod 512) (unat len)"
    unfolding chunk_def using c0 u0 small by (auto simp: word_less_nat_alt min_def)
  then have "unat chunk \<le> 512" by simp
  then show "unat (ucast chunk :: u64) = min (512 - unat offset mod 512) (unat len)"
    using c by (simp add: unsigned_ucast_eq take_bit_nat_eq_self)
qed

text \<open>
  The bytes copied to \<^verbatim>\<open>dst\<close> come back with the status; the caller stores them.  Each turn takes
  what is left of one sector.
\<close>

function disk_read_bytes :: "blk_dev \<Rightarrow> u64 \<Rightarrow> u64 \<Rightarrow> int \<times> u8 list" where
  "disk_read_bytes d offset len =
     (if \<not> len > 0 then (0, [])
      else
        (let sector = offset div 512;
             sector_off = (ucast (offset mod 512) :: u32);
             chunk0 = 512 - sector_off;
             chunk = (if ucast chunk0 > len then ucast len else chunk0) in
         case disk_read d sector of
           None \<Rightarrow> (- 1, [])
         | Some buf \<Rightarrow>
             (case disk_read_bytes d (offset + ucast chunk) (len - ucast chunk) of
                (r, rest) \<Rightarrow> (r, take (unat chunk) (drop (unat sector_off) buf) @ rest))))"
  by pat_completeness auto

termination
proof (relation "measure (\<lambda>(d, offset, len). unat len)")
  fix d :: blk_dev and offset len sector :: u64 and so chunk0 chunk :: u32 and buf
  assume l: "\<not> \<not> len > 0" and s: "so = ucast (offset mod 512)" and c0: "chunk0 = 512 - so"
    and c: "chunk = (if ucast chunk0 > len then ucast len else chunk0)"
  have u: "unat (ucast chunk :: u64) = min (512 - unat offset mod 512) (unat len)"
    using chunk_unat(2) [of len offset] unfolding c c0 s .
  have pos: "0 < unat len" using l by (simp add: word_less_nat_alt)
  have "(ucast chunk :: u64) \<le> len" unfolding word_le_nat_alt u by simp
  then have "unat (len - ucast chunk) = unat len - min (512 - unat offset mod 512) (unat len)"
    by (simp add: unat_sub u)
  also have "\<dots> < unat len"
  proof -
    have "unat offset mod 512 < 512" by simp
    then show ?thesis using pos by simp
  qed
  finally show "((d, offset + ucast chunk, len - ucast chunk), d, offset, len) \<in> measure (\<lambda>(d, offset, len). unat len)"
    by simp
qed simp

declare disk_read_bytes.simps [simp del]

section \<open>The disk with the boot image\<close>

text \<open>\<^verbatim>\<open>struct image_header\<close>, 56 bytes at the start of the disk.\<close>

definition img_magic :: "u8 list \<Rightarrow> u64" where "img_magic h = le64 h"
definition img_version :: "u8 list \<Rightarrow> u32" where "img_version h = le32 (drop 8 h)"
definition kernel_offset :: "u8 list \<Rightarrow> u64" where "kernel_offset h = le64 (drop 16 h)"
definition kernel_size :: "u8 list \<Rightarrow> u64" where "kernel_size h = le64 (drop 24 h)"
definition initrd_offset :: "u8 list \<Rightarrow> u64" where "initrd_offset h = le64 (drop 32 h)"
definition initrd_size :: "u8 list \<Rightarrow> u64" where "initrd_size h = le64 (drop 40 h)"

definition image_header_valid :: "u8 list \<Rightarrow> bool" where
  "image_header_valid h \<longleftrightarrow> img_magic h = 0x474d495643534952 \<and> img_version h = 1"

definition scan_fixed_virtio_bases :: "machine \<Rightarrow> nat \<Rightarrow> u64 list" where
  "scan_fixed_virtio_bases mc max_out =
     take max_out (filter (\<lambda>base. mmio_read32 mc base = VIRTIO_MAGIC)
                          (map (\<lambda>i. VIRTIO0_BASE + of_nat i * 0x1000) (rev [0..<8])))"

fun probe_bases :: "machine \<Rightarrow> u64 list \<Rightarrow> u64 \<Rightarrow> u64" where
  "probe_bases mc [] first_blk = (if first_blk \<noteq> 0 then first_blk else VIRTIO0_BASE)"
| "probe_bases mc (base # bases) first_blk =
     (if mmio_read32 mc base \<noteq> VIRTIO_MAGIC \<or> mmio_read32 mc (base + 8) \<noteq> 2
      then probe_bases mc bases first_blk
      else
        (let first_blk' = (if first_blk = 0 then base else first_blk) in
         case disk_at mc base of
           None \<Rightarrow> probe_bases mc bases first_blk'
         | Some d \<Rightarrow>
             (case disk_read_bytes d 0 56 of
                (r, probe) \<Rightarrow> if r = 0 \<and> image_header_valid probe then base
                              else probe_bases mc bases first_blk')))"

definition find_virtio_blk_base ::
    "machine \<Rightarrow> mem \<Rightarrow> u64 \<Rightarrow> bool \<Rightarrow> node_state list \<Rightarrow> u64 option" where
  "find_virtio_blk_base mc m dtb have_dtb stack =
     do { bases \<leftarrow>
            (if have_dtb then
               do { (r, bases) \<leftarrow> fw_fdt_find_virtio_mmio m dtb 8 stack;
                    Some (if r \<noteq> 0 then scan_fixed_virtio_bases mc 8 else bases) }
             else Some (scan_fixed_virtio_bases mc 8));
          Some (probe_bases mc bases 0) }"

section \<open>Loading the kernel\<close>

definition p_paddr :: "u8 list \<Rightarrow> u64" where "p_paddr b = le64 (drop 24 b)"
definition e_machine :: "u8 list \<Rightarrow> u16" where "e_machine h = le16 (drop 18 h)"

text \<open>One program header \<open>b\<close>; \<open>mb\<close> and \<open>ms\<close> are the range of memory, \<open>kend\<close> the end of what is loaded.\<close>

definition fw_load_segment ::
    "blk_dev \<Rightarrow> u64 \<Rightarrow> u64 \<Rightarrow> u64 \<Rightarrow> u8 list \<Rightarrow> u64 \<Rightarrow> mem \<Rightarrow> (u64 \<times> mem) option" where
  "fw_load_segment d file_off mb ms b kend m =
     (let ph = phdr_of b; pa = p_paddr b in
      if p_type ph \<noteq> PT_LOAD then Some (kend, m)
      else if ms \<noteq> 0 \<and> (pa < mb \<or> mb + ms < pa + p_memsz ph) then None
      else
        (case disk_read_bytes d (file_off + p_offset ph) (p_filesz ph) of
           (r, bs) \<Rightarrow>
             if r \<noteq> 0 then None
             else
               (let m1 = store_bytes m pa bs;
                    m2 = (if p_filesz ph < p_memsz ph
                          then memset m1 (pa + p_filesz ph) 0 (unat (p_memsz ph - p_filesz ph)) else m1) in
                Some (if kend < pa + p_memsz ph then pa + p_memsz ph else kend, m2))))"

fun fw_load_segments ::
    "blk_dev \<Rightarrow> u64 \<Rightarrow> u64 \<Rightarrow> u64 \<Rightarrow> u8 list \<Rightarrow> nat list \<Rightarrow> u64 \<Rightarrow> mem \<Rightarrow> (u64 \<times> mem) option" where
  "fw_load_segments d file_off mb ms h [] kend m = Some (kend, m)"
| "fw_load_segments d file_off mb ms h (i # is) kend m =
     (case disk_read_bytes d (file_off + e_phoff h + of_nat i * ucast (e_phentsize h)) 56 of
        (r, b) \<Rightarrow>
          if r \<noteq> 0 then None
          else
            do { (kend1, m1) \<leftarrow> fw_load_segment d file_off mb ms b kend m;
                 fw_load_segments d file_off mb ms h is kend1 m1 })"

text \<open>The entry point and the end of the kernel.\<close>

definition load_elf :: "blk_dev \<Rightarrow> u64 \<Rightarrow> u64 \<Rightarrow> u64 \<Rightarrow> u64 \<Rightarrow> mem \<Rightarrow> (u64 \<times> u64 \<times> mem) option" where
  "load_elf d file_off file_size mb ms m =
     (if file_size < 64 then None
      else
        (case disk_read_bytes d file_off 64 of
           (r, h) \<Rightarrow>
             if r \<noteq> 0 then None
             else if \<not> elf_magic_ok h then None
             else if h ! 4 \<noteq> 2 \<or> h ! 5 \<noteq> 1 then None
             else if e_machine h \<noteq> 243 \<or> e_phentsize h \<noteq> 56 then None
             else
               do { (kend, m1) \<leftarrow> fw_load_segments d file_off mb ms h [0..<unat (e_phnum h)] 0 m;
                    Some (e_entry h, kend, m1) }))"

section \<open>From reset to the kernel\<close>

record fw_bootinfo = bootinfo +
  bi_version :: u64
  bi_dtb_paddr :: u64
  bi_initrd_paddr :: u64
  bi_initrd_size :: u64
  bi_cmdline_paddr :: u64
  bi_cmdline_len :: u32
  bi_log_level :: u32
  bi_hart_count :: u32
  bi_root_disk_index :: u32
  bi_reserved :: u32

abbreviation (input) DTB_MAX_SIZE :: u32 where "DTB_MAX_SIZE \<equiv> 65536"

text \<open>The memory of the machine: from the device tree, or 1 GB at \<^verbatim>\<open>DRAM_BASE\<close>.\<close>

definition fw_memory :: "mem \<Rightarrow> u64 \<Rightarrow> bool \<Rightarrow> node_state list \<Rightarrow> (u64 \<times> u64) option" where
  "fw_memory m dtb have_dtb stack =
     (if have_dtb then
        do { (r, base, sz) \<leftarrow> fw_fdt_get_memory m dtb stack;
             Some (if r \<noteq> 0 then (DRAM_BASE, 0x40000000) else (base, sz)) }
      else Some (DRAM_BASE, 0x40000000))"

text \<open>The initial RAM disk, at the top of memory.\<close>

definition load_initrd :: "blk_dev \<Rightarrow> u8 list \<Rightarrow> u64 \<Rightarrow> u64 \<Rightarrow> u64 \<Rightarrow> mem \<Rightarrow> (u64 \<times> mem) option" where
  "load_initrd d hdr mb ms kend m =
     (if initrd_size hdr = 0 then Some (0, m)
      else
        (let aligned_size = (initrd_size hdr + 0xfff) AND NOT 0xfff;
             paddr = (mb + ms - aligned_size) AND NOT 0xfff in
         if ms = 0 then None
         else if paddr \<le> kend then None
         else
           (case disk_read_bytes d (initrd_offset hdr) (initrd_size hdr) of
              (r, bs) \<Rightarrow> if r \<noteq> 0 then None else Some (paddr, store_bytes m paddr bs))))"

definition fw_timebase :: "mem \<Rightarrow> u64 \<Rightarrow> bool \<Rightarrow> node_state list \<Rightarrow> u32 option" where
  "fw_timebase m dtb have_dtb stack =
     (if have_dtb then
        do { (r, hz) \<leftarrow> fdt_get_timebase m dtb stack; Some (if r \<noteq> 0 then 10000000 else hz) }
      else Some 10000000)"

text \<open>
  \<^verbatim>\<open>firmware_main\<close> up to \<^verbatim>\<open>enter_kernel\<close>: the entry point, the address of the device tree (\<^verbatim>\<open>a1\<close>), the
  boot information (\<^verbatim>\<open>a2\<close>) and memory.  \<open>dtb_copy\<close> is the address of \<^verbatim>\<open>g_dtb_copy\<close>, \<open>stack\<close> what the
  array of \<^verbatim>\<open>fdt_scan\<close> holds.  The control registers and the timer it sets on the way out are not modelled.
\<close>

definition firmware_main ::
    "machine \<Rightarrow> u64 \<Rightarrow> u64 \<Rightarrow> u64 \<Rightarrow> node_state list \<Rightarrow> mem \<Rightarrow> (u64 \<times> u64 \<times> fw_bootinfo \<times> mem) option" where
  "firmware_main mc hartid dtb dtb_copy stack m =
     (if hartid \<noteq> 0 then None
      else
        (let total = fdt_total_size m dtb;
             have_dtb = (dtb \<noteq> 0 \<and> total \<noteq> 0 \<and> total \<le> DTB_MAX_SIZE) in
         do { (mb, ms) \<leftarrow> fw_memory m dtb have_dtb stack;
              virtio_base \<leftarrow> find_virtio_blk_base mc m dtb have_dtb stack;
              d \<leftarrow> disk_at mc virtio_base;
              hdr \<leftarrow> (case disk_read_bytes d 0 56 of (r, h) \<Rightarrow> if r \<noteq> 0 then None else Some h);
              (if \<not> image_header_valid hdr then None
               else
                 do { (entry, kend, m1) \<leftarrow> load_elf d (kernel_offset hdr) (kernel_size hdr) mb ms m;
                      (initrd_paddr, m2) \<leftarrow> load_initrd d hdr mb ms kend m1;
                      timebase_hz \<leftarrow> fw_timebase m2 dtb have_dtb stack;
                      let m3 = (if have_dtb then memcpy m2 dtb_copy dtb (unat total) else m2);
                          dtb_paddr = (if have_dtb then dtb_copy else 0) in
                      Some (entry, dtb_paddr,
                        \<lparr>bi_magic = BOOTINFO_MAGIC, bi_mem_base = mb, bi_mem_size = ms, bi_tick_hz = 100,
                         bi_timebase_hz = ucast timebase_hz, bi_version = 3, bi_dtb_paddr = dtb_paddr,
                         bi_initrd_paddr = initrd_paddr, bi_initrd_size = initrd_size hdr,
                         bi_cmdline_paddr = 0, bi_cmdline_len = 0, bi_log_level = 2, bi_hart_count = 1,
                         bi_root_disk_index = 1, bi_reserved = 0\<rparr>, m3) }) }))"

section \<open>The firmware behind the kernel\<close>

text \<open>
  \<^verbatim>\<open>mtrap_handler\<close> on the registers it uses: the compare register of the hart's timer, the pending bit
  of the supervisor's timer interrupt and the power register of the board.
\<close>

record mtrap_frame =
  mt_a0 :: u64
  mt_a1 :: u64
  mt_a6 :: u64
  mt_a7 :: u64
  mt_mepc :: u64
  mt_mcause :: u64

record board =
  mtimecmp :: u64
  stip :: bool
  sifive_test :: "u32 option"

abbreviation (input) SBI_EXT_TIME :: u64 where "SBI_EXT_TIME \<equiv> 0x54494D45"
abbreviation (input) SBI_EXT_SRST :: u64 where "SBI_EXT_SRST \<equiv> 0x53525354"

definition fw_set_timer :: "u64 \<Rightarrow> board \<Rightarrow> board" where
  "fw_set_timer stime b = b\<lparr>mtimecmp := stime, stip := False\<rparr>"

definition fw_system_reset :: "u32 \<Rightarrow> board \<Rightarrow> board" where
  "fw_system_reset reset_type b =
     b\<lparr>sifive_test := Some (if reset_type = 0 then 0x5555 else 0x7777)\<rparr>"

definition mtrap_ecall :: "mtrap_frame \<Rightarrow> board \<Rightarrow> mtrap_frame \<times> board" where
  "mtrap_ecall tf b =
     (let eid = mt_a7 tf; fid = mt_a6 tf;
          (tf1, b1) =
            (if eid = SBI_EXT_TIME \<and> fid = 0 then (tf\<lparr>mt_a0 := 0, mt_a1 := 0\<rparr>, fw_set_timer (mt_a0 tf) b)
             else if eid = SBI_EXT_SRST then
               (tf\<lparr>mt_a0 := 0, mt_a1 := 0\<rparr>, fw_system_reset (ucast (mt_a0 tf)) b)
             else if eid = 0 then (tf\<lparr>mt_a0 := 0\<rparr>, fw_set_timer (mt_a0 tf) b)
             else (tf\<lparr>mt_a0 := - 2, mt_a1 := 0\<rparr>, b)) in
      (tf1\<lparr>mt_mepc := mt_mepc tf1 + 4\<rparr>, b1))"

definition mtrap_handler :: "mtrap_frame \<Rightarrow> board \<Rightarrow> (mtrap_frame \<times> board) option" where
  "mtrap_handler tf b =
     (if drop_bit 63 (mt_mcause tf) \<noteq> 0 then
        (if mt_mcause tf AND 0xfff = 7 then Some (tf, b\<lparr>mtimecmp := - 1, stip := True\<rparr>) else None)
      else if mt_mcause tf = 9 then Some (mtrap_ecall tf b)
      else None)"

text \<open>
  \<^verbatim>\<open>kernel/sbi.c\<close>: an \<^verbatim>\<open>ecall\<close> from the kernel enters \<open>mtrap_handler\<close> with cause 9 and goes on at the
  instruction the handler left in \<^verbatim>\<open>mepc\<close>; the answer is \<^verbatim>\<open>a0\<close> and \<^verbatim>\<open>a1\<close>.
\<close>

definition sbi_call :: "u64 \<Rightarrow> u64 \<Rightarrow> u64 \<Rightarrow> u64 \<Rightarrow> u64 \<Rightarrow> board \<Rightarrow> ((u64 \<times> u64) \<times> u64 \<times> board) option" where
  "sbi_call eid fid arg0 arg1 pc b =
     do { (tf, b1) \<leftarrow> mtrap_handler \<lparr>mt_a0 = arg0, mt_a1 = arg1, mt_a6 = fid, mt_a7 = eid, mt_mepc = pc, mt_mcause = 9\<rparr> b;
          Some ((mt_a0 tf, mt_a1 tf), mt_mepc tf, b1) }"

definition sbi_set_timer :: "u64 \<Rightarrow> u64 \<Rightarrow> board \<Rightarrow> (u64 \<times> board) option" where
  "sbi_set_timer stime_value pc b = map_option snd (sbi_call SBI_EXT_TIME 0 stime_value 0 pc b)"

definition sbi_system_reset :: "u32 \<Rightarrow> u32 \<Rightarrow> u64 \<Rightarrow> board \<Rightarrow> (u64 \<times> board) option" where
  "sbi_system_reset reset_type reset_reason pc b =
     map_option snd (sbi_call SBI_EXT_SRST 0 (ucast reset_type) (ucast reset_reason) pc b)"

end
