(* ===== verification/Firmware_Props.thy ===== *)
theory Firmware_Props
  imports Firmware Fdt_Thms User_Props
begin

text \<open>
  What the firmware promises: reads of bytes of the disk, the kernel in memory as its ELF file says,
  and a hand-over from which the kernel reads the same device tree.
\<close>

section \<open>The disk as a byte string\<close>

definition disk_byte :: "blk_dev \<Rightarrow> nat \<Rightarrow> u8" where
  "disk_byte d i = sectors d (of_nat (i div 512)) ! (i mod 512)"

definition disk_bytes :: "blk_dev \<Rightarrow> nat \<Rightarrow> nat \<Rightarrow> u8 list" where
  "disk_bytes d off n = map (\<lambda>i. disk_byte d (off + i)) [0..<n]"

lemma length_disk_bytes [simp]: "length (disk_bytes d off n) = n"
  by (simp add: disk_bytes_def)

lemma disk_bytes_append: "disk_bytes d off (a + b) = disk_bytes d off a @ disk_bytes d (off + a) b"
proof -
  have "[0..<a + b] = [0..<a] @ map (\<lambda>i. a + i) [0..<b]"
    using upt_add_eq_append [of 0 a b] map_add_upt [of a b] by (simp add: add.commute)
  then show ?thesis by (simp add: disk_bytes_def add.assoc)
qed

lemma disk_bytes_sector:
  assumes "length (sectors d (of_nat (off div 512))) = 512" and "off mod 512 + n \<le> 512"
  shows "disk_bytes d off n = take n (drop (off mod 512) (sectors d (of_nat (off div 512))))"
proof (rule nth_equalityI)
  show "length (disk_bytes d off n) = length (take n (drop (off mod 512) (sectors d (of_nat (off div 512)))))"
    using assms by simp
  fix i assume "i < length (disk_bytes d off n)"
  then have i: "i < n" by simp
  have "off + i = 512 * (off div 512) + (off mod 512 + i)" by simp
  moreover have "off mod 512 + i < 512" using i assms(2) by simp
  ultimately have "(off + i) div 512 = off div 512" "(off + i) mod 512 = off mod 512 + i"
    by (metis add.commute add.right_neutral div_less div_mult_self2 zero_neq_numeral,
        metis mod_less mod_mult_self4 mult.commute)
  then show "disk_bytes d off n ! i = take n (drop (off mod 512) (sectors d (of_nat (off div 512)))) ! i"
    using i assms by (simp add: disk_bytes_def disk_byte_def)
qed

text \<open>A read gives the bytes of the disk, whatever sectors they lie in.\<close>

lemma disk_read_bytes_ok:
  assumes "dev_ok d"
  shows "unat off + unat len < 2 ^ 64 \<Longrightarrow>
    disk_read_bytes d off len = (0, disk_bytes d (unat off) (unat len))"
proof (induction "unat len" arbitrary: off len rule: less_induct)
  case less
  show ?case
  proof (cases "len = 0")
    case True
    then show ?thesis by (subst disk_read_bytes.simps) (simp add: disk_bytes_def)
  next
    case False
    let ?c0 = "512 - (ucast (off mod 512) :: u32)"
    let ?chunk = "if ucast ?c0 > len then ucast len else ?c0"
    let ?n = "min (512 - unat off mod 512) (unat len)"
    have pos: "0 < unat len" using False by (simp add: unat_gt_0)
    have m: "unat off mod 512 < 512" by simp
    have n: "0 < ?n" "?n \<le> unat len" "unat off mod 512 + ?n \<le> 512" using pos m by auto
    note c = chunk_unat [where offset = off and len = len]
    have off': "unat (off + ucast ?chunk) = unat off + ?n"
      using less.prems n(2) by (subst unat_plus_if_size) (simp only: c(2), simp add: word_size)
    have "ucast ?chunk \<le> len" unfolding word_le_nat_alt c(2) using n(2) by simp
    then have len': "unat (len - ucast ?chunk) = unat len - ?n" by (simp only: unat_sub c(2))
    have sec: "off div 512 = of_nat (unat off div 512)"
    proof -
      have "unat off div 512 < 2 ^ 64" using less.prems by simp
      then show ?thesis by (simp add: word_unat_eq_iff unat_div unat_addr)
    qed
    have l512: "length (sectors d l) = 512" for l using assms by (simp add: dev_ok_def)
    have rd: "disk_read d (off div 512) = Some (sectors d (of_nat (unat off div 512)))"
      using assms by (simp add: disk_read_def dev_ok_def sec)
    have so: "unat (ucast (off mod 512) :: u32) = unat off mod 512" by (rule mod512_u32)
    have rest: "disk_read_bytes d (off + ucast ?chunk) (len - ucast ?chunk) =
        (0, disk_bytes d (unat off + ?n) (unat len - ?n))"
      using less.hyps [of "len - ucast ?chunk" "off + ucast ?chunk"] less.prems n pos
      unfolding off' len' by simp
    have here: "take (unat ?chunk) (drop (unat off mod 512) (sectors d (of_nat (unat off div 512)))) =
        disk_bytes d (unat off) ?n"
      unfolding c(1) by (rule disk_bytes_sector [OF l512 n(3), symmetric])
    have l0: "len > 0" using False by (simp add: word_gt_0)
    show ?thesis
      using disk_bytes_append [of d "unat off" ?n "unat len - ?n"] n(2) l0
      by (subst disk_read_bytes.simps, unfold Let_def rd option.case rest prod.case so here) simp
  qed
qed

section \<open>Stores\<close>

lemma store_bytes_append:
  "store_bytes m a (xs @ ys) = store_bytes (store_bytes m a xs) (a + of_nat (length xs)) ys"
  by (induction xs arbitrary: m a) (simp_all add: algebra_simps)

definition inside :: "u64 \<Rightarrow> nat \<Rightarrow> u64 \<Rightarrow> bool" where
  "inside a n x \<longleftrightarrow> unat a \<le> unat x \<and> unat x < unat a + n"

lemma inside_offset:
  assumes "unat a + n < 2 ^ 64"
  shows "unat (x - a) < n \<longleftrightarrow> inside a n x"
proof (cases "a \<le> x")
  case True
  then show ?thesis by (auto simp: inside_def unat_sub word_le_nat_alt)
next
  case False
  then have lt: "unat x < unat a" by (simp add: word_le_nat_alt)
  then have "unat (x - a) = unat x + 2 ^ 64 - unat a"
    by (subst unat_sub_if_size) (simp add: word_size word_le_nat_alt)
  then show ?thesis using lt assms by (simp add: inside_def)
qed

lemma store_bytes_inside:
  "unat a + length bs < 2 ^ 64 \<Longrightarrow>
     store_bytes m a bs x = (if inside a (length bs) x then bs ! (unat x - unat a) else m x)"
proof -
  assume l: "unat a + length bs < 2 ^ 64"
  have "unat (x - a) = unat x - unat a" if "inside a (length bs) x"
    using that by (simp add: inside_def unat_sub word_le_nat_alt)
  then show ?thesis using l by (simp add: store_bytes_apply inside_offset)
qed

lemma load_bytes_inside:
  assumes "unat a + n < 2 ^ 64" and "\<And>x. inside a n x \<Longrightarrow> m x = m' x"
  shows "load_bytes m a n = load_bytes m' a n"
proof (rule load_bytes_cong)
  fix i assume i: "i < n"
  then have "unat (a + of_nat i) = unat a + i"
    using assms(1) by (subst unat_plus_if_size) (simp add: word_size unat_of_nat)
  then show "m (a + of_nat i) = m' (a + of_nat i)" using assms(2) i by (simp add: inside_def)
qed

section \<open>The kernel image\<close>

text \<open>
  The ELF file lies on the disk at \<open>fo\<close>.  \<open>seg_data\<close> is what one program header asks for in memory:
  its bytes of the file and zeros up to \<^verbatim>\<open>p_memsz\<close>.
\<close>

abbreviation seg_len :: "u8 list \<Rightarrow> nat" where "seg_len b \<equiv> unat (p_memsz (phdr_of b))"

definition seg_data :: "blk_dev \<Rightarrow> nat \<Rightarrow> u8 list \<Rightarrow> u8 list" where
  "seg_data d fo b =
     disk_bytes d (fo + unat (p_offset (phdr_of b))) (unat (p_filesz (phdr_of b)))
       @ replicate (seg_len b - unat (p_filesz (phdr_of b))) 0"

definition seg_fits :: "nat \<Rightarrow> u64 \<Rightarrow> u64 \<Rightarrow> u8 list \<Rightarrow> bool" where
  "seg_fits fo mb ms b \<longleftrightarrow>
     unat (p_filesz (phdr_of b)) \<le> seg_len b \<and> unat mb \<le> unat (p_paddr b) \<and>
     unat (p_paddr b) + seg_len b \<le> unat mb + unat ms \<and>
     fo + unat (p_offset (phdr_of b)) + unat (p_filesz (phdr_of b)) < 2 ^ 64"

definition seg_end :: "u8 list \<Rightarrow> nat" where
  "seg_end b = unat (p_paddr b) + seg_len b"

definition segs_apart :: "u8 list \<Rightarrow> u8 list \<Rightarrow> bool" where
  "segs_apart b c \<longleftrightarrow> seg_end b \<le> unat (p_paddr c) \<or> seg_end c \<le> unat (p_paddr b)"

definition put_seg :: "blk_dev \<Rightarrow> nat \<Rightarrow> u8 list \<Rightarrow> mem \<Rightarrow> mem" where
  "put_seg d fo b m = store_bytes m (p_paddr b) (seg_data d fo b)"

lemma length_seg_data: "seg_fits fo mb ms b \<Longrightarrow> length (seg_data d fo b) = seg_len b"
  by (simp add: seg_data_def seg_fits_def)

lemma unat_plus_small: "unat (a :: u64) + unat b < 2 ^ 64 \<Longrightarrow> unat (a + b) = unat a + unat b"
  by (subst unat_plus_if_size) (simp add: word_size)

lemma load_segment_puts:
  assumes d: "dev_ok d" and fit: "seg_fits (unat fo) mb ms b" and load: "p_type (phdr_of b) = PT_LOAD"
    and mem: "unat mb + unat ms < 2 ^ 64"
  shows "\<exists>kend'. fw_load_segment d fo mb ms b kend m = Some (kend', put_seg d (unat fo) b m) \<and>
    unat kend' = max (unat kend) (seg_end b)"
proof -
  let ?ph = "phdr_of b" and ?pa = "p_paddr b"
  note fit' = fit [unfolded seg_fits_def]
  have e: "unat (?pa + p_memsz ?ph) = seg_end b"
    using fit' mem by (simp add: unat_plus_small seg_end_def)
  have m: "unat (mb + ms) = unat mb + unat ms" using mem by (rule unat_plus_small)
  have o: "unat (fo + p_offset ?ph) = unat fo + unat (p_offset ?ph)"
    by (rule unat_plus_small) (use fit' in linarith)
  have ok: "\<not> (ms \<noteq> 0 \<and> (?pa < mb \<or> mb + ms < ?pa + p_memsz ?ph))"
    using fit' e m by (simp add: word_less_nat_alt seg_end_def)
  have rd: "disk_read_bytes d (fo + p_offset ?ph) (p_filesz ?ph) =
      (0, disk_bytes d (unat fo + unat (p_offset ?ph)) (unat (p_filesz ?ph)))"
    using disk_read_bytes_ok [OF d, of "fo + p_offset ?ph" "p_filesz ?ph"] fit' unfolding o by blast
  let ?bs = "disk_bytes d (unat fo + unat (p_offset ?ph)) (unat (p_filesz ?ph))"
  let ?m1 = "store_bytes m ?pa ?bs"
  have put: "(if p_filesz ?ph < p_memsz ?ph
      then memset ?m1 (?pa + p_filesz ?ph) 0 (unat (p_memsz ?ph - p_filesz ?ph)) else ?m1) = put_seg d (unat fo) b m"
  proof (cases "p_filesz ?ph < p_memsz ?ph")
    case True
    then have "unat (p_memsz ?ph - p_filesz ?ph) = seg_len b - unat (p_filesz ?ph)"
      by (simp add: unat_sub less_imp_le)
    then show ?thesis
      using True by (simp add: put_seg_def seg_data_def store_bytes_append memset_store_bytes)
  next
    case False
    then show ?thesis by (simp add: put_seg_def seg_data_def word_less_nat_alt)
  qed
  show ?thesis
    unfolding fw_load_segment_def Let_def rd
    using load ok put e by (auto simp: word_less_nat_alt max_def)
qed

lemma load_segments_put:
  assumes d: "dev_ok d" and mem: "unat mb + unat ms < 2 ^ 64"
    and size: "e_phentsize h = 56"
  shows "\<forall>i\<in>set is. unat fo + unat (e_phoff h) + i * 56 + 56 < 2 ^ 64 \<Longrightarrow>
    bs = filter (\<lambda>b. p_type (phdr_of b) = PT_LOAD)
           (map (\<lambda>i. disk_bytes d (unat fo + unat (e_phoff h) + i * 56) 56) is) \<Longrightarrow>
    \<forall>b\<in>set bs. seg_fits (unat fo) mb ms b \<Longrightarrow>
    \<exists>kend'. fw_load_segments d fo mb ms h is kend m = Some (kend', fold (put_seg d (unat fo)) bs m) \<and>
      unat kend' = fold max (map seg_end bs) (unat kend)"
proof (induction "is" arbitrary: kend m bs)
  case Nil
  then show ?case by simp
next
  case (Cons i "is")
  let ?b = "disk_bytes d (unat fo + unat (e_phoff h) + i * 56) 56"
  let ?bs = "filter (\<lambda>b. p_type (phdr_of b) = PT_LOAD)
    (map (\<lambda>i. disk_bytes d (unat fo + unat (e_phoff h) + i * 56) 56) is)"
  have room: "unat fo + unat (e_phoff h) + i * 56 + 56 < 2 ^ 64" using Cons.prems(1) by simp
  have "fo + e_phoff h + of_nat i * ucast (e_phentsize h) = of_nat (unat fo + unat (e_phoff h) + i * 56)"
    by (simp add: size)
  then have a: "unat (fo + e_phoff h + of_nat i * ucast (e_phentsize h)) = unat fo + unat (e_phoff h) + i * 56"
    using room unat_addr [of "unat fo + unat (e_phoff h) + i * 56"] by (simp only:)
  have rd: "disk_read_bytes d (fo + e_phoff h + of_nat i * ucast (e_phentsize h)) 56 = (0, ?b)"
    using disk_read_bytes_ok [OF d, of "fo + e_phoff h + of_nat i * ucast (e_phentsize h)" 56] room
    unfolding a by simp
  show ?case
  proof (cases "p_type (phdr_of ?b) = PT_LOAD")
    case True
    have bs: "bs = ?b # ?bs" using Cons.prems(2) True by simp
    have fb: "seg_fits (unat fo) mb ms ?b" using Cons.prems(3) bs by simp
    obtain k1 where k1: "fw_load_segment d fo mb ms ?b kend m = Some (k1, put_seg d (unat fo) ?b m)"
      "unat k1 = max (unat kend) (seg_end ?b)"
      using load_segment_puts [OF d fb True mem] by blast
    obtain k2 where "fw_load_segments d fo mb ms h is k1 (put_seg d (unat fo) ?b m) =
        Some (k2, fold (put_seg d (unat fo)) ?bs (put_seg d (unat fo) ?b m))"
      "unat k2 = fold max (map seg_end ?bs) (unat k1)"
      using Cons.IH [of ?bs k1 "put_seg d (unat fo) ?b m"] Cons.prems bs by auto
    then show ?thesis using k1 rd by (simp add: bs max.commute)
  next
    case False
    have bs: "bs = ?bs" using Cons.prems(2) False by simp
    have "fw_load_segment d fo mb ms ?b kend m = Some (kend, m)"
      using False by (simp add: fw_load_segment_def Let_def)
    then show ?thesis using Cons.IH [of ?bs kend m] Cons.prems bs rd by simp
  qed
qed

text \<open>Stores into segments that are apart.\<close>

lemma put_seg_inside:
  "seg_fits fo mb ms b \<Longrightarrow> unat mb + unat ms < 2 ^ 64 \<Longrightarrow> put_seg d fo b m x =
     (if inside (p_paddr b) (seg_len b) x then seg_data d fo b ! (unat x - unat (p_paddr b)) else m x)"
  using store_bytes_inside [of "p_paddr b" "seg_data d fo b" m x] length_seg_data [of fo mb ms b d]
  by (simp add: put_seg_def seg_fits_def)

lemma put_segs_outside:
  "\<forall>b\<in>set bs. seg_fits fo mb ms b \<Longrightarrow> unat mb + unat ms < 2 ^ 64 \<Longrightarrow>
   \<forall>b\<in>set bs. \<not> inside (p_paddr b) (seg_len b) x \<Longrightarrow> fold (put_seg d fo) bs m x = m x"
  by (induction bs arbitrary: m) (simp_all add: put_seg_inside [of fo mb ms])

lemma put_segs_loaded:
  assumes mem: "unat mb + unat ms < 2 ^ 64"
  shows "\<forall>b\<in>set bs. seg_fits fo mb ms b \<Longrightarrow> sorted_wrt segs_apart bs \<Longrightarrow> b \<in> set bs \<Longrightarrow>
    load_bytes (fold (put_seg d fo) bs m) (p_paddr b) (seg_len b) = seg_data d fo b"
proof (induction bs arbitrary: m)
  case (Cons c bs)
  show ?case
  proof (cases "b \<in> set bs")
    case True
    then show ?thesis using Cons by simp
  next
    case False
    then have b: "b = c" using Cons.prems(3) by simp
    have fits: "seg_fits fo mb ms c" and small: "unat (p_paddr c) + seg_len c < 2 ^ 64"
      using Cons.prems(1) mem by (simp_all add: seg_fits_def)
    have "load_bytes (fold (put_seg d fo) bs (put_seg d fo c m)) (p_paddr c) (seg_len c) =
        load_bytes (put_seg d fo c m) (p_paddr c) (seg_len c)"
    proof (rule load_bytes_inside [OF small])
      fix x assume x: "inside (p_paddr c) (seg_len c) x"
      have "\<not> inside (p_paddr a) (seg_len a) x" if "a \<in> set bs" for a
        using Cons.prems(2) that x by (auto simp: segs_apart_def inside_def seg_end_def)
      then show "fold (put_seg d fo) bs (put_seg d fo c m) x = put_seg d fo c m x"
        using put_segs_outside [OF _ mem, of bs fo x d] Cons.prems(1) by simp
    qed
    also have "\<dots> = seg_data d fo c"
    proof -
      have "length (seg_data d fo c) = seg_len c" by (rule length_seg_data [OF fits])
      then show ?thesis
        using load_store_same [of "seg_data d fo c" m "p_paddr c"] small by (simp add: put_seg_def)
    qed
    finally show ?thesis using b by simp
  qed
qed simp

definition elf_header :: "blk_dev \<Rightarrow> nat \<Rightarrow> u8 list" where
  "elf_header d fo = disk_bytes d fo 64"

text \<open>The headers of the segments to load, in the order of the table.\<close>

definition elf_loads :: "blk_dev \<Rightarrow> nat \<Rightarrow> u8 list list" where
  "elf_loads d fo =
     filter (\<lambda>b. p_type (phdr_of b) = PT_LOAD)
       (map (\<lambda>i. disk_bytes d (fo + unat (e_phoff (elf_header d fo)) + i * 56) 56)
          [0..<unat (e_phnum (elf_header d fo))])"

definition elf_image :: "blk_dev \<Rightarrow> nat \<Rightarrow> u64 \<Rightarrow> u64 \<Rightarrow> u64 \<Rightarrow> bool" where
  "elf_image d fo file_size mb ms \<longleftrightarrow>
     (let h = elf_header d fo in
      64 \<le> file_size \<and> elf_magic_ok h \<and> h ! 4 = 2 \<and> h ! 5 = 1 \<and> e_machine h = 243 \<and> e_phentsize h = 56 \<and>
      fo + unat (e_phoff h) + unat (e_phnum h) * 56 + 64 < 2 ^ 64 \<and> unat mb + unat ms < 2 ^ 64 \<and>
      (\<forall>b\<in>set (elf_loads d fo). seg_fits fo mb ms b) \<and> sorted_wrt segs_apart (elf_loads d fo))"

definition kernel_end :: "blk_dev \<Rightarrow> nat \<Rightarrow> nat" where
  "kernel_end d fo = fold max (map seg_end (elf_loads d fo)) 0"

lemma fold_max_start: "k \<le> fold max ks (k :: nat)"
proof (induction ks arbitrary: k)
  case (Cons a ks)
  then show ?case by (metis fold_simps(2) max.cobounded2 order_trans)
qed simp

lemma fold_max_le: "n \<in> set ks \<Longrightarrow> n \<le> fold max ks (k :: nat)"
proof (induction ks arbitrary: k)
  case (Cons a ks)
  then show ?case using fold_max_start [of "max a k" ks] by auto
qed simp

lemma seg_end_kernel_end: "b \<in> set (elf_loads d fo) \<Longrightarrow> seg_end b \<le> kernel_end d fo"
  by (simp add: kernel_end_def fold_max_le)

text \<open>Loading the image puts every segment where its header says and touches nothing else.\<close>

lemma load_elf_image:
  assumes d: "dev_ok d" and img: "elf_image d (unat fo) file_size mb ms"
  shows "\<exists>kend m'. load_elf d fo file_size mb ms m = Some (e_entry (elf_header d (unat fo)), kend, m') \<and>
    unat kend = kernel_end d (unat fo) \<and>
    (\<forall>b\<in>set (elf_loads d (unat fo)). load_bytes m' (p_paddr b) (seg_len b) = seg_data d (unat fo) b) \<and>
    (\<forall>x. (\<forall>b\<in>set (elf_loads d (unat fo)). \<not> inside (p_paddr b) (seg_len b) x) \<longrightarrow> m' x = m x)"
proof -
  let ?h = "elf_header d (unat fo)" and ?bs = "elf_loads d (unat fo)"
  note i = img [unfolded elf_image_def Let_def]
  have hd: "disk_read_bytes d fo 64 = (0, ?h)"
    using disk_read_bytes_ok [OF d, of fo 64] i by (simp add: elf_header_def)
  have "\<exists>kend. fw_load_segments d fo mb ms ?h [0..<unat (e_phnum ?h)] 0 m = Some (kend, fold (put_seg d (unat fo)) ?bs m) \<and>
      unat kend = fold max (map seg_end ?bs) (unat (0 :: u64))"
  proof (rule load_segments_put [OF d])
    show "\<forall>j\<in>set [0..<unat (e_phnum ?h)]. unat fo + unat (e_phoff ?h) + j * 56 + 56 < 2 ^ 64"
      using i by auto
  qed (use i in \<open>simp_all add: elf_loads_def\<close>)
  then obtain kend where k: "fw_load_segments d fo mb ms ?h [0..<unat (e_phnum ?h)] 0 m = Some (kend, fold (put_seg d (unat fo)) ?bs m)"
    "unat kend = kernel_end d (unat fo)"
    by (auto simp: kernel_end_def)
  have "load_elf d fo file_size mb ms m = Some (e_entry ?h, kend, fold (put_seg d (unat fo)) ?bs m)"
    using i hd k(1) by (simp add: load_elf_def not_less)
  moreover have "load_bytes (fold (put_seg d (unat fo)) ?bs m) (p_paddr b) (seg_len b) = seg_data d (unat fo) b"
    if "b \<in> set ?bs" for b
    by (rule put_segs_loaded [of mb ms]) (use i that in auto)
  moreover have "fold (put_seg d (unat fo)) ?bs m x = m x" if "\<forall>b\<in>set ?bs. \<not> inside (p_paddr b) (seg_len b) x" for x
    by (rule put_segs_outside [of _ _ mb ms]) (use i that in auto)
  ultimately show ?thesis using k(2) by blast
qed

section \<open>The device tree moves with the hand-over\<close>

definition apart :: "nat \<Rightarrow> nat \<Rightarrow> nat \<Rightarrow> nat \<Rightarrow> bool" where
  "apart a n b k \<longleftrightarrow> a + n \<le> b \<or> b + k \<le> a"

lemma dt_blob_moves:
  assumes b: "dt_blob m dtb nm t" and c: "4 dvd c" "c + unat (fdt32_at m (of_nat (dtb + 4))) + 8 < 2 ^ 64"
    and same: "\<And>i. i < unat (fdt32_at m (of_nat (dtb + 4))) \<Longrightarrow> m' (of_nat (c + i)) = m (of_nat (dtb + i))"
  shows "dt_blob m' c nm t"
proof -
  let ?total = "unat (fdt32_at m (of_nat (dtb + 4)))"
  note b' = b [unfolded dt_blob_def Let_def]
  have total: "40 \<le> ?total" using b' by (simp add: word_le_nat_alt)
  have ld: "load_bytes m' (of_nat (c + k)) n = load_bytes m (of_nat (dtb + k)) n" if "k + n \<le> ?total" for k n
  proof (rule nth_equalityI)
    fix i assume "i < length (load_bytes m' (of_nat (c + k)) n)"
    then have i: "i < n" by simp
    have "m' (of_nat (c + (k + i))) = m (of_nat (dtb + (k + i)))" using same [of "k + i"] i that by simp
    then show "load_bytes m' (of_nat (c + k)) n ! i = load_bytes m (of_nat (dtb + k)) n ! i"
      using i by (simp add: load_bytes_nth add.assoc)
  qed simp
  have f: "fdt32_at m' (of_nat (c + k)) = fdt32_at m (of_nat (dtb + k))" if "k + 4 \<le> ?total" for k
    using ld [OF that] by (simp only: fdt32_at_be)
  have at: "bytes_at m' (c + k) bs" if "bytes_at m (dtb + k) bs" "k + length bs \<le> ?total" for k bs
    using that ld [of k "length bs"] by (simp add: bytes_at_def)
  have f0: "fdt32_at m' (of_nat c) = fdt32_at m (of_nat dtb)" using f [of 0] total by simp
  have fs: "fdt32_at m' (of_nat (c + 4)) = fdt32_at m (of_nat (dtb + 4))"
    "fdt32_at m' (of_nat (c + 8)) = fdt32_at m (of_nat (dtb + 8))"
    "fdt32_at m' (of_nat (c + 12)) = fdt32_at m (of_nat (dtb + 12))"
    "fdt32_at m' (of_nat (c + 32)) = fdt32_at m (of_nat (dtb + 32))"
    "fdt32_at m' (of_nat (c + 36)) = fdt32_at m (of_nat (dtb + 36))"
    using f total by (simp_all del: of_nat_add)
  have tree: "bytes_at m' (c + unat (fdt32_at m (of_nat (dtb + 8)))) (dt_bytes t @ be32 FDT_END)"
    by (rule at) (use b' in simp_all)
  have names: "bytes_at m' (c + unat (fdt32_at m (of_nat (dtb + 12))) + unat (fst p)) (nm (fst p) @ [0])"
    if "p \<in> set (dt_all_props t)" for p
  proof -
    have "bytes_at m (dtb + unat (fdt32_at m (of_nat (dtb + 12))) + unat (fst p)) (nm (fst p) @ [0])"
      and "unat (fst p) + length (nm (fst p)) < unat (fdt32_at m (of_nat (dtb + 32)))"
      and "unat (fdt32_at m (of_nat (dtb + 12))) + unat (fdt32_at m (of_nat (dtb + 32))) \<le> ?total"
      using b' that by blast+
    then show ?thesis
      using at [of "unat (fdt32_at m (of_nat (dtb + 12))) + unat (fst p)" "nm (fst p) @ [0]"] by (simp add: add.assoc)
  qed
  show ?thesis
    unfolding dt_blob_def Let_def f0 fs using b' c tree names by blast
qed

lemma memcpy_copies:
  assumes "apart dtb n c n" and "dtb + n < 2 ^ 64" and "c + n < 2 ^ 64"
  shows "i < n \<Longrightarrow> memcpy m (of_nat c) (of_nat dtb) n (of_nat (c + i)) = m (of_nat (dtb + i))"
    and "\<not> inside (of_nat c) n x \<Longrightarrow> memcpy m (of_nat c) (of_nat dtb) n x = m x"
proof -
  have u: "unat (of_nat c :: u64) = c" "unat (of_nat dtb :: u64) = dtb" using assms(2,3) by (simp_all add: unat_addr)
  have far: "n \<le> unat (of_nat c - of_nat dtb :: u64)"
  proof (cases "dtb \<le> c")
    case True
    then have "unat (of_nat c - of_nat dtb :: u64) = c - dtb"
      using u by (simp add: unat_sub word_le_nat_alt)
    then show ?thesis using assms(1) True by (auto simp: apart_def)
  next
    case False
    then have "unat (of_nat c - of_nat dtb :: u64) = c + 2 ^ 64 - dtb"
      using u by (subst unat_sub_if_size) (simp add: word_size word_le_nat_alt)
    then show ?thesis using assms False by (auto simp: apart_def)
  qed
  note ap = memcpy_apply [OF far, of m]
  show "memcpy m (of_nat c) (of_nat dtb) n x = m x" if "\<not> inside (of_nat c) n x"
    using that inside_offset [of "of_nat c" n x] assms(3) u by (simp add: ap)
  assume i: "i < n"
  then have "unat (of_nat (c + i) - of_nat c :: u64) = i" using assms(3) by (simp add: unat_of_nat)
  then show "memcpy m (of_nat c) (of_nat dtb) n (of_nat (c + i)) = m (of_nat (dtb + i))"
    using i by (simp add: ap)
qed

section \<open>Booting\<close>

definition initrd_addr :: "u8 list \<Rightarrow> u64 \<Rightarrow> u64 \<Rightarrow> u64" where
  "initrd_addr hdr mb ms = (mb + ms - ((initrd_size hdr + 0xfff) AND NOT 0xfff)) AND NOT 0xfff"

text \<open>
  The firmware occupies memory from \<open>FW_BASE\<close> (\<^verbatim>\<open>firmware/linker.ld\<close>) to \<open>fw_end\<close>: its code, and in its \<^verbatim>\<open>.bss\<close>
  the stacks of \<^verbatim>\<open>start.S\<close>, the sector buffer, the structures of the disk driver, \<^verbatim>\<open>g_bootinfo\<close> and \<^verbatim>\<open>g_dtb_copy\<close>.
  Of these the model keeps only the copy in \<open>m\<close>, the others are values of their own; what makes that right is
  that nothing the firmware loads lies in its own image.
\<close>

abbreviation (input) FW_BASE :: nat where "FW_BASE \<equiv> 0x80000000"

lemma apart_sub:
  "apart a n b k \<Longrightarrow> b \<le> c \<Longrightarrow> c + j \<le> b + k \<Longrightarrow> apart a n c j"
  by (auto simp: apart_def)

text \<open>
  What has to hold of a machine for a boot: a device tree with memory, a disk behind the base the
  probe settles on, an image on it whose segments lie apart in that memory, and room: the array
  \<^verbatim>\<open>g_dtb_copy\<close> is part of the firmware, and neither the tree nor the segments nor the initial RAM disk
  touch the firmware, nor those the tree.
\<close>

definition boot_ready ::
    "machine \<Rightarrow> mem \<Rightarrow> nat \<Rightarrow> nat \<Rightarrow> nat \<Rightarrow> (u32 \<Rightarrow> cstr) \<Rightarrow> dt_node \<Rightarrow> u64 \<Rightarrow> u64 \<Rightarrow> blk_dev \<Rightarrow> bool" where
  "boot_ready mc m dtb fw_end copy nm t mb ms d \<longleftrightarrow>
     (let total = unat (fdt32_at m (of_nat (dtb + 4))); hdr = disk_bytes d 0 56; fw_len = fw_end - FW_BASE;
          ko = unat (kernel_offset hdr); isz = unat (initrd_size hdr); ia = unat (initrd_addr hdr mb ms) in
      dt_blob m dtb nm t \<and> 0 < dtb \<and> total \<le> 65536 \<and>
      find (\<lambda>r. snd r \<noteq> 0) (dt_memories nm t) = Some (mb, ms) \<and>
      disk_at mc (probe_bases mc (take 8 (dt_virtios nm t)) 0) = Some d \<and> dev_ok d \<and>
      image_header_valid hdr \<and> elf_image d ko (kernel_size hdr) mb ms \<and>
      fw_end < 2 ^ 63 \<and> 4 dvd copy \<and> FW_BASE \<le> copy \<and> copy + 65536 \<le> fw_end \<and>
      apart dtb total FW_BASE fw_len \<and>
      (\<forall>b\<in>set (elf_loads d ko). apart (unat (p_paddr b)) (seg_len b) dtb total \<and>
                               apart (unat (p_paddr b)) (seg_len b) FW_BASE fw_len) \<and>
      (isz \<noteq> 0 \<longrightarrow> kernel_end d ko < ia \<and> ia + isz < 2 ^ 64 \<and> unat (initrd_offset hdr) + isz < 2 ^ 64 \<and>
                   apart ia isz dtb total \<and> apart ia isz FW_BASE fw_len))"

lemma apart_inside: "apart (unat a) n b k \<Longrightarrow> b \<le> unat x \<Longrightarrow> unat x < b + k \<Longrightarrow> \<not> inside a n x"
  by (auto simp: apart_def inside_def)

lemma load_initrd_ok:
  assumes "dev_ok d" and ms: "ms \<noteq> 0" and k: "unat kend = kernel_end d ko"
    and i: "unat (initrd_size hdr) \<noteq> 0 \<longrightarrow> kernel_end d ko < unat (initrd_addr hdr mb ms) \<and>
      unat (initrd_offset hdr) + unat (initrd_size hdr) < 2 ^ 64"
  shows "\<exists>pa. load_initrd d hdr mb ms kend m = Some (pa,
      if initrd_size hdr = 0 then m
      else store_bytes m (initrd_addr hdr mb ms) (disk_bytes d (unat (initrd_offset hdr)) (unat (initrd_size hdr)))) \<and>
    (initrd_size hdr \<noteq> 0 \<longrightarrow> pa = initrd_addr hdr mb ms)"
proof (cases "initrd_size hdr = 0")
  case True
  then show ?thesis by (simp add: load_initrd_def)
next
  case False
  then have i': "kernel_end d ko < unat (initrd_addr hdr mb ms)"
    "unat (initrd_offset hdr) + unat (initrd_size hdr) < 2 ^ 64" using i by (simp_all add: unat_eq_0)
  have "\<not> initrd_addr hdr mb ms \<le> kend" using i'(1) k by (simp add: word_le_nat_alt)
  moreover have "disk_read_bytes d (initrd_offset hdr) (initrd_size hdr) =
      (0, disk_bytes d (unat (initrd_offset hdr)) (unat (initrd_size hdr)))"
    by (rule disk_read_bytes_ok [OF assms(1) i'(2)])
  ultimately show ?thesis
    using False ms unfolding load_initrd_def Let_def initrd_addr_def by simp
qed


section \<open>A disk to boot from\<close>

text \<open>
  The image header in the first sector, then a kernel with one segment of 8 bytes, 4 of them in the
  file, at the address \<^verbatim>\<open>KERNEL_PHYS_BASE\<close> of the kernel's linker script, 2 MB above the firmware.
\<close>

definition boot_header :: "u8 list" where
  "boot_header =
     [82, 73, 83, 67, 86, 73, 77, 71, 1, 0, 0, 0, 0, 0, 0, 0, 0, 2, 0, 0, 0, 0, 0, 0,
      0, 2, 0, 0, 0, 0, 0, 0, 0, 0, 0, 0, 0, 0, 0, 0, 0, 0, 0, 0, 0, 0, 0, 0,
      0, 0, 0, 0, 0, 0, 0, 0]"

definition boot_kernel :: "u8 list" where
  "boot_kernel =
     [127, 69, 76, 70, 2, 1, 0, 0, 0, 0, 0, 0, 0, 0, 0, 0, 0, 0, 243, 0, 0, 0, 0, 0,
      0, 0, 32, 128, 0, 0, 0, 0, 64, 0, 0, 0, 0, 0, 0, 0, 0, 0, 0, 0, 0, 0, 0, 0,
      0, 0, 0, 0, 0, 0, 56, 0, 1, 0, 0, 0, 0, 0, 0, 0, 1, 0, 0, 0, 0, 0, 0, 0,
      120, 0, 0, 0, 0, 0, 0, 0, 0, 0, 0, 0, 0, 0, 0, 0, 0, 0, 32, 128, 0, 0, 0, 0,
      4, 0, 0, 0, 0, 0, 0, 0, 8, 0, 0, 0, 0, 0, 0, 0, 0, 0, 0, 0, 0, 0, 0, 0,
      1, 2, 3, 4]"

definition boot_disk :: blk_dev where
  "boot_disk =
     \<lparr>sectors = (\<lambda>l. if l = 0 then boot_header @ replicate 456 0
                    else if l = 1 then boot_kernel @ replicate 388 0 else replicate 512 0),
      read_fails = (\<lambda>_. False), write_fails = (\<lambda>_. False)\<rparr>"

definition boot_machine :: machine where
  "boot_machine =
     \<lparr>mmio_read32 = (\<lambda>a. if a = 0x10001000 then VIRTIO_MAGIC else if a = 0x10001008 then 2 else 0),
      disk_at = (\<lambda>b. if b = 0x10001000 then Some boot_disk else None)\<rparr>"

lemma boot_lengths: "length boot_header = 56" "length boot_kernel = 124"
  by (simp_all add: boot_header_def boot_kernel_def)

lemma boot_disk_ok: "dev_ok boot_disk"
  by (simp add: dev_ok_def boot_disk_def boot_lengths)

lemma boot_header_bytes: "disk_bytes boot_disk 0 56 = boot_header"
  by (simp add: disk_bytes_sector boot_disk_def boot_lengths)

lemma boot_kernel_bytes:
  assumes "k + n \<le> 124"
  shows "disk_bytes boot_disk (512 + k) n = take n (drop k boot_kernel)"
proof -
  have "k < 512 \<and> k + n \<le> 512" using assms by simp
  then have "(512 + k) mod 512 = k" "(512 + k) div 512 = 1" by (simp_all add: div_if)
  then show ?thesis using assms by (simp add: disk_bytes_sector boot_disk_def boot_lengths)
qed

lemma boot_header_fields:
  "image_header_valid boot_header" "kernel_offset boot_header = 512" "kernel_size boot_header = 512"
  "initrd_size boot_header = 0"
  by (simp_all add: boot_header_def image_header_valid_def img_magic_def img_version_def kernel_offset_def
      kernel_size_def initrd_size_def le64_def le32_def)

lemma boot_elf_header: "elf_header boot_disk 512 = take 64 boot_kernel"
  using boot_kernel_bytes [of 0 64] by (simp add: elf_header_def)

lemma boot_elf_fields:
  "e_entry (take 64 boot_kernel) = 0x80200000" "e_phoff (take 64 boot_kernel) = 64"
  "e_phnum (take 64 boot_kernel) = 1" "e_phentsize (take 64 boot_kernel) = 56"
  "e_machine (take 64 boot_kernel) = 243" "elf_magic_ok (take 64 boot_kernel)"
  "take 64 boot_kernel ! 4 = 2" "take 64 boot_kernel ! 5 = 1"
  by (simp_all add: boot_kernel_def e_entry_def e_phoff_def e_phnum_def e_phentsize_def e_machine_def
      elf_magic_ok_def le64_def le16_def)

definition boot_segment :: "u8 list" where
  "boot_segment = take 56 (drop 64 boot_kernel)"

lemma boot_segment_fields:
  "p_type (phdr_of boot_segment) = PT_LOAD" "p_offset (phdr_of boot_segment) = 120"
  "p_filesz (phdr_of boot_segment) = 4" "p_memsz (phdr_of boot_segment) = 8" "p_paddr boot_segment = 0x80200000"
  by (simp_all add: boot_segment_def boot_kernel_def phdr_of_def p_paddr_def le64_def le32_def)

lemma boot_loads: "elf_loads boot_disk 512 = [boot_segment]"
  using boot_kernel_bytes [of 64 56]
  by (simp add: elf_loads_def boot_elf_header boot_elf_fields boot_segment_def [symmetric] boot_segment_fields)

lemma boot_segment_data: "seg_data boot_disk 512 boot_segment = [1, 2, 3, 4, 0, 0, 0, 0]"
proof -
  have "replicate 4 (0 :: u8) = [0, 0, 0, 0]" by (simp add: numeral_eq_Suc)
  then show ?thesis
    using boot_kernel_bytes [of 120 4] by (simp add: seg_data_def boot_segment_fields boot_kernel_def)
qed

lemma boot_machine_ready:
  "boot_ready boot_machine blob_mem 4096 0x80100000 0x80010000 demo_names demo_tree 0x80000000 0x8000000 boot_disk"
proof -
  have probe: "probe_bases boot_machine [0x10001000] 0 = 0x10001000"
    using disk_read_bytes_ok [OF boot_disk_ok, of 0 56]
    by (simp add: boot_machine_def boot_header_bytes boot_header_fields Let_def)
  have elf: "elf_image boot_disk 512 512 0x80000000 0x8000000"
    by (simp add: elf_image_def Let_def boot_elf_header boot_elf_fields boot_loads seg_fits_def boot_segment_fields)
  show ?thesis
    unfolding boot_ready_def Let_def
    using demo_blob boot_disk_ok probe elf
    by (simp add: boot_header_bytes boot_header_fields demo_fields demo_describes boot_loads apart_def
        boot_segment_fields boot_machine_def)
qed


end
