(* ===== verification/Virtio.thy ===== *)
theory Virtio
  imports Blk Fdt Mm
begin

text \<open>
  The drivers of the virtio block device, \<^verbatim>\<open>kernel/virtio_blk.c\<close> and \<^verbatim>\<open>firmware/virtio.c\<close>, and
  \<^verbatim>\<open>blk_init\<close> and the bounce buffer of \<^verbatim>\<open>kernel/blk.c\<close>.  A request is three descriptors in memory:
  its header, the 512 bytes of the sector and a byte for the status.

  The device is a parameter: what a read of a register gives, what a write does, and one step of the
  device beside the processor, which may change memory.  A step is taken before each look at the
  index of the used ring.  Memory is physical; \<open>None\<close> says that the driver waits for ever.
\<close>

record 'd virtio_hw =
  hw_read :: "u64 \<Rightarrow> 'd \<Rightarrow> u32"
  hw_write :: "u64 \<Rightarrow> u32 \<Rightarrow> 'd \<Rightarrow> 'd"
  hw_step :: "'d \<times> mem \<Rightarrow> 'd \<times> mem"

record virtqueue =
  vq_desc :: u64
  vq_avail :: u64
  vq_used :: u64
  vq_num :: nat

record virtio_blk_dev =
  vd_base :: u64
  vd_version :: u32
  vd_last_used :: u16
  vd_capacity :: u64

text \<open>The static objects of the driver, at their virtual addresses.\<close>

record virtio_area =
  g_vring :: u64
  g_req :: u64
  g_status :: u64
  g_bounce :: u64

record 'd virtio_state =
  vs_mem :: mem
  vs_hw :: 'd
  vs_dev :: virtio_blk_dev
  vs_sie :: bool

abbreviation VIRTIO_BLK_T_IN :: u32 where "VIRTIO_BLK_T_IN \<equiv> 0"
abbreviation VIRTIO_BLK_T_OUT :: u32 where "VIRTIO_BLK_T_OUT \<equiv> 1"
abbreviation VIRTQ_DESC_F_NEXT :: u16 where "VIRTQ_DESC_F_NEXT \<equiv> 1"
abbreviation VIRTQ_DESC_F_WRITE :: u16 where "VIRTQ_DESC_F_WRITE \<equiv> 2"
abbreviation (input) QUEUE_NOTIFY :: u64 where "QUEUE_NOTIFY \<equiv> 0x50"
abbreviation (input) DEV_STATUS :: u64 where "DEV_STATUS \<equiv> 0x70"

definition virtio_pa :: "u64 \<Rightarrow> u64" where
  "virtio_pa va = va - KERNEL_VIRT_OFFSET"

definition load16 :: "mem \<Rightarrow> u64 \<Rightarrow> u16" where
  "load16 m a = le_word (load_bytes m a 2)"

definition store16 :: "mem \<Rightarrow> u64 \<Rightarrow> u16 \<Rightarrow> mem" where
  "store16 m a v = store_bytes m a (le_bytes 2 v)"

section \<open>A request\<close>

definition put_req :: "u64 \<Rightarrow> u32 \<Rightarrow> u64 \<Rightarrow> mem \<Rightarrow> mem" where
  "put_req a ty sector m = store_bytes m a (le_bytes 4 ty @ le_bytes 4 (0 :: u32) @ le_bytes 8 sector)"

definition put_desc :: "virtqueue \<Rightarrow> nat \<Rightarrow> u64 \<Rightarrow> u32 \<Rightarrow> u16 \<Rightarrow> u16 \<Rightarrow> mem \<Rightarrow> mem" where
  "put_desc q i addr len flags nxt m =
     store_bytes m (vq_desc q + 16 * of_nat i)
       (le_bytes 8 addr @ le_bytes 4 len @ le_bytes 2 flags @ le_bytes 2 nxt)"

text \<open>Entry \<open>idx mod num\<close> of the available ring names descriptor 0; then the index moves on.\<close>

definition put_avail :: "virtqueue \<Rightarrow> mem \<Rightarrow> mem" where
  "put_avail q m =
     (let idx = load16 m (vq_avail q + 2);
          m1 = store16 m (vq_avail q + 4 + 2 * of_nat (unat idx mod vq_num q)) 0 in
      store16 m1 (vq_avail q + 2) (idx + 1))"

definition virtio_post :: "virtqueue \<Rightarrow> u64 \<Rightarrow> u64 \<Rightarrow> u32 \<Rightarrow> u64 \<Rightarrow> u64 \<Rightarrow> mem \<Rightarrow> mem" where
  "virtio_post q req st ty sector buf m =
     (let m1 = (put_req req ty sector m)(st := 0xff);
          m2 = put_desc q 0 req 16 VIRTQ_DESC_F_NEXT 1 m1;
          m3 = put_desc q 1 buf 512
                 (if ty = VIRTIO_BLK_T_IN then VIRTQ_DESC_F_WRITE OR VIRTQ_DESC_F_NEXT else VIRTQ_DESC_F_NEXT) 2 m2;
          m4 = put_desc q 2 st 1 VIRTQ_DESC_F_WRITE 0 m3 in
      put_avail q m4)"

partial_function (option) wait_used :: "'d virtio_hw \<Rightarrow> u64 \<Rightarrow> u16 \<Rightarrow> 'd \<times> mem \<Rightarrow> ('d \<times> mem) option" where
  "wait_used hw used last_used s =
     (let s1 = hw_step hw s in
      if load16 (snd s1) (used + 2) = last_used then wait_used hw used last_used s1 else Some s1)"

definition kernel_queue :: "virtio_area \<Rightarrow> virtqueue" where
  "kernel_queue ar =
     \<lparr>vq_desc = virtio_pa (g_vring ar), vq_avail = virtio_pa (g_vring ar) + 128,
      vq_used = virtio_pa (g_vring ar) + 4096, vq_num = 8\<rparr>"

definition virtio_blk_rw_one ::
    "'d virtio_hw \<Rightarrow> virtio_area \<Rightarrow> u32 \<Rightarrow> u64 \<Rightarrow> u64 \<Rightarrow> 'd virtio_state \<Rightarrow> (int \<times> 'd virtio_state) option" where
  "virtio_blk_rw_one hw ar ty sector buf s =
     (let q = kernel_queue ar; sie = vs_sie s; dev = vs_dev s;
          m1 = virtio_post q (virtio_pa (g_req ar)) (virtio_pa (g_status ar)) ty sector (virtio_pa buf) (vs_mem s);
          d1 = hw_write hw (vd_base dev + QUEUE_NOTIFY) 0 (vs_hw s) in
      do { (d2, m2) \<leftarrow> wait_used hw (vq_used q) (vd_last_used dev) (d1, m1);
           let s1 = s\<lparr>vs_mem := m2, vs_hw := d2,
                      vs_dev := dev\<lparr>vd_last_used := load16 m2 (vq_used q + 2)\<rparr>, vs_sie := sie\<rparr> in
           Some (if m2 (virtio_pa (g_status ar)) = 0 then 0 else - 1, s1) })"

fun virtio_rw_loop ::
    "'d virtio_hw \<Rightarrow> virtio_area \<Rightarrow> u32 \<Rightarrow> u64 \<Rightarrow> u64 \<Rightarrow> u32 \<Rightarrow> nat \<Rightarrow> 'd virtio_state \<Rightarrow>
     (int \<times> 'd virtio_state) option" where
  "virtio_rw_loop hw ar ty sector p i 0 s = Some (0, s)"
| "virtio_rw_loop hw ar ty sector p i (Suc n) s =
     do { (r, s1) \<leftarrow> virtio_blk_rw_one hw ar ty (sector + ucast i) (p + ucast (i * 512)) s;
          if r \<noteq> 0 then Some (- 1, s1) else virtio_rw_loop hw ar ty sector p (i + 1) n s1 }"

definition virtio_blk_read ::
    "'d virtio_hw \<Rightarrow> virtio_area \<Rightarrow> u64 \<Rightarrow> u64 \<Rightarrow> u32 \<Rightarrow> 'd virtio_state \<Rightarrow> (int \<times> 'd virtio_state) option" where
  "virtio_blk_read hw ar sector dst count s =
     virtio_rw_loop hw ar VIRTIO_BLK_T_IN sector dst 0 (unat count) s"

definition virtio_blk_write ::
    "'d virtio_hw \<Rightarrow> virtio_area \<Rightarrow> u64 \<Rightarrow> u64 \<Rightarrow> u32 \<Rightarrow> 'd virtio_state \<Rightarrow> (int \<times> 'd virtio_state) option" where
  "virtio_blk_write hw ar sector src count s =
     virtio_rw_loop hw ar VIRTIO_BLK_T_OUT sector src 0 (unat count) s"

section \<open>Starting the device\<close>

definition mmio_writes :: "'d virtio_hw \<Rightarrow> u64 \<Rightarrow> (u64 \<times> u32) list \<Rightarrow> 'd \<Rightarrow> 'd" where
  "mmio_writes hw base ws d = fold (\<lambda>(off, v) d. hw_write hw (base + off) v d) ws d"

text \<open>Reset, the two status bits, and the features: none but bit 32 (\<^verbatim>\<open>VERSION_1\<close>).\<close>

definition virtio_hello :: "'d virtio_hw \<Rightarrow> u64 \<Rightarrow> u32 \<Rightarrow> 'd \<Rightarrow> 'd" where
  "virtio_hello hw base version d =
     mmio_writes hw base
       [(DEV_STATUS, 0), (DEV_STATUS, 1), (DEV_STATUS, 3), (0x14, 0), (0x14, 1),
        (0x24, 0), (0x20, 0), (0x24, 1), (0x20, if version \<ge> 2 then 1 else 0)] d"

text \<open>The rings: their addresses, or the number of their page for a legacy device.\<close>

definition set_queue :: "'d virtio_hw \<Rightarrow> u64 \<Rightarrow> u32 \<Rightarrow> virtqueue \<Rightarrow> 'd \<Rightarrow> 'd" where
  "set_queue hw base version q d =
     (if version \<ge> 2 then
        mmio_writes hw base
          [(0x44, 0), (0x38, of_nat (vq_num q)),
           (0x80, ucast (vq_desc q)), (0x84, ucast (drop_bit 32 (vq_desc q))),
           (0x90, ucast (vq_avail q)), (0x94, ucast (drop_bit 32 (vq_avail q))),
           (0xa0, ucast (vq_used q)), (0xa4, ucast (drop_bit 32 (vq_used q))), (0x44, 1)] d
      else
        mmio_writes hw base
          [(0x28, 4096), (0x38, of_nat (vq_num q)), (0x3c, 4096), (0x40, ucast (drop_bit 12 (vq_desc q)))] d)"

definition clear_rings :: "virtqueue \<Rightarrow> mem \<Rightarrow> mem" where
  "clear_rings q m =
     store16 (store16 (store16 (store16 m (vq_avail q) 0) (vq_avail q + 2) 0) (vq_used q) 0) (vq_used q + 2) 0"

definition virtio_blk_init ::
    "'d virtio_hw \<Rightarrow> virtio_area \<Rightarrow> u64 \<Rightarrow> 'd virtio_state \<Rightarrow> int \<times> 'd virtio_state" where
  "virtio_blk_init hw ar base s =
     (let d = vs_hw s; magic = hw_read hw base d; version = hw_read hw (base + 4) d; dev_id = hw_read hw (base + 8) d in
      if magic \<noteq> 0x74726976 \<or> dev_id \<noteq> 2 then (- 1, s)
      else
        (let q = kernel_queue ar;
             dev = (vs_dev s)\<lparr>vd_base := base, vd_version := version\<rparr>;
             d1 = virtio_hello hw base version d;
             status = (if version \<ge> 2 then 0xB else 3);
             d2 = (if version \<ge> 2 then hw_write hw (base + DEV_STATUS) status d1 else d1) in
         if version \<ge> 2 \<and> hw_read hw (base + DEV_STATUS) d2 AND 8 = 0 then (- 1, s\<lparr>vs_hw := d2, vs_dev := dev\<rparr>)
         else
           (let d3 = hw_write hw (base + 0x30) 0 d2 in
            if hw_read hw (base + 0x34) d3 < 8 \<or> version = 0 then (- 1, s\<lparr>vs_hw := d3, vs_dev := dev\<rparr>)
            else
              (let d4 = hw_write hw (base + DEV_STATUS) (status OR 4) (set_queue hw base version q d3);
                   cap_lo = hw_read hw (base + 0x100) d4; cap_hi = hw_read hw (base + 0x104) d4 in
               (0, s\<lparr>vs_mem := clear_rings q (vs_mem s), vs_hw := d4,
                     vs_dev := dev\<lparr>vd_last_used := 0, vd_capacity := push_bit 32 (ucast cap_hi) OR ucast cap_lo\<rparr>\<rparr>)))))"

section \<open>The block layer on the driver\<close>

text \<open>The bases at which the kernel looks when there is no device tree.\<close>

definition blk_scan_fixed :: "(u64 \<Rightarrow> u32) \<Rightarrow> nat \<Rightarrow> u64 list" where
  "blk_scan_fixed rd max_out =
     take max_out (filter (\<lambda>base. rd base = 0x74726976) (map (\<lambda>i. 0x10001000 + of_nat i * 0x1000) (rev [0..<8])))"

definition blk_init ::
    "'d virtio_hw \<Rightarrow> virtio_area \<Rightarrow> u64 \<Rightarrow> u32 \<Rightarrow> node_state list \<Rightarrow> 'd virtio_state \<Rightarrow> (int \<times> 'd virtio_state) option" where
  "blk_init hw ar dtb root_index stack s =
     do { bases \<leftarrow>
            (if dtb \<noteq> 0 then
               do { (r, bases) \<leftarrow> fdt_find_virtio_mmio (vs_mem s) dtb 8 stack;
                    Some (if r = 0 then bases else blk_scan_fixed (\<lambda>a. hw_read hw a (vs_hw s)) 8) }
             else Some (blk_scan_fixed (\<lambda>a. hw_read hw a (vs_hw s)) 8));
          let blk_bases = filter (\<lambda>base. hw_read hw (base + 8) (vs_hw s) = 2) bases in
          if blk_bases = [] then Some (- 1, s)
          else
            (let selected = (if length blk_bases \<le> unat root_index then 0 else unat root_index) in
             case virtio_blk_init hw ar (blk_bases ! selected) s of
               (r, s1) \<Rightarrow> Some (if r \<noteq> 0 then - 1 else 0, s1)) }"

text \<open>
  The caller's buffer is a list of bytes; what has been read so far comes back with the status.  (In
  the code the offset \<^verbatim>\<open>i * 512U\<close> wraps at \<open>2 ^ 23\<close> sectors, which no caller asks for.)
\<close>

fun bounce_read ::
    "'d virtio_hw \<Rightarrow> virtio_area \<Rightarrow> u64 \<Rightarrow> nat \<Rightarrow> 'd virtio_state \<Rightarrow> (int \<times> u8 list \<times> 'd virtio_state) option" where
  "bounce_read hw ar lba 0 s = Some (0, [], s)"
| "bounce_read hw ar lba (Suc n) s =
     do { (r, s1) \<leftarrow> virtio_blk_read hw ar lba (g_bounce ar) 1 s;
          if r \<noteq> 0 then Some (- 1, [], s1)
          else
            do { (r, rest, s2) \<leftarrow> bounce_read hw ar (lba + 1) n s1;
                 Some (r, load_bytes (vs_mem s1) (virtio_pa (g_bounce ar)) 512 @ rest, s2) } }"

fun bounce_write ::
    "'d virtio_hw \<Rightarrow> virtio_area \<Rightarrow> u64 \<Rightarrow> u8 list \<Rightarrow> nat \<Rightarrow> 'd virtio_state \<Rightarrow> (int \<times> 'd virtio_state) option" where
  "bounce_write hw ar lba src 0 s = Some (0, s)"
| "bounce_write hw ar lba src (Suc n) s =
     do { (r, s1) \<leftarrow> virtio_blk_write hw ar lba (g_bounce ar) 1
            (s\<lparr>vs_mem := store_bytes (vs_mem s) (virtio_pa (g_bounce ar)) (take 512 src)\<rparr>);
          if r \<noteq> 0 then Some (- 1, s1) else bounce_write hw ar (lba + 1) (drop 512 src) n s1 }"

definition blk_capacity_sectors :: "'d virtio_state \<Rightarrow> u64" where
  "blk_capacity_sectors s = vd_capacity (vs_dev s)"

section \<open>The driver of the firmware\<close>

text \<open>It runs where memory is not translated, and has rings of 1024 entries.\<close>

definition firmware_queue :: "virtio_area \<Rightarrow> virtqueue" where
  "firmware_queue ar =
     \<lparr>vq_desc = g_vring ar, vq_avail = g_vring ar + 16384, vq_used = g_vring ar + 20480, vq_num = 1024\<rparr>"

text \<open>
  The same start, without a note of the version and the capacity.\<close>

definition fw_virtio_blk_init ::
    "'d virtio_hw \<Rightarrow> virtio_area \<Rightarrow> u64 \<Rightarrow> 'd virtio_state \<Rightarrow> int \<times> 'd virtio_state" where
  "fw_virtio_blk_init hw ar base s =
     (let d = vs_hw s; magic = hw_read hw base d; version = hw_read hw (base + 4) d; dev_id = hw_read hw (base + 8) d in
      if magic \<noteq> 0x74726976 \<or> dev_id \<noteq> 2 then (- 1, s)
      else
        (let q = firmware_queue ar;
             dev = (vs_dev s)\<lparr>vd_base := base\<rparr>;
             d1 = virtio_hello hw base version d;
             status = (if version \<ge> 2 then 0xB else 3);
             d2 = (if version \<ge> 2 then hw_write hw (base + DEV_STATUS) status d1 else d1) in
         if version \<ge> 2 \<and> hw_read hw (base + DEV_STATUS) d2 AND 8 = 0 then (- 1, s\<lparr>vs_hw := d2, vs_dev := dev\<rparr>)
         else
           (let d3 = hw_write hw (base + 0x30) 0 d2 in
            if hw_read hw (base + 0x34) d3 < 1024 \<or> version = 0 then (- 1, s\<lparr>vs_hw := d3, vs_dev := dev\<rparr>)
            else
              (0, s\<lparr>vs_mem := clear_rings q (vs_mem s),
                    vs_hw := hw_write hw (base + DEV_STATUS) (status OR 4) (set_queue hw base version q d3),
                    vs_dev := dev\<lparr>vd_last_used := 0\<rparr>\<rparr>))))"

text \<open>It gives up after 10000000 looks.\<close>

fun fw_wait_used :: "'d virtio_hw \<Rightarrow> u64 \<Rightarrow> u16 \<Rightarrow> nat \<Rightarrow> 'd \<times> mem \<Rightarrow> bool \<times> 'd \<times> mem" where
  "fw_wait_used hw used last_used spins s =
     (let s1 = hw_step hw s in
      if load16 (snd s1) (used + 2) \<noteq> last_used then (True, s1)
      else case spins of 0 \<Rightarrow> (False, s1) | Suc n \<Rightarrow> fw_wait_used hw used last_used n s1)"

definition fw_virtio_blk_read_one ::
    "'d virtio_hw \<Rightarrow> virtio_area \<Rightarrow> nat \<Rightarrow> u64 \<Rightarrow> u64 \<Rightarrow> 'd virtio_state \<Rightarrow> int \<times> 'd virtio_state" where
  "fw_virtio_blk_read_one hw ar spins sector dst s =
     (let q = firmware_queue ar; dev = vs_dev s;
          m1 = virtio_post q (g_req ar) (g_status ar) VIRTIO_BLK_T_IN sector dst (vs_mem s);
          d1 = hw_write hw (vd_base dev + QUEUE_NOTIFY) 0 (vs_hw s) in
      case fw_wait_used hw (vq_used q) (vd_last_used dev) spins (d1, m1) of
        (done, d2, m2) \<Rightarrow>
          if \<not> done then (- 1, s\<lparr>vs_mem := m2, vs_hw := d2\<rparr>)
          else (if m2 (g_status ar) = 0 then 0 else - 1,
                s\<lparr>vs_mem := m2, vs_hw := d2, vs_dev := dev\<lparr>vd_last_used := load16 m2 (vq_used q + 2)\<rparr>\<rparr>))"

fun fw_virtio_read_loop ::
    "'d virtio_hw \<Rightarrow> virtio_area \<Rightarrow> nat \<Rightarrow> u64 \<Rightarrow> u64 \<Rightarrow> u32 \<Rightarrow> nat \<Rightarrow> 'd virtio_state \<Rightarrow> int \<times> 'd virtio_state" where
  "fw_virtio_read_loop hw ar spins sector p i 0 s = (0, s)"
| "fw_virtio_read_loop hw ar spins sector p i (Suc n) s =
     (case fw_virtio_blk_read_one hw ar spins (sector + ucast i) (p + ucast (i * 512)) s of
        (r, s1) \<Rightarrow> if r \<noteq> 0 then (- 1, s1) else fw_virtio_read_loop hw ar spins sector p (i + 1) n s1)"

definition fw_virtio_blk_read ::
    "'d virtio_hw \<Rightarrow> virtio_area \<Rightarrow> u64 \<Rightarrow> u64 \<Rightarrow> u32 \<Rightarrow> 'd virtio_state \<Rightarrow> int \<times> 'd virtio_state" where
  "fw_virtio_blk_read hw ar sector dst cnt s = fw_virtio_read_loop hw ar 10000000 sector dst 0 (unat cnt) s"

end
