(* ===== verification/Virtio_Props.thy ===== *)
theory Virtio_Props
  imports Virtio Firmware_Props
begin

text \<open>
  The driver against a device that behaves as the virtio standard documents: every request is
  answered, and the block layer on top of it acts as the abstract disk of theory \<open>Blk\<close>.
\<close>

section \<open>What the device has to do\<close>

text \<open>
  What the writes to its registers have made of a device: the status, the word of the features selected
  and the features accepted word by word, the queue selected, and of queue 0 its registers and whether
  it is ready; of a legacy device the page size.
\<close>

record vconf =
  c_status :: u32
  c_feat_sel :: u32
  c_feat :: "u32 \<Rightarrow> u32"
  c_qsel :: u32
  c_queue :: "u64 \<Rightarrow> u32"
  c_ready :: u32
  c_page :: u32

abbreviation (input) FEATURES_OK :: u32 where "FEATURES_OK \<equiv> 8"

text \<open>The registers of a queue: size and addresses, or size, alignment and page number.\<close>

definition queue_regs :: "u32 \<Rightarrow> u64 list" where
  "queue_regs version = (if version \<ge> 2 then [0x38, 0x80, 0x84, 0x90, 0x94, 0xa0, 0xa4] else [0x38, 0x3c, 0x40])"

text \<open>
  What one write may make of it.  Where the standard forbids the write or says nothing of it, the
  device may do as it likes: clearing a status bit, features after \<^verbatim>\<open>FEATURES_OK\<close>, a queue that is
  ready, another queue than 0, a register its version does not have.  Zero to the status resets, and
  says nothing of what was selected before; a device that does not take the features keeps
  \<^verbatim>\<open>FEATURES_OK\<close> clear.
\<close>

definition conf_step :: "u32 \<Rightarrow> u64 \<Rightarrow> u32 \<Rightarrow> vconf \<Rightarrow> vconf \<Rightarrow> bool" where
  "conf_step version off v c c' \<longleftrightarrow>
     (if off = DEV_STATUS then
        (if v = 0 then c_status c' = 0 \<and> c_ready c' = 0
         else c_status c AND v = c_status c \<longrightarrow>
           c' = c\<lparr>c_status := v\<rparr> \<or>
           v AND FEATURES_OK \<noteq> 0 \<and> c_status c AND FEATURES_OK = 0 \<and> c' = c\<lparr>c_status := v AND NOT FEATURES_OK\<rparr>)
      else if off = 0x24 then c' = c\<lparr>c_feat_sel := v\<rparr>
      else if off = 0x20 then c_status c AND FEATURES_OK = 0 \<longrightarrow> c' = c\<lparr>c_feat := (c_feat c)(c_feat_sel c := v)\<rparr>
      else if off = 0x30 then c' = c\<lparr>c_qsel := v\<rparr>
      else if off = 0x28 then \<not> version \<ge> 2 \<longrightarrow> c' = c\<lparr>c_page := v\<rparr>
      else if off = 0x44 then version \<ge> 2 \<and> c_qsel c = 0 \<longrightarrow> c' = c\<lparr>c_ready := v\<rparr>
      else if off \<in> set (queue_regs version) then
        c_qsel c = 0 \<and> c_ready c = 0 \<longrightarrow> c' = c\<lparr>c_queue := (c_queue c)(off := v)\<rparr>
      else off = 0x14 \<or> off = QUEUE_NOTIFY \<longrightarrow> c' = c)"

text \<open>
  A device serves its queue once the driver has said that it found it, can drive it and is ready
  (\<^verbatim>\<open>ACKNOWLEDGE\<close>, \<^verbatim>\<open>DRIVER\<close>, \<^verbatim>\<open>DRIVER_OK\<close>); a device of the standard, with the features the driver
  knows, \<^verbatim>\<open>VERSION_1\<close> and no other, agreed upon and the queue ready; a legacy device, with no feature
  and the page of the queue given.
\<close>

definition operational :: "u32 \<Rightarrow> vconf \<Rightarrow> bool" where
  "operational version c \<longleftrightarrow> c_status c AND 7 = 7 \<and> c_feat c 0 = 0 \<and>
     (if version \<ge> 2 then c_status c AND FEATURES_OK \<noteq> 0 \<and> c_feat c 1 = 1 \<and> c_ready c = 1
      else c_queue c 0x40 \<noteq> 0)"

text \<open>
  What a device shows to the outside: what the writes made of it, its sectors, how many requests it
  has taken from the available ring, and whether it was notified.
\<close>

record 'd virtio_view =
  v_conf :: "'d \<Rightarrow> vconf"
  v_disk :: "'d \<Rightarrow> blk_dev"
  v_seen :: "'d \<Rightarrow> u16"
  v_kicked :: "'d \<Rightarrow> bool"

text \<open>Where the device looks for its rings.\<close>

definition device_queue :: "u32 \<Rightarrow> vconf \<Rightarrow> virtqueue" where
  "device_queue version c =
     (let r = c_queue c; num = unat (r 0x38); desc = ucast (r 0x40) * ucast (c_page c) in
      if version \<ge> 2 then
        \<lparr>vq_desc = push_bit 32 (ucast (r 0x84)) OR ucast (r 0x80),
         vq_avail = push_bit 32 (ucast (r 0x94)) OR ucast (r 0x90),
         vq_used = push_bit 32 (ucast (r 0xa4)) OR ucast (r 0xa0), vq_num = num\<rparr>
      else
        \<lparr>vq_desc = desc, vq_avail = desc + of_nat (16 * num),
         vq_used = align_up (desc + of_nat (16 * num + 2 * (3 + num))) (ucast (r 0x3c)), vq_num = num\<rparr>)"

record vreq =
  rq_head :: u64
  rq_type :: u32
  rq_sector :: u64
  rq_buf :: u64
  rq_status :: u64

definition load32 :: "mem \<Rightarrow> u64 \<Rightarrow> u32" where
  "load32 m a = le_word (load_bytes m a 4)"

definition desc_at :: "virtqueue \<Rightarrow> mem \<Rightarrow> u16 \<Rightarrow> u64 \<times> u32 \<times> u16 \<times> u16" where
  "desc_at q m i =
     (let a = vq_desc q + 16 * ucast i in (load64 m a, load32 m (a + 8), load16 m (a + 12), load16 m (a + 14)))"

text \<open>The request that entry \<open>seen\<close> of the available ring names, when it is a well-formed one.\<close>

definition request_at :: "virtqueue \<Rightarrow> u16 \<Rightarrow> mem \<Rightarrow> vreq option" where
  "request_at q seen m =
     (case desc_at q m (load16 m (vq_avail q + 4 + 2 * of_nat (unat seen mod vq_num q))) of (a0, l0, f0, n0) \<Rightarrow>
      case desc_at q m n0 of (a1, l1, f1, n1) \<Rightarrow>
      case desc_at q m n1 of (a2, l2, f2, n2) \<Rightarrow>
        (let ty = load32 m a0 in
         if l0 = 16 \<and> f0 = 1 \<and> l1 = 512 \<and> f1 = (if ty = 0 then 3 else 1) \<and> l2 = 1 \<and> f2 = 2 \<and> ty \<le> 1
         then Some \<lparr>rq_head = a0, rq_type = ty, rq_sector = load64 m (a0 + 8), rq_buf = a1, rq_status = a2\<rparr> else None))"

text \<open>The objects a request uses, in physical memory and apart.\<close>

definition request_area :: "virtqueue \<Rightarrow> u64 \<Rightarrow> u64 \<Rightarrow> u64 \<Rightarrow> bool" where
  "request_area q req st buf \<longleftrightarrow>
     (let rs = [(unat (vq_desc q), 16 * vq_num q), (unat (vq_avail q), 6 + 2 * vq_num q),
                (unat (vq_used q), 6 + 8 * vq_num q), (unat req, 16), (unat st, 1), (unat buf, 512)] in
      2 < vq_num q \<and> (\<forall>(a, n)\<in>set rs. a + n < 2 ^ 64) \<and> sorted_wrt (\<lambda>(a, n) (b, k). apart a n b k) rs)"

text \<open>The answer: only the used ring, the status and, for a read, the buffer change.\<close>

definition answered :: "virtqueue \<Rightarrow> vreq \<Rightarrow> blk_dev \<Rightarrow> mem \<Rightarrow> blk_dev \<Rightarrow> mem \<Rightarrow> bool" where
  "answered q rq K m K' m' \<longleftrightarrow>
     load16 m' (vq_used q + 2) = load16 m (vq_used q + 2) + 1 \<and>
     (\<forall>x. \<not> inside (vq_used q) (6 + 8 * vq_num q) x \<longrightarrow> x \<noteq> rq_status rq \<longrightarrow>
          (rq_type rq = 0 \<longrightarrow> \<not> inside (rq_buf rq) 512 x) \<longrightarrow> m' x = m x) \<and>
     (if rq_type rq = 0 then
        K' = K \<and> (case disk_read K (rq_sector rq) of
                    None \<Rightarrow> m' (rq_status rq) \<noteq> 0
                  | Some bs \<Rightarrow> m' (rq_status rq) = 0 \<and> load_bytes m' (rq_buf rq) 512 = bs)
      else case disk_write (rq_sector rq) (load_bytes m (rq_buf rq) 512) K of
             None \<Rightarrow> m' (rq_status rq) \<noteq> 0 \<and> K' = K
           | Some K1 \<Rightarrow> m' (rq_status rq) = 0 \<and> K' = K1)"

definition sectors_ok :: "blk_dev \<Rightarrow> bool" where
  "sectors_ok K \<longleftrightarrow> (\<forall>l. length (sectors K l) = 512)"

text \<open>
  The contract of the device.  Its registers: the version, and in the status whether the features were
  taken; each write does what \<open>conf_step\<close> says and leaves the disk, and a reset starts the available
  ring anew.  Its service: when it is \<open>operational\<close> and was notified of one request more than it has
  taken, it answers it after some steps; until then the index of the used ring stays.  Of a device
  that is not operational nothing is known.
\<close>

definition virtio_conforms :: "'d virtio_hw \<Rightarrow> 'd virtio_view \<Rightarrow> u64 \<Rightarrow> u32 \<Rightarrow> bool" where
  "virtio_conforms hw vw base version \<longleftrightarrow>
     (\<forall>d. hw_read hw (base + 4) d = version \<and>
          hw_read hw (base + DEV_STATUS) d AND FEATURES_OK = c_status (v_conf vw d) AND FEATURES_OK) \<and>
     (\<forall>d off v. conf_step version off v (v_conf vw d) (v_conf vw (hw_write hw (base + off) v d)) \<and>
        v_disk vw (hw_write hw (base + off) v d) = v_disk vw d \<and>
        v_seen vw (hw_write hw (base + off) v d) = (if off = DEV_STATUS \<and> v = 0 then 0 else v_seen vw d) \<and>
        (off = QUEUE_NOTIFY \<and> v = 0 \<longrightarrow> v_kicked vw (hw_write hw (base + off) v d))) \<and>
     (\<forall>d m rq. let q = device_queue version (v_conf vw d) in
        operational version (v_conf vw d) \<longrightarrow> v_kicked vw d \<longrightarrow>
        load16 m (vq_avail q + 2) = v_seen vw d + 1 \<longrightarrow> request_at q (v_seen vw d) m = Some rq \<longrightarrow>
        request_area q (rq_head rq) (rq_status rq) (rq_buf rq) \<longrightarrow> sectors_ok (v_disk vw d) \<longrightarrow>
        (\<exists>n d' m'. (\<forall>i<n. load16 (snd ((hw_step hw ^^ Suc i) (d, m))) (vq_used q + 2) = load16 m (vq_used q + 2)) \<and>
           (hw_step hw ^^ Suc n) (d, m) = (d', m') \<and> answered q rq (v_disk vw d) m (v_disk vw d') m' \<and>
           v_seen vw d' = v_seen vw d + 1 \<and> v_conf vw d' = v_conf vw d))"

section \<open>A request in memory\<close>

lemma load_frame:
  assumes "a + length bs < 2 ^ 64" and "b + n < 2 ^ 64" and "apart a (length bs) b n"
  shows "load_bytes (store_bytes m (of_nat a) bs) (of_nat b) n = load_bytes m (of_nat b) n"
proof (rule load_bytes_inside)
  have u: "unat (of_nat a :: u64) = a" "unat (of_nat b :: u64) = b" using assms by (simp_all add: unat_addr)
  show "unat (of_nat b :: u64) + n < 2 ^ 64" using assms u by simp
  fix x :: u64 assume "inside (of_nat b) n x"
  then have "\<not> inside (of_nat a) (length bs) x" using assms(3) u by (auto simp: inside_def apart_def)
  then show "store_bytes m (of_nat a) bs x = m x"
    using store_bytes_inside [of "of_nat a" bs m x] assms(1) u by simp
qed

text \<open>A list of stores, the last one last.\<close>

definition stores :: "(nat \<times> u8 list) list \<Rightarrow> mem \<Rightarrow> mem" where
  "stores xs m = fold (\<lambda>(a, bs) m. store_bytes m (of_nat a) bs) xs m"

lemma stores_simps [simp]:
  "stores [] m = m" "stores ((a, bs) # xs) m = stores xs (store_bytes m (of_nat a) bs)"
  by (simp_all add: stores_def)

lemma stores_append: "stores (xs @ ys) m = stores ys (stores xs m)"
  by (simp add: stores_def)

lemma stores_frame:
  "\<forall>(a, bs)\<in>set xs. a + length bs < 2 ^ 64 \<and> apart a (length bs) b n \<Longrightarrow> b + n < 2 ^ 64 \<Longrightarrow>
     load_bytes (stores xs m) (of_nat b) n = load_bytes m (of_nat b) n"
proof (induction xs arbitrary: m)
  case (Cons x xs)
  then show ?case by (cases x) (simp add: load_frame)
qed simp

lemma stores_keep:
  "\<forall>(a, bs)\<in>set xs. a + length bs < 2 ^ 64 \<and> \<not> inside (of_nat a) (length bs) x \<Longrightarrow> stores xs m x = m x"
proof (induction xs arbitrary: m)
  case (Cons y xs)
  obtain a bs where y: "y = (a, bs)" by (cases y)
  have "unat (of_nat a :: u64) + length bs < 2 ^ 64" using Cons.prems by (simp add: y unat_addr)
  then show ?case using Cons by (simp add: y store_bytes_inside)
qed simp

lemma stores_at:
  assumes "\<forall>(b, cs)\<in>set ys. b + length cs < 2 ^ 64 \<and> apart b (length cs) a (length bs)" and "a + length bs < 2 ^ 64"
  shows "bytes_at (stores (xs @ (a, bs) # ys) m) a bs"
proof -
  have "load_bytes (stores ys (store_bytes (stores xs m) (of_nat a) bs)) (of_nat a) (length bs) =
      load_bytes (store_bytes (stores xs m) (of_nat a) bs) (of_nat a) (length bs)"
    by (rule stores_frame) (use assms in auto)
  also have "\<dots> = bs" by (rule load_store_same) (use assms in simp)
  finally show ?thesis by (simp add: stores_append bytes_at_def)
qed

definition desc_bytes :: "u64 \<Rightarrow> u32 \<Rightarrow> u16 \<Rightarrow> u16 \<Rightarrow> u8 list" where
  "desc_bytes addr len flags nxt = le_bytes 8 addr @ le_bytes 4 len @ le_bytes 2 flags @ le_bytes 2 nxt"

lemma length_desc_bytes [simp]: "length (desc_bytes addr len flags nxt) = 16"
  by (simp add: desc_bytes_def)

definition buf_flags :: "u32 \<Rightarrow> u16" where
  "buf_flags ty = (if ty = 0 then 3 else 1)"

definition posted :: "virtqueue \<Rightarrow> u64 \<Rightarrow> u64 \<Rightarrow> u32 \<Rightarrow> u64 \<Rightarrow> u64 \<Rightarrow> (nat \<times> u8 list) list" where
  "posted q req st ty sector buf =
     [(unat req, le_bytes 4 ty @ le_bytes 4 (0 :: u32) @ le_bytes 8 sector), (unat st, [0xff]),
      (unat (vq_desc q), desc_bytes req 16 1 1), (unat (vq_desc q) + 16, desc_bytes buf 512 (buf_flags ty) 2),
      (unat (vq_desc q) + 32, desc_bytes st 1 2 0)]"

definition posted_avail :: "virtqueue \<Rightarrow> u16 \<Rightarrow> (nat \<times> u8 list) list" where
  "posted_avail q idx =
     [(unat (vq_avail q) + 4 + 2 * (unat idx mod vq_num q), le_bytes 2 (0 :: u16)),
      (unat (vq_avail q) + 2, le_bytes 2 (idx + 1))]"

lemma area_facts:
  assumes "request_area q req st buf"
  shows "2 < vq_num q" "unat (vq_desc q) + 16 * vq_num q < 2 ^ 64" "unat (vq_avail q) + 6 + 2 * vq_num q < 2 ^ 64"
    "unat (vq_used q) + 6 + 8 * vq_num q < 2 ^ 64" "unat req + 16 < 2 ^ 64" "unat st + 1 < 2 ^ 64" "unat buf + 512 < 2 ^ 64"
    "apart (unat (vq_desc q)) (16 * vq_num q) (unat (vq_avail q)) (6 + 2 * vq_num q)"
    "apart (unat (vq_desc q)) (16 * vq_num q) (unat (vq_used q)) (6 + 8 * vq_num q)"
    "apart (unat (vq_desc q)) (16 * vq_num q) (unat req) 16" "apart (unat (vq_desc q)) (16 * vq_num q) (unat st) 1"
    "apart (unat (vq_desc q)) (16 * vq_num q) (unat buf) 512"
    "apart (unat (vq_avail q)) (6 + 2 * vq_num q) (unat (vq_used q)) (6 + 8 * vq_num q)"
    "apart (unat (vq_avail q)) (6 + 2 * vq_num q) (unat req) 16" "apart (unat (vq_avail q)) (6 + 2 * vq_num q) (unat st) 1"
    "apart (unat (vq_avail q)) (6 + 2 * vq_num q) (unat buf) 512"
    "apart (unat (vq_used q)) (6 + 8 * vq_num q) (unat req) 16" "apart (unat (vq_used q)) (6 + 8 * vq_num q) (unat st) 1"
    "apart (unat (vq_used q)) (6 + 8 * vq_num q) (unat buf) 512"
    "apart (unat req) 16 (unat st) 1" "apart (unat req) 16 (unat buf) 512" "apart (unat st) 1 (unat buf) 512"
  using assms by (simp_all add: request_area_def Let_def)

lemma apart_within:
  "apart a n b k \<Longrightarrow> a \<le> a' \<Longrightarrow> a' + n' \<le> a + n \<Longrightarrow> b \<le> b' \<Longrightarrow> b' + k' \<le> b + k \<Longrightarrow> apart a' n' b' k'"
  "apart a n b k \<Longrightarrow> a \<le> a' \<Longrightarrow> a' + n' \<le> a + n \<Longrightarrow> b \<le> b' \<Longrightarrow> b' + k' \<le> b + k \<Longrightarrow> apart b' k' a' n'"
  by (auto simp: apart_def)

lemma mod_room:
  assumes "2 < (num :: nat)"
  shows "4 + 2 * (i mod num) + 2 \<le> 6 + 2 * num"
proof -
  have "i mod num < num" using assms by simp
  then show ?thesis by linarith
qed

lemma desc_at_bytes:
  assumes "bytes_at m (unat (vq_desc q) + 16 * unat i) (desc_bytes a l f n)"
  shows "desc_at q m i = (a, l, f, n)"
proof -
  let ?a = "unat (vq_desc q) + 16 * unat i"
  have b: "bytes_at m ?a (le_bytes 8 a)" "bytes_at m (?a + 8) (le_bytes 4 l)"
    "bytes_at m (?a + 12) (le_bytes 2 f)" "bytes_at m (?a + 14) (le_bytes 2 n)"
    using assms by (simp_all add: desc_bytes_def bytes_at_append add.commute add.left_commute)
  have w: "vq_desc q + 16 * ucast i = of_nat ?a" by simp
  show ?thesis
    using b le_round_trip [of 8 a] le_round_trip [of 4 l] le_round_trip [of 2 f] le_round_trip [of 2 n]
    unfolding desc_at_def Let_def w
    by (simp add: load64_def load32_def load16_def bytes_at_def)
qed

lemma virtio_post_stores:
  assumes "request_area q req st buf"
  shows "virtio_post q req st ty sector buf m =
    stores (posted q req st ty sector buf @ posted_avail q (load16 m (vq_avail q + 2))) m"
proof -
  note f = area_facts [OF assms]
  let ?m4 = "stores (posted q req st ty sector buf) m"
  have m4: "virtio_post q req st ty sector buf m = put_avail q ?m4"
    by (simp add: virtio_post_def Let_def put_req_def put_desc_def posted_def desc_bytes_def buf_flags_def)
  have a2: "vq_avail q + 2 = of_nat (unat (vq_avail q) + 2)" by simp
  have "load_bytes ?m4 (of_nat (unat (vq_avail q) + 2)) 2 = load_bytes m (of_nat (unat (vq_avail q) + 2)) 2"
    proof (rule stores_frame)
    show "\<forall>(a, bs)\<in>set (posted q req st ty sector buf).
        a + length bs < 2 ^ 64 \<and> apart a (length bs) (unat (vq_avail q) + 2) 2"
      using f(1,2,5,6,8,14,15) by (simp add: posted_def) (simp add: apart_def; linarith)
  qed (use f(1,3) in simp)
  then have "load16 ?m4 (vq_avail q + 2) = load16 m (vq_avail q + 2)" by (simp only: load16_def a2)
  then show ?thesis
    unfolding m4 stores_append by (simp add: put_avail_def Let_def posted_avail_def store16_def add.commute)
qed

abbreviation stores_apart :: "(nat \<times> u8 list) list \<Rightarrow> bool" where
  "stores_apart xs \<equiv> sorted_wrt (\<lambda>(a, bs) (b, cs). apart a (length bs) b (length cs)) xs \<and>
     (\<forall>(a, bs)\<in>set xs. a + length bs < 2 ^ 64)"

lemma apart_sym: "apart a n b k \<longleftrightarrow> apart b k a n"
  by (auto simp: apart_def)

lemma stores_apart_at:
  assumes "stores_apart xs" and "(a, bs) \<in> set xs"
  shows "bytes_at (stores xs m) a bs"
proof -
  obtain us vs where xs: "xs = us @ (a, bs) # vs" using split_list [OF assms(2)] by blast
  show ?thesis
    unfolding xs by (rule stores_at) (use assms(1) in \<open>auto simp: xs sorted_wrt_append apart_sym\<close>)
qed

lemma posted_apart:
  assumes area: "request_area q req st buf"
  shows "stores_apart (posted q req st ty sector buf @ posted_avail q idx)"
    and "\<forall>(a, bs)\<in>set (posted q req st ty sector buf @ posted_avail q idx).
      apart a (length bs) (unat (vq_used q)) (6 + 8 * vq_num q) \<and> apart a (length bs) (unat buf) 512"
proof -
  note f = area_facts [OF area]
  have k: "unat idx mod vq_num q < vq_num q" using f(1) by simp
  note n = f(1-6) k and sub = apart_within
  show "stores_apart (posted q req st ty sector buf @ posted_avail q idx)"
    unfolding posted_def posted_avail_def
    by (insert n; simp; intro conjI; (simp add: apart_def; fail)?;
        (rule sub [OF f(20)] sub [OF f(8)] sub [OF f(10)] sub [OF f(11)] sub [OF f(14)] sub [OF f(15)]; use k in linarith)?; use k in linarith)
  show "\<forall>(a, bs)\<in>set (posted q req st ty sector buf @ posted_avail q idx).
      apart a (length bs) (unat (vq_used q)) (6 + 8 * vq_num q) \<and> apart a (length bs) (unat buf) 512"
    unfolding posted_def posted_avail_def
    by (insert n; simp; intro conjI; (rule sub [OF f(21)] sub [OF f(22)] sub [OF f(9)] sub [OF f(12)] sub [OF f(13)] sub [OF f(16)] sub [OF f(17)] sub [OF f(18)] sub [OF f(19)]; use k in linarith))
qed

text \<open>What the device finds: the request, one entry more in the available ring, the rest as before.\<close>

lemma desc_at_0:
  assumes "bytes_at m (unat (vq_desc q)) (desc_bytes a l f n)" shows "desc_at q m 0 = (a, l, f, n)"
  by (rule desc_at_bytes) (use assms in simp)

lemma le_at:
  "bytes_at m a (le_bytes 2 (v2 :: u16)) \<Longrightarrow> load16 m (of_nat a) = v2"
  "bytes_at m a (le_bytes 4 (v4 :: u32)) \<Longrightarrow> load32 m (of_nat a) = v4"
  "bytes_at m a (le_bytes 8 (v8 :: u64)) \<Longrightarrow> load64 m (of_nat a) = v8"
  using le_round_trip [of 2 v2] le_round_trip [of 4 v4] le_round_trip [of 8 v8]
  by (simp_all add: load16_def load32_def load64_def bytes_at_def)

lemma virtio_post_request:
  assumes area: "request_area q req st buf" and ty: "ty \<le> 1" and m': "m' = virtio_post q req st ty sector buf m"
    and idx: "idx = load16 m (vq_avail q + 2)"
  shows "request_at q idx m' = Some \<lparr>rq_head = req, rq_type = ty, rq_sector = sector, rq_buf = buf, rq_status = st\<rparr>"
    and "load16 m' (vq_avail q + 2) = idx + 1" and "load16 m' (vq_used q + 2) = load16 m (vq_used q + 2)"
    and "load_bytes m' buf 512 = load_bytes m buf 512"
proof -
  note f = area_facts [OF area]
  let ?xs = "posted q req st ty sector buf @ posted_avail q idx" and ?A = "unat (vq_avail q)" and ?D = "unat (vq_desc q)"
  have m: "m' = stores ?xs m" unfolding m' idx by (rule virtio_post_stores [OF area])
  note ap = posted_apart [OF area, of ty sector idx]
  have at: "bytes_at m' a bs" if "(a, bs) \<in> set ?xs" for a bs
    unfolding m by (rule stores_apart_at [OF ap(1) that])
  have frame: "load_bytes m' (of_nat b) n = load_bytes m (of_nat b) n"
    if "b + n < 2 ^ 64" and "\<forall>(a, bs)\<in>set ?xs. apart a (length bs) b n" for b n
    unfolding m by (rule stores_frame) (use ap(1) that in auto)
  have r: "bytes_at m' (unat req) (le_bytes 4 ty)" "bytes_at m' (unat req + 8) (le_bytes 8 sector)"
    using at [of "unat req" "le_bytes 4 ty @ le_bytes 4 (0 :: u32) @ le_bytes 8 sector"]
    by (simp_all add: posted_def bytes_at_append add.commute)
  have d: "desc_at q m' 0 = (req, 16, 1, 1)" "desc_at q m' 1 = (buf, 512, buf_flags ty, 2)" "desc_at q m' 2 = (st, 1, 2, 0)"
    by (rule desc_at_0 desc_at_bytes, rule at, simp add: posted_def)+
  have w: "vq_avail q + 4 + 2 * of_nat (unat idx mod vq_num q) = of_nat (?A + 4 + 2 * (unat idx mod vq_num q))"
    "vq_avail q + 2 = of_nat (?A + 2)" "req + 8 = of_nat (unat req + 8)" "req = of_nat (unat req)"
    "vq_used q + 2 = of_nat (unat (vq_used q) + 2)" "buf = of_nat (unat buf)" by simp_all
  have h: "load16 m' (vq_avail q + 4 + 2 * of_nat (unat idx mod vq_num q)) = 0"
    unfolding w by (rule le_at, rule at, simp add: posted_avail_def)
  show "load16 m' (vq_avail q + 2) = idx + 1"
    unfolding w by (rule le_at, rule at, simp add: posted_avail_def)
  have "load32 m' req = ty" "load64 m' (req + 8) = sector"
    using le_at(2) [OF r(1)] le_at(3) [OF r(2)] by simp_all
  then show "request_at q idx m' = Some \<lparr>rq_head = req, rq_type = ty, rq_sector = sector, rq_buf = buf, rq_status = st\<rparr>"
    using ty by (simp add: request_at_def h d buf_flags_def)
  have "load_bytes m' (of_nat (unat (vq_used q) + 2)) 2 = load_bytes m (of_nat (unat (vq_used q) + 2)) 2"
  proof (rule frame)
    show "\<forall>(a, bs)\<in>set ?xs. apart a (length bs) (unat (vq_used q) + 2) 2"
    proof clarify
      fix a bs assume "(a, bs) \<in> set ?xs"
      then have "apart a (length bs) (unat (vq_used q)) (6 + 8 * vq_num q)" using ap(2) by fast
      then show "apart a (length bs) (unat (vq_used q) + 2) 2" by (rule apart_within(1)) simp_all
    qed
  qed (use f(4) in simp)
  then show "load16 m' (vq_used q + 2) = load16 m (vq_used q + 2)" unfolding load16_def w by (rule arg_cong)
  have "load_bytes m' (of_nat (unat buf)) 512 = load_bytes m (of_nat (unat buf)) 512"
    by (rule frame) (use ap(2) f(7) in auto)
  then show "load_bytes m' buf 512 = load_bytes m buf 512" by simp
qed

text \<open>The memory a request may change.\<close>

definition touched :: "virtqueue \<Rightarrow> u64 \<Rightarrow> u64 \<Rightarrow> u64 \<Rightarrow> u64 \<Rightarrow> bool" where
  "touched q req st buf x \<longleftrightarrow>
     inside (vq_desc q) (16 * vq_num q) x \<or> inside (vq_avail q) (6 + 2 * vq_num q) x \<or>
     inside (vq_used q) (6 + 8 * vq_num q) x \<or> inside req 16 x \<or> x = st \<or> inside buf 512 x"

lemma virtio_post_keeps:
  assumes area: "request_area q req st buf" and x: "\<not> touched q req st buf x"
  shows "virtio_post q req st ty sector buf m x = m x"
  unfolding virtio_post_stores [OF area]
proof (rule stores_keep)
  note f = area_facts [OF area]
  let ?idx = "load16 m (vq_avail q + 2)"
  obtain k where k: "unat ?idx mod vq_num q = k" "k < vq_num q" using f(1) by simp
  have st: "unat x \<noteq> unat st" using x by (simp add: touched_def word_unat_eq_iff)
  have "\<not> (a \<le> unat x \<and> unat x < a + length bs)"
    if "(a, bs) \<in> set (posted q req st ty sector buf @ posted_avail q ?idx)" for a bs
    using that x st f(1) k(2) by (auto simp: posted_def posted_avail_def touched_def inside_def k(1))
  moreover have "a + length bs < 2 ^ 64" if "(a, bs) \<in> set (posted q req st ty sector buf @ posted_avail q ?idx)" for a bs
    using posted_apart(1) [OF area, of ty sector ?idx] that by auto
  moreover have "unat (of_nat a :: u64) = a" if "a + length bs < 2 ^ 64" for a and bs :: "u8 list"
    using that by (simp add: unat_addr)
  ultimately show "\<forall>(a, bs)\<in>set (posted q req st ty sector buf @ posted_avail q ?idx).
      a + length bs < 2 ^ 64 \<and> \<not> inside (of_nat a) (length bs) x"
    unfolding inside_def by fastforce
qed

section \<open>The answer\<close>

lemma wait_used_after:
  "\<forall>i<n. load16 (snd ((hw_step hw ^^ Suc i) s)) (used + 2) = lu \<Longrightarrow>
   load16 (snd ((hw_step hw ^^ Suc n) s)) (used + 2) \<noteq> lu \<Longrightarrow>
   wait_used hw used lu s = Some ((hw_step hw ^^ Suc n) s)"
proof (induction n arbitrary: s)
  case 0
  then show ?case by (subst wait_used.simps) (simp add: Let_def)
next
  case (Suc n)
  have eq: "(hw_step hw ^^ Suc i) (hw_step hw s) = (hw_step hw ^^ Suc (Suc i)) s" for i
    by (simp only: funpow_Suc_right comp_apply)
  have "load16 (snd (hw_step hw s)) (used + 2) = lu" using Suc.prems(1) by force
  moreover have "wait_used hw used lu (hw_step hw s) = Some ((hw_step hw ^^ Suc n) (hw_step hw s))"
  proof (rule Suc.IH)
    show "\<forall>i<n. load16 (snd ((hw_step hw ^^ Suc i) (hw_step hw s))) (used + 2) = lu"
    proof (intro allI impI)
      fix i assume "i < n"
      then show "load16 (snd ((hw_step hw ^^ Suc i) (hw_step hw s))) (used + 2) = lu"
        unfolding eq using Suc.prems(1) by blast
    qed
  qed (use Suc.prems(2) in \<open>simp only: eq not_False_eq_True\<close>)
  ultimately show ?case by (subst wait_used.simps) (simp only: Let_def eq if_True simp_thms)
qed

text \<open>What a request did.\<close>

definition request_done :: "u32 \<Rightarrow> u64 \<Rightarrow> u64 \<Rightarrow> u64 \<Rightarrow> mem \<Rightarrow> blk_dev \<Rightarrow> mem \<Rightarrow> blk_dev \<Rightarrow> bool" where
  "request_done ty sector st buf m K m' K' \<longleftrightarrow>
     (if ty = 0 then
        K' = K \<and> (case disk_read K sector of
                    None \<Rightarrow> m' st \<noteq> 0 | Some bs \<Rightarrow> m' st = 0 \<and> load_bytes m' buf 512 = bs)
      else case disk_write sector (load_bytes m buf 512) K of
             None \<Rightarrow> m' st \<noteq> 0 \<and> K' = K | Some K1 \<Rightarrow> m' st = 0 \<and> K' = K1)"

definition device_runs :: "'d virtio_view \<Rightarrow> u32 \<Rightarrow> virtqueue \<Rightarrow> 'd \<Rightarrow> mem \<Rightarrow> bool" where
  "device_runs vw version q d m \<longleftrightarrow>
     operational version (v_conf vw d) \<and> device_queue version (v_conf vw d) = q \<and>
     load16 m (vq_avail q + 2) = v_seen vw d \<and> sectors_ok (v_disk vw d)"

lemma request_answered:
  assumes conf: "virtio_conforms hw vw base version" and area: "request_area q req st buf" and ty: "ty \<le> 1"
    and runs: "device_runs vw version q d m"
    and m1: "m1 = virtio_post q req st ty sector buf m" and d1_def: "d1 = hw_write hw (base + QUEUE_NOTIFY) 0 d"
  shows "\<exists>n d' m'. (\<forall>i<n. load16 (snd ((hw_step hw ^^ Suc i) (d1, m1))) (vq_used q + 2) = load16 m (vq_used q + 2)) \<and>
    (hw_step hw ^^ Suc n) (d1, m1) = (d', m') \<and> load16 m' (vq_used q + 2) = load16 m (vq_used q + 2) + 1 \<and>
    device_runs vw version q d' m' \<and> request_done ty sector st buf m (v_disk vw d) m' (v_disk vw d') \<and>
    (\<forall>x. \<not> touched q req st buf x \<longrightarrow> m' x = m x)"
proof -
  let ?rq = "\<lparr>rq_head = req, rq_type = ty, rq_sector = sector, rq_buf = buf, rq_status = st\<rparr>"
  note f = area_facts [OF area] and p = virtio_post_request [OF area ty m1 refl]
  have d1: "v_conf vw d1 = v_conf vw d" "v_disk vw d1 = v_disk vw d"
    "v_seen vw d1 = v_seen vw d" "v_kicked vw d1"
    using conf [unfolded virtio_conforms_def, THEN conjunct2, THEN conjunct1, rule_format, of QUEUE_NOTIFY 0 d]
    by (simp_all add: d1_def conf_step_def queue_regs_def split: if_splits)
  have q1: "device_queue version (v_conf vw d1) = q" using runs by (simp add: device_runs_def d1(1))
  have r: "operational version (v_conf vw d1)" "load16 m (vq_avail q + 2) = v_seen vw d"
    using runs by (simp_all add: device_runs_def d1(1))
  note serve = conf [unfolded virtio_conforms_def, THEN conjunct2, THEN conjunct2, rule_format, of d1 m1 ?rq,
      unfolded Let_def q1, rule_format, OF r(1) d1(4)]
  have dok: "sectors_ok (v_disk vw d1)" using runs by (simp add: device_runs_def d1(2))
  have "load16 m1 (vq_avail q + 2) = v_seen vw d1 + 1" "request_at q (v_seen vw d1) m1 = Some ?rq"
    using p(1,2) r(2) d1(3) by simp_all
  from serve [OF this] area dok obtain n d' m' where n:
      "\<forall>i<n. load16 (snd ((hw_step hw ^^ Suc i) (d1, m1))) (vq_used q + 2) = load16 m1 (vq_used q + 2)"
      "(hw_step hw ^^ Suc n) (d1, m1) = (d', m')" "answered q ?rq (v_disk vw d1) m1 (v_disk vw d') m'"
      "v_seen vw d' = v_seen vw d1 + 1" "v_conf vw d' = v_conf vw d1"
    by (auto simp only: vreq.simps)
  note a = n(3) [unfolded answered_def vreq.simps]
  have out: "m' x = m1 x" if "\<not> inside (vq_used q) (6 + 8 * vq_num q) x" "x \<noteq> st" "\<not> inside buf 512 x" for x
    using a that by blast
  have avail: "load16 m' (vq_avail q + 2) = load16 m1 (vq_avail q + 2)"
  proof -
    have u: "unat (vq_avail q + 2) = unat (vq_avail q) + 2"
      using f(3) by (subst unat_plus_small) simp_all
    have "load_bytes m' (vq_avail q + 2) 2 = load_bytes m1 (vq_avail q + 2) 2"
    proof (rule load_bytes_inside)
      fix x assume x: "inside (vq_avail q + 2) 2 x"
      show "m' x = m1 x"
        by (rule out) (use x u f(13,15,16) in \<open>auto simp: inside_def apart_def\<close>)
    qed (use u f(3) in simp)
    then show ?thesis by (simp add: load16_def)
  qed
  have dn: "request_done ty sector st buf m (v_disk vw d) m' (v_disk vw d')"
    unfolding request_done_def using a [THEN conjunct2, THEN conjunct2] unfolding p(4) d1(2) .
  have "sectors_ok (v_disk vw d')"
    using dn dok d1(2) by (auto simp: request_done_def disk_write_def sectors_ok_def split: if_splits option.splits)
  then have "device_runs vw version q d' m'"
    using r(1) q1 avail p(2) r(2) d1(3) n(4,5) by (simp add: device_runs_def)
  moreover have "load16 m' (vq_used q + 2) = load16 m (vq_used q + 2) + 1" using a p(3) by simp
  moreover note dn
  moreover have "m' x = m x" if "\<not> touched q req st buf x" for x
    using out [of x] virtio_post_keeps [OF area that, of ty sector m] that
    unfolding m1 touched_def by metis
  ultimately show ?thesis using n(1,2) p(3) by metis
qed

section \<open>One request of the kernel\<close>

definition area_ok :: "virtio_area \<Rightarrow> bool" where
  "area_ok ar \<longleftrightarrow>
     request_area (kernel_queue ar) (virtio_pa (g_req ar)) (virtio_pa (g_status ar)) (virtio_pa (g_bounce ar)) \<and>
     unat (virtio_pa (g_vring ar)) mod 4096 = 0 \<and> 0 < unat (virtio_pa (g_vring ar)) \<and> unat (virtio_pa (g_vring ar)) < 2 ^ 44"

definition virtio_ready ::
    "'d virtio_view \<Rightarrow> u64 \<Rightarrow> u32 \<Rightarrow> virtio_area \<Rightarrow> 'd virtio_state \<Rightarrow> bool" where
  "virtio_ready vw base version ar s \<longleftrightarrow>
     vd_base (vs_dev s) = base \<and> device_runs vw version (kernel_queue ar) (vs_hw s) (vs_mem s) \<and>
     load16 (vs_mem s) (vq_used (kernel_queue ar) + 2) = vd_last_used (vs_dev s)"

text \<open>Memory outside the objects of the driver stays.\<close>

definition driver_frame :: "virtio_area \<Rightarrow> mem \<Rightarrow> mem \<Rightarrow> bool" where
  "driver_frame ar m m' \<longleftrightarrow>
     (\<forall>x. \<not> touched (kernel_queue ar) (virtio_pa (g_req ar)) (virtio_pa (g_status ar)) (virtio_pa (g_bounce ar)) x \<longrightarrow>
          m' x = m x)"

lemma driver_frame_trans: "driver_frame ar m1 m2 \<Longrightarrow> driver_frame ar m2 m3 \<Longrightarrow> driver_frame ar m1 m3"
  by (simp add: driver_frame_def)

lemma driver_frame_refl [simp]: "driver_frame ar m m"
  by (simp add: driver_frame_def)

lemma rw_one_answered:
  assumes conf: "virtio_conforms hw vw base version" and area: "area_ok ar" and ty: "ty \<le> 1"
    and ready: "virtio_ready vw base version ar s"
  defines "st \<equiv> virtio_pa (g_status ar)" and "buf \<equiv> virtio_pa (g_bounce ar)"
  shows "\<exists>s'. virtio_blk_rw_one hw ar ty sector (g_bounce ar) s = Some (if vs_mem s' st = 0 then 0 else - 1, s') \<and>
    virtio_ready vw base version ar s' \<and> driver_frame ar (vs_mem s) (vs_mem s') \<and>
    request_done ty sector st buf (vs_mem s) (v_disk vw (vs_hw s)) (vs_mem s') (v_disk vw (vs_hw s'))"
proof -
  let ?q = "kernel_queue ar" and ?req = "virtio_pa (g_req ar)"
  let ?m1 = "virtio_post ?q ?req st ty sector buf (vs_mem s)"
  let ?d1 = "hw_write hw (base + QUEUE_NOTIFY) 0 (vs_hw s)"
  have ra: "request_area ?q ?req st buf" using area by (simp add: area_ok_def st_def buf_def)
  have r: "device_runs vw version ?q (vs_hw s) (vs_mem s)" "vd_base (vs_dev s) = base"
    "load16 (vs_mem s) (vq_used ?q + 2) = vd_last_used (vs_dev s)"
    using ready by (simp_all add: virtio_ready_def)
  obtain n d' m' where n:
    "\<forall>i<n. load16 (snd ((hw_step hw ^^ Suc i) (?d1, ?m1))) (vq_used ?q + 2) = vd_last_used (vs_dev s)"
    "(hw_step hw ^^ Suc n) (?d1, ?m1) = (d', m')" "load16 m' (vq_used ?q + 2) = vd_last_used (vs_dev s) + 1"
    "device_runs vw version ?q d' m'"
    "request_done ty sector st buf (vs_mem s) (v_disk vw (vs_hw s)) m' (v_disk vw d')"
    "\<forall>x. \<not> touched ?q ?req st buf x \<longrightarrow> m' x = vs_mem s x"
    using request_answered [OF conf ra ty r(1) refl refl, of sector] r(3) by metis
  have "wait_used hw (vq_used ?q) (vd_last_used (vs_dev s)) (?d1, ?m1) = Some (d', m')"
    using wait_used_after [OF n(1)] n(2,3) by simp
  then have "virtio_blk_rw_one hw ar ty sector (g_bounce ar) s =
      Some (if m' st = 0 then 0 else - 1, s\<lparr>vs_mem := m', vs_hw := d',
        vs_dev := (vs_dev s)\<lparr>vd_last_used := load16 m' (vq_used ?q + 2)\<rparr>, vs_sie := vs_sie s\<rparr>)"
    by (simp add: virtio_blk_rw_one_def Let_def r(2) st_def buf_def)
  then show ?thesis
    using n(4,5,6) r(2)
    by (intro exI [of _ "s\<lparr>vs_mem := m', vs_hw := d',
        vs_dev := (vs_dev s)\<lparr>vd_last_used := load16 m' (vq_used ?q + 2)\<rparr>, vs_sie := vs_sie s\<rparr>"])
      (simp add: virtio_ready_def driver_frame_def st_def buf_def)
qed

lemma virtio_read_1:
  assumes conf: "virtio_conforms hw vw base version" and area: "area_ok ar"
    and ready: "virtio_ready vw base version ar s"
  shows "\<exists>s'. virtio_blk_read hw ar sector (g_bounce ar) 1 s =
      Some (case disk_read (v_disk vw (vs_hw s)) sector of None \<Rightarrow> - 1 | Some bs \<Rightarrow> 0, s') \<and>
    virtio_ready vw base version ar s' \<and> driver_frame ar (vs_mem s) (vs_mem s') \<and>
    v_disk vw (vs_hw s') = v_disk vw (vs_hw s) \<and>
    (\<forall>bs. disk_read (v_disk vw (vs_hw s)) sector = Some bs \<longrightarrow>
       load_bytes (vs_mem s') (virtio_pa (g_bounce ar)) 512 = bs)"
  using rw_one_answered [OF conf area _ ready, of 0 sector]
  by (auto simp: virtio_blk_read_def request_done_def split: option.splits)

lemma virtio_write_1:
  assumes conf: "virtio_conforms hw vw base version" and area: "area_ok ar"
    and ready: "virtio_ready vw base version ar s"
    and new_def: "new = disk_write sector (load_bytes (vs_mem s) (virtio_pa (g_bounce ar)) 512) (v_disk vw (vs_hw s))"
  shows "\<exists>s'. virtio_blk_write hw ar sector (g_bounce ar) 1 s =
      Some (case new of None \<Rightarrow> - 1 | Some K \<Rightarrow> 0, s') \<and>
    virtio_ready vw base version ar s' \<and> driver_frame ar (vs_mem s) (vs_mem s') \<and>
    v_disk vw (vs_hw s') = (case new of None \<Rightarrow> v_disk vw (vs_hw s) | Some K \<Rightarrow> K)"
  using rw_one_answered [OF conf area _ ready, of 1 sector]
  by (auto simp: virtio_blk_write_def request_done_def new_def split: option.splits)

section \<open>The block layer\<close>

lemma bounce_read_refines:
  assumes conf: "virtio_conforms hw vw base version" and area: "area_ok ar"
  shows "virtio_ready vw base version ar s \<Longrightarrow> \<exists>s'.
    bounce_read hw ar lba n s =
      Some (fst (blk_read_loop (v_disk vw (vs_hw s)) lba n), snd (blk_read_loop (v_disk vw (vs_hw s)) lba n), s') \<and>
    virtio_ready vw base version ar s' \<and> driver_frame ar (vs_mem s) (vs_mem s') \<and>
    v_disk vw (vs_hw s') = v_disk vw (vs_hw s)"
proof (induction n arbitrary: lba s)
  case (Suc n)
  let ?K = "v_disk vw (vs_hw s)"
  obtain s1 where s1: "virtio_blk_read hw ar lba (g_bounce ar) 1 s =
        Some (case disk_read ?K lba of None \<Rightarrow> - 1 | Some bs \<Rightarrow> 0, s1)"
      "virtio_ready vw base version ar s1" "driver_frame ar (vs_mem s) (vs_mem s1)" "v_disk vw (vs_hw s1) = ?K"
      "\<forall>bs. disk_read ?K lba = Some bs \<longrightarrow> load_bytes (vs_mem s1) (virtio_pa (g_bounce ar)) 512 = bs"
    using virtio_read_1 [OF conf area Suc.prems] by blast
  show ?case
  proof (cases "disk_read ?K lba")
    case None
    then show ?thesis using s1 by simp
  next
    case (Some bs)
    obtain s2 where "bounce_read hw ar (lba + 1) n s1 =
        Some (fst (blk_read_loop ?K (lba + 1) n), snd (blk_read_loop ?K (lba + 1) n), s2)"
      "virtio_ready vw base version ar s2" "driver_frame ar (vs_mem s1) (vs_mem s2)" "v_disk vw (vs_hw s2) = ?K"
      using Suc.IH [OF s1(2), of "lba + 1"] s1(4) by auto
    then show ?thesis
      using Some s1 driver_frame_trans by (auto simp: split_beta)
  qed
qed simp

lemma bounce_put_ready:
  assumes area: "area_ok ar" and "virtio_ready vw base version ar s" and len: "length bs = 512"
  defines "s1 \<equiv> s\<lparr>vs_mem := store_bytes (vs_mem s) (virtio_pa (g_bounce ar)) bs\<rparr>"
  shows "virtio_ready vw base version ar s1" "driver_frame ar (vs_mem s) (vs_mem s1)"
    "load_bytes (vs_mem s1) (virtio_pa (g_bounce ar)) 512 = bs"
proof -
  let ?q = "kernel_queue ar" and ?b = "virtio_pa (g_bounce ar)"
  have ra: "request_area ?q (virtio_pa (g_req ar)) (virtio_pa (g_status ar)) ?b" using area by (simp add: area_ok_def)
  note f = area_facts [OF ra]
  have keep: "store_bytes (vs_mem s) ?b bs x = vs_mem s x" if "\<not> inside ?b 512 x" for x
    using store_bytes_inside [of ?b bs "vs_mem s" x] f(7) len that by simp
  have l16: "load16 (vs_mem s1) (a + 2) = load16 (vs_mem s) (a + 2)"
    if "apart (unat a) k (unat ?b) 512" "4 \<le> k" "unat a + k < 2 ^ 64" for a k
  proof -
    have u: "unat (a + 2) = unat a + 2" using that by (subst unat_plus_small) simp_all
    have "load_bytes (vs_mem s1) (a + 2) 2 = load_bytes (vs_mem s) (a + 2) 2"
    proof (rule load_bytes_inside)
      fix x assume "inside (a + 2) 2 x"
      then have "\<not> inside ?b 512 x" using that u by (auto simp: inside_def apart_def)
      then show "vs_mem s1 x = vs_mem s x" by (simp add: s1_def keep)
    qed (use that u in simp)
    then show ?thesis by (simp add: load16_def)
  qed
  have "load16 (vs_mem s1) (vq_avail ?q + 2) = load16 (vs_mem s) (vq_avail ?q + 2)"
    by (rule l16 [OF f(16)]) (use f(1,3) in simp_all)
  moreover have "load16 (vs_mem s1) (vq_used ?q + 2) = load16 (vs_mem s) (vq_used ?q + 2)"
    by (rule l16 [OF f(19)]) (use f(1,4) in simp_all)
  ultimately show "virtio_ready vw base version ar s1"
    using assms(2) by (simp add: virtio_ready_def device_runs_def s1_def)
  show "driver_frame ar (vs_mem s) (vs_mem s1)" by (simp add: driver_frame_def touched_def s1_def keep)
  show "load_bytes (vs_mem s1) ?b 512 = bs"
    using load_store_same [of bs "vs_mem s" ?b] len by (simp add: s1_def)
qed

lemma bounce_write_refines:
  assumes conf: "virtio_conforms hw vw base version" and area: "area_ok ar"
  shows "virtio_ready vw base version ar s \<Longrightarrow> 512 * n \<le> length src \<Longrightarrow> \<exists>s'.
    bounce_write hw ar lba src n s = Some (fst (blk_write_loop lba src n (v_disk vw (vs_hw s))), s') \<and>
    virtio_ready vw base version ar s' \<and> driver_frame ar (vs_mem s) (vs_mem s') \<and>
    v_disk vw (vs_hw s') = snd (blk_write_loop lba src n (v_disk vw (vs_hw s)))"
proof (induction n arbitrary: lba src s)
  case (Suc n)
  let ?s0 = "s\<lparr>vs_mem := store_bytes (vs_mem s) (virtio_pa (g_bounce ar)) (take 512 src)\<rparr>" and ?K = "v_disk vw (vs_hw s)"
  have len: "length (take 512 src) = 512" using Suc.prems(2) by simp
  note s0 = bounce_put_ready [OF area Suc.prems(1) len]
  let ?new = "disk_write lba (take 512 src) ?K"
  have hw0: "vs_hw ?s0 = vs_hw s" by simp
  obtain s1 where s1: "virtio_blk_write hw ar lba (g_bounce ar) 1 ?s0 = Some (case ?new of None \<Rightarrow> - 1 | Some K \<Rightarrow> 0, s1)"
      "virtio_ready vw base version ar s1" "driver_frame ar (vs_mem ?s0) (vs_mem s1)"
      "v_disk vw (vs_hw s1) = (case ?new of None \<Rightarrow> ?K | Some K \<Rightarrow> K)"
    using virtio_write_1 [OF conf area s0(1) refl, of lba] unfolding s0(3) hw0 by blast
  have fr: "driver_frame ar (vs_mem s) (vs_mem s1)" using driver_frame_trans [OF s0(2) s1(3)] .
  show ?case
  proof (cases ?new)
    case None
    then show ?thesis using s1(1,2,4) fr by simp
  next
    case (Some K)
    obtain s2 where "bounce_write hw ar (lba + 1) (drop 512 src) n s1 =
        Some (fst (blk_write_loop (lba + 1) (drop 512 src) n K), s2)"
      "virtio_ready vw base version ar s2" "driver_frame ar (vs_mem s1) (vs_mem s2)"
      "v_disk vw (vs_hw s2) = snd (blk_write_loop (lba + 1) (drop 512 src) n K)"
    proof -
      have "512 * n \<le> length (drop 512 src)" using Suc.prems(2) by simp
      then show ?thesis using Suc.IH [OF s1(2), of "drop 512 src" "lba + 1"] s1(4) Some that by auto
    qed
    then show ?thesis using Some s1(1) driver_frame_trans [OF fr] by auto
  qed
qed simp

section \<open>Starting the device\<close>

fun conf_steps :: "u32 \<Rightarrow> (u64 \<times> u32) list \<Rightarrow> vconf \<Rightarrow> vconf \<Rightarrow> bool" where
  "conf_steps version [] c c' \<longleftrightarrow> c' = c"
| "conf_steps version (w # ws) c c' \<longleftrightarrow> (\<exists>c1. conf_step version (fst w) (snd w) c c1 \<and> conf_steps version ws c1 c')"

lemma mmio_writes_view:
  assumes "virtio_conforms hw vw base version"
  shows "conf_steps version ws (v_conf vw d) (v_conf vw (mmio_writes hw base ws d)) \<and>
    v_disk vw (mmio_writes hw base ws d) = v_disk vw d \<and>
    v_seen vw (mmio_writes hw base ws d) = (if (DEV_STATUS, 0) \<in> set ws then 0 else v_seen vw d)"
proof (induction ws arbitrary: d)
  case (Cons w ws)
  obtain off v where w: "w = (off, v)" by (cases w)
  have eq: "mmio_writes hw base (w # ws) d = mmio_writes hw base ws (hw_write hw (base + off) v d)"
    by (simp add: mmio_writes_def w)
  have v: "conf_step version off v (v_conf vw d) (v_conf vw (hw_write hw (base + off) v d))"
    "v_disk vw (hw_write hw (base + off) v d) = v_disk vw d"
    "v_seen vw (hw_write hw (base + off) v d) = (if off = DEV_STATUS \<and> v = 0 then 0 else v_seen vw d)"
    using assms by (simp_all add: virtio_conforms_def)
  show ?case unfolding eq using Cons.IH [of "hw_write hw (base + off) v d"] v by (auto simp: w)
qed (simp add: mmio_writes_def)

lemma halves: "push_bit 32 (ucast (ucast (drop_bit 32 x) :: u32)) OR ucast (ucast x :: u32) = (x :: u64)"
  by (rule bit_word_eqI) (auto simp: bit_simps)

lemma page_number:
  assumes "unat x mod 4096 = 0" and "unat x < 2 ^ 44"
  shows "ucast (ucast (drop_bit 12 x) :: u32) * 4096 = (x :: u64)"
proof -
  have d: "unat (drop_bit 12 x) = unat x div 4096"
    by (simp add: drop_bit_eq_div unat_div)
  have "unat x div 4096 < 2 ^ 32" using assms(2) by (simp add: less_mult_imp_div_less)
  then have "unat (ucast (ucast (drop_bit 12 x) :: u32) :: u64) = unat x div 4096"
    using d by (simp add: unsigned_ucast_eq unsigned_take_bit_eq take_bit_nat_eq_self)
  moreover have "unat x div 4096 * 4096 = unat x" using assms(1) by auto
  ultimately have "unat (ucast (ucast (drop_bit 12 x) :: u32) * 4096 :: u64) = unat x"
    by (subst unat_mult_lem [THEN iffD1]) (simp_all add: unsigned_less [where 'b = 64, of x, simplified])
  then show ?thesis by (simp add: word_unat_eq_iff)
qed

lemma legacy_used:
  assumes "unat x mod 4096 = 0" and "unat x + k + 8192 < 2 ^ 64" and "4096 * j < k + 4096" "k \<le> 4096 * j"
  shows "align_up (x + of_nat k) 4096 = (x :: u64) + of_nat (4096 * j)"
proof -
  have w: "x + of_nat n = of_nat (unat x + n)" for n by simp
  have u: "unat (x + of_nat k) = unat x + k" "unat (x + of_nat (4096 * j)) = unat x + 4096 * j"
    unfolding w by (rule unat_addr, use assms in linarith)+
  have a: "unat (align_up (x + of_nat k) 4096) mod 4096 = 0" "unat x + k \<le> unat (align_up (x + of_nat k) 4096)"
    "unat (align_up (x + of_nat k) 4096) < unat x + k + 4096"
    using align_up_page [of "x + of_nat k"] assms(2) u(1) by (simp_all add: page_aligned_unat)
  obtain p r where p: "unat x = 4096 * p" "unat (align_up (x + of_nat k) 4096) = 4096 * r"
    using assms(1) a(1) by (auto elim!: dvdE simp: mod_eq_0_iff_dvd)
  moreover from this have "p + j < r + 1" "r < p + j + 1" using a(2,3) assms(3,4) by linarith+
  ultimately have "unat (align_up (x + of_nat k) 4096) = unat x + 4096 * j" by simp
  then show ?thesis using u(2) by (simp only: word_unat_eq_iff)
qed

text \<open>Rings of \<open>num\<close> entries that take \<open>j\<close> pages before the used ring.\<close>

lemma page_number_pos:
  fixes x :: u64
  assumes "unat x mod 4096 = 0" and "unat x < 2 ^ 44" and "0 < unat x"
  shows "(ucast (drop_bit 12 x) :: u32) \<noteq> 0"
  using page_number [OF assms(1,2)] assms(3) by auto

lemma set_queue_view:
  assumes conf: "virtio_conforms hw vw base version"
    and x: "unat x mod 4096 = 0" "unat x < 2 ^ 44" "0 < unat x"
    and q: "q = \<lparr>vq_desc = x, vq_avail = x + of_nat (16 * num), vq_used = x + of_nat (4096 * j), vq_num = num\<rparr>"
    and num: "num < 2 ^ 16" "4096 * j < 16 * num + 2 * (3 + num) + 4096" "16 * num + 2 * (3 + num) \<le> 4096 * j"
    and d: "c_qsel (v_conf vw d) = 0" "c_ready (v_conf vw d) = 0"
  defines "c \<equiv> v_conf vw (set_queue hw base version q d)"
  shows "device_queue version c = q \<and> c_status c = c_status (v_conf vw d) \<and> c_feat c = c_feat (v_conf vw d) \<and>
    (if version \<ge> 2 then c_ready c = 1 else c_queue c 0x40 \<noteq> 0)"
proof -
  have n: "unat (of_nat num :: u32) = num" using num(1) by (simp add: unat_of_nat)
  show ?thesis
  proof (cases "version \<ge> 2")
    case True
    let ?ws = "[(0x44, 0), (0x38, of_nat (vq_num q)),
           (0x80, ucast (vq_desc q)), (0x84, ucast (drop_bit 32 (vq_desc q))),
           (0x90, ucast (vq_avail q)), (0x94, ucast (drop_bit 32 (vq_avail q))),
           (0xa0, ucast (vq_used q)), (0xa4, ucast (drop_bit 32 (vq_used q))), (0x44, 1)] :: (u64 \<times> u32) list"
    have s: "set_queue hw base version q d = mmio_writes hw base ?ws d" using True by (simp add: set_queue_def)
    have "conf_steps version ?ws (v_conf vw d) c"
      using mmio_writes_view [OF conf, of ?ws d] unfolding c_def s by blast
    then have c: "c = (v_conf vw d)\<lparr>c_ready := 1, c_queue := (c_queue (v_conf vw d))(0x38 := of_nat (vq_num q),
        0x80 := ucast (vq_desc q), 0x84 := ucast (drop_bit 32 (vq_desc q)), 0x90 := ucast (vq_avail q),
        0x94 := ucast (drop_bit 32 (vq_avail q)), 0xa0 := ucast (vq_used q), 0xa4 := ucast (drop_bit 32 (vq_used q)))\<rparr>"
      using True d by (simp add: conf_step_def queue_regs_def)
    show ?thesis
      using True by (simp add: c device_queue_def Let_def halves) (simp add: q n)
  next
    case False
    let ?ws = "[(0x28, 4096), (0x38, of_nat (vq_num q)), (0x3c, 4096), (0x40, ucast (drop_bit 12 (vq_desc q)))] :: (u64 \<times> u32) list"
    have s: "set_queue hw base version q d = mmio_writes hw base ?ws d" using False by (simp add: set_queue_def)
    have "conf_steps version ?ws (v_conf vw d) c"
      using mmio_writes_view [OF conf, of ?ws d] unfolding c_def s by blast
    then have c: "c = (v_conf vw d)\<lparr>c_page := 4096, c_queue := (c_queue (v_conf vw d))(0x38 := of_nat (vq_num q),
        0x3c := 4096, 0x40 := ucast (drop_bit 12 (vq_desc q)))\<rparr>"
      using False d by (simp add: conf_step_def queue_regs_def)
    have "align_up (x + of_nat (16 * num + 2 * (3 + num))) 4096 = x + of_nat (4096 * j)"
      by (rule legacy_used) (use x num in simp_all)
    moreover have r: "unat (c_queue c 0x38) = num" "ucast (c_queue c 0x40) * ucast (c_page c) = x" "c_queue c 0x3c = 4096"
      using page_number [OF x(1,2)] n by (simp_all add: c q)
    ultimately have "device_queue version c = q"
      using False unfolding device_queue_def Let_def r by (simp add: q)
    then show ?thesis using False page_number_pos [OF x] by (simp add: c) (simp add: q)
  qed
qed

lemma kernel_queue_view:
  assumes "virtio_conforms hw vw base version" and "area_ok ar"
    and "c_qsel (v_conf vw d) = 0" "c_ready (v_conf vw d) = 0"
  defines "c \<equiv> v_conf vw (set_queue hw base version (kernel_queue ar) d)"
  shows "device_queue version c = kernel_queue ar \<and> c_status c = c_status (v_conf vw d) \<and> c_feat c = c_feat (v_conf vw d) \<and>
    (if version \<ge> 2 then c_ready c = 1 else c_queue c 0x40 \<noteq> 0)"
  unfolding c_def
  by (rule set_queue_view [where num = 8 and j = 1 and x = "virtio_pa (g_vring ar)"])
    (use assms in \<open>simp_all add: area_ok_def kernel_queue_def\<close>)

lemma clear_rings_zero:
  assumes "request_area q req st buf"
  shows "load16 (clear_rings q m) (vq_avail q + 2) = 0" "load16 (clear_rings q m) (vq_used q + 2) = 0"
    and "\<not> touched q req st buf x \<Longrightarrow> clear_rings q m x = m x"
proof -
  note f = area_facts [OF assms]
  let ?A = "unat (vq_avail q)" and ?U = "unat (vq_used q)"
  let ?xs = "[(?A, le_bytes 2 (0 :: u16)), (?A + 2, le_bytes 2 (0 :: u16)), (?U, le_bytes 2 (0 :: u16)), (?U + 2, le_bytes 2 (0 :: u16))]"
  have eq: "clear_rings q m = stores ?xs m" by (simp add: clear_rings_def store16_def add.commute)
  have ap: "stores_apart ?xs" using f(1,3,4,13) by (simp add: apart_def) linarith
  have w: "vq_avail q + 2 = of_nat (?A + 2)" "vq_used q + 2 = of_nat (?U + 2)" by simp_all
  show "load16 (clear_rings q m) (vq_avail q + 2) = 0"
    unfolding eq w by (rule le_at, rule stores_apart_at [OF ap]) simp
  show "load16 (clear_rings q m) (vq_used q + 2) = 0"
    unfolding eq w by (rule le_at, rule stores_apart_at [OF ap]) simp
  assume x: "\<not> touched q req st buf x"
  show "clear_rings q m x = m x"
    unfolding eq
  proof (rule stores_keep)
    have u: "unat (of_nat (?A + 2) :: u64) = ?A + 2" "unat (of_nat (?U + 2) :: u64) = ?U + 2"
      by (rule unat_addr, use f(1,3,4) in simp)+
    show "\<forall>(a, bs)\<in>set ?xs. a + length bs < 2 ^ 64 \<and> \<not> inside (of_nat a) (length bs) x"
      using x f(1,3,4) u by (auto simp: touched_def inside_def simp del: of_nat_add)
  qed
qed

text \<open>A start that answers 0 leaves the device and the driver in step.\<close>

lemma hello_view:
  assumes conf: "virtio_conforms hw vw base version"
  shows "v_seen vw (virtio_hello hw base version d) = 0" "v_disk vw (virtio_hello hw base version d) = v_disk vw d"
    and "c_status (v_conf vw (virtio_hello hw base version d)) = 3"
    and "c_feat (v_conf vw (virtio_hello hw base version d)) 0 = 0"
    and "c_feat (v_conf vw (virtio_hello hw base version d)) 1 = (if version \<ge> 2 then 1 else 0)"
    and "c_ready (v_conf vw (virtio_hello hw base version d)) = 0"
proof -
  let ?ws = "[(DEV_STATUS, 0), (DEV_STATUS, 1), (DEV_STATUS, 3), (0x14, 0), (0x14, 1),
        (0x24, 0), (0x20, 0), (0x24, 1), (0x20, if version \<ge> 2 then 1 else 0)] :: (u64 \<times> u32) list"
  let ?c = "v_conf vw (virtio_hello hw base version d)"
  have h: "virtio_hello hw base version d = mmio_writes hw base ?ws d" by (simp add: virtio_hello_def)
  show "v_seen vw (virtio_hello hw base version d) = 0" "v_disk vw (virtio_hello hw base version d) = v_disk vw d"
    using mmio_writes_view [OF conf, of ?ws d] unfolding h by simp_all
  have "conf_steps version ?ws (v_conf vw d) ?c"
    using mmio_writes_view [OF conf, of ?ws d] unfolding h by blast
  then have "\<exists>c. c_status c = 0 \<and> c_ready c = 0 \<and> ?c = c\<lparr>c_status := 3, c_feat_sel := 1,
      c_feat := (c_feat c)(0 := 0, 1 := if version \<ge> 2 then 1 else 0)\<rparr>"
    by (auto simp: conf_step_def queue_regs_def)
  then show "c_status ?c = 3" "c_feat ?c 0 = 0" "c_feat ?c 1 = (if version \<ge> 2 then 1 else 0)" "c_ready ?c = 0"
    by auto
qed

text \<open>A start that answers 0 leaves the device and the driver in step.\<close>

lemma device_started:
  assumes conf: "virtio_conforms hw vw base version"
    and d2: "d2 = (if version \<ge> 2 then hw_write hw (base + DEV_STATUS) 0xB (virtio_hello hw base version d)
        else virtio_hello hw base version d)"
    and took: "version \<ge> 2 \<longrightarrow> hw_read hw (base + DEV_STATUS) d2 AND 8 \<noteq> 0"
    and d3: "d3 = hw_write hw (base + 0x30) 0 d2"
    and view: "\<And>d. c_qsel (v_conf vw d) = 0 \<Longrightarrow> c_ready (v_conf vw d) = 0 \<Longrightarrow>
      device_queue version (v_conf vw (set_queue hw base version q d)) = q \<and>
      c_status (v_conf vw (set_queue hw base version q d)) = c_status (v_conf vw d) \<and>
      c_feat (v_conf vw (set_queue hw base version q d)) = c_feat (v_conf vw d) \<and>
      (if version \<ge> 2 then c_ready (v_conf vw (set_queue hw base version q d)) = 1
       else c_queue (v_conf vw (set_queue hw base version q d)) 0x40 \<noteq> 0)"
    and ra: "request_area q req st buf" and dok: "sectors_ok (v_disk vw d)"
    and d4: "d4 = hw_write hw (base + DEV_STATUS) ((if version \<ge> 2 then 0xB else 3) OR 4) (set_queue hw base version q d3)"
  shows "device_runs vw version q d4 (clear_rings q m)" "v_disk vw d4 = v_disk vw d"
proof -
  have w: "conf_step version off v (v_conf vw d) (v_conf vw (hw_write hw (base + off) v d))"
    "v_disk vw (hw_write hw (base + off) v d) = v_disk vw d"
    "v_seen vw (hw_write hw (base + off) v d) = (if off = DEV_STATUS \<and> v = 0 then 0 else v_seen vw d)" for off v d
    using conf by (simp_all add: virtio_conforms_def)
  note h = hello_view [OF conf, of d] and mv = mmio_writes_view [OF conf]
  let ?s = "if version \<ge> 2 then 0xB else 3 :: u32"
  let ?h = "virtio_hello hw base version d"
  have c2: "v_conf vw d2 = (v_conf vw ?h)\<lparr>c_status := ?s\<rparr>"
  proof (cases "version \<ge> 2")
    case True
    have "c_status (v_conf vw d2) AND 8 \<noteq> 0"
      using conf took True by (simp add: virtio_conforms_def)
    then show ?thesis
      using w(1) [of DEV_STATUS "0xB" ?h] True h(3) by (auto simp: d2 conf_step_def)
  next
    case False
    have "c\<lparr>c_status := 3\<rparr> = c" if "c_status c = 3" for c :: vconf using that by (cases c) simp
    then show ?thesis using False h(3) by (simp add: d2)
  qed
  have c3: "v_conf vw d3 = (v_conf vw ?h)\<lparr>c_status := ?s, c_qsel := 0\<rparr>"
    using w(1) [of "0x30" 0 d2] by (simp add: d3 c2 conf_step_def)
  let ?sq = "set_queue hw base version q d3"
  have sq: "device_queue version (v_conf vw ?sq) = q" "c_status (v_conf vw ?sq) = ?s"
      "c_feat (v_conf vw ?sq) = c_feat (v_conf vw ?h)"
      "if version \<ge> 2 then c_ready (v_conf vw ?sq) = 1 else c_queue (v_conf vw ?sq) 0x40 \<noteq> 0"
    using view [of d3] h(6) by (simp_all add: c3)
  have c4: "v_conf vw d4 = (v_conf vw ?sq)\<lparr>c_status := ?s OR 4\<rparr>"
    using w(1) [of DEV_STATUS "?s OR 4" ?sq] sq(2) by (cases "version \<ge> 2") (simp_all add: d4 conf_step_def)
  have op: "operational version (v_conf vw d4)"
    using sq(3,4) h(4,5) by (cases "version \<ge> 2") (simp_all add: operational_def c4)
  have q: "device_queue version (v_conf vw d4) = q" using sq(1) by (simp add: c4 device_queue_def Let_def)
  have seen: "v_seen vw d4 = 0" and disk: "v_disk vw d4 = v_disk vw d"
    using h(1,2) by (simp_all add: d4 d3 d2 w(2,3) set_queue_def mv)
  show "device_runs vw version q d4 (clear_rings q m)"
    using clear_rings_zero(1) [OF ra, of m] seen disk dok op q by (simp add: device_runs_def)
  show "v_disk vw d4 = v_disk vw d" by (rule disk)
qed

lemma three_guards:
  "(if P then (- 1 :: int, a) else if Q then (- 1, b) else if R then (- 1, c) else (0, e)) = (0, s) \<longleftrightarrow>
     \<not> P \<and> \<not> Q \<and> \<not> R \<and> e = s"
  by auto

lemma virtio_init_ready:
  assumes conf: "virtio_conforms hw vw base version" and area: "area_ok ar"
    and init: "virtio_blk_init hw ar base s = (0, s')" and dok: "sectors_ok (v_disk vw (vs_hw s))"
  shows "virtio_ready vw base version ar s'" "v_disk vw (vs_hw s') = v_disk vw (vs_hw s)"
    "driver_frame ar (vs_mem s) (vs_mem s')"
proof -
  let ?q = "kernel_queue ar"
  have ra: "request_area ?q (virtio_pa (g_req ar)) (virtio_pa (g_status ar)) (virtio_pa (g_bounce ar))"
    using area by (simp add: area_ok_def)
  note cl = clear_rings_zero [OF ra, where m = "vs_mem s"]
  have ver: "hw_read hw (base + 4) d = version" for d using conf by (simp add: virtio_conforms_def)
  let ?d1 = "virtio_hello hw base version (vs_hw s)"
  define d2 where "d2 = (if version \<ge> 2 then hw_write hw (base + DEV_STATUS) (if version \<ge> 2 then 0xB else 3) ?d1 else ?d1)"
  define d3 where "d3 = hw_write hw (base + 0x30) 0 d2"
  have d2: "d2 = (if version \<ge> 2 then hw_write hw (base + DEV_STATUS) 0xB ?d1 else ?d1)" by (simp add: d2_def)
  note r = init [unfolded virtio_blk_init_def Let_def ver, folded d2_def, folded d3_def, unfolded three_guards]
  have took: "version \<ge> 2 \<longrightarrow> hw_read hw (base + DEV_STATUS) d2 AND 8 \<noteq> 0"
    using r [THEN conjunct2, THEN conjunct1] by blast
  note e = r [THEN conjunct2, THEN conjunct2, THEN conjunct2, symmetric]
  have s': "vs_hw s' = hw_write hw (base + DEV_STATUS) ((if version \<ge> 2 then 0xB else 3) OR 4)
        (set_queue hw base version ?q d3)"
      "vs_mem s' = clear_rings ?q (vs_mem s)" "vd_base (vs_dev s') = base" "vd_last_used (vs_dev s') = 0"
    unfolding e by simp_all
  note st = device_started [OF conf d2 took d3_def kernel_queue_view [OF conf area] ra dok s'(1)]
  show "virtio_ready vw base version ar s'" using st(1) s' cl(2) by (simp add: virtio_ready_def)
  show "v_disk vw (vs_hw s') = v_disk vw (vs_hw s)" by (rule st(2))
  show "driver_frame ar (vs_mem s) (vs_mem s')" using cl(3) by (simp add: driver_frame_def s'(2))
qed

lemma fw_init_runs:
  assumes conf: "virtio_conforms hw vw base version"
    and x: "unat (g_vring ar) mod 4096 = 0" "unat (g_vring ar) < 2 ^ 44" "0 < unat (g_vring ar)"
    and ra: "request_area (firmware_queue ar) (g_req ar) (g_status ar) dst"
    and init: "fw_virtio_blk_init hw ar base s = (0, s')" and dok: "sectors_ok (v_disk vw (vs_hw s))"
  shows "device_runs vw version (firmware_queue ar) (vs_hw s') (vs_mem s')" "vd_base (vs_dev s') = base"
    "load16 (vs_mem s') (vq_used (firmware_queue ar) + 2) = vd_last_used (vs_dev s')"
    "v_disk vw (vs_hw s') = v_disk vw (vs_hw s)"
proof -
  let ?q = "firmware_queue ar"
  note cl = clear_rings_zero [OF ra, where m = "vs_mem s"]
  have ver: "hw_read hw (base + 4) d = version" for d using conf by (simp add: virtio_conforms_def)
  let ?d1 = "virtio_hello hw base version (vs_hw s)"
  define d2 where "d2 = (if version \<ge> 2 then hw_write hw (base + DEV_STATUS) (if version \<ge> 2 then 0xB else 3) ?d1 else ?d1)"
  define d3 where "d3 = hw_write hw (base + 0x30) 0 d2"
  have d2: "d2 = (if version \<ge> 2 then hw_write hw (base + DEV_STATUS) 0xB ?d1 else ?d1)" by (simp add: d2_def)
  note r = init [unfolded fw_virtio_blk_init_def Let_def ver, folded d2_def, folded d3_def, unfolded three_guards]
  have took: "version \<ge> 2 \<longrightarrow> hw_read hw (base + DEV_STATUS) d2 AND 8 \<noteq> 0"
    using r [THEN conjunct2, THEN conjunct1] by blast
  note e = r [THEN conjunct2, THEN conjunct2, THEN conjunct2, symmetric]
  have s'1: "vs_hw s' = hw_write hw (base + DEV_STATUS) ((if version \<ge> 2 then 0xB else 3) OR 4)
        (set_queue hw base version ?q d3)" 
    unfolding e by simp
  have s'2: "vs_mem s' = clear_rings ?q (vs_mem s)" unfolding e by simp
  have s'3: "vd_base (vs_dev s') = base" unfolding e by simp
  have s'4: "vd_last_used (vs_dev s') = 0" unfolding e by simp
  note s' = s'1 s'2 s'3 s'4
  have q: "?q = \<lparr>vq_desc = g_vring ar, vq_avail = g_vring ar + of_nat (16 * 1024),
      vq_used = g_vring ar + of_nat (4096 * 5), vq_num = 1024\<rparr>" by (simp add: firmware_queue_def)
  have n: "(1024 :: nat) < 2 ^ 16" "(4096 :: nat) * 5 < 16 * 1024 + 2 * (3 + 1024) + 4096"
    "(16 :: nat) * 1024 + 2 * (3 + 1024) \<le> 4096 * 5" by simp_all
  note st = device_started [OF conf d2 took d3_def set_queue_view [OF conf x q n] ra dok s'(1)]
  show "device_runs vw version ?q (vs_hw s') (vs_mem s')" using st(1) s'(2) by simp
  show "v_disk vw (vs_hw s') = v_disk vw (vs_hw s)" by (rule st(2))
  show "vd_base (vs_dev s') = base" by (rule s'(3))
  show "load16 (vs_mem s') (vq_used ?q + 2) = vd_last_used (vs_dev s')" using cl(2) s' by simp
qed

end
