(* ===== verification/Virtio_Thms.thy ===== *)
theory Virtio_Thms
  imports Virtio_Props
begin

text \<open>
  Sessions of the block layer on the driver refine the abstract disk, the reads of the firmware, and a
  device that meets the contract.
\<close>

section \<open>Sessions\<close>

text \<open>Calls of the block layer, on the driver and on the abstract disk.\<close>

datatype blk_call = Blk_read u64 u32 | Blk_write u64 "u8 list" u32

fun vblk_run ::
    "'d virtio_hw \<Rightarrow> virtio_area \<Rightarrow> blk_call list \<Rightarrow> 'd virtio_state \<Rightarrow> ((int \<times> u8 list) list \<times> 'd virtio_state) option" where
  "vblk_run hw ar [] s = Some ([], s)"
| "vblk_run hw ar (Blk_read lba cnt # cs) s =
     do { (r, bs, s1) \<leftarrow> bounce_read hw ar lba (unat cnt) s;
          (rs, s2) \<leftarrow> vblk_run hw ar cs s1;
          Some ((r, bs) # rs, s2) }"
| "vblk_run hw ar (Blk_write lba src cnt # cs) s =
     do { (r, s1) \<leftarrow> bounce_write hw ar lba src (unat cnt) s;
          (rs, s2) \<leftarrow> vblk_run hw ar cs s1;
          Some ((r, []) # rs, s2) }"

fun blk_run :: "blk_call list \<Rightarrow> blk_dev \<Rightarrow> (int \<times> u8 list) list \<times> blk_dev" where
  "blk_run [] K = ([], K)"
| "blk_run (Blk_read lba cnt # cs) K =
     (case blk_run cs K of (rs, K1) \<Rightarrow> (blk_read K lba cnt # rs, K1))"
| "blk_run (Blk_write lba src cnt # cs) K =
     (case blk_write lba src cnt K of (r, K1) \<Rightarrow>
      case blk_run cs K1 of (rs, K2) \<Rightarrow> ((r, []) # rs, K2))"

fun call_ok :: "blk_call \<Rightarrow> bool" where
  "call_ok (Blk_read lba cnt) = True"
| "call_ok (Blk_write lba src cnt) = (512 * unat cnt \<le> length src)"

lemma vblk_run_refines:
  assumes conf: "virtio_conforms hw vw base version" and area: "area_ok ar"
  shows "virtio_ready vw base version ar s \<Longrightarrow> list_all call_ok cs \<Longrightarrow> \<exists>s'.
    vblk_run hw ar cs s = Some (fst (blk_run cs (v_disk vw (vs_hw s))), s') \<and>
    v_disk vw (vs_hw s') = snd (blk_run cs (v_disk vw (vs_hw s))) \<and> driver_frame ar (vs_mem s) (vs_mem s')"
proof (induction cs arbitrary: s)
  case (Cons c cs)
  let ?K = "v_disk vw (vs_hw s)"
  show ?case
  proof (cases c)
    case (Blk_read lba cnt)
    obtain s1 where s1: "bounce_read hw ar lba (unat cnt) s = Some (fst (blk_read ?K lba cnt), snd (blk_read ?K lba cnt), s1)"
      "virtio_ready vw base version ar s1" "driver_frame ar (vs_mem s) (vs_mem s1)" "v_disk vw (vs_hw s1) = ?K"
      using bounce_read_refines [OF conf area Cons.prems(1)] unfolding blk_read_def by blast
    obtain s2 where "vblk_run hw ar cs s1 = Some (fst (blk_run cs ?K), s2)"
      "v_disk vw (vs_hw s2) = snd (blk_run cs ?K)" "driver_frame ar (vs_mem s1) (vs_mem s2)"
      using Cons.IH [OF s1(2)] Cons.prems(2) s1(4) by auto
    then show ?thesis
      using s1(1) driver_frame_trans [OF s1(3)] by (auto simp: Blk_read split_beta)
  next
    case (Blk_write lba src cnt)
    let ?w = "blk_write lba src cnt ?K"
    have "512 * unat cnt \<le> length src" using Cons.prems(2) by (simp add: Blk_write)
    then obtain s1 where s1: "bounce_write hw ar lba src (unat cnt) s = Some (fst ?w, s1)"
      "virtio_ready vw base version ar s1" "driver_frame ar (vs_mem s) (vs_mem s1)" "v_disk vw (vs_hw s1) = snd ?w"
      using bounce_write_refines [OF conf area Cons.prems(1)] unfolding blk_write_def by blast
    obtain s2 where "vblk_run hw ar cs s1 = Some (fst (blk_run cs (snd ?w)), s2)"
      "v_disk vw (vs_hw s2) = snd (blk_run cs (snd ?w))" "driver_frame ar (vs_mem s1) (vs_mem s2)"
      using Cons.IH [OF s1(2)] Cons.prems(2) s1(4) by auto
    then show ?thesis
      using s1(1) driver_frame_trans [OF s1(3)] by (auto simp: Blk_write split_beta)
  qed
qed simp

text \<open>
  C35. Once \<^verbatim>\<open>virtio_blk_init\<close> has answered 0, every session of calls of the block layer returns, with
  the answers, the bytes and the disk that the abstract disk of theory \<open>Blk\<close> has, and changes no memory
  but that of the driver.  Of the device it is assumed what the standard promises: it serves its queue
  only once the driver has set \<^verbatim>\<open>ACKNOWLEDGE\<close>, \<^verbatim>\<open>DRIVER\<close> and \<^verbatim>\<open>DRIVER_OK\<close> and, when it is not a legacy
  device, agreed on \<^verbatim>\<open>VERSION_1\<close> with \<^verbatim>\<open>FEATURES_OK\<close> and made the queue ready.
\<close>

theorem blk_over_virtio:
  assumes conf: "virtio_conforms hw vw base version" and area: "area_ok ar"
    and disk: "sectors_ok (v_disk vw (vs_hw s0))"
    and init: "virtio_blk_init hw ar base s0 = (0, s)" and calls: "list_all call_ok cs"
  shows "\<exists>s'. vblk_run hw ar cs s = Some (fst (blk_run cs (v_disk vw (vs_hw s0))), s') \<and>
    v_disk vw (vs_hw s') = snd (blk_run cs (v_disk vw (vs_hw s0))) \<and> driver_frame ar (vs_mem s0) (vs_mem s')"
  using virtio_init_ready [OF conf area init disk] vblk_run_refines [OF conf area _ calls, of s] driver_frame_trans
  by metis

section \<open>The driver of the firmware\<close>

lemma fw_wait_used_after:
  "\<forall>i<n. load16 (snd ((hw_step hw ^^ Suc i) s)) (used + 2) = lu \<Longrightarrow>
   load16 (snd ((hw_step hw ^^ Suc n) s)) (used + 2) \<noteq> lu \<Longrightarrow> n \<le> spins \<Longrightarrow>
   fw_wait_used hw used lu spins s = (True, (hw_step hw ^^ Suc n) s)"
proof (induction n arbitrary: s spins)
  case 0
  then show ?case by (subst fw_wait_used.simps) (simp add: Let_def)
next
  case (Suc n)
  obtain k where k: "spins = Suc k" "n \<le> k" using Suc.prems(3) by (cases spins) auto
  have eq: "(hw_step hw ^^ Suc i) (hw_step hw s) = (hw_step hw ^^ Suc (Suc i)) s" for i
    by (simp only: funpow_Suc_right comp_apply)
  have "load16 (snd (hw_step hw s)) (used + 2) = lu" using Suc.prems(1) by force
  moreover have "fw_wait_used hw used lu k (hw_step hw s) = (True, (hw_step hw ^^ Suc n) (hw_step hw s))"
  proof (rule Suc.IH)
    show "\<forall>i<n. load16 (snd ((hw_step hw ^^ Suc i) (hw_step hw s))) (used + 2) = lu"
    proof (intro allI impI)
      fix i assume "i < n"
      then show "load16 (snd ((hw_step hw ^^ Suc i) (hw_step hw s))) (used + 2) = lu"
        unfolding eq using Suc.prems(1) by blast
    qed
  qed (use Suc.prems(2) k in \<open>simp_all only: eq not_False_eq_True\<close>)
  ultimately show ?case
    by (subst fw_wait_used.simps) (simp only: Let_def eq k(1) nat.case if_False simp_thms)
qed

text \<open>A read of the firmware answers like the disk when the device is quick enough.\<close>

lemma fw_read_one_answered:
  assumes conf: "virtio_conforms hw vw base version"
    and area: "request_area (firmware_queue ar) (g_req ar) (g_status ar) dst"
    and runs: "device_runs vw version (firmware_queue ar) (vs_hw s) (vs_mem s)" "vd_base (vs_dev s) = base"
      "load16 (vs_mem s) (vq_used (firmware_queue ar) + 2) = vd_last_used (vs_dev s)"
  shows "\<exists>n. \<forall>spins\<ge>n. \<exists>s'. fw_virtio_blk_read_one hw ar spins sector dst s =
      (case disk_read (v_disk vw (vs_hw s)) sector of None \<Rightarrow> - 1 | Some bs \<Rightarrow> 0, s') \<and>
    (\<forall>bs. disk_read (v_disk vw (vs_hw s)) sector = Some bs \<longrightarrow> load_bytes (vs_mem s') dst 512 = bs) \<and>
    device_runs vw version (firmware_queue ar) (vs_hw s') (vs_mem s') \<and>
    load16 (vs_mem s') (vq_used (firmware_queue ar) + 2) = vd_last_used (vs_dev s')"
proof -
  let ?q = "firmware_queue ar"
  let ?m1 = "virtio_post ?q (g_req ar) (g_status ar) 0 sector dst (vs_mem s)"
  let ?d1 = "hw_write hw (base + QUEUE_NOTIFY) 0 (vs_hw s)"
  obtain n d' m' where n:
    "\<forall>i<n. load16 (snd ((hw_step hw ^^ Suc i) (?d1, ?m1))) (vq_used ?q + 2) = vd_last_used (vs_dev s)"
    "(hw_step hw ^^ Suc n) (?d1, ?m1) = (d', m')" "load16 m' (vq_used ?q + 2) = vd_last_used (vs_dev s) + 1"
    "device_runs vw version ?q d' m'"
    "request_done 0 sector (g_status ar) dst (vs_mem s) (v_disk vw (vs_hw s)) m' (v_disk vw d')"
    using request_answered [OF conf area _ runs(1) refl refl, of 0 sector] runs(3) by (metis word_zero_le)
  have "fw_wait_used hw (vq_used ?q) (vd_last_used (vs_dev s)) spins (?d1, ?m1) = (True, d', m')" if "n \<le> spins" for spins
    using fw_wait_used_after [OF n(1) _ that] n(2,3) by simp
  then show ?thesis
    using n(4,5) runs(2)
    by (intro exI [of _ n])
      (auto simp: fw_virtio_blk_read_one_def Let_def request_done_def split: option.splits simp del: fw_wait_used.simps)
qed

section \<open>A device that conforms\<close>

record ref_dev =
  rd_conf :: vconf
  rd_disk :: blk_dev
  rd_seen :: u16
  rd_kicked :: bool

definition ref_view :: "ref_dev virtio_view" where
  "ref_view = \<lparr>v_conf = rd_conf, v_disk = rd_disk, v_seen = rd_seen, v_kicked = rd_kicked\<rparr>"

text \<open>The stores of an answer, and what becomes of the disk.\<close>

definition ref_answer :: "virtqueue \<Rightarrow> vreq \<Rightarrow> blk_dev \<Rightarrow> mem \<Rightarrow> (nat \<times> u8 list) list \<times> blk_dev" where
  "ref_answer q rq K m =
     (let used = (unat (vq_used q) + 2, le_bytes 2 (load16 m (vq_used q + 2) + 1)); st = unat (rq_status rq) in
      if rq_type rq = 0 then
        (case disk_read K (rq_sector rq) of
           None \<Rightarrow> ([used, (st, [1])], K) | Some bs \<Rightarrow> ([used, (unat (rq_buf rq), bs), (st, [0])], K))
      else
        (case disk_write (rq_sector rq) (load_bytes m (rq_buf rq) 512) K of
           None \<Rightarrow> ([used, (st, [1])], K) | Some K1 \<Rightarrow> ([used, (st, [0])], K1)))"

definition ref_step :: "u32 \<Rightarrow> ref_dev \<times> mem \<Rightarrow> ref_dev \<times> mem" where
  "ref_step version = (\<lambda>(d, m).
     (let q = device_queue version (rd_conf d) in
      if operational version (rd_conf d) \<and> rd_kicked d \<and> load16 m (vq_avail q + 2) = rd_seen d + 1 then
        (case request_at q (rd_seen d) m of
           None \<Rightarrow> (d, m)
         | Some rq \<Rightarrow>
             (case ref_answer q rq (rd_disk d) m of
                (xs, K) \<Rightarrow> (d\<lparr>rd_disk := K, rd_seen := rd_seen d + 1\<rparr>, stores xs m)))
      else (d, m)))"

text \<open>Its registers: it takes every write as it comes, and the features \<^verbatim>\<open>VERSION_1\<close> and none.\<close>

definition ref_write :: "u64 \<Rightarrow> u32 \<Rightarrow> vconf \<Rightarrow> vconf" where
  "ref_write off v c =
     (if off = DEV_STATUS then
        (if v = 0 then c\<lparr>c_status := 0, c_ready := 0\<rparr>
         else if v AND 8 \<noteq> 0 \<and> c_status c AND 8 = 0 \<and> 1 < c_feat c 1 then c\<lparr>c_status := v AND NOT 8\<rparr>
         else c\<lparr>c_status := v\<rparr>)
      else if off = 0x24 then c\<lparr>c_feat_sel := v\<rparr>
      else if off = 0x20 then c\<lparr>c_feat := (c_feat c)(c_feat_sel c := v)\<rparr>
      else if off = 0x30 then c\<lparr>c_qsel := v\<rparr>
      else if off = 0x28 then c\<lparr>c_page := v\<rparr>
      else if off = 0x44 then c\<lparr>c_ready := v\<rparr>
      else if off = 0x14 \<or> off = QUEUE_NOTIFY then c
      else c\<lparr>c_queue := (c_queue c)(off := v)\<rparr>)"

lemma ref_write_ok: "conf_step version off v c (ref_write off v c)"
  by (auto simp: conf_step_def ref_write_def queue_regs_def)

definition ref_hw :: "u64 \<Rightarrow> u32 \<Rightarrow> ref_dev virtio_hw" where
  "ref_hw base version =
     \<lparr>hw_read = (\<lambda>a d. if a = base then 0x74726976 else if a = base + 4 then version else if a = base + 8 then 2
                     else if a = base + 0x34 then 8 else if a = base + DEV_STATUS then c_status (rd_conf d) else 0),
      hw_write = (\<lambda>a v d. d\<lparr>rd_conf := ref_write (a - base) v (rd_conf d),
                           rd_seen := (if a = base + DEV_STATUS \<and> v = 0 then 0 else rd_seen d),
                           rd_kicked := rd_kicked d \<or> a = base + QUEUE_NOTIFY\<rparr>),
      hw_step = ref_step version\<rparr>"

lemma ref_answer_answered:
  assumes area: "request_area q (rq_head rq) (rq_status rq) (rq_buf rq)" and K: "sectors_ok K"
    and ans: "ref_answer q rq K m = (xs, K')"
  shows "answered q rq K m K' (stores xs m)"
proof -
  note f = area_facts [OF area]
  let ?U = "unat (vq_used q) + 2" and ?S = "unat (rq_status rq)" and ?B = "unat (rq_buf rq)"
  let ?u = "(?U, le_bytes 2 (load16 m (vq_used q + 2) + 1))"
  have ap: "stores_apart [?u, (?S, [v])]" "length bs = 512 \<Longrightarrow> stores_apart [?u, (?B, bs), (?S, [v])]" for v bs
    using f(1,4,6,7) apart_within [OF f(18)] apart_within [OF f(19)] apart_within [OF f(22)] by simp_all
  have w: "vq_used q + 2 = of_nat ?U" "rq_status rq = of_nat ?S" "rq_buf rq = of_nat ?B" by simp_all
  have at: "bytes_at (stores ys m) a bs" if "stores_apart ys" "(a, bs) \<in> set ys" for ys a bs
    by (rule stores_apart_at [OF that])
  have used: "load16 (stores ys m) (vq_used q + 2) = load16 m (vq_used q + 2) + 1" if "stores_apart ys" "?u \<in> set ys" for ys
    unfolding w(1) using le_at(1) [OF at [OF that(1), of ?U "le_bytes 2 (load16 m (vq_used q + 2) + 1)"]] that(2) w(1) by simp
  have st: "stores ys m (rq_status rq) = v" if "stores_apart ys" "(?S, [v]) \<in> set ys" for ys v
    using at [OF that] by (simp add: bytes_at_def)
  have buf: "load_bytes (stores ys m) (rq_buf rq) 512 = bs" if "stores_apart ys" "(?B, bs) \<in> set ys" "length bs = 512" for ys bs
    using at [OF that(1,2)] that(3) by (simp add: bytes_at_def)
  have keep: "stores ys m x = m x"
    if "stores_apart ys" and "\<not> inside (vq_used q) (6 + 8 * vq_num q) x" "x \<noteq> rq_status rq"
      and ys: "\<forall>(a, cs)\<in>set ys. (a, cs) = ?u \<or> (\<exists>v. (a, cs) = (?S, [v])) \<or> a = ?B \<and> length cs = 512 \<and> \<not> inside (rq_buf rq) 512 x"
    for ys x
  proof (rule stores_keep)
    have u: "unat (of_nat ?U :: u64) = ?U" by (rule unat_addr) (use f(4) in simp)
    have "\<not> inside (of_nat ?U) 2 x"
      using \<open>\<not> inside (vq_used q) _ x\<close> u f(1) by (auto simp: inside_def simp del: of_nat_add)
    moreover have "\<not> inside (rq_status rq) 1 x" using \<open>x \<noteq> rq_status rq\<close> by (auto simp: inside_def word_unat_eq_iff)
    ultimately show "\<forall>(a, cs)\<in>set ys. a + length cs < 2 ^ 64 \<and> \<not> inside (of_nat a) (length cs) x"
      using \<open>stores_apart ys\<close> ys by fastforce
  qed
  have plain: "load16 (stores [?u, (?S, [v])] m) (vq_used q + 2) = load16 m (vq_used q + 2) + 1"
      "stores [?u, (?S, [v])] m (rq_status rq) = v"
      "\<not> inside (vq_used q) (6 + 8 * vq_num q) x \<Longrightarrow> x \<noteq> rq_status rq \<Longrightarrow> stores [?u, (?S, [v])] m x = m x" for v x
    by (rule used [OF ap(1)] st [OF ap(1)] keep [OF ap(1)]; simp)+
  have filled: "load16 (stores [?u, (?B, bs), (?S, [v])] m) (vq_used q + 2) = load16 m (vq_used q + 2) + 1"
      "stores [?u, (?B, bs), (?S, [v])] m (rq_status rq) = v"
      "load_bytes (stores [?u, (?B, bs), (?S, [v])] m) (rq_buf rq) 512 = bs"
      "\<not> inside (vq_used q) (6 + 8 * vq_num q) x \<Longrightarrow> x \<noteq> rq_status rq \<Longrightarrow> \<not> inside (rq_buf rq) 512 x \<Longrightarrow>
         stores [?u, (?B, bs), (?S, [v])] m x = m x" if l: "length bs = 512" for v bs x
    by (rule used [OF ap(2) [OF l]] st [OF ap(2) [OF l]] buf [OF ap(2) [OF l]] keep [OF ap(2) [OF l]]; simp add: l)+
  show ?thesis
  proof (cases "rq_type rq = 0")
    case rd: True
    show ?thesis
    proof (cases "disk_read K (rq_sector rq)")
      case None
      then have e: "xs = [?u, (?S, [1])]" "K' = K" using ans rd by (simp_all add: ref_answer_def Let_def)
      show ?thesis using plain [where v = 1] None rd unfolding answered_def e by (simp del: stores_simps)
    next
      case (Some bs)
      have l: "length bs = 512" using Some K by (auto simp: disk_read_def sectors_ok_def split: if_splits)
      have e: "xs = [?u, (?B, bs), (?S, [0])]" "K' = K" using ans rd Some by (simp_all add: ref_answer_def Let_def)
      show ?thesis using filled [OF l, where v = 0] Some rd unfolding answered_def e by (simp del: stores_simps)
    qed
  next
    case wr: False
    let ?w = "disk_write (rq_sector rq) (load_bytes m (rq_buf rq) 512) K"
    obtain v where e: "xs = [?u, (?S, [v])]" "K' = (case ?w of None \<Rightarrow> K | Some K1 \<Rightarrow> K1)"
        "v = (case ?w of None \<Rightarrow> 1 | Some K1 \<Rightarrow> 0)"
      using ans wr by (auto simp: ref_answer_def Let_def split: option.splits)
    show ?thesis
      using plain [where v = v] wr e(3) unfolding answered_def e(1,2) by (simp split: option.splits del: stores_simps)
  qed
qed

lemma ref_conforms: "virtio_conforms (ref_hw base version) ref_view base version"
  unfolding virtio_conforms_def
proof (intro conjI allI)
  fix d m rq
  let ?q = "device_queue version (v_conf ref_view d)" and ?f = "hw_step (ref_hw base version)"
  show "let q = ?q in
        operational version (v_conf ref_view d) \<longrightarrow> v_kicked ref_view d \<longrightarrow>
        load16 m (vq_avail q + 2) = v_seen ref_view d + 1 \<longrightarrow> request_at q (v_seen ref_view d) m = Some rq \<longrightarrow>
        request_area q (rq_head rq) (rq_status rq) (rq_buf rq) \<longrightarrow> sectors_ok (v_disk ref_view d) \<longrightarrow>
        (\<exists>n d' m'. (\<forall>i<n. load16 (snd ((?f ^^ Suc i) (d, m))) (vq_used q + 2) = load16 m (vq_used q + 2)) \<and>
           (?f ^^ Suc n) (d, m) = (d', m') \<and> answered q rq (v_disk ref_view d) m (v_disk ref_view d') m' \<and>
           v_seen ref_view d' = v_seen ref_view d + 1 \<and> v_conf ref_view d' = v_conf ref_view d)"
    unfolding Let_def
  proof (intro impI)
    assume c: "operational version (v_conf ref_view d)" "v_kicked ref_view d"
        "load16 m (vq_avail ?q + 2) = v_seen ref_view d + 1" and rq: "request_at ?q (v_seen ref_view d) m = Some rq"
      and area: "request_area ?q (rq_head rq) (rq_status rq) (rq_buf rq)" and K: "sectors_ok (v_disk ref_view d)"
    obtain xs K' where ans: "ref_answer ?q rq (rd_disk d) m = (xs, K')" by (cases "ref_answer ?q rq (rd_disk d) m")
    have step: "?f (d, m) = (d\<lparr>rd_disk := K', rd_seen := rd_seen d + 1\<rparr>, stores xs m)"
      using c rq ans by (simp add: ref_hw_def ref_step_def ref_view_def Let_def)
    have "answered ?q rq (v_disk ref_view d) m K' (stores xs m)"
      by (rule ref_answer_answered [OF area K]) (use ans in \<open>simp add: ref_view_def\<close>)
    then show "\<exists>n d' m'. (\<forall>i<n. load16 (snd ((?f ^^ Suc i) (d, m))) (vq_used ?q + 2) = load16 m (vq_used ?q + 2)) \<and>
           (?f ^^ Suc n) (d, m) = (d', m') \<and> answered ?q rq (v_disk ref_view d) m (v_disk ref_view d') m' \<and>
           v_seen ref_view d' = v_seen ref_view d + 1 \<and> v_conf ref_view d' = v_conf ref_view d"
      by (intro exI [of _ 0] exI [of _ "d\<lparr>rd_disk := K', rd_seen := rd_seen d + 1\<rparr>"] exI [of _ "stores xs m"])
        (simp add: step ref_view_def)
  qed
qed (simp_all add: ref_hw_def ref_view_def ref_write_ok)

definition virtio_demo_area :: virtio_area where
  "virtio_demo_area = \<lparr>g_vring = 0xffffffff80200000, g_req = 0xffffffff80300000, g_status = 0xffffffff80300100,
     g_bounce = 0xffffffff80300200\<rparr>"

lemma virtio_demo_area_ok: "area_ok virtio_demo_area"
  by (simp add: area_ok_def request_area_def virtio_demo_area_def kernel_queue_def virtio_pa_def Let_def apart_def)

definition virtio_demo_dev :: ref_dev where
  "virtio_demo_dev = \<lparr>rd_conf = \<lparr>c_status = 0, c_feat_sel = 0, c_feat = (\<lambda>_. 0), c_qsel = 0, c_queue = (\<lambda>_. 0), c_ready = 0, c_page = 0\<rparr>,
     rd_disk = \<lparr>sectors = (\<lambda>_. replicate 512 0), read_fails = (\<lambda>_. False), write_fails = (\<lambda>_. False)\<rparr>,
     rd_seen = 0, rd_kicked = False\<rparr>"

definition virtio_demo_state :: "ref_dev virtio_state" where
  "virtio_demo_state = \<lparr>vs_mem = (\<lambda>_. 0), vs_hw = virtio_demo_dev,
     vs_dev = \<lparr>vd_base = 0, vd_version = 0, vd_last_used = 0, vd_capacity = 0\<rparr>, vs_sie = True\<rparr>"

lemma virtio_demo_starts: "\<exists>s. virtio_blk_init (ref_hw 0x10001000 2) virtio_demo_area 0x10001000 virtio_demo_state = (0, s)"
  by (simp add: virtio_blk_init_def ref_hw_def Let_def virtio_hello_def mmio_writes_def ref_write_def
      virtio_demo_state_def virtio_demo_dev_def)

text \<open>A sector of ones is written and read back.\<close>

lemma blk_over_virtio_witness:
  "\<exists>s s'. virtio_blk_init (ref_hw 0x10001000 2) virtio_demo_area 0x10001000 virtio_demo_state = (0, s) \<and>
     vblk_run (ref_hw 0x10001000 2) virtio_demo_area [Blk_write 7 (replicate 512 1) 1, Blk_read 7 1] s =
       Some ([(0, []), (0, replicate 512 1)], s')"
proof -
  obtain s where s: "virtio_blk_init (ref_hw 0x10001000 2) virtio_demo_area 0x10001000 virtio_demo_state = (0, s)"
    using virtio_demo_starts by blast
  have "sectors_ok (v_disk ref_view (vs_hw virtio_demo_state))"
    by (simp add: sectors_ok_def ref_view_def virtio_demo_state_def virtio_demo_dev_def)
  from blk_over_virtio [OF ref_conforms virtio_demo_area_ok this s, of "[Blk_write 7 (replicate 512 1) 1, Blk_read 7 1]"]
  show ?thesis
    using s by (auto simp: blk_read_1 blk_write_1 ref_view_def virtio_demo_state_def virtio_demo_dev_def)
qed

end
