(* ===== verification/User_Shell.thy ===== *)
theory User_Shell
  imports User_Stdlib Fdt
begin

text \<open>
  The shell, \<^verbatim>\<open>user/src/sh.c\<close>: the line editor with its completion of names, the words of a line,
  and what a line asks for.  A local array is the list of the bytes there is room for, and a store
  or a load outside of it is \<open>None\<close>.  What the system gives the shell is a parameter: the bytes typed, the
  entries of a directory, the working directory and whether there is memory.  The calls that carry a command out
  (\<^verbatim>\<open>fork\<close>, \<^verbatim>\<open>execve\<close>, \<^verbatim>\<open>chdir\<close>, \<^verbatim>\<open>dup2\<close>) are the result \<open>sh_cmd\<close>, and so is what the terminal mode is
  set to around them.
\<close>

abbreviation MAX_LINE :: nat where "MAX_LINE \<equiv> 256"
abbreviation MAX_ARGS :: nat where "MAX_ARGS \<equiv> 16"
abbreviation MAX_MATCHES :: nat where "MAX_MATCHES \<equiv> 64"
abbreviation DT_DIR :: u8 where "DT_DIR \<equiv> 4"

definition blank :: "u8 \<Rightarrow> bool" where
  "blank c \<longleftrightarrow> u_isspace (uint c)"

definition lower :: "u8 \<Rightarrow> int" where
  "lower c = u_tolower (uint c)"

section \<open>Names that match\<close>

record match =
  m_name :: cstr
  m_type :: u8

fun starts_with_ci :: "cstr \<Rightarrow> cstr \<Rightarrow> bool" where
  "starts_with_ci (c # s) (p # prefix) = (if lower c \<noteq> lower p then False else starts_with_ci s prefix)"
| "starts_with_ci s prefix = (prefix = [])"

fun ci_cmp :: "cstr \<Rightarrow> cstr \<Rightarrow> int" where
  "ci_cmp (a # as) (b # bs) = (if lower a \<noteq> lower b then lower a - lower b else ci_cmp as bs)"
| "ci_cmp (a # as) [] = uint a"
| "ci_cmp [] (b # bs) = - uint b"
| "ci_cmp [] [] = 0"

definition sort_pair :: "nat \<Rightarrow> nat \<Rightarrow> match list \<Rightarrow> match list" where
  "sort_pair i j ms =
     (if ci_cmp (m_name (ms ! i)) (m_name (ms ! j)) > 0 then ms[i := ms ! j, j := ms ! i] else ms)"

definition sort_row :: "nat \<Rightarrow> match list \<Rightarrow> match list" where
  "sort_row i ms = fold (sort_pair i) [i + 1..<length ms] ms"

definition sort_matches :: "match list \<Rightarrow> match list" where
  "sort_matches ms = fold sort_row [0..<length ms] ms"

text \<open>The entries of a directory as \<^verbatim>\<open>readdir\<close> gives them: names with their types.\<close>

fun collect_loop :: "(cstr \<times> u8) list \<Rightarrow> cstr \<Rightarrow> nat \<Rightarrow> match list \<Rightarrow> match list" where
  "collect_loop [] prefix mx out = out"
| "collect_loop ((name, ty) # ents) prefix mx out =
     (if name = lit ''.'' \<or> name = lit ''..'' then collect_loop ents prefix mx out
      else if \<not> starts_with_ci name prefix then collect_loop ents prefix mx out
      else if mx \<le> length out then out
      else collect_loop ents prefix mx (out @ [\<lparr>m_name = take 255 name, m_type = ty\<rparr>]))"

definition collect_matches :: "(cstr \<times> u8) list option \<Rightarrow> cstr \<Rightarrow> nat \<Rightarrow> match list" where
  "collect_matches dir prefix mx =
     (case dir of None \<Rightarrow> [] | Some ents \<Rightarrow> sort_matches (collect_loop ents prefix mx []))"

function agree_loop :: "cstr \<Rightarrow> cstr \<Rightarrow> nat \<Rightarrow> nat \<Rightarrow> nat" where
  "agree_loop a b j limit =
     (if j < limit then (if lower (a ! j) \<noteq> lower (b ! j) then j else agree_loop a b (j + 1) limit) else j)"
  by pat_completeness auto
termination by (relation "measure (\<lambda>(a, b, j, limit). limit - j)") auto

declare agree_loop.simps [simp del]

fun limit_loop :: "cstr \<Rightarrow> match list \<Rightarrow> nat \<Rightarrow> nat" where
  "limit_loop name0 [] limit = limit"
| "limit_loop name0 (m # ms) limit =
     (let mx = length (m_name m); limit1 = (if mx < limit then mx else limit) in
      limit_loop name0 ms (agree_loop name0 (m_name m) 0 limit1))"

definition common_prefix_len :: "match list \<Rightarrow> cstr \<Rightarrow> nat" where
  "common_prefix_len ms prefix =
     (case ms of
        [] \<Rightarrow> length prefix
      | m # rest \<Rightarrow>
          (let limit = limit_loop (m_name m) rest (length (m_name m)) in
           if limit < length prefix then length prefix else limit))"

section \<open>The prompt\<close>

definition prompt_path :: "cstr option \<Rightarrow> cstr" where
  "prompt_path cwd =
     (case cwd of
        None \<Rightarrow> lit ''?''
      | Some d \<Rightarrow>
          if u_strncmp d (lit ''/root'') 5 = 0 \<and> (length d = 5 \<or> d ! 5 = 0x2F)
          then 0x7E # take 254 (drop 5 d) else take 255 d)"

definition print_prompt :: "cstr option \<Rightarrow> cstr" where
  "print_prompt cwd = lit ''root@qemu:'' @ prompt_path cwd @ lit ''$ ''"

section \<open>The line editor\<close>

record sh_env =
  list_dir :: "cstr \<Rightarrow> (cstr \<times> u8) list option"
  cur_dir :: "cstr option"
  have_memory :: bool

text \<open>Stores and loads of the line.\<close>

definition put_at :: "u8 list \<Rightarrow> nat \<Rightarrow> u8 \<Rightarrow> u8 list option" where
  "put_at buf i c = (if i < length buf then Some (buf[i := c]) else None)"

definition put_all :: "u8 list \<Rightarrow> nat \<Rightarrow> u8 list \<Rightarrow> u8 list option" where
  "put_all buf i cs =
     (if i + length cs \<le> length buf then Some (take i buf @ cs @ drop (i + length cs) buf) else None)"

fun word_start :: "u8 list \<Rightarrow> nat \<Rightarrow> nat" where
  "word_start buf 0 = 0"
| "word_start buf (Suc n) = (if blank (buf ! n) then Suc n else word_start buf n)"

text \<open>The directory to look in and the start of the name, for the word before the cursor.\<close>

definition scan_target :: "bool \<Rightarrow> cstr \<Rightarrow> cstr \<times> cstr" where
  "scan_target command_pos token =
     (if command_pos \<and> u_strchr token 0x2F = None then (lit ''/bin'', token)
      else
        (case u_strrchr token 0x2F of
           None \<Rightarrow> (lit ''.'', token)
         | Some dlen \<Rightarrow>
             (if dlen = 0 then lit ''/'' else take (if dlen \<ge> 256 then 255 else dlen) token, drop (dlen + 1) token)))"

fun list_names :: "match list \<Rightarrow> cstr" where
  "list_names [] = []"
| "list_names [m] = m_name m @ (if m_type m = DT_DIR then lit ''/'' else [])"
| "list_names (m # ms) = m_name m @ (if m_type m = DT_DIR then lit ''/'' else []) @ lit '' '' @ list_names ms"

text \<open>What the matches add behind the cursor: the part common to all, cut to the room there is.\<close>

definition insert_common :: "match list \<Rightarrow> cstr \<Rightarrow> u8 list \<Rightarrow> nat \<Rightarrow> (u8 list \<times> nat \<times> cstr) option" where
  "insert_common ms prefix buf len =
     (let prefix_len = length prefix; common_len = common_prefix_len ms prefix;
          add0 = common_len - prefix_len;
          add1 = (if length buf \<le> len + add0 then length buf - len - 1 else add0);
          text0 = take add1 (drop prefix_len (m_name (hd ms))) in
      if common_len > prefix_len \<and> add1 > 0 then
        do { buf1 \<leftarrow> put_all buf len text0;
             buf2 \<leftarrow> put_at buf1 (len + add1) 0;
             Some (buf2, len + add1, text0) }
      else Some (buf, len, []))"

definition complete :: "sh_env \<Rightarrow> u8 list \<Rightarrow> nat \<Rightarrow> (u8 list \<times> nat \<times> cstr) option" where
  "complete env buf0 len =
     do { buf \<leftarrow> put_at buf0 len 0;
          let start = word_start buf len;
              token_len = (if len - start \<ge> 256 then 255 else len - start);
              token = cstr_of (take token_len (drop start buf) @ [0]);
              (scan_dir, prefix) = scan_target (start = 0) token in
          if \<not> have_memory env then Some (buf, len, [0x07])
          else
            (let ms = collect_matches (list_dir env scan_dir) prefix MAX_MATCHES in
             if ms = [] then Some (buf, len, [0x07])
             else
               do { (buf1, len1, out1) \<leftarrow> insert_common ms prefix buf len;
                    if length ms = 1 then
                      (if m_type (hd ms) = DT_DIR \<and> len1 + 1 < length buf1 \<and> (len1 = 0 \<or> buf1 ! (len1 - 1) \<noteq> 0x2F)
                       then do { buf2 \<leftarrow> put_at buf1 len1 0x2F;
                                 buf3 \<leftarrow> put_at buf2 (len1 + 1) 0;
                                 Some (buf3, len1 + 1, out1 @ lit ''/'') }
                       else Some (buf1, len1, out1))
                    else if common_prefix_len ms prefix = length prefix then
                      Some (buf1, len1, out1 @ [0x0A] @ list_names ms @ [0x0A] @ print_prompt (cur_dir env) @ take len1 buf1)
                    else Some (buf1, len1, out1) }) }"

text \<open>
  One line: the bytes still to be typed, the line, the cursor and what was written to the
  terminal.  When the input ends, \<^verbatim>\<open>read\<close> gives 0 or an error and so does the line.
\<close>

fun read_line_loop ::
    "sh_env \<Rightarrow> u8 list \<Rightarrow> u8 list \<Rightarrow> nat \<Rightarrow> cstr \<Rightarrow> (int \<times> u8 list \<times> u8 list \<times> cstr) option" where
  "read_line_loop env [] buf len out = Some (- 1, buf, [], out)"
| "read_line_loop env (c0 # input) buf len out =
     (let c = (if c0 = 0x0D then 0x0A else c0) in
      if c = 0x0A then
        do { buf1 \<leftarrow> put_at buf len 0; Some (int len, buf1, input, out @ [0x0A]) }
      else if c = 0x7F \<or> c = 0x08 then
        (if len > 0 then
           do { buf1 \<leftarrow> put_at buf (len - 1) 0;
                read_line_loop env input buf1 (len - 1) (out @ [0x08, 0x20, 0x08]) }
         else read_line_loop env input buf len out)
      else if c = 0x09 then
        do { (buf1, len1, shown) \<leftarrow> complete env buf len;
             read_line_loop env input buf1 len1 (out @ shown) }
      else if len + 1 < length buf then
        do { buf1 \<leftarrow> put_at buf len c;
             buf2 \<leftarrow> put_at buf1 (len + 1) 0;
             read_line_loop env input buf2 (len + 1) (out @ [c]) }
      else read_line_loop env input buf len out)"

definition read_line :: "sh_env \<Rightarrow> u8 list \<Rightarrow> u8 list \<Rightarrow> (int \<times> u8 list \<times> u8 list \<times> cstr) option" where
  "read_line env input buf = do { buf1 \<leftarrow> put_at buf 0 0; read_line_loop env input buf1 0 [] }"

section \<open>The words of a line\<close>

text \<open>An entry of \<^verbatim>\<open>argv\<close> is the offset of the word in the line, in which a NUL ends each word.\<close>

function skip_blanks :: "u8 list \<Rightarrow> nat \<Rightarrow> (u8 list \<times> nat) option" where
  "skip_blanks buf p =
     (if length buf \<le> p then None
      else if buf ! p \<noteq> 0 \<and> blank (buf ! p) then skip_blanks (buf[p := 0]) (p + 1) else Some (buf, p))"
  by pat_completeness auto
termination by (relation "measure (\<lambda>(buf, p). length buf - p)") auto

function skip_word :: "u8 list \<Rightarrow> nat \<Rightarrow> nat option" where
  "skip_word buf p =
     (if length buf \<le> p then None
      else if buf ! p \<noteq> 0 \<and> \<not> blank (buf ! p) then skip_word buf (p + 1) else Some p)"
  by pat_completeness auto
termination by (relation "measure (\<lambda>(buf, p). length buf - p)") auto

declare skip_blanks.simps [simp del] skip_word.simps [simp del]

text \<open>The loop, with fuel for the bytes of the line: every turn takes one.\<close>

fun split_loop :: "nat \<Rightarrow> u8 list \<Rightarrow> nat \<Rightarrow> nat list \<Rightarrow> nat \<Rightarrow> (nat list \<times> u8 list) option" where
  "split_loop 0 buf p argv mx = None"
| "split_loop (Suc n) buf p argv mx =
     (if length buf \<le> p then None
      else if buf ! p = 0 then Some (argv, buf)
      else
        do { (buf1, p1) \<leftarrow> skip_blanks buf p;
             if buf1 ! p1 = 0 then Some (argv, buf1)
             else if mx \<le> length argv + 1 then Some (argv, buf1)
             else do { p2 \<leftarrow> skip_word buf1 p1; split_loop n buf1 p2 (argv @ [p1]) mx } })"

definition split_args :: "u8 list \<Rightarrow> nat \<Rightarrow> (nat list \<times> u8 list) option" where
  "split_args buf mx = split_loop (length buf) buf 0 [] mx"

section \<open>What a line asks for\<close>

text \<open>Where the output goes: the path, and whether it is appended.\<close>

type_synonym sh_redir = "(cstr \<times> bool) option"

datatype sh_cmd =
    Sh_nothing
  | Sh_no_path
  | Sh_cd cstr
  | Sh_pwd sh_redir
  | Sh_exit int
  | Sh_too_long
  | Sh_run cstr "cstr list" cstr sh_redir

text \<open>The first redirection is cut out of the words; \<open>None\<close> says that its path is missing.\<close>

fun cut_redir :: "cstr list \<Rightarrow> cstr list \<Rightarrow> (cstr list \<times> sh_redir) option" where
  "cut_redir before [] = Some (before, None)"
| "cut_redir before (w # ws) =
     (if w = lit ''>'' \<or> w = lit ''>>'' then
        (case ws of [] \<Rightarrow> None | path # ws' \<Rightarrow> Some (before @ ws', Some (path, w = lit ''>>'')))
      else cut_redir (before @ [w]) ws)"

definition command_path :: "cstr \<Rightarrow> cstr option" where
  "command_path name =
     (if u_strchr name 0x2F \<noteq> None then Some (take 127 name)
      else if 5 + length name + 1 > 128 then None
      else Some (lit ''/bin/'' @ name))"

text \<open>\<open>None\<close> is the comparison of \<^verbatim>\<open>argv[0]\<close> with a name when it is \<^verbatim>\<open>NULL\<close>.\<close>

definition run_command :: "cstr list \<Rightarrow> sh_cmd option" where
  "run_command argv =
     (if argv = [] then Some Sh_nothing
      else
        (case cut_redir [] argv of
           None \<Rightarrow> Some Sh_no_path
         | Some (args, redir) \<Rightarrow>
             (case args of
                [] \<Rightarrow> None
              | name # rest \<Rightarrow>
                  Some (if name = lit ''cd'' then Sh_cd (case rest of [] \<Rightarrow> lit ''/'' | d # _ \<Rightarrow> d)
                        else if name = lit ''pwd'' then Sh_pwd redir
                        else if name = lit ''exit'' then
                          Sh_exit (case rest of [] \<Rightarrow> 0 | a # _ \<Rightarrow> u_atoi (Some a))
                        else
                          (let prog = (if name = lit ''vim'' then lit ''vi''
                                       else if name = lit ''shutdown'' then lit ''poweroff'' else name) in
                           case command_path prog of
                             None \<Rightarrow> Sh_too_long
                           | Some path \<Rightarrow> Sh_run path (prog # rest) name redir)))))"

text \<open>One turn of the loop of \<^verbatim>\<open>main\<close>: a line is read and taken apart; an empty one is left out.\<close>

definition sh_turn :: "sh_env \<Rightarrow> u8 list \<Rightarrow> u8 list \<Rightarrow> (sh_cmd \<times> u8 list \<times> cstr) option" where
  "sh_turn env input line =
     do { (n, line1, input1, out) \<leftarrow> read_line env input line;
          if n \<le> 0 then Some (Sh_nothing, input1, print_prompt (cur_dir env) @ out)
          else
            do { (argv, line2) \<leftarrow> split_args line1 MAX_ARGS;
                 cmd \<leftarrow> run_command (map (\<lambda>p. cstr_of (drop p line2)) argv);
                 Some (cmd, input1, print_prompt (cur_dir env) @ out) } }"

end
