(* ===== verification/Shell_Props.thy ===== *)
theory Shell_Props
  imports User_Shell
begin

text \<open>
  What the shell promises: the line stays in its buffer whatever is typed, its words are those
  between the blanks, and a completion keeps every name that matched.
\<close>

section \<open>Words\<close>

function line_words :: "cstr \<Rightarrow> cstr list" where
  "line_words cs =
     (let d = dropWhile blank cs in
      if d = [] then []
      else takeWhile (\<lambda>c. \<not> blank c) d # line_words (dropWhile (\<lambda>c. \<not> blank c) d))"
  by pat_completeness auto
termination
proof (relation "measure length")
  fix cs d :: cstr
  assume d: "d = dropWhile blank cs" and ne: "d \<noteq> []"
  have "length (dropWhile (\<lambda>c. \<not> blank c) d) < length d"
  proof (cases d)
    case (Cons c cs')
    have "\<not> blank (hd d)" unfolding d by (rule hd_dropWhile) (use ne d in simp)
    then show ?thesis using length_dropWhile_le [of "\<lambda>c. \<not> blank c" cs'] by (simp add: Cons)
  qed (use ne in simp)
  moreover have "length d \<le> length cs" by (simp add: d length_dropWhile_le)
  ultimately show "(dropWhile (\<lambda>c. \<not> blank c) d, cs) \<in> measure length" by simp
qed simp

declare line_words.simps [simp del]

lemma skip_blanks_line:
  "nul_free cs \<Longrightarrow> skip_blanks (pre @ cs @ 0 # rest) (length pre) =
     Some (pre @ replicate (length (takeWhile blank cs)) 0 @ dropWhile blank cs @ 0 # rest,
           length pre + length (takeWhile blank cs))"
proof (induction cs arbitrary: pre)
  case Nil
  then show ?case by (subst skip_blanks.simps) simp
next
  case (Cons c cs)
  show ?case
  proof (cases "blank c")
    case True
    have "skip_blanks ((pre @ [0]) @ cs @ 0 # rest) (length (pre @ [0])) =
        Some ((pre @ [0]) @ replicate (length (takeWhile blank cs)) 0 @ dropWhile blank cs @ 0 # rest,
              length (pre @ [0]) + length (takeWhile blank cs))"
      by (rule Cons.IH) (use Cons.prems in simp)
    then show ?thesis using True Cons.prems by (subst skip_blanks.simps) (simp add: list_update_append)
  next
    case False
    then show ?thesis by (subst skip_blanks.simps) simp
  qed
qed

lemma skip_word_line:
  "nul_free cs \<Longrightarrow> skip_word (pre @ cs @ 0 # rest) (length pre) =
     Some (length pre + length (takeWhile (\<lambda>c. \<not> blank c) cs))"
proof (induction cs arbitrary: pre)
  case Nil
  then show ?case by (subst skip_word.simps) simp
next
  case (Cons c cs)
  have "skip_word ((pre @ [c]) @ cs @ 0 # rest) (length (pre @ [c])) =
      Some (length (pre @ [c]) + length (takeWhile (\<lambda>c. \<not> blank c) cs))"
    by (rule Cons.IH) (use Cons.prems in simp)
  then show ?case using Cons.prems by (subst skip_word.simps) simp
qed

lemma split_loop_line:
  "length cs < n \<Longrightarrow> nul_free cs \<Longrightarrow> \<exists>as out.
     split_loop n (pre @ cs @ 0 # rest) (length pre) argv mx = Some (argv @ as, pre @ out) \<and>
     (cs = [] \<or> blank (hd cs) \<longrightarrow> (\<exists>out'. out = 0 # out')) \<and>
     map (\<lambda>p. cstr_of (drop p (pre @ out))) as = take (mx - 1 - length argv) (line_words cs)"
proof (induction n arbitrary: cs pre argv)
  case (Suc n)
  let ?d = "dropWhile blank cs" and ?k = "length (takeWhile blank cs)"
  have sk: "skip_blanks (pre @ cs @ 0 # rest) (length pre) = Some (pre @ replicate ?k 0 @ ?d @ 0 # rest, length pre + ?k)"
    by (rule skip_blanks_line [OF Suc.prems(2)])
  have nf: "nul_free ?d" using Suc.prems(2) by (auto simp: nul_free_def dest: set_dropWhileD)
  have first: "\<exists>out'. replicate ?k (0 :: u8) @ xs = 0 # out'" if "cs \<noteq> []" "blank (hd cs)" for xs
    using that by (cases cs) auto
  show ?case
  proof (cases "cs = []")
    case True
    then show ?thesis by (intro exI [of _ "[]"] exI [of _ "0 # rest"]) (simp add: line_words.simps)
  next
    case ne: False
    then have c0: "(pre @ cs @ 0 # rest) ! length pre \<noteq> 0" using Suc.prems(2) by (cases cs) auto
    show ?thesis
    proof (cases "?d = [] \<or> mx \<le> length argv + 1")
      case True
      then have "split_loop (Suc n) (pre @ cs @ 0 # rest) (length pre) argv mx =
          Some (argv, pre @ replicate ?k 0 @ ?d @ 0 # rest)"
        using c0 sk by (auto simp: nth_append)
      moreover have "take (mx - 1 - length argv) (line_words cs) = []"
        using True by (auto simp: line_words.simps [of cs])
      ultimately show ?thesis
        using first ne by (intro exI [of _ "[]"] exI [of _ "replicate ?k 0 @ ?d @ 0 # rest"]) auto
    next
      case False
      let ?w = "takeWhile (\<lambda>c. \<not> blank c) ?d" and ?r = "dropWhile (\<lambda>c. \<not> blank c) ?d"
      let ?pre = "pre @ replicate ?k 0 @ ?w" and ?p = "length pre + ?k"
      have d: "?d = ?w @ ?r" by simp
      have w: "?w \<noteq> []" using False hd_dropWhile [of blank cs] by (cases ?d) auto
      have nr: "nul_free ?r" "nul_free ?w" using nf by (auto simp: nul_free_def dest: set_dropWhileD set_takeWhileD)
      have "length ?w + length ?r \<le> length cs" by (metis d length_append length_dropWhile_le)
      then have lr: "length ?r < n" using w Suc.prems(1) by (cases ?w) auto
      have sw: "skip_word (pre @ replicate ?k 0 @ ?d @ 0 # rest) ?p = Some (length ?pre)"
        using skip_word_line [OF nf, of "pre @ replicate ?k 0" rest] by simp
      have line: "pre @ replicate ?k 0 @ ?d @ 0 # rest = ?pre @ ?r @ 0 # rest" by simp
      obtain as out where ih: "split_loop n (?pre @ ?r @ 0 # rest) (length ?pre) (argv @ [?p]) mx = Some (argv @ [?p] @ as, ?pre @ out)"
        "?r = [] \<or> blank (hd ?r) \<longrightarrow> (\<exists>out'. out = 0 # out')"
        "map (\<lambda>p. cstr_of (drop p (?pre @ out))) as = take (mx - 1 - length (argv @ [?p])) (line_words ?r)"
        using Suc.IH [OF lr nr(1), of ?pre "argv @ [?p]"] by auto
      have "?r = [] \<or> blank (hd ?r)" using hd_dropWhile [of "\<lambda>c. \<not> blank c" ?d] by blast
      then obtain out' where out': "out = 0 # out'" using ih(2) by blast
      have "(pre @ replicate ?k 0 @ ?d @ 0 # rest) ! ?p \<noteq> 0"
        using nf False by (cases ?d) (auto simp: nth_append)
      then have "split_loop (Suc n) (pre @ cs @ 0 # rest) (length pre) argv mx = Some (argv @ ?p # as, ?pre @ out)"
        using c0 sk sw False ih(1) unfolding line by simp
      moreover have "cstr_of (drop ?p (?pre @ out)) = ?w" using nr(2) by (simp add: out')
      moreover have "line_words cs = ?w # line_words ?r" using False by (simp add: line_words.simps [of cs] Let_def)
      moreover have "mx - 1 - length argv = Suc (mx - 1 - length (argv @ [?p]))" using False by (simp; linarith)
      ultimately show ?thesis
        using ih(3) first ne w by (intro exI [of _ "?p # as"] exI [of _ "replicate ?k 0 @ ?w @ out"]) auto
    qed
  qed
qed simp

lemma split_args_line:
  assumes "0 \<in> set line"
  shows "\<exists>argv line'. split_args line mx = Some (argv, line') \<and>
    map (\<lambda>p. cstr_of (drop p line')) argv = take (mx - 1) (line_words (cstr_of line))"
proof -
  obtain cs rest where line: "line = cs @ 0 # rest" and nf: "0 \<notin> set cs" using split_list_first [OF assms] by blast
  have "cstr_of line = cs" using nf by (simp add: line nul_free_def)
  moreover have "length cs < length line" by (simp add: line)
  ultimately show ?thesis
    using split_loop_line [of cs "length line" "[]" rest "[]" mx] nf by (auto simp: split_args_def line nul_free_def)
qed

section \<open>The line editor\<close>

lemma put_at_length: "put_at buf i c = Some buf' \<Longrightarrow> length buf' = length buf"
  by (auto simp: put_at_def split: if_splits)

lemma put_all_length: "put_all buf i cs = Some buf' \<Longrightarrow> length buf' = length buf"
  by (auto simp: put_all_def split: if_splits)

lemma put_at_in: "i < length buf \<Longrightarrow> put_at buf i c = Some (buf[i := c])"
  by (simp add: put_at_def)

lemma insert_common_fits:
  assumes "len < length buf"
  shows "\<exists>buf' len' out. insert_common ms prefix buf len = Some (buf', len', out) \<and>
    length buf' = length buf \<and> len' < length buf"
proof -
  let ?add0 = "common_prefix_len ms prefix - length prefix"
  let ?add1 = "if length buf \<le> len + ?add0 then length buf - len - 1 else ?add0"
  let ?text = "take ?add1 (drop (length prefix) (m_name (hd ms)))"
  have a: "len + ?add1 < length buf" using assms by (cases "length buf \<le> len + ?add0") (simp; linarith)+
  show ?thesis
  proof (cases "common_prefix_len ms prefix > length prefix \<and> ?add1 > 0")
    case True
    have "length ?text \<le> ?add1" by simp
    then have "len + length ?text \<le> length buf" using a by linarith
    then obtain buf1 where b1: "put_all buf len ?text = Some buf1" by (simp only: put_all_def if_True)
    have "length buf1 = length buf" by (rule put_all_length [OF b1])
    then have "put_at buf1 (len + ?add1) 0 = Some (buf1[len + ?add1 := 0])" by (intro put_at_in) (use a in simp)
    then show ?thesis
      using True a b1 \<open>length buf1 = length buf\<close> unfolding insert_common_def Let_def by (simp only: if_True Option.bind.bind_lunit) auto
  next
    case False
    then have "insert_common ms prefix buf len = Some (buf, len, [])"
      unfolding insert_common_def Let_def by (rule if_not_P)
    then show ?thesis using assms by blast
  qed
qed

lemma complete_fits:
  assumes "len < length buf"
  shows "\<exists>buf' len' out. complete env buf len = Some (buf', len', out) \<and>
    length buf' = length buf \<and> len' < length buf"
proof -
  let ?b = "buf[len := 0]" and ?start = "word_start (buf[len := 0]) len"
  let ?tl = "if len - ?start \<ge> 256 then 255 else len - ?start"
  obtain scan_dir prefix where sc:
    "scan_target (?start = 0) (cstr_of (take ?tl (drop ?start ?b) @ [0])) = (scan_dir, prefix)"
    by (metis surj_pair)
  let ?ms = "collect_matches (list_dir env scan_dir) prefix MAX_MATCHES"
  obtain buf1 len1 out1 where i: "insert_common ?ms prefix ?b len = Some (buf1, len1, out1)"
    "length buf1 = length buf" "len1 < length buf"
    using insert_common_fits [of len ?b ?ms prefix] assms by auto
  have p: "put_at buf len 0 = Some ?b" by (rule put_at_in [OF assms])
  show ?thesis
    using assms i by (auto simp: complete_def p sc Let_def put_at_def simp del: word_start.simps)
qed

lemma read_line_loop_fits:
  "len < length buf \<Longrightarrow> \<exists>n buf' input' out'. read_line_loop env input buf len out = Some (n, buf', input', out') \<and>
     length buf' = length buf \<and> (n = - 1 \<or> 0 \<le> n \<and> n < int (length buf) \<and> buf' ! nat n = 0) \<and>
     (\<exists>typed. input = typed @ input')"
proof (induction input arbitrary: buf len out)
  case Nil
  then show ?case by simp
next
  case (Cons c0 input)
  let ?c = "if c0 = 0x0D then 0x0A else c0"
  have ih: "\<exists>n buf' input' out'. read_line_loop env input b l o1 = Some (n, buf', input', out') \<and>
     length buf' = length buf \<and> (n = - 1 \<or> 0 \<le> n \<and> n < int (length buf) \<and> buf' ! nat n = 0) \<and>
     (\<exists>typed. c0 # input = typed @ input')" if "length b = length buf" "l < length buf" for b l o1
  proof -
    have "l < length b" using that by simp
    from Cons.IH [OF this, of o1, unfolded that(1)]
    obtain n buf' input' out' typed where "read_line_loop env input b l o1 = Some (n, buf', input', out')"
     "length buf' = length buf" "n = - 1 \<or> 0 \<le> n \<and> n < int (length buf) \<and> buf' ! nat n = 0" "input = typed @ input'"
      by blast
    then show ?thesis by (metis append_Cons)
  qed
  consider "?c = 0x0A" | "?c \<noteq> 0x0A" "?c = 0x7F \<or> ?c = 0x08" | "?c = 0x09"
    | "?c \<noteq> 0x0A" "\<not> (?c = 0x7F \<or> ?c = 0x08)" "?c \<noteq> 0x09" by blast
  then show ?case
  proof cases
    case 1
    then show ?thesis using Cons.prems by (simp add: put_at_def Let_def)
  next
    case 2
    show ?thesis
    proof (cases "len > 0")
      case True
      have "put_at buf (len - 1) 0 = Some (buf[len - 1 := 0])" by (rule put_at_in) (use Cons.prems in simp)
      then have e: "read_line_loop env (c0 # input) buf len out =
          read_line_loop env input (buf[len - 1 := 0]) (len - 1) (out @ [0x08, 0x20, 0x08])"
        using 2 True by (simp only: read_line_loop.simps Let_def if_True if_False Option.bind.bind_lunit simp_thms)
      show ?thesis unfolding e by (rule ih) (use Cons.prems in simp_all)
    next
      case False
      then have e: "read_line_loop env (c0 # input) buf len out = read_line_loop env input buf len out"
        using 2 by (simp only: read_line_loop.simps Let_def if_True if_False simp_thms)
      show ?thesis unfolding e by (rule ih) (use Cons.prems in simp_all)
    qed
  next
    case 3
    obtain buf1 len1 shown where c: "complete env buf len = Some (buf1, len1, shown)" "length buf1 = length buf" "len1 < length buf"
      using complete_fits [OF Cons.prems] by blast
    have e: "read_line_loop env (c0 # input) buf len out = read_line_loop env input buf1 len1 (out @ shown)"
      using 3 c(1) by simp
    show ?thesis unfolding e by (rule ih) (use c in simp_all)
  next
    case 4
    show ?thesis
    proof (cases "len + 1 < length buf")
      case True
      have "put_at buf len ?c = Some (buf[len := ?c])" by (rule put_at_in) (use Cons.prems in simp)
      moreover have "put_at (buf[len := ?c]) (len + 1) 0 = Some (buf[len := ?c, len + 1 := 0])" by (rule put_at_in) (use True in simp)
      ultimately have e: "read_line_loop env (c0 # input) buf len out =
          read_line_loop env input (buf[len := ?c, len + 1 := 0]) (len + 1) (out @ [?c])"
        using 4 True by (simp only: read_line_loop.simps Let_def if_True if_False Option.bind.bind_lunit simp_thms)
      show ?thesis unfolding e by (rule ih) (use True in simp_all)
    next
      case False
      then have e: "read_line_loop env (c0 # input) buf len out = read_line_loop env input buf len out"
        using 4 by (simp only: read_line_loop.simps Let_def if_False simp_thms)
      show ?thesis unfolding e by (rule ih) (use Cons.prems in simp_all)
    qed
  qed
qed

text \<open>
  C36. Whatever is typed and whatever the directories hold, \<^verbatim>\<open>read_line\<close> stays inside its buffer: it
  returns -1 when the input ends and otherwise a length below the size, with the NUL there; what is left
  of the input is its end.  \<^verbatim>\<open>split_args\<close> then stays inside the line too, and the arguments it leaves
  are the first \<open>MAX_ARGS - 1\<close> words of the line between its blanks.
\<close>

theorem shell_reads_words:
  assumes "line \<noteq> []"
  shows "\<exists>n line1 rest out. read_line env input line = Some (n, line1, rest, out) \<and> length line1 = length line \<and>
    (\<exists>typed. input = typed @ rest) \<and>
    (n = - 1 \<or>
     0 \<le> n \<and> n < int (length line) \<and> line1 ! nat n = 0 \<and>
     (\<exists>argv line2. split_args line1 MAX_ARGS = Some (argv, line2) \<and>
        map (\<lambda>p. cstr_of (drop p line2)) argv = take 15 (line_words (cstr_of line1))))"
proof -
  have p: "put_at line 0 0 = Some (line[0 := 0])" by (rule put_at_in) (use assms in simp)
  obtain n line1 rest out where r: "read_line_loop env input (line[0 := 0]) 0 [] = Some (n, line1, rest, out)"
    "length line1 = length line" "n = - 1 \<or> 0 \<le> n \<and> n < int (length line) \<and> line1 ! nat n = 0"
    "\<exists>typed. input = typed @ rest"
    using read_line_loop_fits [of 0 "line[0 := 0]" env input "[]"] assms by auto
  have "\<exists>argv line2. split_args line1 MAX_ARGS = Some (argv, line2) \<and>
      map (\<lambda>p. cstr_of (drop p line2)) argv = take 15 (line_words (cstr_of line1))" if "n \<noteq> - 1"
  proof -
    have "0 \<in> set line1" using r(2,3) that by (metis in_set_conv_nth nat_less_iff)
    then show ?thesis using split_args_line [of line1 MAX_ARGS] by simp
  qed
  then show ?thesis using r p by (auto simp: read_line_def)
qed

lemma shell_reads_words_witness:
  "let env = \<lparr>list_dir = (\<lambda>d. None), cur_dir = None, have_memory = True\<rparr> in
   \<exists>n line1 rest out. read_line env (lit ''ls -l'' @ [0x0A]) (replicate 256 0) = Some (n, line1, rest, out) \<and>
     length line1 = 256 \<and> rest = [] \<and> n = 5 \<and>
     (\<exists>argv line2. split_args line1 16 = Some (argv, line2) \<and>
        map (\<lambda>p. cstr_of (drop p line2)) argv = [lit ''ls'', lit ''-l''])"
proof -
  let ?env = "\<lparr>list_dir = (\<lambda>d :: cstr. None :: (cstr \<times> u8) list option), cur_dir = None, have_memory = True\<rparr>"
  have ne: "replicate 256 (0 :: u8) \<noteq> []" by simp
  have r: "read_line ?env (lit ''ls -l'' @ [0x0A]) (replicate 256 0) =
      Some (5, lit ''ls -l'' @ replicate 251 0, [], lit ''ls -l'' @ [0x0A])"
    by code_simp
  have w: "line_words (cstr_of (lit ''ls -l'' @ replicate 251 0)) = [lit ''ls'', lit ''-l'']"
    by code_simp
  show ?thesis
    using shell_reads_words [OF ne, of ?env "lit ''ls -l'' @ [0x0A]"] r w by (auto simp: Let_def)
qed

end
