(* ===== verification/Shell_Thms.thy ===== *)
theory Shell_Thms
  imports Shell_Props
begin

section \<open>Sorting the names\<close>

lemma ci_cmp_swap: "ci_cmp b a = - ci_cmp a b"
  by (induction a b rule: ci_cmp.induct) auto

lemma ci_cmp_Nil [simp]: "ci_cmp [] c \<le> 0"
  by (cases c) auto

lemma ci_cmp_trans:
  "nul_free a \<Longrightarrow> nul_free b \<Longrightarrow> nul_free c \<Longrightarrow> ci_cmp a b \<le> 0 \<Longrightarrow> ci_cmp b c \<le> 0 \<Longrightarrow> ci_cmp a c \<le> 0"
proof (induction a b arbitrary: c rule: ci_cmp.induct)
  case (1 x as y bs)
  show ?case
  proof (cases c)
    case Nil
    then show ?thesis using 1 by (auto simp: uint_0_iff)
  next
    case (Cons z cs)
    then show ?thesis using 1 by (auto split: if_splits)
  qed
qed (auto simp: uint_0_iff)

definition name_le :: "match \<Rightarrow> match \<Rightarrow> bool" where
  "name_le a b \<longleftrightarrow> ci_cmp (m_name a) (m_name b) \<le> 0"

lemma name_le_total: "\<not> name_le a b \<Longrightarrow> name_le b a"
  using ci_cmp_swap [of "m_name b" "m_name a"] by (simp add: name_le_def)

abbreviation names_ok :: "match list \<Rightarrow> bool" where
  "names_ok ms \<equiv> \<forall>m\<in>set ms. nul_free (m_name m)"

lemma name_le_trans:
  "nul_free (m_name a) \<Longrightarrow> nul_free (m_name b) \<Longrightarrow> nul_free (m_name c) \<Longrightarrow> name_le a b \<Longrightarrow> name_le b c \<Longrightarrow> name_le a c"
  unfolding name_le_def by (rule ci_cmp_trans)

lemma sort_pair_eq: "sort_pair i j ms = (if name_le (ms ! i) (ms ! j) then ms else ms[i := ms ! j, j := ms ! i])"
  by (simp add: sort_pair_def name_le_def not_less)

text \<open>After a row the element \<open>i\<close> is below all behind it, and what is in front stays.\<close>

lemma sort_row_step:
  assumes "i < j" and "j \<le> length ms" and "names_ok ms"
  shows "let ms' = fold (sort_pair i) [i + 1..<j] ms in
    mset ms' = mset ms \<and> (\<forall>k<i. ms' ! k = ms ! k) \<and> (\<forall>k. i < k \<longrightarrow> k < j \<longrightarrow> name_le (ms' ! i) (ms' ! k)) \<and>
    (\<forall>k. i \<le> k \<longrightarrow> k < length ms \<longrightarrow> (\<exists>l. i \<le> l \<and> l < length ms \<and> ms' ! k = ms ! l))"
  using assms(1,2)
proof (induction j)
  case (Suc j)
  show ?case
  proof (cases "i < j")
    case False
    then have "j = i" using Suc.prems(1) by simp
    then show ?thesis by (auto simp: Let_def)
  next
    case True
    let ?m = "fold (sort_pair i) [i + 1..<j] ms"
    have ih: "mset ?m = mset ms" "\<forall>k<i. ?m ! k = ms ! k" "\<forall>k. i < k \<longrightarrow> k < j \<longrightarrow> name_le (?m ! i) (?m ! k)"
      "\<forall>k. i \<le> k \<longrightarrow> k < length ms \<longrightarrow> (\<exists>l. i \<le> l \<and> l < length ms \<and> ?m ! k = ms ! l)"
      using Suc.IH [OF True] Suc.prems(2) by (simp_all add: Let_def)
    have len: "length ?m = length ms" by (rule mset_eq_length [OF ih(1)])
    have ok: "names_ok ?m" using assms(3) mset_eq_setD [OF ih(1)] by simp
    have j: "j < length ?m" "i < length ?m" using Suc.prems(2) True len by simp_all
    have f: "fold (sort_pair i) [i + 1..<Suc j] ms = sort_pair i j ?m" using True by simp
    have nf: "nul_free (m_name (?m ! k))" if "k < length ?m" for k using ok that by simp
    show ?thesis
    proof (cases "name_le (?m ! i) (?m ! j)")
      case le: True
      then show ?thesis unfolding f Let_def sort_pair_eq [of i j ?m] using ih by (auto simp: less_Suc_eq)
    next
      case False
      let ?n = "?m[i := ?m ! j, j := ?m ! i]"
      have "mset ?n = mset ?m" by (rule mset_swap [OF j(1) j(2)])
      moreover have "name_le (?n ! i) (?n ! k)" if "i < k" "k < Suc j" for k
      proof (cases "k = j")
        case True
        then show ?thesis using j \<open>i < j\<close> name_le_total [OF False] by simp
      next
        case kj: False
        then have "name_le (?m ! j) (?m ! k)"
          using ih(3) that name_le_total [OF False] name_le_trans [OF nf nf nf, of j i k] j Suc.prems(2) len by simp
        then show ?thesis using that kj \<open>i < j\<close> j by simp
      qed
      moreover have "\<exists>l. i \<le> l \<and> l < length ms \<and> ?n ! k = ms ! l" if "i \<le> k" "k < length ms" for k
        using ih(4) that j \<open>i < j\<close> len by (cases "k = i"; cases "k = j") auto
      moreover have "\<forall>k<i. ?n ! k = ms ! k" using ih(2) \<open>i < j\<close> by simp
      ultimately show ?thesis unfolding f Let_def sort_pair_eq [of i j ?m] using False ih(1) by simp
    qed
  qed
qed simp

lemma sort_rows:
  "i \<le> length ms \<Longrightarrow> names_ok ms \<Longrightarrow>
   let ms' = fold sort_row [0..<i] ms in mset ms' = mset ms \<and> (\<forall>a<i. \<forall>b. a < b \<longrightarrow> b < length ms \<longrightarrow> name_le (ms' ! a) (ms' ! b))"
proof (induction i)
  case (Suc i)
  let ?m = "fold sort_row [0..<i] ms"
  have ih: "mset ?m = mset ms" "\<And>a b. a < i \<Longrightarrow> a < b \<Longrightarrow> b < length ms \<Longrightarrow> name_le (?m ! a) (?m ! b)"
    using Suc by (simp_all add: Let_def)
  have len: "length ?m = length ms" by (rule mset_eq_length [OF ih(1)])
  have ok: "names_ok ?m" using Suc.prems(2) mset_eq_setD [OF ih(1)] by simp
  let ?n = "sort_row i ?m"
  have n: "mset ?n = mset ?m" "\<And>k. k < i \<Longrightarrow> ?n ! k = ?m ! k"
    "\<And>k. i < k \<Longrightarrow> k < length ms \<Longrightarrow> name_le (?n ! i) (?n ! k)"
    "\<And>k. i \<le> k \<Longrightarrow> k < length ms \<Longrightarrow> \<exists>l. i \<le> l \<and> l < length ms \<and> ?n ! k = ?m ! l"
    using sort_row_step [of i "length ?m" ?m] ok Suc.prems(1) len by (auto simp: sort_row_def Let_def)
  have "name_le (?n ! a) (?n ! b)" if ai: "a < Suc i" and ab: "a < b" and b: "b < length ms" for a b
  proof (cases "a = i")
    case True
    then show ?thesis using n(3) ab b by simp
  next
    case False
    then have a: "a < i" using ai by simp
    show ?thesis
    proof (cases "b < i")
      case True
      then show ?thesis using n(2) a ih(2) ab b by simp
    next
      case False
      then obtain l where "i \<le> l" "l < length ms" "?n ! b = ?m ! l" using n(4) [OF _ b] by (meson not_less)
      then show ?thesis using n(2) [OF a] ih(2) [of a l] a by simp
    qed
  qed
  then show ?case using n(1) ih(1) by (simp add: Let_def)
qed simp

lemma sort_matches_sorts:
  assumes "names_ok ms"
  shows "mset (sort_matches ms) = mset ms" "sorted_wrt name_le (sort_matches ms)"
proof -
  have s: "mset (sort_matches ms) = mset ms"
    "\<forall>a<length ms. \<forall>b. a < b \<longrightarrow> b < length ms \<longrightarrow> name_le (sort_matches ms ! a) (sort_matches ms ! b)"
    using sort_rows [of "length ms" ms] assms by (simp_all add: sort_matches_def Let_def)
  have "length (sort_matches ms) = length ms" by (rule mset_eq_length [OF s(1)])
  then show "sorted_wrt name_le (sort_matches ms)" using s(2) by (simp add: sorted_wrt_iff_nth_less)
  show "mset (sort_matches ms) = mset ms" by (rule s(1))
qed

section \<open>What all names share\<close>

lemma starts_with_ci_iff:
  "starts_with_ci s p \<longleftrightarrow> length p \<le> length s \<and> map lower (take (length p) s) = map lower p"
  by (induction s p rule: starts_with_ci.induct) auto

text \<open>The first \<open>n\<close> bytes agree but for case.\<close>

definition agree :: "cstr \<Rightarrow> cstr \<Rightarrow> nat \<Rightarrow> bool" where
  "agree a b n \<longleftrightarrow> n \<le> length b \<and> (\<forall>i<n. lower (a ! i) = lower (b ! i))"

lemma agree_loop_stops:
  "j \<le> limit \<Longrightarrow> \<forall>i<j. lower (a ! i) = lower (b ! i) \<Longrightarrow>
     agree_loop a b j limit \<le> limit \<and> (\<forall>i<agree_loop a b j limit. lower (a ! i) = lower (b ! i)) \<and>
     (agree_loop a b j limit < limit \<longrightarrow> lower (a ! agree_loop a b j limit) \<noteq> lower (b ! agree_loop a b j limit))"
proof (induction a b j limit rule: agree_loop.induct)
  case (1 a b j limit)
  show ?case
  proof (cases "j < limit \<and> lower (a ! j) = lower (b ! j)")
    case True
    then have e: "agree_loop a b j limit = agree_loop a b (j + 1) limit" by (subst agree_loop.simps) simp
    show ?thesis unfolding e by (rule "1.IH") (use True "1.prems" in \<open>auto simp: less_Suc_eq\<close>)
  next
    case False
    then have "agree_loop a b j limit = j" by (subst agree_loop.simps) auto
    then show ?thesis using False "1.prems" by auto
  qed
qed

lemma limit_loop_longest:
  "limit_loop a ms limit \<le> limit \<and> (\<forall>m\<in>set ms. agree a (m_name m) (limit_loop a ms limit)) \<and>
   (\<forall>n\<le>limit. (\<forall>m\<in>set ms. agree a (m_name m) n) \<longrightarrow> n \<le> limit_loop a ms limit)"
proof (induction ms arbitrary: limit)
  case (Cons m ms)
  let ?l1 = "if length (m_name m) < limit then length (m_name m) else limit"
  let ?r1 = "agree_loop a (m_name m) 0 ?l1"
  have e: "limit_loop a (m # ms) limit = limit_loop a ms ?r1" by (simp add: Let_def)
  have r1: "?r1 \<le> ?l1" "\<forall>i<?r1. lower (a ! i) = lower (m_name m ! i)"
    "?r1 < ?l1 \<longrightarrow> lower (a ! ?r1) \<noteq> lower (m_name m ! ?r1)"
    using agree_loop_stops [of 0 ?l1 a "m_name m"] by simp_all
  have l1: "?l1 \<le> limit" "?l1 \<le> length (m_name m)" by simp_all
  note ih = Cons.IH [of ?r1]
  have r: "limit_loop a ms ?r1 \<le> ?r1" using ih by blast
  have "agree a (m_name m) (limit_loop a ms ?r1)" using r r1 l1 by (auto simp: agree_def)
  moreover have "n \<le> ?r1" if "agree a (m_name m) n" "n \<le> limit" for n
  proof (rule ccontr)
    assume "\<not> n \<le> ?r1"
    then have "?r1 < n" "n \<le> ?l1" using that by (auto simp: agree_def)
    then show False using r1(3) that(1) by (auto simp: agree_def)
  qed
  ultimately show ?case unfolding e using ih r r1(1) l1 by auto
qed simp

lemma agree_iff: "n \<le> length a \<Longrightarrow> agree a b n \<longleftrightarrow> n \<le> length b \<and> map lower (take n b) = map lower (take n a)"
  by (auto simp: agree_def list_eq_iff_nth_eq)

lemma collect_loop_takes:
  "length out \<le> mx \<Longrightarrow> collect_loop ents prefix mx out =
     out @ take (mx - length out) (map (\<lambda>(n, t). \<lparr>m_name = take 255 n, m_type = t\<rparr>)
       (filter (\<lambda>(n, t). n \<noteq> lit ''.'' \<and> n \<noteq> lit ''..'' \<and> starts_with_ci n prefix) ents))"
proof (induction ents prefix mx out rule: collect_loop.induct)
  case (2 name ty ents prefix mx out)
  show ?case
  proof (cases "mx = length out")
    case True
    then show ?thesis using 2 by simp
  next
    case False
    then obtain k where "mx = length out + Suc k" using "2.prems" less_imp_Suc_add [of "length out" mx] by auto
    then show ?thesis using 2 by simp
  qed
qed simp

text \<open>
  C37. The names offered for a word are those of the directory that begin with it but for case, the
  first \<open>mx\<close> of them, in the order of \<^verbatim>\<open>ci_cmp\<close>.  What is added to the word is the longest text that
  all of them go on with, so the word completed is still the beginning of every one.
\<close>

theorem completion_keeps_names:
  assumes "\<forall>(n, t)\<in>set ents. nul_free n" and "length prefix \<le> 255"
    and ms_is: "ms = collect_matches (Some ents) prefix mx" and k_is: "k = common_prefix_len ms prefix"
  shows "mset ms = mset (take mx (map (\<lambda>(n, t). \<lparr>m_name = take 255 n, m_type = t\<rparr>)
      (filter (\<lambda>(n, t). n \<noteq> lit ''.'' \<and> n \<noteq> lit ''..'' \<and> starts_with_ci n prefix) ents))) \<and>
    sorted_wrt (\<lambda>a b. ci_cmp (m_name a) (m_name b) \<le> 0) ms \<and>
    (\<forall>m\<in>set ms. starts_with_ci (m_name m) (prefix @ take (k - length prefix) (drop (length prefix) (m_name (hd ms))))) \<and>
    (ms \<noteq> [] \<longrightarrow> (\<forall>n. (\<forall>m\<in>set ms. agree (m_name (hd ms)) (m_name m) n) \<longrightarrow> n \<le> k))"
proof -
  let ?c = "take mx (map (\<lambda>(n, t). \<lparr>m_name = take 255 n, m_type = t\<rparr>)
      (filter (\<lambda>(n, t). n \<noteq> lit ''.'' \<and> n \<noteq> lit ''..'' \<and> starts_with_ci n prefix) ents))"
  have ms: "ms = sort_matches ?c" using collect_loop_takes [of "[]" mx ents prefix] by (simp add: ms_is collect_matches_def)
  have each: "\<exists>n t. (n, t) \<in> set ents \<and> starts_with_ci n prefix \<and> m_name m = take 255 n" if "m \<in> set ?c" for m
    using in_set_takeD [OF that] by auto
  have ok: "names_ok ?c"
    using each assms(1) by (fastforce simp: nul_free_def dest: in_set_takeD)
  note s = sort_matches_sorts [OF ok, folded ms]
  have sw: "starts_with_ci (m_name m) prefix" if "m \<in> set ms" for m
  proof -
    have "m \<in> set ?c" using that mset_eq_setD [OF s(1)] by simp
    then obtain n where "starts_with_ci n prefix" "m_name m = take 255 n" using each by blast
    then show ?thesis using assms(2) by (auto simp: starts_with_ci_iff min_def)
  qed
  have main: "(\<forall>m\<in>set ms. starts_with_ci (m_name m) (prefix @ take (k - length prefix) (drop (length prefix) (m_name (hd ms))))) \<and>
     (\<forall>n. (\<forall>m\<in>set ms. agree (m_name (hd ms)) (m_name m) n) \<longrightarrow> n \<le> k)" if ne: "ms \<noteq> []"
  proof -
    obtain m0 rest where m0: "ms = m0 # rest" using ne by (cases ms) auto
    let ?a = "m_name m0" and ?l = "limit_loop (m_name m0) rest (length (m_name m0))"
    note l = limit_loop_longest [of ?a rest "length ?a"]
    have pre: "length prefix \<le> length ?a" "map lower (take (length prefix) ?a) = map lower prefix"
      using sw [of m0] by (simp_all add: m0 starts_with_ci_iff)
    have "agree ?a (m_name m) (length prefix)" if "m \<in> set rest" for m
      using sw [of m] that pre by (simp add: m0 starts_with_ci_iff agree_iff)
    then have lp: "length prefix \<le> ?l" using l pre(1) by blast
    then have k: "k = ?l" by (simp add: k_is common_prefix_len_def m0 Let_def)
    have kl: "k \<le> length ?a" using l by (simp add: k)
    have ag: "agree ?a (m_name m) k" if "m \<in> set ms" for m
      using l kl that by (auto simp: m0 k agree_def)
    have "map lower (prefix @ take (k - length prefix) (drop (length prefix) ?a)) = map lower (take k ?a)"
      using pre(2) take_add [of "length prefix" "k - length prefix" ?a] lp by (simp add: k)
    moreover have "length (prefix @ take (k - length prefix) (drop (length prefix) ?a)) = k" using kl lp by (simp add: k)
    ultimately have "starts_with_ci (m_name m) (prefix @ take (k - length prefix) (drop (length prefix) ?a))" if "m \<in> set ms" for m
      using ag [OF that] by (simp only: starts_with_ci_iff agree_iff [OF kl])
    moreover have "n \<le> k" if "\<forall>m\<in>set ms. agree ?a (m_name m) n" for n
      using that l by (auto simp: m0 k agree_def)
    ultimately show ?thesis by (simp add: m0)
  qed
  show ?thesis using s main by (cases "ms = []") (auto simp: name_le_def [abs_def])
qed

lemma completion_keeps_names_witness:
  "set (collect_matches (Some [(lit ''Makefile'', 8), (lit ''ls'', 8), (lit ''main.c'', 8)]) (lit ''m'') 64) =
     {\<lparr>m_name = lit ''Makefile'', m_type = 8\<rparr>, \<lparr>m_name = lit ''main.c'', m_type = 8\<rparr>}"
proof -
  have nf: "\<forall>(n, t)\<in>set [(lit ''Makefile'', 8), (lit ''ls'', 8), (lit ''main.c'', 8 :: u8)]. nul_free n"
    by (simp add: lit_def)
  have "mset (collect_matches (Some [(lit ''Makefile'', 8), (lit ''ls'', 8), (lit ''main.c'', 8)]) (lit ''m'') 64) =
      {#\<lparr>m_name = lit ''Makefile'', m_type = 8\<rparr>, \<lparr>m_name = lit ''main.c'', m_type = 8\<rparr>#}"
    using completion_keeps_names [OF nf, of "lit ''m''" _ 64, OF _ refl refl] by (simp add: lit_def lower_def u_tolower_def)
  then show ?thesis by (metis set_mset_mset set_mset_add_mset_insert set_mset_empty)
qed

text \<open>
  Every list of words is some command, but for a redirection with nothing else: then \<^verbatim>\<open>argv[0]\<close> is
  \<^verbatim>\<open>NULL\<close> when it is compared with the names of the builtins.
\<close>

lemma cut_redir_alone:
  "cut_redir before ws = Some ([], redir) \<longleftrightarrow>
     before = [] \<and> (ws = [] \<and> redir = None \<or>
       (\<exists>w path. ws = [w, path] \<and> (w = lit ''>'' \<or> w = lit ''>>'') \<and> redir = Some (path, w = lit ''>>'')))"
  by (induction before ws rule: cut_redir.induct) (auto split: list.splits)

lemma run_command_stuck:
  "run_command argv = None \<longleftrightarrow> (\<exists>w path. argv = [w, path] \<and> (w = lit ''>'' \<or> w = lit ''>>''))"
proof -
  have "run_command argv = None \<longleftrightarrow> argv \<noteq> [] \<and> (\<exists>redir. cut_redir [] argv = Some ([], redir))"
    by (auto simp: run_command_def split: option.splits list.splits)
  then show ?thesis by (auto simp: cut_redir_alone)
qed

lemma sh_turn_stuck:
  assumes "line \<noteq> []"
  shows "sh_turn env input line = None \<longrightarrow>
    (\<exists>n line1 rest out w path. read_line env input line = Some (n, line1, rest, out) \<and>
       line_words (cstr_of line1) = [w, path] \<and> (w = lit ''>'' \<or> w = lit ''>>''))"
proof
  assume stuck: "sh_turn env input line = None"
  have p: "put_at line 0 0 = Some (line[0 := 0])" by (rule put_at_in) (use assms in simp)
  obtain n line1 rest out where r: "read_line env input line = Some (n, line1, rest, out)"
    "length line1 = length line" "n = - 1 \<or> 0 \<le> n \<and> n < int (length line) \<and> line1 ! nat n = 0"
    using read_line_loop_fits [of 0 "line[0 := 0]" env input "[]"] assms by (auto simp: read_line_def p)
  have n: "0 < n" using stuck r(1) by (auto simp: sh_turn_def split: if_splits)
  then have z: "nat n < length line1" "line1 ! nat n = 0" using r(2,3) by auto
  have "0 \<in> set line1" using nth_mem [OF z(1)] z(2) by simp
  then obtain argv line2 where a: "split_args line1 MAX_ARGS = Some (argv, line2)"
    "map (\<lambda>p. cstr_of (drop p line2)) argv = take 15 (line_words (cstr_of line1))"
    using split_args_line [of line1 MAX_ARGS] by auto
  then have "run_command (take 15 (line_words (cstr_of line1))) = None"
    using stuck r(1) n by (cases "run_command (take 15 (line_words (cstr_of line1)))") (auto simp: sh_turn_def)
  then obtain w path where w: "take 15 (line_words (cstr_of line1)) = [w, path]" "w = lit ''>'' \<or> w = lit ''>>''"
    unfolding run_command_stuck by blast
  have "length (line_words (cstr_of line1)) = 2" using arg_cong [OF w(1), of length] by (simp add: min_def split: if_splits)
  then have "line_words (cstr_of line1) = [w, path]" using w(1) by simp
  then show "\<exists>n line1 rest out w path. read_line env input line = Some (n, line1, rest, out) \<and>
       line_words (cstr_of line1) = [w, path] \<and> (w = lit ''>'' \<or> w = lit ''>>'')" using r(1) w(2) by blast
qed

end
