(* ===== verification/User_Calls.thy ===== *)
theory User_Calls
  imports Syscall
begin

text \<open>
  The wrappers of system calls in \<^verbatim>\<open>user/lib/syscall.c\<close> that the streams rest on, over the system
  calls of the kernel.  The state a program acts on is the kernel's and its own \<^verbatim>\<open>errno\<close>; a
  buffer of the program is an address in the memory of its process \<open>p\<close>, and what it holds after the call is
  part of the result.
\<close>

record 'k io =
  io_sys :: 'k
  io_errno :: int

definition fail_with :: "int \<Rightarrow> 'k io \<Rightarrow> 'k io" where
  "fail_with e io = io\<lparr>io_errno := e\<rparr>"

definition wrap_ret :: "int \<Rightarrow> 'k io \<Rightarrow> int \<times> 'k io" where
  "wrap_ret ret io = (if ret < 0 then (- 1, fail_with (- ret) io) else (ret, io))"

text \<open>\<^verbatim>\<open>read\<close> and \<^verbatim>\<open>write\<close> on an array the process keeps; the second is given a part of it.\<close>

definition u_read_into :: "u64 \<Rightarrow> int \<Rightarrow> nat \<Rightarrow> 'a sys_state_scheme io \<Rightarrow> (int \<times> 'a sys_state_scheme io) option" where
  "u_read_into buf fd len io =
     map_option (\<lambda>(r, s). wrap_ret r (io\<lparr>io_sys := s\<rparr>)) (sys_read (of_int fd) buf (of_nat len) (io_sys io))"

definition u_write_from :: "u64 \<Rightarrow> int \<Rightarrow> nat \<Rightarrow> nat \<Rightarrow> 'a sys_state_scheme io \<Rightarrow> (int \<times> 'a sys_state_scheme io) option" where
  "u_write_from buf fd off len io =
     map_option (\<lambda>(r, s). wrap_ret r (io\<lparr>io_sys := s\<rparr>)) (sys_write (of_int fd) (buf + of_nat off) (of_nat len) (io_sys io))"

definition u_read :: "nat \<Rightarrow> u64 \<Rightarrow> int \<Rightarrow> u64 \<Rightarrow> 'a sys_state_scheme io \<Rightarrow> (int \<times> u8 list \<times> 'a sys_state_scheme io) option" where
  "u_read p buf fd len io =
     map_option
       (\<lambda>(r, s). case wrap_ret r (io\<lparr>io_sys := s\<rparr>) of
                   (ret, io1) \<Rightarrow> (ret, snd (copyin (phys s) (cur_pt s p) buf (nat ret)), io1))
       (sys_read (of_int fd) buf len (io_sys io))"

definition u_getdents64 ::
    "nat \<Rightarrow> u64 \<Rightarrow> int \<Rightarrow> u8 list \<Rightarrow> 'a sys_state_scheme io \<Rightarrow> (int \<times> u8 list \<times> 'a sys_state_scheme io) option" where
  "u_getdents64 p dirp fd buf io =
     map_option
       (\<lambda>(r, s). case wrap_ret r (io\<lparr>io_sys := s\<rparr>) of
                   (ret, io1) \<Rightarrow> (ret, snd (copyin (phys s) (cur_pt s p) dirp (length buf)), io1))
       (sys_getdents64 (of_int fd) dirp (of_nat (length buf)) (io_sys io))"

end
