(* ===== verification/User_Dirent.thy ===== *)
theory User_Dirent
  imports User_Calls
begin

text \<open>
  The directory streams of the C library, \<^verbatim>\<open>user/lib/dirent.c\<close>.  The system calls \<^verbatim>\<open>open\<close>,
  \<^verbatim>\<open>close\<close>, \<^verbatim>\<open>lseek\<close> and \<^verbatim>\<open>getdents64\<close> and the block \<^verbatim>\<open>malloc\<close> gives are arguments, with a state
  \<open>'k\<close> of their own (\<^verbatim>\<open>errno\<close> is part of it).  \<^verbatim>\<open>getdents64\<close> takes the buffer as it is and gives it
  as it is after the call.  \<open>None\<close> is a read behind the end of the buffer, or a loop that does not end.
\<close>

abbreviation DIRENT_BUF :: nat where "DIRENT_BUF \<equiv> 512"

text \<open>\<^verbatim>\<open>struct dirent\<close>; the name is the string the array of 256 bytes holds.\<close>

record u_dirent =
  ud_ino :: u64
  ud_off :: u64
  ud_reclen :: u16
  ud_type :: u8
  ud_name :: cstr

text \<open>\<^verbatim>\<open>DIR\<close>.\<close>

record u_dir =
  dr_fd :: int
  dr_pos :: nat
  dr_nread :: nat
  dr_buf :: "u8 list"
  dr_ent :: u_dirent

definition u_opendir ::
    "(cstr \<Rightarrow> u64 \<Rightarrow> 'k \<Rightarrow> int \<times> 'k) \<Rightarrow> (int \<Rightarrow> 'k \<Rightarrow> int \<times> 'k) \<Rightarrow> u_dir option \<Rightarrow> cstr \<Rightarrow> 'k \<Rightarrow> u_dir option \<times> 'k" where
  "u_opendir open_call close_call block name k =
     (case open_call name O_DIRECTORY k of
        (fd, k1) \<Rightarrow>
          if fd < 0 then (None, k1)
          else
            (case block of
               None \<Rightarrow> (None, snd (close_call fd k1))
             | Some d \<Rightarrow> (Some (d\<lparr>dr_fd := fd, dr_pos := 0, dr_nread := 0\<rparr>), k1)))"

text \<open>The record at an offset of the buffer: its numbers, and the name up to 255 bytes.\<close>

definition dirent_name :: "u8 list \<Rightarrow> cstr option" where
  "dirent_name bs =
     (if 255 \<le> length bs \<or> 0 \<in> set bs then Some (take 255 (takeWhile (\<lambda>c. c \<noteq> 0) bs)) else None)"

definition dirent_at :: "u8 list \<Rightarrow> nat \<Rightarrow> u_dirent option" where
  "dirent_at buf pos =
     (if length buf < pos + 19 then None
      else
        (let d = drop pos buf in
         case dirent_name (drop 19 d) of
           None \<Rightarrow> None
         | Some name \<Rightarrow>
             Some \<lparr>ud_ino = le_word (take 8 d), ud_off = le_word (take 8 (drop 8 d)),
                   ud_reclen = le_word (take 2 (drop 16 d)), ud_type = d ! 18, ud_name = name\<rparr>))"

definition reclen_at :: "u8 list \<Rightarrow> nat \<Rightarrow> nat option" where
  "reclen_at buf pos =
     (if length buf < pos + 18 then None else Some (unat (le_word (take 2 (drop (pos + 16) buf)) :: u16)))"

partial_function (option) readdir_loop ::
    "(int \<Rightarrow> u8 list \<Rightarrow> 'k \<Rightarrow> (int \<times> u8 list \<times> 'k) option) \<Rightarrow> u_dir \<Rightarrow> 'k \<Rightarrow> (u_dirent option \<times> u_dir \<times> 'k) option" where
  "readdir_loop getdents d k =
     Option.bind
       (if dr_nread d \<le> dr_pos d then
          map_option (\<lambda>(n, buf, k1). if n \<le> 0 then (False, d\<lparr>dr_buf := buf\<rparr>, k1)
                                      else (True, d\<lparr>dr_buf := buf, dr_nread := nat n, dr_pos := 0\<rparr>, k1))
            (getdents (dr_fd d) (dr_buf d) k)
        else Some (True, d, k))
       (\<lambda>(go, d1, k1).
          if \<not> go then Some (None, d1, k1)
          else
            (case reclen_at (dr_buf d1) (dr_pos d1) of
               None \<Rightarrow> None
             | Some len \<Rightarrow>
                 if len = 0 then readdir_loop getdents (d1\<lparr>dr_pos := dr_nread d1\<rparr>) k1
                 else
                   (case dirent_at (dr_buf d1) (dr_pos d1) of
                      None \<Rightarrow> None
                    | Some e \<Rightarrow> Some (Some e, d1\<lparr>dr_pos := dr_pos d1 + len, dr_ent := e\<rparr>, k1))))"

definition u_readdir ::
    "(int \<Rightarrow> u8 list \<Rightarrow> 'k \<Rightarrow> (int \<times> u8 list \<times> 'k) option) \<Rightarrow> u_dir option \<Rightarrow> 'k \<Rightarrow> (u_dirent option \<times> u_dir option \<times> 'k) option" where
  "u_readdir getdents dirp k =
     (case dirp of
        None \<Rightarrow> Some (None, None, k)
      | Some d \<Rightarrow> map_option (\<lambda>(e, d1, k1). (e, Some d1, k1)) (readdir_loop getdents d k))"

definition u_closedir :: "(int \<Rightarrow> 'k \<Rightarrow> int \<times> 'k) \<Rightarrow> u_dir option \<Rightarrow> 'k \<Rightarrow> int \<times> 'k" where
  "u_closedir close_call dirp k = (case dirp of None \<Rightarrow> (- 1, k) | Some d \<Rightarrow> close_call (dr_fd d) k)"

definition u_rewinddir :: "(int \<Rightarrow> int \<Rightarrow> int \<Rightarrow> 'k \<Rightarrow> int \<times> 'k) \<Rightarrow> u_dir option \<Rightarrow> 'k \<Rightarrow> u_dir option \<times> 'k" where
  "u_rewinddir lseek_call dirp k =
     (case dirp of
        None \<Rightarrow> (None, k)
      | Some d \<Rightarrow> (Some (d\<lparr>dr_pos := 0, dr_nread := 0\<rparr>), snd (lseek_call (dr_fd d) 0 0 k)))"

end
