(* ===== verification/User_Programs.thy ===== *)
theory User_Programs
  imports User_Dirent User_Shell User_Printf
begin

text \<open>
  The programs \<^verbatim>\<open>cat\<close>, \<^verbatim>\<open>cp\<close>, \<^verbatim>\<open>ls\<close>, \<^verbatim>\<open>rm\<close>, \<^verbatim>\<open>echo\<close>, \<^verbatim>\<open>mkdir\<close> and \<^verbatim>\<open>touch\<close> of \<^verbatim>\<open>user/src\<close>.  The calls they make are
  arguments that act on a state \<open>'k\<close>; the array a loop copies through is part of it, so that
  \<^verbatim>\<open>read\<close> is given the size only and \<^verbatim>\<open>write\<close> the part of the array.  Messages to the terminal are
  left out; \<open>None\<close> is a run that does not end.
\<close>

abbreviation O_RDONLY :: u64 where "O_RDONLY \<equiv> 0"

section \<open>Copying\<close>

partial_function (option) write_out :: "(nat \<Rightarrow> nat \<Rightarrow> 'k \<Rightarrow> (int \<times> 'k) option) \<Rightarrow> nat \<Rightarrow> nat \<Rightarrow> 'k \<Rightarrow> (int \<times> 'k) option" where
  "write_out wr off n k =
     (if off < n then
        Option.bind (wr off (n - off) k)
          (\<lambda>(w, k1). if w < 0 then Some (w, k1) else write_out wr (off + nat w) n k1)
      else Some (0, k))"

partial_function (option) copy_loop ::
    "(nat \<Rightarrow> 'k \<Rightarrow> (int \<times> 'k) option) \<Rightarrow> (nat \<Rightarrow> nat \<Rightarrow> 'k \<Rightarrow> (int \<times> 'k) option) \<Rightarrow> nat \<Rightarrow> 'k \<Rightarrow> (int \<times> 'k) option" where
  "copy_loop rd wr sz k =
     Option.bind (rd sz k)
       (\<lambda>(n, k1).
          if n < 0 then Some (n, k1)
          else if n = 0 then Some (0, k1)
          else
            Option.bind (write_out wr 0 (nat n) k1)
              (\<lambda>(w, k2). if w < 0 then Some (w, k2) else copy_loop rd wr sz k2))"

record ('k, 'd) calls =
  c_read :: "int \<Rightarrow> nat \<Rightarrow> 'k \<Rightarrow> (int \<times> 'k) option"
  c_write :: "int \<Rightarrow> nat \<Rightarrow> nat \<Rightarrow> 'k \<Rightarrow> (int \<times> 'k) option"
  c_open :: "cstr \<Rightarrow> u64 \<Rightarrow> 'k \<Rightarrow> int \<times> 'k"
  c_close :: "int \<Rightarrow> 'k \<Rightarrow> 'k"
  c_isdir :: "cstr \<Rightarrow> 'k \<Rightarrow> bool option"
  c_mkdir :: "cstr \<Rightarrow> 'k \<Rightarrow> int \<times> 'k"
  c_unlink :: "cstr \<Rightarrow> 'k \<Rightarrow> int \<times> 'k"
  c_opendir :: "cstr \<Rightarrow> 'k \<Rightarrow> 'd option \<times> 'k"
  c_readdir :: "'d \<Rightarrow> 'k \<Rightarrow> (cstr option \<times> 'd \<times> 'k) option"
  c_closedir :: "'d \<Rightarrow> 'k \<Rightarrow> 'k"
  c_answer :: "'k \<Rightarrow> cstr option \<times> 'k"

definition cat_fd :: "('k, 'd) calls \<Rightarrow> int \<Rightarrow> 'k \<Rightarrow> (int \<times> 'k) option" where
  "cat_fd c fd k = copy_loop (c_read c fd) (c_write c 1) 256 k"

fun cat_files :: "('k, 'd) calls \<Rightarrow> cstr list \<Rightarrow> 'k \<Rightarrow> (int \<times> 'k) option" where
  "cat_files c [] k = Some (0, k)"
| "cat_files c (a # as) k =
     (case c_open c a O_RDONLY k of
        (fd, k1) \<Rightarrow>
          if fd < 0 then Some (1, k1)
          else
            do { (ret, k2) \<leftarrow> cat_fd c fd k1;
                 let k3 = c_close c fd k2;
                 if ret < 0 then Some (1, k3) else cat_files c as k3 })"

definition cat_main :: "('k, 'd) calls \<Rightarrow> cstr list \<Rightarrow> 'k \<Rightarrow> (int \<times> 'k) option" where
  "cat_main c args k =
     (if args = [] then do { (ret, k1) \<leftarrow> cat_fd c 0 k; Some (if ret < 0 then 1 else 0, k1) }
      else cat_files c args k)"

section \<open>cp\<close>

definition base_name :: "cstr \<Rightarrow> cstr" where
  "base_name path =
     (let stripped = rev (dropWhile (\<lambda>c. c = 0x2F) (rev path));
          start = length stripped - length (takeWhile (\<lambda>c. c \<noteq> 0x2F) (rev stripped)) in
      drop start path)"

text \<open>\<open>None\<close> is the return of -1: the path does not fit.\<close>

definition join_path :: "nat \<Rightarrow> cstr \<Rightarrow> cstr \<Rightarrow> cstr option" where
  "join_path outsz dir name =
     (let slash = (if dir \<noteq> [] \<and> last dir \<noteq> 0x2F then lit ''/'' else []) in
      case u_snprintf (replicate outsz 0) outsz (lit ''%s%s%s'') [VStr (Some dir), VStr (Some slash), VStr (Some name)] of
        None \<Rightarrow> None
      | Some (n, out) \<Rightarrow> if n \<ge> int outsz then None else Some (cstr_of out))"

definition confirm_overwrite :: "('k, 'd) calls \<Rightarrow> 'k \<Rightarrow> bool \<times> 'k" where
  "confirm_overwrite c k =
     (case c_answer c k of
        (None, k1) \<Rightarrow> (False, k1)
      | (Some buf, k1) \<Rightarrow> (buf \<noteq> [] \<and> (hd buf = 0x79 \<or> hd buf = 0x59), k1))"

definition copy_bytes :: "('k, 'd) calls \<Rightarrow> int \<Rightarrow> int \<Rightarrow> 'k \<Rightarrow> (int \<times> 'k) option" where
  "copy_bytes c fin fout k =
     do { (r, k1) \<leftarrow> copy_loop (c_read c fin) (c_write c fout) 512 k;
          Some (if r < 0 then - 1 else 0, c_close c fout (c_close c fin k1)) }"

definition copy_file :: "('k, 'd) calls \<Rightarrow> cstr \<Rightarrow> cstr \<Rightarrow> 'k \<Rightarrow> (int \<times> 'k) option" where
  "copy_file c src dst k =
     (case c_isdir c dst k of
        Some True \<Rightarrow> Some (- 1, k)
      | st \<Rightarrow>
          (case (if st = None then (True, k) else confirm_overwrite c k) of
             (go, k1) \<Rightarrow>
               if \<not> go then Some (0, k1)
               else
                 (case c_open c src O_RDONLY k1 of
                    (fin, k2) \<Rightarrow>
                      if fin < 0 then Some (- 1, k2)
                      else
                        (case c_open c dst (O_CREAT OR O_WRONLY OR O_TRUNC) k2 of
                           (fout, k3) \<Rightarrow>
                             if fout < 0 then Some (- 1, c_close c fin k3) else copy_bytes c fin fout k3))))"

text \<open>
  \<^verbatim>\<open>copy_path\<close> and \<^verbatim>\<open>copy_dir\<close> call each other; they are one function here, on a path to copy or
  on the directory stream that is being read.
\<close>

datatype 'd cp_job = Cp_path cstr cstr bool | Cp_entries 'd cstr cstr

partial_function (option) copy_job :: "('k, 'd) calls \<Rightarrow> 'd cp_job \<Rightarrow> 'k \<Rightarrow> (int \<times> 'k) option" where
  "copy_job c job k =
     (case job of
        Cp_path src dst dst_is_dir \<Rightarrow>
          (case c_isdir c src k of
             None \<Rightarrow> Some (- 1, k)
           | Some src_is_dir \<Rightarrow>
               (case (if dst_is_dir then join_path 512 dst (base_name src) else Some dst) of
                  None \<Rightarrow> Some (- 1, k)
                | Some final_dst \<Rightarrow>
                    if \<not> src_is_dir then copy_file c src final_dst k
                    else
                      (case (case c_isdir c final_dst k of
                               Some True \<Rightarrow> (0, k)
                             | Some False \<Rightarrow> (- 1, k)
                             | None \<Rightarrow> c_mkdir c final_dst k) of
                         (r, k1) \<Rightarrow>
                           if r < 0 then Some (- 1, k1)
                           else
                             (case c_opendir c src k1 of
                                (None, k2) \<Rightarrow> Some (- 1, k2)
                              | (Some d, k2) \<Rightarrow> copy_job c (Cp_entries d src final_dst) k2))))
      | Cp_entries d src dst \<Rightarrow>
          Option.bind (c_readdir c d k)
            (\<lambda>(ent, d1, k1).
               case ent of
                 None \<Rightarrow> Some (0, c_closedir c d1 k1)
               | Some name \<Rightarrow>
                   if name = lit ''.'' \<or> name = lit ''..'' then copy_job c (Cp_entries d1 src dst) k1
                   else
                     (case (join_path 512 src name, join_path 512 dst name) of
                        (Some src_path, Some dst_path) \<Rightarrow>
                          Option.bind (copy_job c (Cp_path src_path dst_path False) k1)
                            (\<lambda>(r, k2). if r \<noteq> 0 then Some (- 1, c_closedir c d1 k2)
                                        else copy_job c (Cp_entries d1 src dst) k2)
                      | _ \<Rightarrow> Some (- 1, c_closedir c d1 k1))))"

fun cp_sources :: "('k, 'd) calls \<Rightarrow> cstr list \<Rightarrow> cstr \<Rightarrow> bool \<Rightarrow> 'k \<Rightarrow> (int \<times> 'k) option" where
  "cp_sources c [] dst is_dir k = Some (0, k)"
| "cp_sources c (src # srcs) dst is_dir k =
     do { (ret, k1) \<leftarrow> copy_job c (Cp_path src dst is_dir) k;
          if ret \<noteq> 0 then Some (1, k1) else cp_sources c srcs dst is_dir k1 }"

definition cp_main :: "('k, 'd) calls \<Rightarrow> cstr list \<Rightarrow> 'k \<Rightarrow> (int \<times> 'k) option" where
  "cp_main c args k =
     (if length args < 2 then Some (1, k)
      else
        (let dst = last args; dst_is_dir = (c_isdir c dst k = Some True) in
         if length args > 2 \<and> \<not> dst_is_dir then Some (1, k)
         else cp_sources c (butlast args) dst dst_is_dir k))"

section \<open>rm\<close>

fun rm_files :: "('k, 'd) calls \<Rightarrow> cstr list \<Rightarrow> int \<Rightarrow> 'k \<Rightarrow> int \<times> 'k" where
  "rm_files c [] status k = (status, k)"
| "rm_files c (a # as) status k =
     (case c_unlink c a k of (r, k1) \<Rightarrow> rm_files c as (if r < 0 then 1 else status) k1)"

definition rm_main :: "('k, 'd) calls \<Rightarrow> cstr list \<Rightarrow> 'k \<Rightarrow> int \<times> 'k" where
  "rm_main c args k = (if args = [] then (1, k) else rm_files c args 0 k)"

section \<open>ls\<close>

text \<open>An entry of \<^verbatim>\<open>ls\<close> is the pair of name and type the shell has as \<open>match\<close>; there is memory for all names.\<close>

type_synonym ls_state = "match option \<times> match option \<times> match list"

definition ls_add :: "match \<Rightarrow> ls_state \<Rightarrow> ls_state" where
  "ls_add e st =
     (case st of (dot, dotdot, ents) \<Rightarrow>
        if m_name e = lit ''.'' then (Some e, dotdot, ents)
        else if m_name e = lit ''..'' then (dot, Some e, ents)
        else (dot, dotdot, ents @ [e]))"

definition ls_entry :: "u8 list \<Rightarrow> nat \<Rightarrow> match option" where
  "ls_entry buf pos =
     (if length buf \<le> pos + 19 \<or> 0 \<notin> set (drop (pos + 19) buf) then None
      else Some \<lparr>m_name = cstr_of (drop (pos + 19) buf), m_type = buf ! (pos + 18)\<rparr>)"

function ls_block :: "u8 list \<Rightarrow> nat \<Rightarrow> nat \<Rightarrow> ls_state \<Rightarrow> ls_state option" where
  "ls_block buf n pos st =
     (if pos < n then
        (case reclen_at buf pos of
           None \<Rightarrow> None
         | Some len \<Rightarrow>
             if len = 0 then Some st
             else (case ls_entry buf pos of None \<Rightarrow> None | Some e \<Rightarrow> ls_block buf n (pos + len) (ls_add e st)))
      else Some st)"
  by pat_completeness auto
termination by (relation "measure (\<lambda>(buf, n, pos, st). n - pos)") auto

declare ls_block.simps [simp del]

partial_function (option) ls_loop ::
    "(int \<Rightarrow> u8 list \<Rightarrow> 'k \<Rightarrow> (int \<times> u8 list \<times> 'k) option) \<Rightarrow> int \<Rightarrow> u8 list \<Rightarrow> ls_state \<Rightarrow> 'k \<Rightarrow> (ls_state \<times> 'k) option" where
  "ls_loop getdents fd buf st k =
     Option.bind (getdents fd buf k)
       (\<lambda>(n, buf1, k1).
          if n \<le> 0 then Some (st, k1)
          else Option.bind (ls_block buf1 (nat n) 0 st) (\<lambda>st1. ls_loop getdents fd buf1 st1 k1))"

definition print_entry :: "match \<Rightarrow> bool \<Rightarrow> cstr" where
  "print_entry e first = (if first then [] else lit '' '') @ m_name e @ (if m_type e = DT_DIR then lit ''/'' else [])"

fun print_entries :: "match list \<Rightarrow> bool \<Rightarrow> cstr" where
  "print_entries [] first = [0x0A]"
| "print_entries (e # es) first = print_entry e first @ print_entries es False"

definition ls_dir ::
    "(cstr \<Rightarrow> u64 \<Rightarrow> 'k \<Rightarrow> int \<times> 'k) \<Rightarrow> (int \<Rightarrow> 'k \<Rightarrow> 'k) \<Rightarrow> (int \<Rightarrow> u8 list \<Rightarrow> 'k \<Rightarrow> (int \<times> u8 list \<times> 'k) option) \<Rightarrow>
     u8 list \<Rightarrow> cstr \<Rightarrow> 'k \<Rightarrow> (int \<times> cstr \<times> 'k) option" where
  "ls_dir open_call close_call getdents buf path k =
     (case open_call path (O_RDONLY OR O_DIRECTORY) k of
        (fd, k1) \<Rightarrow>
          if fd < 0 then Some (fd, [], k1)
          else
            do { ((dot, dotdot, ents), k2) \<leftarrow> ls_loop getdents fd buf (None, None, []) k1;
                 Some (0, print_entries ((case dot of None \<Rightarrow> [] | Some e \<Rightarrow> [e]) @
                                    (case dotdot of None \<Rightarrow> [] | Some e \<Rightarrow> [e]) @ sort_matches ents) True,
                       close_call fd k2) })"

definition basename_simple :: "cstr \<Rightarrow> cstr" where
  "basename_simple path =
     (case u_strrchr path 0x2F of
        None \<Rightarrow> path
      | Some p \<Rightarrow> if drop (p + 1) path = [] then drop p path else drop (p + 1) path)"

definition ls_path ::
    "(cstr \<Rightarrow> u64 \<Rightarrow> 'k \<Rightarrow> int \<times> 'k) \<Rightarrow> (int \<Rightarrow> 'k \<Rightarrow> 'k) \<Rightarrow> (int \<Rightarrow> u8 list \<Rightarrow> 'k \<Rightarrow> (int \<times> u8 list \<times> 'k) option) \<Rightarrow>
     u8 list \<Rightarrow> cstr \<Rightarrow> 'k \<Rightarrow> (int \<times> cstr \<times> 'k) option" where
  "ls_path open_call close_call getdents buf path k =
     do { (ret, out, k1) \<leftarrow> ls_dir open_call close_call getdents buf path k;
          if ret = 0 then Some (0, out, k1)
          else
            (case open_call path O_RDONLY k1 of
               (fd, k2) \<Rightarrow>
                 Some (if fd < 0 then (- 1, [], k2) else (0, basename_simple path @ [0x0A], close_call fd k2))) }"

fun ls_paths ::
    "(cstr \<Rightarrow> u64 \<Rightarrow> 'k \<Rightarrow> int \<times> 'k) \<Rightarrow> (int \<Rightarrow> 'k \<Rightarrow> 'k) \<Rightarrow> (int \<Rightarrow> u8 list \<Rightarrow> 'k \<Rightarrow> (int \<times> u8 list \<times> 'k) option) \<Rightarrow>
     u8 list \<Rightarrow> cstr list \<Rightarrow> 'k \<Rightarrow> (int \<times> cstr \<times> 'k) option" where
  "ls_paths open_call close_call getdents buf [] k = Some (0, [], k)"
| "ls_paths open_call close_call getdents buf (a # as) k =
     do { (ret, out, k1) \<leftarrow> ls_path open_call close_call getdents buf a k;
          if ret \<noteq> 0 then Some (1, out, k1)
          else do { (r, out2, k2) \<leftarrow> ls_paths open_call close_call getdents buf as k1; Some (r, out @ out2, k2) } }"

definition ls_main ::
    "(cstr \<Rightarrow> u64 \<Rightarrow> 'k \<Rightarrow> int \<times> 'k) \<Rightarrow> (int \<Rightarrow> 'k \<Rightarrow> 'k) \<Rightarrow> (int \<Rightarrow> u8 list \<Rightarrow> 'k \<Rightarrow> (int \<times> u8 list \<times> 'k) option) \<Rightarrow>
     u8 list \<Rightarrow> cstr list \<Rightarrow> 'k \<Rightarrow> (int \<times> cstr \<times> 'k) option" where
  "ls_main open_call close_call getdents buf args k =
     (if args = [] then ls_path open_call close_call getdents buf (lit ''.'') k
      else ls_paths open_call close_call getdents buf args k)"

section \<open>echo, mkdir and touch\<close>

definition echo_main :: "cstr list \<Rightarrow> cstr" where
  "echo_main args =
     concat (map (\<lambda>i. (if 0 < i then lit '' '' else []) @ args ! i) [0..<length args]) @ [0x0A]"

fun mkdir_args :: "('k, 'd) calls \<Rightarrow> cstr list \<Rightarrow> 'k \<Rightarrow> int \<times> 'k" where
  "mkdir_args c [] k = (0, k)"
| "mkdir_args c (a # as) k = (case c_mkdir c a k of (r, k1) \<Rightarrow> if r \<noteq> 0 then (1, k1) else mkdir_args c as k1)"

definition mkdir_main :: "('k, 'd) calls \<Rightarrow> cstr list \<Rightarrow> 'k \<Rightarrow> int \<times> 'k" where
  "mkdir_main c args k = (if args = [] then (1, k) else mkdir_args c args k)"

definition parent_exists :: "('k, 'd) calls \<Rightarrow> cstr \<Rightarrow> 'k \<Rightarrow> bool" where
  "parent_exists c path k =
     (case u_strrchr path 0x2F of
        None \<Rightarrow> c_isdir c (lit ''.'') k = Some True
      | Some n \<Rightarrow>
          if n = 0 then c_isdir c (lit ''/'') k = Some True
          else n < 256 \<and> c_isdir c (take n path) k = Some True)"

definition touch_file :: "('k, 'd) calls \<Rightarrow> cstr \<Rightarrow> 'k \<Rightarrow> int \<times> 'k" where
  "touch_file c path k =
     (case c_isdir c path k of
        Some True \<Rightarrow> (1, k)
      | Some False \<Rightarrow>
          (case c_open c path O_WRONLY k of (fd, k1) \<Rightarrow> if fd < 0 then (1, k1) else (0, c_close c fd k1))
      | None \<Rightarrow>
          if \<not> parent_exists c path k then (1, k)
          else
            (case c_open c path (O_WRONLY OR O_CREAT) k of
               (fd, k1) \<Rightarrow> if fd < 0 then (1, k1) else (0, c_close c fd k1)))"

fun touch_files :: "('k, 'd) calls \<Rightarrow> cstr list \<Rightarrow> 'k \<Rightarrow> int \<times> 'k" where
  "touch_files c [] k = (0, k)"
| "touch_files c (a # as) k = (case touch_file c a k of (r, k1) \<Rightarrow> if r \<noteq> 0 then (1, k1) else touch_files c as k1)"

definition touch_main :: "('k, 'd) calls \<Rightarrow> cstr list \<Rightarrow> 'k \<Rightarrow> int \<times> 'k" where
  "touch_main c args k = (if args = [] then (1, k) else touch_files c args k)"

end
