(* ===== verification/User_Stream.thy ===== *)
theory User_Stream
  imports User_Printf User_Calls
begin

text \<open>
  The streams of the C library, \<^verbatim>\<open>user/lib/stdio_file.c\<close>: a descriptor with flags and at most
  one byte put back; nothing is buffered.  The system calls are arguments that act on \<open>'k io\<close>, the
  state of the system and \<^verbatim>\<open>errno\<close>.  A \<open>None\<close> stream is \<^verbatim>\<open>NULL\<close>; a result \<open>None\<close> is a call
  that does not come back, or a store behind the end of the caller's array.  What a function puts into \<^verbatim>\<open>*p\<close>
  is part of its result.
\<close>

record u_file =
  fi_fd :: int
  fi_eof :: int
  fi_err :: int
  fi_ungot :: int
  fi_ungot_ch :: u8

abbreviation EOF :: int where "EOF \<equiv> - 1"

section \<open>Opening and closing\<close>

definition parse_mode :: "cstr option \<Rightarrow> (int \<times> u64) option \<Rightarrow> int \<times> u64 option" where
  "parse_mode mode flags =
     (case (mode, flags) of
        (Some m, Some _) \<Rightarrow>
          (let plus = (0x2B \<in> set m); first = (if m = [] then 0 else hd m) in
           if first = 0x72 then (0, Some (if plus then 2 else 0))
           else if first = 0x77 then (0, Some ((if plus then 2 else 1) OR 0x40 OR 0x200))
           else if first = 0x61 then (0, Some ((if plus then 2 else 1) OR 0x40 OR 0x400))
           else (- 1, None))
      | _ \<Rightarrow> (- 1, None))"

definition u_fdopen :: "bool \<Rightarrow> int \<Rightarrow> 'k io \<Rightarrow> u_file option \<times> 'k io" where
  "u_fdopen have_memory fd io =
     (if fd < 0 then (None, fail_with EBADF io)
      else if \<not> have_memory then (None, fail_with ENOMEM io)
      else (Some \<lparr>fi_fd = fd, fi_eof = 0, fi_err = 0, fi_ungot = 0, fi_ungot_ch = 0\<rparr>, io))"

definition u_fopen ::
    "(cstr \<Rightarrow> u64 \<Rightarrow> 'k io \<Rightarrow> int \<times> 'k io) \<Rightarrow> bool \<Rightarrow> cstr \<Rightarrow> cstr option \<Rightarrow> 'k io \<Rightarrow> u_file option \<times> 'k io" where
  "u_fopen open_call have_memory path mode io =
     (case parse_mode mode (Some (0, 0)) of
        (r, flags) \<Rightarrow>
          if r \<noteq> 0 then (None, fail_with EINVAL io)
          else
            (case open_call path (the flags) io of
               (fd, io1) \<Rightarrow> if fd < 0 then (None, io1) else u_fdopen have_memory fd io1))"

text \<open>
  The new stream is taken apart: its descriptor goes to the old one.  (The descriptor of the old
  one goes to the block that is freed, and stays open.)
\<close>

definition u_freopen ::
    "(cstr \<Rightarrow> u64 \<Rightarrow> 'k io \<Rightarrow> int \<times> 'k io) \<Rightarrow> bool \<Rightarrow> cstr \<Rightarrow> cstr option \<Rightarrow> u_file option \<Rightarrow> 'k io \<Rightarrow> u_file option \<times> 'k io" where
  "u_freopen open_call have_memory path mode stream io =
     (case stream of
        None \<Rightarrow> (None, fail_with EINVAL io)
      | Some s \<Rightarrow>
          (case u_fopen open_call have_memory path mode io of
             (None, io1) \<Rightarrow> (None, io1)
           | (Some f, io1) \<Rightarrow> (Some (s\<lparr>fi_fd := fi_fd f, fi_eof := 0, fi_err := 0\<rparr>), io1)))"

definition u_fclose :: "(int \<Rightarrow> 'k io \<Rightarrow> int \<times> 'k io) \<Rightarrow> u_file option \<Rightarrow> 'k io \<Rightarrow> int \<times> 'k io" where
  "u_fclose close_call stream io =
     (case stream of None \<Rightarrow> (- 1, fail_with EINVAL io) | Some s \<Rightarrow> close_call (fi_fd s) io)"

section \<open>Reading\<close>

type_synonym 'k read_call = "int \<Rightarrow> u64 \<Rightarrow> 'k io \<Rightarrow> (int \<times> u8 list \<times> 'k io) option"
type_synonym 'k write_call = "int \<Rightarrow> u8 list \<Rightarrow> 'k io \<Rightarrow> (int \<times> 'k io) option"
type_synonym 'k seek_call = "int \<Rightarrow> int \<Rightarrow> int \<Rightarrow> 'k io \<Rightarrow> int \<times> 'k io"

text \<open>The number of whole elements, and the bytes that went into the array.\<close>

definition u_fread ::
    "'k read_call \<Rightarrow> bool \<Rightarrow> u64 \<Rightarrow> u64 \<Rightarrow> u_file option \<Rightarrow> 'k io \<Rightarrow> (u64 \<times> u8 list \<times> u_file option \<times> 'k io) option" where
  "u_fread rd have_ptr sz nmemb stream io =
     (case stream of
        None \<Rightarrow> Some (0, [], stream, io)
      | Some f \<Rightarrow>
          if \<not> have_ptr \<or> sz = 0 \<or> nmemb = 0 then Some (0, [], stream, io)
          else
            do { (n, bs, io1) \<leftarrow> rd (fi_fd f) (sz * nmemb) io;
                 Some (if n < 0 then (0, [], Some (f\<lparr>fi_err := 1\<rparr>), io1)
                       else if n = 0 then (0, [], Some (f\<lparr>fi_eof := 1\<rparr>), io1)
                       else (of_int n div sz, bs, stream, io1)) })"

definition u_fgetc :: "'k read_call \<Rightarrow> u_file option \<Rightarrow> 'k io \<Rightarrow> (int \<times> u_file option \<times> 'k io) option" where
  "u_fgetc rd stream io =
     (case stream of
        None \<Rightarrow> Some (EOF, None, fail_with EINVAL io)
      | Some f \<Rightarrow>
          if fi_ungot f \<noteq> 0 then Some (uint (fi_ungot_ch f), Some (f\<lparr>fi_ungot := 0\<rparr>), io)
          else
            do { (n, bs, io1) \<leftarrow> rd (fi_fd f) 1 io;
                 Some (if n = 1 then (uint (hd bs), Some f, io1)
                       else if n = 0 then (EOF, Some (f\<lparr>fi_eof := 1\<rparr>), io1)
                       else (EOF, Some (f\<lparr>fi_err := 1\<rparr>), io1)) })"

text \<open>The loop with \<open>n\<close> turns to go: the array and how many bytes are in it.\<close>

fun fgets_loop ::
    "'k read_call \<Rightarrow> nat \<Rightarrow> u8 list \<Rightarrow> nat \<Rightarrow> u_file option \<Rightarrow> 'k io \<Rightarrow> (u8 list \<times> nat \<times> u_file option \<times> 'k io) option" where
  "fgets_loop rd 0 s i stream io = Some (s, i, stream, io)"
| "fgets_loop rd (Suc n) s i stream io =
     do { (c, stream1, io1) \<leftarrow> u_fgetc rd stream io;
          if c = EOF then Some (s, i, stream1, io1)
          else if length s \<le> i then None
          else if c = 0x0A then Some (s[i := of_int c], i + 1, stream1, io1)
          else fgets_loop rd n (s[i := of_int c]) (i + 1) stream1 io1 }"

text \<open>Whether a line was read, and the array.\<close>

definition u_fgets ::
    "'k read_call \<Rightarrow> u8 list option \<Rightarrow> int \<Rightarrow> u_file option \<Rightarrow> 'k io \<Rightarrow> (bool \<times> u8 list option \<times> u_file option \<times> 'k io) option" where
  "u_fgets rd s sz stream io =
     (case s of
        None \<Rightarrow> Some (False, s, stream, io)
      | Some buf \<Rightarrow>
          if sz \<le> 0 then Some (False, s, stream, io)
          else
            do { (buf1, i, stream1, io1) \<leftarrow> fgets_loop rd (nat (sz - 1)) buf 0 stream io;
                 if i = 0 then Some (False, Some buf1, stream1, io1)
                 else if length buf1 \<le> i then None
                 else Some (True, Some (buf1[i := 0]), stream1, io1) })"

definition u_ungetc :: "int \<Rightarrow> u_file option \<Rightarrow> int \<times> u_file option" where
  "u_ungetc c stream =
     (case stream of
        None \<Rightarrow> (EOF, None)
      | Some f \<Rightarrow>
          if c = EOF then (EOF, stream)
          else if fi_ungot f \<noteq> 0 then (EOF, stream)
          else (c, Some (f\<lparr>fi_ungot := 1, fi_ungot_ch := of_int c, fi_eof := 0\<rparr>)))"

text \<open>\<open>line\<close> and \<open>n\<close> are \<^verbatim>\<open>*lineptr\<close> and \<^verbatim>\<open>*n\<close>; \<open>block\<close> is what \<^verbatim>\<open>malloc\<close> gives.\<close>

definition u_getline ::
    "'k read_call \<Rightarrow> u8 list option \<Rightarrow> (u8 list option \<times> u64) option \<Rightarrow> u_file option \<Rightarrow> 'k io \<Rightarrow>
     (int \<times> (u8 list option \<times> u64) option \<times> u_file option \<times> 'k io) option" where
  "u_getline rd block lp stream io =
     (case (lp, stream) of
        (Some (line, n), Some f) \<Rightarrow>
          (let fresh = (line = None \<or> n = 0); line1 = (if fresh then block else line); n1 = (if fresh then 128 else n) in
           if line1 = None then Some (- 1, Some (None, n1), stream, fail_with ENOMEM io)
           else
             do { (ok, buf, stream1, io1) \<leftarrow> u_fgets rd line1 (c_int n1) stream io;
                  Some (if \<not> ok then (- 1, Some (buf, n1), stream1, io1)
                        else (int (strlen (the buf)), Some (buf, n1), stream1, io1)) })
      | _ \<Rightarrow> Some (- 1, lp, stream, fail_with EINVAL io))"

section \<open>Writing\<close>

definition u_fwrite ::
    "'k write_call \<Rightarrow> (u64 \<Rightarrow> u8 list) option \<Rightarrow> u64 \<Rightarrow> u64 \<Rightarrow> u_file option \<Rightarrow> 'k io \<Rightarrow> (u64 \<times> u_file option \<times> 'k io) option" where
  "u_fwrite wr ptr sz nmemb stream io =
     (case (stream, ptr) of
        (Some f, Some bytes) \<Rightarrow>
          if sz = 0 \<or> nmemb = 0 then Some (0, stream, io)
          else
            do { (n, io1) \<leftarrow> wr (fi_fd f) (bytes (sz * nmemb)) io;
                 Some (if n < 0 then (0, Some (f\<lparr>fi_err := 1\<rparr>), io1) else (of_int n div sz, stream, io1)) }
      | _ \<Rightarrow> Some (0, stream, io))"

definition u_fputc :: "'k write_call \<Rightarrow> int \<Rightarrow> u_file option \<Rightarrow> 'k io \<Rightarrow> (int \<times> u_file option \<times> 'k io) option" where
  "u_fputc wr c stream io =
     (case stream of
        None \<Rightarrow> Some (EOF, None, fail_with EINVAL io)
      | Some f \<Rightarrow>
          do { (n, io1) \<leftarrow> wr (fi_fd f) [of_int c] io;
               Some (if n \<noteq> 1 then (EOF, Some (f\<lparr>fi_err := 1\<rparr>), io1) else (uint (of_int c :: u8), stream, io1)) })"

definition u_fputs :: "'k write_call \<Rightarrow> cstr option \<Rightarrow> u_file option \<Rightarrow> 'k io \<Rightarrow> (int \<times> u_file option \<times> 'k io) option" where
  "u_fputs wr s stream io =
     (case (stream, s) of
        (Some f, Some str) \<Rightarrow>
          do { (n, io1) \<leftarrow> wr (fi_fd f) str io;
               Some (if n < 0 then (EOF, Some (f\<lparr>fi_err := 1\<rparr>), io1) else (sint (of_int n :: u32), stream, io1)) }
      | _ \<Rightarrow> Some (EOF, stream, fail_with EINVAL io))"

section \<open>Position and flags\<close>

definition u_fseek :: "'k seek_call \<Rightarrow> u_file option \<Rightarrow> int \<Rightarrow> int \<Rightarrow> 'k io \<Rightarrow> int \<times> u_file option \<times> 'k io" where
  "u_fseek lseek_call stream offset whence io =
     (case stream of
        None \<Rightarrow> (- 1, None, fail_with EINVAL io)
      | Some f \<Rightarrow>
          (case lseek_call (fi_fd f) offset whence io of
             (ret, io1) \<Rightarrow>
               if ret < 0 then (- 1, Some (f\<lparr>fi_err := 1\<rparr>), io1) else (0, Some (f\<lparr>fi_eof := 0\<rparr>), io1)))"

definition u_ftell :: "'k seek_call \<Rightarrow> u_file option \<Rightarrow> 'k io \<Rightarrow> int \<times> u_file option \<times> 'k io" where
  "u_ftell lseek_call stream io =
     (case stream of
        None \<Rightarrow> (- 1, None, fail_with EINVAL io)
      | Some f \<Rightarrow>
          (case lseek_call (fi_fd f) 0 1 io of
             (ret, io1) \<Rightarrow> if ret < 0 then (- 1, Some (f\<lparr>fi_err := 1\<rparr>), io1) else (ret, stream, io1)))"

definition u_fgetpos :: "'k seek_call \<Rightarrow> u_file option \<Rightarrow> bool \<Rightarrow> 'k io \<Rightarrow> int \<times> int option \<times> u_file option \<times> 'k io" where
  "u_fgetpos lseek_call stream have_pos io =
     (if \<not> have_pos then (- 1, None, stream, fail_with EINVAL io)
      else
        (case u_ftell lseek_call stream io of
           (off, stream1, io1) \<Rightarrow>
             if off < 0 then (- 1, None, stream1, io1) else (0, Some off, stream1, io1)))"

definition u_fsetpos :: "'k seek_call \<Rightarrow> u_file option \<Rightarrow> int option \<Rightarrow> 'k io \<Rightarrow> int \<times> u_file option \<times> 'k io" where
  "u_fsetpos lseek_call stream pos io =
     (case pos of None \<Rightarrow> (- 1, stream, fail_with EINVAL io) | Some p \<Rightarrow> u_fseek lseek_call stream p 0 io)"

definition u_clearerr :: "u_file option \<Rightarrow> u_file option" where
  "u_clearerr stream = (case stream of None \<Rightarrow> None | Some f \<Rightarrow> Some (f\<lparr>fi_err := 0, fi_eof := 0\<rparr>))"

definition u_rewind :: "'k seek_call \<Rightarrow> u_file option \<Rightarrow> 'k io \<Rightarrow> u_file option \<times> 'k io" where
  "u_rewind lseek_call stream io =
     (case stream of
        None \<Rightarrow> (None, io)
      | Some f \<Rightarrow> (case u_fseek lseek_call stream 0 0 io of (_, stream1, io1) \<Rightarrow> (u_clearerr stream1, io1)))"

definition u_feof :: "u_file option \<Rightarrow> int" where
  "u_feof stream = (case stream of None \<Rightarrow> 0 | Some f \<Rightarrow> fi_eof f)"

definition u_ferror :: "u_file option \<Rightarrow> int" where
  "u_ferror stream = (case stream of None \<Rightarrow> 0 | Some f \<Rightarrow> fi_err f)"

definition u_fileno :: "u_file option \<Rightarrow> 'k io \<Rightarrow> int \<times> 'k io" where
  "u_fileno stream io = (case stream of None \<Rightarrow> (- 1, fail_with EINVAL io) | Some f \<Rightarrow> (fi_fd f, io))"

definition u_remove :: "(cstr \<Rightarrow> 'k io \<Rightarrow> int \<times> 'k io) \<Rightarrow> cstr option \<Rightarrow> 'k io \<Rightarrow> int \<times> 'k io" where
  "u_remove unlink_call path io = (case path of None \<Rightarrow> (- 1, fail_with EINVAL io) | Some p \<Rightarrow> unlink_call p io)"

section \<open>Formatting into a new block\<close>

text \<open>\<open>mal\<close> and \<open>real\<close> are \<^verbatim>\<open>malloc\<close> and \<^verbatim>\<open>realloc\<close>: the bytes of the block, if there is one.\<close>

definition u_vasprintf ::
    "(nat \<Rightarrow> u8 list option) \<Rightarrow> (u8 list \<Rightarrow> nat \<Rightarrow> u8 list option) \<Rightarrow> bool \<Rightarrow> cstr \<Rightarrow> varg list \<Rightarrow> (int \<times> u8 list option) option" where
  "u_vasprintf mal real have_strp fmt args =
     (if \<not> have_strp then Some (- 1, None)
      else
        (case mal 256 of
           None \<Rightarrow> Some (- 1, None)
         | Some buf \<Rightarrow>
             do { (n, buf1) \<leftarrow> vsnprintf buf 256 fmt args;
                  if n < 0 then Some (- 1, None)
                  else if n \<ge> 256 then
                    (case real buf1 (nat n + 1) of
                       None \<Rightarrow> Some (- 1, None)
                     | Some nxt \<Rightarrow>
                         do { (n2, buf2) \<leftarrow> vsnprintf nxt (nat n + 1) fmt args;
                              Some (if n2 < 0 then (- 1, None) else (n2, Some buf2)) })
                  else Some (n, Some buf1) }))"

end
