(* ===== verification/Dirent_Props.thy ===== *)
theory Dirent_Props
  imports User_Dirent User_Space
begin

text \<open>
  \<^verbatim>\<open>readdir\<close> over \<^verbatim>\<open>getdents64\<close>.  The records the kernel writes are what the library reads back; the locale
  \<open>dir_source\<close> states what \<^verbatim>\<open>readdir\<close> needs of the call, and its interpretation is the system call of the
  kernel on the memory of the user.
\<close>

section \<open>A record\<close>

definition entry_ok :: "vfs_dirent \<Rightarrow> bool" where
  "entry_ok de \<longleftrightarrow> nul_free (d_name de) \<and> length (d_name de) \<le> 231"

text \<open>What the user is to see of an entry at an offset of the directory.\<close>

definition seen :: "vfs_dirent \<Rightarrow> u64 \<Rightarrow> u_dirent" where
  "seen de off = \<lparr>ud_ino = d_ino de, ud_off = off + 1, ud_reclen = of_nat (dirent_reclen (d_name de)),
     ud_type = (if d_type de = vnode_type_num VNODE_DIR then 4 else 8), ud_name = d_name de\<rparr>"

lemma dirent_reclen_bounds: "length nm + 25 \<le> dirent_reclen nm" "dirent_reclen nm \<le> length nm + 32"
  "length nm \<le> 231 \<Longrightarrow> dirent_reclen nm \<le> 256"
  by (simp_all add: dirent_reclen_def Let_def) linarith+

text \<open>The record and what stands behind the name.\<close>

lemma dirent_bytes_split:
  assumes "256 \<le> length junk" and "entry_ok de"
  shows "\<exists>pad. dirent_bytes junk de off =
      le_bytes 8 (d_ino de) @ le_bytes 8 (off + 1) @ le_bytes 2 (of_nat (dirent_reclen (d_name de)) :: u16) @
      [if d_type de = vnode_type_num VNODE_DIR then 4 else 8] @ d_name de @ 0 # pad" (is "\<exists>pad. _ = ?h @ ?i @ ?l @ ?t @ d_name de @ 0 # pad")
    and "length (dirent_bytes junk de off) = dirent_reclen (d_name de)"
proof -
  let ?r = "dirent_reclen (d_name de)" and ?j = "drop (20 + length (d_name de)) junk"
  note r = dirent_reclen_bounds [of "d_name de"]
  have le: "length (d_name de) \<le> 231" using assms(2) by (simp add: entry_ok_def)
  have "dirent_bytes junk de off = ?h @ ?i @ ?l @ ?t @ d_name de @ 0 # take (?r - (20 + length (d_name de))) ?j"
    using r(1) by (simp add: dirent_bytes_def take_Cons' algebra_simps)
  then show "\<exists>pad. dirent_bytes junk de off = ?h @ ?i @ ?l @ ?t @ d_name de @ 0 # pad" by blast
  show "length (dirent_bytes junk de off) = ?r"
    using r(1,2) r(3) [OF le] assms(1) by (simp add: dirent_bytes_def min_def) arith
qed

lemma dirent_at_record:
  assumes "256 \<le> length junk" and "entry_ok de"
  shows "dirent_at (pre @ dirent_bytes junk de off @ post) (length pre) = Some (seen de off)"
    and "reclen_at (pre @ dirent_bytes junk de off @ post) (length pre) = Some (dirent_reclen (d_name de))"
proof -
  obtain pad where p: "dirent_bytes junk de off =
      le_bytes 8 (d_ino de) @ le_bytes 8 (off + 1) @ le_bytes 2 (of_nat (dirent_reclen (d_name de)) :: u16) @
      [if d_type de = vnode_type_num VNODE_DIR then 4 else 8] @ d_name de @ 0 # pad"
    using dirent_bytes_split(1) [OF assms] by blast
  have nm: "nul_free (d_name de)" "length (d_name de) \<le> 231" using assms(2) by (simp_all add: entry_ok_def)
  have tw: "takeWhile (\<lambda>c. c \<noteq> 0) (d_name de @ 0 # pad @ post) = d_name de"
    using nm(1) by (subst takeWhile_append2) (auto simp: nul_free_def)
  have name: "dirent_name (d_name de @ 0 # pad @ post) = Some (d_name de)"
    using nm(2) by (simp add: dirent_name_def tw)
  show "dirent_at (pre @ dirent_bytes junk de off @ post) (length pre) = Some (seen de off)"
    by (simp add: dirent_at_def p name seen_def Let_def nth_append le_round_trip)
  have "dirent_reclen (d_name de) < 2 ^ 16" using dirent_reclen_bounds(3) [OF nm(2)] by simp
  then show "reclen_at (pre @ dirent_bytes junk de off @ post) (length pre) = Some (dirent_reclen (d_name de))"
    by (simp add: reclen_at_def p unat_of_nat le_round_trip)
qed

section \<open>Blocks of records\<close>

fun dir_block :: "u8 list \<Rightarrow> vfs_dirent list \<Rightarrow> u64 \<Rightarrow> u8 list" where
  "dir_block junk [] off = []"
| "dir_block junk (de # des) off = dirent_bytes junk de off @ dir_block junk des (off + 1)"

fun listed :: "vfs_dirent list \<Rightarrow> u64 \<Rightarrow> u_dirent list" where
  "listed [] off = []"
| "listed (de # des) off = seen de off # listed des (off + 1)"

lemma listed_append: "listed (as @ bs) off = listed as off @ listed bs (off + of_nat (length as))"
  by (induction as arbitrary: off) (simp_all add: algebra_simps)

lemma dir_block_snoc: "dir_block junk (des @ [de]) off = dir_block junk des off @ dirent_bytes junk de (off + of_nat (length des))"
  by (induction des arbitrary: off) (simp_all add: algebra_simps)

lemma map_listed: "map ud_name (listed des off) = map d_name des"
  by (induction des arbitrary: off) (simp_all add: seen_def)

text \<open>The first \<open>n\<close> answers of \<^verbatim>\<open>readdir\<close>.\<close>

fun readdir_times :: "(int \<Rightarrow> u8 list \<Rightarrow> 'k \<Rightarrow> (int \<times> u8 list \<times> 'k) option) \<Rightarrow> nat \<Rightarrow> u_dir option \<Rightarrow> 'k \<Rightarrow>
    (u_dirent option list \<times> u_dir option \<times> 'k) option" where
  "readdir_times getdents 0 d k = Some ([], d, k)"
| "readdir_times getdents (Suc n) d k =
     do { (e, d1, k1) \<leftarrow> u_readdir getdents d k;
          (es, d2, k2) \<leftarrow> readdir_times getdents n d1 k1;
          Some (e # es, d2, k2) }"

text \<open>
  What \<^verbatim>\<open>readdir\<close> needs: a call gives the records of some of the entries that are left, at least one
  if there are any, and moves on behind them.
\<close>

locale dir_source =
  fixes getdents :: "int \<Rightarrow> u8 list \<Rightarrow> 'k \<Rightarrow> (int \<times> u8 list \<times> 'k) option"
    and fd :: int
    and ok :: "'k \<Rightarrow> bool"
    and pending :: "'k \<Rightarrow> vfs_dirent list"
    and offset :: "'k \<Rightarrow> u64"
    and junk :: "u8 list"
  assumes junk_len: "ok k \<Longrightarrow> 256 \<le> length junk"
    and block: "ok k \<Longrightarrow> length buf = DIRENT_BUF \<Longrightarrow> \<exists>m post k'.
      getdents fd buf k = Some (int (length (dir_block junk (take m (pending k)) (offset k))),
        dir_block junk (take m (pending k)) (offset k) @ post, k') \<and>
      length (dir_block junk (take m (pending k)) (offset k) @ post) = DIRENT_BUF \<and>
      m \<le> length (pending k) \<and> (pending k \<noteq> [] \<longrightarrow> 0 < m) \<and>
      ok k' \<and> pending k' = drop m (pending k) \<and> offset k' = offset k + of_nat m"
    and good: "ok k \<Longrightarrow> \<forall>de\<in>set (pending k). entry_ok de"
begin

text \<open>Between two calls: records still in the buffer, and the entries behind them with the kernel.\<close>

definition stream :: "u_dir \<Rightarrow> 'k \<Rightarrow> vfs_dirent list \<Rightarrow> u64 \<Rightarrow> bool" where
  "stream d k todo off \<longleftrightarrow> (\<exists>pre es post.
     dr_fd d = fd \<and> length (dr_buf d) = DIRENT_BUF \<and> dr_nread d = dr_pos d + length (dir_block junk es off) \<and>
     (es \<noteq> [] \<longrightarrow> dr_buf d = pre @ dir_block junk es off @ post \<and> dr_pos d = length pre) \<and>
     (\<forall>de\<in>set es. entry_ok de) \<and> todo = es @ pending k \<and> offset k = off + of_nat (length es) \<and> ok k)"

lemma take_record:
  assumes d: "dr_fd d = fd" "length (dr_buf d) = DIRENT_BUF" "dr_nread d = dr_pos d + length (dir_block junk (de # es) off)"
      "dr_buf d = pre @ dir_block junk (de # es) off @ post" "dr_pos d = length pre"
    and g: "\<forall>x\<in>set (de # es). entry_ok x" and k: "ok k" "offset k = off + of_nat (length (de # es))"
  shows "reclen_at (dr_buf d) (dr_pos d) = Some (dirent_reclen (d_name de))"
    "dirent_at (dr_buf d) (dr_pos d) = Some (seen de off)"
    "stream (d\<lparr>dr_pos := dr_pos d + dirent_reclen (d_name de), dr_ent := e\<rparr>) k (es @ pending k) (off + 1)"
    "dr_pos d < dr_nread d"
proof -
  have e: "entry_ok de" using g by simp
  have l: "length (dirent_bytes junk de off) = dirent_reclen (d_name de)" by (rule dirent_bytes_split(2) [OF junk_len [OF k(1)] e])
  show "reclen_at (dr_buf d) (dr_pos d) = Some (dirent_reclen (d_name de))"
    "dirent_at (dr_buf d) (dr_pos d) = Some (seen de off)"
    unfolding d(4,5) using dirent_at_record [OF junk_len [OF k(1)] e, of pre off "dir_block junk es (off + 1) @ post"] by simp_all
  show "dr_pos d < dr_nread d" using d(3) l dirent_reclen_bounds(1) [of "d_name de"] by simp
  have "dr_buf d = (pre @ dirent_bytes junk de off) @ dir_block junk es (off + 1) @ post" using d(4) by simp
  then show "stream (d\<lparr>dr_pos := dr_pos d + dirent_reclen (d_name de), dr_ent := e\<rparr>) k (es @ pending k) (off + 1)"
    unfolding stream_def using d g k l
    by (intro exI [of _ "pre @ dirent_bytes junk de off"] exI [of _ es] exI [of _ post]) (simp add: algebra_simps)
qed

lemma readdir_next:
  assumes "stream d k (de # todo) off"
  shows "\<exists>d' k'. readdir_loop getdents d k = Some (Some (seen de off), d', k') \<and> stream d' k' todo (off + 1)"
proof -
  obtain pre es post where s: "dr_fd d = fd" "length (dr_buf d) = DIRENT_BUF"
      "dr_nread d = dr_pos d + length (dir_block junk es off)"
      "es \<noteq> [] \<longrightarrow> dr_buf d = pre @ dir_block junk es off @ post \<and> dr_pos d = length pre"
      "\<forall>de\<in>set es. entry_ok de" "de # todo = es @ pending k" "offset k = off + of_nat (length es)" "ok k"
    using assms unfolding stream_def by blast
  have rl: "dirent_reclen nm \<noteq> 0" for nm using dirent_reclen_bounds(1) [of nm] by simp
  show ?thesis
  proof (cases es)
    case (Cons x es')
    then have x: "x = de" "todo = es' @ pending k" using s(6) by simp_all
    have h: "dr_nread d = dr_pos d + length (dir_block junk (de # es') off)"
      "dr_buf d = pre @ dir_block junk (de # es') off @ post" "dr_pos d = length pre"
      "\<forall>x\<in>set (de # es'). entry_ok x" "offset k = off + of_nat (length (de # es'))"
      using s Cons x(1) by simp_all
    note t = take_record(1,2,4) [OF s(1,2) h(1-4) s(8) h(5)]
      take_record(3) [where e = "seen de off", OF s(1,2) h(1-4) s(8) h(5)]
    show ?thesis using t by (subst readdir_loop.simps) (simp add: x(2) rl)
  next
    case Nil
    obtain m post k' where b: "getdents fd (dr_buf d) k = Some (int (length (dir_block junk (take m (pending k)) (offset k))),
        dir_block junk (take m (pending k)) (offset k) @ post, k')"
      "length (dir_block junk (take m (pending k)) (offset k) @ post) = DIRENT_BUF"
      "pending k \<noteq> [] \<longrightarrow> 0 < m" "ok k'" "pending k' = drop m (pending k)" "offset k' = offset k + of_nat m" "m \<le> length (pending k)"
      using block [OF s(8,2)] by blast
    have p: "pending k = de # todo" "offset k = off" using s(6,7) Nil by simp_all
    then obtain j where m: "m = Suc j" using b(3) by (cases m) auto
    let ?bs = "dir_block junk (de # take j todo) off"
    let ?d = "d\<lparr>dr_buf := ?bs @ post, dr_nread := length ?bs, dr_pos := 0\<rparr>"
    have g: "\<forall>x\<in>set (de # take j todo). entry_ok x" using good [OF s(8)] by (auto simp: p dest: in_set_takeD)
    have g1: "getdents fd (dr_buf d) k = Some (int (length ?bs), ?bs @ post, k')" "length (?bs @ post) = DIRENT_BUF"
      using b(1,2) by (simp_all add: p m)
    have h: "offset k' = off + of_nat (length (de # take j todo))" using b(6,7) by (simp add: p m min_def)
    have fd: "dr_fd ?d = fd" "length (dr_buf ?d) = DIRENT_BUF" "dr_nread ?d = dr_pos ?d + length ?bs"
      "dr_buf ?d = [] @ ?bs @ post" "dr_pos ?d = length []"
      using s(1) g1(2) by simp_all
    note t = take_record(1,2,4) [OF fd g b(4) h]
      take_record(3) [where e = "seen de off", OF fd g b(4) h]
    have "take j todo @ pending k' = todo" using b(5) by (simp add: p m)
    then have st: "stream (?d\<lparr>dr_pos := dr_pos ?d + dirent_reclen (d_name de), dr_ent := seen de off\<rparr>) k' todo (off + 1)"
      using t(4) by simp
    have le: "dr_nread d \<le> dr_pos d" using s(3) Nil by simp
    have pos: "\<not> int (length ?bs) \<le> 0" using t(3) by (simp del: dir_block.simps)
    have "readdir_loop getdents d k =
        Some (Some (seen de off), ?d\<lparr>dr_pos := dr_pos ?d + dirent_reclen (d_name de), dr_ent := seen de off\<rparr>, k')"
      using t(1,2) pos by (subst readdir_loop.simps) (simp add: le rl s(1) g1(1) del: dir_block.simps)
    then show ?thesis using st by blast
  qed
qed

lemma readdir_end:
  assumes "stream d k [] off"
  shows "\<exists>d' k'. readdir_loop getdents d k = Some (None, d', k') \<and> stream d' k' [] off"
proof -
  have s: "dr_fd d = fd" "length (dr_buf d) = DIRENT_BUF" "dr_nread d = dr_pos d" "pending k = []" "offset k = off" "ok k"
    using assms unfolding stream_def by auto
  obtain m post k' where b: "getdents fd (dr_buf d) k = Some (0, post, k')" "length post = DIRENT_BUF" "ok k'"
      "pending k' = []" "offset k' = off"
    using block [OF s(6,2)] s(4,5) by auto
  have "readdir_loop getdents d k = Some (None, d\<lparr>dr_buf := post\<rparr>, k')"
    by (subst readdir_loop.simps) (simp add: s b(1))
  moreover have "stream (d\<lparr>dr_buf := post\<rparr>) k' [] off"
    unfolding stream_def using s b by (intro exI [of _ "[]"]) simp
  ultimately show ?thesis by blast
qed

lemma readdir_all:
  "stream d k todo off \<Longrightarrow> \<exists>d' k'. readdir_times getdents (length todo + 1) (Some d) k =
     Some (map Some (listed todo off) @ [None], Some d', k') \<and> stream d' k' [] (off + of_nat (length todo))"
proof (induction todo arbitrary: d k off)
  case Nil
  then show ?case using readdir_end [OF Nil] by (auto simp: u_readdir_def)
next
  case (Cons de todo)
  obtain d1 k1 where 1: "readdir_loop getdents d k = Some (Some (seen de off), d1, k1)" "stream d1 k1 todo (off + 1)"
    using readdir_next [OF Cons.prems] by blast
  obtain d' k' where 2: "readdir_times getdents (length todo + 1) (Some d1) k1 =
      Some (map Some (listed todo (off + 1)) @ [None], Some d', k')" "stream d' k' [] (off + 1 + of_nat (length todo))"
    using Cons.IH [OF 1(2)] by blast
  have more: "readdir_times getdents (Suc n) (Some d) k = Some (Some (seen de off) # es, dd, kk)"
    if "readdir_times getdents n (Some d1) k1 = Some (es, dd, kk)" for n es dd kk
    using 1(1) that by (simp add: u_readdir_def)
  have "readdir_times getdents (length (de # todo) + 1) (Some d) k =
      Some (map Some (listed (de # todo) off) @ [None], Some d', k')"
    using more [OF 2(1)] by (simp del: readdir_times.simps)
  moreover have "off + of_nat (length (de # todo)) = off + 1 + of_nat (length todo)" by simp
  ultimately show ?case using 2(2) by metis
qed

end

section \<open>The system call of the kernel\<close>

text \<open>The entries a directory has, at the offsets from 0 on.\<close>

definition dir_lists :: "'a vfs_state_scheme \<Rightarrow> nat \<Rightarrow> vfs_dirent list \<Rightarrow> bool" where
  "dir_lists s v es \<longleftrightarrow> length es < 2 ^ 63 \<and> (\<forall>de\<in>set es. entry_ok de) \<and>
     (\<forall>i<length es. vfs_readdir s (Some v) (of_nat i) = Some (0, Some (es ! i))) \<and>
     (\<exists>r x. vfs_readdir s (Some v) (of_nat (length es)) = Some (r, x) \<and> r \<noteq> 0)"

lemma vfs_readdir_phys [simp]: "vfs_readdir (set_phys m s) v off = vfs_readdir s v off"
  by (simp add: set_phys_def vfs_readdir_def not_dir_def ramfs_readdir_def ramfs_node_addr_def fat32_readdir_op_def
      fat_node_of_def split: option.split fs_ops.split cong: option.case_cong)

lemma dir_lists_phys [simp]: "dir_lists (set_phys m s) v es = dir_lists s v es"
  by (simp add: dir_lists_def)

lemma cur_pt_phys [simp]: "cur_pt (set_phys m s) p = cur_pt s p"
  by (simp add: cur_pt_def set_phys_def)

lemma phys_phys [simp]: "phys (set_phys m s) = m"
  by (simp add: set_phys_def)

lemma stack_junk_phys [simp]: "stack_junk (set_phys m s) = stack_junk s"
  by (simp add: set_phys_def)

context user_space begin

lemma put_behind:
  assumes ok: "ok m" and mp: "mapped m b t" and a: "b \<le> unat a" "unat a + length bs + length cs \<le> t" and h: "holds m a bs"
  shows "\<exists>m'. put (a + of_nat (length bs)) cs m = (0, m') \<and> ok m' \<and> mapped m' b t \<and> holds m' a (bs @ cs)"
proof -
  have r: "user_range a (length (bs @ cs))" by (rule mapped_range [OF mp]) (use a in simp_all)
  have at: "unat (a + of_nat (length bs)) = unat a + length bs" if "cs \<noteq> []"
    using user_range_at(2) [OF r, of "length bs"] that by simp
  have r2: "user_range (a + of_nat (length bs)) (length cs)"
  proof (cases "cs = []")
    case False
    then show ?thesis using at r by (simp add: user_range_def word_le_nat_alt)
  qed (simp add: user_range_def)
  have inside: "\<forall>i<length cs. byte m (a + of_nat (length bs) + of_nat i) \<noteq> None"
  proof (intro allI impI)
    fix i assume i: "i < length cs"
    then have ne: "cs \<noteq> []" by auto
    have "unat (a + of_nat (length bs) + of_nat i) = unat a + length bs + i"
      using user_range_at(2) [OF r2 i] at [OF ne] by simp
    then show "byte m (a + of_nat (length bs) + of_nat i) \<noteq> None" using mp a i by (simp add: mapped_def)
  qed
  obtain m' where m': "put (a + of_nat (length bs)) cs m = (0, m')" "ok m'" and
    b': "\<And>v. user_va v \<Longrightarrow> byte m' v =
      (if unat (v - (a + of_nat (length bs))) < length cs then Some (cs ! unat (v - (a + of_nat (length bs)))) else byte m v)"
    using put_mapped [OF ok r2 inside] by blast
  have u: "user_va v" if "b \<le> unat v" "unat v < t" for v
    using that mp by (simp add: mapped_def user_va_def word_le_nat_alt word_less_nat_alt)
  have "mapped m' b t" using mp b' u unfolding mapped_def by (metis option.distinct(1))
  moreover have "byte m' (a + of_nat i) = Some ((bs @ cs) ! i)" if i: "i < length (bs @ cs)" for i
  proof (cases "i < length bs")
    case True
    have v: "user_va (a + of_nat i)" "unat (a + of_nat i) = unat a + i" using user_range_at [OF r i] by simp_all
    have "\<not> unat (a + of_nat i - (a + of_nat (length bs))) < length cs"
      using offset_below [OF r2 v(1)] at v(2) True by fastforce
    then show ?thesis using b' [OF v(1)] h True by (simp add: holds_def nth_append)
  next
    case False
    then have l: "i - length bs < length cs" "i = length bs + (i - length bs)" using i by simp_all
    have e: "a + of_nat i = a + of_nat (length bs) + of_nat (i - length bs)" by (subst l(2)) (simp only: of_nat_add add.assoc)
    have "unat (a + of_nat i - (a + of_nat (length bs))) = i - length bs"
      using range_index [OF r2 l(1)] by (simp add: e)
    then show ?thesis using b' [OF user_range_at(1) [OF r i]] l(1) False by (simp add: nth_append)
  qed
  ultimately show ?thesis using m' r unfolding holds_def by blast
qed

end

text \<open>The loop writes the records of some entries behind those that are there.\<close>

lemma getdents_loop_block:
  assumes "uvm_inv (phys s) xs (cur_pt s p) l1" and "us.mapped l1 (phys s) b t" and "b \<le> unat dirp" "unat dirp + DIRENT_BUF \<le> t"
    and "us.holds l1 (phys s) dirp bs" and "length bs \<le> DIRENT_BUF" and "dir_lists s v es" and "i \<le> length es" and "256 \<le> length (stack_junk s)"
  shows "\<exists>m blk M. getdents_loop p (Some v) dirp 512 (of_nat (length bs)) (of_nat i) s =
      Some (0, of_nat (length (bs @ blk)), of_nat (i + m), set_phys M s) \<and>
    blk = dir_block (stack_junk s) (take m (drop i es)) (of_nat i) \<and>
    uvm_inv M xs (cur_pt s p) l1 \<and> us.mapped l1 M b t \<and> us.holds l1 M dirp (bs @ blk) \<and> length (bs @ blk) \<le> DIRENT_BUF \<and>
    i + m \<le> length es \<and> (bs = [] \<and> i < length es \<longrightarrow> 0 < m)"
  using assms
proof (induction "length es - i" arbitrary: i bs s)
  case 0
  have self: "set_phys (phys s) s = s" by (simp add: set_phys_def)
  obtain r x where "vfs_readdir s (Some v) (of_nat (length es)) = Some (r, x)" "r \<noteq> 0"
    using "0.prems"(7) unfolding dir_lists_def by blast
  moreover have "i = length es" using 0 by simp
  ultimately have "getdents_loop p (Some v) dirp 512 (of_nat (length bs)) (of_nat i) s =
      Some (0, of_nat (length bs), of_nat i, set_phys (phys s) s)"
    by (subst getdents_loop.simps) (simp add: self)
  then show ?case using 0 by (intro exI [of _ 0] exI [of _ "[]"] exI [of _ "phys s"]) simp
next
  case (Suc n)
  have self: "set_phys (phys s) s = s" by (simp add: set_phys_def)
  have i: "i < length es" using Suc.hyps(2) by simp
  define de where "de = es ! i"
  have rd: "vfs_readdir s (Some v) (of_nat i) = Some (0, Some de)" and ok: "entry_ok de"
    using Suc.prems(7) i unfolding dir_lists_def by (simp_all add: de_def)
  let ?r = "dirent_reclen (d_name de)" and ?bytes = "dirent_bytes (stack_junk s) de (of_nat i)"
  have r: "?r \<le> 256" "length ?bytes = ?r"
    using ok dirent_reclen_bounds(3) dirent_bytes_split(2) [OF Suc.prems(9) ok] by (simp_all add: entry_ok_def)
  have w: "unat (of_nat (length bs) :: u64) = length bs" "unat (of_nat ?r :: u64) = ?r"
    using Suc.prems(6) r(1) by (simp_all add: unat_of_nat)
  have c1: "(of_nat (length bs) + 25 :: u64) < 512 \<longleftrightarrow> length bs + 25 < 512"
    using Suc.prems(6) w(1) by (simp add: word_less_nat_alt unat_plus_if')
  have c2: "(512 :: u64) < of_nat (length bs) + of_nat ?r \<longleftrightarrow> 512 < length bs + ?r"
    using Suc.prems(6) r(1) w by (simp add: word_less_nat_alt unat_plus_if')
  show ?case
  proof (cases "length bs + 25 < 512 \<and> length bs + ?r \<le> 512")
    case False
    then have "getdents_loop p (Some v) dirp 512 (of_nat (length bs)) (of_nat i) s =
        Some (0, of_nat (length bs), of_nat i, set_phys (phys s) s)"
      by (subst getdents_loop.simps) (auto simp: self rd c1 c2 Let_def)
    moreover have "bs \<noteq> []" using False r(1) by auto
    ultimately show ?thesis using Suc.prems by (intro exI [of _ 0] exI [of _ "[]"] exI [of _ "phys s"]) simp
  next
    case True
    obtain M where M: "copyout (cur_pt s p) (dirp + of_nat (length bs)) ?bytes (phys s) = (0, M)"
      "uvm_inv M xs (cur_pt s p) l1" "us.mapped l1 M b t" "us.holds l1 M dirp (bs @ ?bytes)"
      using us.put_behind [OF Suc.prems(1,2,3) _ Suc.prems(5), of ?bytes] Suc.prems(4) True r(2) by auto
    let ?s = "set_phys M s"
    have step: "getdents_loop p (Some v) dirp 512 (of_nat (length bs)) (of_nat i) s =
        getdents_loop p (Some v) dirp 512 (of_nat (length (bs @ ?bytes))) (of_nat (i + 1)) ?s"
      using True r by (subst getdents_loop.simps) (simp add: rd c1 c2 Let_def to_user_def M(1) add.commute not_less)
    have pre: "n = length es - (i + 1)" "uvm_inv (phys ?s) xs (cur_pt ?s p) l1" "us.mapped l1 (phys ?s) b t"
      "us.holds l1 (phys ?s) dirp (bs @ ?bytes)" "length (bs @ ?bytes) \<le> DIRENT_BUF" "dir_lists ?s v es" "i + 1 \<le> length es"
      "256 \<le> length (stack_junk ?s)"
      using Suc.hyps(2) Suc.prems M True r(2) i by simp_all
    obtain m blk M' where ih: "getdents_loop p (Some v) dirp 512 (of_nat (length (bs @ ?bytes))) (of_nat (i + 1)) ?s =
        Some (0, of_nat (length ((bs @ ?bytes) @ blk)), of_nat (i + 1 + m), set_phys M' ?s)"
      "blk = dir_block (stack_junk ?s) (take m (drop (i + 1) es)) (of_nat (i + 1))"
      "uvm_inv M' xs (cur_pt ?s p) l1" "us.mapped l1 M' b t" "us.holds l1 M' dirp ((bs @ ?bytes) @ blk)"
      "length ((bs @ ?bytes) @ blk) \<le> DIRENT_BUF" "i + 1 + m \<le> length es"
      using Suc.hyps(1) [OF pre(1-3) Suc.prems(3,4) pre(4-8)] by blast
    have d: "drop i es = de # drop (i + 1) es" using i by (simp add: de_def Cons_nth_drop_Suc)
    have blk: "?bytes @ blk = dir_block (stack_junk s) (take (Suc m) (drop i es)) (of_nat i)"
      by (simp add: d ih(2) add.commute)
    have eqs: "(bs @ ?bytes) @ blk = bs @ (?bytes @ blk)" "i + 1 + m = i + Suc m" "set_phys M' ?s = set_phys M' s"
      by (simp_all add: set_phys_def)
    note ih = ih [unfolded eqs cur_pt_phys]
    show ?thesis
      by (intro exI [of _ "Suc m"] exI [of _ "?bytes @ blk"] exI [of _ M'] conjI impI zero_less_Suc)
        (rule step [THEN trans, OF ih(1)] blk ih)+
  qed
qed

text \<open>
  A name of more than 231 bytes needs a record of more than the 256 bytes of the buffer on the kernel's
  stack, so the loop gives \<^verbatim>\<open>-EINVAL\<close> when it comes to it, and what it copied before is lost.  That it comes to
  it is that the records up to this one fit into the block.
\<close>

definition dirent_size :: "vfs_dirent list \<Rightarrow> nat" where
  "dirent_size des = sum_list (map (\<lambda>de. dirent_reclen (d_name de)) des)"

lemma dirent_reclen_long: "256 < dirent_reclen nm \<longleftrightarrow> 231 < length nm"
proof
  assume "256 < dirent_reclen nm"
  then show "231 < length nm" using dirent_reclen_bounds(3) [of nm] by (meson not_le)
next
  assume "231 < length nm"
  then show "256 < dirent_reclen nm" using dirent_reclen_bounds(1) [of nm] by simp
qed

lemma getdents_loop_long:
  assumes "uvm_inv (phys s) xs (cur_pt s p) l1" and "us.mapped l1 (phys s) b t" and "b \<le> unat dirp" "unat dirp + DIRENT_BUF \<le> t"
    and "us.holds l1 (phys s) dirp bs" and "length bs + dirent_size (des @ [long]) \<le> DIRENT_BUF"
    and "\<forall>k<length (des @ [long]). vfs_readdir s (Some v) (of_nat (i + k)) = Some (0, Some ((des @ [long]) ! k))"
    and "\<forall>de\<in>set (des @ [long]). nul_free (d_name de)" and "231 < length (d_name long)" and "256 \<le> length (stack_junk s)"
  shows "\<exists>written off M. getdents_loop p (Some v) dirp 512 (of_nat (length bs)) (of_nat i) s =
      Some (- EINVAL, written, off, set_phys M s)"
  using assms
proof (induction des arbitrary: i bs s)
  case Nil
  have self: "set_phys (phys s) s = s" by (simp add: set_phys_def)
  let ?r = "dirent_reclen (d_name long)"
  have r: "256 < ?r" "length bs + ?r \<le> 512" using Nil.prems(6,9) dirent_reclen_long by (simp_all add: dirent_size_def)
  have w: "unat (of_nat (length bs) :: u64) = length bs" "unat (of_nat ?r :: u64) = ?r"
    using r by (simp_all add: unat_of_nat)
  have "vfs_readdir s (Some v) (of_nat i) = Some (0, Some long)" using Nil.prems(7) by simp
  moreover have "(of_nat (length bs) + 25 :: u64) < 512" "\<not> (512 :: u64) < of_nat (length bs) + of_nat ?r"
    using r w by (simp_all add: word_less_nat_alt unat_plus_if')
  ultimately have "getdents_loop p (Some v) dirp 512 (of_nat (length bs)) (of_nat i) s =
      Some (- EINVAL, of_nat (length bs), of_nat i, set_phys (phys s) s)"
    using r(1) by (subst getdents_loop.simps) (simp add: self Let_def)
  then show ?case by blast
next
  case (Cons de des)
  have self: "set_phys (phys s) s = s" by (simp add: set_phys_def)
  have rd: "vfs_readdir s (Some v) (of_nat i) = Some (0, Some de)" using Cons.prems(7) [rule_format, of 0] by simp
  let ?r = "dirent_reclen (d_name de)" and ?bytes = "dirent_bytes (stack_junk s) de (of_nat i)"
  have r: "length bs + ?r + dirent_size (des @ [long]) \<le> 512" "256 < dirent_size (des @ [long])"
    using Cons.prems(6,9) dirent_reclen_long by (auto simp: dirent_size_def intro: trans_less_add2)
  have w: "unat (of_nat (length bs) :: u64) = length bs" "unat (of_nat ?r :: u64) = ?r"
    using r by (simp_all add: unat_of_nat)
  have c: "(of_nat (length bs) + 25 :: u64) < 512" "\<not> (512 :: u64) < of_nat (length bs) + of_nat ?r"
    using r w by (simp_all add: word_less_nat_alt unat_plus_if')
  show ?case
  proof (cases "256 < ?r")
    case True
    then have "getdents_loop p (Some v) dirp 512 (of_nat (length bs)) (of_nat i) s =
        Some (- EINVAL, of_nat (length bs), of_nat i, set_phys (phys s) s)"
      using c by (subst getdents_loop.simps) (simp add: self rd Let_def)
    then show ?thesis by blast
  next
    case False
    have ok: "entry_ok de" using False Cons.prems(8) dirent_reclen_long [of "d_name de"] by (simp add: entry_ok_def)
    have len: "length ?bytes = ?r" by (rule dirent_bytes_split(2) [OF Cons.prems(10) ok])
    obtain M where M: "copyout (cur_pt s p) (dirp + of_nat (length bs)) ?bytes (phys s) = (0, M)"
      "uvm_inv M xs (cur_pt s p) l1" "us.mapped l1 M b t" "us.holds l1 M dirp (bs @ ?bytes)"
      using us.put_behind [OF Cons.prems(1,2,3) _ Cons.prems(5), of ?bytes] Cons.prems(4) r len by auto
    let ?s = "set_phys M s"
    have step: "getdents_loop p (Some v) dirp 512 (of_nat (length bs)) (of_nat i) s =
        getdents_loop p (Some v) dirp 512 (of_nat (length (bs @ ?bytes))) (of_nat (i + 1)) ?s"
      using False c len by (subst getdents_loop.simps) (simp add: rd Let_def to_user_def M(1) add.commute)
    have pre: "uvm_inv (phys ?s) xs (cur_pt ?s p) l1" "us.mapped l1 (phys ?s) b t" "us.holds l1 (phys ?s) dirp (bs @ ?bytes)"
      "length (bs @ ?bytes) + dirent_size (des @ [long]) \<le> DIRENT_BUF" "\<forall>de\<in>set (des @ [long]). nul_free (d_name de)"
      "256 \<le> length (stack_junk ?s)"
      using Cons.prems M r len by simp_all
    have rds: "\<forall>k<length (des @ [long]). vfs_readdir ?s (Some v) (of_nat (i + 1 + k)) = Some (0, Some ((des @ [long]) ! k))"
    proof (intro allI impI)
      fix k assume "k < length (des @ [long])"
      then show "vfs_readdir ?s (Some v) (of_nat (i + 1 + k)) = Some (0, Some ((des @ [long]) ! k))"
        using Cons.prems(7) [rule_format, of "Suc k"] by (simp add: add.assoc add.left_commute)
    qed
    obtain written off M' where ih: "getdents_loop p (Some v) dirp 512 (of_nat (length (bs @ ?bytes))) (of_nat (i + 1)) ?s =
        Some (- EINVAL, written, off, set_phys M' ?s)"
      using Cons.IH [OF pre(1,2) Cons.prems(3,4) pre(3,4) rds pre(5) Cons.prems(9) pre(6)] by blast
    have "set_phys M' ?s = set_phys M' s" by (simp add: set_phys_def)
    then show ?thesis unfolding step ih by blast
  qed
qed

end
