(* ===== verification/Sched.thy ===== *)
theory Sched
  imports Kernel_Run
begin

text \<open>
  The scheduler over the steps of the machine: what one process does leaves every other
  process that can run as it is, so the round of the scheduler reaches each within sixteen
  turns.
\<close>

section \<open>Calls that return keep the round\<close>

text \<open>The running process, the scan of the scheduler, and every process that can run.\<close>

definition runs :: "'a proc_state_scheme \<Rightarrow> 'a proc_state_scheme \<Rightarrow> bool" where
  "runs s s' \<longleftrightarrow> g_current s' = g_current s \<and> sched_i s' = sched_i s \<and>
     (\<forall>q. pr_state (g_procs s q) = PROC_RUNNABLE \<longrightarrow> pr_state (g_procs s' q) = PROC_RUNNABLE)"

lemma runs_refl [simp]: "runs s s" by (simp add: runs_def)
lemma runs_trans: "runs s s1 \<Longrightarrow> runs s1 s2 \<Longrightarrow> runs s s2" by (simp add: runs_def)

lemma runs_pcore: "pcore s' = pcore s \<Longrightarrow> runs s s'"
  using pcoreD(4,6,8) [of s' s] by (simp add: runs_def)

lemma keeps_runs: "keeps s s' \<Longrightarrow> runs s s'"
  by (simp add: keeps_def runs_pcore)

lemma kkeeps_runs: "kkeeps s s' \<Longrightarrow> runs s (s' :: 'a sys_state_scheme)"
  by (simp add: kkeeps_def runs_pcore)

lemma runs_same:
  "g_current s' = g_current s \<and> sched_i s' = sched_i s \<Longrightarrow>
   (\<And>q. pr_state (g_procs s' q) = pr_state (g_procs s q)) \<Longrightarrow> runs s s'"
  by (simp add: runs_def)

lemma fdalloc_sched: "fdalloc p f s = (r, s') \<Longrightarrow> g_current s' = g_current s \<and> sched_i s' = sched_i s"
  by (auto simp: fdalloc_def split: option.splits)

lemma sys_close_runs: "sys_close fd s = (r, s') \<Longrightarrow> runs s s'"
  by (rule runs_same [OF _ sys_close_states])
    (auto simp: sys_close_def split: option.splits if_splits)

lemma sys_dup_runs: "sys_dup fd s = (r, s') \<Longrightarrow> runs s s'"
  by (rule runs_same [OF _ sys_dup_states])
    (auto simp: sys_dup_def file_dup_def dest: fdalloc_sched split: option.splits if_splits prod.splits)

lemma sys_dup3_runs: "sys_dup3 a b s = (r, s') \<Longrightarrow> runs s s'"
  by (rule runs_same [OF _ sys_dup3_states])
    (auto simp: sys_dup3_def file_dup_def Let_def split: option.splits if_splits prod.splits)

lemma open_vnode_sched:
  "open_vnode p v fl s = (r, s') \<Longrightarrow> g_current s' = g_current s \<and> sched_i s' = sched_i s"
  by (auto simp: open_vnode_def file_setup_def Let_def file_alloc_simps
      dest!: fdalloc_sched split: option.splits if_splits prod.splits)

lemma sys_openat_runs: "sys_openat d p fl s = Some (r, s') \<Longrightarrow> runs s s'"
  by (rule runs_same [OF _ sys_openat_states])
    (auto simp: sys_openat_def Let_def
      dest!: vfs_create_at_more vfs_lookup_at_more vfs_truncate_more keeps_vfs open_vnode_sched
      split: option.splits if_splits prod.splits bind_splits,
     auto simp: keeps_def dest: pcoreD(6,8))

lemma proc_fork_runs:
  assumes inv: "proc_inv False s" and f: "proc_fork tf s = Some (r, s')"
  shows "runs s s'"
proof (cases "g_current s")
  case None
  then show ?thesis using f by (simp add: proc_fork_def proc_current_def)
next
  case (Some p)
  show ?thesis using proc_fork_effect [OF inv Some f] by (simp add: runs_def)
qed

lemma wait_return_runs:
  assumes cur: "g_current s = Some p" and w: "proc_wait pid s = Wait_return ret st s1"
  shows "runs s s1"
  using cur
proof (cases rule: proc_wait_cases [of s p pid])
  case (reaped i)
  then show ?thesis using w by (auto simp: runs_def reap_def wait_match_def)
next
  case childless
  then show ?thesis using w by simp
next
  case (waits i)
  then show ?thesis using w by simp
qed

lemma wait4_finish_runs: "wait4_finish b ret st s = (r, s') \<Longrightarrow> runs s s'"
  by (rule keeps_runs [OF wait4_finish_keeps])

lemma sys_call_runs:
  assumes inv: "kernel_inv_if False s" and d: "syscall_dispatch tf s = Some (Sys_return v s')" and cur: "g_current s = Some p"
  shows "runs s s'"
proof -
  have pi: "proc_inv False s" using inv by (simp add: kernel_inv_if_def)
  note keep = keeps_runs and kkeep = kkeeps_runs
  have w: "runs s s'" if "sys_wait4 a b s = Sys_return v s'" for a b
    using that wait_return_runs [OF cur] wait4_finish_runs runs_trans
    by (auto simp: sys_wait4_def split: wait_result.splits prod.splits) blast
  have x: "runs s s'" if "sys_exit a s = Sys_return v s'" for a
    using that cur by (simp add: sys_exit_def proc_current_def)
  show ?thesis
    using d unfolding syscall_dispatch_def Let_def
    by (auto simp: sys_clone_def sys_reboot_def split: if_splits
        dest: kkeep [OF sys_write_kkeeps] kkeep [OF sys_read_kkeeps] sys_openat_runs proc_fork_runs [OF pi]
          kkeep [OF sys_getdents64_kkeeps] keep [OF sys_mkdirat_keeps] keep [OF sys_unlinkat_keeps]
          keep [OF sys_ftruncate_keeps] keep [OF sys_fstatat_keeps] keep [OF sys_chdir_keeps]
          kkeep [OF sys_poll_kkeeps] keep [OF sys_execve_keeps] keep [OF sys_brk_keeps]
        intro: w x sys_close_runs [OF prod.collapse [symmetric]] sys_dup_runs [OF prod.collapse [symmetric]]
          sys_dup3_runs [OF prod.collapse [symmetric]] keep [OF sys_fstat_keeps [OF prod.collapse [symmetric]]]
          keep [OF sys_getcwd_keeps [OF prod.collapse [symmetric]]] kkeep [OF sys_ioctl_kkeeps [OF prod.collapse [symmetric]]]
          keep [OF sys_lseek_keeps [OF prod.collapse [symmetric]]])
qed

section \<open>Calls that switch give the processor up\<close>

definition gives_up :: "nat \<Rightarrow> 'a proc_state_scheme \<Rightarrow> 'a proc_state_scheme \<Rightarrow> bool" where
  "gives_up p s s' \<longleftrightarrow> g_current s' = None \<and> sched_i s' = (sched_i s + 1) mod NPROC \<and>
     (\<forall>q. q \<noteq> p \<longrightarrow> pr_state (g_procs s' q) = pr_state (g_procs s q))"

lemma proc_yield_gives_up: "g_current s = Some p \<Longrightarrow> gives_up p s (proc_yield s)"
  by (simp add: gives_up_def proc_yield_simps)

lemma proc_exit_gives_up: "proc_inv False s \<Longrightarrow> g_current s = Some p \<Longrightarrow> gives_up p s (proc_exit st s)"
  using proc_exit_inv [of False s p st] by (simp add: gives_up_def)

lemma wait_yield_gives_up:
  assumes cur: "g_current s = Some p" and w: "proc_wait pid s = Wait_yield s1"
  shows "gives_up p s s1"
  using cur w proc_yield_gives_up [OF cur] by (cases rule: proc_wait_cases [of s p pid]) auto

lemma sys_switch_gives_up:
  assumes inv: "kernel_inv_if False s" and d: "syscall_dispatch tf s = Some (Sys_switch s')" and cur: "g_current s = Some p"
  shows "gives_up p s s'"
proof -
  have pi: "proc_inv False s" using inv by (simp add: kernel_inv_if_def)
  have w: "gives_up p s s'" if sw: "sys_wait4 a b s = Sys_switch s'" for a b
    using sw cur wait_yield_gives_up [OF cur]
    by (auto simp: sys_wait4_def proc_current_def gives_up_def split: wait_result.splits prod.splits)
  have x: "gives_up p s s'" if "sys_exit a s = Sys_switch s'" for a
    using that cur proc_exit_gives_up [OF pi cur] by (auto simp: sys_exit_def proc_current_def)
  show ?thesis
    using d unfolding syscall_dispatch_def Let_def
    by (auto simp: sys_reboot_def split: if_splits intro: w x)
qed

section \<open>Steps\<close>

lemma set_tf_facts [simp]:
  "sched_i (set_tf tf i v s) = sched_i s" "g_procs (set_tf tf i v s) = g_procs s"
  "g_current (set_tf tf i v s) = g_current s"
  by (simp_all add: set_tf_def)

lemma trap_syscall_cases:
  assumes "trap_syscall tf s = Some r"
  defines "s1 \<equiv> set_tf tf TF_sepc (tf_get (ram (phys s)) tf TF_sepc + 4) s"
  obtains v s2 where "syscall_dispatch tf s1 = Some (Sys_return v s2)" "r = Trap_return (set_tf tf TF_a0 (of_int v) s2)"
  | s2 where "syscall_dispatch tf s1 = Some (Sys_switch s2)" "r = Trap_switch s2"
  | "r = Trap_halt"
proof -
  obtain q where q: "syscall_dispatch tf s1 = Some q" using assms by (auto simp: trap_syscall_def Let_def)
  show ?thesis
    using that q assms(1) unfolding trap_syscall_def Let_def s1_def [symmetric] by (cases q) auto
qed

lemma runs_set_tf [simp]:
  "runs (set_tf tf i v s) s' = runs s s'" "runs s (set_tf tf i v s') = runs s s'"
  "gives_up p (set_tf tf i v s) s' = gives_up p s s'"
  by (simp_all add: runs_def gives_up_def)

lemma trap_effect:
  assumes inv: "kernel_inv_if False s" and cur: "g_current s = Some p" and h: "kernel_trap_handler tf scause s = Some r"
  shows "case r of Trap_return s' \<Rightarrow> runs s s' | Trap_switch s' \<Rightarrow> gives_up p s s' | Trap_halt \<Rightarrow> True"
proof -
  let ?t = "s\<lparr>timer := timer_handle (timer s)\<rparr>"
  have pi: "proc_inv False s" using inv by (simp add: kernel_inv_if_def)
  have y: "gives_up p s (proc_yield ?t)" and t: "runs s ?t"
    using proc_yield_gives_up [of ?t p] cur by (simp_all add: gives_up_def runs_def)
  have sy: ?thesis if "trap_syscall tf s = Some r"
    using that
  proof (cases rule: trap_syscall_cases)
    case (1 v s2)
    then show ?thesis using sys_call_runs [OF _ 1(1), of p] inv cur by simp
  next
    case (2 s2)
    then show ?thesis using sys_switch_gives_up [OF _ 2(1), of p] inv cur by simp
  qed simp
  show ?thesis
    using h y t sy proc_exit_gives_up [OF pi cur, of "- 1"]
    by (auto simp: kernel_trap_handler_def Let_def split: if_splits)
qed

lemma wait_resume_effect:
  assumes cur: "g_current s = Some p"
  shows "runs s (wait_resume p pid sp s) \<or> gives_up p s (wait_resume p pid sp s)"
proof (cases "proc_wait (c_int pid) s")
  case (Wait_return ret st s1)
  obtain r s2 where f: "wait4_finish sp ret st s1 = (r, s2)" by fastforce
  have "runs s s2" using wait_return_runs [OF cur Wait_return] wait4_finish_runs [OF f] by (rule runs_trans)
  then show ?thesis by (simp add: wait_resume_def Wait_return f) (simp add: runs_def)
next
  case (Wait_yield s1)
  then show ?thesis using wait_yield_gives_up [OF cur] by (simp add: wait_resume_def)
qed

text \<open>A step that is no turn of the scheduler, as the others see it.\<close>

lemma step_effect:
  assumes "kernel_step s s'" and "kernel_inv_if False s" and "g_current s = Some p"
  shows "runs s s' \<or> gives_up p s s'"
  using assms
proof (induction rule: kernel_step.induct)
  case (turn s)
  then show ?case by simp
next
  case (trap_return s q tf scause s')
  then show ?case using trap_effect [of s q tf scause "Trap_return s'"] by simp
next
  case (trap_switch s q tf scause s')
  then show ?case using trap_effect [of s q tf scause "Trap_switch s'"] by (simp add: gives_up_def)
next
  case (resume s q pid sp)
  then show ?case using wait_resume_effect [of s q] by simp
next
  case (program s q m)
  show ?case by (rule disjI1) (simp add: runs_def)
next
  case outside
  show ?case by (rule disjI1) (simp add: runs_def)
qed

section \<open>No process is passed over\<close>

text \<open>
  Runs from \<open>s\<close> to \<open>u\<close> in which the scheduler takes \<open>n\<close> turns and none of them picks \<open>p\<close>:
  the processes picked run as long as they like in between.
\<close>

inductive passed_over :: "nat \<Rightarrow> nat \<Rightarrow> 'a sys_state_scheme \<Rightarrow> 'a sys_state_scheme \<Rightarrow> bool" where
  start: "passed_over p 0 s s"
| turn: "passed_over p n s u \<Longrightarrow> g_current u = None \<Longrightarrow> g_current (scheduler_turn u) \<noteq> Some p \<Longrightarrow>
    passed_over p (Suc n) s (scheduler_turn u)"
| busy: "passed_over p n s u \<Longrightarrow> g_current u = Some c \<Longrightarrow> kernel_step u u' \<Longrightarrow> passed_over p n s u'"
| outside: "passed_over p n s u \<Longrightarrow>
    passed_over p n s (u\<lparr>uart := a, poll_env := e, csr_time := t, csr_sstatus := x, stack_junk := j\<rparr>)"

text \<open>The turns before the one that looks at slot \<open>p\<close>.\<close>

definition turns_left :: "nat \<Rightarrow> 'a proc_state_scheme \<Rightarrow> nat" where
  "turns_left p s = (p + NPROC - (if g_current s = None then sched_i s else (sched_i s + 1) mod NPROC)) mod NPROC"

lemma slot_step:
  assumes "p < NPROC" and "i < NPROC" and "i \<noteq> p"
  shows "(p + NPROC - i) mod NPROC = Suc ((p + NPROC - (i + 1) mod NPROC) mod NPROC)"
proof (cases "p < i")
  case True
  show ?thesis
  proof (cases "i = 15")
    case True
    then show ?thesis using assms by simp
  next
    case False
    then show ?thesis using assms True by simp
  qed
next
  case False
  then obtain d where "p = Suc (i + d)" using assms(3) by (metis less_imp_Suc_add linorder_neqE_nat)
  then show ?thesis using assms mod_add_self2 [of "Suc d" NPROC] by (simp add: add.commute)
qed

lemma turn_left:
  assumes inv: "kernel_inv_if False u" and idle: "g_current u = None" and p: "p < NPROC" "pr_state (g_procs u p) = PROC_RUNNABLE"
    and np: "g_current (scheduler_turn u) \<noteq> Some p"
  shows "turns_left p u = Suc (turns_left p (scheduler_turn u)) \<and>
    pr_state (g_procs (scheduler_turn u) p) = PROC_RUNNABLE"
proof -
  have i: "sched_i u < NPROC" using inv by (simp add: kernel_inv_if_def proc_inv_def sched_ok_def)
  have ne: "sched_i u \<noteq> p" using np p(2) by (auto simp: scheduler_turn_def Let_def)
  have "turns_left p (scheduler_turn u) = (p + NPROC - (sched_i u + 1) mod NPROC) mod NPROC"
    by (simp add: turns_left_def scheduler_turn_def Let_def idle)
  then show ?thesis
    using slot_step [OF p(1) i ne] ne p(2) by (simp add: turns_left_def [of p u] idle scheduler_turn_def Let_def)
qed

lemma passed_over_left:
  assumes "passed_over p n s u" and "kernel_inv_if False s" and "p < NPROC"
    and "pr_state (g_procs s p) = PROC_RUNNABLE"
  shows "kernel_inv_if False u \<and> pr_state (g_procs u p) = PROC_RUNNABLE \<and> n + turns_left p u = turns_left p s"
  using assms
proof (induction rule: passed_over.induct)
  case (start p s)
  then show ?case by simp
next
  case (turn p n s u)
  then have IH: "kernel_inv_if False u" "pr_state (g_procs u p) = PROC_RUNNABLE" "n + turns_left p u = turns_left p s" by simp_all
  have "kernel_inv_if False (scheduler_turn u)" using kernel_step_inv [OF kernel_step.turn [OF turn(2)] IH(1)] by simp
  then show ?case using turn_left [OF IH(1) turn(2) turn.prems(2) IH(2) turn(3)] IH(3) by simp
next
  case (busy p n s u c u')
  then have IH: "kernel_inv_if False u" "pr_state (g_procs u p) = PROC_RUNNABLE" "n + turns_left p u = turns_left p s" by simp_all
  have c: "c \<noteq> p" using current_live(2) [of False u c] IH(1,2) busy(2) by (auto simp: kernel_inv_if_def)
  have "pr_state (g_procs u' p) = PROC_RUNNABLE \<and> turns_left p u' = turns_left p u"
    using step_effect [OF busy(3) IH(1) busy(2)] IH(2) busy(2) c
    by (auto simp: runs_def gives_up_def turns_left_def)
  then show ?case using kernel_step_inv [OF busy(3) IH(1)] IH(3) by simp
next
  case (outside p n s u j x t e a)
  then have IH: "kernel_inv_if False u" "pr_state (g_procs u p) = PROC_RUNNABLE" "n + turns_left p u = turns_left p s" by simp_all
  have "turns_left p (u\<lparr>uart := a, poll_env := e, csr_time := t, csr_sstatus := x, stack_junk := j\<rparr>) = turns_left p u"
    by (simp add: turns_left_def)
  then show ?case using kernel_step_inv [OF kernel_step.outside IH(1)] IH(2,3) by simp
qed

end
