(* ===== verification/Kernel_Thms.thy ===== *)
theory Kernel_Thms
  imports Sched Boot Vm_Props
begin

text \<open>
  What holds of the running kernel: the properties of its process and file tables, of the
  scheduler, and of fork, exit and wait, with a small concrete system on which each applies.
\<close>

section \<open>A concrete system\<close>

text \<open>The statics as the C runtime clears them, over memory \<open>m\<close>.\<close>

definition kernel_statics :: "mem \<Rightarrow> sys_state" where
  "kernel_statics m =
     \<lparr>g_vnode_pool = (\<lambda>_. zero_vnode), g_vnode_used = (\<lambda>_. False),
      rnodes = (\<lambda>_. zero_node), rn_used = (\<lambda>_. False), rn_base = 0,
      vol = \<lparr>v_fs = zero_fs, v_dev = \<lparr>sectors = (\<lambda>_. replicate 512 0), read_fails = (\<lambda>_. False), write_fails = (\<lambda>_. False)\<rparr>\<rparr>,
      fnodes = (\<lambda>_. zero_fnode), fn_used = (\<lambda>_. False),
      g_mounts = (\<lambda>_. \<lparr>mountpoint = None, mroot = None\<rparr>), g_root = None, g_cwd = None,
      g_file = (\<lambda>_. zero_file), g_file_used = (\<lambda>_. False),
      phys = \<lparr>ram = m, g_freelist = 0\<rparr>,
      g_procs = (\<lambda>_. zero_proc), g_current = None, g_next_pid = 1, g_kstacks = 0xffffffff80100000,
      csr_satp = 0, csr_sstatus = 0, sched_i = 0,
      g_tty_lflag = ICANON OR ECHO, uart = \<lparr>con_out = [], con_in = []\<rparr>,
      timer = \<lparr>g_timer_interval = 0, g_tick_hz = 0, g_ticks = 0, g_next_deadline = 0, g_timebase_hz = 10000000, sbi_timer = 0\<rparr>,
      poll_env = [], csr_time = 0, stack_junk = replicate 256 0, pending_wait = (\<lambda>_. None), trap_tf = (\<lambda>_. 0)\<rparr>"

lemma fresh_kernel_statics: "fresh_statics (kernel_statics m)"
  by (simp add: fresh_statics_def kernel_statics_def)

text \<open>
  A parent in slot 0, a child in slot 1 that shares its descriptor 3, and a child in slot 2
  that ended with status 7; the scheduler is about to look at slot 0.
\<close>

definition demo_procs :: "nat \<Rightarrow> proc" where
  "demo_procs i =
     (if i = 0 then zero_proc\<lparr>pr_pid := 1, pr_state := PROC_RUNNABLE, pr_tf := 0x80300000, pr_ofile := [3 \<mapsto> 0]\<rparr>
      else if i = 1 then zero_proc\<lparr>pr_pid := 2, pr_state := PROC_RUNNABLE, pr_ofile := [3 \<mapsto> 0], pr_parent := Some 0\<rparr>
      else if i = 2 then zero_proc\<lparr>pr_pid := 3, pr_state := PROC_ZOMBIE, pr_parent := Some 0, pr_exit_status := 7\<rparr>
      else zero_proc)"

definition demo :: "mem \<Rightarrow> sys_state" where
  "demo m = (kernel_statics m)\<lparr>g_procs := demo_procs, g_next_pid := 4,
     g_file_used := (\<lambda>_. False)(0 := True), g_file := (\<lambda>_. zero_file)(0 := zero_file\<lparr>fl_ref := 2, fl_readable := True\<rparr>)\<rparr>"

lemma fd_refs_card:
  "fd_refs ps i = int (card {q. fst q < NPROC \<and> snd q < NOFILE \<and> pr_ofile (ps (fst q)) (snd q) = Some i})"
proof -
  have "({..<NPROC} \<times> {..<NOFILE}) \<inter> {q. pr_ofile (ps (fst q)) (snd q) = Some i} =
      {q. fst q < NPROC \<and> snd q < NOFILE \<and> pr_ofile (ps (fst q)) (snd q) = Some i}" by auto
  then show ?thesis unfolding fd_refs_def by (subst sum_of_bool_eq) simp_all
qed

lemma demo_fd_refs: "fd_refs demo_procs i = (if i = 0 then 2 else 0)"
proof -
  have "{q. fst q < NPROC \<and> snd q < NOFILE \<and> pr_ofile (demo_procs (fst q)) (snd q) = Some i} =
      (if i = 0 then {(0, 3), (1, 3)} else {})"
    by (auto simp: demo_procs_def zero_proc_def split: if_splits)
  then show ?thesis by (simp add: fd_refs_card)
qed

lemma demo_simps [simp]:
  "g_procs (demo m) = demo_procs" "g_current (demo m) = None" "g_next_pid (demo m) = 4" "sched_i (demo m) = 0"
  "g_file_used (demo m) i = (i = 0)" "fl_ref (g_file (demo m) 0) = 2" "pending_wait (demo m) p = None"
  "phys (demo m) = \<lparr>ram = m, g_freelist = 0\<rparr>"
  by (simp_all add: demo_def kernel_statics_def)

lemma demo_inv: "kernel_inv (demo m)"
proof -
  have "sched_ok (demo m)" by (simp add: sched_ok_def demo_procs_def zero_proc_def)
  moreover have "quiet (demo m)" by (simp add: quiet_def demo_procs_def zero_proc_def live_def)
  moreover have "pids_ok (demo m)" by (auto simp: pids_ok_def demo_procs_def zero_proc_def)
  moreover have "files_ref no_extra (demo m)" by (rule files_refI) (auto simp: demo_fd_refs)
  ultimately show ?thesis by (simp add: kernel_inv_if_def proc_inv_def)
qed

section \<open>What every reachable state satisfies\<close>

lemma pids_okD:
  assumes "pids_ok s" and "p < NPROC" and "pr_state (g_procs s p) \<noteq> PROC_UNUSED"
  shows "0 < pr_pid (g_procs s p)"
    and "q < NPROC \<Longrightarrow> q \<noteq> p \<Longrightarrow> pr_state (g_procs s q) \<noteq> PROC_UNUSED \<Longrightarrow> pr_pid (g_procs s q) \<noteq> pr_pid (g_procs s p)"
  using assms unfolding pids_ok_def by blast+

text \<open>
  C1. In every state the machine reaches from one that satisfies the invariant, an open file
  counts exactly the descriptors of all processes that point to it and is in use as long as
  there is one; no descriptor of any process points to a free entry of the file table, and a
  process that ended or a free slot holds none.
\<close>
theorem kernel_run_files:
  assumes "kernel_inv s" and "kernel_step\<^sup>*\<^sup>* s s'"
  shows "(\<forall>i. g_file_used s' i \<longrightarrow> i < NFILE \<and> 0 < fl_ref (g_file s' i) \<and>
        fl_ref (g_file s' i) = int (card {q. fst q < NPROC \<and> snd q < NOFILE \<and> pr_ofile (g_procs s' (fst q)) (snd q) = Some i})) \<and>
      (\<forall>p<NPROC. \<forall>fd<NOFILE. \<forall>i. pr_ofile (g_procs s' p) fd = Some i \<longrightarrow>
        g_file_used s' i \<and> pr_state (g_procs s' p) \<noteq> PROC_UNUSED \<and> pr_state (g_procs s' p) \<noteq> PROC_ZOMBIE)"
proof -
  have inv: "proc_inv False s'" using kernel_steps_core [OF assms(2,1)] by (simp add: kernel_inv_if_def)
  then have f: "files_ref no_extra s'" and q: "quiet s'" by (simp_all add: proc_inv_def)
  have "i < NFILE \<and> 0 < fl_ref (g_file s' i) \<and> fl_ref (g_file s' i) = fd_refs (g_procs s') i" if "g_file_used s' i" for i
    using files_refD(2-4) [OF f, of i] that by simp
  moreover have "g_file_used s' i \<and> live (g_procs s' p)"
    if "p < NPROC" "fd < NOFILE" "pr_ofile (g_procs s' p) fd = Some i" for p fd i
    using files_ref_used [OF f that] q that unfolding quiet_def by fastforce
  ultimately show ?thesis unfolding fd_refs_card live_def by blast
qed

text \<open>
  C2. In every reachable state exactly the process the processor runs is marked running, and no
  process is left half made or asleep.  As long as the counter of pids, an \<^verbatim>\<open>int\<close> that \<^verbatim>\<open>proc_alloc\<close>
  increments without a check, has not overflowed (no step of the run made it smaller), every
  process in use has a positive pid of its own.
\<close>
theorem kernel_run_procs:
  assumes "kernel_inv s" and "kernel_step\<^sup>*\<^sup>* s s'"
  shows "(\<forall>p<NPROC. pr_state (g_procs s' p) = PROC_RUNNING \<longleftrightarrow> g_current s' = Some p) \<and>
      (\<forall>p<NPROC. pr_state (g_procs s' p) \<in> {PROC_UNUSED, PROC_RUNNABLE, PROC_RUNNING, PROC_ZOMBIE}) \<and>
      ((\<lambda>t u. kernel_step t u \<and> g_next_pid t \<le> g_next_pid u)\<^sup>*\<^sup>* s s' \<longrightarrow>
       (\<forall>p<NPROC. pr_state (g_procs s' p) \<noteq> PROC_UNUSED \<longrightarrow> 0 < pr_pid (g_procs s' p) \<and>
        (\<forall>q<NPROC. q \<noteq> p \<longrightarrow> pr_state (g_procs s' q) \<noteq> PROC_UNUSED \<longrightarrow> pr_pid (g_procs s' q) \<noteq> pr_pid (g_procs s' p))))"
proof -
  have inv: "proc_inv False s'" using kernel_steps_core [OF assms(2,1)] by (simp add: kernel_inv_if_def)
  then have so: "sched_ok s'" by (simp add: proc_inv_def)
  have "pr_state (g_procs s' p) \<in> {PROC_UNUSED, PROC_RUNNABLE, PROC_RUNNING, PROC_ZOMBIE}" if "p < NPROC" for p
    using so that by (cases "pr_state (g_procs s' p)") (auto simp: sched_ok_def)
  moreover have "pids_ok s'" if "pid_step\<^sup>*\<^sup>* s s'"
    using pid_steps_inv [OF that assms(1)] by (simp add: kernel_inv_if_def proc_inv_def)
  ultimately show ?thesis using so pids_okD unfolding sched_ok_def pid_step_def [abs_def, symmetric] by blast
qed

text \<open>
  The counter of pids grows by one with every process made; only at \<^verbatim>\<open>INT_MAX\<close> does it become
  negative, and the pids of the processes made from then on are negative too.
\<close>

lemma int_inc_grows: "x \<le> int_inc x \<longleftrightarrow> x \<noteq> 2 ^ 31 - 1"
  by (simp add: int_inc_def)

section \<open>The scheduler reaches every process\<close>

text \<open>
  C3. The scheduler starves no process: over any run of the machine in which a process that
  can run is not picked, whatever the other processes do, the scheduler takes at most
  \<open>turns_left p s \<le> 15\<close> turns, the process can still run, and once it has taken that many the
  next turn picks it.
\<close>
theorem scheduler_bounded_wait:
  assumes "kernel_inv s" and "p < NPROC" and "pr_state (g_procs s p) = PROC_RUNNABLE"
    and "passed_over p n s u"
  shows "n \<le> turns_left p s \<and> turns_left p s \<le> 15 \<and> pr_state (g_procs u p) = PROC_RUNNABLE \<and>
    (n = turns_left p s \<longrightarrow> g_current u = None \<longrightarrow> g_current (scheduler_turn u) = Some p)"
proof -
  have l: "kernel_inv_if False u" "pr_state (g_procs u p) = PROC_RUNNABLE" "n + turns_left p u = turns_left p s"
    using passed_over_left [OF assms(4) kernel_inv_weaken [OF assms(1)] assms(2,3)] by simp_all
  have b: "turns_left p s < NPROC" by (simp add: turns_left_def)
  have "g_current (scheduler_turn u) = Some p" if "n = turns_left p s" "g_current u = None"
    using turn_left [OF l(1) that(2) assms(2) l(2)] l(3) that(1) by linarith
  then show ?thesis using l b by simp
qed

section \<open>Wait, exit and fork\<close>

text \<open>
  C15. \<^verbatim>\<open>proc_wait\<close> returns the pid and exit status of a zombie child that matches and frees
  exactly its slot and memory; it answers \<^verbatim>\<open>-ECHILD\<close> exactly when the caller has no child, and
  otherwise gives the processor up, only when no child that matches has ended.
\<close>
theorem proc_wait_outcome:
  assumes "g_current s = Some p"
  shows "case proc_wait pid s of
      Wait_return r st s' \<Rightarrow>
        (\<exists>i<NPROC. pr_parent (g_procs s i) = Some p \<and> pr_state (g_procs s i) = PROC_ZOMBIE \<and>
           (pid = - 1 \<or> pr_pid (g_procs s i) = pid) \<and>
           r = pr_pid (g_procs s i) \<and> st = Some (pr_exit_status (g_procs s i)) \<and>
           pr_state (g_procs s' i) = PROC_UNUSED \<and> pr_parent (g_procs s' i) = None \<and>
           (\<forall>q. q \<noteq> i \<longrightarrow> g_procs s' q = g_procs s q) \<and>
           phys s' = kfree (uvm_free (pr_pagetable (g_procs s i)) (phys s)) (pr_tf (g_procs s i))) \<or>
        r = - ECHILD \<and> st = None \<and> s' = s \<and>
          (\<forall>i<NPROC. pr_parent (g_procs s i) = Some p \<longrightarrow> pr_state (g_procs s i) = PROC_UNUSED)
    | Wait_yield s' \<Rightarrow> s' = proc_yield s \<and>
        (\<exists>i<NPROC. pr_parent (g_procs s i) = Some p \<and> pr_state (g_procs s i) \<noteq> PROC_UNUSED) \<and>
        (\<forall>i<NPROC. pr_parent (g_procs s i) = Some p \<longrightarrow> pid = - 1 \<or> pr_pid (g_procs s i) = pid \<longrightarrow>
           pr_state (g_procs s i) \<noteq> PROC_ZOMBIE)"
  using assms
proof (cases rule: proc_wait_cases [of s p pid])
  case (reaped i)
  then show ?thesis by (auto simp: wait_match_def reap_def intro!: exI [of _ i])
next
  case childless
  then show ?thesis by (simp add: is_child_def)
next
  case (waits i)
  then show ?thesis by (auto simp: is_child_def wait_match_def)
qed

text \<open>
  Waiting for a pid that no child has does not fail: while the caller has any child at
  all, every round of the scan gives the processor up and never answers.
\<close>
theorem proc_wait_stranger:
  assumes "g_current s = Some p" and "i < NPROC" and "pr_parent (g_procs s i) = Some p"
    and "pr_state (g_procs s i) \<noteq> PROC_UNUSED" and "pid \<noteq> - 1"
    and "\<forall>j<NPROC. pr_parent (g_procs s j) = Some p \<longrightarrow> pr_pid (g_procs s j) \<noteq> pid"
  shows "proc_wait pid s = Wait_yield (proc_yield s)"
  using assms(1)
proof (cases rule: proc_wait_cases [of s p pid])
  case (reaped j)
  then show ?thesis using assms(5,6) by (auto simp: wait_match_def)
next
  case childless
  then show ?thesis using assms(2-4) by (auto simp: is_child_def)
next
  case (waits j)
  then show ?thesis by simp
qed

lemma close_files_parent: "pr_parent (g_procs (close_files p is s) q) = pr_parent (g_procs s q)"
  by (induction p "is" s rule: close_files.induct) simp_all

lemma proc_exit_parent: "pr_parent (g_procs (proc_exit st s) q) = pr_parent (g_procs s q)"
  using close_files_parent [of _ "[0..<NOFILE]" s q]
  by (auto simp: proc_exit_def proc_current_def proc_yield_def sched_return_def simp del: upt_Suc split: option.split)

lemma close_files_pid: "pr_pid (g_procs (close_files p is s) q) = pr_pid (g_procs s q)"
  by (induction p "is" s rule: close_files.induct) simp_all

lemma proc_exit_pid: "pr_pid (g_procs (proc_exit st s) q) = pr_pid (g_procs s q)"
  using close_files_pid [of _ "[0..<NOFILE]" s q]
  by (auto simp: proc_exit_def proc_current_def proc_yield_def sched_return_def split: option.split)

text \<open>
  C14. \<^verbatim>\<open>exit\<close> and \<^verbatim>\<open>wait\<close> fit: after a process ends with a status, it is a zombie without
  descriptors, the scheduler has the processor, no other process changed its state, and its
  parent, when it runs next and waits for that pid, gets the pid and the status.
\<close>
theorem exit_then_wait:
  assumes "kernel_inv s" and "g_current s = Some c" and "pr_parent (g_procs s c) = Some p"
    and "s1 = proc_exit st s"
  shows "pr_state (g_procs s1 c) = PROC_ZOMBIE \<and> (\<forall>fd<NOFILE. pr_ofile (g_procs s1 c) fd = None) \<and>
    g_current s1 = None \<and> (\<forall>q. q \<noteq> c \<longrightarrow> pr_state (g_procs s1 q) = pr_state (g_procs s q)) \<and>
    (\<exists>s2. proc_wait (pr_pid (g_procs s c)) (s1\<lparr>g_current := Some p\<rparr>) =
       Wait_return (pr_pid (g_procs s c)) (Some st) s2)"
proof -
  have pi: "proc_inv True s" using assms(1) by (simp add: kernel_inv_if_def)
  note e = proc_exit_inv [OF pi assms(2), of st, folded assms(4)]
  note c = current_live [OF pi assms(2)]
  let ?s = "s1\<lparr>g_current := Some p\<rparr>" and ?pid = "pr_pid (g_procs s c)"
  have z: "wait_match p ?pid (g_procs ?s c)"
    using e assms(3) by (simp add: wait_match_def assms(4) proc_exit_parent proc_exit_pid)
  have uniq: "i = c" if "i < NPROC" "wait_match p ?pid (g_procs ?s i)" for i
  proof (rule ccontr)
    assume ne: "i \<noteq> c"
    have pk: "pids_ok s" using pi by (simp add: proc_inv_def)
    have u: "pr_state (g_procs s c) \<noteq> PROC_UNUSED" using c(2) by simp
    have "pr_state (g_procs s1 i) = pr_state (g_procs s i)" using e ne by blast
    moreover have "pr_state (g_procs s1 i) = PROC_ZOMBIE" using that(2) by (simp add: wait_match_def)
    moreover have "0 < ?pid" by (rule pids_okD(1) [OF pk c(1) u])
    moreover have "pr_state (g_procs s i) \<noteq> PROC_UNUSED \<Longrightarrow> pr_pid (g_procs s i) \<noteq> ?pid"
      using pids_okD(2) [OF pk c(1) u, of i] that(1) ne by simp
    ultimately show False using that(2) by (auto simp: wait_match_def assms(4) proc_exit_pid)
  qed
  have "\<exists>s2. proc_wait ?pid ?s = Wait_return ?pid (Some st) s2"
  proof (rule proc_wait_cases [of ?s p ?pid])
    fix i assume i: "i < NPROC" "wait_match p ?pid (g_procs ?s i)"
      "proc_wait ?pid ?s = Wait_return (pr_pid (g_procs ?s i)) (Some (pr_exit_status (g_procs ?s i))) (reap i ?s)"
    then show ?thesis using uniq [OF i(1,2)] e by (simp add: assms(4) proc_exit_pid)
  next
    assume "\<forall>i<NPROC. \<not> is_child p (g_procs ?s i)"
    then show ?thesis using z c(1) by (auto simp: is_child_def wait_match_def)
  next
    fix i assume "\<forall>j<NPROC. \<not> wait_match p ?pid (g_procs ?s j)"
    then show ?thesis using z c(1) by blast
  qed simp
  moreover have "\<forall>fd<NOFILE. pr_ofile (g_procs s1 c) fd = None"
    using e c(1) unfolding proc_inv_def quiet_def live_def by blast
  ultimately show ?thesis using e by blast
qed

text \<open>
  C13. \<^verbatim>\<open>fork\<close> answers \<^verbatim>\<open>-ENOMEM\<close> or a new pid, positive and no other process's; then exactly one
  free slot became a process that can run, with that pid, the caller as parent, the caller's
  directory and size, and every descriptor of the caller pointing to the same open file.  No other
  process changes, and the counts of the open files stay exact; the whole invariant is kept unless
  this was the pid \<^verbatim>\<open>INT_MAX\<close>, after which the counter overflows.
\<close>
theorem proc_fork_child:
  assumes "kernel_inv s" and "g_current s = Some p" and "proc_fork tf s = Some (r, s')"
  shows "kernel_inv_if False s' \<and> (g_next_pid s \<noteq> 2 ^ 31 - 1 \<longrightarrow> kernel_inv s') \<and>
    (r = - ENOMEM \<or>
     (\<exists>i<NPROC. pr_state (g_procs s i) = PROC_UNUSED \<and> r = g_next_pid s \<and> 0 < r \<and>
        (\<forall>q<NPROC. pr_state (g_procs s q) \<noteq> PROC_UNUSED \<longrightarrow> pr_pid (g_procs s q) \<noteq> r) \<and>
        pr_state (g_procs s' i) = PROC_RUNNABLE \<and> pr_pid (g_procs s' i) = r \<and>
        pr_parent (g_procs s' i) = Some p \<and> pr_cwd (g_procs s' i) = pr_cwd (g_procs s p) \<and>
        pr_sz (g_procs s' i) = pr_sz (g_procs s p) \<and>
        (\<forall>fd<NOFILE. pr_ofile (g_procs s' i) fd = pr_ofile (g_procs s p) fd) \<and>
        (\<forall>q. q \<noteq> i \<longrightarrow> g_procs s' q = g_procs s q))) \<and>
    (\<forall>q. pr_state (g_procs s q) \<noteq> PROC_UNUSED \<longrightarrow> g_procs s' q = g_procs s q)"
proof -
  have i0: "proc_inv False s" and po: "pids_ok s"
    using kernel_inv_weaken [OF assms(1)] assms(1) by (simp_all add: kernel_inv_if_def proc_inv_def)
  have fresh: "0 < g_next_pid s" "q < NPROC \<Longrightarrow> pr_state (g_procs s q) \<noteq> PROC_UNUSED \<Longrightarrow> pr_pid (g_procs s q) \<noteq> g_next_pid s" for q
    using po unfolding pids_ok_def by force+
  have "kernel_inv s'" if "g_next_pid s \<noteq> 2 ^ 31 - 1"
    using proc_fork_kinv [OF assms(3,1)] proc_fork_next_pid [OF i0 assms(2,3)] that int_inc_grows [of "g_next_pid s"] by fastforce
  moreover have "kernel_inv_if False s'" using proc_fork_kinv [OF assms(3) kernel_inv_weaken [OF assms(1)]] by simp
  ultimately show ?thesis using proc_fork_effect [OF i0 assms(2,3)] fresh by blast
qed

section \<open>The concrete system runs\<close>

text \<open>The scheduler picks slot 0, whose program asks to duplicate descriptor 3.\<close>

definition demo_tf :: u64 where "demo_tf = 0x80400000"

definition demo_mem :: mem where
  "demo_mem = tf_set (tf_set (\<lambda>_. 0) demo_tf TF_a7 23) demo_tf TF_a0 3"

definition demo_dup :: sys_state where
  "demo_dup = (case kernel_trap_handler demo_tf 8 (scheduler_turn (demo demo_mem)) of
     Some (Trap_return s) \<Rightarrow> s | _ \<Rightarrow> demo demo_mem)"

text \<open>The fields of a trap frame do not overlap.\<close>

lemma tf_fields_apart:
  assumes "i < 33" and "j < 33" and "i \<noteq> j" and "k < 8"
  shows "8 \<le> unat (tf + tf_field j + of_nat k - (tf + tf_field i))"
proof (cases "i < j")
  case True
  then have e: "tf + tf_field j + of_nat k - (tf + tf_field i) = (of_nat (8 * (j - i) + k) :: u64)"
    by (simp add: tf_field_def of_nat_diff algebra_simps)
  have "8 * (j - i) + k < 2 ^ 32" using assms by simp
  then have u: "unat (of_nat (8 * (j - i) + k) :: u64) = 8 * (j - i) + k"
    unfolding unat_of_nat by (intro mod_less) simp
  show ?thesis unfolding e u using True by simp
next
  case False
  define d where "d = 8 * (i - j) - k"
  have d: "0 < d" "d < 2 ^ 32" using assms False by (simp_all add: d_def)
  have e: "tf + tf_field j + of_nat k - (tf + tf_field i) = - (of_nat d :: u64)"
    using assms False by (simp add: tf_field_def of_nat_diff algebra_simps d_def)
  have u: "unat (of_nat d :: u64) = d" using d unfolding unat_of_nat by (intro mod_less) simp
  then have "(of_nat d :: u64) \<noteq> 0" using d(1) by auto
  then show ?thesis unfolding e using unat_sub_if' [of 0 "of_nat d :: u64"] d u by simp
qed

lemma tf_get_set:
  assumes "i < 33" and "j < 33"
  shows "tf_get (tf_set m tf i v) tf j = (if i = j then v else tf_get m tf j)"
proof (cases "i = j")
  case True
  then show ?thesis by (simp add: tf_get_def tf_set_def)
next
  case False
  have "load_bytes (tf_set m tf i v) (tf + tf_field j) 8 = load_bytes m (tf + tf_field j) 8"
    by (rule load_bytes_cong)
      (use tf_fields_apart [OF assms False] in \<open>simp add: tf_set_def store64_def store_bytes_apply leD\<close>)
  then show ?thesis using False by (simp add: tf_get_def load64_def)
qed

lemma pending_upd_proc [simp]: "pending_wait (upd_proc p f s) = pending_wait s"
  by (simp add: upd_proc_def)

lemma demo_turn:
  "scheduler_turn (demo m) = (upd_proc 0 (\<lambda>p. p\<lparr>pr_state := PROC_RUNNING\<rparr>) (demo m))
     \<lparr>g_current := Some 0, csr_satp := satp_of 0\<rparr>"
  by (simp add: scheduler_turn_def Let_def demo_procs_def zero_proc_def)

lemma demo_fd3: "pr_ofile (demo_procs 0) = [3 \<mapsto> 0]"
  by (simp add: demo_procs_def)

lemma demo_free_fd: "List.find (\<lambda>i. i \<noteq> 3) [3..<NOFILE] = Some 4"
  by (simp add: upt_rec)

lemma demo_trap:
  obtains s2 where "kernel_trap_handler demo_tf 8 (scheduler_turn (demo demo_mem)) = Some (Trap_return s2)"
    and "pr_ofile (g_procs s2 0) 4 = Some 0" and "g_current s2 = Some 0" and "g_next_pid s2 = 4"
proof -
  define s1 where "s1 = set_tf demo_tf TF_sepc (tf_get demo_mem demo_tf TF_sepc + 4) (scheduler_turn (demo demo_mem))"
  have a7: "tf_get (ram (phys s1)) demo_tf TF_a7 = 23" and a0: "tf_get (ram (phys s1)) demo_tf TF_a0 = 3"
    and s1: "g_current s1 = Some 0" "pr_ofile (g_procs s1 0) = [3 \<mapsto> 0]" "g_next_pid s1 = 4"
    by (simp_all add: s1_def set_tf_def demo_turn tf_get_set demo_mem_def demo_fd3)
  have dup: "sys_dup 3 s1 = (4, set_fd 0 4 (Some 0) (snd (file_dup (Some 0) s1)))"
    by (simp add: sys_dup_def proc_current_def fd_file_def file_dup_simps fdalloc_def demo_free_fd s1)
  have d: "syscall_dispatch demo_tf s1 = Some (Sys_return 4 (snd (sys_dup 3 s1)))"
    unfolding syscall_dispatch_def Let_def a7 a0 by (simp add: dup)
  have t: "tf_get (ram (phys (scheduler_turn (demo demo_mem)))) demo_tf TF_sepc = tf_get demo_mem demo_tf TF_sepc"
    by (simp add: demo_turn)
  have "kernel_trap_handler demo_tf 8 (scheduler_turn (demo demo_mem)) =
      Some (Trap_return (set_tf demo_tf TF_a0 (of_int 4) (snd (sys_dup 3 s1))))"
    using d unfolding kernel_trap_handler_def trap_syscall_def Let_def t s1_def [symmetric]
    by (simp add: trap_is_interrupt_def)
  then show ?thesis by (rule that) (simp_all add: dup file_dup_simps s1)
qed

lemma demo_steps:
  obtains s2 where "kernel_step\<^sup>*\<^sup>* (demo demo_mem) s2"
    and "pr_ofile (g_procs s2 0) 4 = Some 0" and "g_current s2 = Some 0"
    and "(\<lambda>t u. kernel_step t u \<and> g_next_pid t \<le> g_next_pid u)\<^sup>*\<^sup>* (demo demo_mem) s2"
proof (rule demo_trap)
  fix s2
  assume h: "kernel_trap_handler demo_tf 8 (scheduler_turn (demo demo_mem)) = Some (Trap_return s2)"
    and f: "pr_ofile (g_procs s2 0) 4 = Some 0" "g_current s2 = Some 0" and n: "g_next_pid s2 = 4"
  let ?R = "\<lambda>t u. kernel_step t u \<and> g_next_pid t \<le> g_next_pid (u :: sys_state)"
  let ?t = "scheduler_turn (demo demo_mem)"
  have "kernel_step (demo demo_mem) ?t" by (rule kernel_step.turn) simp
  then have a: "?R (demo demo_mem) ?t" by (simp add: demo_turn)
  have "kernel_step ?t s2"
    by (rule kernel_step.trap_return [of ?t 0, OF _ _ h]) (simp_all add: demo_turn)
  then have b: "?R ?t s2" using n by (simp add: demo_turn)
  have "?R\<^sup>*\<^sup>* (demo demo_mem) s2"
    by (rule converse_rtranclp_into_rtranclp [of ?R, OF a r_into_rtranclp [of ?R, OF b]])
  moreover have "kernel_step\<^sup>*\<^sup>* (demo demo_mem) s2"
    by (rule converse_rtranclp_into_rtranclp [of kernel_step, OF conjunct1 [OF a] r_into_rtranclp [of kernel_step, OF conjunct1 [OF b]]])
  ultimately show ?thesis using that [of s2] f by blast
qed

theorem kernel_run_files_witness:
  "\<exists>s'. kernel_step\<^sup>*\<^sup>* (demo demo_mem) s' \<and> pr_ofile (g_procs s' 0) 4 = Some 0 \<and> g_file_used s' 0"
proof (rule demo_steps)
  fix s2 assume r: "kernel_step\<^sup>*\<^sup>* (demo demo_mem) s2" and f: "pr_ofile (g_procs s2 0) 4 = Some 0"
  have "g_file_used s2 0" using conjunct2 [OF kernel_run_files [OF demo_inv r], rule_format, of 0 4 0] f by simp
  then show ?thesis using r f by blast
qed

theorem kernel_run_procs_witness:
  "\<exists>s'. kernel_step\<^sup>*\<^sup>* (demo demo_mem) s' \<and> g_current s' = Some 0 \<and> pr_state (g_procs s' 0) = PROC_RUNNING \<and>
     0 < pr_pid (g_procs s' 0) \<and>
     (\<forall>q<NPROC. q \<noteq> 0 \<longrightarrow> pr_state (g_procs s' q) \<noteq> PROC_UNUSED \<longrightarrow> pr_pid (g_procs s' q) \<noteq> pr_pid (g_procs s' 0))"
proof (rule demo_steps)
  fix s2 assume r: "kernel_step\<^sup>*\<^sup>* (demo demo_mem) s2" and f: "g_current s2 = Some 0"
    and m: "(\<lambda>t u. kernel_step t u \<and> g_next_pid t \<le> g_next_pid u)\<^sup>*\<^sup>* (demo demo_mem) s2"
  note k = kernel_run_procs [OF demo_inv r]
  have "pr_state (g_procs s2 0) = PROC_RUNNING" using conjunct1 [OF k] f by simp
  then show ?thesis using r f mp [OF conjunct2 [OF conjunct2 [OF k]] m, rule_format, of 0] by auto
qed

text \<open>The child in slot 1 is one turn away: slot 0 is picked first, and its quantum ends.\<close>

theorem scheduler_bounded_wait_witness:
  "\<exists>u. passed_over 1 1 (demo (\<lambda>_. 0)) u \<and> g_current (scheduler_turn u) = Some 1"
proof -
  let ?s = "demo (\<lambda>_. 0)" and ?t = "scheduler_turn (demo (\<lambda>_. 0))"
  define u where "u = (proc_yield (?t\<lparr>timer := timer_handle (timer ?t)\<rparr>))\<lparr>trap_tf := (trap_tf (proc_yield (?t\<lparr>timer := timer_handle (timer ?t)\<rparr>)))(0 := 0)\<rparr>"
  have t: "passed_over 1 (Suc 0) ?s ?t"
    by (rule passed_over.turn [OF passed_over.start]) (simp_all add: demo_turn)
  have "kernel_trap_handler 0 0x8000000000000005 ?t = Some (Trap_switch (proc_yield (?t\<lparr>timer := timer_handle (timer ?t)\<rparr>)))"
    by (simp add: kernel_trap_handler_def trap_is_interrupt_def trap_code_def Let_def is_running_def proc_current_def demo_turn)
  then have "kernel_step ?t u" unfolding u_def
    by (rule kernel_step.trap_switch [rotated 2]) (simp_all add: demo_turn)
  then have p: "passed_over 1 1 ?s u" using passed_over.busy [OF t] by (simp add: demo_turn)
  have l: "turns_left 1 ?s = 1" "g_current u = None" by (simp_all add: turns_left_def u_def demo_turn proc_yield_simps)
  have "pr_state (g_procs ?s 1) = PROC_RUNNABLE" by (simp add: demo_procs_def)
  then show ?thesis using scheduler_bounded_wait [OF demo_inv _ _ p] p l by auto
qed

text \<open>The parent of the concrete system, running.\<close>

definition demo_parent :: sys_state where
  "demo_parent = scheduler_turn (demo (\<lambda>_. 0))"

lemma demo_parent_inv: "kernel_inv demo_parent"
  unfolding demo_parent_def by (rule kernel_step_inv [OF kernel_step.turn demo_inv]) (simp_all add: scheduler_turn_def Let_def)

lemma demo_parent_simps [simp]:
  "g_current demo_parent = Some 0" "pr_state (g_procs demo_parent (Suc 0)) = PROC_RUNNABLE"
  "pr_parent (g_procs demo_parent (Suc 0)) = Some 0" "pr_pid (g_procs demo_parent (Suc 0)) = 2"
  "pr_state (g_procs demo_parent 2) = PROC_ZOMBIE"
  "phys demo_parent = \<lparr>ram = (\<lambda>_. 0), g_freelist = 0\<rparr>" "g_next_pid demo_parent = 4"
  by (simp_all add: demo_parent_def demo_turn demo_procs_def)

lemma demo_parent_procs:
  "i \<noteq> 0 \<Longrightarrow> g_procs demo_parent i = demo_procs i" "pr_state (g_procs demo_parent 0) = PROC_RUNNING"
  "pr_parent (g_procs demo_parent 0) = None"
  by (simp_all add: demo_parent_def demo_turn, simp add: demo_procs_def zero_proc_def)

theorem proc_wait_outcome_witness:
  "\<exists>s'. proc_wait 3 demo_parent = Wait_return 3 (Some 7) s' \<and> pr_state (g_procs s' 2) = PROC_UNUSED"
proof -
  have p2: "pr_parent (g_procs demo_parent 2) = Some 0" "pr_pid (g_procs demo_parent 2) = 3"
      "pr_exit_status (g_procs demo_parent 2) = 7"
    by (simp_all add: demo_parent_procs demo_procs_def)
  have only: "i < NPROC \<Longrightarrow> pr_pid (g_procs demo_parent i) = 3 \<Longrightarrow> i = 2" for i
    by (simp add: demo_parent_def demo_turn demo_procs_def zero_proc_def split: if_splits)
  have child: "\<not> (\<forall>i<NPROC. pr_parent (g_procs demo_parent i) = Some 0 \<longrightarrow> pr_state (g_procs demo_parent i) = PROC_UNUSED)"
    "\<not> (\<forall>i<NPROC. pr_parent (g_procs demo_parent i) = Some 0 \<longrightarrow>
        (3 :: int) = - 1 \<or> pr_pid (g_procs demo_parent i) = 3 \<longrightarrow> pr_state (g_procs demo_parent i) \<noteq> PROC_ZOMBIE)"
    using p2 by (auto intro!: exI [of _ 2])
  show ?thesis
    using proc_wait_outcome [OF demo_parent_simps(1), of 3] only p2 child
    by (cases "proc_wait 3 demo_parent") auto
qed

theorem proc_wait_stranger_witness:
  "proc_wait 99 demo_parent = Wait_yield (proc_yield demo_parent)"
proof (rule proc_wait_stranger [of demo_parent 0 1])
  show "\<forall>j<NPROC. pr_parent (g_procs demo_parent j) = Some 0 \<longrightarrow> pr_pid (g_procs demo_parent j) \<noteq> 99"
    by (auto simp: demo_parent_def demo_turn demo_procs_def zero_proc_def)
qed simp_all

text \<open>The child in slot 1, running.\<close>

definition demo_child :: sys_state where
  "demo_child = scheduler_turn (proc_yield demo_parent)"

lemma demo_child_facts:
  "kernel_inv demo_child" "g_current demo_child = Some 1" "pr_parent (g_procs demo_child 1) = Some 0"
  "pr_pid (g_procs demo_child 1) = 2"
proof -
  have y: "kernel_inv (proc_yield demo_parent)" by (rule yield_kinv [OF demo_parent_inv]) simp
  note f = proc_yield_simps [OF demo_parent_simps(1)]
  have i: "sched_i demo_parent = 0" by (simp add: demo_parent_def demo_turn)
  show "kernel_inv demo_child" unfolding demo_child_def
    by (rule kernel_step_inv [OF kernel_step.turn y]) (simp_all add: f scheduler_turn_def Let_def)
  show "g_current demo_child = Some 1" "pr_parent (g_procs demo_child 1) = Some 0" "pr_pid (g_procs demo_child 1) = 2"
    by (simp_all add: demo_child_def scheduler_turn_def Let_def f i)
qed

theorem exit_then_wait_witness:
  "pr_state (g_procs (proc_exit 5 demo_child) 1) = PROC_ZOMBIE \<and>
   (\<exists>s2. proc_wait 2 ((proc_exit 5 demo_child)\<lparr>g_current := Some 0\<rparr>) = Wait_return 2 (Some 5) s2)"
  using exit_then_wait [OF demo_child_facts(1-3) refl, of 5] demo_child_facts(4) by simp

text \<open>
  The same system with four free pages and an empty user space (its root is the zero page at
  0): a fork that succeeds.
\<close>

lemma uvm_copy_loop_unmapped:
  assumes "\<And>v. walk src v False m = (None, m)" and "unat lim \<le> 2 ^ 63"
  shows "uvm_copy_loop src dst va lim m = Some (0, m)"
proof (induction "unat lim - unat va" arbitrary: va rule: less_induct)
  case less
  show ?case
  proof (cases "va < lim")
    case False
    then show ?thesis by (simp add: uvm_copy_loop.simps [of src dst va])
  next
    case True
    then have v: "unat va < unat lim" by (simp add: word_less_nat_alt)
    have "unat va + unat PAGE_SIZE < 2 ^ LENGTH(64)" using v assms(2) by simp
    then have "unat (va + PAGE_SIZE) = unat va + 4096" by (simp add: unat_add_lem [THEN iffD1])
    then have "uvm_copy_loop src dst (va + PAGE_SIZE) lim m = Some (0, m)" using less v by simp
    then show ?thesis
      using True by (simp add: uvm_copy_loop.simps [of src dst va] uvm_copy_page_def assms(1))
  qed
qed

definition demo_forker :: sys_state where
  "demo_forker = demo_parent\<lparr>phys := pool4\<rparr>"

lemma demo_forker_facts:
  "kernel_inv demo_forker" "g_current demo_forker = Some 0"
proof -
  have "keeps demo_parent demo_forker" by (simp add: demo_forker_def)
  then show "kernel_inv demo_forker" by (rule keeps_inv) (rule demo_parent_inv)
  show "g_current demo_forker = Some 0" by (simp add: demo_forker_def)
qed

lemma pool4_zero_page: "page_of y = 0 \<Longrightarrow> ram pool4 y = 0"
proof -
  assume y: "page_of y = 0"
  have "ram (kfree m a) y = ram m y" if "page_aligned a" "a \<noteq> 0" for m a
    using that y store64_other [of a y] by (simp add: kfree_def)
  then show ?thesis by (simp add: pool4_def page_aligned_def empty_mm_def)
qed

lemma demo_fork:
  "\<exists>s'. proc_fork 0 demo_forker = Some (4, s')"
proof -
  let ?f = demo_forker
  have unused: "proc_find_unused ?f = Some 3"
    by (simp add: proc_find_unused_def first_unused_def upt_rec demo_forker_def demo_parent_def demo_turn demo_procs_def zero_proc_def)
  obtain m1 where k: "kalloc pool4 = (0x1000, m1)" and i1: "mm_inv m1 [0x2000, 0x3000, 0x4000]"
    and r1: "\<And>y. page_of y \<noteq> 0x1000 \<Longrightarrow> ram m1 y = ram pool4 y"
    using kalloc_pop [OF pool4_inv] by (cases "kalloc pool4") auto
  obtain m2 where u: "uvm_create (satp_of 0) m1 = (0x2000, m2)"
    and r2: "\<And>y. page_of y \<noteq> 0x2000 \<Longrightarrow> page_of y \<noteq> 0x3000 \<Longrightarrow> ram m2 y = ram m1 y"
    using uvm_create_space [OF i1, of "satp_of 0"] by auto
  have z: "ram m2 y = 0" if "page_of y = 0" for y using that r1 r2 pool4_zero_page by simp
  have w: "walk 0 v False m2 = (None, m2)" for v
    using load64_zero_page [of 0 "VPN2 v" "ram m2", OF _ _ z]
    by (simp add: walk_def walk_level_def Let_def page_aligned_def)
  have fc: "fork_copy 0 0x2000 0 m2 = Some (0, m2)"
    using uvm_copy_loop_unmapped [OF w]
    by (simp add: fork_copy_def uvm_copy_def uvm_copy_range_def)
  have f: "csr_satp ?f = satp_of 0" "phys ?f = pool4" "g_current ?f = Some 0" "g_next_pid ?f = 4"
    "pr_pagetable (g_procs ?f 0) = 0" "pr_sz (g_procs ?f 0) = 0"
    by (simp_all add: demo_forker_def demo_parent_def demo_turn demo_procs_def zero_proc_def)
  obtain s1 where a: "proc_alloc ?f = (Some 3, s1)" and s1: "phys s1 = m2" "g_procs s1 0 = g_procs ?f 0"
    "pr_pagetable (g_procs s1 3) = 0x2000" "pr_pid (g_procs s1 3) = 4"
    using unused k u f by (simp add: proc_alloc_def Let_def)
  have d: "pr_pid (g_procs (dup_files 0 3 is s) 3) = pr_pid (g_procs s 3)" for "is" and s :: sys_state
    by (induction "0 :: nat" "3 :: nat" "is" s rule: dup_files.induct)
      (auto simp: file_dup_def split: prod.splits option.splits)
  show ?thesis
    by (simp add: proc_fork_def proc_current_def f a s1 fc Let_def d)
qed

theorem proc_fork_child_witness:
  "\<exists>s' i. proc_fork 0 demo_forker = Some (4, s') \<and> pr_state (g_procs s' i) = PROC_RUNNABLE \<and>
     pr_pid (g_procs s' i) = 4 \<and> pr_ofile (g_procs s' i) 3 = Some 0"
proof -
  obtain s' where f: "proc_fork 0 demo_forker = Some (4, s')" using demo_fork by blast
  have p3: "pr_ofile (g_procs demo_forker 0) 3 = Some 0"
    by (simp add: demo_forker_def demo_parent_def demo_turn demo_fd3)
  obtain i where "pr_state (g_procs s' i) = PROC_RUNNABLE" "pr_pid (g_procs s' i) = 4"
    "\<forall>fd<NOFILE. pr_ofile (g_procs s' i) fd = pr_ofile (g_procs demo_forker 0) fd"
    using proc_fork_child [OF demo_forker_facts f] by auto
  moreover have "pr_ofile (g_procs s' i) 3 = Some 0" using calculation(3) p3 by simp
  ultimately show ?thesis using f by blast
qed

end
