(* ===== verification/Dirent_Thms.thy ===== *)
theory Dirent_Thms
  imports Dirent_Props Kernel_Thms Ramfs_Props
begin

text \<open>
  The system call of the kernel is a source of directory entries, so \<^verbatim>\<open>readdir\<close> gives every entry of an
  open directory once, in the order of the directory; for a directory of the RAM file system these
  are its children.
\<close>

section \<open>The interpretation\<close>

definition dir_open ::
    "nat \<Rightarrow> u64 \<Rightarrow> int \<Rightarrow> nat \<Rightarrow> nat \<Rightarrow> vfs_dirent list \<Rightarrow> u64 list \<Rightarrow> u64 \<Rightarrow> u8 list \<Rightarrow> 'a sys_state_scheme \<Rightarrow> bool" where
  "dir_open p dirp fd f v es xs l1 junk s \<longleftrightarrow>
     proc_current s = Some p \<and> fd_file s p (of_int fd) = Some f \<and> fl_vn (g_file s f) = Some v \<and>
     vn_type (g_vnode_pool s v) = VNODE_DIR \<and> dir_lists s v es \<and> unat (fl_off (g_file s f)) \<le> length es \<and>
     uvm_inv (phys s) xs (cur_pt s p) l1 \<and> us.mapped l1 (phys s) (unat dirp) (unat dirp + DIRENT_BUF) \<and>
     stack_junk s = junk \<and> 256 \<le> length junk"

lemma vfs_readdir_file: "vfs_readdir (upd_file i g s) v off = vfs_readdir s v off"
  by (simp add: upd_file_def vfs_readdir_def not_dir_def ramfs_readdir_def ramfs_node_addr_def fat32_readdir_op_def
      fat_node_of_def split: option.split fs_ops.split cong: option.case_cong)

lemma dir_lists_file: "dir_lists (upd_file i g s) v es = dir_lists s v es"
  by (simp add: dir_lists_def vfs_readdir_file)

lemma cur_pt_file [simp]: "cur_pt (upd_file i g s) p = cur_pt s p"
  by (simp add: upd_file_def cur_pt_def)

lemma proc_current_upd: "proc_current (upd_file i g (set_phys m s)) = proc_current s"
    "fl_vn (g_file (upd_file i (\<lambda>e. e\<lparr>fl_off := x\<rparr>) (set_phys m s)) i) = fl_vn (g_file s i)"
    "g_vnode_pool (upd_file i g (set_phys m s)) = g_vnode_pool s"
    "stack_junk (upd_file i g (set_phys m s)) = stack_junk s" "phys (upd_file i g (set_phys m s)) = m"
  by (simp_all add: upd_file_def set_phys_def proc_current_def)

lemma fd_file_keeps [simp]: "fd_file (upd_file i g s) p fd = fd_file s p fd" "fd_file (set_phys m s) p fd = fd_file s p fd"
  by (simp_all add: upd_file_def set_phys_def fd_file_def)

lemma mapped_fetch:
  assumes "uvm_inv m xs root l1" and "us.mapped l1 m (unat a) (unat a + n)" and "us.holds l1 m a bs" and "length bs \<le> n"
  shows "\<exists>post. copyin m root a n = (0, bs @ post) \<and> length (bs @ post) = n"
proof -
  have r: "user_range a n" by (rule us.mapped_range [OF assms(2)]) simp_all
  have there: "\<forall>i<n. umem m l1 (a + of_nat i) \<noteq> None"
    using assms(2) user_range_at(2) [OF r] by (auto simp: us.mapped_def)
  have c: "copyin m root a n = (0, map (\<lambda>i. the (umem m l1 (a + of_nat i))) [0..<n])"
    by (rule us.fetch_mapped [OF assms(1) r there])
  have "map (\<lambda>i. the (umem m l1 (a + of_nat i))) [0..<n] = bs @ map (\<lambda>i. the (umem m l1 (a + of_nat i))) [length bs..<n]"
    using assms(3,4) by (intro nth_equalityI) (auto simp: us.holds_def nth_append)
  then show ?thesis using c assms(4) by simp
qed

lemma getdents_block:
  assumes "dir_open p dirp fd f v es xs l1 junk s" and "length buf = DIRENT_BUF" and "s = io_sys io"
  shows "\<exists>m post io' s'. s' = io_sys io' \<and> u_getdents64 p dirp fd buf io =
      Some (int (length (dir_block junk (take m (drop (unat (fl_off (g_file s f))) es)) (fl_off (g_file s f)))),
        dir_block junk (take m (drop (unat (fl_off (g_file s f))) es)) (fl_off (g_file s f)) @ post, io') \<and>
      length (dir_block junk (take m (drop (unat (fl_off (g_file s f))) es)) (fl_off (g_file s f)) @ post) = DIRENT_BUF \<and>
      m \<le> length (drop (unat (fl_off (g_file s f))) es) \<and> (drop (unat (fl_off (g_file s f))) es \<noteq> [] \<longrightarrow> 0 < m) \<and>
      dir_open p dirp fd f v es xs l1 junk s' \<and>
      drop (unat (fl_off (g_file s' f))) es = drop m (drop (unat (fl_off (g_file s f))) es) \<and>
      fl_off (g_file s' f) = fl_off (g_file s f) + of_nat m"
proof -
  let ?off = "fl_off (g_file s f)" and ?i = "unat (fl_off (g_file s f))"
  have o: "proc_current s = Some p" "fd_file s p (of_int fd) = Some f" "fl_vn (g_file s f) = Some v"
     "vn_type (g_vnode_pool s v) = VNODE_DIR" "dir_lists s v es" "?i \<le> length es"
     "uvm_inv (phys s) xs (cur_pt s p) l1" "us.mapped l1 (phys s) (unat dirp) (unat dirp + DIRENT_BUF)"
     "stack_junk s = junk" "256 \<le> length junk"
    using assms(1) unfolding dir_open_def by blast+
  have nil: "us.holds l1 (phys s) dirp []" by (simp add: us.holds_def user_range_def)
  have off: "of_nat ?i = ?off" by simp
  obtain m blk M where l: "getdents_loop p (Some v) dirp 512 (of_nat (length ([] :: u8 list))) (of_nat ?i) s =
      Some (0, of_nat (length ([] @ blk)), of_nat (?i + m), set_phys M s)"
    "blk = dir_block (stack_junk s) (take m (drop ?i es)) (of_nat ?i)"
    "uvm_inv M xs (cur_pt s p) l1" "us.mapped l1 M (unat dirp) (unat dirp + DIRENT_BUF)" "us.holds l1 M dirp ([] @ blk)"
    "length ([] @ blk) \<le> DIRENT_BUF" "?i + m \<le> length es" "([] :: u8 list) = [] \<and> ?i < length es \<longrightarrow> 0 < m"
    using getdents_loop_block [OF o(7,8) order_refl order_refl nil _ o(5,6)] o(9,10) by auto
  let ?s' = "upd_file f (\<lambda>e. e\<lparr>fl_off := of_nat (?i + m)\<rparr>) (set_phys M s)"
  have len: "length blk \<le> 512" using l(6) by simp
  then have ci: "c_int (of_nat (length blk)) = int (length blk)" by (simp add: c_int_small unat_of_nat)
  have sys: "sys_getdents64 (of_int fd) dirp 512 s = Some (int (length blk), ?s')"
    using l(1) ci by (simp add: sys_getdents64_def o(1-4))
  obtain post where c: "copyin M (cur_pt s p) dirp DIRENT_BUF = (0, blk @ post)" "length (blk @ post) = DIRENT_BUF"
    using mapped_fetch [OF l(3,4), of blk] l(5) len by auto
  have s': "phys ?s' = M" "cur_pt ?s' p = cur_pt s p" "fl_off (g_file ?s' f) = of_nat (?i + m)"
    by (simp_all add: upd_file_def set_phys_def cur_pt_def)
  have "u_getdents64 p dirp fd buf io = Some (int (length blk), blk @ post, io\<lparr>io_sys := ?s'\<rparr>)"
  proof -
    have "sys_getdents64 (of_int fd) dirp (of_nat (length buf)) (io_sys io) = Some (int (length blk), ?s')"
      using sys assms(2,3) by simp
    then show ?thesis using c(1) unfolding u_getdents64_def wrap_ret_def by (simp only: option.map prod.case s'(1,2) assms(2)) simp
  qed
  moreover have "unat (of_nat (?i + m) :: u64) = ?i + m"
  proof -
    have "?i + m < 2 ^ 64" using l(7) o(5) by (simp add: dir_lists_def)
    then show ?thesis by (simp add: unat_of_nat del: of_nat_add)
  qed
  moreover have "dir_open p dirp fd f v es xs l1 junk ?s'"
    unfolding dir_open_def s'(1-3) dir_lists_file dir_lists_phys
    using o l calculation(2) by (simp add: proc_current_upd)
  ultimately show ?thesis
    using l(2,7,8) c(2) off o(9) s'(3) by (intro exI [of _ m] exI [of _ post] exI [of _ "io\<lparr>io_sys := ?s'\<rparr>"] exI [of _ ?s']) (simp add: add.commute)
qed

interpretation kd: dir_source "u_getdents64 p dirp" fd "\<lambda>io. dir_open p dirp fd f v es xs l1 junk (io_sys io)"
    "\<lambda>io. drop (unat (fl_off (g_file (io_sys io) f))) es" "\<lambda>io. fl_off (g_file (io_sys io) f)" junk
  for p dirp fd f v es xs l1 junk
proof
  fix io :: "'a sys_state_scheme io" and buf :: "u8 list"
  let ?s = "io_sys io"
  assume o: "dir_open p dirp fd f v es xs l1 junk ?s"
  show "256 \<le> length junk" using o by (simp add: dir_open_def)
  show "\<forall>de\<in>set (drop (unat (fl_off (g_file ?s f))) es). entry_ok de"
    using o by (auto simp: dir_open_def dir_lists_def dest: in_set_dropD)
  assume "length buf = DIRENT_BUF"
  then show "\<exists>m post io'. u_getdents64 p dirp fd buf io =
      Some (int (length (dir_block junk (take m (drop (unat (fl_off (g_file ?s f))) es)) (fl_off (g_file ?s f)))),
        dir_block junk (take m (drop (unat (fl_off (g_file ?s f))) es)) (fl_off (g_file ?s f)) @ post, io') \<and>
      length (dir_block junk (take m (drop (unat (fl_off (g_file ?s f))) es)) (fl_off (g_file ?s f)) @ post) = DIRENT_BUF \<and>
      m \<le> length (drop (unat (fl_off (g_file ?s f))) es) \<and> (drop (unat (fl_off (g_file ?s f))) es \<noteq> [] \<longrightarrow> 0 < m) \<and>
      dir_open p dirp fd f v es xs l1 junk (io_sys io') \<and>
      drop (unat (fl_off (g_file (io_sys io') f))) es = drop m (drop (unat (fl_off (g_file ?s f))) es) \<and>
      fl_off (g_file (io_sys io') f) = fl_off (g_file ?s f) + of_nat m"
    using getdents_block [OF o _ refl, of buf] by blast
qed

section \<open>A directory of the RAM file system\<close>

definition ramfs_entry :: "'a ramfs_state_scheme \<Rightarrow> nat \<Rightarrow> vfs_dirent" where
  "ramfs_entry s c = \<lparr>d_name = rn_name (rnodes s c), d_type = vnode_type_num (rn_type (rnodes s c)),
     d_ino = ramfs_node_addr s c\<rparr>"

lemma dir_ok_length: "dir_ok s d cs \<Longrightarrow> length cs \<le> RAMFS_MAX_NODES"
proof -
  assume "dir_ok s d cs"
  then have d: "distinct cs" "set cs \<subseteq> {..<RAMFS_MAX_NODES}" by (auto simp: dir_ok_def distinct_map)
  then show ?thesis using card_mono [OF _ d(2)] by (simp add: distinct_card)
qed

text \<open>The entries \<^verbatim>\<open>vfs_readdir\<close> gives for a directory of the RAM file system with some children.\<close>

definition dir_entries :: "'a ramfs_state_scheme \<Rightarrow> nat list \<Rightarrow> vfs_dirent list" where
  "dir_entries s cs = dot_entry dot_name # dot_entry dotdot_name # map (ramfs_entry s) cs"

lemma ramfs_readdirs:
  fixes s :: "'a vfs_state_scheme"
  assumes "vn_type (g_vnode_pool s v) = VNODE_DIR" and "vn_ops (g_vnode_pool s v) = Some RAMFS_OPS"
    and "dir_ok s (vn_data (g_vnode_pool s v)) cs"
  shows "i < length (dir_entries s cs) \<Longrightarrow> vfs_readdir s (Some v) (of_nat i) = Some (0, Some (dir_entries s cs ! i))"
    and "vfs_readdir s (Some v) (of_nat (length (dir_entries s cs))) = Some (- ENOENT, None)"
proof -
  let ?es = "dir_entries s cs"
  have len: "length cs \<le> RAMFS_MAX_NODES" by (rule dir_ok_length [OF assms(3)])
  have chain: "sib_chain (rnodes s) (rn_child (rnodes s (vn_data (g_vnode_pool s v)))) cs"
    using assms(3) by (simp add: dir_ok_def dir_chain_def)
  have dir: "\<not> not_dir s v" using assms(1,2) by (simp add: not_dir_def)
  have child: "vfs_readdir s (Some v) (of_nat (k + 2)) =
      Some (if k < length cs then (0, Some (ramfs_entry s (cs ! k))) else (- ENOENT, None))" if "k \<le> RAMFS_MAX_NODES" for k
  proof -
    have k: "unat (of_nat k :: u64) = k" using that by (simp add: unat_of_nat)
    have z: "(of_nat (k + 2) :: u64) \<noteq> 0" "(of_nat (k + 2) :: u64) \<noteq> 1"
    proof -
      have "unat (of_nat (k + 2) :: u64) = k + 2" by (simp only: unat_of_nat) (use that in simp)
      then have "unat (of_nat (k + 2) :: u64) \<noteq> 0" "unat (of_nat (k + 2) :: u64) \<noteq> 1" by linarith+
      then show "(of_nat (k + 2) :: u64) \<noteq> 0" "(of_nat (k + 2) :: u64) \<noteq> 1" by (metis unat_0, metis unat_1)
    qed
    have "ramfs_nth (rnodes s) (of_nat k) 0 (rn_child (rnodes s (vn_data (g_vnode_pool s v)))) =
        Some (if k < length cs then Some (cs ! k) else None)"
      using ramfs_nth_chain [OF chain, of 0 "of_nat k"] len k by simp
    then show ?thesis using z dir assms(2)
      by (simp add: vfs_readdir_def ramfs_readdir_def ramfs_entry_def del: of_nat_add)
  qed
  show "vfs_readdir s (Some v) (of_nat i) = Some (0, Some (?es ! i))" if "i < length ?es"
  proof -
    have "i = 0 \<or> i = 1 \<or> (\<exists>k. i = k + 2 \<and> k < length cs)"
      using that le_Suc_ex [of 2 i] by (cases "2 \<le> i") (auto simp: add.commute dir_entries_def)
    then consider "i = 0" | "i = 1" | k where "i = k + 2" "k < length cs" by blast
    then show ?thesis
    proof cases
      case 3
      then show ?thesis using child [of k] len by (simp add: dir_entries_def)
    qed (use dir in \<open>simp_all add: vfs_readdir_def dir_entries_def\<close>)
  qed
  show "vfs_readdir s (Some v) (of_nat (length ?es)) = Some (- ENOENT, None)"
    using child [of "length cs"] len by (simp add: add.commute dir_entries_def)
qed

lemma ramfs_lists:
  fixes s :: "'a vfs_state_scheme"
  assumes "vn_type (g_vnode_pool s v) = VNODE_DIR" and "vn_ops (g_vnode_pool s v) = Some RAMFS_OPS"
    and "dir_ok s (vn_data (g_vnode_pool s v)) cs" and "\<forall>c\<in>set cs. entry_ok (ramfs_entry s c)"
  shows "dir_lists s v (dir_entries s cs)"
proof -
  note at = ramfs_readdirs [OF assms(1-3)]
  have "entry_ok (dot_entry dot_name)" "entry_ok (dot_entry dotdot_name)"
    by (simp_all add: entry_ok_def dot_entry_def)
  then show ?thesis
    using at assms(4) dir_ok_length [OF assms(3)] unfolding dir_lists_def by (auto simp: dir_entries_def simp del: of_nat_Suc)
qed

text \<open>
  When a name is too long for a record and the records up to it fit into the first block, the system call
  fails without moving on, and \<^verbatim>\<open>readdir\<close> gives \<^verbatim>\<open>NULL\<close> for it.
\<close>

lemma readdir_long_name:
  fixes s :: "'a sys_state_scheme"
  assumes s: "s = io_sys io" and "proc_current s = Some p" and "fd_file s p (of_int fd) = Some f" and "fl_vn (g_file s f) = Some v"
    and "fl_off (g_file s f) = 0" and "vn_type (g_vnode_pool s v) = VNODE_DIR"
    and "\<forall>k<length (des @ [long]). vfs_readdir s (Some v) (of_nat k) = Some (0, Some ((des @ [long]) ! k))"
    and "\<forall>de\<in>set (des @ [long]). nul_free (d_name de)" and "231 < length (d_name long)" and "dirent_size (des @ [long]) \<le> 512"
    and "uvm_inv (phys s) xs (cur_pt s p) l1" and "us.mapped l1 (phys s) (unat dirp) (unat dirp + DIRENT_BUF)"
    and "256 \<le> length (stack_junk s)"
    and "dr_fd d = fd" and "length (dr_buf d) = 512" and "dr_pos d = 0" and "dr_nread d = 0"
  shows "\<exists>d' io'. u_readdir (u_getdents64 p dirp) (Some d) io = Some (None, Some d', io') \<and>
    dr_pos d' = 0 \<and> dr_nread d' = 0 \<and> g_file (io_sys io') = g_file s"
proof -
  have nil: "us.holds l1 (phys s) dirp []" by (simp add: us.holds_def user_range_def)
  obtain w off M where l: "getdents_loop p (Some v) dirp 512 0 0 s = Some (- EINVAL, w, off, set_phys M s)"
    using getdents_loop_long [OF assms(11,12) order_refl order_refl nil, of des long v 0] assms(7-10,13) by auto
  have sys: "sys_getdents64 (of_int fd) dirp 512 s = Some (- EINVAL, set_phys M s)"
    using l by (simp add: sys_getdents64_def assms(2-6))
  obtain io1 buf where u: "u_getdents64 p dirp fd (dr_buf d) io = Some (- 1, buf, io1)" "io_sys io1 = set_phys M s"
    using sys assms(1,15) by (simp add: u_getdents64_def wrap_ret_def fail_with_def)
  have "g_file (io_sys io1) = g_file s" by (simp add: u(2) set_phys_def)
  then show ?thesis
    using assms(14,16,17) u(1) by (subst u_readdir_def) (simp add: readdir_loop.simps [of _ d])
qed

lemma listed_entries:
  "map ud_name (listed (dir_entries s cs) 0) = [[0x2E], [0x2E, 0x2E]] @ map (\<lambda>c. rn_name (rnodes s c)) cs \<and>
   map ud_type (listed (dir_entries s cs) 0) = [4, 4] @ map (\<lambda>c. if rn_type (rnodes s c) = VNODE_DIR then 4 else 8) cs"
proof
  have ty: "map ud_type (listed des off) = map (\<lambda>de. if d_type de = vnode_type_num VNODE_DIR then 4 else 8) des" for des off
    by (induction des arbitrary: off) (simp_all add: seen_def)
  have "(vnode_type_num t = vnode_type_num VNODE_DIR) = (t = VNODE_DIR)" for t by (cases t) simp_all
  then show "map ud_type (listed (dir_entries s cs) 0) = [4, 4] @ map (\<lambda>c. if rn_type (rnodes s c) = VNODE_DIR then 4 else 8) cs"
    unfolding ty by (simp add: ramfs_entry_def dot_entry_def dir_entries_def)
  show "map ud_name (listed (dir_entries s cs) 0) = [[0x2E], [0x2E, 0x2E]] @ map (\<lambda>c. rn_name (rnodes s c)) cs"
    unfolding map_listed by (simp add: ramfs_entry_def dot_entry_def dir_entries_def)
qed

text \<open>
  C38. A process that opens a directory of the RAM file system and calls \<^verbatim>\<open>readdir\<close> until it gives
  \<^verbatim>\<open>NULL\<close>.  When all names have at most 231 bytes, it sees \<^verbatim>\<open>.\<close>, \<^verbatim>\<open>..\<close> and every child of the directory exactly
  once, in the order of the list of children, with its name and type, however the records fall on the blocks
  of 512 bytes that \<^verbatim>\<open>getdents64\<close> copies into the memory of the process; the call after the last entry gives
  \<^verbatim>\<open>NULL\<close>.  A file system takes names of up to \<^verbatim>\<open>VFS_NAME_MAX\<close>, 255 bytes, but a name of more than 231 bytes
  makes \<^verbatim>\<open>getdents64\<close> fail: when it stands in the first block, together with the 64 bytes of the records of \<^verbatim>\<open>.\<close> and
  \<^verbatim>\<open>..\<close>, the first \<^verbatim>\<open>readdir\<close> gives \<^verbatim>\<open>NULL\<close> and neither the stream nor the open file moves on, so the process
  sees no entry of the directory at all.
\<close>

theorem readdir_lists_directory:
  fixes s :: "'a sys_state_scheme"
  assumes s: "s = io_sys io" and "proc_current s = Some p" and "fd_file s p (of_int fd) = Some f" and "fl_vn (g_file s f) = Some v"
    and "fl_off (g_file s f) = 0" and "vn_type (g_vnode_pool s v) = VNODE_DIR" and "vn_ops (g_vnode_pool s v) = Some RAMFS_OPS"
    and "dir_ok s (vn_data (g_vnode_pool s v)) cs" and "\<forall>c\<in>set cs. nul_free (rn_name (rnodes s c))"
    and "uvm_inv (phys s) xs (pr_pagetable (g_procs s p)) l1" and "user_range dirp 512"
    and "\<forall>i<512. umem (phys s) l1 (dirp + of_nat i) \<noteq> None" and "256 \<le> length (stack_junk s)"
    and "dr_fd d = fd" and "length (dr_buf d) = 512" and "dr_pos d = 0" and "dr_nread d = 0"
  shows "((\<forall>c\<in>set cs. length (rn_name (rnodes s c)) \<le> 231) \<longrightarrow>
      (\<exists>es d' io'. readdir_times (u_getdents64 p dirp) (length cs + 3) (Some d) io = Some (map Some es @ [None], Some d', io') \<and>
        map ud_name es = [[0x2E], [0x2E, 0x2E]] @ map (\<lambda>c. rn_name (rnodes s c)) cs \<and>
        map ud_type es = [4, 4] @ map (\<lambda>c. if rn_type (rnodes s c) = VNODE_DIR then 4 else 8) cs)) \<and>
    (\<forall>as c bs. cs = as @ c # bs \<and> 231 < length (rn_name (rnodes s c)) \<and>
        64 + sum_list (map (\<lambda>x. dirent_reclen (rn_name (rnodes s x))) (as @ [c])) \<le> 512 \<longrightarrow>
      (\<exists>d' io'. u_readdir (u_getdents64 p dirp) (Some d) io = Some (None, Some d', io') \<and>
        dr_pos d' = 0 \<and> dr_nread d' = 0 \<and> g_file (io_sys io') = g_file s))" (is "(?short \<longrightarrow> ?lists) \<and> ?hides")
proof -
  have m: "us.mapped l1 (phys s) (unat dirp) (unat dirp + DIRENT_BUF)"
    unfolding us.mapped_def
  proof (intro conjI allI impI)
    fix v :: u64 assume v: "unat dirp \<le> unat v" "unat v < unat dirp + DIRENT_BUF"
    then have "v = dirp + of_nat (unat v - unat dirp)" by (simp add: word_le_nat_alt of_nat_diff)
    then show "umem (phys s) l1 v \<noteq> None" using assms(12) v by (metis less_diff_conv2 add.commute)
  qed (use assms(11) in \<open>simp_all add: user_range_def word_le_nat_alt\<close>)
  have pt: "uvm_inv (phys s) xs (cur_pt s p) l1" using assms(10) by (simp add: cur_pt_def)
  have short: ?lists if short: ?short
  proof -
    let ?es = "dir_entries s cs"
    have l: "dir_lists s v ?es"
      by (rule ramfs_lists [OF assms(6,7,8)]) (use assms(9) short in \<open>simp add: entry_ok_def ramfs_entry_def\<close>)
    have "dir_open p dirp fd f v ?es xs l1 (stack_junk s) s"
      using assms l m pt by (simp add: dir_open_def)
    then have st: "kd.stream fd p dirp f v ?es xs l1 (stack_junk s) d io ?es 0"
      unfolding kd.stream_def using s assms(5,14-17) by (intro exI [of _ "[]"]) simp
    have n: "length cs + 3 = length ?es + 1" by (simp add: dir_entries_def)
    show ?lists
      using kd.readdir_all [OF st] listed_entries [of s cs] unfolding n by metis
  qed
  have long: ?hides
  proof (intro allI impI, elim conjE)
    fix as c bs
    assume cs: "cs = as @ c # bs" and long: "231 < length (rn_name (rnodes s c))"
      and fits: "64 + sum_list (map (\<lambda>x. dirent_reclen (rn_name (rnodes s x))) (as @ [c])) \<le> 512"
    have es: "dir_entries s cs = (dir_entries s as @ [ramfs_entry s c]) @ map (ramfs_entry s) bs"
      by (simp add: dir_entries_def cs)
    have at: "\<forall>k<length (dir_entries s as @ [ramfs_entry s c]).
        vfs_readdir s (Some v) (of_nat k) = Some (0, Some ((dir_entries s as @ [ramfs_entry s c]) ! k))"
      using ramfs_readdirs(1) [OF assms(6,7,8)] unfolding es by (simp add: nth_append)
    show "\<exists>d' io'. u_readdir (u_getdents64 p dirp) (Some d) io = Some (None, Some d', io') \<and>
        dr_pos d' = 0 \<and> dr_nread d' = 0 \<and> g_file (io_sys io') = g_file s"
    proof (rule readdir_long_name [OF assms(1-6) at])
      show "\<forall>de\<in>set (dir_entries s as @ [ramfs_entry s c]). nul_free (d_name de)"
        using assms(9) by (auto simp: cs dir_entries_def dot_entry_def ramfs_entry_def nul_free_def)
      show "dirent_size (dir_entries s as @ [ramfs_entry s c]) \<le> 512"
        using fits by (simp add: dirent_size_def dir_entries_def dot_entry_def ramfs_entry_def o_def dirent_reclen_def)
    qed (use long m pt assms(13-17) in \<open>simp_all add: ramfs_entry_def\<close>)
  qed
  show ?thesis using short long by blast
qed

section \<open>A concrete directory\<close>

text \<open>The file system with the file \<^verbatim>\<open>a\<close> in its root, which process 0 has open as descriptor 3.\<close>

definition dir_demo :: "mm_state \<Rightarrow> sys_state" where
  "dir_demo m = (kernel_statics (\<lambda>_. 0))\<lparr>g_vnode_pool := (g_vnode_pool file_fs)(0 := (g_vnode_pool file_fs 0)\<lparr>vn_type := VNODE_DIR, vn_ops := Some RAMFS_OPS\<rparr>),
     rnodes := rnodes file_fs, rn_used := rn_used file_fs, phys := m, g_current := Some 0,
     g_procs := (\<lambda>_. zero_proc)(0 := zero_proc\<lparr>pr_pagetable := 0x1000, pr_ofile := [3 \<mapsto> 0]\<rparr>),
     g_file := (\<lambda>_. zero_file)(0 := zero_file\<lparr>fl_vn := Some 0\<rparr>)\<rparr>"

lemma dir_demo_simps [simp]:
  "proc_current (dir_demo m) = Some 0" "fd_file (dir_demo m) 0 3 = Some 0" "g_file (dir_demo m) 0 = zero_file\<lparr>fl_vn := Some 0\<rparr>"
  "vn_type (g_vnode_pool (dir_demo m) 0) = VNODE_DIR" "vn_ops (g_vnode_pool (dir_demo m) 0) = Some RAMFS_OPS"
  "vn_data (g_vnode_pool (dir_demo m) 0) = 0" "rnodes (dir_demo m) = rnodes file_fs" "rn_used (dir_demo m) = rn_used file_fs"
  "phys (dir_demo m) = m" "pr_pagetable (g_procs (dir_demo m) 0) = 0x1000" "stack_junk (dir_demo m) = replicate 256 0"
  by (simp_all add: dir_demo_def kernel_statics_def proc_current_def fd_file_def file_fs_create(6))

text \<open>The same with another name for the file.\<close>

definition name_demo :: "cstr \<Rightarrow> mm_state \<Rightarrow> sys_state" where
  "name_demo nm m = (dir_demo m)\<lparr>rnodes := (rnodes file_fs)(1 := (rnodes file_fs 1)\<lparr>rn_name := nm\<rparr>)\<rparr>"

lemma name_demo_simps [simp]:
  "proc_current (name_demo nm m) = Some 0" "fd_file (name_demo nm m) 0 3 = Some 0" "g_file (name_demo nm m) 0 = zero_file\<lparr>fl_vn := Some 0\<rparr>"
  "vn_type (g_vnode_pool (name_demo nm m) 0) = VNODE_DIR" "vn_ops (g_vnode_pool (name_demo nm m) 0) = Some RAMFS_OPS"
  "vn_data (g_vnode_pool (name_demo nm m) 0) = 0" "rnodes (name_demo nm m) = (rnodes file_fs)(1 := (rnodes file_fs 1)\<lparr>rn_name := nm\<rparr>)"
  "rn_used (name_demo nm m) = rn_used file_fs" "phys (name_demo nm m) = m" "pr_pagetable (g_procs (name_demo nm m) 0) = 0x1000"
  "stack_junk (name_demo nm m) = replicate 256 0"
  using dir_demo_simps(1,2) by (simp_all add: name_demo_def proc_current_def fd_file_def)

lemma name_demo_dir: "dir_ok (name_demo nm m) 0 [1]"
proof -
  have "rn_child (rnodes file_fs 0) = Some 1 \<and> rn_sibling (rnodes file_fs 1) = None \<and> rn_parent (rnodes file_fs 1) = Some 0"
    using ramfs_find_ok [OF root_fs_ok(4), of "[97]"] root_fs_ok(3,4)
    by (simp add: file_fs_def ramfs_create_def Let_def ramfs_alloc_node_def ramfs_wrap_node_def
      vfs_alloc_vnode_def root_fs_used first_unused_1 set_out_def ramfs_link_def zero_node_def
      upd_node_def upd_vnode_def dir_ok_def dir_chain_def)
  then show ?thesis using file_fs_create(2,3) by (simp add: dir_ok_def dir_chain_def)
qed

lemma first_page_mapped:
  assumes "\<forall>v. user_va v \<longrightarrow> page_of v = USER_BASE \<longrightarrow> umem m l1 v = Some 0"
  shows "\<forall>i<512. umem m l1 (USER_BASE + of_nat i) \<noteq> None"
proof (intro allI impI)
  fix i :: nat assume i: "i < 512"
  have r: "user_range USER_BASE 512" by (simp add: user_range_def)
  have "unat (USER_BASE + of_nat i) = 0x400000 + i" using user_range_at(2) [OF r i] by simp
  then have "unat (page_of (USER_BASE + of_nat i)) = unat USER_BASE"
    using i mod_mult_self3 [of 1024 4096 i] by (simp add: unat_page_of)
  then have "page_of (USER_BASE + of_nat i) = USER_BASE" by (simp only: word_unat_eq_iff)
  then show "umem m l1 (USER_BASE + of_nat i) \<noteq> None" using assms user_range_at(1) [OF r i] by simp
qed

text \<open>With the name \<^verbatim>\<open>a\<close> the file is listed; with a name of 232 bytes nothing is.\<close>

theorem readdir_lists_directory_witness:
  "\<exists>m. (\<exists>es d' io'. readdir_times (u_getdents64 0 USER_BASE) 4
        (Some \<lparr>dr_fd = 3, dr_pos = 0, dr_nread = 0, dr_buf = replicate 512 0, dr_ent = seen (dot_entry []) 0\<rparr>)
        \<lparr>io_sys = name_demo [97] m, io_errno = 0\<rparr> = Some (map Some es @ [None], Some d', io') \<and>
      map ud_name es = [[0x2E], [0x2E, 0x2E], [97]] \<and> map ud_type es = [4, 4, 8]) \<and>
    (\<exists>d' io'. u_readdir (u_getdents64 0 USER_BASE)
        (Some \<lparr>dr_fd = 3, dr_pos = 0, dr_nread = 0, dr_buf = replicate 512 0, dr_ent = seen (dot_entry []) 0\<rparr>)
        \<lparr>io_sys = name_demo (replicate 232 97) m, io_errno = 0\<rparr> = Some (None, Some d', io'))"
proof -
  obtain m xs where m: "uvm_inv m xs 0x1000 0x2000"
    "\<forall>v. user_va v \<longrightarrow> page_of v = USER_BASE \<longrightarrow> umem m 0x2000 v = Some 0" using grown4_inv by blast
  have r: "user_range USER_BASE 512" by (simp add: user_range_def)
  note pg = first_page_mapped [OF m(2)]
  let ?d = "\<lparr>dr_fd = 3, dr_pos = 0, dr_nread = 0, dr_buf = replicate 512 0, dr_ent = seen (dot_entry []) 0\<rparr>"
  let ?io = "\<lambda>nm. \<lparr>io_sys = name_demo nm m, io_errno = 0\<rparr>"
  have dir: "dir_ok (name_demo nm m) (vn_data (g_vnode_pool (name_demo nm m) 0)) [1]" for nm
    using name_demo_dir by simp
  have nm: "\<forall>c\<in>set [1]. nul_free (rn_name (rnodes (name_demo nm m) c))" if "nul_free nm" for nm
    using that by simp
  have all: "((\<forall>c\<in>set [1]. length (rn_name (rnodes (name_demo nm m) c)) \<le> 231) \<longrightarrow>
      (\<exists>es d' io'. readdir_times (u_getdents64 0 USER_BASE) (length [1 :: nat] + 3) (Some ?d) (?io nm) = Some (map Some es @ [None], Some d', io') \<and>
        map ud_name es = [[0x2E], [0x2E, 0x2E]] @ map (\<lambda>c. rn_name (rnodes (name_demo nm m) c)) [1] \<and>
        map ud_type es = [4, 4] @ map (\<lambda>c. if rn_type (rnodes (name_demo nm m) c) = VNODE_DIR then 4 else 8) [1])) \<and>
    (\<forall>as c bs. [1] = as @ c # bs \<and> 231 < length (rn_name (rnodes (name_demo nm m) c)) \<and>
        64 + sum_list (map (\<lambda>x. dirent_reclen (rn_name (rnodes (name_demo nm m) x))) (as @ [c])) \<le> 512 \<longrightarrow>
      (\<exists>d' io'. u_readdir (u_getdents64 0 USER_BASE) (Some ?d) (?io nm) = Some (None, Some d', io') \<and>
        dr_pos d' = 0 \<and> dr_nread d' = 0 \<and> g_file (io_sys io') = g_file (name_demo nm m)))" if "nul_free nm" for nm
    by (rule readdir_lists_directory [where fd = 3 and f = 0 and v = 0 and xs = xs and ?l1.0 = "0x2000", OF _ _ _ _ _ _ _ dir nm [OF that] _ r])
      (use m(1) pg in \<open>simp_all add: zero_file_def\<close>)
  have "nul_free [97]" by (simp add: nul_free_def)
  note short = all [OF this, THEN conjunct1]
  have "nul_free (replicate 232 97)" by (simp add: nul_free_def)
  note long = all [OF this, THEN conjunct2, rule_format, of "[]" 1 "[]"]
  have "length [1 :: nat] + 3 = 4" by simp
  then have "\<exists>es d' io'. readdir_times (u_getdents64 0 USER_BASE) 4 (Some ?d) (?io [97]) = Some (map Some es @ [None], Some d', io') \<and>
      map ud_name es = [[0x2E], [0x2E, 0x2E], [97]] \<and> map ud_type es = [4, 4, 8]"
    using short file_fs_create(3) by (simp del: readdir_times.simps)
  moreover have "\<exists>d' io'. u_readdir (u_getdents64 0 USER_BASE) (Some ?d) (?io (replicate 232 97)) = Some (None, Some d', io')"
  proof -
    have "dirent_reclen (replicate 232 97) = 264" by (simp add: dirent_reclen_def)
    then show ?thesis using long by auto
  qed
  ultimately show ?thesis by (intro exI [of _ m] conjI)
qed

end
