(* ===== verification/Stream_Props.thy ===== *)
theory Stream_Props
  imports User_Stream Dirent_Thms User_Props
begin

text \<open>
  Reading lines: \<open>byte_source\<close> is what \<^verbatim>\<open>fgetc\<close> needs of \<^verbatim>\<open>read\<close>, the kernel's system call on a
  file of the RAM file system is its interpretation, and \<^verbatim>\<open>fgets\<close> called until it gives \<^verbatim>\<open>NULL\<close> takes a
  file apart into its lines.  Also what a byte put back does to the functions that do not look at it.
\<close>

section \<open>Lines\<close>

text \<open>What one call takes: up to \<open>n\<close> bytes, and not beyond a newline.\<close>

fun next_line :: "nat \<Rightarrow> u8 list \<Rightarrow> u8 list" where
  "next_line 0 cs = []"
| "next_line (Suc n) [] = []"
| "next_line (Suc n) (c # cs) = c # (if c = 0x0A then [] else next_line n cs)"

lemma next_line_prefix: "next_line n cs @ drop (length (next_line n cs)) cs = cs"
  by (induction n cs rule: next_line.induct) auto

lemma nul_free_line: "nul_free cs \<Longrightarrow> nul_free (next_line n cs)"
  by (induction n cs rule: next_line.induct) auto

lemma next_line_length: "length (next_line n cs) \<le> n" "length (next_line n cs) \<le> length cs"
  by (induction n cs rule: next_line.induct) auto

lemma next_line_empty: "next_line n cs = [] \<longleftrightarrow> n = 0 \<or> cs = []"
  by (cases n; cases cs) auto

lemma next_line_newline: "0x0A \<notin> set (butlast (next_line n cs))"
  by (induction n cs rule: next_line.induct) auto

lemma next_line_full:
  "length (next_line n cs) < length cs \<Longrightarrow> length (next_line n cs) = n \<or> next_line n cs \<noteq> [] \<and> last (next_line n cs) = 0x0A"
  by (induction n cs rule: next_line.induct) auto

text \<open>All of them, for lines of at most \<open>n + 1\<close> bytes.\<close>

function lines_of :: "nat \<Rightarrow> u8 list \<Rightarrow> u8 list list" where
  "lines_of n cs = (if cs = [] then [] else next_line (Suc n) cs # lines_of n (drop (length (next_line (Suc n) cs)) cs))"
  by pat_completeness auto
termination
proof (relation "measure (length \<circ> snd)")
  fix n and cs :: "u8 list"
  assume "cs \<noteq> []"
  then have "0 < length (next_line (Suc n) cs)" "0 < length cs" by (simp_all add: next_line_empty)
  then show "((n, drop (length (next_line (Suc n) cs)) cs), n, cs) \<in> measure (length \<circ> snd)" by simp
qed simp

declare lines_of.simps [simp del]

lemma lines_of_concat: "concat (lines_of n cs) = cs"
proof (induction n cs rule: lines_of.induct)
  case (1 n cs)
  then show ?case using next_line_prefix [of "Suc n" cs] by (subst lines_of.simps) simp
qed

lemma lines_of_shape:
  "l \<in> set (lines_of n cs) \<Longrightarrow> l \<noteq> [] \<and> length l \<le> n + 1 \<and> 0x0A \<notin> set (butlast l) \<and> set l \<subseteq> set cs"
proof (induction n cs rule: lines_of.induct)
  case (1 n cs)
  let ?l = "next_line (Suc n) cs" and ?r = "drop (length (next_line (Suc n) cs)) cs"
  have cs: "cs \<noteq> []" using "1.prems" by (subst (asm) lines_of.simps) (simp split: if_splits)
  have "set ?l \<subseteq> set cs" by (subst (2) next_line_prefix [of "Suc n" cs, symmetric]) auto
  moreover have "set ?r \<subseteq> set cs" by (rule set_drop_subset)
  moreover have "l = ?l \<or> l \<in> set (lines_of n ?r)" using "1.prems" cs by (subst (asm) lines_of.simps) simp
  ultimately show ?case
    using "1.IH" [OF cs] next_line_length(1) [of "Suc n" cs] next_line_newline [of "Suc n" cs] cs
    by (auto simp: next_line_empty)
qed

lemma lines_of_cut: "l \<in> set (butlast (lines_of n cs)) \<Longrightarrow> length l = n + 1 \<or> last l = 0x0A"
proof (induction n cs rule: lines_of.induct)
  case (1 n cs)
  let ?l = "next_line (Suc n) cs" and ?r = "drop (length (next_line (Suc n) cs)) cs"
  have cs: "cs \<noteq> []" using "1.prems" by (subst (asm) lines_of.simps) (simp split: if_splits)
  have r: "?r \<noteq> []" and l: "l = ?l \<or> l \<in> set (butlast (lines_of n ?r))"
    using "1.prems" cs by (subst (asm) lines_of.simps, simp add: lines_of.simps [of n ?r] split: if_splits)+
  have "length ?l < length cs" using r by simp
  then show ?case using l "1.IH" [OF cs] next_line_full [of "Suc n" cs] by auto
qed

section \<open>A source of bytes\<close>

text \<open>The first \<open>k\<close> answers of \<^verbatim>\<open>fgets\<close>: the string in the array, or \<^verbatim>\<open>NULL\<close>.\<close>

fun fgets_times :: "'k read_call \<Rightarrow> int \<Rightarrow> nat \<Rightarrow> u8 list option \<Rightarrow> u_file option \<Rightarrow> 'k io \<Rightarrow>
    (cstr option list \<times> u_file option \<times> 'k io) option" where
  "fgets_times rd sz 0 s stream io = Some ([], stream, io)"
| "fgets_times rd sz (Suc k) s stream io =
     do { (ok, s1, stream1, io1) \<leftarrow> u_fgets rd s sz stream io;
          (ls, stream2, io2) \<leftarrow> fgets_times rd sz k s1 stream1 io1;
          Some ((if ok then Some (cstr_of (the s1)) else None) # ls, stream2, io2) }"

locale byte_source =
  fixes rd :: "'k read_call" and fd :: int
    and ok :: "'k io \<Rightarrow> bool" and left :: "'k io \<Rightarrow> u8 list"
  assumes one: "ok io \<Longrightarrow> \<exists>io'. rd fd 1 io = Some (int (length (take 1 (left io))), take 1 (left io), io') \<and>
      ok io' \<and> left io' = drop 1 (left io)"
begin

text \<open>What is still to be read from a stream: a byte put back, then the rest of the file.\<close>

definition to_read :: "u_file \<Rightarrow> 'k io \<Rightarrow> u8 list \<Rightarrow> bool" where
  "to_read f io cs \<longleftrightarrow> fi_fd f = fd \<and> ok io \<and> cs = (if fi_ungot f \<noteq> 0 then [fi_ungot_ch f] else []) @ left io"

lemma fgetc_byte:
  assumes "to_read f io (c # cs)"
  shows "\<exists>f' io'. u_fgetc rd (Some f) io = Some (uint c, Some f', io') \<and> to_read f' io' cs"
proof (cases "fi_ungot f \<noteq> 0")
  case True
  then show ?thesis using assms by (simp add: to_read_def u_fgetc_def)
next
  case False
  then have l: "left io = c # cs" "fi_fd f = fd" "ok io" using assms by (simp_all add: to_read_def)
  obtain io' where "rd fd 1 io = Some (1, [c], io')" "ok io'" "left io' = cs" using one [OF l(3)] l(1) by auto
  then show ?thesis using False l(2) by (simp add: to_read_def u_fgetc_def)
qed

lemma fgetc_end:
  assumes "to_read f io []"
  shows "\<exists>f' io'. u_fgetc rd (Some f) io = Some (EOF, Some f', io') \<and> to_read f' io' [] \<and> fi_eof f' = 1"
proof -
  have l: "left io = []" "fi_fd f = fd" "ok io" "fi_ungot f = 0"
    using assms by (simp_all add: to_read_def split: if_splits)
  obtain io' where "rd fd 1 io = Some (0, [], io')" "ok io'" "left io' = []" using one [OF l(3)] l(1) by auto
  then show ?thesis using l by (simp add: to_read_def u_fgetc_def)
qed

lemma fgets_loop_line:
  "to_read f io cs \<Longrightarrow> i + n < length s \<Longrightarrow> \<exists>f' io'.
     fgets_loop rd n s i (Some f) io = Some (take i s @ next_line n cs @ drop (i + length (next_line n cs)) s,
       i + length (next_line n cs), Some f', io') \<and>
     to_read f' io' (drop (length (next_line n cs)) cs) \<and> (cs = [] \<and> 0 < n \<longrightarrow> fi_eof f' = 1)"
proof (induction n cs arbitrary: f io i s rule: next_line.induct)
  case (2 n)
  then show ?case using fgetc_end [OF "2.prems"(1)] by auto
next
  case (3 n c cs)
  obtain f1 io1 where g: "u_fgetc rd (Some f) io = Some (uint c, Some f1, io1)" "to_read f1 io1 cs"
    using fgetc_byte [OF "3.prems"(1)] by blast
  have "uint c \<ge> 0" by simp
  then have ne: "uint c \<noteq> EOF" by linarith
  have nl: "uint c = 0x0A \<longleftrightarrow> c = 0x0A"
    by (simp add: word_uint_eq_iff)
  have b: "of_int (uint c) = c" "\<not> length s \<le> i" using "3.prems"(2) by simp_all
  have u: "take (Suc i) (s[i := c]) = take i s @ [c]" using "3.prems"(2) by (simp add: take_Suc_conv_app_nth)
  show ?case
  proof (cases "c = 0x0A")
    case True
    then show ?thesis using g ne nl b "3.prems"(2) by (simp add: upd_conv_take_nth_drop)
  next
    case False
    obtain f2 io2 where h: "fgets_loop rd n (s[i := c]) (i + 1) (Some f1) io1 =
        Some (take (i + 1) (s[i := c]) @ next_line n cs @ drop (i + 1 + length (next_line n cs)) (s[i := c]),
          i + 1 + length (next_line n cs), Some f2, io2)" "to_read f2 io2 (drop (length (next_line n cs)) cs)"
      using "3.IH" [OF False g(2), of "i + 1" "s[i := c]"] "3.prems"(2) by auto
    have "fgets_loop rd (Suc n) s i (Some f) io = fgets_loop rd n (s[i := c]) (i + 1) (Some f1) io1"
      using False g(1) ne nl b by simp
    then show ?thesis using h False u by simp
  qed
qed simp

lemma fgets_line:
  assumes "to_read f io cs" and "nul_free cs" and "2 \<le> sz" and "sz \<le> int (length buf)"
  shows "\<exists>buf' f' io'. u_fgets rd (Some buf) sz (Some f) io = Some (cs \<noteq> [], Some buf', Some f', io') \<and>
    length buf' = length buf \<and> (cs \<noteq> [] \<longrightarrow> cstr_of buf' = next_line (nat (sz - 1)) cs) \<and>
    to_read f' io' (drop (length (next_line (nat (sz - 1)) cs)) cs) \<and> (cs = [] \<longrightarrow> fi_eof f' = 1)"
proof -
  let ?n = "nat (sz - 1)"
  let ?l = "next_line ?n cs"
  have n: "0 < ?n" "0 + ?n < length buf" using assms(3,4) by linarith+
  obtain f1 io1 where g: "fgets_loop rd ?n buf 0 (Some f) io = Some (?l @ drop (length ?l) buf, length ?l, Some f1, io1)"
    "to_read f1 io1 (drop (length ?l) cs)" "cs = [] \<longrightarrow> fi_eof f1 = 1"
    using fgets_loop_line [OF assms(1) n(2)] n(1) by auto
  have len: "length ?l < length buf" using next_line_length(1) [of ?n cs] n(2) by simp
  have nf: "nul_free ?l" by (rule nul_free_line [OF assms(2)])
  have d: "drop (length ?l) buf = buf ! length ?l # drop (Suc (length ?l)) buf" using Cons_nth_drop_Suc [OF len] by simp
  have sz: "\<not> sz \<le> 0" using assms(3) by simp
  show ?thesis
  proof (cases "cs = []")
    case True
    then have "?l = []" by (simp add: next_line_empty)
    then show ?thesis using g sz True by (simp add: u_fgets_def)
  next
    case False
    then have "?l \<noteq> []" using n(1) by (simp add: next_line_empty)
    then have "u_fgets rd (Some buf) sz (Some f) io =
        Some (True, Some (?l @ 0 # drop (Suc (length ?l)) buf), Some f1, io1)"
      using g(1) sz len by (simp add: u_fgets_def d)
    then show ?thesis using False g(2) nf len by simp
  qed
qed

lemma fgets_lines:
  assumes "2 \<le> sz"
  shows "to_read f io cs \<Longrightarrow> nul_free cs \<Longrightarrow> sz \<le> int (length buf) \<Longrightarrow> \<exists>f' io'.
    fgets_times rd sz (length (lines_of (nat (sz - 2)) cs) + 1) (Some buf) (Some f) io =
      Some (map Some (lines_of (nat (sz - 2)) cs) @ [None], Some f', io') \<and> to_read f' io' [] \<and> fi_eof f' = 1"
proof (induction "nat (sz - 2)" cs arbitrary: f io buf rule: lines_of.induct)
  case (1 cs)
  have n: "nat (sz - 1) = Suc (nat (sz - 2))" using assms by linarith
  let ?l = "next_line (Suc (nat (sz - 2))) cs"
  obtain buf' f' io' where g: "u_fgets rd (Some buf) sz (Some f) io = Some (cs \<noteq> [], Some buf', Some f', io')"
      "length buf' = length buf" "cs \<noteq> [] \<longrightarrow> cstr_of buf' = ?l" "to_read f' io' (drop (length ?l) cs)" "cs = [] \<longrightarrow> fi_eof f' = 1"
    using fgets_line [OF "1.prems"(1,2) assms "1.prems"(3)] unfolding n by blast
  show ?case
  proof (cases "cs = []")
    case True
    then show ?thesis using g by (simp add: lines_of.simps)
  next
    case False
    have nf: "nul_free (drop (length ?l) cs)" using "1.prems"(2) by (auto simp: nul_free_def dest: in_set_dropD)
    obtain f2 io2 where h: "fgets_times rd sz (length (lines_of (nat (sz - 2)) (drop (length ?l) cs)) + 1) (Some buf') (Some f') io' =
        Some (map Some (lines_of (nat (sz - 2)) (drop (length ?l) cs)) @ [None], Some f2, io2)" "to_read f2 io2 []" "fi_eof f2 = 1"
      using "1.hyps" [OF False g(4) nf] g(2) "1.prems"(3) by metis
    have ls: "lines_of (nat (sz - 2)) cs = ?l # lines_of (nat (sz - 2)) (drop (length ?l) cs)"
      using False by (subst lines_of.simps) simp
    have more: "fgets_times rd sz (Suc k) (Some buf) (Some f) io = Some (Some ?l # r, x, y)"
      if "fgets_times rd sz k (Some buf') (Some f') io' = Some (r, x, y)" for k r x y
      using g(1,3) that False by simp
    show ?thesis using more [OF h(1)] h(2,3) by (simp add: ls del: fgets_times.simps)
  qed
qed

end

section \<open>A file of the RAM file system\<close>

text \<open>Process \<open>p\<close> has the file with the bytes \<open>cs\<close> open for reading; \<open>a\<close> is the address of \<^verbatim>\<open>ch\<close>.\<close>

definition file_open :: "nat \<Rightarrow> u64 \<Rightarrow> int \<Rightarrow> nat \<Rightarrow> nat \<Rightarrow> u8 list \<Rightarrow> u64 list \<Rightarrow> u64 \<Rightarrow> 'a sys_state_scheme \<Rightarrow> bool" where
  "file_open p a fd f v cs xs l1 s \<longleftrightarrow>
     proc_current s = Some p \<and> fd_file s p (of_int fd) = Some f \<and> fl_readable (g_file s f) \<and> fl_vn (g_file s f) = Some v \<and>
     vn_ops (g_vnode_pool s v) = Some RAMFS_OPS \<and> ramfs_inv s \<and> rn_used s (vn_data (g_vnode_pool s v)) \<and>
     rn_type (rnodes s (vn_data (g_vnode_pool s v))) = VNODE_FILE \<and> contents (rnodes s (vn_data (g_vnode_pool s v))) = cs \<and>
     unat (fl_off (g_file s f)) \<le> length cs \<and> uvm_inv (phys s) xs (cur_pt s p) l1 \<and> user_range a 1 \<and> umem (phys s) l1 a \<noteq> None"

lemma file_open_moves:
  assumes "file_open p a fd f v cs xs l1 s" and "uvm_inv M xs (cur_pt s p) l1" and "umem M l1 a \<noteq> None"
    and "unat x \<le> length cs"
  shows "file_open p a fd f v cs xs l1 (set_phys M (upd_file f (\<lambda>e. e\<lparr>fl_off := x\<rparr>) s))"
proof -
  let ?s = "set_phys M (upd_file f (\<lambda>e. e\<lparr>fl_off := x\<rparr>) s)"
  have "rnodes ?s = rnodes s" "rn_used ?s = rn_used s" by (simp_all add: set_phys_def upd_file_def)
  then have "ramfs_inv ?s = ramfs_inv s" by (rule ramfs_inv_cong)
  then show ?thesis
    using assms by (simp add: file_open_def) (simp add: set_phys_def upd_file_def proc_current_def)
qed

lemma sys_read_byte:
  assumes o: "file_open p a fd f v cs xs l1 s"
  shows "unat (fl_off (g_file s f)) < length cs \<Longrightarrow> \<exists>M.
      sys_read (of_int fd) a 1 s = Some (1, set_phys M (upd_file f (\<lambda>e. e\<lparr>fl_off := fl_off (g_file s f) + 1\<rparr>) s)) \<and>
      uvm_inv M xs (cur_pt s p) l1 \<and> umem M l1 a = Some (cs ! unat (fl_off (g_file s f)))"
    and "\<not> unat (fl_off (g_file s f)) < length cs \<Longrightarrow> sys_read (of_int fd) a 1 s = Some (0, s)"
proof -
  let ?off = "fl_off (g_file s f)" and ?n = "vn_data (g_vnode_pool s v)"
  note f = o [unfolded file_open_def]
  have "file_ok (rnodes s ?n)" using f by (simp add: ramfs_inv_def)
  then have cs: "length cs \<le> 4096" using f by (auto simp: file_ok_def contents_def)
  have lim: "unat ?off + unat (1 :: u64) < 2 ^ 64" using cs f by simp
  have r: "ramfs_read s v 1 ?off = (int (length (take 1 (drop (unat ?off) cs))), take 1 (drop (unat ?off) cs))"
    using ramfs_file_ops(1) [of s ?n v 1 "[0]" ?off] f lim by (simp add: bytes_read_def)
  have m: "min 1 256 = (1 :: u64)" by (simp add: min_def)
  have top: "sys_read (of_int fd) a 1 s = read_file_loop p (Some f) a 1 0 0 s" using f by (simp add: sys_read_def)
  { assume more: "unat ?off < length cs"
    then have b: "take 1 (drop (unat ?off) cs) = [cs ! unat ?off]" by (simp add: take_Suc_conv_app_nth Cons_nth_drop_Suc [symmetric])
    let ?s1 = "upd_file f (\<lambda>e. e\<lparr>fl_off := ?off + 1\<rparr>) s"
    have fr: "file_read (Some f) 1 s = Some (1, [cs ! unat ?off], ?s1)"
      using f r b more by (simp add: file_read_def vfs_read_def upd_file_def)
    have "\<forall>i<length [cs ! unat ?off]. umem (phys s) l1 (a + of_nat i) \<noteq> None" using f by simp
    then obtain M where M: "copyout (cur_pt s p) a [cs ! unat ?off] (phys s) = (0, M)" "uvm_inv M xs (cur_pt s p) l1"
      "\<forall>v. user_va v \<longrightarrow> umem M l1 v = (if unat (v - a) < length [cs ! unat ?off] then Some ([cs ! unat ?off] ! unat (v - a)) else umem (phys s) l1 v)"
      using us.put_mapped [of "phys s" xs "cur_pt s p" l1 a "[cs ! unat ?off]"] f by auto
    have "user_va a" using f user_range_start [of a 1] by simp
    then have "umem M l1 a = Some (cs ! unat ?off)" using M(3) by simp
    moreover have "to_user p (a + 0) (take (nat 1) [cs ! unat ?off]) ?s1 = (0, set_phys M ?s1)"
      using M(1) by (simp add: to_user_def upd_file_def cur_pt_def)
    then have "read_file_loop p (Some f) a 1 0 0 s = Some (1, set_phys M ?s1)"
      by (subst read_file_loop.simps) (simp add: m fr read_file_loop.simps [of _ _ _ 0])
    ultimately show "\<exists>M. sys_read (of_int fd) a 1 s = Some (1, set_phys M ?s1) \<and>
        uvm_inv M xs (cur_pt s p) l1 \<and> umem M l1 a = Some (cs ! unat ?off)"
      using M(2) top by auto }
  assume "\<not> unat ?off < length cs"
  then have "file_read (Some f) 1 s = Some (0, [], s)" using f r by (simp add: file_read_def vfs_read_def)
  then show "sys_read (of_int fd) a 1 s = Some (0, s)" unfolding top by (subst read_file_loop.simps) (simp add: m)
qed

interpretation rf: byte_source "u_read p a" fd "\<lambda>io. file_open p a fd f v cs xs l1 (io_sys io)"
    "\<lambda>io. drop (unat (fl_off (g_file (io_sys io) f))) cs"
  for p a fd f v cs xs l1
proof
  fix io :: "'a sys_state_scheme io"
  let ?s = "io_sys io"
  let ?off = "fl_off (g_file ?s f)"
  assume o: "file_open p a fd f v cs xs l1 ?s"
  show "\<exists>io'. u_read p a fd 1 io = Some (int (length (take 1 (drop (unat ?off) cs))), take 1 (drop (unat ?off) cs), io') \<and>
      file_open p a fd f v cs xs l1 (io_sys io') \<and> drop (unat (fl_off (g_file (io_sys io') f))) cs = drop 1 (drop (unat ?off) cs)"
  proof (cases "unat ?off < length cs")
    case False
    have "copyin (phys ?s) (cur_pt ?s p) a 0 = (0, [])"
      using us.fetch_mapped [of "phys ?s" xs "cur_pt ?s p" l1 a 0] o by (simp add: file_open_def user_range_def)
    then show ?thesis using sys_read_byte(2) [OF o False] o False by (simp add: u_read_def wrap_ret_def)
  next
    case True
    obtain M where M: "sys_read (of_int fd) a 1 ?s = Some (1, set_phys M (upd_file f (\<lambda>e. e\<lparr>fl_off := ?off + 1\<rparr>) ?s))"
      "uvm_inv M xs (cur_pt ?s p) l1" "umem M l1 a = Some (cs ! unat ?off)" using sys_read_byte(1) [OF o True] by blast
    let ?s' = "set_phys M (upd_file f (\<lambda>e. e\<lparr>fl_off := ?off + 1\<rparr>) ?s)"
    have "length cs < 2 ^ 64"
      using o by (auto simp: file_open_def ramfs_inv_def file_ok_def contents_def)
    then have off: "unat (?off + 1) = unat ?off + 1" using True by (simp add: unat_plus_if')
    have c: "copyin M (cur_pt ?s p) a 1 = (0, [cs ! unat ?off])"
      using us.fetch_mapped [of M xs "cur_pt ?s p" l1 a 1] M(2,3) o by (simp add: file_open_def)
    have "u_read p a fd 1 io = Some (1, [cs ! unat ?off], io\<lparr>io_sys := ?s'\<rparr>)"
      using c by (simp add: u_read_def M(1) wrap_ret_def)
    moreover have "file_open p a fd f v cs xs l1 ?s'"
      by (rule file_open_moves [OF o M(2)]) (use M(3) off True in simp_all)
    moreover have "take 1 (drop (unat ?off) cs) = [cs ! unat ?off]"
      using True by (simp add: take_Suc_conv_app_nth Cons_nth_drop_Suc [symmetric])
    moreover have "fl_off (g_file ?s' f) = ?off + 1" by (simp add: set_phys_def upd_file_def)
    ultimately show ?thesis using off True by (intro exI [of _ "io\<lparr>io_sys := ?s'\<rparr>"]) simp
  qed
qed

section \<open>Reading a file line by line\<close>

text \<open>
  C39. A process that has a text file of the RAM file system open and calls \<^verbatim>\<open>fgets\<close> until it gives
  \<^verbatim>\<open>NULL\<close> gets strings that put together are the rest of the file, behind a byte put back; each is not
  empty, fits the array with its NUL and has a newline only at its end, and all but the last end in a newline
  or fill the array.  Then the stream is at its end.
\<close>

theorem fgets_reads_file:
  assumes "file_open p a fd f v cs xs l1 (io_sys io)" and "nul_free cs" and "fi_fd fl = fd"
    and "fi_ungot fl \<noteq> 0 \<longrightarrow> fi_ungot_ch fl \<noteq> 0" and "2 \<le> sz" and "sz \<le> int (length buf)"
  shows "\<exists>lines fl' io'. fgets_times (u_read p a) sz (length lines + 1) (Some buf) (Some fl) io =
      Some (map Some lines @ [None], Some fl', io') \<and>
    concat lines = (if fi_ungot fl \<noteq> 0 then [fi_ungot_ch fl] else []) @ drop (unat (fl_off (g_file (io_sys io) f))) cs \<and>
    (\<forall>l\<in>set lines. l \<noteq> [] \<and> int (length l) < sz \<and> 0x0A \<notin> set (butlast l)) \<and>
    (\<forall>l\<in>set (butlast lines). last l = 0x0A \<or> int (length l) = sz - 1) \<and> u_feof (Some fl') = 1"
proof -
  let ?cs = "(if fi_ungot fl \<noteq> 0 then [fi_ungot_ch fl] else []) @ drop (unat (fl_off (g_file (io_sys io) f))) cs"
  have t: "rf.to_read fd p a f v cs xs l1 fl io ?cs" using assms(1,3) by (simp add: rf.to_read_def)
  have nf: "nul_free ?cs" using assms(2,4) by (auto simp: nul_free_def dest: in_set_dropD)
  obtain fl' io' where r: "fgets_times (u_read p a) sz (length (lines_of (nat (sz - 2)) ?cs) + 1) (Some buf) (Some fl) io =
      Some (map Some (lines_of (nat (sz - 2)) ?cs) @ [None], Some fl', io')" "fi_eof fl' = 1"
    using rf.fgets_lines [OF assms(5) t nf assms(6)] by blast
  have n: "int (nat (sz - 2) + 1) = sz - 1" using assms(5) by simp
  show ?thesis
  proof (intro exI conjI)
    show "concat (lines_of (nat (sz - 2)) ?cs) = ?cs" by (rule lines_of_concat)
    show "\<forall>l\<in>set (lines_of (nat (sz - 2)) ?cs). l \<noteq> [] \<and> int (length l) < sz \<and> 0x0A \<notin> set (butlast l)"
    proof
      fix l assume "l \<in> set (lines_of (nat (sz - 2)) ?cs)"
      from lines_of_shape [OF this] have "l \<noteq> []" "length l \<le> nat (sz - 2) + 1" "0x0A \<notin> set (butlast l)" by blast+
      moreover from this(2) have "int (length l) < sz" using n by linarith
      ultimately show "l \<noteq> [] \<and> int (length l) < sz \<and> 0x0A \<notin> set (butlast l)" by blast
    qed
    show "\<forall>l\<in>set (butlast (lines_of (nat (sz - 2)) ?cs)). last l = 0x0A \<or> int (length l) = sz - 1"
    proof
      fix l assume "l \<in> set (butlast (lines_of (nat (sz - 2)) ?cs))"
      from lines_of_cut [OF this] show "last l = 0x0A \<or> int (length l) = sz - 1" using n by auto
    qed
  qed (rule r(1), simp add: u_feof_def r(2))
qed

section \<open>A byte put back\<close>

lemma ungetc_fgetc:
  assumes "fi_ungot f = 0" and "0 \<le> c" and "c < 256"
  shows "u_ungetc c (Some f) = (c, Some (f\<lparr>fi_ungot := 1, fi_ungot_ch := of_int c, fi_eof := 0\<rparr>))"
    and "u_fgetc rd (snd (u_ungetc c (Some f))) io = Some (c, Some (f\<lparr>fi_ungot_ch := of_int c, fi_eof := 0\<rparr>), io)"
  using assms by (simp_all add: u_ungetc_def u_fgetc_def uint_word_of_int)

text \<open>A seek does not drop the byte: what is read next is the byte put back before, not one of the new place.\<close>

lemma fseek_keeps_byte:
  assumes "fi_ungot f \<noteq> 0" and "u_fseek lseek_call (Some f) offset whence io = (0, stream, io1)"
  shows "\<exists>stream1. u_fgetc rd stream io1 = Some (uint (fi_ungot_ch f), stream1, io1)"
  using assms by (auto simp: u_fseek_def u_fgetc_def split: prod.splits if_splits)

text \<open>\<^verbatim>\<open>fread\<close> does not look at the byte put back.\<close>

lemma fread_ignores_byte:
  assumes "fi_ungot f \<noteq> 0" and "u_fread rd True sz n (Some f) io = Some (m, bs, stream, io1)" and "m \<noteq> 0"
  shows "(\<exists>k. rd (fi_fd f) (sz * n) io = Some (k, bs, io1)) \<and> stream = Some f"
  using assms by (auto simp: u_fread_def split: if_splits bind_splits prod.splits)

section \<open>Formatting into a new block\<close>

text \<open>\<^verbatim>\<open>vasprintf\<close> gives the whole text, however long, when there is memory.\<close>

lemma vasprintf_whole:
  assumes "vformat out_text fmt args 0 [] = Some (int (length t), t)" and "nul_free t"
    and "mal 256 = Some blk" and "length blk = 256" and "\<And>b n. \<exists>b'. re b n = Some b' \<and> length b' = n"
  shows "\<exists>buf. u_vasprintf mal re True fmt args = Some (int (length t), Some buf) \<and> cstr_of buf = t"
proof -
  have whole: "vsnprintf buf sz fmt args = Some (int (length t), take (sz - 1) t @ 0 # drop (min (sz - 1) (length t) + 1) buf)"
    if "0 < sz" "sz \<le> length buf" for buf sz
    using vsnprintf_text [OF that, of fmt args] assms(1) by (simp add: u_snprintf_def)
  show ?thesis
  proof (cases "length t < 256")
    case True
    then show ?thesis using whole [of 256 blk] assms(2-4) by (simp add: u_vasprintf_def)
  next
    case False
    let ?b = "take 255 t @ 0 # drop (min 255 (length t) + 1) blk"
    obtain nxt where nxt: "re ?b (length t + 1) = Some nxt" "length nxt = length t + 1" using assms(5) by blast
    have "nat (int (length t)) + 1 = length t + 1" by simp
    then have "u_vasprintf mal re True fmt args =
        Some (int (length t), Some (t @ 0 # drop (length t + 1) nxt))"
      using False whole [of 256 blk] whole [of "length t + 1" nxt] nxt assms(3,4) by (simp add: u_vasprintf_def)
    then show ?thesis using assms(2) by simp
  qed
qed

section \<open>A concrete file\<close>

text \<open>The file \<^verbatim>\<open>a\<close> of \<open>file_fs\<close> with two lines in it, open as descriptor 3 of process 0.\<close>

definition two_lines :: "u8 list" where
  "two_lines = [0x61, 0x0A, 0x62]"

lemma two_lines_fs: "\<exists>r :: ramfs_state. ramfs_inv r \<and> rn_used r 1 \<and> rn_type (rnodes r 1) = VNODE_FILE \<and> contents (rnodes r 1) = two_lines"
proof -
  have n: "1 = vn_data (g_vnode_pool file_fs 1)" using file_fs_create(4) by simp
  have w: "bytes_write 0 (take 4096 two_lines) [] = two_lines"
    by (simp add: bytes_write_def pad_to_def splice_def two_lines_def numeral_eq_Suc)
  obtain r where r: "ramfs_write 1 two_lines 3 0 file_fs = Some (3, r)" "contents (rnodes r 1) = two_lines"
    using ramfs_file_ops(2) [OF file_fs_ok(1) n file_fs_create(2,3), of 3 two_lines 0] w
    using file_fs_create(5) by (auto simp: two_lines_def)
  have "ramfs_step file_fs r"
    by (rule step_write [where v = 1 and off = 0, OF _ r(1)]) (simp add: two_lines_def)
  then have "ramfs_inv r" by (rule ramfs_step_inv [OF _ file_fs_ok(1)])
  moreover have "rn_used r 1 \<and> rn_type (rnodes r 1) = VNODE_FILE"
    using r(1) file_fs_create(2-4) ramfs_write_unfold [OF n file_fs_create(3), of 0 two_lines 3] by (auto split: if_splits)
  ultimately show ?thesis using r(2) by blast
qed

definition file_demo :: "ramfs_state \<Rightarrow> mm_state \<Rightarrow> sys_state" where
  "file_demo r m = (dir_demo m)\<lparr>g_vnode_pool := (\<lambda>_. zero_vnode\<lparr>vn_data := 1, vn_ops := Some RAMFS_OPS\<rparr>),
     rnodes := rnodes r, rn_used := rn_used r, g_file := (\<lambda>_. zero_file\<lparr>fl_vn := Some 1, fl_readable := True\<rparr>)\<rparr>"

lemma file_demo_open:
  assumes "ramfs_inv r" "rn_used r 1" "rn_type (rnodes r 1) = VNODE_FILE" "contents (rnodes r 1) = two_lines"
    and "uvm_inv m xs 0x1000 0x2000" and "umem m 0x2000 USER_BASE \<noteq> None"
  shows "file_open 0 USER_BASE 3 0 1 two_lines xs 0x2000 (file_demo r m)" "fl_off (g_file (file_demo r m) 0) = 0"
proof -
  have "ramfs_inv (file_demo r m)" using assms(1) ramfs_inv_cong [of "file_demo r m" r] by (simp add: file_demo_def)
  moreover have "fd_file (file_demo r m) 0 3 = fd_file (dir_demo m) 0 3" "proc_current (file_demo r m) = proc_current (dir_demo m)"
    "cur_pt (file_demo r m) 0 = 0x1000" "phys (file_demo r m) = m"
    using dir_demo_simps(9,10) by (simp_all add: file_demo_def fd_file_def proc_current_def cur_pt_def)
  ultimately show "file_open 0 USER_BASE 3 0 1 two_lines xs 0x2000 (file_demo r m)"
    using assms(2-6) by (simp add: file_open_def) (simp add: file_demo_def zero_file_def user_range_def)
  show "fl_off (g_file (file_demo r m) 0) = 0" by (simp add: file_demo_def zero_file_def)
qed

theorem fgets_reads_file_witness:
  "\<exists>r m lines fl io. fgets_times (u_read 0 USER_BASE) 64 (length lines + 1) (Some (replicate 64 0))
      (Some \<lparr>fi_fd = 3, fi_eof = 0, fi_err = 0, fi_ungot = 0, fi_ungot_ch = 0\<rparr>) \<lparr>io_sys = file_demo r m, io_errno = 0\<rparr> =
      Some (map Some lines @ [None], Some fl, io) \<and> concat lines = two_lines \<and> u_feof (Some fl) = 1"
proof -
  obtain r :: ramfs_state where r: "ramfs_inv r" "rn_used r 1" "rn_type (rnodes r 1) = VNODE_FILE" "contents (rnodes r 1) = two_lines"
    using two_lines_fs by blast
  obtain m xs where m: "uvm_inv m xs 0x1000 0x2000"
    "\<forall>v. user_va v \<longrightarrow> page_of v = USER_BASE \<longrightarrow> umem m 0x2000 v = Some 0" using grown4_inv by blast
  have u: "umem m 0x2000 USER_BASE \<noteq> None" using m(2) by (simp add: user_va_def page_of_def)
  let ?io = "\<lparr>io_sys = file_demo r m, io_errno = 0\<rparr>"
  let ?f = "\<lparr>fi_fd = 3, fi_eof = 0, fi_err = 0, fi_ungot = 0, fi_ungot_ch = 0\<rparr>"
  have o: "file_open 0 USER_BASE 3 0 1 two_lines xs 0x2000 (io_sys ?io)" using file_demo_open [OF r m(1) u] by simp
  have nf: "nul_free two_lines" by (simp add: two_lines_def)
  have off: "drop (unat (fl_off (g_file (io_sys ?io) 0))) two_lines = two_lines" using file_demo_open(2) [OF r m(1) u] by simp
  obtain lines fl io' where "fgets_times (u_read 0 USER_BASE) 64 (length lines + 1) (Some (replicate 64 0)) (Some ?f) ?io =
      Some (map Some lines @ [None], Some fl, io')" "concat lines = two_lines" "u_feof (Some fl) = 1"
    using fgets_reads_file [OF o nf, of ?f 64 "replicate 64 0"] off by auto
  then show ?thesis by blast
qed

end
