(* ===== verification/Programs_Props.thy ===== *)
theory Programs_Props
  imports User_Programs Stream_Props
begin

text \<open>
  What \<^verbatim>\<open>cat\<close> and \<^verbatim>\<open>cp\<close> copy.  \<open>copier\<close> states what the loop needs of \<^verbatim>\<open>read\<close> and \<^verbatim>\<open>write\<close>; the system
  calls of the kernel on two files of the RAM file system, with the array in the memory of the process, are
  its interpretation.
\<close>

locale copier =
  fixes rd :: "nat \<Rightarrow> 'k \<Rightarrow> (int \<times> 'k) option" and wr :: "nat \<Rightarrow> nat \<Rightarrow> 'k \<Rightarrow> (int \<times> 'k) option"
    and sz :: nat and ok :: "'k \<Rightarrow> bool" and left :: "'k \<Rightarrow> u8 list" and array :: "'k \<Rightarrow> u8 list \<Rightarrow> bool"
    and target :: "'k \<Rightarrow> u8 list" and limit :: nat
  assumes size_pos: "0 < sz"
    and read_chunk: "ok k \<Longrightarrow> \<exists>k'. rd sz k = Some (int (length (take sz (left k))), k') \<and> ok k' \<and>
      array k' (take sz (left k)) \<and> left k' = drop sz (left k) \<and> target k' = target k"
    and write_part: "ok k \<Longrightarrow> array k bs \<Longrightarrow> off + n \<le> length bs \<Longrightarrow> 0 < n \<Longrightarrow> \<exists>k'.
      wr off n k = Some (int (min n (limit - length (target k))), k') \<and> ok k' \<and> array k' bs \<and> left k' = left k \<and>
      target k' = target k @ take (min n (limit - length (target k))) (drop off bs)"
begin

lemma write_out_all:
  assumes "ok k" and "array k bs" and "off \<le> length bs" and "length (target k) + (length bs - off) \<le> limit"
  shows "\<exists>k'. write_out wr off (length bs) k = Some (0, k') \<and> ok k' \<and> left k' = left k \<and> target k' = target k @ drop off bs"
proof (cases "off < length bs")
  case False
  then have "write_out wr off (length bs) k = Some (0, k)" by (subst write_out.simps) simp
  then show ?thesis using False assms by simp
next
  case True
  let ?n = "length bs - off"
  obtain k' where w: "wr off ?n k = Some (int ?n, k')" "ok k'" "left k' = left k" "target k' = target k @ drop off bs"
    using write_part [OF assms(1,2), of off ?n] True assms(4) by (auto simp: min_def)
  have "write_out wr off (length bs) k = write_out wr (length bs) (length bs) k'"
    using True w(1) by (subst write_out.simps) (simp flip: of_nat_diff)
  also have "\<dots> = Some (0, k')" by (subst write_out.simps) simp
  finally show ?thesis using w by blast
qed

lemma copy_loop_all:
  "ok k \<Longrightarrow> length (target k) + length (left k) \<le> limit \<Longrightarrow> \<exists>k'. copy_loop rd wr sz k = Some (0, k') \<and> ok k' \<and>
     left k' = [] \<and> target k' = target k @ left k"
proof (induction "length (left k)" arbitrary: k rule: less_induct)
  case less
  let ?b = "take sz (left k)"
  obtain k1 where r: "rd sz k = Some (int (length ?b), k1)" "ok k1" "array k1 ?b" "left k1 = drop sz (left k)" "target k1 = target k"
    using read_chunk [OF less.prems(1)] by blast
  show ?case
  proof (cases "left k = []")
    case True
    then have "copy_loop rd wr sz k = Some (0, k1)" using r by (subst copy_loop.simps) simp
    then show ?thesis using r True by simp
  next
    case False
    then have pos: "0 < length ?b" using size_pos by simp
    have room: "length (target k1) + (length ?b - 0) \<le> limit" using less.prems(2) r(5) by simp
    obtain k2 where w: "write_out wr 0 (length ?b) k1 = Some (0, k2)" "ok k2" "left k2 = left k1" "target k2 = target k1 @ ?b"
      using write_out_all [OF r(2,3) _ room] by auto
    have step: "copy_loop rd wr sz k = copy_loop rd wr sz k2"
      using pos r(1) w(1) by (subst copy_loop.simps) (simp del: length_take)
    have l: "length (left k2) < length (left k)" using w(3) r(4) False size_pos by simp
    have "length (target k2) + length (left k2) \<le> limit" using less.prems(2) w(3,4) r(4,5) by simp
    from less.hyps [OF l w(2) this] obtain k' where "copy_loop rd wr sz k2 = Some (0, k')" "ok k'" "left k' = []"
      "target k' = target k2 @ left k2" by blast
    then show ?thesis using step w(3,4) r(4,5) by simp
  qed
qed

text \<open>A target that is full: \<^verbatim>\<open>write\<close> answers 0 and the loop asks again, for ever.\<close>

lemma write_out_full:
  assumes "ok k" and "array k bs" and "off < length bs" and "limit \<le> length (target k)"
  shows "write_out wr off (length bs) k = None"
proof -
  have "write_out wr off (length bs) k = Some y \<Longrightarrow> False" for y
  proof -
    assume "write_out wr off (length bs) k = Some y"
    then have "wr = wr \<longrightarrow> length bs = length bs \<longrightarrow> off = off \<longrightarrow> ok k \<longrightarrow> array k bs \<longrightarrow> limit \<le> length (target k) \<longrightarrow> False"
    proof (rule write_out.raw_induct [where P = "\<lambda>f o1 n1 k1 y. f = wr \<longrightarrow> n1 = length bs \<longrightarrow> o1 = off \<longrightarrow>
      ok k1 \<longrightarrow> array k1 bs \<longrightarrow> limit \<le> length (target k1) \<longrightarrow> False", rotated], goal_cases)
      case (1 f w o1 n1 k1 y)
      show ?case
      proof (intro impI)
        assume h: "w = wr" "n1 = length bs" "o1 = off" "ok k1" "array k1 bs" "limit \<le> length (target k1)"
        obtain k' where w: "wr off (length bs - off) k1 = Some (0, k')" "ok k'" "array k' bs" "target k' = target k1"
          using write_part [OF h(4,5), of off "length bs - off"] h(6) assms(3) by auto
        have "f wr off (length bs) k' = Some y" using 1(2) h(1-3) w(1) assms(3) by simp
        then show False using 1(1) w(2-4) h(6) by metis
      qed
    qed
    then show False using assms by blast
  qed
  then show ?thesis by (cases "write_out wr off (length bs) k") blast+
qed

end

section \<open>Two files of the RAM file system\<close>

text \<open>
  Process \<open>p\<close> has the file with the bytes \<open>cs\<close> open for reading and another one, with the
  bytes \<open>ds\<close>, open for writing at its end; its array of 512 bytes is at \<open>a\<close>.
\<close>

abbreviation node_of :: "'a vfs_state_scheme \<Rightarrow> nat \<Rightarrow> nat" where
  "node_of s v \<equiv> vn_data (g_vnode_pool s v)"

definition file_node :: "'a file_state_scheme \<Rightarrow> nat \<Rightarrow> nat \<Rightarrow> u8 list \<Rightarrow> bool" where
  "file_node s f v cs \<longleftrightarrow> fl_vn (g_file s f) = Some v \<and> vn_ops (g_vnode_pool s v) = Some RAMFS_OPS \<and> rn_used s (node_of s v) \<and>
     rn_type (rnodes s (node_of s v)) = VNODE_FILE \<and> contents (rnodes s (node_of s v)) = cs"

definition copy_open ::
    "nat \<Rightarrow> u64 \<Rightarrow> int \<Rightarrow> int \<Rightarrow> nat \<Rightarrow> nat \<Rightarrow> nat \<Rightarrow> nat \<Rightarrow> u64 list \<Rightarrow> u64 \<Rightarrow> u8 list \<Rightarrow> u8 list \<Rightarrow> 'a sys_state_scheme \<Rightarrow> bool" where
  "copy_open p a fin fout fi fo vi vo xs l1 cs ds s \<longleftrightarrow>
     proc_current s = Some p \<and> fd_file s p (of_int fin) = Some fi \<and> fd_file s p (of_int fout) = Some fo \<and> fi \<noteq> fo \<and>
     fl_readable (g_file s fi) \<and> fl_writable (g_file s fo) \<and> ramfs_inv s \<and> node_of s vi \<noteq> node_of s vo \<and>
     file_node s fi vi cs \<and> file_node s fo vo ds \<and> unat (fl_off (g_file s fi)) \<le> length cs \<and>
     unat (fl_off (g_file s fo)) = length ds \<and>
     uvm_inv (phys s) xs (cur_pt s p) l1 \<and> us.mapped l1 (phys s) (unat a) (unat a + 512)"

lemma file_node_length:
  assumes "ramfs_inv s" and "file_node s f v cs" shows "length cs \<le> 4096"
proof -
  have "file_ok (rnodes s (node_of s v))" using assms by (simp add: ramfs_inv_def file_node_def)
  then show ?thesis using assms(2) by (auto simp: file_node_def file_ok_def contents_def)
qed

lemma bytes_write_end: "bytes_write (length ds) bs ds = ds @ bs"
  by (simp add: bytes_write_def splice_def pad_to_def)

lemma write_at_end:
  assumes o: "copy_open p a fin fout fi fo vi vo xs l1 cs ds s" and n: "unat len = length data" "0 < length data" "length data \<le> 256"
  shows "\<exists>s'. file_write (Some fo) data len s = Some (int (min (length data) (4096 - length ds)), s') \<and>
    copy_open p a fin fout fi fo vi vo xs l1 cs (ds @ take (min (length data) (4096 - length ds)) data) s' \<and>
    phys s' = phys s \<and> fl_off (g_file s' fi) = fl_off (g_file s fi)"
proof -
  let ?off = "fl_off (g_file s fo)" and ?n = "node_of s vo" and ?w = "min (length data) (4096 - length ds)"
  note f = o [unfolded copy_open_def file_node_def]
  have fok: "file_ok (rnodes s ?n)" and ty: "rn_type (rnodes s ?n) = VNODE_FILE" and ds: "contents (rnodes s ?n) = ds"
    using f by (simp_all add: ramfs_inv_def)
  have lds: "length ds \<le> 4096" by (rule file_node_length [of s fo vo]) (use o in \<open>simp_all add: copy_open_def\<close>)
  have off: "unat ?off = length ds" using f by simp
  have lim: "unat ?off + unat len < 2 ^ 64" using off lds n by simp
  have nd: "?n = node_of s vo" and used: "rn_used s ?n" using f by simp_all
  obtain s1 where w: "ramfs_write vo data len ?off s = Some (int ?w, s1)"
    using ramfs_file_ops(2) [of s ?n vo len data ?off] f ty n(1) lim off by auto
  have fw: "file_write (Some fo) data len s =
      Some (int ?w, if 0 < ?w then upd_file fo (\<lambda>e. e\<lparr>fl_off := fl_off e + of_nat ?w\<rparr>) s1 else s1)"
    using f w by (simp add: file_write_def vfs_write_def)
  from w nd fok n(1) show ?thesis
  proof (cases rule: ramfs_write_cases)
    case dir
    then show ?thesis using ty by simp
  next
    case past
    then have z: "?w = 0" using off by simp
    show ?thesis using fw past(4) o unfolding z by simp
  next
    case (written k r')
    have k: "k = ?w" using written(5) by simp
    have pos: "0 < ?w" using written(2) off n(2) by simp
    let ?s' = "upd_file fo (\<lambda>e. e\<lparr>fl_off := fl_off e + of_nat ?w\<rparr>) s1"
    have s1: "rnodes s1 = (rnodes s)(?n := r')" "rn_used s1 = rn_used s" by (simp_all add: written(6))
    have inv1: "ramfs_inv s1"
      by (rule ramfs_inv_data [OF _ written(7,9-13) s1]) (use f in simp)
    have s': "rnodes ?s' = rnodes s1" "rn_used ?s' = rn_used s1" "g_vnode_pool ?s' = g_vnode_pool s"
      "phys ?s' = phys s" "cur_pt ?s' p = cur_pt s p" "proc_current ?s' = proc_current s" "fd_file ?s' p x = fd_file s p x"
      "g_file ?s' fi = g_file s fi" "fl_vn (g_file ?s' fo) = fl_vn (g_file s fo)" "fl_writable (g_file ?s' fo) = fl_writable (g_file s fo)"
      "fl_off (g_file ?s' fo) = ?off + of_nat ?w" for x
      using f by (simp_all add: written(6) upd_file_def upd_node_def cur_pt_def proc_current_def fd_file_def)
    have inv: "ramfs_inv ?s'" using inv1 ramfs_inv_cong [OF s'(1,2)] by simp
    have "length ds + ?w \<le> 4096" using lds by simp
    then have o2: "unat (?off + of_nat ?w) = length ds + ?w" using off by (simp add: unat_plus_if' unat_of_nat)
    have ct: "contents r' = ds @ take ?w data" using written(8) unfolding ds off k bytes_write_end by simp
    have "copy_open p a fin fout fi fo vi vo xs l1 cs (ds @ take ?w data) ?s'"
      unfolding copy_open_def file_node_def s' s1 o2 using f inv ct written(13) by simp
    then show ?thesis using fw pos s'(4,8) by (intro exI [of _ ?s']) simp
  qed
qed

lemma copy_open_moves:
  assumes "copy_open p a fin fout fi fo vi vo xs l1 cs ds s" and "uvm_inv M xs (cur_pt s p) l1"
    and "us.mapped l1 M (unat a) (unat a + 512)" and "unat x \<le> length cs"
  shows "copy_open p a fin fout fi fo vi vo xs l1 cs ds (set_phys M (upd_file fi (\<lambda>e. e\<lparr>fl_off := x\<rparr>) s))"
proof -
  let ?s = "set_phys M (upd_file fi (\<lambda>e. e\<lparr>fl_off := x\<rparr>) s)"
  note f = assms(1) [unfolded copy_open_def file_node_def]
  have s: "rnodes ?s = rnodes s" "rn_used ?s = rn_used s" "g_vnode_pool ?s = g_vnode_pool s"
    "proc_current ?s = proc_current s" "fd_file ?s p y = fd_file s p y" "cur_pt ?s p = cur_pt s p" "phys ?s = M"
    "g_file ?s fo = g_file s fo" "fl_vn (g_file ?s fi) = fl_vn (g_file s fi)" "fl_readable (g_file ?s fi) = fl_readable (g_file s fi)"
    "fl_off (g_file ?s fi) = x" for y
    using f by (simp_all add: set_phys_def upd_file_def proc_current_def cur_pt_def fd_file_def)
  have "ramfs_inv ?s" using f ramfs_inv_cong [OF s(1,2)] by simp
  then show ?thesis unfolding copy_open_def file_node_def s using f assms(2-4) by simp
qed

lemma read_part:
  assumes o: "copy_open p a fin fout fi fo vi vo xs l1 cs ds s" and n: "unat len \<le> 256"
  shows "file_read (Some fi) len s = Some (int (length (take (unat len) (drop (unat (fl_off (g_file s fi))) cs))),
      take (unat len) (drop (unat (fl_off (g_file s fi))) cs),
      if 0 < length (take (unat len) (drop (unat (fl_off (g_file s fi))) cs))
      then upd_file fi (\<lambda>e. e\<lparr>fl_off := fl_off (g_file s fi) +
        of_nat (length (take (unat len) (drop (unat (fl_off (g_file s fi))) cs)))\<rparr>) s else s)"
proof -
  let ?off = "fl_off (g_file s fi)"
  let ?g = "take (unat len) (drop (unat ?off) cs)"
  note f = o [unfolded copy_open_def file_node_def]
  have cs: "length cs \<le> 4096" by (rule file_node_length [of s fi vi]) (use o in \<open>simp_all add: copy_open_def\<close>)
  have lim: "unat ?off + unat len < 2 ^ 64" using cs f n by simp
  have r: "ramfs_read s vi len ?off = (int (length ?g), ?g)"
    using ramfs_file_ops(1) [of s "node_of s vi" vi len "replicate (unat len) 0" ?off] f lim by (simp add: bytes_read_def)
  have u: "upd_file fi (\<lambda>e. e\<lparr>fl_off := fl_off e + of_int (int (length ?g))\<rparr>) s =
      upd_file fi (\<lambda>e. e\<lparr>fl_off := ?off + of_nat (length ?g)\<rparr>) s" by (simp add: upd_file_def)
  have "vfs_read (Some vi) len ?off s = Some (int (length ?g), ?g, s)" using f r by (simp add: vfs_read_def)
  then show ?thesis using f u by (simp add: file_read_def del: length_take length_drop of_int_of_nat_eq)
qed

lemma add_min_diff: "(c :: nat) \<le> m \<Longrightarrow> c \<le> l \<Longrightarrow> c + min (m - c) (l - c) = min m l"
  by (cases "m \<le> l") (simp_all only: min.absorb1 min.absorb2 diff_le_mono le_add_diff_inverse nat_le_linear not_le less_imp_le)

lemma take_length_take: "take (length (take c xs)) xs = take c xs"
  by (cases "length xs \<le> c") (simp_all add: min_def)

lemma min_word_256: "m \<le> 512 \<Longrightarrow> min (of_nat m) 256 = (of_nat (min m 256) :: u64)"
  by (auto simp: min_def word_le_nat_alt unat_of_nat)

lemma read_loop:
  "copy_open p a fin fout fi fo vi vo xs l1 cs ds s \<Longrightarrow> us.holds l1 (phys s) a bs \<Longrightarrow> length bs + m \<le> 512 \<Longrightarrow>
   \<exists>s'. read_file_loop p (Some fi) a (of_nat m) (of_nat (length bs)) tot s =
       Some (tot + int (length (take m (drop (unat (fl_off (g_file s fi))) cs))), s') \<and>
     copy_open p a fin fout fi fo vi vo xs l1 cs ds s' \<and>
     us.holds l1 (phys s') a (bs @ take m (drop (unat (fl_off (g_file s fi))) cs)) \<and>
     unat (fl_off (g_file s' fi)) = unat (fl_off (g_file s fi)) + length (take m (drop (unat (fl_off (g_file s fi))) cs))"
proof (induction m arbitrary: bs tot s rule: less_induct)
  case (less m)
  let ?off = "fl_off (g_file s fi)" and ?c = "min m 256"
  let ?g = "take ?c (drop (unat ?off) cs)"
  note f = less.prems(1) [unfolded copy_open_def]
  show ?case
  proof (cases "m = 0")
    case True
    then show ?thesis using less.prems by (subst read_file_loop.simps) simp
  next
    case False
    have mw: "(of_nat m :: u64) \<noteq> 0"
      using False less.prems(3) by (simp add: word_unat_eq_iff unat_of_nat)
    have c: "min (of_nat m) 256 = (of_nat ?c :: u64)" by (rule min_word_256) (use less.prems(3) in simp)
    have uc: "unat (of_nat ?c :: u64) = ?c" by (simp add: unat_of_nat)
    note fr = read_part [OF less.prems(1), of "of_nat ?c", unfolded uc]
    show ?thesis
    proof (cases "?g = []")
      case True
      then have e: "drop (unat ?off) cs = []" using False by (auto simp: min_def split: if_splits)
      have "file_read (Some fi) (of_nat ?c) s = Some (0, [], s)" using fr e by simp
      then have "read_file_loop p (Some fi) a (of_nat m) (of_nat (length bs)) tot s = Some (tot, s)"
        using mw by (subst read_file_loop.simps) (simp add: c)
      then show ?thesis using less.prems e by simp
    next
      case g: False
      define gg where gg: "gg = ?g"
      note fr = fr [folded gg]
      let ?x = "?off + of_nat (length gg)"
      let ?s1 = "upd_file fi (\<lambda>e. e\<lparr>fl_off := ?x\<rparr>) s"
      have lg: "length gg \<le> m" "0 < length gg" "unat ?off + length gg \<le> length cs" using g f by (auto simp: gg)
      have cs: "length cs \<le> 4096" by (rule file_node_length [of s fi vi]) (use f in simp_all)
      have x: "unat ?x = unat ?off + length gg" using lg(3) cs by (simp add: unat_plus_if' unat_of_nat)
      obtain M where M: "copyout (cur_pt s p) (a + of_nat (length bs)) gg (phys s) = (0, M)" "uvm_inv M xs (cur_pt s p) l1"
        "us.mapped l1 M (unat a) (unat a + 512)" "us.holds l1 M a (bs @ gg)"
        using us.put_behind [of "phys s" xs "cur_pt s p" l1 "unat a" "unat a + 512" a bs gg] f less.prems(2,3) lg(1) by auto
      let ?s2 = "set_phys M ?s1"
      have o2: "copy_open p a fin fout fi fo vi vo xs l1 cs ds ?s2"
        by (rule copy_open_moves [OF less.prems(1) M(2,3)]) (use x lg(3) in simp)
      have off2: "fl_off (g_file ?s2 fi) = ?x" by (simp add: set_phys_def upd_file_def)
      have tu: "to_user p (a + of_nat (length bs)) gg ?s1 = (0, ?s2)"
        using M(1) by (simp add: to_user_def upd_file_def cur_pt_def)
      have fr1: "file_read (Some fi) (of_nat ?c) s = Some (int (length gg), gg, ?s1)" using fr lg(2) by (simp only: if_True)
      have w: "(of_nat m :: u64) - of_int (int (length gg)) = of_nat (m - length gg)"
        "(of_nat (length bs) :: u64) + of_int (int (length gg)) = of_nat (length (bs @ gg))"
        using lg(1) by (simp_all add: of_nat_diff)
      have tk: "take (nat (int (length gg))) gg = gg" unfolding nat_int by (rule take_all) (rule order_refl)
      have ng: "\<not> int (length gg) < 0" "int (length gg) \<noteq> 0" using lg(2) by linarith+
      have step: "read_file_loop p (Some fi) a (of_nat m) (of_nat (length bs)) tot s =
          read_file_loop p (Some fi) a (of_nat (m - length gg)) (of_nat (length (bs @ gg))) (tot + int (length gg)) ?s2"
        by (subst read_file_loop.simps) (simp only: mw c fr1 Option.bind.bind_lunit fst_conv snd_conv tk tu prod.case ng w if_True if_False simp_thms)
      have "m - length gg < m" using False lg(2) by simp
      moreover have "us.holds l1 (phys ?s2) a (bs @ gg)" using M(4) by simp
      moreover have "length (bs @ gg) + (m - length gg) \<le> 512" using less.prems(3) lg(1) by simp
      ultimately obtain s' where ih: "read_file_loop p (Some fi) a (of_nat (m - length gg)) (of_nat (length (bs @ gg))) (tot + int (length gg)) ?s2 =
           Some (tot + int (length gg) + int (length (take (m - length gg) (drop (unat ?x) cs))), s')"
        "copy_open p a fin fout fi fo vi vo xs l1 cs ds s'"
        "us.holds l1 (phys s') a ((bs @ gg) @ take (m - length gg) (drop (unat ?x) cs))"
        "unat (fl_off (g_file s' fi)) = unat ?x + length (take (m - length gg) (drop (unat ?x) cs))"
        using less.IH [of "m - length gg" ?s2 "bs @ gg" "tot + int (length gg)"] o2 unfolding off2 by blast
      have all: "take m (drop (unat ?off) cs) = gg @ take (m - length gg) (drop (unat ?x) cs)"
      proof -
        have "take m (drop (unat ?off) cs) = take (length gg) (drop (unat ?off) cs) @ take (m - length gg) (drop (length gg) (drop (unat ?off) cs))"
          using lg(1) take_add [of "length gg" "m - length gg" "drop (unat ?off) cs"] by simp
        moreover have "take (length gg) (drop (unat ?off) cs) = gg" unfolding gg by (rule take_length_take)
        ultimately show ?thesis unfolding x by (simp only: drop_drop add.commute)
      qed
      have len: "tot + int (length gg) + int (length (take (m - length gg) (drop (unat ?x) cs))) =
          tot + int (length (gg @ take (m - length gg) (drop (unat ?x) cs)))" by (simp only: length_append of_nat_add add.assoc)
      have pos: "unat ?x + length (take (m - length gg) (drop (unat ?x) cs)) =
          unat ?off + length (gg @ take (m - length gg) (drop (unat ?x) cs))" unfolding length_append by (simp only: x add.assoc)
      show ?thesis unfolding step all
        using ih(1) [unfolded len] ih(2) ih(3) [unfolded append_assoc] ih(4) [unfolded pos] by blast
    qed
  qed
qed

context user_space begin

lemma fetch_part:
  assumes ok: "ok m" and h: "holds m a bs" and n: "q + n \<le> length bs"
  shows "fetch m (a + of_nat q) n = (0, take n (drop q bs))"
proof (cases "n = 0")
  case True
  then show ?thesis using fetch_mapped [OF ok, of "a + of_nat q" 0] by (simp add: user_range_def)
next
  case False
  have r: "user_range a (length bs)" using h by (simp add: holds_def)
  have q: "unat (a + of_nat q) = unat a + q" using user_range_at(2) [OF r, of q] n False by simp
  have r2: "user_range (a + of_nat q) n" using r q n by (auto simp: user_range_def word_le_nat_alt)
  have b: "byte m (a + of_nat q + of_nat i) = Some (bs ! (q + i))" if "i < n" for i
  proof -
    have "byte m (a + of_nat (q + i)) = Some (bs ! (q + i))" using h that n by (simp add: holds_def del: of_nat_add)
    then show ?thesis by (simp add: add.assoc)
  qed
  then have "fetch m (a + of_nat q) n = (0, map (\<lambda>i. the (byte m (a + of_nat q + of_nat i))) [0..<n])"
    by (intro fetch_mapped [OF ok r2]) simp
  moreover have "map (\<lambda>i. the (byte m (a + of_nat q + of_nat i))) [0..<n] = take n (drop q bs)"
    using b n by (intro nth_equalityI) simp_all
  ultimately show ?thesis by simp
qed

end

lemma write_loop:
  "copy_open p a fin fout fi fo vi vo xs l1 cs ds s \<Longrightarrow> us.holds l1 (phys s) a bs \<Longrightarrow> pos + q + m \<le> length bs \<Longrightarrow> length bs \<le> 512 \<Longrightarrow>
   \<exists>s'. write_file_loop p (Some fo) (a + of_nat pos) (of_nat m) (of_nat q) tot s =
       Some (tot + int (min m (4096 - length ds)), s') \<and>
     copy_open p a fin fout fi fo vi vo xs l1 cs (ds @ take (min m (4096 - length ds)) (drop (pos + q) bs)) s' \<and>
     phys s' = phys s \<and> fl_off (g_file s' fi) = fl_off (g_file s fi)"
proof (induction m arbitrary: q tot ds s rule: less_induct)
  case (less m)
  let ?c = "min m 256" and ?L = "4096 - length ds"
  let ?d = "take ?c (drop (pos + q) bs)"
  note f = less.prems(1) [unfolded copy_open_def]
  show ?case
  proof (cases "m = 0")
    case True
    then show ?thesis using less.prems by (subst write_file_loop.simps) simp
  next
    case False
    have mw: "(of_nat m :: u64) \<noteq> 0" using False less.prems(3,4) by (simp add: word_unat_eq_iff unat_of_nat)
    have c: "min (of_nat m) 256 = (of_nat ?c :: u64)" by (rule min_word_256) (use less.prems(3,4) in simp)
    have uc: "unat (of_nat ?c :: u64) = ?c" by (simp add: unat_of_nat)
    have ld: "length ?d = ?c" using less.prems(3) by simp
    have at: "a + of_nat pos + of_nat q = a + of_nat (pos + q)" by (simp add: add.assoc)
    have ci: "copyin (phys s) (cur_pt s p) (a + of_nat pos + of_nat q) ?c = (0, ?d)"
      unfolding at by (rule us.fetch_part [of _ xs _ l1]) (use f less.prems(2,3) in simp_all)
    obtain s1 where w: "file_write (Some fo) ?d (of_nat ?c) s = Some (int (min ?c ?L), s1)"
      "copy_open p a fin fout fi fo vi vo xs l1 cs (ds @ take (min ?c ?L) ?d) s1" "phys s1 = phys s"
      "fl_off (g_file s1 fi) = fl_off (g_file s fi)"
      using write_at_end [OF less.prems(1), of "of_nat ?c" ?d] False unfolding uc ld by auto
    note loop = write_file_loop.simps [of p "Some fo" "a + of_nat pos" "of_nat m" "of_nat q" tot s, unfolded c uc ci]
    show ?thesis
    proof (cases "?L < ?c")
      case True
      then have e: "min ?c ?L = ?L" "min m ?L = ?L" by simp_all
      have "write_file_loop p (Some fo) (a + of_nat pos) (of_nat m) (of_nat q) tot s = Some (tot + int ?L, s1)"
        unfolding loop using True mw w(1) by (simp add: e del: of_nat_diff)
      moreover have "take (min ?c ?L) ?d = take (min m ?L) (drop (pos + q) bs)" using True by simp
      ultimately show ?thesis using w(2-4) by (simp add: e(2))
    next
      case full: False
      then have e: "min ?c ?L = ?c" by (simp only: not_less min.absorb1)
      have k: "(of_nat m - of_nat ?c :: u64) = of_nat (m - ?c)" "(of_nat q + of_nat ?c :: u64) = of_nat (q + ?c)"
        by (simp_all add: of_nat_diff)
      have step: "write_file_loop p (Some fo) (a + of_nat pos) (of_nat m) (of_nat q) tot s =
          write_file_loop p (Some fo) (a + of_nat pos) (of_nat (m - ?c)) (of_nat (q + ?c)) (tot + int ?c) s1"
        unfolding loop using mw w(1) [unfolded e] k by simp
      have w2: "copy_open p a fin fout fi fo vi vo xs l1 cs (ds @ ?d) s1" using w(2) unfolding e by simp
      have lt: "m - ?c < m" "pos + (q + ?c) + (m - ?c) \<le> length bs" using False less.prems(3) by simp_all
      have h: "us.holds l1 (phys s1) a bs" using less.prems(2) w(3) by simp
      have l2: "4096 - length (ds @ ?d) = ?L - ?c" using ld by simp
      obtain s' where ih: "write_file_loop p (Some fo) (a + of_nat pos) (of_nat (m - ?c)) (of_nat (q + ?c)) (tot + int ?c) s1 =
          Some (tot + int ?c + int (min (m - ?c) (?L - ?c)), s')"
        "copy_open p a fin fout fi fo vi vo xs l1 cs ((ds @ ?d) @ take (min (m - ?c) (?L - ?c)) (drop (pos + (q + ?c)) bs)) s'"
        "phys s' = phys s1" "fl_off (g_file s' fi) = fl_off (g_file s1 fi)"
        using less.IH [OF lt(1) w2 h lt(2) less.prems(4), of "tot + int ?c"] unfolding l2 by blast
      have n: "?c + min (m - ?c) (?L - ?c) = min m ?L" by (rule add_min_diff) (use full in \<open>simp_all only: not_less min.cobounded1\<close>)
      have "take (min m ?L) (drop (pos + q) bs) = ?d @ take (min (m - ?c) (?L - ?c)) (drop (pos + (q + ?c)) bs)"
        unfolding n [symmetric] take_add by (simp add: ac_simps)
      moreover have "tot + int ?c + int (min (m - ?c) (?L - ?c)) = tot + int (min m ?L)" unfolding n [symmetric] by simp
      ultimately show ?thesis unfolding step
        using ih(1,2) ih(3) [unfolded w(3)] ih(4) [unfolded w(4)] unfolding append_assoc by metis
    qed
  qed
qed

section \<open>The interpretation\<close>

interpretation cp: copier "u_read_into a fin" "u_write_from a fout" 512
    "\<lambda>io. \<exists>ds. copy_open p a fin fout fi fo vi vo xs l1 cs ds (io_sys io)"
    "\<lambda>io. drop (unat (fl_off (g_file (io_sys io) fi))) cs" "\<lambda>io bs. length bs \<le> 512 \<and> us.holds l1 (phys (io_sys io)) a bs"
    "\<lambda>io. contents (rnodes (io_sys io) (node_of (io_sys io) vo))" 4096
  for p a fin fout fi fo vi vo xs l1 cs
proof
  show "0 < (512 :: nat)" by simp
next
  fix io :: "'a sys_state_scheme io"
  let ?s = "io_sys io"
  let ?g = "take 512 (drop (unat (fl_off (g_file ?s fi))) cs)"
  assume "\<exists>ds. copy_open p a fin fout fi fo vi vo xs l1 cs ds ?s"
  then obtain ds where o: "copy_open p a fin fout fi fo vi vo xs l1 cs ds ?s" by blast
  have nil: "us.holds l1 (phys ?s) a []" by (simp add: us.holds_def user_range_def)
  obtain s' where r: "read_file_loop p (Some fi) a (of_nat 512) (of_nat (length ([] :: u8 list))) 0 ?s = Some (0 + int (length ?g), s')"
    "copy_open p a fin fout fi fo vi vo xs l1 cs ds s'" "us.holds l1 (phys s') a ([] @ ?g)"
    "unat (fl_off (g_file s' fi)) = unat (fl_off (g_file ?s fi)) + length ?g"
    using read_loop [OF o nil, of 512 0] by auto
  have "sys_read (of_int fin) a (of_nat 512) ?s = Some (int (length ?g), s')"
    using r(1) o by (simp add: sys_read_def copy_open_def)
  then have rd: "u_read_into a fin 512 io = Some (int (length ?g), io\<lparr>io_sys := s'\<rparr>)"
    by (simp add: u_read_into_def wrap_ret_def del: length_take length_drop)
  have "contents (rnodes s' (node_of s' vo)) = contents (rnodes ?s (node_of ?s vo))"
    using o r(2) by (simp add: copy_open_def file_node_def)
  moreover have "drop (unat (fl_off (g_file s' fi))) cs = drop 512 (drop (unat (fl_off (g_file ?s fi))) cs)"
    unfolding r(4) by (simp add: add.commute min_def)
  ultimately show "\<exists>io'. u_read_into a fin 512 io = Some (int (length ?g), io') \<and>
      (\<exists>ds. copy_open p a fin fout fi fo vi vo xs l1 cs ds (io_sys io')) \<and>
      (length ?g \<le> 512 \<and> us.holds l1 (phys (io_sys io')) a ?g) \<and>
      drop (unat (fl_off (g_file (io_sys io') fi))) cs = drop 512 (drop (unat (fl_off (g_file ?s fi))) cs) \<and>
      contents (rnodes (io_sys io') (node_of (io_sys io') vo)) = contents (rnodes ?s (node_of ?s vo))"
    using rd r(2,3) by (intro exI [of _ "io\<lparr>io_sys := s'\<rparr>"]) (simp, blast)
next
  fix io :: "'a sys_state_scheme io" and bs :: "u8 list" and off n :: nat
  let ?s = "io_sys io"
  let ?t = "contents (rnodes ?s (node_of ?s vo))"
  let ?w = "min n (4096 - length ?t)"
  assume "\<exists>ds. copy_open p a fin fout fi fo vi vo xs l1 cs ds ?s"
  then obtain ds where o: "copy_open p a fin fout fi fo vi vo xs l1 cs ds ?s" by blast
  have t: "?t = ds" using o by (simp add: copy_open_def file_node_def)
  assume h: "length bs \<le> 512 \<and> us.holds l1 (phys ?s) a bs" and n: "off + n \<le> length bs" "0 < n"
  have n0: "off + 0 + n \<le> length bs" using n by simp
  obtain s' where w: "write_file_loop p (Some fo) (a + of_nat off) (of_nat n) (of_nat 0) 0 ?s = Some (0 + int ?w, s')"
    "copy_open p a fin fout fi fo vi vo xs l1 cs (ds @ take ?w (drop (off + 0) bs)) s'" "phys s' = phys ?s"
    "fl_off (g_file s' fi) = fl_off (g_file ?s fi)"
    using write_loop [OF o conjunct2 [OF h] n0 conjunct1 [OF h], of 0] unfolding t by blast
  have "sys_write (of_int fout) (a + of_nat off) (of_nat n) ?s = Some (int ?w, s')"
    using w(1) o by (simp add: sys_write_def copy_open_def del: of_nat_min)
  then have wr: "u_write_from a fout off n io = Some (int ?w, io\<lparr>io_sys := s'\<rparr>)"
    by (simp add: u_write_from_def wrap_ret_def del: of_nat_min)
  have "contents (rnodes s' (node_of s' vo)) = ?t @ take ?w (drop off bs)"
    using w(2) unfolding t by (simp add: copy_open_def file_node_def)
  then show "\<exists>io'. u_write_from a fout off n io = Some (int ?w, io') \<and>
      (\<exists>ds. copy_open p a fin fout fi fo vi vo xs l1 cs ds (io_sys io')) \<and>
      (length bs \<le> 512 \<and> us.holds l1 (phys (io_sys io')) a bs) \<and>
      drop (unat (fl_off (g_file (io_sys io') fi))) cs = drop (unat (fl_off (g_file ?s fi))) cs \<and>
      contents (rnodes (io_sys io') (node_of (io_sys io') vo)) = ?t @ take ?w (drop off bs)"
    using wr w(2-4) h by (intro exI [of _ "io\<lparr>io_sys := s'\<rparr>"]) (simp, blast)
qed

section \<open>Copying a file\<close>

lemma copy_open_target:
  assumes "copy_open p a fin fout fi fo vi vo xs l1 cs ds s"
  shows "contents (rnodes s (node_of s vo)) = ds"
  using assms by (simp add: copy_open_def file_node_def)

text \<open>
  C40. \<^verbatim>\<open>cp\<close> copies a file of the RAM file system: when the process has the source open at some
  position and the target open at its end (an empty one, after \<^verbatim>\<open>O_TRUNC\<close>), and the rest of the source has room
  in the 4096 bytes of the target, the loop ends with 0 and has appended to the target just the bytes that were
  left of the source, which is as it was; both descriptors are closed after it.
\<close>

theorem cp_copies_file:
  fixes io :: "'a sys_state_scheme io"
  assumes o: "copy_open p a fin fout fi fo vi vo xs l1 cs ds (io_sys io)"
    and room: "length ds + length (drop (unat (fl_off (g_file (io_sys io) fi))) cs) \<le> 4096"
  shows "\<exists>io'. copy_bytes (c\<lparr>c_read := u_read_into a, c_write := u_write_from a\<rparr>) fin fout io =
      Some (0, c_close c fout (c_close c fin io')) \<and>
    copy_open p a fin fout fi fo vi vo xs l1 cs (ds @ drop (unat (fl_off (g_file (io_sys io) fi))) cs) (io_sys io')"
proof -
  have t: "contents (rnodes (io_sys io) (node_of (io_sys io) vo)) = ds" by (rule copy_open_target [OF o])
  obtain io' ds' where l: "copy_loop (u_read_into a fin) (u_write_from a fout) 512 io = Some (0, io')"
    "copy_open p a fin fout fi fo vi vo xs l1 cs ds' (io_sys io')"
    "contents (rnodes (io_sys io') (node_of (io_sys io') vo)) = ds @ drop (unat (fl_off (g_file (io_sys io) fi))) cs"
    using cp.copy_loop_all [of p a fin fout fi fo vi vo xs l1 cs io] o room unfolding t by blast
  have "ds' = ds @ drop (unat (fl_off (g_file (io_sys io) fi))) cs" using copy_open_target [OF l(2)] l(3) by simp
  then show ?thesis using l(1,2) by (intro exI [of _ io']) (simp add: copy_bytes_def)
qed

text \<open>Process 0 with two lines in node 1, open as descriptor 3, and the empty file of node 2 as descriptor 4.\<close>

definition copy_fs :: ramfs_state where
  "copy_fs = root_fs\<lparr>rnodes := (rnodes root_fs)
     (1 := zero_node\<lparr>rn_type := VNODE_FILE, rn_size := 3, rn_data := two_lines @ replicate 4093 0\<rparr>,
      2 := zero_node\<lparr>rn_type := VNODE_FILE, rn_data := replicate 4096 0\<rparr>), rn_used := (\<lambda>i. i \<le> 2)\<rparr>"

definition copy_demo :: "mm_state \<Rightarrow> sys_state" where
  "copy_demo m = (dir_demo m)\<lparr>g_vnode_pool := (\<lambda>v. zero_vnode\<lparr>vn_data := v, vn_ops := Some RAMFS_OPS\<rparr>),
     rnodes := rnodes copy_fs, rn_used := rn_used copy_fs,
     g_procs := (\<lambda>_. zero_proc\<lparr>pr_pagetable := 0x1000, pr_ofile := [3 \<mapsto> 0, 4 \<mapsto> 1]\<rparr>),
     g_file := (\<lambda>f. zero_file\<lparr>fl_vn := Some (f + 1), fl_readable := True, fl_writable := True\<rparr>)\<rparr>"

lemma copy_fs_inv: "ramfs_inv copy_fs"
proof -
  have f: "file_ok (rnodes root_fs 0)" using root_fs_ok(1) by (simp add: ramfs_inv_def root_fs_used)
  have "file_ok (rnodes copy_fs n)" if n: "rn_used copy_fs n" for n
  proof -
    have "n = 0 \<or> n = 1 \<or> n = 2" using n by (auto simp: copy_fs_def)
    moreover have "two_lines ! i = 0" if "3 \<le> i" "i < length two_lines" for i using that by (simp add: two_lines_def)
    ultimately show ?thesis
      using f by (auto simp: copy_fs_def file_ok_def zero_node_def two_lines_def nth_append nth_Cons split: nat.splits)
  qed
  moreover have "dir_ok copy_fs d []" if "is_dir copy_fs d" for d
  proof -
    have "d = 0" using that by (auto simp: copy_fs_def is_dir_def split: if_splits)
    then show ?thesis using root_fs_ok(4) by (simp add: copy_fs_def dir_ok_def dir_chain_def)
  qed
  ultimately show ?thesis unfolding ramfs_inv_def by blast
qed

lemma copy_demo_open:
  assumes "uvm_inv m xs 0x1000 0x2000" and "us.mapped 0x2000 m (unat USER_BASE) (unat USER_BASE + 512)"
  shows "copy_open 0 USER_BASE 3 4 0 1 1 2 xs 0x2000 two_lines [] (copy_demo m)" "fl_off (g_file (copy_demo m) 0) = 0"
proof -
  have "ramfs_inv (copy_demo m)" using copy_fs_inv ramfs_inv_cong [of "copy_demo m" copy_fs] by (simp add: copy_demo_def)
  moreover have "proc_current (copy_demo m) = Some 0" "fd_file (copy_demo m) 0 3 = Some 0" "fd_file (copy_demo m) 0 4 = Some 1"
    "cur_pt (copy_demo m) 0 = 0x1000" "phys (copy_demo m) = m"
    using dir_demo_simps(1) by (simp_all add: copy_demo_def fd_file_def proc_current_def cur_pt_def)
  ultimately show "copy_open 0 USER_BASE 3 4 0 1 1 2 xs 0x2000 two_lines [] (copy_demo m)"
    using assms by (simp add: copy_open_def file_node_def) (simp add: copy_demo_def copy_fs_def zero_file_def zero_node_def contents_def two_lines_def)
  show "fl_off (g_file (copy_demo m) 0) = 0" by (simp add: copy_demo_def zero_file_def)
qed

theorem cp_copies_file_witness:
  "\<forall>c :: (sys_state io, unit) calls. \<exists>m xs io'. copy_bytes (c\<lparr>c_read := u_read_into USER_BASE, c_write := u_write_from USER_BASE\<rparr>) 3 4
      \<lparr>io_sys = copy_demo m, io_errno = 0\<rparr> = Some (0, c_close c 4 (c_close c 3 io')) \<and>
    copy_open 0 USER_BASE 3 4 0 1 1 2 xs 0x2000 two_lines two_lines (io_sys io')"
proof
  fix c :: "(sys_state io, unit) calls"
  obtain m xs where m: "uvm_inv m xs 0x1000 0x2000"
    "\<forall>v. user_va v \<longrightarrow> page_of v = USER_BASE \<longrightarrow> umem m 0x2000 v = Some 0" using grown4_inv by blast
  have mp: "us.mapped 0x2000 m (unat USER_BASE) (unat USER_BASE + 512)"
    unfolding us.mapped_def
  proof (intro conjI allI impI)
    fix v :: u64 assume v: "unat USER_BASE \<le> unat v" "unat v < unat USER_BASE + 512"
    have r: "user_range USER_BASE 512" by (simp add: user_range_def)
    have i: "v = USER_BASE + of_nat (unat v - 0x400000)" "unat v - 0x400000 < 512" using v by simp_all
    have uv: "user_va v" using user_range_at(1) [OF r i(2)] i(1) by simp
    have "unat (page_of v) = unat USER_BASE"
      using v mod_mult_self3 [of 1024 4096 "unat v - 0x400000"] by (simp add: unat_page_of)
    then have "page_of v = USER_BASE" by (simp only: word_unat_eq_iff)
    then show "umem m 0x2000 v \<noteq> None" using m(2) uv by simp
  qed simp_all
  let ?io = "\<lparr>io_sys = copy_demo m, io_errno = 0\<rparr>"
  have o: "copy_open 0 USER_BASE 3 4 0 1 1 2 xs 0x2000 two_lines [] (io_sys ?io)" using copy_demo_open(1) [OF m(1) mp] by simp
  have "drop (unat (fl_off (g_file (io_sys ?io) 0))) two_lines = two_lines" using copy_demo_open(2) [OF m(1) mp] by simp
  then obtain io' where r: "copy_bytes (c\<lparr>c_read := u_read_into USER_BASE, c_write := u_write_from USER_BASE\<rparr>) 3 4 ?io =
      Some (0, c_close c 4 (c_close c 3 io'))" "copy_open 0 USER_BASE 3 4 0 1 1 2 xs 0x2000 two_lines two_lines (io_sys io')"
    using cp_copies_file [OF o, of c] by (auto simp: two_lines_def)
  then show "\<exists>m xs io'. copy_bytes (c\<lparr>c_read := u_read_into USER_BASE, c_write := u_write_from USER_BASE\<rparr>) 3 4
      \<lparr>io_sys = copy_demo m, io_errno = 0\<rparr> = Some (0, c_close c 4 (c_close c 3 io')) \<and>
    copy_open 0 USER_BASE 3 4 0 1 1 2 xs 0x2000 two_lines two_lines (io_sys io')"
    by blast
qed

text \<open>A target that is full makes \<^verbatim>\<open>cp\<close> and \<^verbatim>\<open>cat\<close> call \<^verbatim>\<open>write\<close> for ever.\<close>

lemma full_file_hangs:
  assumes "copy_open p a fin fout fi fo vi vo xs l1 cs ds (io_sys io)" and "length ds = 4096"
    and "us.holds l1 (phys (io_sys io)) a bs" and "off < length bs" and "length bs \<le> 512"
  shows "write_out (u_write_from a fout) off (length bs) io = None"
  by (rule cp.write_out_full [of p a fin fout fi fo vi vo xs l1 cs io])
    (use assms copy_open_target [OF assms(1)] in auto)

end
