(* ===== verification/Spec2Isabelle.thy ===== *)
theory Spec2Isabelle
  imports Vm_Props Ramfs_Props Vfs_Props Vfs_Walk Exec_Props Boot_Props Fat_Data Stdlib_Props User_Props Malloc_Props User_Brk Fdt_Thms Firmware_Props Virtio_Thms Shell_Thms Programs_Props Kernel_Thms
begin

text \<open>
  A verification development for OS-Agent-Lab, the RISC-V operating system under
  \<^verbatim>\<open>src/GPT-5.2-Codex/code\<close>: a firmware that loads the kernel from a virtio disk (\<^verbatim>\<open>firmware/\<close>), the
  kernel (\<^verbatim>\<open>kernel/\<close>) and the C library and shell of its user programs (\<^verbatim>\<open>user/\<close>).  Paths below are
  relative to that directory.  Every definition that models code is translated from the C source
  with its branches and return values; the theorems are about these definitions.

  \<^bold>\<open>The parts of the system and how they meet.\<close>
  The machine starts \<^verbatim>\<open>firmware_main\<close>, which reads the device tree of the board, probes the virtio
  disks, loads the ELF image of the kernel and hands over with a \<open>struct bootinfo\<close>.  \<^verbatim>\<open>boot.c\<close> builds
  the first page table, \<^verbatim>\<open>main.c\<close> initialises the page allocator, the kernel's tables and the file
  systems and starts the first process.  From then on the kernel is entered by traps: \<^verbatim>\<open>trap.c\<close>
  dispatches system calls (\<^verbatim>\<open>syscall.c\<close>), timer interrupts and faults; system calls work on processes
  (\<^verbatim>\<open>proc.c\<close>), open files (\<^verbatim>\<open>file.c\<close>), the virtual file system (\<^verbatim>\<open>vfs.c\<close>) with its two file systems
  (\<^verbatim>\<open>ramfs.c\<close>, \<^verbatim>\<open>fat32.c\<close>) and user memory (\<^verbatim>\<open>vm.c\<close>), which takes pages from \<^verbatim>\<open>mm.c\<close>.  FAT32 reads and
  writes sectors through \<^verbatim>\<open>blk.c\<close> and the driver \<^verbatim>\<open>virtio_blk.c\<close>.  User programs reach the kernel
  through the wrappers of \<^verbatim>\<open>user/lib\<close> and share its heap, string, number and output functions; the
  shell \<^verbatim>\<open>user/src/sh.c\<close> is one of them.

  \<^bold>\<open>Theories of the model, in the order of the code's layers.\<close>
  \<^item> \<open>Kernel_Prelude\<close>: words, C integers and strings, error numbers, little-endian codecs, first-free
    scans, lists indexed by the tables of the kernel, and the fact collections all proofs share.
  \<^item> \<open>Kstring\<close> (\<^verbatim>\<open>kernel/string.c\<close>, memory as a map from addresses to bytes), \<open>Kprintf\<close>
    (\<^verbatim>\<open>kernel/printf.c\<close>, \<^verbatim>\<open>kernel/log.c\<close>).
  \<^item> \<open>Mm\<close> (\<^verbatim>\<open>kernel/mm.c\<close>), \<open>Vm\<close> (\<^verbatim>\<open>kernel/vm.c\<close>: the Sv39 tables in physical memory), \<open>User_Space\<close> (the
    interface of user memory, a locale).
  \<^item> \<open>Blk\<close> (\<^verbatim>\<open>kernel/blk.c\<close> over an abstract disk), \<open>Virtio\<close> (\<^verbatim>\<open>kernel/virtio_blk.c\<close>, \<^verbatim>\<open>firmware/virtio.c\<close>, and
    \<^verbatim>\<open>blk.c\<close> over the driver).
  \<^item> \<open>Vnode\<close> (\<^verbatim>\<open>kernel/include/vfs.h\<close>), \<open>Ramfs\<close> (\<^verbatim>\<open>kernel/ramfs.c\<close>), \<open>Fat32_Vol\<close>, \<open>Fat32_Dir\<close>, \<open>Fat32\<close>
    (\<^verbatim>\<open>kernel/fat32.c\<close>: the table and its chains, directories and names, the operations on vnodes), \<open>Vfs\<close>
    (\<^verbatim>\<open>kernel/vfs.c\<close>: mounts, paths, dispatch), \<open>File\<close> (\<^verbatim>\<open>kernel/file.c\<close>).
  \<^item> \<open>Device\<close> (\<^verbatim>\<open>kernel/uart.c\<close>, \<^verbatim>\<open>kernel/timer.c\<close>), \<open>Elf\<close> (\<^verbatim>\<open>kernel/elf.c\<close>), \<open>Proc\<close> (\<^verbatim>\<open>kernel/proc.c\<close>), \<open>Syscall\<close>
    (\<^verbatim>\<open>kernel/syscall.c\<close>), \<open>Trap\<close> (\<^verbatim>\<open>kernel/trap.c\<close>), \<open>Boot\<close> (\<^verbatim>\<open>kernel/boot.c\<close>, \<^verbatim>\<open>kernel/main.c\<close>).
  \<^item> \<open>Fdt\<close> (\<^verbatim>\<open>kernel/fdt.c\<close>, \<^verbatim>\<open>firmware/fdt.c\<close>), \<open>Firmware\<close> (\<^verbatim>\<open>firmware/main.c\<close>, \<^verbatim>\<open>firmware/disk.c\<close>,
    \<^verbatim>\<open>firmware/mtrap.c\<close>, \<^verbatim>\<open>kernel/sbi.c\<close>).
  \<^item> \<open>User_String\<close> (\<^verbatim>\<open>user/lib/string.c\<close>, \<^verbatim>\<open>ctype.c\<close>), \<open>User_Stdlib\<close> (\<^verbatim>\<open>stdlib.c\<close>), \<open>User_Printf\<close> (\<^verbatim>\<open>printf.c\<close>),
    \<open>User_Match\<close> (\<^verbatim>\<open>fnmatch.c\<close>, \<^verbatim>\<open>libgen.c\<close>, \<^verbatim>\<open>getopt.c\<close>), \<open>User_Malloc\<close> (\<^verbatim>\<open>malloc.c\<close>, \<open>sbrk\<close> of \<^verbatim>\<open>syscall.c\<close>),
    \<open>User_Brk\<close> (that \<open>sbrk\<close> against the kernel's system call), \<open>User_Shell\<close> (\<^verbatim>\<open>user/src/sh.c\<close>), \<open>User_Programs\<close> (\<open>cat\<close>, \<open>cp\<close>, \<open>ls\<close>,
    \<open>rm\<close>, \<open>echo\<close>, \<open>mkdir\<close> and \<open>touch\<close> of \<^verbatim>\<open>user/src\<close>),
    \<open>User_Calls\<close> (\<open>read\<close>, \<open>write\<close>, \<open>getdents64\<close> and \<open>errno\<close> of \<^verbatim>\<open>syscall.c\<close>), \<open>User_Dirent\<close> (\<^verbatim>\<open>dirent.c\<close>), \<open>User_Stream\<close>
    (\<^verbatim>\<open>stdio_file.c\<close>).

  State and operations correspond as follows.  A struct of the code is a record with its fields, a
  table of structs a function from indices, and a pointer into a table the index (an \<open>option\<close> where
  it may be \<open>NULL\<close>).  The records of the file-system layers extend each other: the volume, the file
  systems, the file table, physical memory, processes and the console are one state, so that a
  function of one layer is used unchanged by the next.  A function of the code returns its value and the
  new state; the negative error numbers are \<open>int\<close> values, as in the code.  Machine integers are words of
  their width and wrap; the comments at the definitions say where a C \<open>int\<close> is a mathematical integer and
  why no overflow is possible there.  The counter of pids is an \<open>int\<close> that can overflow: \<^verbatim>\<open>int_inc\<close> is its
  increment, and the properties that need pids to be distinct say so.

  \<^bold>\<open>Loops.\<close>
  Loops over a counter are structural recursion or \<open>function\<close> with a measure (the rest of a range, the
  bytes left).  Loops that need not end, because a table may hold a cycle, a ring may be
  damaged or a process may wait for ever, are \<^verbatim>\<open>partial_function (option)\<close>: \<open>None\<close> is the run that does
  not come back, and the properties state \<open>Some\<close> where the code does return (\<^verbatim>\<open>alloc_cluster_takes_free\<close>,
  \<^verbatim>\<open>ensure_chain_extends\<close>, \<^verbatim>\<open>free_chain_returns\<close>, \<^verbatim>\<open>malloc_sound\<close>, \<^verbatim>\<open>qsort_permutes\<close>, \<^verbatim>\<open>fdt_reads_tree\<close>).
  Fuel occurs only where the code itself counts: the depth of scripts in \<open>exec\<close>, the 10000000 looks
  of the firmware at the used ring, the rounds of the scheduler.  \<open>sleep\<close> and \<open>yield\<close> are
  transitions of the step relation of \<open>Proc\<close> and \<open>Kernel_Run\<close>: one step is what happens between two switches.

  \<^bold>\<open>What the lemmas show.\<close>
  \<^item> Pages and address spaces (\<open>Mm\<close>, \<open>Vm_Spec\<close>, \<open>Vm_Ops\<close>, \<open>Vm_Copy\<close>, \<open>Vm_User\<close>, \<open>Vm_Props\<close>): the free list is a
    stack of distinct pages; a page table in memory is a map from user addresses to frames that every
    operation changes exactly as it should, and user copies read and write through it.
  \<^item> File systems (\<open>Ramfs_Spec\<close>, \<open>Ramfs_Props\<close>, \<open>Fat_Entries\<close>, \<open>Fat_Chains\<close>, \<open>Fat_Data\<close>, \<open>Vfs_Props\<close>, \<open>Vfs_Walk\<close>,
    \<open>Frame\<close>): the directories of the node pool stay a tree below the root, a file is a byte string, a FAT chain is a list of clusters that
    allocation extends and freeing clears, reads and writes act on the concatenation of the clusters,
    a path lookup reaches what the tree of nodes says for the names of the path, and the path of \<open>getcwd\<close>
    leads back to its directory; \<open>Frame\<close> shows that no call touches what is not its own.
  \<^item> The kernel as a whole (\<open>Kernel_Inv\<close>, \<open>Kernel_Calls\<close>, \<open>Kernel_Props\<close>, \<open>Kernel_Run\<close>, \<open>Sched\<close>, \<open>Exec_Props\<close>,
    \<open>Kernel_Thms\<close>): an invariant of processes, descriptors and open files that every step of the
    machine keeps, bounded waiting, and fork, exit, wait and exec as their callers see them.
  \<^item> Start-up (\<open>Boot_Props\<close>, \<open>Fdt_Props\<close>, \<open>Fdt_Tree\<close>, \<open>Fdt_Scan\<close>, \<open>Fdt_Thms\<close>, \<open>Firmware_Props\<close>): the address map
    of the first table, a device tree read back from its flattened form by both parsers (one
    proof over a locale of token laws, interpreted on each), and the way from reset to the kernel, which
    writes nothing but the places the kernel is loaded to and so leaves the firmware itself intact.
  \<^item> The disk driver (\<open>Virtio_Props\<close>): against a device that serves its queue only as the virtio standard says (the status
    set in order, \<open>VERSION_1\<close> agreed and the queue ready, unless it is a legacy device), every request is
    answered and the block layer is the abstract disk of \<open>Blk\<close>, on which the FAT proofs rest.
  \<^item> User programs (\<open>User_Props\<close>, \<open>Stdlib_Props\<close>, \<open>Malloc_Ring\<close>, \<open>Malloc_Heap\<close>, \<open>Malloc_Props\<close>): patterns, moves,
    formatted output and numbers, sorting and searching, and a heap whose blocks never overlap.
  \<^item> The shell (\<open>Shell_Props\<close>, \<open>Shell_Thms\<close>): the line editor stays inside its buffer, the arguments are the words
    of the line, completion offers the matching names in order and adds what they share.
  \<^item> Programs on the kernel (\<open>Dirent_Props\<close>, \<open>Dirent_Thms\<close>, \<open>Stream_Props\<close>, \<open>Programs_Props\<close>): \<open>readdir\<close>, \<open>fgets\<close> and
    the loop of \<open>cp\<close> run against the system calls of the kernel, through the memory of the process, and see
    and write exactly the directory and the files of the RAM file system, as long as names have at most the
    231 bytes \<open>getdents64\<close> has room for (locales \<^verbatim>\<open>dir_source\<close>, \<^verbatim>\<open>byte_source\<close>
    and \<open>copier\<close>).

  The interfaces between components are locales, each interpreted on the model: \<^verbatim>\<open>page_allocator\<close> in
  \<open>Mm\<close>, \<^verbatim>\<open>sector_store\<close> in \<open>Blk\<close>, the user memory of \<open>User_Space\<close>, the token laws of \<open>Fdt_Scan\<close>
  among them.

  \<^bold>\<open>What is not under the repository's control\<close> is a parameter: the virtio device and the registers of
  the board (\<open>Virtio\<close>, \<open>Firmware\<close>), the bytes the console delivers and the clock (\<open>Device\<close>), what a user program
  does between two traps (any sequence of system calls, in \<open>Kernel_Run\<close>), and the break call under the user
  heap.  The hypotheses on them are named where they are used and are met by the witnesses.

  \<^bold>\<open>Not modelled.\<close>  The assembly (\<^verbatim>\<open>*.S\<close>: entry, trap vectors, the context switch), whose effect is the
  step relation; messages on the console; \<^verbatim>\<open>kernel/selftest.c\<close>, a test driver; the control registers set by
  the firmware on its way out; the rest of \<^verbatim>\<open>user/lib\<close> (wrappers that only pass their arguments to a
  system call, and stubs for sockets, users, terminals and signals that return a constant or an error); what
  the shell does to carry a command out (it is a value of \<^verbatim>\<open>sh_cmd\<close>); the programs \<open>memtest\<close>, \<open>mkhello\<close>, \<open>poweroff\<close> and \<open>tcc\<close>; \<^verbatim>\<open>third_party\<close> (BusyBox and other vendored code); and the older kernels under
  \<^verbatim>\<open>src/Trae\<close>, which are separate and unfinished variants of the same program.
\<close>

end
